(* ===== verification/Prelude.thy ===== *)
theory Prelude
  imports Main "HOL-Library.Word" "HOL-Library.Monad_Syntax"
begin

text \<open>
  Shared vocabulary of the development: the machine integer types of the C sources, the
  errno values the library returns, the C string helpers the sources call, bounds-checked
  array access, and the generic lemmas on words and lists that the component theories use.
\<close>

unbundle bit_operations_syntax

section \<open>Machine integers\<close>

type_synonym u8 = "8 word"
type_synonym u16 = "16 word"
type_synonym u32 = "32 word"
type_synonym u64 = "64 word"

section \<open>Return codes and the C library helpers\<close>

text \<open>The Linux errno values the sources return, negated, or store in \<^verbatim>\<open>rte_errno\<close>.\<close>

abbreviation ENOENT :: int where "ENOENT \<equiv> 2"
abbreviation ENOMEM :: int where "ENOMEM \<equiv> 12"
abbreviation EEXIST :: int where "EEXIST \<equiv> 17"
abbreviation EINVAL :: int where "EINVAL \<equiv> 22"
abbreviation ENOSPC :: int where "ENOSPC \<equiv> 28"
abbreviation ENAMETOOLONG :: int where "ENAMETOOLONG \<equiv> 36"
abbreviation ENOBUFS :: int where "ENOBUFS \<equiv> 105"

text \<open>
  \<^verbatim>\<open>snprintf(buf, n, "%s", s)\<close>: what the buffer holds afterwards and the returned length, which
  counts the characters that did not fit too. C strings are character lists without the final NUL.
\<close>

definition snprintf_str :: "nat \<Rightarrow> string \<Rightarrow> string \<times> int" where
  "snprintf_str n s = (take (n - 1) s, int (length s))"

text \<open>\<^verbatim>\<open>strncmp(a, b, n) == 0\<close>.\<close>

definition strneq :: "nat \<Rightarrow> string \<Rightarrow> string \<Rightarrow> bool" where
  "strneq n a b = (take n a = take n b)"

lemma strneq_bounded: "length b < n \<Longrightarrow> strneq n a b \<longleftrightarrow> a = b"
  unfolding strneq_def by (metis length_take min_less_iff_conj nat_neq_iff order_less_imp_le take_all)

text \<open>Array accesses; an access outside the array is \<open>None\<close>.\<close>

definition arr_get :: "'a list \<Rightarrow> u32 \<Rightarrow> 'a option" where
  "arr_get xs i = (if unat i < length xs then Some (xs ! unat i) else None)"

definition arr_set :: "'a list \<Rightarrow> u32 \<Rightarrow> 'a \<Rightarrow> 'a list option" where
  "arr_set xs i v = (if unat i < length xs then Some (xs[unat i := v]) else None)"

section \<open>Lemmas on words and counters\<close>

named_theorems word_nat \<open>translations of machine words to natural numbers\<close>

lemma unat_add_no_overflow [word_nat]:
  "unat (a :: 'a::len word) + unat b < 2 ^ LENGTH('a) \<Longrightarrow> unat (a + b) = unat a + unat b"
  by (simp add: unat_word_ariths)

lemma unat_sub_no_underflow [word_nat]:
  "b \<le> (a :: 'a::len word) \<Longrightarrow> unat (a - b) = unat a - unat b"
  by (rule unat_sub)

lemma unat_lt_pow: "unat (a :: 'a::len word) < 2 ^ LENGTH('a)"
  by (rule unsigned_less)

lemma unat_of_nat_small [word_nat]:
  "n < 2 ^ LENGTH('a) \<Longrightarrow> unat (of_nat n :: 'a::len word) = n"
  by (simp add: unat_of_nat)

lemma of_nat_diff_word: "m \<le> n \<Longrightarrow> (of_nat n - of_nat m :: 'a::len word) = of_nat (n - m)"
  by (simp add: of_nat_diff)

text \<open>The difference of two free-running counters, read modulo the word size.\<close>

lemma unat_counter_diff:
  assumes "m \<le> n" and "n - m < 2 ^ LENGTH('a)"
  shows "unat (of_nat n - of_nat m :: 'a::len word) = n - m"
  unfolding of_nat_diff_word [OF assms(1)] using assms(2) by (rule unat_of_nat_small)

lemma unat_and_mask: "unat ((x :: 'a::len word) AND mask k) = unat x mod 2 ^ k"
  by (simp only: unsigned_take_bit_eq take_bit_eq_mod [where 'a = nat] flip: take_bit_eq_mask)

lemma unat_mask [word_nat]:
  assumes "k \<le> LENGTH('a)"
  shows "unat (mask k :: 'a::len word) = 2 ^ k - 1"
proof -
  have "unat (mask k :: 'a word) = mask k"
    using assms by transfer (simp add: min_def nat_mask_eq)
  then show ?thesis by (simp add: mask_eq_exp_minus_1)
qed

lemma ucast_pow2 [simp]:
  "k < LENGTH('b) \<Longrightarrow> (ucast (2 ^ k :: 'b::len word) :: 'a::len word) = 2 ^ k"
  by (rule bit_word_eqI) (auto simp: bit_simps)

lemma unat_ucast64: "unat (ucast (x :: u32) :: u64) = unat x"
  using unat_lt_pow [of x] by (simp add: unsigned_ucast_eq take_bit_nat_eq_self)

lemma unat_pow2 [word_nat]: "k < LENGTH('a) \<Longrightarrow> unat (2 ^ k :: 'a::len word) = 2 ^ k"
  by transfer (simp add: take_bit_eq_mod nat_power_eq)

lemma ex_less_add: "(\<exists>j < s + t. P j) \<longleftrightarrow> (\<exists>j < s. P j) \<or> (\<exists>j < (t::nat). P (s + j))"
proof
  assume "\<exists>j < s + t. P j"
  then obtain j where j: "j < s + t" "P j" by blast
  show "(\<exists>j < s. P j) \<or> (\<exists>j < t. P (s + j))"
  proof (cases "j < s")
    case False
    then have "P (s + (j - s)) \<and> j - s < t" using j by simp
    then show ?thesis by blast
  qed (use j in blast)
next
  assume "(\<exists>j < s. P j) \<or> (\<exists>j < t. P (s + j))"
  then show "\<exists>j < s + t. P j"
    using trans_less_add1 nat_add_left_cancel_less by blast
qed

section \<open>Copying between arrays\<close>

text \<open>\<open>m\<close> elements of \<open>src\<close>, from index \<open>si\<close>, over those of \<open>dst\<close> from index \<open>di\<close>.\<close>

definition copy_slice :: "'a list \<Rightarrow> nat \<Rightarrow> 'a list \<Rightarrow> nat \<Rightarrow> nat \<Rightarrow> 'a list" where
  "copy_slice src si dst di m =
     map (\<lambda>k. if di \<le> k \<and> k < di + m then src ! (si + (k - di)) else dst ! k) [0..<length dst]"

lemma length_copy_slice [simp]: "length (copy_slice src si dst di m) = length dst"
  by (simp add: copy_slice_def)

lemma nth_copy_slice:
  "k < length dst \<Longrightarrow>
   copy_slice src si dst di m ! k =
     (if di \<le> k \<and> k < di + m then src ! (si + (k - di)) else dst ! k)"
  by (simp add: copy_slice_def)

lemma copy_slice_0 [simp]: "copy_slice src si dst di 0 = dst"
  by (rule nth_equalityI) (auto simp: nth_copy_slice)

lemma copy_slice_step:
  "di < length dst \<Longrightarrow>
   copy_slice src (Suc si) (dst[di := src ! si]) (Suc di) m = copy_slice src si dst di (Suc m)"
  by (rule nth_equalityI) (auto simp: nth_copy_slice nth_list_update Suc_diff_le [symmetric] not_le
      dest: Suc_diff_Suc intro!: arg_cong [where f = "nth src"])

lemma copy_slice_append:
  "copy_slice src (si + a) (copy_slice src si dst di a) (di + a) b = copy_slice src si dst di (a + b)"
  by (rule nth_equalityI) (auto simp: nth_copy_slice)

section \<open>Results of calls\<close>

text \<open>
  \<open>None\<close>: the call never returns; \<open>Some (Inl msg)\<close>: it ends in \<^verbatim>\<open>rte_panic\<close> or in a memory fault;
  \<open>Some (Inr x)\<close>: it returns.
\<close>

type_synonym 'a res = "(string + 'a) option"

definition res_bind :: "'a res \<Rightarrow> ('a \<Rightarrow> 'b res) \<Rightarrow> 'b res" where
  "res_bind x f = (case x of None \<Rightarrow> None | Some (Inl e) \<Rightarrow> Some (Inl e) | Some (Inr a) \<Rightarrow> f a)"

abbreviation ret :: "'a \<Rightarrow> 'a res" where "ret x \<equiv> Some (Inr x)"
abbreviation abort :: "string \<Rightarrow> 'a res" where "abort msg \<equiv> Some (Inl msg)"

definition lift_opt :: "'a option \<Rightarrow> 'a res" where "lift_opt x = map_option Inr x"

lemma res_bind_simps [simp]:
  "res_bind None f = None" "res_bind (abort e) f = abort e" "res_bind (ret a) f = f a"
  by (simp_all add: res_bind_def)

lemma lift_opt_simps [simp]: "lift_opt None = None" "lift_opt (Some x) = ret x"
  by (simp_all add: lift_opt_def)

section \<open>Linear search in a table\<close>

text \<open>The first index whose entry satisfies the condition: a \<^verbatim>\<open>for\<close> loop over an array that returns.\<close>

fun first_index :: "('a \<Rightarrow> bool) \<Rightarrow> 'a list \<Rightarrow> nat option" where
  "first_index P [] = None"
| "first_index P (x # xs) = (if P x then Some 0 else map_option Suc (first_index P xs))"

lemma first_index_Some:
  "first_index P xs = Some i \<longleftrightarrow> i < length xs \<and> P (xs ! i) \<and> (\<forall>j < i. \<not> P (xs ! j))"
proof (induction xs arbitrary: i)
  case (Cons x xs)
  then show ?case by (cases i) (auto simp: less_Suc_eq_0_disj nth_Cons split: nat.splits)
qed simp

lemma first_index_None: "first_index P xs = None \<longleftrightarrow> (\<forall>x \<in> set xs. \<not> P x)"
  by (induction xs) auto

lemma first_index_unique:
  assumes "i < length xs" "P (xs ! i)" "\<And>j. j < length xs \<Longrightarrow> P (xs ! j) \<Longrightarrow> j = i"
  shows "first_index P xs = Some i"
  unfolding first_index_Some
proof (intro conjI allI impI notI)
  fix j assume j: "j < i" "P (xs ! j)"
  have "j = i" by (rule assms(3)) (use j assms(1) in simp_all)
  then show False using j(1) by simp
qed (rule assms(1,2))+

lemma map_eqI: "(\<And>x y. f x = Some y \<longleftrightarrow> g x = Some y) \<Longrightarrow> f = g"
  by (rule ext) (metis option.exhaust)

lemma first_index_update_miss:
  assumes "i < length xs" "\<not> P (xs ! i)" "\<not> P y"
  shows "first_index P (xs[i := y]) = first_index P xs"
  using assms by (induction xs arbitrary: i) (auto split: nat.splits)

end
