(* ===== verification/Common.thy ===== *)
theory Common
  imports Prelude
begin

text \<open>
  The pointer, alignment and power-of-two helpers of \<^verbatim>\<open>common/include/rte_common.h\<close> and
  the cache-line rounding macro of \<^verbatim>\<open>common/include/rte_memory.h\<close>, over machine words, with
  the arithmetic laws the allocator, the ring and the mempool rely on.
\<close>

section \<open>Options of the build\<close>

definition RTE_MAX_LCORE :: u32 where "RTE_MAX_LCORE = 128"
definition RTE_MAX_NUMA_NODES :: nat where "RTE_MAX_NUMA_NODES = 8"
definition RTE_MAX_MEMSEG :: nat where "RTE_MAX_MEMSEG = 256"
definition SOCKET_ID_ANY :: int where "SOCKET_ID_ANY = -1"

datatype rte_proc_type_t = RTE_PROC_AUTO | RTE_PROC_PRIMARY | RTE_PROC_SECONDARY | RTE_PROC_INVALID

section \<open>Pointer arithmetic and alignment macros\<close>

definition RTE_PTR_ADD :: "u64 \<Rightarrow> u64 \<Rightarrow> u64" where
  "RTE_PTR_ADD ptr x = ptr + x"

definition RTE_PTR_SUB :: "u64 \<Rightarrow> u64 \<Rightarrow> u64" where
  "RTE_PTR_SUB ptr x = ptr - x"

definition RTE_PTR_DIFF :: "u64 \<Rightarrow> u64 \<Rightarrow> u64" where
  "RTE_PTR_DIFF ptr1 ptr2 = ptr1 - ptr2"

text \<open>The alignment may have another C type than the value; it is cast after the subtraction.\<close>

definition RTE_ALIGN_FLOOR :: "'a::len word \<Rightarrow> 'b::len word \<Rightarrow> 'a word" where
  "RTE_ALIGN_FLOOR val align = val AND NOT (ucast (align - 1))"

definition RTE_PTR_ALIGN_FLOOR :: "u64 \<Rightarrow> 'b::len word \<Rightarrow> u64" where
  "RTE_PTR_ALIGN_FLOOR ptr align = RTE_ALIGN_FLOOR ptr align"

definition RTE_PTR_ALIGN_CEIL :: "u64 \<Rightarrow> 'b::len word \<Rightarrow> u64" where
  "RTE_PTR_ALIGN_CEIL ptr align = RTE_PTR_ALIGN_FLOOR (RTE_PTR_ADD ptr (ucast (align - 1))) align"

definition RTE_ALIGN_CEIL :: "'a::len word \<Rightarrow> 'b::len word \<Rightarrow> 'a word" where
  "RTE_ALIGN_CEIL val align = RTE_ALIGN_FLOOR (val + (ucast align - 1)) align"

definition RTE_PTR_ALIGN :: "u64 \<Rightarrow> 'b::len word \<Rightarrow> u64" where
  "RTE_PTR_ALIGN ptr align = RTE_PTR_ALIGN_CEIL ptr align"

definition RTE_ALIGN :: "'a::len word \<Rightarrow> 'b::len word \<Rightarrow> 'a word" where
  "RTE_ALIGN val align = RTE_ALIGN_CEIL val align"

definition rte_is_aligned :: "u64 \<Rightarrow> u32 \<Rightarrow> bool" where
  "rte_is_aligned ptr align = (RTE_PTR_ALIGN ptr align = ptr)"

section \<open>Powers of two\<close>

definition rte_is_power_of_2 :: "u32 \<Rightarrow> bool" where
  "rte_is_power_of_2 n = (n \<noteq> 0 \<and> n AND (n - 1) = 0)"

text \<open>One line \<open>x |= x >> s\<close> of the bit smearing.\<close>

definition smear :: "nat \<Rightarrow> 'a::len word \<Rightarrow> 'a word" where
  "smear s x = x OR drop_bit s x"

definition rte_align32pow2 :: "u32 \<Rightarrow> u32" where
  "rte_align32pow2 x =
     (let x = x - 1; x = smear 1 x; x = smear 2 x; x = smear 4 x; x = smear 8 x;
          x = smear 16 x
      in x + 1)"

definition rte_align64pow2 :: "u64 \<Rightarrow> u64" where
  "rte_align64pow2 v =
     (let v = v - 1; v = smear 1 v; v = smear 2 v; v = smear 4 v; v = smear 8 v;
          v = smear 16 v; v = smear 32 v
      in v + 1)"

definition RTE_MIN :: "'a::linorder \<Rightarrow> 'a \<Rightarrow> 'a" where
  "RTE_MIN a b = (if a < b then a else b)"

definition RTE_MAX :: "'a::linorder \<Rightarrow> 'a \<Rightarrow> 'a" where
  "RTE_MAX a b = (if a > b then a else b)"

text \<open>
  \<^verbatim>\<open>__builtin_ctz\<close> counts trailing zero bits and is undefined on 0, which is \<open>None\<close> here.
\<close>

fun ctz_from :: "nat \<Rightarrow> nat \<Rightarrow> 'a::len word \<Rightarrow> nat" where
  "ctz_from 0 i v = i"
| "ctz_from (Suc k) i v = (if bit v i then i else ctz_from k (Suc i) v)"

definition rte_bsf32 :: "u32 \<Rightarrow> u32 option" where
  "rte_bsf32 v = (if v = 0 then None else Some (of_nat (ctz_from 32 0 v)))"

definition rte_log2_u32 :: "u32 \<Rightarrow> u32 option" where
  "rte_log2_u32 v = (if v = 0 then Some 0 else rte_bsf32 (rte_align32pow2 v))"

section \<open>Cache line rounding\<close>

definition RTE_CACHE_LINE_SIZE :: "'a::len word" where
  "RTE_CACHE_LINE_SIZE = 64"

definition RTE_CACHE_LINE_MASK :: "'a::len word" where
  "RTE_CACHE_LINE_MASK = RTE_CACHE_LINE_SIZE - 1"

definition RTE_CACHE_LINE_ROUNDUP :: "'a::len word \<Rightarrow> 'a word" where
  "RTE_CACHE_LINE_ROUNDUP sz =
     RTE_CACHE_LINE_SIZE * ((sz + RTE_CACHE_LINE_SIZE - 1) div RTE_CACHE_LINE_SIZE)"

text \<open>The size of the name arrays, \<^verbatim>\<open>rte_memzone.h\<close>.\<close>

definition RTE_MEMZONE_NAMESIZE :: nat where "RTE_MEMZONE_NAMESIZE = 32"

section \<open>Laws of the alignment macros\<close>

lemma and_not_mask: "(x :: 'a::len word) AND NOT (mask k) = x - (x AND mask k)"
proof -
  have "(x AND NOT (mask k)) + (x AND mask k) = (x AND NOT (mask k)) OR (x AND mask k)"
    by (rule disjunctive_add) (auto simp: bit_simps)
  also have "\<dots> = x"
    by (auto simp: bit_eq_iff bit_simps)
  finally show ?thesis by (simp add: algebra_simps)
qed

lemma unat_and_not_mask:
  "unat ((x :: 'a::len word) AND NOT (mask k)) = unat x - unat x mod 2 ^ k"
proof -
  have "x AND mask k \<le> x" by (rule word_and_le2)
  then show ?thesis by (simp add: and_not_mask unat_sub unat_and_mask)
qed

lemma ucast_pow2_minus_1:
  assumes "k < LENGTH('b)"
  shows "ucast (2 ^ k - 1 :: 'b::len word) = (mask k :: 'a::len word)"
  using assms by (simp add: flip: mask_eq_decr_exp) (auto simp: bit_eq_iff bit_simps)

lemma align_floor_pow2:
  assumes "k < LENGTH('b)"
  shows "unat (RTE_ALIGN_FLOOR (val :: 'a::len word) (2 ^ k :: 'b::len word)) =
         unat val - unat val mod 2 ^ k"
  unfolding RTE_ALIGN_FLOOR_def by (simp add: ucast_pow2_minus_1 [OF assms] unat_and_not_mask)

lemma align_floor_le: "RTE_ALIGN_FLOOR (val :: 'a::len word) (align :: 'b::len word) \<le> val"
  unfolding RTE_ALIGN_FLOOR_def by (rule word_and_le2)

lemma align_ceil_pow2:
  assumes "k < LENGTH('b)" and "k < LENGTH('a)"
    and "unat val + 2 ^ k \<le> 2 ^ LENGTH('a)"
  shows "unat (RTE_ALIGN_CEIL (val :: 'a::len word) (2 ^ k :: 'b::len word)) =
         (unat val + (2 ^ k - 1)) - (unat val + (2 ^ k - 1)) mod 2 ^ k"
proof -
  have c: "(ucast (2 ^ k :: 'b word) - 1 :: 'a word) = mask k"
    using assms(1) by (simp add: mask_eq_decr_exp)
  have "unat (val + mask k) = unat val + (2 ^ k - 1)"
  proof (subst unat_add_no_overflow)
    show "unat val + unat (mask k :: 'a word) < 2 ^ LENGTH('a)"
      using assms(2,3) zero_less_power [of "2::nat" k] by (simp only: unat_mask less_imp_le) linarith
  qed (use assms(2) in \<open>simp add: unat_mask\<close>)
  then show ?thesis
    unfolding RTE_ALIGN_CEIL_def c by (simp add: align_floor_pow2 [OF assms(1)])
qed

section \<open>Correctness of the power-of-two helpers\<close>

text \<open>
  \<open>smears s y x\<close>: bit \<open>n\<close> of \<open>y\<close> is set iff one of the bits \<open>n .. n + s - 1\<close> of \<open>x\<close> is.
  Each line of the bit smearing doubles the reach.
\<close>

definition smears :: "nat \<Rightarrow> 'a::len word \<Rightarrow> 'a word \<Rightarrow> bool" where
  "smears s x y \<longleftrightarrow> (\<forall>n. bit y n \<longleftrightarrow> (\<exists>j < s. bit x (n + j)))"

lemma smears_init: "smears 1 x x"
  by (simp add: smears_def)

lemma smears_double:
  assumes "smears s x y"
  shows "smears (s + s) x (smear s y)"
  using assms by (simp add: smears_def smear_def bit_simps ex_less_add add.commute add.left_commute)

lemma smears_full:
  assumes "smears LENGTH('a) x (y :: 'a::len word)"
  shows "bit y n \<longleftrightarrow> (\<exists>m \<ge> n. bit x m)"
proof
  assume "\<exists>m \<ge> n. bit x m"
  then obtain m where m: "m \<ge> n" "bit x m" by blast
  from \<open>bit x m\<close> have "m < LENGTH('a)" by (rule bit_imp_le_length)
  then show "bit y n"
    using m assms unfolding smears_def by (metis le_add_diff_inverse less_imp_diff_less)
next
  assume "bit y n"
  then show "\<exists>m \<ge> n. bit x m" using assms le_add1 unfolding smears_def by blast
qed

text \<open>The smeared word is the mask up to the highest bit of \<open>x\<close>.\<close>

lemma smears_mask:
  assumes sm: "smears LENGTH('a) x (y :: 'a::len word)"
    and lo: "\<forall>m \<ge> k. \<not> bit x m" and hi: "k = 0 \<or> bit x (k - 1)"
  shows "y = mask k"
proof (rule bit_word_eqI)
  fix n assume "n < LENGTH('a)"
  show "bit y n \<longleftrightarrow> bit (mask k :: 'a word) n"
  proof (cases "n < k")
    case True
    with hi have "bit x (k - 1)" "n \<le> k - 1" by auto
    then show ?thesis using True \<open>n < LENGTH('a)\<close> by (auto simp: smears_full [OF sm] bit_simps)
  next
    case False
    then show ?thesis using lo by (auto simp: smears_full [OF sm] bit_simps)
  qed
qed

text \<open>Every word is below the power of two given by its highest bit, and not below half of it.\<close>

lemma word_bit_length:
  obtains k where "k \<le> LENGTH('a)" "\<forall>m \<ge> k. \<not> bit (x :: 'a::len word) m"
    and "k = 0 \<or> bit x (k - 1)"
proof -
  define k where "k = (LEAST k. \<forall>m \<ge> k. \<not> bit x m)"
  have ex: "\<forall>m \<ge> LENGTH('a). \<not> bit x m" using bit_imp_le_length by (metis leD)
  then have lo: "\<forall>m \<ge> k. \<not> bit x m" unfolding k_def by (rule LeastI)
  have "k \<le> LENGTH('a)" unfolding k_def using ex by (rule Least_le)
  moreover have "k = 0 \<or> bit x (k - 1)"
  proof (rule disjCI)
    assume nb: "\<not> bit x (k - 1)"
    show "k = 0"
    proof (rule ccontr)
      assume "k \<noteq> 0"
      have "\<forall>m \<ge> k - 1. \<not> bit x m"
      proof (intro allI impI)
        fix m assume "m \<ge> k - 1"
        then show "\<not> bit x m" using nb lo by (cases "m = k - 1") auto
      qed
      then have "k \<le> k - 1" unfolding k_def by (rule Least_le)
      with \<open>k \<noteq> 0\<close> show False by simp
    qed
  qed
  ultimately show thesis using lo that by blast
qed

lemma unat_lt_bit_length:
  assumes "\<forall>m \<ge> k. \<not> bit (x :: 'a::len word) m"
  shows "unat x < 2 ^ k"
proof -
  have "x = take_bit k x"
    using assms by (intro bit_word_eqI) (auto simp: bit_simps not_le)
  then have "unat x = unat x mod 2 ^ k"
    by (metis take_bit_eq_mod unsigned_take_bit_eq)
  then show ?thesis by (metis mod_less_divisor zero_less_numeral zero_less_power)
qed

lemma unat_ge_bit:
  assumes "bit (x :: 'a::len word) k"
  shows "2 ^ k \<le> unat x"
proof (rule ccontr)
  assume "\<not> 2 ^ k \<le> unat x"
  then have "unat x div 2 ^ k = 0" by simp
  moreover have "bit (unat x) k" using assms by (simp add: bit_unsigned_iff)
  ultimately show False by (simp add: bit_iff_odd)
qed

text \<open>
  \<open>smeared_pow2\<close>: smearing \<open>x - 1\<close> over the whole width and adding one gives the least power
  of two that is not below \<open>x\<close>, or 0 when that power does not fit in the width.
\<close>

lemma smeared_pow2:
  fixes x :: "'a::len word"
  assumes sm: "smears LENGTH('a) (x - 1) y" and x: "x \<noteq> 0"
  obtains k where "k \<le> LENGTH('a)" "y + 1 = 2 ^ k" "unat x \<le> 2 ^ k"
    "\<And>j. unat x \<le> 2 ^ j \<Longrightarrow> k \<le> j"
proof -
  obtain k where k: "k \<le> LENGTH('a)" "\<forall>m \<ge> k. \<not> bit (x - 1) m" "k = 0 \<or> bit (x - 1) (k - 1)"
    by (rule word_bit_length)
  have ux: "unat (x - 1) = unat x - 1" "0 < unat x"
    using x by (simp_all add: unat_minus_one unat_gt_0)
  have "y = mask k" using sm k(2,3) by (rule smears_mask)
  then have "y + 1 = 2 ^ k" by (simp add: mask_eq_decr_exp)
  moreover have "unat x \<le> 2 ^ k" using unat_lt_bit_length [OF k(2)] ux by simp
  moreover have "k \<le> j" if "unat x \<le> 2 ^ j" for j
  proof (rule ccontr)
    assume "\<not> k \<le> j"
    then have "k \<noteq> 0" "j \<le> k - 1" by auto
    then have "2 ^ j \<le> (2::nat) ^ (k - 1)" by (simp add: power_increasing)
    also have "\<dots> \<le> unat (x - 1)" using k(3) \<open>k \<noteq> 0\<close> by (auto intro: unat_ge_bit)
    finally show False using that ux by simp
  qed
  ultimately show thesis using that k(1) by blast
qed

lemma rte_align32pow2_smears:
  "smears LENGTH(32) (x - 1) (rte_align32pow2 x - 1)"
  using smears_double [OF smears_double [OF smears_double [OF smears_double [OF
    smears_double [OF smears_init [of "x - 1"]]]]]]
  by (simp add: rte_align32pow2_def Let_def del: One_nat_def)

lemma rte_align64pow2_smears:
  "smears LENGTH(64) (x - 1) (rte_align64pow2 x - 1)"
  using smears_double [OF smears_double [OF smears_double [OF smears_double [OF
    smears_double [OF smears_double [OF smears_init [of "x - 1"]]]]]]]
  by (simp add: rte_align64pow2_def Let_def del: One_nat_def)

text \<open>
  What the ring and the mempool use of \<open>rte_align32pow2\<close>: below \<open>2\<^sup>3\<^sup>1\<close> the result is the
  least power of two not below the argument; above it the 32-bit result wraps to 0.
\<close>

lemma rte_align32pow2_correct:
  assumes "x \<noteq> 0"
  obtains k where "k \<le> 32" "rte_align32pow2 x = 2 ^ k" "unat x \<le> 2 ^ k"
    "\<And>j. unat x \<le> 2 ^ j \<Longrightarrow> k \<le> j"
proof (rule smeared_pow2 [OF rte_align32pow2_smears assms])
  fix k assume "k \<le> LENGTH(32)" "rte_align32pow2 x - 1 + 1 = 2 ^ k" "unat x \<le> 2 ^ k"
    and "\<And>j. unat x \<le> 2 ^ j \<Longrightarrow> k \<le> j"
  then show thesis by (intro that [of k]) simp_all
qed

lemma rte_align64pow2_correct:
  assumes "x \<noteq> 0"
  obtains k where "k \<le> 64" "rte_align64pow2 x = 2 ^ k" "unat x \<le> 2 ^ k"
    "\<And>j. unat x \<le> 2 ^ j \<Longrightarrow> k \<le> j"
proof (rule smeared_pow2 [OF rte_align64pow2_smears assms])
  fix k assume "k \<le> LENGTH(64)" "rte_align64pow2 x - 1 + 1 = 2 ^ k" "unat x \<le> 2 ^ k"
    and "\<And>j. unat x \<le> 2 ^ j \<Longrightarrow> k \<le> j"
  then show thesis by (intro that [of k]) simp_all
qed

text \<open>\<open>rte_is_power_of_2\<close> and \<open>POWEROF2\<close> recognise the powers of two (the latter also 0).\<close>

lemma pow2_and_pred: "(2 ^ k :: 'a::len word) AND (2 ^ k - 1) = 0"
  unfolding mask_eq_decr_exp [symmetric] by (rule bit_word_eqI) (auto simp: bit_simps)

lemma and_pred_eq_0_pow2:
  fixes n :: "'a::len word"
  assumes "n AND (n - 1) = 0" and "n \<noteq> 0"
  obtains k where "k < LENGTH('a)" "n = 2 ^ k"
proof -
  obtain k where k: "k \<le> LENGTH('a)" "\<forall>m \<ge> k. \<not> bit n m" "k = 0 \<or> bit n (k - 1)"
    by (rule word_bit_length)
  have "k \<noteq> 0"
  proof
    assume "k = 0"
    then have "unat n < 2 ^ 0" using k(2) by (intro unat_lt_bit_length) auto
    then show False using assms(2) by (simp add: unat_eq_0)
  qed
  then have top: "bit n (k - 1)" "k - 1 < LENGTH('a)" using k(1,3) by auto
  have "n = 2 ^ (k - 1)"
  proof (rule ccontr)
    assume ne: "n \<noteq> 2 ^ (k - 1)"
    have "2 ^ (k - 1) \<le> unat n" using top(1) by (rule unat_ge_bit)
    moreover have "unat n \<noteq> 2 ^ (k - 1)" using ne top(2) by (metis unat_pow2 word_unat_eq_iff)
    ultimately have ge: "2 ^ (k - 1) \<le> unat n - 1" "unat n < 2 ^ k"
      using unat_lt_bit_length [OF k(2)] by auto
    have "bit (n - 1) (k - 1)"
    proof -
      have "(2::nat) ^ k = 2 * 2 ^ (k - 1)"
        using \<open>k \<noteq> 0\<close> by (simp flip: power_Suc)
      then have "(unat n - 1) div 2 ^ (k - 1) = 1"
        using ge by (intro div_nat_eqI) simp_all
      then have "bit (unat (n - 1)) (k - 1)"
        using assms(2) by (simp add: bit_iff_odd unat_minus_one)
      then show ?thesis by (simp add: bit_unsigned_iff)
    qed
    with top have "bit (n AND (n - 1)) (k - 1)" by (simp add: bit_simps)
    then show False using assms(1) by simp
  qed
  with top(2) that show thesis by blast
qed

lemma rte_is_power_of_2_iff: "rte_is_power_of_2 n \<longleftrightarrow> (\<exists>k < 32. n = 2 ^ k)"
proof
  assume "rte_is_power_of_2 n"
  then have "n AND (n - 1) = 0" "n \<noteq> 0" by (simp_all add: rte_is_power_of_2_def)
  then obtain k where "k < LENGTH(32)" "n = 2 ^ k" by (rule and_pred_eq_0_pow2)
  then show "\<exists>k < 32. n = 2 ^ k" by auto
next
  assume "\<exists>k < 32. n = 2 ^ k"
  then obtain k where k: "k < 32" "n = 2 ^ k" by blast
  then have "unat n = 2 ^ k" by (simp add: unat_pow2)
  then have "n \<noteq> 0" by (metis power_not_zero unat_0 zero_neq_numeral)
  with k show "rte_is_power_of_2 n" by (simp add: rte_is_power_of_2_def pow2_and_pred)
qed

end
