(* ===== verification/Atomic.thy ===== *)
theory Atomic
  imports Prelude
begin

text \<open>
  The atomic read-modify-write operations: the compiler-intrinsic versions and the common
  operations of \<^verbatim>\<open>common/include/generic/rte_atomic.h\<close>, the x86 versions of
  \<^verbatim>\<open>arch/x86/rte_atomic.h\<close> and \<^verbatim>\<open>rte_atomic_64.h\<close>, and the i686 versions of the 64-bit operations
  of \<^verbatim>\<open>rte_atomic_32.h\<close>, which are loops around an eight-byte compare-and-exchange. An operation
  maps the value of the counter to its new value, with the result where there is one; each is one
  atomic step. The theorems show the three implementations equal.
\<close>

section \<open>Instructions and intrinsics\<close>

text \<open>
  The memory operand and the zero flag after \<^verbatim>\<open>cmpxchg\<close>, \<^verbatim>\<open>inc\<close> and \<^verbatim>\<open>dec\<close>; \<^verbatim>\<open>xadd\<close> leaves the old
  value of the memory operand in the register.
\<close>

definition x86_cmpxchg :: "'a::len word \<Rightarrow> 'a word \<Rightarrow> 'a word \<Rightarrow> 'a word \<times> bool" where
  "x86_cmpxchg mem acc src = (if mem = acc then (src, True) else (mem, False))"

definition x86_inc :: "'a::len word \<Rightarrow> 'a word \<times> bool" where
  "x86_inc mem = (mem + 1, mem + 1 = 0)"

definition x86_dec :: "'a::len word \<Rightarrow> 'a word \<times> bool" where
  "x86_dec mem = (mem - 1, mem - 1 = 0)"

definition x86_xadd :: "'a::len word \<Rightarrow> 'a word \<Rightarrow> 'a word \<times> 'a word" where
  "x86_xadd mem reg = (mem + reg, mem)"

text \<open>The operand of \<^verbatim>\<open>cmpxchg8b\<close> is compared and replaced as two register halves.\<close>

definition lo32 :: "u64 \<Rightarrow> u32" where "lo32 x = ucast x"
definition hi32 :: "u64 \<Rightarrow> u32" where "hi32 x = ucast (drop_bit 32 x)"
definition join32 :: "u32 \<Rightarrow> u32 \<Rightarrow> u64" where "join32 h l = push_bit 32 (ucast h) OR ucast l"

definition x86_cmpxchg8b :: "u64 \<Rightarrow> u32 \<Rightarrow> u32 \<Rightarrow> u32 \<Rightarrow> u32 \<Rightarrow> u64 \<times> bool" where
  "x86_cmpxchg8b mem edx eax ecx ebx =
     (if mem = join32 edx eax then (join32 ecx ebx, True) else (mem, False))"

text \<open>The gcc \<^verbatim>\<open>__sync\<close> builtins: the new value of the memory operand and the result.\<close>

definition sync_bool_compare_and_swap :: "'a::len word \<Rightarrow> 'a word \<Rightarrow> 'a word \<Rightarrow> 'a word \<times> bool" where
  "sync_bool_compare_and_swap mem old new = (if mem = old then (new, True) else (mem, False))"

definition sync_fetch_and_add :: "'a::len word \<Rightarrow> 'a word \<Rightarrow> 'a word \<times> 'a word" where
  "sync_fetch_and_add mem v = (mem + v, mem)"

definition sync_fetch_and_sub :: "'a::len word \<Rightarrow> 'a word \<Rightarrow> 'a word \<times> 'a word" where
  "sync_fetch_and_sub mem v = (mem - v, mem)"

definition sync_add_and_fetch :: "'a::len word \<Rightarrow> 'a word \<Rightarrow> 'a word \<times> 'a word" where
  "sync_add_and_fetch mem v = (mem + v, mem + v)"

definition sync_sub_and_fetch :: "'a::len word \<Rightarrow> 'a word \<Rightarrow> 'a word \<times> 'a word" where
  "sync_sub_and_fetch mem v = (mem - v, mem - v)"

type_synonym rte_atomic16_t = u16
type_synonym rte_atomic32_t = u32
type_synonym rte_atomic64_t = u64

section \<open>16-bit operations\<close>

definition rte_atomic16_init :: "rte_atomic16_t \<Rightarrow> rte_atomic16_t" where
  "rte_atomic16_init v = 0"

definition rte_atomic16_read :: "rte_atomic16_t \<Rightarrow> u16" where
  "rte_atomic16_read v = v"

definition rte_atomic16_set :: "rte_atomic16_t \<Rightarrow> u16 \<Rightarrow> rte_atomic16_t" where
  "rte_atomic16_set v new_value = new_value"

definition rte_atomic16_add :: "rte_atomic16_t \<Rightarrow> u16 \<Rightarrow> rte_atomic16_t" where
  "rte_atomic16_add v inc = fst (sync_fetch_and_add v inc)"

definition rte_atomic16_sub :: "rte_atomic16_t \<Rightarrow> u16 \<Rightarrow> rte_atomic16_t" where
  "rte_atomic16_sub v dec = fst (sync_fetch_and_sub v dec)"

definition rte_atomic16_add_return :: "rte_atomic16_t \<Rightarrow> u16 \<Rightarrow> rte_atomic16_t \<times> u16" where
  "rte_atomic16_add_return v inc = sync_add_and_fetch v inc"

definition rte_atomic16_sub_return :: "rte_atomic16_t \<Rightarrow> u16 \<Rightarrow> rte_atomic16_t \<times> u16" where
  "rte_atomic16_sub_return v dec = sync_sub_and_fetch v dec"

definition rte_atomic16_clear :: "rte_atomic16_t \<Rightarrow> rte_atomic16_t" where
  "rte_atomic16_clear v = 0"

definition rte_atomic16_cmpset :: "u16 \<Rightarrow> u16 \<Rightarrow> u16 \<Rightarrow> u16 \<times> bool" where
  "rte_atomic16_cmpset dst exp src = x86_cmpxchg dst exp src"

definition rte_atomic16_test_and_set :: "rte_atomic16_t \<Rightarrow> rte_atomic16_t \<times> bool" where
  "rte_atomic16_test_and_set v = rte_atomic16_cmpset v 0 1"

definition rte_atomic16_inc :: "rte_atomic16_t \<Rightarrow> rte_atomic16_t" where
  "rte_atomic16_inc v = fst (x86_inc v)"

definition rte_atomic16_dec :: "rte_atomic16_t \<Rightarrow> rte_atomic16_t" where
  "rte_atomic16_dec v = fst (x86_dec v)"

definition rte_atomic16_inc_and_test :: "rte_atomic16_t \<Rightarrow> rte_atomic16_t \<times> bool" where
  "rte_atomic16_inc_and_test v = x86_inc v"

definition rte_atomic16_dec_and_test :: "rte_atomic16_t \<Rightarrow> rte_atomic16_t \<times> bool" where
  "rte_atomic16_dec_and_test v = x86_dec v"

text \<open>The versions for \<^verbatim>\<open>RTE_FORCE_INTRINSICS\<close>.\<close>

definition rte_atomic16_cmpset_intrin :: "u16 \<Rightarrow> u16 \<Rightarrow> u16 \<Rightarrow> u16 \<times> bool" where
  "rte_atomic16_cmpset_intrin dst exp src = sync_bool_compare_and_swap dst exp src"

definition rte_atomic16_inc_intrin :: "rte_atomic16_t \<Rightarrow> rte_atomic16_t" where
  "rte_atomic16_inc_intrin v = rte_atomic16_add v 1"

definition rte_atomic16_dec_intrin :: "rte_atomic16_t \<Rightarrow> rte_atomic16_t" where
  "rte_atomic16_dec_intrin v = rte_atomic16_sub v 1"

definition rte_atomic16_inc_and_test_intrin :: "rte_atomic16_t \<Rightarrow> rte_atomic16_t \<times> bool" where
  "rte_atomic16_inc_and_test_intrin v = (let (v, r) = sync_add_and_fetch v 1 in (v, r = 0))"

definition rte_atomic16_dec_and_test_intrin :: "rte_atomic16_t \<Rightarrow> rte_atomic16_t \<times> bool" where
  "rte_atomic16_dec_and_test_intrin v = (let (v, r) = sync_sub_and_fetch v 1 in (v, r = 0))"

definition rte_atomic16_test_and_set_intrin :: "rte_atomic16_t \<Rightarrow> rte_atomic16_t \<times> bool" where
  "rte_atomic16_test_and_set_intrin v = rte_atomic16_cmpset_intrin v 0 1"

section \<open>32-bit operations\<close>

definition rte_atomic32_init :: "rte_atomic32_t \<Rightarrow> rte_atomic32_t" where
  "rte_atomic32_init v = 0"

definition rte_atomic32_read :: "rte_atomic32_t \<Rightarrow> u32" where
  "rte_atomic32_read v = v"

definition rte_atomic32_set :: "rte_atomic32_t \<Rightarrow> u32 \<Rightarrow> rte_atomic32_t" where
  "rte_atomic32_set v new_value = new_value"

definition rte_atomic32_add :: "rte_atomic32_t \<Rightarrow> u32 \<Rightarrow> rte_atomic32_t" where
  "rte_atomic32_add v inc = fst (sync_fetch_and_add v inc)"

definition rte_atomic32_sub :: "rte_atomic32_t \<Rightarrow> u32 \<Rightarrow> rte_atomic32_t" where
  "rte_atomic32_sub v dec = fst (sync_fetch_and_sub v dec)"

definition rte_atomic32_add_return :: "rte_atomic32_t \<Rightarrow> u32 \<Rightarrow> rte_atomic32_t \<times> u32" where
  "rte_atomic32_add_return v inc = sync_add_and_fetch v inc"

definition rte_atomic32_sub_return :: "rte_atomic32_t \<Rightarrow> u32 \<Rightarrow> rte_atomic32_t \<times> u32" where
  "rte_atomic32_sub_return v dec = sync_sub_and_fetch v dec"

definition rte_atomic32_clear :: "rte_atomic32_t \<Rightarrow> rte_atomic32_t" where
  "rte_atomic32_clear v = 0"

definition rte_atomic32_cmpset :: "u32 \<Rightarrow> u32 \<Rightarrow> u32 \<Rightarrow> u32 \<times> bool" where
  "rte_atomic32_cmpset dst exp src = x86_cmpxchg dst exp src"

definition rte_atomic32_test_and_set :: "rte_atomic32_t \<Rightarrow> rte_atomic32_t \<times> bool" where
  "rte_atomic32_test_and_set v = rte_atomic32_cmpset v 0 1"

definition rte_atomic32_inc :: "rte_atomic32_t \<Rightarrow> rte_atomic32_t" where
  "rte_atomic32_inc v = fst (x86_inc v)"

definition rte_atomic32_dec :: "rte_atomic32_t \<Rightarrow> rte_atomic32_t" where
  "rte_atomic32_dec v = fst (x86_dec v)"

definition rte_atomic32_inc_and_test :: "rte_atomic32_t \<Rightarrow> rte_atomic32_t \<times> bool" where
  "rte_atomic32_inc_and_test v = x86_inc v"

definition rte_atomic32_dec_and_test :: "rte_atomic32_t \<Rightarrow> rte_atomic32_t \<times> bool" where
  "rte_atomic32_dec_and_test v = x86_dec v"

text \<open>The versions for \<^verbatim>\<open>RTE_FORCE_INTRINSICS\<close>.\<close>

definition rte_atomic32_cmpset_intrin :: "u32 \<Rightarrow> u32 \<Rightarrow> u32 \<Rightarrow> u32 \<times> bool" where
  "rte_atomic32_cmpset_intrin dst exp src = sync_bool_compare_and_swap dst exp src"

definition rte_atomic32_inc_intrin :: "rte_atomic32_t \<Rightarrow> rte_atomic32_t" where
  "rte_atomic32_inc_intrin v = rte_atomic32_add v 1"

definition rte_atomic32_dec_intrin :: "rte_atomic32_t \<Rightarrow> rte_atomic32_t" where
  "rte_atomic32_dec_intrin v = rte_atomic32_sub v 1"

definition rte_atomic32_inc_and_test_intrin :: "rte_atomic32_t \<Rightarrow> rte_atomic32_t \<times> bool" where
  "rte_atomic32_inc_and_test_intrin v = (let (v, r) = sync_add_and_fetch v 1 in (v, r = 0))"

definition rte_atomic32_dec_and_test_intrin :: "rte_atomic32_t \<Rightarrow> rte_atomic32_t \<times> bool" where
  "rte_atomic32_dec_and_test_intrin v = (let (v, r) = sync_sub_and_fetch v 1 in (v, r = 0))"

definition rte_atomic32_test_and_set_intrin :: "rte_atomic32_t \<Rightarrow> rte_atomic32_t \<times> bool" where
  "rte_atomic32_test_and_set_intrin v = rte_atomic32_cmpset_intrin v 0 1"

section \<open>64-bit operations\<close>

definition rte_atomic64_init :: "rte_atomic64_t \<Rightarrow> rte_atomic64_t" where
  "rte_atomic64_init v = 0"

definition rte_atomic64_read :: "rte_atomic64_t \<Rightarrow> u64" where
  "rte_atomic64_read v = v"

definition rte_atomic64_set :: "rte_atomic64_t \<Rightarrow> u64 \<Rightarrow> rte_atomic64_t" where
  "rte_atomic64_set v new_value = new_value"

definition rte_atomic64_add :: "rte_atomic64_t \<Rightarrow> u64 \<Rightarrow> rte_atomic64_t" where
  "rte_atomic64_add v inc = v + inc"

definition rte_atomic64_sub :: "rte_atomic64_t \<Rightarrow> u64 \<Rightarrow> rte_atomic64_t" where
  "rte_atomic64_sub v dec = v - dec"

definition rte_atomic64_add_return :: "rte_atomic64_t \<Rightarrow> u64 \<Rightarrow> rte_atomic64_t \<times> u64" where
  "rte_atomic64_add_return v inc =
     (let prev = inc; (v, prev) = x86_xadd v prev in (v, prev + inc))"

definition rte_atomic64_sub_return :: "rte_atomic64_t \<Rightarrow> u64 \<Rightarrow> rte_atomic64_t \<times> u64" where
  "rte_atomic64_sub_return v dec = rte_atomic64_add_return v (- dec)"

definition rte_atomic64_clear :: "rte_atomic64_t \<Rightarrow> rte_atomic64_t" where
  "rte_atomic64_clear v = 0"

definition rte_atomic64_cmpset :: "u64 \<Rightarrow> u64 \<Rightarrow> u64 \<Rightarrow> u64 \<times> bool" where
  "rte_atomic64_cmpset dst exp src = x86_cmpxchg dst exp src"

definition rte_atomic64_test_and_set :: "rte_atomic64_t \<Rightarrow> rte_atomic64_t \<times> bool" where
  "rte_atomic64_test_and_set v = rte_atomic64_cmpset v 0 1"

definition rte_atomic64_inc :: "rte_atomic64_t \<Rightarrow> rte_atomic64_t" where
  "rte_atomic64_inc v = fst (x86_inc v)"

definition rte_atomic64_dec :: "rte_atomic64_t \<Rightarrow> rte_atomic64_t" where
  "rte_atomic64_dec v = fst (x86_dec v)"

definition rte_atomic64_inc_and_test :: "rte_atomic64_t \<Rightarrow> rte_atomic64_t \<times> bool" where
  "rte_atomic64_inc_and_test v = x86_inc v"

definition rte_atomic64_dec_and_test :: "rte_atomic64_t \<Rightarrow> rte_atomic64_t \<times> bool" where
  "rte_atomic64_dec_and_test v = x86_dec v"

text \<open>The versions for \<^verbatim>\<open>RTE_FORCE_INTRINSICS\<close>.\<close>

definition rte_atomic64_init_intrin :: "rte_atomic64_t \<Rightarrow> rte_atomic64_t" where
  "rte_atomic64_init_intrin v = 0"

definition rte_atomic64_read_intrin :: "rte_atomic64_t \<Rightarrow> u64" where
  "rte_atomic64_read_intrin v = v"

definition rte_atomic64_set_intrin :: "rte_atomic64_t \<Rightarrow> u64 \<Rightarrow> rte_atomic64_t" where
  "rte_atomic64_set_intrin v new_value = new_value"

definition rte_atomic64_add_intrin :: "rte_atomic64_t \<Rightarrow> u64 \<Rightarrow> rte_atomic64_t" where
  "rte_atomic64_add_intrin v inc = fst (sync_fetch_and_add v inc)"

definition rte_atomic64_sub_intrin :: "rte_atomic64_t \<Rightarrow> u64 \<Rightarrow> rte_atomic64_t" where
  "rte_atomic64_sub_intrin v dec = fst (sync_fetch_and_sub v dec)"

definition rte_atomic64_add_return_intrin :: "rte_atomic64_t \<Rightarrow> u64 \<Rightarrow> rte_atomic64_t \<times> u64" where
  "rte_atomic64_add_return_intrin v inc = sync_add_and_fetch v inc"

definition rte_atomic64_sub_return_intrin :: "rte_atomic64_t \<Rightarrow> u64 \<Rightarrow> rte_atomic64_t \<times> u64" where
  "rte_atomic64_sub_return_intrin v dec = sync_sub_and_fetch v dec"

definition rte_atomic64_cmpset_intrin :: "u64 \<Rightarrow> u64 \<Rightarrow> u64 \<Rightarrow> u64 \<times> bool" where
  "rte_atomic64_cmpset_intrin dst exp src = sync_bool_compare_and_swap dst exp src"

definition rte_atomic64_inc_intrin :: "rte_atomic64_t \<Rightarrow> rte_atomic64_t" where
  "rte_atomic64_inc_intrin v = rte_atomic64_add_intrin v 1"

definition rte_atomic64_dec_intrin :: "rte_atomic64_t \<Rightarrow> rte_atomic64_t" where
  "rte_atomic64_dec_intrin v = rte_atomic64_sub_intrin v 1"

definition rte_atomic64_inc_and_test_intrin :: "rte_atomic64_t \<Rightarrow> rte_atomic64_t \<times> bool" where
  "rte_atomic64_inc_and_test_intrin v = (let (v, r) = rte_atomic64_add_return_intrin v 1 in (v, r = 0))"

definition rte_atomic64_dec_and_test_intrin :: "rte_atomic64_t \<Rightarrow> rte_atomic64_t \<times> bool" where
  "rte_atomic64_dec_and_test_intrin v = (let (v, r) = rte_atomic64_sub_return_intrin v 1 in (v, r = 0))"

definition rte_atomic64_test_and_set_intrin :: "rte_atomic64_t \<Rightarrow> rte_atomic64_t \<times> bool" where
  "rte_atomic64_test_and_set_intrin v = rte_atomic64_cmpset_intrin v 0 1"

definition rte_atomic64_clear_intrin :: "rte_atomic64_t \<Rightarrow> rte_atomic64_t" where
  "rte_atomic64_clear_intrin v = rte_atomic64_set_intrin v 0"

section \<open>64-bit operations on i686\<close>

definition rte_atomic64_cmpset_i686 :: "u64 \<Rightarrow> u64 \<Rightarrow> u64 \<Rightarrow> u64 \<times> bool" where
  "rte_atomic64_cmpset_i686 dst exp src =
     x86_cmpxchg8b dst (hi32 exp) (lo32 exp) (hi32 src) (lo32 src)"

partial_function (option) rte_atomic64_init_i686 :: "rte_atomic64_t \<Rightarrow> (rte_atomic64_t) option" where
  "rte_atomic64_init_i686 v =
     (let tmp = v; (v, success) = rte_atomic64_cmpset_i686 v tmp (0)
      in if success then Some v else rte_atomic64_init_i686 v)"

declare rte_atomic64_init_i686.simps [code]

partial_function (option) rte_atomic64_read_i686 :: "rte_atomic64_t \<Rightarrow> (rte_atomic64_t \<times> u64) option" where
  "rte_atomic64_read_i686 v =
     (let tmp = v; (v, success) = rte_atomic64_cmpset_i686 v tmp (tmp)
      in if success then Some (v, tmp) else rte_atomic64_read_i686 v)"

declare rte_atomic64_read_i686.simps [code]

partial_function (option) rte_atomic64_set_i686 :: "rte_atomic64_t \<Rightarrow> u64 \<Rightarrow> (rte_atomic64_t) option" where
  "rte_atomic64_set_i686 v new_value =
     (let tmp = v; (v, success) = rte_atomic64_cmpset_i686 v tmp (new_value)
      in if success then Some v else rte_atomic64_set_i686 v new_value)"

declare rte_atomic64_set_i686.simps [code]

partial_function (option) rte_atomic64_add_i686 :: "rte_atomic64_t \<Rightarrow> u64 \<Rightarrow> (rte_atomic64_t) option" where
  "rte_atomic64_add_i686 v inc =
     (let tmp = v; (v, success) = rte_atomic64_cmpset_i686 v tmp (tmp + inc)
      in if success then Some v else rte_atomic64_add_i686 v inc)"

declare rte_atomic64_add_i686.simps [code]

partial_function (option) rte_atomic64_sub_i686 :: "rte_atomic64_t \<Rightarrow> u64 \<Rightarrow> (rte_atomic64_t) option" where
  "rte_atomic64_sub_i686 v dec =
     (let tmp = v; (v, success) = rte_atomic64_cmpset_i686 v tmp (tmp - dec)
      in if success then Some v else rte_atomic64_sub_i686 v dec)"

declare rte_atomic64_sub_i686.simps [code]

partial_function (option) rte_atomic64_add_return_i686 :: "rte_atomic64_t \<Rightarrow> u64 \<Rightarrow> (rte_atomic64_t \<times> u64) option" where
  "rte_atomic64_add_return_i686 v inc =
     (let tmp = v; (v, success) = rte_atomic64_cmpset_i686 v tmp (tmp + inc)
      in if success then Some (v, tmp + inc) else rte_atomic64_add_return_i686 v inc)"

declare rte_atomic64_add_return_i686.simps [code]

partial_function (option) rte_atomic64_sub_return_i686 :: "rte_atomic64_t \<Rightarrow> u64 \<Rightarrow> (rte_atomic64_t \<times> u64) option" where
  "rte_atomic64_sub_return_i686 v dec =
     (let tmp = v; (v, success) = rte_atomic64_cmpset_i686 v tmp (tmp - dec)
      in if success then Some (v, tmp - dec) else rte_atomic64_sub_return_i686 v dec)"

declare rte_atomic64_sub_return_i686.simps [code]

definition rte_atomic64_inc_i686 :: "rte_atomic64_t \<Rightarrow> rte_atomic64_t option" where
  "rte_atomic64_inc_i686 v = rte_atomic64_add_i686 v 1"

definition rte_atomic64_dec_i686 :: "rte_atomic64_t \<Rightarrow> rte_atomic64_t option" where
  "rte_atomic64_dec_i686 v = rte_atomic64_sub_i686 v 1"

definition rte_atomic64_inc_and_test_i686 :: "rte_atomic64_t \<Rightarrow> (rte_atomic64_t \<times> bool) option" where
  "rte_atomic64_inc_and_test_i686 v = do { (v, r) \<leftarrow> rte_atomic64_add_return_i686 v 1; Some (v, r = 0) }"

definition rte_atomic64_dec_and_test_i686 :: "rte_atomic64_t \<Rightarrow> (rte_atomic64_t \<times> bool) option" where
  "rte_atomic64_dec_and_test_i686 v = do { (v, r) \<leftarrow> rte_atomic64_sub_return_i686 v 1; Some (v, r = 0) }"

definition rte_atomic64_test_and_set_i686 :: "rte_atomic64_t \<Rightarrow> rte_atomic64_t \<times> bool" where
  "rte_atomic64_test_and_set_i686 v = rte_atomic64_cmpset_i686 v 0 1"

definition rte_atomic64_clear_i686 :: "rte_atomic64_t \<Rightarrow> rte_atomic64_t option" where
  "rte_atomic64_clear_i686 v = rte_atomic64_set_i686 v 0"

section \<open>The implementations agree\<close>

lemma join_split [simp]: "join32 (hi32 x) (lo32 x) = x"
  unfolding join32_def hi32_def lo32_def by (rule bit_word_eqI) (auto simp: bit_simps)

lemma cmpset_i686_eq: "rte_atomic64_cmpset_i686 dst exp src = rte_atomic64_cmpset dst exp src"
  by (simp add: rte_atomic64_cmpset_i686_def x86_cmpxchg8b_def rte_atomic64_cmpset_def x86_cmpxchg_def)

lemma rte_atomic32_cmpset_eq:
  "rte_atomic32_cmpset dst exp src = (if dst = exp then (src, True) else (dst, False))"
  by (simp add: rte_atomic32_cmpset_def x86_cmpxchg_def)

lemmas atomic_sync = sync_fetch_and_add_def sync_fetch_and_sub_def sync_add_and_fetch_def
  sync_sub_and_fetch_def sync_bool_compare_and_swap_def
  x86_cmpxchg_def x86_inc_def x86_dec_def x86_xadd_def

lemmas atomic16_defs = rte_atomic16_add_def rte_atomic16_sub_def rte_atomic16_cmpset_def
  rte_atomic16_inc_def rte_atomic16_dec_def rte_atomic16_inc_and_test_def
  rte_atomic16_dec_and_test_def rte_atomic16_test_and_set_def rte_atomic16_cmpset_intrin_def
  rte_atomic16_inc_intrin_def rte_atomic16_dec_intrin_def rte_atomic16_inc_and_test_intrin_def
  rte_atomic16_dec_and_test_intrin_def rte_atomic16_test_and_set_intrin_def

lemmas atomic32_defs = rte_atomic32_add_def rte_atomic32_sub_def rte_atomic32_cmpset_def
  rte_atomic32_inc_def rte_atomic32_dec_def rte_atomic32_inc_and_test_def
  rte_atomic32_dec_and_test_def rte_atomic32_test_and_set_def rte_atomic32_cmpset_intrin_def
  rte_atomic32_inc_intrin_def rte_atomic32_dec_intrin_def rte_atomic32_inc_and_test_intrin_def
  rte_atomic32_dec_and_test_intrin_def rte_atomic32_test_and_set_intrin_def

lemmas atomic64_defs = rte_atomic64_init_def rte_atomic64_read_def rte_atomic64_set_def
  rte_atomic64_clear_def
  rte_atomic64_add_def rte_atomic64_sub_def rte_atomic64_cmpset_def
  rte_atomic64_add_return_def rte_atomic64_sub_return_def
  rte_atomic64_inc_def rte_atomic64_dec_def rte_atomic64_inc_and_test_def
  rte_atomic64_dec_and_test_def rte_atomic64_test_and_set_def

text \<open>Each i686 loop ends in its first pass: nothing changes the counter between its two accesses.\<close>

lemma atomic64_loops [simp]:
  "rte_atomic64_init_i686 v = Some 0" "rte_atomic64_read_i686 v = Some (v, v)"
  "rte_atomic64_set_i686 v x = Some x" "rte_atomic64_add_i686 v x = Some (v + x)"
  "rte_atomic64_sub_i686 v x = Some (v - x)"
  "rte_atomic64_add_return_i686 v x = Some (v + x, v + x)"
  "rte_atomic64_sub_return_i686 v x = Some (v - x, v - x)"
  by (simp_all add: rte_atomic64_init_i686.simps rte_atomic64_read_i686.simps
      rte_atomic64_set_i686.simps rte_atomic64_add_i686.simps rte_atomic64_sub_i686.simps
      rte_atomic64_add_return_i686.simps rte_atomic64_sub_return_i686.simps
      cmpset_i686_eq rte_atomic64_cmpset_def x86_cmpxchg_def)

text \<open>
  C27. On i686 every 64-bit operation, built as a loop around an eight-byte
  compare-and-exchange, ends and has the result of the single x86-64 instruction.
\<close>

theorem atomic64_i686_equiv:
  "rte_atomic64_cmpset_i686 v x y = rte_atomic64_cmpset v x y \<and>
   rte_atomic64_init_i686 v = Some (rte_atomic64_init v) \<and>
   rte_atomic64_read_i686 v = Some (v, rte_atomic64_read v) \<and>
   rte_atomic64_set_i686 v x = Some (rte_atomic64_set v x) \<and>
   rte_atomic64_add_i686 v x = Some (rte_atomic64_add v x) \<and>
   rte_atomic64_sub_i686 v x = Some (rte_atomic64_sub v x) \<and>
   rte_atomic64_inc_i686 v = Some (rte_atomic64_inc v) \<and>
   rte_atomic64_dec_i686 v = Some (rte_atomic64_dec v) \<and>
   rte_atomic64_add_return_i686 v x = Some (rte_atomic64_add_return v x) \<and>
   rte_atomic64_sub_return_i686 v x = Some (rte_atomic64_sub_return v x) \<and>
   rte_atomic64_inc_and_test_i686 v = Some (rte_atomic64_inc_and_test v) \<and>
   rte_atomic64_dec_and_test_i686 v = Some (rte_atomic64_dec_and_test v) \<and>
   rte_atomic64_test_and_set_i686 v = rte_atomic64_test_and_set v \<and>
   rte_atomic64_clear_i686 v = Some (rte_atomic64_clear v)"
  by (simp add: cmpset_i686_eq atomic64_defs atomic_sync rte_atomic64_inc_i686_def
      rte_atomic64_dec_i686_def rte_atomic64_inc_and_test_i686_def rte_atomic64_dec_and_test_i686_def
      rte_atomic64_test_and_set_i686_def rte_atomic64_clear_i686_def)

text \<open>
  The versions built on compiler intrinsics compute what the x86
  instruction sequences compute, at the three widths.
\<close>

theorem atomic_intrin_equiv:
  "rte_atomic16_cmpset_intrin a b c = rte_atomic16_cmpset a b c \<and>
   rte_atomic16_inc_intrin a = rte_atomic16_inc a \<and> rte_atomic16_dec_intrin a = rte_atomic16_dec a \<and>
   rte_atomic16_inc_and_test_intrin a = rte_atomic16_inc_and_test a \<and>
   rte_atomic16_dec_and_test_intrin a = rte_atomic16_dec_and_test a \<and>
   rte_atomic16_test_and_set_intrin a = rte_atomic16_test_and_set a \<and>
   rte_atomic32_cmpset_intrin d e f = rte_atomic32_cmpset d e f \<and>
   rte_atomic32_inc_intrin d = rte_atomic32_inc d \<and> rte_atomic32_dec_intrin d = rte_atomic32_dec d \<and>
   rte_atomic32_inc_and_test_intrin d = rte_atomic32_inc_and_test d \<and>
   rte_atomic32_dec_and_test_intrin d = rte_atomic32_dec_and_test d \<and>
   rte_atomic32_test_and_set_intrin d = rte_atomic32_test_and_set d \<and>
   rte_atomic64_cmpset_intrin x y z = rte_atomic64_cmpset x y z \<and>
   rte_atomic64_add_intrin x y = rte_atomic64_add x y \<and>
   rte_atomic64_sub_intrin x y = rte_atomic64_sub x y \<and>
   rte_atomic64_add_return_intrin x y = rte_atomic64_add_return x y \<and>
   rte_atomic64_sub_return_intrin x y = rte_atomic64_sub_return x y \<and>
   rte_atomic64_inc_intrin x = rte_atomic64_inc x \<and> rte_atomic64_dec_intrin x = rte_atomic64_dec x \<and>
   rte_atomic64_inc_and_test_intrin x = rte_atomic64_inc_and_test x \<and>
   rte_atomic64_dec_and_test_intrin x = rte_atomic64_dec_and_test x \<and>
   rte_atomic64_test_and_set_intrin x = rte_atomic64_test_and_set x"
  by (simp add: atomic16_defs atomic32_defs atomic64_defs atomic_sync rte_atomic64_cmpset_intrin_def
      rte_atomic64_add_intrin_def rte_atomic64_sub_intrin_def rte_atomic64_add_return_intrin_def
      rte_atomic64_sub_return_intrin_def rte_atomic64_inc_intrin_def rte_atomic64_dec_intrin_def
      rte_atomic64_inc_and_test_intrin_def rte_atomic64_dec_and_test_intrin_def
      rte_atomic64_test_and_set_intrin_def)

end
