(* ===== verification/Queue.thy ===== *)
theory Queue
  imports Prelude
begin

text \<open>
  What a client of a bulk queue relies on: operations that move up to \<open>n\<close> objects, the number
  being fixed by a policy from \<open>n\<close> and the room or fill of the queue, in first-in first-out
  order. The table handed to an operation holds at least \<open>n\<close> objects.
\<close>

datatype 'o queue_op = Enq "'o list" u32 | Deq "'o list" u32

fun op_fits :: "'o queue_op \<Rightarrow> bool" where
  "op_fits (Enq tbl n) \<longleftrightarrow> unat n \<le> length tbl"
| "op_fits (Deq tbl n) \<longleftrightarrow> unat n \<le> length tbl"

text \<open>
  A sequence of operations on a queue: the final queue, the objects accepted and the objects
  delivered, each in order.
\<close>

fun queue_run ::
    "('q \<Rightarrow> 'o list \<Rightarrow> u32 \<Rightarrow> ('q \<times> u32 \<times> u32) option) \<Rightarrow>
     ('q \<Rightarrow> 'o list \<Rightarrow> u32 \<Rightarrow> ('q \<times> 'o list \<times> u32 \<times> u32) option) \<Rightarrow>
     'q \<Rightarrow> 'o queue_op list \<Rightarrow> ('q \<times> 'o list \<times> 'o list) option" where
  "queue_run enq deq q [] = Some (q, [], [])"
| "queue_run enq deq q (Enq tbl n # ops) = do {
     (q, k, _) \<leftarrow> enq q tbl n;
     (q, ins, outs) \<leftarrow> queue_run enq deq q ops;
     Some (q, take (unat k) tbl @ ins, outs)
   }"
| "queue_run enq deq q (Deq tbl n # ops) = do {
     (q, tbl, k, _) \<leftarrow> deq q tbl n;
     (q, ins, outs) \<leftarrow> queue_run enq deq q ops;
     Some (q, ins, take (unat k) tbl @ outs)
   }"

locale bulk_queue =
  fixes invar :: "'q \<Rightarrow> bool"
    and contents :: "'q \<Rightarrow> 'o list"
    and capacity :: "'q \<Rightarrow> nat"
    and policy :: "nat \<Rightarrow> nat \<Rightarrow> nat"
    and enqueue :: "'q \<Rightarrow> 'o list \<Rightarrow> u32 \<Rightarrow> ('q \<times> u32 \<times> u32) option"
    and dequeue :: "'q \<Rightarrow> 'o list \<Rightarrow> u32 \<Rightarrow> ('q \<times> 'o list \<times> u32 \<times> u32) option"
  assumes bounded: "invar q \<Longrightarrow> length (contents q) \<le> capacity q"
    and policy_le: "policy m a \<le> m" "policy m a \<le> a"
    and enqueue_law: "\<lbrakk>invar q; unat n \<le> length tbl\<rbrakk> \<Longrightarrow>
      \<exists>q' k free. enqueue q tbl n = Some (q', k, free) \<and> invar q' \<and> capacity q' = capacity q \<and>
        unat k = policy (unat n) (capacity q - length (contents q)) \<and>
        contents q' = contents q @ take (unat k) tbl \<and>
        unat free = capacity q' - length (contents q')"
    and dequeue_law: "\<lbrakk>invar q; unat n \<le> length tbl\<rbrakk> \<Longrightarrow>
      \<exists>q' tbl' k avail. dequeue q tbl n = Some (q', tbl', k, avail) \<and> invar q' \<and>
        capacity q' = capacity q \<and>
        unat k = policy (unat n) (length (contents q)) \<and>
        contents q' = drop (unat k) (contents q) \<and>
        tbl' = take (unat k) (contents q) @ drop (unat k) tbl \<and>
        unat avail = length (contents q')"
begin

lemma enqueueE:
  assumes "invar q" "unat n \<le> length tbl"
  obtains q' k free where "enqueue q tbl n = Some (q', k, free)" "invar q'"
    "capacity q' = capacity q" "contents q' = contents q @ take (unat k) tbl"
    "unat k = policy (unat n) (capacity q - length (contents q))"
  using enqueue_law [OF assms] by blast

lemma dequeueE:
  assumes "invar q" "unat n \<le> length tbl"
  obtains q' tbl' k avail where "dequeue q tbl n = Some (q', tbl', k, avail)" "invar q'"
    "capacity q' = capacity q" "contents q' = drop (unat k) (contents q)"
    "take (unat k) tbl' = take (unat k) (contents q)"
    "unat k = policy (unat n) (length (contents q))" "length tbl' = length tbl"
proof -
  from dequeue_law [OF assms] obtain q' tbl' k avail where
    deq: "dequeue q tbl n = Some (q', tbl', k, avail)" "invar q'" "capacity q' = capacity q"
      "contents q' = drop (unat k) (contents q)"
    and k: "unat k = policy (unat n) (length (contents q))"
    and t: "tbl' = take (unat k) (contents q) @ drop (unat k) tbl" by blast
  have "unat k \<le> length (contents q)" "unat k \<le> length tbl"
    using k policy_le [of "unat n" "length (contents q)"] assms(2) by auto
  then show thesis using that deq k t by simp
qed

text \<open>
  A sequence of operations never fails, loses, duplicates or reorders an object, and never
  exceeds the capacity.
\<close>

lemma run_fifo:
  assumes "invar q" "list_all op_fits ops"
  shows "\<exists>q' ins outs. queue_run enqueue dequeue q ops = Some (q', ins, outs) \<and> invar q' \<and>
    capacity q' = capacity q \<and> contents q @ ins = outs @ contents q'"
  using assms
proof (induction ops arbitrary: q)
  case (Cons opn ops)
  show ?case
  proof (cases opn)
    case (Enq tbl n)
    then have "unat n \<le> length tbl" using Cons.prems(2) by simp
    with Cons.prems(1) obtain q' k free where
      e: "enqueue q tbl n = Some (q', k, free)" "invar q'" "capacity q' = capacity q"
        "contents q' = contents q @ take (unat k) tbl" by (rule enqueueE)
    obtain q'' ins outs where "queue_run enqueue dequeue q' ops = Some (q'', ins, outs)"
      "invar q''" "capacity q'' = capacity q'" "contents q' @ ins = outs @ contents q''"
      using Cons.IH [OF e(2)] Cons.prems(2) by auto
    then show ?thesis using e Enq by simp
  next
    case (Deq tbl n)
    then have "unat n \<le> length tbl" using Cons.prems(2) by simp
    with Cons.prems(1) obtain q' tbl' k avail where
      d: "dequeue q tbl n = Some (q', tbl', k, avail)" "invar q'" "capacity q' = capacity q"
        "contents q' = drop (unat k) (contents q)"
        "take (unat k) tbl' = take (unat k) (contents q)" by (rule dequeueE)
    obtain q'' ins outs where run: "queue_run enqueue dequeue q' ops = Some (q'', ins, outs)"
      "invar q''" "capacity q'' = capacity q'" and "contents q' @ ins = outs @ contents q''"
      using Cons.IH [OF d(2)] Cons.prems(2) by auto
    then have "contents q @ ins = (take (unat k) tbl' @ outs) @ contents q''"
      using d(4,5) by (metis append.assoc append_take_drop_id)
    with run show ?thesis using d Deq by simp
  qed
qed simp

text \<open>What one operation puts in, a matching one takes out of an empty queue.\<close>

lemma enqueue_dequeue:
  assumes "invar q" "contents q = []" "unat n \<le> length tbl" "unat n \<le> length tbl0"
    and "policy (unat n) (capacity q) = unat n" "policy (unat n) (unat n) = unat n"
  shows "\<exists>q' q'' free avail. enqueue q tbl n = Some (q', n, free) \<and>
    dequeue q' tbl0 n = Some (q'', take (unat n) tbl @ drop (unat n) tbl0, n, avail) \<and>
    invar q'' \<and> contents q'' = []"
proof -
  from enqueue_law [OF assms(1,3)] assms(2,5) obtain q' free where
    e: "enqueue q tbl n = Some (q', n, free)" "invar q'" "contents q' = take (unat n) tbl"
    by (auto simp flip: word_unat_eq_iff)
  have len: "length (contents q') = unat n" using e(3) assms(3) by simp
  from dequeue_law [OF e(2) assms(4)] len assms(6) obtain q'' avail where
    "dequeue q' tbl0 n = Some (q'', take (unat n) (contents q') @ drop (unat n) tbl0, n, avail)"
    "invar q''" "contents q'' = drop (unat n) (contents q')"
    by (auto simp flip: word_unat_eq_iff)
  with e len show ?thesis by auto
qed

end

end
