(* ===== verification/Ring_Copy.thy ===== *)
theory Ring_Copy
  imports Ring
begin

text \<open>
  The copy loops of the ring: on a well-formed ring \<open>ENQUEUE_PTRS\<close> and \<open>DEQUEUE_PTRS\<close> end, stay
  within the object table and the caller's table, and move exactly the \<open>n\<close> objects at the
  positions from the given head, across the wrap-around of the table.
\<close>

section \<open>The copy loops\<close>

lemma put_ptr_eq:
  "\<lbrakk>unat i < length tbl; unat idx < length ring\<rbrakk> \<Longrightarrow>
   put_ptr tbl i idx ring = Some (ring[unat idx := tbl ! unat i])"
  by (simp add: put_ptr_def arr_get_def arr_set_def)

lemma get_ptr_eq:
  "\<lbrakk>unat idx < length ring; unat i < length tbl\<rbrakk> \<Longrightarrow>
   get_ptr ring i idx tbl = Some (tbl[unat i := ring ! unat idx])"
  by (simp add: get_ptr_def arr_get_def arr_set_def)

lemma unat_inc: "unat (x :: u32) + k < 2 ^ 32 \<Longrightarrow> unat (x + of_nat k) = unat x + k"
  by (subst unat_add_no_overflow) (simp_all add: unat_of_nat_small)

lemmas unat_inc_nums = unat_inc [of _ 1, simplified] unat_inc [of _ 2, simplified]
  unat_inc [of _ 3, simplified] unat_inc [of _ 4, simplified]

lemma enqueue_rest_eq:
  "\<lbrakk>unat i + c \<le> length tbl; unat idx + c \<le> length ring; unat i + c < 2 ^ 32;
    unat idx + c < 2 ^ 32\<rbrakk> \<Longrightarrow>
   enqueue_rest c tbl i idx ring = Some (copy_slice tbl (unat i) ring (unat idx) c)"
proof (induction c arbitrary: i idx ring)
  case (Suc c)
  then show ?case
    by (simp add: put_ptr_eq unat_inc_nums copy_slice_step)
qed simp

lemma dequeue_rest_eq:
  "\<lbrakk>unat i + c \<le> length tbl; unat idx + c \<le> length ring; unat i + c < 2 ^ 32;
    unat idx + c < 2 ^ 32\<rbrakk> \<Longrightarrow>
   dequeue_rest c ring i idx tbl = Some (copy_slice ring (unat idx) tbl (unat i) c)"
proof (induction c arbitrary: i idx tbl)
  case (Suc c)
  then show ?case
    by (simp add: get_ptr_eq unat_inc_nums copy_slice_step)
qed simp

lemma enqueue_to_end_eq:
  "\<lbrakk>unat sz = unat idx + c; unat i + c \<le> length tbl; unat idx + c \<le> length ring;
    unat i + c < 2 ^ 32\<rbrakk> \<Longrightarrow>
   enqueue_to_end sz tbl i idx ring =
     Some (i + of_nat c, copy_slice tbl (unat i) ring (unat idx) c)"
proof (induction c arbitrary: i idx ring)
  case 0
  then show ?case by (simp add: enqueue_to_end.simps word_less_nat_alt)
next
  case (Suc c)
  have idx: "unat idx + Suc c < 2 ^ 32" using Suc.prems(1) unat_lt_pow [of sz] by simp
  have "enqueue_to_end sz tbl (i + 1) (idx + 1) (ring[unat idx := tbl ! unat i]) =
      Some (i + 1 + of_nat c, copy_slice tbl (unat (i + 1)) (ring[unat idx := tbl ! unat i]) (unat (idx + 1)) c)"
    using Suc.prems idx by (intro Suc.IH) (simp_all add: unat_inc_nums)
  then show ?case
    using Suc.prems idx by (subst enqueue_to_end.simps)
      (simp add: put_ptr_eq unat_inc_nums copy_slice_step word_less_nat_alt add.assoc)
qed

lemma dequeue_to_end_eq:
  "\<lbrakk>unat sz = unat idx + c; unat i + c \<le> length tbl; unat idx + c \<le> length ring;
    unat i + c < 2 ^ 32\<rbrakk> \<Longrightarrow>
   dequeue_to_end sz ring i idx tbl =
     Some (i + of_nat c, copy_slice ring (unat idx) tbl (unat i) c)"
proof (induction c arbitrary: i idx tbl)
  case 0
  then show ?case by (simp add: dequeue_to_end.simps word_less_nat_alt)
next
  case (Suc c)
  have idx: "unat idx + Suc c < 2 ^ 32" using Suc.prems(1) unat_lt_pow [of sz] by simp
  have "dequeue_to_end sz ring (i + 1) (idx + 1) (tbl[unat i := ring ! unat idx]) =
      Some (i + 1 + of_nat c, copy_slice ring (unat (idx + 1)) (tbl[unat i := ring ! unat idx]) (unat (i + 1)) c)"
    using Suc.prems idx by (intro Suc.IH) (simp_all add: unat_inc_nums)
  then show ?case
    using Suc.prems idx by (subst dequeue_to_end.simps)
      (simp add: get_ptr_eq unat_inc_nums copy_slice_step word_less_nat_alt add.assoc)
qed

lemma enqueue_from_start_eq:
  "\<lbrakk>unat n = unat i + c; unat i + c \<le> length tbl; unat idx + c \<le> length ring;
    unat idx + c < 2 ^ 32\<rbrakk> \<Longrightarrow>
   enqueue_from_start n tbl i idx ring = Some (copy_slice tbl (unat i) ring (unat idx) c)"
proof (induction c arbitrary: i idx ring)
  case 0
  then show ?case by (simp add: enqueue_from_start.simps word_less_nat_alt)
next
  case (Suc c)
  moreover have "unat i + Suc c < 2 ^ 32" using Suc.prems(1) unat_lt_pow [of n] by simp
  ultimately show ?case
    by (subst enqueue_from_start.simps)
      (simp add: put_ptr_eq unat_inc_nums copy_slice_step word_less_nat_alt)
qed

lemma dequeue_from_start_eq:
  "\<lbrakk>unat n = unat i + c; unat i + c \<le> length tbl; unat idx + c \<le> length ring;
    unat idx + c < 2 ^ 32\<rbrakk> \<Longrightarrow>
   dequeue_from_start n ring i idx tbl = Some (copy_slice ring (unat idx) tbl (unat i) c)"
proof (induction c arbitrary: i idx tbl)
  case 0
  then show ?case by (simp add: dequeue_from_start.simps word_less_nat_alt)
next
  case (Suc c)
  moreover have "unat i + Suc c < 2 ^ 32" using Suc.prems(1) unat_lt_pow [of n] by simp
  ultimately show ?case
    by (subst dequeue_from_start.simps)
      (simp add: get_ptr_eq unat_inc_nums copy_slice_step word_less_nat_alt)
qed

lemma enqueue_by_4_step:
  "i < n AND NOT 3 \<Longrightarrow>
   enqueue_by_4 n tbl i idx ring =
     enqueue_rest 4 tbl i idx ring \<bind> enqueue_by_4 n tbl (i + 4) (idx + 4)"
  by (subst enqueue_by_4.simps) (simp add: numeral_eq_Suc add.assoc)

lemma enqueue_by_4_eq:
  "\<lbrakk>unat (n AND NOT 3) = unat i + 4 * c; unat i + 4 * c \<le> length tbl;
    unat idx + 4 * c \<le> length ring; unat idx + 4 * c < 2 ^ 32\<rbrakk> \<Longrightarrow>
   enqueue_by_4 n tbl i idx ring =
     Some (i + of_nat (4 * c), idx + of_nat (4 * c), copy_slice tbl (unat i) ring (unat idx) (4 * c))"
proof (induction c arbitrary: i idx ring)
  case 0
  then show ?case by (simp add: enqueue_by_4.simps word_less_nat_alt)
next
  case (Suc c)
  have i: "unat i + 4 * Suc c < 2 ^ 32"
    using Suc.prems(1) unat_lt_pow [of "n AND NOT 3"] by simp
  have "enqueue_by_4 n tbl (i + 4) (idx + 4) (copy_slice tbl (unat i) ring (unat idx) 4) =
      Some (i + 4 + of_nat (4 * c), idx + 4 + of_nat (4 * c),
        copy_slice tbl (unat (i + 4)) (copy_slice tbl (unat i) ring (unat idx) 4) (unat (idx + 4)) (4 * c))"
    using Suc.prems i by (intro Suc.IH) (simp_all add: unat_inc_nums)
  moreover have "enqueue_rest 4 tbl i idx ring = Some (copy_slice tbl (unat i) ring (unat idx) 4)"
    using Suc.prems i by (intro enqueue_rest_eq) simp_all
  moreover have "i < n AND NOT 3" using Suc.prems(1) by (simp add: word_less_nat_alt)
  ultimately show ?case
    using Suc.prems i copy_slice_append [of _ _ 4 _ _ "4 * c"]
    by (simp add: enqueue_by_4_step unat_inc_nums add.assoc)
qed

lemma dequeue_by_4_step:
  "i < n AND NOT 3 \<Longrightarrow>
   dequeue_by_4 n ring i idx tbl =
     dequeue_rest 4 ring i idx tbl \<bind> dequeue_by_4 n ring (i + 4) (idx + 4)"
  by (subst dequeue_by_4.simps) (simp add: numeral_eq_Suc add.assoc)

lemma dequeue_by_4_eq:
  "\<lbrakk>unat (n AND NOT 3) = unat i + 4 * c; unat i + 4 * c \<le> length tbl;
    unat idx + 4 * c \<le> length ring; unat idx + 4 * c < 2 ^ 32\<rbrakk> \<Longrightarrow>
   dequeue_by_4 n ring i idx tbl =
     Some (i + of_nat (4 * c), idx + of_nat (4 * c), copy_slice ring (unat idx) tbl (unat i) (4 * c))"
proof (induction c arbitrary: i idx tbl)
  case 0
  then show ?case by (simp add: dequeue_by_4.simps word_less_nat_alt)
next
  case (Suc c)
  have i: "unat i + 4 * Suc c < 2 ^ 32"
    using Suc.prems(1) unat_lt_pow [of "n AND NOT 3"] by simp
  have "dequeue_by_4 n ring (i + 4) (idx + 4) (copy_slice ring (unat idx) tbl (unat i) 4) =
      Some (i + 4 + of_nat (4 * c), idx + 4 + of_nat (4 * c),
        copy_slice ring (unat (idx + 4)) (copy_slice ring (unat idx) tbl (unat i) 4) (unat (i + 4)) (4 * c))"
    using Suc.prems i by (intro Suc.IH) (simp_all add: unat_inc_nums)
  moreover have "dequeue_rest 4 ring i idx tbl = Some (copy_slice ring (unat idx) tbl (unat i) 4)"
    using Suc.prems i by (intro dequeue_rest_eq) simp_all
  moreover have "i < n AND NOT 3" using Suc.prems(1) by (simp add: word_less_nat_alt)
  ultimately show ?case
    using Suc.prems i copy_slice_append [of _ _ 4 _ _ "4 * c"]
    by (simp add: dequeue_by_4_step unat_inc_nums add.assoc)
qed

lemma unat_and_not_3: "unat (n AND NOT 3 :: u32) = 4 * (unat n div 4)"
proof -
  have "(3 :: u32) = mask 2" by (simp add: mask_eq_decr_exp)
  then show ?thesis using unat_and_not_mask [of n 2] by (simp only: minus_mod_eq_mult_div) simp
qed

lemmas unat_and_neg_4 [simp] = unat_and_not_3 [simplified]

lemma unat_and_3: "unat (n AND 3 :: u32) = unat n mod 4"
proof -
  have "(3 :: u32) = mask 2" by (simp add: mask_eq_decr_exp)
  then show ?thesis using unat_and_mask [of n 2] by simp
qed

lemma ring_shapeE:
  assumes "ring_shape r"
  obtains k where "k < 32" "r_size r = 2 ^ k" "unat (r_size r) = 2 ^ k" "r_mask r = mask k"
    "unat (r_capacity r) < 2 ^ k" "length (r_objs r) = 2 ^ k"
proof -
  from assms obtain k where k: "k < 32" "r_size r = 2 ^ k" "r_mask r = mask k"
    unfolding ring_shape_def by blast
  then have "unat (r_size r) = 2 ^ k" by (simp add: unat_pow2)
  with k assms that show thesis by (auto simp: ring_shape_def word_less_nat_alt)
qed

lemma pow2_le_half: "k < 32 \<Longrightarrow> (2::nat) ^ k \<le> 2 ^ 31"
  by (rule power_increasing) simp_all

lemma wrap_nth:
  assumes "i < L" "j < (L::nat)"
  shows "(i + j) mod L = (if i + j < L then i + j else i + j - L)"
  using assms by (simp add: mod_if)

text \<open>
  The two branches of the macros as array copies: without wrap-around, one slice; with
  wrap-around, the slice up to the end of the table and the rest from its start.
\<close>

lemma ENQUEUE_PTRS_straight:
  assumes idx: "unat (ph AND r_mask r) = i" and le: "i + unat n < unat (r_size r)"
    and len: "unat n \<le> length tbl" "length (r_objs r) = unat (r_size r)"
  shows "ENQUEUE_PTRS r ph tbl n = Some (r\<lparr>r_objs := copy_slice tbl 0 (r_objs r) i (unat n)\<rparr>)"
proof -
  define m where "m = 4 * (unat n div 4)"
  let ?idx = "ph AND r_mask r"
  have m: "m \<le> unat n" "m + unat n mod 4 = unat n" by (simp_all add: m_def)
  have lim: "i + unat n < 2 ^ 32" using le unat_lt_pow [of "r_size r"] by simp
  have lt: "?idx + n < r_size r"
    using le lim by (simp add: word_less_nat_alt unat_add_no_overflow idx)
  have "enqueue_by_4 n tbl 0 ?idx (r_objs r) =
      Some (of_nat m, ?idx + of_nat m, copy_slice tbl 0 (r_objs r) i m)"
    using m(1) lim le len enqueue_by_4_eq [of n 0 "unat n div 4" tbl ?idx "r_objs r"]
    by (simp add: idx flip: m_def)
  moreover have "enqueue_rest (unat (n AND 3)) tbl (of_nat m) (?idx + of_nat m)
      (copy_slice tbl 0 (r_objs r) i m) = Some (copy_slice tbl 0 (r_objs r) i (unat n))"
    using m lim le len copy_slice_append [of tbl 0 m "r_objs r" i "unat n mod 4"]
    by (subst enqueue_rest_eq) (simp_all add: unat_of_nat_small unat_inc idx unat_and_3)
  ultimately show ?thesis using lt by (simp add: ENQUEUE_PTRS_def Let_def)
qed

lemma DEQUEUE_PTRS_straight:
  assumes idx: "unat (ch AND r_mask r) = i" and le: "i + unat n < unat (r_size r)"
    and len: "unat n \<le> length tbl" "length (r_objs r) = unat (r_size r)"
  shows "DEQUEUE_PTRS r ch tbl n = Some (copy_slice (r_objs r) i tbl 0 (unat n))"
proof -
  define m where "m = 4 * (unat n div 4)"
  let ?idx = "ch AND r_mask r"
  have m: "m \<le> unat n" "m + unat n mod 4 = unat n" by (simp_all add: m_def)
  have lim: "i + unat n < 2 ^ 32" using le unat_lt_pow [of "r_size r"] by simp
  have lt: "?idx + n < r_size r"
    using le lim by (simp add: word_less_nat_alt unat_add_no_overflow idx)
  have "dequeue_by_4 n (r_objs r) 0 ?idx tbl =
      Some (of_nat m, ?idx + of_nat m, copy_slice (r_objs r) i tbl 0 m)"
    using m(1) lim le len dequeue_by_4_eq [of n 0 "unat n div 4" tbl ?idx "r_objs r"]
    by (simp add: idx flip: m_def)
  moreover have "dequeue_rest (unat (n AND 3)) (r_objs r) (of_nat m) (?idx + of_nat m)
      (copy_slice (r_objs r) i tbl 0 m) = Some (copy_slice (r_objs r) i tbl 0 (unat n))"
    using m lim le len copy_slice_append [of "r_objs r" i m tbl 0 "unat n mod 4"]
    by (subst dequeue_rest_eq) (simp_all add: unat_of_nat_small unat_inc idx unat_and_3)
  ultimately show ?thesis using lt by (simp add: DEQUEUE_PTRS_def Let_def)
qed

lemma ENQUEUE_PTRS_wrap:
  assumes idx: "unat (ph AND r_mask r) + m = unat (r_size r)"
    and m: "m \<le> unat n" "unat n < unat (r_size r)" "unat (r_size r) \<le> 2 ^ 31"
    and len: "unat n \<le> length tbl" "length (r_objs r) = unat (r_size r)"
  shows "ENQUEUE_PTRS r ph tbl n =
    Some (r\<lparr>r_objs := copy_slice tbl m (copy_slice tbl 0 (r_objs r) (unat (ph AND r_mask r)) m)
      0 (unat n - m)\<rparr>)"
proof -
  let ?idx = "ph AND r_mask r"
  let ?o1 = "copy_slice tbl 0 (r_objs r) (unat ?idx) m"
  have "unat (?idx + n) = unat ?idx + unat n" using idx m by (subst unat_add_no_overflow) simp_all
  then have ge: "\<not> ?idx + n < r_size r" using idx m(1) by (simp add: word_less_nat_alt)
  have "enqueue_to_end (r_size r) tbl 0 ?idx (r_objs r) = Some (of_nat m, ?o1)"
    using idx m len enqueue_to_end_eq [of "r_size r" ?idx m 0 tbl "r_objs r"] by simp
  moreover have "enqueue_from_start n tbl (of_nat m) 0 ?o1 = Some (copy_slice tbl m ?o1 0 (unat n - m))"
    using m len by (subst enqueue_from_start_eq [where c = "unat n - m"])
      (simp_all add: unat_of_nat_small)
  ultimately show ?thesis using ge by (simp add: ENQUEUE_PTRS_def Let_def)
qed

lemma DEQUEUE_PTRS_wrap:
  assumes idx: "unat (ch AND r_mask r) + m = unat (r_size r)"
    and m: "m \<le> unat n" "unat n < unat (r_size r)" "unat (r_size r) \<le> 2 ^ 31"
    and len: "unat n \<le> length tbl" "length (r_objs r) = unat (r_size r)"
  shows "DEQUEUE_PTRS r ch tbl n =
    Some (copy_slice (r_objs r) 0 (copy_slice (r_objs r) (unat (ch AND r_mask r)) tbl 0 m)
      m (unat n - m))"
proof -
  let ?idx = "ch AND r_mask r"
  let ?t1 = "copy_slice (r_objs r) (unat ?idx) tbl 0 m"
  have "unat (?idx + n) = unat ?idx + unat n" using idx m by (subst unat_add_no_overflow) simp_all
  then have ge: "\<not> ?idx + n < r_size r" using idx m(1) by (simp add: word_less_nat_alt)
  have "dequeue_to_end (r_size r) (r_objs r) 0 ?idx tbl = Some (of_nat m, ?t1)"
    using idx m len dequeue_to_end_eq [of "r_size r" ?idx m 0 tbl "r_objs r"] by simp
  moreover have "dequeue_from_start n (r_objs r) (of_nat m) 0 ?t1 =
      Some (copy_slice (r_objs r) 0 ?t1 m (unat n - m))"
    using m len by (subst dequeue_from_start_eq [where c = "unat n - m"])
      (simp_all add: unat_of_nat_small)
  ultimately show ?thesis using ge by (simp add: DEQUEUE_PTRS_def Let_def)
qed

text \<open>In terms of ring positions, whichever branch is taken.\<close>

lemma slot_wrap:
  assumes "ring_shape r" and "i = unat (p AND r_mask r)" and "j < unat (r_size r)"
  shows "i < unat (r_size r)"
    and "slot r (unat p + j) =
      (if i + j < unat (r_size r) then i + j else i + j - unat (r_size r))"
proof -
  from assms(1) obtain k where k: "unat (r_size r) = 2 ^ k" "r_mask r = mask k"
    by (rule ring_shapeE)
  have i: "i = unat p mod 2 ^ k" by (simp add: assms(2) k(2) unat_and_mask)
  then show "i < unat (r_size r)" by (simp add: k(1))
  then show "slot r (unat p + j) =
      (if i + j < unat (r_size r) then i + j else i + j - unat (r_size r))"
    using wrap_nth [of i "2 ^ k" j] assms(3) by (simp add: slot_def k(1) i mod_add_left_eq)
qed

lemma ring_shape_half: "ring_shape r \<Longrightarrow> unat (r_size r) \<le> 2 ^ 31"
  using pow2_le_half by (auto elim!: ring_shapeE)

lemma ENQUEUE_PTRS_eq:
  assumes shape: "ring_shape r" and n: "unat n < unat (r_size r)" "unat n \<le> length tbl"
  obtains objs where "ENQUEUE_PTRS r ph tbl n = Some (r\<lparr>r_objs := objs\<rparr>)"
    and "length objs = length (r_objs r)"
    and "\<And>j. j < unat (r_size r) \<Longrightarrow> objs ! slot r (unat ph + j) =
         (if j < unat n then tbl ! j else r_objs r ! slot r (unat ph + j))"
proof -
  define i where "i = unat (ph AND r_mask r)"
  note slots = slot_wrap [OF shape i_def]
  have len: "length (r_objs r) = unat (r_size r)" using shape by (simp add: ring_shape_def)
  have iL: "i < unat (r_size r)" using slots(1) n(1) .
  show thesis
  proof (cases "i + unat n < unat (r_size r)")
    case True
    show thesis
    proof (rule that)
      show "ENQUEUE_PTRS r ph tbl n = Some (r\<lparr>r_objs := copy_slice tbl 0 (r_objs r) i (unat n)\<rparr>)"
        using i_def [symmetric] True n(2) len by (rule ENQUEUE_PTRS_straight)
    qed (use True iL in \<open>auto simp: nth_copy_slice slots(2) len\<close>)
  next
    case False
    define m where "m = unat (r_size r) - i"
    have m: "i + m = unat (r_size r)" "m \<le> unat n" using False iL by (auto simp: m_def)
    show thesis
    proof (rule that)
      show "ENQUEUE_PTRS r ph tbl n =
          Some (r\<lparr>r_objs := copy_slice tbl m (copy_slice tbl 0 (r_objs r) i m) 0 (unat n - m)\<rparr>)"
        unfolding i_def using m n len ring_shape_half [OF shape]
        by (intro ENQUEUE_PTRS_wrap) (simp_all flip: i_def)
    qed (use m n(1) iL in \<open>auto simp: nth_copy_slice slots(2) len
        intro!: arg_cong [where f = "nth tbl"]\<close>)
  qed
qed

lemma DEQUEUE_PTRS_eq:
  assumes shape: "ring_shape r" and n: "unat n < unat (r_size r)" "unat n \<le> length tbl"
  shows "DEQUEUE_PTRS r ch tbl n =
    Some (map (\<lambda>j. r_objs r ! slot r (unat ch + j)) [0..<unat n] @ drop (unat n) tbl)"
proof -
  define i where "i = unat (ch AND r_mask r)"
  note slots = slot_wrap [OF shape i_def]
  have len: "length (r_objs r) = unat (r_size r)" using shape by (simp add: ring_shape_def)
  have iL: "i < unat (r_size r)" using slots(1) n(1) .
  show ?thesis
  proof (cases "i + unat n < unat (r_size r)")
    case True
    have "DEQUEUE_PTRS r ch tbl n = Some (copy_slice (r_objs r) i tbl 0 (unat n))"
      using i_def [symmetric] True n(2) len by (rule DEQUEUE_PTRS_straight)
    also have "copy_slice (r_objs r) i tbl 0 (unat n) =
        map (\<lambda>j. r_objs r ! slot r (unat ch + j)) [0..<unat n] @ drop (unat n) tbl"
      using True n by (intro nth_equalityI) (auto simp: nth_copy_slice slots(2) nth_append)
    finally show ?thesis .
  next
    case False
    define m where "m = unat (r_size r) - i"
    have m: "i + m = unat (r_size r)" "m \<le> unat n" using False iL by (auto simp: m_def)
    have "DEQUEUE_PTRS r ch tbl n =
        Some (copy_slice (r_objs r) 0 (copy_slice (r_objs r) i tbl 0 m) m (unat n - m))"
      unfolding i_def using m n len ring_shape_half [OF shape]
      by (intro DEQUEUE_PTRS_wrap) (simp_all flip: i_def)
    also have "copy_slice (r_objs r) 0 (copy_slice (r_objs r) i tbl 0 m) m (unat n - m) =
        map (\<lambda>j. r_objs r ! slot r (unat ch + j)) [0..<unat n] @ drop (unat n) tbl"
      using m n iL by (intro nth_equalityI) (auto simp: nth_copy_slice slots(2) nth_append
          intro!: arg_cong [where f = "nth (r_objs r)"])
    finally show ?thesis .
  qed
qed

end
