(* ===== verification/Ring_Queue.thy ===== *)
theory Ring_Queue
  imports Ring_Copy
begin

text \<open>
  The ring as a bounded FIFO queue: functional correctness of every operation run by one thread
  at a time, and the interpretation of the queue interface on the ring.
\<close>

section \<open>Functional correctness: a bounded FIFO queue\<close>

lemma granted_le: "granted n avail b \<le> avail" "granted n avail b \<le> n"
  by (auto simp: granted_def)

lemma granted_fixed: "granted n avail RTE_RING_QUEUE_FIXED = (if n \<le> avail then n else 0)"
  by (auto simp: granted_def)

lemma granted_variable: "granted n avail RTE_RING_QUEUE_VARIABLE = min n avail"
  by (auto simp: granted_def min_def)

text \<open>With one thread the compare-and-set never fails, so the loops end in their first pass.\<close>

lemma move_prod_head_eq:
  "rte_ring_move_prod_head r is_sp n b =
     (let old = ht_head (r_prod r); free = r_capacity r + ht_tail (r_cons r) - old;
          g = granted n free b
      in if g = 0 then Some (r, 0, old, None, free)
         else Some (r\<lparr>r_prod := (r_prod r)\<lparr>ht_head := old + g\<rparr>\<rparr>, g, old, Some (old + g), free))"
  by (subst rte_ring_move_prod_head.simps)
    (simp add: Let_def granted_def rte_atomic32_cmpset_eq)

lemma move_cons_head_eq:
  "rte_ring_move_cons_head r is_sc n b =
     (let old = ht_head (r_cons r); avail = ht_tail (r_prod r) - old; g = granted n avail b
      in if g = 0 then Some (r, 0, old, None, avail)
         else Some (r\<lparr>r_cons := (r_cons r)\<lparr>ht_head := old + g\<rparr>\<rparr>, g, old, Some (old + g), avail))"
  by (subst rte_ring_move_cons_head.simps)
    (simp add: Let_def granted_def rte_atomic32_cmpset_eq)

lemma update_tail_eq:
  "single \<noteq> 0 \<or> ht_tail ht = old \<Longrightarrow> update_tail ht old new single = Some (ht\<lparr>ht_tail := new\<rparr>)"
  by (auto simp: update_tail_def wait_tail.simps)

lemma slot_add:
  fixes p q :: u32
  assumes "ring_shape r"
  shows "slot r (unat (p + q) + j) = slot r (unat p + (unat q + j))"
proof -
  from assms obtain k where k: "k < 32" "unat (r_size r) = 2 ^ k" by (rule ring_shapeE)
  then have "(2::nat) ^ k dvd 2 ^ 32" by (intro le_imp_power_dvd) simp
  then have "unat (p + q) mod 2 ^ k = (unat p + unat q) mod 2 ^ k"
    by (simp add: unat_word_ariths mod_mod_cancel)
  then show ?thesis by (metis slot_def k(2) mod_add_left_eq add.assoc)
qed

lemma length_ring_contents:
  "length (ring_contents r) = unat (ht_tail (r_prod r) - ht_tail (r_cons r))"
  by (simp add: ring_contents_def)

lemma ring_inv_count:
  assumes "ring_inv r"
  shows "rte_ring_count r = ht_tail (r_prod r) - ht_tail (r_cons r)"
    and "rte_ring_free_count r = r_capacity r + ht_tail (r_cons r) - ht_tail (r_prod r)"
    and "unat (rte_ring_count r) = length (ring_contents r)"
    and "length (ring_contents r) + unat (rte_ring_free_count r) = unat (r_capacity r)"
proof -
  define c where "c = ht_tail (r_prod r) - ht_tail (r_cons r)"
  from assms have shape: "ring_shape r" and le: "c \<le> r_capacity r"
    by (simp_all add: ring_inv_def c_def)
  from shape obtain k where k: "r_mask r = mask k" "unat (r_capacity r) < 2 ^ k"
    by (rule ring_shapeE)
  have "unat (c AND r_mask r) = unat c"
    using le k by (simp add: unat_and_mask word_le_nat_alt)
  then have "c AND r_mask r = c" by (simp add: word_unat_eq_iff)
  then show cnt: "rte_ring_count r = ht_tail (r_prod r) - ht_tail (r_cons r)"
    using leD [OF le] by (simp add: rte_ring_count_def Let_def flip: c_def)
  then show "unat (rte_ring_count r) = length (ring_contents r)"
    by (simp add: length_ring_contents)
  show "rte_ring_free_count r = r_capacity r + ht_tail (r_cons r) - ht_tail (r_prod r)"
    by (simp add: rte_ring_free_count_def cnt)
  have "rte_ring_free_count r = r_capacity r - c" by (simp add: rte_ring_free_count_def cnt c_def)
  then show "length (ring_contents r) + unat (rte_ring_free_count r) = unat (r_capacity r)"
    using le by (simp add: length_ring_contents unat_sub word_le_nat_alt flip: c_def)
qed

text \<open>Storing objects behind the last one and advancing the producer tail appends them.\<close>

lemma ring_contents_store:
  assumes shape: "ring_shape r" and len: "len = unat (ht_tail (r_prod r) - ht_tail (r_cons r))"
    and fits: "len + unat g < unat (r_size r)" "unat g \<le> length tbl"
    and at: "\<And>j. j < unat (r_size r) \<Longrightarrow> objs ! slot r (unat (ht_tail (r_prod r)) + j) =
      (if j < unat g then tbl ! j else r_objs r ! slot r (unat (ht_tail (r_prod r)) + j))"
    and r': "r_objs r' = objs" "r_cons r' = r_cons r" "r_size r' = r_size r"
      "ht_tail (r_prod r') = ht_tail (r_prod r) + g"
  shows "unat (ht_tail (r_prod r') - ht_tail (r_cons r')) = len + unat g"
    and "ring_contents r' = ring_contents r @ take (unat g) tbl"
proof -
  let ?pt = "ht_tail (r_prod r)" and ?ct = "ht_tail (r_cons r)"
  have "ht_tail (r_prod r') - ht_tail (r_cons r') = (?pt - ?ct) + g" by (simp add: r')
  also have "unat \<dots> = len + unat g"
    using fits(1) unat_lt_pow [of "r_size r"] by (subst unat_add_no_overflow) (simp_all add: len)
  finally show len': "unat (ht_tail (r_prod r') - ht_tail (r_cons r')) = len + unat g" .
  have pos: "slot r (unat ?pt + j) = slot r (unat ?ct + (len + j))" for j
    using slot_add [OF shape, of ?ct "?pt - ?ct" j] by (simp add: len)
  have low: "objs ! slot r (unat ?ct + j) = r_objs r ! slot r (unat ?ct + j)" if "j < len" for j
  proof -
    define d where "d = unat (r_size r) - len + j"
    have d: "d < unat (r_size r)" "\<not> d < unat g"
      and "unat ?ct + (len + d) = (unat ?ct + j) + unat (r_size r)"
      using fits(1) that by (simp_all add: d_def)
    then have "slot r (unat ?pt + d) = slot r (unat ?ct + j)"
      by (simp only: pos) (simp only: slot_def mod_add_self2)
    then show ?thesis using at [OF d(1)] d(2) by simp
  qed
  have high: "objs ! slot r (unat ?ct + (len + j)) = tbl ! j" if "j < unat g" for j
    using at [of j] that fits(1) unfolding pos by simp
  show "ring_contents r' = ring_contents r @ take (unat g) tbl"
  proof (rule nth_equalityI)
    show "length (ring_contents r') = length (ring_contents r @ take (unat g) tbl)"
      using fits(2) len' by (simp add: length_ring_contents len)
  next
    fix j assume "j < length (ring_contents r')"
    then have j: "j < len + unat g" by (simp add: length_ring_contents len')
    have sl: "slot r' p = slot r p" for p by (simp add: slot_def r')
    show "ring_contents r' ! j = (ring_contents r @ take (unat g) tbl) ! j"
      using j low high [of "j - len"] sl len'
      by (auto simp: ring_contents_def r' nth_append simp flip: len)
  qed
qed

lemma do_enqueue_correct:
  fixes r :: "'o rte_ring" and b :: rte_ring_queue_behavior
  assumes inv: "ring_inv r" and n: "unat n \<le> length tbl"
  defines "g \<equiv> granted n (rte_ring_free_count r) b"
  obtains r' where
    "rte_ring_do_enqueue r tbl n b is_sp = Some (r', g, rte_ring_free_count r - g)"
    and "ring_inv r'" and "ring_contents r' = ring_contents r @ take (unat g) tbl"
    and "r_capacity r' = r_capacity r"
proof -
  let ?pt = "ht_tail (r_prod r)" and ?ct = "ht_tail (r_cons r)"
  define len where "len = unat (?pt - ?ct)"
  from inv have shape: "ring_shape r" and hd: "ht_head (r_prod r) = ?pt" "ht_head (r_cons r) = ?ct"
    by (simp_all add: ring_inv_def)
  note cnt = ring_inv_count [OF inv]
  have g: "unat g \<le> unat n" "len + unat g \<le> unat (r_capacity r)"
    using granted_le [of n "rte_ring_free_count r" b] cnt(3,4)
    by (auto simp: g_def word_le_nat_alt len_def length_ring_contents)
  have cap: "unat (r_capacity r) < unat (r_size r)"
    using shape by (simp add: ring_shape_def word_less_nat_alt)
  have mv: "rte_ring_move_prod_head r is_sp n b =
    (if g = 0 then Some (r, 0, ?pt, None, rte_ring_free_count r)
     else Some (r\<lparr>r_prod := (r_prod r)\<lparr>ht_head := ?pt + g\<rparr>\<rparr>, g, ?pt, Some (?pt + g),
       rte_ring_free_count r))"
    by (simp add: move_prod_head_eq Let_def hd cnt(2) g_def)
  show thesis
  proof (cases "g = 0")
    case True
    then show thesis using inv that [of r] by (simp add: rte_ring_do_enqueue_def mv)
  next
    case False
    let ?r1 = "r\<lparr>r_prod := (r_prod r)\<lparr>ht_head := ?pt + g\<rparr>\<rparr>"
    have "ring_shape ?r1" "unat g < unat (r_size ?r1)" "unat g \<le> length tbl"
      using shape g cap n by (simp_all add: ring_shape_def)
    then obtain objs where
      enq: "ENQUEUE_PTRS ?r1 ?pt tbl g = Some (?r1\<lparr>r_objs := objs\<rparr>)"
      and lo: "length objs = length (r_objs r)"
      and at: "\<And>j. j < unat (r_size r) \<Longrightarrow> objs ! slot r (unat ?pt + j) =
         (if j < unat g then tbl ! j else r_objs r ! slot r (unat ?pt + j))"
      by (rule ENQUEUE_PTRS_eq [of ?r1 g tbl ?pt]) (auto simp: slot_def)
    define r' where "r' = ?r1\<lparr>r_objs := objs, r_prod := (r_prod ?r1)\<lparr>ht_tail := ?pt + g\<rparr>\<rparr>"
    have res: "rte_ring_do_enqueue r tbl n b is_sp = Some (r', g, rte_ring_free_count r - g)"
      using False enq by (simp add: rte_ring_do_enqueue_def mv update_tail_eq r'_def)
    have fits: "len + unat g < unat (r_size r)" "unat g \<le> length tbl" using g cap n by simp_all
    have r': "r_objs r' = objs" "r_cons r' = r_cons r" "r_size r' = r_size r"
      "ht_tail (r_prod r') = ht_tail (r_prod r) + g"
      by (simp_all add: r'_def)
    note st = ring_contents_store [OF shape len_def fits at r']
    have "ring_inv r'"
      using inv g(2) st(1) lo by (simp add: ring_inv_def ring_shape_def r'_def word_le_nat_alt)
    with res st(2) show thesis by (intro that [of r']) (simp_all add: r'_def)
  qed
qed

lemma do_dequeue_correct:
  fixes r :: "'o rte_ring" and b :: rte_ring_queue_behavior
  assumes inv: "ring_inv r" and n: "unat n \<le> length tbl"
  defines "g \<equiv> granted n (rte_ring_count r) b"
  obtains r' where
    "rte_ring_do_dequeue r tbl n b is_sc =
       Some (r', take (unat g) (ring_contents r) @ drop (unat g) tbl, g, rte_ring_count r - g)"
    and "ring_inv r'" and "ring_contents r' = drop (unat g) (ring_contents r)"
    and "r_capacity r' = r_capacity r"
proof -
  let ?pt = "ht_tail (r_prod r)" and ?ct = "ht_tail (r_cons r)"
  define len where "len = unat (?pt - ?ct)"
  from inv have shape: "ring_shape r" and hd: "ht_head (r_prod r) = ?pt" "ht_head (r_cons r) = ?ct"
    and le: "?pt - ?ct \<le> r_capacity r"
    by (simp_all add: ring_inv_def)
  note cnt = ring_inv_count [OF inv]
  have g: "g \<le> n" "g \<le> ?pt - ?ct"
    using granted_le [of n "rte_ring_count r" b] by (simp_all add: g_def cnt(1))
  have cap: "unat (r_capacity r) < unat (r_size r)"
    using shape by (simp add: ring_shape_def word_less_nat_alt)
  have mv: "rte_ring_move_cons_head r is_sc n b =
    (if g = 0 then Some (r, 0, ?ct, None, rte_ring_count r)
     else Some (r\<lparr>r_cons := (r_cons r)\<lparr>ht_head := ?ct + g\<rparr>\<rparr>, g, ?ct, Some (?ct + g),
       rte_ring_count r))"
    by (simp add: move_cons_head_eq Let_def hd cnt(1) g_def)
  show thesis
  proof (cases "g = 0")
    case True
    then show thesis using inv that [of r] by (simp add: rte_ring_do_dequeue_def mv)
  next
    case False
    let ?r1 = "r\<lparr>r_cons := (r_cons r)\<lparr>ht_head := ?ct + g\<rparr>\<rparr>"
    have fits: "ring_shape ?r1" "unat g < unat (r_size ?r1)" "unat g \<le> length tbl"
      using shape g le cap n by (simp_all add: ring_shape_def word_le_nat_alt)
    have gl: "unat g \<le> len" using g(2) by (simp add: word_le_nat_alt len_def)
    have "map (\<lambda>j. r_objs r ! slot r (unat ?ct + j)) [0..<unat g] = take (unat g) (ring_contents r)"
      using gl by (simp add: ring_contents_def take_map flip: len_def)
    then have deq: "DEQUEUE_PTRS ?r1 ?ct tbl g =
        Some (take (unat g) (ring_contents r) @ drop (unat g) tbl)"
      using DEQUEUE_PTRS_eq [OF fits, of ?ct] by (simp add: slot_def)
    define r' where "r' = ?r1\<lparr>r_cons := (r_cons ?r1)\<lparr>ht_tail := ?ct + g\<rparr>\<rparr>"
    have res: "rte_ring_do_dequeue r tbl n b is_sc =
       Some (r', take (unat g) (ring_contents r) @ drop (unat g) tbl, g, rte_ring_count r - g)"
      using False deq by (simp add: rte_ring_do_dequeue_def mv update_tail_eq r'_def)
    have "?pt - (?ct + g) = (?pt - ?ct) - g" by simp
    then have len': "unat (?pt - (?ct + g)) = len - unat g"
      using g(2) by (simp only: unat_sub len_def)
    have "ring_inv r'"
      using inv len' gl le by (auto simp: ring_inv_def ring_shape_def r'_def word_le_nat_alt len_def)
    moreover have "ring_contents r' = drop (unat g) (ring_contents r)"
    proof (rule nth_equalityI)
      show "length (ring_contents r') = length (drop (unat g) (ring_contents r))"
        using len' by (simp add: length_ring_contents r'_def len_def)
    next
      fix j assume "j < length (ring_contents r')"
      then have j: "j < len - unat g" by (simp add: length_ring_contents r'_def len')
      then have "unat g + j < len" by simp
      with j show "ring_contents r' ! j = drop (unat g) (ring_contents r) ! j"
        using slot_add [OF shape, of ?ct g j] len' gl
        by (simp add: ring_contents_def r'_def slot_def flip: len_def)
    qed
    ultimately show thesis using res by (intro that [of r']) (simp_all add: r'_def)
  qed
qed

section \<open>The ring implements the queue interface\<close>

text \<open>The policy of the two behaviours on natural numbers.\<close>

definition ring_policy :: "rte_ring_queue_behavior \<Rightarrow> nat \<Rightarrow> nat \<Rightarrow> nat" where
  "ring_policy b n avail =
     (if n > avail then (if b = RTE_RING_QUEUE_FIXED then 0 else avail) else n)"

lemma ring_policy_fixed [simp]:
  "ring_policy RTE_RING_QUEUE_FIXED n avail = (if n \<le> avail then n else 0)"
  by (simp add: ring_policy_def)

lemma ring_policy_variable [simp]:
  "ring_policy RTE_RING_QUEUE_VARIABLE n avail = min n avail"
  by (simp add: ring_policy_def)

lemma unat_granted: "unat (granted n avail b) = ring_policy b (unat n) (unat avail)"
  by (simp add: granted_def ring_policy_def word_less_nat_alt)

lemma ring_enqueue_law:
  fixes r :: "'o rte_ring"
  assumes "ring_inv r" "unat n \<le> length tbl"
  shows "\<exists>r' k free. rte_ring_do_enqueue r tbl n b is_sp = Some (r', k, free) \<and> ring_inv r' \<and>
    unat (r_capacity r') = unat (r_capacity r) \<and>
    unat k = ring_policy b (unat n) (unat (r_capacity r) - length (ring_contents r)) \<and>
    ring_contents r' = ring_contents r @ take (unat k) tbl \<and>
    unat free = unat (r_capacity r') - length (ring_contents r')"
proof (rule do_enqueue_correct [OF assms, of b is_sp])
  fix r'
  let ?g = "granted n (rte_ring_free_count r) b"
  assume r': "rte_ring_do_enqueue r tbl n b is_sp = Some (r', ?g, rte_ring_free_count r - ?g)"
    "ring_inv r'" "ring_contents r' = ring_contents r @ take (unat ?g) tbl"
    "r_capacity r' = r_capacity r"
  have free: "unat (rte_ring_free_count r) = unat (r_capacity r) - length (ring_contents r)"
    using ring_inv_count(4) [OF assms(1)] by simp
  have "unat (rte_ring_free_count r - ?g) = unat (rte_ring_free_count r) - unat ?g"
    by (rule unat_sub [OF granted_le(1)])
  moreover have "unat ?g \<le> length tbl"
    using granted_le(2) [of n "rte_ring_free_count r" b] assms(2) by (simp add: word_le_nat_alt)
  ultimately show ?thesis using r' free by (simp add: unat_granted)
qed

lemma ring_dequeue_law:
  fixes r :: "'o rte_ring"
  assumes "ring_inv r" "unat n \<le> length tbl"
  shows "\<exists>r' tbl' k avail. rte_ring_do_dequeue r tbl n b is_sc = Some (r', tbl', k, avail) \<and>
    ring_inv r' \<and> unat (r_capacity r') = unat (r_capacity r) \<and>
    unat k = ring_policy b (unat n) (length (ring_contents r)) \<and>
    ring_contents r' = drop (unat k) (ring_contents r) \<and>
    tbl' = take (unat k) (ring_contents r) @ drop (unat k) tbl \<and>
    unat avail = length (ring_contents r')"
proof (rule do_dequeue_correct [OF assms, of b is_sc])
  fix r'
  let ?g = "granted n (rte_ring_count r) b"
  assume r': "rte_ring_do_dequeue r tbl n b is_sc =
      Some (r', take (unat ?g) (ring_contents r) @ drop (unat ?g) tbl, ?g, rte_ring_count r - ?g)"
    "ring_inv r'" "ring_contents r' = drop (unat ?g) (ring_contents r)"
    "r_capacity r' = r_capacity r"
  have "unat (rte_ring_count r - ?g) = unat (rte_ring_count r) - unat ?g"
    by (rule unat_sub [OF granted_le(1)])
  then show ?thesis using r' ring_inv_count(3) [OF assms(1)] by (simp add: unat_granted)
qed

interpretation ring_q: bulk_queue ring_inv ring_contents "\<lambda>r. unat (r_capacity r)" "ring_policy b"
    "\<lambda>r tbl n. rte_ring_do_enqueue r tbl n b is_sp"
    "\<lambda>r tbl n. rte_ring_do_dequeue r tbl n b is_sc"
  for b is_sp is_sc
proof unfold_locales
  show "length (ring_contents q) \<le> unat (r_capacity q)" if "ring_inv q" for q :: "'a rte_ring"
    using ring_inv_count(4) [OF that] by simp
  show "ring_policy b m a \<le> m" "ring_policy b m a \<le> a" for m a
    by (simp_all add: ring_policy_def)
qed (fact ring_enqueue_law ring_dequeue_law)+

lemmas ring_op_defs = rte_ring_mp_enqueue_bulk_def rte_ring_sp_enqueue_bulk_def
  rte_ring_enqueue_bulk_def rte_ring_mc_dequeue_bulk_def rte_ring_sc_dequeue_bulk_def
  rte_ring_dequeue_bulk_def rte_ring_mp_enqueue_burst_def rte_ring_sp_enqueue_burst_def
  rte_ring_enqueue_burst_def rte_ring_mc_dequeue_burst_def rte_ring_sc_dequeue_burst_def
  rte_ring_dequeue_burst_def

section \<open>Initialisation establishes the invariant\<close>

lemma POWEROF2_pow2:
  assumes "POWEROF2 n" "n \<noteq> 0"
  obtains k where "k < 32" "n = 2 ^ k"
proof -
  have "n AND (n - 1) = 0" using assms(1) by (simp add: POWEROF2_def and.commute)
  then obtain k where "k < LENGTH(32)" "n = 2 ^ k" using assms(2) by (rule and_pred_eq_0_pow2)
  then show thesis using that by simp
qed

lemma ring_init_inv:
  assumes sz: "k < 32" "r_size r = 2 ^ k" "r_mask r = r_size r - 1" "r_capacity r < r_size r"
    and objs: "length (r_objs r) = unat (r_size r)"
    and ht: "ht_head (r_prod r) = 0" "ht_tail (r_prod r) = 0"
      "ht_head (r_cons r) = 0" "ht_tail (r_cons r) = 0"
  shows "ring_inv r \<and> ring_contents r = []"
proof -
  have "ring_shape r" unfolding ring_shape_def
    using sz objs by (auto simp: mask_eq_decr_exp intro!: exI [of _ k])
  then show ?thesis using ht by (simp add: ring_inv_def ring_contents_def)
qed

lemma pow2_pred_less: "k < 32 \<Longrightarrow> (2 ^ k - 1 :: u32) < 2 ^ k"
  by (simp add: word_less_nat_alt unat_pow2 unat_mask flip: mask_eq_decr_exp)

lemma ring_init_pow2:
  assumes nm: "length nm < 32" and fl: "flags AND RING_F_EXACT_SZ = 0"
    and c: "POWEROF2 count" "count \<noteq> 0" "count \<le> RTE_RING_SZ_MASK"
    and objs: "length (r_objs r) = unat count"
  shows "\<exists>r'. rte_ring_init r nm count flags = (r', 0) \<and> ring_inv r' \<and> ring_contents r' = [] \<and>
    r_capacity r' = count - 1 \<and> r_size r' = count \<and> r_name r' = nm \<and> r_flags r' = flags"
proof -
  from c obtain k where k: "k < 32" "count = 2 ^ k" by (auto elim: POWEROF2_pow2)
  define r' where "r' = fst (rte_ring_init r nm count flags)"
  have init: "rte_ring_init r nm count flags = (r', 0) \<and> r_capacity r' = count - 1 \<and>
    r_size r' = count \<and> r_name r' = nm \<and> r_flags r' = flags \<and> r_mask r' = count - 1 \<and>
    r_objs r' = r_objs r \<and> ht_head (r_prod r') = 0 \<and> ht_tail (r_prod r') = 0 \<and>
    ht_head (r_cons r') = 0 \<and> ht_tail (r_cons r') = 0"
    using nm fl c by (simp add: r'_def rte_ring_init_def snprintf_str_def RTE_MEMZONE_NAMESIZE_def
        Let_def zero_ring_def not_less)
  then have "ring_inv r' \<and> ring_contents r' = []"
    using k objs by (intro ring_init_inv [of k]) (auto simp: pow2_pred_less)
  with init show ?thesis by blast
qed

lemma ring_init_exact:
  assumes nm: "length nm < 32" and fl: "flags AND RING_F_EXACT_SZ \<noteq> 0"
    and c: "count \<le> RTE_RING_SZ_MASK"
    and objs: "length (r_objs r) = unat (rte_align32pow2 (count + 1))"
  shows "\<exists>r'. rte_ring_init r nm count flags = (r', 0) \<and> ring_inv r' \<and> ring_contents r' = [] \<and>
    r_capacity r' = count \<and> r_size r' = rte_align32pow2 (count + 1) \<and> r_name r' = nm \<and>
    r_flags r' = flags"
proof -
  have cnt: "unat count \<le> 2 ^ 31 - 1"
    using c by (simp add: RTE_RING_SZ_MASK_def word_le_nat_alt)
  then have c1: "unat (count + 1) = unat count + 1"
    by (subst unat_add_no_overflow) simp_all
  then have "count + 1 \<noteq> 0" by (metis add_is_0 one_neq_zero unat_0)
  then obtain k where k: "rte_align32pow2 (count + 1) = 2 ^ k" "unat (count + 1) \<le> 2 ^ k"
    "\<And>j. unat (count + 1) \<le> 2 ^ j \<Longrightarrow> k \<le> j" by (rule rte_align32pow2_correct) blast
  have "k \<le> 31" using cnt by (intro k(3)) (simp add: c1)
  then have less: "count < 2 ^ k" using k(2) by (simp add: c1 word_less_nat_alt unat_pow2)
  define r' where "r' = fst (rte_ring_init r nm count flags)"
  have init: "rte_ring_init r nm count flags = (r', 0) \<and> r_capacity r' = count \<and>
    r_size r' = rte_align32pow2 (count + 1) \<and> r_name r' = nm \<and> r_flags r' = flags \<and>
    r_mask r' = r_size r' - 1 \<and>
    r_objs r' = r_objs r \<and> ht_head (r_prod r') = 0 \<and> ht_tail (r_prod r') = 0 \<and>
    ht_head (r_cons r') = 0 \<and> ht_tail (r_cons r') = 0"
    using nm fl by (simp add: r'_def rte_ring_init_def snprintf_str_def RTE_MEMZONE_NAMESIZE_def
        Let_def zero_ring_def)
  then have "ring_inv r' \<and> ring_contents r' = []"
    using k(1) less objs \<open>k \<le> 31\<close> by (intro ring_init_inv [of k]) auto
  with init show ?thesis by blast
qed

section \<open>The C11 memory model versions\<close>

lemma move_prod_head_c11: "rte_ring_move_prod_head_c11 r is_sp n b = rte_ring_move_prod_head r is_sp n b"
  unfolding move_prod_head_eq
  by (subst rte_ring_move_prod_head_c11.simps)
    (simp add: Let_def granted_def atomic_compare_exchange_n_def)

lemma move_cons_head_c11: "rte_ring_move_cons_head_c11 r is_sc n b = rte_ring_move_cons_head r is_sc n b"
  unfolding move_cons_head_eq
  by (subst rte_ring_move_cons_head_c11.simps)
    (simp add: Let_def granted_def atomic_compare_exchange_n_def)

section \<open>Queries on a well-formed ring\<close>

lemma ring_full_iff:
  assumes "ring_inv r"
  shows "rte_ring_full r \<longleftrightarrow> length (ring_contents r) = unat (r_capacity r)"
proof -
  have "rte_ring_full r \<longleftrightarrow> unat (rte_ring_free_count r) = 0"
    by (simp add: rte_ring_full_def unat_eq_0)
  then show ?thesis using ring_inv_count(4) [OF assms] by auto
qed

lemma ring_empty_iff:
  assumes "ring_inv r"
  shows "rte_ring_empty r \<longleftrightarrow> ring_contents r = []"
proof -
  have "rte_ring_empty r \<longleftrightarrow> unat (rte_ring_count r) = 0"
    by (simp add: rte_ring_empty_def unat_eq_0)
  then show ?thesis by (simp add: ring_inv_count(3) [OF assms])
qed

section \<open>Properties of the ring\<close>

text \<open>A ring of four slots that holds two objects across the end of the table.\<close>

definition demo_ring :: "nat rte_ring" where
  "demo_ring = \<lparr>r_name = ''demo'', r_flags = 0, r_memzone = None, r_size = 4, r_mask = 3,
     r_capacity = 3, r_prod = \<lparr>ht_head = 1, ht_tail = 1, ht_single = 0\<rparr>,
     r_cons = \<lparr>ht_head = 0xffffffff, ht_tail = 0xffffffff, ht_single = 0\<rparr>,
     r_objs = [11, 0, 0, 10]\<rparr>"

lemma demo_ring_facts:
  "ring_inv demo_ring" "ring_contents demo_ring = [10, 11]" "r_capacity demo_ring = 3"
proof -
  have "\<exists>k < 32. (4::u32) = 2 ^ k \<and> 3 = (mask k :: u32)"
    by (rule exI [of _ 2]) (simp add: mask_eq_exp_minus_1)
  then show "ring_inv demo_ring"
    by (simp add: ring_inv_def ring_shape_def demo_ring_def)
  show "ring_contents demo_ring = [10, 11]"
    by (simp add: ring_contents_def slot_def demo_ring_def upt_rec)
qed (simp add: demo_ring_def)

text \<open>
  C5. A ring initialised with a power-of-two count behaves as a FIFO queue: every
  sequence of bulk or burst operations ends without an access outside the object table, whatever
  the producer and consumer modes; the objects delivered, followed by those still stored, are
  exactly the objects accepted, in order; and at most \<open>count - 1\<close> objects are stored.
\<close>

theorem ring_run_fifo:
  assumes "length nm < 32" "flags AND RING_F_EXACT_SZ = 0"
    and "POWEROF2 count" "count \<noteq> 0" "count \<le> RTE_RING_SZ_MASK"
    and "length (r_objs r) = unat count" "list_all op_fits ops"
  shows "\<exists>r0 r' ins outs. rte_ring_init r nm count flags = (r0, 0) \<and>
    queue_run (\<lambda>r tbl n. rte_ring_do_enqueue r tbl n b is_sp)
      (\<lambda>r tbl n. rte_ring_do_dequeue r tbl n b is_sc) r0 ops = Some (r', ins, outs) \<and>
    ins = outs @ ring_contents r' \<and> length (ring_contents r') \<le> unat (count - 1)"
proof -
  obtain r0 where r0: "rte_ring_init r nm count flags = (r0, 0)" "ring_inv r0"
    "ring_contents r0 = []" "r_capacity r0 = count - 1"
    using ring_init_pow2 [OF assms(1-6)] by blast
  from ring_q.run_fifo [OF r0(2) assms(7), of b is_sp is_sc] obtain r' ins outs where
    run: "queue_run (\<lambda>r tbl n. rte_ring_do_enqueue r tbl n b is_sp)
      (\<lambda>r tbl n. rte_ring_do_dequeue r tbl n b is_sc) r0 ops = Some (r', ins, outs)"
    and r': "ring_inv r'" "unat (r_capacity r') = unat (r_capacity r0)"
      "ring_contents r0 @ ins = outs @ ring_contents r'"
    by blast
  have "length (ring_contents r') \<le> unat (count - 1)"
    using ring_q.bounded [OF r'(1)] r'(2) r0(4) by simp
  then show ?thesis using r0 run r'(3) by auto
qed

theorem ring_run_fifo_witness:
  "\<exists>r0 r' ins outs. rte_ring_init (zero_ring [0::nat, 0, 0, 0]) ''q'' 4 0 = (r0, 0) \<and>
    queue_run (\<lambda>r tbl n. rte_ring_do_enqueue r tbl n RTE_RING_QUEUE_VARIABLE IS_MP)
      (\<lambda>r tbl n. rte_ring_do_dequeue r tbl n RTE_RING_QUEUE_VARIABLE IS_MC) r0
      [Enq [7, 8] 2, Deq [0] 1, Enq [9, 10, 11] 3] = Some (r', ins, outs) \<and>
    ins = outs @ ring_contents r' \<and> length (ring_contents r') \<le> unat (4 - 1 :: u32)"
  by (rule ring_run_fifo)
    (simp_all add: POWEROF2_def RTE_RING_SZ_MASK_def RING_F_EXACT_SZ_def zero_ring_def)

text \<open>
  \<^verbatim>\<open>rte_ring_enqueue_bulk\<close> stores all \<open>n\<close> objects behind those already
  in the ring, or, when there is no room for all of them, stores none and leaves the ring as it
  is; \<^verbatim>\<open>free_space\<close> is the room left.
\<close>

theorem ring_enqueue_bulk_spec:
  assumes "ring_inv r" "unat n \<le> length tbl"
  shows "if length (ring_contents r) + unat n \<le> unat (r_capacity r)
    then \<exists>r' free. rte_ring_enqueue_bulk r tbl n = Some (r', n, free) \<and> ring_inv r' \<and>
      ring_contents r' = ring_contents r @ take (unat n) tbl \<and>
      unat free = unat (r_capacity r) - length (ring_contents r')
    else rte_ring_enqueue_bulk r tbl n = Some (r, 0, rte_ring_free_count r)"
proof (cases "length (ring_contents r) + unat n \<le> unat (r_capacity r)")
  case True
  then have "unat n \<le> unat (r_capacity r) - length (ring_contents r)" by simp
  with ring_enqueue_law [OF assms, of RTE_RING_QUEUE_FIXED "ht_single (r_prod r)"] True
  show ?thesis by (auto simp: rte_ring_enqueue_bulk_def simp flip: word_unat_eq_iff)
next
  case False
  note cnt = ring_inv_count [OF assms(1)]
  have "rte_ring_free_count r < n" using False cnt(4) by (simp add: word_less_nat_alt)
  moreover have "ht_head (r_prod r) = ht_tail (r_prod r)" using assms(1) by (simp add: ring_inv_def)
  ultimately show ?thesis using False
    by (simp add: rte_ring_enqueue_bulk_def rte_ring_do_enqueue_def move_prod_head_eq Let_def
        granted_def flip: cnt(2))
qed

theorem ring_enqueue_bulk_spec_witness:
  "rte_ring_enqueue_bulk demo_ring [7, 8] 2 = Some (demo_ring, 0, 1)"
proof -
  have "rte_ring_free_count demo_ring = 1"
    by (simp add: rte_ring_free_count_def rte_ring_count_def demo_ring_def)
  then show ?thesis
    using ring_enqueue_bulk_spec [of demo_ring 2 "[7, 8]"] by (simp add: demo_ring_facts)
qed

text \<open>
  \<^verbatim>\<open>rte_ring_dequeue_burst\<close> takes as many of the oldest objects as
  asked for and available, hands them to the caller in order and reports how many are left.
\<close>

theorem ring_dequeue_burst_spec:
  assumes "ring_inv r" "unat n \<le> length tbl"
  defines "m \<equiv> min (unat n) (length (ring_contents r))"
  shows "\<exists>r' k avail.
    rte_ring_dequeue_burst r tbl n = Some (r', take m (ring_contents r) @ drop m tbl, k, avail) \<and>
    unat k = m \<and> ring_inv r' \<and> ring_contents r' = drop m (ring_contents r) \<and>
    unat avail = length (ring_contents r) - m"
  using ring_dequeue_law [OF assms(1,2), of RTE_RING_QUEUE_VARIABLE "ht_single (r_cons r)"]
  by (auto simp: rte_ring_dequeue_burst_def m_def)

theorem ring_dequeue_burst_spec_witness:
  "\<exists>r' k avail. rte_ring_dequeue_burst demo_ring [0, 0, 0] 3 = Some (r', [10, 11, 0], k, avail) \<and>
    unat k = Suc 1 \<and> ring_inv r' \<and> ring_contents r' = [] \<and> unat avail = 0"
  using ring_dequeue_burst_spec [of demo_ring 3 "[0, 0, 0]"]
  by (simp add: demo_ring_facts)

text \<open>
  On an empty ring with room for one object, \<^verbatim>\<open>rte_ring_enqueue\<close> followed by
  \<^verbatim>\<open>rte_ring_dequeue\<close> succeeds and returns the object, and leaves the ring empty; a further
  dequeue returns \<^verbatim>\<open>-ENOENT\<close> and does not touch the caller's variable.
\<close>

theorem ring_object_round_trip:
  assumes "ring_inv r" "ring_contents r = []" "r_capacity r \<noteq> 0"
  shows "\<exists>r1 r2. rte_ring_enqueue r obj = Some (r1, 0) \<and> rte_ring_dequeue r1 x = Some (r2, obj, 0) \<and>
    ring_inv r2 \<and> ring_contents r2 = [] \<and> rte_ring_dequeue r2 y = Some (r2, y, - ENOENT)"
proof -
  have cap: "1 \<le> unat (r_capacity r)" using assms(3) by (simp add: unat_gt_0 Suc_le_eq)
  have n1: "unat (1::u32) \<le> length [z]" for z by simp
  from ring_enqueue_law [OF assms(1) n1 [of obj], of RTE_RING_QUEUE_FIXED "ht_single (r_prod r)"]
  obtain r1 k free where r1: "rte_ring_enqueue_bulk r [obj] 1 = Some (r1, k, free)" "unat k = 1"
    "ring_inv r1" "ring_contents r1 = [obj]"
    using assms(2) cap by (auto simp: rte_ring_enqueue_bulk_def)
  from ring_dequeue_law [OF r1(3) n1 [of x], of RTE_RING_QUEUE_FIXED "ht_single (r_cons r1)"]
  obtain r2 k' avail where r2: "rte_ring_dequeue_bulk r1 [x] 1 = Some (r2, [obj], k', avail)"
    "unat k' = 1" "ring_inv r2" "ring_contents r2 = []"
    using r1(4) by (auto simp: rte_ring_dequeue_bulk_def)
  have "rte_ring_count r2 = 0"
    using ring_empty_iff [OF r2(3)] r2(4) by (simp add: rte_ring_empty_def)
  moreover have "ht_head (r_cons r2) = ht_tail (r_cons r2)" using r2(3) by (simp add: ring_inv_def)
  ultimately have "rte_ring_dequeue_bulk r2 [y] 1 = Some (r2, [y], 0, 0)"
    using ring_inv_count(1) [OF r2(3)]
    by (simp add: rte_ring_dequeue_bulk_def rte_ring_do_dequeue_def move_cons_head_eq Let_def granted_def)
  moreover have "k \<noteq> 0" "k' \<noteq> 0" using r1(2) r2(2) by auto
  ultimately show ?thesis using r1 r2 by (simp add: rte_ring_enqueue_def rte_ring_dequeue_def)
qed

theorem ring_object_round_trip_witness:
  "\<exists>r0. rte_ring_init (zero_ring [0::nat, 0]) ''q'' 2 0 = (r0, 0) \<and>
    (\<exists>r1 r2. rte_ring_enqueue r0 5 = Some (r1, 0) \<and> rte_ring_dequeue r1 0 = Some (r2, 5, 0) \<and>
      ring_inv r2 \<and> ring_contents r2 = [] \<and> rte_ring_dequeue r2 9 = Some (r2, 9, - ENOENT))"
proof -
  obtain r0 where r0: "rte_ring_init (zero_ring [0::nat, 0]) ''q'' 2 0 = (r0, 0)" "ring_inv r0"
    "ring_contents r0 = []" "r_capacity r0 = 2 - 1"
    using ring_init_pow2 [of "''q''" 0 2 "zero_ring [0::nat, 0]"]
    by (auto simp: POWEROF2_def RTE_RING_SZ_MASK_def zero_ring_def)
  then show ?thesis using ring_object_round_trip [of r0 5 0 9] by simp
qed

text \<open>
  With \<^verbatim>\<open>RING_F_EXACT_SZ\<close> a ring of any count below \<open>2\<^sup>3\<^sup>1\<close> holds exactly
  \<open>count\<close> objects: initialisation succeeds on a table of the next power of two, gives an empty
  well-formed ring, and an enqueue of \<open>count\<close> objects succeeds and makes it full.
\<close>

theorem ring_init_exact_sz:
  assumes "length nm < 32" "flags AND RING_F_EXACT_SZ \<noteq> 0" "count \<le> RTE_RING_SZ_MASK"
    and "length (r_objs r) = unat (rte_align32pow2 (count + 1))" "unat count \<le> length tbl"
  shows "\<exists>r0 r'. rte_ring_init r nm count flags = (r0, 0) \<and> rte_ring_empty r0 \<and>
    rte_ring_get_capacity r0 = count \<and> rte_ring_enqueue_bulk r0 tbl count = Some (r', count, 0) \<and>
    rte_ring_full r'"
proof -
  obtain r0 where r0: "rte_ring_init r nm count flags = (r0, 0)" "ring_inv r0"
    "ring_contents r0 = []" "r_capacity r0 = count"
    using ring_init_exact [OF assms(1-4)] by blast
  from ring_enqueue_law [OF r0(2) assms(5), of RTE_RING_QUEUE_FIXED "ht_single (r_prod r0)"]
  obtain r' k free where r': "rte_ring_enqueue_bulk r0 tbl count = Some (r', k, free)"
    "unat k = unat count" "ring_inv r'" "unat (r_capacity r') = unat count"
    "ring_contents r' = take (unat k) tbl" "unat free = unat (r_capacity r') - length (ring_contents r')"
    using r0(3,4) by (auto simp: rte_ring_enqueue_bulk_def)
  then have "k = count" "free = 0" using assms(5) by (simp_all flip: word_unat_eq_iff unat_eq_0)
  then show ?thesis using r0 r' assms(5)
    by (auto simp: rte_ring_get_capacity_def ring_full_iff ring_empty_iff)
qed

theorem ring_init_exact_sz_witness:
  "\<exists>r0 r'. rte_ring_init (zero_ring (replicate 8 (0::nat))) ''q'' 5 RING_F_EXACT_SZ = (r0, 0) \<and>
    rte_ring_empty r0 \<and> rte_ring_get_capacity r0 = 5 \<and>
    rte_ring_enqueue_bulk r0 [1, 2, 3, 4, 5] 5 = Some (r', 5, 0) \<and> rte_ring_full r'"
  by (rule ring_init_exact_sz) (simp_all add: RING_F_EXACT_SZ_def RTE_RING_SZ_MASK_def zero_ring_def
      rte_align32pow2_def smear_def)

text \<open>
  C29. A count of 0 passes the power-of-two test: initialisation reports success, and
  the first enqueue on the resulting ring writes outside its (empty) object table.
\<close>

theorem ring_zero_count:
  "rte_ring_get_memsize 0 = Inr SIZEOF_RTE_RING \<and>
   snd (rte_ring_init (zero_ring ([] :: 'o list)) ''q'' 0 0) = 0 \<and>
   rte_ring_enqueue (fst (rte_ring_init (zero_ring []) ''q'' 0 0)) (x :: 'o) = None"
proof (intro conjI)
  show "rte_ring_get_memsize 0 = Inr SIZEOF_RTE_RING"
    by (simp add: rte_ring_get_memsize_def POWEROF2_def RTE_RING_SZ_MASK_def SIZEOF_RTE_RING_def
        RTE_ALIGN_def RTE_ALIGN_CEIL_def RTE_ALIGN_FLOOR_def RTE_CACHE_LINE_SIZE_def)
  let ?r = "fst (rte_ring_init (zero_ring ([] :: 'o list)) ''q'' 0 0)"
  show "snd (rte_ring_init (zero_ring ([] :: 'o list)) ''q'' 0 0) = 0"
    by (simp add: rte_ring_init_def snprintf_str_def RTE_MEMZONE_NAMESIZE_def POWEROF2_def
        RTE_RING_SZ_MASK_def zero_ring_def)
  have "?r = (zero_ring [])\<lparr>r_name := ''q'', r_mask := -1, r_capacity := -1\<rparr>"
    by (simp add: rte_ring_init_def snprintf_str_def RTE_MEMZONE_NAMESIZE_def POWEROF2_def
        RTE_RING_SZ_MASK_def zero_ring_def zero_headtail_def IS_MP_def IS_MC_def)
  then show "rte_ring_enqueue ?r x = None"
    by (simp add: rte_ring_enqueue_def rte_ring_enqueue_bulk_def rte_ring_do_enqueue_def
        move_prod_head_eq Let_def granted_def zero_ring_def zero_headtail_def ENQUEUE_PTRS_def
        enqueue_to_end.simps enqueue_from_start.simps put_ptr_def arr_get_def arr_set_def)
qed

end
