(* ===== verification/Ring_Concurrent.thy ===== *)
theory Ring_Concurrent
  imports Ring_Queue
begin

text \<open>
  The ring shared by any number of producer and consumer threads. Every access to shared memory
  in \<^verbatim>\<open>__rte_ring_move_prod_head\<close>, \<^verbatim>\<open>__rte_ring_move_cons_head\<close>, \<^verbatim>\<open>ENQUEUE_PTRS\<close>,
  \<^verbatim>\<open>DEQUEUE_PTRS\<close> and \<^verbatim>\<open>update_tail\<close> is one step of one thread, and the steps of all threads
  interleave in any order; the barriers and acquire/release orderings of the sources are taken
  to give that sequential consistency. The state carries ghost components beside the memory of
  the program: the counters of which the 32-bit heads and tails are the residues, and the
  sequences of objects put in and taken out. No guard of a step reads them.
\<close>

section \<open>Threads and states\<close>

datatype side = Producer | Consumer

text \<open>
  The points between two accesses to shared memory: before the load of the own head, before the
  load of the opposite tail, before the compare-and-set of the own head, in the copy loop, in
  the wait for the own tail, and before the store of the own tail.
\<close>

datatype pc = Idle | LoadHead | LoadTail | Cas | Copy | Wait | Store

text \<open>
  The local variables of one call of \<^verbatim>\<open>__rte_ring_do_enqueue\<close> or \<^verbatim>\<open>__rte_ring_do_dequeue\<close>. The
  last two fields are ghosts: the counters read with the head and with the opposite tail.
\<close>

record 'o thread =
  t_side :: side
  t_pc :: pc
  t_table :: "'o list"
  t_max :: u32
  t_behavior :: rte_ring_queue_behavior
  t_single :: u32
  t_old :: u32
  t_new :: u32
  t_avail :: u32
  t_n :: u32
  t_i :: u32
  t_gh :: nat
  t_gt :: nat

record 'o cstate =
  c_ring :: "'o rte_ring"
  c_thr :: "nat \<Rightarrow> 'o thread"
  c_ph :: nat
  c_pt :: nat
  c_ch :: nat
  c_ct :: nat
  c_log :: "'o list"
  c_in :: "'o list"
  c_out :: "'o list"

definition set_thread :: "nat \<Rightarrow> 'o thread \<Rightarrow> 'o cstate \<Rightarrow> 'o cstate" where
  "set_thread t th s = s\<lparr>c_thr := (c_thr s)(t := th)\<rparr>"

definition own :: "side \<Rightarrow> 'o rte_ring \<Rightarrow> rte_ring_headtail" where
  "own sd r = (case sd of Producer \<Rightarrow> r_prod r | Consumer \<Rightarrow> r_cons r)"

definition set_own :: "side \<Rightarrow> rte_ring_headtail \<Rightarrow> 'o rte_ring \<Rightarrow> 'o rte_ring" where
  "set_own sd ht r = (case sd of Producer \<Rightarrow> r\<lparr>r_prod := ht\<rparr> | Consumer \<Rightarrow> r\<lparr>r_cons := ht\<rparr>)"

definition head_count :: "side \<Rightarrow> 'o cstate \<Rightarrow> nat" where
  "head_count sd s = (case sd of Producer \<Rightarrow> c_ph s | Consumer \<Rightarrow> c_ch s)"

definition tail_count :: "side \<Rightarrow> 'o cstate \<Rightarrow> nat" where
  "tail_count sd s = (case sd of Producer \<Rightarrow> c_pt s | Consumer \<Rightarrow> c_ct s)"

section \<open>Steps\<close>

definition step_load_head :: "'o cstate \<Rightarrow> nat \<Rightarrow> 'o thread \<Rightarrow> 'o cstate" where
  "step_load_head s t th =
     set_thread t (th\<lparr>t_pc := LoadTail, t_n := t_max th, t_old := ht_head (own (t_side th) (c_ring s)),
       t_gh := head_count (t_side th) s\<rparr>) s"

definition step_load_tail :: "'o cstate \<Rightarrow> nat \<Rightarrow> 'o thread \<Rightarrow> 'o cstate" where
  "step_load_tail s t th =
     (let r = c_ring s;
          avail = (case t_side th of
              Producer \<Rightarrow> r_capacity r + ht_tail (r_cons r) - t_old th
            | Consumer \<Rightarrow> ht_tail (r_prod r) - t_old th);
          n = granted (t_n th) avail (t_behavior th);
          th = th\<lparr>t_avail := avail, t_n := n,
            t_gt := (case t_side th of Producer \<Rightarrow> c_ct s | Consumer \<Rightarrow> c_pt s)\<rparr>
      in if n = 0 then set_thread t (th\<lparr>t_pc := Idle\<rparr>) s
         else set_thread t (th\<lparr>t_pc := Cas, t_new := t_old th + n\<rparr>) s)"

definition claim :: "'o cstate \<Rightarrow> 'o thread \<Rightarrow> 'o cstate" where
  "claim s th = (case t_side th of
      Producer \<Rightarrow> s\<lparr>c_ph := c_ph s + unat (t_n th), c_log := c_log s @ take (unat (t_n th)) (t_table th)\<rparr>
    | Consumer \<Rightarrow> s\<lparr>c_ch := c_ch s + unat (t_n th)\<rparr>)"

definition step_cas :: "'o cstate \<Rightarrow> nat \<Rightarrow> 'o thread \<Rightarrow> 'o cstate" where
  "step_cas s t th =
     (let r = c_ring s;
          ht = own (t_side th) r;
          res = (if t_single th \<noteq> 0 then (t_new th, True)
                 else rte_atomic32_cmpset (ht_head ht) (t_old th) (t_new th));
          s = s\<lparr>c_ring := set_own (t_side th) (ht\<lparr>ht_head := fst res\<rparr>) r\<rparr>
      in if snd res then set_thread t (th\<lparr>t_pc := Copy, t_i := 0\<rparr>) (claim s th)
         else set_thread t (th\<lparr>t_pc := LoadHead\<rparr>) s)"

text \<open>
  The ring index at which \<^verbatim>\<open>ENQUEUE_PTRS\<close> and \<^verbatim>\<open>DEQUEUE_PTRS\<close> move the object \<open>i\<close> of the caller's
  table. The head is masked once; from there the index only counts up. In the straight branch it
  is \<open>idx + i\<close> whatever \<open>n\<close> is; in the other branch it is \<open>idx + i\<close> up to the end of the table and
  then starts again at 0. Nothing brings an index back into the table if \<open>n\<close> is too large.
\<close>

definition copy_idx :: "'o rte_ring \<Rightarrow> u32 \<Rightarrow> u32 \<Rightarrow> u32 \<Rightarrow> u32" where
  "copy_idx r head n i =
     (let idx = head AND r_mask r; sz = r_size r
      in if idx + n < sz then idx + i
         else if i < sz - idx then idx + i
         else i - (sz - idx))"

text \<open>
  One assignment of the copy loops, which count \<open>i\<close> up from 0 to \<open>n\<close>, four at a time or one by
  one; \<open>None\<close> is an access outside the object table or the caller's table.
\<close>

definition step_copy :: "'o cstate \<Rightarrow> nat \<Rightarrow> 'o thread \<Rightarrow> 'o cstate option" where
  "step_copy s t th =
     (let r = c_ring s; idx = copy_idx r (t_old th) (t_n th) (t_i th)
      in if t_i th < t_n th then
           (case t_side th of
              Producer \<Rightarrow> do {
                objs \<leftarrow> put_ptr (t_table th) (t_i th) idx (r_objs r);
                Some (set_thread t (th\<lparr>t_i := t_i th + 1\<rparr>) (s\<lparr>c_ring := r\<lparr>r_objs := objs\<rparr>\<rparr>))
              }
            | Consumer \<Rightarrow> do {
                tbl \<leftarrow> get_ptr (r_objs r) (t_i th) idx (t_table th);
                Some (set_thread t (th\<lparr>t_i := t_i th + 1, t_table := tbl\<rparr>) s)
              })
         else Some (set_thread t (th\<lparr>t_pc := Wait\<rparr>) s))"

definition step_wait :: "'o cstate \<Rightarrow> nat \<Rightarrow> 'o thread \<Rightarrow> 'o cstate" where
  "step_wait s t th =
     (if t_single th = 0 \<and> ht_tail (own (t_side th) (c_ring s)) \<noteq> t_old th then s
      else set_thread t (th\<lparr>t_pc := Store\<rparr>) s)"

definition release :: "'o cstate \<Rightarrow> 'o thread \<Rightarrow> 'o cstate" where
  "release s th = (case t_side th of
      Producer \<Rightarrow> s\<lparr>c_pt := c_pt s + unat (t_n th), c_in := c_in s @ take (unat (t_n th)) (t_table th)\<rparr>
    | Consumer \<Rightarrow> s\<lparr>c_ct := c_ct s + unat (t_n th), c_out := c_out s @ take (unat (t_n th)) (t_table th)\<rparr>)"

definition step_store :: "'o cstate \<Rightarrow> nat \<Rightarrow> 'o thread \<Rightarrow> 'o cstate" where
  "step_store s t th =
     (let r = c_ring s; ht = own (t_side th) r;
          s = s\<lparr>c_ring := set_own (t_side th) (ht\<lparr>ht_tail := t_new th\<rparr>) r\<rparr>
      in set_thread t (th\<lparr>t_pc := Idle\<rparr>) (release s th))"

definition thread_step :: "'o cstate \<Rightarrow> nat \<Rightarrow> 'o cstate option" where
  "thread_step s t =
     (let th = c_thr s t in case t_pc th of
        Idle \<Rightarrow> Some s
      | LoadHead \<Rightarrow> Some (step_load_head s t th)
      | LoadTail \<Rightarrow> Some (step_load_tail s t th)
      | Cas \<Rightarrow> Some (step_cas s t th)
      | Copy \<Rightarrow> step_copy s t th
      | Wait \<Rightarrow> Some (step_wait s t th)
      | Store \<Rightarrow> Some (step_store s t th))"

text \<open>
  An idle thread enters an operation. The documented contract of the single-producer and
  single-consumer operations is that no other thread is in an operation of the same side.
\<close>

definition active :: "side \<Rightarrow> 'o thread \<Rightarrow> bool" where
  "active sd th \<longleftrightarrow> t_side th = sd \<and> t_pc th \<noteq> Idle"

definition start_op ::
    "side \<Rightarrow> 'o list \<Rightarrow> u32 \<Rightarrow> rte_ring_queue_behavior \<Rightarrow> u32 \<Rightarrow> 'o thread \<Rightarrow> 'o thread" where
  "start_op sd tbl n b single th =
     th\<lparr>t_side := sd, t_pc := LoadHead, t_table := tbl, t_max := n, t_behavior := b, t_single := single\<rparr>"

definition may_start :: "'o cstate \<Rightarrow> nat \<Rightarrow> side \<Rightarrow> 'o list \<Rightarrow> u32 \<Rightarrow> u32 \<Rightarrow> bool" where
  "may_start s t sd tbl n single \<longleftrightarrow> t_pc (c_thr s t) = Idle \<and> unat n \<le> length tbl \<and>
     (\<forall>u. u \<noteq> t \<and> active sd (c_thr s u) \<longrightarrow> single = 0 \<and> t_single (c_thr s u) = 0)"

definition cring_init :: "'o rte_ring \<Rightarrow> (nat \<Rightarrow> 'o thread) \<Rightarrow> 'o cstate" where
  "cring_init r thr = \<lparr>c_ring = r, c_thr = thr, c_ph = 0, c_pt = 0, c_ch = 0, c_ct = 0,
     c_log = [], c_in = [], c_out = []\<rparr>"

text \<open>
  A thread between its load of the head and its compare-and-set is not overtaken by \<open>2\<^sup>3\<^sup>2\<close> or
  more objects: otherwise the 32-bit head may have come back to the value it read.
\<close>

definition not_lapped :: "'o cstate \<Rightarrow> bool" where
  "not_lapped s \<longleftrightarrow> (\<forall>t. let th = c_thr s t in
     t_pc th = Cas \<longrightarrow> head_count (t_side th) s < t_gh th + 2 ^ 32)"

inductive cring_reach :: "'o rte_ring \<Rightarrow> 'o cstate \<Rightarrow> bool" for r0 where
  init: "(\<And>t. t_pc (thr t) = Idle) \<Longrightarrow> cring_reach r0 (cring_init r0 thr)"
| start: "\<lbrakk>cring_reach r0 s; may_start s t sd tbl n single\<rbrakk> \<Longrightarrow>
    cring_reach r0 (set_thread t (start_op sd tbl n b single (c_thr s t)) s)"
| step: "\<lbrakk>cring_reach r0 s; not_lapped s; thread_step s t = Some s'\<rbrakk> \<Longrightarrow> cring_reach r0 s'"

section \<open>The invariant\<close>

text \<open>A thread in flight owns the positions from its head value on.\<close>

definition in_flight :: "side \<Rightarrow> 'o thread \<Rightarrow> bool" where
  "in_flight sd th \<longleftrightarrow> t_side th = sd \<and> t_pc th \<in> {Copy, Wait, Store}"

definition owns :: "side \<Rightarrow> 'o thread \<Rightarrow> nat \<Rightarrow> bool" where
  "owns sd th p \<longleftrightarrow> in_flight sd th \<and> t_gh th \<le> p \<and> p < t_gh th + unat (t_n th)"

text \<open>
  The threads in flight on one side partition the positions between its tail and its head.
\<close>

definition partitioned :: "side \<Rightarrow> nat \<Rightarrow> nat \<Rightarrow> (nat \<Rightarrow> 'o thread) \<Rightarrow> bool" where
  "partitioned sd lo hi thr \<longleftrightarrow>
     (\<forall>t. in_flight sd (thr t) \<longrightarrow> t_n (thr t) \<noteq> 0) \<and>
     (\<forall>p. (\<exists>t. owns sd (thr t) p) \<longleftrightarrow> lo \<le> p \<and> p < hi) \<and>
     (\<forall>p t u. owns sd (thr t) p \<and> owns sd (thr u) p \<longrightarrow> t = u)"

definition counters_ok :: "'o cstate \<Rightarrow> bool" where
  "counters_ok s \<longleftrightarrow> ring_shape (c_ring s) \<and>
     ht_head (r_prod (c_ring s)) = of_nat (c_ph s) \<and> ht_tail (r_prod (c_ring s)) = of_nat (c_pt s) \<and>
     ht_head (r_cons (c_ring s)) = of_nat (c_ch s) \<and> ht_tail (r_cons (c_ring s)) = of_nat (c_ct s) \<and>
     c_ct s \<le> c_ch s \<and> c_ch s \<le> c_pt s \<and> c_pt s \<le> c_ph s \<and>
     c_ph s \<le> c_ct s + unat (r_capacity (c_ring s)) \<and> length (c_log s) = c_ph s"

definition slot_ok :: "'o cstate \<Rightarrow> nat \<Rightarrow> bool" where
  "slot_ok s p \<longleftrightarrow> r_objs (c_ring s) ! slot (c_ring s) p = c_log s ! p"

definition contents_ok :: "'o cstate \<Rightarrow> bool" where
  "contents_ok s \<longleftrightarrow> (\<forall>p. c_ct s \<le> p \<and> p < c_pt s \<longrightarrow> slot_ok s p) \<and>
     c_in s = take (c_pt s) (c_log s) \<and> c_out s = take (c_ct s) (c_log s)"

definition head_read_ok :: "'o cstate \<Rightarrow> 'o thread \<Rightarrow> bool" where
  "head_read_ok s th \<longleftrightarrow> t_old th = of_nat (t_gh th) \<and> t_gh th \<le> head_count (t_side th) s \<and>
     (t_single th \<noteq> 0 \<longrightarrow> t_gh th = head_count (t_side th) s) \<and>
     (case t_side th of
        Producer \<Rightarrow> t_gh th \<le> c_ct s + unat (r_capacity (c_ring s))
      | Consumer \<Rightarrow> t_gh th \<le> c_pt s)"

definition cas_ok :: "'o cstate \<Rightarrow> 'o thread \<Rightarrow> bool" where
  "cas_ok s th \<longleftrightarrow> head_read_ok s th \<and> t_new th = t_old th + t_n th \<and> t_n th \<noteq> 0 \<and>
     t_n th \<le> t_max th \<and>
     (case t_side th of
        Producer \<Rightarrow> t_gt th \<le> c_ct s \<and> t_gh th \<le> t_gt th + unat (r_capacity (c_ring s)) \<and>
          t_n th \<le> r_capacity (c_ring s) + of_nat (t_gt th) - t_old th
      | Consumer \<Rightarrow> t_gh th \<le> t_gt th \<and> t_gt th \<le> c_pt s \<and> t_n th \<le> of_nat (t_gt th) - t_old th)"

definition copy_ok :: "'o cstate \<Rightarrow> 'o thread \<Rightarrow> bool" where
  "copy_ok s th \<longleftrightarrow> t_old th = of_nat (t_gh th) \<and> t_new th = t_old th + t_n th \<and>
     unat (t_n th) \<le> length (t_table th) \<and> t_i th \<le> t_n th \<and>
     (t_pc th \<noteq> Copy \<longrightarrow> t_i th = t_n th) \<and>
     (t_pc th = Store \<longrightarrow> t_gh th = tail_count (t_side th) s) \<and>
     (case t_side th of
        Producer \<Rightarrow> (\<forall>j < unat (t_n th). t_table th ! j = c_log s ! (t_gh th + j)) \<and>
          (\<forall>j < unat (t_i th). slot_ok s (t_gh th + j))
      | Consumer \<Rightarrow> (\<forall>j < unat (t_i th). t_table th ! j = c_log s ! (t_gh th + j)))"

definition thread_ok :: "'o cstate \<Rightarrow> 'o thread \<Rightarrow> bool" where
  "thread_ok s th \<longleftrightarrow> (case t_pc th of
      Idle \<Rightarrow> True
    | LoadHead \<Rightarrow> unat (t_max th) \<le> length (t_table th)
    | LoadTail \<Rightarrow> unat (t_max th) \<le> length (t_table th) \<and> head_read_ok s th \<and> t_n th = t_max th
    | Cas \<Rightarrow> unat (t_max th) \<le> length (t_table th) \<and> cas_ok s th
    | _ \<Rightarrow> copy_ok s th)"

definition single_ok :: "(nat \<Rightarrow> 'o thread) \<Rightarrow> bool" where
  "single_ok thr \<longleftrightarrow> (\<forall>t u sd. t \<noteq> u \<and> active sd (thr t) \<and> active sd (thr u) \<longrightarrow> t_single (thr t) = 0)"

definition cring_inv :: "'o cstate \<Rightarrow> bool" where
  "cring_inv s \<longleftrightarrow> counters_ok s \<and> contents_ok s \<and>
     (\<forall>sd. partitioned sd (tail_count sd s) (head_count sd s) (c_thr s)) \<and>
     (\<forall>t. thread_ok s (c_thr s t)) \<and> single_ok (c_thr s)"

end
