(* ===== verification/Ring_Concurrent_Inv.thy ===== *)
theory Ring_Concurrent_Inv
  imports Ring_Concurrent
begin

text \<open>
  The invariant of the shared ring is kept by every step of every thread; from it, that no
  interleaving loses, duplicates or reorders an object, exceeds the capacity, accesses an array
  outside its bounds or deadlocks.
\<close>

declare side.case_cong [cong] pc.case_cong [cong]

section \<open>Ownership of positions\<close>

lemma partitioned_keep:
  assumes "partitioned sd lo hi thr"
    and "in_flight sd th \<longleftrightarrow> in_flight sd (thr t)"
    and "in_flight sd (thr t) \<Longrightarrow> t_gh th = t_gh (thr t) \<and> t_n th = t_n (thr t)"
  shows "partitioned sd lo hi (thr(t := th))"
proof -
  have own: "owns sd ((thr(t := th)) u) = owns sd (thr u)" for u
    using assms(2,3) by (auto simp: owns_def fun_eq_iff)
  have "in_flight sd ((thr(t := th)) u) \<longrightarrow> t_n ((thr(t := th)) u) \<noteq> 0" for u
    using assms by (auto simp: partitioned_def)
  then show ?thesis using assms(1) unfolding partitioned_def own by blast
qed

lemma partitioned_claim:
  assumes part: "partitioned sd lo hi thr" and le: "lo \<le> hi"
    and t: "\<not> in_flight sd (thr t)" and th: "in_flight sd th" "t_gh th = hi" "t_n th \<noteq> 0"
  shows "partitioned sd lo (hi + unat (t_n th)) (thr(t := th))"
proof -
  have th_own: "owns sd th p \<longleftrightarrow> hi \<le> p \<and> p < hi + unat (t_n th)" for p
    using th by (simp add: owns_def)
  have pos: "0 < unat (t_n th)" using th(3) by (simp add: unat_gt_0)
  have t_own: "\<not> owns sd (thr t) p" for p using t by (simp add: owns_def)
  have old: "(\<exists>u. owns sd (thr u) p) \<longleftrightarrow> lo \<le> p \<and> p < hi" for p
    using part by (simp add: partitioned_def)
  have ex: "(\<exists>u. owns sd ((thr(t := th)) u) p) \<longleftrightarrow> owns sd th p \<or> (\<exists>u. owns sd (thr u) p)" for p
    using t_own by (metis fun_upd_apply)
  have uni: "u = v" if "owns sd ((thr(t := th)) u) p" "owns sd ((thr(t := th)) v) p" for p u v
  proof -
    have "\<not> (owns sd th p \<and> owns sd (thr w) p)" for w using old [of p] th_own [of p] by auto
    moreover have "w = w'" if "owns sd (thr w) p" "owns sd (thr w') p" for w w'
      using part that unfolding partitioned_def by blast
    ultimately show ?thesis using that by (simp split: if_splits)
  qed
  have nz: "in_flight sd ((thr(t := th)) u) \<longrightarrow> t_n ((thr(t := th)) u) \<noteq> 0" for u
    using part th(3) by (auto simp: partitioned_def)
  have rng: "(\<exists>u. owns sd ((thr(t := th)) u) p) \<longleftrightarrow> lo \<le> p \<and> p < hi + unat (t_n th)" for p
    unfolding ex old th_own using le pos by auto
  show ?thesis unfolding partitioned_def using nz rng uni by blast
qed

lemma partitioned_release:
  assumes part: "partitioned sd lo hi thr"
    and t: "in_flight sd (thr t)" "t_gh (thr t) = lo" and th: "\<not> in_flight sd th"
  shows "partitioned sd (lo + unat (t_n (thr t))) hi (thr(t := th))"
proof -
  have t_own: "owns sd (thr t) p \<longleftrightarrow> lo \<le> p \<and> p < lo + unat (t_n (thr t))" for p
    using t by (simp add: owns_def)
  have th_own: "\<not> owns sd th p" for p using th by (simp add: owns_def)
  have old: "(\<exists>u. owns sd (thr u) p) \<longleftrightarrow> lo \<le> p \<and> p < hi" for p
    using part by (simp add: partitioned_def)
  have uni: "u = v" if "owns sd (thr u) p" "owns sd (thr v) p" for p u v
    using part that unfolding partitioned_def by blast
  have "(\<exists>u. owns sd ((thr(t := th)) u) p) \<longleftrightarrow> (\<exists>u. owns sd (thr u) p) \<and> \<not> owns sd (thr t) p" for p
    using th_own uni [of _ p t] by (metis fun_upd_apply)
  then have rng: "(\<exists>u. owns sd ((thr(t := th)) u) p) \<longleftrightarrow> lo + unat (t_n (thr t)) \<le> p \<and> p < hi" for p
    using old [of p] t_own [of p] by auto
  have uni': "u = v" if "owns sd ((thr(t := th)) u) p" "owns sd ((thr(t := th)) v) p" for p u v
    using that th_own uni by (simp split: if_splits)
  have nz: "in_flight sd ((thr(t := th)) u) \<longrightarrow> t_n ((thr(t := th)) u) \<noteq> 0" for u
    using part th by (auto simp: partitioned_def)
  show ?thesis unfolding partitioned_def using nz rng uni' by blast
qed

lemma partitioned_range:
  assumes "partitioned sd lo hi thr" "in_flight sd (thr t)"
  shows "lo \<le> t_gh (thr t)" "t_gh (thr t) + unat (t_n (thr t)) \<le> hi"
proof -
  let ?p = "t_gh (thr t)" and ?n = "unat (t_n (thr t))"
  have n: "0 < ?n" using assms by (auto simp: partitioned_def unat_gt_0)
  have own: "owns sd (thr t) p \<Longrightarrow> lo \<le> p \<and> p < hi" for p
    using assms(1) unfolding partitioned_def by blast
  show "lo \<le> ?p" using own [of ?p] assms(2) n by (simp add: owns_def)
  have "owns sd (thr t) (?p + ?n - 1)" using assms(2) n by (simp add: owns_def)
  then have "?p + ?n - 1 < hi" using own by blast
  then show "?p + ?n \<le> hi" using n by linarith
qed

lemma partitioned_disjoint:
  assumes "partitioned sd lo hi thr" "in_flight sd (thr t)" "in_flight sd (thr u)"
    "t_gh (thr t) = t_gh (thr u)"
  shows "t = u"
proof -
  have "t_n (thr t) \<noteq> 0" "t_n (thr u) \<noteq> 0"
    using assms(1-3) by (simp_all add: partitioned_def)
  then have "owns sd (thr t) (t_gh (thr t))" "owns sd (thr u) (t_gh (thr t))"
    using assms by (simp_all add: owns_def unat_gt_0)
  then show ?thesis using assms(1) unfolding partitioned_def by blast
qed

section \<open>Positions and slots\<close>

lemma slot_inj:
  assumes "slot r p = slot r q" "p \<le> q" "q < p + unat (r_size r)"
  shows "p = q"
proof (rule ccontr)
  assume "p \<noteq> q"
  have "unat (r_size r) dvd q - p"
    using assms(1) assms(2) by (metis mod_eq_dvd_iff_nat slot_def)
  then show False using \<open>p \<noteq> q\<close> assms(2,3) by (auto dest: dvd_imp_le)
qed

lemma unat_of_nat_mod_size:
  assumes "ring_shape r"
  shows "unat ((of_nat p :: u32) AND r_mask r) = slot r p"
proof -
  from assms obtain k where k: "k < 32" "unat (r_size r) = 2 ^ k" "r_mask r = mask k"
    by (rule ring_shapeE)
  then have "(2::nat) ^ k dvd 2 ^ 32" by (intro le_imp_power_dvd) simp
  then show ?thesis by (simp add: unat_and_mask slot_def k unat_of_nat mod_mod_cancel)
qed

lemma unat_of_nat_slot:
  assumes "ring_shape r"
  shows "slot r (unat (of_nat p :: u32)) = slot r p"
proof -
  from assms obtain k where k: "k < 32" "unat (r_size r) = 2 ^ k" by (rule ring_shapeE)
  then have "(2::nat) ^ k dvd 2 ^ 32" by (intro le_imp_power_dvd) simp
  then show ?thesis by (simp add: slot_def k unat_of_nat mod_mod_cancel)
qed

lemma slot_less: "ring_shape r \<Longrightarrow> slot r p < length (r_objs r)"
  by (erule ring_shapeE) (simp add: slot_def)

section \<open>Threads not taking the step\<close>

definition advances :: "'o cstate \<Rightarrow> 'o cstate \<Rightarrow> bool" where
  "advances s s' \<longleftrightarrow> r_capacity (c_ring s') = r_capacity (c_ring s) \<and>
     c_ct s \<le> c_ct s' \<and> c_pt s \<le> c_pt s' \<and>
     (\<forall>sd. head_count sd s \<le> head_count sd s') \<and> (\<exists>xs. c_log s' = c_log s @ xs)"

lemma advances_refl [simp]: "advances s s"
  by (simp add: advances_def)

lemma head_read_ok_advances:
  assumes "head_read_ok s th" "advances s s'"
    and "t_single th \<noteq> 0 \<Longrightarrow> head_count (t_side th) s' = head_count (t_side th) s"
  shows "head_read_ok s' th"
  using assms unfolding head_read_ok_def advances_def
  by (auto split: side.splits intro: le_trans)

lemma cas_ok_advances:
  assumes "cas_ok s th" "advances s s'"
    and "t_single th \<noteq> 0 \<Longrightarrow> head_count (t_side th) s' = head_count (t_side th) s"
  shows "cas_ok s' th"
proof -
  have "head_read_ok s th" using assms(1) by (simp add: cas_ok_def)
  then have "head_read_ok s' th" using assms(2,3) by (rule head_read_ok_advances)
  then show ?thesis using assms(1,2) unfolding cas_ok_def advances_def
    by (auto split: side.splits)
qed

lemma copy_ok_advances:
  assumes ok: "copy_ok s th" and adv: "advances s s'"
    and rng: "t_gh th + unat (t_n th) \<le> length (c_log s)"
    and slots: "\<And>p. \<lbrakk>t_side th = Producer; t_gh th \<le> p; p < t_gh th + unat (t_n th); slot_ok s p\<rbrakk> \<Longrightarrow> slot_ok s' p"
    and st: "t_pc th = Store \<Longrightarrow> tail_count (t_side th) s' = tail_count (t_side th) s"
  shows "copy_ok s' th"
proof -
  have i: "unat (t_i th) \<le> unat (t_n th)" using ok by (simp add: copy_ok_def word_le_nat_alt)
  have log: "c_log s' ! (t_gh th + j) = c_log s ! (t_gh th + j)" if "j < unat (t_n th)" for j
    using adv that rng by (auto simp: advances_def nth_append)
  have sl: "slot_ok s' (t_gh th + j)"
    if "t_side th = Producer" "slot_ok s (t_gh th + j)" "j < unat (t_i th)" for j
    using slots [of "t_gh th + j"] that i by simp
  show ?thesis
  proof (cases "t_side th")
    case Producer
    from ok Producer have "\<forall>j < unat (t_n th). t_table th ! j = c_log s ! (t_gh th + j)"
      and "\<forall>j < unat (t_i th). slot_ok s (t_gh th + j)"
      and st': "t_pc th = Store \<longrightarrow> t_gh th = tail_count (t_side th) s"
      by (simp_all add: copy_ok_def)
    then have "\<forall>j < unat (t_n th). t_table th ! j = c_log s' ! (t_gh th + j)"
      and "\<forall>j < unat (t_i th). slot_ok s' (t_gh th + j)"
      and "t_pc th = Store \<longrightarrow> t_gh th = tail_count (t_side th) s'"
      using log sl [OF Producer] st by simp_all
    then show ?thesis using Producer ok by (simp add: copy_ok_def)
  next
    case Consumer
    from ok Consumer have "\<forall>j < unat (t_i th). t_table th ! j = c_log s ! (t_gh th + j)"
      and st': "t_pc th = Store \<longrightarrow> t_gh th = tail_count (t_side th) s"
      by (simp_all add: copy_ok_def)
    then have "\<forall>j < unat (t_i th). t_table th ! j = c_log s' ! (t_gh th + j)"
      and "t_pc th = Store \<longrightarrow> t_gh th = tail_count (t_side th) s'"
      using log i st by simp_all
    then show ?thesis using Consumer ok by (simp add: copy_ok_def)
  qed
qed

lemma thread_ok_advances:
  assumes ok: "thread_ok s th" and adv: "advances s s'"
    and rng: "in_flight (t_side th) th \<Longrightarrow> t_gh th + unat (t_n th) \<le> length (c_log s)"
    and slots: "\<And>p. \<lbrakk>owns Producer th p; slot_ok s p\<rbrakk> \<Longrightarrow> slot_ok s' p"
    and st: "t_pc th = Store \<Longrightarrow> tail_count (t_side th) s' = tail_count (t_side th) s"
    and sg: "\<lbrakk>t_single th \<noteq> 0; active (t_side th) th; \<not> in_flight (t_side th) th\<rbrakk> \<Longrightarrow>
      head_count (t_side th) s' = head_count (t_side th) s"
  shows "thread_ok s' th"
proof (cases "in_flight (t_side th) th")
  case True
  then have "copy_ok s th" using ok by (auto simp: thread_ok_def in_flight_def)
  then have "copy_ok s' th"
  proof (rule copy_ok_advances [OF _ adv])
    fix p assume "t_side th = Producer" "t_gh th \<le> p" "p < t_gh th + unat (t_n th)" "slot_ok s p"
    then show "slot_ok s' p" using slots [of p] True by (simp add: owns_def)
  qed (use True rng st in simp_all)
  then show ?thesis using True by (auto simp: thread_ok_def in_flight_def)
next
  case False
  then show ?thesis
    using ok adv sg head_read_ok_advances [of s th s'] cas_ok_advances [of s th s']
    by (cases "t_pc th") (auto simp: thread_ok_def in_flight_def active_def)
qed

section \<open>Steps that change only the thread\<close>

lemma set_thread_simps [simp]:
  "c_ring (set_thread t th s) = c_ring s" "c_thr (set_thread t th s) = (c_thr s)(t := th)"
  "c_ph (set_thread t th s) = c_ph s" "c_pt (set_thread t th s) = c_pt s"
  "c_ch (set_thread t th s) = c_ch s" "c_ct (set_thread t th s) = c_ct s"
  "c_log (set_thread t th s) = c_log s" "c_in (set_thread t th s) = c_in s"
  "c_out (set_thread t th s) = c_out s"
  "head_count sd (set_thread t th s) = head_count sd s"
  "tail_count sd (set_thread t th s) = tail_count sd s"
  by (simp_all add: set_thread_def head_count_def tail_count_def)

lemma ok_set_thread [simp]:
  "counters_ok (set_thread t th s) = counters_ok s" "slot_ok (set_thread t th s) = slot_ok s"
  "contents_ok (set_thread t th s) = contents_ok s"
  "thread_ok (set_thread t th s) th' = thread_ok s th'"
  by (simp_all add: counters_ok_def contents_ok_def slot_ok_def thread_ok_def head_read_ok_def
      cas_ok_def copy_ok_def fun_eq_iff)

lemma single_ok_upd:
  assumes "single_ok thr" "\<And>sd. active sd th \<Longrightarrow> active sd (thr t)" "t_single th = t_single (thr t)"
  shows "single_ok (thr(t := th))"
  unfolding single_ok_def
proof (intro allI impI)
  fix u v sd
  assume a: "u \<noteq> v \<and> active sd ((thr(t := th)) u) \<and> active sd ((thr(t := th)) v)"
  then have "active sd (thr u)" "active sd (thr v)"
    using assms(2) by (auto split: if_splits)
  then have "t_single (thr u) = 0" using a assms(1) unfolding single_ok_def by blast
  then show "t_single ((thr(t := th)) u) = 0" using assms(3) by auto
qed

lemma single_ok_alone:
  "\<lbrakk>single_ok thr; active sd (thr t); active sd (thr u); t_single (thr t) \<noteq> 0\<rbrakk> \<Longrightarrow> u = t"
  unfolding single_ok_def by metis

text \<open>Every step is shown correct by this rule; \<open>s1\<close> has the new shared state.\<close>

lemma cring_inv_step:
  assumes inv: "cring_inv s" and thr: "c_thr s1 = c_thr s" and th: "thread_ok s1 th"
    and glob: "counters_ok s1" "contents_ok s1" and adv: "advances s s1"
    and part: "\<And>sd. partitioned sd (tail_count sd s1) (head_count sd s1) ((c_thr s)(t := th))"
    and slots: "\<And>p u. \<lbrakk>u \<noteq> t; owns Producer (c_thr s u) p; slot_ok s p\<rbrakk> \<Longrightarrow> slot_ok s1 p"
    and tails: "\<And>u. \<lbrakk>u \<noteq> t; t_pc (c_thr s u) = Store\<rbrakk> \<Longrightarrow>
      tail_count (t_side (c_thr s u)) s1 = tail_count (t_side (c_thr s u)) s"
    and heads: "\<And>u. \<lbrakk>u \<noteq> t; t_single (c_thr s u) \<noteq> 0; active (t_side (c_thr s u)) (c_thr s u)\<rbrakk> \<Longrightarrow>
      head_count (t_side (c_thr s u)) s1 = head_count (t_side (c_thr s u)) s"
    and act: "\<And>sd. active sd th \<Longrightarrow> active sd (c_thr s t)" "t_single th = t_single (c_thr s t)"
  shows "cring_inv (set_thread t th s1)"
proof -
  have "thread_ok s1 (((c_thr s)(t := th)) u)" for u
  proof (cases "u = t")
    case False
    have "thread_ok s (c_thr s u)" using inv by (simp add: cring_inv_def)
    then have "thread_ok s1 (c_thr s u)" using adv
    proof (rule thread_ok_advances)
      assume "in_flight (t_side (c_thr s u)) (c_thr s u)"
      then have "t_gh (c_thr s u) + unat (t_n (c_thr s u)) \<le> head_count (t_side (c_thr s u)) s"
        using inv by (intro partitioned_range(2)) (auto simp: cring_inv_def)
      also have "\<dots> \<le> length (c_log s)"
        using inv by (auto simp: cring_inv_def counters_ok_def head_count_def split: side.split)
      finally show "t_gh (c_thr s u) + unat (t_n (c_thr s u)) \<le> length (c_log s)" .
    qed (use False slots tails heads in auto)
    then show ?thesis using False by simp
  qed (simp add: th)
  moreover have "single_ok ((c_thr s)(t := th))"
    using inv act by (intro single_ok_upd) (auto simp: cring_inv_def)
  ultimately show ?thesis using glob part by (simp add: cring_inv_def thr)
qed

lemma cring_inv_local:
  assumes inv: "cring_inv s" and th: "thread_ok s th"
    and fl: "\<And>sd. in_flight sd th \<longleftrightarrow> in_flight sd (c_thr s t)"
      "\<And>sd. in_flight sd (c_thr s t) \<Longrightarrow> t_gh th = t_gh (c_thr s t) \<and> t_n th = t_n (c_thr s t)"
    and act: "\<And>sd. active sd th \<Longrightarrow> active sd (c_thr s t)" "t_single th = t_single (c_thr s t)"
  shows "cring_inv (set_thread t th s)"
proof (rule cring_inv_step [OF inv refl th])
  show "partitioned sd (tail_count sd s) (head_count sd s) ((c_thr s)(t := th))" for sd
    using inv fl by (intro partitioned_keep) (auto simp: cring_inv_def)
qed (use inv act in \<open>auto simp: cring_inv_def\<close>)

lemma cring_inv_thread: "cring_inv s \<Longrightarrow> thread_ok s (c_thr s t)"
  by (simp add: cring_inv_def)

lemma counters_own:
  assumes "counters_ok s"
  shows "ht_head (own sd (c_ring s)) = of_nat (head_count sd s)"
    and "ht_tail (own sd (c_ring s)) = of_nat (tail_count sd s)"
    and "tail_count sd s \<le> head_count sd s"
    and "head_count sd s \<le> tail_count sd s + unat (r_capacity (c_ring s))"
  using assms by (cases sd; simp add: counters_ok_def own_def head_count_def tail_count_def)+

lemma step_load_head_inv:
  assumes inv: "cring_inv s" and pc: "t_pc (c_thr s t) = LoadHead"
  shows "cring_inv (step_load_head s t (c_thr s t))"
  unfolding step_load_head_def
proof (rule cring_inv_local [OF inv])
  have "counters_ok s" using inv by (simp add: cring_inv_def)
  then show "thread_ok s (c_thr s t\<lparr>t_pc := LoadTail, t_n := t_max (c_thr s t),
      t_old := ht_head (own (t_side (c_thr s t)) (c_ring s)),
      t_gh := head_count (t_side (c_thr s t)) s\<rparr>)"
    using cring_inv_thread [OF inv, of t] pc
    by (auto simp: thread_ok_def head_read_ok_def counters_own counters_ok_def head_count_def
        split: side.split)
qed (auto simp: in_flight_def active_def pc)

lemma step_load_tail_inv:
  assumes inv: "cring_inv s" and pc: "t_pc (c_thr s t) = LoadTail"
  shows "cring_inv (step_load_tail s t (c_thr s t))"
proof -
  define th where "th = c_thr s t"
  define avail where "avail = (case t_side th of
      Producer \<Rightarrow> r_capacity (c_ring s) + ht_tail (r_cons (c_ring s)) - t_old th
    | Consumer \<Rightarrow> ht_tail (r_prod (c_ring s)) - t_old th)"
  define n where "n = granted (t_n th) avail (t_behavior th)"
  define gt where "gt = (case t_side th of Producer \<Rightarrow> c_ct s | Consumer \<Rightarrow> c_pt s)"
  have ok: "unat (t_max th) \<le> length (t_table th)" "head_read_ok s th" "t_n th = t_max th"
    using cring_inv_thread [OF inv, of t] pc by (simp_all add: thread_ok_def th_def)
  have n_le: "n \<le> t_max th" "n \<le> avail"
    using granted_le [of "t_n th" avail "t_behavior th"] ok(3) by (simp_all add: n_def)
  have "counters_ok s" using inv by (simp add: cring_inv_def)
  then have "head_read_ok s th \<and> (case t_side th of
        Producer \<Rightarrow> gt \<le> c_ct s \<and> t_gh th \<le> gt + unat (r_capacity (c_ring s)) \<and>
          n \<le> r_capacity (c_ring s) + of_nat gt - t_old th
      | Consumer \<Rightarrow> t_gh th \<le> gt \<and> gt \<le> c_pt s \<and> n \<le> of_nat gt - t_old th)"
    using ok(2) n_le(2)
    by (auto simp: counters_ok_def head_read_ok_def gt_def avail_def split: side.splits)
  then have cas: "n \<noteq> 0 \<Longrightarrow> cas_ok s (th\<lparr>t_avail := avail, t_n := n, t_gt := gt, t_pc := Cas, t_new := t_old th + n\<rparr>)"
    using n_le(1) by (auto simp: cas_ok_def head_read_ok_def split: side.splits)
  have step: "step_load_tail s t th = (if n = 0
      then set_thread t (th\<lparr>t_avail := avail, t_n := n, t_gt := gt, t_pc := Idle\<rparr>) s
      else set_thread t (th\<lparr>t_avail := avail, t_n := n, t_gt := gt, t_pc := Cas, t_new := t_old th + n\<rparr>) s)"
    by (simp add: step_load_tail_def Let_def flip: avail_def n_def gt_def)
  show ?thesis
    unfolding th_def [symmetric] step using inv cas ok(1) pc
    by (auto intro!: cring_inv_local simp: in_flight_def active_def th_def thread_ok_def)
qed

section \<open>Claiming positions\<close>

lemma own_set_own [simp]:
  "own sd (set_own sd ht r) = ht" "sd' \<noteq> sd \<Longrightarrow> own sd' (set_own sd ht r) = own sd' r"
  "r_capacity (set_own sd ht r) = r_capacity r" "r_size (set_own sd ht r) = r_size r"
  "r_objs (set_own sd ht r) = r_objs r" "r_mask (set_own sd ht r) = r_mask r"
  "slot (set_own sd ht r) = slot r" "ring_shape (set_own sd ht r) = ring_shape r"
  by (cases sd; cases sd'; simp add: own_def set_own_def slot_def ring_shape_def fun_eq_iff)+

lemma set_own_same: "set_own sd (own sd r) r = r"
  by (cases sd) (simp_all add: own_def set_own_def)

lemma cas_success_count:
  assumes lap: "not_lapped s" and cnt: "counters_ok s" and pc: "t_pc (c_thr s t) = Cas"
    and ok: "cas_ok s (c_thr s t)"
    and eq: "t_single (c_thr s t) \<noteq> 0 \<or> ht_head (own (t_side (c_thr s t)) (c_ring s)) = t_old (c_thr s t)"
  shows "t_gh (c_thr s t) = head_count (t_side (c_thr s t)) s"
proof (cases "t_single (c_thr s t) = 0")
  case True
  let ?h = "head_count (t_side (c_thr s t)) s" and ?g = "t_gh (c_thr s t)"
  have le: "?g \<le> ?h" and old: "t_old (c_thr s t) = of_nat ?g"
    using ok by (simp_all add: cas_ok_def head_read_ok_def)
  have "?h - ?g < 2 ^ 32" using lap pc unfolding not_lapped_def Let_def by fastforce
  moreover have "(of_nat ?h :: u32) - of_nat ?g = 0"
    using eq True old counters_own(1) [OF cnt] by simp
  ultimately have "?h - ?g = 0" using unat_counter_diff [OF le, where 'a = 32] by simp
  then show ?thesis using le by simp
next
  case False
  then show ?thesis using ok by (simp add: cas_ok_def head_read_ok_def)
qed

text \<open>The claimed positions exist: free for a producer, filled for a consumer.\<close>

lemma cas_room:
  assumes cnt: "counters_ok s" and ok: "cas_ok s th" and gh: "t_gh th = head_count (t_side th) s"
  shows "t_side th = Producer \<Longrightarrow>
      c_ph s + unat (t_n th) \<le> c_ct s + unat (r_capacity (c_ring s))"
    and "t_side th = Consumer \<Longrightarrow> c_ch s + unat (t_n th) \<le> c_pt s"
proof -
  let ?cap = "r_capacity (c_ring s)"
  assume side: "t_side th = Producer"
  then have gh': "t_gh th = c_ph s" using gh by (simp add: head_count_def)
  have a: "t_gt th \<le> c_ct s" "c_ph s \<le> t_gt th + unat ?cap"
      "t_n th \<le> ?cap + of_nat (t_gt th) - of_nat (c_ph s)"
    using ok side gh' by (auto simp: cas_ok_def head_read_ok_def)
  have e: "?cap + of_nat (t_gt th) - of_nat (c_ph s) = of_nat (t_gt th + unat ?cap) - of_nat (c_ph s)"
    by simp
  have "t_gt th + unat ?cap - c_ph s < 2 ^ 32"
    using a(1) cnt unat_lt_pow [of ?cap] by (auto simp: counters_ok_def)
  then have "unat (t_n th) \<le> t_gt th + unat ?cap - c_ph s"
    using a(3) unat_counter_diff [OF a(2), where 'a = 32] unfolding e word_le_nat_alt by simp
  then show "c_ph s + unat (t_n th) \<le> c_ct s + unat ?cap" using a(1,2) by linarith
next
  assume side: "t_side th = Consumer"
  then have gh': "t_gh th = c_ch s" using gh by (simp add: head_count_def)
  have a: "c_ch s \<le> t_gt th" "t_gt th \<le> c_pt s" "t_n th \<le> of_nat (t_gt th) - of_nat (c_ch s)"
    using ok side gh' by (auto simp: cas_ok_def head_read_ok_def)
  have "c_pt s - c_ch s \<le> unat (r_capacity (c_ring s))" using cnt by (auto simp: counters_ok_def)
  then have "t_gt th - c_ch s < 2 ^ 32"
    using a(2) unat_lt_pow [of "r_capacity (c_ring s)"] by simp
  then have "unat (t_n th) \<le> t_gt th - c_ch s"
    using a(3) unat_counter_diff [OF a(1), where 'a = 32] by (simp add: word_le_nat_alt)
  then show "c_ch s + unat (t_n th) \<le> c_pt s" using a(1,2) by linarith
qed

text \<open>The shared state after a successful compare-and-set.\<close>

definition after_claim :: "'o cstate \<Rightarrow> 'o thread \<Rightarrow> 'o cstate" where
  "after_claim s th =
     claim (s\<lparr>c_ring := set_own (t_side th) (own (t_side th) (c_ring s)\<lparr>ht_head := t_new th\<rparr>) (c_ring s)\<rparr>) th"

lemma step_cas_eq:
  "step_cas s t th =
    (if t_single th \<noteq> 0 \<or> ht_head (own (t_side th) (c_ring s)) = t_old th
     then set_thread t (th\<lparr>t_pc := Copy, t_i := 0\<rparr>) (after_claim s th)
     else set_thread t (th\<lparr>t_pc := LoadHead\<rparr>) s)"
  by (auto simp: step_cas_def Let_def rte_atomic32_cmpset_eq after_claim_def set_own_same)

lemma after_claim_simps [simp]:
  "c_thr (after_claim s th) = c_thr s" "c_pt (after_claim s th) = c_pt s"
  "c_ct (after_claim s th) = c_ct s" "c_in (after_claim s th) = c_in s"
  "c_out (after_claim s th) = c_out s"
  "tail_count sd (after_claim s th) = tail_count sd s"
  "head_count sd (after_claim s th) =
     (if sd = t_side th then head_count sd s + unat (t_n th) else head_count sd s)"
  "c_log (after_claim s th) =
     (if t_side th = Producer then c_log s @ take (unat (t_n th)) (t_table th) else c_log s)"
  "r_objs (c_ring (after_claim s th)) = r_objs (c_ring s)"
  "slot (c_ring (after_claim s th)) = slot (c_ring s)"
  "r_capacity (c_ring (after_claim s th)) = r_capacity (c_ring s)"
  by (cases "t_side th"; cases sd;
      simp add: after_claim_def claim_def tail_count_def head_count_def)+

lemma advances_claim: "advances s (after_claim s th)"
  by (simp add: advances_def)

lemma after_claim_counters:
  assumes cnt: "counters_ok s" and ok: "cas_ok s th" and gh: "t_gh th = head_count (t_side th) s"
    and len: "unat (t_max th) \<le> length (t_table th)"
  shows "counters_ok (after_claim s th)"
proof -
  have new: "t_new th = of_nat (head_count (t_side th) s + unat (t_n th))"
    using ok gh by (simp add: cas_ok_def head_read_ok_def)
  have "t_n th \<le> t_max th" using ok by (simp add: cas_ok_def)
  then have tb: "unat (t_n th) \<le> length (t_table th)" using len by (simp add: word_le_nat_alt)
  show ?thesis
    using cnt new tb cas_room [OF cnt ok gh]
    by (cases "t_side th") (auto simp: counters_ok_def after_claim_def claim_def own_def set_own_def
        head_count_def ring_shape_def)
qed

lemma slot_ok_claim:
  assumes "counters_ok s" "p < c_ph s" "slot_ok s p"
  shows "slot_ok (after_claim s th) p"
  using assms by (auto simp: slot_ok_def nth_append counters_ok_def)

lemma contents_ok_claim:
  assumes cnt: "counters_ok s" and ok: "contents_ok s"
  shows "contents_ok (after_claim s th)"
proof -
  have "c_pt s \<le> length (c_log s)" "c_ct s \<le> length (c_log s)" "c_pt s \<le> c_ph s"
    using cnt by (auto simp: counters_ok_def)
  then show ?thesis using ok slot_ok_claim [OF cnt] by (auto simp: contents_ok_def)
qed

lemma step_cas_inv:
  assumes inv: "cring_inv s" and lap: "not_lapped s" and pc: "t_pc (c_thr s t) = Cas"
  shows "cring_inv (step_cas s t (c_thr s t))"
proof -
  define th where "th = c_thr s t"
  have tok: "unat (t_max th) \<le> length (t_table th)" and ok: "cas_ok s th"
    using cring_inv_thread [OF inv, of t] pc by (simp_all add: thread_ok_def th_def)
  have cnt: "counters_ok s" and con: "contents_ok s"
    and part: "\<And>sd. partitioned sd (tail_count sd s) (head_count sd s) (c_thr s)"
    and sgl: "single_ok (c_thr s)"
    using inv by (simp_all add: cring_inv_def)
  show ?thesis
  proof (cases "t_single th \<noteq> 0 \<or> ht_head (own (t_side th) (c_ring s)) = t_old th")
    case False
    have "cring_inv (set_thread t (th\<lparr>t_pc := LoadHead\<rparr>) s)"
      by (rule cring_inv_local [OF inv])
        (use tok pc in \<open>auto simp: thread_ok_def in_flight_def active_def th_def\<close>)
    then show ?thesis using False by (simp add: step_cas_eq th_def)
  next
    case True
    then have gh: "t_gh th = head_count (t_side th) s"
      using cas_success_count [OF lap cnt pc] ok by (simp add: th_def)
    let ?th = "th\<lparr>t_pc := Copy, t_i := 0\<rparr>"
    have "cring_inv (set_thread t ?th (after_claim s th))"
    proof (rule cring_inv_step [OF inv])
      have "t_n th \<le> t_max th" using ok by (simp add: cas_ok_def)
      then have tb: "unat (t_n th) \<le> length (t_table th)" using tok by (simp add: word_le_nat_alt)
      have "t_table th ! j = (c_log s @ take (unat (t_n th)) (t_table th)) ! (t_gh th + j)"
        if "t_side th = Producer" "j < unat (t_n th)" for j
        using that gh cnt by (simp add: nth_append head_count_def counters_ok_def)
      then show "thread_ok (after_claim s th) ?th"
        using ok tb by (auto simp: thread_ok_def copy_ok_def cas_ok_def head_read_ok_def
            split: side.split)
      show "partitioned sd (tail_count sd (after_claim s th)) (head_count sd (after_claim s th))
          ((c_thr s)(t := ?th))" for sd
      proof (cases "sd = t_side th")
        case True
        have "partitioned sd (tail_count sd s) (head_count sd s + unat (t_n ?th)) ((c_thr s)(t := ?th))"
          using ok pc gh True counters_own(3) [OF cnt, of sd]
          by (intro partitioned_claim part) (auto simp: in_flight_def th_def cas_ok_def)
        then show ?thesis using True by simp
      next
        case False
        then show ?thesis using part by (auto intro!: partitioned_keep simp: in_flight_def th_def)
      qed
      show "slot_ok (after_claim s th) p" if "owns Producer (c_thr s u) p" "slot_ok s p" for u p
        using that part [of Producer] cnt
        by (auto intro!: slot_ok_claim simp: partitioned_def head_count_def)
      show "head_count (t_side (c_thr s u)) (after_claim s th) = head_count (t_side (c_thr s u)) s"
        if "u \<noteq> t" "t_single (c_thr s u) \<noteq> 0" "active (t_side (c_thr s u)) (c_thr s u)" for u
      proof -
        have "active (t_side th) th" using pc by (simp add: active_def th_def)
        then have "t_side (c_thr s u) \<noteq> t_side th"
          using that single_ok_alone [OF sgl] unfolding th_def by metis
        then show ?thesis by simp
      qed
      show "active sd ?th \<Longrightarrow> active sd (c_thr s t)" for sd
        using pc by (simp add: active_def th_def)
    qed (use ok tok gh cnt con in \<open>simp_all add: after_claim_counters contents_ok_claim advances_claim th_def\<close>)
    then show ?thesis using True by (simp add: step_cas_eq th_def)
  qed
qed

section \<open>Copying\<close>

lemma in_flight_copy_ok:
  assumes "cring_inv s" "in_flight sd (c_thr s t)"
  shows "copy_ok s (c_thr s t)"
  using cring_inv_thread [OF assms(1), of t] assms(2) by (auto simp: thread_ok_def in_flight_def)

lemma in_flight_range:
  assumes "cring_inv s" "in_flight sd (c_thr s t)"
  shows "tail_count sd s \<le> t_gh (c_thr s t)"
    "t_gh (c_thr s t) + unat (t_n (c_thr s t)) \<le> head_count sd s"
  using partitioned_range [of sd "tail_count sd s" "head_count sd s" "c_thr s" t] assms
  by (simp_all add: cring_inv_def)

lemma word_suc:
  assumes "(i :: u32) < n"
  shows "unat (i + 1) = unat i + 1" "i + 1 \<le> n"
  using assms unat_lt_pow [of n] by (simp_all add: word_less_nat_alt word_le_nat_alt unat_inc_nums)

text \<open>
  Where the next object goes or comes from. That \<open>copy_idx\<close> is the slot of a position rests on
  \<open>n\<close> being at most the capacity, which is what the check of the free or filled entries gives.
\<close>

lemma copy_idx_slot:
  assumes shape: "ring_shape r" and i: "i < n" and n: "n \<le> r_capacity r"
  shows "unat (copy_idx r (of_nat p) n i) = slot r (p + unat i)"
proof -
  define idx where "idx = (of_nat p :: u32) AND r_mask r"
  have nsz: "unat n < unat (r_size r)" and half: "unat (r_size r) \<le> 2 ^ 31"
    using n shape ring_shape_half [OF shape]
    by (auto simp: ring_shape_def word_le_nat_alt word_less_nat_alt)
  have in': "unat i < unat n" using i by (simp add: word_less_nat_alt)
  then have isz: "unat i < unat (r_size r)" using nsz by simp
  note w = slot_wrap [OF shape refl isz, of "of_nat p", folded idx_def]
  have lt: "unat idx < unat (r_size r)" by (rule w(1))
  have "slot r (unat (of_nat p :: u32)) = slot r p" by (rule unat_of_nat_slot [OF shape])
  then have sl: "slot r (p + unat i) = slot r (unat (of_nat p :: u32) + unat i)"
    unfolding slot_def by (metis mod_add_left_eq)
  have add: "unat (idx + x) = unat idx + unat x" if "unat x < unat (r_size r)" for x
    using that lt half by (subst unat_add_no_overflow) simp_all
  have sub: "unat (r_size r - idx) = unat (r_size r) - unat idx"
    using lt by (simp add: unat_sub word_le_nat_alt)
  have sub': "unat (i - (r_size r - idx)) = unat i - (unat (r_size r) - unat idx)"
    if "\<not> i < r_size r - idx"
    using that sub by (simp add: unat_sub word_le_nat_alt not_less)
  show ?thesis
    unfolding sl w(2) using add [OF isz] add [OF nsz] sub sub' lt in'
    by (auto simp: copy_idx_def Let_def word_less_nat_alt simp flip: idx_def)
qed

lemma in_flight_n_le:
  assumes inv: "cring_inv s" and fl: "in_flight sd (c_thr s t)"
  shows "t_n (c_thr s t) \<le> r_capacity (c_ring s)"
proof -
  have "counters_ok s" using inv by (simp add: cring_inv_def)
  from counters_own(4) [OF this, of sd] in_flight_range [OF inv fl] show ?thesis
    by (simp add: word_le_nat_alt)
qed

lemma copy_index:
  assumes inv: "cring_inv s" and fl: "in_flight sd (c_thr s t)" and i: "t_i (c_thr s t) < t_n (c_thr s t)"
  shows "unat (copy_idx (c_ring s) (t_old (c_thr s t)) (t_n (c_thr s t)) (t_i (c_thr s t))) =
    slot (c_ring s) (t_gh (c_thr s t) + unat (t_i (c_thr s t)))"
proof -
  have "t_old (c_thr s t) = of_nat (t_gh (c_thr s t))"
    using in_flight_copy_ok [OF inv fl] by (simp add: copy_ok_def)
  moreover have "ring_shape (c_ring s)" using inv by (simp add: cring_inv_def counters_ok_def)
  ultimately show ?thesis using copy_idx_slot [OF _ i in_flight_n_le [OF inv fl]] by simp
qed

lemma step_copy_producer:
  assumes inv: "cring_inv s" and pc: "t_pc (c_thr s t) = Copy" and side: "t_side (c_thr s t) = Producer"
    and i: "t_i (c_thr s t) < t_n (c_thr s t)"
  shows "\<exists>s'. step_copy s t (c_thr s t) = Some s' \<and> cring_inv s'"
proof -
  define th where "th = c_thr s t"
  define p where "p = t_gh th + unat (t_i th)"
  have fl: "in_flight Producer th" using pc side by (simp add: in_flight_def th_def)
  have ok: "copy_ok s th" using in_flight_copy_ok [OF inv] fl by (simp add: th_def)
  have cnt: "counters_ok s" and con: "contents_ok s" and shape: "ring_shape (c_ring s)"
    and part: "\<And>sd. partitioned sd (tail_count sd s) (head_count sd s) (c_thr s)"
    using inv by (simp_all add: cring_inv_def counters_ok_def)
  have rng: "c_pt s \<le> t_gh th" "t_gh th + unat (t_n th) \<le> c_ph s"
    using in_flight_range [OF inv, of Producer t] fl
    by (simp_all add: tail_count_def head_count_def th_def)
  have iN: "unat (t_i th) < unat (t_n th)" using i by (simp add: th_def word_less_nat_alt)
  have tb: "unat (t_i th) < length (t_table th)" using ok iN by (simp add: copy_ok_def)
  have idx: "unat (copy_idx (c_ring s) (t_old th) (t_n th) (t_i th)) = slot (c_ring s) p"
    unfolding th_def p_def using fl i by (intro copy_index [OF inv]) (simp_all add: th_def)
  let ?objs = "(r_objs (c_ring s))[slot (c_ring s) p := t_table th ! unat (t_i th)]"
  let ?th = "th\<lparr>t_i := t_i th + 1\<rparr>" and ?s1 = "s\<lparr>c_ring := c_ring s\<lparr>r_objs := ?objs\<rparr>\<rparr>"
  have put: "put_ptr (t_table th) (t_i th) (copy_idx (c_ring s) (t_old th) (t_n th) (t_i th)) (r_objs (c_ring s))
      = Some ?objs"
    using tb slot_less [OF shape, of p] by (simp add: put_ptr_eq idx)
  have step: "step_copy s t th = Some (set_thread t ?th ?s1)"
    using i side put by (simp add: step_copy_def Let_def th_def)
  have log_p: "t_table th ! unat (t_i th) = c_log s ! p"
    using ok iN side by (simp add: copy_ok_def th_def p_def)
  have keep: "slot_ok ?s1 q"
    if "q \<noteq> p \<longrightarrow> slot_ok s q" "c_ct s \<le> q" "q < c_ph s" for q
  proof (cases "q = p")
    case True
    then show ?thesis using log_p slot_less [OF shape, of p] by (simp add: slot_ok_def slot_def)
  next
    case False
    have "c_ph s < c_ct s + unat (r_size (c_ring s))"
      using cnt by (auto simp: counters_ok_def ring_shape_def word_less_nat_alt)
    then have "slot (c_ring s) q \<noteq> slot (c_ring s) p"
      using slot_inj [of "c_ring s" p q] slot_inj [of "c_ring s" q p] False that(2,3) rng iN cnt
      by (fastforce simp: p_def counters_ok_def)
    then show ?thesis using that(1) False by (simp add: slot_ok_def slot_def)
  qed
  have cnt1: "counters_ok ?s1" using cnt by (simp add: counters_ok_def ring_shape_def)
  have "cring_inv (set_thread t ?th ?s1)"
  proof (rule cring_inv_step [OF inv])
    show "thread_ok ?s1 ?th"
    proof -
      have "slot_ok ?s1 (t_gh th + j)" if "j < unat (t_i th + 1)" for j
        using that ok side rng iN word_suc(1) [OF i] cnt
        by (intro keep) (auto simp: copy_ok_def th_def p_def counters_ok_def)
      then show ?thesis using ok pc side word_suc(2) [OF i]
        by (simp add: thread_ok_def copy_ok_def th_def)
    qed
    show "contents_ok ?s1" using con cnt keep by (auto simp: contents_ok_def counters_ok_def)
    show "partitioned sd (tail_count sd ?s1) (head_count sd ?s1) ((c_thr s)(t := ?th))" for sd
    proof -
      have "tail_count sd ?s1 = tail_count sd s" "head_count sd ?s1 = head_count sd s"
        by (simp_all add: tail_count_def head_count_def)
      then show ?thesis using part [of sd]
        by (auto intro!: partitioned_keep simp: in_flight_def th_def)
    qed
    show "slot_ok ?s1 q" if "owns Producer (c_thr s u) q" "slot_ok s q" for u q
    proof -
      have "c_pt s \<le> q" "q < c_ph s"
        using that(1) part [of Producer] by (auto simp: partitioned_def tail_count_def head_count_def)
      then show ?thesis using that(2) cnt by (intro keep) (auto simp: counters_ok_def)
    qed
  qed (use cnt1 in \<open>auto simp: advances_def head_count_def tail_count_def active_def th_def\<close>)
  then show ?thesis using step by (simp add: th_def)
qed

lemma step_copy_consumer:
  assumes inv: "cring_inv s" and pc: "t_pc (c_thr s t) = Copy" and side: "t_side (c_thr s t) = Consumer"
    and i: "t_i (c_thr s t) < t_n (c_thr s t)"
  shows "\<exists>s'. step_copy s t (c_thr s t) = Some s' \<and> cring_inv s'"
proof -
  define th where "th = c_thr s t"
  define p where "p = t_gh th + unat (t_i th)"
  have fl: "in_flight Consumer th" using pc side by (simp add: in_flight_def th_def)
  have ok: "copy_ok s th" using in_flight_copy_ok [OF inv] fl by (simp add: th_def)
  have con: "contents_ok s" and shape: "ring_shape (c_ring s)" and chpt: "c_ch s \<le> c_pt s"
    using inv by (simp_all add: cring_inv_def counters_ok_def)
  have iN: "unat (t_i th) < unat (t_n th)" using i by (simp add: th_def word_less_nat_alt)
  have tb: "unat (t_i th) < length (t_table th)" using ok iN by (simp add: copy_ok_def)
  have "c_ct s \<le> p" "p < c_pt s"
    using in_flight_range [OF inv, of Consumer t] fl chpt iN
    by (simp_all add: tail_count_def head_count_def th_def p_def)
  then have val: "r_objs (c_ring s) ! slot (c_ring s) p = c_log s ! p"
    using con by (simp add: contents_ok_def slot_ok_def)
  have idx: "unat (copy_idx (c_ring s) (t_old th) (t_n th) (t_i th)) = slot (c_ring s) p"
    unfolding th_def p_def using fl i by (intro copy_index [OF inv]) (simp_all add: th_def)
  let ?th = "th\<lparr>t_i := t_i th + 1, t_table := (t_table th)[unat (t_i th) := c_log s ! p]\<rparr>"
  have "get_ptr (r_objs (c_ring s)) (t_i th) (copy_idx (c_ring s) (t_old th) (t_n th) (t_i th)) (t_table th)
      = Some ((t_table th)[unat (t_i th) := c_log s ! p])"
    using tb slot_less [OF shape, of p] val by (simp add: get_ptr_eq idx)
  then have step: "step_copy s t th = Some (set_thread t ?th s)"
    using i side by (simp add: step_copy_def Let_def th_def)
  have "cring_inv (set_thread t ?th s)"
  proof (rule cring_inv_local [OF inv])
    have "(t_table th)[unat (t_i th) := c_log s ! p] ! j = c_log s ! (t_gh th + j)"
      if "j < unat (t_i th + 1)" for j
      using that ok side tb word_suc(1) [OF i]
      by (auto simp: copy_ok_def th_def p_def nth_list_update less_Suc_eq)
    then show "thread_ok s ?th" using ok pc side word_suc(2) [OF i]
      by (simp add: thread_ok_def copy_ok_def th_def)
  qed (auto simp: in_flight_def active_def th_def)
  then show ?thesis using step by (simp add: th_def)
qed

lemma step_copy_inv:
  assumes inv: "cring_inv s" and pc: "t_pc (c_thr s t) = Copy"
  shows "\<exists>s'. step_copy s t (c_thr s t) = Some s' \<and> cring_inv s'"
proof (cases "t_i (c_thr s t) < t_n (c_thr s t)")
  case True
  then show ?thesis
    using step_copy_producer [OF inv pc] step_copy_consumer [OF inv pc]
    by (cases "t_side (c_thr s t)") auto
next
  case False
  have "copy_ok s (c_thr s t)"
    using in_flight_copy_ok [OF inv, of "t_side (c_thr s t)" t] pc by (simp add: in_flight_def)
  then have "thread_ok s (c_thr s t\<lparr>t_pc := Wait\<rparr>)"
    using False by (auto simp: thread_ok_def copy_ok_def split: side.splits)
  then have "cring_inv (set_thread t (c_thr s t\<lparr>t_pc := Wait\<rparr>) s)"
    by (rule cring_inv_local [OF inv]) (use pc in \<open>auto simp: in_flight_def active_def\<close>)
  then show ?thesis using False by (simp add: step_copy_def Let_def)
qed

section \<open>Waiting for and storing the tail\<close>

text \<open>A single-producer (consumer) thread in flight is the only one, so its turn has come.\<close>

lemma single_in_turn:
  assumes inv: "cring_inv s" and fl: "in_flight sd (c_thr s t)" and sg: "t_single (c_thr s t) \<noteq> 0"
  shows "t_gh (c_thr s t) = tail_count sd s"
proof -
  have part: "partitioned sd (tail_count sd s) (head_count sd s) (c_thr s)"
    using inv by (simp add: cring_inv_def)
  have rng: "tail_count sd s \<le> t_gh (c_thr s t)"
    "t_gh (c_thr s t) + unat (t_n (c_thr s t)) \<le> head_count sd s"
    by (rule in_flight_range [OF inv fl])+
  have "0 < unat (t_n (c_thr s t))" using part fl by (auto simp: partitioned_def unat_gt_0)
  then obtain u where u: "owns sd (c_thr s u) (tail_count sd s)"
    using part rng unfolding partitioned_def by (metis add_lessD1 le_less_trans less_add_same_cancel1 less_le_trans order_refl)
  then have "in_flight sd (c_thr s u)" by (simp add: owns_def)
  then have "active sd (c_thr s t)" "active sd (c_thr s u)"
    using fl by (auto simp: in_flight_def active_def)
  then have "u = t" using single_ok_alone [of "c_thr s"] inv sg by (simp add: cring_inv_def)
  then show ?thesis using u rng(1) by (simp add: owns_def)
qed

lemma tail_word_in_turn:
  assumes inv: "cring_inv s" and fl: "in_flight sd (c_thr s t)"
    and eq: "ht_tail (own sd (c_ring s)) = t_old (c_thr s t)"
  shows "t_gh (c_thr s t) = tail_count sd s"
proof -
  let ?g = "t_gh (c_thr s t)"
  have cnt: "counters_ok s" using inv by (simp add: cring_inv_def)
  have le: "tail_count sd s \<le> ?g" and "?g \<le> head_count sd s"
    using in_flight_range [OF inv fl] by simp_all
  then have "?g - tail_count sd s < 2 ^ 32"
    using counters_own(4) [OF cnt, of sd] unat_lt_pow [of "r_capacity (c_ring s)"] by simp
  moreover have "(of_nat ?g :: u32) - of_nat (tail_count sd s) = 0"
    using eq counters_own(2) [OF cnt, of sd] in_flight_copy_ok [OF inv fl] by (simp add: copy_ok_def)
  ultimately have "?g - tail_count sd s = 0" using unat_counter_diff [OF le, where 'a = 32] by simp
  then show ?thesis using le by simp
qed

lemma step_wait_inv:
  assumes inv: "cring_inv s" and pc: "t_pc (c_thr s t) = Wait"
  shows "cring_inv (step_wait s t (c_thr s t))"
proof (cases "t_single (c_thr s t) = 0 \<and> ht_tail (own (t_side (c_thr s t)) (c_ring s)) \<noteq> t_old (c_thr s t)")
  case False
  have fl: "in_flight (t_side (c_thr s t)) (c_thr s t)" using pc by (simp add: in_flight_def)
  have "t_gh (c_thr s t) = tail_count (t_side (c_thr s t)) s"
    using False single_in_turn [OF inv fl] tail_word_in_turn [OF inv fl] by auto
  then have "thread_ok s (c_thr s t\<lparr>t_pc := Store\<rparr>)"
    using in_flight_copy_ok [OF inv fl] pc by (auto simp: thread_ok_def copy_ok_def split: side.splits)
  then have "cring_inv (set_thread t (c_thr s t\<lparr>t_pc := Store\<rparr>) s)"
    by (rule cring_inv_local [OF inv]) (use pc in \<open>auto simp: in_flight_def active_def\<close>)
  then show ?thesis unfolding step_wait_def using False by (simp only: if_False)
qed (simp add: step_wait_def inv)

definition after_release :: "'o cstate \<Rightarrow> 'o thread \<Rightarrow> 'o cstate" where
  "after_release s th =
     release (s\<lparr>c_ring := set_own (t_side th) (own (t_side th) (c_ring s)\<lparr>ht_tail := t_new th\<rparr>) (c_ring s)\<rparr>) th"

lemma step_store_eq: "step_store s t th = set_thread t (th\<lparr>t_pc := Idle\<rparr>) (after_release s th)"
  by (simp add: step_store_def Let_def after_release_def)

lemma after_release_simps [simp]:
  "c_thr (after_release s th) = c_thr s" "c_ph (after_release s th) = c_ph s"
  "c_ch (after_release s th) = c_ch s" "c_log (after_release s th) = c_log s"
  "head_count sd (after_release s th) = head_count sd s"
  "tail_count sd (after_release s th) =
     (if sd = t_side th then tail_count sd s + unat (t_n th) else tail_count sd s)"
  "r_capacity (c_ring (after_release s th)) = r_capacity (c_ring s)"
  "slot_ok (after_release s th) = slot_ok s"
  by (cases "t_side th"; cases sd; simp add: after_release_def release_def tail_count_def
      head_count_def slot_ok_def fun_eq_iff)+

lemma advances_release: "advances s (after_release s th)"
  by (cases "t_side th") (simp_all add: advances_def, simp_all add: after_release_def release_def)

lemma take_append_slice:
  assumes "\<And>j. j < n \<Longrightarrow> tbl ! j = xs ! (a + j)" "n \<le> length tbl" "a + n \<le> length xs"
  shows "take a xs @ take n tbl = take (a + n) xs"
proof -
  have "take n tbl = take n (drop a xs)" using assms by (intro nth_equalityI) simp_all
  then show ?thesis by (simp add: take_add)
qed

lemma release_table:
  assumes inv: "cring_inv s" and pc: "t_pc (c_thr s t) = Store"
  defines "th \<equiv> c_thr s t"
  shows "take (tail_count (t_side th) s) (c_log s) @ take (unat (t_n th)) (t_table th) =
    take (tail_count (t_side th) s + unat (t_n th)) (c_log s)"
proof -
  have fl: "in_flight (t_side th) th" using pc by (simp add: in_flight_def th_def)
  have ok: "copy_ok s th" using in_flight_copy_ok [OF inv] fl by (simp add: th_def)
  have "t_gh th + unat (t_n th) \<le> head_count (t_side th) s"
    using in_flight_range(2) [OF inv] fl by (simp add: th_def)
  then have "t_gh th + unat (t_n th) \<le> length (c_log s)"
    using inv by (auto simp: cring_inv_def counters_ok_def head_count_def split: side.splits)
  then show ?thesis using ok pc
    by (intro take_append_slice) (auto simp: copy_ok_def th_def split: side.splits)
qed

lemma step_store_inv:
  assumes inv: "cring_inv s" and pc: "t_pc (c_thr s t) = Store"
  shows "cring_inv (step_store s t (c_thr s t))"
proof -
  define th where "th = c_thr s t"
  have fl: "in_flight (t_side th) th" using pc by (simp add: in_flight_def th_def)
  have ok: "copy_ok s th" using in_flight_copy_ok [OF inv] fl by (simp add: th_def)
  have gh: "t_gh th = tail_count (t_side th) s" and i: "t_i th = t_n th"
    using ok pc by (simp_all add: copy_ok_def th_def)
  have cnt: "counters_ok s" and con: "contents_ok s"
    and part: "\<And>sd. partitioned sd (tail_count sd s) (head_count sd s) (c_thr s)"
    using inv by (simp_all add: cring_inv_def)
  have rng: "tail_count (t_side th) s + unat (t_n th) \<le> head_count (t_side th) s"
    using in_flight_range(2) [OF inv, of "t_side th" t] fl gh by (simp add: th_def)
  have new: "t_new th = of_nat (tail_count (t_side th) s + unat (t_n th))"
    using ok gh by (simp add: copy_ok_def)
  note tbl = release_table [OF inv pc, folded th_def]
  have "cring_inv (set_thread t (th\<lparr>t_pc := Idle\<rparr>) (after_release s th))"
  proof (rule cring_inv_step [OF inv])
    show "counters_ok (after_release s th)"
      using cnt new rng by (cases "t_side th") (auto simp: counters_ok_def after_release_def
          release_def own_def set_own_def tail_count_def head_count_def ring_shape_def)
    show "contents_ok (after_release s th)"
    proof (cases "t_side th")
      case Producer
      have "slot_ok s p" if "c_pt s \<le> p" "p < c_pt s + unat (t_n th)" for p
      proof -
        have "\<forall>j < unat (t_n th). slot_ok s (c_pt s + j)"
          using ok gh i Producer by (simp add: copy_ok_def tail_count_def)
        then show ?thesis using that by (metis le_add_diff_inverse nat_add_left_cancel_less)
      qed
      then have "\<forall>p. c_ct s \<le> p \<and> p < c_pt s + unat (t_n th) \<longrightarrow> slot_ok s p"
        using con by (meson contents_ok_def not_le)
      then show ?thesis using con tbl Producer
        unfolding contents_ok_def after_release_simps(8)
        by (simp add: tail_count_def) (simp add: after_release_def release_def)
    next
      case Consumer
      then show ?thesis using con tbl
        unfolding contents_ok_def after_release_simps(8)
        by (simp add: tail_count_def) (simp add: after_release_def release_def)
    qed
    show "partitioned sd (tail_count sd (after_release s th)) (head_count sd (after_release s th))
        ((c_thr s)(t := th\<lparr>t_pc := Idle\<rparr>))" for sd
    proof (cases "sd = t_side th")
      case True
      have "partitioned sd (tail_count sd s + unat (t_n (c_thr s t))) (head_count sd s)
          ((c_thr s)(t := th\<lparr>t_pc := Idle\<rparr>))"
        using True fl gh by (intro partitioned_release part) (auto simp: th_def in_flight_def)
      then show ?thesis using True by (simp add: th_def)
    next
      case False
      then show ?thesis using part [of sd]
        by (auto intro!: partitioned_keep simp: in_flight_def th_def)
    qed
    show "tail_count (t_side (c_thr s u)) (after_release s th) = tail_count (t_side (c_thr s u)) s"
      if u: "u \<noteq> t" "t_pc (c_thr s u) = Store" for u
    proof (cases "t_side (c_thr s u) = t_side th")
      case True
      then have fu: "in_flight (t_side th) (c_thr s u)" using u(2) by (simp add: in_flight_def)
      have "t_gh (c_thr s u) = tail_count (t_side th) s"
        using in_flight_copy_ok [OF inv fu] u(2) True by (simp add: copy_ok_def)
      then have "u = t" using partitioned_disjoint [OF part fu] fl gh by (simp add: th_def)
      then show ?thesis using u(1) by simp
    qed simp
  qed (auto simp: thread_ok_def advances_release active_def th_def)
  then show ?thesis by (simp add: step_store_eq th_def)
qed

section \<open>Every reachable state satisfies the invariant\<close>

lemma thread_step_inv:
  assumes "cring_inv s" "not_lapped s"
  shows "\<exists>s'. thread_step s t = Some s' \<and> cring_inv s'"
  using assms by (cases "t_pc (c_thr s t)")
    (auto simp: thread_step_def Let_def step_load_head_inv step_load_tail_inv step_cas_inv
      step_copy_inv step_wait_inv step_store_inv)

lemma start_inv:
  assumes inv: "cring_inv s" and st: "may_start s t sd tbl n single"
  shows "cring_inv (set_thread t (start_op sd tbl n b single (c_thr s t)) s)"
proof -
  let ?th = "start_op sd tbl n b single (c_thr s t)"
  have idle: "t_pc (c_thr s t) = Idle" and len: "unat n \<le> length tbl"
    using st by (simp_all add: may_start_def)
  have part: "partitioned d (tail_count d s) (head_count d s) ((c_thr s)(t := ?th))" for d
    using inv idle by (intro partitioned_keep) (auto simp: cring_inv_def in_flight_def start_op_def)
  have "single_ok ((c_thr s)(t := ?th))"
    unfolding single_ok_def
  proof (intro allI impI)
    fix u v d
    assume a: "u \<noteq> v \<and> active d (((c_thr s)(t := ?th)) u) \<and> active d (((c_thr s)(t := ?th)) v)"
    show "t_single (((c_thr s)(t := ?th)) u) = 0"
    proof (cases "u = t \<or> v = t")
      case True
      then show ?thesis using a st by (auto simp: may_start_def active_def start_op_def split: if_splits)
    next
      case False
      then have "u \<noteq> v" "active d (c_thr s u)" "active d (c_thr s v)" using a by auto
      then have "t_single (c_thr s u) = 0"
        using single_ok_alone [of "c_thr s"] inv unfolding cring_inv_def by metis
      then show ?thesis using False by simp
    qed
  qed
  moreover have "thread_ok s ?th" using len by (simp add: thread_ok_def start_op_def)
  ultimately show ?thesis using inv part by (simp add: cring_inv_def)
qed

lemma init_inv:
  assumes "ring_shape r" "\<And>t. t_pc (thr t) = Idle"
    and "ht_head (r_prod r) = 0" "ht_tail (r_prod r) = 0" "ht_head (r_cons r) = 0" "ht_tail (r_cons r) = 0"
  shows "cring_inv (cring_init r thr)"
  using assms by (auto simp: cring_inv_def cring_init_def counters_ok_def contents_ok_def
      partitioned_def owns_def in_flight_def thread_ok_def single_ok_def active_def
      head_count_def tail_count_def split: side.splits)

lemma cring_reach_inv:
  assumes "cring_reach r0 s"
    and "ring_shape r0" "ht_head (r_prod r0) = 0" "ht_tail (r_prod r0) = 0"
      "ht_head (r_cons r0) = 0" "ht_tail (r_cons r0) = 0"
  shows "cring_inv s"
  using assms
proof (induction rule: cring_reach.induct)
  case (step s t s')
  then show ?case using thread_step_inv [of s t] by auto
qed (auto intro: init_inv start_inv)

definition fresh_ring :: "'o rte_ring \<Rightarrow> bool" where
  "fresh_ring r \<longleftrightarrow> ring_shape r \<and> ht_head (r_prod r) = 0 \<and> ht_tail (r_prod r) = 0 \<and>
     ht_head (r_cons r) = 0 \<and> ht_tail (r_cons r) = 0"

lemma reach_inv: "\<lbrakk>cring_reach r0 s; fresh_ring r0\<rbrakk> \<Longrightarrow> cring_inv s"
  by (auto simp: fresh_ring_def intro: cring_reach_inv)

lemma put_get_ptr_cases:
  assumes "step_copy s t th = Some s'"
  shows "r_capacity (c_ring s') = r_capacity (c_ring s)"
  using assms by (auto simp: step_copy_def Let_def bind_eq_Some_conv split: if_splits side.splits)

lemma thread_step_capacity:
  assumes "thread_step s t = Some s'"
  shows "r_capacity (c_ring s') = r_capacity (c_ring s)"
proof (cases "t_pc (c_thr s t)")
  case LoadTail
  then show ?thesis using assms by (auto simp: thread_step_def step_load_tail_def Let_def)
next
  case Copy
  then show ?thesis using assms by (auto simp: thread_step_def intro: put_get_ptr_cases)
qed (use assms in \<open>auto simp: thread_step_def step_load_head_def step_cas_eq step_wait_def
    step_store_eq Let_def\<close>)

lemma reach_capacity: "cring_reach r0 s \<Longrightarrow> r_capacity (c_ring s) = r_capacity r0"
  by (induction rule: cring_reach.induct) (auto simp: cring_init_def dest: thread_step_capacity)

lemma cring_inv_fifo:
  assumes "cring_inv s"
  shows "\<exists>rest. c_in s = c_out s @ rest \<and> length rest \<le> unat (r_capacity (c_ring s))"
proof (intro exI conjI)
  have cnt: "c_ct s \<le> c_pt s" "c_pt s \<le> length (c_log s)"
    "c_pt s - c_ct s \<le> unat (r_capacity (c_ring s))"
    and io: "c_in s = take (c_pt s) (c_log s)" "c_out s = take (c_ct s) (c_log s)"
    using assms by (auto simp: cring_inv_def counters_ok_def contents_ok_def)
  show "c_in s = c_out s @ drop (c_ct s) (c_in s)"
    using cnt(1) by (metis append_take_drop_id io min.absorb1 take_take)
  show "length (drop (c_ct s) (c_in s)) \<le> unat (r_capacity (c_ring s))"
    using cnt io by simp
qed

text \<open>The thread whose turn it is makes a step that changes its state.\<close>

lemma in_turn_progress:
  assumes inv: "cring_inv s" and lap: "not_lapped s" and fl: "in_flight sd (c_thr s t)"
    and turn: "t_gh (c_thr s t) = tail_count sd s"
  shows "\<exists>s'. thread_step s t = Some s' \<and> s' \<noteq> s"
proof -
  obtain s' where s': "thread_step s t = Some s'" using thread_step_inv [OF inv lap] by blast
  have cnt: "counters_ok s" using inv by (simp add: cring_inv_def)
  have ok: "copy_ok s (c_thr s t)" and sd: "t_side (c_thr s t) = sd"
    using in_flight_copy_ok [OF inv fl] fl by (simp_all add: in_flight_def)
  have "c_thr s' t \<noteq> c_thr s t"
  proof (cases "t_pc (c_thr s t)")
    case Copy
    define i where "i = t_i (c_thr s t)"
    have "i + 1 \<noteq> i" by simp
    then show ?thesis using s' Copy
      by (auto simp: thread_step_def step_copy_def Let_def bind_eq_Some_conv i_def
          split: if_splits side.splits dest: arg_cong [where f = t_i] arg_cong [where f = t_pc])
  next
    case Wait
    have "ht_tail (own sd (c_ring s)) = t_old (c_thr s t)"
      using counters_own(2) [OF cnt] ok turn by (simp add: copy_ok_def)
    then show ?thesis using s' Wait sd
      by (auto simp: thread_step_def step_wait_def Let_def dest: arg_cong [where f = t_pc])
  next
    case Store
    then show ?thesis using s'
      by (auto simp: thread_step_def step_store_eq Let_def dest: arg_cong [where f = t_pc])
  qed (use fl in \<open>auto simp: in_flight_def\<close>)
  then show ?thesis using s' by auto
qed

lemma some_in_turn:
  assumes inv: "cring_inv s" and fl: "in_flight sd (c_thr s t)"
  obtains u where "in_flight sd (c_thr s u)" "t_gh (c_thr s u) = tail_count sd s"
proof -
  have part: "partitioned sd (tail_count sd s) (head_count sd s) (c_thr s)"
    using inv by (simp add: cring_inv_def)
  have "t_n (c_thr s t) \<noteq> 0" using part fl by (simp add: partitioned_def)
  then have "tail_count sd s < head_count sd s"
    using in_flight_range [OF inv fl] by (simp add: unat_gt_0 [symmetric])
  then obtain u where u: "owns sd (c_thr s u) (tail_count sd s)"
    using part unfolding partitioned_def by blast
  then have fu: "in_flight sd (c_thr s u)" by (simp add: owns_def)
  then have "t_gh (c_thr s u) = tail_count sd s"
    using u in_flight_range(1) [OF inv fu] by (simp add: owns_def)
  then show thesis using that fu by blast
qed

text \<open>Between operations the shared ring is the well-formed ring of the sequential model.\<close>

lemma quiescent:
  assumes inv: "cring_inv s" and idle: "\<And>t. t_pc (c_thr s t) = Idle"
  shows "ring_inv (c_ring s)" "c_in s = c_out s @ ring_contents (c_ring s)"
proof -
  have none: "\<not> owns sd (c_thr s t) p" for sd t p using idle by (simp add: owns_def in_flight_def)
  have eq: "tail_count sd s = head_count sd s" for sd
  proof -
    have "partitioned sd (tail_count sd s) (head_count sd s) (c_thr s)"
      using inv by (simp add: cring_inv_def)
    then have "\<not> tail_count sd s < head_count sd s"
      using none unfolding partitioned_def by (metis order_refl)
    moreover have "tail_count sd s \<le> head_count sd s"
      using inv counters_own(3) by (auto simp: cring_inv_def)
    ultimately show ?thesis by simp
  qed
  have pt: "c_pt s = c_ph s" and ct: "c_ct s = c_ch s"
    using eq [of Producer] eq [of Consumer] by (simp_all add: tail_count_def head_count_def)
  have cnt: "counters_ok s" and con: "contents_ok s" using inv by (simp_all add: cring_inv_def)
  have le: "c_ct s \<le> c_pt s" and cap: "c_pt s - c_ct s \<le> unat (r_capacity (c_ring s))"
    using cnt by (auto simp: counters_ok_def)
  have "c_pt s - c_ct s < 2 ^ 32" using cap unat_lt_pow [of "r_capacity (c_ring s)"] by simp
  then have d: "unat ((of_nat (c_pt s) :: u32) - of_nat (c_ct s)) = c_pt s - c_ct s"
    using le by (intro unat_counter_diff) simp_all
  show "ring_inv (c_ring s)"
    using cnt pt ct d cap by (simp add: ring_inv_def counters_ok_def word_le_nat_alt)
  have shape: "ring_shape (c_ring s)" using cnt by (simp add: counters_ok_def)
  have sl: "slot (c_ring s) (unat (of_nat (c_ct s) :: u32) + j) = slot (c_ring s) (c_ct s + j)" for j
    using unat_of_nat_mod_size [OF shape] slot_add [OF shape, of "of_nat (c_ct s)" 0 j]
    by (metis add_0 mod_add_left_eq slot_def unat_of_nat_slot [OF shape])
  have "ring_contents (c_ring s) = drop (c_ct s) (take (c_pt s) (c_log s))"
    using cnt con d sl by (intro nth_equalityI)
      (auto simp: ring_contents_def counters_ok_def contents_ok_def slot_ok_def)
  then show "c_in s = c_out s @ ring_contents (c_ring s)"
    using con le by (metis append_take_drop_id contents_ok_def min.absorb1 take_take)
qed

section \<open>A concrete run\<close>

text \<open>
  Two producers on a ring of two slots: thread 0 has claimed the only free slot, thread 1 has
  read the head before that claim.
\<close>

definition demo_thread :: "nat thread" where
  "demo_thread = \<lparr>t_side = Producer, t_pc = Idle, t_table = [], t_max = 0,
     t_behavior = RTE_RING_QUEUE_FIXED, t_single = 0, t_old = 0, t_new = 0, t_avail = 0, t_n = 0,
     t_i = 0, t_gh = 0, t_gt = 0\<rparr>"

definition demo_shared :: "nat rte_ring" where
  "demo_shared = \<lparr>r_name = ''demo'', r_flags = 0, r_memzone = None, r_size = 2, r_mask = 1,
     r_capacity = 1, r_prod = zero_headtail, r_cons = zero_headtail, r_objs = [0, 0]\<rparr>"

fun run_schedule :: "'o cstate \<Rightarrow> nat list \<Rightarrow> 'o cstate option" where
  "run_schedule s [] = Some s"
| "run_schedule s (t # ts) =
     (if c_ph s < 2 ^ 32 \<and> c_ch s < 2 ^ 32 then thread_step s t \<bind> (\<lambda>s'. run_schedule s' ts) else None)"

definition demo_start :: "nat cstate" where
  "demo_start =
     (let s = cring_init demo_shared (\<lambda>_. demo_thread);
          s = set_thread 0 (start_op Producer [5] 1 RTE_RING_QUEUE_FIXED 0 (c_thr s 0)) s
      in set_thread 1 (start_op Producer [6] 1 RTE_RING_QUEUE_FIXED 0 (c_thr s 1)) s)"

lemma demo_shared_fresh: "fresh_ring demo_shared"
proof -
  have "\<exists>k < 32. (2::u32) = 2 ^ k \<and> 1 = (mask k :: u32)" by (rule exI [of _ 1]) simp
  then show ?thesis
    by (simp add: fresh_ring_def ring_shape_def demo_shared_def zero_headtail_def)
qed

lemma demo_start_reach: "cring_reach demo_shared demo_start"
  unfolding demo_start_def Let_def
  by (intro cring_reach.start cring_reach.init)
    (simp_all add: may_start_def demo_thread_def cring_init_def set_thread_def active_def start_op_def)

text \<open>Fewer than \<open>2\<^sup>3\<^sup>2\<close> objects have passed, so no thread is lapped.\<close>

lemma not_lapped_small: "c_ph s < 2 ^ 32 \<Longrightarrow> c_ch s < 2 ^ 32 \<Longrightarrow> not_lapped s"
  by (auto simp: not_lapped_def Let_def head_count_def split: side.split)

lemma run_schedule_reach:
  "\<lbrakk>run_schedule s ts = Some s'; cring_reach r0 s\<rbrakk> \<Longrightarrow> cring_reach r0 s'"
proof (induction ts arbitrary: s)
  case (Cons t ts)
  then obtain y where y: "thread_step s t = Some y" "run_schedule y ts = Some s'"
    and "not_lapped s"
    by (auto simp: bind_eq_Some_conv split: if_splits intro: not_lapped_small [simplified])
  then have "cring_reach r0 y" using Cons.prems(2) by (auto intro: cring_reach.step)
  with y(2) show ?case by (rule Cons.IH)
qed simp

lemmas demo_eval = demo_start_def thread_step_def step_load_head_def step_load_tail_def step_cas_def
  step_copy_def copy_idx_def step_wait_def step_store_def claim_def release_def set_thread_def own_def set_own_def
  head_count_def tail_count_def Let_def granted_def rte_atomic32_cmpset_eq put_ptr_def get_ptr_def
  arr_get_def arr_set_def start_op_def cring_init_def demo_thread_def demo_shared_def zero_headtail_def

definition demo_state :: "nat cstate" where
  "demo_state = the (run_schedule demo_start [0, 1, 0, 1, 0, 1, 0, 0])"

lemma demo_state_run: "run_schedule demo_start [0, 1, 0, 1, 0, 1, 0, 0] = Some demo_state"
  unfolding demo_state_def by (simp add: demo_eval)

lemma demo_state_facts:
  "cring_reach demo_shared demo_state" "not_lapped demo_state" "c_in demo_state = []"
  "t_pc (c_thr demo_state 0) = Wait" "t_pc (c_thr demo_state 1) = LoadHead"
  "r_objs (c_ring demo_state) = [5, 0]"
proof -
  show "cring_reach demo_shared demo_state"
    using demo_state_run demo_start_reach by (rule run_schedule_reach)
  show "not_lapped demo_state"
    by (rule not_lapped_small) (simp_all add: demo_state_def demo_eval)
qed (simp_all add: demo_state_def demo_eval)

section \<open>Properties of the shared ring\<close>

text \<open>
  C3. Any number of producers and consumers, in any interleaving: at every moment the
  objects delivered by completed dequeues are, in order, a prefix of the objects of completed
  enqueues, and at most \<open>capacity\<close> objects are in between. Nothing is lost, duplicated,
  reordered or overwritten.
\<close>

theorem cring_fifo:
  assumes "cring_reach r0 s" "fresh_ring r0"
  shows "\<exists>rest. c_in s = c_out s @ rest \<and> length rest \<le> unat (r_capacity r0)"
  using cring_inv_fifo [OF reach_inv [OF assms]] reach_capacity [OF assms(1)] by simp

theorem cring_fifo_witness:
  "\<exists>rest. c_in demo_state = c_out demo_state @ rest \<and> length rest \<le> unat (r_capacity demo_shared)"
  using demo_state_facts(1) demo_shared_fresh by (rule cring_fifo)

text \<open>
  C17. In every reachable state every thread can take its step: no thread ever reads
  or writes outside the object table or its own table.
\<close>

theorem cring_no_fault:
  assumes "cring_reach r0 s" "fresh_ring r0" "not_lapped s"
  shows "thread_step s t \<noteq> None"
  using thread_step_inv [OF reach_inv [OF assms(1,2)] assms(3), of t] by auto

theorem cring_no_fault_witness: "thread_step demo_state 1 \<noteq> None"
  using demo_state_facts(1) demo_shared_fresh demo_state_facts(2) by (rule cring_no_fault)

text \<open>
  C16. The wait for preceding operations cannot deadlock: whenever a thread waits for
  the tail, some thread of the same side that holds claimed objects has a step that changes the
  state.
\<close>

theorem cring_progress:
  assumes "cring_reach r0 s" "fresh_ring r0" "not_lapped s" "t_pc (c_thr s t) = Wait"
  shows "\<exists>u s'. t_side (c_thr s u) = t_side (c_thr s t) \<and> t_pc (c_thr s u) \<in> {Copy, Wait, Store} \<and>
    thread_step s u = Some s' \<and> s' \<noteq> s"
proof -
  have inv: "cring_inv s" using assms(1,2) by (rule reach_inv)
  have "in_flight (t_side (c_thr s t)) (c_thr s t)" using assms(4) by (simp add: in_flight_def)
  with inv obtain u where u: "in_flight (t_side (c_thr s t)) (c_thr s u)"
    "t_gh (c_thr s u) = tail_count (t_side (c_thr s t)) s" by (rule some_in_turn)
  obtain s' where "thread_step s u = Some s'" "s' \<noteq> s"
    using in_turn_progress [OF inv assms(3) u] by blast
  then show ?thesis using u(1) by (auto simp: in_flight_def)
qed

theorem cring_progress_witness:
  "\<exists>u s'. t_side (c_thr demo_state u) = t_side (c_thr demo_state 0) \<and>
    t_pc (c_thr demo_state u) \<in> {Copy, Wait, Store} \<and>
    thread_step demo_state u = Some s' \<and> s' \<noteq> demo_state"
  using demo_state_facts(1) demo_shared_fresh demo_state_facts(2,4) by (rule cring_progress)

text \<open>
  C18. When no operation is in progress the shared ring is a well-formed ring of the
  sequential model, whose contents are the objects enqueued and not yet dequeued.
\<close>

theorem cring_quiescent:
  assumes "cring_reach r0 s" "fresh_ring r0" "\<And>t. t_pc (c_thr s t) = Idle"
  shows "ring_inv (c_ring s) \<and> c_in s = c_out s @ ring_contents (c_ring s)"
  using quiescent [OF reach_inv [OF assms(1,2)] assms(3)] by simp

definition demo_end :: "nat cstate" where
  "demo_end = the (run_schedule demo_state [0, 0, 1, 1])"

theorem cring_quiescent_witness:
  "ring_inv (c_ring demo_end) \<and> c_in demo_end = c_out demo_end @ ring_contents (c_ring demo_end) \<and>
   c_in demo_end = [5]"
proof -
  have run: "run_schedule demo_state [0, 0, 1, 1] = Some demo_end"
    unfolding demo_end_def demo_state_def by (simp add: demo_eval)
  have reach: "cring_reach demo_shared demo_end"
    using run demo_state_facts(1) by (rule run_schedule_reach)
  have idle: "t_pc (c_thr demo_end t) = Idle" for t
    unfolding demo_end_def demo_state_def by (simp add: demo_eval)
  have "c_in demo_end = [5]" unfolding demo_end_def demo_state_def by (simp add: demo_eval)
  then show ?thesis using cring_quiescent [OF reach demo_shared_fresh idle] by blast
qed

end
