(* ===== verification/Lock.thy ===== *)
theory Lock
  imports Prelude
begin

text \<open>
  Reachable states of a system of interleaved threads, and the interface of a mutual-exclusion
  lock: what the components that take a lock around their critical sections rely on.
\<close>

section \<open>Reachable states\<close>

inductive reachable :: "('s \<Rightarrow> bool) \<Rightarrow> (nat \<Rightarrow> 's \<Rightarrow> 's \<Rightarrow> bool) \<Rightarrow> 's \<Rightarrow> bool" for init step where
  initial: "init s \<Longrightarrow> reachable init step s"
| next_step: "\<lbrakk>reachable init step s; step t s s'\<rbrakk> \<Longrightarrow> reachable init step s'"

lemma reachable_invariant:
  assumes "reachable init step s" and "\<And>s. init s \<Longrightarrow> P s"
    and "\<And>t s s'. \<lbrakk>reachable init step s; P s; step t s s'\<rbrakk> \<Longrightarrow> P s'"
  shows "P s"
  using assms(1) by induction (auto intro: assms(2,3))

section \<open>The lock interface\<close>

text \<open>
  \<open>holds s t\<close>: thread \<open>t\<close> is between the return of its lock operation and its unlock
  operation. A step of one thread does not change what another holds.
\<close>

locale mutex =
  fixes init :: "'s \<Rightarrow> bool"
    and step :: "nat \<Rightarrow> 's \<Rightarrow> 's \<Rightarrow> bool"
    and holds :: "'s \<Rightarrow> nat \<Rightarrow> bool"
  assumes exclusive: "\<lbrakk>reachable init step s; holds s t; holds s u\<rbrakk> \<Longrightarrow> t = u"
    and frame: "\<lbrakk>step t s s'; u \<noteq> t\<rbrakk> \<Longrightarrow> holds s' u = holds s u"
begin

text \<open>
  Data guarded by the lock: a thread writes it only while it holds the lock. The steps of the
  client are steps of the lock or writes of the holder.
\<close>

inductive client_step :: "nat \<Rightarrow> 's \<times> 'd \<Rightarrow> 's \<times> 'd \<Rightarrow> bool" where
  lock_step: "step t s s' \<Longrightarrow> client_step t (s, d) (s', d)"
| holder_write: "holds s t \<Longrightarrow> client_step t (s, d) (s, d')"

inductive_cases client_stepE: "client_step t (s, d) (s', d')"

inductive others_run :: "nat \<Rightarrow> 's \<times> 'd \<Rightarrow> 's \<times> 'd \<Rightarrow> bool" for t where
  stay: "others_run t x x"
| other: "\<lbrakk>others_run t x y; client_step u y z; u \<noteq> t\<rbrakk> \<Longrightarrow> others_run t x z"

lemma others_keep:
  assumes "others_run t x y" "reachable init step (fst x)" "holds (fst x) t"
  shows "reachable init step (fst y) \<and> holds (fst y) t \<and> snd y = snd x"
  using assms
proof (induction rule: others_run.induct)
  case (other x y u z)
  then have y: "reachable init step (fst y)" "holds (fst y) t" "snd y = snd x" by simp_all
  obtain s d s' d' where yz: "y = (s, d)" "z = (s', d')" by (metis surj_pair)
  from other.hyps(2) consider "step u s s'" "d' = d" | "holds s u" "s' = s"
    unfolding yz by (elim client_stepE) auto
  then show ?case
  proof cases
    case 1
    then show ?thesis using y frame [of u s s' t] other.hyps(3)
      by (auto simp: yz intro: reachable.next_step)
  next
    case 2
    then have "u = t" using exclusive y yz by fastforce
    then show ?thesis using other.hyps(3) by simp
  qed
qed simp

text \<open>Atomicity: while a thread holds the lock, whatever the others do leaves the data alone.\<close>

lemma guarded_data:
  assumes "reachable init step s" "holds s t" "others_run t (s, d) (s', d')"
  shows "d' = d \<and> holds s' t"
  using others_keep [OF assms(3)] assms(1,2) by simp

end

end
