(* ===== verification/Spinlock.thy ===== *)
theory Spinlock
  imports Atomic Lock
begin

text \<open>
  Spinlocks: \<^verbatim>\<open>generic/rte_spinlock.h\<close> and \<^verbatim>\<open>arch/x86/rte_spinlock.h\<close>, with the hardware
  transaction primitives of \<^verbatim>\<open>rte_rtm.h\<close> as parameters. The operations are first given as run by
  one thread (\<open>None\<close>: it spins forever), then \<^verbatim>\<open>rte_spinlock_lock\<close> as interleaved steps of any
  number of threads.
\<close>

section \<open>Operations\<close>

record rte_spinlock =
  sl_locked :: u32

definition rte_spinlock_init :: "rte_spinlock \<Rightarrow> rte_spinlock" where
  "rte_spinlock_init sl = sl\<lparr>sl_locked := 0\<rparr>"

text \<open>\<^verbatim>\<open>xchg\<close>: the new memory operand and the new register.\<close>

definition x86_xchg :: "u32 \<Rightarrow> u32 \<Rightarrow> u32 \<times> u32" where
  "x86_xchg mem reg = (reg, mem)"

text \<open>The inner loop at label 2 of the x86 code waits until the lock looks free.\<close>

partial_function (option) spin_until_free :: "rte_spinlock \<Rightarrow> unit option" where
  "spin_until_free sl = (if sl_locked sl \<noteq> 0 then spin_until_free sl else Some ())"

partial_function (option) rte_spinlock_lock :: "rte_spinlock \<Rightarrow> rte_spinlock option" where
  "rte_spinlock_lock sl =
     (let (locked, lv) = x86_xchg (sl_locked sl) 1; sl = sl\<lparr>sl_locked := locked\<rparr>
      in if lv = 0 then Some sl
         else do { _ \<leftarrow> spin_until_free sl; rte_spinlock_lock sl })"

declare spin_until_free.simps [code] rte_spinlock_lock.simps [code]

definition rte_spinlock_unlock :: "rte_spinlock \<Rightarrow> rte_spinlock" where
  "rte_spinlock_unlock sl = (let (locked, ulv) = x86_xchg (sl_locked sl) 0 in sl\<lparr>sl_locked := locked\<rparr>)"

definition rte_spinlock_trylock :: "rte_spinlock \<Rightarrow> rte_spinlock \<times> bool" where
  "rte_spinlock_trylock sl =
     (let (locked, lockval) = x86_xchg (sl_locked sl) 1 in (sl\<lparr>sl_locked := locked\<rparr>, lockval = 0))"

definition rte_spinlock_is_locked :: "rte_spinlock \<Rightarrow> u32" where
  "rte_spinlock_is_locked sl = sl_locked sl"

text \<open>The versions for \<^verbatim>\<open>RTE_FORCE_INTRINSICS\<close>.\<close>

definition sync_lock_test_and_set :: "u32 \<Rightarrow> u32 \<Rightarrow> u32 \<times> u32" where
  "sync_lock_test_and_set mem v = (v, mem)"

partial_function (option) rte_spinlock_lock_intrin :: "rte_spinlock \<Rightarrow> rte_spinlock option" where
  "rte_spinlock_lock_intrin sl =
     (let (locked, old) = sync_lock_test_and_set (sl_locked sl) 1; sl = sl\<lparr>sl_locked := locked\<rparr>
      in if old \<noteq> 0 then do { _ \<leftarrow> spin_until_free sl; rte_spinlock_lock_intrin sl } else Some sl)"

declare rte_spinlock_lock_intrin.simps [code]

definition rte_spinlock_unlock_intrin :: "rte_spinlock \<Rightarrow> rte_spinlock" where
  "rte_spinlock_unlock_intrin sl = sl\<lparr>sl_locked := 0\<rparr>"

definition rte_spinlock_trylock_intrin :: "rte_spinlock \<Rightarrow> rte_spinlock \<times> bool" where
  "rte_spinlock_trylock_intrin sl =
     (let (locked, old) = sync_lock_test_and_set (sl_locked sl) 1 in (sl\<lparr>sl_locked := locked\<rparr>, old = 0))"

section \<open>Recursive spinlocks\<close>

text \<open>
  \<^verbatim>\<open>count\<close> is a \<^verbatim>\<open>volatile int\<close>, kept here as its 32 bits: beyond \<open>2\<^sup>3\<^sup>1 - 1\<close> nested locks the increment
  of the source overflows, which the compilers it is built with turn into wrap-around.
\<close>

record rte_spinlock_recursive =
  slr_sl :: rte_spinlock
  slr_user :: u32
  slr_count :: u32

definition rte_spinlock_recursive_init :: "rte_spinlock_recursive \<Rightarrow> rte_spinlock_recursive" where
  "rte_spinlock_recursive_init slr =
     slr\<lparr>slr_sl := rte_spinlock_init (slr_sl slr), slr_user := -1, slr_count := 0\<rparr>"

text \<open>\<open>tid\<close> is the value of \<^verbatim>\<open>rte_gettid()\<close> in the calling thread.\<close>

definition rte_spinlock_recursive_lock ::
    "u32 \<Rightarrow> rte_spinlock_recursive \<Rightarrow> rte_spinlock_recursive option" where
  "rte_spinlock_recursive_lock tid slr = do {
     slr \<leftarrow> (if slr_user slr \<noteq> tid then do {
                sl \<leftarrow> rte_spinlock_lock (slr_sl slr);
                Some (slr\<lparr>slr_sl := sl, slr_user := tid\<rparr>)
              } else Some slr);
     Some (slr\<lparr>slr_count := slr_count slr + 1\<rparr>)
   }"

definition rte_spinlock_recursive_unlock :: "rte_spinlock_recursive \<Rightarrow> rte_spinlock_recursive" where
  "rte_spinlock_recursive_unlock slr =
     (let slr = slr\<lparr>slr_count := slr_count slr - 1\<rparr>
      in if slr_count slr = 0
         then slr\<lparr>slr_user := -1, slr_sl := rte_spinlock_unlock (slr_sl slr)\<rparr>
         else slr)"

definition rte_spinlock_recursive_trylock ::
    "u32 \<Rightarrow> rte_spinlock_recursive \<Rightarrow> rte_spinlock_recursive \<times> bool" where
  "rte_spinlock_recursive_trylock tid slr =
     (let taken = (\<lambda>slr. (slr\<lparr>slr_count := slr_count slr + 1\<rparr>, True))
      in if slr_user slr \<noteq> tid then
           (let (sl, ok) = rte_spinlock_trylock (slr_sl slr); slr = slr\<lparr>slr_sl := sl\<rparr>
            in if \<not> ok then (slr, False) else taken (slr\<lparr>slr_user := tid\<rparr>))
         else taken slr)"

section \<open>Lock elision\<close>

text \<open>
  The hardware is a parameter: \<open>xbegin i\<close> is the status \<^verbatim>\<open>rte_xbegin()\<close> returns at the \<open>i\<close>-th
  attempt, all ones when a transaction has started. \<^verbatim>\<open>rte_xabort(code)\<close> rolls back to the begin
  instruction, which then returns the explicit-abort status with the code in its top byte.
\<close>

definition RTE_XBEGIN_STARTED :: u32 where "RTE_XBEGIN_STARTED = 0xffffffff"
definition RTE_XABORT_EXPLICIT :: u32 where "RTE_XABORT_EXPLICIT = 1"
definition RTE_XABORT_RETRY :: u32 where "RTE_XABORT_RETRY = 2"
definition RTE_XABORT_CODE :: "u32 \<Rightarrow> u32" where "RTE_XABORT_CODE x = drop_bit 24 x AND 0xff"
definition RTE_RTM_MAX_RETRIES :: nat where "RTE_RTM_MAX_RETRIES = 10"
definition RTE_XABORT_LOCK_BUSY :: u32 where "RTE_XABORT_LOCK_BUSY = 0xff"

definition rte_xabort_status :: "u32 \<Rightarrow> u32" where
  "rte_xabort_status code = push_bit 24 code OR RTE_XABORT_EXPLICIT"

text \<open>
  Other threads take and release the lock meanwhile: \<open>lk k\<close> is the lock word that the \<open>k\<close>-th load
  of it by this call returns. The results say whether a transaction is open and how many loads were
  made. In \<^verbatim>\<open>rte_try_tm\<close> the load behind a started transaction is \<^verbatim>\<open>*lock\<close> in the test of the lock, all
  others are those of the wait \<^verbatim>\<open>while (*lock) rte_pause();\<close>.
\<close>

partial_function (option) wait_unlocked :: "(nat \<Rightarrow> u32) \<Rightarrow> nat \<Rightarrow> nat option" where
  "wait_unlocked lk k = (if lk k \<noteq> 0 then wait_unlocked lk (k + 1) else Some (k + 1))"

declare wait_unlocked.simps [code]

fun rte_try_tm_loop :: "(nat \<Rightarrow> u32) \<Rightarrow> (nat \<Rightarrow> u32) \<Rightarrow> nat \<Rightarrow> nat \<Rightarrow> (bool \<times> nat) option" where
  "rte_try_tm_loop xbegin lk k 0 = Some (False, k)"
| "rte_try_tm_loop xbegin lk k (Suc retries) =
     (let status = xbegin retries
      in if status = RTE_XBEGIN_STARTED \<and> lk k = 0 then Some (True, k + 1)
         else let (status, k) = (if status = RTE_XBEGIN_STARTED
                                 then (rte_xabort_status RTE_XABORT_LOCK_BUSY, k + 1) else (status, k))
              in do {
                k \<leftarrow> wait_unlocked lk k;
                if status AND RTE_XABORT_EXPLICIT \<noteq> 0 \<and> RTE_XABORT_CODE status = RTE_XABORT_LOCK_BUSY
                then rte_try_tm_loop xbegin lk k retries
                else if status AND RTE_XABORT_RETRY = 0 then Some (False, k)
                else rte_try_tm_loop xbegin lk k retries
              })"

definition rte_try_tm :: "bool \<Rightarrow> (nat \<Rightarrow> u32) \<Rightarrow> (nat \<Rightarrow> u32) \<Rightarrow> (bool \<times> nat) option" where
  "rte_try_tm rtm_supported xbegin lk =
     (if \<not> rtm_supported then Some (False, 0) else rte_try_tm_loop xbegin lk 0 RTE_RTM_MAX_RETRIES)"

text \<open>
  The operations as run by one thread alone, for which every load of the lock word returns the
  same value. \<open>True\<close>: a transaction is open; \<open>False\<close>: the lock itself was taken.
\<close>

definition try_tm_alone :: "bool \<Rightarrow> (nat \<Rightarrow> u32) \<Rightarrow> u32 \<Rightarrow> bool option" where
  "try_tm_alone rtm xbegin w = map_option fst (rte_try_tm rtm xbegin (\<lambda>_. w))"

definition rte_spinlock_lock_tm ::
    "bool \<Rightarrow> (nat \<Rightarrow> u32) \<Rightarrow> rte_spinlock \<Rightarrow> (rte_spinlock \<times> bool) option" where
  "rte_spinlock_lock_tm rtm xbegin sl = do {
     tm \<leftarrow> try_tm_alone rtm xbegin (sl_locked sl);
     if tm then Some (sl, True) else do { sl \<leftarrow> rte_spinlock_lock sl; Some (sl, False) }
   }"

definition rte_spinlock_trylock_tm ::
    "bool \<Rightarrow> (nat \<Rightarrow> u32) \<Rightarrow> rte_spinlock \<Rightarrow> (rte_spinlock \<times> bool) option" where
  "rte_spinlock_trylock_tm rtm xbegin sl = do {
     tm \<leftarrow> try_tm_alone rtm xbegin (sl_locked sl);
     if tm then Some (sl, True) else Some (rte_spinlock_trylock sl)
   }"

text \<open>The second component: the transaction was committed by \<^verbatim>\<open>rte_xend()\<close>.\<close>

definition rte_spinlock_unlock_tm :: "rte_spinlock \<Rightarrow> rte_spinlock \<times> bool" where
  "rte_spinlock_unlock_tm sl =
     (if sl_locked sl \<noteq> 0 then (rte_spinlock_unlock sl, False) else (sl, True))"

definition rte_spinlock_recursive_lock_tm ::
    "bool \<Rightarrow> (nat \<Rightarrow> u32) \<Rightarrow> u32 \<Rightarrow> rte_spinlock_recursive \<Rightarrow> (rte_spinlock_recursive \<times> bool) option" where
  "rte_spinlock_recursive_lock_tm rtm xbegin tid slr = do {
     tm \<leftarrow> try_tm_alone rtm xbegin (sl_locked (slr_sl slr));
     if tm then Some (slr, True)
     else do { slr \<leftarrow> rte_spinlock_recursive_lock tid slr; Some (slr, False) }
   }"

definition rte_spinlock_recursive_unlock_tm ::
    "rte_spinlock_recursive \<Rightarrow> rte_spinlock_recursive \<times> bool" where
  "rte_spinlock_recursive_unlock_tm slr =
     (if sl_locked (slr_sl slr) \<noteq> 0 then (rte_spinlock_recursive_unlock slr, False) else (slr, True))"

definition rte_spinlock_recursive_trylock_tm ::
    "bool \<Rightarrow> (nat \<Rightarrow> u32) \<Rightarrow> u32 \<Rightarrow> rte_spinlock_recursive \<Rightarrow> (rte_spinlock_recursive \<times> bool) option" where
  "rte_spinlock_recursive_trylock_tm rtm xbegin tid slr = do {
     tm \<leftarrow> try_tm_alone rtm xbegin (sl_locked (slr_sl slr));
     if tm then Some (slr, True) else Some (rte_spinlock_recursive_trylock tid slr)
   }"

section \<open>Operations run by one thread\<close>

lemma spin_until_free_eq: "sl_locked sl = 0 \<Longrightarrow> spin_until_free sl = Some ()"
  by (simp add: spin_until_free.simps)

lemma spinlock_lock_free: "sl_locked sl = 0 \<Longrightarrow> rte_spinlock_lock sl = Some (sl\<lparr>sl_locked := 1\<rparr>)"
  by (subst rte_spinlock_lock.simps) (simp add: x86_xchg_def Let_def)

lemma spinlock_lock_intrin_free:
  "sl_locked sl = 0 \<Longrightarrow> rte_spinlock_lock_intrin sl = Some (sl\<lparr>sl_locked := 1\<rparr>)"
  by (subst rte_spinlock_lock_intrin.simps) (simp add: sync_lock_test_and_set_def Let_def)

text \<open>A lock held by somebody else is never taken: the call spins as long as nobody unlocks.\<close>

lemma spin_until_free_done: "spin_until_free sl = Some u \<Longrightarrow> sl_locked sl = 0"
  by (erule spin_until_free.raw_induct [rotated]) (auto split: if_splits)

lemma spin_until_free_diverges: "sl_locked sl \<noteq> 0 \<Longrightarrow> spin_until_free sl = None"
  using spin_until_free_done by (cases "spin_until_free sl") auto

lemma spinlock_lock_held: "sl_locked sl \<noteq> 0 \<Longrightarrow> rte_spinlock_lock sl = None"
  by (subst rte_spinlock_lock.simps) (simp add: x86_xchg_def Let_def spin_until_free_diverges)

section \<open>Interleaved threads\<close>

text \<open>
  The points of a thread between accesses to the lock word: outside, before the exchange at
  label 1, in the wait at label 2, and holding the lock. \<^verbatim>\<open>rte_spinlock_trylock\<close> is one exchange.
\<close>

datatype sl_pc = SL_Out | SL_Xchg | SL_Spin | SL_In

record sl_state =
  ss_lock :: rte_spinlock
  ss_pc :: "nat \<Rightarrow> sl_pc"

definition sl_goto :: "nat \<Rightarrow> sl_pc \<Rightarrow> sl_state \<Rightarrow> sl_state" where
  "sl_goto t pc s = s\<lparr>ss_pc := (ss_pc s)(t := pc)\<rparr>"

definition sl_xchg_step :: "nat \<Rightarrow> sl_pc \<Rightarrow> sl_state \<Rightarrow> sl_state" where
  "sl_xchg_step t on_fail s =
     (let (locked, lv) = x86_xchg (sl_locked (ss_lock s)) 1;
          s = s\<lparr>ss_lock := (ss_lock s)\<lparr>sl_locked := locked\<rparr>\<rparr>
      in sl_goto t (if lv = 0 then SL_In else on_fail) s)"

inductive sl_step :: "nat \<Rightarrow> sl_state \<Rightarrow> sl_state \<Rightarrow> bool" where
  lock_call: "ss_pc s t = SL_Out \<Longrightarrow> sl_step t s (sl_goto t SL_Xchg s)"
| lock_xchg: "ss_pc s t = SL_Xchg \<Longrightarrow> sl_step t s (sl_xchg_step t SL_Spin s)"
| lock_spin: "ss_pc s t = SL_Spin \<Longrightarrow>
    sl_step t s (if sl_locked (ss_lock s) \<noteq> 0 then s else sl_goto t SL_Xchg s)"
| trylock: "ss_pc s t = SL_Out \<Longrightarrow> sl_step t s (sl_xchg_step t SL_Out s)"
| unlock: "ss_pc s t = SL_In \<Longrightarrow>
    sl_step t s (sl_goto t SL_Out (s\<lparr>ss_lock := rte_spinlock_unlock (ss_lock s)\<rparr>))"

inductive_cases sl_stepE: "sl_step t s s'"

definition sl_init :: "sl_state \<Rightarrow> bool" where
  "sl_init s \<longleftrightarrow> ss_lock s = rte_spinlock_init (ss_lock s) \<and> (\<forall>t. ss_pc s t = SL_Out)"

definition sl_holds :: "sl_state \<Rightarrow> nat \<Rightarrow> bool" where
  "sl_holds s t \<longleftrightarrow> ss_pc s t = SL_In"

text \<open>The lock word is 1 exactly while some thread holds the lock, and at most one does.\<close>

definition sl_inv :: "sl_state \<Rightarrow> bool" where
  "sl_inv s \<longleftrightarrow> sl_locked (ss_lock s) = (if \<exists>t. sl_holds s t then 1 else 0) \<and>
     (\<forall>t u. sl_holds s t \<and> sl_holds s u \<longrightarrow> t = u)"

lemma sl_xchg_step_eq:
  "sl_xchg_step t pc s =
     sl_goto t (if sl_locked (ss_lock s) = 0 then SL_In else pc) (s\<lparr>ss_lock := (ss_lock s)\<lparr>sl_locked := 1\<rparr>\<rparr>)"
  by (simp add: sl_xchg_step_def x86_xchg_def Let_def)

lemma sl_inv_xchg:
  assumes inv: "sl_inv s" and t: "\<not> sl_holds s t" and pc: "pc \<noteq> SL_In"
  shows "sl_inv (sl_xchg_step t pc s)"
proof (cases "\<exists>u. sl_holds s u")
  case True
  then have "sl_locked (ss_lock s) = 1" using inv by (simp add: sl_inv_def)
  then show ?thesis using inv t pc True
    by (auto simp: sl_xchg_step_eq sl_inv_def sl_holds_def sl_goto_def split: if_splits)
next
  case False
  then have "sl_locked (ss_lock s) = 0" using inv by (simp add: sl_inv_def)
  then show ?thesis using False
    by (auto simp: sl_xchg_step_eq sl_inv_def sl_holds_def sl_goto_def split: if_splits)
qed

lemma sl_inv_goto:
  assumes "sl_inv s" "ss_pc s t \<noteq> SL_In" "pc \<noteq> SL_In"
  shows "sl_inv (sl_goto t pc s)"
proof -
  have "sl_holds (sl_goto t pc s) = sl_holds s"
    using assms(2,3) by (auto simp: sl_holds_def sl_goto_def fun_eq_iff)
  then show ?thesis using assms(1) by (simp add: sl_inv_def sl_goto_def)
qed

lemma sl_step_inv:
  assumes inv: "sl_inv s" and step: "sl_step t s s'"
  shows "sl_inv s'"
  using step
proof cases
  case unlock
  have "\<not> sl_holds s u" if "u \<noteq> t" for u
    using inv unlock(2) that by (auto simp: sl_inv_def sl_holds_def)
  then show ?thesis unfolding unlock(1)
    by (auto simp: sl_inv_def sl_holds_def sl_goto_def rte_spinlock_unlock_def x86_xchg_def
        split: if_splits)
qed (use inv in \<open>auto simp: sl_inv_xchg sl_inv_goto sl_holds_def\<close>)

lemma sl_reachable_inv:
  assumes "reachable sl_init sl_step s"
  shows "sl_inv s"
  using assms
proof (rule reachable_invariant)
  show "sl_inv s" if "sl_init s" for s
  proof -
    have "sl_locked (ss_lock s) = 0"
      using that by (metis rte_spinlock.ext_inject rte_spinlock.surjective rte_spinlock.update_convs(1)
          rte_spinlock_init_def sl_init_def)
    then show ?thesis using that by (simp add: sl_inv_def sl_init_def sl_holds_def)
  qed
qed (rule sl_step_inv)

interpretation spinlock: mutex sl_init sl_step sl_holds
proof
  show "t = u" if "reachable sl_init sl_step s" "sl_holds s t" "sl_holds s u" for s t u
    using sl_reachable_inv [OF that(1)] that(2,3) by (simp add: sl_inv_def)
  show "sl_holds s' u = sl_holds s u" if "sl_step t s s'" "u \<noteq> t" for t s s' u
    using that
    by (auto simp: sl_holds_def sl_goto_def sl_xchg_step_eq elim!: sl_stepE split: if_splits)
qed

section \<open>Properties of the spinlock\<close>

definition demo_locked :: sl_state where
  "demo_locked = \<lparr>ss_lock = \<lparr>sl_locked = 1\<rparr>, ss_pc = (\<lambda>_. SL_Out)(0 := SL_In)\<rparr>"

lemma demo_locked_reachable: "reachable sl_init sl_step demo_locked"
proof -
  let ?s = "\<lparr>ss_lock = \<lparr>sl_locked = 0\<rparr>, ss_pc = \<lambda>_. SL_Out\<rparr>"
  have "reachable sl_init sl_step ?s"
    by (rule reachable.initial) (simp add: sl_init_def rte_spinlock_init_def)
  moreover have "sl_step 0 ?s (sl_xchg_step 0 SL_Out ?s)" by (rule sl_step.trylock) simp
  moreover have "sl_xchg_step 0 SL_Out ?s = demo_locked"
    by (simp add: sl_xchg_step_eq sl_goto_def demo_locked_def)
  ultimately show ?thesis using reachable.next_step by metis
qed

text \<open>
  C14. In every interleaving of threads that take a spinlock with
  \<^verbatim>\<open>rte_spinlock_lock\<close> or \<^verbatim>\<open>rte_spinlock_trylock\<close>, at most one thread is between lock and unlock, and
  \<^verbatim>\<open>rte_spinlock_is_locked\<close> is nonzero exactly when one is.
\<close>

theorem spinlock_mutual_exclusion:
  assumes "reachable sl_init sl_step s"
  shows "(\<forall>t u. sl_holds s t \<and> sl_holds s u \<longrightarrow> t = u) \<and>
    (rte_spinlock_is_locked (ss_lock s) \<noteq> 0 \<longleftrightarrow> (\<exists>t. sl_holds s t))"
  using sl_reachable_inv [OF assms] by (auto simp: sl_inv_def rte_spinlock_is_locked_def)

theorem spinlock_mutual_exclusion_witness:
  "rte_spinlock_is_locked (ss_lock demo_locked) = 1 \<and> (\<exists>!t. sl_holds demo_locked t)"
proof -
  have l: "rte_spinlock_is_locked (ss_lock demo_locked) = 1"
    by (simp add: rte_spinlock_is_locked_def demo_locked_def)
  have "(\<forall>t u. sl_holds demo_locked t \<and> sl_holds demo_locked u \<longrightarrow> t = u) \<and>
      (rte_spinlock_is_locked (ss_lock demo_locked) \<noteq> 0 \<longleftrightarrow> (\<exists>t. sl_holds demo_locked t))"
    using demo_locked_reachable by (rule spinlock_mutual_exclusion)
  with l show ?thesis by auto
qed

text \<open>
  C25. A thread may take a recursive spinlock any number of times below
  \<open>2\<^sup>3\<^sup>2\<close>: while it has unlocked fewer times than it has locked, the lock stays taken by it and a
  \<^verbatim>\<open>trylock\<close> of another thread fails and changes nothing but the exchanged lock word, which keeps
  its value; after as many unlocks the lock is in its initial state.
\<close>

definition recursive_lock_n :: "u32 \<Rightarrow> nat \<Rightarrow> rte_spinlock_recursive \<Rightarrow> rte_spinlock_recursive option" where
  "recursive_lock_n tid n slr =
     ((\<lambda>x. x \<bind> rte_spinlock_recursive_lock tid) ^^ n) (Some slr)"

definition slr_free :: rte_spinlock_recursive where
  "slr_free = \<lparr>slr_sl = \<lparr>sl_locked = 0\<rparr>, slr_user = -1, slr_count = 0\<rparr>"

definition slr_held :: "u32 \<Rightarrow> nat \<Rightarrow> rte_spinlock_recursive" where
  "slr_held tid n = \<lparr>slr_sl = \<lparr>sl_locked = 1\<rparr>, slr_user = tid, slr_count = of_nat n\<rparr>"

lemma recursive_lock_held: "rte_spinlock_recursive_lock tid (slr_held tid n) = Some (slr_held tid (Suc n))"
  by (simp add: rte_spinlock_recursive_lock_def slr_held_def add.commute)

lemma recursive_lock_free:
  "tid \<noteq> -1 \<Longrightarrow> rte_spinlock_recursive_lock tid slr_free = Some (slr_held tid 1)"
  by (simp add: rte_spinlock_recursive_lock_def slr_free_def slr_held_def spinlock_lock_free)

lemma recursive_lock_n_eq:
  "tid \<noteq> -1 \<Longrightarrow> recursive_lock_n tid (Suc n) slr_free = Some (slr_held tid (Suc n))"
  by (induction n) (simp_all add: recursive_lock_n_def recursive_lock_free recursive_lock_held)

lemma recursive_unlock_held:
  assumes "Suc n < 2 ^ 32"
  shows "rte_spinlock_recursive_unlock (slr_held tid (Suc n)) =
    (if n = 0 then slr_free else slr_held tid n)"
proof -
  have "(of_nat n :: u32) = 0 \<longleftrightarrow> n = 0"
    using assms unat_of_nat_small [of n, where 'a = 32] by (auto simp flip: unat_eq_0)
  then show ?thesis
    by (auto simp: rte_spinlock_recursive_unlock_def slr_held_def slr_free_def
        rte_spinlock_unlock_def x86_xchg_def)
qed

lemma recursive_unlock_m:
  assumes "n < 2 ^ 32" "m < n"
  shows "(rte_spinlock_recursive_unlock ^^ m) (slr_held tid n) = slr_held tid (n - m)"
  using assms(2)
proof (induction m)
  case (Suc m)
  have "Suc (n - Suc m) = n - m" using Suc.prems by simp
  then show ?case
    using Suc recursive_unlock_held [of "n - Suc m" tid] assms(1) by simp
qed simp

theorem recursive_lock_nesting:
  assumes "tid \<noteq> -1" "other \<noteq> tid" "0 < n" "n < 2 ^ 32"
  shows "\<exists>s. recursive_lock_n tid n slr_free = Some s \<and>
    (\<forall>m < n. let s' = (rte_spinlock_recursive_unlock ^^ m) s in
       slr_user s' = tid \<and> rte_spinlock_is_locked (slr_sl s') = 1 \<and>
       rte_spinlock_recursive_trylock other s' = (s', False)) \<and>
    (rte_spinlock_recursive_unlock ^^ n) s = slr_free"
proof -
  obtain n' where n': "n = Suc n'" using assms(3) by (cases n) auto
  have lock: "recursive_lock_n tid n slr_free = Some (slr_held tid n)"
    unfolding n' using assms(1) by (rule recursive_lock_n_eq)
  have held: "slr_user (slr_held tid k) = tid \<and> rte_spinlock_is_locked (slr_sl (slr_held tid k)) = 1 \<and>
      rte_spinlock_recursive_trylock other (slr_held tid k) = (slr_held tid k, False)" for k
    using assms(2) by (simp add: slr_held_def rte_spinlock_is_locked_def
        rte_spinlock_recursive_trylock_def rte_spinlock_trylock_def x86_xchg_def Let_def)
  have "(rte_spinlock_recursive_unlock ^^ n) (slr_held tid n) = slr_free"
    using recursive_unlock_m [of n n' tid] recursive_unlock_held [of 0 tid] assms(4) n' by simp
  then show ?thesis
    using lock held recursive_unlock_m [OF assms(4)] by (auto simp: Let_def)
qed

theorem recursive_lock_nesting_witness:
  "\<exists>s. recursive_lock_n 7 2 slr_free = Some s \<and>
    (\<forall>m < 2. let s' = (rte_spinlock_recursive_unlock ^^ m) s in
       slr_user s' = 7 \<and> rte_spinlock_is_locked (slr_sl s') = 1 \<and>
       rte_spinlock_recursive_trylock 8 s' = (s', False)) \<and>
    (rte_spinlock_recursive_unlock ^^ 2) s = slr_free"
  by (rule recursive_lock_nesting) simp_all

section \<open>Lock elision\<close>

text \<open>
  What \<^verbatim>\<open>rte_try_tm\<close> is to do, said without its loop. An attempt that leaves no transaction open is
  followed by another if the transaction had started, and so was aborted because the lock was
  busy, or if the status says busy (explicit abort, code 255) or asks for a retry. The attempts are
  counted down from \<open>n - 1\<close>; \<open>i\<close> can be the last one if all before it were of this kind.
\<close>

definition tm_retried :: "u32 \<Rightarrow> bool" where
  "tm_retried status \<longleftrightarrow>
     status = 0xffffffff \<or> bit status 0 \<and> unat status div 2 ^ 24 = 255 \<or> bit status 1"

definition tm_last :: "nat \<Rightarrow> (nat \<Rightarrow> u32) \<Rightarrow> nat \<Rightarrow> bool" where
  "tm_last n xbegin i \<longleftrightarrow> i < n \<and> (\<forall>j. i < j \<and> j < n \<longrightarrow> tm_retried (xbegin j))"

definition released_often :: "(nat \<Rightarrow> u32) \<Rightarrow> bool" where
  "released_often lk \<longleftrightarrow> (\<forall>k. \<exists>m \<ge> k. lk m = 0)"

text \<open>The outcomes: elided at an attempt that had started, given up, or all attempts used.\<close>

definition tm_outcome :: "nat \<Rightarrow> (nat \<Rightarrow> u32) \<Rightarrow> bool \<Rightarrow> bool" where
  "tm_outcome n xbegin b \<longleftrightarrow>
     (if b then \<exists>i. tm_last n xbegin i \<and> xbegin i = 0xffffffff
      else (\<forall>j < n. tm_retried (xbegin j)) \<or> (\<exists>i. tm_last n xbegin i \<and> \<not> tm_retried (xbegin i)))"

lemma tm_last_Suc:
  "tm_last (Suc n) xbegin i \<longleftrightarrow> i = n \<or> tm_last n xbegin i \<and> tm_retried (xbegin n)"
  by (auto simp: tm_last_def less_Suc_eq)

lemma tm_outcome_Suc: "\<lbrakk>tm_outcome n xbegin b; tm_retried (xbegin n)\<rbrakk> \<Longrightarrow> tm_outcome (Suc n) xbegin b"
  by (auto simp: tm_outcome_def tm_last_Suc less_Suc_eq split: if_splits)

lemma tm_outcome_stop:
  "xbegin n = 0xffffffff \<Longrightarrow> tm_outcome (Suc n) xbegin True"
  "\<not> tm_retried (xbegin n) \<Longrightarrow> tm_outcome (Suc n) xbegin False"
  by (auto simp: tm_outcome_def tm_last_Suc)

lemma wait_unlocked_ends:
  assumes "lk m = 0" "k \<le> m"
  shows "\<exists>k' > k. wait_unlocked lk k = Some k' \<and> lk (k' - 1) = 0"
  using assms(2)
proof (induction "m - k" arbitrary: k)
  case 0
  then show ?case using assms(1) by (intro exI [of _ "Suc k"]) (simp add: wait_unlocked.simps)
next
  case (Suc d)
  then have "d = m - Suc k" "Suc k \<le> m" by simp_all
  then obtain k' where "k' > Suc k" "wait_unlocked lk (Suc k) = Some k'" "lk (k' - 1) = 0"
    using Suc.hyps(1) by blast
  then show ?case
    by (cases "lk k = 0") (auto simp: wait_unlocked.simps [of lk k] intro: exI [of _ k'])
qed

lemma wait_unlocked_held: "(\<And>k. lk k \<noteq> 0) \<Longrightarrow> wait_unlocked lk k = None"
proof (cases "wait_unlocked lk k")
  case (Some k')
  then have "\<exists>m. lk m = 0" by (rule wait_unlocked.raw_induct [rotated]) (auto split: if_splits)
  then show "(\<And>k. lk k \<noteq> 0) \<Longrightarrow> wait_unlocked lk k = None" by auto
qed

text \<open>How the code decodes the status.\<close>

lemma status_busy: "rte_xabort_status RTE_XABORT_LOCK_BUSY = 0xff000001"
  by (simp add: rte_xabort_status_def RTE_XABORT_LOCK_BUSY_def RTE_XABORT_EXPLICIT_def)

lemma status_code: "RTE_XABORT_CODE x = 0xff \<longleftrightarrow> unat x div 2 ^ 24 = 255"
proof -
  have m: "(0xff :: u32) = mask 8" by (simp add: mask_eq_decr_exp)
  have "unat x div 2 ^ 24 < 2 ^ 8" using unat_lt_pow [of x] by (simp add: less_mult_imp_div_less)
  then have "unat (RTE_XABORT_CODE x) = unat x div 2 ^ 24"
    unfolding RTE_XABORT_CODE_def m unat_and_mask drop_bit_eq_div by (simp add: unat_div_distrib)
  then show ?thesis by (simp add: word_unat_eq_iff)
qed

lemma status_retried:
  "x \<noteq> RTE_XBEGIN_STARTED \<Longrightarrow>
   (x AND RTE_XABORT_EXPLICIT \<noteq> 0 \<and> RTE_XABORT_CODE x = RTE_XABORT_LOCK_BUSY) \<or> x AND RTE_XABORT_RETRY \<noteq> 0 \<longleftrightarrow>
   tm_retried x"
proof -
  have "(1 :: u32) = 2 ^ 0" "(2 :: u32) = 2 ^ 1" by simp_all
  then have "x AND 1 \<noteq> 0 \<longleftrightarrow> bit x 0" "x AND 2 \<noteq> 0 \<longleftrightarrow> bit x 1"
    by (metis and_exp_eq_0_iff_not_bit)+
  then show "x \<noteq> RTE_XBEGIN_STARTED \<Longrightarrow> ?thesis"
    by (simp add: tm_retried_def status_code RTE_XABORT_EXPLICIT_def RTE_XABORT_RETRY_def
        RTE_XABORT_LOCK_BUSY_def RTE_XBEGIN_STARTED_def)
qed

lemma try_tm_loop_spec:
  assumes "released_often lk"
  shows "\<exists>b k'. rte_try_tm_loop xbegin lk k n = Some (b, k') \<and> tm_outcome n xbegin b \<and>
    (n \<noteq> 0 \<longrightarrow> k < k' \<and> lk (k' - 1) = 0)"
proof (induction n arbitrary: k)
  case 0
  then show ?case by (intro exI [of _ False] exI [of _ k]) (simp add: tm_outcome_def)
next
  case (Suc n)
  let ?st = "xbegin n = RTE_XBEGIN_STARTED"
  show ?case
  proof (cases "?st \<and> lk k = 0")
    case True
    then show ?thesis using tm_outcome_stop(1) [of xbegin n]
      by (intro exI [of _ True] exI [of _ "Suc k"]) (simp add: RTE_XBEGIN_STARTED_def)
  next
    case False
    define k1 where "k1 = (if ?st then k + 1 else k)"
    obtain m where "k1 \<le> m" "lk m = 0" using assms by (auto simp: released_often_def)
    then obtain k2 where k2: "k1 < k2" "wait_unlocked lk k1 = Some k2" "lk (k2 - 1) = 0"
      using wait_unlocked_ends by blast
    have kk: "k < k2" using k2(1) by (simp add: k1_def split: if_splits)
    show ?thesis
    proof (cases "tm_retried (xbegin n)")
      case True
      obtain b k' where r: "rte_try_tm_loop xbegin lk k2 n = Some (b, k')" "tm_outcome n xbegin b"
        "n \<noteq> 0 \<longrightarrow> k2 < k' \<and> lk (k' - 1) = 0" using Suc.IH by blast
      have "rte_try_tm_loop xbegin lk k (Suc n) = Some (b, k')"
        using False True k2(2) r(1) status_retried [of "xbegin n"] status_busy
        by (auto simp: k1_def Let_def status_code RTE_XABORT_EXPLICIT_def RTE_XABORT_LOCK_BUSY_def)
      moreover have "k < k' \<and> lk (k' - 1) = 0" using r kk k2(3) by (cases n) auto
      ultimately show ?thesis using tm_outcome_Suc [OF r(2) True] by blast
    next
      case nr: False
      then have "\<not> ?st" by (simp add: tm_retried_def RTE_XBEGIN_STARTED_def)
      then have "rte_try_tm_loop xbegin lk k (Suc n) = Some (False, k2)"
        using nr k2(2) status_retried [of "xbegin n"] by (auto simp: k1_def Let_def)
      then show ?thesis using tm_outcome_stop(2) [of xbegin n, OF nr] kk k2(3) by blast
    qed
  qed
qed

text \<open>With the lock never busy the outcome is determined by the hardware.\<close>

lemma try_tm_loop_free:
  "\<exists>k'. rte_try_tm_loop xbegin (\<lambda>_. 0) k n =
     Some ((\<exists>i. tm_last n xbegin i \<and> xbegin i = RTE_XBEGIN_STARTED), k')"
proof (induction n arbitrary: k)
  case 0
  then show ?case by (simp add: tm_last_def)
next
  case (Suc n)
  have w: "wait_unlocked (\<lambda>_. 0) k = Some (k + 1)" by (simp add: wait_unlocked.simps)
  show ?case
  proof (cases "xbegin n = RTE_XBEGIN_STARTED")
    case True
    then show ?thesis by (auto simp: tm_last_Suc)
  next
    case False
    then show ?thesis using w Suc.IH [of "k + 1"] status_retried [OF False]
      by (auto simp: tm_last_Suc Let_def)
  qed
qed

lemma try_tm_loop_held:
  "(\<And>k. lk k \<noteq> 0) \<Longrightarrow> rte_try_tm_loop xbegin lk k (Suc n) = None"
  by (simp add: Let_def wait_unlocked_held)

lemma try_tm_alone_eq:
  "try_tm_alone rtm xbegin w =
     (if rtm \<and> w \<noteq> 0 then None
      else Some (rtm \<and> (\<exists>i. tm_last 10 xbegin i \<and> xbegin i = RTE_XBEGIN_STARTED)))"
  using try_tm_loop_held [of "\<lambda>_. w" xbegin 0 9] try_tm_loop_free [of xbegin 0 10]
  by (auto simp: try_tm_alone_def rte_try_tm_def RTE_RTM_MAX_RETRIES_def simp del: rte_try_tm_loop.simps)


text \<open>
  The first attempt finds the lock busy and waits for two loads, the second is told to retry, the
  third elides.
\<close>

definition demo_xbegin :: "nat \<Rightarrow> u32" where
  "demo_xbegin i = (if i = 8 then RTE_XABORT_RETRY else RTE_XBEGIN_STARTED)"

definition demo_lk :: "nat \<Rightarrow> u32" where
  "demo_lk k = (if k < 2 then 1 else 0)"

lemma demo_lk_released: "released_often demo_lk"
  unfolding released_often_def demo_lk_def by (metis less_imp_le_nat not_less order_refl)


end
