(* ===== verification/Rwlock.thy ===== *)
theory Rwlock
  imports Spinlock
begin

text \<open>
  Read-write locks: \<^verbatim>\<open>generic/rte_rwlock.h\<close> and the lock-elision versions of
  \<^verbatim>\<open>arch/x86/rte_rwlock.h\<close>. The counter is a 32-bit signed integer: \<open>-1\<close> while a writer holds the
  lock, otherwise the number of readers. As for spinlocks, the operations are given for one thread
  and as interleaved steps of many.
\<close>

section \<open>Operations\<close>

record rte_rwlock =
  rw_cnt :: u32

definition rte_rwlock_init :: "rte_rwlock \<Rightarrow> rte_rwlock" where
  "rte_rwlock_init rwl = rwl\<lparr>rw_cnt := 0\<rparr>"

partial_function (option) rte_rwlock_read_lock :: "rte_rwlock \<Rightarrow> rte_rwlock option" where
  "rte_rwlock_read_lock rwl =
     (let x = rw_cnt rwl
      in if x <s 0 then rte_rwlock_read_lock rwl
         else let (cnt, success) = rte_atomic32_cmpset (rw_cnt rwl) x (x + 1); rwl = rwl\<lparr>rw_cnt := cnt\<rparr>
              in if success then Some rwl else rte_rwlock_read_lock rwl)"

declare rte_rwlock_read_lock.simps [code]

definition rte_rwlock_read_unlock :: "rte_rwlock \<Rightarrow> rte_rwlock" where
  "rte_rwlock_read_unlock rwl = rwl\<lparr>rw_cnt := rte_atomic32_dec (rw_cnt rwl)\<rparr>"

partial_function (option) rte_rwlock_write_lock :: "rte_rwlock \<Rightarrow> rte_rwlock option" where
  "rte_rwlock_write_lock rwl =
     (let x = rw_cnt rwl
      in if x \<noteq> 0 then rte_rwlock_write_lock rwl
         else let (cnt, success) = rte_atomic32_cmpset (rw_cnt rwl) 0 (- 1); rwl = rwl\<lparr>rw_cnt := cnt\<rparr>
              in if success then Some rwl else rte_rwlock_write_lock rwl)"

declare rte_rwlock_write_lock.simps [code]

definition rte_rwlock_write_unlock :: "rte_rwlock \<Rightarrow> rte_rwlock" where
  "rte_rwlock_write_unlock rwl = rwl\<lparr>rw_cnt := rte_atomic32_inc (rw_cnt rwl)\<rparr>"

text \<open>Lock elision: \<^verbatim>\<open>rte_try_tm\<close> is run on the counter, which it reads as the lock word.\<close>

definition rte_rwlock_read_lock_tm ::
    "bool \<Rightarrow> (nat \<Rightarrow> u32) \<Rightarrow> rte_rwlock \<Rightarrow> (rte_rwlock \<times> bool) option" where
  "rte_rwlock_read_lock_tm rtm xbegin rwl = do {
     tm \<leftarrow> try_tm_alone rtm xbegin (rw_cnt rwl);
     if tm then Some (rwl, True) else do { rwl \<leftarrow> rte_rwlock_read_lock rwl; Some (rwl, False) }
   }"

definition rte_rwlock_read_unlock_tm :: "rte_rwlock \<Rightarrow> rte_rwlock \<times> bool" where
  "rte_rwlock_read_unlock_tm rwl =
     (if rw_cnt rwl \<noteq> 0 then (rte_rwlock_read_unlock rwl, False) else (rwl, True))"

definition rte_rwlock_write_lock_tm ::
    "bool \<Rightarrow> (nat \<Rightarrow> u32) \<Rightarrow> rte_rwlock \<Rightarrow> (rte_rwlock \<times> bool) option" where
  "rte_rwlock_write_lock_tm rtm xbegin rwl = do {
     tm \<leftarrow> try_tm_alone rtm xbegin (rw_cnt rwl);
     if tm then Some (rwl, True) else do { rwl \<leftarrow> rte_rwlock_write_lock rwl; Some (rwl, False) }
   }"

definition rte_rwlock_write_unlock_tm :: "rte_rwlock \<Rightarrow> rte_rwlock \<times> bool" where
  "rte_rwlock_write_unlock_tm rwl =
     (if rw_cnt rwl \<noteq> 0 then (rte_rwlock_write_unlock rwl, False) else (rwl, True))"

section \<open>Interleaved threads\<close>

text \<open>\<open>RW_RCas x\<close>: the reader has loaded \<open>x\<close>, which was not negative, and is about to exchange it.\<close>

datatype rw_pc = RW_Out | RW_RLoad | RW_RCas u32 | RW_Read | RW_WLoad | RW_WCas | RW_Write

record rw_state =
  rs_lock :: rte_rwlock
  rs_pc :: "nat \<Rightarrow> rw_pc"

definition rw_goto :: "nat \<Rightarrow> rw_pc \<Rightarrow> rw_state \<Rightarrow> rw_state" where
  "rw_goto t pc s = s\<lparr>rs_pc := (rs_pc s)(t := pc)\<rparr>"

definition rw_cas :: "nat \<Rightarrow> u32 \<Rightarrow> u32 \<Rightarrow> rw_pc \<Rightarrow> rw_pc \<Rightarrow> rw_state \<Rightarrow> rw_state" where
  "rw_cas t old new ok_pc fail_pc s =
     (let (cnt, success) = rte_atomic32_cmpset (rw_cnt (rs_lock s)) old new
      in rw_goto t (if success then ok_pc else fail_pc) (s\<lparr>rs_lock := (rs_lock s)\<lparr>rw_cnt := cnt\<rparr>\<rparr>))"

text \<open>\<open>n\<close> threads, numbered below \<open>n\<close>.\<close>

inductive rw_step :: "nat \<Rightarrow> nat \<Rightarrow> rw_state \<Rightarrow> rw_state \<Rightarrow> bool" for n where
  read_call: "\<lbrakk>t < n; rs_pc s t = RW_Out\<rbrakk> \<Longrightarrow> rw_step n t s (rw_goto t RW_RLoad s)"
| read_load: "rs_pc s t = RW_RLoad \<Longrightarrow>
    rw_step n t s (if rw_cnt (rs_lock s) <s 0 then s else rw_goto t (RW_RCas (rw_cnt (rs_lock s))) s)"
| read_cas: "rs_pc s t = RW_RCas x \<Longrightarrow> rw_step n t s (rw_cas t x (x + 1) RW_Read RW_RLoad s)"
| read_unlock: "rs_pc s t = RW_Read \<Longrightarrow>
    rw_step n t s (rw_goto t RW_Out (s\<lparr>rs_lock := rte_rwlock_read_unlock (rs_lock s)\<rparr>))"
| write_call: "\<lbrakk>t < n; rs_pc s t = RW_Out\<rbrakk> \<Longrightarrow> rw_step n t s (rw_goto t RW_WLoad s)"
| write_load: "rs_pc s t = RW_WLoad \<Longrightarrow>
    rw_step n t s (if rw_cnt (rs_lock s) \<noteq> 0 then s else rw_goto t RW_WCas s)"
| write_cas: "rs_pc s t = RW_WCas \<Longrightarrow> rw_step n t s (rw_cas t 0 (- 1) RW_Write RW_WLoad s)"
| write_unlock: "rs_pc s t = RW_Write \<Longrightarrow>
    rw_step n t s (rw_goto t RW_Out (s\<lparr>rs_lock := rte_rwlock_write_unlock (rs_lock s)\<rparr>))"

inductive_cases rw_stepE: "rw_step n t s s'"

definition rw_init :: "rw_state \<Rightarrow> bool" where
  "rw_init s \<longleftrightarrow> rw_cnt (rs_lock s) = 0 \<and> (\<forall>t. rs_pc s t = RW_Out)"

definition readers :: "rw_state \<Rightarrow> nat set" where "readers s = {t. rs_pc s t = RW_Read}"
definition writers :: "rw_state \<Rightarrow> nat set" where "writers s = {t. rs_pc s t = RW_Write}"

definition rw_inv :: "nat \<Rightarrow> rw_state \<Rightarrow> bool" where
  "rw_inv n s \<longleftrightarrow> (\<forall>t. rs_pc s t \<noteq> RW_Out \<longrightarrow> t < n) \<and>
     (\<forall>t x. rs_pc s t = RW_RCas x \<longrightarrow> \<not> x <s 0) \<and>
     (if writers s = {} then rw_cnt (rs_lock s) = of_nat (card (readers s))
      else is_singleton (writers s) \<and> readers s = {} \<and> rw_cnt (rs_lock s) = -1)"

lemma minus_one_negative: "(- 1 :: u32) <s 0"
  by (simp add: word_sless_alt)

lemma rw_sets_goto:
  "readers (rw_goto t pc s) = (if pc = RW_Read then insert t (readers s) else readers s - {t})"
  "writers (rw_goto t pc s) = (if pc = RW_Write then insert t (writers s) else writers s - {t})"
  by (auto simp: readers_def writers_def rw_goto_def)

lemma rw_sets_lock [simp]:
  "readers (s\<lparr>rs_lock := l\<rparr>) = readers s" "writers (s\<lparr>rs_lock := l\<rparr>) = writers s"
  by (simp_all add: readers_def writers_def)

text \<open>The parts of the invariant about program counters and about the counter.\<close>

definition rw_pcs_ok :: "nat \<Rightarrow> rw_state \<Rightarrow> bool" where
  "rw_pcs_ok n s \<longleftrightarrow> (\<forall>t. rs_pc s t \<noteq> RW_Out \<longrightarrow> t < n) \<and>
     (\<forall>t x. rs_pc s t = RW_RCas x \<longrightarrow> \<not> x <s 0)"

definition rw_count_ok :: "u32 \<Rightarrow> nat set \<Rightarrow> nat set \<Rightarrow> bool" where
  "rw_count_ok cnt R W \<longleftrightarrow> (if W = {} then cnt = of_nat (card R)
     else is_singleton W \<and> R = {} \<and> cnt = -1)"

lemma rw_inv_alt:
  "rw_inv n s \<longleftrightarrow> rw_pcs_ok n s \<and> rw_count_ok (rw_cnt (rs_lock s)) (readers s) (writers s)"
  by (simp add: rw_inv_def rw_pcs_ok_def rw_count_ok_def)

lemma rw_pcs_ok_goto:
  "\<lbrakk>rw_pcs_ok n s; pc \<noteq> RW_Out \<longrightarrow> t < n; \<And>x. pc = RW_RCas x \<Longrightarrow> \<not> x <s 0\<rbrakk> \<Longrightarrow>
   rw_pcs_ok n (rw_goto t pc s)"
  by (auto simp: rw_pcs_ok_def rw_goto_def)

lemma rw_readers_finite:
  assumes "rw_pcs_ok n s"
  shows "finite (readers s)" "card (readers s) \<le> n"
proof -
  have sub: "readers s \<subseteq> {..<n}" using assms by (fastforce simp: readers_def rw_pcs_ok_def)
  then show "finite (readers s)" by (rule finite_subset) simp
  show "card (readers s) \<le> n" using card_mono [OF _ sub] by simp
qed

text \<open>A thread that moves between points outside its critical section changes neither set.\<close>

lemma rw_inv_goto:
  assumes inv: "rw_inv n s" and pc: "pc \<noteq> RW_Read" "pc \<noteq> RW_Write" "pc \<noteq> RW_Out \<longrightarrow> t < n"
      "\<And>x. pc = RW_RCas x \<Longrightarrow> \<not> x <s 0"
    and t: "rs_pc s t \<noteq> RW_Read" "rs_pc s t \<noteq> RW_Write"
  shows "rw_inv n (rw_goto t pc s)"
proof -
  have "readers (rw_goto t pc s) = readers s" "writers (rw_goto t pc s) = writers s"
    using pc(1,2) t by (auto simp: readers_def writers_def rw_goto_def)
  moreover have "rw_pcs_ok n (rw_goto t pc s)"
    using inv pc(3,4) by (intro rw_pcs_ok_goto) (auto simp: rw_inv_alt)
  moreover have "rs_lock (rw_goto t pc s) = rs_lock s" by (simp add: rw_goto_def)
  ultimately show ?thesis using inv by (simp add: rw_inv_alt)
qed

lemma rw_cas_eq:
  "rw_cas t old new ok_pc fail_pc s =
     (if rw_cnt (rs_lock s) = old then rw_goto t ok_pc (s\<lparr>rs_lock := (rs_lock s)\<lparr>rw_cnt := new\<rparr>\<rparr>)
      else rw_goto t fail_pc s)"
  by (simp add: rw_cas_def rte_atomic32_cmpset_eq)

lemma rw_inv_locked:
  assumes "rw_pcs_ok n s" "pc \<noteq> RW_Out \<longrightarrow> t < n" "\<And>x. pc \<noteq> RW_RCas x"
    and "rw_count_ok cnt (if pc = RW_Read then insert t (readers s) else readers s - {t})
      (if pc = RW_Write then insert t (writers s) else writers s - {t})"
  shows "rw_inv n (rw_goto t pc (s\<lparr>rs_lock := (rs_lock s)\<lparr>rw_cnt := cnt\<rparr>\<rparr>))"
proof -
  have "rw_pcs_ok n (s\<lparr>rs_lock := (rs_lock s)\<lparr>rw_cnt := cnt\<rparr>\<rparr>)"
    using assms(1) by (simp add: rw_pcs_ok_def)
  then have "rw_pcs_ok n (rw_goto t pc (s\<lparr>rs_lock := (rs_lock s)\<lparr>rw_cnt := cnt\<rparr>\<rparr>))"
    using assms(2,3) by (intro rw_pcs_ok_goto) auto
  moreover have "rw_cnt (rs_lock (rw_goto t pc (s\<lparr>rs_lock := (rs_lock s)\<lparr>rw_cnt := cnt\<rparr>\<rparr>))) = cnt"
    by (simp add: rw_goto_def)
  ultimately show ?thesis unfolding rw_inv_alt rw_sets_goto rw_sets_lock using assms(4) by (simp only:)
qed

lemma rw_step_inv:
  assumes inv: "rw_inv n s" and step: "rw_step n t s s'" and n: "n < 2 ^ 32"
  shows "rw_inv n s'"
proof -
  have pcs: "rw_pcs_ok n s" and cnt: "rw_count_ok (rw_cnt (rs_lock s)) (readers s) (writers s)"
    using inv by (simp_all add: rw_inv_alt)
  note fin = rw_readers_finite [OF pcs]
  have tn: "rs_pc s t \<noteq> RW_Out \<Longrightarrow> t < n" using pcs by (simp add: rw_pcs_ok_def)
  from step show ?thesis
  proof cases
    case (read_cas x)
    show ?thesis
    proof (cases "rw_cnt (rs_lock s) = x")
      case True
      have "\<not> x <s 0" using pcs read_cas by (simp add: rw_pcs_ok_def)
      then have "x \<noteq> - 1" using minus_one_negative by auto
      then have w: "writers s = {}" "x = of_nat (card (readers s))"
        using cnt True by (auto simp: rw_count_ok_def split: if_splits)
      have "t \<notin> readers s" using read_cas by (simp add: readers_def)
      then have "rw_count_ok (x + 1) (insert t (readers s)) (writers s - {t})"
        using w fin by (simp add: rw_count_ok_def add.commute)
      then show ?thesis using True read_cas tn pcs by (auto simp: rw_cas_eq intro!: rw_inv_locked)
    next
      case False
      then show ?thesis using read_cas tn inv by (auto simp: rw_cas_eq intro!: rw_inv_goto)
    qed
  next
    case read_unlock
    have t: "t \<in> readers s" using read_unlock by (simp add: readers_def)
    then have w: "writers s = {}" "rw_cnt (rs_lock s) = of_nat (card (readers s))"
      using cnt by (auto simp: rw_count_ok_def split: if_splits)
    have "of_nat (card (readers s)) - 1 = (of_nat (card (readers s - {t})) :: u32)"
      using card.remove [OF fin(1) t] by simp
    then have "rw_count_ok (rw_cnt (rs_lock s) - 1) (readers s - {t}) (writers s - {t})"
      using w by (simp add: rw_count_ok_def)
    then show ?thesis unfolding read_unlock(1) rte_rwlock_read_unlock_def
      using pcs by (intro rw_inv_locked) (auto simp: rte_atomic32_dec_def x86_dec_def)
  next
    case write_cas
    show ?thesis
    proof (cases "rw_cnt (rs_lock s) = 0")
      case True
      then have w: "writers s = {}" "(of_nat (card (readers s)) :: u32) = 0"
        using cnt by (auto simp: rw_count_ok_def split: if_splits)
      have "card (readers s) = unat (of_nat (card (readers s)) :: u32)"
        using fin(2) n by (intro unat_of_nat_small [symmetric]) simp
      then have "readers s = {}" using w(2) fin(1) by simp
      then have "rw_count_ok (- 1) (readers s - {t}) (insert t (writers s))"
        using w(1) by (simp add: rw_count_ok_def)
      then show ?thesis using True write_cas tn pcs by (auto simp: rw_cas_eq intro!: rw_inv_locked)
    next
      case False
      then show ?thesis using write_cas tn inv by (auto simp: rw_cas_eq intro!: rw_inv_goto)
    qed
  next
    case write_unlock
    have t: "t \<in> writers s" using write_unlock by (simp add: writers_def)
    then have "is_singleton (writers s)" "readers s = {}" "rw_cnt (rs_lock s) = -1"
      using cnt by (auto simp: rw_count_ok_def split: if_splits)
    then have "rw_count_ok (rw_cnt (rs_lock s) + 1) (readers s - {t}) (writers s - {t})"
      using t by (auto simp: rw_count_ok_def is_singleton_def)
    then show ?thesis unfolding write_unlock(1) rte_rwlock_write_unlock_def
      using pcs by (intro rw_inv_locked) (auto simp: rte_atomic32_inc_def x86_inc_def)
  qed (use inv tn in \<open>auto intro!: rw_inv_goto\<close>)
qed

lemma rw_reachable_inv:
  assumes "reachable rw_init (rw_step n) s" "n < 2 ^ 32"
  shows "rw_inv n s"
  using assms(1)
proof (rule reachable_invariant)
  show "rw_inv n s" if "rw_init s" for s
    using that by (simp add: rw_init_def rw_inv_def readers_def writers_def)
  show "rw_inv n s'" if "rw_inv n s" "rw_step n t s s'" for t s s'
    using that assms(2) by (rule rw_step_inv)
qed

text \<open>A lock taken for writing only is a mutual-exclusion lock; 128 is \<^verbatim>\<open>RTE_MAX_LCORE\<close>.\<close>

interpretation rwlock: mutex rw_init "rw_step 128" "\<lambda>s t. rs_pc s t = RW_Write"
proof
  show "t = u" if "reachable rw_init (rw_step 128) s" "rs_pc s t = RW_Write" "rs_pc s u = RW_Write" for s t u
  proof -
    have "rw_inv 128 s" using that(1) by (rule rw_reachable_inv) simp
    moreover have "t \<in> writers s" "u \<in> writers s" using that(2,3) by (simp_all add: writers_def)
    ultimately show ?thesis by (auto simp: rw_inv_def is_singleton_def split: if_splits)
  qed
  show "(rs_pc s' u = RW_Write) = (rs_pc s u = RW_Write)" if "rw_step 128 t s s'" "u \<noteq> t" for t s s' u
    using that by (auto simp: rw_goto_def rw_cas_eq elim!: rw_stepE split: if_splits)
qed

section \<open>Properties of the read-write lock\<close>

definition demo_reader :: rw_state where
  "demo_reader = \<lparr>rs_lock = \<lparr>rw_cnt = 1\<rparr>, rs_pc = (\<lambda>_. RW_Out)(0 := RW_Read)\<rparr>"

lemma demo_reader_reachable: "reachable rw_init (rw_step 2) demo_reader"
proof -
  let ?s0 = "\<lparr>rs_lock = \<lparr>rw_cnt = 0\<rparr>, rs_pc = \<lambda>_. RW_Out\<rparr>"
  let ?s1 = "rw_goto 0 RW_RLoad ?s0" and ?s2 = "rw_goto 0 (RW_RCas 0) ?s0"
  have "reachable rw_init (rw_step 2) ?s0" by (rule reachable.initial) (simp add: rw_init_def)
  moreover have "rw_step 2 0 ?s0 ?s1" by (rule rw_step.read_call) simp_all
  moreover have "rw_step 2 0 ?s1 ?s2" using rw_step.read_load [of ?s1 0 2] by (simp add: rw_goto_def)
  moreover have "rw_step 2 0 ?s2 demo_reader"
    using rw_step.read_cas [of ?s2 0 0 2] by (simp add: rw_goto_def rw_cas_eq demo_reader_def)
  ultimately show ?thesis by (meson reachable.next_step)
qed

text \<open>
  C15. With fewer than \<open>2\<^sup>3\<^sup>2\<close> threads, in every interleaving of read and write lock
  operations: a writer excludes every other writer and every reader, the counter is \<open>-1\<close> exactly
  while a writer holds the lock, and otherwise it is the number of readers.
\<close>

theorem rwlock_exclusion:
  assumes "reachable rw_init (rw_step n) s" "n < 2 ^ 32"
  shows "(\<forall>t u. rs_pc s t = RW_Write \<and> rs_pc s u \<in> {RW_Read, RW_Write} \<longrightarrow> t = u) \<and>
    ((\<exists>t. rs_pc s t = RW_Write) \<longrightarrow> rw_cnt (rs_lock s) = -1) \<and>
    ((\<forall>t. rs_pc s t \<noteq> RW_Write) \<longrightarrow> unat (rw_cnt (rs_lock s)) = card {t. rs_pc s t = RW_Read})"
proof (intro conjI)
  have inv: "rw_inv n s" using assms by (rule rw_reachable_inv)
  then have "rw_pcs_ok n s" by (simp add: rw_inv_alt)
  then have "card (readers s) \<le> n" by (rule rw_readers_finite)
  then have "unat (of_nat (card (readers s)) :: u32) = card (readers s)"
    using assms(2) by (intro unat_of_nat_small) simp
  then show "(\<forall>t. rs_pc s t \<noteq> RW_Write) \<longrightarrow> unat (rw_cnt (rs_lock s)) = card {t. rs_pc s t = RW_Read}"
    using inv by (simp add: rw_inv_def writers_def readers_def)
  show "\<forall>t u. rs_pc s t = RW_Write \<and> rs_pc s u \<in> {RW_Read, RW_Write} \<longrightarrow> t = u"
  proof (intro allI impI)
    fix t u assume a: "rs_pc s t = RW_Write \<and> rs_pc s u \<in> {RW_Read, RW_Write}"
    then have t: "t \<in> writers s" and u: "u \<in> readers s \<union> writers s"
      by (auto simp: writers_def readers_def)
    then have "is_singleton (writers s)" "readers s = {}"
      using inv by (auto simp: rw_inv_def split: if_splits)
    then show "t = u" using t u by (auto simp: is_singleton_def)
  qed
  show "(\<exists>t. rs_pc s t = RW_Write) \<longrightarrow> rw_cnt (rs_lock s) = -1"
    using inv by (auto simp: rw_inv_def writers_def split: if_splits)
qed

theorem rwlock_exclusion_witness:
  "unat (rw_cnt (rs_lock demo_reader)) = card {t. rs_pc demo_reader t = RW_Read}"
  using rwlock_exclusion [OF demo_reader_reachable] by (simp add: demo_reader_def)

end
