(* ===== verification/Malloc.thy ===== *)
theory Malloc
  imports Common Spinlock
begin

text \<open>
  The memory allocator: \<^verbatim>\<open>common/malloc_elem.h\<close>, \<^verbatim>\<open>malloc_elem.c\<close>, \<^verbatim>\<open>malloc_heap.h\<close>,
  \<^verbatim>\<open>malloc_heap.c\<close> and \<^verbatim>\<open>rte_malloc.c\<close>, in the configuration without \<^verbatim>\<open>RTE_MALLOC_DEBUG\<close>. This theory
  holds the model; its correctness is proved in \<open>Malloc_Chain\<close> and \<open>Malloc_Correct\<close>.

  Memory is shared by element headers and data. \<open>m_hdr\<close> gives the header stored at an address,
  \<open>m_byte\<close> the byte there, \<open>None\<close> where a header lies (its bytes are not specified). Writing a header
  makes the bytes it covers unspecified; \<^verbatim>\<open>memset\<close> to zero makes them 0 and erases the headers
  in its range. Pointers are 64-bit words, \<^verbatim>\<open>NULL\<close> is 0. The links of a free list are
  modelled by the list of the addresses of its elements.
\<close>

section \<open>Data\<close>

datatype elem_state = ELEM_FREE | ELEM_BUSY | ELEM_PAD

text \<open>\<open>me_heap\<close> and \<open>me_ms\<close> are the indices of the heap and of the memory segment pointed to.\<close>

record malloc_elem =
  me_heap :: nat
  me_prev :: u64
  me_ms :: nat
  me_state :: elem_state
  me_pad :: u32
  me_size :: u64

record malloc_heap =
  mh_lock :: rte_spinlock
  mh_free_head :: "nat \<Rightarrow> u64 list"
  mh_alloc_count :: u32
  mh_total_size :: u64

record rte_memseg =
  ms_phys_addr :: u64
  ms_addr :: u64
  ms_len :: u64
  ms_hugepage_sz :: u64
  ms_socket_id :: int
  ms_nchannel :: u32
  ms_nrank :: u32

record mem =
  m_hdr :: "u64 \<Rightarrow> malloc_elem"
  m_byte :: "u64 \<Rightarrow> u8 option"
  m_heap :: "nat \<Rightarrow> malloc_heap"
  m_seg :: "nat \<Rightarrow> rte_memseg"

definition MALLOC_ELEM_TRAILER_LEN :: u64 where "MALLOC_ELEM_TRAILER_LEN = 0"
definition MALLOC_ELEM_HEADER_LEN :: u64 where "MALLOC_ELEM_HEADER_LEN = 64"
definition MALLOC_ELEM_OVERHEAD :: u64 where
  "MALLOC_ELEM_OVERHEAD = MALLOC_ELEM_HEADER_LEN + MALLOC_ELEM_TRAILER_LEN"
definition MIN_DATA_SIZE :: u64 where "MIN_DATA_SIZE = RTE_CACHE_LINE_SIZE"
definition RTE_HEAP_NUM_FREELISTS :: nat where "RTE_HEAP_NUM_FREELISTS = 13"

section \<open>Memory primitives\<close>

definition zero_elem :: malloc_elem where
  "zero_elem = \<lparr>me_heap = 0, me_prev = 0, me_ms = 0, me_state = ELEM_FREE, me_pad = 0, me_size = 0\<rparr>"

definition write_hdr :: "u64 \<Rightarrow> malloc_elem \<Rightarrow> mem \<Rightarrow> mem" where
  "write_hdr p e m = m\<lparr>m_hdr := (m_hdr m)(p := e),
     m_byte := (\<lambda>x. if x - p < MALLOC_ELEM_HEADER_LEN then None else m_byte m x)\<rparr>"

definition upd_hdr :: "u64 \<Rightarrow> (malloc_elem \<Rightarrow> malloc_elem) \<Rightarrow> mem \<Rightarrow> mem" where
  "upd_hdr p f m = write_hdr p (f (m_hdr m p)) m"

definition memset_zero :: "u64 \<Rightarrow> u64 \<Rightarrow> mem \<Rightarrow> mem" where
  "memset_zero p sz m = m\<lparr>m_hdr := (\<lambda>x. if x - p < sz then zero_elem else m_hdr m x),
     m_byte := (\<lambda>x. if x - p < sz then Some 0 else m_byte m x)\<rparr>"

definition rte_memcpy_mem :: "u64 \<Rightarrow> u64 \<Rightarrow> u64 \<Rightarrow> mem \<Rightarrow> mem" where
  "rte_memcpy_mem dst src n m =
     m\<lparr>m_byte := (\<lambda>x. if x - dst < n then m_byte m (src + (x - dst)) else m_byte m x)\<rparr>"

definition upd_heap :: "nat \<Rightarrow> (malloc_heap \<Rightarrow> malloc_heap) \<Rightarrow> mem \<Rightarrow> mem" where
  "upd_heap h f m = m\<lparr>m_heap := (m_heap m)(h := f (m_heap m h))\<rparr>"

definition heap_lock :: "nat \<Rightarrow> mem \<Rightarrow> mem option" where
  "heap_lock h m = do {
     sl \<leftarrow> rte_spinlock_lock (mh_lock (m_heap m h));
     Some (upd_heap h (\<lambda>hp. hp\<lparr>mh_lock := sl\<rparr>) m)
   }"

definition heap_unlock :: "nat \<Rightarrow> mem \<Rightarrow> mem" where
  "heap_unlock h m = upd_heap h (\<lambda>hp. hp\<lparr>mh_lock := rte_spinlock_unlock (mh_lock hp)\<rparr>) m"

section \<open>Elements\<close>

definition malloc_elem_cookies_ok :: "u64 \<Rightarrow> bool" where
  "malloc_elem_cookies_ok elem = (elem \<noteq> 0)"

definition set_header :: "u64 \<Rightarrow> mem \<Rightarrow> mem" where "set_header elem m = m"
definition set_trailer :: "u64 \<Rightarrow> mem \<Rightarrow> mem" where "set_trailer elem m = m"

definition malloc_elem_from_data :: "u64 \<Rightarrow> mem \<Rightarrow> u64" where
  "malloc_elem_from_data data m =
     (if data = 0 then 0
      else let elem = RTE_PTR_SUB data MALLOC_ELEM_HEADER_LEN
           in if \<not> malloc_elem_cookies_ok elem then 0
              else if me_state (m_hdr m elem) \<noteq> ELEM_PAD then elem
              else RTE_PTR_SUB elem (ucast (me_pad (m_hdr m elem))))"

definition malloc_elem_init :: "u64 \<Rightarrow> nat \<Rightarrow> nat \<Rightarrow> u64 \<Rightarrow> mem \<Rightarrow> mem" where
  "malloc_elem_init elem heap ms sz m =
     set_trailer elem (set_header elem (write_hdr elem
       \<lparr>me_heap = heap, me_prev = 0, me_ms = ms, me_state = ELEM_FREE, me_pad = 0, me_size = sz\<rparr> m))"

definition malloc_elem_mkend :: "u64 \<Rightarrow> u64 \<Rightarrow> mem \<Rightarrow> mem" where
  "malloc_elem_mkend elem prev m =
     (let m = malloc_elem_init elem (me_heap (m_hdr m prev)) (me_ms (m_hdr m prev)) 0 m
      in upd_hdr elem (\<lambda>e. e\<lparr>me_prev := prev, me_state := ELEM_BUSY\<rparr>) m)"

definition elem_start_pt :: "u64 \<Rightarrow> u64 \<Rightarrow> u32 \<Rightarrow> u64 \<Rightarrow> mem \<Rightarrow> u64" where
  "elem_start_pt elem sz align bound m =
     (let bmask = NOT (bound - 1);
          end_pt = elem + me_size (m_hdr m elem) - MALLOC_ELEM_TRAILER_LEN;
          new_data_start = RTE_ALIGN_FLOOR (end_pt - sz) align;
          finish = (\<lambda>new_data_start.
            let new_elem_start = new_data_start - MALLOC_ELEM_HEADER_LEN
            in if new_elem_start < elem then 0 else new_elem_start)
      in if new_data_start AND bmask \<noteq> (end_pt - 1) AND bmask then
           let end_pt = RTE_ALIGN_FLOOR end_pt bound;
               new_data_start = RTE_ALIGN_FLOOR (end_pt - sz) align;
               end_pt = new_data_start + sz
           in if (end_pt - 1) AND bmask \<noteq> new_data_start AND bmask then 0
              else finish new_data_start
         else finish new_data_start)"

definition malloc_elem_can_hold :: "u64 \<Rightarrow> u64 \<Rightarrow> u32 \<Rightarrow> u64 \<Rightarrow> mem \<Rightarrow> bool" where
  "malloc_elem_can_hold elem sz align bound m = (elem_start_pt elem sz align bound m \<noteq> 0)"

definition split_elem :: "u64 \<Rightarrow> u64 \<Rightarrow> mem \<Rightarrow> mem" where
  "split_elem elem split_pt m =
     (let next_elem = RTE_PTR_ADD elem (me_size (m_hdr m elem));
          old_elem_size = split_pt - elem;
          new_elem_size = me_size (m_hdr m elem) - old_elem_size;
          m = malloc_elem_init split_pt (me_heap (m_hdr m elem)) (me_ms (m_hdr m elem)) new_elem_size m;
          m = upd_hdr split_pt (\<lambda>e. e\<lparr>me_prev := elem\<rparr>) m;
          m = upd_hdr next_elem (\<lambda>e. e\<lparr>me_prev := split_pt\<rparr>) m;
          m = upd_hdr elem (\<lambda>e. e\<lparr>me_size := old_elem_size\<rparr>) m
      in set_trailer elem m)"

text \<open>\<^verbatim>\<open>__builtin_clzl\<close>: the leading zero bits, undefined on 0; 64 here.\<close>

fun clz_below :: "nat \<Rightarrow> u64 \<Rightarrow> nat" where
  "clz_below 0 v = 64"
| "clz_below (Suc k) v = (if bit v k then 63 - k else clz_below k v)"

definition builtin_clzl :: "u64 \<Rightarrow> nat" where "builtin_clzl v = clz_below 64 v"

definition MALLOC_MINSIZE_LOG2 :: nat where "MALLOC_MINSIZE_LOG2 = 8"
definition MALLOC_LOG2_INCREMENT :: nat where "MALLOC_LOG2_INCREMENT = 2"

definition malloc_elem_free_list_index :: "u64 \<Rightarrow> nat" where
  "malloc_elem_free_list_index sz =
     (if sz \<le> 2 ^ MALLOC_MINSIZE_LOG2 then 0
      else let log2 = 64 - builtin_clzl (sz - 1);
               index = (log2 - MALLOC_MINSIZE_LOG2 + MALLOC_LOG2_INCREMENT - 1) div MALLOC_LOG2_INCREMENT
           in if index \<le> RTE_HEAP_NUM_FREELISTS - 1 then index else RTE_HEAP_NUM_FREELISTS - 1)"

definition malloc_elem_free_list_insert :: "u64 \<Rightarrow> mem \<Rightarrow> mem" where
  "malloc_elem_free_list_insert elem m =
     (let idx = malloc_elem_free_list_index (me_size (m_hdr m elem) - MALLOC_ELEM_HEADER_LEN);
          m = upd_hdr elem (\<lambda>e. e\<lparr>me_state := ELEM_FREE\<rparr>) m
      in upd_heap (me_heap (m_hdr m elem))
           (\<lambda>hp. hp\<lparr>mh_free_head := (mh_free_head hp)(idx := elem # mh_free_head hp idx)\<rparr>) m)"

text \<open>\<^verbatim>\<open>LIST_REMOVE\<close> unlinks the element from the list it is on.\<close>

definition elem_free_list_remove :: "u64 \<Rightarrow> mem \<Rightarrow> mem" where
  "elem_free_list_remove elem m =
     upd_heap (me_heap (m_hdr m elem))
       (\<lambda>hp. hp\<lparr>mh_free_head := (\<lambda>i. remove1 elem (mh_free_head hp i))\<rparr>) m"

definition malloc_elem_alloc :: "u64 \<Rightarrow> u64 \<Rightarrow> u32 \<Rightarrow> u64 \<Rightarrow> mem \<Rightarrow> mem \<times> u64" where
  "malloc_elem_alloc elem sz align bound m =
     (let new_elem = elem_start_pt elem sz align bound m;
          old_elem_size = new_elem - elem;
          trailer_size = me_size (m_hdr m elem) - old_elem_size - sz - MALLOC_ELEM_OVERHEAD;
          m = elem_free_list_remove elem m;
          m = (if trailer_size > MALLOC_ELEM_OVERHEAD + MIN_DATA_SIZE then
                 let new_free_elem = RTE_PTR_ADD new_elem (sz + MALLOC_ELEM_OVERHEAD)
                 in malloc_elem_free_list_insert new_free_elem (split_elem elem new_free_elem m)
               else m)
      in if old_elem_size < MALLOC_ELEM_OVERHEAD + MIN_DATA_SIZE then
           let m = upd_hdr elem (\<lambda>e. e\<lparr>me_state := ELEM_BUSY, me_pad := ucast old_elem_size\<rparr>) m;
               m = (if me_pad (m_hdr m elem) > 0 then
                      set_header new_elem (upd_hdr new_elem (\<lambda>e. e\<lparr>me_pad := me_pad (m_hdr m elem),
                        me_state := ELEM_PAD,
                        me_size := me_size (m_hdr m elem) - ucast (me_pad (m_hdr m elem))\<rparr>) m)
                    else m)
           in (m, new_elem)
         else
           let m = split_elem elem new_elem m;
               m = upd_hdr new_elem (\<lambda>e. e\<lparr>me_state := ELEM_BUSY\<rparr>) m;
               m = malloc_elem_free_list_insert elem m
           in (m, new_elem))"

definition join_elem :: "u64 \<Rightarrow> u64 \<Rightarrow> mem \<Rightarrow> mem" where
  "join_elem elem1 elem2 m =
     (let next = RTE_PTR_ADD elem2 (me_size (m_hdr m elem2));
          m = upd_hdr elem1 (\<lambda>e. e\<lparr>me_size := me_size e + me_size (m_hdr m elem2)\<rparr>) m
      in upd_hdr next (\<lambda>e. e\<lparr>me_prev := elem1\<rparr>) m)"

definition malloc_elem_free :: "u64 \<Rightarrow> mem \<Rightarrow> (mem \<times> int) option" where
  "malloc_elem_free elem m =
     (if \<not> malloc_elem_cookies_ok elem \<or> me_state (m_hdr m elem) \<noteq> ELEM_BUSY then Some (m, -1)
      else do {
        m \<leftarrow> heap_lock (me_heap (m_hdr m elem)) m;
        let sz = me_size (m_hdr m elem) - MALLOC_ELEM_HEADER_LEN - MALLOC_ELEM_TRAILER_LEN;
        let ptr = elem + MALLOC_ELEM_HEADER_LEN;
        let next = RTE_PTR_ADD elem (me_size (m_hdr m elem));
        let (m, sz) = (if me_state (m_hdr m next) = ELEM_FREE
          then (join_elem elem next (elem_free_list_remove next m),
                sz + (MALLOC_ELEM_HEADER_LEN + MALLOC_ELEM_TRAILER_LEN))
          else (m, sz));
        let prev = me_prev (m_hdr m elem);
        let (m, sz, ptr, elem) = (if prev \<noteq> 0 \<and> me_state (m_hdr m prev) = ELEM_FREE
          then (join_elem prev elem (elem_free_list_remove prev m),
                sz + (MALLOC_ELEM_HEADER_LEN + MALLOC_ELEM_TRAILER_LEN),
                ptr - (MALLOC_ELEM_HEADER_LEN + MALLOC_ELEM_TRAILER_LEN), prev)
          else (m, sz, ptr, elem));
        let m = malloc_elem_free_list_insert elem m;
        let m = upd_heap (me_heap (m_hdr m elem)) (\<lambda>hp. hp\<lparr>mh_alloc_count := mh_alloc_count hp - 1\<rparr>) m;
        let m = memset_zero ptr sz m;
        Some (heap_unlock (me_heap (m_hdr m elem)) m, 0)
      })"

definition malloc_elem_resize :: "u64 \<Rightarrow> u64 \<Rightarrow> mem \<Rightarrow> (mem \<times> int) option" where
  "malloc_elem_resize elem sz m =
     (let new_size = sz + ucast (me_pad (m_hdr m elem)) + MALLOC_ELEM_OVERHEAD
      in if me_size (m_hdr m elem) \<ge> new_size then Some (m, 0)
      else do {
        let next = RTE_PTR_ADD elem (me_size (m_hdr m elem));
        m \<leftarrow> heap_lock (me_heap (m_hdr m elem)) m;
        if me_state (m_hdr m next) \<noteq> ELEM_FREE \<or>
           me_size (m_hdr m elem) + me_size (m_hdr m next) < new_size
        then Some (heap_unlock (me_heap (m_hdr m elem)) m, -1)
        else do {
          let m = join_elem elem next (elem_free_list_remove next m);
          let m = (if me_size (m_hdr m elem) - new_size \<ge> MIN_DATA_SIZE + MALLOC_ELEM_OVERHEAD then
              let split_pt = RTE_PTR_ALIGN_CEIL (RTE_PTR_ADD elem new_size) (RTE_CACHE_LINE_SIZE :: u32)
              in malloc_elem_free_list_insert split_pt (split_elem elem split_pt m)
            else m);
          Some (heap_unlock (me_heap (m_hdr m elem)) m, 0)
        }
      })"

section \<open>Heaps\<close>

definition RTE_MEMZONE_SIZE_HINT_ONLY :: u32 where "RTE_MEMZONE_SIZE_HINT_ONLY = 0x4"
definition RTE_MEMZONE_2MB :: u32 where "RTE_MEMZONE_2MB = 0x1"
definition RTE_MEMZONE_1GB :: u32 where "RTE_MEMZONE_1GB = 0x2"
definition RTE_MEMZONE_16MB :: u32 where "RTE_MEMZONE_16MB = 0x100"
definition RTE_MEMZONE_16GB :: u32 where "RTE_MEMZONE_16GB = 0x200"
definition RTE_MEMZONE_256KB :: u32 where "RTE_MEMZONE_256KB = 0x10000"
definition RTE_MEMZONE_256MB :: u32 where "RTE_MEMZONE_256MB = 0x20000"
definition RTE_MEMZONE_512MB :: u32 where "RTE_MEMZONE_512MB = 0x40000"
definition RTE_MEMZONE_4GB :: u32 where "RTE_MEMZONE_4GB = 0x80000"

definition check_hugepage_sz :: "u32 \<Rightarrow> u64 \<Rightarrow> u32" where
  "check_hugepage_sz flags hugepage_sz =
     (if flags AND NOT RTE_MEMZONE_SIZE_HINT_ONLY = 0 then 1
      else let check_flag =
             (if hugepage_sz = 2 ^ 18 then RTE_MEMZONE_256KB
              else if hugepage_sz = 2 ^ 21 then RTE_MEMZONE_2MB
              else if hugepage_sz = 2 ^ 24 then RTE_MEMZONE_16MB
              else if hugepage_sz = 2 ^ 28 then RTE_MEMZONE_256MB
              else if hugepage_sz = 2 ^ 29 then RTE_MEMZONE_512MB
              else if hugepage_sz = 2 ^ 30 then RTE_MEMZONE_1GB
              else if hugepage_sz = 2 ^ 32 then RTE_MEMZONE_4GB
              else if hugepage_sz = 2 ^ 34 then RTE_MEMZONE_16GB
              else 0)
           in check_flag AND flags)"

definition malloc_heap_add_memseg :: "nat \<Rightarrow> nat \<Rightarrow> mem \<Rightarrow> mem" where
  "malloc_heap_add_memseg heap ms m =
     (let start_elem = ms_addr (m_seg m ms);
          end_elem = RTE_PTR_ADD (ms_addr (m_seg m ms)) (ms_len (m_seg m ms) - MALLOC_ELEM_OVERHEAD);
          end_elem = RTE_PTR_ALIGN_FLOOR end_elem (RTE_CACHE_LINE_SIZE :: u32);
          elem_size = end_elem - start_elem;
          m = malloc_elem_init start_elem heap ms elem_size m;
          m = malloc_elem_mkend end_elem start_elem m;
          m = malloc_elem_free_list_insert start_elem m
      in upd_heap heap (\<lambda>hp. hp\<lparr>mh_total_size := mh_total_size hp + elem_size\<rparr>) m)"

text \<open>
  The inner loop of \<^verbatim>\<open>find_suitable_element\<close>: the element to return at once, if any, and
  \<^verbatim>\<open>alt_elem\<close>, 0 while it is \<^verbatim>\<open>NULL\<close>.
\<close>

fun find_in_list ::
    "mem \<Rightarrow> u64 \<Rightarrow> u32 \<Rightarrow> u64 \<Rightarrow> u64 \<Rightarrow> u64 list \<Rightarrow> u64 \<Rightarrow> u64 option \<times> u64" where
  "find_in_list m sz flags align bound [] alt_elem = (None, alt_elem)"
| "find_in_list m sz flags align bound (elem # es) alt_elem =
     (if malloc_elem_can_hold elem sz (ucast align) bound m then
        if check_hugepage_sz flags (ms_hugepage_sz (m_seg m (me_ms (m_hdr m elem)))) \<noteq> 0
        then (Some elem, alt_elem)
        else find_in_list m sz flags align bound es (if alt_elem = 0 then elem else alt_elem)
      else find_in_list m sz flags align bound es alt_elem)"

fun find_in_lists ::
    "mem \<Rightarrow> nat \<Rightarrow> u64 \<Rightarrow> u32 \<Rightarrow> u64 \<Rightarrow> u64 \<Rightarrow> nat list \<Rightarrow> u64 \<Rightarrow> u64 option \<times> u64" where
  "find_in_lists m heap sz flags align bound [] alt_elem = (None, alt_elem)"
| "find_in_lists m heap sz flags align bound (idx # idxs) alt_elem =
     (case find_in_list m sz flags align bound (mh_free_head (m_heap m heap) idx) alt_elem of
        (Some elem, alt_elem) \<Rightarrow> (Some elem, alt_elem)
      | (None, alt_elem) \<Rightarrow> find_in_lists m heap sz flags align bound idxs alt_elem)"

definition find_suitable_element :: "nat \<Rightarrow> u64 \<Rightarrow> u32 \<Rightarrow> u64 \<Rightarrow> u64 \<Rightarrow> mem \<Rightarrow> u64" where
  "find_suitable_element heap sz flags align bound m =
     (case find_in_lists m heap sz flags align bound
             [malloc_elem_free_list_index sz..<RTE_HEAP_NUM_FREELISTS] 0 of
        (Some elem, _) \<Rightarrow> elem
      | (None, alt_elem) \<Rightarrow>
          if alt_elem \<noteq> 0 \<and> flags AND RTE_MEMZONE_SIZE_HINT_ONLY \<noteq> 0 then alt_elem else 0)"

definition malloc_heap_alloc ::
    "nat \<Rightarrow> u64 \<Rightarrow> u32 \<Rightarrow> u64 \<Rightarrow> u64 \<Rightarrow> mem \<Rightarrow> (mem \<times> u64) option" where
  "malloc_heap_alloc heap sz flags align bound m = do {
     let sz = RTE_CACHE_LINE_ROUNDUP sz;
     let align = RTE_CACHE_LINE_ROUNDUP align;
     m \<leftarrow> heap_lock heap m;
     let elem = find_suitable_element heap sz flags align bound m;
     let (m, elem) = (if elem \<noteq> 0 then
         let (m, elem) = malloc_elem_alloc elem sz (ucast align) bound m
         in (upd_heap heap (\<lambda>hp. hp\<lparr>mh_alloc_count := mh_alloc_count hp + 1\<rparr>) m, elem)
       else (m, elem));
     let m = heap_unlock heap m;
     Some (m, if elem = 0 then 0 else elem + MALLOC_ELEM_HEADER_LEN)
   }"

record rte_malloc_socket_stats =
  st_heap_totalsz_bytes :: u64
  st_heap_freesz_bytes :: u64
  st_greatest_free_size :: u64
  st_free_count :: u32
  st_alloc_count :: u32
  st_heap_allocsz_bytes :: u64

definition stats_add_elem :: "mem \<Rightarrow> rte_malloc_socket_stats \<Rightarrow> u64 \<Rightarrow> rte_malloc_socket_stats" where
  "stats_add_elem m st elem =
     (let sz = me_size (m_hdr m elem)
      in st\<lparr>st_free_count := st_free_count st + 1,
            st_heap_freesz_bytes := st_heap_freesz_bytes st + sz,
            st_greatest_free_size := (if sz > st_greatest_free_size st then sz else st_greatest_free_size st)\<rparr>)"

definition malloc_heap_get_stats ::
    "nat \<Rightarrow> mem \<Rightarrow> rte_malloc_socket_stats \<Rightarrow> (mem \<times> rte_malloc_socket_stats \<times> int) option" where
  "malloc_heap_get_stats heap m st = do {
     m \<leftarrow> heap_lock heap m;
     let st = st\<lparr>st_free_count := 0, st_heap_freesz_bytes := 0, st_greatest_free_size := 0\<rparr>;
     let st = foldl (stats_add_elem m) st
       (concat (map (mh_free_head (m_heap m heap)) [0..<RTE_HEAP_NUM_FREELISTS]));
     let st = st\<lparr>st_heap_totalsz_bytes := mh_total_size (m_heap m heap)\<rparr>;
     let st = st\<lparr>st_heap_allocsz_bytes := st_heap_totalsz_bytes st - st_heap_freesz_bytes st,
       st_alloc_count := mh_alloc_count (m_heap m heap)\<rparr>;
     Some (heap_unlock heap m, st, 0)
   }"

fun heap_init_loop :: "nat \<Rightarrow> nat \<Rightarrow> mem \<Rightarrow> mem" where
  "heap_init_loop 0 ms_cnt m = m"
| "heap_init_loop (Suc left) ms_cnt m =
     (if ms_len (m_seg m ms_cnt) > 0
      then heap_init_loop left (Suc ms_cnt)
        (malloc_heap_add_memseg (nat (ms_socket_id (m_seg m ms_cnt))) ms_cnt m)
      else m)"

definition rte_eal_malloc_heap_init :: "mem \<Rightarrow> mem \<times> int" where
  "rte_eal_malloc_heap_init m = (heap_init_loop RTE_MAX_MEMSEG 0 m, 0)"

section \<open>The public interface\<close>

text \<open>\<open>None\<close>: the call never returns; \<open>Inl\<close>: \<^verbatim>\<open>rte_panic\<close>; otherwise the new memory.\<close>

definition rte_free :: "u64 \<Rightarrow> mem \<Rightarrow> (string + mem) option" where
  "rte_free addr m =
     (if addr = 0 then Some (Inr m)
      else do {
        (m, ret) \<leftarrow> malloc_elem_free (malloc_elem_from_data addr m) m;
        Some (if ret < 0 then Inl ''Fatal error: Invalid memory'' else Inr m)
      })"

text \<open>
  The configuration the callers read: whether huge pages are in use and the socket of the calling
  thread, \<^verbatim>\<open>rte_socket_id()\<close>, an unsigned integer that holds \<open>(unsigned)-1\<close> when unknown.
\<close>

record malloc_env =
  env_has_hugepages :: bool
  env_socket_id :: u32

definition malloc_get_numa_socket :: "malloc_env \<Rightarrow> u32" where
  "malloc_get_numa_socket env = (if env_socket_id env = - 1 then 0 else env_socket_id env)"

text \<open>
  The result of an access to \<^verbatim>\<open>malloc_heaps[socket]\<close> with a negative index is a fault.
\<close>

definition fault_heap_index :: string where "fault_heap_index = ''malloc_heaps index''"

fun try_other_heaps ::
    "nat list \<Rightarrow> int \<Rightarrow> u64 \<Rightarrow> u64 \<Rightarrow> mem \<Rightarrow> (mem \<times> u64) option" where
  "try_other_heaps [] socket sz align m = Some (m, 0)"
| "try_other_heaps (i # is) socket sz align m =
     (if int i = socket then try_other_heaps is socket sz align m
      else do {
        (m, ret) \<leftarrow> malloc_heap_alloc i sz 0 align 0 m;
        if ret \<noteq> 0 then Some (m, ret) else try_other_heaps is socket sz align m
      })"

definition rte_malloc_socket ::
    "malloc_env \<Rightarrow> u64 \<Rightarrow> u32 \<Rightarrow> int \<Rightarrow> mem \<Rightarrow> (string + mem \<times> u64) option" where
  "rte_malloc_socket env sz align socket_arg m =
     (if sz = 0 \<or> align \<noteq> 0 \<and> \<not> rte_is_power_of_2 align then Some (Inr (m, 0))
      else
        let socket_arg = (if \<not> env_has_hugepages env then SOCKET_ID_ANY else socket_arg);
            socket = (if socket_arg = SOCKET_ID_ANY then sint (malloc_get_numa_socket env) else socket_arg);
            al = (if align = 0 then 1 else ucast align)
        in if socket \<ge> int RTE_MAX_NUMA_NODES then Some (Inr (m, 0))
           else if socket < 0 then Some (Inl fault_heap_index)
           else do {
             (m, ret) \<leftarrow> malloc_heap_alloc (nat socket) sz 0 al 0 m;
             if ret \<noteq> 0 \<or> socket_arg \<noteq> SOCKET_ID_ANY then Some (Inr (m, ret))
             else do {
               (m, ret) \<leftarrow> try_other_heaps [0..<RTE_MAX_NUMA_NODES] socket sz al m;
               Some (Inr (m, ret))
             }
           })"

definition rte_malloc :: "malloc_env \<Rightarrow> u64 \<Rightarrow> u32 \<Rightarrow> mem \<Rightarrow> (string + mem \<times> u64) option" where
  "rte_malloc env sz align m = rte_malloc_socket env sz align SOCKET_ID_ANY m"

definition rte_zmalloc_socket ::
    "malloc_env \<Rightarrow> u64 \<Rightarrow> u32 \<Rightarrow> int \<Rightarrow> mem \<Rightarrow> (string + mem \<times> u64) option" where
  "rte_zmalloc_socket env sz align socket m = rte_malloc_socket env sz align socket m"

definition rte_zmalloc :: "malloc_env \<Rightarrow> u64 \<Rightarrow> u32 \<Rightarrow> mem \<Rightarrow> (string + mem \<times> u64) option" where
  "rte_zmalloc env sz align m = rte_zmalloc_socket env sz align SOCKET_ID_ANY m"

definition rte_calloc_socket ::
    "malloc_env \<Rightarrow> u64 \<Rightarrow> u64 \<Rightarrow> u32 \<Rightarrow> int \<Rightarrow> mem \<Rightarrow> (string + mem \<times> u64) option" where
  "rte_calloc_socket env num sz align socket m = rte_zmalloc_socket env (num * sz) align socket m"

definition rte_calloc :: "malloc_env \<Rightarrow> u64 \<Rightarrow> u64 \<Rightarrow> u32 \<Rightarrow> mem \<Rightarrow> (string + mem \<times> u64) option" where
  "rte_calloc env num sz align m = rte_zmalloc env (num * sz) align m"

definition rte_realloc :: "malloc_env \<Rightarrow> u64 \<Rightarrow> u64 \<Rightarrow> u32 \<Rightarrow> mem \<Rightarrow> (string + mem \<times> u64) option" where
  "rte_realloc env ptr sz align m =
     (if ptr = 0 then rte_malloc env sz align m
      else
        let elem = malloc_elem_from_data ptr m
        in if elem = 0 then Some (Inl ''Fatal error: memory corruption detected'')
        else
          let sz = RTE_CACHE_LINE_ROUNDUP sz; align = RTE_CACHE_LINE_ROUNDUP align
          in do {
            (m, res) \<leftarrow> (if RTE_PTR_ALIGN ptr align = ptr then malloc_elem_resize elem sz m else Some (m, -1));
            if res = 0 then Some (Inr (m, ptr))
            else do {
              r \<leftarrow> rte_malloc env sz align m;
              case r of Inl e \<Rightarrow> Some (Inl e)
              | Inr (m, new_ptr) \<Rightarrow>
                  if new_ptr = 0 then Some (Inr (m, 0))
                  else do {
                    let old_size = (ucast (me_size (m_hdr m elem) - MALLOC_ELEM_OVERHEAD) :: u32);
                    let m = rte_memcpy_mem new_ptr ptr (if ucast old_size < sz then ucast old_size else sz) m;
                    f \<leftarrow> rte_free ptr m;
                    case f of Inl e \<Rightarrow> Some (Inl e) | Inr m \<Rightarrow> Some (Inr (m, new_ptr))
                  }
            }
          })"

definition rte_malloc_validate :: "u64 \<Rightarrow> mem \<Rightarrow> int \<times> u64" where
  "rte_malloc_validate ptr m =
     (let elem = malloc_elem_from_data ptr m
      in if \<not> malloc_elem_cookies_ok elem then (-1, 0)
         else (0, me_size (m_hdr m elem) - ucast (me_pad (m_hdr m elem)) - MALLOC_ELEM_OVERHEAD))"

definition rte_malloc_get_socket_stats ::
    "int \<Rightarrow> mem \<Rightarrow> rte_malloc_socket_stats \<Rightarrow> (mem \<times> rte_malloc_socket_stats \<times> int) option" where
  "rte_malloc_get_socket_stats socket m st =
     (if socket \<ge> int RTE_MAX_NUMA_NODES \<or> socket < 0 then Some (m, st, -1)
      else malloc_heap_get_stats (nat socket) m st)"

text \<open>The sockets with their statistics; the structure is used for one after the other.\<close>

fun dump_stats_loop :: "nat list \<Rightarrow> mem \<Rightarrow> rte_malloc_socket_stats \<Rightarrow> (mem \<times> (nat \<times> rte_malloc_socket_stats) list) option" where
  "dump_stats_loop [] m st = Some (m, [])"
| "dump_stats_loop (socket # sockets) m st =
     (case rte_malloc_get_socket_stats (int socket) m st of
        None \<Rightarrow> None
      | Some (m, st, r) \<Rightarrow>
          map_option (\<lambda>(m, out). (m, if r < 0 then out else (socket, st) # out)) (dump_stats_loop sockets m st))"

definition rte_malloc_dump_stats :: "mem \<Rightarrow> rte_malloc_socket_stats \<Rightarrow> (mem \<times> (nat \<times> rte_malloc_socket_stats) list) option" where
  "rte_malloc_dump_stats m st = dump_stats_loop [0..<RTE_MAX_NUMA_NODES] m st"

definition rte_malloc_set_limit :: "string \<Rightarrow> u64 \<Rightarrow> int" where
  "rte_malloc_set_limit type max_n = 0"

end
