(* ===== verification/Malloc_Chain.thy ===== *)
theory Malloc_Chain
  imports Malloc
begin

text \<open>
  The layout of the heaps: each memory segment is a sequence of adjacent elements closed by an end
  marker. This theory says what it means for the headers in memory to represent such a layout and
  shows what the elementary operations on headers (split, join, insertion into and removal from a
  free list, clearing) do to it.
\<close>

declare of_nat_add [simp del] of_nat_diff [simp del]

section \<open>Layouts\<close>

text \<open>A block is an element without its address: its size, whether it is free, and its padding.\<close>

datatype blk = Blk (b_size: nat) (b_free: bool) (b_pad: nat)

fun sizes :: "blk list \<Rightarrow> nat" where
  "sizes [] = 0"
| "sizes (b # bs) = b_size b + sizes bs"

fun addrs :: "nat \<Rightarrow> blk list \<Rightarrow> (nat \<times> blk) list" where
  "addrs a [] = []"
| "addrs a (b # bs) = (a, b) # addrs (a + b_size b) bs"

fun last_addr :: "nat \<Rightarrow> nat \<Rightarrow> blk list \<Rightarrow> nat" where
  "last_addr p a [] = p"
| "last_addr p a (b # bs) = last_addr a (a + b_size b) bs"

lemma sizes_append [simp]: "sizes (xs @ ys) = sizes xs + sizes ys"
  by (induction xs) simp_all

lemma addrs_append: "addrs a (xs @ ys) = addrs a xs @ addrs (a + sizes xs) ys"
  by (induction xs arbitrary: a) (simp_all add: add.assoc)

lemma last_addr_append: "last_addr p a (xs @ ys) = last_addr (last_addr p a xs) (a + sizes xs) ys"
  by (induction xs arbitrary: p a) (simp_all add: add.assoc)

lemma addrs_range: "(x, b) \<in> set (addrs a bs) \<Longrightarrow> a \<le> x \<and> x + b_size b \<le> a + sizes bs"
  by (induction bs arbitrary: a) fastforce+

lemma addrs_split:
  "(x, b) \<in> set (addrs a bs) \<Longrightarrow> \<exists>xs ys. bs = xs @ b # ys \<and> x = a + sizes xs"
proof (induction bs arbitrary: a)
  case (Cons c bs)
  show ?case
  proof (cases "(x, b) = (a, c)")
    case True
    then show ?thesis by (intro exI [of _ "[]"] exI [of _ bs]) simp
  next
    case False
    then have "(x, b) \<in> set (addrs (a + b_size c) bs)" using Cons.prems by auto
    from Cons.IH [OF this] obtain xs ys where "bs = xs @ b # ys" "x = a + b_size c + sizes xs"
      by blast
    then show ?thesis by (intro exI [of _ "c # xs"] exI [of _ ys]) simp
  qed
qed simp

text \<open>Well-formed blocks: a header and data, in cache lines; padding short of another element.\<close>

definition blk_ok :: "blk \<Rightarrow> bool" where
  "blk_ok b \<longleftrightarrow> 64 dvd b_size b \<and> 64 < b_size b \<and>
     (\<not> b_free b \<longrightarrow> 64 dvd b_pad b \<and> b_pad b < 128 \<and> b_pad b + 64 < b_size b)"

record seg =
  sg_heap :: nat
  sg_start :: nat
  sg_blks :: "blk list"

definition sg_end :: "seg \<Rightarrow> nat" where "sg_end s = sg_start s + sizes (sg_blks s)"

text \<open>A segment lies inside the address space, with room for the end marker.\<close>

definition seg_ok :: "seg \<Rightarrow> bool" where
  "seg_ok s \<longleftrightarrow> 64 dvd sg_start s \<and> 0 < sg_start s \<and> sg_end s + 64 < 2 ^ 64 \<and>
     list_all blk_ok (sg_blks s)"

type_synonym layout = "nat \<rightharpoonup> seg"

definition separate :: "layout \<Rightarrow> bool" where
  "separate L \<longleftrightarrow> (\<forall>g g' s s'. L g = Some s \<and> L g' = Some s' \<and> g \<noteq> g' \<longrightarrow>
     sg_end s + 64 \<le> sg_start s' \<or> sg_end s' + 64 \<le> sg_start s)"

section \<open>Headers that represent a layout\<close>

definition hdr_ok :: "(u64 \<Rightarrow> malloc_elem) \<Rightarrow> nat \<Rightarrow> nat \<Rightarrow> nat \<Rightarrow> nat \<Rightarrow> blk \<Rightarrow> bool" where
  "hdr_ok H h g p a b \<longleftrightarrow>
     me_heap (H (of_nat a)) = h \<and> me_prev (H (of_nat a)) = of_nat p \<and> me_ms (H (of_nat a)) = g \<and>
     me_state (H (of_nat a)) = (if b_free b then ELEM_FREE else ELEM_BUSY) \<and>
     me_size (H (of_nat a)) = of_nat (b_size b) \<and>
     (\<not> b_free b \<longrightarrow> me_pad (H (of_nat a)) = of_nat (b_pad b) \<and>
        (0 < b_pad b \<longrightarrow> me_state (H (of_nat (a + b_pad b))) = ELEM_PAD \<and>
           me_pad (H (of_nat (a + b_pad b))) = of_nat (b_pad b)))"

definition end_ok :: "(u64 \<Rightarrow> malloc_elem) \<Rightarrow> nat \<Rightarrow> nat \<Rightarrow> nat \<Rightarrow> nat \<Rightarrow> bool" where
  "end_ok H h g p a \<longleftrightarrow> H (of_nat a) = \<lparr>me_heap = h, me_prev = of_nat p, me_ms = g,
     me_state = ELEM_BUSY, me_pad = 0, me_size = 0\<rparr>"

fun links :: "(u64 \<Rightarrow> malloc_elem) \<Rightarrow> nat \<Rightarrow> nat \<Rightarrow> nat \<Rightarrow> nat \<Rightarrow> blk list \<Rightarrow> bool" where
  "links H h g p a [] \<longleftrightarrow> True"
| "links H h g p a (b # bs) \<longleftrightarrow> hdr_ok H h g p a b \<and> links H h g a (a + b_size b) bs"

definition chain :: "(u64 \<Rightarrow> malloc_elem) \<Rightarrow> nat \<Rightarrow> nat \<Rightarrow> nat \<Rightarrow> nat \<Rightarrow> blk list \<Rightarrow> bool" where
  "chain H h g p a bs \<longleftrightarrow> links H h g p a bs \<and> end_ok H h g (last_addr p a bs) (a + sizes bs)"

lemma links_append:
  "links H h g p a (xs @ ys) \<longleftrightarrow>
   links H h g p a xs \<and> links H h g (last_addr p a xs) (a + sizes xs) ys"
  by (induction xs arbitrary: p a) (auto simp: add.assoc)

lemma chain_append:
  "chain H h g p a (xs @ ys) \<longleftrightarrow>
   links H h g p a xs \<and> chain H h g (last_addr p a xs) (a + sizes xs) ys"
  by (auto simp: chain_def links_append last_addr_append add.assoc)

lemma chain_Cons:
  "chain H h g p a (b # bs) \<longleftrightarrow> hdr_ok H h g p a b \<and> chain H h g a (a + b_size b) bs"
  by (auto simp: chain_def add.assoc)

lemma chain_Nil: "chain H h g p a [] \<longleftrightarrow> end_ok H h g p a"
  by (simp add: chain_def)

lemma blk_ok_size: "blk_ok b \<Longrightarrow> 64 < b_size b"
  by (simp add: blk_ok_def)

lemma hdr_ok_cong:
  assumes "H' (of_nat a) = H (of_nat a)" "\<not> b_free b \<Longrightarrow> H' (of_nat (a + b_pad b)) = H (of_nat (a + b_pad b))"
  shows "hdr_ok H' h g p a b = hdr_ok H h g p a b"
  using assms by (auto simp: hdr_ok_def)

lemma links_cong:
  assumes "\<And>x. \<lbrakk>a \<le> x; x < a + sizes bs\<rbrakk> \<Longrightarrow> H' (of_nat x) = H (of_nat x)" "list_all blk_ok bs"
  shows "links H' h g p a bs = links H h g p a bs"
  using assms
proof (induction bs arbitrary: p a)
  case (Cons b bs)
  have b: "blk_ok b" using Cons.prems(2) by simp
  have "hdr_ok H' h g p a b = hdr_ok H h g p a b"
    using b by (intro hdr_ok_cong Cons.prems(1)) (auto simp: blk_ok_def)
  moreover have "links H' h g a (a + b_size b) bs = links H h g a (a + b_size b) bs"
    using Cons.prems by (intro Cons.IH) auto
  ultimately show ?case by simp
qed simp

lemma chain_cong:
  assumes "\<And>x. \<lbrakk>a \<le> x; x \<le> a + sizes bs\<rbrakk> \<Longrightarrow> H' (of_nat x) = H (of_nat x)" "list_all blk_ok bs"
  shows "chain H' h g p a bs = chain H h g p a bs"
  using assms links_cong [of a bs H' H h g p] by (simp add: chain_def end_ok_def)

text \<open>The first header of the rest of a chain, with its link to the previous element changed.\<close>

lemma chain_set_prev:
  assumes ch: "chain H h g p a bs" and ok: "list_all blk_ok bs"
    and hd: "H' (of_nat a) = H (of_nat a)\<lparr>me_prev := of_nat p'\<rparr>"
    and rest: "\<And>x. \<lbrakk>a < x; x \<le> a + sizes bs\<rbrakk> \<Longrightarrow> H' (of_nat x) = H (of_nat x)"
  shows "chain H' h g p' a bs"
proof (cases bs)
  case Nil
  then show ?thesis using ch hd by (simp add: chain_Nil end_ok_def)
next
  case (Cons b cs)
  have b: "blk_ok b" using ok Cons by simp
  have pad: "H' (of_nat (a + b_pad b)) = H (of_nat (a + b_pad b))" if "\<not> b_free b" "0 < b_pad b"
    using b that Cons by (intro rest) (auto simp: blk_ok_def)
  have "hdr_ok H' h g p' a b"
    using ch Cons hd pad by (auto simp: chain_Cons hdr_ok_def)
  moreover have "chain H' h g a (a + b_size b) cs = chain H h g a (a + b_size b) cs"
    using ok Cons blk_ok_size [OF b] by (intro chain_cong rest) auto
  ultimately show ?thesis using ch Cons by (simp add: chain_Cons)
qed

definition represents :: "(u64 \<Rightarrow> malloc_elem) \<Rightarrow> layout \<Rightarrow> bool" where
  "represents H L \<longleftrightarrow> separate L \<and> (\<forall>g s. L g = Some s \<longrightarrow> seg_ok s \<and>
     chain H (sg_heap s) g 0 (sg_start s) (sg_blks s))"

lemma unat_of_nat64: "x < 2 ^ 64 \<Longrightarrow> unat (of_nat x :: u64) = x"
  by (rule unat_of_nat_small) simp

lemma of_nat_inj64:
  assumes "x < 2 ^ 64" "y < 2 ^ 64"
  shows "(of_nat x :: u64) = of_nat y \<longleftrightarrow> x = y"
  using unat_of_nat64 [OF assms(1)] unat_of_nat64 [OF assms(2)] by metis

text \<open>
  A change of headers inside one segment: the other segments are not affected.
\<close>

lemma represents_update:
  assumes rep: "represents H L" and g: "L g = Some s"
    and s': "sg_start s' = sg_start s" "sg_end s' = sg_end s" "seg_ok s'"
    and ch: "chain H' (sg_heap s') g 0 (sg_start s') (sg_blks s')"
    and frame: "\<And>x. \<lbrakk>x < 2 ^ 64; x < sg_start s \<or> sg_end s < x\<rbrakk> \<Longrightarrow> H' (of_nat x) = H (of_nat x)"
  shows "represents H' (L(g \<mapsto> s'))"
  unfolding represents_def
proof (intro conjI allI impI)
  have sep: "separate L" using rep by (simp add: represents_def)
  show "separate (L(g \<mapsto> s'))"
    unfolding separate_def
  proof (intro allI impI)
    fix g1 g2 s1 s2
    assume a: "(L(g \<mapsto> s')) g1 = Some s1 \<and> (L(g \<mapsto> s')) g2 = Some s2 \<and> g1 \<noteq> g2"
    define t1 where "t1 = (if g1 = g then s else s1)"
    define t2 where "t2 = (if g2 = g then s else s2)"
    have "L g1 = Some t1" "L g2 = Some t2" using a g by (auto simp: t1_def t2_def)
    then have "sg_end t1 + 64 \<le> sg_start t2 \<or> sg_end t2 + 64 \<le> sg_start t1"
      using sep a unfolding separate_def by blast
    then show "sg_end s1 + 64 \<le> sg_start s2 \<or> sg_end s2 + 64 \<le> sg_start s1"
      using a s'(1,2) by (auto simp: t1_def t2_def split: if_splits)
  qed
  fix g1 s1 assume g1: "(L(g \<mapsto> s')) g1 = Some s1"
  show "seg_ok s1" using g1 rep s'(3) by (auto simp: represents_def split: if_splits)
  show "chain H' (sg_heap s1) g1 0 (sg_start s1) (sg_blks s1)"
  proof (cases "g1 = g")
    case False
    then have L1: "L g1 = Some s1" using g1 by simp
    then have ok: "seg_ok s1" and ch1: "chain H (sg_heap s1) g1 0 (sg_start s1) (sg_blks s1)"
      using rep by (simp_all add: represents_def)
    have "sg_end s + 64 \<le> sg_start s1 \<or> sg_end s1 + 64 \<le> sg_start s"
      using sep False L1 g unfolding separate_def by metis
    then have "H' (of_nat x) = H (of_nat x)" if "sg_start s1 \<le> x" "x \<le> sg_end s1" for x
      using that ok by (intro frame) (auto simp: seg_ok_def)
    then show ?thesis
      using ch1 ok chain_cong [of "sg_start s1" "sg_blks s1" H' H]
      by (simp add: sg_end_def seg_ok_def)
  qed (use g1 ch in simp)
qed

text \<open>
  Replacing a run of blocks by another of the same total size: only headers inside the run and the
  link of the header behind it change.
\<close>

lemma represents_middle:
  assumes rep: "represents H L" and g: "L g = Some s" and bs: "sg_blks s = xs @ mid @ ys"
    and e: "e = sg_start s + sizes xs" and sz: "sizes mid' = sizes mid" and ok': "list_all blk_ok mid'"
    and ne: "mid \<noteq> []"
    and lk: "links H' (sg_heap s) g (last_addr 0 (sg_start s) xs) e mid'"
    and nx: "H' (of_nat (e + sizes mid)) = H (of_nat (e + sizes mid))
      \<lparr>me_prev := of_nat (last_addr (last_addr 0 (sg_start s) xs) e mid')\<rparr>"
    and frame: "\<And>x. \<lbrakk>x < 2 ^ 64; x < e \<or> e + sizes mid < x\<rbrakk> \<Longrightarrow> H' (of_nat x) = H (of_nat x)"
  shows "represents H' (L(g \<mapsto> s\<lparr>sg_blks := xs @ mid' @ ys\<rparr>))"
proof (rule represents_update [OF rep g])
  let ?s' = "s\<lparr>sg_blks := xs @ mid' @ ys\<rparr>" and ?p = "last_addr 0 (sg_start s) xs"
  have ok: "seg_ok s" and ch: "chain H (sg_heap s) g 0 (sg_start s) (sg_blks s)"
    using rep g by (simp_all add: represents_def)
  have okb: "list_all blk_ok xs" "list_all blk_ok mid" "list_all blk_ok ys"
    and top: "sg_start s + sizes (sg_blks s) < 2 ^ 64"
    using ok bs by (auto simp: seg_ok_def sg_end_def)
  show "sg_start ?s' = sg_start s" by simp
  show "sg_end ?s' = sg_end s" using bs sz by (simp add: sg_end_def)
  then show "seg_ok ?s'" using ok ok' okb by (simp add: seg_ok_def)
  have chs: "links H (sg_heap s) g 0 (sg_start s) xs"
    "chain H (sg_heap s) g (last_addr ?p e mid) (e + sizes mid) ys"
    using ch by (simp_all add: bs chain_append e)
  have "links H' (sg_heap s) g 0 (sg_start s) xs"
    using chs(1) links_cong [OF _ okb(1), of "sg_start s" H' H] frame top e bs by simp
  moreover have "chain H' (sg_heap s) g (last_addr ?p e mid') (e + sizes mid) ys"
    using chs(2) okb(3) nx frame top e bs by (intro chain_set_prev [OF chs(2)]) auto
  ultimately show "chain H' (sg_heap ?s') g 0 (sg_start ?s') (sg_blks ?s')"
    using lk sz by (simp add: chain_append e)
  show "H' (of_nat x) = H (of_nat x)" if "x < 2 ^ 64" "x < sg_start s \<or> sg_end s < x" for x
    using that by (intro frame) (auto simp: e bs sg_end_def)
qed

lemma write_hdr_simps [simp]:
  "m_hdr (write_hdr p e m) = (m_hdr m)(p := e)" "m_heap (write_hdr p e m) = m_heap m"
  "m_seg (write_hdr p e m) = m_seg m"
  by (simp_all add: write_hdr_def)

lemma upd_hdr_simps [simp]:
  "m_hdr (upd_hdr p f m) = (m_hdr m)(p := f (m_hdr m p))" "m_heap (upd_hdr p f m) = m_heap m"
  "m_seg (upd_hdr p f m) = m_seg m"
  by (simp_all add: upd_hdr_def)

lemma upd_heap_simps [simp]:
  "m_hdr (upd_heap h f m) = m_hdr m" "m_byte (upd_heap h f m) = m_byte m"
  "m_seg (upd_heap h f m) = m_seg m" "m_heap (upd_heap h f m) = (m_heap m)(h := f (m_heap m h))"
  by (simp_all add: upd_heap_def)

lemma malloc_elem_init_hdr [simp]:
  "m_hdr (malloc_elem_init p h g sz m) = (m_hdr m)(p := \<lparr>me_heap = h, me_prev = 0, me_ms = g,
     me_state = ELEM_FREE, me_pad = 0, me_size = sz\<rparr>)"
  "m_heap (malloc_elem_init p h g sz m) = m_heap m" "m_seg (malloc_elem_init p h g sz m) = m_seg m"
  by (simp_all add: malloc_elem_init_def set_header_def set_trailer_def)

lemma of_nat_diff64: "n \<le> m \<Longrightarrow> (of_nat m - of_nat n :: u64) = of_nat (m - n)"
  by (simp add: of_nat_diff)

lemma of_nat_sum: "(of_nat m + of_nat n :: u64) = of_nat (m + n)"
  by (simp add: of_nat_add)

lemma split_elem_hdr_word:
  assumes "p \<noteq> q" "r \<noteq> q" "r \<noteq> p" "q + me_size (m_hdr m q) = r"
  shows "m_hdr (split_elem q p m) = (m_hdr m)
    (p := \<lparr>me_heap = me_heap (m_hdr m q), me_prev = q, me_ms = me_ms (m_hdr m q),
       me_state = ELEM_FREE, me_pad = 0, me_size = me_size (m_hdr m q) - (p - q)\<rparr>,
     r := m_hdr m r\<lparr>me_prev := p\<rparr>, q := m_hdr m q\<lparr>me_size := p - q\<rparr>)"
  using assms by (simp add: split_elem_def Let_def set_trailer_def RTE_PTR_ADD_def)

lemma split_elem_hdr:
  assumes sz: "me_size (m_hdr m (of_nat e)) = of_nat n" and k: "0 < k" "k < n" and top: "e + n < 2 ^ 64"
  shows "m_hdr (split_elem (of_nat e) (of_nat (e + k)) m) = (m_hdr m)
    (of_nat (e + k) := \<lparr>me_heap = me_heap (m_hdr m (of_nat e)), me_prev = of_nat e,
       me_ms = me_ms (m_hdr m (of_nat e)), me_state = ELEM_FREE, me_pad = 0, me_size = of_nat (n - k)\<rparr>,
     of_nat (e + n) := m_hdr m (of_nat (e + n))\<lparr>me_prev := of_nat (e + k)\<rparr>,
     of_nat e := m_hdr m (of_nat e)\<lparr>me_size := of_nat k\<rparr>)"
proof -
  have ne: "(of_nat (e + k) :: u64) \<noteq> of_nat e" "(of_nat (e + n) :: u64) \<noteq> of_nat e"
    "(of_nat (e + n) :: u64) \<noteq> of_nat (e + k)"
    using k top by (simp_all add: of_nat_inj64)
  have d: "(of_nat (e + k) - of_nat e :: u64) = of_nat k"
    "(of_nat n - of_nat k :: u64) = of_nat (n - k)"
    using k by (simp_all add: of_nat_diff64)
  have "of_nat e + me_size (m_hdr m (of_nat e)) = of_nat (e + n)" by (simp only: sz of_nat_sum)
  from split_elem_hdr_word [OF ne(1,2,3) this] show ?thesis by (simp only: sz d)
qed

lemma represents_split:
  assumes rep: "represents (m_hdr m) L" and g: "L g = Some s" and bs: "sg_blks s = xs @ b # ys"
    and e: "e = sg_start s + sizes xs"
    and k: "64 dvd k" "64 < k" "64 < b_size b - k" "\<not> b_free b \<Longrightarrow> b_pad b + 64 < k"
  shows "represents (m_hdr (split_elem (of_nat e) (of_nat (e + k)) m))
    (L(g \<mapsto> s\<lparr>sg_blks := xs @ Blk k (b_free b) (b_pad b) # Blk (b_size b - k) True 0 # ys\<rparr>))"
proof -
  let ?n = "b_size b" and ?H = "m_hdr m" and ?H' = "m_hdr (split_elem (of_nat e) (of_nat (e + k)) m)"
  have ok: "seg_ok s" and "chain ?H (sg_heap s) g 0 (sg_start s) (sg_blks s)"
    using rep g by (simp_all add: represents_def)
  then have hd: "hdr_ok ?H (sg_heap s) g (last_addr 0 (sg_start s) xs) e b" and bok: "blk_ok b"
    using bs e by (auto simp: chain_append chain_Cons seg_ok_def)
  have top: "e + ?n < 2 ^ 64" using ok bs e by (simp add: seg_ok_def sg_end_def)
  have kn: "0 < k" "k < ?n" using k(2,3) by auto
  have H': "?H' = ?H
    (of_nat (e + k) := \<lparr>me_heap = sg_heap s, me_prev = of_nat e, me_ms = g,
       me_state = ELEM_FREE, me_pad = 0, me_size = of_nat (?n - k)\<rparr>,
     of_nat (e + ?n) := ?H (of_nat (e + ?n))\<lparr>me_prev := of_nat (e + k)\<rparr>,
     of_nat e := ?H (of_nat e)\<lparr>me_size := of_nat k\<rparr>)"
    using hd split_elem_hdr [OF _ kn top, of m] by (simp add: hdr_ok_def)
  have frame: "?H' (of_nat x) = ?H (of_nat x)" if "x < 2 ^ 64" "x \<noteq> e" "x \<noteq> e + k" "x \<noteq> e + ?n" for x
    using that kn top by (simp add: H' of_nat_inj64)
  have at: "?H' (of_nat e) = ?H (of_nat e)\<lparr>me_size := of_nat k\<rparr>"
    "?H' (of_nat (e + k)) = \<lparr>me_heap = sg_heap s, me_prev = of_nat e, me_ms = g,
       me_state = ELEM_FREE, me_pad = 0, me_size = of_nat (?n - k)\<rparr>"
    "?H' (of_nat (e + ?n)) = ?H (of_nat (e + ?n))\<lparr>me_prev := of_nat (e + k)\<rparr>"
    using kn top by (simp_all add: H' of_nat_inj64)
  have pad: "?H' (of_nat (e + b_pad b)) = ?H (of_nat (e + b_pad b))" if "\<not> b_free b" "0 < b_pad b"
    using k(4) [OF that(1)] that kn top by (intro frame) simp_all
  have "represents ?H' (L(g \<mapsto> s\<lparr>sg_blks := xs @ [Blk k (b_free b) (b_pad b), Blk (?n - k) True 0] @ ys\<rparr>))"
  proof (rule represents_middle [OF rep g, where mid = "[b]"])
    show "list_all blk_ok [Blk k (b_free b) (b_pad b), Blk (?n - k) True 0]"
      using k bok by (auto simp: blk_ok_def)
    show "links ?H' (sg_heap s) g (last_addr 0 (sg_start s) xs) e [Blk k (b_free b) (b_pad b), Blk (?n - k) True 0]"
      using hd at pad by (auto simp: hdr_ok_def)
  qed (use bs e kn at frame in auto)
  then show ?thesis by simp
qed

lemma join_elem_hdr_word:
  assumes "r \<noteq> q" "p + me_size (m_hdr m p) = r"
  shows "m_hdr (join_elem q p m) = (m_hdr m)
    (q := m_hdr m q\<lparr>me_size := me_size (m_hdr m q) + me_size (m_hdr m p)\<rparr>, r := m_hdr m r\<lparr>me_prev := q\<rparr>)"
  using assms by (simp add: join_elem_def Let_def RTE_PTR_ADD_def)

lemma join_elem_hdr:
  assumes sz: "me_size (m_hdr m (of_nat e)) = of_nat n" "me_size (m_hdr m (of_nat (e + n))) = of_nat k"
    and n: "0 < n" "0 < k" and top: "e + n + k < 2 ^ 64"
  shows "m_hdr (join_elem (of_nat e) (of_nat (e + n)) m) = (m_hdr m)
    (of_nat e := m_hdr m (of_nat e)\<lparr>me_size := of_nat (n + k)\<rparr>,
     of_nat (e + n + k) := m_hdr m (of_nat (e + n + k))\<lparr>me_prev := of_nat e\<rparr>)"
proof -
  have "(of_nat (e + n + k) :: u64) \<noteq> of_nat e" using n top by (simp add: of_nat_inj64)
  moreover have "of_nat (e + n) + me_size (m_hdr m (of_nat (e + n))) = of_nat (e + n + k)"
    by (simp only: sz of_nat_sum)
  ultimately have "m_hdr (join_elem (of_nat e) (of_nat (e + n)) m) = (m_hdr m)
    (of_nat e := m_hdr m (of_nat e)\<lparr>me_size := of_nat n + of_nat k\<rparr>,
     of_nat (e + n + k) := m_hdr m (of_nat (e + n + k))\<lparr>me_prev := of_nat e\<rparr>)"
    using join_elem_hdr_word [of "of_nat (e + n + k)" "of_nat e" "of_nat (e + n)" m] sz by metis
  then show ?thesis by (simp only: of_nat_sum)
qed

lemma represents_join:
  assumes rep: "represents (m_hdr m) L" and g: "L g = Some s" and bs: "sg_blks s = xs @ b # c # ys"
    and e: "e = sg_start s + sizes xs"
  shows "represents (m_hdr (join_elem (of_nat e) (of_nat (e + b_size b)) m))
    (L(g \<mapsto> s\<lparr>sg_blks := xs @ Blk (b_size b + b_size c) (b_free b) (b_pad b) # ys\<rparr>))"
proof -
  let ?n = "b_size b" and ?k = "b_size c"
  let ?H = "m_hdr m" and ?H' = "m_hdr (join_elem (of_nat e) (of_nat (e + ?n)) m)"
  have ok: "seg_ok s" and "chain ?H (sg_heap s) g 0 (sg_start s) (sg_blks s)"
    using rep g by (simp_all add: represents_def)
  then have hd: "hdr_ok ?H (sg_heap s) g (last_addr 0 (sg_start s) xs) e b"
    "hdr_ok ?H (sg_heap s) g e (e + ?n) c" and bok: "blk_ok b" "blk_ok c"
    using bs e by (auto simp: chain_append chain_Cons seg_ok_def add.assoc)
  have top: "e + ?n + ?k < 2 ^ 64" using ok bs e by (simp add: seg_ok_def sg_end_def)
  have nk: "0 < ?n" "0 < ?k" using bok blk_ok_size by fastforce+
  have H': "?H' = ?H (of_nat e := ?H (of_nat e)\<lparr>me_size := of_nat (?n + ?k)\<rparr>,
     of_nat (e + ?n + ?k) := ?H (of_nat (e + ?n + ?k))\<lparr>me_prev := of_nat e\<rparr>)"
    using hd by (intro join_elem_hdr nk top) (simp_all add: hdr_ok_def)
  have frame: "?H' (of_nat x) = ?H (of_nat x)" if "x < 2 ^ 64" "x \<noteq> e" "x \<noteq> e + ?n + ?k" for x
    using that nk top by (simp add: H' of_nat_inj64)
  have at: "?H' (of_nat e) = ?H (of_nat e)\<lparr>me_size := of_nat (?n + ?k)\<rparr>"
    "?H' (of_nat (e + ?n + ?k)) = ?H (of_nat (e + ?n + ?k))\<lparr>me_prev := of_nat e\<rparr>"
    using nk top by (simp_all add: H' of_nat_inj64)
  have pad: "?H' (of_nat (e + b_pad b)) = ?H (of_nat (e + b_pad b))" if "\<not> b_free b" "0 < b_pad b"
    using that bok(1) nk top by (intro frame) (auto simp: blk_ok_def)
  have "represents ?H' (L(g \<mapsto> s\<lparr>sg_blks := xs @ [Blk (?n + ?k) (b_free b) (b_pad b)] @ ys\<rparr>))"
  proof (rule represents_middle [OF rep g, where mid = "[b, c]"])
    show "list_all blk_ok [Blk (?n + ?k) (b_free b) (b_pad b)]"
      using bok by (auto simp: blk_ok_def)
    show "links ?H' (sg_heap s) g (last_addr 0 (sg_start s) xs) e [Blk (?n + ?k) (b_free b) (b_pad b)]"
      using hd(1) at(1) pad by (auto simp: hdr_ok_def)
  qed (use bs e nk at frame in \<open>auto simp: add.assoc\<close>)
  then show ?thesis by simp
qed

text \<open>A block changes its state.\<close>

lemma represents_state:
  assumes rep: "represents H L" and g: "L g = Some s" and bs: "sg_blks s = xs @ b # ys"
    and e: "e = sg_start s + sizes xs" and c: "b_size c = b_size b" "blk_ok c"
    and at: "hdr_ok H' (sg_heap s) g (last_addr 0 (sg_start s) xs) e c"
    and frame: "\<And>x. \<lbrakk>x < 2 ^ 64; x < e \<or> e + b_size b \<le> x\<rbrakk> \<Longrightarrow> H' (of_nat x) = H (of_nat x)"
  shows "represents H' (L(g \<mapsto> s\<lparr>sg_blks := xs @ c # ys\<rparr>))"
proof -
  have ok: "seg_ok s" and "chain H (sg_heap s) g 0 (sg_start s) (sg_blks s)"
    using rep g by (simp_all add: represents_def)
  then have ch: "chain H (sg_heap s) g e (e + b_size b) ys"
    using bs e by (auto simp: chain_append chain_Cons)
  have top: "e + b_size b < 2 ^ 64" using ok bs e by (simp add: seg_ok_def sg_end_def)
  have "me_prev (H (of_nat (e + b_size b))) = of_nat e"
    using ch by (cases ys) (auto simp: chain_Cons chain_Nil hdr_ok_def end_ok_def)
  then have nx: "H' (of_nat (e + b_size b)) = H (of_nat (e + b_size b))\<lparr>me_prev := of_nat e\<rparr>"
    using frame [OF top] by simp
  have "represents H' (L(g \<mapsto> s\<lparr>sg_blks := xs @ [c] @ ys\<rparr>))"
    by (rule represents_middle [OF rep g, where mid = "[b]"])
      (use bs e c at frame nx in auto)
  then show ?thesis by simp
qed

end
