(* ===== verification/Malloc_Fit.thy ===== *)
theory Malloc_Fit
  imports Malloc_Chain
begin

text \<open>
  Where a block of data goes inside a free element: \<open>elem_start_pt\<close> places it at the highest
  address with the requested alignment that keeps it inside the element and off the boundary.
\<close>

lemma floor_bounds:
  fixes x :: u64
  assumes "k < LENGTH('b)"
  defines "y \<equiv> unat (RTE_ALIGN_FLOOR (x :: u64) (2 ^ k :: 'b::len word))"
  shows "2 ^ k dvd y" "y \<le> unat x" "unat x < y + 2 ^ k"
proof -
  have y: "y = unat x - unat x mod 2 ^ k" using assms(1) by (simp add: y_def align_floor_pow2)
  show "2 ^ k dvd y" unfolding y by (simp add: minus_mod_eq_mult_div)
  show "y \<le> unat x" unfolding y by simp
  have "unat x mod 2 ^ k < 2 ^ k" "unat x mod 2 ^ k \<le> unat x" by simp_all
  then show "unat x < y + 2 ^ k" unfolding y by linarith
qed

text \<open>The placement below a given end: no underflow when the addresses are large enough.\<close>

lemma place_below:
  fixes sz :: u64
  assumes j: "6 \<le> j" "j < 32" and big: "unat sz + 2 ^ j \<le> t" and top: "t < 2 ^ 64"
  defines "d \<equiv> RTE_ALIGN_FLOOR (of_nat t - sz) (2 ^ j :: u32)"
  shows "2 ^ j dvd unat d" "unat d + unat sz \<le> t" "64 \<le> unat d" "t < unat d + unat sz + 2 ^ j"
    and "d - MALLOC_ELEM_HEADER_LEN = of_nat (unat d - 64)"
proof -
  have sub: "unat (of_nat t - sz :: u64) = t - unat sz"
    using big top by (simp add: unat_sub_no_underflow unat_of_nat64 word_le_nat_alt)
  note fl = floor_bounds [of j "of_nat t - sz" , where 'b = 32, folded d_def]
  show dv: "2 ^ j dvd unat d" using fl(1) j by simp
  show "unat d + unat sz \<le> t" using fl(2) j sub big by simp
  show up: "t < unat d + unat sz + 2 ^ j" using fl(3) j sub big by simp
  have "0 < unat d" using up big by simp
  then have "2 ^ j \<le> unat d" using dv by (simp add: dvd_imp_le)
  moreover have "(2::nat) ^ 6 \<le> 2 ^ j" using j(1) by (rule power_increasing) simp
  ultimately show ge: "64 \<le> unat d" by simp
  have "d - 64 = of_nat (unat d) - of_nat 64" by simp
  also have "\<dots> = of_nat (unat d - 64)" using ge by (rule of_nat_diff64)
  finally show "d - MALLOC_ELEM_HEADER_LEN = of_nat (unat d - 64)"
    by (simp add: MALLOC_ELEM_HEADER_LEN_def)
qed

definition bound_ok :: "u64 \<Rightarrow> bool" where
  "bound_ok bound \<longleftrightarrow> bound = 0 \<or> (\<exists>i < 64. bound = 2 ^ i)"

lemma and_bound_mask:
  assumes "i < 64"
  shows "unat ((x :: u64) AND NOT (2 ^ i - 1)) = unat x - unat x mod 2 ^ i"
  by (simp add: unat_and_not_mask flip: mask_eq_decr_exp)

lemma same_boundary:
  assumes "i < 64" "(x :: u64) AND NOT (2 ^ i - 1) = y AND NOT (2 ^ i - 1)"
  shows "unat x div 2 ^ i = unat y div 2 ^ i"
proof -
  have "unat x - unat x mod 2 ^ i = unat y - unat y mod 2 ^ i"
    using assms by (metis and_bound_mask)
  then have "unat x div 2 ^ i * 2 ^ i = unat y div 2 ^ i * 2 ^ i"
    by (simp add: minus_mod_eq_div_mult)
  then show ?thesis by simp
qed

text \<open>
  \<open>fits e n sz j bound w\<close>: an element header at \<open>w\<close>, inside the element of size \<open>n\<close> at \<open>e\<close>, whose
  \<open>sz\<close> bytes of data are aligned to \<open>2 ^ j\<close> and do not cross a multiple of \<open>bound\<close>.
\<close>

definition fits :: "nat \<Rightarrow> nat \<Rightarrow> nat \<Rightarrow> nat \<Rightarrow> nat \<Rightarrow> nat \<Rightarrow> bool" where
  "fits e n sz j bound w \<longleftrightarrow> e \<le> w \<and> w + 64 + sz \<le> e + n \<and> 2 ^ j dvd w + 64 \<and>
     (bound \<noteq> 0 \<and> sz \<noteq> 0 \<longrightarrow> (w + 64) div bound = (w + 64 + sz - 1) div bound)"

lemma elem_start_pt_fits:
  assumes n: "me_size (m_hdr m (of_nat e)) = of_nat n" and top: "e + n < 2 ^ 64"
    and j: "6 \<le> j" "j < 32" and bd: "bound_ok bound"
    and big: "unat sz + 2 ^ j + unat bound \<le> e" and z: "sz \<noteq> 0"
  shows "elem_start_pt (of_nat e) sz (2 ^ j) bound m = 0 \<or>
    (\<exists>w. elem_start_pt (of_nat e) sz (2 ^ j) bound m = of_nat w \<and> fits e n (unat sz) j (unat bound) w)"
proof -
  define bmask where "bmask = NOT (bound - 1)"
  define fin where "fin d = (if d - MALLOC_ELEM_HEADER_LEN < of_nat e then 0 else d - MALLOC_ELEM_HEADER_LEN)" for d :: u64
  define d1 where "d1 = RTE_ALIGN_FLOOR (of_nat (e + n) - sz) (2 ^ j :: u32)"
  define t2 where "t2 = RTE_ALIGN_FLOOR (of_nat (e + n) :: u64) bound"
  define d2 where "d2 = RTE_ALIGN_FLOOR (t2 - sz) (2 ^ j :: u32)"
  have esp: "elem_start_pt (of_nat e) sz (2 ^ j) bound m =
    (if d1 AND bmask \<noteq> (of_nat (e + n) - 1) AND bmask
     then (if (d2 + sz - 1) AND bmask \<noteq> d2 AND bmask then 0 else fin d2) else fin d1)"
    by (simp add: elem_start_pt_def Let_def n MALLOC_ELEM_TRAILER_LEN_def of_nat_sum
        bmask_def fin_def d1_def d2_def t2_def)
  have sz: "0 < unat sz" using z by (simp add: unat_gt_0)
  have res: "fin d = 0 \<or> (\<exists>w. fin d = of_nat w \<and> fits e n (unat sz) j (unat bound) w)"
    if d: "2 ^ j dvd unat d" "unat d + unat sz \<le> e + n" "64 \<le> unat d"
      "d - MALLOC_ELEM_HEADER_LEN = of_nat (unat d - 64)"
    and bnd: "unat bound \<noteq> 0 \<Longrightarrow> unat d div unat bound = (unat d + unat sz - 1) div unat bound" for d
  proof (cases "unat d - 64 < e")
    case True
    then show ?thesis using d(4) top by (simp add: fin_def word_less_nat_alt unat_of_nat64)
  next
    case False
    have lt: "unat d - 64 < 2 ^ 64" using d(2) top by simp
    then have "fin d = of_nat (unat d - 64)"
      using False d(4) top by (simp add: fin_def word_less_nat_alt unat_of_nat64)
    moreover have "fits e n (unat sz) j (unat bound) (unat d - 64)"
      using False d bnd by (simp add: fits_def)
    ultimately show ?thesis by blast
  qed
  note p1 = place_below [OF j _ top, of sz, folded d1_def]
  have e1: "unat (of_nat (e + n) - 1 :: u64) = e + n - 1"
    using big top sz by (simp add: unat_minus_one unat_of_nat64 of_nat_inj64 [of "e + n" 0, simplified])
  show ?thesis
  proof (cases "d1 AND bmask \<noteq> (of_nat (e + n) - 1) AND bmask")
    case False
    have "unat d1 div unat bound = (unat d1 + unat sz - 1) div unat bound" if nz: "unat bound \<noteq> 0"
    proof -
      obtain i where i: "i < 64" "bound = 2 ^ i" using bd nz by (auto simp: bound_ok_def)
      then have ub: "unat bound = 2 ^ i" by (simp add: unat_pow2)
      have "unat d1 div 2 ^ i = (e + n - 1) div 2 ^ i"
        using False same_boundary [OF i(1), of d1 "of_nat (e + n) - 1"] e1 i by (simp add: bmask_def)
      moreover from p1(2) big sz have "unat d1 + unat sz - 1 \<le> e + n - 1" "unat d1 \<le> unat d1 + unat sz - 1"
        by simp_all
      then have "(unat d1 + unat sz - 1) div 2 ^ i \<le> (e + n - 1) div 2 ^ i"
        "unat d1 div 2 ^ i \<le> (unat d1 + unat sz - 1) div 2 ^ i" by (simp_all only: div_le_mono)
      ultimately show ?thesis unfolding ub by linarith
    qed
    then have "fin d1 = 0 \<or> (\<exists>w. fin d1 = of_nat w \<and> fits e n (unat sz) j (unat bound) w)"
      using p1 big by (intro res) simp_all
    then show ?thesis using esp False by simp
  next
    case True
    show ?thesis
    proof (cases "(d2 + sz - 1) AND bmask \<noteq> d2 AND bmask")
      case False
      have "bound \<noteq> 0"
      proof
        assume "bound = 0"
        then have "bmask = 0" by (simp add: bmask_def)
        then show False using True by simp
      qed
      then obtain i where i: "i < 64" "bound = 2 ^ i" using bd by (auto simp: bound_ok_def)
      then have ub: "unat bound = 2 ^ i" by (simp add: unat_pow2)
      note fl = floor_bounds [of i "of_nat (e + n)", where 'b = 64, folded i(2), folded t2_def]
      have t2: "unat t2 \<le> e + n" "e + n < unat t2 + unat bound"
        using fl(2,3) i(1) top by (simp_all add: unat_of_nat64 ub)
      then have "unat sz + 2 ^ j \<le> unat t2" "unat t2 < 2 ^ 64" using big top by simp_all
      note p2 = place_below [OF j this, folded d2_def, simplified, folded d2_def]
      have "unat (d2 + sz) = unat d2 + unat sz"
        using p2(2) t2(1) top by (intro unat_add_no_overflow) simp
      then have "unat (d2 + sz - 1) = unat d2 + unat sz - 1"
        using sz by (subst unat_minus_one) (auto simp: unat_eq_0 [symmetric])
      then have "unat d2 div unat bound = (unat d2 + unat sz - 1) div unat bound"
        using False same_boundary [OF i(1), of "d2 + sz - 1" d2] i by (simp add: bmask_def unat_pow2)
      then have "fin d2 = 0 \<or> (\<exists>w. fin d2 = of_nat w \<and> fits e n (unat sz) j (unat bound) w)"
        using p2 t2(1) by (intro res) simp_all
      then show ?thesis using esp True False by simp
    qed (use esp True in simp)
  qed
qed

end
