(* ===== verification/Malloc_Lists.thy ===== *)
theory Malloc_Lists
  imports Malloc_Fit
begin

text \<open>
  The blocks of all segments as one set, the free lists that must hold exactly the free ones, and
  the bytes of memory under writes of headers: the parts of the heap invariant beside the headers.
\<close>

declare of_nat_add [simp del] of_nat_diff [simp del]

section \<open>The set of blocks\<close>

definition blocks :: "layout \<Rightarrow> (nat \<times> nat \<times> blk) set" where
  "blocks L = {(sg_heap s, x, b) | g s x b. L g = Some s \<and> (x, b) \<in> set (addrs (sg_start s) (sg_blks s))}"

definition mid_blocks :: "nat \<Rightarrow> nat \<Rightarrow> blk list \<Rightarrow> (nat \<times> nat \<times> blk) set" where
  "mid_blocks h e bs = {h} \<times> set (addrs e bs)"

lemma mid_blocks_simps [simp]:
  "mid_blocks h e [] = {}" "mid_blocks h e (b # bs) = insert (h, e, b) (mid_blocks h (e + b_size b) bs)"
  by (auto simp: mid_blocks_def)

lemma addrs_unique:
  assumes "(x, b) \<in> set (addrs a bs)" "(x', b') \<in> set (addrs a bs)" "list_all blk_ok bs"
    and "x \<le> y" "y < x + b_size b" "x' \<le> y" "y < x' + b_size b'"
  shows "x = x' \<and> b = b'"
  using assms
proof (induction bs arbitrary: a)
  case (Cons c bs)
  have "\<not> (x \<le> y \<and> y < x + b_size b \<and> y < a + b_size c)" if "(x, b) \<in> set (addrs (a + b_size c) bs)" for x b
    using addrs_range [OF that] by auto
  then show ?case using Cons by auto
qed simp

lemma blocks_range:
  assumes "represents H L" "(h, x, b) \<in> blocks L"
  shows "64 \<le> x" "64 dvd x" "x + b_size b + 64 < 2 ^ 64" "blk_ok b"
proof -
  from assms(2) obtain g s where g: "L g = Some s" "(x, b) \<in> set (addrs (sg_start s) (sg_blks s))"
    by (auto simp: blocks_def)
  have ok: "seg_ok s" using assms(1) g(1) by (simp add: represents_def)
  from addrs_split [OF g(2)] obtain xs ys where
    bs: "sg_blks s = xs @ b # ys" "x = sg_start s + sizes xs" by blast
  have "64 dvd sizes xs" if "list_all blk_ok xs" for xs
    using that by (induction xs) (auto simp: blk_ok_def)
  then show dv: "64 dvd x" using ok bs by (simp add: seg_ok_def)
  moreover have "0 < x" using ok bs(2) by (simp add: seg_ok_def)
  ultimately show "64 \<le> x" by (simp add: dvd_imp_le)
  show "x + b_size b + 64 < 2 ^ 64" using ok bs by (simp add: seg_ok_def sg_end_def)
  show "blk_ok b" using ok bs by (simp add: seg_ok_def)
qed

text \<open>Blocks do not overlap, and neither does a block and the end marker of a segment.\<close>

lemma blocks_disjoint:
  assumes rep: "represents H L" and b: "(h, x, b) \<in> blocks L" "(h', x', b') \<in> blocks L"
    and y: "x \<le> y" "y < x + b_size b" "x' \<le> y" "y < x' + b_size b'"
  shows "(h, x, b) = (h', x', b')"
proof -
  from b obtain g s g' s' where g: "L g = Some s" "(x, b) \<in> set (addrs (sg_start s) (sg_blks s))" "h = sg_heap s"
    and g': "L g' = Some s'" "(x', b') \<in> set (addrs (sg_start s') (sg_blks s'))" "h' = sg_heap s'"
    by (auto simp: blocks_def)
  have r: "sg_start s \<le> y" "y < sg_end s" "sg_start s' \<le> y" "y < sg_end s'"
    using addrs_range [OF g(2)] addrs_range [OF g'(2)] y by (auto simp: sg_end_def)
  have "g = g'"
  proof (rule ccontr)
    assume "g \<noteq> g'"
    moreover have "separate L" using rep by (simp add: represents_def)
    ultimately have "sg_end s + 64 \<le> sg_start s' \<or> sg_end s' + 64 \<le> sg_start s"
      using g(1) g'(1) unfolding separate_def by metis
    then show False using r by linarith
  qed
  then have s: "s' = s" using g(1) g'(1) by simp
  have "list_all blk_ok (sg_blks s)" using rep g(1) by (simp add: represents_def seg_ok_def)
  then show ?thesis using addrs_unique [OF g(2) g'(2) [unfolded s] _ y] g(3) g'(3) s by simp
qed

lemma blocks_addr_unique:
  assumes "represents H L" "(h, x, b) \<in> blocks L" "(h', x, b') \<in> blocks L"
  shows "h = h' \<and> b = b'"
  using blocks_disjoint [OF assms, of x] blocks_range(4) [OF assms(1,2)] blocks_range(4) [OF assms(1,3)]
  by (simp add: blk_ok_def)

lemma blocks_at:
  assumes "represents H L" "(h, x, b) \<in> blocks L"
  obtains g s xs ys where "L g = Some s" "sg_heap s = h" "sg_blks s = xs @ b # ys"
    "x = sg_start s + sizes xs" "hdr_ok H h g (last_addr 0 (sg_start s) xs) x b"
proof -
  from assms(2) obtain g s where g: "L g = Some s" "sg_heap s = h" "(x, b) \<in> set (addrs (sg_start s) (sg_blks s))"
    by (auto simp: blocks_def)
  from addrs_split [OF g(3)] obtain xs ys where
    bs: "sg_blks s = xs @ b # ys" "x = sg_start s + sizes xs" by blast
  have "chain H h g 0 (sg_start s) (sg_blks s)" using assms(1) g by (auto simp: represents_def)
  then have "hdr_ok H h g (last_addr 0 (sg_start s) xs) x b"
    by (simp add: bs chain_append chain_Cons)
  then show thesis using that g bs by blast
qed

lemma blocks_update:
  assumes rep: "represents H L" and g: "L g = Some s" and bs: "sg_blks s = xs @ mid @ ys"
    and e: "e = sg_start s + sizes xs" and sz: "sizes mid' = sizes mid"
  shows "blocks (L(g \<mapsto> s\<lparr>sg_blks := xs @ mid' @ ys\<rparr>)) =
    (blocks L - mid_blocks (sg_heap s) e mid) \<union> mid_blocks (sg_heap s) e mid'"
proof -
  define R where "R = {(sg_heap t, x, b) | g' t x b. L g' = Some t \<and> g' \<noteq> g \<and>
    (x, b) \<in> set (addrs (sg_start t) (sg_blks t))} \<union>
    mid_blocks (sg_heap s) (sg_start s) xs \<union> mid_blocks (sg_heap s) (e + sizes mid) ys"
  have new: "blocks (L(g \<mapsto> s\<lparr>sg_blks := xs @ m @ ys\<rparr>)) = R \<union> mid_blocks (sg_heap s) e m"
    if "sizes m = sizes mid" for m
    unfolding blocks_def R_def mid_blocks_def
    using that e by (auto simp: addrs_append add.assoc split: if_splits)
  have same: "s\<lparr>sg_blks := xs @ mid @ ys\<rparr> = s" using bs [symmetric] by simp
  have "L(g \<mapsto> s) = L" using g by auto
  then have old: "blocks L = R \<union> mid_blocks (sg_heap s) e mid" using new [of mid] same by simp
  have "R \<inter> mid_blocks (sg_heap s) e mid = {}"
  proof (rule ccontr)
    assume "R \<inter> mid_blocks (sg_heap s) e mid \<noteq> {}"
    then obtain h x b where R: "(h, x, b) \<in> R" and mid: "(h, x, b) \<in> mid_blocks (sg_heap s) e mid"
      by auto
    have r: "e \<le> x" "x + b_size b \<le> e + sizes mid" "h = sg_heap s"
      using mid addrs_range by (auto simp: mid_blocks_def)
    have bpos: "0 < b_size b"
      using blocks_range(4) [OF rep, of h x b] R old blk_ok_size by fastforce
    have rs: "sg_start s \<le> e" "e + sizes mid \<le> sg_end s" using bs e by (simp_all add: sg_end_def)
    show False
    proof (cases "(h, x, b) \<in> mid_blocks (sg_heap s) (sg_start s) xs \<union>
        mid_blocks (sg_heap s) (e + sizes mid) ys")
      case True
      then have "x + b_size b \<le> e \<or> e + sizes mid \<le> x"
        using addrs_range e by (fastforce simp: mid_blocks_def)
      then show False using r bpos by linarith
    next
      case False
      then obtain g' t where t: "L g' = Some t" "g' \<noteq> g" "(x, b) \<in> set (addrs (sg_start t) (sg_blks t))"
        using R by (auto simp: R_def)
      have "separate L" using rep by (simp add: represents_def)
      then have "sg_end s + 64 \<le> sg_start t \<or> sg_end t + 64 \<le> sg_start s"
        using g t unfolding separate_def by metis
      then show False using addrs_range [OF t(3)] r rs bpos by (auto simp: sg_end_def)
    qed
  qed
  then show ?thesis using old new [OF sz] by auto
qed

section \<open>Free lists\<close>

definition fl_index :: "nat \<Rightarrow> nat" where
  "fl_index n = malloc_elem_free_list_index (of_nat n - MALLOC_ELEM_HEADER_LEN)"

text \<open>\<open>F\<close> is the set of heap, address and size of the free elements.\<close>

definition lists_ok :: "(nat \<Rightarrow> malloc_heap) \<Rightarrow> (nat \<times> nat \<times> nat) set \<Rightarrow> bool" where
  "lists_ok hp F \<longleftrightarrow> (\<forall>h idx. distinct (mh_free_head (hp h) idx) \<and>
     set (mh_free_head (hp h) idx) = {of_nat a | a n. (h, a, n) \<in> F \<and> fl_index n = idx})"

definition frees :: "(nat \<times> nat \<times> blk) set \<Rightarrow> (nat \<times> nat \<times> nat) set" where
  "frees B = {(h, x, b_size b) | h x b. (h, x, b) \<in> B \<and> b_free b}"

lemma frees_simps [simp]:
  "frees {} = {}" "frees (A \<union> B) = frees A \<union> frees B"
  "frees (insert (h, x, b) B) = (if b_free b then insert (h, x, b_size b) (frees B) else frees B)"
  by (auto simp: frees_def)

definition addr_inj :: "(nat \<times> nat \<times> nat) set \<Rightarrow> bool" where
  "addr_inj F \<longleftrightarrow> (\<forall>h a n h' a' n'. (h, a, n) \<in> F \<and> (h', a', n') \<in> F \<longrightarrow> a < 2 ^ 64 \<and>
     (a = a' \<longrightarrow> h = h' \<and> n = n'))"

lemma addr_inj_frees: "represents H L \<Longrightarrow> addr_inj (frees (blocks L))"
  unfolding addr_inj_def frees_def using blocks_range(3) blocks_addr_unique by fastforce

lemma addr_inj_subset: "addr_inj F \<Longrightarrow> F' \<subseteq> F \<Longrightarrow> addr_inj F'"
  unfolding addr_inj_def by blast

lemma lists_ok_remove:
  assumes ok: "lists_ok hp F" and inj: "addr_inj F" and a: "(h, a, n) \<in> F"
  shows "lists_ok (hp(h := (hp h)\<lparr>mh_free_head := (\<lambda>i. remove1 (of_nat a) (mh_free_head (hp h) i))\<rparr>))
    (F - {(h, a, n)})"
proof -
  have ne: "(of_nat a' :: u64) \<noteq> of_nat a" if "(h', a', n') \<in> F" "(h', a', n') \<noteq> (h, a, n)" for h' a' n'
  proof -
    have "a' < 2 ^ 64" "a < 2 ^ 64" "a' \<noteq> a" using inj that a unfolding addr_inj_def by blast+
    then show ?thesis by (simp add: of_nat_inj64)
  qed
  show ?thesis
    unfolding lists_ok_def
  proof (intro allI conjI)
    fix h' idx
    let ?l = "mh_free_head (hp h') idx"
    have l: "distinct ?l" "set ?l = {of_nat a | a n. (h', a, n) \<in> F \<and> fl_index n = idx}"
      using ok by (simp_all add: lists_ok_def)
    show "distinct (mh_free_head ((hp(h := (hp h)\<lparr>mh_free_head := \<lambda>i. remove1 (of_nat a) (mh_free_head (hp h) i)\<rparr>)) h') idx)"
      using l(1) by (auto simp: distinct_remove1)
    show "set (mh_free_head ((hp(h := (hp h)\<lparr>mh_free_head := \<lambda>i. remove1 (of_nat a) (mh_free_head (hp h) i)\<rparr>)) h') idx) =
        {of_nat x | x k. (h', x, k) \<in> F - {(h, a, n)} \<and> fl_index k = idx}"
      using l ne by (cases "h' = h") fastforce+
  qed
qed

lemma lists_ok_insert:
  assumes ok: "lists_ok hp F" and new: "\<And>h' n'. (h', a, n') \<notin> F" and inj: "addr_inj F" and a: "a < 2 ^ 64"
  shows "lists_ok (hp(h := (hp h)\<lparr>mh_free_head := (mh_free_head (hp h))
      (fl_index n := of_nat a # mh_free_head (hp h) (fl_index n))\<rparr>)) (insert (h, a, n) F)"
proof -
  have ne: "(of_nat a :: u64) \<noteq> of_nat a'" if "(h', a', n') \<in> F" for h' a' n'
  proof -
    have "a' < 2 ^ 64" "a \<noteq> a'" using inj new that unfolding addr_inj_def by blast+
    then show ?thesis using a by (simp add: of_nat_inj64)
  qed
  have l: "distinct (mh_free_head (hp h') idx)"
    "set (mh_free_head (hp h') idx) = {of_nat a | a n. (h', a, n) \<in> F \<and> fl_index n = idx}" for h' idx
    using ok by (simp_all add: lists_ok_def)
  have nin: "of_nat a \<notin> set (mh_free_head (hp h) idx)" for idx using l(2) ne by blast
  show ?thesis unfolding lists_ok_def using l nin by auto
qed

lemma lists_ok_upd:
  assumes "lists_ok hp F" "\<And>h. mh_free_head (hp' h) = mh_free_head (hp h)"
  shows "lists_ok hp' F"
  using assms by (simp add: lists_ok_def)

section \<open>Bytes\<close>

text \<open>Only the bytes under headers written at the addresses \<open>P\<close> have changed.\<close>

definition bytes_kept :: "nat set \<Rightarrow> mem \<Rightarrow> mem \<Rightarrow> bool" where
  "bytes_kept P m m' \<longleftrightarrow> (\<forall>x < 2 ^ 64. (\<forall>p \<in> P. \<not> (p \<le> x \<and> x < p + 64)) \<longrightarrow>
     m_byte m' (of_nat x) = m_byte m (of_nat x))"

lemma bytes_kept_refl [simp]: "bytes_kept {} m m"
  by (simp add: bytes_kept_def)

lemma bytes_kept_trans:
  "\<lbrakk>bytes_kept P m m'; bytes_kept Q m' m''\<rbrakk> \<Longrightarrow> bytes_kept (P \<union> Q) m m''"
  by (simp add: bytes_kept_def)

lemma bytes_kept_mono: "\<lbrakk>bytes_kept P m m'; P \<subseteq> Q\<rbrakk> \<Longrightarrow> bytes_kept Q m m'"
  unfolding bytes_kept_def by blast

lemma in_range64:
  assumes "p + n \<le> 2 ^ 64" "x < 2 ^ 64" "n < 2 ^ 64"
  shows "(of_nat x - of_nat p :: u64) < of_nat n \<longleftrightarrow> p \<le> x \<and> x < p + n"
proof (cases "p \<le> x")
  case True
  then have "unat (of_nat x - of_nat p :: u64) = x - p"
    using assms(2) by (simp add: of_nat_diff64 unat_of_nat64)
  then show ?thesis using True assms(3) by (auto simp: word_less_nat_alt unat_of_nat64)
next
  case False
  show ?thesis
  proof (cases "n = 0")
    case nz: False
    have "(of_nat x - of_nat p :: u64) = of_nat (2 ^ 64 + x) - of_nat p"
      by (simp add: of_nat_add)
    also have "\<dots> = of_nat (2 ^ 64 + x - p)" using assms nz by (intro of_nat_diff64) simp
    also have "unat \<dots> = 2 ^ 64 + x - p" using False by (intro unat_of_nat64) simp
    finally have "unat (of_nat x - of_nat p :: u64) = 2 ^ 64 + x - p" .
    then show ?thesis using False assms by (simp add: word_less_nat_alt unat_of_nat64)
  qed (use False in simp)
qed

lemma bytes_kept_write:
  assumes "p + 64 \<le> 2 ^ 64"
  shows "bytes_kept {p} m (write_hdr (of_nat p) e m)"
  using in_range64 [OF assms] by (simp add: bytes_kept_def write_hdr_def MALLOC_ELEM_HEADER_LEN_def)

lemma bytes_kept_upd: "p + 64 \<le> 2 ^ 64 \<Longrightarrow> bytes_kept {p} m (upd_hdr (of_nat p) f m)"
  unfolding upd_hdr_def by (rule bytes_kept_write)

lemma bytes_kept_heap: "bytes_kept P m m' \<Longrightarrow> bytes_kept P m (upd_heap h f m')"
  by (simp add: bytes_kept_def)

lemma bytes_kept_init: "p + 64 \<le> 2 ^ 64 \<Longrightarrow> bytes_kept {p} m (malloc_elem_init (of_nat p) h g sz m)"
  unfolding malloc_elem_init_def set_header_def set_trailer_def by (rule bytes_kept_write)

lemma byte_memset:
  assumes "p + n \<le> 2 ^ 64" "x < 2 ^ 64" "n < 2 ^ 64"
  shows "m_byte (memset_zero (of_nat p) (of_nat n) m) (of_nat x) =
    (if p \<le> x \<and> x < p + n then Some 0 else m_byte m (of_nat x))"
    "m_hdr (memset_zero (of_nat p) (of_nat n) m) (of_nat x) =
    (if p \<le> x \<and> x < p + n then zero_elem else m_hdr m (of_nat x))"
  using in_range64 [OF assms] by (simp_all add: memset_zero_def)

end
