(* ===== verification/Malloc_Steps.thy ===== *)
theory Malloc_Steps
  imports Malloc_Lists
begin

text \<open>
  The elementary operations on a represented layout with its free lists: what insertion, removal,
  split and join do to the headers, the lists and the bytes at once.
\<close>

declare of_nat_add [simp del] of_nat_diff [simp del]

text \<open>The parts of a heap other than its free lists.\<close>

definition heap_rest :: "mem \<Rightarrow> nat \<Rightarrow> rte_spinlock \<times> u32 \<times> u64" where
  "heap_rest m h = (mh_lock (m_heap m h), mh_alloc_count (m_heap m h), mh_total_size (m_heap m h))"

text \<open>\<open>state_ok m L F\<close>: the headers represent \<open>L\<close> and the free lists hold the elements \<open>F\<close>.\<close>

definition state_ok :: "mem \<Rightarrow> layout \<Rightarrow> (nat \<times> nat \<times> nat) set \<Rightarrow> bool" where
  "state_ok m L F \<longleftrightarrow> represents (m_hdr m) L \<and> lists_ok (m_heap m) F \<and> addr_inj F"

text \<open>One step: the new state, the addresses of the headers it wrote, nothing else changed.\<close>

definition step_ok :: "nat set \<Rightarrow> mem \<Rightarrow> mem \<Rightarrow> layout \<Rightarrow> (nat \<times> nat \<times> nat) set \<Rightarrow> bool" where
  "step_ok P m m' L F \<longleftrightarrow> state_ok m' L F \<and> bytes_kept P m m' \<and> heap_rest m' = heap_rest m \<and>
     m_seg m' = m_seg m"

lemma step_ok_trans:
  "\<lbrakk>step_ok P m m' L' F'; step_ok Q m' m'' L F\<rbrakk> \<Longrightarrow> step_ok (P \<union> Q) m m'' L F"
  by (simp add: step_ok_def) (meson bytes_kept_trans)

lemma step_ok_mono: "step_ok P m m' L F \<Longrightarrow> P \<subseteq> Q \<Longrightarrow> step_ok Q m m' L F"
  by (auto simp: step_ok_def intro: bytes_kept_mono)

lemma step_ok_refl: "state_ok m L F \<Longrightarrow> step_ok {} m m L F"
  by (simp add: step_ok_def)

lemma bytes_kept_then_upd:
  "\<lbrakk>bytes_kept P m m'; p + 64 \<le> 2 ^ 64\<rbrakk> \<Longrightarrow> bytes_kept (insert p P) m (upd_hdr (of_nat p) f m')"
  using bytes_kept_trans [of P m m' "{p}", OF _ bytes_kept_upd] by simp

section \<open>Segments with a distinguished block\<close>

text \<open>\<open>at L g s xs b ys e\<close>: block \<open>b\<close> of segment \<open>g\<close> lies at address \<open>e\<close> between \<open>xs\<close> and \<open>ys\<close>.\<close>

definition at :: "layout \<Rightarrow> nat \<Rightarrow> seg \<Rightarrow> blk list \<Rightarrow> blk \<Rightarrow> blk list \<Rightarrow> nat \<Rightarrow> bool" where
  "at L g s xs b ys e \<longleftrightarrow> L g = Some s \<and> sg_blks s = xs @ b # ys \<and> e = sg_start s + sizes xs"

abbreviation put_mid :: "layout \<Rightarrow> nat \<Rightarrow> seg \<Rightarrow> blk list \<Rightarrow> layout" where
  "put_mid L g s bs \<equiv> L(g \<mapsto> s\<lparr>sg_blks := bs\<rparr>)"

lemma at_blocks:
  assumes "at L g s xs b ys e"
  shows "(sg_heap s, e, b) \<in> blocks L"
proof -
  have "L g = Some s" "(e, b) \<in> set (addrs (sg_start s) (sg_blks s))"
    using assms by (simp_all add: at_def addrs_append)
  then show ?thesis unfolding blocks_def by blast
qed

lemma at_hdr:
  assumes "represents H L" "at L g s xs b ys e"
  shows "hdr_ok H (sg_heap s) g (last_addr 0 (sg_start s) xs) e b" "blk_ok b" "64 dvd e" "0 < e"
    "e + b_size b + 64 < 2 ^ 64"
proof -
  have g: "L g = Some s" "sg_blks s = xs @ b # ys" "e = sg_start s + sizes xs"
    using assms(2) by (simp_all add: at_def)
  have "chain H (sg_heap s) g 0 (sg_start s) (sg_blks s)"
    using assms(1) g(1) by (simp add: represents_def)
  then show "hdr_ok H (sg_heap s) g (last_addr 0 (sg_start s) xs) e b"
    by (simp add: chain_append chain_Cons g)
  have "(sg_heap s, e, b) \<in> blocks L" using assms(2) by (rule at_blocks)
  note r = blocks_range [OF assms(1) this]
  show "blk_ok b" "64 dvd e" "0 < e" "e + b_size b + 64 < 2 ^ 64" using r by simp_all
qed

lemma at_put:
  "at L g s xs b ys e \<Longrightarrow> at (put_mid L g s (xs @ c # zs)) g (s\<lparr>sg_blks := xs @ c # zs\<rparr>) xs c zs e"
  by (simp add: at_def)

lemma at_put2:
  "at L g s xs b ys e \<Longrightarrow>
   at (put_mid L g s (xs @ c # d # zs)) g (s\<lparr>sg_blks := xs @ c # d # zs\<rparr>) (xs @ [c]) d zs (e + b_size c)"
  by (simp add: at_def)

lemma represents_free_pad:
  assumes "represents H L" "at L g s xs b ys e" "b_free b"
  shows "represents H (put_mid L g s (xs @ Blk (b_size b) True p # ys))"
proof -
  have g: "L g = Some s" "sg_blks s = xs @ b # ys" "e = sg_start s + sizes xs"
    using assms(2) by (simp_all add: at_def)
  show ?thesis
    using at_hdr [OF assms(1,2)] assms(3)
    by (intro represents_state [OF assms(1) g]) (auto simp: blk_ok_def hdr_ok_def)
qed

section \<open>Removal and insertion\<close>

lemma remove_step:
  assumes ok: "state_ok m L F" and b: "at L g s xs b ys e" and F: "(sg_heap s, e, n) \<in> F"
  shows "step_ok {} m (elem_free_list_remove (of_nat e) m) L (F - {(sg_heap s, e, n)})"
proof -
  have rep: "represents (m_hdr m) L" and lists: "lists_ok (m_heap m) F" and inj: "addr_inj F"
    using ok by (simp_all add: state_ok_def)
  have "me_heap (m_hdr m (of_nat e)) = sg_heap s" using at_hdr(1) [OF rep b] by (simp add: hdr_ok_def)
  then have "lists_ok (m_heap (elem_free_list_remove (of_nat e) m)) (F - {(sg_heap s, e, n)})"
    using lists_ok_remove [OF lists inj F] by (simp add: elem_free_list_remove_def)
  moreover have "addr_inj (F - {(sg_heap s, e, n)})" using inj by (rule addr_inj_subset) blast
  ultimately show ?thesis
    using rep by (auto simp: step_ok_def state_ok_def elem_free_list_remove_def heap_rest_def bytes_kept_def)
qed

lemma insert_step:
  assumes ok: "state_ok m L F" and b: "at L g s xs b ys e" and new: "\<And>h n. (h, e, n) \<notin> F"
  shows "step_ok {e} m (malloc_elem_free_list_insert (of_nat e) m)
    (put_mid L g s (xs @ Blk (b_size b) True (b_pad b) # ys)) (insert (sg_heap s, e, b_size b) F)"
proof -
  have rep: "represents (m_hdr m) L" and lists: "lists_ok (m_heap m) F" and inj: "addr_inj F"
    using ok by (simp_all add: state_ok_def)
  note hd = at_hdr [OF rep b]
  have g: "L g = Some s" "sg_blks s = xs @ b # ys" "e = sg_start s + sizes xs"
    using b by (simp_all add: at_def)
  let ?m' = "malloc_elem_free_list_insert (of_nat e) m"
  have flds: "me_heap (m_hdr m (of_nat e)) = sg_heap s" "me_size (m_hdr m (of_nat e)) = of_nat (b_size b)"
    using hd(1) by (simp_all add: hdr_ok_def)
  have H': "m_hdr ?m' = (m_hdr m)(of_nat e := m_hdr m (of_nat e)\<lparr>me_state := ELEM_FREE\<rparr>)"
    by (simp add: malloc_elem_free_list_insert_def Let_def)
  have "represents (m_hdr ?m') (put_mid L g s (xs @ Blk (b_size b) True (b_pad b) # ys))"
  proof (rule represents_state [OF rep g])
    show "hdr_ok (m_hdr ?m') (sg_heap s) g (last_addr 0 (sg_start s) xs) e (Blk (b_size b) True (b_pad b))"
      using hd(1) by (simp add: H' hdr_ok_def)
    show "m_hdr ?m' (of_nat x) = m_hdr m (of_nat x)" if "x < 2 ^ 64" "x < e \<or> e + b_size b \<le> x" for x
      using that hd(2,5) by (auto simp: H' of_nat_inj64 blk_ok_def)
  qed (use hd(2) in \<open>auto simp: blk_ok_def\<close>)
  moreover have "lists_ok (m_heap ?m') (insert (sg_heap s, e, b_size b) F)"
    using lists_ok_insert [OF lists new inj, where h = "sg_heap s" and n = "b_size b"] hd(5)
    by (simp add: malloc_elem_free_list_insert_def Let_def flds fl_index_def)
  moreover have "addr_inj (insert (sg_heap s, e, b_size b) F)"
    using inj new hd(5) unfolding addr_inj_def by auto
  moreover have "bytes_kept {e} m ?m'"
    using hd(5) by (simp add: malloc_elem_free_list_insert_def Let_def bytes_kept_heap bytes_kept_upd)
  moreover have "heap_rest ?m' = heap_rest m" "m_seg ?m' = m_seg m"
    by (auto simp: malloc_elem_free_list_insert_def Let_def heap_rest_def)
  ultimately show ?thesis by (simp add: step_ok_def state_ok_def)
qed

section \<open>Split and join\<close>

lemma split_elem_heap [simp]:
  "m_heap (split_elem e p m) = m_heap m" "m_seg (split_elem e p m) = m_seg m"
  by (simp_all add: split_elem_def Let_def set_trailer_def)

lemma split_bytes:
  assumes sz: "me_size (m_hdr m (of_nat e)) = of_nat n" and k: "k \<le> n" and top: "e + n + 64 < 2 ^ 64"
  shows "bytes_kept {e, e + k, e + n} m (split_elem (of_nat e) (of_nat (e + k)) m)"
proof -
  have nx: "of_nat e + me_size (m_hdr m (of_nat e)) = of_nat (e + n)" by (simp only: sz of_nat_sum)
  have "bytes_kept (insert e (insert (e + n) (insert (e + k) {e + k}))) m (split_elem (of_nat e) (of_nat (e + k)) m)"
    unfolding split_elem_def Let_def set_trailer_def RTE_PTR_ADD_def nx
    by (intro bytes_kept_then_upd bytes_kept_init) (use k top in simp_all)
  then show ?thesis by (rule bytes_kept_mono) auto
qed

lemma split_step:
  assumes ok: "state_ok m L F" and b: "at L g s xs b ys e"
    and k: "64 dvd k" "64 < k" "64 < b_size b - k" "\<not> b_free b \<Longrightarrow> b_pad b + 64 < k"
  shows "step_ok {e, e + k, e + b_size b} m (split_elem (of_nat e) (of_nat (e + k)) m)
    (put_mid L g s (xs @ Blk k (b_free b) (b_pad b) # Blk (b_size b - k) True 0 # ys)) F"
proof -
  have rep: "represents (m_hdr m) L" using ok by (simp add: state_ok_def)
  have g: "L g = Some s" "sg_blks s = xs @ b # ys" "e = sg_start s + sizes xs"
    using b by (simp_all add: at_def)
  note hd = at_hdr [OF rep b]
  have "bytes_kept {e, e + k, e + b_size b} m (split_elem (of_nat e) (of_nat (e + k)) m)"
    using hd(1,5) k(3) by (intro split_bytes) (auto simp: hdr_ok_def)
  then show ?thesis
    using represents_split [OF rep g k] ok by (simp add: step_ok_def state_ok_def heap_rest_def fun_eq_iff)
qed

lemma join_elem_heap [simp]:
  "m_heap (join_elem e p m) = m_heap m" "m_seg (join_elem e p m) = m_seg m"
  by (simp_all add: join_elem_def Let_def)

lemma join_bytes:
  assumes sz: "me_size (m_hdr m (of_nat (e + n))) = of_nat k" and top: "e + n + k + 64 < 2 ^ 64"
  shows "bytes_kept {e, e + n + k} m (join_elem (of_nat e) (of_nat (e + n)) m)"
proof -
  have nx: "of_nat (e + n) + me_size (m_hdr m (of_nat (e + n))) = of_nat (e + n + k)"
    by (simp only: sz of_nat_sum)
  have "bytes_kept (insert (e + n + k) {e}) m (join_elem (of_nat e) (of_nat (e + n)) m)"
    unfolding join_elem_def Let_def RTE_PTR_ADD_def nx
    by (intro bytes_kept_then_upd bytes_kept_upd) (use top in simp_all)
  then show ?thesis by (rule bytes_kept_mono) auto
qed

lemma at_next:
  assumes "at L g s xs b (c # ys) e"
  shows "at L g s (xs @ [b]) c ys (e + b_size b)"
  using assms by (simp add: at_def)

lemma join_step:
  assumes ok: "state_ok m L F" and b: "at L g s xs b (c # ys) e"
  shows "step_ok {e, e + b_size b + b_size c} m (join_elem (of_nat e) (of_nat (e + b_size b)) m)
    (put_mid L g s (xs @ Blk (b_size b + b_size c) (b_free b) (b_pad b) # ys)) F"
proof -
  have rep: "represents (m_hdr m) L" using ok by (simp add: state_ok_def)
  have g: "L g = Some s" "sg_blks s = xs @ b # c # ys" "e = sg_start s + sizes xs"
    using b by (simp_all add: at_def)
  note hd = at_hdr [OF rep at_next [OF b]]
  have "bytes_kept {e, e + b_size b + b_size c} m (join_elem (of_nat e) (of_nat (e + b_size b)) m)"
    using hd(1,5) by (intro join_bytes) (auto simp: hdr_ok_def)
  then show ?thesis
    using represents_join [OF rep g] ok by (simp add: step_ok_def state_ok_def heap_rest_def fun_eq_iff)
qed

section \<open>Marking an element busy\<close>

lemma mark_busy_step:
  assumes ok: "state_ok m L F" and b: "at L g s xs b ys e" and pd: "64 dvd pd" "pd < 128" "pd + 64 < b_size b"
    and m': "m' = upd_hdr (of_nat e) (\<lambda>h. h\<lparr>me_state := ELEM_BUSY, me_pad := of_nat pd\<rparr>) m"
    and m'': "m'' = (if 0 < pd then upd_hdr (of_nat (e + pd)) f m' else m')"
    and f: "\<And>h. me_state (f h) = ELEM_PAD" "\<And>h. me_pad (f h) = of_nat pd"
  shows "step_ok {e, e + pd} m m'' (put_mid L g s (xs @ Blk (b_size b) False pd # ys)) F"
proof -
  have rep: "represents (m_hdr m) L" using ok by (simp add: state_ok_def)
  note hd = at_hdr [OF rep b]
  have g: "L g = Some s" "sg_blks s = xs @ b # ys" "e = sg_start s + sizes xs"
    using b by (simp_all add: at_def)
  have ne: "(of_nat (e + pd) :: u64) = of_nat e \<longleftrightarrow> pd = 0"
    using pd(3) hd(5) by (simp add: of_nat_inj64)
  have "represents (m_hdr m'') (put_mid L g s (xs @ Blk (b_size b) False pd # ys))"
  proof (rule represents_state [OF rep g])
    show "hdr_ok (m_hdr m'') (sg_heap s) g (last_addr 0 (sg_start s) xs) e (Blk (b_size b) False pd)"
      using hd(1) f ne by (auto simp: m'' m' hdr_ok_def)
    show "m_hdr m'' (of_nat x) = m_hdr m (of_nat x)" if "x < 2 ^ 64" "x < e \<or> e + b_size b \<le> x" for x
      using that pd(3) hd(5) by (auto simp: m'' m' of_nat_inj64)
  qed (use hd(2) pd in \<open>auto simp: blk_ok_def\<close>)
  moreover have "bytes_kept {e, e + pd} m m''"
  proof -
    have k: "bytes_kept {e} m m'" unfolding m' using hd(5) by (intro bytes_kept_upd) simp
    have "bytes_kept {e + pd} m' m''" if "0 < pd"
      unfolding m'' using that hd(5) pd(3) by (auto intro!: bytes_kept_upd)
    then have "bytes_kept ({e} \<union> {e + pd}) m m''"
      using k bytes_kept_trans [OF k] by (cases "0 < pd") (auto simp: m'' intro: bytes_kept_mono)
    then show ?thesis by (rule bytes_kept_mono) auto
  qed
  moreover have hp: "m_heap m'' = m_heap m" "m_seg m'' = m_seg m" by (simp_all add: m'' m')
  moreover have "heap_rest m'' = heap_rest m" by (rule ext) (simp add: heap_rest_def hp)
  ultimately show ?thesis using ok by (simp add: step_ok_def state_ok_def)
qed

end
