(* ===== verification/Malloc_Alloc.thy ===== *)
theory Malloc_Alloc
  imports Malloc_Steps
begin

text \<open>
  Allocation from a free element: \<open>malloc_elem_alloc\<close> replaces the free block by an optional free
  block in front, the busy block, and an optional free block behind.
\<close>

declare of_nat_add [simp del] of_nat_diff [simp del]

text \<open>The blocks that replace a free block of size \<open>n\<close> when \<open>z\<close> bytes are placed \<open>front\<close> bytes into it.\<close>

definition alloc_tail :: "nat \<Rightarrow> nat \<Rightarrow> nat \<Rightarrow> nat" where
  "alloc_tail n front z = (let t = n - front - z - 64 in if 128 < t then t else 0)"

definition tail_blk :: "nat \<Rightarrow> blk list" where
  "tail_blk t = (if 0 < t then [Blk t True 0] else [])"

definition alloc_blks :: "nat \<Rightarrow> nat \<Rightarrow> nat \<Rightarrow> nat \<Rightarrow> blk list" where
  "alloc_blks n p front z =
     (let t = alloc_tail n front z in
      (if front < 128 then [Blk (n - t) False front]
       else [Blk front True p, Blk (n - t - front) False 0]) @ tail_blk t)"

lemma sizes_tail_blk [simp]: "sizes (tail_blk t) = t"
  by (simp add: tail_blk_def)

lemma sizes_alloc_blks:
  assumes "front + 64 + z \<le> n"
  shows "sizes (alloc_blks n p front z) = n"
  using assms by (auto simp: alloc_blks_def alloc_tail_def Let_def)

lemma no_inner_free:
  assumes "represents H L" "at L g s xs b ys e" "e < p" "p < e + b_size b"
  shows "(h, p, n) \<notin> frees (blocks L)"
proof
  assume "(h, p, n) \<in> frees (blocks L)"
  then obtain c where c: "(h, p, c) \<in> blocks L" by (auto simp: frees_def)
  have "0 < b_size c" using blocks_range(4) [OF assms(1) c] by (simp add: blk_ok_def)
  then have "(sg_heap s, e, b) = (h, p, c)"
    using assms(3,4) by (intro blocks_disjoint [OF assms(1) at_blocks [OF assms(2)] c, of p]) auto
  then show False using assms(3) by simp
qed

lemma at_frees: "\<lbrakk>at L g s xs b ys e; b_free b\<rbrakk> \<Longrightarrow> (sg_heap s, e, b_size b) \<in> frees (blocks L)"
  using at_blocks unfolding frees_def by blast

lemma mark_busy0_step:
  assumes ok: "state_ok m L F" and b: "at L g s xs b ys e" and pad: "me_pad (m_hdr m (of_nat e)) = 0"
  shows "step_ok {e} m (upd_hdr (of_nat e) (\<lambda>h. h\<lparr>me_state := ELEM_BUSY\<rparr>) m)
    (put_mid L g s (xs @ Blk (b_size b) False 0 # ys)) F"
proof -
  have "blk_ok b" using ok b at_hdr(2) by (auto simp: state_ok_def)
  then have sz: "64 < b_size b" by (simp add: blk_ok_def)
  have "h\<lparr>me_state := ELEM_BUSY\<rparr> = h\<lparr>me_state := ELEM_BUSY, me_pad := of_nat 0\<rparr>"
    if "me_pad h = 0" for h :: malloc_elem
    using that by (cases h) simp
  then have eq: "upd_hdr (of_nat e) (\<lambda>h. h\<lparr>me_state := ELEM_BUSY\<rparr>) m =
    upd_hdr (of_nat e) (\<lambda>h. h\<lparr>me_state := ELEM_BUSY, me_pad := of_nat 0\<rparr>) m"
    using pad unfolding upd_hdr_def by metis
  have "step_ok {e, e + 0} m (upd_hdr (of_nat e) (\<lambda>h. h\<lparr>me_state := ELEM_BUSY, me_pad := of_nat 0\<rparr>) m)
    (put_mid L g s (xs @ Blk (b_size b) False 0 # ys)) F"
    by (rule mark_busy_step [OF ok b, where f = "\<lambda>h. h\<lparr>me_state := ELEM_PAD, me_pad := of_nat 0\<rparr>"])
      (use sz in simp_all)
  then show ?thesis unfolding eq by simp
qed

text \<open>The first half of \<open>malloc_elem_alloc\<close>: unlink, and cut off the rest behind the data.\<close>

lemma alloc_tail_step:
  assumes ok: "state_ok m L (frees (blocks L))" and b: "at L g s xs b ys e" and fr: "b_free b"
    and w: "front + 64 + z \<le> b_size b" "64 dvd front" "64 dvd z" "0 < z"
  defines "t \<equiv> alloc_tail (b_size b) front z"
  defines "m1 \<equiv> elem_free_list_remove (of_nat e) m"
  shows "step_ok {e, e + (b_size b - t), e + b_size b} m
    (if 0 < t then malloc_elem_free_list_insert (of_nat (e + (b_size b - t)))
       (split_elem (of_nat e) (of_nat (e + (b_size b - t))) m1) else m1)
    (put_mid L g s (xs @ Blk (b_size b - t) True (b_pad b) # tail_blk t @ ys))
    (frees (blocks L) - {(sg_heap s, e, b_size b)} \<union>
       frees (mid_blocks (sg_heap s) (e + (b_size b - t)) (tail_blk t)))"
proof -
  let ?F1 = "frees (blocks L) - {(sg_heap s, e, b_size b)}"
  have rep: "represents (m_hdr m) L" using ok by (simp add: state_ok_def)
  have s1: "step_ok {} m m1 L ?F1" unfolding m1_def by (rule remove_step [OF ok b at_frees [OF b fr]])
  then have ok1: "state_ok m1 L ?F1" by (simp add: step_ok_def)
  show ?thesis
  proof (cases "0 < t")
    case False
    have bs: "sg_blks s = xs @ b # ys" "L g = Some s" using b by (simp_all add: at_def)
    have "represents (m_hdr m1) (put_mid L g s (xs @ Blk (b_size b) True (b_pad b) # ys))"
      using ok1 b fr by (intro represents_free_pad) (auto simp: state_ok_def)
    then have "step_ok {} m m1 (put_mid L g s (xs @ Blk (b_size b) True (b_pad b) # ys)) ?F1"
      using s1 by (simp add: step_ok_def state_ok_def)
    then have "step_ok {e, e + (b_size b - t), e + b_size b} m m1
        (put_mid L g s (xs @ Blk (b_size b) True (b_pad b) # ys)) ?F1"
      by (rule step_ok_mono) simp
    then show ?thesis using False by (simp add: tail_blk_def)
  next
    case True
    let ?k = "b_size b - t"
    have t: "t = b_size b - front - z - 64" "128 < t"
      using True by (auto simp: t_def alloc_tail_def Let_def split: if_splits)
    have k: "?k = front + 64 + z" using t by simp
    have bk: "b_size b - ?k = t" using t by simp
    have "64 dvd front + 64 + z" using w(2,3) by (simp add: dvd_add)
    then have s2: "step_ok {e, e + ?k, e + b_size b} m1 (split_elem (of_nat e) (of_nat (e + ?k)) m1)
      (put_mid L g s (xs @ Blk ?k True (b_pad b) # Blk t True 0 # ys)) ?F1"
      using split_step [OF ok1 b, of ?k] fr w(4) t(2) bk by (simp add: k)
    then have ok2: "state_ok (split_elem (of_nat e) (of_nat (e + ?k)) m1)
      (put_mid L g s (xs @ Blk ?k True (b_pad b) # Blk t True 0 # ys)) ?F1" by (simp add: step_ok_def)
    have new: "(h, e + ?k, n) \<notin> ?F1" for h n
      using no_inner_free [OF rep b, of "e + ?k"] t w by simp
    note at2 = at_put2 [OF b, of "Blk ?k True (b_pad b)" "Blk t True 0" ys, simplified]
    have s3: "step_ok {e + ?k} (split_elem (of_nat e) (of_nat (e + ?k)) m1)
      (malloc_elem_free_list_insert (of_nat (e + ?k)) (split_elem (of_nat e) (of_nat (e + ?k)) m1))
      (put_mid L g s (xs @ Blk ?k True (b_pad b) # Blk t True 0 # ys)) (insert (sg_heap s, e + ?k, t) ?F1)"
      using insert_step [OF ok2 at2 new] by simp
    have "step_ok ({} \<union> {e, e + ?k, e + b_size b} \<union> {e + ?k}) m
      (malloc_elem_free_list_insert (of_nat (e + ?k)) (split_elem (of_nat e) (of_nat (e + ?k)) m1))
      (put_mid L g s (xs @ Blk ?k True (b_pad b) # Blk t True 0 # ys)) (insert (sg_heap s, e + ?k, t) ?F1)"
      by (rule step_ok_trans [OF step_ok_trans [OF s1 s2] s3])
    then show ?thesis using True by (simp add: tail_blk_def insert_absorb2 insert_commute)
  qed
qed

text \<open>The second half: pad the element, or split it and return its second part.\<close>

lemma alloc_front_pad:
  assumes ok: "state_ok m L F" and b: "at L g s xs b ys e"
    and w: "front + 64 < b_size b" "64 dvd front" "front < 128"
  defines "m1 \<equiv> upd_hdr (of_nat e) (\<lambda>h. h\<lparr>me_state := ELEM_BUSY, me_pad := of_nat front\<rparr>) m"
  shows "step_ok {e, e + front} m
    (if me_pad (m_hdr m1 (of_nat e)) > 0
     then set_header (of_nat (e + front)) (upd_hdr (of_nat (e + front)) (\<lambda>h. h\<lparr>me_pad := me_pad (m_hdr m1 (of_nat e)),
        me_state := ELEM_PAD, me_size := me_size (m_hdr m1 (of_nat e)) - ucast (me_pad (m_hdr m1 (of_nat e)))\<rparr>) m1)
     else m1)
    (put_mid L g s (xs @ Blk (b_size b) False front # ys)) F"
proof -
  have pad: "me_pad (m_hdr m1 (of_nat e)) = of_nat front" by (simp add: m1_def)
  have "unat (of_nat front :: u32) = front" using w(3) by (intro unat_of_nat_small) simp
  then have pos: "(of_nat front :: u32) > 0 \<longleftrightarrow> 0 < front" by (simp add: word_less_nat_alt)
  show ?thesis
    unfolding set_header_def pad pos
    by (rule mark_busy_step [OF ok b w(2,3,1) m1_def [THEN meta_eq_to_obj_eq] refl]) simp_all
qed

lemma alloc_front_split:
  assumes ok: "state_ok m L F" and b: "at L g s xs b ys e" and fr: "b_free b"
    and new: "\<And>h n. (h, e, n) \<notin> F"
    and w: "64 < b_size b - front" "64 dvd front" "64 < front"
  defines "m1 \<equiv> split_elem (of_nat e) (of_nat (e + front)) m"
  shows "step_ok {e, e + front, e + b_size b} m
    (malloc_elem_free_list_insert (of_nat e)
      (upd_hdr (of_nat (e + front)) (\<lambda>h. h\<lparr>me_state := ELEM_BUSY\<rparr>) m1))
    (put_mid L g s (xs @ Blk front True (b_pad b) # Blk (b_size b - front) False 0 # ys))
    (insert (sg_heap s, e, front) F)"
proof -
  let ?b1 = "Blk front True (b_pad b)" and ?b2 = "Blk (b_size b - front) True 0"
    and ?b3 = "Blk (b_size b - front) False 0"
  let ?m2 = "upd_hdr (of_nat (e + front)) (\<lambda>h. h\<lparr>me_state := ELEM_BUSY\<rparr>) m1"
  have rep: "represents (m_hdr m) L" using ok by (simp add: state_ok_def)
  note hd = at_hdr [OF rep b]
  have s1: "step_ok {e, e + front, e + b_size b} m m1 (put_mid L g s (xs @ ?b1 # ?b2 # ys)) F"
    unfolding m1_def using split_step [OF ok b w(2,3,1)] fr by simp
  then have ok1: "state_ok m1 (put_mid L g s (xs @ ?b1 # ?b2 # ys)) F" by (simp add: step_ok_def)
  have "m_hdr m1 (of_nat (e + front)) = \<lparr>me_heap = me_heap (m_hdr m (of_nat e)), me_prev = of_nat e,
       me_ms = me_ms (m_hdr m (of_nat e)), me_state = ELEM_FREE, me_pad = 0, me_size = of_nat (b_size b - front)\<rparr>"
    unfolding m1_def using hd w
    by (subst split_elem_hdr [where n = "b_size b"]) (auto simp: hdr_ok_def of_nat_inj64)
  then have pad: "me_pad (m_hdr m1 (of_nat (e + front))) = 0" by simp
  note at2 = at_put2 [OF b, of ?b1 ?b2 ys, simplified]
  have s2: "step_ok {e + front} m1 ?m2 (put_mid L g s (xs @ ?b1 # ?b3 # ys)) F"
    using mark_busy0_step [OF ok1 at2 pad] by simp
  then have ok2: "state_ok ?m2 (put_mid L g s (xs @ ?b1 # ?b3 # ys)) F" by (simp add: step_ok_def)
  have s3: "step_ok {e} ?m2 (malloc_elem_free_list_insert (of_nat e) ?m2)
    (put_mid L g s (xs @ ?b1 # ?b3 # ys)) (insert (sg_heap s, e, front) F)"
    using insert_step [OF ok2 at_put [OF b] new] by simp
  have "step_ok ({e, e + front, e + b_size b} \<union> {e + front} \<union> {e}) m (malloc_elem_free_list_insert (of_nat e) ?m2)
    (put_mid L g s (xs @ ?b1 # ?b3 # ys)) (insert (sg_heap s, e, front) F)"
    by (rule step_ok_trans [OF step_ok_trans [OF s1 s2] s3])
  then show ?thesis by (rule step_ok_mono) auto
qed

text \<open>Both halves.\<close>

lemma malloc_elem_alloc_step:
  assumes ok: "state_ok m L (frees (blocks L))" and b: "at L g s xs b ys e" and fr: "b_free b"
    and sp: "elem_start_pt (of_nat e) sz al bd m = of_nat (e + front)"
    and z: "z = unat sz"
    and w: "front + 64 + z \<le> b_size b" "64 dvd front" "64 dvd z" "0 < z"
  shows "snd (malloc_elem_alloc (of_nat e) sz al bd m) = of_nat (e + front)"
    and "step_ok {e, e + front, e + front + 64 + z, e + b_size b} m (fst (malloc_elem_alloc (of_nat e) sz al bd m))
      (put_mid L g s (xs @ alloc_blks (b_size b) (b_pad b) front z @ ys))
      (frees (blocks L) - {(sg_heap s, e, b_size b)} \<union>
        frees (mid_blocks (sg_heap s) e (alloc_blks (b_size b) (b_pad b) front z)))"
proof -
  let ?n = "b_size b" and ?h = "sg_heap s"
  define t where "t = alloc_tail ?n front z"
  define m1 where "m1 = elem_free_list_remove (of_nat e) m"
  define m3 where "m3 = (if 0 < t then malloc_elem_free_list_insert (of_nat (e + (?n - t)))
       (split_elem (of_nat e) (of_nat (e + (?n - t))) m1) else m1)"
  have rep: "represents (m_hdr m) L" using ok by (simp add: state_ok_def)
  note hd = at_hdr [OF rep b]
  have nlt: "?n < 2 ^ 64" using hd(5) by simp
  let ?LT = "put_mid L g s (xs @ Blk (?n - t) True (b_pad b) # tail_blk t @ ys)"
  let ?FT = "frees (blocks L) - {(?h, e, ?n)} \<union> frees (mid_blocks ?h (e + (?n - t)) (tail_blk t))"
  have s1: "step_ok {e, e + (?n - t), e + ?n} m m3 ?LT ?FT"
    unfolding m3_def m1_def t_def by (rule alloc_tail_step [OF ok b fr w])
  then have ok3: "state_ok m3 ?LT ?FT" by (simp add: step_ok_def)
  have tn: "t = 0 \<or> t = ?n - front - z - 64 \<and> 128 < t" by (auto simp: t_def alloc_tail_def Let_def)
  have big: "front + 64 + z \<le> ?n - t" using tn w(1) by auto
  note at3 = at_put [OF b, of "Blk (?n - t) True (b_pad b)" "tail_blk t @ ys"]
  text \<open>The word arithmetic of the code.\<close>
  have szw: "sz = of_nat z" by (simp add: z)
  have old: "of_nat (e + front) - of_nat e = (of_nat front :: u64)" using of_nat_diff64 [of e "e + front"] by simp
  have rem: "me_size (m_hdr m (of_nat e)) - of_nat front - sz - MALLOC_ELEM_OVERHEAD = of_nat (?n - front - z - 64)"
  proof -
    have "of_nat ?n - of_nat front - of_nat z - of_nat 64 = (of_nat (?n - front - z - 64) :: u64)"
      using w(1) by (simp only: of_nat_diff64)
    then show ?thesis using hd(1)
      by (simp add: hdr_ok_def szw MALLOC_ELEM_OVERHEAD_def MALLOC_ELEM_HEADER_LEN_def MALLOC_ELEM_TRAILER_LEN_def)
  qed
  have gt: "(of_nat (?n - front - z - 64) :: u64) > MALLOC_ELEM_OVERHEAD + MIN_DATA_SIZE \<longleftrightarrow> 0 < t"
    using nlt by (auto simp: word_less_nat_alt unat_of_nat64 MALLOC_ELEM_OVERHEAD_def MALLOC_ELEM_HEADER_LEN_def
        MALLOC_ELEM_TRAILER_LEN_def MIN_DATA_SIZE_def RTE_CACHE_LINE_SIZE_def t_def alloc_tail_def Let_def)
  have lt: "(of_nat front :: u64) < MALLOC_ELEM_OVERHEAD + MIN_DATA_SIZE \<longleftrightarrow> front < 128"
    using nlt w(1) by (simp add: word_less_nat_alt unat_of_nat64 MALLOC_ELEM_OVERHEAD_def MALLOC_ELEM_HEADER_LEN_def
        MALLOC_ELEM_TRAILER_LEN_def MIN_DATA_SIZE_def RTE_CACHE_LINE_SIZE_def)
  have nf: "RTE_PTR_ADD (of_nat (e + front)) (sz + MALLOC_ELEM_OVERHEAD) = of_nat (e + (?n - t))" if "0 < t"
  proof -
    have "of_nat (e + front) + (of_nat z + of_nat 64) = (of_nat (e + front + (z + 64)) :: u64)"
      by (simp only: of_nat_sum)
    moreover have "e + front + (z + 64) = e + (?n - t)" using tn that w(1) by auto
    ultimately show ?thesis
      by (simp add: RTE_PTR_ADD_def szw MALLOC_ELEM_OVERHEAD_def MALLOC_ELEM_HEADER_LEN_def MALLOC_ELEM_TRAILER_LEN_def)
  qed
  have P: "{e, e + (?n - t), e + ?n} \<union> {e, e + front, e + (?n - t)} \<subseteq> {e, e + front, e + front + 64 + z, e + ?n}"
    using tn w(1) by auto
  have eq: "malloc_elem_alloc (of_nat e) sz al bd m =
    (if front < 128 then
       (let m' = upd_hdr (of_nat e) (\<lambda>h. h\<lparr>me_state := ELEM_BUSY, me_pad := ucast (of_nat front :: u64)\<rparr>) m3
        in (if me_pad (m_hdr m' (of_nat e)) > 0
            then set_header (of_nat (e + front)) (upd_hdr (of_nat (e + front)) (\<lambda>h. h\<lparr>me_pad := me_pad (m_hdr m' (of_nat e)),
               me_state := ELEM_PAD, me_size := me_size (m_hdr m' (of_nat e)) - ucast (me_pad (m_hdr m' (of_nat e)))\<rparr>) m')
            else m'))
     else malloc_elem_free_list_insert (of_nat e)
       (upd_hdr (of_nat (e + front)) (\<lambda>h. h\<lparr>me_state := ELEM_BUSY\<rparr>) (split_elem (of_nat e) (of_nat (e + front)) m3)),
     of_nat (e + front))"
    unfolding malloc_elem_alloc_def sp Let_def old rem gt lt m1_def [symmetric] using nf
    by (simp add: m3_def cong: if_cong)
  show "snd (malloc_elem_alloc (of_nat e) sz al bd m) = of_nat (e + front)" by (simp add: eq)
  let ?P = "{e, e + front, e + front + 64 + z, e + ?n}"
  show "step_ok ?P m (fst (malloc_elem_alloc (of_nat e) sz al bd m))
      (put_mid L g s (xs @ alloc_blks ?n (b_pad b) front z @ ys))
      (frees (blocks L) - {(?h, e, ?n)} \<union> frees (mid_blocks ?h e (alloc_blks ?n (b_pad b) front z)))"
  proof (cases "front < 128")
    case True
    then have "front = 0 \<or> front = 64" using w(2) by (auto elim!: dvdE)
    then have uc: "(ucast (of_nat front :: u64) :: u32) = of_nat front" by auto
    have pd: "front + 64 < b_size (Blk (?n - t) True (b_pad b))" using big w(4) by simp
    note s2 = alloc_front_pad [OF ok3 at3 pd w(2) True, folded uc]
    show ?thesis
      using step_ok_mono [OF step_ok_trans [OF s1 s2], of ?P] P True
      by (simp add: eq alloc_blks_def Let_def flip: t_def)
  next
    case False
    have new: "(h, e, n) \<notin> ?FT" for h n
    proof
      assume a: "(h, e, n) \<in> ?FT"
      have "addr_inj (frees (blocks L))" using ok by (simp add: state_ok_def)
      then have "(h, e, n) \<notin> frees (blocks L) - {(?h, e, ?n)}"
        using at_frees [OF b fr] unfolding addr_inj_def by blast
      then show False using a big w(4) by (auto simp: tail_blk_def split: if_splits)
    qed
    have d: "64 < b_size (Blk (?n - t) True (b_pad b)) - front" "64 < front" using big w(4) False by simp_all
    note s2 = alloc_front_split [OF ok3 at3 _ new d(1) w(2) d(2), simplified]
    show ?thesis
      using step_ok_mono [OF step_ok_trans [OF s1 s2], of ?P] P False big w(4)
      by (simp add: eq alloc_blks_def Let_def add.assoc flip: t_def)
  qed
qed

end
