(* ===== verification/Malloc_Inv.thy ===== *)
theory Malloc_Inv
  imports Malloc_Alloc
begin

text \<open>
  The invariant of the allocator, with the abstraction to the set of live regions, and the lemma by
  which every operation re-establishes it: a run of blocks of one segment is replaced by another.
\<close>

declare of_nat_add [simp del] of_nat_diff [simp del]

section \<open>The invariant\<close>

text \<open>No two neighbours are both free.\<close>

definition coalesced :: "blk list \<Rightarrow> bool" where
  "coalesced bs \<longleftrightarrow> successively (\<lambda>a b. \<not> (b_free a \<and> b_free b)) bs"

text \<open>The data of free elements are zero.\<close>

definition zero_ok :: "mem \<Rightarrow> (nat \<times> nat \<times> blk) set \<Rightarrow> bool" where
  "zero_ok m B \<longleftrightarrow> (\<forall>h x b y. (h, x, b) \<in> B \<and> b_free b \<and> x + 64 \<le> y \<and> y < x + b_size b \<longrightarrow>
     m_byte m (of_nat y) = Some 0)"

text \<open>The busy blocks of a heap, and the regions handed out: data pointer and usable length.\<close>

definition busy :: "(nat \<times> nat \<times> blk) set \<Rightarrow> nat \<Rightarrow> (nat \<times> blk) set" where
  "busy B h = {(x, b). (h, x, b) \<in> B \<and> \<not> b_free b}"

definition live :: "(nat \<times> nat \<times> blk) set \<Rightarrow> (nat \<times> nat) set" where
  "live B = {(x + b_pad b + 64, b_size b - b_pad b - 64) | h x b. (h, x, b) \<in> B \<and> \<not> b_free b}"

text \<open>The bytes of the elements of a heap.\<close>

definition heap_total :: "layout \<Rightarrow> nat \<Rightarrow> nat" where
  "heap_total L h = (\<Sum>g \<in> dom L. if sg_heap (the (L g)) = h then sizes (sg_blks (the (L g))) else 0)"

definition heap_ok :: "nat \<Rightarrow> mem \<Rightarrow> layout \<Rightarrow> bool" where
  "heap_ok lim m L \<longleftrightarrow> state_ok m L (frees (blocks L)) \<and> finite (dom L) \<and>
     (\<forall>g s. L g = Some s \<longrightarrow> lim \<le> sg_start s \<and> coalesced (sg_blks s)) \<and>
     zero_ok m (blocks L) \<and>
     (\<forall>h. mh_alloc_count (m_heap m h) = of_nat (card (busy (blocks L) h)) \<and>
          mh_total_size (m_heap m h) = of_nat (heap_total L h))"

definition unlocked :: "mem \<Rightarrow> bool" where
  "unlocked m \<longleftrightarrow> (\<forall>h. sl_locked (mh_lock (m_heap m h)) = 0)"

lemma heap_okD:
  assumes "heap_ok lim m L"
  shows "state_ok m L (frees (blocks L))" "represents (m_hdr m) L" "lists_ok (m_heap m) (frees (blocks L))"
    "finite (dom L)" "\<And>g s. L g = Some s \<Longrightarrow> lim \<le> sg_start s" "\<And>g s. L g = Some s \<Longrightarrow> coalesced (sg_blks s)"
    "zero_ok m (blocks L)" "\<And>h. mh_total_size (m_heap m h) = of_nat (heap_total L h)"
    "\<And>h. mh_alloc_count (m_heap m h) = of_nat (card (busy (blocks L) h))"
  using assms by (simp_all add: heap_ok_def state_ok_def)

lemma heap_total_put:
  assumes "L g = Some s" "sizes bs = sizes (sg_blks s)"
  shows "heap_total (put_mid L g s bs) h = heap_total L h"
proof -
  have "dom (put_mid L g s bs) = dom L" using assms(1) by (auto simp: dom_def)
  then show ?thesis unfolding heap_total_def using assms by (intro sum.cong) simp_all
qed

text \<open>The invariant depends neither on the locks nor on the segment descriptors.\<close>

lemma heap_ok_cong:
  assumes "heap_ok lim m L" "m_hdr m' = m_hdr m" "m_byte m' = m_byte m"
    "\<And>h. mh_free_head (m_heap m' h) = mh_free_head (m_heap m h)"
    "\<And>h. mh_alloc_count (m_heap m' h) = mh_alloc_count (m_heap m h)"
    "\<And>h. mh_total_size (m_heap m' h) = mh_total_size (m_heap m h)"
  shows "heap_ok lim m' L"
  using assms by (simp add: heap_ok_def state_ok_def zero_ok_def lists_ok_def)

lemma busy_Un: "busy (A \<union> B) h = busy A h \<union> busy B h"
  by (auto simp: busy_def)

lemma busy_Diff: "busy (A - B) h = busy A h - busy B h"
  by (auto simp: busy_def)

lemma busy_insert:
  "busy (insert (h', x, b) B) h = (if h' = h \<and> \<not> b_free b then insert (x, b) (busy B h) else busy B h)"
  by (auto simp: busy_def)

lemma busy_empty [simp]: "busy {} h = {}"
  by (simp add: busy_def)

lemma live_simps [simp]:
  "live {} = {}" "live (A \<union> B) = live A \<union> live B"
  "live (insert (h, x, b) B) =
    (if b_free b then live B else insert (x + b_pad b + 64, b_size b - b_pad b - 64) (live B))"
  by (auto simp: live_def)

lemma finite_blocks: "finite (dom L) \<Longrightarrow> finite (blocks L)"
proof -
  assume "finite (dom L)"
  moreover have "blocks L = (\<Union>g \<in> dom L. mid_blocks (sg_heap (the (L g))) (sg_start (the (L g))) (sg_blks (the (L g))))"
    unfolding blocks_def mid_blocks_def by (fastforce simp: dom_def)
  ultimately show ?thesis by (simp add: mid_blocks_def)
qed

lemma finite_busy: "finite B \<Longrightarrow> finite (busy B h)"
proof -
  assume "finite B"
  moreover have "busy B h \<subseteq> (\<lambda>(h, x, b). (x, b)) ` B" by (force simp: busy_def)
  ultimately show ?thesis by (meson finite_imageI finite_subset)
qed

section \<open>The live regions\<close>

lemma live_mem: "(h, x, b) \<in> B \<Longrightarrow> \<not> b_free b \<Longrightarrow> (x + b_pad b + 64, b_size b - b_pad b - 64) \<in> live B"
  unfolding live_def by blast

lemma live_cases:
  assumes "represents H L" "(p, n) \<in> live (blocks L)"
  obtains h x b where "(h, x, b) \<in> blocks L" "\<not> b_free b" "p = x + b_pad b + 64" "n = b_size b - b_pad b - 64"
    "x < p" "0 < n" "p + n = x + b_size b"
proof -
  from assms(2) obtain h x b where b: "(h, x, b) \<in> blocks L" "\<not> b_free b" "p = x + b_pad b + 64"
    "n = b_size b - b_pad b - 64" unfolding live_def by blast
  then show thesis using blocks_range(4) [OF assms(1) b(1)] by (intro that [of h x b]) (auto simp: blk_ok_def)
qed

text \<open>Regions do not overlap.\<close>

lemma live_disjoint:
  assumes rep: "represents H L" and l: "(p, n) \<in> live (blocks L)" "(p', n') \<in> live (blocks L)"
    and y: "p \<le> y" "y < p + n" "p' \<le> y" "y < p' + n'"
  shows "(p, n) = (p', n')"
proof -
  from rep l(1) obtain h x b where b: "(h, x, b) \<in> blocks L" "p = x + b_pad b + 64" "n = b_size b - b_pad b - 64"
    "x < p" "p + n = x + b_size b" by (rule live_cases)
  from rep l(2) obtain h' x' b' where b': "(h', x', b') \<in> blocks L" "p' = x' + b_pad b' + 64"
    "n' = b_size b' - b_pad b' - 64" "x' < p'" "p' + n' = x' + b_size b'" by (rule live_cases)
  have "(h, x, b) = (h', x', b')"
    using blocks_disjoint [OF rep b(1) b'(1), of y] y b(4,5) b'(4,5) by simp
  then show ?thesis using b(2,3) b'(2,3) by simp
qed

lemma live_Diff:
  assumes rep: "represents H L" and M: "M \<subseteq> blocks L"
  shows "live (blocks L - M) = live (blocks L) - live M"
proof
  have sub: "live M \<subseteq> live (blocks L)" using M unfolding live_def by blast
  show "live (blocks L - M) \<subseteq> live (blocks L) - live M"
  proof
    fix r assume r: "r \<in> live (blocks L - M)"
    then obtain h x b where b: "(h, x, b) \<in> blocks L" "(h, x, b) \<notin> M" "\<not> b_free b"
      "r = (x + b_pad b + 64, b_size b - b_pad b - 64)" unfolding live_def by blast
    have "r \<notin> live M"
    proof
      assume "r \<in> live M"
      then obtain h' x' b' where b': "(h', x', b') \<in> M" "\<not> b_free b'"
        "r = (x' + b_pad b' + 64, b_size b' - b_pad b' - 64)" unfolding live_def by blast
      have "blk_ok b" "blk_ok b'" using blocks_range(4) [OF rep] b(1) b'(1) M by blast+
      then have "(h, x, b) = (h', x', b')"
        using b b' M by (intro blocks_disjoint [OF rep, of h x b h' x' b' "x + b_pad b + 64"]) (auto simp: blk_ok_def)
      then show False using b(2) b'(1) by simp
    qed
    then show "r \<in> live (blocks L) - live M" using b live_mem by blast
  qed
  show "live (blocks L) - live M \<subseteq> live (blocks L - M)" unfolding live_def by blast
qed

section \<open>Replacing a run of blocks\<close>

lemma mid_blocks_sub:
  assumes "L g = Some s" "sg_blks s = xs @ mid @ ys" "e = sg_start s + sizes xs"
  shows "mid_blocks (sg_heap s) e mid \<subseteq> blocks L"
proof -
  have "set (addrs e mid) \<subseteq> set (addrs (sg_start s) (sg_blks s))"
    using assms by (auto simp: addrs_append)
  then show ?thesis using assms(1) unfolding mid_blocks_def blocks_def by (auto; blast)
qed

lemma outside_mid:
  assumes rep: "represents H L" and g: "L g = Some s" and bs: "sg_blks s = xs @ mid @ ys"
    and e: "e = sg_start s + sizes xs" and b: "(h, x, b) \<in> blocks L - mid_blocks (sg_heap s) e mid"
  shows "x + b_size b \<le> e \<or> e + sizes mid \<le> x"
proof -
  from b obtain g' s' where g': "L g' = Some s'" "h = sg_heap s'" "(x, b) \<in> set (addrs (sg_start s') (sg_blks s'))"
    by (auto simp: blocks_def)
  note r = addrs_range [OF g'(3)]
  show ?thesis
  proof (cases "g' = g")
    case True
    then have "s' = s" using g g'(1) by simp
    then have "(x, b) \<in> set (addrs (sg_start s) xs) \<or> (x, b) \<in> set (addrs (e + sizes mid) ys)"
      using b g'(2,3) by (auto simp: bs addrs_append e add.assoc mid_blocks_def)
    then show ?thesis using addrs_range [of x b "sg_start s" xs] addrs_range [of x b "e + sizes mid" ys] e by auto
  next
    case False
    have "separate L" using rep by (simp add: represents_def)
    then have "sg_end s + 64 \<le> sg_start s' \<or> sg_end s' + 64 \<le> sg_start s"
      using False g g'(1) unfolding separate_def by metis
    then show ?thesis using r bs e by (auto simp: sg_end_def)
  qed
qed

text \<open>Bytes outside the run and the header behind it are kept.\<close>

definition outside_kept :: "nat \<Rightarrow> nat \<Rightarrow> mem \<Rightarrow> mem \<Rightarrow> bool" where
  "outside_kept a z m m' \<longleftrightarrow> (\<forall>y < 2 ^ 64. y < a \<or> z + 64 \<le> y \<longrightarrow> m_byte m' (of_nat y) = m_byte m (of_nat y))"

text \<open>The contents of a region are kept.\<close>

definition region_kept :: "nat \<Rightarrow> nat \<Rightarrow> mem \<Rightarrow> mem \<Rightarrow> bool" where
  "region_kept p n m m' \<longleftrightarrow> (\<forall>y. p \<le> y \<and> y < p + n \<longrightarrow> m_byte m' (of_nat y) = m_byte m (of_nat y))"

lemma outside_keptI: "bytes_kept P m m' \<Longrightarrow> (\<And>p. p \<in> P \<Longrightarrow> a \<le> p \<and> p \<le> z) \<Longrightarrow> outside_kept a z m m'"
  unfolding bytes_kept_def outside_kept_def by (meson le_trans linorder_not_le nat_add_left_cancel_le add_le_mono1)

lemma busy_card_update:
  assumes "finite B" "M \<subseteq> B" "finite M'" "(B - M) \<inter> M' = {}"
  shows "card (busy ((B - M) \<union> M') h) + card (busy M h) = card (busy B h) + card (busy M' h)"
proof -
  have fin: "finite (busy B h)" "finite (busy M' h)" using assms by (simp_all add: finite_busy)
  have sub: "busy M h \<subseteq> busy B h" using assms(2) by (auto simp: busy_def)
  have "(busy B h - busy M h) \<inter> busy M' h = {}" using assms(4) by (auto simp: busy_def)
  then have "card (busy ((B - M) \<union> M') h) = card (busy B h - busy M h) + card (busy M' h)"
    using fin by (simp add: busy_Un busy_Diff card_Un_disjoint)
  moreover have "card (busy B h - busy M h) + card (busy M h) = card (busy B h)"
    using fin sub by (metis card_Diff_subset card_mono finite_subset le_add_diff_inverse2)
  ultimately show ?thesis by simp
qed

text \<open>
  The run \<open>mid\<close> of the segment \<open>g\<close> at address \<open>e\<close> is replaced by \<open>mid'\<close>, and \<open>m'\<close> is a memory
  for the new layout: what an operation on the heap has to establish.
\<close>

definition run_replaced :: "nat \<Rightarrow> mem \<Rightarrow> layout \<Rightarrow> nat \<Rightarrow> seg \<Rightarrow> blk list \<Rightarrow> blk list \<Rightarrow> blk list \<Rightarrow>
    blk list \<Rightarrow> nat \<Rightarrow> mem \<Rightarrow> bool" where
  "run_replaced lim m L g s xs mid ys mid' e m' \<longleftrightarrow>
     heap_ok lim m L \<and> L g = Some s \<and> sg_blks s = xs @ mid @ ys \<and> e = sg_start s + sizes xs \<and>
     sizes mid' = sizes mid \<and>
     state_ok m' (put_mid L g s (xs @ mid' @ ys)) (frees (blocks (put_mid L g s (xs @ mid' @ ys)))) \<and>
     coalesced (xs @ mid' @ ys) \<and> outside_kept e (e + sizes mid) m m' \<and>
     zero_ok m' (mid_blocks (sg_heap s) e mid') \<and>
     (\<forall>h. mh_total_size (m_heap m' h) = mh_total_size (m_heap m h) \<and>
        mh_alloc_count (m_heap m' h) + of_nat (card (busy (mid_blocks (sg_heap s) e mid) h)) =
        mh_alloc_count (m_heap m h) + of_nat (card (busy (mid_blocks (sg_heap s) e mid') h)))"

lemma run_replacedD:
  assumes "run_replaced lim m L g s xs mid ys mid' e m'"
  shows "heap_ok lim m L" "L g = Some s" "sg_blks s = xs @ mid @ ys" "e = sg_start s + sizes xs"
    "sizes mid' = sizes mid"
    "state_ok m' (put_mid L g s (xs @ mid' @ ys)) (frees (blocks (put_mid L g s (xs @ mid' @ ys))))"
    "coalesced (xs @ mid' @ ys)" "outside_kept e (e + sizes mid) m m'"
    "zero_ok m' (mid_blocks (sg_heap s) e mid')" "\<And>h. mh_total_size (m_heap m' h) = mh_total_size (m_heap m h)"
    "\<And>h. mh_alloc_count (m_heap m' h) + of_nat (card (busy (mid_blocks (sg_heap s) e mid) h)) =
        mh_alloc_count (m_heap m h) + of_nat (card (busy (mid_blocks (sg_heap s) e mid') h))"
    "represents (m_hdr m) L" "represents (m_hdr m') (put_mid L g s (xs @ mid' @ ys))"
    "mid_blocks (sg_heap s) e mid \<subseteq> blocks L"
proof -
  show d: "heap_ok lim m L" "L g = Some s" "sg_blks s = xs @ mid @ ys" "e = sg_start s + sizes xs"
    "sizes mid' = sizes mid"
    "state_ok m' (put_mid L g s (xs @ mid' @ ys)) (frees (blocks (put_mid L g s (xs @ mid' @ ys))))"
    "coalesced (xs @ mid' @ ys)" "outside_kept e (e + sizes mid) m m'"
    "zero_ok m' (mid_blocks (sg_heap s) e mid')" "\<And>h. mh_total_size (m_heap m' h) = mh_total_size (m_heap m h)"
    "\<And>h. mh_alloc_count (m_heap m' h) + of_nat (card (busy (mid_blocks (sg_heap s) e mid) h)) =
        mh_alloc_count (m_heap m h) + of_nat (card (busy (mid_blocks (sg_heap s) e mid') h))"
    using assms unfolding run_replaced_def by blast+
  show "represents (m_hdr m) L" using d(1) by (rule heap_okD)
  show "represents (m_hdr m') (put_mid L g s (xs @ mid' @ ys))" using d(6) by (simp add: state_ok_def)
  show "mid_blocks (sg_heap s) e mid \<subseteq> blocks L" by (rule mid_blocks_sub) (use d in simp_all)
qed

lemma run_blocks:
  assumes rr: "run_replaced lim m L g s xs mid ys mid' e m'"
  shows "blocks (put_mid L g s (xs @ mid' @ ys)) =
    (blocks L - mid_blocks (sg_heap s) e mid) \<union> mid_blocks (sg_heap s) e mid'"
  by (rule blocks_update [OF run_replacedD(12,2,3,4,5) [OF rr]])

lemma run_disjoint:
  assumes rr: "run_replaced lim m L g s xs mid ys mid' e m'"
  shows "(blocks L - mid_blocks (sg_heap s) e mid) \<inter> mid_blocks (sg_heap s) e mid' = {}"
proof -
  have False if a: "(h, x, b) \<in> blocks L - mid_blocks (sg_heap s) e mid" "(h, x, b) \<in> mid_blocks (sg_heap s) e mid'" for h x b
  proof -
    have "(h, x, b) \<in> blocks (put_mid L g s (xs @ mid' @ ys))" using a(2) by (simp add: run_blocks [OF rr])
    then have "0 < b_size b" using blocks_range(4) [OF run_replacedD(13) [OF rr]] by (fastforce simp: blk_ok_def)
    moreover have "e \<le> x \<and> x + b_size b \<le> e + sizes mid"
      using a(2) addrs_range [of x b e mid'] run_replacedD(5) [OF rr] by (simp add: mid_blocks_def)
    ultimately show False using outside_mid [OF run_replacedD(12,2,3,4) [OF rr] a(1)] by linarith
  qed
  then show ?thesis by auto
qed

lemma run_outside_bytes:
  assumes rr: "run_replaced lim m L g s xs mid ys mid' e m'"
    and b: "(h, x, b) \<in> blocks L - mid_blocks (sg_heap s) e mid" "x + 64 \<le> y" "y < x + b_size b"
  shows "m_byte m' (of_nat y) = m_byte m (of_nat y)"
proof -
  have "y < 2 ^ 64" using blocks_range(3) [OF run_replacedD(12) [OF rr], of h x b] assms by simp
  moreover have "y < e \<or> e + sizes mid + 64 \<le> y" using outside_mid [OF run_replacedD(12,2,3,4) [OF rr] b(1)] b(2,3) by linarith
  ultimately show ?thesis using run_replacedD(8) [OF rr] unfolding outside_kept_def by blast
qed

lemma run_heap_ok:
  assumes rr: "run_replaced lim m L g s xs mid ys mid' e m'"
  shows "heap_ok lim m' (put_mid L g s (xs @ mid' @ ys))"
proof -
  note hk = heap_okD [OF run_replacedD(1) [OF rr]]
  let ?L = "put_mid L g s (xs @ mid' @ ys)" and ?M = "mid_blocks (sg_heap s) e mid" and ?M' = "mid_blocks (sg_heap s) e mid'"
  have "zero_ok m' (blocks ?L)"
    unfolding zero_ok_def
  proof (intro allI impI)
    fix h x b y assume a: "(h, x, b) \<in> blocks ?L \<and> b_free b \<and> x + 64 \<le> y \<and> y < x + b_size b"
    show "m_byte m' (of_nat y) = Some 0"
    proof (cases "(h, x, b) \<in> ?M'")
      case True
      then show ?thesis using run_replacedD(9) [OF rr] a unfolding zero_ok_def by blast
    next
      case False
      then have o: "(h, x, b) \<in> blocks L - ?M" using a by (simp add: run_blocks [OF rr])
      then have "m_byte m (of_nat y) = Some 0" using hk(7) a unfolding zero_ok_def by blast
      then show ?thesis using run_outside_bytes [OF rr o] a by simp
    qed
  qed
  moreover have "mh_alloc_count (m_heap m' h) = of_nat (card (busy (blocks ?L) h))" for h
  proof -
    have "card (busy (blocks ?L) h) + card (busy ?M h) = card (busy (blocks L) h) + card (busy ?M' h)"
      unfolding run_blocks [OF rr] using finite_blocks [OF hk(4)] run_replacedD(14) [OF rr] run_disjoint [OF rr]
      by (intro busy_card_update) (simp_all add: mid_blocks_def)
    then have "(of_nat (card (busy (blocks ?L) h)) :: u32) + of_nat (card (busy ?M h)) =
        of_nat (card (busy (blocks L) h)) + of_nat (card (busy ?M' h))"
      by (metis of_nat_add)
    then show ?thesis using run_replacedD(11) [OF rr, of h] hk(9) [of h] by (metis add_right_cancel)
  qed
  moreover have "lim \<le> sg_start t \<and> coalesced (sg_blks t)" if "?L g' = Some t" for g' t
    using that hk(5,6) run_replacedD(2,7) [OF rr] by (auto split: if_splits)
  moreover have "heap_total ?L h = heap_total L h" for h
    using run_replacedD(2,3,5) [OF rr] by (intro heap_total_put) simp_all
  ultimately show ?thesis using run_replacedD(6,10) [OF rr] hk(4,8) by (simp add: heap_ok_def)
qed

lemma run_live:
  assumes rr: "run_replaced lim m L g s xs mid ys mid' e m'"
  shows "live (blocks (put_mid L g s (xs @ mid' @ ys))) =
   (live (blocks L) - live (mid_blocks (sg_heap s) e mid)) \<union> live (mid_blocks (sg_heap s) e mid')"
  unfolding run_blocks [OF rr] by (simp add: live_Diff [OF run_replacedD(12) [OF rr] run_replacedD(14) [OF rr]])

lemma run_kept:
  assumes rr: "run_replaced lim m L g s xs mid ys mid' e m'"
    and l: "(p, n) \<in> live (blocks L) - live (mid_blocks (sg_heap s) e mid)"
  shows "region_kept p n m m'"
proof -
  have "(p, n) \<in> live (blocks L - mid_blocks (sg_heap s) e mid)"
    using assms by (simp add: live_Diff [OF run_replacedD(12) [OF rr] run_replacedD(14) [OF rr]])
  then obtain h x b where b: "(h, x, b) \<in> blocks L - mid_blocks (sg_heap s) e mid"
    "p = x + b_pad b + 64" "n = b_size b - b_pad b - 64" "\<not> b_free b" unfolding live_def by blast
  then have "blk_ok b" using blocks_range(4) [OF run_replacedD(12) [OF rr]] by blast
  then show ?thesis unfolding region_kept_def using b by (auto intro!: run_outside_bytes [OF rr b(1)] simp: blk_ok_def)
qed

end
