(* ===== verification/Malloc_Correct.thy ===== *)
theory Malloc_Correct
  imports Malloc_Inv
begin

text \<open>
  Allocation and release on a heap that satisfies the invariant: \<open>malloc_heap_alloc\<close> hands out a fresh,
  aligned, zeroed region; \<open>rte_free\<close> takes it back, coalesces and clears it.
\<close>

declare of_nat_add [simp del] of_nat_diff [simp del]

section \<open>The search for a free element\<close>

lemma find_in_list_sound:
  "find_in_list m sz fl al bd es alt = (r, alt') \<Longrightarrow>
   (\<forall>x. r = Some x \<longrightarrow> x \<in> set es \<and> malloc_elem_can_hold x sz (ucast al) bd m) \<and>
   (alt' \<noteq> 0 \<longrightarrow> alt' = alt \<or> alt' \<in> set es \<and> malloc_elem_can_hold alt' sz (ucast al) bd m)"
  by (induction m sz fl al bd es alt rule: find_in_list.induct) (fastforce split: if_splits)+

lemma find_in_lists_sound:
  "find_in_lists m h sz fl al bd idxs alt = (r, alt') \<Longrightarrow>
   (\<forall>x. r = Some x \<longrightarrow> (\<exists>i. x \<in> set (mh_free_head (m_heap m h) i)) \<and> malloc_elem_can_hold x sz (ucast al) bd m) \<and>
   (alt' \<noteq> 0 \<longrightarrow> alt' = alt \<or>
      (\<exists>i. alt' \<in> set (mh_free_head (m_heap m h) i)) \<and> malloc_elem_can_hold alt' sz (ucast al) bd m)"
proof (induction idxs arbitrary: alt)
  case (Cons i idxs)
  obtain r1 a1 where 1: "find_in_list m sz fl al bd (mh_free_head (m_heap m h) i) alt = (r1, a1)" by fastforce
  note s1 = find_in_list_sound [OF 1]
  show ?case
  proof (cases r1)
    case None
    then have "find_in_lists m h sz fl al bd idxs a1 = (r, alt')" using Cons.prems 1 by simp
    from Cons.IH [OF this] show ?thesis using s1 by blast
  next
    case (Some x)
    then show ?thesis using Cons.prems 1 s1 by auto
  qed
qed simp

lemma find_suitable_sound:
  assumes "find_suitable_element h sz fl al bd m = x" "x \<noteq> 0"
  shows "\<exists>i. x \<in> set (mh_free_head (m_heap m h) i)" "malloc_elem_can_hold x sz (ucast al) bd m"
proof -
  let ?is = "[malloc_elem_free_list_index sz..<RTE_HEAP_NUM_FREELISTS]"
  obtain r a where r: "find_in_lists m h sz fl al bd ?is 0 = (r, a)" by fastforce
  note sd = find_in_lists_sound [OF r]
  have "r = Some x \<or> r = None \<and> a = x"
    using assms r by (auto simp: find_suitable_element_def split: option.splits if_splits)
  then have "(\<exists>i. x \<in> set (mh_free_head (m_heap m h) i)) \<and> malloc_elem_can_hold x sz (ucast al) bd m"
    using sd assms(2) by blast
  then show "\<exists>i. x \<in> set (mh_free_head (m_heap m h) i)" "malloc_elem_can_hold x sz (ucast al) bd m" by auto
qed

lemma listed_free:
  assumes "heap_ok lim m L" "x \<in> set (mh_free_head (m_heap m h) i)"
  obtains g s xs b ys e where "at L g s xs b ys e" "sg_heap s = h" "b_free b" "x = of_nat e"
proof -
  have "lists_ok (m_heap m) (frees (blocks L))" using assms(1) by (rule heap_okD)
  then have "x \<in> {of_nat a | a n. (h, a, n) \<in> frees (blocks L) \<and> fl_index n = i}"
    using assms(2) by (simp add: lists_ok_def)
  then obtain e b where e: "x = of_nat e" "(h, e, b) \<in> blocks L" "b_free b" by (auto simp: frees_def)
  from heap_okD(2) [OF assms(1)] e(2) obtain g s xs ys where "L g = Some s" "sg_heap s = h"
    "sg_blks s = xs @ b # ys" "e = sg_start s + sizes xs" by (rule blocks_at)
  then show thesis using e by (intro that [of g s xs b ys e]) (simp_all add: at_def)
qed

section \<open>Rounding of requests\<close>

lemma unat_64 [simp]: "unat (RTE_CACHE_LINE_SIZE :: u64) = 64"
  by (simp add: RTE_CACHE_LINE_SIZE_def)

lemma cache_line_roundup:
  assumes "unat (sz :: u64) + 63 < 2 ^ 64"
  shows "unat (RTE_CACHE_LINE_ROUNDUP sz) = 64 * ((unat sz + 63) div 64)"
proof -
  have "unat (sz + RTE_CACHE_LINE_SIZE - 1) = unat (sz + 63)" by (simp add: RTE_CACHE_LINE_SIZE_def add.commute)
  also have "\<dots> = unat sz + 63" using assms by (subst unat_add_no_overflow) simp_all
  finally have "unat ((sz + RTE_CACHE_LINE_SIZE - 1) div RTE_CACHE_LINE_SIZE) = (unat sz + 63) div 64"
    by (simp add: unat_div_distrib)
  then show ?thesis unfolding RTE_CACHE_LINE_ROUNDUP_def
    using assms by (subst unat_mult_lem [THEN iffD1]) simp_all
qed

lemma align_roundup:
  assumes "k < 32"
  shows "RTE_CACHE_LINE_ROUNDUP (2 ^ k :: u64) = 2 ^ (max 6 k)"
proof -
  have lt: "(2::nat) ^ k \<le> 2 ^ 31" using assms by (intro power_increasing) simp_all
  have u: "unat (2 ^ k :: u64) = 2 ^ k" using assms by (simp add: unat_pow2)
  have "unat (RTE_CACHE_LINE_ROUNDUP (2 ^ k :: u64)) = 64 * ((2 ^ k + 63) div 64)"
    using lt u by (subst cache_line_roundup) simp_all
  also have "\<dots> = 2 ^ (max 6 k)"
  proof (cases "k \<le> 6")
    case True
    have "(1::nat) \<le> 2 ^ k" "(2::nat) ^ k \<le> 2 ^ 6" using True by (simp, intro power_increasing) simp_all
    moreover have "(n + 63) div 64 = 1" if "1 \<le> n" "n \<le> 64" for n :: nat using that by arith
    ultimately have "((2::nat) ^ k + 63) div 64 = 1" by simp
    then show ?thesis using True by (simp add: max_def)
  next
    case False
    then have "(2::nat) ^ k = 2 ^ (k - 6) * 2 ^ 6" using power_add [of "2::nat" "k - 6" 6] by simp
    then show ?thesis using False by (simp add: max_def)
  qed
  also have "\<dots> = unat (2 ^ (max 6 k) :: u64)" using assms by (simp add: unat_pow2 max_def)
  finally show ?thesis by (simp add: word_unat_eq_iff)
qed

text \<open>Requests for which the address arithmetic of \<open>elem_start_pt\<close> cannot underflow.\<close>

definition req_ok :: "nat \<Rightarrow> u64 \<Rightarrow> u64 \<Rightarrow> u64 \<Rightarrow> bool" where
  "req_ok lim sz align bound \<longleftrightarrow> sz \<noteq> 0 \<and> (\<exists>k < 32. align = 2 ^ k) \<and> bound_ok bound \<and>
     unat sz + 63 + max 64 (unat align) + unat bound \<le> lim \<and> lim < 2 ^ 64"

lemma req_okE:
  assumes "req_ok lim sz align bound"
  obtains j where "6 \<le> j" "j < 32" "ucast (RTE_CACHE_LINE_ROUNDUP align) = (2 ^ j :: u32)"
    "unat align dvd 2 ^ j" "64 dvd (2::nat) ^ j"
    "64 dvd unat (RTE_CACHE_LINE_ROUNDUP sz)" "unat sz \<le> unat (RTE_CACHE_LINE_ROUNDUP sz)"
    "RTE_CACHE_LINE_ROUNDUP sz \<noteq> 0" "unat (RTE_CACHE_LINE_ROUNDUP sz) + 2 ^ j + unat bound \<le> lim" "bound_ok bound"
proof -
  from assms obtain k where k: "k < 32" "align = 2 ^ k" and r: "sz \<noteq> 0" "bound_ok bound"
    "unat sz + 63 + max 64 (unat align) + unat bound \<le> lim" "lim < 2 ^ 64" by (auto simp: req_ok_def)
  have al: "unat align = 2 ^ k" using k by (simp add: unat_pow2)
  have j: "(2::nat) ^ max 6 k = max 64 (2 ^ k)"
    using power_increasing_iff [of "2::nat" 6 k] by (simp add: max_def)
  have rs: "unat (RTE_CACHE_LINE_ROUNDUP sz) = 64 * ((unat sz + 63) div 64)"
    using r(3,4) by (intro cache_line_roundup) simp
  have sz: "0 < unat sz" using r(1) by (simp add: unat_gt_0)
  show thesis
  proof (rule that [of "max 6 k"])
    show "ucast (RTE_CACHE_LINE_ROUNDUP align) = (2 ^ max 6 k :: u32)" using k by (simp add: align_roundup)
    show "unat align dvd 2 ^ max 6 k" by (simp add: al le_imp_power_dvd)
    show "64 dvd (2::nat) ^ max 6 k" using le_imp_power_dvd [of 6 "max 6 k" "2::nat"] by simp
    show le: "unat sz \<le> unat (RTE_CACHE_LINE_ROUNDUP sz)" by (simp add: rs)
    show "RTE_CACHE_LINE_ROUNDUP sz \<noteq> 0" using le sz by auto
    show "unat (RTE_CACHE_LINE_ROUNDUP sz) + 2 ^ max 6 k + unat bound \<le> lim" using r(3) j al rs by simp
  qed (use k r rs in simp_all)
qed

section \<open>Allocation\<close>

lemma alloc_blks_coalesced:
  assumes "coalesced (xs @ b # ys)" "b_free b"
  shows "coalesced (xs @ alloc_blks n p front z @ ys)"
  using assms by (auto simp: coalesced_def alloc_blks_def Let_def tail_blk_def successively_append_iff successively_Cons)

lemma alloc_blks_busy:
  "busy (mid_blocks h e (alloc_blks n p front z)) h' = (if h = h' then
     (if front < 128 then {(e, Blk (n - alloc_tail n front z) False front)}
      else {(e + front, Blk (n - alloc_tail n front z - front) False 0)}) else {})"
  by (auto simp: alloc_blks_def Let_def tail_blk_def busy_insert)

lemma alloc_blks_live:
  "live (mid_blocks h e (alloc_blks n p front z)) = {(e + front + 64, n - alloc_tail n front z - front - 64)}"
  by (auto simp: alloc_blks_def Let_def tail_blk_def)

lemma alloc_blks_zero:
  assumes z: "zero_ok m {(h, e, Blk n True q)}" and top: "e + n < 2 ^ 64" and fit: "front + 64 + z \<le> n" "0 < z"
    and kept: "bytes_kept {e, e + front, e + front + 64 + z, e + n} m m'"
  shows "zero_ok m' (mid_blocks h e (alloc_blks n p front z))"
    "\<And>y. \<lbrakk>e + front + 64 \<le> y; y < e + front + 64 + z\<rbrakk> \<Longrightarrow> m_byte m' (of_nat y) = Some 0"
proof -
  have old: "m_byte m' (of_nat y) = Some 0" if "e + 64 \<le> y" "y < e + n"
    "\<not> (e + front \<le> y \<and> y < e + front + 64)" "\<not> (e + front + 64 + z \<le> y \<and> y < e + front + 64 + z + 64)" for y
  proof -
    have "m_byte m (of_nat y) = Some 0" using z that(1,2) by (simp add: zero_ok_def)
    moreover have "m_byte m' (of_nat y) = m_byte m (of_nat y)"
      using kept that top unfolding bytes_kept_def by auto
    ultimately show ?thesis by simp
  qed
  show "m_byte m' (of_nat y) = Some 0" if "e + front + 64 \<le> y" "y < e + front + 64 + z" for y
    using that fit by (intro old) auto
  have tn: "alloc_tail n front z = 0 \<or> alloc_tail n front z = n - front - z - 64"
    by (auto simp: alloc_tail_def Let_def)
  show "zero_ok m' (mid_blocks h e (alloc_blks n p front z))"
    unfolding zero_ok_def
  proof (intro allI impI)
    fix h' x b y
    assume a: "(h', x, b) \<in> mid_blocks h e (alloc_blks n p front z) \<and> b_free b \<and> x + 64 \<le> y \<and> y < x + b_size b"
    then consider "x = e" "b_size b = front" | "x = e + (n - alloc_tail n front z)" "b_size b = alloc_tail n front z" "0 < alloc_tail n front z"
      using fit tn by (auto simp: alloc_blks_def Let_def tail_blk_def split: if_splits)
    then show "m_byte m' (of_nat y) = Some 0"
    proof cases
      case 1
      then show ?thesis using a fit by (intro old) auto
    next
      case 2
      then have "x = e + front + 64 + z" using tn fit by auto
      then show ?thesis using a 2 tn fit by (intro old) auto
    qed
  qed
qed

lemma alloc_run_replaced:
  assumes hk: "heap_ok lim m L" and b: "at L g s xs b ys e" and fr: "b_free b"
    and sp: "elem_start_pt (of_nat e) sz al bd m = of_nat (e + front)" and z: "z = unat sz"
    and w: "front + 64 + z \<le> b_size b" "64 dvd front" "64 dvd z" "0 < z"
  defines "m' \<equiv> upd_heap (sg_heap s) (\<lambda>hp. hp\<lparr>mh_alloc_count := mh_alloc_count hp + 1\<rparr>)
    (fst (malloc_elem_alloc (of_nat e) sz al bd m))"
  shows "run_replaced lim m L g s xs [b] ys (alloc_blks (b_size b) (b_pad b) front z) e m'"
    "\<And>h. mh_lock (m_heap m' h) = mh_lock (m_heap m h)" "m_seg m' = m_seg m"
    "\<And>y. \<lbrakk>e + front + 64 \<le> y; y < e + front + 64 + z\<rbrakk> \<Longrightarrow> m_byte m' (of_nat y) = Some 0"
proof -
  note ok = heap_okD [OF hk]
  let ?m = "fst (malloc_elem_alloc (of_nat e) sz al bd m)" and ?bs = "alloc_blks (b_size b) (b_pad b) front z"
  let ?L = "put_mid L g s (xs @ ?bs @ ys)"
  have g: "L g = Some s" "sg_blks s = xs @ [b] @ ys" "e = sg_start s + sizes xs"
    using b by (simp_all add: at_def)
  have sz: "sizes ?bs = sizes [b]" using sizes_alloc_blks [OF w(1)] by simp
  have bl: "blocks ?L = (blocks L - {(sg_heap s, e, b)}) \<union> mid_blocks (sg_heap s) e ?bs"
    using blocks_update [OF ok(2) g sz] by simp
  have "frees (blocks L - {(sg_heap s, e, b)}) = frees (blocks L) - {(sg_heap s, e, b_size b)}"
    using blocks_addr_unique [OF ok(2) at_blocks [OF b]] fr by (auto simp: frees_def)
  then have fl: "frees (blocks ?L) = frees (blocks L) - {(sg_heap s, e, b_size b)} \<union> frees (mid_blocks (sg_heap s) e ?bs)"
    by (simp add: bl)
  have st: "step_ok {e, e + front, e + front + 64 + z, e + b_size b} m ?m ?L (frees (blocks ?L))"
    unfolding fl by (rule malloc_elem_alloc_step(2) [OF ok(1) b fr sp z w])
  then have rest: "mh_lock (m_heap ?m h) = mh_lock (m_heap m h)"
    "mh_alloc_count (m_heap ?m h) = mh_alloc_count (m_heap m h)"
    "mh_total_size (m_heap ?m h) = mh_total_size (m_heap m h)" for h
    by (auto simp: step_ok_def heap_rest_def fun_eq_iff)
  have kept: "bytes_kept {e, e + front, e + front + 64 + z, e + b_size b} m m'"
    using st by (simp add: step_ok_def m'_def bytes_kept_def)
  show "mh_lock (m_heap m' h) = mh_lock (m_heap m h)" for h by (simp add: m'_def rest)
  show "m_seg m' = m_seg m" using st by (simp add: m'_def step_ok_def)
  have z0: "zero_ok m {(sg_heap s, e, Blk (b_size b) True 0)}"
    using ok(7) at_blocks [OF b] fr by (auto simp: zero_ok_def)
  have top: "e + b_size b < 2 ^ 64" using at_hdr(5) [OF ok(2) b] by simp
  note zr = alloc_blks_zero [OF z0 top w(1,4) kept]
  show "m_byte m' (of_nat y) = Some 0" if "e + front + 64 \<le> y" "y < e + front + 64 + z" for y
    using that by (rule zr(2))
  show "run_replaced lim m L g s xs [b] ys ?bs e m'"
    unfolding run_replaced_def
  proof (intro conjI allI)
    show "state_ok m' ?L (frees (blocks ?L))"
      using st by (auto simp: step_ok_def state_ok_def m'_def intro: lists_ok_upd)
    show "coalesced (xs @ ?bs @ ys)" using ok(6) [OF g(1)] g(2) fr by (intro alloc_blks_coalesced [of _ b]) simp_all
    show "outside_kept e (e + sizes [b]) m m'" by (rule outside_keptI [OF kept]) (use w in auto)
    show "mh_total_size (m_heap m' h) = mh_total_size (m_heap m h)" for h by (simp add: m'_def rest)
    show "mh_alloc_count (m_heap m' h) + of_nat (card (busy (mid_blocks (sg_heap s) e [b]) h)) =
        mh_alloc_count (m_heap m h) + of_nat (card (busy (mid_blocks (sg_heap s) e ?bs) h))" for h
      by (simp add: alloc_blks_busy busy_insert fr m'_def rest)
  qed (use hk g sz zr(1) in simp_all)
qed

text \<open>Taking and releasing the lock of a heap.\<close>

lemma heap_lock_free:
  "sl_locked (mh_lock (m_heap m h)) = 0 \<Longrightarrow>
   heap_lock h m = Some (upd_heap h (\<lambda>hp. hp\<lparr>mh_lock := \<lparr>sl_locked = 1\<rparr>\<rparr>) m)"
  by (cases "mh_lock (m_heap m h)") (simp add: heap_lock_def spinlock_lock_free)

lemma heap_lock_held: "sl_locked (mh_lock (m_heap m h)) \<noteq> 0 \<Longrightarrow> heap_lock h m = None"
  by (simp add: heap_lock_def spinlock_lock_held)

lemma heap_unlock_eq: "heap_unlock h m = upd_heap h (\<lambda>hp. hp\<lparr>mh_lock := \<lparr>sl_locked = 0\<rparr>\<rparr>) m"
  unfolding heap_unlock_def upd_heap_def
  by (cases "mh_lock (m_heap m h)") (simp add: rte_spinlock_unlock_def x86_xchg_def)

lemma lock_unlock:
  assumes "sl_locked (mh_lock (m_heap m h)) = 0"
  shows "heap_unlock h (upd_heap h (\<lambda>hp. hp\<lparr>mh_lock := \<lparr>sl_locked = 1\<rparr>\<rparr>) m) = m"
proof -
  have "(m_heap m h)\<lparr>mh_lock := \<lparr>sl_locked = 0\<rparr>\<rparr> = m_heap m h"
    using assms by (cases "m_heap m h"; cases "mh_lock (m_heap m h)") simp
  then show ?thesis by (simp add: heap_unlock_eq upd_heap_def)
qed

lemma unlocked_unlock:
  assumes "unlocked m" "\<And>h'. h' \<noteq> h \<Longrightarrow> mh_lock (m_heap m' h') = mh_lock (m_heap m h')"
  shows "unlocked (heap_unlock h m')"
  using assms by (simp add: unlocked_def heap_unlock_eq)

lemma heap_ok_lock: "heap_ok lim m L \<Longrightarrow> heap_ok lim (upd_heap h (\<lambda>hp. hp\<lparr>mh_lock := l\<rparr>) m) L"
  by (erule heap_ok_cong) auto

lemma heap_ok_unlock: "heap_ok lim m L \<Longrightarrow> heap_ok lim (heap_unlock h m) L"
  unfolding heap_unlock_eq by (rule heap_ok_lock)

text \<open>What a successful allocation gives: a fresh region, aligned, off the boundary, zeroed, beside the old ones.\<close>

definition fresh_region :: "nat \<Rightarrow> mem \<Rightarrow> layout \<Rightarrow> mem \<Rightarrow> layout \<Rightarrow> nat \<Rightarrow> nat \<Rightarrow> nat \<Rightarrow> nat \<Rightarrow> nat \<Rightarrow> bool" where
  "fresh_region lim m L m' L' sz align bound p n \<longleftrightarrow>
     heap_ok lim m' L' \<and> 0 < p \<and> p < 2 ^ 64 \<and> sz \<le> n \<and>
     live (blocks L') = insert (p, n) (live (blocks L)) \<and> (p, n) \<notin> live (blocks L) \<and>
     align dvd p \<and> 64 dvd p \<and> (bound \<noteq> 0 \<longrightarrow> p div bound = (p + sz - 1) div bound) \<and>
     (\<forall>p' n'. (p', n') \<in> live (blocks L) \<longrightarrow> region_kept p' n' m m') \<and>
     (\<forall>y. p \<le> y \<and> y < p + sz \<longrightarrow> m_byte m' (of_nat y) = Some 0)"

lemma div_between: "(a::nat) div c = (b - 1) div c \<Longrightarrow> a < b' \<Longrightarrow> b' \<le> b \<Longrightarrow> a div c = (b' - 1) div c"
  by (metis (no_types) Suc_pred' diff_le_mono div_le_mono le_antisym less_Suc_eq_le not_gr_zero not_less_zero)

lemma elem_alloc_fresh:
  assumes hk: "heap_ok lim m L" and b: "at L g s xs b ys e" and fr: "b_free b"
    and rq: "req_ok lim sz align bound"
    and can: "malloc_elem_can_hold (of_nat e) (RTE_CACHE_LINE_ROUNDUP sz) (ucast (RTE_CACHE_LINE_ROUNDUP align)) bound m"
  defines "r \<equiv> malloc_elem_alloc (of_nat e) (RTE_CACHE_LINE_ROUNDUP sz) (ucast (RTE_CACHE_LINE_ROUNDUP align)) bound m"
  defines "m' \<equiv> upd_heap (sg_heap s) (\<lambda>hp. hp\<lparr>mh_alloc_count := mh_alloc_count hp + 1\<rparr>) (fst r)"
  obtains L' w n where "snd r = of_nat w" "0 < w" "w + 64 < 2 ^ 64"
    "fresh_region lim m L m' L' (unat sz) (unat align) (unat bound) (w + 64) n"
    "\<And>h. mh_lock (m_heap m' h) = mh_lock (m_heap m h)" "m_seg m' = m_seg m"
proof -
  note ok = heap_okD [OF hk]
  note hd = at_hdr [OF ok(2) b]
  from rq obtain j where j: "6 \<le> j" "j < 32" "ucast (RTE_CACHE_LINE_ROUNDUP align) = (2 ^ j :: u32)"
    "unat align dvd 2 ^ j" "64 dvd (2::nat) ^ j"
    "64 dvd unat (RTE_CACHE_LINE_ROUNDUP sz)" "unat sz \<le> unat (RTE_CACHE_LINE_ROUNDUP sz)"
    "RTE_CACHE_LINE_ROUNDUP sz \<noteq> 0" "unat (RTE_CACHE_LINE_ROUNDUP sz) + 2 ^ j + unat bound \<le> lim" "bound_ok bound"
    by (rule req_okE)
  let ?sz = "RTE_CACHE_LINE_ROUNDUP sz" and ?al = "ucast (RTE_CACHE_LINE_ROUNDUP align) :: u32"
  let ?z = "unat ?sz"
  have zp: "0 < ?z" using j(8) by (simp add: unat_gt_0)
  have szp: "0 < unat sz" using rq by (simp add: req_ok_def unat_gt_0)
  have "lim \<le> e" using b ok(5) by (fastforce simp: at_def)
  then have big: "?z + 2 ^ j + unat bound \<le> e" using j(9) by simp
  have "elem_start_pt (of_nat e) ?sz ?al bound m = 0 \<or>
    (\<exists>w. elem_start_pt (of_nat e) ?sz ?al bound m = of_nat w \<and> fits e (b_size b) ?z j (unat bound) w)"
    unfolding j(3) using hd(1,5) by (intro elem_start_pt_fits j big) (simp_all add: hdr_ok_def)
  then obtain w where w: "elem_start_pt (of_nat e) ?sz ?al bound m = of_nat w" "fits e (b_size b) ?z j (unat bound) w"
    using can by (auto simp: malloc_elem_can_hold_def)
  define front where "front = w - e"
  have f: "e \<le> w" "w + 64 + ?z \<le> e + b_size b" "2 ^ j dvd w + 64"
    "unat bound \<noteq> 0 \<Longrightarrow> (w + 64) div unat bound = (w + 64 + ?z - 1) div unat bound"
    using w(2) zp by (simp_all add: fits_def)
  have we: "w = e + front" using f(1) by (simp add: front_def)
  have d64: "64 dvd w + 64" using j(5) f(3) by (rule dvd_trans)
  then have df: "64 dvd front" using hd(3) unfolding we
    by (metis dvd_add_left_iff dvd_add_right_iff dvd_refl)
  note a = alloc_run_replaced [OF hk b fr w(1) [unfolded we] refl _ df j(6) zp, folded r_def, folded m'_def]
  have fit: "front + 64 + ?z \<le> b_size b" using f(2) by (simp add: we)
  note a = a [OF fit]
  have top: "w + 64 < 2 ^ 64" using f(2) hd(5) zp by simp
  show thesis
  proof (rule that)
    show "snd r = of_nat w" unfolding r_def we
      by (rule malloc_elem_alloc_step(1) [OF ok(1) b fr w(1) [unfolded we] refl fit df j(6) zp])
    show "0 < w" using hd(4) f(1) by simp
    show "w + 64 < 2 ^ 64" by (rule top)
    let ?bs = "alloc_blks (b_size b) (b_pad b) front ?z"
    let ?L = "put_mid L g s (xs @ ?bs @ ys)"
    let ?n = "b_size b - alloc_tail (b_size b) front ?z - front - 64"
    have lv: "live (blocks ?L) = insert (w + 64, ?n) (live (blocks L))"
      using run_live [OF a(1)] fr by (simp add: alloc_blks_live we)
    have n: "?z \<le> ?n" using fit by (auto simp: alloc_tail_def Let_def)
    have new: "(w + 64, ?n) \<notin> live (blocks L)"
    proof
      assume "(w + 64, ?n) \<in> live (blocks L)"
      from ok(2) this obtain h x c where c: "(h, x, c) \<in> blocks L" "\<not> b_free c" "x < w + 64" "w + 64 + ?n = x + b_size c" "0 < ?n"
        by (rule live_cases)
      have "(sg_heap s, e, b) = (h, x, c)"
        using f(1) c(3,4,5) fit by (intro blocks_disjoint [OF ok(2) at_blocks [OF b] c(1), of "w + 64"]) (auto simp: we)
      then show False using fr c(2) by simp
    qed
    have bd: "(w + 64) div unat bound = (w + 64 + unat sz - 1) div unat bound" if "unat bound \<noteq> 0"
      by (rule div_between [OF f(4) [OF that]]) (use szp j(7) in linarith)+
    have al: "unat align dvd w + 64" using j(4) f(3) by (rule dvd_trans)
    have kept: "region_kept p' n' m m'" if "(p', n') \<in> live (blocks L)" for p' n'
      using run_kept [OF a(1)] that fr by simp
    have zr: "m_byte m' (of_nat y) = Some 0" if "w + 64 \<le> y" "y < w + 64 + unat sz" for y
      using that j(7) by (intro a(4)) (simp_all add: we)
    show "fresh_region lim m L m' ?L (unat sz) (unat align) (unat bound) (w + 64) ?n"
      unfolding fresh_region_def
      by (intro conjI allI impI run_heap_ok [OF a(1)] lv new top d64 al bd kept zr)
        (use n j(7) in \<open>simp_all only: le_trans zero_less_Suc add_gr_0 zero_less_numeral HOL.simp_thms\<close>)
  qed (use a in simp_all)
qed

text \<open>The allocation from a heap, as a whole.\<close>

lemma malloc_heap_alloc_ok:
  assumes hk: "heap_ok lim m L" and ul: "unlocked m" and rq: "req_ok lim sz align bound"
  obtains m' p where "malloc_heap_alloc h sz fl align bound m = Some (m', p)" "unlocked m'" "m_seg m' = m_seg m"
    "p = 0 \<Longrightarrow> m' = m"
    "p \<noteq> 0 \<Longrightarrow> \<exists>L' n. fresh_region lim m L m' L' (unat sz) (unat align) (unat bound) (unat p) n"
proof -
  let ?m = "upd_heap h (\<lambda>hp. hp\<lparr>mh_lock := \<lparr>sl_locked = 1\<rparr>\<rparr>) m"
  let ?sz = "RTE_CACHE_LINE_ROUNDUP sz" and ?al = "RTE_CACHE_LINE_ROUNDUP align"
  have l0: "sl_locked (mh_lock (m_heap m h')) = 0" for h' using ul by (simp add: unlocked_def)
  have lk: "heap_lock h m = Some ?m" using l0 by (rule heap_lock_free)
  have hk1: "heap_ok lim ?m L" using hk by (rule heap_ok_lock)
  define x where "x = find_suitable_element h ?sz fl ?al bound ?m"
  show thesis
  proof (cases "x = 0")
    case True
    have "malloc_heap_alloc h sz fl align bound m = Some (m, 0)"
      using True by (simp add: malloc_heap_alloc_def lk x_def [symmetric] lock_unlock l0)
    from that [OF this ul] show thesis by simp
  next
    case False
    have i: "\<exists>i. x \<in> set (mh_free_head (m_heap ?m h) i)" and can: "malloc_elem_can_hold x ?sz (ucast ?al) bound ?m"
      using find_suitable_sound [OF x_def [symmetric] False] by auto
    from i obtain i where "x \<in> set (mh_free_head (m_heap ?m h) i)" ..
    with hk1 obtain g s xs b ys e where b: "at L g s xs b ys e" "sg_heap s = h" "b_free b" "x = of_nat e"
      by (rule listed_free)
    let ?r = "malloc_elem_alloc (of_nat e) ?sz (ucast ?al) bound ?m"
    let ?m' = "upd_heap h (\<lambda>hp. hp\<lparr>mh_alloc_count := mh_alloc_count hp + 1\<rparr>) (fst ?r)"
    obtain L' w n where
      r: "snd ?r = of_nat w" "0 < w" "w + 64 < 2 ^ 64"
      "fresh_region lim ?m L ?m' L' (unat sz) (unat align) (unat bound) (w + 64) n"
      "\<And>h. mh_lock (m_heap ?m' h) = mh_lock (m_heap ?m h)" "m_seg ?m' = m_seg ?m"
      by (rule elem_alloc_fresh [OF hk1 b(1,3) rq can [unfolded b(4)], unfolded b(2)])
        (rule that, assumption+)
    have w0: "(of_nat w :: u64) \<noteq> 0" using r(2,3) of_nat_inj64 [of w 0] by simp
    have p: "of_nat w + MALLOC_ELEM_HEADER_LEN = (of_nat (w + 64) :: u64)"
      by (simp add: MALLOC_ELEM_HEADER_LEN_def of_nat_add)
    have up: "unat (of_nat (w + 64) :: u64) = w + 64" using r(3) by (rule unat_of_nat64)
    show thesis
    proof (rule that)
      show "malloc_heap_alloc h sz fl align bound m = Some (heap_unlock h ?m', of_nat (w + 64))"
        using False w0 unfolding malloc_heap_alloc_def lk Let_def bind.bind_lunit x_def [symmetric] b(4)
        by (simp add: case_prod_beta r(1) p)
      show "unlocked (heap_unlock h ?m')" using ul
      proof (rule unlocked_unlock)
        show "mh_lock (m_heap ?m' h') = mh_lock (m_heap m h')" if "h' \<noteq> h" for h'
          using r(5) [of h'] that by simp
      qed
      show "m_seg (heap_unlock h ?m') = m_seg m" using r(6) by (simp add: heap_unlock_eq)
      show "\<exists>L' n. fresh_region lim m L (heap_unlock h ?m') L' (unat sz) (unat align) (unat bound)
          (unat (of_nat (w + 64) :: u64)) n"
        unfolding up using r(4) heap_ok_unlock
        by (intro exI [of _ L'] exI [of _ n]) (simp add: fresh_region_def region_kept_def heap_unlock_eq)
      show "heap_unlock h ?m' = m" if "(of_nat (w + 64) :: u64) = 0"
        using that up by simp
    qed
  qed
qed

end
