(* ===== verification/Malloc_Free.thy ===== *)
theory Malloc_Free
  imports Malloc_Correct
begin

text \<open>
  Release: \<open>malloc_elem_free\<close> joins the element with its free neighbours, links it into the free lists
  and clears exactly the bytes that were not zero.
\<close>

declare of_nat_add [simp del] of_nat_diff [simp del]

section \<open>The neighbours\<close>

definition free_next :: "blk list \<Rightarrow> blk list" where
  "free_next ys = (if ys \<noteq> [] \<and> b_free (hd ys) then [hd ys] else [])"

definition free_prev :: "blk list \<Rightarrow> blk list" where
  "free_prev xs = (if xs \<noteq> [] \<and> b_free (last xs) then [last xs] else [])"

definition after_next :: "blk list \<Rightarrow> blk list" where
  "after_next ys = drop (length (free_next ys)) ys"

definition before_prev :: "blk list \<Rightarrow> blk list" where
  "before_prev xs = take (length xs - length (free_prev xs)) xs"

lemma free_next_split: "free_next ys @ after_next ys = ys"
  by (cases ys) (simp_all add: free_next_def after_next_def)

lemma free_prev_split: "before_prev xs @ free_prev xs = xs"
  by (cases xs rule: rev_cases) (simp_all add: free_prev_def before_prev_def)

lemma mid_blocks_append: "mid_blocks h e (xs @ ys) = mid_blocks h e xs \<union> mid_blocks h (e + sizes xs) ys"
  by (auto simp: mid_blocks_def addrs_append)

lemma put_same: "at L g s xs b ys e \<Longrightarrow> put_mid L g s (xs @ b # ys) = L"
  by (auto simp: at_def)

lemma next_header:
  assumes rep: "represents H L" and b: "at L g s xs b ys e"
  shows "me_state (H (of_nat (e + b_size b))) = ELEM_FREE \<longleftrightarrow> free_next ys \<noteq> []"
proof -
  have g: "L g = Some s" "sg_blks s = xs @ b # ys" "e = sg_start s + sizes xs" using b by (simp_all add: at_def)
  have "chain H (sg_heap s) g 0 (sg_start s) (sg_blks s)" using rep g(1) by (simp add: represents_def)
  then have "chain H (sg_heap s) g e (e + b_size b) ys" by (simp add: g chain_append chain_Cons)
  then show ?thesis by (cases ys) (auto simp: chain_Cons chain_Nil hdr_ok_def end_ok_def free_next_def)
qed

lemma prev_header:
  assumes rep: "represents H L" and b: "at L g s xs b ys e"
  shows "me_prev (H (of_nat e)) \<noteq> 0 \<and> me_state (H (me_prev (H (of_nat e)))) = ELEM_FREE \<longleftrightarrow> free_prev xs \<noteq> []"
    "free_prev xs \<noteq> [] \<Longrightarrow> me_prev (H (of_nat e)) = of_nat (e - sizes (free_prev xs))"
proof -
  have hd: "me_prev (H (of_nat e)) = of_nat (last_addr 0 (sg_start s) xs)"
    using at_hdr(1) [OF rep b] by (simp add: hdr_ok_def)
  have "(me_prev (H (of_nat e)) \<noteq> 0 \<and> me_state (H (me_prev (H (of_nat e)))) = ELEM_FREE \<longleftrightarrow> free_prev xs \<noteq> []) \<and>
    (free_prev xs \<noteq> [] \<longrightarrow> me_prev (H (of_nat e)) = of_nat (e - sizes (free_prev xs)))"
  proof (cases xs rule: rev_cases)
    case Nil
    then show ?thesis by (simp add: hd free_prev_def)
  next
    case (snoc zs a)
    let ?p = "sg_start s + sizes zs"
    have at: "at L g s zs a (b # ys) ?p" using b by (simp add: at_def snoc)
    note h = at_hdr [OF rep at]
    have p: "last_addr 0 (sg_start s) xs = ?p" by (simp add: snoc last_addr_append)
    have e: "e - b_size a = ?p" using b by (simp add: at_def snoc)
    have "(of_nat ?p :: u64) \<noteq> 0" using h(4,5) of_nat_inj64 [of ?p 0] by simp
    moreover have "me_state (H (of_nat ?p)) = ELEM_FREE \<longleftrightarrow> b_free a" using h(1) by (simp add: hdr_ok_def)
    ultimately show ?thesis by (simp add: hd p [unfolded snoc] snoc free_prev_def e)
  qed
  then show "me_prev (H (of_nat e)) \<noteq> 0 \<and> me_state (H (me_prev (H (of_nat e)))) = ELEM_FREE \<longleftrightarrow> free_prev xs \<noteq> []"
    "free_prev xs \<noteq> [] \<Longrightarrow> me_prev (H (of_nat e)) = of_nat (e - sizes (free_prev xs))" by blast+
qed

lemma join_next_step:
  assumes ok: "state_ok m L F" and b: "at L g s xs b ys e" and busy: "\<not> b_free b"
    and F: "frees (mid_blocks (sg_heap s) (e + b_size b) (free_next ys)) \<subseteq> F"
  defines "nx \<equiv> of_nat (e + b_size b)"
  shows "step_ok {e, e + b_size b + sizes (free_next ys)} m
    (if me_state (m_hdr m nx) = ELEM_FREE then join_elem (of_nat e) nx (elem_free_list_remove nx m) else m)
    (put_mid L g s (xs @ Blk (b_size b + sizes (free_next ys)) False (b_pad b) # after_next ys))
    (F - frees (mid_blocks (sg_heap s) (e + b_size b) (free_next ys)))"
proof -
  have rep: "represents (m_hdr m) L" using ok by (simp add: state_ok_def)
  show ?thesis
  proof (cases "free_next ys = []")
    case True
    have "Blk (b_size b) False (b_pad b) = b" using busy by (cases b) simp
    then have "step_ok {} m m (put_mid L g s (xs @ Blk (b_size b) False (b_pad b) # ys)) F"
      using put_same [OF b] step_ok_refl [OF ok] by simp
    then show ?thesis using True next_header [OF rep b]
      by (auto simp: nx_def after_next_def intro: step_ok_mono)
  next
    case False
    then obtain c zs where ys: "ys = c # zs" and c: "b_free c" by (cases ys) (auto simp: free_next_def split: if_splits)
    then have fn: "free_next ys = [c]" "after_next ys = zs" by (simp_all add: free_next_def after_next_def)
    have cF: "(sg_heap s, e + b_size b, b_size c) \<in> F" using F c by (simp add: fn)
    note at2 = at_next [OF b [unfolded ys]]
    have s1: "step_ok {} m (elem_free_list_remove nx m) L (F - {(sg_heap s, e + b_size b, b_size c)})"
      unfolding nx_def by (rule remove_step [OF ok at2 cF])
    then have ok1: "state_ok (elem_free_list_remove nx m) L (F - {(sg_heap s, e + b_size b, b_size c)})"
      by (simp add: step_ok_def)
    note s2 = join_step [OF ok1 b [unfolded ys], folded nx_def]
    show ?thesis using step_ok_trans [OF s1 s2] False next_header [OF rep b] busy c
      by (simp add: fn nx_def)
  qed
qed

lemma join_prev_step:
  assumes ok: "state_ok m L F" and b: "at L g s xs b ys e" and busy: "\<not> b_free b"
    and F: "frees (mid_blocks (sg_heap s) (e - sizes (free_prev xs)) (free_prev xs)) \<subseteq> F"
  defines "pv \<equiv> me_prev (m_hdr m (of_nat e))"
  obtains f q where "step_ok {e - sizes (free_prev xs), e + b_size b} m
    (if pv \<noteq> 0 \<and> me_state (m_hdr m pv) = ELEM_FREE
     then join_elem pv (of_nat e) (elem_free_list_remove pv m) else m)
    (put_mid L g s (before_prev xs @ Blk (sizes (free_prev xs) + b_size b) f q # ys))
    (F - frees (mid_blocks (sg_heap s) (e - sizes (free_prev xs)) (free_prev xs)))"
proof -
  have rep: "represents (m_hdr m) L" using ok by (simp add: state_ok_def)
  note ph = prev_header [OF rep b, folded pv_def]
  show thesis
  proof (cases "free_prev xs = []")
    case True
    have "Blk (b_size b) False (b_pad b) = b" using busy by (cases b) simp
    then have "step_ok {} m m (put_mid L g s (xs @ Blk (b_size b) False (b_pad b) # ys)) F"
      using put_same [OF b] step_ok_refl [OF ok] by simp
    moreover have "\<not> (pv \<noteq> 0 \<and> me_state (m_hdr m pv) = ELEM_FREE)" using ph(1) True by blast
    ultimately show thesis using True
      by (intro that [of False "b_pad b"]) (auto simp: before_prev_def intro: step_ok_mono)
  next
    case False
    then obtain a zs where xs: "xs = zs @ [a]" and a: "b_free a"
      by (cases xs rule: rev_cases) (auto simp: free_prev_def split: if_splits)
    then have fp: "free_prev xs = [a]" "before_prev xs = zs" by (simp_all add: free_prev_def before_prev_def)
    let ?p = "e - b_size a"
    have pe: "?p + b_size a = e" using b by (simp add: at_def xs)
    have at2: "at L g s zs a (b # ys) ?p" using b by (simp add: at_def xs)
    have aF: "(sg_heap s, ?p, b_size a) \<in> F" using F a by (simp add: fp)
    have pv: "pv = of_nat ?p" "pv \<noteq> 0 \<and> me_state (m_hdr m pv) = ELEM_FREE" using ph False fp by auto
    have s1: "step_ok {} m (elem_free_list_remove pv m) L (F - {(sg_heap s, ?p, b_size a)})"
      unfolding pv(1) by (rule remove_step [OF ok at2 aF])
    then have ok1: "state_ok (elem_free_list_remove pv m) L (F - {(sg_heap s, ?p, b_size a)})"
      by (simp add: step_ok_def)
    note s2 = join_step [OF ok1 at2, unfolded pe]
    show thesis using step_ok_trans [OF s1 s2] pv a
      by (intro that [of "b_free a" "b_pad a"]) (simp add: fp pv(1))
  qed
qed

section \<open>Clearing the data of a free element\<close>

lemma memset_step:
  assumes ok: "state_ok m L F" and b: "at L g s xs b ys e" and fr: "b_free b"
    and p: "e < p" "p + n \<le> e + b_size b"
  shows "state_ok (memset_zero (of_nat p) (of_nat n) m) L F"
proof -
  have rep: "represents (m_hdr m) L" using ok by (simp add: state_ok_def)
  have g: "L g = Some s" "sg_blks s = xs @ b # ys" "e = sg_start s + sizes xs" using b by (simp_all add: at_def)
  note hd = at_hdr [OF rep b]
  have fr1: "m_hdr (memset_zero (of_nat p) (of_nat n) m) (of_nat x) = m_hdr m (of_nat x)"
    if "x < 2 ^ 64" "x < p \<or> p + n \<le> x" for x
    using that p hd(5) by (subst byte_memset) auto
  have "represents (m_hdr (memset_zero (of_nat p) (of_nat n) m)) (put_mid L g s (xs @ b # ys))"
  proof (rule represents_state [OF rep g refl hd(2)])
    show "hdr_ok (m_hdr (memset_zero (of_nat p) (of_nat n) m)) (sg_heap s) g (last_addr 0 (sg_start s) xs) e b"
      using hd(1,5) fr fr1 [of e] p by (auto simp: hdr_ok_def)
  qed (use p fr1 in auto)
  then show ?thesis using ok put_same [OF b] by (simp add: state_ok_def memset_zero_def)
qed

section \<open>The whole release\<close>

lemma frees_Diff:
  assumes rep: "represents H L" and M: "M \<subseteq> blocks L"
  shows "frees (blocks L - M) = frees (blocks L) - frees M"
proof -
  have "(h, x, n) \<notin> frees M" if f: "(h, x, n) \<in> frees (blocks L - M)" for h x n
  proof
    assume "(h, x, n) \<in> frees M"
    then obtain b where b: "(h, x, b) \<in> M" by (auto simp: frees_def)
    obtain c where c: "(h, x, c) \<in> blocks L - M" using f by (auto simp: frees_def)
    have "b = c" using blocks_addr_unique [OF rep] b c M by blast
    then show False using b c by simp
  qed
  then have "frees (blocks L - M) \<inter> frees M = {}" by auto
  then have "frees (blocks L - M) \<subseteq> frees (blocks L) - frees M" unfolding frees_def by blast
  moreover have "frees (blocks L) - frees M \<subseteq> frees (blocks L - M)" unfolding frees_def by blast
  ultimately show ?thesis by (rule equalityI)
qed

text \<open>Joining both neighbours and inserting the result, before the memory is cleared.\<close>

lemma free_joined:
  assumes hk: "heap_ok lim m L" and b: "at L g s xs b ys e" and busy: "\<not> b_free b"
  defines "nx \<equiv> of_nat (e + b_size b)"
  defines "m2 \<equiv> if me_state (m_hdr m nx) = ELEM_FREE
    then join_elem (of_nat e) nx (elem_free_list_remove nx m) else m"
  defines "pv \<equiv> me_prev (m_hdr m2 (of_nat e))"
  defines "m3 \<equiv> if pv \<noteq> 0 \<and> me_state (m_hdr m2 pv) = ELEM_FREE
    then join_elem pv (of_nat e) (elem_free_list_remove pv m2) else m2"
  defines "e0 \<equiv> e - sizes (free_prev xs)"
  defines "mid \<equiv> free_prev xs @ b # free_next ys"
  obtains q where "me_state (m_hdr m nx) = ELEM_FREE \<longleftrightarrow> free_next ys \<noteq> []"
    "pv \<noteq> 0 \<and> me_state (m_hdr m2 pv) = ELEM_FREE \<longleftrightarrow> free_prev xs \<noteq> []"
    "(if free_prev xs \<noteq> [] then pv else of_nat e) = of_nat e0"
    "e0 = sg_start s + sizes (before_prev xs)" "sg_blks s = before_prev xs @ mid @ after_next ys"
    "step_ok {e0, e, e0 + sizes mid} m (malloc_elem_free_list_insert (of_nat e0) m3)
      (put_mid L g s (before_prev xs @ [Blk (sizes mid) True q] @ after_next ys))
      (frees (blocks (put_mid L g s (before_prev xs @ [Blk (sizes mid) True q] @ after_next ys))))"
proof -
  note ok = heap_okD [OF hk]
  let ?h = "sg_heap s" and ?pre = "free_prev xs" and ?post = "free_next ys"
  have g: "L g = Some s" "sg_blks s = xs @ b # ys" "e = sg_start s + sizes xs" using b by (simp_all add: at_def)
  have xs: "sizes xs = sizes (before_prev xs) + sizes ?pre" by (metis free_prev_split sizes_append)
  have e0: "e0 = sg_start s + sizes (before_prev xs)" "e0 + sizes ?pre = e" using g(3) xs by (simp_all add: e0_def)
  have bs: "sg_blks s = before_prev xs @ mid @ after_next ys"
    unfolding mid_def g(2) using free_prev_split [of xs] free_next_split [of ys] by simp
  let ?M = "mid_blocks ?h e0 mid"
  have M: "?M \<subseteq> blocks L" by (rule mid_blocks_sub) (rule g(1) bs e0(1))+
  have Meq: "?M = mid_blocks ?h e0 ?pre \<union> insert (?h, e, b) (mid_blocks ?h (e + b_size b) ?post)"
    using e0(2) by (simp add: mid_def mid_blocks_append)
  let ?Fpre = "frees (mid_blocks ?h e0 ?pre)" and ?Fpost = "frees (mid_blocks ?h (e + b_size b) ?post)"
  have FM: "frees ?M = ?Fpre \<union> ?Fpost" using busy by (simp add: Meq)
  have FL: "frees ?M \<subseteq> frees (blocks L)" using M by (auto simp: frees_def)
  have s2: "step_ok {e, e + b_size b + sizes ?post} m m2
      (put_mid L g s (xs @ Blk (b_size b + sizes ?post) False (b_pad b) # after_next ys)) (frees (blocks L) - ?Fpost)"
    unfolding m2_def nx_def by (rule join_next_step [OF ok(1) b busy]) (use FL FM in auto)
  let ?L2 = "put_mid L g s (xs @ Blk (b_size b + sizes ?post) False (b_pad b) # after_next ys)"
  have ok2: "state_ok m2 ?L2 (frees (blocks L) - ?Fpost)" using s2 by (simp add: step_ok_def)
  note at2 = at_put [OF b, of "Blk (b_size b + sizes ?post) False (b_pad b)" "after_next ys"]
  have "?Fpre \<inter> ?Fpost = {}"
  proof -
    have "x < e" if F: "(h, x, n) \<in> ?Fpre" for h x n
    proof -
      obtain c where c: "(h, x, c) \<in> mid_blocks ?h e0 ?pre" using F by (auto simp: frees_def)
      then have "blk_ok c" using blocks_range(4) [OF ok(2)] M Meq by blast
      moreover have "x + b_size c \<le> e" using c addrs_range e0(2) by (force simp: mid_blocks_def)
      ultimately show ?thesis by (simp add: blk_ok_def)
    qed
    moreover have "e \<le> x" if "(h, x, n) \<in> ?Fpost" for h x n
      using that addrs_range by (force simp: frees_def mid_blocks_def)
    ultimately show ?thesis by fastforce
  qed
  then have sub: "?Fpre \<subseteq> frees (blocks L) - ?Fpost" using FL FM by blast
  obtain f q where s3: "step_ok {e0, e + (b_size b + sizes ?post)} m2 m3
      (put_mid L g s (before_prev xs @ Blk (sizes ?pre + (b_size b + sizes ?post)) f q # after_next ys))
      (frees (blocks L) - ?Fpost - ?Fpre)"
    using join_prev_step [OF ok2 at2, folded pv_def e0_def] sub unfolding m3_def e0_def by auto
  have szm: "sizes mid = sizes ?pre + (b_size b + sizes ?post)" by (simp add: mid_def)
  let ?b = "Blk (sizes mid) f q"
  let ?L3 = "put_mid L g s (before_prev xs @ ?b # after_next ys)"
  let ?s3 = "s\<lparr>sg_blks := before_prev xs @ ?b # after_next ys\<rparr>"
  have ok3: "state_ok m3 ?L3 (frees (blocks L) - ?Fpost - ?Fpre)" using s3 by (simp add: step_ok_def szm)
  have at3: "at ?L3 g ?s3 (before_prev xs) ?b (after_next ys) e0" by (simp add: at_def e0)
  have F3: "frees (blocks L) - ?Fpost - ?Fpre = frees (blocks L - ?M)"
    unfolding frees_Diff [OF ok(2) M] FM by blast
  have new: "(h, e0, n) \<notin> frees (blocks L) - ?Fpost - ?Fpre" for h n
  proof
    assume "(h, e0, n) \<in> frees (blocks L) - ?Fpost - ?Fpre"
    then have "(h, e0, n) \<in> frees (blocks L - ?M)" unfolding F3 .
    then obtain c where c: "(h, e0, c) \<in> blocks L - ?M" by (auto simp: frees_def)
    have "0 < b_size c" "0 < sizes mid"
      using blocks_range(4) [OF ok(2)] c at_hdr(2) [OF ok(2) b] by (fastforce simp: blk_ok_def szm)+
    then show False using outside_mid [OF ok(2) g(1) _ e0(1) c] bs by simp
  qed
  have s4: "step_ok {e0} m3 (malloc_elem_free_list_insert (of_nat e0) m3)
      (put_mid L g s (before_prev xs @ [Blk (sizes mid) True q] @ after_next ys))
      (insert (?h, e0, sizes mid) (frees (blocks L) - ?Fpost - ?Fpre))"
    using insert_step [OF ok3 at3 new] by simp
  have bl: "blocks (put_mid L g s (before_prev xs @ [Blk (sizes mid) True q] @ after_next ys)) =
      (blocks L - ?M) \<union> mid_blocks ?h e0 [Blk (sizes mid) True q]"
    by (rule blocks_update [OF ok(2) g(1) bs e0(1)]) simp
  have st: "step_ok ({e, e + b_size b + sizes ?post} \<union> {e0, e + (b_size b + sizes ?post)} \<union> {e0}) m
      (malloc_elem_free_list_insert (of_nat e0) m3)
      (put_mid L g s (before_prev xs @ [Blk (sizes mid) True q] @ after_next ys))
      (frees (blocks (put_mid L g s (before_prev xs @ [Blk (sizes mid) True q] @ after_next ys))))"
    using step_ok_trans [OF step_ok_trans [OF s2 s3] s4] unfolding bl F3 by simp
  have rep2: "represents (m_hdr m2) ?L2" using ok2 by (simp add: state_ok_def)
  note ph = prev_header [OF rep2 at2, folded pv_def]
  show thesis
  proof (rule that)
    show "me_state (m_hdr m nx) = ELEM_FREE \<longleftrightarrow> ?post \<noteq> []" unfolding nx_def by (rule next_header [OF ok(2) b])
    show "pv \<noteq> 0 \<and> me_state (m_hdr m2 pv) = ELEM_FREE \<longleftrightarrow> ?pre \<noteq> []" by (rule ph(1))
    show "(if ?pre \<noteq> [] then pv else of_nat e) = of_nat e0" using ph(2) e0(2) by (auto simp: e0_def)
    have "{e, e + b_size b + sizes ?post} \<union> {e0, e + (b_size b + sizes ?post)} \<union> {e0} \<subseteq> {e0, e, e0 + sizes mid}"
      using e0(2) by (auto simp: szm)
    with st show "step_ok {e0, e, e0 + sizes mid} m (malloc_elem_free_list_insert (of_nat e0) m3)
      (put_mid L g s (before_prev xs @ [Blk (sizes mid) True q] @ after_next ys))
      (frees (blocks (put_mid L g s (before_prev xs @ [Blk (sizes mid) True q] @ after_next ys))))"
      by (rule step_ok_mono)
  qed (rule e0(1) bs)+
qed

lemma join_coalesced:
  assumes "coalesced (xs @ b # ys)" "\<not> b_free b"
  shows "coalesced (before_prev xs @ [Blk n True q] @ after_next ys)"
proof -
  have 1: "coalesced xs" "coalesced ys"
    using assms by (auto simp: coalesced_def successively_append_iff successively_Cons)
  have p: "coalesced (before_prev xs) \<and> (before_prev xs \<noteq> [] \<longrightarrow> \<not> b_free (last (before_prev xs)))"
    using 1(1) by (cases xs rule: rev_cases)
      (auto simp: coalesced_def successively_append_iff free_prev_def before_prev_def)
  moreover have "coalesced (after_next ys) \<and> (after_next ys \<noteq> [] \<longrightarrow> \<not> b_free (hd (after_next ys)))"
    using 1(2) by (cases ys) (auto simp: coalesced_def successively_Cons free_next_def after_next_def)
  ultimately show ?thesis
    by (auto simp: coalesced_def successively_append_iff successively_Cons)
qed

text \<open>The bytes that are cleared, and that the whole element is zero afterwards.\<close>

definition clear_from :: "blk list \<Rightarrow> nat \<Rightarrow> nat" where
  "clear_from pre e = (if pre = [] then e + 64 else e)"

definition clear_len :: "blk list \<Rightarrow> nat \<Rightarrow> blk list \<Rightarrow> nat" where
  "clear_len pre n post = n - 64 + (if post = [] then 0 else 64) + (if pre = [] then 0 else 64)"

lemma cleared_zero:
  assumes z: "zero_ok m (mid_blocks h e0 pre \<union> mid_blocks h (e + n) post)"
    and e: "e0 + sizes pre = e" and top: "e + n + sizes post < 2 ^ 64" and n: "64 < n"
    and pre: "pre = [] \<or> (\<exists>a. pre = [a] \<and> b_free a \<and> 64 < b_size a)"
    and post: "post = [] \<or> (\<exists>c. post = [c] \<and> b_free c \<and> 64 < b_size c)"
    and kept: "bytes_kept {e0, e, e0 + (sizes pre + n + sizes post)} m m1"
    and m2: "\<And>y. y < 2 ^ 64 \<Longrightarrow> m_byte m2 (of_nat y) =
      (if clear_from pre e \<le> y \<and> y < clear_from pre e + clear_len pre n post then Some 0 else m_byte m1 (of_nat y))"
  shows "zero_ok m2 {(h', e0, Blk (sizes pre + n + sizes post) True q)}"
  unfolding zero_ok_def
proof (intro allI impI)
  fix h1 x b y
  assume "(h1, x, b) \<in> {(h', e0, Blk (sizes pre + n + sizes post) True q)} \<and> b_free b \<and> x + 64 \<le> y \<and> y < x + b_size b"
  then have y: "e0 + 64 \<le> y" "y < e + n + sizes post" using e by auto
  have y64: "y < 2 ^ 64" using y top by simp
  have old: "m_byte m1 (of_nat y) = m_byte m (of_nat y)" if "y < e \<or> e + 64 \<le> y"
    using kept y y64 e that unfolding bytes_kept_def by auto
  consider "y < clear_from pre e" | "clear_from pre e + clear_len pre n post \<le> y"
    | "clear_from pre e \<le> y" "y < clear_from pre e + clear_len pre n post" by linarith
  then show "m_byte m2 (of_nat y) = Some 0"
  proof cases
    case 1
    then obtain a where a: "pre = [a]" "b_free a" "64 < b_size a" "y < e"
      using pre y(1) e by (auto simp: clear_from_def)
    then have "m_byte m (of_nat y) = Some 0" using z y(1) e unfolding zero_ok_def by auto
    then show ?thesis using m2 [OF y64] 1 old a(4) by simp
  next
    case 2
    then obtain c where c: "post = [c]" "b_free c" "64 < b_size c" "e + n + 64 \<le> y"
      using post y(2) e n by (auto simp: clear_from_def clear_len_def split: if_splits)
    then have "m_byte m (of_nat y) = Some 0" using z y(2) e unfolding zero_ok_def by auto
    moreover have "\<not> y < clear_from pre e + clear_len pre n post" using 2 by simp
    ultimately show ?thesis using m2 [OF y64] old c(4) by simp
  next
    case 3
    then show ?thesis using m2 [OF y64] by simp
  qed
qed

lemma neighbours_ok:
  assumes rep: "represents H L" and b: "at L g s xs b ys e"
  shows "free_prev xs = [] \<or> (\<exists>a. free_prev xs = [a] \<and> b_free a \<and> 64 < b_size a)"
    "free_next ys = [] \<or> (\<exists>c. free_next ys = [c] \<and> b_free c \<and> 64 < b_size c)"
proof -
  have "list_all blk_ok (xs @ b # ys)" using rep b by (force simp: represents_def at_def seg_ok_def)
  then have "\<forall>c \<in> set xs \<union> set ys. 64 < b_size c" by (auto simp: list_all_iff blk_ok_def)
  then show "free_prev xs = [] \<or> (\<exists>a. free_prev xs = [a] \<and> b_free a \<and> 64 < b_size a)"
    "free_next ys = [] \<or> (\<exists>c. free_next ys = [c] \<and> b_free c \<and> 64 < b_size c)"
    by (auto simp: free_prev_def free_next_def)
qed

lemma zero_ok_mono: "zero_ok m B \<Longrightarrow> A \<subseteq> B \<Longrightarrow> zero_ok m A"
  unfolding zero_ok_def by blast

lemma if_pair: "(if c then (a, b) else (a', b')) = (if c then a else a', if c then b else b')"
  by simp

lemma malloc_elem_free_eq:
  assumes hk: "heap_ok lim m L" and ul: "unlocked m" and b: "at L g s xs b ys e" and busy: "\<not> b_free b"
  obtains m' q where "malloc_elem_free (of_nat e) m = Some (heap_unlock (sg_heap s) m', 0)"
    "run_replaced lim m L g s (before_prev xs) (free_prev xs @ b # free_next ys) (after_next ys)
      [Blk (sizes (free_prev xs @ b # free_next ys)) True q] (e - sizes (free_prev xs)) m'"
    "\<And>h. h \<noteq> sg_heap s \<Longrightarrow> mh_lock (m_heap m' h) = mh_lock (m_heap m h)" "m_seg m' = m_seg m"
    "me_state (m_hdr m' (of_nat (e + b_pad b))) = ELEM_FREE"
proof -
  let ?h = "sg_heap s" and ?pre = "free_prev xs" and ?post = "free_next ys"
  define ml where "ml = upd_heap ?h (\<lambda>hp. hp\<lparr>mh_lock := \<lparr>sl_locked = 1\<rparr>\<rparr>) m"
  define e0 where "e0 = e - sizes ?pre"
  define mid where "mid = ?pre @ b # ?post"
  define nx where "nx = (of_nat (e + b_size b) :: u64)"
  define m2 where "m2 = (if me_state (m_hdr ml nx) = ELEM_FREE
    then join_elem (of_nat e) nx (elem_free_list_remove nx ml) else ml)"
  define pv where "pv = me_prev (m_hdr m2 (of_nat e))"
  define m3 where "m3 = (if pv \<noteq> 0 \<and> me_state (m_hdr m2 pv) = ELEM_FREE
    then join_elem pv (of_nat e) (elem_free_list_remove pv m2) else m2)"
  define m4 where "m4 = malloc_elem_free_list_insert (of_nat e0) m3"
  define m5 where "m5 = upd_heap ?h (\<lambda>hp. hp\<lparr>mh_alloc_count := mh_alloc_count hp - 1\<rparr>) m4"
  define p where "p = clear_from ?pre e"
  define n where "n = clear_len ?pre (b_size b) ?post"
  define m6 where "m6 = memset_zero (of_nat p) (of_nat n) m5"
  have hkl: "heap_ok lim ml L" unfolding ml_def using hk by (rule heap_ok_lock)
  note ok = heap_okD [OF hkl]
  note hd = at_hdr [OF ok(2) b]
  obtain q where j: "me_state (m_hdr ml nx) = ELEM_FREE \<longleftrightarrow> ?post \<noteq> []"
    "pv \<noteq> 0 \<and> me_state (m_hdr m2 pv) = ELEM_FREE \<longleftrightarrow> ?pre \<noteq> []"
    "(if ?pre \<noteq> [] then pv else of_nat e) = of_nat e0"
    "e0 = sg_start s + sizes (before_prev xs)" "sg_blks s = before_prev xs @ mid @ after_next ys"
    "step_ok {e0, e, e0 + sizes mid} ml m4
      (put_mid L g s (before_prev xs @ [Blk (sizes mid) True q] @ after_next ys))
      (frees (blocks (put_mid L g s (before_prev xs @ [Blk (sizes mid) True q] @ after_next ys))))"
    unfolding m4_def m3_def pv_def m2_def nx_def e0_def mid_def by (rule free_joined [OF hkl b busy])
  note nb = neighbours_ok [OF ok(2) b]
  have szm: "sizes mid = sizes ?pre + b_size b + sizes ?post" by (simp add: mid_def)
  have e0: "e0 + sizes ?pre = e" using b j(4) free_prev_split [of xs] by (metis at_def add.assoc sizes_append)
  let ?L = "put_mid L g s (before_prev xs @ [Blk (sizes mid) True q] @ after_next ys)"
  have ok4: "state_ok m4 ?L (frees (blocks ?L))" using j(6) by (simp add: step_ok_def)
  have at4: "at ?L g (s\<lparr>sg_blks := before_prev xs @ [Blk (sizes mid) True q] @ after_next ys\<rparr>)
      (before_prev xs) (Blk (sizes mid) True q) (after_next ys) e0" by (simp add: at_def j(4))
  have h0: "me_heap (m_hdr m4 (of_nat e0)) = ?h"
    using at_hdr(1) [OF _ at4, of "m_hdr m4"] ok4 by (simp add: state_ok_def hdr_ok_def)
  have ok5: "state_ok m5 ?L (frees (blocks ?L))"
    using ok4 by (auto simp: state_ok_def m5_def intro: lists_ok_upd)
  have pn: "e0 < p" "p + n \<le> e0 + sizes mid"
    using e0 blk_ok_size [OF hd(2)] nb by (auto simp: p_def n_def clear_from_def clear_len_def szm)
  have ok6: "state_ok m6 ?L (frees (blocks ?L))"
    unfolding m6_def by (rule memset_step [OF ok5 at4]) (use pn in simp_all)
  have rest: "mh_lock (m_heap m4 h) = mh_lock (m_heap ml h)" "mh_alloc_count (m_heap m4 h) = mh_alloc_count (m_heap ml h)"
    "mh_total_size (m_heap m4 h) = mh_total_size (m_heap ml h)" for h
    using j(6) by (auto simp: step_ok_def heap_rest_def fun_eq_iff)
  have top: "e0 + sizes mid + 64 < 2 ^ 64" using at_hdr(5) [OF _ at4, of "m_hdr m4"] ok4 by (simp add: state_ok_def)
  have kept: "bytes_kept {e0, e, e0 + sizes mid} m m5"
    using j(6) by (simp add: step_ok_def m5_def bytes_kept_def ml_def)
  have byte6: "m_byte m6 (of_nat y) = (if p \<le> y \<and> y < p + n then Some 0 else m_byte m5 (of_nat y))" if "y < 2 ^ 64" for y
    unfolding m6_def using that pn top by (intro byte_memset(1)) simp_all
  have bdry: "mid_blocks ?h e0 ?pre \<union> mid_blocks ?h (e + b_size b) ?post \<subseteq> blocks L"
  proof -
    have "mid_blocks ?h e0 mid \<subseteq> blocks L" by (rule mid_blocks_sub [where g = g, OF _ j(5,4)]) (use b in \<open>simp add: at_def\<close>)
    then show ?thesis using e0 by (simp add: mid_def mid_blocks_append)
  qed
  have z6: "zero_ok m6 (mid_blocks ?h e0 [Blk (sizes mid) True q])"
    using cleared_zero [OF zero_ok_mono [OF heap_okD(7) [OF hk] bdry] e0 _ blk_ok_size [OF hd(2)] nb
        kept [unfolded szm] byte6 [unfolded p_def n_def], of ?h q] top e0 by (simp add: szm)
  have free0: "mh_alloc_count (m_heap m6 h) + of_nat (card (busy (mid_blocks ?h e0 mid) h)) =
      mh_alloc_count (m_heap m h) + of_nat (card (busy (mid_blocks ?h e0 [Blk (sizes mid) True q]) h))" for h
  proof -
    have "busy (mid_blocks ?h e0 mid) h = (if h = ?h then {(e, b)} else {})"
      using nb e0 busy by (auto simp: mid_def mid_blocks_append busy_Un busy_insert)
    then show ?thesis by (simp add: m6_def m5_def memset_zero_def rest ml_def busy_insert)
  qed
  have run: "run_replaced lim m L g s (before_prev xs) mid (after_next ys) [Blk (sizes mid) True q] e0 m6"
    unfolding run_replaced_def
  proof (intro conjI allI)
    show "coalesced (before_prev xs @ [Blk (sizes mid) True q] @ after_next ys)"
      using heap_okD(6) [OF hk] b busy by (intro join_coalesced [of _ b]) (fastforce simp: at_def)+
    show "outside_kept e0 (e0 + sizes mid) m m6"
    proof -
      have "outside_kept e0 (e0 + sizes mid) m m5" by (rule outside_keptI [OF kept]) (use e0 szm in auto)
      then show ?thesis using pn unfolding outside_kept_def by (auto simp: byte6)
    qed
    show "mh_total_size (m_heap m6 h) = mh_total_size (m_heap m h)" for h
      by (simp add: m6_def m5_def memset_zero_def rest ml_def)
  qed (use hk b j(4,5) ok6 z6 free0 in \<open>simp_all add: at_def\<close>)
  have me: "me_heap (m_hdr ml (of_nat e)) = ?h" "me_state (m_hdr ml (of_nat e)) = ELEM_BUSY"
    "me_size (m_hdr ml (of_nat e)) = of_nat (b_size b)" and mh: "m_hdr ml = m_hdr m"
    using hd(1) busy by (simp_all add: hdr_ok_def ml_def)
  have lk: "heap_lock ?h m = Some ml" unfolding ml_def using ul by (intro heap_lock_free) (simp add: unlocked_def)
  have ne: "(of_nat e :: u64) \<noteq> 0" using hd(4,5) of_nat_inj64 [of e 0] by simp
  have nxe: "RTE_PTR_ADD (of_nat e) (of_nat (b_size b)) = nx" by (simp add: RTE_PTR_ADD_def nx_def of_nat_sum)
  have pe: "(of_nat p :: u64) = (if ?pre = [] then of_nat e + 64 else of_nat e)"
    by (simp add: p_def clear_from_def of_nat_add)
  have sze: "(of_nat n :: u64) = (if ?pre = [] then (if ?post = [] then of_nat (b_size b) - 64 else of_nat (b_size b))
      else (if ?post = [] then of_nat (b_size b) else of_nat (b_size b) + 64))"
  proof -
    have "(of_nat (b_size b - 64) :: u64) = of_nat (b_size b) - 64"
      using of_nat_diff64 [of 64 "b_size b"] blk_ok_size [OF hd(2)] by simp
    then show ?thesis by (simp add: n_def clear_len_def of_nat_add)
  qed
  have h6: "me_heap (m_hdr m6 (of_nat e0)) = ?h"
    using at_hdr(1) [OF _ at4, of "m_hdr m6"] ok6 by (simp add: state_ok_def hdr_ok_def)
  have "malloc_elem_free (of_nat e) m = Some (heap_unlock ?h m6, 0)"
    unfolding malloc_elem_free_def malloc_elem_cookies_ok_def mh [symmetric] me lk Let_def bind.bind_lunit
      MALLOC_ELEM_HEADER_LEN_def MALLOC_ELEM_TRAILER_LEN_def nxe if_pair case_prod_conv
      m2_def [symmetric] pv_def [symmetric] m3_def [symmetric]
    unfolding j(1,2,3) using ne h6 by (simp add: m4_def [symmetric] h0 m5_def [symmetric] m6_def pe sze split: if_splits)
  then show thesis
  proof (rule that [of m6 q])
    show "run_replaced lim m L g s (before_prev xs) (?pre @ b # ?post) (after_next ys)
        [Blk (sizes (?pre @ b # ?post)) True q] (e - sizes ?pre) m6"
      using run unfolding mid_def e0_def .
    show "mh_lock (m_heap m6 h) = mh_lock (m_heap m h)" if "h \<noteq> ?h" for h
      using that by (simp add: m6_def m5_def memset_zero_def rest ml_def)
    show "me_state (m_hdr m6 (of_nat (e + b_pad b))) = ELEM_FREE"
    proof (cases "p \<le> e + b_pad b")
      case True
      have pb: "b_pad b + 64 < b_size b" using hd(2) busy by (simp add: blk_ok_def)
      then have "e + b_pad b < p + n" using True by (auto simp: p_def n_def clear_from_def clear_len_def)
      then show ?thesis using True pn top pb hd(5) unfolding m6_def by (subst byte_memset(2)) (simp_all add: zero_elem_def)
    next
      case False
      have "64 dvd b_pad b" using hd(2) busy by (simp add: blk_ok_def)
      then have "b_pad b = 0" "?pre = []" using False by (auto simp: p_def clear_from_def elim!: dvdE split: if_splits)
      then show ?thesis using at_hdr(1) [OF _ at4, of "m_hdr m6"] ok6 e0 by (simp add: state_ok_def hdr_ok_def)
    qed
    show "m_seg m6 = m_seg m" using j(6) by (simp add: m6_def m5_def memset_zero_def step_ok_def ml_def)
  qed
qed

end
