(* ===== verification/Allocator.thy ===== *)
theory Allocator
  imports Prelude
begin

text \<open>
  The contract of a dynamic memory allocator, as its clients see it. The abstract state is the set of
  live regions (address and usable length); the concrete memory is related to it by \<open>rel\<close>. A client
  that allocates and releases in any order never fails, owns disjoint regions, never disturbs the
  contents of anybody's region, and leaves the allocator as it found it when it has released
  everything.
\<close>

section \<open>Contract\<close>

definition region_same :: "('m \<Rightarrow> nat \<Rightarrow> u8 option) \<Rightarrow> 'm \<Rightarrow> 'm \<Rightarrow> nat \<times> nat \<Rightarrow> bool" where
  "region_same byte m m' r \<longleftrightarrow> (\<forall>y. fst r \<le> y \<and> y < fst r + snd r \<longrightarrow> byte m' y = byte m y)"

lemma region_same_trans:
  "\<lbrakk>region_same byte m m' r; region_same byte m' m'' r\<rbrakk> \<Longrightarrow> region_same byte m m'' r"
  by (simp add: region_same_def)

text \<open>What a call of the allocator returns: nothing, or a fresh zeroed region of the requested size.\<close>

definition alloc_result ::
    "('m \<Rightarrow> (nat \<times> nat) set \<Rightarrow> bool) \<Rightarrow> ('m \<Rightarrow> nat \<Rightarrow> u8 option) \<Rightarrow> 'm \<Rightarrow> (nat \<times> nat) set \<Rightarrow> nat \<Rightarrow> nat \<Rightarrow>
     'm \<Rightarrow> u64 \<Rightarrow> bool" where
  "alloc_result rel byte m A sz align m' p \<longleftrightarrow>
     (p = 0 \<longrightarrow> m' = m) \<and>
     (p \<noteq> 0 \<longrightarrow> (\<exists>n. rel m' (insert (unat p, n) A) \<and> (unat p, n) \<notin> A \<and> sz \<le> n \<and> align dvd unat p) \<and>
        (\<forall>y. unat p \<le> y \<and> y < unat p + sz \<longrightarrow> byte m' y = Some 0) \<and> (\<forall>r \<in> A. region_same byte m m' r))"

datatype 'r heap_op = Alloc 'r | Free nat

text \<open>A client: the pointers it holds; \<open>Free k\<close> releases the \<open>k\<close>-th of them, if there is one.\<close>

fun heap_run ::
    "('r \<Rightarrow> 'm \<Rightarrow> (string + 'm \<times> u64) option) \<Rightarrow> (u64 \<Rightarrow> 'm \<Rightarrow> (string + 'm) option) \<Rightarrow>
     'r heap_op list \<Rightarrow> 'm \<Rightarrow> u64 list \<Rightarrow> (string + 'm \<times> u64 list) option" where
  "heap_run alloc free [] m held = Some (Inr (m, held))"
| "heap_run alloc free (Alloc r # ops) m held = (case alloc r m of
     None \<Rightarrow> None
   | Some (Inl e) \<Rightarrow> Some (Inl e)
   | Some (Inr (m, p)) \<Rightarrow> heap_run alloc free ops m (if p = 0 then held else p # held))"
| "heap_run alloc free (Free k # ops) m held =
     (if k < length held then (case free (held ! k) m of
        None \<Rightarrow> None
      | Some (Inl e) \<Rightarrow> Some (Inl e)
      | Some (Inr m) \<Rightarrow> heap_run alloc free ops m (take k held @ drop (Suc k) held))
      else heap_run alloc free ops m held)"

fun op_ok :: "('r \<Rightarrow> bool) \<Rightarrow> 'r heap_op \<Rightarrow> bool" where
  "op_ok req_ok (Alloc r) = req_ok r"
| "op_ok req_ok (Free k) = True"

locale allocator =
  fixes rel :: "'m \<Rightarrow> (nat \<times> nat) set \<Rightarrow> bool"
    and byte :: "'m \<Rightarrow> nat \<Rightarrow> u8 option"
    and alloc :: "'r \<Rightarrow> 'm \<Rightarrow> (string + 'm \<times> u64) option"
    and free :: "u64 \<Rightarrow> 'm \<Rightarrow> (string + 'm) option"
    and req_ok :: "'r \<Rightarrow> bool" and req_size :: "'r \<Rightarrow> nat" and req_align :: "'r \<Rightarrow> nat"
  assumes region_range: "\<lbrakk>rel m A; (p, n) \<in> A\<rbrakk> \<Longrightarrow> 0 < p \<and> p + n < 2 ^ 64 \<and> 0 < n"
    and region_disjoint: "\<lbrakk>rel m A; (p, n) \<in> A; (p', n') \<in> A; p \<le> y; y < p + n; p' \<le> y; y < p' + n'\<rbrakk> \<Longrightarrow>
      (p, n) = (p', n')"
    and alloc_law: "\<lbrakk>rel m A; req_ok r\<rbrakk> \<Longrightarrow>
      \<exists>m' p. alloc r m = Some (Inr (m', p)) \<and> alloc_result rel byte m A (req_size r) (req_align r) m' p"
    and free_law: "\<lbrakk>rel m A; (p, n) \<in> A\<rbrakk> \<Longrightarrow>
      \<exists>m'. free (of_nat p) m = Some (Inr m') \<and> rel m' (A - {(p, n)}) \<and> (\<forall>r \<in> A - {(p, n)}. region_same byte m m' r)"
begin

lemma region_unique: "\<lbrakk>rel m A; (p, n) \<in> A; (p, n') \<in> A\<rbrakk> \<Longrightarrow> n = n'"
  using region_disjoint [of m A p n p n' p] region_range [of m A p n] region_range [of m A p n'] by simp

text \<open>The regions that the client holds are those beyond the frame \<open>F\<close>, which is not disturbed.\<close>

definition client_ok :: "(nat \<times> nat) set \<Rightarrow> 'm \<Rightarrow> 'm \<Rightarrow> u64 list \<Rightarrow> bool" where
  "client_ok F m0 m held \<longleftrightarrow> (\<exists>A. rel m A \<and> F \<subseteq> A \<and> distinct held \<and> unat ` set held = fst ` (A - F) \<and>
     (\<forall>r \<in> F. region_same byte m0 m r))"

lemma client_alloc:
  assumes c: "client_ok F m0 m held" and r: "req_ok r"
  obtains m' p where "alloc r m = Some (Inr (m', p))" "client_ok F m0 m' (if p = 0 then held else p # held)"
proof -
  from c obtain A where A: "rel m A" "F \<subseteq> A" "distinct held" "unat ` set held = fst ` (A - F)"
    "\<forall>r \<in> F. region_same byte m0 m r" by (auto simp: client_ok_def)
  from alloc_law [OF A(1) r] obtain m' p where a: "alloc r m = Some (Inr (m', p))"
    "alloc_result rel byte m A (req_size r) (req_align r) m' p" by blast
  have "client_ok F m0 m' (if p = 0 then held else p # held)"
  proof (cases "p = 0")
    case True
    then show ?thesis using a(2) c by (simp add: alloc_result_def)
  next
    case False
    then obtain n where n: "rel m' (insert (unat p, n) A)" "(unat p, n) \<notin> A" "\<forall>r \<in> A. region_same byte m m' r"
      using a(2) by (auto simp: alloc_result_def)
    have "(unat p, k) \<notin> A" for k using region_unique [OF n(1), of "unat p" n k] n(2) by auto
    then have "unat p \<notin> fst ` (A - F)" by force
    then have new: "p \<notin> set held" using A(4) by blast
    have "insert (unat p, n) A - F = insert (unat p, n) (A - F)" using n(2) A(2) by blast
    moreover have "\<forall>r \<in> F. region_same byte m0 m' r"
    by (rule ballI, rule region_same_trans [where m' = m]) (use A(2,5) n(3) in blast)+
    ultimately show ?thesis unfolding client_ok_def using False A new n(1)
      by (intro exI [of _ "insert (unat p, n) A"]) auto
  qed
  then show thesis using a(1) that by blast
qed

lemma client_free:
  assumes c: "client_ok F m0 m held" and k: "k < length held"
  obtains m' where "free (held ! k) m = Some (Inr m')" "client_ok F m0 m' (take k held @ drop (Suc k) held)"
proof -
  from c obtain A where A: "rel m A" "F \<subseteq> A" "distinct held" "unat ` set held = fst ` (A - F)"
    "\<forall>r \<in> F. region_same byte m0 m r" by (auto simp: client_ok_def)
  let ?p = "held ! k" and ?held = "take k held @ drop (Suc k) held"
  have "unat ?p \<in> fst ` (A - F)" using A(4) k by (metis imageI nth_mem)
  then obtain n where n: "(unat ?p, n) \<in> A" "(unat ?p, n) \<notin> F" by force
  from free_law [OF A(1) n(1)] obtain m' where m': "free ?p m = Some (Inr m')"
    "rel m' (A - {(unat ?p, n)})" "\<forall>r \<in> A - {(unat ?p, n)}. region_same byte m m' r" by auto
  have held: "held = take k held @ ?p # drop (Suc k) held" using k by (rule id_take_nth_drop)
  have d: "distinct ?held" "set ?held = set held - {?p}"
  proof -
    have "distinct (take k held @ ?p # drop (Suc k) held)" using A(3) held by simp
    moreover have "set held = set (take k held @ ?p # drop (Suc k) held)" using held by simp
    ultimately show "distinct ?held" "set ?held = set held - {?p}" by auto
  qed
  have "unat ` (set held - {?p}) = unat ` set held - {unat ?p}"
    by (auto simp: word_unat_eq_iff)
  also have "\<dots> = fst ` (A - {(unat ?p, n)} - F)"
  proof -
    have "fst ` (A - {(unat ?p, n)} - F) = fst ` (A - F) - {unat ?p}"
      using region_unique [OF A(1) n(1)] n(2) by force
    then show ?thesis using A(4) by simp
  qed
  finally have "unat ` set ?held = fst ` (A - {(unat ?p, n)} - F)" using d(2) by simp
  moreover have "\<forall>r \<in> F. region_same byte m0 m' r"
    by (rule ballI, rule region_same_trans [where m' = m]) (use A(2,5) m'(3) n(2) in blast)+
  moreover have "F \<subseteq> A - {(unat ?p, n)}" using A(2) n(2) by blast
  ultimately have "client_ok F m0 m' ?held" unfolding client_ok_def using m'(2) d(1) by blast
  then show thesis using m'(1) that by blast
qed

lemma client_run:
  assumes "client_ok F m0 m held" "\<forall>op \<in> set ops. op_ok req_ok op"
  shows "\<exists>m' held'. heap_run alloc free ops m held = Some (Inr (m', held')) \<and> client_ok F m0 m' held'"
  using assms
proof (induction ops arbitrary: m held)
  case (Cons op ops)
  have ok: "\<forall>op \<in> set ops. op_ok req_ok op" using Cons.prems(2) by simp
  show ?case
  proof (cases op)
    case (Alloc r)
    then have "req_ok r" using Cons.prems(2) by simp
    with Cons.prems(1) obtain m' p where "alloc r m = Some (Inr (m', p))"
      "client_ok F m0 m' (if p = 0 then held else p # held)" by (rule client_alloc)
    then show ?thesis using Cons.IH [OF _ ok] Alloc by simp
  next
    case (Free k)
    show ?thesis
    proof (cases "k < length held")
      case True
      with Cons.prems(1) obtain m' where "free (held ! k) m = Some (Inr m')"
        "client_ok F m0 m' (take k held @ drop (Suc k) held)" by (rule client_free)
      then show ?thesis using Cons.IH [OF _ ok] Free True by simp
    qed (use Cons.IH [OF Cons.prems(1) ok] Free in simp)
  qed
qed simp

lemma run_isolated:
  assumes "rel m F" "\<forall>op \<in> set ops. op_ok req_ok op"
  shows "\<exists>m' held A. heap_run alloc free ops m [] = Some (Inr (m', held)) \<and> rel m' A \<and> F \<subseteq> A \<and>
    distinct held \<and> unat ` set held = fst ` (A - F) \<and> (\<forall>r \<in> F. region_same byte m m' r)"
proof -
  have "client_ok F m m []" unfolding client_ok_def using assms(1)
    by (intro exI [of _ F]) (simp add: region_same_def)
  from client_run [OF this assms(2)] obtain m' held A where
    "heap_run alloc free ops m [] = Some (Inr (m', held))" "rel m' A" "F \<subseteq> A" "distinct held"
    "unat ` set held = fst ` (A - F)" "\<forall>r \<in> F. region_same byte m m' r" unfolding client_ok_def by metis
  then show ?thesis by (intro exI conjI)
qed

lemma run_no_leak:
  assumes "rel m F" "\<forall>op \<in> set ops. op_ok req_ok op" "heap_run alloc free ops m [] = Some (Inr (m', []))"
  shows "rel m' F"
proof -
  from run_isolated [OF assms(1,2)] assms(3) obtain A where A: "rel m' A" "F \<subseteq> A" "fst ` (A - F) = {}"
    by auto
  then have "A = F" by blast
  then show ?thesis using A(1) by simp
qed

end

end
