(* ===== verification/Malloc_Api.thy ===== *)
theory Malloc_Api
  imports Malloc_Free Allocator
begin

text \<open>
  The public interface of the allocator implements the contract of \<open>Allocator\<close>: \<open>rte_malloc_socket\<close> and
  \<open>rte_free\<close> on the heap model.
\<close>

declare of_nat_add [simp del] of_nat_diff [simp del]

section \<open>The relation to the set of live regions\<close>

definition malloc_rel :: "nat \<Rightarrow> mem \<Rightarrow> (nat \<times> nat) set \<Rightarrow> bool" where
  "malloc_rel lim m A \<longleftrightarrow> unlocked m \<and> (\<exists>L. heap_ok lim m L \<and> A = live (blocks L))"

definition malloc_byte :: "mem \<Rightarrow> nat \<Rightarrow> u8 option" where
  "malloc_byte m y = m_byte m (of_nat y)"

abbreviation malloc_result :: "nat \<Rightarrow> mem \<Rightarrow> (nat \<times> nat) set \<Rightarrow> nat \<Rightarrow> nat \<Rightarrow> mem \<Rightarrow> u64 \<Rightarrow> bool" where
  "malloc_result lim \<equiv> alloc_result (malloc_rel lim) malloc_byte"

lemma region_kept_same: "region_kept p n m m' \<Longrightarrow> region_same malloc_byte m m' (p, n)"
  by (simp add: region_kept_def region_same_def malloc_byte_def)

lemma heap_alloc_result:
  assumes rel: "malloc_rel lim m A" and rq: "req_ok lim sz align bound"
  obtains m' p where "malloc_heap_alloc h sz fl align bound m = Some (m', p)"
    "malloc_result lim m A (unat sz) (unat align) m' p"
    "p \<noteq> 0 \<Longrightarrow> unat bound \<noteq> 0 \<Longrightarrow> unat p div unat bound = (unat p + unat sz - 1) div unat bound"
    "m_seg m' = m_seg m"
proof -
  from rel obtain L where L: "unlocked m" "heap_ok lim m L" "A = live (blocks L)" by (auto simp: malloc_rel_def)
  obtain m' p where a: "malloc_heap_alloc h sz fl align bound m = Some (m', p)" "unlocked m'" "m_seg m' = m_seg m"
    "p = 0 \<Longrightarrow> m' = m"
    "p \<noteq> 0 \<Longrightarrow> \<exists>L' n. fresh_region lim m L m' L' (unat sz) (unat align) (unat bound) (unat p) n"
    by (rule malloc_heap_alloc_ok [OF L(2,1) rq]) (rule that, assumption+)
  show thesis
  proof (rule that [OF a(1)])
    show "malloc_result lim m A (unat sz) (unat align) m' p"
    proof (cases "p = 0")
      case False
      then obtain L' n where f: "fresh_region lim m L m' L' (unat sz) (unat align) (unat bound) (unat p) n"
        using a(5) by blast
      then have "malloc_rel lim m' (insert (unat p, n) A)"
        using a(2) L(3) by (auto simp: malloc_rel_def fresh_region_def)
      moreover have "\<forall>r \<in> A. region_same malloc_byte m m' r"
        using f L(3) by (auto simp: fresh_region_def intro!: region_kept_same)
      ultimately show ?thesis using f False L(3)
        by (auto simp: alloc_result_def fresh_region_def malloc_byte_def)
    qed (use a(4) in \<open>simp add: alloc_result_def\<close>)
    show "unat p div unat bound = (unat p + unat sz - 1) div unat bound" if "p \<noteq> 0" "unat bound \<noteq> 0"
      using a(5) [OF that(1)] that(2) by (auto simp: fresh_region_def)
  qed (rule a(3))
qed

section \<open>Allocation\<close>

type_synonym malloc_req = "malloc_env \<times> u64 \<times> u32 \<times> int"

definition req_alignment :: "u32 \<Rightarrow> u64" where
  "req_alignment align = (if align = 0 then 1 else ucast align)"

text \<open>
  Requests within the limits of the address arithmetic, on a socket that exists or on any; a zero
  size and an alignment that is no power of two are included, the code refuses them.
\<close>

definition malloc_req_ok :: "nat \<Rightarrow> malloc_req \<Rightarrow> bool" where
  "malloc_req_ok lim = (\<lambda>(env, sz, align, socket).
     unat sz + 63 + max 64 (unat align) \<le> lim \<and> lim < 2 ^ 64 \<and> (0 \<le> socket \<or> socket = SOCKET_ID_ANY) \<and>
     (env_socket_id env = - 1 \<or> env_socket_id env < 0x80000000))"

definition malloc_req_size :: "malloc_req \<Rightarrow> nat" where
  "malloc_req_size = (\<lambda>(env, sz, align, socket). unat sz)"

definition malloc_req_align :: "malloc_req \<Rightarrow> nat" where
  "malloc_req_align = (\<lambda>(env, sz, align, socket). unat (req_alignment align))"

definition malloc_req_alloc :: "malloc_req \<Rightarrow> mem \<Rightarrow> (string + mem \<times> u64) option" where
  "malloc_req_alloc = (\<lambda>(env, sz, align, socket). rte_malloc_socket env sz align socket)"

lemma alloc_result_none [simp]: "alloc_result rel byte m A sz al m 0"
  by (simp add: alloc_result_def)

lemma req_alignment_ok:
  assumes "sz \<noteq> 0" "\<not> (align \<noteq> 0 \<and> \<not> rte_is_power_of_2 align)"
    "unat sz + 63 + max 64 (unat align) \<le> lim" "lim < 2 ^ 64"
  shows "req_ok lim sz (req_alignment align) 0"
proof -
  have "\<exists>k < 32. req_alignment align = 2 ^ k"
  proof (cases "align = 0")
    case False
    then obtain k where "k < 32" "align = 2 ^ k" using assms(2) by (auto simp: rte_is_power_of_2_iff)
    then show ?thesis by (auto simp: req_alignment_def False)
  qed (auto simp: req_alignment_def intro: exI [of _ 0])
  moreover have "unat (req_alignment align) \<le> max 64 (unat align)"
    by (simp add: req_alignment_def unsigned_ucast_eq le_max_iff_disj)
  ultimately show ?thesis using assms by (auto simp: req_ok_def bound_ok_def)
qed

lemma try_other_heaps_result:
  assumes "malloc_rel lim m A" "req_ok lim sz align 0"
  shows "\<exists>m' p. try_other_heaps is socket sz align m = Some (m', p) \<and>
    malloc_result lim m A (unat sz) (unat align) m' p"
  using assms(1)
proof (induction "is" arbitrary: m)
  case (Cons i "is")
  show ?case
  proof (cases "int i = socket")
    case False
    obtain m' p where a: "malloc_heap_alloc i sz 0 align 0 m = Some (m', p)"
      "malloc_result lim m A (unat sz) (unat align) m' p" using heap_alloc_result [OF Cons.prems assms(2)] by metis
    show ?thesis
    proof (cases "p = 0")
      case True
      then have "m' = m" using a(2) by (simp add: alloc_result_def)
      then show ?thesis using Cons.IH [OF Cons.prems] a(1) True False by simp
    qed (use a False in simp)
  qed (use Cons in simp)
qed simp

lemma sint_nonneg32: "(x :: u32) < 0x80000000 \<Longrightarrow> 0 \<le> sint x"
  by (subst sint_uint, subst signed_take_bit_int_eq_self) (auto simp: word_less_def intro: order_trans [OF _ uint_ge_0])

lemma rte_malloc_socket_result:
  assumes rel: "malloc_rel lim m A" and rq: "malloc_req_ok lim (env, sz, align, socket)"
  shows "\<exists>m' p. rte_malloc_socket env sz align socket m = Some (Inr (m', p)) \<and>
    malloc_result lim m A (unat sz) (unat (req_alignment align)) m' p"
proof (cases "sz = 0 \<or> align \<noteq> 0 \<and> \<not> rte_is_power_of_2 align")
  case True
  then show ?thesis by (simp add: rte_malloc_socket_def)
next
  case False
  have ok: "req_ok lim sz (req_alignment align) 0"
    using False rq by (intro req_alignment_ok) (auto simp: malloc_req_ok_def)
  define sa where "sa = (if \<not> env_has_hugepages env then SOCKET_ID_ANY else socket)"
  define so where "so = (if sa = SOCKET_ID_ANY then sint (malloc_get_numa_socket env) else sa)"
  have "0 \<le> sint (malloc_get_numa_socket env)"
    using rq sint_nonneg32 by (auto simp: malloc_req_ok_def malloc_get_numa_socket_def)
  then have so: "0 \<le> so" using rq by (auto simp: so_def sa_def malloc_req_ok_def)
  have eq: "rte_malloc_socket env sz align socket m =
    (if so \<ge> int RTE_MAX_NUMA_NODES then Some (Inr (m, 0)) else do {
       (m, ret) \<leftarrow> malloc_heap_alloc (nat so) sz 0 (req_alignment align) 0 m;
       if ret \<noteq> 0 \<or> sa \<noteq> SOCKET_ID_ANY then Some (Inr (m, ret))
       else do {
         (m, ret) \<leftarrow> try_other_heaps [0..<RTE_MAX_NUMA_NODES] so sz (req_alignment align) m;
         Some (Inr (m, ret))
       }})"
    using False so unfolding rte_malloc_socket_def Let_def sa_def [symmetric] so_def [symmetric]
      req_alignment_def [symmetric] by auto
  obtain m1 p where a: "malloc_heap_alloc (nat so) sz 0 (req_alignment align) 0 m = Some (m1, p)"
    "malloc_result lim m A (unat sz) (unat (req_alignment align)) m1 p" using heap_alloc_result [OF rel ok] by metis
  show ?thesis
  proof (cases "p = 0 \<and> sa = SOCKET_ID_ANY")
    case True
    then have "m1 = m" using a(2) by (simp add: alloc_result_def)
    then show ?thesis using eq a(1) True try_other_heaps_result [OF rel ok, of "[0..<RTE_MAX_NUMA_NODES]" so] by auto
  qed (use eq a in auto)
qed


section \<open>Release\<close>

lemma from_data_live:
  assumes rep: "represents (m_hdr m) L" and b: "(h, x, b) \<in> blocks L" "\<not> b_free b"
  shows "malloc_elem_from_data (of_nat (x + b_pad b + 64)) m = of_nat x"
proof -
  obtain g s xs ys where at: "L g = Some s" "sg_blks s = xs @ b # ys" "x = sg_start s + sizes xs"
    and hd: "hdr_ok (m_hdr m) h g (last_addr 0 (sg_start s) xs) x b" using rep b(1) by (rule blocks_at)
  note r = blocks_range [OF rep b(1)]
  have pad: "b_pad b = 0 \<or> b_pad b = 64" "b_pad b + 64 < b_size b" using r(4) b(2) by (auto simp: blk_ok_def elim!: dvdE)
  let ?p = "x + b_pad b"
  have sub: "RTE_PTR_SUB (of_nat (?p + 64)) MALLOC_ELEM_HEADER_LEN = of_nat ?p"
    using of_nat_diff64 [of 64 "?p + 64"] by (simp add: RTE_PTR_SUB_def MALLOC_ELEM_HEADER_LEN_def)
  have lt: "?p + 64 < 2 ^ 64" using r(3) pad(2) by simp
  have nz: "(of_nat (?p + 64) :: u64) \<noteq> 0" "(of_nat ?p :: u64) \<noteq> 0"
    using of_nat_inj64 [of "?p + 64" 0] of_nat_inj64 [of ?p 0] lt r(1) by simp_all
  have bk: "RTE_PTR_SUB (of_nat ?p) (ucast (of_nat (b_pad b) :: u32)) = of_nat x"
    using pad(1) of_nat_diff64 [of 64 "x + 64"] by (auto simp: RTE_PTR_SUB_def)
  show ?thesis
    using nz hd b(2) pad(1) bk by (auto simp: malloc_elem_from_data_def Let_def sub malloc_elem_cookies_ok_def hdr_ok_def)
qed

lemma rte_free_detail:
  assumes rel: "malloc_rel lim m A" and p: "(p, n) \<in> A"
  shows "\<exists>m'. rte_free (of_nat p) m = Some (Inr m') \<and> malloc_rel lim m' (A - {(p, n)}) \<and>
    (\<forall>r \<in> A - {(p, n)}. region_same malloc_byte m m' r) \<and> me_state (m_hdr m' (of_nat (p - 64))) = ELEM_FREE"
proof -
  from rel obtain L where L: "unlocked m" "heap_ok lim m L" "A = live (blocks L)" by (auto simp: malloc_rel_def)
  note rep = heap_okD(2) [OF L(2)]
  obtain h x b where b: "(h, x, b) \<in> blocks L" "\<not> b_free b" "p = x + b_pad b + 64" "n = b_size b - b_pad b - 64"
    and xp: "x < p" "p + n = x + b_size b" using rep p unfolding L(3) by (rule live_cases)
  obtain g s xs ys where at: "at L g s xs b ys x" using blocks_at [OF rep b(1)] by (metis at_def)
  obtain m' q where f: "malloc_elem_free (of_nat x) m = Some (heap_unlock (sg_heap s) m', 0)"
    and run: "run_replaced lim m L g s (before_prev xs) (free_prev xs @ b # free_next ys) (after_next ys)
      [Blk (sizes (free_prev xs @ b # free_next ys)) True q] (x - sizes (free_prev xs)) m'"
    and lk: "\<And>h. h \<noteq> sg_heap s \<Longrightarrow> mh_lock (m_heap m' h) = mh_lock (m_heap m h)"
    and st: "me_state (m_hdr m' (of_nat (x + b_pad b))) = ELEM_FREE"
    by (rule malloc_elem_free_eq [OF L(2,1) at b(2)]) (rule that, assumption+)
  have px: "(of_nat p :: u64) \<noteq> 0" using of_nat_inj64 [of p 0] blocks_range(3) [OF rep b(1)] xp by simp
  have eq: "rte_free (of_nat p) m = Some (Inr (heap_unlock (sg_heap s) m'))"
    using px f from_data_live [OF rep b(1,2)] by (simp add: rte_free_def b(3))
  have free_live: "live (mid_blocks (sg_heap s) (x - sizes (free_prev xs)) (free_prev xs @ b # free_next ys)) = {(p, n)}"
  proof -
    have "x - sizes (free_prev xs) + sizes (free_prev xs) = x"
      using at free_prev_split [of xs] by (metis at_def le_add2 le_add_diff_inverse2 sizes_append trans_le_add2)
    then show ?thesis using b(2-4) by (auto simp: mid_blocks_append free_prev_def free_next_def)
  qed
  let ?L = "put_mid L g s (before_prev xs @ [Blk (sizes (free_prev xs @ b # free_next ys)) True q] @ after_next ys)"
  have "live (blocks ?L) = A - {(p, n)}" using run_live [OF run] free_live by (simp add: L(3))
  moreover have "unlocked (heap_unlock (sg_heap s) m')" using L(1) lk by (rule unlocked_unlock)
  moreover have "heap_ok lim (heap_unlock (sg_heap s) m') ?L" using run_heap_ok [OF run] by (rule heap_ok_unlock)
  ultimately have "malloc_rel lim (heap_unlock (sg_heap s) m') (A - {(p, n)})"
    by (auto simp: malloc_rel_def)
  moreover have "region_same malloc_byte m (heap_unlock (sg_heap s) m') r" if "r \<in> A - {(p, n)}" for r
    using run_kept [OF run, of "fst r" "snd r"] that free_live L(3)
    by (auto simp: region_same_def region_kept_def malloc_byte_def heap_unlock_eq)
  moreover have "me_state (m_hdr (heap_unlock (sg_heap s) m') (of_nat (p - 64))) = ELEM_FREE"
    using st by (simp add: b(3) heap_unlock_eq)
  ultimately show ?thesis using eq by blast
qed

lemma rte_free_ok:
  assumes "malloc_rel lim m A" "(p, n) \<in> A"
  shows "\<exists>m'. rte_free (of_nat p) m = Some (Inr m') \<and> malloc_rel lim m' (A - {(p, n)}) \<and>
    (\<forall>r \<in> A - {(p, n)}. region_same malloc_byte m m' r)"
  using rte_free_detail [OF assms] by blast

section \<open>The contract\<close>

lemma malloc_region_range:
  assumes rel: "malloc_rel lim m A" and p: "(p, n) \<in> A"
  shows "0 < p \<and> p + n < 2 ^ 64 \<and> 0 < n"
proof -
  from rel obtain L where L: "heap_ok lim m L" "A = live (blocks L)" by (auto simp: malloc_rel_def)
  note rep = heap_okD(2) [OF L(1)]
  obtain h x b where b: "(h, x, b) \<in> blocks L" "x < p" "0 < n" "p + n = x + b_size b"
    using rep p unfolding L(2) by (rule live_cases)
  then show ?thesis using blocks_range(3) [OF rep b(1)] by simp
qed

interpretation malloc: allocator "malloc_rel lim" malloc_byte malloc_req_alloc rte_free "malloc_req_ok lim"
  malloc_req_size malloc_req_align for lim
proof unfold_locales
  show "0 < p \<and> p + n < 2 ^ 64 \<and> 0 < n" if "malloc_rel lim m A" "(p, n) \<in> A" for m A p n
    using that by (rule malloc_region_range)
  show "(p, n) = (p', n')" if "malloc_rel lim m A" "(p, n) \<in> A" "(p', n') \<in> A"
    "p \<le> y" "y < p + n" "p' \<le> y" "y < p' + n'" for m A p n p' n' y
    using that live_disjoint heap_okD(2) by (fastforce simp: malloc_rel_def)
  show "\<exists>m' p. malloc_req_alloc r m = Some (Inr (m', p)) \<and>
      malloc_result lim m A (malloc_req_size r) (malloc_req_align r) m' p"
    if "malloc_rel lim m A" "malloc_req_ok lim r" for m A r
    using rte_malloc_socket_result [OF that(1)] that(2)
    by (cases r) (simp add: malloc_req_alloc_def malloc_req_size_def malloc_req_align_def)
qed (rule rte_free_ok)

end
