(* ===== verification/Malloc_Init.thy ===== *)
theory Malloc_Init
  imports Malloc_Api
begin

text \<open>
  Initialisation: \<open>rte_eal_malloc_heap_init\<close> turns the memory segments into heaps that satisfy the
  invariant, with every byte free.
\<close>

declare of_nat_add [simp del] of_nat_diff [simp del]

section \<open>Adding a segment\<close>

definition seg_size :: "nat \<Rightarrow> nat \<Rightarrow> nat" where
  "seg_size a n = (a + n - 64) div 64 * 64 - a"

lemma seg_size_bounds:
  assumes "64 dvd a" "192 \<le> n"
  shows "64 dvd seg_size a n" "64 < seg_size a n" "a + seg_size a n + 64 \<le> a + n"
    "a + seg_size a n = (a + n - 64) div 64 * 64"
proof -
  obtain c where c: "a = 64 * c" using assms(1) by (auto elim: dvdE)
  obtain d where d: "n = 192 + d" using assms(2) le_Suc_ex by blast
  have "a + n - 64 = 64 * (c + 2) + d" by (simp add: c d)
  then have q: "(a + n - 64) div 64 = c + 2 + d div 64" by simp
  then show "a + seg_size a n = (a + n - 64) div 64 * 64" unfolding seg_size_def q by (simp add: c)
  have k: "seg_size a n = 64 * (2 + d div 64)" unfolding seg_size_def q by (simp add: c)
  then show "64 dvd seg_size a n" "64 < seg_size a n" by simp_all
  have "d div 64 * 64 \<le> d" by simp
  then show "a + seg_size a n + 64 \<le> a + n" unfolding k by (simp add: d)
qed

lemma eq_of_nat64: "unat (x :: u64) = n \<Longrightarrow> x = of_nat n"
  by auto

lemma add_memseg_eq:
  assumes a: "64 dvd a" "192 \<le> n" "a + n < 2 ^ 64" and seg: "ms_addr (m_seg m g) = of_nat a" "ms_len (m_seg m g) = of_nat n"
  defines "k \<equiv> seg_size a n"
  shows "malloc_heap_add_memseg h g m = upd_heap h (\<lambda>hp. hp\<lparr>mh_total_size := mh_total_size hp + of_nat k\<rparr>)
    (malloc_elem_free_list_insert (of_nat a)
      (malloc_elem_mkend (of_nat (a + k)) (of_nat a) (malloc_elem_init (of_nat a) h g (of_nat k) m)))"
proof -
  note b = seg_size_bounds [OF a(1,2), folded k_def]
  have e1: "RTE_PTR_ADD (of_nat a) (of_nat n - MALLOC_ELEM_OVERHEAD) = (of_nat (a + n - 64) :: u64)"
  proof -
    have "(of_nat n - of_nat 64 :: u64) = of_nat (n - 64)" using a(2) by (intro of_nat_diff64) simp
    then have "RTE_PTR_ADD (of_nat a) (of_nat n - MALLOC_ELEM_OVERHEAD) = (of_nat a + of_nat (n - 64) :: u64)"
      by (simp add: RTE_PTR_ADD_def MALLOC_ELEM_OVERHEAD_def MALLOC_ELEM_HEADER_LEN_def MALLOC_ELEM_TRAILER_LEN_def)
    also have "\<dots> = of_nat (a + n - 64)" using a(2) by (simp only: of_nat_sum) simp
    finally show ?thesis .
  qed
  have "unat (RTE_ALIGN_FLOOR (of_nat (a + n - 64) :: u64) (2 ^ 6 :: u32)) = a + k"
    using a(3) b(4) by (subst align_floor_pow2) (simp_all add: unat_of_nat64 minus_mod_eq_div_mult)
  then have e2: "RTE_PTR_ALIGN_FLOOR (of_nat (a + n - 64) :: u64) (RTE_CACHE_LINE_SIZE :: u32) = of_nat (a + k)"
    unfolding RTE_PTR_ALIGN_FLOOR_def by (intro eq_of_nat64) (simp add: RTE_CACHE_LINE_SIZE_def)
  have e3: "(of_nat (a + k) - of_nat a :: u64) = of_nat k" using of_nat_diff64 [of a "a + k"] by simp
  show ?thesis by (simp only: malloc_heap_add_memseg_def Let_def seg e1 e2 e3)
qed

text \<open>The memory after a segment was added, header by header.\<close>

lemma add_memseg_mem:
  fixes m :: mem and g h :: nat
  assumes a: "0 < k" "a + k + 64 < 2 ^ 64"
  defines "m' \<equiv> malloc_elem_free_list_insert (of_nat a)
      (malloc_elem_mkend (of_nat (a + k)) (of_nat a) (malloc_elem_init (of_nat a) h g (of_nat k) m))"
  shows "m_hdr m' = (m_hdr m)
      (of_nat a := \<lparr>me_heap = h, me_prev = 0, me_ms = g, me_state = ELEM_FREE, me_pad = 0, me_size = of_nat k\<rparr>,
       of_nat (a + k) := \<lparr>me_heap = h, me_prev = of_nat a, me_ms = g, me_state = ELEM_BUSY, me_pad = 0, me_size = 0\<rparr>)"
    "m_heap m' = (m_heap m)(h := (m_heap m h)\<lparr>mh_free_head := (mh_free_head (m_heap m h))
      (fl_index k := of_nat a # mh_free_head (m_heap m h) (fl_index k))\<rparr>)"
    "bytes_kept {a, a + k} m m'" "m_seg m' = m_seg m"
proof -
  have ne: "(of_nat (a + k) :: u64) \<noteq> of_nat a" using a by (simp add: of_nat_inj64)
  then have ne': "(of_nat a :: u64) \<noteq> of_nat (a + k)" by simp
  show "m_hdr m' = (m_hdr m)
      (of_nat a := \<lparr>me_heap = h, me_prev = 0, me_ms = g, me_state = ELEM_FREE, me_pad = 0, me_size = of_nat k\<rparr>,
       of_nat (a + k) := \<lparr>me_heap = h, me_prev = of_nat a, me_ms = g, me_state = ELEM_BUSY, me_pad = 0, me_size = 0\<rparr>)"
    using ne ne' by (simp add: m'_def malloc_elem_free_list_insert_def malloc_elem_mkend_def Let_def fun_upd_twist)
  show "m_heap m' = (m_heap m)(h := (m_heap m h)\<lparr>mh_free_head := (mh_free_head (m_heap m h))
      (fl_index k := of_nat a # mh_free_head (m_heap m h) (fl_index k))\<rparr>)"
    using ne ne' by (simp add: m'_def malloc_elem_free_list_insert_def malloc_elem_mkend_def Let_def fl_index_def)
  have "bytes_kept ({a} \<union> {a + k} \<union> {a + k} \<union> {a}) m m'"
    unfolding m'_def malloc_elem_free_list_insert_def malloc_elem_mkend_def Let_def
    by (intro bytes_kept_heap bytes_kept_trans [OF _ bytes_kept_upd] bytes_kept_trans [OF _ bytes_kept_init] bytes_kept_init)
      (use a in simp_all)
  then show "bytes_kept {a, a + k} m m'" by (rule bytes_kept_mono) auto
  show "m_seg m' = m_seg m"
    by (simp add: m'_def malloc_elem_free_list_insert_def malloc_elem_mkend_def Let_def)
qed

definition new_seg :: "nat \<Rightarrow> nat \<Rightarrow> nat \<Rightarrow> seg" where
  "new_seg h a n = \<lparr>sg_heap = h, sg_start = a, sg_blks = [Blk (seg_size a n) True 0]\<rparr>"

text \<open>What is asked of a segment: aligned, large enough, zero, and apart from the others.\<close>

definition seg_fresh :: "nat \<Rightarrow> mem \<Rightarrow> layout \<Rightarrow> nat \<Rightarrow> nat \<Rightarrow> bool" where
  "seg_fresh lim m L a n \<longleftrightarrow> 64 dvd a \<and> 0 < a \<and> lim \<le> a \<and> 192 \<le> n \<and> a + n < 2 ^ 64 \<and>
     (\<forall>y. a \<le> y \<and> y < a + n \<longrightarrow> m_byte m (of_nat y) = Some 0) \<and>
     (\<forall>g s. L g = Some s \<longrightarrow> sg_end s + 64 \<le> a \<or> a + n \<le> sg_start s)"

lemma blocks_add: "L g = None \<Longrightarrow> blocks (L(g \<mapsto> s)) = blocks L \<union> mid_blocks (sg_heap s) (sg_start s) (sg_blks s)"
  unfolding blocks_def mid_blocks_def by (auto split: if_splits) (metis option.distinct(1))+

lemma represents_add:
  assumes rep: "represents H L" and g: "L g = None" and s: "seg_ok s"
    and ch: "chain H' (sg_heap s) g 0 (sg_start s) (sg_blks s)"
    and sep: "\<And>g' s'. L g' = Some s' \<Longrightarrow> sg_end s' + 64 \<le> sg_start s \<or> sg_end s + 64 \<le> sg_start s'"
    and frame: "\<And>x. \<lbrakk>x < 2 ^ 64; x < sg_start s \<or> sg_end s < x\<rbrakk> \<Longrightarrow> H' (of_nat x) = H (of_nat x)"
  shows "represents H' (L(g \<mapsto> s))"
  unfolding represents_def
proof (intro conjI allI impI)
  have "separate L" using rep by (simp add: represents_def)
  then show "separate (L(g \<mapsto> s))"
    using g sep unfolding separate_def by (auto split: if_splits) (metis disj_commute)+
  fix g' s' assume a: "(L(g \<mapsto> s)) g' = Some s'"
  show "seg_ok s'" using a rep s by (auto simp: represents_def split: if_splits)
  show "chain H' (sg_heap s') g' 0 (sg_start s') (sg_blks s')"
  proof (cases "g' = g")
    case False
    then have L: "L g' = Some s'" using a by simp
    then have ok: "seg_ok s'" "chain H (sg_heap s') g' 0 (sg_start s') (sg_blks s')"
      using rep by (simp_all add: represents_def)
    have "H' (of_nat x) = H (of_nat x)" if "sg_start s' \<le> x" "x \<le> sg_end s'" for x
      using that ok(1) sep [OF L] by (intro frame) (auto simp: seg_ok_def)
    then show ?thesis using ok chain_cong [of "sg_start s'" "sg_blks s'" H' H] by (simp add: sg_end_def seg_ok_def)
  qed (use a ch in simp)
qed

lemma heap_total_add:
  assumes "finite (dom L)" "L g = None"
  shows "heap_total (L(g \<mapsto> s)) h = heap_total L h + (if sg_heap s = h then sizes (sg_blks s) else 0)"
proof -
  have "g \<notin> dom L" using assms(2) by (simp add: domIff)
  then have "(\<Sum>g' \<in> dom L. if sg_heap (the ((L(g \<mapsto> s)) g')) = h then sizes (sg_blks (the ((L(g \<mapsto> s)) g'))) else 0) =
    heap_total L h" unfolding heap_total_def by (intro sum.cong) auto
  moreover have "dom (L(g \<mapsto> s)) = insert g (dom L)" by simp
  ultimately show ?thesis using assms(1) \<open>g \<notin> dom L\<close> by (simp add: heap_total_def)
qed

lemma add_memseg_ok:
  assumes hk: "heap_ok lim m L" and g: "L g = None" and fr: "seg_fresh lim m L a n"
    and seg: "ms_addr (m_seg m g) = of_nat a" "ms_len (m_seg m g) = of_nat n"
  shows "heap_ok lim (malloc_heap_add_memseg h g m) (L(g \<mapsto> new_seg h a n))"
    "m_seg (malloc_heap_add_memseg h g m) = m_seg m"
    "\<And>h'. mh_lock (m_heap (malloc_heap_add_memseg h g m) h') = mh_lock (m_heap m h')"
    "\<And>y. \<lbrakk>y < 2 ^ 64; y < a \<or> a + n \<le> y\<rbrakk> \<Longrightarrow>
      m_byte (malloc_heap_add_memseg h g m) (of_nat y) = m_byte m (of_nat y)"
proof -
  note ok = heap_okD [OF hk]
  define k where "k = seg_size a n"
  have f: "64 dvd a" "0 < a" "lim \<le> a" "192 \<le> n" "a + n < 2 ^ 64"
    "\<And>y. a \<le> y \<Longrightarrow> y < a + n \<Longrightarrow> m_byte m (of_nat y) = Some 0"
    "\<And>g s. L g = Some s \<Longrightarrow> sg_end s + 64 \<le> a \<or> a + n \<le> sg_start s"
    using fr unfolding seg_fresh_def by blast+
  note b = seg_size_bounds [OF f(1,4), folded k_def]
  have ak: "0 < k" "a + k + 64 < 2 ^ 64" using b f(5) by simp_all
  define m1 where "m1 = malloc_elem_free_list_insert (of_nat a)
      (malloc_elem_mkend (of_nat (a + k)) (of_nat a) (malloc_elem_init (of_nat a) h g (of_nat k) m))"
  note mm = add_memseg_mem [OF ak, where h = h and g = g and m = m, folded m1_def]
  have eq: "malloc_heap_add_memseg h g m = upd_heap h (\<lambda>hp. hp\<lparr>mh_total_size := mh_total_size hp + of_nat k\<rparr>) m1"
    unfolding m1_def k_def by (rule add_memseg_eq [OF f(1,4,5) seg])
  let ?s = "new_seg h a n" and ?m = "malloc_heap_add_memseg h g m"
  have s: "sg_start ?s = a" "sg_end ?s = a + k" "sg_heap ?s = h" "sg_blks ?s = [Blk k True 0]"
    by (simp_all add: new_seg_def sg_end_def k_def)
  have ne: "(of_nat (a + k) :: u64) \<noteq> of_nat a" using ak by (simp add: of_nat_inj64)
  have rep: "represents (m_hdr ?m) (L(g \<mapsto> ?s))"
  proof (rule represents_add [OF ok(2) g])
    show "seg_ok ?s" using f(1,2) ak b by (simp add: seg_ok_def s blk_ok_def)
    show "chain (m_hdr ?m) (sg_heap ?s) g 0 (sg_start ?s) (sg_blks ?s)"
      using ne by (simp add: s chain_Cons chain_Nil hdr_ok_def end_ok_def eq mm(1))
    show "sg_end s' + 64 \<le> sg_start ?s \<or> sg_end ?s + 64 \<le> sg_start s'" if "L g' = Some s'" for g' s'
      using f(7) [OF that] b(3) by (auto simp: s)
    show "m_hdr ?m (of_nat x) = m_hdr m (of_nat x)" if "x < 2 ^ 64" "x < sg_start ?s \<or> sg_end ?s < x" for x
      using that ak by (auto simp: s eq mm(1) of_nat_inj64)
  qed
  have bl: "blocks (L(g \<mapsto> ?s)) = insert (h, a, Blk k True 0) (blocks L)"
    using blocks_add [of L g ?s] g by (simp add: s)
  have kept: "m_byte ?m (of_nat y) = m_byte m (of_nat y)"
    if "y < 2 ^ 64" "\<not> (a \<le> y \<and> y < a + 64)" "\<not> (a + k \<le> y \<and> y < a + k + 64)" for y
    using mm(3) that unfolding bytes_kept_def by (simp add: eq)
  show out: "m_byte ?m (of_nat y) = m_byte m (of_nat y)" if "y < 2 ^ 64" "y < a \<or> a + n \<le> y" for y
    using that b(3) f(4) by (intro kept) auto
  have apart: "x + b_size c \<le> a \<or> a + n \<le> x" if "(h', x, c) \<in> blocks L" for h' x c
  proof -
    from that obtain g' s' where g': "L g' = Some s'" "(x, c) \<in> set (addrs (sg_start s') (sg_blks s'))"
      by (auto simp: blocks_def)
    then show ?thesis using f(7) [OF g'(1)] addrs_range [OF g'(2)] by (auto simp: sg_end_def)
  qed
  show "m_seg ?m = m_seg m" by (simp add: eq mm(4))
  show "mh_lock (m_heap ?m h') = mh_lock (m_heap m h')" for h' by (simp add: eq mm(2))
  show "heap_ok lim ?m (L(g \<mapsto> ?s))"
    unfolding heap_ok_def state_ok_def
  proof (intro conjI allI impI)
    have new: "(h', a, n') \<notin> frees (blocks L)" for h' n'
    proof
      assume "(h', a, n') \<in> frees (blocks L)"
      then obtain c where c: "(h', a, c) \<in> blocks L" by (auto simp: frees_def)
      then show False using apart [OF c] blocks_range(4) [OF ok(2) c] f(4) by (auto simp: blk_ok_def)
    qed
    have "lists_ok (m_heap m1) (insert (h, a, k) (frees (blocks L)))"
      unfolding mm(2) by (rule lists_ok_insert [OF ok(3) new addr_inj_frees [OF ok(2)]]) (use f(5) in simp)
    then show "lists_ok (m_heap ?m) (frees (blocks (L(g \<mapsto> ?s))))"
      unfolding bl eq by (auto intro: lists_ok_upd)
    show "addr_inj (frees (blocks (L(g \<mapsto> ?s))))" using rep by (rule addr_inj_frees)
    show "zero_ok ?m (blocks (L(g \<mapsto> ?s)))"
      unfolding zero_ok_def
    proof (intro allI impI)
      fix h' x c y assume a: "(h', x, c) \<in> blocks (L(g \<mapsto> ?s)) \<and> b_free c \<and> x + 64 \<le> y \<and> y < x + b_size c"
      show "m_byte ?m (of_nat y) = Some 0"
      proof (cases "(h', x, c) \<in> blocks L")
        case True
        then have "m_byte m (of_nat y) = Some 0" using a ok(7) unfolding zero_ok_def by blast
        then show ?thesis using out [of y] apart [OF True] blocks_range(3) [OF ok(2) True] a by auto
      next
        case False
        then have "x = a" "b_size c = k" using a by (auto simp: bl)
        then show ?thesis using a kept [of y] f(5,6) b(3) by simp
      qed
    qed
    show "mh_alloc_count (m_heap ?m h') = of_nat (card (busy (blocks (L(g \<mapsto> ?s))) h'))" for h'
      using ok(9) by (simp add: bl busy_insert eq mm(2))
    show "mh_total_size (m_heap ?m h') = of_nat (heap_total (L(g \<mapsto> ?s)) h')" for h'
      using ok(8) by (simp add: heap_total_add [OF ok(4) g] s eq mm(2) of_nat_add)
  qed (use rep ok(4,5,6) f(3) in \<open>auto simp: s coalesced_def split: if_splits\<close>)
qed

section \<open>The whole initialisation\<close>

abbreviation seg_a :: "mem \<Rightarrow> nat \<Rightarrow> nat" where "seg_a m g \<equiv> unat (ms_addr (m_seg m g))"
abbreviation seg_n :: "mem \<Rightarrow> nat \<Rightarrow> nat" where "seg_n m g \<equiv> unat (ms_len (m_seg m g))"
abbreviation seg_h :: "mem \<Rightarrow> nat \<Rightarrow> nat" where "seg_h m g \<equiv> nat (ms_socket_id (m_seg m g))"

text \<open>
  The state before: \<open>N\<close> segments, cache-line aligned, of at least three lines, zeroed and apart from each
  other, and empty heaps.
\<close>

definition boot_ok :: "nat \<Rightarrow> mem \<Rightarrow> nat \<Rightarrow> bool" where
  "boot_ok lim m N \<longleftrightarrow> N \<le> RTE_MAX_MEMSEG \<and> (N < RTE_MAX_MEMSEG \<longrightarrow> ms_len (m_seg m N) = 0) \<and>
     (\<forall>g < N. 64 dvd seg_a m g \<and> 0 < seg_a m g \<and> lim \<le> seg_a m g \<and> 192 \<le> seg_n m g \<and> seg_a m g + seg_n m g < 2 ^ 64 \<and>
        (\<forall>y. seg_a m g \<le> y \<and> y < seg_a m g + seg_n m g \<longrightarrow> m_byte m (of_nat y) = Some 0)) \<and>
     (\<forall>g < N. \<forall>g' < N. g \<noteq> g' \<longrightarrow> seg_a m g + seg_n m g \<le> seg_a m g' \<or> seg_a m g' + seg_n m g' \<le> seg_a m g) \<and>
     (\<forall>h. mh_free_head (m_heap m h) = (\<lambda>_. []) \<and> mh_alloc_count (m_heap m h) = 0 \<and> mh_total_size (m_heap m h) = 0 \<and>
        sl_locked (mh_lock (m_heap m h)) = 0)"

text \<open>The layout after the first \<open>c\<close> segments.\<close>

definition boot_layout :: "mem \<Rightarrow> nat \<Rightarrow> layout" where
  "boot_layout m c g = (if g < c then Some (new_seg (seg_h m g) (seg_a m g) (seg_n m g)) else None)"

definition boot_inv :: "nat \<Rightarrow> mem \<Rightarrow> nat \<Rightarrow> nat \<Rightarrow> mem \<Rightarrow> bool" where
  "boot_inv lim m0 N c m \<longleftrightarrow> heap_ok lim m (boot_layout m0 c) \<and> unlocked m \<and> m_seg m = m_seg m0 \<and>
     (\<forall>g. c \<le> g \<and> g < N \<longrightarrow> (\<forall>y. seg_a m0 g \<le> y \<and> y < seg_a m0 g + seg_n m0 g \<longrightarrow> m_byte m (of_nat y) = Some 0))"

lemma boot_segs:
  assumes "boot_ok lim m N" "g < N"
  shows "64 dvd seg_a m g" "0 < seg_a m g" "lim \<le> seg_a m g" "192 \<le> seg_n m g" "seg_a m g + seg_n m g < 2 ^ 64"
    "\<And>g'. g' < N \<Longrightarrow> g \<noteq> g' \<Longrightarrow> seg_a m g + seg_n m g \<le> seg_a m g' \<or> seg_a m g' + seg_n m g' \<le> seg_a m g"
  using assms unfolding boot_ok_def by blast+

lemma boot_step:
  assumes boot: "boot_ok lim m0 N" and inv: "boot_inv lim m0 N c m" and c: "c < N"
  shows "boot_inv lim m0 N (Suc c) (malloc_heap_add_memseg (seg_h m0 c) c m)"
proof -
  note bc = boot_segs [OF boot c]
  have iv: "heap_ok lim m (boot_layout m0 c)" "unlocked m" "m_seg m = m_seg m0"
    "\<And>g y. \<lbrakk>c \<le> g; g < N; seg_a m0 g \<le> y; y < seg_a m0 g + seg_n m0 g\<rbrakk> \<Longrightarrow> m_byte m (of_nat y) = Some 0"
    using inv unfolding boot_inv_def by blast+
  have fresh: "seg_fresh lim m (boot_layout m0 c) (seg_a m0 c) (seg_n m0 c)"
    unfolding seg_fresh_def
  proof (intro conjI allI impI)
    show "m_byte m (of_nat y) = Some 0" if "seg_a m0 c \<le> y \<and> y < seg_a m0 c + seg_n m0 c" for y
      using that c by (intro iv(4) [of c]) auto
    show "sg_end s + 64 \<le> seg_a m0 c \<or> seg_a m0 c + seg_n m0 c \<le> sg_start s" if "boot_layout m0 c g = Some s" for g s
    proof -
      have g: "g < c" "s = new_seg (seg_h m0 g) (seg_a m0 g) (seg_n m0 g)"
        using that by (auto simp: boot_layout_def split: if_splits)
      note bg = boot_segs [OF boot less_trans [OF g(1) c]]
      have "sg_end s + 64 \<le> seg_a m0 g + seg_n m0 g"
        using seg_size_bounds(3) [OF bg(1,4)] by (simp add: g(2) new_seg_def sg_end_def)
      then show ?thesis using bg(6) [OF c] g by (auto simp: new_seg_def)
    qed
  qed (use bc in auto)
  have none: "boot_layout m0 c c = None" by (simp add: boot_layout_def)
  have sg: "ms_addr (m_seg m c) = of_nat (seg_a m0 c)" "ms_len (m_seg m c) = of_nat (seg_n m0 c)"
    by (simp_all add: iv(3))
  note st = add_memseg_ok [OF iv(1) none fresh sg, where h = "seg_h m0 c"]
  have L: "(boot_layout m0 c)(c \<mapsto> new_seg (seg_h m0 c) (seg_a m0 c) (seg_n m0 c)) = boot_layout m0 (Suc c)"
    by (auto simp: boot_layout_def fun_eq_iff)
  have "m_byte (malloc_heap_add_memseg (seg_h m0 c) c m) (of_nat y) = Some 0"
    if g: "Suc c \<le> g" "g < N" and y: "seg_a m0 g \<le> y" "y < seg_a m0 g + seg_n m0 g" for g y
  proof -
    have "y < seg_a m0 c \<or> seg_a m0 c + seg_n m0 c \<le> y" using bc(6) [OF g(2)] g(1) y by auto
    moreover have "y < 2 ^ 64" using boot_segs(5) [OF boot g(2)] y by simp
    ultimately show ?thesis using st(4) iv(4) [of g y] g y by simp
  qed
  then show ?thesis using st(1-3) iv(2,3) unfolding boot_inv_def L by (auto simp: unlocked_def)
qed

lemma boot_loop:
  assumes boot: "boot_ok lim m0 N" and "boot_inv lim m0 N c m" "c \<le> N" "left = RTE_MAX_MEMSEG - c"
  shows "boot_inv lim m0 N N (heap_init_loop left c m)"
  using assms(2-)
proof (induction left arbitrary: c m)
  case 0
  then have "c = N" using boot by (simp add: boot_ok_def)
  then show ?case using 0 by simp
next
  case (Suc left)
  have seg: "m_seg m = m_seg m0" using Suc.prems(1) by (simp add: boot_inv_def)
  show ?case
  proof (cases "c < N")
    case True
    have "ms_len (m_seg m c) > 0" using boot_segs(4) [OF boot True] by (simp add: seg word_less_nat_alt)
    moreover have "boot_inv lim m0 N N (heap_init_loop left (Suc c) (malloc_heap_add_memseg (seg_h m0 c) c m))"
      using Suc.prems True by (intro Suc.IH boot_step [OF boot]) auto
    ultimately show ?thesis by (simp add: seg)
  next
    case False
    then have "c = N" using Suc.prems(2) by simp
    then have "ms_len (m_seg m c) = 0" using boot Suc.prems(3) by (simp add: boot_ok_def seg)
    then show ?thesis using Suc.prems(1) \<open>c = N\<close> by simp
  qed
qed

lemma boot_start:
  assumes "boot_ok lim m N"
  shows "boot_inv lim m N 0 m"
proof -
  have L: "boot_layout m 0 = Map.empty" by (simp add: boot_layout_def fun_eq_iff)
  have "blocks Map.empty = {}" by (simp add: blocks_def)
  then have "heap_ok lim m Map.empty"
    using assms by (simp add: heap_ok_def state_ok_def represents_def separate_def lists_ok_def addr_inj_def
        zero_ok_def heap_total_def boot_ok_def)
  then show ?thesis using assms unfolding boot_inv_def L by (auto simp: boot_ok_def unlocked_def)
qed

lemma heap_init_rel:
  assumes "boot_ok lim m N"
  shows "malloc_rel lim (fst (rte_eal_malloc_heap_init m)) {}" "snd (rte_eal_malloc_heap_init m) = 0"
proof -
  have inv: "boot_inv lim m N N (fst (rte_eal_malloc_heap_init m))"
    unfolding rte_eal_malloc_heap_init_def using boot_loop [OF assms boot_start [OF assms], of RTE_MAX_MEMSEG] by simp
  have "live (blocks (boot_layout m N)) = {}"
    by (auto simp: live_def blocks_def boot_layout_def new_seg_def split: if_splits)
  then show "malloc_rel lim (fst (rte_eal_malloc_heap_init m)) {}"
    using inv unfolding boot_inv_def malloc_rel_def by metis
  show "snd (rte_eal_malloc_heap_init m) = 0" by (simp add: rte_eal_malloc_heap_init_def)
qed

end
