(* ===== verification/Malloc_Props.thy ===== *)
theory Malloc_Props
  imports Malloc_Init
begin

text \<open>
  The properties of the memory allocator, over the public functions of \<^verbatim>\<open>rte_malloc.c\<close>.
\<close>

declare of_nat_add [simp del] of_nat_diff [simp del]

section \<open>A concrete memory\<close>

definition demo_boot :: mem where
  "demo_boot = \<lparr>m_hdr = (\<lambda>_. zero_elem), m_byte = (\<lambda>_. Some 0),
     m_heap = (\<lambda>_. \<lparr>mh_lock = \<lparr>sl_locked = 0\<rparr>, mh_free_head = (\<lambda>_. []), mh_alloc_count = 0, mh_total_size = 0\<rparr>),
     m_seg = (\<lambda>g. \<lparr>ms_phys_addr = 0, ms_addr = 0x40000000, ms_len = (if g = 0 then 0x200000 else 0),
       ms_hugepage_sz = 0x200000, ms_socket_id = 0, ms_nchannel = 0, ms_nrank = 0\<rparr>)\<rparr>"

definition demo_env :: malloc_env where
  "demo_env = \<lparr>env_has_hugepages = True, env_socket_id = 0\<rparr>"

abbreviation demo_heap :: mem where
  "demo_heap \<equiv> fst (rte_eal_malloc_heap_init demo_boot)"

lemma demo_boot_ok: "boot_ok 0x10000000 demo_boot 1"
  by (simp add: boot_ok_def demo_boot_def RTE_MAX_MEMSEG_def)

lemma demo_rel: "malloc_rel 0x10000000 demo_heap {}"
  using demo_boot_ok by (rule heap_init_rel)

lemma demo_req: "malloc_req_ok 0x10000000 (demo_env, 100, 0, SOCKET_ID_ANY)"
  "malloc_req_ok 0x10000000 (demo_env, 4096, 256, 0)"
  by (simp_all add: malloc_req_ok_def demo_env_def)

section \<open>Clients\<close>

text \<open>
  C1. After initialisation, any sequence of allocations (of any size and alignment
  within the limits, on any socket) and releases by a client runs to its end without panic and without
  blocking. The regions it holds at the end are exactly the live ones, they are pairwise disjoint, and
  the heap invariant holds: headers form chains, the free lists hold exactly the free elements, free
  neighbours are merged, free memory is zero and the counters are exact.
\<close>

theorem malloc_run_isolated:
  assumes "boot_ok lim m N" "\<forall>op \<in> set ops. op_ok (malloc_req_ok lim) op"
  shows "\<exists>m' held A. heap_run malloc_req_alloc rte_free ops (fst (rte_eal_malloc_heap_init m)) [] = Some (Inr (m', held)) \<and>
    malloc_rel lim m' A \<and> distinct held \<and> unat ` set held = fst ` A \<and>
    (\<forall>p n p' n' y. (p, n) \<in> A \<and> (p', n') \<in> A \<and> p \<le> y \<and> y < p + n \<and> p' \<le> y \<and> y < p' + n' \<longrightarrow> (p, n) = (p', n'))"
proof -
  obtain m' held A where
    r: "heap_run malloc_req_alloc rte_free ops (fst (rte_eal_malloc_heap_init m)) [] = Some (Inr (m', held))"
    "malloc_rel lim m' A" "distinct held" "unat ` set held = fst ` (A - {})"
    using malloc.run_isolated [OF heap_init_rel(1) [OF assms(1)] assms(2)] by (elim exE conjE) (rule that)
  show ?thesis
  proof (intro exI conjI)
    show "unat ` set held = fst ` A" using r(4) by simp
    show "\<forall>p n p' n' y. (p, n) \<in> A \<and> (p', n') \<in> A \<and> p \<le> y \<and> y < p + n \<and> p' \<le> y \<and> y < p' + n' \<longrightarrow> (p, n) = (p', n')"
      by (intro allI impI, elim conjE) (rule malloc.region_disjoint [OF r(2)])
  qed (fact r)+
qed

theorem malloc_run_isolated_witness:
  "\<exists>m' held A. heap_run malloc_req_alloc rte_free
      [Alloc (demo_env, 100, 0, SOCKET_ID_ANY), Alloc (demo_env, 4096, 256, 0), Free 1] demo_heap [] = Some (Inr (m', held)) \<and>
    malloc_rel 0x10000000 m' A \<and> distinct held \<and> unat ` set held = fst ` A \<and>
    (\<forall>p n p' n' y. (p, n) \<in> A \<and> (p', n') \<in> A \<and> p \<le> y \<and> y < p + n \<and> p' \<le> y \<and> y < p' + n' \<longrightarrow> (p, n) = (p', n'))"
  by (rule malloc_run_isolated [OF demo_boot_ok]) (simp add: demo_req)

text \<open>
  C2. \<^verbatim>\<open>rte_malloc_socket\<close> on a well-formed heap always returns. It returns \<^verbatim>\<open>NULL\<close> and changes
  nothing, or a pointer that has the requested alignment to a region of at least the requested size,
  disjoint from every live region; the requested bytes are zero and the contents of the live regions
  are kept. So \<^verbatim>\<open>rte_zmalloc_socket\<close>, which only calls it, returns zeroed memory.
\<close>

theorem malloc_fresh:
  assumes "malloc_rel lim m A" "malloc_req_ok lim (env, sz, align, socket)"
  shows "\<exists>m' p. rte_zmalloc_socket env sz align socket m = Some (Inr (m', p)) \<and>
    rte_malloc_socket env sz align socket m = Some (Inr (m', p)) \<and>
    (p = 0 \<longrightarrow> m' = m) \<and>
    (p \<noteq> 0 \<longrightarrow> (\<exists>n. malloc_rel lim m' (insert (unat p, n) A) \<and> (unat p, n) \<notin> A \<and> unat sz \<le> n) \<and>
       (align \<noteq> 0 \<longrightarrow> unat align dvd unat p) \<and>
       (\<forall>y. unat p \<le> y \<and> y < unat p + unat sz \<longrightarrow> m_byte m' (of_nat y) = Some 0) \<and>
       (\<forall>q k y. (q, k) \<in> A \<and> q \<le> y \<and> y < q + k \<longrightarrow> m_byte m' (of_nat y) = m_byte m (of_nat y)))"
proof -
  have al: "unat (req_alignment align) = unat align" if "align \<noteq> 0"
    using that by (simp add: req_alignment_def unsigned_ucast_eq take_bit_nat_eq_self unat_lt_pow [THEN less_le_trans])
  from rte_malloc_socket_result [OF assms] obtain m' p where
    "rte_malloc_socket env sz align socket m = Some (Inr (m', p))"
    "malloc_result lim m A (unat sz) (unat (req_alignment align)) m' p" by blast
  then show ?thesis using al
    by (intro exI [of _ m'] exI [of _ p])
      (auto simp: rte_zmalloc_socket_def alloc_result_def region_same_def malloc_byte_def)
qed

theorem malloc_fresh_witness:
  "\<exists>m' p. rte_zmalloc_socket demo_env 4096 256 0 demo_heap = Some (Inr (m', p)) \<and>
    rte_malloc_socket demo_env 4096 256 0 demo_heap = Some (Inr (m', p)) \<and>
    (p \<noteq> 0 \<longrightarrow> 256 dvd unat p)"
  using malloc_fresh [OF demo_rel demo_req(2)] by auto

text \<open>
  C10. A region that was allocated can be released: \<^verbatim>\<open>rte_free\<close> neither panics nor
  blocks, the live regions are again those before the allocation, with their contents, and a second
  \<^verbatim>\<open>rte_free\<close> of the same pointer is detected and panics.
\<close>

theorem malloc_free_round_trip:
  assumes rel: "malloc_rel lim m A" "malloc_req_ok lim (env, sz, align, socket)"
    and al: "rte_malloc_socket env sz align socket m = Some (Inr (m', p))" and p: "p \<noteq> 0"
  shows "\<exists>m''. rte_free p m' = Some (Inr m'') \<and> malloc_rel lim m'' A \<and>
    (\<forall>q k y. (q, k) \<in> A \<and> q \<le> y \<and> y < q + k \<longrightarrow> m_byte m'' (of_nat y) = m_byte m (of_nat y)) \<and>
    rte_free p m'' = Some (Inl ''Fatal error: Invalid memory'')"
proof -
  have "malloc_result lim m A (unat sz) (unat (req_alignment align)) m' p"
    using rte_malloc_socket_result [OF rel] al by auto
  then obtain n where n: "malloc_rel lim m' (insert (unat p, n) A)" "(unat p, n) \<notin> A"
    "\<forall>r \<in> A. region_same malloc_byte m m' r" using p by (auto simp: alloc_result_def)
  from rte_free_detail [OF n(1), of "unat p" n] obtain m'' where f: "rte_free p m' = Some (Inr m'')"
    "malloc_rel lim m'' A" "\<forall>r \<in> A. region_same malloc_byte m' m'' r" "me_state (m_hdr m'' (of_nat (unat p - 64))) = ELEM_FREE"
    using n(2) by auto
  have "0 < unat p" using p by (simp add: unat_gt_0)
  have "64 < unat p"
  proof -
    obtain L where hk: "heap_ok lim m' L" "insert (unat p, n) A = live (blocks L)"
      using n(1) by (auto simp: malloc_rel_def)
    then have L: "represents (m_hdr m') L" "(unat p, n) \<in> live (blocks L)" using heap_okD(2) by blast+
    then obtain h x b where "(h, x, b) \<in> blocks L" "unat p = x + b_pad b + 64" by (rule live_cases)
    then show ?thesis using blocks_range(1) [OF L(1)] by fastforce
  qed
  then have e: "p - MALLOC_ELEM_HEADER_LEN = of_nat (unat p - 64)" "(of_nat (unat p - 64) :: u64) \<noteq> 0"
    using of_nat_diff64 [of 64 "unat p"] of_nat_inj64 [of "unat p - 64" 0] unat_lt_pow [of p]
    by (simp_all add: MALLOC_ELEM_HEADER_LEN_def less_imp_diff_less)
  have "rte_free p m'' = Some (Inl ''Fatal error: Invalid memory'')"
    using p e f(4) by (simp add: rte_free_def malloc_elem_from_data_def RTE_PTR_SUB_def Let_def
        malloc_elem_cookies_ok_def malloc_elem_free_def)
  moreover have "m_byte m'' (of_nat y) = m_byte m (of_nat y)" if "(q, k) \<in> A" "q \<le> y" "y < q + k" for q k y
    using n(3) f(3) that by (force simp: region_same_def malloc_byte_def)
  ultimately show ?thesis using f(1,2) by blast
qed

lemma demo_alloc: "(case rte_malloc_socket demo_env 4096 256 0 demo_heap of Some (Inr (m, p)) \<Rightarrow> p \<noteq> 0 | _ \<Rightarrow> False)"
  by code_simp

theorem malloc_free_round_trip_witness:
  "\<exists>m' p m''. rte_malloc_socket demo_env 4096 256 0 demo_heap = Some (Inr (m', p)) \<and> p \<noteq> 0 \<and>
    rte_free p m' = Some (Inr m'') \<and> malloc_rel 0x10000000 m'' {} \<and>
    rte_free p m'' = Some (Inl ''Fatal error: Invalid memory'')"
proof -
  obtain m' p where a: "rte_malloc_socket demo_env 4096 256 0 demo_heap = Some (Inr (m', p))" "p \<noteq> 0"
    using demo_alloc by (auto split: option.splits sum.splits)
  show ?thesis using malloc_free_round_trip [OF demo_rel demo_req(2) a] a by blast
qed

text \<open>
  For every live region \<^verbatim>\<open>rte_malloc_validate\<close> succeeds and reports its usable
  length, also when the data follow padding inside the element.
\<close>

theorem malloc_validate_size:
  assumes rel: "malloc_rel lim m A" and p: "(p, n) \<in> A"
  shows "rte_malloc_validate (of_nat p) m = (0, of_nat n)"
proof -
  from rel obtain L where L: "heap_ok lim m L" "A = live (blocks L)" by (auto simp: malloc_rel_def)
  note rep = heap_okD(2) [OF L(1)]
  obtain h x b where b: "(h, x, b) \<in> blocks L" "\<not> b_free b" "p = x + b_pad b + 64" "n = b_size b - b_pad b - 64"
    using rep p unfolding L(2) by (rule live_cases)
  obtain g q where hd: "hdr_ok (m_hdr m) h g q x b" by (rule blocks_at [OF rep b(1)]) (rule that)
  note r = blocks_range [OF rep b(1)]
  have "b_pad b = 0 \<or> b_pad b = 64" using r(4) b(2) by (auto simp: blk_ok_def elim!: dvdE)
  then have uc: "(ucast (of_nat (b_pad b) :: u32) :: u64) = of_nat (b_pad b)" by auto
  have "(of_nat (b_size b) - of_nat (b_pad b) - of_nat 64 :: u64) = of_nat n"
  proof -
    have "b_pad b \<le> b_size b" "64 \<le> b_size b - b_pad b" using r(4) b(2) by (auto simp: blk_ok_def)
    then show ?thesis by (simp only: b(4) of_nat_diff64)
  qed
  moreover have "(of_nat x :: u64) \<noteq> 0" using of_nat_inj64 [of x 0] r(1,3) by simp
  ultimately show ?thesis using from_data_live [OF rep b(1,2)] hd b(2,3) uc
    by (simp add: rte_malloc_validate_def malloc_elem_cookies_ok_def hdr_ok_def Let_def
        MALLOC_ELEM_OVERHEAD_def MALLOC_ELEM_HEADER_LEN_def MALLOC_ELEM_TRAILER_LEN_def)
qed

theorem malloc_validate_size_witness:
  "\<exists>m' p n. rte_malloc_socket demo_env 4096 256 0 demo_heap = Some (Inr (m', p)) \<and> 4096 \<le> n \<and>
    rte_malloc_validate p m' = (0, of_nat n)"
proof -
  obtain m' p where a: "rte_malloc_socket demo_env 4096 256 0 demo_heap = Some (Inr (m', p))" "p \<noteq> 0"
    using demo_alloc by (auto split: option.splits sum.splits)
  then obtain n where "malloc_rel 0x10000000 m' {(unat p, n)}" "4096 \<le> n"
    using rte_malloc_socket_result [OF demo_rel demo_req(2)] by (auto simp: alloc_result_def)
  then show ?thesis using a(1) malloc_validate_size [where p = "unat p" and n = n] by fastforce
qed

text \<open>
  \<^verbatim>\<open>rte_eal_malloc_heap_init\<close> over any table of aligned, disjoint, zeroed segments
  succeeds and establishes the heap invariant with no live region.
\<close>

theorem malloc_init_rel:
  assumes "boot_ok lim m N"
  shows "\<exists>m'. rte_eal_malloc_heap_init m = (m', 0) \<and> malloc_rel lim m' {}"
  using heap_init_rel [OF assms] by (metis prod.collapse)

theorem malloc_init_rel_witness: "\<exists>m'. rte_eal_malloc_heap_init demo_boot = (m', 0) \<and> malloc_rel 0x10000000 m' {}"
  by (rule malloc_init_rel [OF demo_boot_ok])

end
