(* ===== verification/Tailq.thy ===== *)
theory Tailq
  imports Common
begin

text \<open>
  The registry of tail queues, \<^verbatim>\<open>common/eal_common_tailqs.c\<close> and \<^verbatim>\<open>rte_tailq.h\<close>: libraries register
  a queue by name before or after initialisation, the queue heads live in shared memory.
\<close>

section \<open>Data\<close>

text \<open>An entry of a tail queue: its address and the object it points to.\<close>

record rte_tailq_entry =
  te_addr :: u64
  te_data :: u64

record rte_tailq_head =
  th_entries :: "rte_tailq_entry list"
  th_name :: string

definition RTE_TAILQ_NAMESIZE :: nat where "RTE_TAILQ_NAMESIZE = 32"
definition RTE_MAX_TAILQ :: nat where "RTE_MAX_TAILQ = 32"

text \<open>A registered element: the index of its head in the shared table, \<open>None\<close> for \<^verbatim>\<open>NULL\<close>.\<close>

record rte_tailq_elem =
  tl_head :: "nat option"
  tl_name :: string

text \<open>
  \<open>tq_heads\<close> is the table in shared memory, \<open>tq_count\<close> is \<^verbatim>\<open>rte_tailqs_count\<close>, \<open>tq_local\<close> the local list
  \<^verbatim>\<open>rte_tailq_elem_head\<close> of the elements \<open>tq_elem\<close>.
\<close>

record tailqs =
  tq_heads :: "rte_tailq_head list"
  tq_count :: int
  tq_elem :: "nat \<Rightarrow> rte_tailq_elem"
  tq_local :: "nat list"
  tq_primary :: bool

section \<open>Operations\<close>

definition rte_eal_tailq_lookup :: "string option \<Rightarrow> tailqs \<Rightarrow> nat option" where
  "rte_eal_tailq_lookup name s =
     (case name of None \<Rightarrow> None
      | Some name \<Rightarrow> first_index (\<lambda>h. strneq (RTE_TAILQ_NAMESIZE - 1) name (th_name h)) (tq_heads s))"

text \<open>
  A negative \<^verbatim>\<open>rte_tailqs_count\<close> would index before the table; \<open>None\<close> is that access.
\<close>

definition rte_eal_tailq_create :: "string \<Rightarrow> tailqs \<Rightarrow> (tailqs \<times> nat option) option" where
  "rte_eal_tailq_create name s =
     (if rte_eal_tailq_lookup (Some name) s = None \<and> tq_count s + 1 < int RTE_MAX_TAILQ then
        if tq_count s < 0 then None
        else let i = nat (tq_count s);
                 head = \<lparr>th_entries = [], th_name = fst (snprintf_str (RTE_TAILQ_NAMESIZE - 1) name)\<rparr>
             in Some (s\<lparr>tq_heads := (tq_heads s)[i := head], tq_count := tq_count s + 1\<rparr>, Some i)
      else Some (s, None))"

definition rte_eal_tailq_local_register :: "nat \<Rightarrow> tailqs \<Rightarrow> tailqs \<times> int" where
  "rte_eal_tailq_local_register t s =
     (if (\<exists>temp \<in> set (tq_local s). strneq RTE_TAILQ_NAMESIZE (tl_name (tq_elem s t)) (tl_name (tq_elem s temp)))
      then (s, -1) else (s\<lparr>tq_local := tq_local s @ [t]\<rparr>, 0))"

definition set_tailq_head :: "nat \<Rightarrow> nat option \<Rightarrow> tailqs \<Rightarrow> tailqs" where
  "set_tailq_head t h s = s\<lparr>tq_elem := (tq_elem s)(t := (tq_elem s t)\<lparr>tl_head := h\<rparr>)\<rparr>"

definition rte_eal_tailq_update :: "nat \<Rightarrow> tailqs \<Rightarrow> tailqs option" where
  "rte_eal_tailq_update t s =
     (if tq_primary s then do {
        (s, h) \<leftarrow> rte_eal_tailq_create (tl_name (tq_elem s t)) s;
        Some (set_tailq_head t h s)
      }
      else Some (set_tailq_head t (rte_eal_tailq_lookup (Some (tl_name (tq_elem s t))) s) s))"

definition rte_eal_tailq_register :: "nat \<Rightarrow> tailqs \<Rightarrow> (tailqs \<times> int) option" where
  "rte_eal_tailq_register t s =
     (let (s, ret) = rte_eal_tailq_local_register t s
      in if ret < 0 then Some (set_tailq_head t None s, -1)
         else if tq_count s \<ge> 0 then do {
           s \<leftarrow> rte_eal_tailq_update t s;
           if tl_head (tq_elem s t) = None
           then Some (set_tailq_head t None (s\<lparr>tq_local := removeAll t (tq_local s)\<rparr>), -1)
           else Some (s, 0)
         }
         else Some (s, 0))"

fun tailqs_init_loop :: "nat list \<Rightarrow> tailqs \<Rightarrow> (tailqs \<times> int) option" where
  "tailqs_init_loop [] s = Some (s, 0)"
| "tailqs_init_loop (t # ts) s = do {
     s \<leftarrow> rte_eal_tailq_update t s;
     if tl_head (tq_elem s t) = None then Some (s, -1) else tailqs_init_loop ts s
   }"

definition rte_eal_tailqs_init :: "tailqs \<Rightarrow> (tailqs \<times> int) option" where
  "rte_eal_tailqs_init s = tailqs_init_loop (tq_local s) (s\<lparr>tq_count := 0\<rparr>)"

text \<open>\<^verbatim>\<open>EAL_REGISTER_TAILQ\<close>: a constructor that panics when the registration fails.\<close>

definition EAL_REGISTER_TAILQ :: "nat \<Rightarrow> tailqs \<Rightarrow> tailqs res" where
  "EAL_REGISTER_TAILQ t s = res_bind (lift_opt (rte_eal_tailq_register t s))
     (\<lambda>(s, rc). if rc < 0 then abort ''Cannot initialize tailq'' else ret s)"

section \<open>Invariant\<close>

text \<open>
  The table has its length, the slots from the counter on are unused (zero), the used ones have
  different non-empty names short enough to be stored in full.
\<close>

definition short_name :: "string \<Rightarrow> bool" where
  "short_name n \<longleftrightarrow> n \<noteq> [] \<and> length n < RTE_TAILQ_NAMESIZE - 1"

definition tailqs_ok :: "tailqs \<Rightarrow> bool" where
  "tailqs_ok s \<longleftrightarrow> length (tq_heads s) = RTE_MAX_TAILQ \<and> 0 \<le> tq_count s \<and> tq_count s < int RTE_MAX_TAILQ \<and>
     (\<forall>i < RTE_MAX_TAILQ. int i < tq_count s \<longrightarrow> short_name (th_name (tq_heads s ! i))) \<and>
     (\<forall>i < RTE_MAX_TAILQ. tq_count s \<le> int i \<longrightarrow> tq_heads s ! i = \<lparr>th_entries = [], th_name = []\<rparr>) \<and>
     (\<forall>i < RTE_MAX_TAILQ. \<forall>j < RTE_MAX_TAILQ. int i < tq_count s \<and> int j < tq_count s \<and>
        th_name (tq_heads s ! i) = th_name (tq_heads s ! j) \<longrightarrow> i = j)"

lemma strneq_short:
  assumes "short_name n" "length n' < RTE_TAILQ_NAMESIZE - 1"
  shows "strneq (RTE_TAILQ_NAMESIZE - 1) n n' \<longleftrightarrow> n = n'"
  using assms by (simp add: strneq_def short_name_def)

lemma used_name:
  assumes "tailqs_ok s" "short_name n" "i < RTE_MAX_TAILQ" "strneq (RTE_TAILQ_NAMESIZE - 1) n (th_name (tq_heads s ! i))"
  shows "int i < tq_count s" "th_name (tq_heads s ! i) = n"
proof -
  show used: "int i < tq_count s"
  proof (rule ccontr)
    assume "\<not> int i < tq_count s"
    then have "th_name (tq_heads s ! i) = []" using assms(1,3) by (simp add: tailqs_ok_def)
    then show False using assms(2,4) by (simp add: strneq_def short_name_def RTE_TAILQ_NAMESIZE_def)
  qed
  then have "short_name (th_name (tq_heads s ! i))" using assms(1,3) by (simp add: tailqs_ok_def)
  then show "th_name (tq_heads s ! i) = n" using assms(2,4) by (auto simp: strneq_def short_name_def)
qed

lemma tailq_lookup_iff:
  assumes ok: "tailqs_ok s" and n: "short_name n"
  shows "rte_eal_tailq_lookup (Some n) s = Some i \<longleftrightarrow> int i < tq_count s \<and> th_name (tq_heads s ! i) = n"
proof
  assume "rte_eal_tailq_lookup (Some n) s = Some i"
  then show "int i < tq_count s \<and> th_name (tq_heads s ! i) = n"
    using used_name [OF ok n] ok by (simp add: rte_eal_tailq_lookup_def first_index_Some tailqs_ok_def)
next
  assume i: "int i < tq_count s \<and> th_name (tq_heads s ! i) = n"
  then have len: "i < RTE_MAX_TAILQ" "length (tq_heads s) = RTE_MAX_TAILQ" using ok by (auto simp: tailqs_ok_def)
  have "first_index (\<lambda>h. strneq (RTE_TAILQ_NAMESIZE - 1) n (th_name h)) (tq_heads s) = Some i"
  proof (rule first_index_unique)
    show "strneq (RTE_TAILQ_NAMESIZE - 1) n (th_name (tq_heads s ! i))" using i by (simp add: strneq_def)
    show "j = i" if j: "j < length (tq_heads s)" "strneq (RTE_TAILQ_NAMESIZE - 1) n (th_name (tq_heads s ! j))" for j
      using used_name [OF ok n _ j(2)] j(1) len i ok unfolding tailqs_ok_def by metis
  qed (use len in simp)
  then show "rte_eal_tailq_lookup (Some n) s = Some i" by (simp add: rte_eal_tailq_lookup_def)
qed

text \<open>What creation does: a new slot, unless the name is taken or all but one of the slots are used.\<close>

lemma tailq_create_ok:
  assumes ok: "tailqs_ok s" and n: "short_name n"
  shows "rte_eal_tailq_create n s =
    (if rte_eal_tailq_lookup (Some n) s = None \<and> tq_count s < int RTE_MAX_TAILQ - 1
     then Some (s\<lparr>tq_heads := (tq_heads s)[nat (tq_count s) := \<lparr>th_entries = [], th_name = n\<rparr>],
            tq_count := tq_count s + 1\<rparr>, Some (nat (tq_count s)))
     else Some (s, None))"
  using ok n by (auto simp: rte_eal_tailq_create_def Let_def snprintf_str_def tailqs_ok_def short_name_def)

lemma tailq_create_inv:
  assumes ok: "tailqs_ok s" and n: "short_name n" and c: "rte_eal_tailq_create n s = Some (s', h)"
  shows "tailqs_ok s'"
proof (cases "rte_eal_tailq_lookup (Some n) s = None \<and> tq_count s < int RTE_MAX_TAILQ - 1")
  case True
  have new: "th_name (tq_heads s ! i) \<noteq> n" if "int i < tq_count s" for i
    using True tailq_lookup_iff [OF ok n, of i] that by simp
  have s': "s' = s\<lparr>tq_heads := (tq_heads s)[nat (tq_count s) := \<lparr>th_entries = [], th_name = n\<rparr>],
      tq_count := tq_count s + 1\<rparr>" using c True by (simp add: tailq_create_ok [OF ok n])
  obtain k where k: "tq_count s = int k" using ok nonneg_int_cases by (auto simp: tailqs_ok_def)
  have kt: "Suc k < RTE_MAX_TAILQ" "length (tq_heads s) = RTE_MAX_TAILQ" using True ok k by (auto simp: tailqs_ok_def)
  have old: "short_name (th_name (tq_heads s ! i))" if "i < k" for i using ok that kt k by (simp add: tailqs_ok_def)
  have inj: "i = j" if "i < k" "j < k" "th_name (tq_heads s ! i) = th_name (tq_heads s ! j)" for i j
    using ok that kt k by (simp add: tailqs_ok_def)
  have free: "tq_heads s ! i = \<lparr>th_entries = [], th_name = []\<rparr>" if "k \<le> i" "i < RTE_MAX_TAILQ" for i
    using ok that k by (simp add: tailqs_ok_def)
  have at: "tq_heads s' ! i = (if i = k then \<lparr>th_entries = [], th_name = n\<rparr> else tq_heads s ! i)" if "i < RTE_MAX_TAILQ" for i
    using that kt by (simp add: s' k nth_list_update)
  have s2: "tq_count s' = int (Suc k)" "length (tq_heads s') = RTE_MAX_TAILQ" using kt by (simp_all add: s' k)
  show ?thesis
    unfolding tailqs_ok_def s2(1)
  proof (intro conjI allI impI)
    fix i assume i: "i < RTE_MAX_TAILQ"
    show "short_name (th_name (tq_heads s' ! i))" if "int i < int (Suc k)" using that i n old [of i] by (simp add: at less_Suc_eq)
    show "tq_heads s' ! i = \<lparr>th_entries = [], th_name = []\<rparr>" if "int (Suc k) \<le> int i" using that i free [of i] by (simp add: at)
    fix j assume "j < RTE_MAX_TAILQ"
      "int i < int (Suc k) \<and> int j < int (Suc k) \<and> th_name (tq_heads s' ! i) = th_name (tq_heads s' ! j)"
    then show "i = j" using i inj [of i j] new [of i] new [of j] k by (auto simp: at less_Suc_eq split: if_splits)
  qed (use s2 kt in simp_all)
qed (use ok c in \<open>auto simp: tailq_create_ok [OF ok n]\<close>)

lemma tailq_lookup_create:
  assumes ok: "tailqs_ok s" and n: "short_name n" and c: "rte_eal_tailq_create n s = Some (s', Some i)"
  shows "rte_eal_tailq_lookup (Some n) s' = Some i"
    "short_name n' \<Longrightarrow> n' \<noteq> n \<Longrightarrow> rte_eal_tailq_lookup (Some n') s' = rte_eal_tailq_lookup (Some n') s"
proof -
  have s': "s' = s\<lparr>tq_heads := (tq_heads s)[i := \<lparr>th_entries = [], th_name = n\<rparr>], tq_count := tq_count s + 1\<rparr>"
    "i = nat (tq_count s)" using c by (auto simp: tailq_create_ok [OF ok n] split: if_splits)
  have i: "int i = tq_count s" "i < RTE_MAX_TAILQ" "length (tq_heads s) = RTE_MAX_TAILQ"
    using ok s'(2) by (auto simp: tailqs_ok_def)
  show "rte_eal_tailq_lookup (Some n) s' = Some i"
    unfolding tailq_lookup_iff [OF tailq_create_inv [OF ok n c] n] using i by (simp add: s'(1))
  assume n': "short_name n'" "n' \<noteq> n"
  have "th_name (tq_heads s ! i) = []" using ok i by (simp add: tailqs_ok_def)
  then have "\<not> strneq (RTE_TAILQ_NAMESIZE - 1) n' (th_name (tq_heads s ! i))" "\<not> strneq (RTE_TAILQ_NAMESIZE - 1) n' n"
    using n n' by (auto simp: strneq_def short_name_def RTE_TAILQ_NAMESIZE_def)
  then show "rte_eal_tailq_lookup (Some n') s' = rte_eal_tailq_lookup (Some n') s"
    using i by (simp add: rte_eal_tailq_lookup_def s'(1) first_index_update_miss)
qed

section \<open>Properties\<close>

text \<open>
  C30. In a primary process, after initialisation, registering a new name succeeds
  exactly when the shared table does not have it and has room; then a lookup of the name gives the head
  stored in the element and every other lookup is unchanged. Otherwise the call returns -1 and the table
  and the local list are unchanged. The invariant of the table is kept in both cases.
\<close>

theorem tailq_register_spec:
  assumes ok: "tailqs_ok s" and p: "tq_primary s" and n: "n = tl_name (tq_elem s t)" "short_name n"
    and loc: "\<forall>u \<in> set (tq_local s). length (tl_name (tq_elem s u)) < RTE_TAILQ_NAMESIZE \<and> tl_name (tq_elem s u) \<noteq> n"
  shows "\<exists>s' rc. rte_eal_tailq_register t s = Some (s', rc) \<and> tailqs_ok s' \<and>
    (rc = 0 \<longleftrightarrow> rte_eal_tailq_lookup (Some n) s = None \<and> tq_count s < 31) \<and>
    (rc = 0 \<longrightarrow> (\<exists>i. rte_eal_tailq_lookup (Some n) s' = Some i \<and> tl_head (tq_elem s' t) = Some i) \<and>
       tq_local s' = tq_local s @ [t] \<and>
       (\<forall>n'. short_name n' \<and> n' \<noteq> n \<longrightarrow> rte_eal_tailq_lookup (Some n') s' = rte_eal_tailq_lookup (Some n') s)) \<and>
    (rc \<noteq> 0 \<longrightarrow> rc = -1 \<and> tq_heads s' = tq_heads s \<and> tq_local s' = tq_local s)"
proof -
  let ?s1 = "s\<lparr>tq_local := tq_local s @ [t]\<rparr>"
  have "\<not> strneq RTE_TAILQ_NAMESIZE n (tl_name (tq_elem s u))" if "u \<in> set (tq_local s)" for u
    using loc that n(2) by (auto simp: strneq_def short_name_def)
  then have loc1: "rte_eal_tailq_local_register t s = (?s1, 0)"
    using n(1) by (auto simp: rte_eal_tailq_local_register_def)
  have t: "t \<notin> set (tq_local s)" using loc n(1) by auto
  have ok1: "tailqs_ok ?s1" using ok by (simp add: tailqs_ok_def)
  have look1: "rte_eal_tailq_lookup x ?s1 = rte_eal_tailq_lookup x s" for x
    by (cases x) (simp_all add: rte_eal_tailq_lookup_def)
  have cnt: "0 \<le> tq_count s" using ok by (simp add: tailqs_ok_def)
  obtain s2 h where c: "rte_eal_tailq_create n ?s1 = Some (s2, h)"
    using tailq_create_ok [OF ok1 n(2)] by (metis (no_types, lifting))
  have h: "h \<noteq> None \<longleftrightarrow> rte_eal_tailq_lookup (Some n) s = None \<and> tq_count s < 31"
    "h = None \<Longrightarrow> s2 = ?s1" "tq_local s2 = tq_local s @ [t]"
    using c by (auto simp: tailq_create_ok [OF ok1 n(2)] look1 RTE_MAX_TAILQ_def split: if_splits)
  have ok2: "tailqs_ok s2" using tailq_create_inv [OF ok1 n(2) c] .
  have reg: "rte_eal_tailq_register t s = (if h = None
      then Some (set_tailq_head t None (set_tailq_head t h s2\<lparr>tq_local := removeAll t (tq_local s2)\<rparr>), -1)
      else Some (set_tailq_head t h s2, 0))"
    using p cnt c n(1) by (simp add: rte_eal_tailq_register_def loc1 rte_eal_tailq_update_def) (simp add: set_tailq_head_def)
  have keep: "tailqs_ok (set_tailq_head u g s) = tailqs_ok s" "tailqs_ok (s\<lparr>tq_local := l\<rparr>) = tailqs_ok s"
    "tailqs_ok (s\<lparr>tq_elem := f\<rparr>) = tailqs_ok s" for u g s l f
    by (simp_all add: set_tailq_head_def tailqs_ok_def)
  show ?thesis
  proof (cases h)
    case None
    then show ?thesis using reg h ok2 t by (simp add: keep set_tailq_head_def)
  next
    case (Some i)
    note lk = tailq_lookup_create [OF ok1 n(2) c [unfolded Some]]
    show ?thesis using reg h ok2 Some lk look1
      by (simp add: keep) (auto simp: set_tailq_head_def rte_eal_tailq_lookup_def)
  qed
qed

definition demo_tailqs :: tailqs where
  "demo_tailqs = \<lparr>tq_heads = replicate 32 \<lparr>th_entries = [], th_name = []\<rparr>, tq_count = 0,
     tq_elem = (\<lambda>_. \<lparr>tl_head = None, tl_name = ''RTE_RING''\<rparr>), tq_local = [], tq_primary = True\<rparr>"

theorem tailq_register_spec_witness:
  "tailqs_ok demo_tailqs \<and> (\<exists>s' i. rte_eal_tailq_register 0 demo_tailqs = Some (s', 0) \<and>
     rte_eal_tailq_lookup (Some ''RTE_RING'') s' = Some i \<and> tl_head (tq_elem s' 0) = Some i)"
proof -
  have ok: "tailqs_ok demo_tailqs" by (simp add: tailqs_ok_def demo_tailqs_def RTE_MAX_TAILQ_def)
  have "rte_eal_tailq_lookup (Some ''RTE_RING'') demo_tailqs = None" by code_simp
  moreover have "tq_primary demo_tailqs" "''RTE_RING'' = tl_name (tq_elem demo_tailqs 0)" "short_name ''RTE_RING''"
    "tq_local demo_tailqs = []" "tq_count demo_tailqs < 31"
    by (simp_all add: demo_tailqs_def short_name_def RTE_TAILQ_NAMESIZE_def)
  ultimately show ?thesis
    using tailq_register_spec [OF ok, of "''RTE_RING''" 0] ok by auto
qed

text \<open>
  A name of 31 characters fits the name array of 32, but creation stores
  only its first 30 characters while lookup compares 31: the queue just created is not found.
\<close>

theorem tailq_name_truncated:
  assumes "length n = 31" "rte_eal_tailq_create n s = Some (s', Some i)"
  shows "rte_eal_tailq_lookup (Some n) s' = None"
proof -
  have none: "rte_eal_tailq_lookup (Some n) s = None" and s': "tq_heads s' = (tq_heads s)[i := \<lparr>th_entries = [], th_name = take 30 n\<rparr>]"
    using assms by (auto simp: rte_eal_tailq_create_def snprintf_str_def RTE_TAILQ_NAMESIZE_def Let_def split: if_splits)
  have "\<not> strneq 31 n (take 30 n)"
  proof
    assume "strneq 31 n (take 30 n)"
    then have "length (take 31 n) = length (take 31 (take 30 n))" by (simp add: strneq_def)
    then show False using assms(1) by simp
  qed
  then have "\<not> strneq 31 n (th_name h)" if "h \<in> set (tq_heads s')" for h
    using none that set_update_subset_insert [of "tq_heads s" i] unfolding s'
    by (force simp: rte_eal_tailq_lookup_def RTE_TAILQ_NAMESIZE_def first_index_None)
  then show ?thesis by (simp add: rte_eal_tailq_lookup_def RTE_TAILQ_NAMESIZE_def first_index_None)
qed

theorem tailq_name_truncated_witness:
  "\<exists>s' i. rte_eal_tailq_create (replicate 31 CHR ''a'') demo_tailqs = Some (s', Some i) \<and>
     rte_eal_tailq_lookup (Some (replicate 31 CHR ''a'')) s' = None"
proof -
  have "rte_eal_tailq_lookup (Some (replicate 31 CHR ''a'')) demo_tailqs = None" by code_simp
  then obtain s' i where "rte_eal_tailq_create (replicate 31 CHR ''a'') demo_tailqs = Some (s', Some i)"
    by (auto simp: rte_eal_tailq_create_def Let_def demo_tailqs_def RTE_MAX_TAILQ_def)
  then show ?thesis using tailq_name_truncated [of "replicate 31 CHR ''a''"] by auto
qed

end
