(* ===== verification/Eal.thy ===== *)
theory Eal
  imports Malloc_Api Rwlock Tailq
begin

text \<open>
  The configuration shared by the libraries: \<^verbatim>\<open>struct rte_mem_config\<close> of \<^verbatim>\<open>rte_eal_memconfig.h\<close> with
  the memory it describes, \<^verbatim>\<open>rte_errno\<close>, and the configuration of the process.
\<close>

text \<open>
  \<open>mz_iova\<close> is the field that \<^verbatim>\<open>eal_common_memzone.c\<close> assigns as \<^verbatim>\<open>iova\<close>; the structure declares
  \<^verbatim>\<open>phys_addr\<close>.
\<close>

record rte_memzone =
  mz_name :: string
  mz_iova :: u64
  mz_addr :: u64
  mz_len :: u64
  mz_hugepage_sz :: u64
  mz_socket_id :: int
  mz_flags :: u32
  mz_memseg_id :: u32

record eal =
  e_mem :: mem
  e_env :: malloc_env
  e_mlock :: rte_rwlock
  e_qlock :: rte_rwlock
  e_mplock :: rte_rwlock
  e_memzone_cnt :: u32
  e_memzone :: "rte_memzone list"
  e_tailqs :: tailqs
  e_errno :: int
  e_process_type :: rte_proc_type_t

definition RTE_MAX_MEMZONE :: nat where "RTE_MAX_MEMZONE = 2560"

definition set_errno :: "int \<Rightarrow> eal \<Rightarrow> eal" where
  "set_errno e s = s\<lparr>e_errno := e\<rparr>"

end
