(* ===== verification/Directory.thy ===== *)
theory Directory
  imports Prelude
begin

text \<open>
  The contract of the name tables of the library (memory zones, rings): objects are created
  under a name, found by name and destroyed. A client that creates and destroys in any order sees a
  partial map from names to objects.
\<close>

section \<open>Sequences of operations\<close>

datatype 'r dir_op = Add 'r string | Del string

text \<open>The answer to each operation: the object created or destroyed, if any.\<close>

fun dir_run ::
    "('r \<Rightarrow> string \<Rightarrow> 's \<Rightarrow> ('s \<times> 'h option) res) \<Rightarrow> (string \<Rightarrow> 's \<Rightarrow> ('s \<times> 'h option) res) \<Rightarrow> ('h \<Rightarrow> 's \<Rightarrow> 's res) \<Rightarrow>
     'r dir_op list \<Rightarrow> 's \<Rightarrow> ('s \<times> 'h option list) res" where
  "dir_run add look del [] s = ret (s, [])"
| "dir_run add look del (Add r n # ops) s = res_bind (add r n s) (\<lambda>(s, h).
     res_bind (dir_run add look del ops s) (\<lambda>(s, hs). ret (s, h # hs)))"
| "dir_run add look del (Del n # ops) s = res_bind (look n s) (\<lambda>(s, h).
     res_bind (case h of None \<Rightarrow> ret s | Some x \<Rightarrow> del x s) (\<lambda>s.
     res_bind (dir_run add look del ops s) (\<lambda>(s, hs). ret (s, h # hs))))"

text \<open>What the answers say about the map.\<close>

fun replay :: "'r dir_op list \<Rightarrow> 'h option list \<Rightarrow> (string \<rightharpoonup> 'h) \<Rightarrow> (string \<rightharpoonup> 'h)" where
  "replay (Add r n # ops) (Some x # hs) f = replay ops hs (f(n \<mapsto> x))"
| "replay (Add r n # ops) (None # hs) f = replay ops hs f"
| "replay (Del n # ops) (h # hs) f = replay ops hs (f(n := None))"
| "replay ops hs f = f"

fun dir_op_ok :: "('r \<Rightarrow> bool) \<Rightarrow> (string \<Rightarrow> bool) \<Rightarrow> 'r dir_op \<Rightarrow> bool" where
  "dir_op_ok req good (Add r n) = (req r \<and> good n)"
| "dir_op_ok req good (Del n) = good n"

section \<open>Contract\<close>

locale directory =
  fixes inv :: "'s \<Rightarrow> bool" and names :: "'s \<Rightarrow> string \<rightharpoonup> 'h"
    and add :: "'r \<Rightarrow> string \<Rightarrow> 's \<Rightarrow> ('s \<times> 'h option) res"
    and look :: "string \<Rightarrow> 's \<Rightarrow> ('s \<times> 'h option) res"
    and del :: "'h \<Rightarrow> 's \<Rightarrow> 's res"
    and req :: "'r \<Rightarrow> bool" and good :: "string \<Rightarrow> bool"
  assumes look_law: "\<lbrakk>inv s; good n\<rbrakk> \<Longrightarrow>
      \<exists>s'. look n s = ret (s', names s n) \<and> inv s' \<and> names s' = names s"
    and add_law: "\<lbrakk>inv s; req r; good n\<rbrakk> \<Longrightarrow>
      \<exists>s' h. add r n s = ret (s', h) \<and> inv s' \<and>
        (case h of None \<Rightarrow> names s' = names s | Some x \<Rightarrow> names s n = None \<and> names s' = (names s)(n \<mapsto> x))"
    and del_law: "\<lbrakk>inv s; good n; names s n = Some x\<rbrakk> \<Longrightarrow>
      \<exists>s'. del x s = ret s' \<and> inv s' \<and> names s' = (names s)(n := None)"
begin

text \<open>Two names never denote the same object, as removing one would then remove the other.\<close>

lemma names_inj:
  assumes "inv s" "good n" "good n'" "names s n = Some x" "names s n' = Some x"
  shows "n = n'"
proof (rule ccontr)
  assume ne: "n \<noteq> n'"
  from del_law [OF assms(1,2,4)] obtain s' where 1: "del x s = ret s'" "names s' = (names s)(n := None)" by blast
  from del_law [OF assms(1,3,5)] obtain s'' where 2: "del x s = ret s''" "names s'' = (names s)(n' := None)" by blast
  have "s' = s''" using 1(1) 2(1) by simp
  then have "((names s)(n := None)) n' = ((names s)(n' := None)) n'" using 1(2) 2(2) by metis
  then show False using ne assms(5) by simp
qed

lemma run_replay:
  assumes "inv s" "\<forall>op \<in> set ops. dir_op_ok req good op"
  shows "\<exists>s' hs. dir_run add look del ops s = ret (s', hs) \<and> length hs = length ops \<and> inv s' \<and>
    names s' = replay ops hs (names s)"
  using assms
proof (induction ops arbitrary: s)
  case (Cons op ops)
  have ok: "\<forall>op \<in> set ops. dir_op_ok req good op" using Cons.prems(2) by simp
  show ?case
  proof (cases op)
    case (Add r n)
    then have "req r" "good n" using Cons.prems(2) by simp_all
    from add_law [OF Cons.prems(1) this] obtain s1 h where a: "add r n s = ret (s1, h)" "inv s1"
      "case h of None \<Rightarrow> names s1 = names s | Some x \<Rightarrow> names s n = None \<and> names s1 = (names s)(n \<mapsto> x)" by blast
    from Cons.IH [OF a(2) ok] obtain s' hs where
      r: "dir_run add look del ops s1 = ret (s', hs)" "length hs = length ops" "inv s'" "names s' = replay ops hs (names s1)"
      by blast
    then show ?thesis using Add a by (cases h) simp_all
  next
    case (Del n)
    then have n: "good n" using Cons.prems(2) by simp
    from look_law [OF Cons.prems(1) n] obtain s1 where l: "look n s = ret (s1, names s n)" "inv s1" "names s1 = names s" by blast
    obtain s2 where d: "(case names s n of None \<Rightarrow> ret s1 | Some x \<Rightarrow> del x s1) = ret s2" "inv s2"
      "names s2 = (names s)(n := None)"
    proof (cases "names s n")
      case None
      then show thesis using l that [of s1] by (simp add: fun_upd_idem)
    next
      case (Some x)
      then show thesis using del_law [OF l(2) n] l(3) that by auto
    qed
    from Cons.IH [OF d(2) ok] obtain s' hs where
      r: "dir_run add look del ops s2 = ret (s', hs)" "length hs = length ops" "inv s'" "names s' = replay ops hs (names s2)"
      by blast
    have eq: "dir_run add look del (op # ops) s = ret (s', names s n # hs)" using Del l(1) d(1) r(1) by simp
    have rp: "replay (op # ops) (names s n # hs) (names s) = names s'" using r(4) d(3) Del by simp
    show ?thesis using eq rp r(2,3) by (intro exI [of _ s'] exI [of _ "names s n # hs"]) simp
  qed
qed simp

end

end
