(* ===== verification/Memzone.thy ===== *)
theory Memzone
  imports Eal Directory
begin

text \<open>
  Memory zones, \<^verbatim>\<open>common/eal_common_memzone.c\<close>: named, aligned regions taken from the heaps and recorded in
  a table of the shared configuration. A zone is referred to by its index in the table. The address
  translation \<^verbatim>\<open>rte_malloc_virt2iova\<close>, which the sources do not define, is the parameter \<open>virt2iova\<close>.
\<close>

section \<open>Operations\<close>

definition memzone_lookup_thread_unsafe :: "string \<Rightarrow> eal \<Rightarrow> nat option" where
  "memzone_lookup_thread_unsafe name s =
     first_index (\<lambda>mz. mz_addr mz \<noteq> 0 \<and> strneq RTE_MEMZONE_NAMESIZE name (mz_name mz)) (e_memzone s)"

definition get_next_free_memzone :: "eal \<Rightarrow> nat option" where
  "get_next_free_memzone s = first_index (\<lambda>mz. mz_addr mz = 0) (e_memzone s)"

text \<open>The loop of \<^verbatim>\<open>find_heap_max_free_elem\<close> over the heaps; \<open>st\<close> is its local structure,
  which each call of \<^verbatim>\<open>malloc_heap_get_stats\<close> fills in.\<close>

fun find_max_loop ::
    "nat list \<Rightarrow> int \<Rightarrow> rte_malloc_socket_stats \<Rightarrow> mem \<Rightarrow> u64 \<Rightarrow> int \<Rightarrow> (mem \<times> u64 \<times> int) option" where
  "find_max_loop [] socket st m len s = Some (m, len, s)"
| "find_max_loop (i # is) socket st m len s =
     (if socket \<noteq> SOCKET_ID_ANY \<and> socket \<noteq> int i then find_max_loop is socket st m len s
      else do {
        (m, st, _) \<leftarrow> malloc_heap_get_stats i m st;
        if st_greatest_free_size st > len
        then find_max_loop is socket st m (st_greatest_free_size st) (int i)
        else find_max_loop is socket st m len s
      })"

definition find_heap_max_free_elem ::
    "rte_malloc_socket_stats \<Rightarrow> int \<Rightarrow> u32 \<Rightarrow> mem \<Rightarrow> (mem \<times> u64 \<times> int) option" where
  "find_heap_max_free_elem st s align m = do {
     (m, len, s) \<leftarrow> find_max_loop [0..<RTE_MAX_NUMA_NODES] s st m 0 s;
     if len < MALLOC_ELEM_OVERHEAD + ucast align then Some (m, 0, s)
     else Some (m, len - MALLOC_ELEM_OVERHEAD - ucast align, s)
   }"

fun zone_try_other_heaps ::
    "nat list \<Rightarrow> int \<Rightarrow> u64 \<Rightarrow> u32 \<Rightarrow> u64 \<Rightarrow> u64 \<Rightarrow> mem \<Rightarrow> (mem \<times> u64) option" where
  "zone_try_other_heaps [] socket len flags align bound m = Some (m, 0)"
| "zone_try_other_heaps (i # is) socket len flags align bound m =
     (if socket = int i then zone_try_other_heaps is socket len flags align bound m
      else do {
        (m, mz_addr) \<leftarrow> malloc_heap_alloc i len flags align bound m;
        if mz_addr \<noteq> 0 then Some (m, mz_addr) else zone_try_other_heaps is socket len flags align bound m
      })"

definition zone_alloc :: "int \<Rightarrow> int \<Rightarrow> u64 \<Rightarrow> u32 \<Rightarrow> u64 \<Rightarrow> u64 \<Rightarrow> mem \<Rightarrow> (mem \<times> u64) option" where
  "zone_alloc socket_id socket len flags align bound m = do {
     (m, mz_addr) \<leftarrow> malloc_heap_alloc (nat socket) len flags align bound m;
     if mz_addr = 0 \<and> socket_id = SOCKET_ID_ANY
     then zone_try_other_heaps [0..<RTE_MAX_NUMA_NODES] socket len flags align bound m
     else Some (m, mz_addr)
   }"

definition fail_zone :: "int \<Rightarrow> eal \<Rightarrow> (eal \<times> nat option) res" where
  "fail_zone err s = ret (set_errno err s, None)"

text \<open>The last part: find a descriptor for the memory and fill it in.\<close>

definition fill_memzone ::
    "(u64 \<Rightarrow> u64) \<Rightarrow> string \<Rightarrow> u64 \<Rightarrow> u64 \<Rightarrow> eal \<Rightarrow> (eal \<times> nat option) res" where
  "fill_memzone virt2iova name requested_len addr s =
     (let m = e_mem s; elem = malloc_elem_from_data addr m
      in case get_next_free_memzone s of
        None \<Rightarrow> res_bind (lift_opt (malloc_elem_free elem m)) (\<lambda>(m, _). fail_zone ENOSPC (s\<lparr>e_mem := m\<rparr>))
      | Some i \<Rightarrow>
          let h = m_hdr m elem;
              mz = \<lparr>mz_name = fst (snprintf_str RTE_MEMZONE_NAMESIZE name), mz_iova = virt2iova addr,
                    mz_addr = addr,
                    mz_len = (if requested_len = 0 then me_size h - MALLOC_ELEM_OVERHEAD else requested_len),
                    mz_hugepage_sz = ms_hugepage_sz (m_seg m (me_ms h)),
                    mz_socket_id = ms_socket_id (m_seg m (me_ms h)), mz_flags = 0,
                    mz_memseg_id = of_nat (me_ms h)\<rparr>
          in ret (s\<lparr>e_memzone_cnt := e_memzone_cnt s + 1, e_memzone := (e_memzone s)[i := mz]\<rparr>, Some i))"

text \<open>A NUMA socket beyond the array \<^verbatim>\<open>malloc_heaps\<close> is a fault.\<close>

definition memzone_reserve_aligned_thread_unsafe ::
    "(u64 \<Rightarrow> u64) \<Rightarrow> rte_malloc_socket_stats \<Rightarrow> string \<Rightarrow> u64 \<Rightarrow> int \<Rightarrow> u32 \<Rightarrow> u32 \<Rightarrow> u32 \<Rightarrow> eal \<Rightarrow>
     (eal \<times> nat option) res" where
  "memzone_reserve_aligned_thread_unsafe virt2iova st name len socket_id flags align bound s =
     (if unat (e_memzone_cnt s) \<ge> RTE_MAX_MEMZONE then fail_zone ENOSPC s
      else if length name > RTE_MEMZONE_NAMESIZE - 1 then fail_zone ENAMETOOLONG s
      else if memzone_lookup_thread_unsafe name s \<noteq> None then fail_zone EEXIST s
      else if align \<noteq> 0 \<and> \<not> rte_is_power_of_2 align then fail_zone EINVAL s
      else
        let align = (if align < RTE_CACHE_LINE_SIZE then RTE_CACHE_LINE_SIZE else align)
        in if len > - 1 - RTE_CACHE_LINE_MASK then fail_zone EINVAL s
        else
          let len = (len + RTE_CACHE_LINE_MASK) AND NOT RTE_CACHE_LINE_MASK;
              requested_len = RTE_MAX RTE_CACHE_LINE_SIZE len
          in if bound \<noteq> 0 \<and> (requested_len > ucast bound \<or> \<not> rte_is_power_of_2 bound) then fail_zone EINVAL s
          else if socket_id \<noteq> SOCKET_ID_ANY \<and> (socket_id \<ge> int RTE_MAX_NUMA_NODES \<or> socket_id < 0)
          then fail_zone EINVAL s
          else
            let socket_id = (if \<not> env_has_hugepages (e_env s) then SOCKET_ID_ANY else socket_id)
            in res_bind (if len = 0 then
                 (if bound \<noteq> 0 then ret (e_mem s, ucast bound, socket_id)
                  else lift_opt (find_heap_max_free_elem st socket_id align (e_mem s)))
               else ret (e_mem s, requested_len, socket_id))
               (\<lambda>(m, requested_len, socket_id).
                 let s = s\<lparr>e_mem := m\<rparr>
                 in if requested_len = 0 then fail_zone ENOMEM s
                 else
                   let socket = (if socket_id = SOCKET_ID_ANY then sint (malloc_get_numa_socket (e_env s)) else socket_id)
                   in if socket < 0 \<or> socket \<ge> int RTE_MAX_NUMA_NODES then abort fault_heap_index
                   else res_bind (lift_opt (zone_alloc socket_id socket requested_len flags (ucast align) (ucast bound) (e_mem s)))
                     (\<lambda>(m, mz_addr).
                       let s = s\<lparr>e_mem := m\<rparr>
                       in if mz_addr = 0 then fail_zone ENOMEM s
                          else fill_memzone virt2iova name requested_len mz_addr s)))"

definition mlock_write :: "eal \<Rightarrow> eal res" where
  "mlock_write s = lift_opt (map_option (\<lambda>l. s\<lparr>e_mlock := l\<rparr>) (rte_rwlock_write_lock (e_mlock s)))"

definition mlock_write_release :: "eal \<Rightarrow> eal" where
  "mlock_write_release s = s\<lparr>e_mlock := rte_rwlock_write_unlock (e_mlock s)\<rparr>"

definition mlock_read :: "eal \<Rightarrow> eal res" where
  "mlock_read s = lift_opt (map_option (\<lambda>l. s\<lparr>e_mlock := l\<rparr>) (rte_rwlock_read_lock (e_mlock s)))"

definition mlock_read_release :: "eal \<Rightarrow> eal" where
  "mlock_read_release s = s\<lparr>e_mlock := rte_rwlock_read_unlock (e_mlock s)\<rparr>"

definition rte_memzone_reserve_thread_safe ::
    "(u64 \<Rightarrow> u64) \<Rightarrow> rte_malloc_socket_stats \<Rightarrow> string \<Rightarrow> u64 \<Rightarrow> int \<Rightarrow> u32 \<Rightarrow> u32 \<Rightarrow> u32 \<Rightarrow> eal \<Rightarrow>
     (eal \<times> nat option) res" where
  "rte_memzone_reserve_thread_safe virt2iova st name len socket_id flags align bound s =
     res_bind (mlock_write s) (\<lambda>s.
     res_bind (memzone_reserve_aligned_thread_unsafe virt2iova st name len socket_id flags align bound s) (\<lambda>(s, mz).
     ret (mlock_write_release s, mz)))"

definition rte_memzone_reserve_bounded ::
    "(u64 \<Rightarrow> u64) \<Rightarrow> rte_malloc_socket_stats \<Rightarrow> string \<Rightarrow> u64 \<Rightarrow> int \<Rightarrow> u32 \<Rightarrow> u32 \<Rightarrow> u32 \<Rightarrow> eal \<Rightarrow>
     (eal \<times> nat option) res" where
  "rte_memzone_reserve_bounded virt2iova st name len socket_id flags align bound s =
     rte_memzone_reserve_thread_safe virt2iova st name len socket_id flags align bound s"

definition rte_memzone_reserve_aligned ::
    "(u64 \<Rightarrow> u64) \<Rightarrow> rte_malloc_socket_stats \<Rightarrow> string \<Rightarrow> u64 \<Rightarrow> int \<Rightarrow> u32 \<Rightarrow> u32 \<Rightarrow> eal \<Rightarrow> (eal \<times> nat option) res" where
  "rte_memzone_reserve_aligned virt2iova st name len socket_id flags align s =
     rte_memzone_reserve_thread_safe virt2iova st name len socket_id flags align 0 s"

definition rte_memzone_reserve ::
    "(u64 \<Rightarrow> u64) \<Rightarrow> rte_malloc_socket_stats \<Rightarrow> string \<Rightarrow> u64 \<Rightarrow> int \<Rightarrow> u32 \<Rightarrow> eal \<Rightarrow> (eal \<times> nat option) res" where
  "rte_memzone_reserve virt2iova st name len socket_id flags s =
     rte_memzone_reserve_thread_safe virt2iova st name len socket_id flags RTE_CACHE_LINE_SIZE 0 s"

definition zero_memzone :: rte_memzone where
  "zero_memzone = \<lparr>mz_name = [], mz_iova = 0, mz_addr = 0, mz_len = 0, mz_hugepage_sz = 0,
     mz_socket_id = 0, mz_flags = 0, mz_memseg_id = 0\<rparr>"

definition eal_free :: "u64 \<Rightarrow> eal \<Rightarrow> eal res" where
  "eal_free addr s = res_bind (rte_free addr (e_mem s)) (\<lambda>m. ret (s\<lparr>e_mem := m\<rparr>))"

text \<open>An index beyond the table is an access outside it.\<close>

definition rte_memzone_free :: "nat option \<Rightarrow> eal \<Rightarrow> (eal \<times> int) res" where
  "rte_memzone_free mz s =
     (case mz of None \<Rightarrow> ret (s, - EINVAL)
      | Some idx \<Rightarrow> res_bind (mlock_write s) (\<lambda>s.
          if idx \<ge> length (e_memzone s) then abort ''memzone index''
          else
            let addr = mz_addr (e_memzone s ! idx)
            in if addr = 0 then
                 res_bind (eal_free addr (mlock_write_release s)) (\<lambda>s. ret (s, - EINVAL))
               else if e_memzone_cnt s = 0 then abort ''memzone address not NULL but memzone_cnt is 0!''
               else
                 let s = s\<lparr>e_memzone := (e_memzone s)[idx := zero_memzone], e_memzone_cnt := e_memzone_cnt s - 1\<rparr>
                 in res_bind (eal_free addr (mlock_write_release s)) (\<lambda>s. ret (s, 0))))"

definition rte_memzone_lookup :: "string \<Rightarrow> eal \<Rightarrow> (eal \<times> nat option) res" where
  "rte_memzone_lookup name s =
     res_bind (mlock_read s) (\<lambda>s. ret (mlock_read_release s, memzone_lookup_thread_unsafe name s))"

text \<open>The physical layout is the table of segments, which is never \<^verbatim>\<open>NULL\<close>.\<close>

definition rte_eal_memzone_init :: "eal \<Rightarrow> (eal \<times> int) res" where
  "rte_eal_memzone_init s =
     (if e_process_type s = RTE_PROC_SECONDARY then ret (s, 0)
      else res_bind (mlock_write s) (\<lambda>s.
        let s = s\<lparr>e_memzone_cnt := 0, e_memzone := replicate RTE_MAX_MEMZONE zero_memzone\<rparr>;
            s = mlock_write_release s;
            (m, rc) = rte_eal_malloc_heap_init (e_mem s)
        in ret (s\<lparr>e_mem := m\<rparr>, rc)))"

text \<open>\<^verbatim>\<open>rte_memzone_walk\<close>: the callback updates the state \<open>x\<close> of its caller.\<close>

definition rte_memzone_walk :: "(nat \<Rightarrow> rte_memzone \<Rightarrow> 'x \<Rightarrow> 'x) \<Rightarrow> 'x \<Rightarrow> eal \<Rightarrow> (eal \<times> 'x) res" where
  "rte_memzone_walk func x s =
     res_bind (mlock_read s) (\<lambda>s.
       let x = foldl (\<lambda>x i. if mz_addr (e_memzone s ! i) \<noteq> 0 then func i (e_memzone s ! i) x else x)
         x [0..<length (e_memzone s)]
       in ret (mlock_read_release s, x))"

end
