(* ===== verification/Memzone_Correct.thy ===== *)
theory Memzone_Correct
  imports Memzone
begin

text \<open>
  The table of memory zones is consistent with the heaps, and the public functions implement a
  directory of named regions.
\<close>

declare of_nat_add [simp del] of_nat_diff [simp del]

section \<open>Invariant\<close>

definition zone_used :: "eal \<Rightarrow> nat \<Rightarrow> bool" where
  "zone_used s i \<longleftrightarrow> i < length (e_memzone s) \<and> mz_addr (e_memzone s ! i) \<noteq> 0"

text \<open>
  Each zone in use lies in a live region of its own, names differ, the counter counts.
\<close>

definition zones_ok :: "nat \<Rightarrow> eal \<Rightarrow> (nat \<times> nat) set \<Rightarrow> bool" where
  "zones_ok lim s A \<longleftrightarrow> malloc_rel lim (e_mem s) A \<and>
     length (e_memzone s) = RTE_MAX_MEMZONE \<and> unat (e_memzone_cnt s) = card {i. zone_used s i} \<and>
     (\<forall>i. zone_used s i \<longrightarrow> length (mz_name (e_memzone s ! i)) < RTE_MEMZONE_NAMESIZE \<and>
        (\<exists>n. (unat (mz_addr (e_memzone s ! i)), n) \<in> A \<and> unat (mz_len (e_memzone s ! i)) \<le> n)) \<and>
     (\<forall>i j. zone_used s i \<and> zone_used s j \<and> mz_name (e_memzone s ! i) = mz_name (e_memzone s ! j) \<longrightarrow> i = j) \<and>
     (\<forall>i j. zone_used s i \<and> zone_used s j \<and> mz_addr (e_memzone s ! i) = mz_addr (e_memzone s ! j) \<longrightarrow> i = j)"

lemma zones_okD:
  assumes "zones_ok lim s A"
  shows "malloc_rel lim (e_mem s) A" "length (e_memzone s) = RTE_MAX_MEMZONE"
    "unat (e_memzone_cnt s) = card {i. zone_used s i}"
    "\<And>i. zone_used s i \<Longrightarrow> length (mz_name (e_memzone s ! i)) < RTE_MEMZONE_NAMESIZE"
    "\<And>i. zone_used s i \<Longrightarrow> \<exists>n. (unat (mz_addr (e_memzone s ! i)), n) \<in> A \<and> unat (mz_len (e_memzone s ! i)) \<le> n"
    "\<And>i j. zone_used s i \<Longrightarrow> zone_used s j \<Longrightarrow> mz_name (e_memzone s ! i) = mz_name (e_memzone s ! j) \<Longrightarrow> i = j"
    "\<And>i j. zone_used s i \<Longrightarrow> zone_used s j \<Longrightarrow> mz_addr (e_memzone s ! i) = mz_addr (e_memzone s ! j) \<Longrightarrow> i = j"
  using assms unfolding zones_ok_def by blast+

lemma finite_used: "finite {i. zone_used s i}"
  by (rule finite_subset [of _ "{..<length (e_memzone s)}"]) (auto simp: zone_used_def)

definition zone_names :: "eal \<Rightarrow> string \<rightharpoonup> nat" where
  "zone_names s n = memzone_lookup_thread_unsafe n s"

lemma zone_names_iff:
  assumes ok: "zones_ok lim s A"
  shows "zone_names s n = Some i \<longleftrightarrow> zone_used s i \<and> mz_name (e_memzone s ! i) = n"
proof
  assume "zone_names s n = Some i"
  then have i: "zone_used s i" "strneq RTE_MEMZONE_NAMESIZE n (mz_name (e_memzone s ! i))"
    by (auto simp: zone_names_def memzone_lookup_thread_unsafe_def first_index_Some zone_used_def)
  then show "zone_used s i \<and> mz_name (e_memzone s ! i) = n" using strneq_bounded [OF zones_okD(4) [OF ok i(1)], of n] by simp
next
  assume i: "zone_used s i \<and> mz_name (e_memzone s ! i) = n"
  show "zone_names s n = Some i"
    unfolding zone_names_def memzone_lookup_thread_unsafe_def
  proof (rule first_index_unique)
    show "mz_addr (e_memzone s ! i) \<noteq> 0 \<and> strneq RTE_MEMZONE_NAMESIZE n (mz_name (e_memzone s ! i))"
      using i by (simp add: zone_used_def strneq_def)
    show "j = i" if j: "j < length (e_memzone s)" "mz_addr (e_memzone s ! j) \<noteq> 0 \<and> strneq RTE_MEMZONE_NAMESIZE n (mz_name (e_memzone s ! j))" for j
    proof -
      have u: "zone_used s j" using j by (simp add: zone_used_def)
      then have "mz_name (e_memzone s ! j) = n" using j(2) strneq_bounded [OF zones_okD(4) [OF ok u], of n] by simp
      then show ?thesis using zones_okD(6) [OF ok u] i by simp
    qed
  qed (use i in \<open>simp add: zone_used_def\<close>)
qed

section \<open>Locks\<close>

lemma write_lock_free: "rw_cnt l = 0 \<Longrightarrow> rte_rwlock_write_lock l = Some (l\<lparr>rw_cnt := - 1\<rparr>)"
  by (subst rte_rwlock_write_lock.simps) (simp add: rte_atomic32_cmpset_eq)

lemma read_lock_free: "rw_cnt l = 0 \<Longrightarrow> rte_rwlock_read_lock l = Some (l\<lparr>rw_cnt := 1\<rparr>)"
  by (subst rte_rwlock_read_lock.simps) (simp add: rte_atomic32_cmpset_eq)

lemma write_unlock_held: "rw_cnt l = - 1 \<Longrightarrow> rte_rwlock_write_unlock l = l\<lparr>rw_cnt := 0\<rparr>"
  by (simp add: rte_rwlock_write_unlock_def rte_atomic32_inc_def x86_inc_def)

lemma read_unlock_held: "rw_cnt l = 1 \<Longrightarrow> rte_rwlock_read_unlock l = l\<lparr>rw_cnt := 0\<rparr>"
  by (simp add: rte_rwlock_read_unlock_def rte_atomic32_dec_def x86_dec_def)

section \<open>Reservation\<close>

lemma zone_try_other_result:
  assumes "malloc_rel lim m A" "req_ok lim sz align bound"
  shows "\<exists>m' p. zone_try_other_heaps is socket sz fl align bound m = Some (m', p) \<and>
    malloc_result lim m A (unat sz) (unat align) m' p \<and>
    (p \<noteq> 0 \<and> unat bound \<noteq> 0 \<longrightarrow> unat p div unat bound = (unat p + unat sz - 1) div unat bound)"
  using assms(1)
proof (induction "is" arbitrary: m)
  case (Cons i "is")
  show ?case
  proof (cases "socket = int i")
    case False
    obtain m' p where a: "malloc_heap_alloc i sz fl align bound m = Some (m', p)"
      "malloc_result lim m A (unat sz) (unat align) m' p"
      "p \<noteq> 0 \<Longrightarrow> unat bound \<noteq> 0 \<Longrightarrow> unat p div unat bound = (unat p + unat sz - 1) div unat bound"
      by (rule heap_alloc_result [OF Cons.prems assms(2)]) (rule that, assumption+)
    show ?thesis
    proof (cases "p = 0")
      case True
      then have "m' = m" using a(2) by (simp add: alloc_result_def)
      then show ?thesis using Cons.IH [OF Cons.prems] a(1) True False by simp
    qed (use a False in simp)
  qed (use Cons in simp)
qed simp

lemma zone_alloc_result:
  assumes rel: "malloc_rel lim m A" and rq: "req_ok lim sz align bound"
  obtains m' p where "zone_alloc socket_id socket sz fl align bound m = Some (m', p)"
    "malloc_result lim m A (unat sz) (unat align) m' p"
    "p \<noteq> 0 \<Longrightarrow> unat bound \<noteq> 0 \<Longrightarrow> unat p div unat bound = (unat p + unat sz - 1) div unat bound"
proof -
  obtain m1 p where a: "malloc_heap_alloc (nat socket) sz fl align bound m = Some (m1, p)"
    "malloc_result lim m A (unat sz) (unat align) m1 p"
    "p \<noteq> 0 \<Longrightarrow> unat bound \<noteq> 0 \<Longrightarrow> unat p div unat bound = (unat p + unat sz - 1) div unat bound"
    by (rule heap_alloc_result [OF rel rq]) (rule that, assumption+)
  show thesis
  proof (cases "p = 0 \<and> socket_id = SOCKET_ID_ANY")
    case True
    then have "m1 = m" using a(2) by (simp add: alloc_result_def)
    then have eq: "zone_alloc socket_id socket sz fl align bound m =
        zone_try_other_heaps [0..<RTE_MAX_NUMA_NODES] socket sz fl align bound m"
      using a(1) True by (simp add: zone_alloc_def)
    show thesis using zone_try_other_result [OF rel rq] that unfolding eq by blast
  next
    case False
    show thesis by (rule that [of m1 p]) (use a False in \<open>auto simp: zone_alloc_def\<close>)
  qed
qed

text \<open>Requests within the limits of the address arithmetic, on a machine with at most eight sockets.\<close>

definition zone_req_ok :: "nat \<Rightarrow> malloc_env \<Rightarrow> u64 \<Rightarrow> u32 \<Rightarrow> u32 \<Rightarrow> bool" where
  "zone_req_ok lim env len align bound \<longleftrightarrow> len \<noteq> 0 \<and> lim < 2 ^ 64 \<and>
     unat len + 126 + max 64 (unat align) + unat bound \<le> lim \<and>
     (env_socket_id env = - 1 \<or> env_socket_id env < 8)"

definition zone_align :: "u32 \<Rightarrow> u32" where
  "zone_align align = (if align < RTE_CACHE_LINE_SIZE then RTE_CACHE_LINE_SIZE else align)"

definition zone_len :: "u64 \<Rightarrow> u64" where
  "zone_len len = (len + RTE_CACHE_LINE_MASK) AND NOT RTE_CACHE_LINE_MASK"

lemma zone_len_bounds:
  assumes "len \<noteq> 0" "unat len + 63 < 2 ^ 64"
  shows "unat len \<le> unat (zone_len len)" "unat (zone_len len) \<le> unat len + 63" "zone_len len \<noteq> 0"
    "RTE_MAX RTE_CACHE_LINE_SIZE (zone_len len) = zone_len len" "\<not> len > - 1 - RTE_CACHE_LINE_MASK"
proof -
  have m: "(RTE_CACHE_LINE_MASK :: u64) = mask 6" by (simp add: RTE_CACHE_LINE_MASK_def RTE_CACHE_LINE_SIZE_def mask_eq_exp_minus_1)
  have a: "unat (len + 63) = unat len + 63" using assms(2) by (subst unat_add_no_overflow) simp_all
  have u: "unat (zone_len len) = unat len + 63 - (unat len + 63) mod 64"
  proof -
    have "zone_len len = (len + 63) AND NOT (mask 6)" unfolding zone_len_def m by (simp add: mask_eq_exp_minus_1)
    then show ?thesis using unat_and_not_mask [of "len + 63" 6] a by simp
  qed
  have r: "(unat len + 63) mod 64 < 64" by simp
  show ge: "unat len \<le> unat (zone_len len)" using u r by linarith
  show "unat (zone_len len) \<le> unat len + 63" using u by simp
  have pos: "0 < unat len" using assms(1) by (simp add: unat_gt_0)
  then show "zone_len len \<noteq> 0" using ge by auto
  have "64 dvd unat (zone_len len)" unfolding u by (simp add: minus_mod_eq_div_mult)
  then have "64 \<le> unat (zone_len len)" using ge pos by (simp add: dvd_imp_le)
  then show "RTE_MAX RTE_CACHE_LINE_SIZE (zone_len len) = zone_len len"
    by (auto simp: RTE_MAX_def RTE_CACHE_LINE_SIZE_def word_less_nat_alt not_less)
  have "unat (- 1 - RTE_CACHE_LINE_MASK :: u64) = 2 ^ 64 - 64" by (simp add: RTE_CACHE_LINE_MASK_def RTE_CACHE_LINE_SIZE_def)
  then show "\<not> len > - 1 - RTE_CACHE_LINE_MASK" using assms(2) by (simp add: word_less_nat_alt)
qed

text \<open>
  The outcome of a reservation: an error code and nothing else changed, or a zone in a fresh region.
\<close>

definition zone_errors :: "int set" where
  "zone_errors = {ENOSPC, ENAMETOOLONG, EEXIST, EINVAL, ENOMEM}"

definition zone_fresh :: "nat \<Rightarrow> eal \<Rightarrow> (nat \<times> nat) set \<Rightarrow> string \<Rightarrow> u64 \<Rightarrow> u32 \<Rightarrow> u32 \<Rightarrow> eal \<Rightarrow> nat \<Rightarrow> bool" where
  "zone_fresh lim s A name len align bound s' i \<longleftrightarrow>
     (\<exists>z n. e_memzone s' = (e_memzone s)[i := z] \<and> mz_addr z \<noteq> 0 \<and>
        zones_ok lim s' (insert (unat (mz_addr z), n) A) \<and> (unat (mz_addr z), n) \<notin> A \<and>
        zone_names s name = None \<and> zone_names s' = (zone_names s)(name \<mapsto> i) \<and>
        mz_name z = name \<and> unat len \<le> unat (mz_len z) \<and> unat (mz_len z) \<le> n \<and> 64 dvd unat (mz_addr z) \<and>
        (align \<noteq> 0 \<longrightarrow> unat align dvd unat (mz_addr z)) \<and>
        (bound \<noteq> 0 \<longrightarrow> unat (mz_addr z) div unat bound = (unat (mz_addr z) + unat (mz_len z) - 1) div unat bound) \<and>
        (\<forall>y. unat (mz_addr z) \<le> y \<and> y < unat (mz_addr z) + unat (mz_len z) \<longrightarrow> m_byte (e_mem s') (of_nat y) = Some 0)) \<and>
     (\<forall>r \<in> A. region_same malloc_byte (e_mem s) (e_mem s') r) \<and>
     s' = s\<lparr>e_mem := e_mem s', e_memzone_cnt := e_memzone_cnt s', e_memzone := e_memzone s'\<rparr>"

definition zone_post :: "nat \<Rightarrow> eal \<Rightarrow> (nat \<times> nat) set \<Rightarrow> string \<Rightarrow> u64 \<Rightarrow> u32 \<Rightarrow> u32 \<Rightarrow> eal \<Rightarrow> nat option \<Rightarrow> bool" where
  "zone_post lim s A name len align bound s' r \<longleftrightarrow>
     (case r of None \<Rightarrow> (\<exists>err \<in> zone_errors. s' = set_errno err s)
      | Some i \<Rightarrow> zone_fresh lim s A name len align bound s' i)"

lemma zone_fail: "err \<in> zone_errors \<Longrightarrow> \<exists>s' r. fail_zone err s = ret (s', r) \<and> zone_post lim s A name len align bound s' r"
  by (auto simp: fail_zone_def zone_post_def)

lemma next_free_exists:
  assumes ok: "zones_ok lim s A" and room: "unat (e_memzone_cnt s) < RTE_MAX_MEMZONE"
  obtains i where "get_next_free_memzone s = Some i" "i < length (e_memzone s)" "\<not> zone_used s i"
proof -
  have "get_next_free_memzone s \<noteq> None"
  proof
    assume "get_next_free_memzone s = None"
    then have "{i. zone_used s i} = {..<RTE_MAX_MEMZONE}"
      using zones_okD(2) [OF ok] by (auto simp: get_next_free_memzone_def first_index_None zone_used_def)
    then show False using room zones_okD(3) [OF ok] by simp
  qed
  then obtain i where "get_next_free_memzone s = Some i" by blast
  moreover from this have "i < length (e_memzone s)" "\<not> zone_used s i"
    by (auto simp: get_next_free_memzone_def first_index_Some zone_used_def)
  ultimately show thesis by (rule that)
qed

text \<open>A descriptor written to an unused slot.\<close>

lemma zone_added:
  assumes ok: "zones_ok lim s A" and i: "i < length (e_memzone s)" "\<not> zone_used s i" "mz_addr z \<noteq> 0"
    and rel: "malloc_rel lim (e_mem s') (insert (unat (mz_addr z), n) A)" "(unat (mz_addr z), n) \<notin> A"
    and z: "unat (mz_len z) \<le> n" "length (mz_name z) < RTE_MEMZONE_NAMESIZE" "zone_names s (mz_name z) = None"
    and room: "unat (e_memzone_cnt s) < RTE_MAX_MEMZONE"
    and s': "e_memzone s' = (e_memzone s)[i := z]" "e_memzone_cnt s' = e_memzone_cnt s + 1"
  shows "zones_ok lim s' (insert (unat (mz_addr z), n) A)" "zone_names s' = (zone_names s)(mz_name z \<mapsto> i)"
proof -
  note d = zones_okD [OF ok]
  have used: "zone_used s' j \<longleftrightarrow> j = i \<or> zone_used s j" for j
    using i by (auto simp: zone_used_def s' nth_list_update)
  have at: "e_memzone s' ! j = (if j = i then z else e_memzone s ! j)" for j
    using i by (simp add: s' nth_list_update)
  have name: "mz_name (e_memzone s ! j) \<noteq> mz_name z" if "zone_used s j" for j
    using zone_names_iff [OF ok, of "mz_name z" j] z(3) that by simp
  have addr: "mz_addr (e_memzone s ! j) \<noteq> mz_addr z" if u: "zone_used s j" for j
  proof
    assume eq: "mz_addr (e_memzone s ! j) = mz_addr z"
    obtain k where "(unat (mz_addr z), k) \<in> A" using d(5) [OF u] eq by auto
    then show False using malloc.region_unique [OF rel(1), of "unat (mz_addr z)" n k] rel(2) by auto
  qed
  have "unat (e_memzone_cnt s') = Suc (card {i. zone_used s i})"
    using d(3) room unfolding s'(2) by (subst unat_add_no_overflow) (simp_all add: RTE_MAX_MEMZONE_def)
  also have "\<dots> = card (insert i {i. zone_used s i})" using i(2) finite_used by simp
  also have "insert i {i. zone_used s i} = {i. zone_used s' i}" using used by auto
  finally have cnt: "unat (e_memzone_cnt s') = card {i. zone_used s' i}" .
  show ok': "zones_ok lim s' (insert (unat (mz_addr z), n) A)"
    unfolding zones_ok_def
  proof (intro conjI allI impI)
    fix j assume "zone_used s' j"
    then show "length (mz_name (e_memzone s' ! j)) < RTE_MEMZONE_NAMESIZE"
      "\<exists>k. (unat (mz_addr (e_memzone s' ! j)), k) \<in> insert (unat (mz_addr z), n) A \<and> unat (mz_len (e_memzone s' ! j)) \<le> k"
      using z d(4,5) by (auto simp: used at)
  next
    fix j k assume "zone_used s' j \<and> zone_used s' k \<and> mz_name (e_memzone s' ! j) = mz_name (e_memzone s' ! k)"
    then show "j = k" using d(6) name by (auto simp: used at split: if_splits)
  next
    fix j k assume "zone_used s' j \<and> zone_used s' k \<and> mz_addr (e_memzone s' ! j) = mz_addr (e_memzone s' ! k)"
    then show "j = k" using d(7) addr by (auto simp: used at split: if_splits)
  qed (use rel d(2) cnt in \<open>simp_all add: s'(1)\<close>)
  show "zone_names s' = (zone_names s)(mz_name z \<mapsto> i)"
  proof (rule map_eqI)
    fix nm j
    show "zone_names s' nm = Some j \<longleftrightarrow> ((zone_names s)(mz_name z \<mapsto> i)) nm = Some j"
      using name i(2) by (auto simp: zone_names_iff [OF ok'] zone_names_iff [OF ok] used at)
  qed
qed

lemma fill_memzone_ok:
  assumes ok: "zones_ok lim s A" and room: "unat (e_memzone_cnt s) < RTE_MAX_MEMZONE"
    and name: "length name < RTE_MEMZONE_NAMESIZE" "zone_names s name = None"
    and al: "malloc_result lim (e_mem s) A (unat rlen) al m p" "p \<noteq> 0" and rlen: "rlen \<noteq> 0" "unat len \<le> unat rlen"
    and dv: "align \<noteq> 0 \<Longrightarrow> unat align dvd al" "64 dvd al"
    and bd: "bound \<noteq> 0 \<Longrightarrow> unat p div unat bound = (unat p + unat rlen - 1) div unat bound"
  shows "\<exists>s' r. fill_memzone v name rlen p (s\<lparr>e_mem := m\<rparr>) = ret (s', r) \<and> zone_post lim s A name len align bound s' r \<and>
    (\<forall>i. r = Some i \<longrightarrow> mz_len (e_memzone s' ! i) = rlen)"
proof -
  from al obtain n where n: "malloc_rel lim m (insert (unat p, n) A)" "(unat p, n) \<notin> A" "unat rlen \<le> n" "al dvd unat p"
    "\<And>y. unat p \<le> y \<Longrightarrow> y < unat p + unat rlen \<Longrightarrow> malloc_byte m y = Some 0" "\<forall>r \<in> A. region_same malloc_byte (e_mem s) m r"
    unfolding alloc_result_def by blast
  obtain i where i: "get_next_free_memzone s = Some i" "i < length (e_memzone s)" "\<not> zone_used s i"
    using ok room by (rule next_free_exists)
  let ?h = "m_hdr m (malloc_elem_from_data p m)"
  define z where "z = \<lparr>mz_name = fst (snprintf_str RTE_MEMZONE_NAMESIZE name), mz_iova = v p, mz_addr = p,
    mz_len = (if rlen = 0 then me_size ?h - MALLOC_ELEM_OVERHEAD else rlen),
    mz_hugepage_sz = ms_hugepage_sz (m_seg m (me_ms ?h)), mz_socket_id = ms_socket_id (m_seg m (me_ms ?h)), mz_flags = 0,
    mz_memseg_id = of_nat (me_ms ?h)\<rparr>"
  define s' where "s' = s\<lparr>e_mem := m, e_memzone_cnt := e_memzone_cnt s + 1, e_memzone := (e_memzone s)[i := z]\<rparr>"
  have z: "mz_name z = name" "mz_addr z = p" "mz_len z = rlen"
    using rlen(1) name(1) by (simp_all add: z_def snprintf_str_def)
  have eq: "fill_memzone v name rlen p (s\<lparr>e_mem := m\<rparr>) = ret (s', Some i)"
    using i(1) by (simp add: fill_memzone_def get_next_free_memzone_def s'_def z_def Let_def)
  note za = zone_added [OF ok i(2,3), of z s' n, unfolded z]
  have zo: "zones_ok lim s' (insert (unat p, n) A)" "zone_names s' = (zone_names s)(name \<mapsto> i)"
    using za al(2) n(1-3) name room by (simp_all add: s'_def)
  have "zone_fresh lim s A name len align bound s' i"
    unfolding zone_fresh_def
  proof (intro conjI exI)
    show "zones_ok lim s' (insert (unat (mz_addr z), n) A)" using zo(1) by (simp add: z)
    show "align \<noteq> 0 \<longrightarrow> unat align dvd unat (mz_addr z)" "64 dvd unat (mz_addr z)" using dv n(4) by (auto simp: z intro: dvd_trans)
    show "\<forall>y. unat (mz_addr z) \<le> y \<and> y < unat (mz_addr z) + unat (mz_len z) \<longrightarrow> m_byte (e_mem s') (of_nat y) = Some 0"
      using n(5) by (simp add: z s'_def malloc_byte_def)
    show "\<forall>r \<in> A. region_same malloc_byte (e_mem s) (e_mem s') r" using n(6) by (simp add: s'_def)
    show "e_memzone s' = (e_memzone s)[i := z]" by (simp add: s'_def)
  qed (use al(2) n(2,3) name(2) rlen(2) bd zo(2) in \<open>auto simp: z s'_def\<close>)
  moreover have "mz_len (e_memzone s' ! i) = rlen" using i(2) z(3) by (simp add: s'_def)
  ultimately show ?thesis using eq by (simp add: zone_post_def)
qed

text \<open>The call for a non-zero length, with the branches that cannot be taken removed.\<close>

definition eff_socket_id :: "eal \<Rightarrow> int \<Rightarrow> int" where
  "eff_socket_id s socket_id = (if \<not> env_has_hugepages (e_env s) then SOCKET_ID_ANY else socket_id)"

definition eff_socket :: "eal \<Rightarrow> int \<Rightarrow> int" where
  "eff_socket s socket_id = (if eff_socket_id s socket_id = SOCKET_ID_ANY
     then sint (malloc_get_numa_socket (e_env s)) else eff_socket_id s socket_id)"

definition reserve_tail ::
    "(u64 \<Rightarrow> u64) \<Rightarrow> string \<Rightarrow> u64 \<Rightarrow> int \<Rightarrow> int \<Rightarrow> u32 \<Rightarrow> u32 \<Rightarrow> u32 \<Rightarrow> eal \<Rightarrow> (eal \<times> nat option) res" where
  "reserve_tail v name rlen socket_id socket flags align bound s =
     res_bind (lift_opt (zone_alloc socket_id socket rlen flags (ucast (zone_align align)) (ucast bound) (e_mem s)))
       (\<lambda>(m, p). if p = 0 then fail_zone ENOMEM (s\<lparr>e_mem := m\<rparr>) else fill_memzone v name rlen p (s\<lparr>e_mem := m\<rparr>))"

lemma eff_socket_range:
  assumes "env_socket_id (e_env s) = - 1 \<or> env_socket_id (e_env s) < 8"
    "\<not> (socket_id \<noteq> SOCKET_ID_ANY \<and> (socket_id \<ge> int RTE_MAX_NUMA_NODES \<or> socket_id < 0))"
  shows "\<not> (eff_socket s socket_id < 0 \<or> eff_socket s socket_id \<ge> int RTE_MAX_NUMA_NODES)"
proof -
  have "0 \<le> sint x \<and> sint x < 8" if "x < (8 :: u32)" for x
  proof -
    have "sint x = uint x" using that unfolding sint_uint
      by (intro signed_take_bit_int_eq_self) (auto simp: word_less_def intro: order_trans [OF _ uint_ge_0])
    then show ?thesis using that by (simp add: word_less_def)
  qed
  then have "0 \<le> sint (malloc_get_numa_socket (e_env s)) \<and> sint (malloc_get_numa_socket (e_env s)) < 8"
    using assms(1) by (auto simp: malloc_get_numa_socket_def)
  then show ?thesis using assms(2) by (auto simp: eff_socket_def eff_socket_id_def RTE_MAX_NUMA_NODES_def)
qed

lemma reserve_eq:
  assumes len: "len \<noteq> 0" "unat len + 63 < 2 ^ 64" and env: "env_socket_id (e_env s) = - 1 \<or> env_socket_id (e_env s) < 8"
  shows "memzone_reserve_aligned_thread_unsafe v st name len socket_id flags align bound s =
    (if unat (e_memzone_cnt s) \<ge> RTE_MAX_MEMZONE then fail_zone ENOSPC s
     else if length name > RTE_MEMZONE_NAMESIZE - 1 then fail_zone ENAMETOOLONG s
     else if memzone_lookup_thread_unsafe name s \<noteq> None then fail_zone EEXIST s
     else if align \<noteq> 0 \<and> \<not> rte_is_power_of_2 align then fail_zone EINVAL s
     else if bound \<noteq> 0 \<and> (zone_len len > ucast bound \<or> \<not> rte_is_power_of_2 bound) then fail_zone EINVAL s
     else if socket_id \<noteq> SOCKET_ID_ANY \<and> (socket_id \<ge> int RTE_MAX_NUMA_NODES \<or> socket_id < 0) then fail_zone EINVAL s
     else reserve_tail v name (zone_len len) (eff_socket_id s socket_id) (eff_socket s socket_id) flags align bound s)"
proof -
  note zl = zone_len_bounds [OF len]
  have sk: "\<not> (eff_socket s socket_id < 0 \<or> int RTE_MAX_NUMA_NODES \<le> eff_socket s socket_id)"
    if "\<not> (socket_id \<noteq> SOCKET_ID_ANY \<and> (socket_id \<ge> int RTE_MAX_NUMA_NODES \<or> socket_id < 0))"
    using eff_socket_range [OF env that] by simp
  have rec: "s\<lparr>e_mem := e_mem s\<rparr> = s" by simp
  show ?thesis
  proof (cases "socket_id \<noteq> SOCKET_ID_ANY \<and> (socket_id \<ge> int RTE_MAX_NUMA_NODES \<or> socket_id < 0)")
    case True
    then show ?thesis
      unfolding memzone_reserve_aligned_thread_unsafe_def Let_def zone_len_def [symmetric] zl(4)
      by (simp only: zl(5) if_False if_True simp_thms)
  next
    case False
    show ?thesis
      unfolding memzone_reserve_aligned_thread_unsafe_def Let_def zone_len_def [symmetric] zone_align_def [symmetric] zl(4)
        reserve_tail_def eff_socket_id_def [symmetric]
      by (simp only: zl(3,5) False sk [OF False] if_False simp_thms res_bind_simps prod.case rec eff_socket_def [symmetric])
  qed
qed

lemma zone_request:
  assumes len: "sz \<noteq> 0" "unat sz + 63 + max 64 (unat align) + unat bound \<le> lim" and lim: "lim < 2 ^ 64"
    and al: "\<not> (align \<noteq> 0 \<and> \<not> rte_is_power_of_2 align)" and bd: "\<not> (bound \<noteq> 0 \<and> \<not> rte_is_power_of_2 bound)"
  shows "req_ok lim sz (ucast (zone_align align)) (ucast bound)"
    "align \<noteq> 0 \<Longrightarrow> unat align dvd unat (ucast (zone_align align) :: u64)" "64 dvd unat (ucast (zone_align align) :: u64)"
    "unat (ucast bound :: u64) = unat bound"
proof -
  have up: "unat (ucast x :: u64) = unat x" for x :: u32
    using unat_lt_pow [of x] by (simp add: unsigned_ucast_eq take_bit_nat_eq_self)
  show "unat (ucast bound :: u64) = unat bound" by (rule up)
  have "\<exists>k < 32. 6 \<le> k \<and> zone_align align = 2 ^ k"
  proof (cases "align < 64")
    case True
    then show ?thesis by (intro exI [of _ 6]) (simp add: zone_align_def RTE_CACHE_LINE_SIZE_def)
  next
    case False
    then have nz: "align \<noteq> 0" by auto
    then obtain k where k: "k < 32" "align = 2 ^ k" using al by (auto simp: rte_is_power_of_2_iff)
    have "6 \<le> k"
    proof (rule ccontr)
      assume "\<not> 6 \<le> k"
      then have "(2::nat) ^ k \<le> 2 ^ 5" by (intro power_increasing) simp_all
      then show False using False k by (simp add: word_less_nat_alt unat_pow2)
    qed
    then show ?thesis using k False by (auto simp: zone_align_def RTE_CACHE_LINE_SIZE_def)
  qed
  then obtain k where k: "k < 32" "6 \<le> k" "zone_align align = 2 ^ k" by blast
  have ua: "unat (zone_align align) = max 64 (unat align)"
    by (auto simp: zone_align_def RTE_CACHE_LINE_SIZE_def word_less_nat_alt max_def)
  have bo: "bound_ok (ucast bound)"
  proof (cases "bound = 0")
    case False
    then obtain j where "j < 32" "bound = 2 ^ j" using bd by (auto simp: rte_is_power_of_2_iff)
    then show ?thesis by (auto simp: bound_ok_def intro!: exI [of _ j])
  qed (simp add: bound_ok_def)
  have sum: "unat sz + 63 + max 64 (2 ^ k) + unat bound \<le> lim"
    using len k(1,3) ua by (simp add: unat_pow2)
  have "(ucast (zone_align align) :: u64) = 2 ^ k" using k by simp
  then show "req_ok lim sz (ucast (zone_align align)) (ucast bound)"
    unfolding req_ok_def using len lim k(1,2) bo ua sum by (auto simp: up unat_pow2 simp flip: k(3))
  show "64 dvd unat (ucast (zone_align align) :: u64)"
    using k le_imp_power_dvd [OF k(2), of "2::nat"] by (simp add: up unat_pow2)
  show "unat align dvd unat (ucast (zone_align align) :: u64)" if nz: "align \<noteq> 0"
  proof -
    obtain j where j: "j < 32" "align = 2 ^ j" using al nz by (auto simp: rte_is_power_of_2_iff)
    have "(2::nat) ^ j \<le> 2 ^ k" using ua k(1,3) j by (simp add: unat_pow2)
    then have "j \<le> k" by simp
    then show ?thesis using j k by (simp add: up unat_pow2 le_imp_power_dvd)
  qed
qed

text \<open>The allocation and the descriptor, for any length settled on.\<close>

definition reserve_post :: "nat \<Rightarrow> eal \<Rightarrow> (nat \<times> nat) set \<Rightarrow> string \<Rightarrow> u64 \<Rightarrow> u32 \<Rightarrow> u32 \<Rightarrow> nat \<Rightarrow> (eal \<times> nat option) res \<Rightarrow> bool" where
  "reserve_post lim s A name len align bound n x \<longleftrightarrow>
     (\<exists>s' r. x = ret (s', r) \<and> zone_post lim s A name len align bound s' r \<and>
        (\<forall>i. r = Some i \<longrightarrow> 0 < n \<and> unat (mz_len (e_memzone s' ! i)) = n))"

lemma reserve_post_fail: "err \<in> zone_errors \<Longrightarrow> reserve_post lim s A name len align bound n (fail_zone err s)"
  by (simp add: reserve_post_def fail_zone_def zone_post_def) blast

lemma reserve_post_if:
  "\<lbrakk>c \<Longrightarrow> reserve_post lim s A name len align bound n x; \<not> c \<Longrightarrow> reserve_post lim s A name len align bound n y\<rbrakk> \<Longrightarrow>
   reserve_post lim s A name len align bound n (if c then x else y)"
  by simp

lemma reserve_tail_ok:
  assumes ok: "zones_ok lim s A" and room: "unat (e_memzone_cnt s) < RTE_MAX_MEMZONE"
    and name: "length name < RTE_MEMZONE_NAMESIZE" "zone_names s name = None"
    and al: "\<not> (align \<noteq> 0 \<and> \<not> rte_is_power_of_2 align)" and bd: "\<not> (bound \<noteq> 0 \<and> \<not> rte_is_power_of_2 bound)"
    and rl: "rlen \<noteq> 0" "unat len \<le> unat rlen" "unat rlen + 63 + max 64 (unat align) + unat bound \<le> lim" "lim < 2 ^ 64"
  shows "reserve_post lim s A name len align bound (unat rlen) (reserve_tail v name rlen socket_id socket flags align bound s)"
proof -
  note zr = zone_request [OF rl(1,3,4) al bd]
  obtain m p where a: "zone_alloc socket_id socket rlen flags (ucast (zone_align align)) (ucast bound) (e_mem s) = Some (m, p)"
    "malloc_result lim (e_mem s) A (unat rlen) (unat (ucast (zone_align align) :: u64)) m p"
    "p \<noteq> 0 \<Longrightarrow> unat (ucast bound :: u64) \<noteq> 0 \<Longrightarrow>
      unat p div unat (ucast bound :: u64) = (unat p + unat rlen - 1) div unat (ucast bound :: u64)"
    by (rule zone_alloc_result [OF zones_okD(1) [OF ok] zr(1)]) (rule that, assumption+)
  show ?thesis
  proof (cases "p = 0")
    case True
    then have "s\<lparr>e_mem := m\<rparr> = s" using a(2) by (simp add: alloc_result_def)
    then show ?thesis using True a(1) reserve_post_fail [of ENOMEM] by (simp add: reserve_tail_def zone_errors_def)
  next
    case False
    have "\<exists>s' r. fill_memzone v name rlen p (s\<lparr>e_mem := m\<rparr>) = ret (s', r) \<and> zone_post lim s A name len align bound s' r \<and>
        (\<forall>i. r = Some i \<longrightarrow> mz_len (e_memzone s' ! i) = rlen)"
    proof (rule fill_memzone_ok [OF ok room name a(2) False rl(1,2) zr(2,3)])
      show "unat p div unat bound = (unat p + unat rlen - 1) div unat bound" if "bound \<noteq> 0"
        using a(3) [OF False] that zr(4) by (simp add: unat_eq_0)
    qed
    then show ?thesis using False a(1) rl(1) by (auto simp: reserve_tail_def reserve_post_def unat_gt_0)
  qed
qed

lemma memzone_reserve_ok:
  assumes ok: "zones_ok lim s A" and rq: "zone_req_ok lim (e_env s) len align bound"
  shows "reserve_post lim s A name len align bound (unat (zone_len len))
    (memzone_reserve_aligned_thread_unsafe v st name len socket_id flags align bound s)"
proof -
  have lb: "len \<noteq> 0" "unat len + 63 < 2 ^ 64" "env_socket_id (e_env s) = - 1 \<or> env_socket_id (e_env s) < 8"
    and lim: "lim < 2 ^ 64" "unat len + 126 + max 64 (unat align) + unat bound \<le> lim"
    using rq by (auto simp: zone_req_ok_def)
  note zl = zone_len_bounds [OF lb(1,2)]
  have body: "reserve_post lim s A name len align bound (unat (zone_len len))
      (reserve_tail v name (zone_len len) (eff_socket_id s socket_id) (eff_socket s socket_id) flags align bound s)"
    if g: "\<not> unat (e_memzone_cnt s) \<ge> RTE_MAX_MEMZONE" "\<not> length name > RTE_MEMZONE_NAMESIZE - 1"
      "memzone_lookup_thread_unsafe name s = None" "\<not> (align \<noteq> 0 \<and> \<not> rte_is_power_of_2 align)"
      "\<not> (bound \<noteq> 0 \<and> (zone_len len > ucast bound \<or> \<not> rte_is_power_of_2 bound))"
    using g zl lim by (intro reserve_tail_ok [OF ok]) (auto simp: zone_names_def RTE_MEMZONE_NAMESIZE_def)
  have fails: "ENOSPC \<in> zone_errors" "ENAMETOOLONG \<in> zone_errors" "EEXIST \<in> zone_errors" "EINVAL \<in> zone_errors"
    by (simp_all add: zone_errors_def)
  show ?thesis
    unfolding reserve_eq [OF lb] by (intro reserve_post_if reserve_post_fail fails body; simp)
qed

section \<open>The biggest zone\<close>

text \<open>The sizes of the free elements of some heaps, and the greatest of them.\<close>

definition free_elems :: "mem \<Rightarrow> nat \<Rightarrow> u64 set" where
  "free_elems m h = {e. \<exists>i < RTE_HEAP_NUM_FREELISTS. e \<in> set (mh_free_head (m_heap m h) i)}"

definition free_sizes :: "mem \<Rightarrow> nat set \<Rightarrow> nat set" where
  "free_sizes m hs = (\<Union>h \<in> hs. (\<lambda>e. unat (me_size (m_hdr m e))) ` free_elems m h)"

definition biggest_free :: "mem \<Rightarrow> nat set \<Rightarrow> nat" where
  "biggest_free m hs = Max (insert 0 (free_sizes m hs))"

definition heaps_of :: "int \<Rightarrow> nat set" where
  "heaps_of socket = {h. h < RTE_MAX_NUMA_NODES \<and> (socket = SOCKET_ID_ANY \<or> socket = int h)}"

lemma finite_free_elems: "finite (free_elems m h)"
proof -
  have "free_elems m h = (\<Union>i < RTE_HEAP_NUM_FREELISTS. set (mh_free_head (m_heap m h) i))"
    by (auto simp: free_elems_def)
  then show ?thesis by simp
qed

lemma finite_free_sizes: "finite hs \<Longrightarrow> finite (free_sizes m hs)"
  by (simp add: free_sizes_def finite_free_elems)

lemma stats_fold:
  "unat (st_greatest_free_size (foldl (stats_add_elem m) st es)) =
   Max (insert (unat (st_greatest_free_size st)) ((\<lambda>e. unat (me_size (m_hdr m e))) ` set es))"
proof (induction es arbitrary: st)
  case (Cons e es)
  let ?f = "\<lambda>e. unat (me_size (m_hdr m e))" and ?g = "unat (st_greatest_free_size st)"
  have g: "unat (st_greatest_free_size (stats_add_elem m st e)) = max ?g (?f e)"
    by (simp add: stats_add_elem_def Let_def max_def word_less_nat_alt)
  have "Max (insert (max ?g (?f e)) (?f ` set es)) = Max (insert ?g (insert (?f e) (?f ` set es)))"
    by (cases "es = []") (simp_all add: max.assoc)
  then show ?case using Cons.IH [of "stats_add_elem m st e"] by (simp add: g)
qed simp

lemma get_stats_eq:
  assumes "unlocked m"
  shows "\<exists>st'. malloc_heap_get_stats h m st = Some (m, st', 0) \<and>
    unat (st_greatest_free_size st') = biggest_free m {h}"
proof -
  have l: "sl_locked (mh_lock (m_heap m h)) = 0" using assms by (simp add: unlocked_def)
  let ?m = "upd_heap h (\<lambda>hp. hp\<lparr>mh_lock := \<lparr>sl_locked = 1\<rparr>\<rparr>) m"
  have hd: "m_hdr ?m = m_hdr m" "mh_free_head (m_heap ?m h) = mh_free_head (m_heap m h)"
    by (simp_all add: upd_heap_def)
  have add: "stats_add_elem ?m = stats_add_elem m" by (simp add: fun_eq_iff stats_add_elem_def hd)
  have "set (concat (map (mh_free_head (m_heap m h)) [0..<RTE_HEAP_NUM_FREELISTS])) = free_elems m h"
    by (auto simp: free_elems_def)
  then show ?thesis
    using lock_unlock [OF l]
    by (simp add: malloc_heap_get_stats_def heap_lock_free [OF l] Let_def stats_fold hd add
        biggest_free_def free_sizes_def)
qed

lemma biggest_insert:
  assumes "finite hs"
  shows "biggest_free m (insert h hs) = max (biggest_free m {h}) (biggest_free m hs)"
proof -
  have "insert 0 (free_sizes m (insert h hs)) = insert 0 (free_sizes m {h}) \<union> insert 0 (free_sizes m hs)"
    by (auto simp: free_sizes_def)
  moreover have "finite (insert 0 (free_sizes m {h}))" "finite (insert 0 (free_sizes m hs))"
    using assms by (simp_all add: finite_free_sizes)
  ultimately show ?thesis unfolding biggest_free_def by (simp only: Max_Un insert_not_empty not_False_eq_True)
qed

lemma find_max_loop_eq:
  assumes "unlocked m"
  shows "\<exists>len' s'. find_max_loop is socket st m len s = Some (m, len', s') \<and>
    unat len' = max (unat len) (biggest_free m {i \<in> set is. socket = SOCKET_ID_ANY \<or> socket = int i}) \<and>
    (len' = len \<and> s' = s \<or> (\<exists>i \<in> set is. s' = int i \<and> (socket = SOCKET_ID_ANY \<or> socket = int i)))"
proof (induction "is" arbitrary: st len s)
  case Nil
  then show ?case by (simp add: biggest_free_def free_sizes_def)
next
  case (Cons i "is")
  let ?H = "\<lambda>is. {i \<in> set is. socket = SOCKET_ID_ANY \<or> socket = int i}"
  show ?case
  proof (cases "socket \<noteq> SOCKET_ID_ANY \<and> socket \<noteq> int i")
    case True
    then have "?H (i # is) = ?H is" by auto
    then show ?thesis using Cons.IH [of st len s] True by auto
  next
    case False
    then have "?H (i # is) = insert i (?H is)" by auto
    then have big: "biggest_free m (?H (i # is)) = max (biggest_free m {i}) (biggest_free m (?H is))"
      using biggest_insert [of "?H is" m i] by simp
    obtain st' where st': "malloc_heap_get_stats i m st = Some (m, st', 0)"
      "unat (st_greatest_free_size st') = biggest_free m {i}" using get_stats_eq [OF assms] by blast
    show ?thesis
    proof (cases "st_greatest_free_size st' > len")
      case gt: True
      then have u: "unat len \<le> biggest_free m {i}" using st'(2) by (simp add: word_less_nat_alt)
      obtain len' s' where r: "find_max_loop is socket st' m (st_greatest_free_size st') (int i) = Some (m, len', s')"
        "unat len' = max (unat (st_greatest_free_size st')) (biggest_free m (?H is))"
        "len' = st_greatest_free_size st' \<and> s' = int i \<or> (\<exists>i \<in> set is. s' = int i \<and> (socket = SOCKET_ID_ANY \<or> socket = int i))"
        using Cons.IH by blast
      then show ?thesis using False gt st' u unfolding big by (auto simp: max_def)
    next
      case le: False
      then have u: "biggest_free m {i} \<le> unat len" using st'(2) by (simp add: word_less_nat_alt)
      obtain len' s' where r: "find_max_loop is socket st' m len s = Some (m, len', s')"
        "unat len' = max (unat len) (biggest_free m (?H is))"
        "len' = len \<and> s' = s \<or> (\<exists>i \<in> set is. s' = int i \<and> (socket = SOCKET_ID_ANY \<or> socket = int i))"
        using Cons.IH by blast
      then show ?thesis using False le st' u unfolding big by (auto simp: max_def)
    qed
  qed
qed

text \<open>The length of the biggest zone: what is left of the element after its header and the alignment.\<close>

definition biggest_len :: "mem \<Rightarrow> int \<Rightarrow> u32 \<Rightarrow> nat" where
  "biggest_len m socket align = biggest_free m (heaps_of socket) - 64 - unat (zone_align align)"

lemma find_heap_max_eq:
  assumes "unlocked m"
  shows "\<exists>len s'. find_heap_max_free_elem st socket (zone_align align) m = Some (m, len, s') \<and>
    unat len = biggest_len m socket align \<and> (len \<noteq> 0 \<longrightarrow> 0 \<le> s' \<and> s' < int RTE_MAX_NUMA_NODES)"
proof -
  have H: "{i \<in> set [0..<RTE_MAX_NUMA_NODES]. socket = SOCKET_ID_ANY \<or> socket = int i} = heaps_of socket"
    by (auto simp: heaps_of_def)
  obtain len' s' where r: "find_max_loop [0..<RTE_MAX_NUMA_NODES] socket st m 0 socket = Some (m, len', s')"
    "unat len' = biggest_free m (heaps_of socket)"
    "len' = 0 \<and> s' = socket \<or> (\<exists>i \<in> set [0..<RTE_MAX_NUMA_NODES]. s' = int i)"
    using find_max_loop_eq [OF assms, of "[0..<RTE_MAX_NUMA_NODES]" socket st 0 socket] unfolding H by auto
  let ?al = "ucast (zone_align align) :: u64"
  have al: "unat ?al = unat (zone_align align)"
    using unat_lt_pow [of "zone_align align"] by (simp add: unsigned_ucast_eq take_bit_nat_eq_self)
  have ov: "unat (MALLOC_ELEM_OVERHEAD + ?al) = 64 + unat (zone_align align)"
  proof -
    have ov0: "(MALLOC_ELEM_OVERHEAD :: u64) = 64"
      by (simp add: MALLOC_ELEM_OVERHEAD_def MALLOC_ELEM_HEADER_LEN_def MALLOC_ELEM_TRAILER_LEN_def)
    show ?thesis unfolding ov0 using al unat_lt_pow [of "zone_align align"] by (subst unat_add_no_overflow) simp_all
  qed
  show ?thesis
  proof (cases "len' < MALLOC_ELEM_OVERHEAD + ?al")
    case True
    then have "biggest_len m socket align = 0" using r(2) ov by (simp add: biggest_len_def word_less_nat_alt)
    then show ?thesis using True r(1) by (simp add: find_heap_max_free_elem_def)
  next
    case False
    then have le: "MALLOC_ELEM_OVERHEAD + ?al \<le> len'" by (simp add: not_less)
    have "unat (len' - (MALLOC_ELEM_OVERHEAD + ?al)) = biggest_len m socket align"
      using r(2) unat_sub [OF le] by (simp add: biggest_len_def ov)
    moreover have "len' \<noteq> 0" using le ov by (auto simp: word_le_nat_alt)
    ultimately show ?thesis using False r(1,3)
      by (auto simp: find_heap_max_free_elem_def diff_diff_eq)
  qed
qed

section \<open>Reservation of any length\<close>

text \<open>
  Of length 0: a zone as long as the boundary, or the biggest there is if none is given. Then the
  free elements must be within the limit of the address arithmetic.
\<close>

definition zone_any_ok :: "nat \<Rightarrow> eal \<Rightarrow> u64 \<Rightarrow> u32 \<Rightarrow> u32 \<Rightarrow> bool" where
  "zone_any_ok lim s len align bound \<longleftrightarrow>
     (if len \<noteq> 0 then zone_req_ok lim (e_env s) len align bound
      else if bound \<noteq> 0 then zone_req_ok lim (e_env s) (ucast bound) align bound
      else lim < 2 ^ 64 \<and> biggest_free (e_mem s) {..<RTE_MAX_NUMA_NODES} \<le> lim \<and>
        (env_socket_id (e_env s) = - 1 \<or> env_socket_id (e_env s) < 8))"

text \<open>The length of the zone reserved, if one is.\<close>

definition zone_any_len :: "eal \<Rightarrow> u64 \<Rightarrow> int \<Rightarrow> u32 \<Rightarrow> u32 \<Rightarrow> nat" where
  "zone_any_len s len socket_id align bound =
     (if len \<noteq> 0 then unat (zone_len len)
      else if bound \<noteq> 0 then unat bound
      else biggest_len (e_mem s) (eff_socket_id s socket_id) align)"

lemma biggest_mono: "hs \<subseteq> hs' \<Longrightarrow> finite hs' \<Longrightarrow> biggest_free m hs \<le> biggest_free m hs'"
  unfolding biggest_free_def by (intro Max_mono) (auto simp: finite_free_sizes, auto simp: free_sizes_def)

lemma sint_small:
  assumes "0 \<le> s'" "s' < int RTE_MAX_NUMA_NODES"
  shows "s' \<noteq> SOCKET_ID_ANY" "\<not> (s' < 0 \<or> int RTE_MAX_NUMA_NODES \<le> s')"
  using assms by (simp_all add: SOCKET_ID_ANY_def)

lemma reserve_zero_eq:
  assumes env: "env_socket_id (e_env s) = - 1 \<or> env_socket_id (e_env s) < 8"
    and f: "find_heap_max_free_elem st (eff_socket_id s socket_id) (zone_align align) (e_mem s) = Some (e_mem s, rlen, sid)"
      "rlen \<noteq> 0 \<longrightarrow> 0 \<le> sid \<and> sid < int RTE_MAX_NUMA_NODES"
  shows "memzone_reserve_aligned_thread_unsafe v st name 0 socket_id flags align bound s =
    (if unat (e_memzone_cnt s) \<ge> RTE_MAX_MEMZONE then fail_zone ENOSPC s
     else if length name > RTE_MEMZONE_NAMESIZE - 1 then fail_zone ENAMETOOLONG s
     else if memzone_lookup_thread_unsafe name s \<noteq> None then fail_zone EEXIST s
     else if align \<noteq> 0 \<and> \<not> rte_is_power_of_2 align then fail_zone EINVAL s
     else if bound \<noteq> 0 \<and> (RTE_CACHE_LINE_SIZE > (ucast bound :: u64) \<or> \<not> rte_is_power_of_2 bound) then fail_zone EINVAL s
     else if socket_id \<noteq> SOCKET_ID_ANY \<and> (socket_id \<ge> int RTE_MAX_NUMA_NODES \<or> socket_id < 0) then fail_zone EINVAL s
     else if bound \<noteq> 0 then
       reserve_tail v name (ucast bound) (eff_socket_id s socket_id) (eff_socket s socket_id) flags align bound s
     else if rlen = 0 then fail_zone ENOMEM s
     else reserve_tail v name rlen sid sid flags align bound s)"
proof -
  have z: "((0 :: u64) + RTE_CACHE_LINE_MASK) AND NOT RTE_CACHE_LINE_MASK = 0"
    "RTE_MAX RTE_CACHE_LINE_SIZE (0 :: u64) = RTE_CACHE_LINE_SIZE" "\<not> (0 :: u64) > - 1 - RTE_CACHE_LINE_MASK"
    by (simp_all add: RTE_MAX_def RTE_CACHE_LINE_SIZE_def)
  have ub: "(ucast bound :: u64) = 0 \<longleftrightarrow> bound = 0"
    using unat_lt_pow [of bound] by (simp add: word_unat_eq_iff unsigned_ucast_eq take_bit_nat_eq_self)
  have rec: "s\<lparr>e_mem := e_mem s\<rparr> = s" by simp
  have lo: "lift_opt (Some x) = ret x" for x :: "mem \<times> u64 \<times> int" by (simp add: lift_opt_def)
  show ?thesis
  proof (cases "socket_id \<noteq> SOCKET_ID_ANY \<and> (socket_id \<ge> int RTE_MAX_NUMA_NODES \<or> socket_id < 0)")
    case True
    then show ?thesis
      unfolding memzone_reserve_aligned_thread_unsafe_def Let_def z(1,2) by (simp only: z(3) if_False if_True simp_thms)
  next
    case False
    have sk: "\<not> (eff_socket s socket_id < 0 \<or> int RTE_MAX_NUMA_NODES \<le> eff_socket s socket_id)"
      using eff_socket_range [OF env False] by simp
    show ?thesis
    proof (cases "bound = 0")
      case True
      show ?thesis
        unfolding memzone_reserve_aligned_thread_unsafe_def Let_def z(1,2) zone_align_def [symmetric] eff_socket_id_def [symmetric] f(1)
          lo reserve_tail_def
        using f(2) sint_small [of sid]
        by (cases "rlen = 0")
          (simp_all only: z(3) False True if_False if_True simp_thms res_bind_simps prod.case rec cong: if_cong)
    next
      case nz: False
      show ?thesis
        unfolding memzone_reserve_aligned_thread_unsafe_def Let_def z(1,2) zone_align_def [symmetric] reserve_tail_def
          eff_socket_id_def [symmetric]
        by (simp only: z(3) False nz ub sk if_False if_True simp_thms res_bind_simps prod.case rec eff_socket_def [symmetric])
    qed
  qed
qed

lemma memzone_reserve_any_ok:
  assumes ok: "zones_ok lim s A" and rq: "zone_any_ok lim s len align bound"
  shows "reserve_post lim s A name len align bound (zone_any_len s len socket_id align bound)
    (memzone_reserve_aligned_thread_unsafe v st name len socket_id flags align bound s)"
proof (cases "len = 0")
  case False
  then show ?thesis using memzone_reserve_ok [OF ok] rq by (simp add: zone_any_ok_def zone_any_len_def)
next
  case True
  have ul: "unlocked (e_mem s)" using zones_okD(1) [OF ok] by (simp add: malloc_rel_def)
  obtain rlen sid where f: "find_heap_max_free_elem st (eff_socket_id s socket_id) (zone_align align) (e_mem s) = Some (e_mem s, rlen, sid)"
    "unat rlen = biggest_len (e_mem s) (eff_socket_id s socket_id) align" "rlen \<noteq> 0 \<longrightarrow> 0 \<le> sid \<and> sid < int RTE_MAX_NUMA_NODES"
    using find_heap_max_eq [OF ul, of st "eff_socket_id s socket_id" align] by blast
  have env: "env_socket_id (e_env s) = - 1 \<or> env_socket_id (e_env s) < 8"
    using rq True by (auto simp: zone_any_ok_def zone_req_ok_def split: if_splits)
  have fails: "ENOSPC \<in> zone_errors" "ENAMETOOLONG \<in> zone_errors" "EEXIST \<in> zone_errors" "EINVAL \<in> zone_errors" "ENOMEM \<in> zone_errors"
    by (simp_all add: zone_errors_def)
  have up: "unat (ucast bound :: u64) = unat bound"
    using unat_lt_pow [of bound] by (simp add: unsigned_ucast_eq take_bit_nat_eq_self)
  have ual: "unat (zone_align align) = max 64 (unat align)"
    by (auto simp: zone_align_def RTE_CACHE_LINE_SIZE_def word_less_nat_alt max_def)
  have len_b: "bound \<noteq> 0 \<Longrightarrow> (ucast bound :: u64) \<noteq> 0 \<and> unat (ucast bound :: u64) + 63 + max 64 (unat align) + unat bound \<le> lim \<and> lim < 2 ^ 64"
    using rq True up by (auto simp: zone_any_ok_def zone_req_ok_def)
  have len_0: "unat rlen + 63 + max 64 (unat align) + unat bound \<le> lim \<and> lim < 2 ^ 64" if "bound = 0" "rlen \<noteq> 0"
  proof -
    have "biggest_free (e_mem s) (heaps_of (eff_socket_id s socket_id)) \<le> biggest_free (e_mem s) {..<RTE_MAX_NUMA_NODES}"
      by (rule biggest_mono) (auto simp: heaps_of_def)
    moreover have "biggest_free (e_mem s) {..<RTE_MAX_NUMA_NODES} \<le> lim" "lim < 2 ^ 64"
      using rq True that by (simp_all add: zone_any_ok_def)
    moreover have "0 < unat rlen" using that by (simp add: unat_gt_0)
    ultimately show ?thesis using f(2) that ual by (simp add: biggest_len_def)
  qed
  note name = zone_names_def RTE_MEMZONE_NAMESIZE_def
  have tail_b: "reserve_post lim s A name 0 align bound (zone_any_len s 0 socket_id align bound)
      (reserve_tail v name (ucast bound) (eff_socket_id s socket_id) (eff_socket s socket_id) flags align bound s)"
    if g: "\<not> unat (e_memzone_cnt s) \<ge> RTE_MAX_MEMZONE" "\<not> length name > RTE_MEMZONE_NAMESIZE - 1"
      "\<not> memzone_lookup_thread_unsafe name s \<noteq> None" "\<not> (align \<noteq> 0 \<and> \<not> rte_is_power_of_2 align)"
      "\<not> (bound \<noteq> 0 \<and> (RTE_CACHE_LINE_SIZE > (ucast bound :: u64) \<or> \<not> rte_is_power_of_2 bound))" "bound \<noteq> 0"
  proof -
    have "zone_any_len s 0 socket_id align bound = unat (ucast bound :: u64)" using g(6) up by (simp add: zone_any_len_def)
    then show ?thesis using g len_b by (simp only:) (intro reserve_tail_ok [OF ok]; simp add: name)
  qed
  have tail_0: "reserve_post lim s A name 0 align bound (zone_any_len s 0 socket_id align bound)
      (reserve_tail v name rlen sid sid flags align bound s)"
    if g: "\<not> unat (e_memzone_cnt s) \<ge> RTE_MAX_MEMZONE" "\<not> length name > RTE_MEMZONE_NAMESIZE - 1"
      "\<not> memzone_lookup_thread_unsafe name s \<noteq> None" "\<not> (align \<noteq> 0 \<and> \<not> rte_is_power_of_2 align)"
      "\<not> bound \<noteq> 0" "rlen \<noteq> 0"
  proof -
    have "zone_any_len s 0 socket_id align bound = unat rlen" using g(5) f(2) by (simp add: zone_any_len_def)
    then show ?thesis using g len_0 by (simp only:) (intro reserve_tail_ok [OF ok]; simp add: name)
  qed
  show ?thesis
    unfolding True reserve_zero_eq [OF env f(1,3)]
    by (intro reserve_post_if reserve_post_fail fails tail_b tail_0; assumption)
qed

end
