(* ===== verification/Memzone_Props.thy ===== *)
theory Memzone_Props
  imports Memzone_Correct Malloc_Props
begin

text \<open>
  The public functions of \<^verbatim>\<open>eal_common_memzone.c\<close>: reservation, lookup and release under the lock of
  the configuration, the directory they implement, and initialisation.
\<close>

declare of_nat_add [simp del] of_nat_diff [simp del]

section \<open>Under the lock\<close>

text \<open>No call is in progress.\<close>

definition mz_ok :: "nat \<Rightarrow> eal \<Rightarrow> (nat \<times> nat) set \<Rightarrow> bool" where
  "mz_ok lim s A \<longleftrightarrow> zones_ok lim s A \<and> rw_cnt (e_mlock s) = 0"

lemma zone_used_frame [simp]:
  "zone_used (s\<lparr>e_mlock := l\<rparr>) i = zone_used s i" "zone_used (s\<lparr>e_mem := m\<rparr>) i = zone_used s i"
  "zone_used (set_errno e s) i = zone_used s i"
  by (simp_all add: zone_used_def set_errno_def)

lemma zone_names_frame [simp]:
  "zone_names (s\<lparr>e_mlock := l\<rparr>) = zone_names s" "zone_names (s\<lparr>e_mem := m\<rparr>) = zone_names s"
  "zone_names (set_errno e s) = zone_names s"
  by (simp_all add: zone_names_def memzone_lookup_thread_unsafe_def set_errno_def fun_eq_iff)

lemma zones_ok_frame [simp]:
  "zones_ok lim (s\<lparr>e_mlock := l\<rparr>) A = zones_ok lim s A" "zones_ok lim (set_errno e s) A = zones_ok lim s A"
  by (simp_all add: zones_ok_def) (simp_all add: set_errno_def)

lemma zone_any_ok_frame [simp]: "zone_any_ok lim (s\<lparr>e_mlock := l\<rparr>) = zone_any_ok lim s"
  by (simp add: zone_any_ok_def fun_eq_iff)

lemma mlock_free:
  assumes "rw_cnt (e_mlock s) = 0"
  shows "mlock_write s = ret (s\<lparr>e_mlock := (e_mlock s)\<lparr>rw_cnt := - 1\<rparr>\<rparr>)"
    "mlock_read s = ret (s\<lparr>e_mlock := (e_mlock s)\<lparr>rw_cnt := 1\<rparr>\<rparr>)"
  using assms by (simp_all add: mlock_write_def mlock_read_def write_lock_free read_lock_free lift_opt_def)

lemma mlock_released:
  assumes "rw_cnt l = 0"
  shows "e_mlock s = l\<lparr>rw_cnt := - 1\<rparr> \<Longrightarrow> mlock_write_release s = s\<lparr>e_mlock := l\<rparr>"
    "e_mlock s = l\<lparr>rw_cnt := 1\<rparr> \<Longrightarrow> mlock_read_release s = s\<lparr>e_mlock := l\<rparr>"
  using assms by (simp_all add: mlock_write_release_def mlock_read_release_def write_unlock_held read_unlock_held)

lemma zone_fresh_lock:
  assumes "zone_fresh lim (s\<lparr>e_mlock := l\<rparr>) A name len align bound s' i"
  shows "zone_fresh lim s A name len align bound (s'\<lparr>e_mlock := e_mlock s\<rparr>) i"
proof -
  have "s' = s\<lparr>e_mlock := l, e_mem := e_mem s', e_memzone_cnt := e_memzone_cnt s', e_memzone := e_memzone s'\<rparr>"
    using assms unfolding zone_fresh_def by blast
  then have eq: "s'\<lparr>e_mlock := e_mlock s\<rparr> = s\<lparr>e_mem := e_mem s', e_memzone_cnt := e_memzone_cnt s', e_memzone := e_memzone s'\<rparr>"
    by (cases s, cases s') simp
  show ?thesis unfolding zone_fresh_def
  proof (intro conjI)
    show "s'\<lparr>e_mlock := e_mlock s\<rparr> = s\<lparr>e_mem := e_mem (s'\<lparr>e_mlock := e_mlock s\<rparr>),
        e_memzone_cnt := e_memzone_cnt (s'\<lparr>e_mlock := e_mlock s\<rparr>), e_memzone := e_memzone (s'\<lparr>e_mlock := e_mlock s\<rparr>)\<rparr>"
      using eq by simp
  qed (use assms in \<open>simp_all add: zone_fresh_def\<close>)
qed

lemma thread_safe_any_ok:
  assumes ok: "mz_ok lim s A" and rq: "zone_any_ok lim s len align bound"
  shows "\<exists>s' r. rte_memzone_reserve_thread_safe v st name len socket_id flags align bound s = ret (s', r) \<and>
    zone_post lim s A name len align bound s' r \<and>
    (\<forall>i. r = Some i \<longrightarrow> 0 < zone_any_len s len socket_id align bound \<and>
       unat (mz_len (e_memzone s' ! i)) = zone_any_len s len socket_id align bound)"
proof -
  let ?l = "(e_mlock s)\<lparr>rw_cnt := - 1\<rparr>" and ?s = "s\<lparr>e_mlock := (e_mlock s)\<lparr>rw_cnt := - 1\<rparr>\<rparr>"
  have z: "zones_ok lim ?s A" "rw_cnt (e_mlock s) = 0" using ok by (simp_all add: mz_ok_def)
  have rq': "zone_any_ok lim ?s len align bound" using rq by simp
  have zl: "zone_any_len ?s len sk align bound = zone_any_len s len sk align bound" for sk
    by (simp add: zone_any_len_def eff_socket_id_def)
  obtain s1 r where r: "memzone_reserve_aligned_thread_unsafe v st name len socket_id flags align bound ?s = ret (s1, r)"
    "zone_post lim ?s A name len align bound s1 r"
    "\<forall>i. r = Some i \<longrightarrow> 0 < zone_any_len s len socket_id align bound \<and>
       unat (mz_len (e_memzone s1 ! i)) = zone_any_len s len socket_id align bound"
    using memzone_reserve_any_ok [OF z(1) rq'] unfolding reserve_post_def zl by blast
  have lk: "e_mlock s1 = ?l"
  proof (cases r)
    case None
    then show ?thesis using r(2) by (auto simp: zone_post_def set_errno_def)
  next
    case (Some i)
    then have "s1 = ?s\<lparr>e_mem := e_mem s1, e_memzone_cnt := e_memzone_cnt s1, e_memzone := e_memzone s1\<rparr>"
      using r(2) unfolding zone_post_def zone_fresh_def by simp
    then have "e_mlock s1 = e_mlock (?s\<lparr>e_mem := e_mem s1, e_memzone_cnt := e_memzone_cnt s1, e_memzone := e_memzone s1\<rparr>)" by simp
    then show ?thesis by simp
  qed
  have "zone_post lim s A name len align bound (s1\<lparr>e_mlock := e_mlock s\<rparr>) r"
    using r(2) zone_fresh_lock by (auto simp: zone_post_def set_errno_def split: option.splits)
  then show ?thesis using r(1,3) by (simp add: rte_memzone_reserve_thread_safe_def mlock_free(1) [OF z(2)] mlock_released(1) [OF z(2) lk])
qed

lemma thread_safe_ok:
  assumes "mz_ok lim s A" "zone_req_ok lim (e_env s) len align bound"
  shows "\<exists>s' r. rte_memzone_reserve_thread_safe v st name len socket_id flags align bound s = ret (s', r) \<and>
    zone_post lim s A name len align bound s' r"
proof -
  have "len \<noteq> 0" using assms(2) by (simp add: zone_req_ok_def)
  then have "zone_any_ok lim s len align bound" using assms(2) by (simp add: zone_any_ok_def)
  then show ?thesis using thread_safe_any_ok [OF assms(1)] by blast
qed

text \<open>The configuration after a reservation, whatever its outcome.\<close>

lemma zone_post_frame:
  assumes "zone_post lim s A name len align bound s' r"
  shows "e_mlock s' = e_mlock s" "e_qlock s' = e_qlock s" "e_mplock s' = e_mplock s" "e_env s' = e_env s"
    "e_tailqs s' = e_tailqs s" "e_process_type s' = e_process_type s"
proof -
  have "e_mlock s' = e_mlock s \<and> e_qlock s' = e_qlock s \<and> e_mplock s' = e_mplock s \<and> e_env s' = e_env s \<and>
    e_tailqs s' = e_tailqs s \<and> e_process_type s' = e_process_type s"
  proof (cases r)
    case None
    then show ?thesis using assms by (auto simp: zone_post_def set_errno_def)
  next
    case (Some i)
    then have "s' = s\<lparr>e_mem := e_mem s', e_memzone_cnt := e_memzone_cnt s', e_memzone := e_memzone s'\<rparr>"
      using assms unfolding zone_post_def zone_fresh_def by simp
    then show ?thesis by (cases s, cases s') simp
  qed
  then show "e_mlock s' = e_mlock s" "e_qlock s' = e_qlock s" "e_mplock s' = e_mplock s" "e_env s' = e_env s"
    "e_tailqs s' = e_tailqs s" "e_process_type s' = e_process_type s" by simp_all
qed

lemma zone_post_ok:
  assumes "mz_ok lim s A" "zone_post lim s A name len align bound s' r"
  shows "\<exists>A'. mz_ok lim s' A' \<and> A \<subseteq> A'"
    "case r of None \<Rightarrow> zone_names s' = zone_names s | Some i \<Rightarrow> zone_names s name = None \<and> zone_names s' = (zone_names s)(name \<mapsto> i)"
proof -
  show "\<exists>A'. mz_ok lim s' A' \<and> A \<subseteq> A'"
    using assms zone_post_frame(1) [OF assms(2)]
    by (auto simp: mz_ok_def zone_post_def zone_fresh_def split: option.splits)
  show "case r of None \<Rightarrow> zone_names s' = zone_names s | Some i \<Rightarrow> zone_names s name = None \<and> zone_names s' = (zone_names s)(name \<mapsto> i)"
    using assms(2) by (auto simp: zone_post_def zone_fresh_def split: option.splits)
qed

lemma lookup_ok:
  assumes "mz_ok lim s A"
  shows "rte_memzone_lookup name s = ret (s, zone_names s name)"
proof -
  have z: "rw_cnt (e_mlock s) = 0" using assms by (simp add: mz_ok_def)
  then show ?thesis
    by (simp add: rte_memzone_lookup_def mlock_free(2) mlock_released(2) [OF z] zone_names_def memzone_lookup_thread_unsafe_def)
qed

section \<open>Release\<close>

lemma zone_removed:
  assumes ok: "zones_ok lim s A" and u: "zone_used s i" and r: "(unat (mz_addr (e_memzone s ! i)), n) \<in> A"
    and rel: "malloc_rel lim (e_mem s') (A - {(unat (mz_addr (e_memzone s ! i)), n)})"
    and s': "e_memzone s' = (e_memzone s)[i := zero_memzone]" "e_memzone_cnt s' = e_memzone_cnt s - 1"
  shows "zones_ok lim s' (A - {(unat (mz_addr (e_memzone s ! i)), n)})" "0 < unat (e_memzone_cnt s)"
    "zone_names s' = (zone_names s)(mz_name (e_memzone s ! i) := None)"
proof -
  note d = zones_okD [OF ok]
  have il: "i < length (e_memzone s)" using u by (simp add: zone_used_def)
  have used: "zone_used s' j \<longleftrightarrow> j \<noteq> i \<and> zone_used s j" for j
    using il by (auto simp: zone_used_def s' nth_list_update zero_memzone_def)
  have at: "e_memzone s' ! j = e_memzone s ! j" if "j \<noteq> i" for j
    using that by (simp add: s' nth_list_update)
  have c: "unat (e_memzone_cnt s) = Suc (card {j. zone_used s' j})"
  proof -
    have "{j. zone_used s j} = insert i {j. zone_used s' j}" using used u by auto
    moreover have "i \<notin> {j. zone_used s' j}" using used by simp
    ultimately show ?thesis using d(3) finite_used by simp
  qed
  then show pos: "0 < unat (e_memzone_cnt s)" by simp
  have cnt: "unat (e_memzone_cnt s') = card {j. zone_used s' j}"
  proof -
    have "unat (e_memzone_cnt s - 1) = unat (e_memzone_cnt s) - 1"
      using pos by (subst unat_minus_one) (auto simp: unat_gt_0)
    then show ?thesis using c s'(2) by simp
  qed
  have addr: "mz_addr (e_memzone s ! j) \<noteq> mz_addr (e_memzone s ! i)" if "zone_used s' j" for j
    using d(7) [of j i] u used that by auto
  show ok': "zones_ok lim s' (A - {(unat (mz_addr (e_memzone s ! i)), n)})"
    unfolding zones_ok_def
  proof (intro conjI allI impI)
    fix j assume j: "zone_used s' j"
    then have ju: "zone_used s j" "j \<noteq> i" using used by auto
    show "length (mz_name (e_memzone s' ! j)) < RTE_MEMZONE_NAMESIZE" using d(4) [OF ju(1)] at [OF ju(2)] by simp
    obtain k where k: "(unat (mz_addr (e_memzone s ! j)), k) \<in> A" "unat (mz_len (e_memzone s ! j)) \<le> k"
      using d(5) [OF ju(1)] by blast
    moreover have "unat (mz_addr (e_memzone s ! j)) \<noteq> unat (mz_addr (e_memzone s ! i))"
      using addr [OF j] by (simp add: word_unat_eq_iff)
    ultimately show "\<exists>k. (unat (mz_addr (e_memzone s' ! j)), k) \<in> A - {(unat (mz_addr (e_memzone s ! i)), n)} \<and>
        unat (mz_len (e_memzone s' ! j)) \<le> k" unfolding at [OF ju(2)] by blast
  next
    fix j k assume "zone_used s' j \<and> zone_used s' k \<and> mz_name (e_memzone s' ! j) = mz_name (e_memzone s' ! k)"
    then show "j = k" using d(6) used at by metis
  next
    fix j k assume "zone_used s' j \<and> zone_used s' k \<and> mz_addr (e_memzone s' ! j) = mz_addr (e_memzone s' ! k)"
    then show "j = k" using d(7) used at by metis
  qed (use rel cnt d(2) s' in simp_all)
  show "zone_names s' = (zone_names s)(mz_name (e_memzone s ! i) := None)"
  proof (rule map_eqI)
    fix nm j
    show "zone_names s' nm = Some j \<longleftrightarrow> ((zone_names s)(mz_name (e_memzone s ! i) := None)) nm = Some j"
    proof (cases "j = i")
      case True
      then show ?thesis using zone_names_iff [OF ok', of nm j] zone_names_iff [OF ok, of nm j] used by auto
    next
      case False
      then show ?thesis
        using zone_names_iff [OF ok', of nm j] zone_names_iff [OF ok, of nm j] used [of j] at [OF False] d(6) [OF _ u, of j] by auto
    qed
  qed
qed

lemma free_used:
  assumes ok: "mz_ok lim s A" and u: "zone_used s i"
  shows "\<exists>s' n. rte_memzone_free (Some i) s = ret (s', 0) \<and> (unat (mz_addr (e_memzone s ! i)), n) \<in> A \<and>
    mz_ok lim s' (A - {(unat (mz_addr (e_memzone s ! i)), n)}) \<and>
    zone_names s' = (zone_names s)(mz_name (e_memzone s ! i) := None) \<and> \<not> zone_used s' i \<and>
    (\<forall>r \<in> A - {(unat (mz_addr (e_memzone s ! i)), n)}. region_same malloc_byte (e_mem s) (e_mem s') r) \<and>
    s' = s\<lparr>e_mem := e_mem s', e_memzone_cnt := e_memzone_cnt s', e_memzone := (e_memzone s)[i := zero_memzone]\<rparr>"
proof -
  let ?a = "mz_addr (e_memzone s ! i)"
  have z: "zones_ok lim s A" and lk: "rw_cnt (e_mlock s) = 0" using ok by (simp_all add: mz_ok_def)
  obtain n where n: "(unat ?a, n) \<in> A" using zones_okD(5) [OF z u] by blast
  obtain m where m: "rte_free ?a (e_mem s) = ret m" "malloc_rel lim m (A - {(unat ?a, n)})"
    "\<forall>r \<in> A - {(unat ?a, n)}. region_same malloc_byte (e_mem s) m r"
    using rte_free_ok [OF zones_okD(1) [OF z] n] by auto
  let ?s = "s\<lparr>e_memzone := (e_memzone s)[i := zero_memzone], e_memzone_cnt := e_memzone_cnt s - 1, e_mem := m\<rparr>"
  have rm: "zones_ok lim ?s (A - {(unat ?a, n)})" "0 < unat (e_memzone_cnt s)"
    "zone_names ?s = (zone_names s)(mz_name (e_memzone s ! i) := None)"
    using zone_removed [OF z u n, of ?s] m(2) by simp_all
  have il: "i < length (e_memzone s)" "?a \<noteq> 0" using u by (simp_all add: zone_used_def)
  have cz: "e_memzone_cnt s \<noteq> 0" using rm(2) by (simp add: unat_gt_0)
  have "rte_memzone_free (Some i) s = ret (?s, 0)"
    using il cz m(1) mlock_free(1) [OF lk] lk
    by (simp add: rte_memzone_free_def Let_def eal_free_def mlock_write_release_def write_unlock_held not_le)
  moreover have "\<not> zone_used ?s i" using il by (simp add: zone_used_def zero_memzone_def)
  ultimately show ?thesis using rm(1,3) n m(3) lk by (intro exI [of _ ?s] exI [of _ n]) (simp add: mz_ok_def)
qed

lemma free_unused:
  assumes ok: "mz_ok lim s A" and i: "i < RTE_MAX_MEMZONE" "\<not> zone_used s i"
  shows "rte_memzone_free (Some i) s = ret (s, - EINVAL)"
proof -
  have lk: "rw_cnt (e_mlock s) = 0" and il: "i < length (e_memzone s)" "mz_addr (e_memzone s ! i) = 0"
    using ok i zones_okD(2) [of lim s A] by (auto simp: mz_ok_def zone_used_def)
  then show ?thesis using mlock_free(1) [OF lk]
    by (simp add: rte_memzone_free_def Let_def eal_free_def mlock_write_release_def write_unlock_held not_le rte_free_def)
qed

section \<open>The directory of zones\<close>

type_synonym zone_req = "u64 \<times> int \<times> u32 \<times> u32 \<times> u32"

text \<open>The public calls, as operations of a directory; a request is its length, socket, flags, alignment and boundary.\<close>

definition zone_add :: "(u64 \<Rightarrow> u64) \<Rightarrow> rte_malloc_socket_stats \<Rightarrow> zone_req \<Rightarrow> string \<Rightarrow> eal \<Rightarrow> (eal \<times> nat option) res" where
  "zone_add v st r name s = (case r of (len, socket_id, flags, align, bound) \<Rightarrow>
     rte_memzone_reserve_bounded v st name len socket_id flags align bound s)"

definition zone_del :: "nat \<Rightarrow> eal \<Rightarrow> eal res" where
  "zone_del i s = res_bind (rte_memzone_free (Some i) s) (\<lambda>(s, _). ret s)"

definition zone_env_ok :: "malloc_env \<Rightarrow> bool" where
  "zone_env_ok env \<longleftrightarrow> env_socket_id env = - 1 \<or> env_socket_id env < 8"

definition zone_size_ok :: "nat \<Rightarrow> zone_req \<Rightarrow> bool" where
  "zone_size_ok lim r \<longleftrightarrow> (case r of (len, socket_id, flags, align, bound) \<Rightarrow>
     len \<noteq> 0 \<and> lim < 2 ^ 64 \<and> unat len + 126 + max 64 (unat align) + unat bound \<le> lim)"

definition zone_inv :: "nat \<Rightarrow> eal \<Rightarrow> bool" where
  "zone_inv lim s \<longleftrightarrow> (\<exists>A. mz_ok lim s A) \<and> zone_env_ok (e_env s)"

lemma zone_req_ok_split:
  "zone_size_ok lim (len, socket_id, flags, align, bound) \<Longrightarrow> zone_env_ok env \<Longrightarrow> zone_req_ok lim env len align bound"
  by (simp add: zone_req_ok_def zone_size_ok_def zone_env_ok_def)

interpretation memzone: directory "zone_inv lim" zone_names "zone_add v st" rte_memzone_lookup zone_del
    "zone_size_ok lim" "\<lambda>_. True" for lim v st
proof unfold_locales
  fix s n assume "zone_inv lim s"
  then show "\<exists>s'. rte_memzone_lookup n s = ret (s', zone_names s n) \<and> zone_inv lim s' \<and> zone_names s' = zone_names s"
    using lookup_ok unfolding zone_inv_def by blast
next
  fix s r n assume s: "zone_inv lim s" and r: "zone_size_ok lim r"
  obtain len socket_id flags align bound where req: "r = (len, socket_id, flags, align, bound)" by (cases r)
  obtain A where A: "mz_ok lim s A" "zone_env_ok (e_env s)" using s by (auto simp: zone_inv_def)
  from thread_safe_ok [OF A(1) zone_req_ok_split [OF r [unfolded req] A(2)]] obtain s' h where
    h: "rte_memzone_reserve_thread_safe v st n len socket_id flags align bound s = ret (s', h)"
    "zone_post lim s A n len align bound s' h" by blast
  note post = zone_post_ok [OF A(1) h(2)]
  show "\<exists>s' h. zone_add v st r n s = ret (s', h) \<and> zone_inv lim s' \<and>
      (case h of None \<Rightarrow> zone_names s' = zone_names s | Some x \<Rightarrow> zone_names s n = None \<and> zone_names s' = (zone_names s)(n \<mapsto> x))"
    using h(1) post A(2) zone_post_frame(4) [OF h(2)] by (intro exI [of _ s'] exI [of _ h]) (auto simp: zone_add_def req rte_memzone_reserve_bounded_def zone_inv_def)
next
  fix s n x assume s: "zone_inv lim s" and n: "zone_names s n = Some x"
  obtain A where A: "mz_ok lim s A" "zone_env_ok (e_env s)" using s by (auto simp: zone_inv_def)
  have x: "zone_used s x" "mz_name (e_memzone s ! x) = n"
    using n zone_names_iff [of lim s A n x] A(1) by (auto simp: mz_ok_def)
  show "\<exists>s'. zone_del x s = ret s' \<and> zone_inv lim s' \<and> zone_names s' = (zone_names s)(n := None)"
  proof -
    obtain s' n where f: "rte_memzone_free (Some x) s = ret (s', 0)" "mz_ok lim s' (A - {(unat (mz_addr (e_memzone s ! x)), n)})"
      "zone_names s' = (zone_names s)(mz_name (e_memzone s ! x) := None)"
      "s' = s\<lparr>e_mem := e_mem s', e_memzone_cnt := e_memzone_cnt s', e_memzone := (e_memzone s)[x := zero_memzone]\<rparr>"
      using free_used [OF A(1) x(1)] by blast
    have "e_env s' = e_env s" by (subst f(4)) simp
    then show ?thesis using f(1-3) x(2) A(2) by (auto simp: zone_del_def zone_inv_def)
  qed
qed

section \<open>Initialisation\<close>

text \<open>The configuration of a primary process before initialisation: usable segments, free lock.\<close>

definition eal_boot_ok :: "nat \<Rightarrow> eal \<Rightarrow> nat \<Rightarrow> bool" where
  "eal_boot_ok lim s N \<longleftrightarrow> boot_ok lim (e_mem s) N \<and> rw_cnt (e_mlock s) = 0 \<and> e_process_type s \<noteq> RTE_PROC_SECONDARY"

lemma memzone_init_ok:
  assumes "eal_boot_ok lim s N"
  shows "\<exists>s'. rte_eal_memzone_init s = ret (s', 0) \<and> mz_ok lim s' {} \<and> zone_names s' = (\<lambda>_. None) \<and> e_env s' = e_env s"
proof -
  have b: "boot_ok lim (e_mem s) N" "rw_cnt (e_mlock s) = 0" "e_process_type s \<noteq> RTE_PROC_SECONDARY"
    using assms by (simp_all add: eal_boot_ok_def)
  let ?s = "s\<lparr>e_memzone_cnt := 0, e_memzone := replicate RTE_MAX_MEMZONE zero_memzone, e_mem := fst (rte_eal_malloc_heap_init (e_mem s))\<rparr>"
  have eq: "rte_eal_memzone_init s = ret (?s, 0)"
    using b(2,3) mlock_free(1) [OF b(2)] heap_init_rel(2) [OF b(1)]
    by (simp add: rte_eal_memzone_init_def Let_def mlock_write_release_def write_unlock_held split_beta)
  have nu: "\<not> zone_used ?s i" for i by (simp add: zone_used_def zero_memzone_def)
  then have ok: "zones_ok lim ?s {}" using heap_init_rel(1) [OF b(1)] by (simp add: zones_ok_def)
  have "zone_names ?s = (\<lambda>_. None)"
    by (rule map_eqI) (use zone_names_iff [OF ok] nu in auto)
  then show ?thesis using eq ok b(2) by (intro exI [of _ ?s]) (simp add: mz_ok_def)
qed

section \<open>A concrete configuration\<close>

definition demo_stats :: rte_malloc_socket_stats where
  "demo_stats = \<lparr>st_heap_totalsz_bytes = 0, st_heap_freesz_bytes = 0, st_greatest_free_size = 0, st_free_count = 0,
     st_alloc_count = 0, st_heap_allocsz_bytes = 0\<rparr>"

definition demo_config :: eal where
  "demo_config = \<lparr>e_mem = demo_boot, e_env = demo_env, e_mlock = \<lparr>rw_cnt = 0\<rparr>, e_qlock = \<lparr>rw_cnt = 0\<rparr>, e_mplock = \<lparr>rw_cnt = 0\<rparr>,
     e_memzone_cnt = 0, e_memzone = [], e_tailqs = demo_tailqs, e_errno = 0, e_process_type = RTE_PROC_PRIMARY\<rparr>"

definition demo_eal :: eal where
  "demo_eal = (case rte_eal_memzone_init demo_config of Some (Inr (s, _)) \<Rightarrow> s | _ \<Rightarrow> demo_config)"

lemma demo_eal_boot: "eal_boot_ok 0x10000000 demo_config 1"
  using demo_boot_ok by (simp add: eal_boot_ok_def demo_config_def)

lemma demo_eal_ok: "mz_ok 0x10000000 demo_eal {}" "zone_env_ok (e_env demo_eal)" "zone_names demo_eal = (\<lambda>_. None)"
  using memzone_init_ok [OF demo_eal_boot] by (auto simp: demo_eal_def demo_config_def demo_env_def zone_env_ok_def)

definition demo_zone_req :: zone_req where
  "demo_zone_req = (1000, 0, 0, 128, 4096)"

lemma demo_zone_size: "zone_size_ok 0x10000000 demo_zone_req"
  by (simp add: demo_zone_req_def zone_size_ok_def)

lemma demo_zone_req_ok: "zone_req_ok 0x10000000 (e_env demo_eal) 1000 128 4096"
  by (rule zone_req_ok_split [OF demo_zone_size [unfolded demo_zone_req_def] demo_eal_ok(2)])

lemma demo_eal_fields: "e_mem demo_eal = demo_heap" "e_env demo_eal = demo_env" "unat (e_memzone_cnt demo_eal) < RTE_MAX_MEMZONE"
proof -
  show "e_mem demo_eal = demo_heap" "e_env demo_eal = demo_env" "unat (e_memzone_cnt demo_eal) < RTE_MAX_MEMZONE"
    by (simp_all add: demo_eal_def demo_config_def rte_eal_memzone_init_def Let_def split_beta mlock_write_def mlock_write_release_def
        write_lock_free lift_opt_def RTE_MAX_MEMZONE_def)
qed

text \<open>A reservation that succeeds: the heap is evaluated, the table is reasoned about.\<close>

lemma demo_zone_alloc: "(case zone_alloc 0 0 1024 0 128 4096 demo_heap of Some (m, p) \<Rightarrow> p \<noteq> 0 | _ \<Rightarrow> False)"
  by code_simp

lemma demo_reserve: "\<exists>s' i. rte_memzone_reserve_bounded id demo_stats ''RG_r'' 1000 0 0 128 4096 demo_eal = ret (s', Some i)"
proof -
  have lk: "rw_cnt (e_mlock demo_eal) = 0" and z: "zones_ok 0x10000000 demo_eal {}" using demo_eal_ok(1) by (simp_all add: mz_ok_def)
  let ?s = "demo_eal\<lparr>e_mlock := (e_mlock demo_eal)\<lparr>rw_cnt := - 1\<rparr>\<rparr>"
  obtain m p where a: "zone_alloc 0 0 1024 0 128 4096 demo_heap = Some (m, p)" "p \<noteq> 0"
    using demo_zone_alloc by (auto split: option.splits)
  obtain i where i: "get_next_free_memzone demo_eal = Some i" using next_free_exists [OF z demo_eal_fields(3)] by blast
  then have i': "get_next_free_memzone (?s\<lparr>e_mem := m\<rparr>) = Some i" by (simp add: get_next_free_memzone_def)
  have look: "memzone_lookup_thread_unsafe ''RG_r'' ?s = None"
    using demo_eal_ok(3) by (simp add: zone_names_def fun_eq_iff memzone_lookup_thread_unsafe_def)
  have len: "zone_len 1000 = 1024" "zone_align 128 = 128"
    by (simp_all add: zone_len_def zone_align_def RTE_CACHE_LINE_MASK_def RTE_CACHE_LINE_SIZE_def)
  have env: "env_socket_id (e_env ?s) = - 1 \<or> env_socket_id (e_env ?s) < 8" by (simp add: demo_eal_fields demo_env_def)
  have cnt: "\<not> RTE_MAX_MEMZONE \<le> unat (e_memzone_cnt demo_eal)" using demo_eal_fields(3) by simp
  have sock: "eff_socket_id ?s 0 = 0" "eff_socket ?s 0 = 0"
    by (simp_all add: eff_socket_id_def eff_socket_def SOCKET_ID_ANY_def demo_eal_fields demo_env_def)
  have "\<exists>s'. memzone_reserve_aligned_thread_unsafe id demo_stats ''RG_r'' 1000 0 0 128 4096 ?s = ret (s', Some i)"
    using a i' look sock cnt
    by (subst reserve_eq [OF _ _ env])
      (simp_all add: reserve_tail_def len demo_eal_fields(1,2) rte_is_power_of_2_def RTE_MEMZONE_NAMESIZE_def RTE_MAX_NUMA_NODES_def
        fill_memzone_def Let_def not_le)
  then show ?thesis
    by (auto simp: rte_memzone_reserve_bounded_def rte_memzone_reserve_thread_safe_def mlock_free(1) [OF lk])
qed

text \<open>The biggest zone of the same configuration.\<close>

lemma demo_biggest: "case find_max_loop [0..<RTE_MAX_NUMA_NODES] SOCKET_ID_ANY demo_stats demo_heap 0 0 of
    Some (m, len, i) \<Rightarrow> len \<le> 0x10000000 | None \<Rightarrow> False"
  by code_simp

lemma demo_biggest_alloc: "case find_heap_max_free_elem demo_stats 0 128 demo_heap of
    Some (_, len, i) \<Rightarrow> len \<noteq> 0 \<and> i = 0 \<and> (case zone_alloc 0 0 len 0 128 0 demo_heap of Some (m, p) \<Rightarrow> p \<noteq> 0 | _ \<Rightarrow> False)
  | None \<Rightarrow> False"
  by code_simp

lemma demo_unlocked: "unlocked demo_heap"
  using demo_eal_ok(1) demo_eal_fields(1) by (simp add: mz_ok_def zones_ok_def malloc_rel_def)

lemma demo_zone_any_ok: "zone_any_ok 0x10000000 demo_eal 0 128 0"
proof -
  have H: "{i \<in> set [0..<RTE_MAX_NUMA_NODES]. SOCKET_ID_ANY = SOCKET_ID_ANY \<or> SOCKET_ID_ANY = int i} = {..<RTE_MAX_NUMA_NODES}"
    by auto
  obtain len s' where "find_max_loop [0..<RTE_MAX_NUMA_NODES] SOCKET_ID_ANY demo_stats demo_heap 0 0 = Some (demo_heap, len, s')"
    "unat len = biggest_free demo_heap {..<RTE_MAX_NUMA_NODES}"
    using find_max_loop_eq [OF demo_unlocked, of "[0..<RTE_MAX_NUMA_NODES]" SOCKET_ID_ANY demo_stats 0 0] unfolding H by auto
  then have "biggest_free demo_heap {..<RTE_MAX_NUMA_NODES} \<le> 0x10000000"
    using demo_biggest by (simp add: word_le_nat_alt)
  then show ?thesis
    using demo_eal_ok(2) demo_eal_fields(1) by (simp add: zone_any_ok_def zone_env_ok_def)
qed

lemma demo_reserve_zero: "\<exists>s' i. rte_memzone_reserve_bounded id demo_stats ''all'' 0 0 0 128 0 demo_eal = ret (s', Some i)"
proof -
  have lk: "rw_cnt (e_mlock demo_eal) = 0" and z: "zones_ok 0x10000000 demo_eal {}" using demo_eal_ok(1) by (simp_all add: mz_ok_def)
  let ?s = "demo_eal\<lparr>e_mlock := (e_mlock demo_eal)\<lparr>rw_cnt := - 1\<rparr>\<rparr>"
  have al: "zone_align 128 = 128" by (simp add: zone_align_def RTE_CACHE_LINE_SIZE_def)
  have sock: "eff_socket_id ?s 0 = 0" by (simp add: eff_socket_id_def demo_eal_fields demo_env_def)
  obtain rlen where f: "find_heap_max_free_elem demo_stats (eff_socket_id ?s 0) (zone_align 128) (e_mem ?s) = Some (e_mem ?s, rlen, 0)" "rlen \<noteq> 0"
    and fit: "case zone_alloc 0 0 rlen 0 128 0 demo_heap of Some (m, p) \<Rightarrow> p \<noteq> 0 | _ \<Rightarrow> False"
    using find_heap_max_eq [OF demo_unlocked, of demo_stats 0 128] demo_biggest_alloc
    by (auto simp: al sock demo_eal_fields split: option.splits)
  obtain m p where a: "zone_alloc 0 0 rlen 0 128 0 demo_heap = Some (m, p)" "p \<noteq> 0"
    using fit by (auto split: option.splits)
  obtain i where i: "get_next_free_memzone demo_eal = Some i" using next_free_exists [OF z demo_eal_fields(3)] by blast
  then have i': "get_next_free_memzone (?s\<lparr>e_mem := m\<rparr>) = Some i" by (simp add: get_next_free_memzone_def)
  have look: "memzone_lookup_thread_unsafe ''all'' ?s = None"
    using demo_eal_ok(3) by (simp add: zone_names_def fun_eq_iff memzone_lookup_thread_unsafe_def)
  have env: "env_socket_id (e_env ?s) = - 1 \<or> env_socket_id (e_env ?s) < 8" by (simp add: demo_eal_fields demo_env_def)
  have cnt: "\<not> RTE_MAX_MEMZONE \<le> unat (e_memzone_cnt demo_eal)" using demo_eal_fields(3) by simp
  have "\<exists>s'. memzone_reserve_aligned_thread_unsafe id demo_stats ''all'' 0 0 0 128 0 ?s = ret (s', Some i)"
    using a i' look cnt f(2)
    by (subst reserve_zero_eq [OF env f(1)])
      (simp_all add: reserve_tail_def al demo_eal_fields(1) rte_is_power_of_2_def RTE_MEMZONE_NAMESIZE_def RTE_MAX_NUMA_NODES_def
        fill_memzone_def Let_def not_le)
  then show ?thesis
    by (auto simp: rte_memzone_reserve_bounded_def rte_memzone_reserve_thread_safe_def mlock_free(1) [OF lk])
qed

section \<open>Properties\<close>

text \<open>
  C7. On a consistent configuration a reservation always returns with the lock
  released. Either it yields \<^verbatim>\<open>NULL\<close> and only \<^verbatim>\<open>rte_errno\<close> is changed, or a zone under the requested name,
  which was not in use: its memory is aligned as requested (and to a cache line), at least as long as
  requested, inside a region disjoint from all live regions, does not cross the requested boundary,
  and is zero; the contents of the live regions are kept and the configuration stays consistent. A
  zone of length 0 asked for is as long as the boundary or, if none is given, as the greatest free
  element of the allowed heaps leaves after its header and the alignment; if that leaves nothing no zone is
  made. The request, or for the biggest zone the free elements, must be within the limit \<open>lim\<close> below
  which no memory segment starts.
\<close>

theorem memzone_reserve_spec:
  assumes "mz_ok lim s A" "zone_any_ok lim s len align bound"
  shows "\<exists>s' r. rte_memzone_reserve_bounded v st name len socket_id flags align bound s = ret (s', r) \<and>
    (r = None \<longrightarrow> (\<exists>err \<in> {ENOSPC, ENAMETOOLONG, EEXIST, EINVAL, ENOMEM}. s' = set_errno err s)) \<and>
    (\<forall>i. r = Some i \<longrightarrow> zone_names s name = None \<and> zone_names s' = (zone_names s)(name \<mapsto> i) \<and>
       (\<forall>q \<in> A. region_same malloc_byte (e_mem s) (e_mem s') q) \<and>
       0 < zone_any_len s len socket_id align bound \<and>
       unat (mz_len (e_memzone s' ! i)) = zone_any_len s len socket_id align bound \<and>
       (\<exists>z n. e_memzone s' = (e_memzone s)[i := z] \<and> mz_name z = name \<and>
          mz_ok lim s' (insert (unat (mz_addr z), n) A) \<and> (unat (mz_addr z), n) \<notin> A \<and>
          unat len \<le> unat (mz_len z) \<and> unat (mz_len z) \<le> n \<and>
          64 dvd unat (mz_addr z) \<and> (align \<noteq> 0 \<longrightarrow> unat align dvd unat (mz_addr z)) \<and>
          (bound \<noteq> 0 \<longrightarrow> unat (mz_addr z) div unat bound = (unat (mz_addr z) + unat (mz_len z) - 1) div unat bound) \<and>
          (\<forall>y. unat (mz_addr z) \<le> y \<and> y < unat (mz_addr z) + unat (mz_len z) \<longrightarrow> m_byte (e_mem s') (of_nat y) = Some 0)))"
proof -
  from thread_safe_any_ok [OF assms] obtain s' r where
    r: "rte_memzone_reserve_thread_safe v st name len socket_id flags align bound s = ret (s', r)"
    "zone_post lim s A name len align bound s' r"
    "\<forall>i. r = Some i \<longrightarrow> 0 < zone_any_len s len socket_id align bound \<and>
       unat (mz_len (e_memzone s' ! i)) = zone_any_len s len socket_id align bound" by blast
  have lk: "rw_cnt (e_mlock s') = 0" using zone_post_ok(1) [OF assms(1) r(2)] by (auto simp: mz_ok_def)
  show ?thesis
  proof (cases r)
    case None
    then show ?thesis using r by (auto simp: rte_memzone_reserve_bounded_def zone_post_def zone_errors_def)
  next
    case (Some i)
    then have f: "zone_fresh lim s A name len align bound s' i" using r(2) by (simp add: zone_post_def)
    show ?thesis
      by (rule exI [of _ s'], rule exI [of _ "Some i"])
        (use r(1,3) Some lk f in \<open>auto simp: rte_memzone_reserve_bounded_def zone_fresh_def mz_ok_def\<close>)
  qed
qed

theorem memzone_reserve_spec_witness:
  "\<exists>s' i z. rte_memzone_reserve_bounded id demo_stats ''all'' 0 0 0 128 0 demo_eal = ret (s', Some i) \<and>
    zone_names s' ''all'' = Some i \<and> e_memzone s' = (e_memzone demo_eal)[i := z] \<and>
    unat (mz_len (e_memzone s' ! i)) = biggest_len (e_mem demo_eal) 0 128 \<and> 128 dvd unat (mz_addr z)"
proof -
  have any: "zone_any_ok 0x10000000 demo_eal 0 128 0" by (rule demo_zone_any_ok)
  have len: "zone_any_len demo_eal 0 0 128 0 = biggest_len (e_mem demo_eal) 0 128"
    by (simp add: zone_any_len_def eff_socket_id_def demo_eal_fields demo_env_def)
  obtain s' i where a: "rte_memzone_reserve_bounded id demo_stats ''all'' 0 0 0 128 0 demo_eal = ret (s', Some i)"
    using demo_reserve_zero by blast
  then show ?thesis
    using memzone_reserve_spec [OF demo_eal_ok(1) any, of id demo_stats "''all''" 0 0] len by auto
qed

text \<open>
  The first error codes of a reservation, in the order in which the code tests
  for them: no descriptor left, a name of 32 characters or more, a name in use, an alignment that is
  not a power of two. Nothing but \<^verbatim>\<open>rte_errno\<close> changes, whatever the other arguments are.
\<close>

theorem memzone_reserve_errors:
  assumes "mz_ok lim s A"
    "\<not> unat (e_memzone_cnt s) < 2560 \<or> 32 \<le> length name \<or> zone_names s name \<noteq> None \<or> align \<noteq> 0 \<and> \<not> rte_is_power_of_2 align"
  shows "rte_memzone_reserve_bounded v st name len socket_id flags align bound s = ret (set_errno
      (if \<not> unat (e_memzone_cnt s) < 2560 then ENOSPC
       else if 32 \<le> length name then ENAMETOOLONG
       else if zone_names s name \<noteq> None then EEXIST
       else EINVAL) s, None)"
proof -
  let ?l = "(e_mlock s)\<lparr>rw_cnt := - 1\<rparr>" and ?s = "s\<lparr>e_mlock := (e_mlock s)\<lparr>rw_cnt := - 1\<rparr>\<rparr>"
  let ?e = "if \<not> unat (e_memzone_cnt s) < 2560 then ENOSPC else if 32 \<le> length name then ENAMETOOLONG
       else if zone_names s name \<noteq> None then EEXIST else EINVAL"
  have lk: "rw_cnt (e_mlock s) = 0" using assms(1) by (simp add: mz_ok_def)
  have look: "memzone_lookup_thread_unsafe name ?s = zone_names s name"
    by (simp add: zone_names_def memzone_lookup_thread_unsafe_def)
  have "memzone_reserve_aligned_thread_unsafe v st name len socket_id flags align bound ?s = ret (set_errno ?e ?s, None)"
    using assms(2) unfolding memzone_reserve_aligned_thread_unsafe_def look
    by (auto simp: fail_zone_def RTE_MAX_MEMZONE_def RTE_MEMZONE_NAMESIZE_def)
  moreover have "mlock_write_release (set_errno ?e ?s) = set_errno ?e s"
    using mlock_released(1) [OF lk, of "set_errno ?e ?s"] by (simp add: set_errno_def)
  ultimately show ?thesis
    by (simp add: rte_memzone_reserve_bounded_def rte_memzone_reserve_thread_safe_def mlock_free(1) [OF lk])
qed

theorem memzone_reserve_errors_witness:
  "rte_memzone_reserve_bounded id demo_stats (replicate 32 CHR ''a'') 1000 0 0 128 4096 demo_eal =
     ret (set_errno ENAMETOOLONG demo_eal, None)"
proof -
  have "unat (e_memzone_cnt demo_eal) = card {i. zone_used demo_eal i}"
    using demo_eal_ok(1) zones_okD(3) by (auto simp: mz_ok_def)
  moreover have "{i. zone_used demo_eal i} = {}"
    using zone_names_iff [OF conjunct1 [OF demo_eal_ok(1) [unfolded mz_ok_def]]] demo_eal_ok(3) by auto
  ultimately have "unat (e_memzone_cnt demo_eal) < 2560" by simp
  then show ?thesis
    using memzone_reserve_errors [OF demo_eal_ok(1), where name = "replicate 32 CHR ''a''"] by simp
qed

text \<open>
  C11. Releasing a zone in use succeeds: exactly its region of the heap is released, its
  name is free again, the other zones and the contents of the other regions are kept. Releasing it a
  second time, like releasing any descriptor that is not in use, returns \<^verbatim>\<open>-EINVAL\<close> and changes nothing.
\<close>

theorem memzone_free_spec:
  assumes "mz_ok lim s A" "zone_names s name = Some i"
  shows "\<exists>s' n. rte_memzone_free (Some i) s = ret (s', 0) \<and> (unat (mz_addr (e_memzone s ! i)), n) \<in> A \<and>
    mz_ok lim s' (A - {(unat (mz_addr (e_memzone s ! i)), n)}) \<and> zone_names s' = (zone_names s)(name := None) \<and>
    (\<forall>q \<in> A - {(unat (mz_addr (e_memzone s ! i)), n)}. region_same malloc_byte (e_mem s) (e_mem s') q) \<and>
    rte_memzone_lookup name s' = ret (s', None) \<and> rte_memzone_free (Some i) s' = ret (s', - EINVAL)"
proof -
  have z: "zones_ok lim s A" using assms(1) by (simp add: mz_ok_def)
  have u: "zone_used s i" "mz_name (e_memzone s ! i) = name" using assms(2) zone_names_iff [OF z] by auto
  obtain s' n where f: "rte_memzone_free (Some i) s = ret (s', 0)" "(unat (mz_addr (e_memzone s ! i)), n) \<in> A"
    "mz_ok lim s' (A - {(unat (mz_addr (e_memzone s ! i)), n)})" "zone_names s' = (zone_names s)(name := None)" "\<not> zone_used s' i"
    "\<forall>q \<in> A - {(unat (mz_addr (e_memzone s ! i)), n)}. region_same malloc_byte (e_mem s) (e_mem s') q"
    using free_used [OF assms(1) u(1)] u(2) by blast
  have "i < RTE_MAX_MEMZONE" using u(1) zones_okD(2) [OF z] by (simp add: zone_used_def)
  then show ?thesis using f lookup_ok [OF f(3), of name] free_unused [OF f(3) _ f(5)]
    by (intro exI [of _ s'] exI [of _ n]) simp
qed

theorem memzone_free_spec_witness:
  "\<exists>s' i s''. rte_memzone_reserve_bounded id demo_stats ''RG_r'' 1000 0 0 128 4096 demo_eal = ret (s', Some i) \<and>
     rte_memzone_free (Some i) s' = ret (s'', 0) \<and> rte_memzone_free (Some i) s'' = ret (s'', - EINVAL)"
proof -
  obtain s' i where a: "rte_memzone_reserve_bounded id demo_stats ''RG_r'' 1000 0 0 128 4096 demo_eal = ret (s', Some i)"
    using demo_reserve by blast
  then have post: "zone_post 0x10000000 demo_eal {} ''RG_r'' 1000 128 4096 s' (Some i)"
    using thread_safe_ok [OF demo_eal_ok(1) demo_zone_req_ok, of id demo_stats "''RG_r''" 0 0]
    by (auto simp: rte_memzone_reserve_bounded_def)
  obtain A where "mz_ok 0x10000000 s' A" "zone_names s' ''RG_r'' = Some i"
    using zone_post_ok [OF demo_eal_ok(1) post] by auto
  from memzone_free_spec [OF this] a show ?thesis by blast
qed

text \<open>
  C9. After \<^verbatim>\<open>rte_eal_memzone_init\<close>, any sequence of reservations and releases by name
  runs to its end, without panic and without blocking; the names then found by lookup are those that
  follow from the answers the calls gave, and no two names denote the same zone.
\<close>

theorem memzone_directory:
  assumes boot: "eal_boot_ok lim s N" "zone_env_ok (e_env s)"
    and ops: "\<forall>op \<in> set ops. dir_op_ok (zone_size_ok lim) (\<lambda>_. True) op"
  shows "\<exists>s0 s' hs. rte_eal_memzone_init s = ret (s0, 0) \<and>
    dir_run (zone_add v st) rte_memzone_lookup zone_del ops s0 = ret (s', hs) \<and> length hs = length ops \<and>
    (\<forall>name. rte_memzone_lookup name s' = ret (s', replay ops hs (\<lambda>_. None) name)) \<and>
    inj_on (replay ops hs (\<lambda>_. None)) (dom (replay ops hs (\<lambda>_. None)))"
proof -
  obtain s0 where i: "rte_eal_memzone_init s = ret (s0, 0)" "mz_ok lim s0 {}" "zone_names s0 = (\<lambda>_. None)" "e_env s0 = e_env s"
    using memzone_init_ok [OF boot(1)] by blast
  then have "zone_inv lim s0" using boot(2) by (auto simp: zone_inv_def)
  from memzone.run_replay [OF this ops] obtain s' hs where
    r: "dir_run (zone_add v st) rte_memzone_lookup zone_del ops s0 = ret (s', hs)" "length hs = length ops"
    "zone_inv lim s'" "zone_names s' = replay ops hs (\<lambda>_. None)" unfolding i(3) by blast
  have "inj_on (zone_names s') (dom (zone_names s'))"
    using memzone.names_inj [OF r(3)] by (auto simp: inj_on_def)
  moreover have "rte_memzone_lookup name s' = ret (s', zone_names s' name)" for name
    using r(3) lookup_ok by (auto simp: zone_inv_def)
  ultimately show ?thesis using i(1) r(1,2) unfolding r(4) by blast
qed

theorem memzone_directory_witness:
  "\<exists>s0 s' hs. rte_eal_memzone_init demo_config = ret (s0, 0) \<and>
    dir_run (zone_add id demo_stats) rte_memzone_lookup zone_del
      [Add demo_zone_req ''a'', Add demo_zone_req ''b'', Del ''a''] s0 = ret (s', hs) \<and>
    rte_memzone_lookup ''a'' s' = ret (s', None)"
proof -
  let ?ops = "[Add demo_zone_req ''a'', Add demo_zone_req ''b'', Del ''a'']"
  obtain s0 s' hs where r: "rte_eal_memzone_init demo_config = ret (s0, 0)"
    "dir_run (zone_add id demo_stats) rte_memzone_lookup zone_del ?ops s0 = ret (s', hs)" "length hs = length ?ops"
    "rte_memzone_lookup ''a'' s' = ret (s', replay ?ops hs (\<lambda>_. None) ''a'')"
    using memzone_directory [OF demo_eal_boot, of ?ops id demo_stats] demo_zone_size
    by (auto simp: demo_config_def demo_env_def zone_env_ok_def)
  obtain h1 h2 h3 where hs: "hs = [h1, h2, h3]" using r(3) by (auto simp: length_Suc_conv)
  have "replay ?ops hs (\<lambda>_. None) ''a'' = None" unfolding hs by (cases h1; cases h2) simp_all
  then show ?thesis using r by auto
qed

end
