(* ===== verification/Ring_Registry.thy ===== *)
theory Ring_Registry
  imports Ring_Queue Memzone_Props
begin

text \<open>
  Creation, lookup and release of rings, \<^verbatim>\<open>librte_ring/rte_ring.c\<close>: a ring lives in a memory zone of its
  own and is entered in the tail queue of rings. The rings are the objects in a store indexed by their
  addresses; a pointer is the address, 0 is \<^verbatim>\<open>NULL\<close>.
\<close>

declare of_nat_add [simp del] of_nat_diff [simp del]

section \<open>Operations\<close>

record rings =
  rs_eal :: eal
  rs_ring :: "u64 \<Rightarrow> u64 rte_ring option"

text \<open>The element \<^verbatim>\<open>rte_ring_tailq\<close>, by its place among the registered elements.\<close>

definition rte_ring_tailq :: nat where "rte_ring_tailq = 0"

definition RTE_TAILQ_CAST :: "nat \<Rightarrow> eal \<Rightarrow> nat option" where
  "RTE_TAILQ_CAST t s = tl_head (tq_elem (e_tailqs s) t)"

text \<open>The entries of a queue; to follow a \<^verbatim>\<open>NULL\<close> head, or one outside the table, is a fault.\<close>

definition tailq_entries :: "nat \<Rightarrow> eal \<Rightarrow> rte_tailq_entry list res" where
  "tailq_entries t s = (case RTE_TAILQ_CAST t s of
     None \<Rightarrow> abort ''NULL tailq head''
   | Some i \<Rightarrow> if i < length (tq_heads (e_tailqs s)) then ret (th_entries (tq_heads (e_tailqs s) ! i))
      else abort ''NULL tailq head'')"

definition set_tailq_entries :: "nat \<Rightarrow> rte_tailq_entry list \<Rightarrow> eal \<Rightarrow> eal" where
  "set_tailq_entries t es s = (case RTE_TAILQ_CAST t s of
     None \<Rightarrow> s
   | Some i \<Rightarrow> s\<lparr>e_tailqs := (e_tailqs s)\<lparr>tq_heads := (tq_heads (e_tailqs s))[i := (tq_heads (e_tailqs s) ! i)\<lparr>th_entries := es\<rparr>]\<rparr>\<rparr>)"

definition TAILQ_INSERT_TAIL :: "nat \<Rightarrow> rte_tailq_entry \<Rightarrow> eal \<Rightarrow> eal res" where
  "TAILQ_INSERT_TAIL t te s = res_bind (tailq_entries t s) (\<lambda>es. ret (set_tailq_entries t (es @ [te]) s))"

definition qlock_write :: "eal \<Rightarrow> eal res" where
  "qlock_write s = lift_opt (map_option (\<lambda>l. s\<lparr>e_qlock := l\<rparr>) (rte_rwlock_write_lock (e_qlock s)))"

definition qlock_write_release :: "eal \<Rightarrow> eal" where
  "qlock_write_release s = s\<lparr>e_qlock := rte_rwlock_write_unlock (e_qlock s)\<rparr>"

definition qlock_read :: "eal \<Rightarrow> eal res" where
  "qlock_read s = lift_opt (map_option (\<lambda>l. s\<lparr>e_qlock := l\<rparr>) (rte_rwlock_read_lock (e_qlock s)))"

definition qlock_read_release :: "eal \<Rightarrow> eal" where
  "qlock_read_release s = s\<lparr>e_qlock := rte_rwlock_read_unlock (e_qlock s)\<rparr>"

definition eal_zmalloc :: "u64 \<Rightarrow> u32 \<Rightarrow> eal \<Rightarrow> (eal \<times> u64) res" where
  "eal_zmalloc sz align s = res_bind (rte_zmalloc (e_env s) sz align (e_mem s)) (\<lambda>(m, p). ret (s\<lparr>e_mem := m\<rparr>, p))"

text \<open>\<^verbatim>\<open>sizeof(struct rte_tailq_entry)\<close>: two links and a pointer; \<^verbatim>\<open>__alignof__(struct rte_ring)\<close>: two cache lines.\<close>

definition SIZEOF_TAILQ_ENTRY :: u64 where "SIZEOF_TAILQ_ENTRY = 24"
definition ALIGNOF_RTE_RING :: u32 where "ALIGNOF_RTE_RING = 128"

text \<open>
  \<^verbatim>\<open>rte_ring_create\<close>. The memory of a new zone is zero, so the object table behind the structure starts
  with null pointers; it is kept with the ring and not in the heap, and the zone has room for it
  (\<open>ring_memsize_bounds\<close>). \<open>r_memzone\<close> holds the index of the descriptor.
\<close>

definition rte_ring_create ::
    "(u64 \<Rightarrow> u64) \<Rightarrow> rte_malloc_socket_stats \<Rightarrow> string \<Rightarrow> u32 \<Rightarrow> int \<Rightarrow> u32 \<Rightarrow> rings \<Rightarrow> (rings \<times> u64) res" where
  "rte_ring_create virt2iova st name count socket_id flags s =
     (let requested_count = count;
          count = (if flags AND RING_F_EXACT_SZ \<noteq> 0 then rte_align32pow2 (count + 1) else count)
      in case rte_ring_get_memsize count of
        Inl err \<Rightarrow> ret (s\<lparr>rs_eal := set_errno err (rs_eal s)\<rparr>, 0)
      | Inr ring_size \<Rightarrow>
          let (mz_name, n) = snprintf_str RTE_MEMZONE_NAMESIZE (RTE_RING_MZ_PREFIX @ name)
          in if n < 0 \<or> n \<ge> int RTE_MEMZONE_NAMESIZE then ret (s\<lparr>rs_eal := set_errno ENAMETOOLONG (rs_eal s)\<rparr>, 0)
          else res_bind (eal_zmalloc SIZEOF_TAILQ_ENTRY 0 (rs_eal s)) (\<lambda>(e, te).
            if te = 0 then ret (s\<lparr>rs_eal := set_errno ENOMEM e\<rparr>, 0)
            else res_bind (qlock_write e) (\<lambda>e.
              res_bind (rte_memzone_reserve_aligned virt2iova st mz_name ring_size socket_id 0 ALIGNOF_RTE_RING e) (\<lambda>(e, mz).
                case mz of
                  Some i \<Rightarrow>
                    let r = mz_addr (e_memzone e ! i);
                        ring = fst (rte_ring_init (zero_ring (replicate (unat count) 0)) name requested_count flags)
                    in res_bind (TAILQ_INSERT_TAIL rte_ring_tailq \<lparr>te_addr = te, te_data = r\<rparr> e) (\<lambda>e.
                       ret (s\<lparr>rs_eal := qlock_write_release e,
                              rs_ring := (rs_ring s)(r := Some (ring\<lparr>r_memzone := Some (of_nat i)\<rparr>))\<rparr>, r))
                | None \<Rightarrow> res_bind (eal_free te e) (\<lambda>e. ret (s\<lparr>rs_eal := qlock_write_release e\<rparr>, 0))))))"

text \<open>
  \<^verbatim>\<open>rte_ring_free\<close>. The structure is gone with its zone; a pointer to no ring is a dangling pointer.
\<close>

definition rte_ring_free :: "u64 \<Rightarrow> rings \<Rightarrow> rings res" where
  "rte_ring_free r s =
     (if r = 0 then ret s
      else case rs_ring s r of
        None \<Rightarrow> abort ''dangling ring pointer''
      | Some ring \<Rightarrow> (case r_memzone ring of
          None \<Rightarrow> ret s
        | Some mz \<Rightarrow> res_bind (rte_memzone_free (Some (unat mz)) (rs_eal s)) (\<lambda>(e, err).
            if err \<noteq> 0 then ret (s\<lparr>rs_eal := e\<rparr>)
            else
              let s = s\<lparr>rs_ring := (rs_ring s)(r := None)\<rparr>
              in res_bind (qlock_write e) (\<lambda>e. res_bind (tailq_entries rte_ring_tailq e) (\<lambda>es.
                case first_index (\<lambda>te. te_data te = r) es of
                  None \<Rightarrow> ret (s\<lparr>rs_eal := qlock_write_release e\<rparr>)
                | Some k \<Rightarrow>
                    let e = set_tailq_entries rte_ring_tailq (take k es @ drop (Suc k) es) e
                    in res_bind (eal_free (te_addr (es ! k)) (qlock_write_release e)) (\<lambda>e. ret (s\<lparr>rs_eal := e\<rparr>)))))))"

text \<open>
  \<^verbatim>\<open>rte_ring_lookup\<close>: the loop stops at the first entry whose ring has the name. Every entry passed is
  read, so an entry without a ring is a fault.
\<close>

fun ring_find :: "string \<Rightarrow> (u64 \<Rightarrow> u64 rte_ring option) \<Rightarrow> rte_tailq_entry list \<Rightarrow> u64 option res" where
  "ring_find name rs [] = ret None"
| "ring_find name rs (te # es) = (case rs (te_data te) of
     None \<Rightarrow> abort ''dangling ring pointer''
   | Some r \<Rightarrow> if strneq RTE_RING_NAMESIZE name (r_name r) then ret (Some (te_data te)) else ring_find name rs es)"

definition rte_ring_lookup :: "string \<Rightarrow> rings \<Rightarrow> (rings \<times> u64) res" where
  "rte_ring_lookup name s =
     res_bind (qlock_read (rs_eal s)) (\<lambda>e. res_bind (tailq_entries rte_ring_tailq e) (\<lambda>es.
     res_bind (ring_find name (rs_ring s) es) (\<lambda>r.
       let e = qlock_read_release e
       in case r of None \<Rightarrow> ret (s\<lparr>rs_eal := set_errno ENOENT e\<rparr>, 0)
          | Some r \<Rightarrow> ret (s\<lparr>rs_eal := e\<rparr>, r))))"

text \<open>The lines that \<^verbatim>\<open>rte_ring_dump\<close> prints, as labels and values.\<close>

definition rte_ring_dump :: "u64 \<Rightarrow> 'o rte_ring \<Rightarrow> string \<times> u64 \<times> (string \<times> u32) list" where
  "rte_ring_dump p r = (r_name r, p,
     [(''flags'', r_flags r), (''size'', r_size r), (''capacity'', r_capacity r),
      (''ct'', ht_tail (r_cons r)), (''ch'', ht_head (r_cons r)),
      (''pt'', ht_tail (r_prod r)), (''ph'', ht_head (r_prod r)),
      (''used'', rte_ring_count r), (''avail'', rte_ring_free_count r)])"

definition rte_ring_list_dump :: "rings \<Rightarrow> (rings \<times> (string \<times> u64 \<times> (string \<times> u32) list) list) res" where
  "rte_ring_list_dump s =
     res_bind (qlock_read (rs_eal s)) (\<lambda>e. res_bind (tailq_entries rte_ring_tailq e) (\<lambda>es.
       if \<exists>te \<in> set es. rs_ring s (te_data te) = None then abort ''dangling ring pointer''
       else ret (s\<lparr>rs_eal := qlock_read_release e\<rparr>,
         map (\<lambda>te. rte_ring_dump (te_data te) (the (rs_ring s (te_data te)))) es)))"

end
