(* ===== verification/Ring_Registry_Correct.thy ===== *)
theory Ring_Registry_Correct
  imports Ring_Registry
begin

text \<open>
  The tail queue of rings, the memory zones and the heaps stay consistent, and creation, lookup and
  release implement a directory of rings.
\<close>

declare of_nat_add [simp del] of_nat_diff [simp del]

section \<open>Invariant\<close>

text \<open>
  An entry of the queue: it has a region of its own, its ring lives in a zone named after it.
\<close>

definition te_ok :: "(nat \<times> nat) set \<Rightarrow> eal \<Rightarrow> (u64 \<Rightarrow> u64 rte_ring option) \<Rightarrow> rte_tailq_entry \<Rightarrow> bool" where
  "te_ok A e rs te \<longleftrightarrow> (\<exists>n. (unat (te_addr te), n) \<in> A) \<and>
     (\<forall>i. zone_used e i \<longrightarrow> mz_addr (e_memzone e ! i) \<noteq> te_addr te) \<and>
     (\<exists>r i. rs (te_data te) = Some r \<and> r_memzone r = Some (of_nat i) \<and> zone_used e i \<and>
        mz_addr (e_memzone e ! i) = te_data te \<and> mz_name (e_memzone e ! i) = RTE_RING_MZ_PREFIX @ r_name r)"

definition rings_ok :: "nat \<Rightarrow> rings \<Rightarrow> (nat \<times> nat) set \<Rightarrow> rte_tailq_entry list \<Rightarrow> bool" where
  "rings_ok lim s A es \<longleftrightarrow> mz_ok lim (rs_eal s) A \<and> rw_cnt (e_qlock (rs_eal s)) = 0 \<and>
     tailq_entries rte_ring_tailq (rs_eal s) = ret es \<and> distinct (map te_data es) \<and> distinct (map te_addr es) \<and>
     (\<forall>te \<in> set es. te_ok A (rs_eal s) (rs_ring s) te)"

lemma rings_okD:
  assumes "rings_ok lim s A es"
  shows "mz_ok lim (rs_eal s) A" "zones_ok lim (rs_eal s) A" "rw_cnt (e_mlock (rs_eal s)) = 0" "rw_cnt (e_qlock (rs_eal s)) = 0"
    "tailq_entries rte_ring_tailq (rs_eal s) = ret es" "distinct (map te_data es)" "distinct (map te_addr es)"
    "\<And>te. te \<in> set es \<Longrightarrow> te_ok A (rs_eal s) (rs_ring s) te"
  using assms by (simp_all add: rings_ok_def mz_ok_def)

definition ring_names :: "rings \<Rightarrow> string \<rightharpoonup> u64" where
  "ring_names s n = (case tailq_entries rte_ring_tailq (rs_eal s) of
     Some (Inr es) \<Rightarrow> (case ring_find n (rs_ring s) es of Some (Inr r) \<Rightarrow> r | _ \<Rightarrow> None) | _ \<Rightarrow> None)"

lemma ring_name_short:
  assumes "zones_ok lim e A" "te_ok A e rs te" "rs (te_data te) = Some r"
  shows "length (r_name r) < RTE_RING_NAMESIZE"
  using assms zones_okD(4) [OF assms(1)]
  by (fastforce simp: te_ok_def RTE_RING_NAMESIZE_def RTE_MEMZONE_NAMESIZE_def RTE_RING_MZ_PREFIX_def)

text \<open>Two entries never have rings of the same name.\<close>

lemma te_name_inj:
  assumes "zones_ok lim e A" "te_ok A e rs te" "te_ok A e rs te'" "rs (te_data te) = Some r" "rs (te_data te') = Some r'"
    "r_name r = r_name r'"
  shows "te_data te = te_data te'"
proof -
  obtain i where i: "zone_used e i" "mz_addr (e_memzone e ! i) = te_data te" "mz_name (e_memzone e ! i) = RTE_RING_MZ_PREFIX @ r_name r"
    using assms(2,4) by (auto simp: te_ok_def)
  obtain j where j: "zone_used e j" "mz_addr (e_memzone e ! j) = te_data te'" "mz_name (e_memzone e ! j) = RTE_RING_MZ_PREFIX @ r_name r'"
    using assms(3,5) by (auto simp: te_ok_def)
  have "i = j" using zones_okD(6) [OF assms(1) i(1) j(1)] i(3) j(3) assms(6) by simp
  then show ?thesis using i j by simp
qed

lemma ring_find_iff:
  assumes z: "zones_ok lim e A" and es: "\<And>te. te \<in> set es \<Longrightarrow> te_ok A e rs te"
  shows "\<exists>x. ring_find n rs es = ret x \<and>
    (\<forall>a. x = Some a \<longleftrightarrow> (\<exists>te \<in> set es. te_data te = a \<and> (\<exists>r. rs a = Some r \<and> r_name r = n)))"
  using es
proof (induction es)
  case (Cons te es)
  have t: "te_ok A e rs te" using Cons.prems by simp
  then obtain r where r: "rs (te_data te) = Some r" by (auto simp: te_ok_def)
  have sn: "strneq RTE_RING_NAMESIZE n (r_name r) \<longleftrightarrow> n = r_name r"
    using ring_name_short [OF z t r] by (simp add: strneq_bounded)
  show ?case
  proof (cases "n = r_name r")
    case True
    have "te_data te' = te_data te" if "te' \<in> set es" "rs (te_data te') = Some r'" "r_name r' = n" for te' r'
      using te_name_inj [OF z, of rs te' te r' r] Cons.prems t r that True by auto
    then show ?thesis using True r sn by auto
  next
    case False
    then show ?thesis using Cons.IH Cons.prems r sn by auto
  qed
qed simp

lemma ring_names_iff:
  assumes ok: "rings_ok lim s A es"
  shows "ring_names s n = Some a \<longleftrightarrow> (\<exists>te \<in> set es. te_data te = a \<and> (\<exists>r. rs_ring s a = Some r \<and> r_name r = n))"
    "ring_find n (rs_ring s) es = ret (ring_names s n)"
proof -
  note d = rings_okD [OF ok]
  obtain x where x: "ring_find n (rs_ring s) es = ret x"
    "\<And>a. x = Some a \<longleftrightarrow> (\<exists>te \<in> set es. te_data te = a \<and> (\<exists>r. rs_ring s a = Some r \<and> r_name r = n))"
    using ring_find_iff [OF d(2) d(8)] by blast
  have "ring_names s n = x" by (simp add: ring_names_def d(5) x(1))
  then show "ring_names s n = Some a \<longleftrightarrow> (\<exists>te \<in> set es. te_data te = a \<and> (\<exists>r. rs_ring s a = Some r \<and> r_name r = n))"
    "ring_find n (rs_ring s) es = ret (ring_names s n)" using x by simp_all
qed

section \<open>Frames\<close>

lemma te_ok_cong:
  assumes "te_ok A e rs te" "e_memzone e' = e_memzone e"
  shows "te_ok A e' rs te"
  using assms by (simp add: te_ok_def zone_used_def)

lemma tailq_entries_cong: "e_tailqs e' = e_tailqs e \<Longrightarrow> tailq_entries t e' = tailq_entries t e"
  by (simp add: tailq_entries_def RTE_TAILQ_CAST_def split: option.split)

lemma tailq_entries_set:
  assumes "tailq_entries t e = ret es"
  shows "tailq_entries t (set_tailq_entries t es' e) = ret es'"
  using assms by (auto simp: tailq_entries_def set_tailq_entries_def RTE_TAILQ_CAST_def split: option.splits if_splits)

lemma set_tailq_entries_frame [simp]:
  "e_mem (set_tailq_entries t es e) = e_mem e" "e_memzone (set_tailq_entries t es e) = e_memzone e"
  "e_memzone_cnt (set_tailq_entries t es e) = e_memzone_cnt e" "e_qlock (set_tailq_entries t es e) = e_qlock e"
  "e_mlock (set_tailq_entries t es e) = e_mlock e" "e_env (set_tailq_entries t es e) = e_env e"
  by (simp_all add: set_tailq_entries_def split: option.splits)

text \<open>The zones only depend on the heap and on the table.\<close>

lemma zones_ok_cong:
  assumes "zones_ok lim e A" "e_memzone e' = e_memzone e" "e_memzone_cnt e' = e_memzone_cnt e"
    "malloc_rel lim (e_mem e') A'" "\<And>i n. zone_used e i \<Longrightarrow> (unat (mz_addr (e_memzone e ! i)), n) \<in> A \<Longrightarrow> (unat (mz_addr (e_memzone e ! i)), n) \<in> A'"
  shows "zones_ok lim e' A'"
proof -
  have u: "zone_used e' i = zone_used e i" for i using assms(2) by (simp add: zone_used_def)
  show ?thesis using assms unfolding zones_ok_def u assms(2,3) by blast
qed

lemma qlock_free:
  assumes "rw_cnt (e_qlock e) = 0"
  shows "qlock_write e = ret (e\<lparr>e_qlock := (e_qlock e)\<lparr>rw_cnt := - 1\<rparr>\<rparr>)"
    "qlock_read e = ret (e\<lparr>e_qlock := (e_qlock e)\<lparr>rw_cnt := 1\<rparr>\<rparr>)"
  using assms by (simp_all add: qlock_write_def qlock_read_def write_lock_free read_lock_free lift_opt_def)

lemma qlock_released:
  assumes "rw_cnt l = 0"
  shows "e_qlock e = l\<lparr>rw_cnt := - 1\<rparr> \<Longrightarrow> qlock_write_release e = e\<lparr>e_qlock := l\<rparr>"
    "e_qlock e = l\<lparr>rw_cnt := 1\<rparr> \<Longrightarrow> qlock_read_release e = e\<lparr>e_qlock := l\<rparr>"
  using assms by (simp_all add: qlock_write_release_def qlock_read_release_def write_unlock_held read_unlock_held)

section \<open>Lookup\<close>

lemma ring_lookup_ok:
  assumes ok: "rings_ok lim s A es"
  shows "rte_ring_lookup n s = (case ring_names s n of
     None \<Rightarrow> ret (s\<lparr>rs_eal := set_errno ENOENT (rs_eal s)\<rparr>, 0) | Some r \<Rightarrow> ret (s, r))"
proof -
  note d = rings_okD [OF ok]
  let ?e = "rs_eal s\<lparr>e_qlock := (e_qlock (rs_eal s))\<lparr>rw_cnt := 1\<rparr>\<rparr>"
  have "tailq_entries rte_ring_tailq ?e = ret es" using d(5) tailq_entries_cong [of ?e "rs_eal s"] by simp
  moreover have "qlock_read_release ?e = rs_eal s" using qlock_released(2) [OF d(4), of ?e] by simp
  ultimately show ?thesis using d(4) ring_names_iff(2) [OF ok]
    by (simp add: rte_ring_lookup_def qlock_free Let_def)
qed

lemma rings_ok_errno [simp]: "rings_ok lim (s\<lparr>rs_eal := set_errno err (rs_eal s)\<rparr>) A es = rings_ok lim s A es"
proof -
  have "te_ok A (set_errno err e) rs te = te_ok A e rs te" for e rs te
    by (simp add: te_ok_def zone_used_def set_errno_def)
  moreover have "tailq_entries t (set_errno err e) = tailq_entries t e" for t e
    by (rule tailq_entries_cong) (simp add: set_errno_def)
  ultimately show ?thesis by (simp add: rings_ok_def mz_ok_def set_errno_def [of err "rs_eal s"])
    (simp add: set_errno_def [symmetric])
qed

lemma ring_names_errno [simp]: "ring_names (s\<lparr>rs_eal := set_errno err (rs_eal s)\<rparr>) = ring_names s"
proof -
  have "tailq_entries rte_ring_tailq (set_errno err (rs_eal s)) = tailq_entries rte_ring_tailq (rs_eal s)"
    by (rule tailq_entries_cong) (simp add: set_errno_def)
  then show ?thesis by (auto simp: ring_names_def fun_eq_iff split: option.split sum.split)
qed

section \<open>Creation\<close>

definition ring_count :: "u32 \<Rightarrow> u32 \<Rightarrow> u32" where
  "ring_count count flags = (if flags AND RING_F_EXACT_SZ \<noteq> 0 then rte_align32pow2 (count + 1) else count)"

text \<open>The rings that the address arithmetic admits.\<close>

definition ring_req_ok :: "nat \<Rightarrow> u32 \<times> int \<times> u32 \<Rightarrow> bool" where
  "ring_req_ok lim req \<longleftrightarrow> (case req of (count, socket_id, flags) \<Rightarrow>
     lim < 2 ^ 64 \<and> 8 * unat (ring_count count flags) + 701 \<le> lim)"

text \<open>The size asked of the zone covers the structure and a table of \<open>count\<close> pointers behind it.\<close>

lemma ring_memsize_bounds:
  assumes "rte_ring_get_memsize count = Inr sz"
  shows "sz \<noteq> 0" "unat sz \<le> 8 * unat count + 447" "unat SIZEOF_RTE_RING + 8 * unat count \<le> unat sz"
proof -
  let ?n = "SIZEOF_RTE_RING + ucast count * 8 :: u64"
  have uc: "unat (ucast count :: u64) = unat count"
    using unat_lt_pow [of count] by (simp add: unsigned_ucast_eq take_bit_nat_eq_self)
  have c: "unat count < 2 ^ 32" using unat_lt_pow [of count] by simp
  have mul: "unat (ucast count * 8 :: u64) = 8 * unat count" using c uc unat_mult_lem [of "ucast count :: u64" 8] by simp
  have n: "unat ?n = 8 * unat count + 384"
    using c mul by (subst unat_add_no_overflow) (simp_all add: SIZEOF_RTE_RING_def)
  have "RTE_ALIGN x (RTE_CACHE_LINE_SIZE :: u32) = zone_len x" for x :: u64
    by (simp add: RTE_ALIGN_def RTE_ALIGN_CEIL_def RTE_ALIGN_FLOOR_def zone_len_def RTE_CACHE_LINE_MASK_def RTE_CACHE_LINE_SIZE_def)
  then have "sz = zone_len ?n" using assms unfolding rte_ring_get_memsize_def Let_def by (simp split: if_splits)
  moreover have "?n \<noteq> 0" using n by auto
  moreover have "unat ?n + 63 < 2 ^ 64" using n c by simp
  ultimately show "sz \<noteq> 0" "unat sz \<le> 8 * unat count + 447" "unat SIZEOF_RTE_RING + 8 * unat count \<le> unat sz"
    using zone_len_bounds [of ?n] n by (auto simp: SIZEOF_RTE_RING_def)
qed

lemma zone_freshE:
  assumes "zone_fresh lim s A name len align bound s' i"
  obtains z n where "e_memzone s' = (e_memzone s)[i := z]" "mz_addr z \<noteq> 0" "zones_ok lim s' (insert (unat (mz_addr z), n) A)"
    "(unat (mz_addr z), n) \<notin> A" "zone_names s name = None" "zone_names s' = (zone_names s)(name \<mapsto> i)"
  using assms unfolding zone_fresh_def by (elim exE conjE) (rule that)

lemma zone_fresh_unused:
  assumes ok: "zones_ok lim s A" and f: "zone_fresh lim s A name len align bound s' i"
  shows "\<not> zone_used s i"
proof
  assume u: "zone_used s i"
  obtain z n where "e_memzone s' = (e_memzone s)[i := z]" "mz_addr z \<noteq> 0" and
    z: "zones_ok lim s' (insert (unat (mz_addr z), n) A)" and "(unat (mz_addr z), n) \<notin> A" and
    nm: "zone_names s name = None" "zone_names s' = (zone_names s)(name \<mapsto> i)" using f by (rule zone_freshE)
  have "zone_names s (mz_name (e_memzone s ! i)) = Some i" using zone_names_iff [OF ok] u by blast
  then have "zone_names s' (mz_name (e_memzone s ! i)) = Some i" "mz_name (e_memzone s ! i) \<noteq> name" using nm by auto
  moreover have "zone_names s' name = Some i" using nm by simp
  ultimately show False using zone_names_iff [OF z] by metis
qed

lemma zmalloc_entry:
  assumes "malloc_rel lim (e_mem e) A" "zone_env_ok (e_env e)" "151 \<le> lim" "lim < 2 ^ 64"
  obtains m te where "eal_zmalloc SIZEOF_TAILQ_ENTRY 0 e = ret (e\<lparr>e_mem := m\<rparr>, te)" "malloc_result lim (e_mem e) A 24 1 m te"
proof -
  have env: "env_socket_id (e_env e) = - 1 \<or> env_socket_id (e_env e) < 0x80000000"
    using assms(2) by (auto simp: zone_env_ok_def word_less_nat_alt)
  then have "malloc_req_ok lim (e_env e, SIZEOF_TAILQ_ENTRY, 0, SOCKET_ID_ANY)"
    using assms(3,4) by (simp add: malloc_req_ok_def SIZEOF_TAILQ_ENTRY_def)
  from rte_malloc_socket_result [OF assms(1) this] that show thesis
    by (auto simp: eal_zmalloc_def rte_zmalloc_def rte_zmalloc_socket_def SIZEOF_TAILQ_ENTRY_def req_alignment_def)
qed

text \<open>An entry added to the queue, whose ring lives in a fresh zone.\<close>

lemma rings_ok_add:
  assumes ok: "rings_ok lim s A es" and te: "(unat te, n) \<notin> A" and z: "zones_ok lim e (insert (unat te, n) A)"
    and e: "e_memzone e = e_memzone (rs_eal s)" "e_env e = e_env (rs_eal s)"
    and f: "zone_fresh lim e (insert (unat te, n) A) (RTE_RING_MZ_PREFIX @ r_name ring) len align bound e' i"
    and ring: "r_memzone ring = Some (of_nat i)" "r = mz_addr (e_memzone e' ! i)" "te \<noteq> 0"
    and e'': "e_mem e'' = e_mem e'" "e_memzone e'' = e_memzone e'" "e_memzone_cnt e'' = e_memzone_cnt e'"
      "rw_cnt (e_qlock e'') = 0" "rw_cnt (e_mlock e'') = 0"
      "tailq_entries rte_ring_tailq e'' = ret (es @ [\<lparr>te_addr = te, te_data = r\<rparr>])"
  shows "\<exists>A'. A \<subseteq> A' \<and> rings_ok lim (s\<lparr>rs_eal := e'', rs_ring := (rs_ring s)(r := Some ring)\<rparr>) A' (es @ [\<lparr>te_addr = te, te_data = r\<rparr>])"
    "r \<notin> te_data ` set es" "r \<noteq> 0"
proof -
  note d = rings_okD [OF ok]
  obtain zd k where zd: "e_memzone e' = (e_memzone e)[i := zd]" "mz_addr zd \<noteq> 0"
      "zones_ok lim e' (insert (unat (mz_addr zd), k) (insert (unat te, n) A))" "(unat (mz_addr zd), k) \<notin> insert (unat te, n) A"
      "zone_names e' = (zone_names e)(RTE_RING_MZ_PREFIX @ r_name ring \<mapsto> i)"
    using f by (rule zone_freshE)
  let ?A = "insert (unat (mz_addr zd), k) (insert (unat te, n) A)"
  have new: "\<not> zone_used e i" using z f by (rule zone_fresh_unused)
  have ui: "zone_used e' i" "mz_name (e_memzone e' ! i) = RTE_RING_MZ_PREFIX @ r_name ring"
    using zone_names_iff [OF zd(3), of "RTE_RING_MZ_PREFIX @ r_name ring" i] zd(5) by simp_all
  have il: "i < length (e_memzone e)" using ui(1) zd(1) by (simp add: zone_used_def)
  have rz: "r = mz_addr zd" using ring(2) zd(1) il by simp
  then show "r \<noteq> 0" using zd(2) by simp
  have rel: "malloc_rel lim (e_mem e') ?A" using zones_okD(1) [OF zd(3)] .
  have uniq: "m = m'" if "(p, m) \<in> ?A" "(p, m') \<in> ?A" for p m m' using malloc.region_unique [OF rel that] .
  have ne_te: "mz_addr zd \<noteq> te" using zd(4) uniq [of "unat te" k n] by auto
  have used: "zone_used e' j \<longleftrightarrow> j = i \<or> zone_used e j" for j using il zd(1,2) by (auto simp: zone_used_def nth_list_update)
  have at: "e_memzone e' ! j = e_memzone e ! j" if "j \<noteq> i" for j using that zd(1) by simp
  have ue: "zone_used e j = zone_used (rs_eal s) j" for j using e(1) by (simp add: zone_used_def)
  have old: "te_data t \<noteq> r \<and> te_addr t \<noteq> te \<and> te_ok ?A e' ((rs_ring s)(r := Some ring)) t" if t: "t \<in> set es" for t
  proof -
    obtain m r' j where tk: "(unat (te_addr t), m) \<in> A" "\<And>i. zone_used (rs_eal s) i \<Longrightarrow> mz_addr (e_memzone (rs_eal s) ! i) \<noteq> te_addr t"
      "rs_ring s (te_data t) = Some r'" "r_memzone r' = Some (of_nat j)" "zone_used e j"
      "mz_addr (e_memzone e ! j) = te_data t" "mz_name (e_memzone e ! j) = RTE_RING_MZ_PREFIX @ r_name r'"
      using d(8) [OF t] unfolding te_ok_def ue [symmetric] e(1) by blast
    have ji: "j \<noteq> i" using tk(5) new by auto
    obtain l where l: "(unat (te_data t), l) \<in> insert (unat te, n) A" using zones_okD(5) [OF z tk(5)] tk(6) by auto
    have dr: "te_data t \<noteq> r"
    proof
      assume "te_data t = r"
      then show False using l zd(4) uniq [of "unat (mz_addr zd)" k l] rz by auto
    qed
    have ta: "te_addr t \<noteq> te" using tk(1) te uniq [of "unat te" m n] by auto
    have tz: "te_addr t \<noteq> mz_addr zd" using tk(1) zd(4) uniq [of "unat (mz_addr zd)" m k] by auto
    have "mz_addr (e_memzone e' ! p) \<noteq> te_addr t" if "zone_used e' p" for p
      using that tz tk(2) [of p] used ue at e(1) zd(1) il by (cases "p = i") auto
    moreover have "zone_used e' j" "e_memzone e' ! j = e_memzone e ! j" using ji used tk(5) at by auto
    ultimately have "te_ok ?A e' ((rs_ring s)(r := Some ring)) t"
      unfolding te_ok_def using tk dr by auto
    then show ?thesis using dr ta by blast
  qed
  then show "r \<notin> te_data ` set es" by blast
  have newte: "te_ok ?A e' ((rs_ring s)(r := Some ring)) \<lparr>te_addr = te, te_data = r\<rparr>"
  proof -
    have "mz_addr (e_memzone e' ! p) \<noteq> te" if up: "zone_used e' p" for p
    proof (cases "p = i")
      case True
      then show ?thesis using ne_te zd(1) il by simp
    next
      case False
      then have pe: "zone_used (rs_eal s) p" using up used ue by simp
      obtain l where "(unat (mz_addr (e_memzone (rs_eal s) ! p)), l) \<in> A" using zones_okD(5) [OF d(2) pe] by blast
      then show ?thesis using te uniq [of "unat te" l n] False at e(1) by auto
    qed
    then show ?thesis unfolding te_ok_def using ui ring(1,2) by auto
  qed
  have "rings_ok lim (s\<lparr>rs_eal := e'', rs_ring := (rs_ring s)(r := Some ring)\<rparr>) ?A (es @ [\<lparr>te_addr = te, te_data = r\<rparr>])"
    unfolding rings_ok_def mz_ok_def
  proof (intro conjI)
    show "zones_ok lim (rs_eal (s\<lparr>rs_eal := e'', rs_ring := (rs_ring s)(r := Some ring)\<rparr>)) ?A"
      using zones_ok_cong [OF zd(3), of e'' ?A] e'' rel by simp
    show "\<forall>t \<in> set (es @ [\<lparr>te_addr = te, te_data = r\<rparr>]). te_ok ?A (rs_eal (s\<lparr>rs_eal := e'', rs_ring := (rs_ring s)(r := Some ring)\<rparr>))
        (rs_ring (s\<lparr>rs_eal := e'', rs_ring := (rs_ring s)(r := Some ring)\<rparr>)) t"
      using old newte te_ok_cong [of _ e' _ _ e''] e''(2) by auto
  qed (use e'' d(6,7) old in \<open>auto simp: image_iff\<close>)
  then show "\<exists>A'. A \<subseteq> A' \<and> rings_ok lim (s\<lparr>rs_eal := e'', rs_ring := (rs_ring s)(r := Some ring)\<rparr>) A' (es @ [\<lparr>te_addr = te, te_data = r\<rparr>])"
    by (intro exI [of _ ?A]) auto
qed

text \<open>The ring that creation stores.\<close>

definition new_ring :: "string \<Rightarrow> u32 \<Rightarrow> u32 \<Rightarrow> nat \<Rightarrow> u64 rte_ring" where
  "new_ring name count flags i =
     fst (rte_ring_init (zero_ring (replicate (unat (ring_count count flags)) 0)) name count flags)\<lparr>r_memzone := Some (of_nat i)\<rparr>"

lemma new_ring_name:
  assumes "length name < RTE_MEMZONE_NAMESIZE"
  shows "r_name (new_ring name count flags i) = name" "r_memzone (new_ring name count flags i) = Some (of_nat i)"
  using assms by (simp_all add: new_ring_def rte_ring_init_def snprintf_str_def Let_def zero_ring_def)

lemma rings_ok_mem:
  assumes ok: "rings_ok lim s A es" and m: "malloc_rel lim m A"
  shows "rings_ok lim (s\<lparr>rs_eal := (rs_eal s)\<lparr>e_mem := m\<rparr>\<rparr>) A es"
proof -
  let ?e = "(rs_eal s)\<lparr>e_mem := m\<rparr>"
  note d = rings_okD [OF ok]
  have "zones_ok lim ?e A" using zones_ok_cong [OF d(2), of ?e A] m by simp
  moreover have "tailq_entries rte_ring_tailq ?e = ret es" using d(5) tailq_entries_cong [of ?e "rs_eal s"] by simp
  moreover have "te_ok A ?e (rs_ring s) te" if "te \<in> set es" for te using te_ok_cong [OF d(8) [OF that], of ?e] by simp
  ultimately show ?thesis using d by (simp add: rings_ok_def mz_ok_def)
qed

definition ring_create_post :: "nat \<Rightarrow> string \<Rightarrow> u32 \<Rightarrow> u32 \<Rightarrow> rings \<Rightarrow> (nat \<times> nat) set \<Rightarrow> rte_tailq_entry list \<Rightarrow> rings \<Rightarrow> u64 \<Rightarrow> bool" where
  "ring_create_post lim name count flags s A es s' r \<longleftrightarrow> e_env (rs_eal s') = e_env (rs_eal s) \<and>
     (if r = 0 then rs_ring s' = rs_ring s \<and> rings_ok lim s' A es
      else r \<notin> te_data ` set es \<and> length name < RTE_RING_NAMESIZE \<and>
        (\<exists>A' te i. A \<subseteq> A' \<and> rings_ok lim s' A' (es @ [\<lparr>te_addr = te, te_data = r\<rparr>]) \<and>
           rs_ring s' = (rs_ring s)(r \<mapsto> new_ring name count flags i)))"

lemma create_post_fail:
  assumes "rings_ok lim s A es"
  shows "ring_create_post lim name count flags s A es (s\<lparr>rs_eal := set_errno err (rs_eal s)\<rparr>) 0"
  using assms by (simp add: ring_create_post_def) (simp add: set_errno_def)

lemma ring_reserve_ok:
  assumes ok: "rings_ok lim s A es" and env: "zone_env_ok (e_env (rs_eal s))"
    and m: "malloc_result lim (e_mem (rs_eal s)) A 24 1 m te" "te \<noteq> 0"
    and sz: "sz \<noteq> 0" "unat sz + 254 \<le> lim" "lim < 2 ^ 64"
    and nm: "length name < RTE_RING_NAMESIZE"
    and e: "e = (rs_eal s)\<lparr>e_mem := m, e_qlock := (e_qlock (rs_eal s))\<lparr>rw_cnt := - 1\<rparr>\<rparr>"
  shows "\<exists>s' r. res_bind (rte_memzone_reserve_aligned v st (RTE_RING_MZ_PREFIX @ name) sz socket_id 0 ALIGNOF_RTE_RING e) (\<lambda>(e, mz).
      case mz of
        Some i \<Rightarrow> res_bind (TAILQ_INSERT_TAIL rte_ring_tailq \<lparr>te_addr = te, te_data = mz_addr (e_memzone e ! i)\<rparr> e) (\<lambda>e'.
             ret (s\<lparr>rs_eal := qlock_write_release e', rs_ring := (rs_ring s)(mz_addr (e_memzone e ! i) := Some (new_ring name count flags i))\<rparr>,
               mz_addr (e_memzone e ! i)))
      | None \<Rightarrow> res_bind (eal_free te e) (\<lambda>e. ret (s\<lparr>rs_eal := qlock_write_release e\<rparr>, 0))) = ret (s', r) \<and>
    ring_create_post lim name count flags s A es s' r"
proof -
  note d = rings_okD [OF ok]
  obtain n where n: "malloc_rel lim m (insert (unat te, n) A)" "(unat te, n) \<notin> A"
    using m by (auto simp: alloc_result_def)
  have ze: "zones_ok lim e (insert (unat te, n) A)" using zones_ok_cong [OF d(2), of e "insert (unat te, n) A"] n(1) e by simp
  then have mz: "mz_ok lim e (insert (unat te, n) A)" using d(3) e by (simp add: mz_ok_def)
  have zr: "zone_req_ok lim (e_env e) sz ALIGNOF_RTE_RING 0"
    using sz env e by (simp add: zone_req_ok_def zone_env_ok_def ALIGNOF_RTE_RING_def)
  obtain e1 mz where r: "rte_memzone_reserve_aligned v st (RTE_RING_MZ_PREFIX @ name) sz socket_id 0 ALIGNOF_RTE_RING e = ret (e1, mz)"
    "zone_post lim e (insert (unat te, n) A) (RTE_RING_MZ_PREFIX @ name) sz ALIGNOF_RTE_RING 0 e1 mz"
    using thread_safe_ok [OF mz zr] unfolding rte_memzone_reserve_aligned_def by blast
  note fr = zone_post_frame [OF r(2)]
  have lk: "e_qlock e1 = (e_qlock (rs_eal s))\<lparr>rw_cnt := - 1\<rparr>" using fr(2) e by simp
  show ?thesis
  proof (cases mz)
    case None
    then obtain err where err: "e1 = set_errno err e" using r(2) by (auto simp: zone_post_def)
    obtain m' where m': "rte_free te m = ret m'" "malloc_rel lim m' A"
      using rte_free_ok [OF n(1), of "unat te" n] n(2) by auto
    have fe: "eal_free te e1 = ret (e1\<lparr>e_mem := m'\<rparr>)" using m'(1) err e by (simp add: eal_free_def set_errno_def)
    have rel: "qlock_write_release (e1\<lparr>e_mem := m'\<rparr>) = set_errno err ((rs_eal s)\<lparr>e_mem := m'\<rparr>)"
      using qlock_released(1) [OF d(4), of "e1\<lparr>e_mem := m'\<rparr>"] err e by (simp add: set_errno_def)
    have "rings_ok lim (s\<lparr>rs_eal := set_errno err ((rs_eal s)\<lparr>e_mem := m'\<rparr>)\<rparr>) A es"
      using rings_ok_errno [where s = "s\<lparr>rs_eal := (rs_eal s)\<lparr>e_mem := m'\<rparr>\<rparr>"] rings_ok_mem [OF ok m'(2)] by simp
    then show ?thesis using r(1) None fe rel by (simp add: ring_create_post_def) (simp add: set_errno_def)
  next
    case (Some i)
    let ?te = "\<lparr>te_addr = te, te_data = mz_addr (e_memzone e1 ! i)\<rparr>"
    let ?e = "set_tailq_entries rte_ring_tailq (es @ [?te]) e1"
    let ?e' = "?e\<lparr>e_qlock := e_qlock (rs_eal s)\<rparr>" and ?r = "mz_addr (e_memzone e1 ! i)"
    have te: "tailq_entries rte_ring_tailq e1 = ret es" using d(5) tailq_entries_cong [of e1 "rs_eal s"] fr(5) e by simp
    have rel: "qlock_write_release ?e = ?e'" using qlock_released(1) [OF d(4), of ?e] lk by simp
    have le: "length name < RTE_MEMZONE_NAMESIZE" using nm by (simp add: RTE_RING_NAMESIZE_def RTE_MEMZONE_NAMESIZE_def RTE_RING_MZ_PREFIX_def)
    have f: "zone_fresh lim e (insert (unat te, n) A) (RTE_RING_MZ_PREFIX @ r_name (new_ring name count flags i)) sz ALIGNOF_RTE_RING 0 e1 i"
      using r(2) Some new_ring_name(1) [OF le] by (simp add: zone_post_def)
    have e'': "tailq_entries rte_ring_tailq ?e' = ret (es @ [?te])"
      using tailq_entries_set [OF te, of "es @ [?te]"] tailq_entries_cong [of ?e' ?e] by simp
    have "\<exists>A'. A \<subseteq> A' \<and> rings_ok lim (s\<lparr>rs_eal := ?e', rs_ring := (rs_ring s)(?r := Some (new_ring name count flags i))\<rparr>) A' (es @ [?te])"
      "?r \<notin> te_data ` set es" "?r \<noteq> 0"
      by (rule rings_ok_add [OF ok n(2) ze _ _ f new_ring_name(2) [OF le] refl m(2), where e'' = ?e'];
          use d(3,4) e fr e'' in simp)+
    then show ?thesis using r(1) Some te rel nm fr(4) e
      by (auto simp: TAILQ_INSERT_TAIL_def ring_create_post_def)
  qed
qed

lemma ring_create_ok:
  assumes ok: "rings_ok lim s A es" and env: "zone_env_ok (e_env (rs_eal s))" and rq: "ring_req_ok lim (count, socket_id, flags)"
  shows "\<exists>s' r. rte_ring_create v st name count socket_id flags s = ret (s', r) \<and> ring_create_post lim name count flags s A es s' r"
proof (cases "rte_ring_get_memsize (ring_count count flags)")
  case (Inl err)
  then show ?thesis using create_post_fail [OF ok] by (auto simp: rte_ring_create_def Let_def ring_count_def [symmetric])
next
  case (Inr sz)
  note b = ring_memsize_bounds [OF Inr]
  have lim: "lim < 2 ^ 64" "unat sz + 254 \<le> lim" using rq b(2) by (simp_all add: ring_req_ok_def)
  show ?thesis
  proof (cases "length name < RTE_RING_NAMESIZE")
    case False
    then show ?thesis using create_post_fail [OF ok, of name count flags ENAMETOOLONG] Inr
      by (simp add: rte_ring_create_def Let_def ring_count_def [symmetric] snprintf_str_def
          RTE_RING_NAMESIZE_def RTE_MEMZONE_NAMESIZE_def RTE_RING_MZ_PREFIX_def)
  next
    case True
    then have nm: "snprintf_str RTE_MEMZONE_NAMESIZE (RTE_RING_MZ_PREFIX @ name) = (RTE_RING_MZ_PREFIX @ name, int (length name) + 3)"
      "\<not> (int (length name) + 3 < 0 \<or> int RTE_MEMZONE_NAMESIZE \<le> int (length name) + 3)"
      by (simp_all add: snprintf_str_def RTE_RING_NAMESIZE_def RTE_MEMZONE_NAMESIZE_def RTE_RING_MZ_PREFIX_def)
    note d = rings_okD [OF ok]
    have l: "151 \<le> lim" using lim by simp
    obtain m te where z: "eal_zmalloc SIZEOF_TAILQ_ENTRY 0 (rs_eal s) = ret ((rs_eal s)\<lparr>e_mem := m\<rparr>, te)"
      "malloc_result lim (e_mem (rs_eal s)) A 24 1 m te" using zones_okD(1) [OF d(2)] env l lim(1) by (rule zmalloc_entry)
    show ?thesis
    proof (cases "te = 0")
      case True
      then have "(rs_eal s)\<lparr>e_mem := m\<rparr> = rs_eal s" using z(2) by (simp add: alloc_result_def)
      then show ?thesis using create_post_fail [OF ok, of name count flags ENOMEM] Inr nm z(1) True
        by (simp add: rte_ring_create_def Let_def ring_count_def [symmetric])
    next
      case False
      let ?e = "(rs_eal s)\<lparr>e_mem := m, e_qlock := (e_qlock (rs_eal s))\<lparr>rw_cnt := - 1\<rparr>\<rparr>"
      have q: "qlock_write ((rs_eal s)\<lparr>e_mem := m\<rparr>) = ret ?e" using qlock_free(1) [of "(rs_eal s)\<lparr>e_mem := m\<rparr>"] d(4) by simp
      show ?thesis
        using ring_reserve_ok [OF ok env z(2) False b(1) lim(2,1) True refl, of v st socket_id count flags]
        unfolding rte_ring_create_def Let_def ring_count_def [symmetric] Inr sum.case nm(1) prod.case
          if_not_P [OF nm(2)] z(1) res_bind_simps if_not_P [OF False] q new_ring_def .
    qed
  qed
qed

section \<open>Release\<close>

lemma distinct_map_index:
  assumes "distinct (map f xs)" "k < length xs"
  shows "first_index (\<lambda>x. f x = f (xs ! k)) xs = Some k"
    "set (take k xs @ drop (Suc k) xs) = set xs - {xs ! k}" "distinct (map f (take k xs @ drop (Suc k) xs))"
proof -
  show "first_index (\<lambda>x. f x = f (xs ! k)) xs = Some k"
    using assms by (intro first_index_unique) (auto simp: distinct_conv_nth)
  have xs: "xs = take k xs @ xs ! k # drop (Suc k) xs" using assms(2) by (rule id_take_nth_drop)
  then have d: "distinct (map f (take k xs @ xs ! k # drop (Suc k) xs))" using assms(1) by simp
  then show "distinct (map f (take k xs @ drop (Suc k) xs))" by auto
  have "set xs = insert (xs ! k) (set (take k xs @ drop (Suc k) xs))" using arg_cong [OF xs, of set] by simp
  moreover have "xs ! k \<notin> set (take k xs @ drop (Suc k) xs)" using d by auto
  ultimately show "set (take k xs @ drop (Suc k) xs) = set xs - {xs ! k}" by auto
qed

lemma ring_free_ok:
  assumes ok: "rings_ok lim s A es" and k: "k < length es"
  shows "\<exists>s' A'. rte_ring_free (te_data (es ! k)) s = ret s' \<and> A' \<subseteq> A \<and> rings_ok lim s' A' (take k es @ drop (Suc k) es) \<and>
    rs_ring s' = (rs_ring s)(te_data (es ! k) := None) \<and> e_env (rs_eal s') = e_env (rs_eal s)"
proof -
  note d = rings_okD [OF ok]
  let ?te = "es ! k" and ?es = "take k es @ drop (Suc k) es"
  let ?r = "te_data ?te" and ?a = "te_addr ?te"
  have tin: "?te \<in> set es" using k by simp
  have tok: "te_ok A (rs_eal s) (rs_ring s) ?te" using d(8) [OF tin] .
  obtain na ring i where t: "(unat ?a, na) \<in> A" "\<And>i. zone_used (rs_eal s) i \<Longrightarrow> mz_addr (e_memzone (rs_eal s) ! i) \<noteq> ?a"
    "rs_ring s ?r = Some ring" "r_memzone ring = Some (of_nat i)" "zone_used (rs_eal s) i" "mz_addr (e_memzone (rs_eal s) ! i) = ?r"
    using tok unfolding te_ok_def by blast
  have ui: "unat (of_nat i :: u64) = i" "?r \<noteq> 0"
    using t(5,6) zones_okD(2) [OF d(2)] by (auto simp: zone_used_def RTE_MAX_MEMZONE_def unsigned_of_nat take_bit_nat_eq_self)
  obtain e1 n where f: "rte_memzone_free (Some i) (rs_eal s) = ret (e1, 0)" "(unat ?r, n) \<in> A" "mz_ok lim e1 (A - {(unat ?r, n)})"
    "e1 = (rs_eal s)\<lparr>e_mem := e_mem e1, e_memzone_cnt := e_memzone_cnt e1, e_memzone := (e_memzone (rs_eal s))[i := zero_memzone]\<rparr>"
    using free_used [OF d(1) t(5)] unfolding t(6) by (elim exE conjE) (rule that)
  have e1: "e_memzone e1 = (e_memzone (rs_eal s))[i := zero_memzone]" "e_qlock e1 = e_qlock (rs_eal s)" "e_tailqs e1 = e_tailqs (rs_eal s)"
    "e_env e1 = e_env (rs_eal s)" by (subst f(4), simp)+
  have z1: "zones_ok lim e1 (A - {(unat ?r, n)})" "rw_cnt (e_mlock e1) = 0" using f(3) by (simp_all add: mz_ok_def)
  have il: "i < length (e_memzone (rs_eal s))" using t(5) by (simp add: zone_used_def)
  have used: "zone_used e1 j \<longleftrightarrow> j \<noteq> i \<and> zone_used (rs_eal s) j" for j
    using il by (auto simp: zone_used_def e1 nth_list_update zero_memzone_def)
  have at: "e_memzone e1 ! j = e_memzone (rs_eal s) ! j" if "j \<noteq> i" for j using that by (simp add: e1)
  let ?A = "A - {(unat ?r, n)} - {(unat ?a, na)}"
  have ra: "?r \<noteq> ?a" using t(2,5,6) by metis
  have uinj: "unat x = unat y \<longleftrightarrow> x = y" for x y :: u64 by (simp add: word_unat_eq_iff)
  have "(unat ?a, na) \<in> A - {(unat ?r, n)}" using t(1) ra uinj by auto
  then obtain m where m: "rte_free ?a (e_mem e1) = ret m" "malloc_rel lim m ?A"
    using rte_free_ok [OF zones_okD(1) [OF z1(1)], of "unat ?a" na] by auto
  let ?e2 = "e1\<lparr>e_qlock := (e_qlock (rs_eal s))\<lparr>rw_cnt := - 1\<rparr>\<rparr>"
  let ?e3 = "(set_tailq_entries rte_ring_tailq ?es ?e2)\<lparr>e_qlock := e_qlock (rs_eal s)\<rparr>"
  let ?s = "s\<lparr>rs_eal := ?e3\<lparr>e_mem := m\<rparr>, rs_ring := (rs_ring s)(?r := None)\<rparr>"
  have te2: "tailq_entries rte_ring_tailq ?e2 = ret es" using d(5) tailq_entries_cong [of ?e2 "rs_eal s"] e1(3) by simp
  have te3: "tailq_entries rte_ring_tailq (?e3\<lparr>e_mem := m\<rparr>) = ret ?es"
    using tailq_entries_set [OF te2, of ?es] tailq_entries_cong [of "?e3\<lparr>e_mem := m\<rparr>" "set_tailq_entries rte_ring_tailq ?es ?e2"] by simp
  have q: "qlock_write e1 = ret ?e2" using qlock_free(1) [of e1] d(4) e1(2) by simp
  have ql: "qlock_write_release (set_tailq_entries rte_ring_tailq ?es ?e2) = ?e3"
    using qlock_released(1) [OF d(4), of "set_tailq_entries rte_ring_tailq ?es ?e2"] by simp
  note di = distinct_map_index [OF d(6) k] and da = distinct_map_index [OF d(7) k]
  have eq: "rte_ring_free ?r s = ret ?s"
    unfolding rte_ring_free_def Let_def if_not_P [OF ui(2)] t(3) option.case t(4) ui(1) f(1) res_bind_simps prod.case
    using q te2 di(1) ql m(1) by (simp add: eal_free_def)
  have zf: "zones_ok lim (?e3\<lparr>e_mem := m\<rparr>) ?A"
  proof (rule zones_ok_cong [OF z1(1)])
    show "(unat (mz_addr (e_memzone e1 ! j)), l) \<in> ?A"
      if "zone_used e1 j" "(unat (mz_addr (e_memzone e1 ! j)), l) \<in> A - {(unat ?r, n)}" for j l
      using that t(2) [of j] used [of j] at [of j] by (auto simp: uinj)
  qed (use m in simp_all)
  have old: "te_ok ?A (?e3\<lparr>e_mem := m\<rparr>) ((rs_ring s)(?r := None)) t'" if t': "t' \<in> set ?es" for t'
  proof -
    have es: "t' \<in> set es" "t' \<noteq> ?te" using t' di(2) by auto
    then have ne: "te_data t' \<noteq> ?r" "te_addr t' \<noteq> ?a" using d(6,7) tin by (auto simp: distinct_map inj_on_def)
    obtain m' r' j where tk: "(unat (te_addr t'), m') \<in> A" "\<And>i. zone_used (rs_eal s) i \<Longrightarrow> mz_addr (e_memzone (rs_eal s) ! i) \<noteq> te_addr t'"
      "rs_ring s (te_data t') = Some r'" "r_memzone r' = Some (of_nat j)" "zone_used (rs_eal s) j"
      "mz_addr (e_memzone (rs_eal s) ! j) = te_data t'" "mz_name (e_memzone (rs_eal s) ! j) = RTE_RING_MZ_PREFIX @ r_name r'"
      using d(8) [OF es(1)] unfolding te_ok_def by blast
    have ji: "j \<noteq> i" using tk(6) t(6) ne(1) by auto
    have "te_addr t' \<noteq> ?r" using tk(2) [OF t(5)] t(6) by simp
    then have reg: "(unat (te_addr t'), m') \<in> ?A" using tk(1) ne(2) by (auto simp: uinj)
    have "mz_addr (e_memzone e1 ! p) \<noteq> te_addr t'" if "zone_used e1 p" for p using that tk(2) [of p] used [of p] at [of p] by auto
    moreover have "zone_used e1 j" using used tk(5) ji by simp
    ultimately have "te_ok ?A e1 ((rs_ring s)(?r := None)) t'"
      unfolding te_ok_def using reg tk(3,4,6,7) at [OF ji] ne(1) by auto
    then show ?thesis by (rule te_ok_cong) simp
  qed
  have "rings_ok lim ?s ?A ?es"
    unfolding rings_ok_def mz_ok_def using zf te3 z1(2) d(4) old di(3) da(3) by (simp add: ball_Un)
  then show ?thesis using eq e1(4) by (intro exI [of _ ?s] exI [of _ ?A]) auto
qed

section \<open>The directory of rings\<close>

text \<open>A request is a count, a socket and flags; a null pointer is no ring.\<close>

definition nonnull :: "(rings \<times> u64) res \<Rightarrow> (rings \<times> u64 option) res" where
  "nonnull x = res_bind x (\<lambda>(s, r). ret (s, if r = 0 then None else Some r))"

definition ring_add ::
    "(u64 \<Rightarrow> u64) \<Rightarrow> rte_malloc_socket_stats \<Rightarrow> u32 \<times> int \<times> u32 \<Rightarrow> string \<Rightarrow> rings \<Rightarrow> (rings \<times> u64 option) res" where
  "ring_add v st req name s = (case req of (count, socket_id, flags) \<Rightarrow> nonnull (rte_ring_create v st name count socket_id flags s))"

definition ring_look :: "string \<Rightarrow> rings \<Rightarrow> (rings \<times> u64 option) res" where
  "ring_look name s = nonnull (rte_ring_lookup name s)"

definition ring_dir_inv :: "nat \<Rightarrow> rings \<Rightarrow> bool" where
  "ring_dir_inv lim s \<longleftrightarrow> (\<exists>A es. rings_ok lim s A es) \<and> zone_env_ok (e_env (rs_eal s))"

lemma ring_names_nonzero:
  assumes "rings_ok lim s A es" "ring_names s n = Some a"
  shows "a \<noteq> 0"
proof -
  obtain te where te: "te \<in> set es" "te_data te = a" using assms(2) ring_names_iff(1) [OF assms(1)] by blast
  then show ?thesis using rings_okD(8) [OF assms(1) te(1)] by (auto simp: te_ok_def zone_used_def)
qed

lemma ring_names_add:
  assumes ok: "rings_ok lim s A es" and p: "ring_create_post lim name count flags s A es s' r" "r \<noteq> 0"
  shows "ring_names s name = None" "ring_names s' = (ring_names s)(name \<mapsto> r)"
proof -
  from p obtain A' te i where q: "r \<notin> te_data ` set es" "length name < RTE_RING_NAMESIZE"
    "rings_ok lim s' A' (es @ [\<lparr>te_addr = te, te_data = r\<rparr>])" "rs_ring s' = (rs_ring s)(r \<mapsto> new_ring name count flags i)"
    by (auto simp: ring_create_post_def)
  have nn: "r_name (new_ring name count flags i) = name"
    using q(2) by (intro new_ring_name) (simp add: RTE_RING_NAMESIZE_def RTE_MEMZONE_NAMESIZE_def RTE_RING_MZ_PREFIX_def)
  have new: "ring_names s' n = Some a \<longleftrightarrow> (if a = r then n = name else ring_names s n = Some a)" for n a
    using ring_names_iff(1) [OF q(3), of n a] ring_names_iff(1) [OF ok, of n a] q(1,4) nn by auto
  have old: "ring_names s n \<noteq> Some r" for n using ring_names_iff(1) [OF ok, of n r] q(1) by auto
  show none: "ring_names s name = None"
  proof (rule ccontr)
    assume "ring_names s name \<noteq> None"
    then obtain a where "ring_names s name = Some a" by blast
    then have "ring_names s' name = Some a" "ring_names s' name = Some r" "a \<noteq> r" using new old by auto
    then show False by simp
  qed
  show "ring_names s' = (ring_names s)(name \<mapsto> r)"
  proof (rule map_eqI)
    fix n a show "ring_names s' n = Some a \<longleftrightarrow> ((ring_names s)(name \<mapsto> r)) n = Some a"
      using new [of n a] old [of n] none by (auto split: if_splits)
  qed
qed

interpretation ring: directory "ring_dir_inv lim" ring_names "ring_add v st" ring_look rte_ring_free "ring_req_ok lim" "\<lambda>_. True"
  for lim v st
proof unfold_locales
  fix s n assume s: "ring_dir_inv lim s"
  then obtain A es where ok: "rings_ok lim s A es" "zone_env_ok (e_env (rs_eal s))" by (auto simp: ring_dir_inv_def)
  have "ring_dir_inv lim (s\<lparr>rs_eal := set_errno ENOENT (rs_eal s)\<rparr>)" using ok unfolding ring_dir_inv_def rings_ok_errno
    by (auto simp: set_errno_def)
  then show "\<exists>s'. ring_look n s = ret (s', ring_names s n) \<and> ring_dir_inv lim s' \<and> ring_names s' = ring_names s"
    using ring_lookup_ok [OF ok(1), of n] s ring_names_nonzero [OF ok(1), of n]
    by (cases "ring_names s n") (auto simp: ring_look_def nonnull_def)
next
  fix s r n assume s: "ring_dir_inv lim s" and r: "ring_req_ok lim r"
  obtain count socket_id flags where req: "r = (count, socket_id, flags)" by (cases r)
  obtain A es where ok: "rings_ok lim s A es" "zone_env_ok (e_env (rs_eal s))" using s by (auto simp: ring_dir_inv_def)
  obtain s' a where c: "rte_ring_create v st n count socket_id flags s = ret (s', a)" "ring_create_post lim n count flags s A es s' a"
    using ring_create_ok [OF ok r [unfolded req]] by blast
  have inv: "ring_dir_inv lim s'" using c(2) ok(2) by (auto simp: ring_create_post_def ring_dir_inv_def split: if_splits)
  have same: "ring_names s' = ring_names s" if "a = 0"
  proof -
    have "rings_ok lim s' A es" "rs_ring s' = rs_ring s" using c(2) that by (simp_all add: ring_create_post_def)
    then show ?thesis using ring_names_iff(1) [of lim s' A es] ring_names_iff(1) [OF ok(1)] by (intro map_eqI) simp
  qed
  show "\<exists>s' h. ring_add v st r n s = ret (s', h) \<and> ring_dir_inv lim s' \<and>
      (case h of None \<Rightarrow> ring_names s' = ring_names s | Some x \<Rightarrow> ring_names s n = None \<and> ring_names s' = (ring_names s)(n \<mapsto> x))"
    using c inv same ring_names_add [OF ok(1) c(2)]
    by (intro exI [of _ s'] exI [of _ "if a = 0 then None else Some a"]) (auto simp: ring_add_def nonnull_def req)
next
  fix s n x assume s: "ring_dir_inv lim s" and n: "ring_names s n = Some x"
  then obtain A es where ok: "rings_ok lim s A es" "zone_env_ok (e_env (rs_eal s))" by (auto simp: ring_dir_inv_def)
  note d = rings_okD [OF ok(1)]
  obtain te r where te: "te \<in> set es" "te_data te = x" "rs_ring s x = Some r" "r_name r = n"
    using n ring_names_iff(1) [OF ok(1), of n x] by blast
  obtain k where k: "k < length es" "es ! k = te" using te(1) by (auto simp: in_set_conv_nth)
  obtain s' A' where f: "rte_ring_free x s = ret s'" "rings_ok lim s' A' (take k es @ drop (Suc k) es)"
    "rs_ring s' = (rs_ring s)(x := None)" "e_env (rs_eal s') = e_env (rs_eal s)"
    using ring_free_ok [OF ok(1) k(1)] k(2) te(2) by auto
  have "ring_names s' = (ring_names s)(n := None)"
  proof (rule map_eqI)
    fix n' a
    have te_x: "t = te" if "t \<in> set es" "te_data t = x" for t using that te(1,2) d(6) by (auto simp: distinct_map inj_on_def)
    note iff' = ring_names_iff(1) [OF f(2), of n' a] and iff = ring_names_iff(1) [OF ok(1), of n' a]
    note rest = distinct_map_index(2) [OF d(6) k(1)]
    show "ring_names s' n' = Some a \<longleftrightarrow> ((ring_names s)(n := None)) n' = Some a"
    proof (cases "a = x")
      case True
      then show ?thesis using iff' iff f(3) te(3,4) by auto
    next
      case False
      then have "ring_names s' n' = Some a \<longleftrightarrow> ring_names s n' = Some a"
        unfolding iff' iff rest f(3) k(2) using te(2) by auto
      then show ?thesis using n False by auto
    qed
  qed
  then show "\<exists>s'. rte_ring_free x s = ret s' \<and> ring_dir_inv lim s' \<and> ring_names s' = (ring_names s)(n := None)"
    using f ok(2) by (auto simp: ring_dir_inv_def)
qed

section \<open>Properties\<close>

text \<open>The configuration of a process that has registered the queue of rings and created none.\<close>

definition demo_ring_eal :: eal where
  "demo_ring_eal = demo_eal\<lparr>e_tailqs := \<lparr>tq_heads = [\<lparr>th_entries = [], th_name = ''RTE_RING''\<rparr>], tq_count = 1,
     tq_elem = (\<lambda>_. \<lparr>tl_head = Some 0, tl_name = ''RTE_RING''\<rparr>), tq_local = [], tq_primary = True\<rparr>\<rparr>"

definition demo_rings :: rings where
  "demo_rings = \<lparr>rs_eal = demo_ring_eal, rs_ring = (\<lambda>_. None)\<rparr>"

lemma demo_eal_qlock: "rw_cnt (e_qlock demo_eal) = 0"
  using memzone_init_ok [OF demo_eal_boot]
  by (auto simp: demo_eal_def demo_config_def rte_eal_memzone_init_def Let_def split_beta mlock_write_def mlock_write_release_def
      write_lock_free lift_opt_def)

lemma demo_rings_ok: "rings_ok 0x10000000 demo_rings {} []" "zone_env_ok (e_env (rs_eal demo_rings))"
proof -
  have z: "zones_ok 0x10000000 demo_eal {}" "rw_cnt (e_mlock demo_eal) = 0" using demo_eal_ok(1) by (simp_all add: mz_ok_def)
  have "zones_ok 0x10000000 demo_ring_eal {}"
    by (rule zones_ok_cong [OF z(1)]) (use zones_okD(1) [OF z(1)] in \<open>simp_all add: demo_ring_eal_def\<close>)
  then show "rings_ok 0x10000000 demo_rings {} []" using demo_eal_ok(1) demo_eal_qlock
    by (simp add: rings_ok_def mz_ok_def demo_rings_def demo_ring_eal_def tailq_entries_def RTE_TAILQ_CAST_def)
  show "zone_env_ok (e_env (rs_eal demo_rings))" using demo_eal_ok(2) by (simp add: demo_rings_def demo_ring_eal_def)
qed

text \<open>A count that the ring can have: below \<open>2\<^sup>3\<^sup>1\<close>, and a power of two unless the exact size is asked for.\<close>

definition ring_count_ok :: "u32 \<Rightarrow> u32 \<Rightarrow> bool" where
  "ring_count_ok count flags \<longleftrightarrow> count \<le> RTE_RING_SZ_MASK \<and>
     (flags AND RING_F_EXACT_SZ = 0 \<longrightarrow> POWEROF2 count \<and> count \<noteq> 0)"

lemma new_ring_inv:
  assumes c: "ring_count_ok count flags" and nm: "length name < RTE_MEMZONE_NAMESIZE"
  shows "ring_inv (new_ring name count flags i)" "ring_contents (new_ring name count flags i) = []"
    "r_capacity (new_ring name count flags i) = (if flags AND RING_F_EXACT_SZ = 0 then count - 1 else count)"
proof -
  have l: "length name < 32" using nm by (simp add: RTE_MEMZONE_NAMESIZE_def)
  let ?z = "zero_ring (replicate (unat (ring_count count flags)) (0::u64))"
  obtain r0 where r0: "rte_ring_init ?z name count flags = (r0, 0)" "ring_inv r0" "ring_contents r0 = []"
    "r_capacity r0 = (if flags AND RING_F_EXACT_SZ = 0 then count - 1 else count)"
  proof (cases "flags AND RING_F_EXACT_SZ = 0")
    case True
    then show thesis using ring_init_pow2 [OF l True, of count ?z] c that
      by (auto simp: ring_count_ok_def zero_ring_def ring_count_def)
  next
    case False
    then show thesis using ring_init_exact [OF l False, of count ?z] c that
      by (auto simp: ring_count_ok_def zero_ring_def ring_count_def)
  qed
  then show "ring_inv (new_ring name count flags i)" "ring_contents (new_ring name count flags i) = []"
    "r_capacity (new_ring name count flags i) = (if flags AND RING_F_EXACT_SZ = 0 then count - 1 else count)"
    by (simp_all add: new_ring_def ring_inv_def ring_shape_def ring_contents_def slot_def)
qed

text \<open>
  C12. On a consistent configuration \<^verbatim>\<open>rte_ring_create\<close> with an admissible count always
  returns, with its locks released. Either it returns \<^verbatim>\<open>NULL\<close>, no ring is created and the tail queue entry
  is released again, or it returns a ring that was not in the queue, that lookup finds under the
  name, and that is a well-formed empty ring of the capacity asked for, ready for the queue
  operations; all other rings are kept.
\<close>

theorem ring_create_spec:
  assumes ok: "rings_ok lim s A es" "zone_env_ok (e_env (rs_eal s))" "ring_req_ok lim (count, socket_id, flags)"
    and count: "ring_count_ok count flags"
  shows "\<exists>s' r. rte_ring_create v st name count socket_id flags s = ret (s', r) \<and>
    (r = 0 \<longrightarrow> rings_ok lim s' A es \<and> rs_ring s' = rs_ring s) \<and>
    (r \<noteq> 0 \<longrightarrow> ring_names s name = None \<and> ring_names s' = (ring_names s)(name \<mapsto> r) \<and>
       rte_ring_lookup name s' = ret (s', r) \<and>
       (\<exists>ring A' te. rs_ring s' = (rs_ring s)(r \<mapsto> ring) \<and> A \<subseteq> A' \<and> rings_ok lim s' A' (es @ [te]) \<and>
          r_name ring = name \<and> ring_inv ring \<and> ring_contents ring = [] \<and>
          r_capacity ring = (if flags AND RING_F_EXACT_SZ = 0 then count - 1 else count)))"
proof -
  obtain s' r where c: "rte_ring_create v st name count socket_id flags s = ret (s', r)" "ring_create_post lim name count flags s A es s' r"
    using ring_create_ok [OF ok] by blast
  show ?thesis
  proof (cases "r = 0")
    case True
    then show ?thesis using c by (auto simp: ring_create_post_def)
  next
    case False
    then obtain A' te i where q: "length name < RTE_RING_NAMESIZE" "A \<subseteq> A'"
      "rings_ok lim s' A' (es @ [\<lparr>te_addr = te, te_data = r\<rparr>])" "rs_ring s' = (rs_ring s)(r \<mapsto> new_ring name count flags i)"
      using c(2) by (auto simp: ring_create_post_def)
    note nm = ring_names_add [OF ok(1) c(2) False]
    have le: "length name < RTE_MEMZONE_NAMESIZE" using q(1) by (simp add: RTE_RING_NAMESIZE_def RTE_MEMZONE_NAMESIZE_def RTE_RING_MZ_PREFIX_def)
    have "rte_ring_lookup name s' = ret (s', r)" using ring_lookup_ok [OF q(3), of name] nm(2) by simp
    then show ?thesis using c(1) False nm q(2-4) new_ring_name(1) [OF le] new_ring_inv [OF count le]
      by (intro exI [of _ s'] exI [of _ r] conjI impI exI [of _ "new_ring name count flags i"] exI [of _ A']
          exI [of _ "\<lparr>te_addr = te, te_data = r\<rparr>"]) simp_all
  qed
qed

lemma demo_ring_req: "ring_req_ok 0x10000000 (1024, 0, 0)" "ring_count_ok 1024 0"
  by (simp_all add: ring_req_ok_def ring_count_def ring_count_ok_def RTE_RING_SZ_MASK_def POWEROF2_def)

theorem ring_create_spec_witness:
  "\<exists>s' r. rte_ring_create id demo_stats ''rx'' 1024 0 0 demo_rings = ret (s', r) \<and>
    (r \<noteq> 0 \<longrightarrow> rte_ring_lookup ''rx'' s' = ret (s', r) \<and> (\<exists>ring. rs_ring s' r = Some ring \<and> ring_inv ring \<and> r_capacity ring = 1023))"
proof -
  obtain s' r where c: "rte_ring_create id demo_stats ''rx'' 1024 0 0 demo_rings = ret (s', r)"
    "r \<noteq> 0 \<Longrightarrow> rte_ring_lookup ''rx'' s' = ret (s', r) \<and>
       (\<exists>ring. rs_ring s' = (rs_ring demo_rings)(r \<mapsto> ring) \<and> ring_inv ring \<and> r_capacity ring = 1023)"
    using ring_create_spec [OF demo_rings_ok demo_ring_req, of id demo_stats "''rx''"] by auto
  then show ?thesis by (intro exI [of _ s'] exI [of _ r]) auto
qed

text \<open>
  A count that is refused makes \<^verbatim>\<open>rte_ring_create\<close> return \<^verbatim>\<open>NULL\<close> with \<^verbatim>\<open>rte_errno\<close> set
  to the negative value \<^verbatim>\<open>-EINVAL\<close>, where the documentation announces \<^verbatim>\<open>EINVAL\<close>.
\<close>

theorem ring_create_errno:
  assumes "flags AND RING_F_EXACT_SZ = 0" "\<not> POWEROF2 count \<or> count > RTE_RING_SZ_MASK"
  shows "rte_ring_create v st name count socket_id flags s = ret (s\<lparr>rs_eal := set_errno (- EINVAL) (rs_eal s)\<rparr>, 0)"
  using assms by (simp add: rte_ring_create_def rte_ring_get_memsize_def)

theorem ring_create_errno_witness:
  "rte_ring_create id demo_stats ''rx'' 1000 0 0 demo_rings = ret (demo_rings\<lparr>rs_eal := set_errno (- 22) (rs_eal demo_rings)\<rparr>, 0)"
  using ring_create_errno [of 0 1000 id demo_stats "''rx''" 0 demo_rings] by (simp add: POWEROF2_def)

text \<open>
  C8. From a consistent configuration any sequence of creations and releases by name runs
  to its end, without panic, dangling pointer or blocking; the rings then found by name are those that
  follow from the answers of the calls, and no two names denote the same ring.
\<close>

theorem ring_directory:
  assumes ok: "rings_ok lim s A es" "zone_env_ok (e_env (rs_eal s))"
    and ops: "\<forall>op \<in> set ops. dir_op_ok (ring_req_ok lim) (\<lambda>_. True) op"
  shows "\<exists>s' hs A' es'. dir_run (ring_add v st) ring_look rte_ring_free ops s = ret (s', hs) \<and> length hs = length ops \<and>
    rings_ok lim s' A' es' \<and> ring_names s' = replay ops hs (ring_names s) \<and>
    (\<forall>name r. ring_names s' name = Some r \<longrightarrow> rte_ring_lookup name s' = ret (s', r)) \<and>
    (\<forall>name. ring_names s' name = None \<longrightarrow> rte_ring_lookup name s' = ret (s'\<lparr>rs_eal := set_errno ENOENT (rs_eal s')\<rparr>, 0)) \<and>
    inj_on (ring_names s') (dom (ring_names s'))"
proof -
  have "ring_dir_inv lim s" using ok by (auto simp: ring_dir_inv_def)
  from ring.run_replay [OF this ops] obtain s' hs where
    r: "dir_run (ring_add v st) ring_look rte_ring_free ops s = ret (s', hs)" "length hs = length ops"
    "ring_dir_inv lim s'" "ring_names s' = replay ops hs (ring_names s)" by blast
  then obtain A' es' where ok': "rings_ok lim s' A' es'" by (auto simp: ring_dir_inv_def)
  have "inj_on (ring_names s') (dom (ring_names s'))"
    using ring.names_inj [OF r(3)] by (auto simp: inj_on_def)
  moreover have "rte_ring_lookup name s' = ret (s', a)" if "ring_names s' name = Some a" for name a
    using ring_lookup_ok [OF ok', of name] that by simp
  moreover have "rte_ring_lookup name s' = ret (s'\<lparr>rs_eal := set_errno ENOENT (rs_eal s')\<rparr>, 0)" if "ring_names s' name = None" for name
    using ring_lookup_ok [OF ok', of name] that by simp
  ultimately show ?thesis using r(1,2,4) ok' by blast
qed

theorem ring_directory_witness:
  "\<exists>s' hs. dir_run (ring_add id demo_stats) ring_look rte_ring_free
      [Add (1024, 0, 0) ''rx'', Add (1024, 0, 0) ''tx'', Del ''rx''] demo_rings = ret (s', hs) \<and> length hs = 3 \<and>
      inj_on (ring_names s') (dom (ring_names s'))"
  using ring_directory [OF demo_rings_ok, of "[Add (1024, 0, 0) ''rx'', Add (1024, 0, 0) ''tx'', Del ''rx'']" id demo_stats] demo_ring_req
  by (auto simp: numeral_3_eq_3)

end
