(* ===== verification/Mempool.thy ===== *)
theory Mempool
  imports Ring_Registry Spinlock
begin

text \<open>
  Memory pools, \<^verbatim>\<open>librte_mempool/rte_mempool.h\<close> and \<^verbatim>\<open>rte_mempool_ops.c\<close>: a pool of fixed-size objects over
  a backend of registered callbacks, with a cache of objects per core. The state that the callbacks
  work on is the type variable \<open>'st\<close>; objects are addresses.
\<close>

section \<open>Data\<close>

definition RTE_MEMPOOL_CACHE_MAX_SIZE :: u32 where "RTE_MEMPOOL_CACHE_MAX_SIZE = 512"
definition RTE_MEMPOOL_MAX_OPS_IDX :: u32 where "RTE_MEMPOOL_MAX_OPS_IDX = 16"
definition RTE_MEMPOOL_OPS_NAMESIZE :: nat where "RTE_MEMPOOL_OPS_NAMESIZE = 32"
definition RTE_MEMPOOL_MZ_PREFIX :: string where "RTE_MEMPOOL_MZ_PREFIX = ''MP_''"
definition RTE_MEMPOOL_NAMESIZE :: nat where
  "RTE_MEMPOOL_NAMESIZE = RTE_RING_NAMESIZE - (length RTE_MEMPOOL_MZ_PREFIX + 1) + 1"
definition RTE_MEMPOOL_ALIGN :: u32 where "RTE_MEMPOOL_ALIGN = RTE_CACHE_LINE_SIZE"
definition RTE_MEMPOOL_ALIGN_MASK :: u32 where "RTE_MEMPOOL_ALIGN_MASK = RTE_MEMPOOL_ALIGN - 1"
definition MEMPOOL_F_NO_SPREAD :: u32 where "MEMPOOL_F_NO_SPREAD = 0x0001"
definition MEMPOOL_F_NO_CACHE_ALIGN :: u32 where "MEMPOOL_F_NO_CACHE_ALIGN = 0x0002"
definition MEMPOOL_F_SP_PUT :: u32 where "MEMPOOL_F_SP_PUT = 0x0004"
definition MEMPOOL_F_SC_GET :: u32 where "MEMPOOL_F_SC_GET = 0x0008"
definition MEMPOOL_F_POOL_CREATED :: u32 where "MEMPOOL_F_POOL_CREATED = 0x0010"

text \<open>The array \<open>mc_objs\<close> has \<^verbatim>\<open>3 * RTE_MEMPOOL_CACHE_MAX_SIZE\<close> entries.\<close>

record rte_mempool_cache =
  mc_size :: u32
  mc_flushthresh :: u32
  mc_len :: u32
  mc_objs :: "u64 list"

record rte_mempool_objsz =
  os_elt_size :: u32
  os_header_size :: u32
  os_trailer_size :: u32
  os_total_size :: u32

text \<open>The header of an object, with its own address; a header of a memory chunk likewise.\<close>

record rte_mempool_objhdr =
  oh_addr :: u64
  oh_mp :: u64

record 'cb rte_mempool_memhdr =
  mm_hdr :: u64
  mm_mp :: u64
  mm_addr :: u64
  mm_len :: u64
  mm_free_cb :: "'cb option"
  mm_opaque :: "nat option"

text \<open>
  \<open>mp_mz\<close> is the index of the memory zone; \<open>'cb\<close> is the type of the functions that release a chunk.
\<close>

record 'cb rte_mempool =
  mp_name :: string
  mp_pool_data :: u64
  mp_pool_config :: u64
  mp_mz :: "nat option"
  mp_flags :: u32
  mp_socket_id :: int
  mp_size :: u32
  mp_cache_size :: u32
  mp_elt_size :: u32
  mp_header_size :: u32
  mp_trailer_size :: u32
  mp_private_data_size :: u32
  mp_ops_index :: int
  mp_local_cache :: "rte_mempool_cache list"
  mp_populated_size :: u32
  mp_elt_list :: "rte_mempool_objhdr list"
  mp_nb_mem_chunks :: u32
  mp_mem_list :: "'cb rte_mempool_memhdr list"

text \<open>Callbacks; \<open>None\<close> is a null pointer. Allocation sets fields of the pool.\<close>

record ('cb, 'st) rte_mempool_ops =
  mo_name :: string
  mo_alloc :: "('cb rte_mempool \<Rightarrow> 'st \<Rightarrow> ('st \<times> 'cb rte_mempool \<times> int) res) option"
  mo_free :: "('cb rte_mempool \<Rightarrow> 'st \<Rightarrow> 'st res) option"
  mo_enqueue :: "('cb rte_mempool \<Rightarrow> u64 list \<Rightarrow> u32 \<Rightarrow> 'st \<Rightarrow> ('st \<times> int) res) option"
  mo_dequeue :: "('cb rte_mempool \<Rightarrow> u64 list \<Rightarrow> u32 \<Rightarrow> 'st \<Rightarrow> ('st \<times> u64 list \<times> int) res) option"
  mo_get_count :: "('cb rte_mempool \<Rightarrow> 'st \<Rightarrow> u32 res) option"

record ('cb, 'st) rte_mempool_ops_table =
  ot_sl :: rte_spinlock
  ot_num_ops :: u32
  ot_ops :: "('cb, 'st) rte_mempool_ops list"

section \<open>The table of backends\<close>

definition null_ops :: "('cb, 'st) rte_mempool_ops" where
  "null_ops = \<lparr>mo_name = [], mo_alloc = None, mo_free = None, mo_enqueue = None, mo_dequeue = None, mo_get_count = None\<rparr>"

definition init_ops_table :: "('cb, 'st) rte_mempool_ops_table" where
  "init_ops_table = \<lparr>ot_sl = \<lparr>sl_locked = 0\<rparr>, ot_num_ops = 0, ot_ops = replicate (unat RTE_MEMPOOL_MAX_OPS_IDX) null_ops\<rparr>"

text \<open>
  \<^verbatim>\<open>rte_mempool_register_ops\<close>, with the value it leaves in \<^verbatim>\<open>rte_errno\<close>, if any. A table whose count is
  beyond the array would be overrun.
\<close>

definition rte_mempool_register_ops ::
    "('cb, 'st) rte_mempool_ops \<Rightarrow> ('cb, 'st) rte_mempool_ops_table \<Rightarrow>
     (('cb, 'st) rte_mempool_ops_table \<times> int option \<times> int) res" where
  "rte_mempool_register_ops h t =
     res_bind (lift_opt (rte_spinlock_lock (ot_sl t))) (\<lambda>sl.
       let t = t\<lparr>ot_sl := sl\<rparr>;
           unlock = (\<lambda>t. t\<lparr>ot_sl := rte_spinlock_unlock (ot_sl t)\<rparr>)
       in if ot_num_ops t \<ge> RTE_MEMPOOL_MAX_OPS_IDX then ret (unlock t, None, - ENOSPC)
          else if mo_alloc h = None \<or> mo_enqueue h = None \<or> mo_dequeue h = None \<or> mo_get_count h = None
          then ret (unlock t, None, - EINVAL)
          else if length (mo_name h) \<ge> RTE_MEMPOOL_OPS_NAMESIZE - 1 then ret (unlock t, Some EEXIST, - EEXIST)
          else
            let ops_index = unat (ot_num_ops t);
                ops = h\<lparr>mo_name := fst (snprintf_str RTE_MEMPOOL_OPS_NAMESIZE (mo_name h))\<rparr>;
                t = t\<lparr>ot_num_ops := ot_num_ops t + 1, ot_ops := (ot_ops t)[ops_index := ops]\<rparr>
            in if ops_index \<ge> length (ot_ops t) then abort ''ops table overrun''
               else ret (unlock t, None, int ops_index))"

definition rte_mempool_get_ops ::
    "int \<Rightarrow> ('cb, 'st) rte_mempool_ops_table \<Rightarrow> ('cb, 'st) rte_mempool_ops res" where
  "rte_mempool_get_ops ops_index t =
     (if 0 \<le> ops_index \<and> ops_index < int (unat RTE_MEMPOOL_MAX_OPS_IDX) \<and> nat ops_index < length (ot_ops t)
      then ret (ot_ops t ! nat ops_index)
      else abort ''assert (ops_index >= 0) && (ops_index < RTE_MEMPOOL_MAX_OPS_IDX) failed'')"

text \<open>A call through a null pointer is a fault.\<close>

definition callback :: "'f option \<Rightarrow> 'f res" where
  "callback f = (case f of None \<Rightarrow> abort ''call of a null pointer'' | Some f \<Rightarrow> ret f)"

definition rte_mempool_ops_alloc ::
    "('cb, 'st) rte_mempool_ops_table \<Rightarrow> 'cb rte_mempool \<Rightarrow> 'st \<Rightarrow> ('st \<times> 'cb rte_mempool \<times> int) res" where
  "rte_mempool_ops_alloc t mp st =
     res_bind (rte_mempool_get_ops (mp_ops_index mp) t) (\<lambda>ops. res_bind (callback (mo_alloc ops)) (\<lambda>f. f mp st))"

definition rte_mempool_ops_free ::
    "('cb, 'st) rte_mempool_ops_table \<Rightarrow> 'cb rte_mempool \<Rightarrow> 'st \<Rightarrow> 'st res" where
  "rte_mempool_ops_free t mp st =
     res_bind (rte_mempool_get_ops (mp_ops_index mp) t) (\<lambda>ops. case mo_free ops of None \<Rightarrow> ret st | Some f \<Rightarrow> f mp st)"

definition rte_mempool_ops_dequeue_bulk ::
    "('cb, 'st) rte_mempool_ops_table \<Rightarrow> 'cb rte_mempool \<Rightarrow> u64 list \<Rightarrow> u32 \<Rightarrow> 'st \<Rightarrow> ('st \<times> u64 list \<times> int) res" where
  "rte_mempool_ops_dequeue_bulk t mp obj_table n st =
     res_bind (rte_mempool_get_ops (mp_ops_index mp) t) (\<lambda>ops. res_bind (callback (mo_dequeue ops)) (\<lambda>f. f mp obj_table n st))"

definition rte_mempool_ops_enqueue_bulk ::
    "('cb, 'st) rte_mempool_ops_table \<Rightarrow> 'cb rte_mempool \<Rightarrow> u64 list \<Rightarrow> u32 \<Rightarrow> 'st \<Rightarrow> ('st \<times> int) res" where
  "rte_mempool_ops_enqueue_bulk t mp obj_table n st =
     res_bind (rte_mempool_get_ops (mp_ops_index mp) t) (\<lambda>ops. res_bind (callback (mo_enqueue ops)) (\<lambda>f. f mp obj_table n st))"

definition rte_mempool_ops_get_count ::
    "('cb, 'st) rte_mempool_ops_table \<Rightarrow> 'cb rte_mempool \<Rightarrow> 'st \<Rightarrow> u32 res" where
  "rte_mempool_ops_get_count t mp st =
     res_bind (rte_mempool_get_ops (mp_ops_index mp) t) (\<lambda>ops. res_bind (callback (mo_get_count ops)) (\<lambda>f. f mp st))"

text \<open>The loop of \<^verbatim>\<open>rte_mempool_set_ops_byname\<close> looks at the registered part of the table.\<close>

definition rte_mempool_set_ops_byname ::
    "('cb, 'st) rte_mempool_ops_table \<Rightarrow> 'cb rte_mempool \<Rightarrow> string \<Rightarrow> u64 \<Rightarrow> 'cb rte_mempool \<times> int" where
  "rte_mempool_set_ops_byname t mp name pool_config =
     (if mp_flags mp AND MEMPOOL_F_POOL_CREATED \<noteq> 0 then (mp, - EEXIST)
      else case first_index (\<lambda>ops. name = mo_name ops) (take (unat (ot_num_ops t)) (ot_ops t)) of
        None \<Rightarrow> (mp, - EINVAL)
      | Some i \<Rightarrow> (mp\<lparr>mp_ops_index := int i, mp_pool_config := pool_config\<rparr>, 0))"

section \<open>Caches\<close>

definition rte_mempool_cache_flush ::
    "('cb, 'st) rte_mempool_ops_table \<Rightarrow> rte_mempool_cache \<Rightarrow> 'cb rte_mempool \<Rightarrow> 'st \<Rightarrow> ('st \<times> rte_mempool_cache) res" where
  "rte_mempool_cache_flush t cache mp st =
     res_bind (rte_mempool_ops_enqueue_bulk t mp (mc_objs cache) (mc_len cache) st) (\<lambda>(st, _).
       ret (st, cache\<lparr>mc_len := 0\<rparr>))"

text \<open>The default cache of a core, by its index.\<close>

definition rte_mempool_default_cache :: "'cb rte_mempool \<Rightarrow> u32 \<Rightarrow> nat option" where
  "rte_mempool_default_cache mp lcore_id =
     (if mp_cache_size mp = 0 then None else if lcore_id \<ge> RTE_MAX_LCORE then None else Some (unat lcore_id))"

text \<open>
  \<^verbatim>\<open>__mempool_generic_put\<close>: to copy objects beyond the end of the cache, or more than the caller has, is a
  fault.
\<close>

definition mempool_generic_put ::
    "('cb, 'st) rte_mempool_ops_table \<Rightarrow> 'cb rte_mempool \<Rightarrow> u64 list \<Rightarrow> u32 \<Rightarrow> rte_mempool_cache option \<Rightarrow> 'st \<Rightarrow>
     ('st \<times> rte_mempool_cache option) res" where
  "mempool_generic_put t mp obj_table n cache st =
     (let ring_enqueue = res_bind (rte_mempool_ops_enqueue_bulk t mp obj_table n st) (\<lambda>(st, _). ret (st, cache))
      in case cache of
        None \<Rightarrow> ring_enqueue
      | Some c \<Rightarrow>
          if n > RTE_MEMPOOL_CACHE_MAX_SIZE then ring_enqueue
          else if unat (mc_len c) + unat n > length (mc_objs c) \<or> unat n > length obj_table then abort ''copy out of bounds''
          else
            let c = c\<lparr>mc_objs := copy_slice obj_table 0 (mc_objs c) (unat (mc_len c)) (unat n), mc_len := mc_len c + n\<rparr>
            in if mc_len c \<ge> mc_flushthresh c then
                 res_bind (rte_mempool_ops_enqueue_bulk t mp (drop (unat (mc_size c)) (mc_objs c)) (mc_len c - mc_size c) st)
                   (\<lambda>(st, _). ret (st, Some (c\<lparr>mc_len := mc_size c\<rparr>)))
               else ret (st, Some c))"

definition rte_mempool_generic_put ::
    "('cb, 'st) rte_mempool_ops_table \<Rightarrow> 'cb rte_mempool \<Rightarrow> u64 list \<Rightarrow> u32 \<Rightarrow> rte_mempool_cache option \<Rightarrow> 'st \<Rightarrow>
     ('st \<times> rte_mempool_cache option) res" where
  "rte_mempool_generic_put t mp obj_table n cache st = mempool_generic_put t mp obj_table n cache st"

text \<open>The cache of a core is read from the pool and written back to it.\<close>

definition get_cache :: "'cb rte_mempool \<Rightarrow> nat option \<Rightarrow> rte_mempool_cache option res" where
  "get_cache mp i = (case i of None \<Rightarrow> ret None
     | Some i \<Rightarrow> if i < length (mp_local_cache mp) then ret (Some (mp_local_cache mp ! i)) else abort ''no local cache'')"

definition set_cache :: "nat option \<Rightarrow> rte_mempool_cache option \<Rightarrow> 'cb rte_mempool \<Rightarrow> 'cb rte_mempool" where
  "set_cache i c mp = (case (i, c) of (Some i, Some c) \<Rightarrow> mp\<lparr>mp_local_cache := (mp_local_cache mp)[i := c]\<rparr> | _ \<Rightarrow> mp)"

definition rte_mempool_put_bulk ::
    "('cb, 'st) rte_mempool_ops_table \<Rightarrow> u32 \<Rightarrow> 'cb rte_mempool \<Rightarrow> u64 list \<Rightarrow> u32 \<Rightarrow> 'st \<Rightarrow> ('st \<times> 'cb rte_mempool) res" where
  "rte_mempool_put_bulk t lcore_id mp obj_table n st =
     (let i = rte_mempool_default_cache mp lcore_id
      in res_bind (get_cache mp i) (\<lambda>cache.
         res_bind (rte_mempool_generic_put t mp obj_table n cache st) (\<lambda>(st, cache). ret (st, set_cache i cache mp))))"

definition rte_mempool_put ::
    "('cb, 'st) rte_mempool_ops_table \<Rightarrow> u32 \<Rightarrow> 'cb rte_mempool \<Rightarrow> u64 \<Rightarrow> 'st \<Rightarrow> ('st \<times> 'cb rte_mempool) res" where
  "rte_mempool_put t lcore_id mp obj st = rte_mempool_put_bulk t lcore_id mp [obj] 1 st"

text \<open>The loop that fills the response from the top of the cache, for \<open>k\<close> more objects.\<close>

fun cache_fill :: "nat \<Rightarrow> u32 \<Rightarrow> u32 \<Rightarrow> u64 list \<Rightarrow> u64 list \<Rightarrow> u64 list option" where
  "cache_fill 0 index len objs tbl = Some tbl"
| "cache_fill (Suc k) index len objs tbl = do {
     v \<leftarrow> arr_get objs len;
     tbl \<leftarrow> arr_set tbl index v;
     cache_fill k (index + 1) (len - 1) objs tbl
   }"

definition fill_response ::
    "u64 list \<Rightarrow> u32 \<Rightarrow> rte_mempool_cache \<Rightarrow> 'st \<Rightarrow> ('st \<times> rte_mempool_cache option \<times> u64 list \<times> int) res" where
  "fill_response obj_table n c st = (case cache_fill (unat n) 0 (mc_len c - 1) (mc_objs c) obj_table of
     None \<Rightarrow> abort ''cache index''
   | Some tbl \<Rightarrow> ret (st, Some (c\<lparr>mc_len := mc_len c - n\<rparr>), tbl, 0))"

text \<open>
  \<^verbatim>\<open>__mempool_generic_get\<close>: the state, the cache, the caller's table and the return value.
\<close>

definition mempool_generic_get ::
    "('cb, 'st) rte_mempool_ops_table \<Rightarrow> 'cb rte_mempool \<Rightarrow> u64 list \<Rightarrow> u32 \<Rightarrow> rte_mempool_cache option \<Rightarrow> 'st \<Rightarrow>
     ('st \<times> rte_mempool_cache option \<times> u64 list \<times> int) res" where
  "mempool_generic_get t mp obj_table n cache st =
     (let ring_dequeue = (\<lambda>cache st. res_bind (rte_mempool_ops_dequeue_bulk t mp obj_table n st) (\<lambda>(st, tbl, r).
            ret (st, cache, tbl, r)))
      in case cache of
        None \<Rightarrow> ring_dequeue None st
      | Some c \<Rightarrow>
          if n \<ge> mc_size c then ring_dequeue (Some c) st
          else if mc_len c < n then
            let req = n + (mc_size c - mc_len c)
            in res_bind (rte_mempool_ops_dequeue_bulk t mp (drop (unat (mc_len c)) (mc_objs c)) req st) (\<lambda>(st, tbl, r).
                 let c = c\<lparr>mc_objs := take (unat (mc_len c)) (mc_objs c) @ tbl\<rparr>
                 in if r < 0 then ring_dequeue (Some c) st
                    else fill_response obj_table n (c\<lparr>mc_len := mc_len c + req\<rparr>) st)
          else fill_response obj_table n c st)"

definition rte_mempool_generic_get ::
    "('cb, 'st) rte_mempool_ops_table \<Rightarrow> 'cb rte_mempool \<Rightarrow> u64 list \<Rightarrow> u32 \<Rightarrow> rte_mempool_cache option \<Rightarrow> 'st \<Rightarrow>
     ('st \<times> rte_mempool_cache option \<times> u64 list \<times> int) res" where
  "rte_mempool_generic_get t mp obj_table n cache st = mempool_generic_get t mp obj_table n cache st"

definition rte_mempool_get_bulk ::
    "('cb, 'st) rte_mempool_ops_table \<Rightarrow> u32 \<Rightarrow> 'cb rte_mempool \<Rightarrow> u64 list \<Rightarrow> u32 \<Rightarrow> 'st \<Rightarrow>
     ('st \<times> 'cb rte_mempool \<times> u64 list \<times> int) res" where
  "rte_mempool_get_bulk t lcore_id mp obj_table n st =
     (let i = rte_mempool_default_cache mp lcore_id
      in res_bind (get_cache mp i) (\<lambda>cache.
         res_bind (rte_mempool_generic_get t mp obj_table n cache st) (\<lambda>(st, cache, tbl, r).
           ret (st, set_cache i cache mp, tbl, r))))"

definition rte_mempool_get ::
    "('cb, 'st) rte_mempool_ops_table \<Rightarrow> u32 \<Rightarrow> 'cb rte_mempool \<Rightarrow> u64 \<Rightarrow> 'st \<Rightarrow> ('st \<times> 'cb rte_mempool \<times> u64 list \<times> int) res" where
  "rte_mempool_get t lcore_id mp obj_p st = rte_mempool_get_bulk t lcore_id mp [obj_p] 1 st"

section \<open>Queries\<close>

definition rte_mempool_avail_count :: "('cb, 'st) rte_mempool_ops_table \<Rightarrow> 'cb rte_mempool \<Rightarrow> 'st \<Rightarrow> u32 res" where
  "rte_mempool_avail_count t mp st =
     res_bind (rte_mempool_ops_get_count t mp st) (\<lambda>count.
       if mp_cache_size mp = 0 then ret count
       else if length (mp_local_cache mp) < unat RTE_MAX_LCORE then abort ''no local cache''
       else
         let count = foldl (\<lambda>count i. count + mc_len (mp_local_cache mp ! i)) count [0..<unat RTE_MAX_LCORE]
         in ret (if count > mp_size mp then mp_size mp else count))"

definition rte_mempool_in_use_count :: "('cb, 'st) rte_mempool_ops_table \<Rightarrow> 'cb rte_mempool \<Rightarrow> 'st \<Rightarrow> u32 res" where
  "rte_mempool_in_use_count t mp st = res_bind (rte_mempool_avail_count t mp st) (\<lambda>c. ret (mp_size mp - c))"

definition rte_mempool_full :: "('cb, 'st) rte_mempool_ops_table \<Rightarrow> 'cb rte_mempool \<Rightarrow> 'st \<Rightarrow> bool res" where
  "rte_mempool_full t mp st = res_bind (rte_mempool_avail_count t mp st) (\<lambda>c. ret (c = mp_size mp))"

definition rte_mempool_empty :: "('cb, 'st) rte_mempool_ops_table \<Rightarrow> 'cb rte_mempool \<Rightarrow> 'st \<Rightarrow> bool res" where
  "rte_mempool_empty t mp st = res_bind (rte_mempool_avail_count t mp st) (\<lambda>c. ret (c = 0))"

text \<open>\<^verbatim>\<open>rte_mempool_audit\<close> without the debug cookies: only the caches are looked at.\<close>

definition mempool_audit_cache :: "'cb rte_mempool \<Rightarrow> unit res" where
  "mempool_audit_cache mp =
     (if mp_cache_size mp = 0 then ret ()
      else if length (mp_local_cache mp) < unat RTE_MAX_LCORE then abort ''no local cache''
      else if \<exists>i \<in> set [0..<unat RTE_MAX_LCORE]. mc_len (mp_local_cache mp ! i) > mc_flushthresh (mp_local_cache mp ! i)
      then abort ''MEMPOOL: invalid cache len'' else ret ())"

definition rte_mempool_audit :: "'cb rte_mempool \<Rightarrow> unit res" where
  "rte_mempool_audit mp = mempool_audit_cache mp"

end
