(* ===== verification/Mempool_Ring.thy ===== *)
theory Mempool_Ring
  imports Mempool
begin

text \<open>
  The ring backend of memory pools, \<^verbatim>\<open>driver/ring/rte_mempool_ring.c\<close>: the free objects of a pool are in a
  ring that is found through \<^verbatim>\<open>pool_data\<close>. The callbacks work on the state of the ring library.
\<close>

type_synonym chunk_cb = "nat option \<Rightarrow> rings \<Rightarrow> rings res"
type_synonym mempool = "chunk_cb rte_mempool"
type_synonym mempool_ops = "(chunk_cb, rings) rte_mempool_ops"
type_synonym mempool_ops_table = "(chunk_cb, rings) rte_mempool_ops_table"

text \<open>A pointer that is no ring, and a ring operation that leaves its arrays, are faults.\<close>

definition with_ring :: "mempool \<Rightarrow> rings \<Rightarrow> (u64 rte_ring \<Rightarrow> 'a option) \<Rightarrow> 'a res" where
  "with_ring mp s f = (case rs_ring s (mp_pool_data mp) of
     None \<Rightarrow> abort ''pool_data is no ring'' | Some r \<Rightarrow> lift_opt (f r))"

definition put_ring :: "mempool \<Rightarrow> u64 rte_ring \<Rightarrow> rings \<Rightarrow> rings" where
  "put_ring mp r s = s\<lparr>rs_ring := (rs_ring s)(mp_pool_data mp := Some r)\<rparr>"

definition common_ring_mp_enqueue :: "mempool \<Rightarrow> u64 list \<Rightarrow> u32 \<Rightarrow> rings \<Rightarrow> (rings \<times> int) res" where
  "common_ring_mp_enqueue mp obj_table n s =
     res_bind (with_ring mp s (\<lambda>r. rte_ring_mp_enqueue_bulk r obj_table n)) (\<lambda>(r, k, _).
       ret (put_ring mp r s, if k = 0 then - ENOBUFS else 0))"

definition common_ring_sp_enqueue :: "mempool \<Rightarrow> u64 list \<Rightarrow> u32 \<Rightarrow> rings \<Rightarrow> (rings \<times> int) res" where
  "common_ring_sp_enqueue mp obj_table n s =
     res_bind (with_ring mp s (\<lambda>r. rte_ring_sp_enqueue_bulk r obj_table n)) (\<lambda>(r, k, _).
       ret (put_ring mp r s, if k = 0 then - ENOBUFS else 0))"

definition common_ring_mc_dequeue :: "mempool \<Rightarrow> u64 list \<Rightarrow> u32 \<Rightarrow> rings \<Rightarrow> (rings \<times> u64 list \<times> int) res" where
  "common_ring_mc_dequeue mp obj_table n s =
     res_bind (with_ring mp s (\<lambda>r. rte_ring_mc_dequeue_bulk r obj_table n)) (\<lambda>(r, tbl, k, _).
       ret (put_ring mp r s, tbl, if k = 0 then - ENOBUFS else 0))"

definition common_ring_sc_dequeue :: "mempool \<Rightarrow> u64 list \<Rightarrow> u32 \<Rightarrow> rings \<Rightarrow> (rings \<times> u64 list \<times> int) res" where
  "common_ring_sc_dequeue mp obj_table n s =
     res_bind (with_ring mp s (\<lambda>r. rte_ring_sc_dequeue_bulk r obj_table n)) (\<lambda>(r, tbl, k, _).
       ret (put_ring mp r s, tbl, if k = 0 then - ENOBUFS else 0))"

definition common_ring_get_count :: "mempool \<Rightarrow> rings \<Rightarrow> u32 res" where
  "common_ring_get_count mp s = with_ring mp s (\<lambda>r. Some (rte_ring_count r))"

text \<open>
  \<^verbatim>\<open>common_ring_alloc\<close>. A failed creation whose error code is negative already is returned negated.
\<close>

definition common_ring_alloc ::
    "(u64 \<Rightarrow> u64) \<Rightarrow> rte_malloc_socket_stats \<Rightarrow> mempool \<Rightarrow> rings \<Rightarrow> (rings \<times> mempool \<times> int) res" where
  "common_ring_alloc virt2iova st mp s =
     (let (rg_name, n) = snprintf_str RTE_RING_NAMESIZE (RTE_MEMPOOL_MZ_PREFIX @ mp_name mp)
      in if n < 0 \<or> n \<ge> int RTE_RING_NAMESIZE
         then ret (s\<lparr>rs_eal := set_errno ENAMETOOLONG (rs_eal s)\<rparr>, mp, - ENAMETOOLONG)
         else
           let rg_flags = (if mp_flags mp AND MEMPOOL_F_SP_PUT \<noteq> 0 then RING_F_SP_ENQ else 0) OR
                 (if mp_flags mp AND MEMPOOL_F_SC_GET \<noteq> 0 then RING_F_SC_DEQ else 0)
           in res_bind (rte_ring_create virt2iova st rg_name (rte_align32pow2 (mp_size mp + 1)) (mp_socket_id mp) rg_flags s)
                (\<lambda>(s, r). if r = 0 then ret (s, mp, - e_errno (rs_eal s)) else ret (s, mp\<lparr>mp_pool_data := r\<rparr>, 0)))"

definition common_ring_free :: "mempool \<Rightarrow> rings \<Rightarrow> rings res" where
  "common_ring_free mp s = rte_ring_free (mp_pool_data mp) s"

section \<open>Registration\<close>

definition ops_mp_mc :: "(u64 \<Rightarrow> u64) \<Rightarrow> rte_malloc_socket_stats \<Rightarrow> mempool_ops" where
  "ops_mp_mc v st = \<lparr>mo_name = ''ring_mp_mc'', mo_alloc = Some (common_ring_alloc v st), mo_free = Some common_ring_free,
     mo_enqueue = Some common_ring_mp_enqueue, mo_dequeue = Some common_ring_mc_dequeue, mo_get_count = Some common_ring_get_count\<rparr>"

definition ops_sp_sc :: "(u64 \<Rightarrow> u64) \<Rightarrow> rte_malloc_socket_stats \<Rightarrow> mempool_ops" where
  "ops_sp_sc v st = \<lparr>mo_name = ''ring_sp_sc'', mo_alloc = Some (common_ring_alloc v st), mo_free = Some common_ring_free,
     mo_enqueue = Some common_ring_sp_enqueue, mo_dequeue = Some common_ring_sc_dequeue, mo_get_count = Some common_ring_get_count\<rparr>"

definition ops_mp_sc :: "(u64 \<Rightarrow> u64) \<Rightarrow> rte_malloc_socket_stats \<Rightarrow> mempool_ops" where
  "ops_mp_sc v st = \<lparr>mo_name = ''ring_mp_sc'', mo_alloc = Some (common_ring_alloc v st), mo_free = Some common_ring_free,
     mo_enqueue = Some common_ring_mp_enqueue, mo_dequeue = Some common_ring_sc_dequeue, mo_get_count = Some common_ring_get_count\<rparr>"

definition ops_sp_mc :: "(u64 \<Rightarrow> u64) \<Rightarrow> rte_malloc_socket_stats \<Rightarrow> mempool_ops" where
  "ops_sp_mc v st = \<lparr>mo_name = ''ring_sp_mc'', mo_alloc = Some (common_ring_alloc v st), mo_free = Some common_ring_free,
     mo_enqueue = Some common_ring_sp_enqueue, mo_dequeue = Some common_ring_mc_dequeue, mo_get_count = Some common_ring_get_count\<rparr>"

text \<open>
  \<^verbatim>\<open>MEMPOOL_REGISTER_OPS\<close>: constructors register the four in turn; their results are dropped.
\<close>

definition MEMPOOL_REGISTER_OPS :: "mempool_ops \<Rightarrow> mempool_ops_table \<Rightarrow> mempool_ops_table res" where
  "MEMPOOL_REGISTER_OPS ops t = res_bind (rte_mempool_register_ops ops t) (\<lambda>(t, _). ret t)"

definition register_ring_ops :: "(u64 \<Rightarrow> u64) \<Rightarrow> rte_malloc_socket_stats \<Rightarrow> mempool_ops_table \<Rightarrow> mempool_ops_table res" where
  "register_ring_ops v st t =
     res_bind (MEMPOOL_REGISTER_OPS (ops_mp_mc v st) t) (\<lambda>t. res_bind (MEMPOOL_REGISTER_OPS (ops_sp_sc v st) t) (\<lambda>t.
     res_bind (MEMPOOL_REGISTER_OPS (ops_mp_sc v st) t) (\<lambda>t. MEMPOOL_REGISTER_OPS (ops_sp_mc v st) t)))"

end
