(* ===== verification/Mempool_Cache.thy ===== *)
theory Mempool_Cache
  imports Mempool_Ring "HOL-Library.Multiset"
begin

text \<open>
  The contract of a backend, and what get and put with caches do on top of it: no object is lost or
  duplicated, and the caches stay within their arrays.
\<close>

section \<open>Well-formed caches\<close>

text \<open>The sizes that \<^verbatim>\<open>mempool_cache_init\<close> sets up, and the bound that the audit checks.\<close>

definition cache_ok :: "rte_mempool_cache \<Rightarrow> bool" where
  "cache_ok c \<longleftrightarrow> mc_len c \<le> mc_flushthresh c \<and> mc_size c \<le> mc_flushthresh c \<and> mc_size c \<le> 512 \<and>
     mc_flushthresh c \<le> 768 \<and> length (mc_objs c) = 1536"

definition cached :: "rte_mempool_cache \<Rightarrow> u64 list" where
  "cached c = take (unat (mc_len c)) (mc_objs c)"

text \<open>The cache taken part in a call, if any.\<close>

definition ocached :: "rte_mempool_cache option \<Rightarrow> u64 list" where
  "ocached c = (case c of None \<Rightarrow> [] | Some c \<Rightarrow> cached c)"

definition ocache_ok :: "rte_mempool_cache option \<Rightarrow> bool" where
  "ocache_ok c \<longleftrightarrow> (case c of None \<Rightarrow> True | Some c \<Rightarrow> cache_ok c)"

lemma cache_okD:
  assumes "cache_ok c"
  shows "unat (mc_len c) \<le> unat (mc_flushthresh c)" "unat (mc_size c) \<le> unat (mc_flushthresh c)"
    "unat (mc_size c) \<le> 512" "unat (mc_flushthresh c) \<le> 768" "length (mc_objs c) = 1536"
  using assms by (simp_all add: cache_ok_def word_le_nat_alt)

lemma length_cached: "cache_ok c \<Longrightarrow> length (cached c) = unat (mc_len c)"
  using cache_okD [of c] by (simp add: cached_def)

lemma take_copy_slice:
  assumes "k + n \<le> length dst" "n \<le> length src"
  shows "take (k + n) (copy_slice src 0 dst k n) = take k dst @ take n src"
  by (rule nth_equalityI) (use assms in \<open>auto simp: nth_copy_slice nth_append\<close>)

lemma cache_fill_eq:
  assumes "k \<le> L" "L \<le> length objs" "L < 2 ^ 32" "i + k \<le> length tbl" "i + k < 2 ^ 32"
  shows "cache_fill k (of_nat i) (of_nat L - 1) objs tbl = Some (take i tbl @ rev (drop (L - k) (take L objs)) @ drop (i + k) tbl)"
  using assms
proof (induction k arbitrary: i L tbl)
  case (Suc k)
  then obtain M where L: "L = Suc M" by (cases L) auto
  have i: "unat (of_nat i :: u32) = i" "unat (of_nat M :: u32) = M" using Suc.prems L
    by (simp_all add: unsigned_of_nat take_bit_nat_eq_self)
  have "cache_fill (Suc k) (of_nat i) (of_nat L - 1) objs tbl =
      cache_fill k (of_nat (Suc i)) (of_nat M - 1) objs (tbl[i := objs ! M])"
    using Suc.prems i L by (simp add: arr_get_def arr_set_def algebra_simps)
  also have "\<dots> = Some (take (Suc i) (tbl[i := objs ! M]) @ rev (drop (M - k) (take M objs)) @ drop (Suc i + k) (tbl[i := objs ! M]))"
    using Suc.prems L by (intro Suc.IH) simp_all
  also have "take (Suc i) (tbl[i := objs ! M]) = take i tbl @ [objs ! M]"
    using Suc.prems by (simp add: take_Suc_conv_app_nth)
  also have "drop (Suc i + k) (tbl[i := objs ! M]) = drop (i + Suc k) tbl" by simp
  also have "(take i tbl @ [objs ! M]) @ rev (drop (M - k) (take M objs)) @ drop (i + Suc k) tbl =
      take i tbl @ rev (drop (L - Suc k) (take L objs)) @ drop (i + Suc k) tbl"
    using Suc.prems L by (simp add: take_Suc_conv_app_nth)
  finally show ?case .
qed simp

lemma mset_take_drop: "mset (take n xs) + mset (drop n xs) = mset xs"
  by (simp flip: mset_append)

text \<open>A backend and a cache trade objects; the other caches hold \<open>l\<close>.\<close>

lemma trade_get:
  assumes "f + c = b' + l + c'" "b' + c' + x = b + c"
  shows "f + x = b + (l :: 'a multiset)"
proof -
  have "(f + x) + c = (f + c) + x" by (simp add: ac_simps)
  also have "\<dots> = (b' + c' + x) + l" unfolding assms(1) by (simp add: ac_simps)
  also have "\<dots> = (b + l) + c" unfolding assms(2) by (simp add: ac_simps)
  finally show ?thesis by simp
qed

lemma trade_put:
  assumes "f + c = b' + l + c'" "b' + c' = b + c + x"
  shows "f = b + l + (x :: 'a multiset)"
proof -
  have "f + c = (b' + c') + l" unfolding assms(1) by (simp add: ac_simps)
  also have "\<dots> = (b + l + x) + c" unfolding assms(2) by (simp add: ac_simps)
  finally show ?thesis by simp
qed

section \<open>Sequences of calls\<close>

text \<open>
  Clients on any cores get objects and put back some that they hold: \<open>n\<close> objects from the \<open>k\<close>-th on.
\<close>

datatype pool_op = PoolGet u32 u32 | PoolPut u32 nat u32

fun pool_run ::
    "('cb, 'st) rte_mempool_ops_table \<Rightarrow> pool_op list \<Rightarrow> 'cb rte_mempool \<Rightarrow> 'st \<Rightarrow> u64 list \<Rightarrow>
     ('cb rte_mempool \<times> 'st \<times> u64 list) res" where
  "pool_run t [] mp st held = ret (mp, st, held)"
| "pool_run t (PoolGet lcore n # ops) mp st held =
     res_bind (rte_mempool_get_bulk t lcore mp (replicate (unat n) 0) n st) (\<lambda>(st, mp, tbl, r).
       pool_run t ops mp st (if r = 0 then tbl @ held else held))"
| "pool_run t (PoolPut lcore k n # ops) mp st held =
     (if k + unat n \<le> length held
      then res_bind (rte_mempool_put_bulk t lcore mp (take (unat n) (drop k held)) n st) (\<lambda>(st, mp).
        pool_run t ops mp st (take k held @ drop (k + unat n) held))
      else pool_run t ops mp st held)"

section \<open>The contract of a backend\<close>

text \<open>
  \<open>bag\<close>: the objects a backend holds, \<open>cap\<close>: how many it can hold. The laws are those of the calls
  through the table of backends; they only look at the fields of the pool outside its caches.
\<close>

locale pool_backend =
  fixes t :: "('cb, 'st) rte_mempool_ops_table"
    and pinv :: "'cb rte_mempool \<Rightarrow> 'st \<Rightarrow> bool"
    and bag :: "'cb rte_mempool \<Rightarrow> 'st \<Rightarrow> u64 list"
    and cap :: "'cb rte_mempool \<Rightarrow> 'st \<Rightarrow> nat"
  assumes enqueue_law: "\<lbrakk>pinv mp st; unat n \<le> length objs; length (bag mp st) + unat n \<le> cap mp st\<rbrakk> \<Longrightarrow>
      \<exists>st' r. rte_mempool_ops_enqueue_bulk t mp objs n st = ret (st', r) \<and> pinv mp st' \<and>
        bag mp st' = bag mp st @ take (unat n) objs \<and> cap mp st' = cap mp st \<and> (n \<noteq> 0 \<longrightarrow> r = 0)"
    and dequeue_law: "\<lbrakk>pinv mp st; unat n \<le> length tbl\<rbrakk> \<Longrightarrow>
      \<exists>st' tbl' r. rte_mempool_ops_dequeue_bulk t mp tbl n st = ret (st', tbl', r) \<and> pinv mp st' \<and> cap mp st' = cap mp st \<and>
        (if n \<noteq> 0 \<and> unat n \<le> length (bag mp st)
         then r = 0 \<and> tbl' = take (unat n) (bag mp st) @ drop (unat n) tbl \<and> bag mp st' = drop (unat n) (bag mp st)
         else r = - ENOBUFS \<and> tbl' = tbl \<and> bag mp st' = bag mp st)"
    and count_law: "pinv mp st \<Longrightarrow> \<exists>c. rte_mempool_ops_get_count t mp st = ret c \<and> unat c = length (bag mp st)"
    and frame: "pinv (mp\<lparr>mp_local_cache := cs\<rparr>) st = pinv mp st" "bag (mp\<lparr>mp_local_cache := cs\<rparr>) st = bag mp st"
      "cap (mp\<lparr>mp_local_cache := cs\<rparr>) st = cap mp st"
begin

lemma generic_put_ok:
  assumes p: "pinv mp st" and c: "ocache_ok c" and n: "unat n \<le> length tbl"
    and room: "length (bag mp st) + length (ocached c) + unat n \<le> cap mp st"
  shows "\<exists>st' c'. rte_mempool_generic_put t mp tbl n c st = ret (st', c') \<and> pinv mp st' \<and> ocache_ok c' \<and>
    (c' = None \<longleftrightarrow> c = None) \<and> cap mp st' = cap mp st \<and>
    mset (bag mp st') + mset (ocached c') = mset (bag mp st) + mset (ocached c) + mset (take (unat n) tbl)"
proof (cases "c = None \<or> n > RTE_MEMPOOL_CACHE_MAX_SIZE")
  case True
  have "length (bag mp st) + unat n \<le> cap mp st" using room by simp
  from enqueue_law [OF p n this] show ?thesis using True c
    by (auto simp: rte_mempool_generic_put_def mempool_generic_put_def Let_def split: option.splits)
next
  case False
  then obtain k where k: "c = Some k" by (cases c) simp_all
  have ok: "cache_ok k" using c k by (simp add: ocache_ok_def)
  note d = cache_okD [OF ok]
  have n5: "unat n \<le> 512" using False by (simp add: RTE_MEMPOOL_CACHE_MAX_SIZE_def word_less_nat_alt)
  let ?k = "k\<lparr>mc_objs := copy_slice tbl 0 (mc_objs k) (unat (mc_len k)) (unat n), mc_len := mc_len k + n\<rparr>"
  have len: "unat (mc_len k + n) = unat (mc_len k) + unat n" using d n5 by (subst unat_add_no_overflow) simp_all
  have cd: "cached ?k = cached k @ take (unat n) tbl"
    using take_copy_slice [of "unat (mc_len k)" "unat n" "mc_objs k" tbl] d n5 n by (simp add: cached_def len)
  have nb: "\<not> (unat (mc_len k) + unat n > length (mc_objs k) \<or> unat n > length tbl)" using d n5 n by simp
  show ?thesis
  proof (cases "mc_len k + n \<ge> mc_flushthresh k")
    case ge: True
    have sz: "unat (mc_size k) \<le> unat (mc_len k) + unat n" using ge d(2) len by (simp add: word_le_nat_alt)
    have sub: "unat (mc_len k + n - mc_size k) = unat (mc_len k) + unat n - unat (mc_size k)"
      using sz len by (subst unat_sub_no_underflow) (simp_all add: word_le_nat_alt)
    have fit: "unat (mc_len k + n - mc_size k) \<le> length (drop (unat (mc_size k)) (mc_objs ?k))" using sub d n5 by simp
    have "length (cached k) + unat n = unat (mc_len k) + unat n" using length_cached [OF ok] by simp
    then have "length (bag mp st) + unat (mc_len k + n - mc_size k) \<le> cap mp st" using room k sub by (simp add: ocached_def)
    from enqueue_law [OF p fit this] obtain st' r where e:
      "rte_mempool_ops_enqueue_bulk t mp (drop (unat (mc_size k)) (mc_objs ?k)) (mc_len k + n - mc_size k) st = ret (st', r)"
      "pinv mp st'" "bag mp st' = bag mp st @ take (unat (mc_len k + n - mc_size k)) (drop (unat (mc_size k)) (mc_objs ?k))"
      "cap mp st' = cap mp st" by blast
    have split: "take (unat (mc_size k)) (mc_objs ?k) @ take (unat (mc_len k + n - mc_size k)) (drop (unat (mc_size k)) (mc_objs ?k)) = cached ?k"
      using sz by (simp add: sub cached_def len take_add [symmetric])
    have "mset (bag mp st') + mset (take (unat (mc_size k)) (mc_objs ?k)) = mset (bag mp st) + mset (cached ?k)"
      by (simp add: e(3) flip: split)
    then have "mset (bag mp st') + mset (cached (?k\<lparr>mc_len := mc_size k\<rparr>)) = mset (bag mp st) + mset (cached k) + mset (take (unat n) tbl)"
      by (simp add: cd) (simp add: cached_def)
    moreover have "cache_ok (?k\<lparr>mc_len := mc_size k\<rparr>)" using ok by (simp add: cache_ok_def)
    ultimately show ?thesis using e False ge nb k
      by (intro exI [of _ st'] exI [of _ "Some (?k\<lparr>mc_len := mc_size k\<rparr>)"])
        (simp add: rte_mempool_generic_put_def mempool_generic_put_def Let_def ocache_ok_def ocached_def)
  next
    case lt: False
    have "cache_ok ?k" using ok lt by (simp add: cache_ok_def)
    then show ?thesis using False lt nb p cd k
      by (intro exI [of _ st] exI [of _ "Some ?k"])
        (simp add: rte_mempool_generic_put_def mempool_generic_put_def Let_def ocache_ok_def ocached_def)
  qed
qed

text \<open>The outcome of a get: all objects asked for, taken from the backend and the cache, or none.\<close>

definition get_post :: "'cb rte_mempool \<Rightarrow> 'st \<Rightarrow> rte_mempool_cache option \<Rightarrow> u64 list \<Rightarrow> u32 \<Rightarrow>
    'st \<Rightarrow> rte_mempool_cache option \<Rightarrow> u64 list \<Rightarrow> int \<Rightarrow> bool" where
  "get_post mp st c tbl n st' c' tbl' r \<longleftrightarrow> pinv mp st' \<and> ocache_ok c' \<and> (c' = None \<longleftrightarrow> c = None) \<and> cap mp st' = cap mp st \<and>
     (r = 0 \<and> length tbl' = length tbl \<and> drop (unat n) tbl' = drop (unat n) tbl \<and>
        mset (bag mp st') + mset (ocached c') + mset (take (unat n) tbl') = mset (bag mp st) + mset (ocached c) \<or>
      r = - ENOBUFS \<and> tbl' = tbl \<and> c' = c \<and> bag mp st' = bag mp st \<and> (n = 0 \<or> length (bag mp st) < unat n))"

lemma ring_dequeue_post:
  assumes p: "pinv mp st" and c: "ocache_ok c" and n: "unat n \<le> length tbl"
  shows "\<exists>st' tbl' r. rte_mempool_ops_dequeue_bulk t mp tbl n st = ret (st', tbl', r) \<and> get_post mp st c tbl n st' c tbl' r"
proof -
  obtain st' tbl' r where d: "rte_mempool_ops_dequeue_bulk t mp tbl n st = ret (st', tbl', r)" "pinv mp st'" "cap mp st' = cap mp st"
    "if n \<noteq> 0 \<and> unat n \<le> length (bag mp st)
         then r = 0 \<and> tbl' = take (unat n) (bag mp st) @ drop (unat n) tbl \<and> bag mp st' = drop (unat n) (bag mp st)
         else r = - ENOBUFS \<and> tbl' = tbl \<and> bag mp st' = bag mp st"
    using dequeue_law [OF p n] by blast
  have "get_post mp st c tbl n st' c tbl' r"
  proof (cases "n \<noteq> 0 \<and> unat n \<le> length (bag mp st)")
    case True
    then show ?thesis using d c n mset_take_drop [of "unat n" "bag mp st"] by (simp add: get_post_def ac_simps)
  next
    case False
    then show ?thesis using d c by (auto simp: get_post_def)
  qed
  then show ?thesis using d(1) by blast
qed

lemma fill_post:
  assumes "unat n \<le> unat (mc_len k)" "unat (mc_len k) \<le> length (mc_objs k)" "unat n \<le> length tbl"
    "mc_len k - n \<le> mc_flushthresh k" "mc_size k \<le> mc_flushthresh k" "mc_size k \<le> 512" "mc_flushthresh k \<le> 768" "length (mc_objs k) = 1536"
  shows "\<exists>c' tbl'. fill_response tbl n k st = ret (st, Some c', tbl', 0) \<and> cache_ok c' \<and> length tbl' = length tbl \<and>
    drop (unat n) tbl' = drop (unat n) tbl \<and> mset (cached c') + mset (take (unat n) tbl') = mset (take (unat (mc_len k)) (mc_objs k))"
proof -
  let ?L = "unat (mc_len k)"
  let ?tbl = "rev (drop (?L - unat n) (take ?L (mc_objs k))) @ drop (unat n) tbl" and ?k = "k\<lparr>mc_len := mc_len k - n\<rparr>"
  have "cache_fill (unat n) 0 (mc_len k - 1) (mc_objs k) tbl = Some ?tbl"
    using cache_fill_eq [of "unat n" ?L "mc_objs k" 0 tbl] assms unat_lt_pow [of "mc_len k"] unat_lt_pow [of n] by simp
  then have eq: "fill_response tbl n k st = ret (st, Some ?k, ?tbl, 0)" by (simp add: fill_response_def)
  have sub: "unat (mc_len k - n) = ?L - unat n" using assms(1) by (subst unat_sub_no_underflow) (simp_all add: word_le_nat_alt)
  have l: "length (drop (?L - unat n) (take ?L (mc_objs k))) = unat n" using assms(1,2) by simp
  have "mset (take (?L - unat n) (mc_objs k)) + mset (drop (?L - unat n) (take ?L (mc_objs k))) = mset (take ?L (mc_objs k))"
    using mset_take_drop [of "?L - unat n" "take ?L (mc_objs k)"] by (simp add: min_def)
  then have "mset (cached ?k) + mset (take (unat n) ?tbl) = mset (take ?L (mc_objs k))" using l by (simp add: cached_def sub)
  moreover have "cache_ok ?k" using assms(4-8) by (simp add: cache_ok_def)
  ultimately show ?thesis using eq l assms(3) by (intro exI [of _ ?k] exI [of _ ?tbl]) simp
qed

lemma generic_get_ok:
  assumes p: "pinv mp st" and c: "ocache_ok c" and n: "unat n \<le> length tbl"
  shows "\<exists>st' c' tbl' r. rte_mempool_generic_get t mp tbl n c st = ret (st', c', tbl', r) \<and> get_post mp st c tbl n st' c' tbl' r"
proof (cases "c = None \<or> (\<exists>k. c = Some k \<and> n \<ge> mc_size k)")
  case True
  from ring_dequeue_post [OF p c n] True show ?thesis
    by (auto simp: rte_mempool_generic_get_def mempool_generic_get_def Let_def)
next
  case False
  then obtain k where k: "c = Some k" "n < mc_size k" by (cases c) auto
  have ok: "cache_ok k" using c k by (simp add: ocache_ok_def)
  note d = cache_okD [OF ok]
  have lt: "\<not> mc_size k \<le> n" using k(2) by simp
  have ns: "unat n < unat (mc_size k)" using k(2) by (simp add: word_less_nat_alt)
  show ?thesis
  proof (cases "mc_len k < n")
    case False
    have ln: "unat n \<le> unat (mc_len k)" using False by (simp add: word_less_nat_alt)
    have le: "mc_len k - n \<le> mc_flushthresh k" using ln d(1) by (simp add: word_le_nat_alt unat_sub_no_underflow)
    obtain c' tbl' where "fill_response tbl n k st = ret (st, Some c', tbl', 0)" "cache_ok c'" "length tbl' = length tbl"
      "drop (unat n) tbl' = drop (unat n) tbl" "mset (cached c') + mset (take (unat n) tbl') = mset (cached k)"
      using fill_post [OF ln _ n le, of st] ok d unfolding cache_ok_def cached_def by auto
    then show ?thesis using False k(1) lt p
      by (intro exI [of _ st] exI [of _ "Some c'"] exI [of _ tbl'] exI [of _ 0])
        (simp add: rte_mempool_generic_get_def mempool_generic_get_def Let_def get_post_def ocache_ok_def ocached_def)
  next
    case True
    then have ln: "unat (mc_len k) < unat n" by (simp add: word_less_nat_alt)
    let ?req = "n + (mc_size k - mc_len k)" and ?obs = "drop (unat (mc_len k)) (mc_objs k)"
    have sub: "unat (mc_size k - mc_len k) = unat (mc_size k) - unat (mc_len k)"
      using ln ns by (subst unat_sub_no_underflow) (simp_all add: word_le_nat_alt)
    have req: "unat ?req = unat n + unat (mc_size k) - unat (mc_len k)"
      using sub ln ns d by (subst unat_add_no_overflow) simp_all
    have fit: "unat ?req \<le> length ?obs" using req ns d by simp
    obtain st1 obs r where b: "rte_mempool_ops_dequeue_bulk t mp ?obs ?req st = ret (st1, obs, r)" "pinv mp st1" "cap mp st1 = cap mp st"
      "if ?req \<noteq> 0 \<and> unat ?req \<le> length (bag mp st)
         then r = 0 \<and> obs = take (unat ?req) (bag mp st) @ drop (unat ?req) ?obs \<and> bag mp st1 = drop (unat ?req) (bag mp st)
         else r = - ENOBUFS \<and> obs = ?obs \<and> bag mp st1 = bag mp st"
      using dequeue_law [OF p fit] by blast
    show ?thesis
    proof (cases "?req \<noteq> 0 \<and> unat ?req \<le> length (bag mp st)")
      case False
      then have same: "r = - ENOBUFS" "k\<lparr>mc_objs := take (unat (mc_len k)) (mc_objs k) @ obs\<rparr> = k" "bag mp st1 = bag mp st"
        using b(4) by simp_all
      obtain st' tbl' r' where e: "rte_mempool_ops_dequeue_bulk t mp tbl n st1 = ret (st', tbl', r')"
        "get_post mp st1 c tbl n st' c tbl' r'" using ring_dequeue_post [OF b(2) c n] by blast
      have "get_post mp st c tbl n st' c tbl' r'" using e(2) same(3) b(3) by (simp add: get_post_def)
      then show ?thesis using e(1) b(1) same(1,2) True lt k(1)
        by (simp add: rte_mempool_generic_get_def mempool_generic_get_def Let_def)
    next
      case got: True
      then have bb: "r = 0" "obs = take (unat ?req) (bag mp st) @ drop (unat ?req) ?obs" "bag mp st1 = drop (unat ?req) (bag mp st)"
        using b(4) by simp_all
      let ?k = "k\<lparr>mc_objs := take (unat (mc_len k)) (mc_objs k) @ obs, mc_len := mc_len k + ?req\<rparr>"
      have len: "mc_len k + ?req = n + mc_size k" by simp
      have ul: "unat (n + mc_size k) = unat n + unat (mc_size k)" using ns d by (subst unat_add_no_overflow) simp_all
      have lo: "length obs = length ?obs" using bb(2) got fit by simp
      have tk: "take (unat (mc_len ?k)) (mc_objs ?k) = cached k @ take (unat ?req) (bag mp st)"
        using got d ns ln req by (simp add: len ul cached_def bb(2))
      have h: "unat n \<le> unat (mc_len ?k)" "unat (mc_len ?k) \<le> length (mc_objs ?k)" "mc_len ?k - n \<le> mc_flushthresh ?k"
        using ul d ns lo ok by (simp_all add: len cache_ok_def)
      obtain c' tbl' where f: "fill_response tbl n ?k st1 = ret (st1, Some c', tbl', 0)" "cache_ok c'" "length tbl' = length tbl"
        "drop (unat n) tbl' = drop (unat n) tbl"
        "mset (cached c') + mset (take (unat n) tbl') = mset (cached k) + mset (take (unat ?req) (bag mp st))"
        using fill_post [OF h(1,2) n h(3), of st1] ok d lo unfolding tk by (auto simp: cache_ok_def)
      have "mset (bag mp st1) + mset (cached c') + mset (take (unat n) tbl') = mset (bag mp st1) + (mset (cached c') + mset (take (unat n) tbl'))"
        by (simp add: ac_simps)
      also have "\<dots> = (mset (take (unat ?req) (bag mp st)) + mset (drop (unat ?req) (bag mp st))) + mset (cached k)"
        unfolding f(5) bb(3) by (simp add: ac_simps)
      finally have "mset (bag mp st1) + mset (cached c') + mset (take (unat n) tbl') = mset (bag mp st) + mset (cached k)"
        unfolding mset_take_drop .
      then have "get_post mp st c tbl n st1 (Some c') tbl' 0" using b(2,3) f(2-4) k(1) by (simp add: get_post_def ocache_ok_def ocached_def)
      then show ?thesis using f(1) b(1) bb(1) True lt k(1)
        by (intro exI [of _ st1] exI [of _ "Some c'"] exI [of _ tbl'] exI [of _ 0])
          (simp add: rte_mempool_generic_get_def mempool_generic_get_def Let_def)
    qed
  qed
qed

section \<open>Clients\<close>

lemma concat_cached_update:
  assumes "i < length cs"
  shows "mset (concat (map cached (cs[i := c]))) + mset (cached (cs ! i)) = mset (concat (map cached cs)) + mset (cached c)"
proof -
  have "cs = take i cs @ cs ! i # drop (Suc i) cs" using assms by (rule id_take_nth_drop)
  then have "mset (concat (map cached cs)) = mset (concat (map cached (take i cs))) + mset (cached (cs ! i)) + mset (concat (map cached (drop (Suc i) cs)))"
    by (metis (no_types, lifting) append.assoc concat.simps(2) concat_append list.map(2) map_append mset_append)
  then show ?thesis using assms by (simp add: upd_conv_take_nth_drop ac_simps)
qed

text \<open>Pools as creation leaves them: no caches, or one well-formed cache for each core.\<close>

definition pool_ok :: "'cb rte_mempool \<Rightarrow> 'st \<Rightarrow> bool" where
  "pool_ok mp st \<longleftrightarrow> pinv mp st \<and> (if mp_cache_size mp = 0 then mp_local_cache mp = []
     else length (mp_local_cache mp) = unat RTE_MAX_LCORE \<and> (\<forall>c \<in> set (mp_local_cache mp). cache_ok c))"

text \<open>The objects that are not handed out.\<close>

definition pool_free :: "'cb rte_mempool \<Rightarrow> 'st \<Rightarrow> u64 multiset" where
  "pool_free mp st = mset (bag mp st) + mset (concat (map cached (mp_local_cache mp)))"

lemma default_cache:
  assumes "pool_ok mp st"
  obtains c where "get_cache mp (rte_mempool_default_cache mp lcore) = ret c" "ocache_ok c"
    "(c = None) = (rte_mempool_default_cache mp lcore = None)"
    "\<And>i. rte_mempool_default_cache mp lcore = Some i \<Longrightarrow> i < length (mp_local_cache mp) \<and> c = Some (mp_local_cache mp ! i)"
proof (cases "rte_mempool_default_cache mp lcore")
  case None
  then show thesis using that [of None] by (simp add: get_cache_def ocache_ok_def)
next
  case (Some i)
  then have "mp_cache_size mp \<noteq> 0" "i = unat lcore" "unat lcore < unat RTE_MAX_LCORE"
    by (auto simp: rte_mempool_default_cache_def word_le_nat_alt split: if_splits)
  moreover from this have "length (mp_local_cache mp) = unat RTE_MAX_LCORE" "\<forall>c \<in> set (mp_local_cache mp). cache_ok c"
    using assms by (simp_all add: pool_ok_def)
  ultimately show thesis using that [of "Some (mp_local_cache mp ! i)"] Some by (simp add: get_cache_def ocache_ok_def)
qed

lemma set_cache_ok:
  assumes ok: "pool_ok mp st" and p: "pinv mp st'" and c: "ocache_ok c'" "c' = None \<longleftrightarrow> c = None"
    and g: "(c = None) = (i = None)" "\<And>k. i = Some k \<Longrightarrow> k < length (mp_local_cache mp) \<and> c = Some (mp_local_cache mp ! k)"
  shows "pool_ok (set_cache i c' mp) st'" "cap (set_cache i c' mp) st' = cap mp st'"
    "pool_free (set_cache i c' mp) st' + mset (ocached c) = mset (bag mp st') + mset (concat (map cached (mp_local_cache mp))) + mset (ocached c')"
proof -
  have "pool_ok (set_cache i c' mp) st' \<and> cap (set_cache i c' mp) st' = cap mp st' \<and>
    pool_free (set_cache i c' mp) st' + mset (ocached c) = mset (bag mp st') + mset (concat (map cached (mp_local_cache mp))) + mset (ocached c')"
  proof (cases i)
    case None
    then show ?thesis using ok p g(1) c(2) by (simp add: set_cache_def pool_ok_def pool_free_def ocached_def)
  next
    case (Some k)
    then obtain x where x: "c' = Some x" "c = Some (mp_local_cache mp ! k)" "k < length (mp_local_cache mp)" using g c(2) by auto
    moreover from this have "mp_cache_size mp \<noteq> 0" using ok by (auto simp: pool_ok_def)
    ultimately show ?thesis using Some ok p c(1) concat_cached_update [of k "mp_local_cache mp" x]
      by (auto simp: set_cache_def pool_ok_def pool_free_def frame ocached_def ocache_ok_def union_assoc dest!: set_update_subset_insert [THEN subsetD])
  qed
  then show "pool_ok (set_cache i c' mp) st'" "cap (set_cache i c' mp) st' = cap mp st'"
    "pool_free (set_cache i c' mp) st' + mset (ocached c) = mset (bag mp st') + mset (concat (map cached (mp_local_cache mp))) + mset (ocached c')"
    by simp_all
qed

lemma cached_zero: "cached (k\<lparr>mc_len := 0\<rparr>) = []"
  by (simp add: cached_def)

lemma ocached_le:
  assumes "\<And>k. i = Some k \<Longrightarrow> k < length (mp_local_cache mp) \<and> c = Some (mp_local_cache mp ! k)" "(c = None) = (i = None)"
  shows "mset (ocached c) \<subseteq># mset (concat (map cached (mp_local_cache mp)))"
proof (cases i)
  case (Some k)
  then have k: "k < length (mp_local_cache mp)" "c = Some (mp_local_cache mp ! k)" using assms(1) by auto
  show ?thesis using concat_cached_update [OF k(1), of "(mp_local_cache mp ! k)\<lparr>mc_len := 0\<rparr>"] k(2)
    by (metis mset_subset_eq_add_right ocached_def option.simps(5) cached_zero mset.simps(1) add.right_neutral)
qed (use assms in \<open>simp add: ocached_def\<close>)

lemma put_bulk_ok:
  assumes ok: "pool_ok mp st" and n: "unat n \<le> length objs" and room: "size (pool_free mp st) + unat n \<le> cap mp st"
  shows "\<exists>st' mp'. rte_mempool_put_bulk t lcore mp objs n st = ret (st', mp') \<and> pool_ok mp' st' \<and> cap mp' st' = cap mp st \<and>
    pool_free mp' st' = pool_free mp st + mset (take (unat n) objs)"
proof -
  let ?i = "rte_mempool_default_cache mp lcore"
  obtain c where c: "get_cache mp ?i = ret c" "ocache_ok c" "(c = None) = (?i = None)"
    "\<And>i. ?i = Some i \<Longrightarrow> i < length (mp_local_cache mp) \<and> c = Some (mp_local_cache mp ! i)"
    by (rule default_cache [OF ok]) (rule that, assumption+)
  have p: "pinv mp st" using ok by (simp add: pool_ok_def)
  have sub: "mset (ocached c) \<subseteq># mset (concat (map cached (mp_local_cache mp)))" using c(4,3) by (rule ocached_le)
  have "length (ocached c) \<le> size (mset (concat (map cached (mp_local_cache mp))))" using size_mset_mono [OF sub] by simp
  then have "length (bag mp st) + length (ocached c) + unat n \<le> cap mp st" using room by (simp add: pool_free_def)
  from generic_put_ok [OF p c(2) n this] obtain st' c' where
    g: "rte_mempool_generic_put t mp objs n c st = ret (st', c')" "pinv mp st'" "ocache_ok c'" "c' = None \<longleftrightarrow> c = None"
      "cap mp st' = cap mp st" "mset (bag mp st') + mset (ocached c') = mset (bag mp st) + mset (ocached c) + mset (take (unat n) objs)"
    by blast
  note sc = set_cache_ok [OF ok g(2-4) c(3,4)]
  have "pool_free (set_cache ?i c' mp) st' = pool_free mp st + mset (take (unat n) objs)"
    using trade_put [OF sc(3) g(6)] by (simp only: pool_free_def)
  then show ?thesis using sc(1,2) g(1,5) c(1) by (simp add: rte_mempool_put_bulk_def Let_def)
qed

lemma get_bulk_ok:
  assumes ok: "pool_ok mp st" and n: "unat n \<le> length tbl"
  shows "\<exists>st' mp' tbl' r. rte_mempool_get_bulk t lcore mp tbl n st = ret (st', mp', tbl', r) \<and> pool_ok mp' st' \<and> cap mp' st' = cap mp st \<and>
    (r = 0 \<and> length tbl' = length tbl \<and> drop (unat n) tbl' = drop (unat n) tbl \<and>
       pool_free mp' st' + mset (take (unat n) tbl') = pool_free mp st \<or>
     r = - ENOBUFS \<and> tbl' = tbl \<and> pool_free mp' st' = pool_free mp st \<and> (n = 0 \<or> length (bag mp st) < unat n))"
proof -
  let ?i = "rte_mempool_default_cache mp lcore"
  obtain c where c: "get_cache mp ?i = ret c" "ocache_ok c" "(c = None) = (?i = None)"
    "\<And>i. ?i = Some i \<Longrightarrow> i < length (mp_local_cache mp) \<and> c = Some (mp_local_cache mp ! i)"
    by (rule default_cache [OF ok]) (rule that, assumption+)
  have p: "pinv mp st" using ok by (simp add: pool_ok_def)
  from generic_get_ok [OF p c(2) n] obtain st' c' tbl' r where
    g: "rte_mempool_generic_get t mp tbl n c st = ret (st', c', tbl', r)" "get_post mp st c tbl n st' c' tbl' r" by blast
  have q: "pinv mp st'" "ocache_ok c'" "c' = None \<longleftrightarrow> c = None" "cap mp st' = cap mp st" using g(2) by (auto simp: get_post_def)
  note sc = set_cache_ok [OF ok q(1-3) c(3,4)]
  let ?mp = "set_cache ?i c' mp"
  have eq: "rte_mempool_get_bulk t lcore mp tbl n st = ret (st', ?mp, tbl', r)" using g(1) c(1) by (simp add: rte_mempool_get_bulk_def Let_def)
  from g(2) consider
    (got) "r = 0" "length tbl' = length tbl" "drop (unat n) tbl' = drop (unat n) tbl"
      "mset (bag mp st') + mset (ocached c') + mset (take (unat n) tbl') = mset (bag mp st) + mset (ocached c)"
    | (none) "r = - ENOBUFS" "tbl' = tbl" "c' = c" "bag mp st' = bag mp st" "n = 0 \<or> length (bag mp st) < unat n"
    by (auto simp: get_post_def)
  then show ?thesis
  proof cases
    case got
    have "pool_free ?mp st' + mset (take (unat n) tbl') = pool_free mp st"
      using trade_get [OF sc(3) got(4)] by (simp only: pool_free_def)
    then show ?thesis using eq sc(1,2) q(4) got(1-3) by auto
  next
    case none
    then have "pool_free ?mp st' + mset (ocached c) = pool_free mp st + mset (ocached c)"
      using sc(3) by (simp add: pool_free_def ac_simps)
    then show ?thesis using eq sc(1,2) q(4) none by auto
  qed
qed

lemma run_ok:
  assumes "pool_ok mp st" "size (pool_free mp st) + length held \<le> cap mp st"
  shows "\<exists>mp' st' held'. pool_run t ops mp st held = ret (mp', st', held') \<and> pool_ok mp' st' \<and> cap mp' st' = cap mp st \<and>
    pool_free mp' st' + mset held' = pool_free mp st + mset held"
  using assms
proof (induction ops arbitrary: mp st held)
  case (Cons op ops)
  have step: "\<exists>mp' st' held'. pool_run t ops mp1 st1 held1 = ret (mp', st', held') \<and> pool_ok mp' st' \<and> cap mp' st' = cap mp st \<and>
      pool_free mp' st' + mset held' = pool_free mp st + mset held"
    if s: "pool_ok mp1 st1" "cap mp1 st1 = cap mp st" "pool_free mp1 st1 + mset held1 = pool_free mp st + mset held" for mp1 st1 held1
  proof -
    have "size (pool_free mp1 st1) + length held1 = size (pool_free mp st) + length held"
      using arg_cong [OF s(3), of size] by simp
    then have "size (pool_free mp1 st1) + length held1 \<le> cap mp1 st1" using Cons.prems(2) s(2) by simp
    from Cons.IH [OF s(1) this] show ?thesis using s(2,3) by simp
  qed
  show ?case
  proof (cases op)
    case (PoolGet lcore n)
    have n: "unat n \<le> length (replicate (unat n) (0::u64))" by simp
    from get_bulk_ok [OF Cons.prems(1) n, of lcore] obtain st1 mp1 tbl r where
      g: "rte_mempool_get_bulk t lcore mp (replicate (unat n) 0) n st = ret (st1, mp1, tbl, r)" "pool_ok mp1 st1" "cap mp1 st1 = cap mp st"
        "r = 0 \<and> length tbl = unat n \<and> pool_free mp1 st1 + mset (take (unat n) tbl) = pool_free mp st \<or>
         r \<noteq> 0 \<and> pool_free mp1 st1 = pool_free mp st" by auto
    have "pool_free mp1 st1 + mset (if r = 0 then tbl @ held else held) = pool_free mp st + mset held"
      using g(4) by (auto simp flip: union_assoc)
    from step [OF g(2,3) this] show ?thesis using g(1) PoolGet by simp
  next
    case (PoolPut lcore k n)
    show ?thesis
    proof (cases "k + unat n \<le> length held")
      case False
      then show ?thesis using Cons.IH [OF Cons.prems] PoolPut by simp
    next
      case True
      let ?objs = "take (unat n) (drop k held)" and ?held = "take k held @ drop (k + unat n) held"
      have n: "unat n \<le> length ?objs" "size (pool_free mp st) + unat n \<le> cap mp st" using True Cons.prems(2) by simp_all
      from put_bulk_ok [OF Cons.prems(1) n, of lcore] obtain st1 mp1 where
        g: "rte_mempool_put_bulk t lcore mp ?objs n st = ret (st1, mp1)" "pool_ok mp1 st1" "cap mp1 st1 = cap mp st"
          "pool_free mp1 st1 = pool_free mp st + mset ?objs" by auto
      have "mset ?objs + mset ?held = mset held"
        using mset_take_drop [of k held] mset_take_drop [of "unat n" "drop k held"] by (simp add: ac_simps)
      then have "pool_free mp1 st1 + mset ?held = pool_free mp st + mset held" using g(4) by (simp add: union_assoc)
      from step [OF g(2,3) this] show ?thesis using g(1) PoolPut True by simp
    qed
  qed
qed simp

lemma count_sum:
  assumes "unat c + (\<Sum>k\<leftarrow>cs. length (cached k)) < 2 ^ 32" "\<forall>k \<in> set cs. cache_ok k"
  shows "unat (foldl (\<lambda>c k. c + mc_len k) c cs) = unat c + (\<Sum>k\<leftarrow>cs. length (cached k))"
  using assms
proof (induction cs arbitrary: c)
  case (Cons k cs)
  have l: "length (cached k) = unat (mc_len k)" using Cons.prems(2) by (intro length_cached) simp
  have u: "unat (c + mc_len k) = unat c + unat (mc_len k)" using Cons.prems(1) l by (subst unat_add_no_overflow) simp_all
  then show ?case using Cons.IH [of "c + mc_len k"] Cons.prems l by simp
qed simp

lemma avail_count_ok:
  assumes ok: "pool_ok mp st" and sz: "size (pool_free mp st) \<le> unat (mp_size mp)"
  shows "\<exists>c. rte_mempool_avail_count t mp st = ret c \<and> unat c = size (pool_free mp st)"
proof -
  have p: "pinv mp st" using ok by (simp add: pool_ok_def)
  obtain c where c: "rte_mempool_ops_get_count t mp st = ret c" "unat c = length (bag mp st)" using count_law [OF p] by blast
  show ?thesis
  proof (cases "mp_cache_size mp = 0")
    case True
    then show ?thesis using c ok by (simp add: rte_mempool_avail_count_def pool_ok_def pool_free_def)
  next
    case False
    let ?cs = "mp_local_cache mp"
    have cs: "length ?cs = unat RTE_MAX_LCORE" "\<forall>k \<in> set ?cs. cache_ok k" using ok False by (simp_all add: pool_ok_def)
    have sum: "size (pool_free mp st) = unat c + (\<Sum>k\<leftarrow>?cs. length (cached k))"
      by (simp add: pool_free_def c(2) length_concat comp_def)
    have fold: "foldl (\<lambda>count i. count + mc_len (?cs ! i)) c [0..<unat RTE_MAX_LCORE] = foldl (\<lambda>c k. c + mc_len k) c ?cs"
      unfolding cs(1) [symmetric] using foldl_map [of "\<lambda>c k. c + mc_len k" c "(!) ?cs" "[0..<length ?cs]"] by (simp only: map_nth)
    have "unat (foldl (\<lambda>c k. c + mc_len k) c ?cs) = size (pool_free mp st)"
      using count_sum [of c ?cs] cs(2) sum sz unat_lt_pow [of "mp_size mp"] by simp
    then show ?thesis using c(1) False cs(1) sz
      by (simp add: rte_mempool_avail_count_def Let_def fold word_less_nat_alt)
  qed
qed

lemma audit_ok: "pool_ok mp st \<Longrightarrow> rte_mempool_audit mp = ret ()"
  by (auto simp: rte_mempool_audit_def mempool_audit_cache_def pool_ok_def cache_ok_def not_less split: if_splits)

end

section \<open>Rings are backends\<close>

definition ring_table :: "(u64 \<Rightarrow> u64) \<Rightarrow> rte_malloc_socket_stats \<Rightarrow> mempool_ops_table" where
  "ring_table v st = (case register_ring_ops v st init_ops_table of Some (Inr t) \<Rightarrow> t | _ \<Rightarrow> init_ops_table)"

definition ring_pinv :: "mempool \<Rightarrow> rings \<Rightarrow> bool" where
  "ring_pinv mp s \<longleftrightarrow> 0 \<le> mp_ops_index mp \<and> mp_ops_index mp < 4 \<and>
     (case rs_ring s (mp_pool_data mp) of None \<Rightarrow> False | Some r \<Rightarrow> ring_inv r)"

definition ring_bag :: "mempool \<Rightarrow> rings \<Rightarrow> u64 list" where
  "ring_bag mp s = (case rs_ring s (mp_pool_data mp) of None \<Rightarrow> [] | Some r \<Rightarrow> ring_contents r)"

definition ring_cap :: "mempool \<Rightarrow> rings \<Rightarrow> nat" where
  "ring_cap mp s = (case rs_ring s (mp_pool_data mp) of None \<Rightarrow> 0 | Some r \<Rightarrow> unat (r_capacity r))"

lemma spinlock_free: "sl_locked sl = 0 \<Longrightarrow> rte_spinlock_lock sl = Some (sl\<lparr>sl_locked := 1\<rparr>)"
  by (subst rte_spinlock_lock.simps) (simp add: x86_xchg_def)

lemma register_ok:
  assumes "sl_locked (ot_sl t) = 0" "unat (ot_num_ops t) < 16" "length (ot_ops t) = 16"
    "mo_alloc h \<noteq> None" "mo_enqueue h \<noteq> None" "mo_dequeue h \<noteq> None" "mo_get_count h \<noteq> None" "length (mo_name h) < 31"
  shows "MEMPOOL_REGISTER_OPS h t =
    ret (t\<lparr>ot_num_ops := ot_num_ops t + 1, ot_ops := (ot_ops t)[unat (ot_num_ops t) := h]\<rparr>)"
proof -
  have "\<not> ot_num_ops t \<ge> RTE_MEMPOOL_MAX_OPS_IDX" using assms(2) by (simp add: RTE_MEMPOOL_MAX_OPS_IDX_def word_le_nat_alt)
  moreover have "h\<lparr>mo_name := fst (snprintf_str RTE_MEMPOOL_OPS_NAMESIZE (mo_name h))\<rparr> = h"
    using assms(8) by (simp add: snprintf_str_def RTE_MEMPOOL_OPS_NAMESIZE_def)
  moreover have "(t\<lparr>ot_sl := (ot_sl t)\<lparr>sl_locked := 0\<rparr>\<rparr>) = t" using assms(1) by simp
  moreover have "\<not> (mo_alloc h = None \<or> mo_enqueue h = None \<or> mo_dequeue h = None \<or> mo_get_count h = None)" using assms(4-7) by blast
  ultimately show ?thesis using assms(1-3,8)
    by (simp only: MEMPOOL_REGISTER_OPS_def rte_mempool_register_ops_def spinlock_free Let_def lift_opt_simps res_bind_simps if_False)
      (simp add: RTE_MEMPOOL_OPS_NAMESIZE_def rte_spinlock_unlock_def x86_xchg_def not_le)
qed

lemma ring_table_ops:
  "register_ring_ops v st init_ops_table = ret (ring_table v st)"
  "ring_table v st = \<lparr>ot_sl = \<lparr>sl_locked = 0\<rparr>, ot_num_ops = 4,
     ot_ops = [ops_mp_mc v st, ops_sp_sc v st, ops_mp_sc v st, ops_sp_mc v st] @ replicate 12 null_ops\<rparr>"
proof -
  let ?t = "\<lparr>ot_sl = \<lparr>sl_locked = 0\<rparr>, ot_num_ops = 4,
     ot_ops = [ops_mp_mc v st, ops_sp_sc v st, ops_mp_sc v st, ops_sp_mc v st] @ replicate 12 null_ops\<rparr>"
  have r: "replicate 16 x = x # x # x # x # replicate 12 x" for x :: 'x by (simp add: numeral_eq_Suc)
  have "register_ring_ops v st init_ops_table = ret ?t"
    unfolding register_ring_ops_def
    by (simp add: register_ok init_ops_table_def ops_mp_mc_def ops_sp_sc_def ops_mp_sc_def ops_sp_mc_def RTE_MEMPOOL_MAX_OPS_IDX_def r)
  then show "register_ring_ops v st init_ops_table = ret (ring_table v st)" "ring_table v st = ?t"
    by (simp_all add: ring_table_def)
qed

lemma ring_get_ops:
  assumes "0 \<le> i" "i < 4"
  shows "rte_mempool_get_ops i (ring_table v st) = ret ([ops_mp_mc v st, ops_sp_sc v st, ops_mp_sc v st, ops_sp_mc v st] ! nat i)"
proof -
  have "nat i = 0 \<or> nat i = 1 \<or> nat i = 2 \<or> nat i = 3" using assms by linarith
  then show ?thesis using assms
    by (elim disjE) (simp_all add: rte_mempool_get_ops_def ring_table_ops(2) RTE_MEMPOOL_MAX_OPS_IDX_def)
qed

text \<open>Whatever the index, the callbacks are the ring operations for one producer or several.\<close>

lemma ring_calls:
  assumes "0 \<le> mp_ops_index mp" "mp_ops_index mp < 4"
  shows "\<exists>sp. rte_mempool_ops_enqueue_bulk (ring_table v st) mp objs n s =
      res_bind (with_ring mp s (\<lambda>r. rte_ring_do_enqueue r objs n RTE_RING_QUEUE_FIXED sp)) (\<lambda>(r, k, _).
        ret (put_ring mp r s, if k = 0 then - ENOBUFS else 0))"
    "\<exists>sc. rte_mempool_ops_dequeue_bulk (ring_table v st) mp objs n s =
      res_bind (with_ring mp s (\<lambda>r. rte_ring_do_dequeue r objs n RTE_RING_QUEUE_FIXED sc)) (\<lambda>(r, tbl, k, _).
        ret (put_ring mp r s, tbl, if k = 0 then - ENOBUFS else 0))"
    "rte_mempool_ops_get_count (ring_table v st) mp s = with_ring mp s (\<lambda>r. Some (rte_ring_count r))"
proof -
  have i: "nat (mp_ops_index mp) = 0 \<or> nat (mp_ops_index mp) = 1 \<or> nat (mp_ops_index mp) = 2 \<or> nat (mp_ops_index mp) = 3"
    using assms by linarith
  note defs = ring_get_ops [OF assms] callback_def ops_mp_mc_def ops_sp_sc_def ops_mp_sc_def ops_sp_mc_def
  have e: "\<exists>sp. common_ring_mp_enqueue mp objs n s = res_bind (with_ring mp s (\<lambda>r. rte_ring_do_enqueue r objs n RTE_RING_QUEUE_FIXED sp))
      (\<lambda>(r, k, _). ret (put_ring mp r s, if k = 0 then - ENOBUFS else 0))"
    "\<exists>sp. common_ring_sp_enqueue mp objs n s = res_bind (with_ring mp s (\<lambda>r. rte_ring_do_enqueue r objs n RTE_RING_QUEUE_FIXED sp))
      (\<lambda>(r, k, _). ret (put_ring mp r s, if k = 0 then - ENOBUFS else 0))"
    unfolding common_ring_mp_enqueue_def common_ring_sp_enqueue_def rte_ring_mp_enqueue_bulk_def rte_ring_sp_enqueue_bulk_def by blast+
  have d: "\<exists>sc. common_ring_mc_dequeue mp objs n s = res_bind (with_ring mp s (\<lambda>r. rte_ring_do_dequeue r objs n RTE_RING_QUEUE_FIXED sc))
      (\<lambda>(r, tbl, k, _). ret (put_ring mp r s, tbl, if k = 0 then - ENOBUFS else 0))"
    "\<exists>sc. common_ring_sc_dequeue mp objs n s = res_bind (with_ring mp s (\<lambda>r. rte_ring_do_dequeue r objs n RTE_RING_QUEUE_FIXED sc))
      (\<lambda>(r, tbl, k, _). ret (put_ring mp r s, tbl, if k = 0 then - ENOBUFS else 0))"
    unfolding common_ring_mc_dequeue_def common_ring_sc_dequeue_def rte_ring_mc_dequeue_bulk_def rte_ring_sc_dequeue_bulk_def by blast+
  show "\<exists>sp. rte_mempool_ops_enqueue_bulk (ring_table v st) mp objs n s =
      res_bind (with_ring mp s (\<lambda>r. rte_ring_do_enqueue r objs n RTE_RING_QUEUE_FIXED sp)) (\<lambda>(r, k, _).
        ret (put_ring mp r s, if k = 0 then - ENOBUFS else 0))"
    using i e by (elim disjE) (simp_all add: rte_mempool_ops_enqueue_bulk_def defs)
  show "\<exists>sc. rte_mempool_ops_dequeue_bulk (ring_table v st) mp objs n s =
      res_bind (with_ring mp s (\<lambda>r. rte_ring_do_dequeue r objs n RTE_RING_QUEUE_FIXED sc)) (\<lambda>(r, tbl, k, _).
        ret (put_ring mp r s, tbl, if k = 0 then - ENOBUFS else 0))"
    using i d by (elim disjE) (simp_all add: rte_mempool_ops_dequeue_bulk_def defs)
  show "rte_mempool_ops_get_count (ring_table v st) mp s = with_ring mp s (\<lambda>r. Some (rte_ring_count r))"
    using i by (elim disjE) (simp_all add: rte_mempool_ops_get_count_def defs common_ring_get_count_def)
qed

interpretation ring_pool: pool_backend "ring_table v st" ring_pinv ring_bag ring_cap for v st
proof unfold_locales
  fix mp s and n :: u32 and objs :: "u64 list"
  assume p: "ring_pinv mp s" and n: "unat n \<le> length objs" and room: "length (ring_bag mp s) + unat n \<le> ring_cap mp s"
  obtain r where r: "rs_ring s (mp_pool_data mp) = Some r" "ring_inv r" and i: "0 \<le> mp_ops_index mp" "mp_ops_index mp < 4"
    using p by (auto simp: ring_pinv_def split: option.splits)
  obtain sp where c: "rte_mempool_ops_enqueue_bulk (ring_table v st) mp objs n s =
      res_bind (with_ring mp s (\<lambda>r. rte_ring_do_enqueue r objs n RTE_RING_QUEUE_FIXED sp)) (\<lambda>(r, k, _).
        ret (put_ring mp r s, if k = 0 then - ENOBUFS else 0))" using ring_calls(1) [OF i] by blast
  obtain r' k f where e: "rte_ring_do_enqueue r objs n RTE_RING_QUEUE_FIXED sp = Some (r', k, f)" "ring_inv r'"
    "unat (r_capacity r') = unat (r_capacity r)" "unat k = unat n" "ring_contents r' = ring_contents r @ take (unat n) objs"
    using ring_enqueue_law [OF r(2) n, of RTE_RING_QUEUE_FIXED sp] room r(1) by (auto simp: ring_bag_def ring_cap_def)
  have "k = n" using e(4) by (simp add: word_unat_eq_iff)
  then show "\<exists>s' r. rte_mempool_ops_enqueue_bulk (ring_table v st) mp objs n s = ret (s', r) \<and> ring_pinv mp s' \<and>
      ring_bag mp s' = ring_bag mp s @ take (unat n) objs \<and> ring_cap mp s' = ring_cap mp s \<and> (n \<noteq> 0 \<longrightarrow> r = 0)"
    unfolding c using e r i by (simp add: with_ring_def put_ring_def ring_pinv_def ring_bag_def ring_cap_def)
next
  fix mp s and n :: u32 and tbl :: "u64 list"
  assume p: "ring_pinv mp s" and n: "unat n \<le> length tbl"
  obtain r where r: "rs_ring s (mp_pool_data mp) = Some r" "ring_inv r" and i: "0 \<le> mp_ops_index mp" "mp_ops_index mp < 4"
    using p by (auto simp: ring_pinv_def split: option.splits)
  obtain sc where c: "rte_mempool_ops_dequeue_bulk (ring_table v st) mp tbl n s =
      res_bind (with_ring mp s (\<lambda>r. rte_ring_do_dequeue r tbl n RTE_RING_QUEUE_FIXED sc)) (\<lambda>(r, tbl, k, _).
        ret (put_ring mp r s, tbl, if k = 0 then - ENOBUFS else 0))" using ring_calls(2) [OF i] by blast
  obtain r' tbl' k f where e: "rte_ring_do_dequeue r tbl n RTE_RING_QUEUE_FIXED sc = Some (r', tbl', k, f)" "ring_inv r'"
    "unat (r_capacity r') = unat (r_capacity r)" "unat k = (if unat n \<le> length (ring_contents r) then unat n else 0)"
    "ring_contents r' = drop (unat k) (ring_contents r)" "tbl' = take (unat k) (ring_contents r) @ drop (unat k) tbl"
    using ring_dequeue_law [OF r(2) n, of RTE_RING_QUEUE_FIXED sc] by auto
  have "k = (if unat n \<le> length (ring_contents r) then n else 0)" using e(4) by (simp add: word_unat_eq_iff split: if_splits)
  then show "\<exists>s' tbl' r. rte_mempool_ops_dequeue_bulk (ring_table v st) mp tbl n s = ret (s', tbl', r) \<and> ring_pinv mp s' \<and>
      ring_cap mp s' = ring_cap mp s \<and>
      (if n \<noteq> 0 \<and> unat n \<le> length (ring_bag mp s)
       then r = 0 \<and> tbl' = take (unat n) (ring_bag mp s) @ drop (unat n) tbl \<and> ring_bag mp s' = drop (unat n) (ring_bag mp s)
       else r = - ENOBUFS \<and> tbl' = tbl \<and> ring_bag mp s' = ring_bag mp s)"
    unfolding c using e r i by (auto simp: with_ring_def put_ring_def ring_pinv_def ring_bag_def ring_cap_def)
next
  fix mp s assume p: "ring_pinv mp s"
  obtain r where r: "rs_ring s (mp_pool_data mp) = Some r" "ring_inv r" and i: "0 \<le> mp_ops_index mp" "mp_ops_index mp < 4"
    using p by (auto simp: ring_pinv_def split: option.splits)
  show "\<exists>c. rte_mempool_ops_get_count (ring_table v st) mp s = ret c \<and> unat c = length (ring_bag mp s)"
    using r ring_calls(3) [OF i, of v st s] ring_inv_count(3) [OF r(2)] by (simp add: with_ring_def ring_bag_def)
qed (simp_all add: ring_pinv_def ring_bag_def ring_cap_def)

end
