(* ===== verification/Mempool_Create.thy ===== *)
theory Mempool_Create
  imports Mempool_Ring
begin

text \<open>
  Sizes of objects, population, creation and release of memory pools, \<^verbatim>\<open>librte_mempool/rte_mempool.c\<close>.
  The number of memory channels and ranks and the page size, which the code reads from the
  configuration and the system, are parameters.
\<close>

section \<open>Sizes\<close>

function gcd_loop :: "u32 \<Rightarrow> u32 \<Rightarrow> u32" where
  "gcd_loop a b = (if b \<noteq> 0 then gcd_loop b (a mod b) else a)"
  by pat_completeness auto

termination
  by (relation "measure (\<lambda>(a, b). unat b)") (auto simp: unat_mod unat_gt_0)

declare gcd_loop.simps [simp del]

definition get_gcd :: "u32 \<Rightarrow> u32 \<Rightarrow> u32" where
  "get_gcd a b =
     (if a = 0 then b else if b = 0 then a
      else let (a, b) = (if a < b then (b, a) else (a, b)) in gcd_loop a b)"

partial_function (option) spread_loop :: "u32 \<Rightarrow> u32 \<Rightarrow> u32 option" where
  "spread_loop p new_obj_size = (if get_gcd new_obj_size p \<noteq> 1 then spread_loop p (new_obj_size + 1) else Some new_obj_size)"

declare spread_loop.simps [code]

definition optimize_object_size :: "u32 \<Rightarrow> u32 \<Rightarrow> u32 \<Rightarrow> u32 option" where
  "optimize_object_size nchannel nrank obj_size =
     (let nchan = (if nchannel = 0 then 4 else nchannel); nrank = (if nrank = 0 then 1 else nrank)
      in do {
        n \<leftarrow> spread_loop (nrank * nchan) ((obj_size + RTE_MEMPOOL_ALIGN_MASK) div RTE_MEMPOOL_ALIGN);
        Some (n * RTE_MEMPOOL_ALIGN)
      })"

text \<open>\<^verbatim>\<open>sizeof(struct rte_mempool_objhdr)\<close>: a link and a pointer.\<close>

definition SIZEOF_OBJHDR :: u32 where "SIZEOF_OBJHDR = 16"

definition rte_mempool_calc_obj_size :: "u32 \<Rightarrow> u32 \<Rightarrow> u32 \<Rightarrow> u32 \<Rightarrow> rte_mempool_objsz option" where
  "rte_mempool_calc_obj_size nchannel nrank elt_size flags =
     (let header = SIZEOF_OBJHDR;
          header = (if flags AND MEMPOOL_F_NO_CACHE_ALIGN = 0 then RTE_ALIGN_CEIL header RTE_MEMPOOL_ALIGN else header);
          elt = RTE_ALIGN_CEIL elt_size (8 :: u64);
          total_size = header + elt;
          trailer = (if flags AND MEMPOOL_F_NO_CACHE_ALIGN = 0
            then (RTE_MEMPOOL_ALIGN - (total_size AND RTE_MEMPOOL_ALIGN_MASK)) AND RTE_MEMPOOL_ALIGN_MASK else 0)
      in do {
        trailer \<leftarrow> (if flags AND MEMPOOL_F_NO_SPREAD = 0
          then do { n \<leftarrow> optimize_object_size nchannel nrank (header + elt + trailer); Some (n - header - elt) }
          else Some trailer);
        Some \<lparr>os_elt_size = elt, os_header_size = header, os_trailer_size = trailer, os_total_size = header + elt + trailer\<rparr>
      })"

definition rte_mempool_xmem_size :: "u32 \<Rightarrow> u64 \<Rightarrow> u32 \<Rightarrow> u64" where
  "rte_mempool_xmem_size elt_num total_elt_sz pg_shift =
     (if total_elt_sz = 0 then 0
      else if pg_shift = 0 then total_elt_sz * ucast elt_num
      else
        let pg_sz = push_bit (unat pg_shift) 1; obj_per_page = pg_sz div total_elt_sz
        in if obj_per_page = 0 then RTE_ALIGN_CEIL total_elt_sz pg_sz * ucast elt_num
           else push_bit (unat pg_shift) ((ucast elt_num + obj_per_page - 1) div obj_per_page))"

section \<open>Population\<close>

lemma res_bind_mono [partial_function_mono]:
  assumes B: "mono_option B" and C: "\<And>y. mono_option (C y)"
  shows "mono_option (\<lambda>f. res_bind (B f) (\<lambda>y. C y f))"
proof -
  have eq: "res_bind (B f) (\<lambda>y. C y f) = Option.bind (B f) (\<lambda>x. case x of Inl e \<Rightarrow> Some (Inl e) | Inr y \<Rightarrow> C y f)" for f
    by (simp add: res_bind_def split: option.split sum.split)
  show ?thesis unfolding eq
  proof (rule bind_mono [OF B])
    fix x show "mono_option (\<lambda>f. case x of Inl e \<Rightarrow> Some (Inl e) | Inr y \<Rightarrow> C y f)"
      using C by (cases x) (simp_all add: option.const_mono)
  qed
qed

text \<open>The result of the backend is dropped.\<close>

definition mempool_add_elem :: "mempool_ops_table \<Rightarrow> u64 \<Rightarrow> mempool \<Rightarrow> u64 \<Rightarrow> rings \<Rightarrow> (rings \<times> mempool) res" where
  "mempool_add_elem t p mp obj s =
     (let hdr = \<lparr>oh_addr = RTE_PTR_SUB obj (ucast SIZEOF_OBJHDR), oh_mp = p\<rparr>;
          mp = mp\<lparr>mp_elt_list := mp_elt_list mp @ [hdr], mp_populated_size := mp_populated_size mp + 1\<rparr>
      in res_bind (rte_mempool_ops_enqueue_bulk t mp [obj] 1 s) (\<lambda>(s, _). ret (s, mp)))"

definition rte_mempool_obj_iter :: "mempool \<Rightarrow> (u64 \<Rightarrow> nat \<Rightarrow> 'x \<Rightarrow> 'x) \<Rightarrow> 'x \<Rightarrow> 'x \<times> u32" where
  "rte_mempool_obj_iter mp obj_cb x =
     foldl (\<lambda>(x, n) hdr. (obj_cb (oh_addr hdr + ucast SIZEOF_OBJHDR) (unat n) x, n + 1)) (x, 0) (mp_elt_list mp)"

definition rte_mempool_mem_iter :: "mempool \<Rightarrow> (chunk_cb rte_mempool_memhdr \<Rightarrow> nat \<Rightarrow> 'x \<Rightarrow> 'x) \<Rightarrow> 'x \<Rightarrow> 'x \<times> u32" where
  "rte_mempool_mem_iter mp mem_cb x = foldl (\<lambda>(x, n) hdr. (mem_cb hdr (unat n) x, n + 1)) (x, 0) (mp_mem_list mp)"

text \<open>The loop of \<^verbatim>\<open>rte_mempool_populate_phy\<close>; \<open>i\<close> counts the objects added.\<close>

partial_function (option) populate_loop ::
    "mempool_ops_table \<Rightarrow> u64 \<Rightarrow> u64 \<Rightarrow> u64 \<Rightarrow> u32 \<Rightarrow> u64 \<Rightarrow> u32 \<Rightarrow> mempool \<Rightarrow> rings \<Rightarrow> (string + rings \<times> mempool \<times> u32) option" where
  "populate_loop t p vaddr len total_sz off i mp s =
     (if off + ucast total_sz \<le> len \<and> mp_populated_size mp < mp_size mp then
        res_bind (mempool_add_elem t p mp (vaddr + (off + ucast (mp_header_size mp))) s) (\<lambda>(s, mp).
          populate_loop t p vaddr len total_sz (off + ucast (mp_header_size mp) + ucast (mp_elt_size mp + mp_trailer_size mp)) (i + 1) mp s)
      else ret (s, mp, i))"

declare populate_loop.simps [code]

definition rings_free :: "u64 \<Rightarrow> rings \<Rightarrow> rings res" where
  "rings_free addr s = res_bind (eal_free addr (rs_eal s)) (\<lambda>e. ret (s\<lparr>rs_eal := e\<rparr>))"

text \<open>\<^verbatim>\<open>sizeof(struct rte_mempool_memhdr)\<close>: six words.\<close>

definition SIZEOF_MEMHDR :: u64 where "SIZEOF_MEMHDR = 48"

definition rte_mempool_populate_phy ::
    "mempool_ops_table \<Rightarrow> u64 \<Rightarrow> mempool \<Rightarrow> u64 \<Rightarrow> u64 \<Rightarrow> chunk_cb option \<Rightarrow> nat option \<Rightarrow> rings \<Rightarrow> (rings \<times> mempool \<times> int) res" where
  "rte_mempool_populate_phy t p mp vaddr len free_cb opaque s =
     res_bind (if mp_flags mp AND MEMPOOL_F_POOL_CREATED = 0
        then res_bind (rte_mempool_ops_alloc t mp s) (\<lambda>(s, mp, r).
          ret (s, if r \<noteq> 0 then mp else mp\<lparr>mp_flags := mp_flags mp OR MEMPOOL_F_POOL_CREATED\<rparr>, r))
        else ret (s, mp, 0)) (\<lambda>(s, mp, r).
      if r \<noteq> 0 then ret (s, mp, r)
      else if mp_populated_size mp \<ge> mp_size mp then ret (s, mp, - ENOSPC)
      else
        let total_elt_sz = mp_header_size mp + mp_elt_size mp + mp_trailer_size mp
        in res_bind (eal_zmalloc SIZEOF_MEMHDR 0 (rs_eal s)) (\<lambda>(e, memhdr).
          let s = s\<lparr>rs_eal := e\<rparr>
          in if memhdr = 0 then ret (s, mp, - ENOMEM)
             else
               let hdr = \<lparr>mm_hdr = memhdr, mm_mp = p, mm_addr = vaddr, mm_len = len, mm_free_cb = free_cb, mm_opaque = opaque\<rparr>;
                   off = (if mp_flags mp AND MEMPOOL_F_NO_CACHE_ALIGN \<noteq> 0 then RTE_PTR_ALIGN_CEIL vaddr (8 :: u32) - vaddr
                          else RTE_PTR_ALIGN_CEIL vaddr (RTE_CACHE_LINE_SIZE :: u32) - vaddr)
               in res_bind (populate_loop t p vaddr len total_elt_sz off 0 mp s) (\<lambda>(s, mp, i).
                    if i = 0 then res_bind (rings_free memhdr s) (\<lambda>s. ret (s, mp, - EINVAL))
                    else ret (s, mp\<lparr>mp_mem_list := mp_mem_list mp @ [hdr], mp_nb_mem_chunks := mp_nb_mem_chunks mp + 1\<rparr>, sint i))))"

text \<open>\<^verbatim>\<open>rte_mempool_memchunk_mz_free\<close>: the chunk is a memory zone.\<close>

definition rte_mempool_memchunk_mz_free :: chunk_cb where
  "rte_mempool_memchunk_mz_free opaque s = res_bind (rte_memzone_free opaque (rs_eal s)) (\<lambda>(e, _). ret (s\<lparr>rs_eal := e\<rparr>))"

fun free_elts :: "mempool_ops_table \<Rightarrow> rte_mempool_objhdr list \<Rightarrow> mempool \<Rightarrow> rings \<Rightarrow> (rings \<times> mempool) res" where
  "free_elts t [] mp s = ret (s, mp\<lparr>mp_elt_list := []\<rparr>)"
| "free_elts t (hdr # es) mp s =
     res_bind (rte_mempool_ops_dequeue_bulk t (mp\<lparr>mp_elt_list := hdr # es\<rparr>) [0] 1 s) (\<lambda>(s, _).
       free_elts t es (mp\<lparr>mp_elt_list := es, mp_populated_size := mp_populated_size mp - 1\<rparr>) s)"

fun free_chunks :: "chunk_cb rte_mempool_memhdr list \<Rightarrow> mempool \<Rightarrow> rings \<Rightarrow> (rings \<times> mempool) res" where
  "free_chunks [] mp s = ret (s, mp\<lparr>mp_mem_list := []\<rparr>)"
| "free_chunks (h # hs) mp s =
     res_bind (case mm_free_cb h of None \<Rightarrow> ret s | Some f \<Rightarrow> f (mm_opaque h) s) (\<lambda>s.
     res_bind (rings_free (mm_hdr h) s) (\<lambda>s.
       free_chunks hs (mp\<lparr>mp_mem_list := hs, mp_nb_mem_chunks := mp_nb_mem_chunks mp - 1\<rparr>) s))"

definition rte_mempool_free_memchunks :: "mempool_ops_table \<Rightarrow> mempool \<Rightarrow> rings \<Rightarrow> (rings \<times> mempool) res" where
  "rte_mempool_free_memchunks t mp s =
     res_bind (free_elts t (mp_elt_list mp) mp s) (\<lambda>(s, mp). free_chunks (mp_mem_list mp) mp s)"

text \<open>\<^verbatim>\<open>%d\<close> of a number that is not negative.\<close>

function dec_digits :: "nat \<Rightarrow> string" where
  "dec_digits n = (if n < 10 then [char_of (48 + n)] else dec_digits (n div 10) @ [char_of (48 + n mod 10)])"
  by pat_completeness auto

termination
  by (relation "measure id") auto

declare dec_digits.simps [simp del]

definition RTE_MEMZONE_1GB :: u32 where "RTE_MEMZONE_1GB = 0x2"
definition RTE_MEMZONE_SIZE_HINT_ONLY :: u32 where "RTE_MEMZONE_SIZE_HINT_ONLY = 0x4"

definition rings_reserve ::
    "(u64 \<Rightarrow> u64) \<Rightarrow> rte_malloc_socket_stats \<Rightarrow> string \<Rightarrow> u64 \<Rightarrow> int \<Rightarrow> u32 \<Rightarrow> u32 \<Rightarrow> rings \<Rightarrow> (rings \<times> nat option) res" where
  "rings_reserve v st name len socket_id flags align s =
     res_bind (rte_memzone_reserve_aligned v st name len socket_id flags align (rs_eal s)) (\<lambda>(e, mz). ret (s\<lparr>rs_eal := e\<rparr>, mz))"

text \<open>
  The loop of \<^verbatim>\<open>rte_mempool_populate_default\<close> over the zones still needed; the flag tells whether it ends
  with an error, after which the chunks are released.
\<close>

partial_function (option) populate_zones ::
    "(u64 \<Rightarrow> u64) \<Rightarrow> rte_malloc_socket_stats \<Rightarrow> mempool_ops_table \<Rightarrow> u64 \<Rightarrow> u64 \<Rightarrow> u32 \<Rightarrow> u32 \<Rightarrow> nat \<Rightarrow> u32 \<Rightarrow> mempool \<Rightarrow> rings \<Rightarrow>
     (string + rings \<times> mempool \<times> bool \<times> int) option" where
  "populate_zones v st t p total_elt_sz align pg_shift mz_id n mp s =
     (if n > 0 then
        let sz = rte_mempool_xmem_size n total_elt_sz pg_shift;
            (mz_name, len) = snprintf_str RTE_MEMZONE_NAMESIZE (RTE_MEMPOOL_MZ_PREFIX @ mp_name mp @ ''_'' @ dec_digits mz_id);
            mz_flags = RTE_MEMZONE_1GB OR RTE_MEMZONE_SIZE_HINT_ONLY
        in if len < 0 \<or> len \<ge> int RTE_MEMZONE_NAMESIZE then ret (s, mp, True, - ENAMETOOLONG)
           else res_bind (rings_reserve v st mz_name sz (mp_socket_id mp) mz_flags align s) (\<lambda>(s, mz).
             res_bind (case mz of Some i \<Rightarrow> ret (s, mz)
                 | None \<Rightarrow> rings_reserve v st mz_name 0 (mp_socket_id mp) mz_flags align s) (\<lambda>(s, mz).
               case mz of None \<Rightarrow> ret (s, mp, True, - e_errno (rs_eal s))
               | Some i \<Rightarrow>
                   let z = e_memzone (rs_eal s) ! i
                   in res_bind (rte_mempool_populate_phy t p mp (mz_addr z) (mz_len z) (Some rte_mempool_memchunk_mz_free) (Some i) s)
                     (\<lambda>(s, mp, r).
                       if r < 0 then res_bind (rte_mempool_memchunk_mz_free (Some i) s) (\<lambda>s. ret (s, mp, True, r))
                       else populate_zones v st t p total_elt_sz align pg_shift (mz_id + 1) (n - of_int r) mp s)))
      else ret (s, mp, False, sint (mp_size mp)))"

declare populate_zones.simps [code]

definition rte_mempool_populate_default ::
    "(u64 \<Rightarrow> u64) \<Rightarrow> rte_malloc_socket_stats \<Rightarrow> u32 \<Rightarrow> mempool_ops_table \<Rightarrow> u64 \<Rightarrow> mempool \<Rightarrow> rings \<Rightarrow> (rings \<times> mempool \<times> int) res" where
  "rte_mempool_populate_default v st pagesize t p mp s =
     (if mp_nb_mem_chunks mp \<noteq> 0 then ret (s, mp, - EEXIST)
      else res_bind (if env_has_hugepages (e_env (rs_eal s)) then ret (0, RTE_CACHE_LINE_SIZE)
          else res_bind (lift_opt (rte_bsf32 pagesize)) (\<lambda>b. ret (b, pagesize))) (\<lambda>(pg_shift, align).
        let total_elt_sz = ucast (mp_header_size mp + mp_elt_size mp + mp_trailer_size mp)
        in res_bind (populate_zones v st t p total_elt_sz align pg_shift 0 (mp_size mp) mp s) (\<lambda>(s, mp, fail, r).
             if fail then res_bind (rte_mempool_free_memchunks t mp s) (\<lambda>(s, mp). ret (s, mp, r)) else ret (s, mp, r))))"

section \<open>Creation and release\<close>

record pools =
  ps_rings :: rings
  ps_pool :: "u64 \<Rightarrow> mempool option"

definition rte_mempool_tailq :: nat where "rte_mempool_tailq = 1"

abbreviation ps_eal :: "pools \<Rightarrow> eal" where "ps_eal s \<equiv> rs_eal (ps_rings s)"

definition set_ps_eal :: "eal \<Rightarrow> pools \<Rightarrow> pools" where
  "set_ps_eal e s = s\<lparr>ps_rings := (ps_rings s)\<lparr>rs_eal := e\<rparr>\<rparr>"

definition mplock_write :: "eal \<Rightarrow> eal res" where
  "mplock_write s = lift_opt (map_option (\<lambda>l. s\<lparr>e_mplock := l\<rparr>) (rte_rwlock_write_lock (e_mplock s)))"

definition mplock_write_release :: "eal \<Rightarrow> eal" where
  "mplock_write_release s = s\<lparr>e_mplock := rte_rwlock_write_unlock (e_mplock s)\<rparr>"

definition mplock_read :: "eal \<Rightarrow> eal res" where
  "mplock_read s = lift_opt (map_option (\<lambda>l. s\<lparr>e_mplock := l\<rparr>) (rte_rwlock_read_lock (e_mplock s)))"

definition mplock_read_release :: "eal \<Rightarrow> eal" where
  "mplock_read_release s = s\<lparr>e_mplock := rte_rwlock_read_unlock (e_mplock s)\<rparr>"

text \<open>
  \<^verbatim>\<open>rte_mempool_free\<close>: the entry is looked for under the lock; the structure is gone with its zone.
\<close>

definition rte_mempool_free :: "mempool_ops_table \<Rightarrow> u64 \<Rightarrow> pools \<Rightarrow> pools res" where
  "rte_mempool_free t p s =
     (if p = 0 then ret s
      else case ps_pool s p of
        None \<Rightarrow> abort ''dangling mempool pointer''
      | Some mp \<Rightarrow>
          res_bind (qlock_write (ps_eal s)) (\<lambda>e. res_bind (tailq_entries rte_mempool_tailq e) (\<lambda>es.
          res_bind (case first_index (\<lambda>te. te_data te = p) es of
              None \<Rightarrow> ret e
            | Some k \<Rightarrow> eal_free (te_addr (es ! k)) (set_tailq_entries rte_mempool_tailq (take k es @ drop (Suc k) es) e)) (\<lambda>e.
          let rs = (ps_rings s)\<lparr>rs_eal := qlock_write_release e\<rparr>
          in res_bind (rte_mempool_free_memchunks t mp rs) (\<lambda>(rs, mp).
             res_bind (rte_mempool_ops_free t mp rs) (\<lambda>rs.
             res_bind (rte_memzone_free (mp_mz mp) (rs_eal rs)) (\<lambda>(e, _).
               ret \<lparr>ps_rings = rs\<lparr>rs_eal := e\<rparr>, ps_pool = (ps_pool s)(p := None)\<rparr>)))))))"

definition CALC_CACHE_FLUSHTHRESH :: "u32 \<Rightarrow> u32" where
  "CALC_CACHE_FLUSHTHRESH c = of_nat (unat c * 3 div 2)"

definition zero_cache :: rte_mempool_cache where
  "zero_cache = \<lparr>mc_size = 0, mc_flushthresh = 0, mc_len = 0, mc_objs = replicate (3 * unat RTE_MEMPOOL_CACHE_MAX_SIZE) 0\<rparr>"

definition mempool_cache_init :: "u32 \<Rightarrow> rte_mempool_cache \<Rightarrow> rte_mempool_cache" where
  "mempool_cache_init sz cache = cache\<lparr>mc_size := sz, mc_flushthresh := CALC_CACHE_FLUSHTHRESH sz, mc_len := 0\<rparr>"

definition zero_mempool :: mempool where
  "zero_mempool = \<lparr>mp_name = [], mp_pool_data = 0, mp_pool_config = 0, mp_mz = None, mp_flags = 0, mp_socket_id = 0, mp_size = 0,
     mp_cache_size = 0, mp_elt_size = 0, mp_header_size = 0, mp_trailer_size = 0, mp_private_data_size = 0, mp_ops_index = 0,
     mp_local_cache = [], mp_populated_size = 0, mp_elt_list = [], mp_nb_mem_chunks = 0, mp_mem_list = []\<rparr>"

text \<open>\<^verbatim>\<open>sizeof(struct rte_mempool)\<close> and \<^verbatim>\<open>sizeof(struct rte_mempool_cache)\<close>, rounded up to cache lines.\<close>

definition SIZEOF_MEMPOOL :: u64 where "SIZEOF_MEMPOOL = 192"
definition SIZEOF_MEMPOOL_CACHE :: u64 where "SIZEOF_MEMPOOL_CACHE = 12352"

definition MEMPOOL_HEADER_SIZE :: "u32 \<Rightarrow> u64" where
  "MEMPOOL_HEADER_SIZE cs = SIZEOF_MEMPOOL + (if cs = 0 then 0 else SIZEOF_MEMPOOL_CACHE * ucast RTE_MAX_LCORE)"

text \<open>The part of \<^verbatim>\<open>rte_mempool_create_empty\<close> that fills in the structure.\<close>

definition mempool_setup :: "string \<Rightarrow> u32 \<Rightarrow> u32 \<Rightarrow> u32 \<Rightarrow> rte_mempool_objsz \<Rightarrow> int \<Rightarrow> u32 \<Rightarrow> nat \<Rightarrow> mempool" where
  "mempool_setup name n cache_size private_data_size objsz socket_id flags mz =
     zero_mempool\<lparr>mp_name := name, mp_mz := Some mz, mp_size := n, mp_flags := flags, mp_socket_id := socket_id,
       mp_elt_size := os_elt_size objsz, mp_header_size := os_header_size objsz, mp_trailer_size := os_trailer_size objsz,
       mp_cache_size := cache_size, mp_private_data_size := private_data_size,
       mp_local_cache := (if cache_size = 0 then [] else replicate (unat RTE_MAX_LCORE) (mempool_cache_init cache_size zero_cache))\<rparr>"

definition rte_mempool_create_empty ::
    "(u64 \<Rightarrow> u64) \<Rightarrow> rte_malloc_socket_stats \<Rightarrow> u32 \<times> u32 \<Rightarrow> mempool_ops_table \<Rightarrow>
     string \<Rightarrow> u32 \<Rightarrow> u32 \<Rightarrow> u32 \<Rightarrow> u32 \<Rightarrow> int \<Rightarrow> u32 \<Rightarrow> pools \<Rightarrow> (pools \<times> u64) res" where
  "rte_mempool_create_empty v st mem_chan t name n elt_size cache_size private_data_size socket_id flags s =
     (if cache_size > RTE_MEMPOOL_CACHE_MAX_SIZE \<or> CALC_CACHE_FLUSHTHRESH cache_size > n
      then ret (set_ps_eal (set_errno EINVAL (ps_eal s)) s, 0)
      else
        let flags = (if flags AND MEMPOOL_F_NO_CACHE_ALIGN \<noteq> 0 then flags OR MEMPOOL_F_NO_SPREAD else flags)
        in res_bind (lift_opt (rte_mempool_calc_obj_size (fst mem_chan) (snd mem_chan) elt_size flags)) (\<lambda>objsz.
          if os_total_size objsz = 0 then ret (set_ps_eal (set_errno EINVAL (ps_eal s)) s, 0)
          else res_bind (mplock_write (ps_eal s)) (\<lambda>e.
            let private_data_size = (private_data_size + RTE_MEMPOOL_ALIGN_MASK) AND NOT RTE_MEMPOOL_ALIGN_MASK
            in res_bind (eal_zmalloc SIZEOF_TAILQ_ENTRY 0 e) (\<lambda>(e, te).
              let exit_unlock = (\<lambda>e p pool. res_bind (eal_free te (mplock_write_release e)) (\<lambda>e.
                    res_bind (rte_mempool_free t p (set_ps_eal e s\<lparr>ps_pool := pool\<rparr>)) (\<lambda>s. ret (s, 0))))
              in if te = 0 then exit_unlock e 0 (ps_pool s)
                 else
                   let mempool_size = MEMPOOL_HEADER_SIZE cache_size + ucast private_data_size;
                       mempool_size = RTE_ALIGN_CEIL mempool_size RTE_MEMPOOL_ALIGN;
                       (mz_name, len) = snprintf_str RTE_MEMZONE_NAMESIZE (RTE_MEMPOOL_MZ_PREFIX @ name)
                   in if len < 0 \<or> len \<ge> int RTE_MEMZONE_NAMESIZE then exit_unlock (set_errno ENAMETOOLONG e) 0 (ps_pool s)
                      else res_bind (rte_memzone_reserve v st mz_name mempool_size socket_id (RTE_MEMZONE_1GB OR RTE_MEMZONE_SIZE_HINT_ONLY) e)
                        (\<lambda>(e, mz). case mz of
                          None \<Rightarrow> exit_unlock e 0 (ps_pool s)
                        | Some i \<Rightarrow>
                            let p = mz_addr (e_memzone e ! i);
                                (nm, len) = snprintf_str RTE_MEMZONE_NAMESIZE name
                            in if len < 0 \<or> len \<ge> int RTE_MEMZONE_NAMESIZE
                               then exit_unlock (set_errno ENAMETOOLONG e) p ((ps_pool s)(p := Some (zero_mempool\<lparr>mp_name := nm\<rparr>)))
                               else
                                 let mp = mempool_setup nm n cache_size private_data_size objsz socket_id flags i
                                 in res_bind (qlock_write e) (\<lambda>e.
                                    res_bind (TAILQ_INSERT_TAIL rte_mempool_tailq \<lparr>te_addr = te, te_data = p\<rparr> e) (\<lambda>e.
                                    ret (set_ps_eal (mplock_write_release (qlock_write_release e)) s\<lparr>ps_pool := (ps_pool s)(p := Some mp)\<rparr>, p))))))))"

text \<open>The name of the backend for the four combinations of the flags.\<close>

definition ops_name :: "u32 \<Rightarrow> string" where
  "ops_name flags =
     (if flags AND MEMPOOL_F_SP_PUT \<noteq> 0 \<and> flags AND MEMPOOL_F_SC_GET \<noteq> 0 then ''ring_sp_sc''
      else if flags AND MEMPOOL_F_SP_PUT \<noteq> 0 then ''ring_sp_mc''
      else if flags AND MEMPOOL_F_SC_GET \<noteq> 0 then ''ring_mp_sc''
      else ''ring_mp_mc'')"

text \<open>
  \<^verbatim>\<open>rte_mempool_create\<close>: the initialisers of the pool and of its objects are functions on the state of
  the caller, \<open>x\<close>.
\<close>

definition rte_mempool_create ::
    "(u64 \<Rightarrow> u64) \<Rightarrow> rte_malloc_socket_stats \<Rightarrow> u32 \<times> u32 \<Rightarrow> u32 \<Rightarrow> mempool_ops_table \<Rightarrow>
     string \<Rightarrow> u32 \<Rightarrow> u32 \<Rightarrow> u32 \<Rightarrow> u32 \<Rightarrow> (u64 \<Rightarrow> 'x \<Rightarrow> 'x) option \<Rightarrow> (u64 \<Rightarrow> nat \<Rightarrow> 'x \<Rightarrow> 'x) option \<Rightarrow> int \<Rightarrow> u32 \<Rightarrow>
     'x \<Rightarrow> pools \<Rightarrow> (pools \<times> 'x \<times> u64) res" where
  "rte_mempool_create v st mem_chan pagesize t name n elt_size cache_size private_data_size mp_init obj_init socket_id flags x s =
     res_bind (rte_mempool_create_empty v st mem_chan t name n elt_size cache_size private_data_size socket_id flags s) (\<lambda>(s, p).
       if p = 0 then ret (s, x, 0)
       else case ps_pool s p of None \<Rightarrow> abort ''dangling mempool pointer''
       | Some mp \<Rightarrow>
           let fail = (\<lambda>x s. res_bind (rte_mempool_free t p s) (\<lambda>s. ret (s, x, 0)));
               (mp, r) = rte_mempool_set_ops_byname t mp (ops_name flags) 0;
               s = s\<lparr>ps_pool := (ps_pool s)(p := Some mp)\<rparr>
           in if r \<noteq> 0 then fail x s
              else
                let x = (case mp_init of None \<Rightarrow> x | Some f \<Rightarrow> f p x)
                in res_bind (rte_mempool_populate_default v st pagesize t p mp (ps_rings s)) (\<lambda>(rs, mp, r).
                  let s = \<lparr>ps_rings = rs, ps_pool = (ps_pool s)(p := Some mp)\<rparr>
                  in if r < 0 then fail x s
                     else ret (s, case obj_init of None \<Rightarrow> x | Some f \<Rightarrow> fst (rte_mempool_obj_iter mp f x), p)))"

section \<open>Lookup and dump\<close>

fun mempool_find :: "string \<Rightarrow> (u64 \<Rightarrow> mempool option) \<Rightarrow> rte_tailq_entry list \<Rightarrow> u64 option res" where
  "mempool_find name ps [] = ret None"
| "mempool_find name ps (te # es) = (case ps (te_data te) of
     None \<Rightarrow> abort ''dangling mempool pointer''
   | Some mp \<Rightarrow> if strneq RTE_MEMPOOL_NAMESIZE name (mp_name mp) then ret (Some (te_data te)) else mempool_find name ps es)"

definition rte_mempool_lookup :: "string \<Rightarrow> pools \<Rightarrow> (pools \<times> u64) res" where
  "rte_mempool_lookup name s =
     res_bind (mplock_read (ps_eal s)) (\<lambda>e. res_bind (tailq_entries rte_mempool_tailq e) (\<lambda>es.
     res_bind (mempool_find name (ps_pool s) es) (\<lambda>r.
       let e = mplock_read_release e
       in case r of None \<Rightarrow> ret (set_ps_eal (set_errno ENOENT e) s, 0) | Some p \<Rightarrow> ret (set_ps_eal e s, p))))"

text \<open>\<^verbatim>\<open>rte_mempool_walk\<close> with a function that does not change the queue.\<close>

definition rte_mempool_walk :: "(u64 \<Rightarrow> 'x \<Rightarrow> 'x) \<Rightarrow> 'x \<Rightarrow> pools \<Rightarrow> (pools \<times> 'x) res" where
  "rte_mempool_walk func x s =
     res_bind (mplock_read (ps_eal s)) (\<lambda>e. res_bind (tailq_entries rte_mempool_tailq e) (\<lambda>es.
       ret (set_ps_eal (mplock_read_release e) s, foldl (\<lambda>x te. func (te_data te) x) x es)))"

text \<open>
  What the dump prints, as the name, labels and values (the average size is printed from \<open>mem_len\<close> and the
  size), and the count of cached objects.
\<close>

definition rte_mempool_dump_cache :: "mempool \<Rightarrow> ((string \<times> u32) list \<times> u32) res" where
  "rte_mempool_dump_cache mp =
     (if mp_cache_size mp = 0 then ret ([(''cache_size'', mp_cache_size mp)], 0)
      else if length (mp_local_cache mp) < unat RTE_MAX_LCORE then abort ''no local cache''
      else
        let lens = map (\<lambda>i. mc_len (mp_local_cache mp ! i)) [0..<unat RTE_MAX_LCORE]; count = foldl (+) 0 lens
        in ret ((''cache_size'', mp_cache_size mp) # map (\<lambda>n. (''cache_count'', n)) lens @ [(''total_cache_count'', count)], count))"

definition rte_mempool_dump :: "mempool_ops_table \<Rightarrow> mempool \<Rightarrow> rings \<Rightarrow> (string \<times> (string \<times> u64) list) res" where
  "rte_mempool_dump t mp s =
     (case mp_mz mp of None \<Rightarrow> abort ''null memzone''
      | Some i \<Rightarrow>
         if i \<ge> length (e_memzone (rs_eal s)) then abort ''memzone index''
         else
           let mem_len = foldl (\<lambda>n h. n + mm_len h) 0 (mp_mem_list mp)
           in res_bind (rte_mempool_dump_cache mp) (\<lambda>(cs, cache_count).
              res_bind (rte_mempool_ops_get_count t mp s) (\<lambda>common_count.
                let common_count = (if cache_count + common_count > mp_size mp then mp_size mp - cache_count else common_count)
                in res_bind (rte_mempool_audit mp) (\<lambda>_.
                  ret (mp_name mp,
                    [(''flags'', ucast (mp_flags mp)), (''pool'', mp_pool_data mp), (''iova'', mz_iova (e_memzone (rs_eal s) ! i)),
                    (''nb_mem_chunks'', ucast (mp_nb_mem_chunks mp)),
                    (''size'', ucast (mp_size mp)), (''populated_size'', ucast (mp_populated_size mp)),
                    (''header_size'', ucast (mp_header_size mp)), (''elt_size'', ucast (mp_elt_size mp)),
                    (''trailer_size'', ucast (mp_trailer_size mp)),
                    (''total_obj_size'', ucast (mp_header_size mp + mp_elt_size mp + mp_trailer_size mp)),
                    (''private_data_size'', ucast (mp_private_data_size mp)), (''mem_len'', mem_len)] @
                    map (\<lambda>(l, n). (l, ucast n)) cs @ [(''common_pool_count'', ucast common_count)])))))"

fun dump_pools :: "mempool_ops_table \<Rightarrow> (u64 \<Rightarrow> mempool option) \<Rightarrow> rte_tailq_entry list \<Rightarrow> rings \<Rightarrow>
    (string \<times> (string \<times> u64) list) list res" where
  "dump_pools t ps [] s = ret []"
| "dump_pools t ps (te # es) s = (case ps (te_data te) of
     None \<Rightarrow> abort ''dangling mempool pointer''
   | Some mp \<Rightarrow> res_bind (rte_mempool_dump t mp s) (\<lambda>d. res_bind (dump_pools t ps es s) (\<lambda>ds. ret (d # ds))))"

definition rte_mempool_list_dump :: "mempool_ops_table \<Rightarrow> pools \<Rightarrow> (pools \<times> (string \<times> (string \<times> u64) list) list) res" where
  "rte_mempool_list_dump t s =
     res_bind (mplock_read (ps_eal s)) (\<lambda>e. res_bind (tailq_entries rte_mempool_tailq e) (\<lambda>es.
     res_bind (dump_pools t (ps_pool s) es (ps_rings s)) (\<lambda>ds. ret (set_ps_eal (mplock_read_release e) s, ds))))"

section \<open>Objects and their headers\<close>

definition mempool_get_header :: "u64 \<Rightarrow> u64" where
  "mempool_get_header obj = RTE_PTR_SUB obj (ucast SIZEOF_OBJHDR)"

text \<open>The headers in memory are given as a list; an address without a header is a fault.\<close>

definition rte_mempool_from_obj :: "rte_mempool_objhdr list \<Rightarrow> u64 \<Rightarrow> u64 res" where
  "rte_mempool_from_obj hdrs obj = (case first_index (\<lambda>h. oh_addr h = mempool_get_header obj) hdrs of
     None \<Rightarrow> abort ''no object header'' | Some i \<Rightarrow> ret (oh_mp (hdrs ! i)))"

definition rte_mempool_get_priv :: "u64 \<Rightarrow> mempool \<Rightarrow> u64" where
  "rte_mempool_get_priv p mp = p + MEMPOOL_HEADER_SIZE (mp_cache_size mp)"

end
