(* ===== verification/Mempool_Props.thy ===== *)
theory Mempool_Props
  imports Mempool_Cache Mempool_Create
begin

text \<open>
  Sizes and layout of the objects of a pool, and the properties of memory pools over the ring backend.
\<close>

declare of_nat_add [simp del] of_nat_diff [simp del]

section \<open>Greatest common divisor and spreading\<close>

lemma gcd_loop_eq: "unat (gcd_loop a b) = gcd (unat a) (unat b)"
proof (induction a b rule: gcd_loop.induct)
  case (1 a b)
  show ?case
  proof (cases "b = 0")
    case True
    then show ?thesis by (subst gcd_loop.simps) simp
  next
    case False
    then have "unat (gcd_loop a b) = gcd (unat b) (unat (a mod b))" using 1 by (subst gcd_loop.simps) simp
    also have "unat (a mod b) = unat a mod unat b" by (rule unat_mod)
    also have "gcd (unat b) (unat a mod unat b) = gcd (unat a) (unat b)" by (metis gcd.commute gcd_red_nat)
    finally show ?thesis .
  qed
qed

lemma get_gcd_eq: "unat (get_gcd a b) = gcd (unat a) (unat b)"
  by (auto simp: get_gcd_def Let_def gcd_loop_eq gcd.commute)

text \<open>Among \<open>p + 1\<close> numbers from \<open>n\<close> on one is coprime to \<open>p\<close>.\<close>

lemma coprime_near:
  fixes p :: nat
  assumes "0 < p"
  shows "\<exists>j \<le> p. coprime (n + j) p"
proof -
  let ?j = "p - n mod p + 1"
  consider (one) "p = 1" | (dvd) "1 < p" using assms by linarith
  then show ?thesis
  proof cases
    case dvd
    have "n mod p < p" using assms by simp
    let ?k = "if n mod p = 0 then 1 else p - n mod p + 1"
    have le: "?k \<le> p" using dvd \<open>n mod p < p\<close> by auto
    have "(n + ?k) mod p = 1"
    proof (cases "n mod p = 0")
      case True
      have "(n + 1) mod p = (n mod p + 1) mod p" by (rule mod_add_left_eq [symmetric])
      then show ?thesis using dvd True by simp
    next
      case False
      have "n + (p - n mod p + 1) = (n - n mod p) + p + 1" using \<open>n mod p < p\<close> mod_less_eq_dividend [of n p] by linarith
      also have "\<dots> = p * (n div p + 1) + 1" by (simp add: minus_mod_eq_mult_div algebra_simps)
      finally have e: "n + (p - n mod p + 1) = p * (n div p + 1) + 1" .
      have "(p * (n div p + 1) + 1) mod p = 1" using dvd by (metis add.commute mod_less mod_mult_self2)
      then show ?thesis unfolding e [symmetric] using False by simp
    qed
    then have "coprime (n + ?k) p" by (metis coprime_1_left coprime_mod_left_iff assms less_irrefl)
    then show ?thesis using le by blast
  qed auto
qed

lemma spread_loop_ok:
  assumes "coprime (unat n + k) (unat p)" "\<forall>j < k. \<not> coprime (unat n + j) (unat p)" "unat n + k < 2 ^ 32"
  shows "spread_loop p n = Some (n + of_nat k)"
  using assms
proof (induction k arbitrary: n)
  case 0
  then have "get_gcd n p = 1" using get_gcd_eq [of n p] by (simp add: word_unat_eq_iff coprime_iff_gcd_eq_1)
  then show ?case by (subst spread_loop.simps) simp
next
  case (Suc k)
  have "\<not> coprime (unat n) (unat p)" using Suc.prems(2) by (metis add.right_neutral zero_less_Suc)
  then have g: "get_gcd n p \<noteq> 1" using get_gcd_eq [of n p] by (auto simp: coprime_iff_gcd_eq_1)
  have u: "unat (n + 1) = unat n + 1" using Suc.prems(3) by (subst unat_add_no_overflow) simp_all
  have "spread_loop p (n + 1) = Some (n + 1 + of_nat k)"
  proof (rule Suc.IH)
    show "\<forall>j < k. \<not> coprime (unat (n + 1) + j) (unat p)" using Suc.prems(2) u by (metis Suc_less_eq add_Suc_right add.commute add.left_commute plus_1_eq_Suc)
  qed (use Suc.prems u in simp_all)
  then show ?case using g by (subst spread_loop.simps) (simp add: algebra_simps)
qed

lemma optimize_ok:
  assumes p: "p = (if nrank = 0 then 1 else nrank) * (if nchannel = 0 then 4 else nchannel)" "p \<noteq> 0"
    and sz: "unat sz + 64 * unat p + 128 < 2 ^ 32"
  shows "\<exists>m. optimize_object_size nchannel nrank sz = Some m \<and> unat sz \<le> unat m \<and> unat m \<le> unat sz + 63 + 64 * unat p \<and>
    64 dvd unat m \<and> coprime (unat m div 64) (unat p)"
proof -
  let ?n = "(sz + RTE_MEMPOOL_ALIGN_MASK) div RTE_MEMPOOL_ALIGN"
  have c: "RTE_MEMPOOL_ALIGN = 64" "RTE_MEMPOOL_ALIGN_MASK = 63"
    by (simp_all add: RTE_MEMPOOL_ALIGN_def RTE_MEMPOOL_ALIGN_MASK_def RTE_CACHE_LINE_SIZE_def)
  have n: "unat ?n = (unat sz + 63) div 64" using sz unfolding c unat_div by (subst unat_add_no_overflow) simp_all
  have pp: "0 < unat p" using p(2) by (simp add: unat_gt_0)
  define k where "k = (LEAST j. coprime (unat ?n + j) (unat p))"
  obtain j where j: "j \<le> unat p" "coprime (unat ?n + j) (unat p)" using coprime_near [OF pp] by blast
  have k: "coprime (unat ?n + k) (unat p)" unfolding k_def using j(2) by (rule LeastI)
  have kl: "k \<le> unat p" unfolding k_def using j Least_le [of "\<lambda>j. coprime (unat ?n + j) (unat p)" j] by linarith
  have km: "\<forall>j < k. \<not> coprime (unat ?n + j) (unat p)" unfolding k_def using not_less_Least by blast
  have d: "64 * unat ?n \<le> unat sz + 63" "unat sz \<le> 64 * unat ?n" unfolding n by simp_all
  have arith: "64 * (a + j) + 64 < 2 ^ 32" if "64 * a \<le> z + 63" "j \<le> q" "z + 64 * q + 128 < 2 ^ 32" for a j z q :: nat
    using that by simp
  have b: "64 * (unat ?n + k) + 64 < 2 ^ 32" using d(1) kl sz by (rule arith)
  have s: "spread_loop p ?n = Some (?n + of_nat k)" by (rule spread_loop_ok [OF k km]) (use b in simp)
  have k32: "unat (of_nat k :: u32) = k" using b by (simp add: unsigned_of_nat take_bit_nat_eq_self)
  have u: "unat (?n + of_nat k) = unat ?n + k" using b k32 by (subst unat_add_no_overflow) simp_all
  have m: "unat ((?n + of_nat k) * 64) = (unat ?n + k) * 64"
    using b u unat_mult_lem [of "?n + of_nat k" 64] by simp
  show ?thesis
    using s m d kl k unfolding optimize_object_size_def Let_def p(1) [symmetric] c
    by (intro exI [of _ "(?n + of_nat k) * 64"]) (simp add: c)
qed

section \<open>Object sizes\<close>

lemma align8:
  assumes "unat (e :: u32) + 8 < 2 ^ 32"
  shows "unat (RTE_ALIGN_CEIL e (8 :: u64)) = unat e + 7 - (unat e + 7) mod 8"
proof -
  have "RTE_ALIGN_CEIL e (8 :: u64) = (e + 7) AND NOT (mask 3)"
    by (simp add: RTE_ALIGN_CEIL_def RTE_ALIGN_FLOOR_def mask_eq_exp_minus_1)
  moreover have "unat (e + 7) = unat e + 7" using assms by (subst unat_add_no_overflow) simp_all
  ultimately show ?thesis using unat_and_not_mask [of "e + 7" 3] by simp
qed

lemma pad64: "unat ((64 - (t AND 63)) AND (63 :: u32)) = (64 - unat t mod 64) mod 64"
proof -
  have m: "(63 :: u32) = mask 6" by (simp add: mask_eq_exp_minus_1)
  have r: "unat (x AND 63) = unat x mod 64" for x :: u32
    unfolding m by (simp add: unat_mod take_bit_eq_mod flip: take_bit_eq_mask)
  have "unat (64 - (t AND 63)) = 64 - unat t mod 64"
    by (subst unat_sub_no_underflow) (simp_all add: r word_le_nat_alt)
  then show ?thesis by (simp add: r)
qed

text \<open>
  C24. \<^verbatim>\<open>rte_mempool_calc_obj_size\<close> for cache-aligned objects terminates; the header takes
  a cache line, the element is the requested size rounded up to 8 bytes, the total is the sum of the
  three parts without overflow and a multiple of the cache line. Unless spreading is off, the
  number of cache lines of an object is coprime to the number of channels times ranks, so that
  consecutive objects start on different channels.
\<close>

theorem mempool_obj_size_spec:
  assumes fl: "flags AND MEMPOOL_F_NO_CACHE_ALIGN = 0"
    and p: "p = (if nrank = 0 then 1 else nrank) * (if nchannel = 0 then 4 else nchannel)" "p \<noteq> 0"
    and sz: "unat elt_size + 64 * unat p + 512 < 2 ^ 32"
  shows "\<exists>s. rte_mempool_calc_obj_size nchannel nrank elt_size flags = Some s \<and>
    unat (os_header_size s) = 64 \<and> unat elt_size \<le> unat (os_elt_size s) \<and> unat (os_elt_size s) < unat elt_size + 8 \<and>
    8 dvd unat (os_elt_size s) \<and>
    unat (os_total_size s) = unat (os_header_size s) + unat (os_elt_size s) + unat (os_trailer_size s) \<and>
    64 dvd unat (os_total_size s) \<and>
    (flags AND MEMPOOL_F_NO_SPREAD = 0 \<longrightarrow> coprime (unat (os_total_size s) div 64) (unat p))"
proof -
  let ?e = "RTE_ALIGN_CEIL elt_size (8 :: u64)" and ?a = "RTE_ALIGN_CEIL SIZEOF_OBJHDR RTE_MEMPOOL_ALIGN"
  have c: "RTE_MEMPOOL_ALIGN = 64" "RTE_MEMPOOL_ALIGN_MASK = 63"
    by (simp_all add: RTE_MEMPOOL_ALIGN_def RTE_MEMPOOL_ALIGN_MASK_def RTE_CACHE_LINE_SIZE_def)
  have h: "?a = 64" by (simp add: c SIZEOF_OBJHDR_def RTE_ALIGN_CEIL_def RTE_ALIGN_FLOOR_def)
  have e: "unat ?e = unat elt_size + 7 - (unat elt_size + 7) mod 8" using sz by (intro align8) simp
  have er: "unat elt_size \<le> unat ?e" "unat ?e < unat elt_size + 8" "8 dvd unat ?e"
    unfolding e by (presburger, presburger, simp add: minus_mod_eq_div_mult)
  let ?t = "(64 - ((64 + ?e) AND 63)) AND (63 :: u32)"
  have he: "unat (64 + ?e) = 64 + unat ?e" using er(2) sz by (subst unat_add_no_overflow) simp_all
  have t: "unat ?t = (64 - (64 + unat ?e) mod 64) mod 64" unfolding pad64 he ..
  have tot: "unat (64 + ?e + ?t) = 64 + unat ?e + unat ?t"
    using er(2) sz he t by (subst unat_add_no_overflow) simp_all
  have "64 dvd x + (64 - x mod 64) mod 64" for x :: nat
  proof (cases "x mod 64 = 0")
    case False
    then have "x + (64 - x mod 64) mod 64 = 64 * (x div 64) + 64" by (simp add: minus_mod_eq_mult_div [symmetric])
    then show ?thesis by simp
  qed auto
  from this [of "64 + unat ?e"] have d: "64 dvd unat (64 + ?e + ?t)" unfolding tot t .
  show ?thesis
  proof (cases "flags AND MEMPOOL_F_NO_SPREAD = 0")
    case False
    then show ?thesis using fl h er d tot
      by (simp add: rte_mempool_calc_obj_size_def Let_def c)
  next
    case True
    have "unat (64 + ?e + ?t) + 64 * unat p + 128 < 2 ^ 32" using tot t er(2) sz by simp
    then obtain m where m: "optimize_object_size nchannel nrank (64 + ?e + ?t) = Some m" "unat (64 + ?e + ?t) \<le> unat m"
      "64 dvd unat m" "coprime (unat m div 64) (unat p)"
      using optimize_ok [OF p] by blast
    have "unat (m - 64 - ?e) = unat m - 64 - unat ?e"
      using m(2) tot by (simp add: unat_sub_no_underflow word_le_nat_alt)
    then have "unat m = 64 + unat ?e + unat (m - 64 - ?e)" using m(2) tot by simp
    then show ?thesis using fl h er m True by (simp add: rte_mempool_calc_obj_size_def Let_def c)
  qed
qed

theorem mempool_obj_size_spec_witness:
  "\<exists>s. rte_mempool_calc_obj_size 4 2 2048 0 = Some s \<and> 2048 \<le> unat (os_elt_size s) \<and> 64 dvd unat (os_total_size s) \<and>
    coprime (unat (os_total_size s) div 64) 8"
  using mempool_obj_size_spec [of 0 8 2 4 2048] by auto

section \<open>Layout\<close>

text \<open>The objects that the loop places, and how many.\<close>

definition layout_count :: "u64 \<Rightarrow> nat \<Rightarrow> nat \<Rightarrow> nat \<Rightarrow> nat" where
  "layout_count len off n room = min room ((unat len - off) div n)"

definition obj_at :: "u64 \<Rightarrow> nat \<Rightarrow> nat \<Rightarrow> nat \<Rightarrow> nat \<Rightarrow> u64" where
  "obj_at vaddr off hdr n j = of_nat (unat vaddr + off + hdr + j * n)"

lemma ring_enqueue_frame:
  assumes "ring_pinv mp s" "rte_mempool_ops_enqueue_bulk (ring_table v st) mp objs n s = ret (s', r)"
  shows "rs_eal s' = rs_eal s" "q \<noteq> mp_pool_data mp \<Longrightarrow> rs_ring s' q = rs_ring s q"
proof -
  have i: "0 \<le> mp_ops_index mp" "mp_ops_index mp < 4" using assms(1) by (auto simp: ring_pinv_def)
  obtain rg where "rs_ring s (mp_pool_data mp) = Some rg" using assms(1) by (auto simp: ring_pinv_def split: option.splits)
  then show "rs_eal s' = rs_eal s" "q \<noteq> mp_pool_data mp \<Longrightarrow> rs_ring s' q = rs_ring s q"
    using ring_calls(1) [OF i, of v st objs n s] assms(2)
    by (auto simp: with_ring_def put_ring_def lift_opt_def res_bind_def split: option.splits)
qed

text \<open>The backend only looks at the index of its callbacks and at its data.\<close>

lemma ring_backend_cong:
  assumes "mp_ops_index mp' = mp_ops_index mp" "mp_pool_data mp' = mp_pool_data mp"
  shows "ring_pinv mp' s = ring_pinv mp s" "ring_bag mp' s = ring_bag mp s" "ring_cap mp' s = ring_cap mp s"
  using assms by (simp_all add: ring_pinv_def ring_bag_def ring_cap_def)

lemma elem_sizes:
  assumes "n = unat (h :: u32) + unat e + unat t" "n < 2 ^ 32"
  shows "unat (h + e + t) = n" "unat (e + t) = unat e + unat t"
proof -
  have "unat (h + e) = unat h + unat e" using assms by (subst unat_add_no_overflow) simp_all
  then show "unat (h + e + t) = n" using assms by (subst unat_add_no_overflow) simp_all
  show "unat (e + t) = unat e + unat t" using assms by (subst unat_add_no_overflow) simp_all
qed

lemma ucast64: "(ucast (x :: u32) :: u64) = of_nat (unat x)"
  by simp

lemma populate_step:
  fixes len :: u64
  assumes n: "n = unat (mp_header_size mp) + unat (mp_elt_size mp) + unat (mp_trailer_size mp)" "n < 2 ^ 32"
      "total_sz = mp_header_size mp + mp_elt_size mp + mp_trailer_size mp"
    and mem: "unat len + n < 2 ^ 64" "off \<le> unat len"
  shows "of_nat off + ucast total_sz \<le> len \<longleftrightarrow> off + n \<le> unat len"
    "vaddr + (of_nat off + ucast (mp_header_size mp)) = obj_at vaddr off (unat (mp_header_size mp)) n 0"
    "of_nat off + ucast (mp_header_size mp) + ucast (mp_elt_size mp + mp_trailer_size mp) = (of_nat (off + n) :: u64)"
proof -
  note sz = elem_sizes [OF n(1,2)]
  have "of_nat off + ucast total_sz = (of_nat (off + n) :: u64)" unfolding n(3) ucast64 sz(1) by (simp add: of_nat_add)
  moreover have "unat (of_nat (off + n) :: u64) = off + n" using mem by (intro unat_of_nat64) simp
  ultimately show "of_nat off + ucast total_sz \<le> len \<longleftrightarrow> off + n \<le> unat len" by (simp only: word_le_nat_alt)
  show "vaddr + (of_nat off + ucast (mp_header_size mp)) = obj_at vaddr off (unat (mp_header_size mp)) n 0"
    by (simp add: obj_at_def of_nat_add)
  show "of_nat off + ucast (mp_header_size mp) + ucast (mp_elt_size mp + mp_trailer_size mp) = (of_nat (off + n) :: u64)"
    unfolding ucast64 sz(2) n(1) by (simp add: of_nat_add)
qed

lemma layout_count_Suc:
  assumes "0 < n" "off \<le> unat len"
  shows "0 < layout_count len off n room \<longleftrightarrow> off + n \<le> unat len \<and> 0 < room"
    "off + n \<le> unat len \<Longrightarrow> 0 < room \<Longrightarrow> layout_count len off n room = Suc (layout_count len (off + n) n (room - 1))"
proof -
  have d: "0 < (unat len - off) div n \<longleftrightarrow> off + n \<le> unat len" using assms by (auto simp: div_greater_zero_iff)
  then show "0 < layout_count len off n room \<longleftrightarrow> off + n \<le> unat len \<and> 0 < room" by (auto simp: layout_count_def)
  assume le: "off + n \<le> unat len" "0 < room"
  have "unat len - off = (unat len - (off + n)) + n" using le by simp
  then have "(unat len - off) div n = Suc ((unat len - (off + n)) div n)" using assms(1) by (metis add.commute div_add_self1 not_less_zero plus_1_eq_Suc)
  then show "layout_count len off n room = Suc (layout_count len (off + n) n (room - 1))"
    using le(2) by (simp add: layout_count_def)
qed

lemma populate_loop_ok:
  assumes p: "ring_pinv mp s"
    and n: "n = unat (mp_header_size mp) + unat (mp_elt_size mp) + unat (mp_trailer_size mp)" "0 < n" "n < 2 ^ 32"
      "total_sz = mp_header_size mp + mp_elt_size mp + mp_trailer_size mp"
    and mem: "unat len + n < 2 ^ 64" "off \<le> unat len"
    and room: "length (ring_bag mp s) + k \<le> ring_cap mp s"
    and k: "k = layout_count len off n (unat (mp_size mp) - unat (mp_populated_size mp))"
  shows "\<exists>s' mp'. populate_loop (ring_table v st) p vaddr len total_sz (of_nat off) i mp s = ret (s', mp', i + of_nat k) \<and>
    mp' = mp\<lparr>mp_elt_list := mp_elt_list mp', mp_populated_size := mp_populated_size mp + of_nat k\<rparr> \<and>
    ring_pinv mp' s' \<and> ring_cap mp' s' = ring_cap mp s \<and>
    ring_bag mp' s' = ring_bag mp s @ map (obj_at vaddr off (unat (mp_header_size mp)) n) [0..<k] \<and>
    rs_eal s' = rs_eal s \<and> (\<forall>q. q \<noteq> mp_pool_data mp \<longrightarrow> rs_ring s' q = rs_ring s q)"
  using p n(1,4) mem(2) room k
proof (induction k arbitrary: off i mp s)
  case 0
  note st = populate_step [OF 0(2) n(3) 0(3) mem(1) 0(4)]
  have "\<not> (off + n \<le> unat len \<and> mp_populated_size mp < mp_size mp)"
    using layout_count_Suc(1) [OF n(2) 0(4), of "unat (mp_size mp) - unat (mp_populated_size mp)"] 0(6)
    by (auto simp: word_less_nat_alt)
  then have "populate_loop (ring_table v st) p vaddr len total_sz (of_nat off) i mp s = ret (s, mp, i)"
    by (subst populate_loop.simps) (simp only: st(1) if_False)
  then show ?case using 0(1) by (intro exI [of _ s] exI [of _ mp]) simp
next
  case (Suc k)
  note st = populate_step [OF Suc.prems(2) n(3) Suc.prems(3) mem(1) Suc.prems(4)]
  let ?room = "unat (mp_size mp) - unat (mp_populated_size mp)"
  have c: "off + n \<le> unat len" "mp_populated_size mp < mp_size mp" "0 < ?room"
    using layout_count_Suc(1) [OF n(2) Suc.prems(4), of ?room] Suc.prems(6) by (auto simp: word_less_nat_alt)
  have kk: "k = layout_count len (off + n) n (?room - 1)" using layout_count_Suc(2) [OF n(2) Suc.prems(4) c(1,3)] Suc.prems(6) by simp
  let ?obj = "obj_at vaddr off (unat (mp_header_size mp)) n 0"
  let ?mp = "mp\<lparr>mp_elt_list := mp_elt_list mp @ [\<lparr>oh_addr = RTE_PTR_SUB ?obj (ucast SIZEOF_OBJHDR), oh_mp = p\<rparr>],
     mp_populated_size := mp_populated_size mp + 1\<rparr>"
  have p1: "ring_pinv ?mp s" "ring_bag ?mp s = ring_bag mp s" "ring_cap ?mp s = ring_cap mp s"
    using ring_backend_cong [of ?mp mp] Suc.prems(1) by simp_all
  have "unat (1 :: u32) \<le> length [?obj]" "length (ring_bag ?mp s) + unat (1 :: u32) \<le> ring_cap ?mp s"
    using Suc.prems(5) p1 by simp_all
  from ring_pool.enqueue_law [OF p1(1) this, of v st] obtain s1 r where
    e: "rte_mempool_ops_enqueue_bulk (ring_table v st) ?mp [?obj] 1 s = ret (s1, r)" "ring_pinv ?mp s1"
      "ring_bag ?mp s1 = ring_bag mp s @ [?obj]" "ring_cap ?mp s1 = ring_cap mp s" using p1 by auto
  note fr = ring_enqueue_frame [OF p1(1) e(1)]
  have pop: "unat (mp_populated_size mp + 1) = unat (mp_populated_size mp) + 1"
    using c(2) unat_lt_pow [of "mp_size mp"] by (subst unat_add_no_overflow) (simp_all add: word_less_nat_alt)
  have off: "off + n \<le> unat len" by (rule c(1))
  have pre: "n = unat (mp_header_size ?mp) + unat (mp_elt_size ?mp) + unat (mp_trailer_size ?mp)"
    "total_sz = mp_header_size ?mp + mp_elt_size ?mp + mp_trailer_size ?mp"
    "length (ring_bag ?mp s1) + k \<le> ring_cap ?mp s1"
    "k = layout_count len (off + n) n (unat (mp_size ?mp) - unat (mp_populated_size ?mp))"
    using Suc.prems(2,3,5) e(3,4) kk pop by simp_all
  from Suc.IH [OF e(2) pre(1,2) off pre(3,4), of "i + 1"] obtain s' mp' where
    ih: "populate_loop (ring_table v st) p vaddr len total_sz (of_nat (off + n)) (i + 1) ?mp s1 = ret (s', mp', i + 1 + of_nat k)"
      "mp' = ?mp\<lparr>mp_elt_list := mp_elt_list mp', mp_populated_size := mp_populated_size ?mp + of_nat k\<rparr>"
      "ring_pinv mp' s'" "ring_cap mp' s' = ring_cap ?mp s1"
      "ring_bag mp' s' = ring_bag ?mp s1 @ map (obj_at vaddr (off + n) (unat (mp_header_size ?mp)) n) [0..<k]"
      "rs_eal s' = rs_eal s1" "\<forall>q. q \<noteq> mp_pool_data ?mp \<longrightarrow> rs_ring s' q = rs_ring s1 q"
    by (elim exE conjE) (rule that)
  have eq: "populate_loop (ring_table v st) p vaddr len total_sz (of_nat off) i mp s = ret (s', mp', i + of_nat (Suc k))"
  proof -
    have i: "i + of_nat (Suc k) = i + 1 + of_nat k" by simp
    show ?thesis unfolding i using ih(1) e(1) c(1,2)
      by (subst populate_loop.simps) (simp only: st(1,2) simp_thms if_True mempool_add_elem_def Let_def res_bind_simps prod.case, simp add: st(3))
  qed
  have objs: "map (obj_at vaddr off h n) [0..<Suc k] = obj_at vaddr off h n 0 # map (obj_at vaddr (off + n) h n) [0..<k]" for h
    unfolding map_upt_Suc by (simp add: obj_at_def ac_simps)
  show ?case
  proof (intro exI conjI)
    show "mp' = mp\<lparr>mp_elt_list := mp_elt_list mp', mp_populated_size := mp_populated_size mp + of_nat (Suc k)\<rparr>"
      by (subst ih(2)) simp
    show "ring_bag mp' s' = ring_bag mp s @ map (obj_at vaddr off (unat (mp_header_size mp)) n) [0..<Suc k]"
      unfolding objs ih(5) e(3) by simp
  qed (use eq ih e(4) fr in simp_all)
qed

section \<open>The states of a pool\<close>

text \<open>
  A pool over the ring backend: its ring is well-formed and so are its caches. The free objects are
  those in the ring and in the caches.
\<close>

definition mempool_ok :: "mempool \<Rightarrow> rings \<Rightarrow> bool" where
  "mempool_ok mp s \<longleftrightarrow> ring_pinv mp s \<and> (if mp_cache_size mp = 0 then mp_local_cache mp = []
     else length (mp_local_cache mp) = unat RTE_MAX_LCORE \<and> (\<forall>c \<in> set (mp_local_cache mp). cache_ok c))"

definition mempool_free_objs :: "mempool \<Rightarrow> rings \<Rightarrow> u64 multiset" where
  "mempool_free_objs mp s = mset (ring_bag mp s) + mset (concat (map cached (mp_local_cache mp)))"

lemma mempool_ok_eq: "mempool_ok mp s = ring_pool.pool_ok mp s"
  by (simp add: mempool_ok_def ring_pool.pool_ok_def)

lemma mempool_free_objs_eq: "mempool_free_objs mp s = ring_pool.pool_free mp s"
  by (simp add: mempool_free_objs_def ring_pool.pool_free_def)

lemmas mempool_state = mempool_ok_eq mempool_free_objs_eq

text \<open>A pool as it is set up, with a ring of four slots and a cache of two objects per core.\<close>

definition demo_ring :: "u64 rte_ring" where
  "demo_ring = (case rte_ring_enqueue_bulk (fst (rte_ring_init (zero_ring (replicate 8 0)) ''MP_p'' 8 0)) [0x100, 0x200, 0x300] 3 of
     Some (r, _) \<Rightarrow> r)"

definition demo_pool_state :: rings where
  "demo_pool_state = \<lparr>rs_eal = demo_eal, rs_ring = [0x1000 \<mapsto> demo_ring]\<rparr>"

definition demo_pool :: mempool where
  "demo_pool = (mempool_setup ''p'' 7 2 0 \<lparr>os_elt_size = 40, os_header_size = 64, os_trailer_size = 24, os_total_size = 128\<rparr> 0 0 0)
     \<lparr>mp_pool_data := 0x1000\<rparr>"

lemma demo_ring_ok: "ring_inv demo_ring" "ring_contents demo_ring = [0x100, 0x200, 0x300]" "unat (r_capacity demo_ring) = 7"
proof -
  obtain r where r: "rte_ring_init (zero_ring (replicate 8 (0 :: u64))) ''MP_p'' 8 0 = (r, 0)" "ring_inv r" "ring_contents r = []"
    "r_capacity r = 8 - 1"
    using ring_init_pow2 [of "''MP_p''" 0 8 "zero_ring (replicate 8 (0 :: u64))"]
    by (auto simp: POWEROF2_def RTE_RING_SZ_MASK_def zero_ring_def)
  then have "ring_inv demo_ring \<and> ring_contents demo_ring = [0x100, 0x200, 0x300] \<and> unat (r_capacity demo_ring) = 7"
    using ring_enqueue_law [OF r(2), of 3 "[0x100, 0x200, 0x300]" RTE_RING_QUEUE_FIXED "ht_single (r_prod r)"]
    by (auto simp: demo_ring_def rte_ring_enqueue_bulk_def)
  then show "ring_inv demo_ring" "ring_contents demo_ring = [0x100, 0x200, 0x300]" "unat (r_capacity demo_ring) = 7" by simp_all
qed

lemma demo_pool_ok: "mempool_ok demo_pool demo_pool_state" "mempool_free_objs demo_pool demo_pool_state = {#0x100, 0x200, 0x300#}"
    "ring_cap demo_pool demo_pool_state = 7" "ring_bag demo_pool demo_pool_state = [0x100, 0x200, 0x300]" "ring_pinv demo_pool demo_pool_state"
  using demo_ring_ok
  by (simp_all add: demo_pool_def mempool_setup_def zero_mempool_def demo_pool_state_def mempool_ok_def mempool_free_objs_def
      ring_pinv_def ring_bag_def ring_cap_def mempool_cache_init_def zero_cache_def cache_ok_def cached_def CALC_CACHE_FLUSHTHRESH_def
      RTE_MEMPOOL_CACHE_MAX_SIZE_def)

lemma demo_pool_sizes: "mp_size demo_pool = 7" "mp_populated_size demo_pool = 0" "mp_header_size demo_pool = 64"
    "mp_elt_size demo_pool = 40" "mp_trailer_size demo_pool = 24" "mp_pool_data demo_pool = 0x1000"
  by (simp_all add: demo_pool_def mempool_setup_def zero_mempool_def)

section \<open>Properties\<close>

text \<open>
  C4. Any sequence of gets and puts by any cores on a well-formed pool with room for
  its objects returns: no call faults or blocks. The objects in the ring and in the caches together
  with those handed out are always the same multiset, so that no object is lost and, when the
  objects are distinct, none is handed out twice or is free while it is held; and the pool stays
  well-formed, so that its audit succeeds.
\<close>

theorem mempool_run_conserves:
  assumes "mempool_ok mp s" "size (mempool_free_objs mp s) + length held \<le> ring_cap mp s"
  shows "\<exists>mp' s' held'. pool_run (ring_table v st) ops mp s held = ret (mp', s', held') \<and> mempool_ok mp' s' \<and>
    mempool_free_objs mp' s' + mset held' = mempool_free_objs mp s + mset held \<and> rte_mempool_audit mp' = ret () \<and>
    ((\<forall>x. count (mempool_free_objs mp s + mset held) x \<le> 1) \<longrightarrow> distinct held' \<and> set held' \<inter> set_mset (mempool_free_objs mp' s') = {})"
proof -
  obtain mp' s' held' where r: "pool_run (ring_table v st) ops mp s held = ret (mp', s', held')" "ring_pool.pool_ok mp' s'"
      "ring_pool.pool_free mp' s' + mset held' = ring_pool.pool_free mp s + mset held"
    using ring_pool.run_ok [OF assms [unfolded mempool_state], of v st ops] by blast
  have "distinct held' \<and> set held' \<inter> set_mset (ring_pool.pool_free mp' s') = {}"
    if u: "\<forall>x. count (ring_pool.pool_free mp s + mset held) x \<le> 1"
  proof (intro conjI)
    have c: "count (ring_pool.pool_free mp' s') x + count (mset held') x \<le> 1" for x using u unfolding r(3) [symmetric] by simp
    then have "count (mset held') x \<le> 1" for x by (metis add_leD2)
    then show "distinct held'" by (metis count_mset_0_iff distinct_count_atmost_1 le_zero_eq less_one linorder_not_le order_class.order_eq_iff)
    show "set held' \<inter> set_mset (ring_pool.pool_free mp' s') = {}"
    proof (rule ccontr)
      assume "set held' \<inter> set_mset (ring_pool.pool_free mp' s') \<noteq> {}"
      then obtain x where "x \<in># mset held'" "x \<in># ring_pool.pool_free mp' s'" by auto
      then have "0 < count (mset held') x" "0 < count (ring_pool.pool_free mp' s') x" by (simp_all only: count_greater_zero_iff)
      then show False using c [of x] by linarith
    qed
  qed
  then show ?thesis using r ring_pool.audit_ok [OF r(2)] unfolding mempool_state by blast
qed

text \<open>
  The number of available objects that a pool reports is the number of free
  objects in its ring and its caches; the number in use is the rest of its size.
\<close>

theorem mempool_avail_count_spec:
  assumes "mempool_ok mp s" "size (mempool_free_objs mp s) \<le> unat (mp_size mp)"
  shows "\<exists>c u. rte_mempool_avail_count (ring_table v st) mp s = ret c \<and> unat c = size (mempool_free_objs mp s) \<and>
    rte_mempool_in_use_count (ring_table v st) mp s = ret u \<and> unat u + size (mempool_free_objs mp s) = unat (mp_size mp) \<and>
    rte_mempool_empty (ring_table v st) mp s = ret (mempool_free_objs mp s = {#})"
proof -
  obtain c where c: "rte_mempool_avail_count (ring_table v st) mp s = ret c" "unat c = size (mempool_free_objs mp s)"
    using ring_pool.avail_count_ok [OF assms [unfolded mempool_state], of v st] unfolding mempool_state by blast
  have u: "unat (mp_size mp - c) + unat c = unat (mp_size mp)"
    using assms(2) c(2) by (subst unat_sub_no_underflow) (simp_all add: word_le_nat_alt)
  have "c = 0 \<longleftrightarrow> mempool_free_objs mp s = {#}" using c(2) by (metis size_eq_0_iff_empty unat_eq_zero)
  then show ?thesis using c u
    by (intro exI [of _ c] exI [of _ "mp_size mp - c"]) (simp add: rte_mempool_in_use_count_def rte_mempool_empty_def)
qed

text \<open>
  C13. \<^verbatim>\<open>rte_mempool_get_bulk\<close> returns \<open>0\<close> with as many objects as asked for, which were free and are
  free no longer, or \<^verbatim>\<open>-ENOBUFS\<close> with the table and the pool's objects as they were; the latter only when
  no object was asked for or the ring alone holds too few. What \<^verbatim>\<open>rte_mempool_put_bulk\<close> is then given back makes
  the free objects what they were.
\<close>

theorem mempool_get_spec:
  assumes "mempool_ok mp s" "unat n \<le> length tbl" "size (mempool_free_objs mp s) \<le> ring_cap mp s"
  shows "\<exists>s1 mp1 tbl' r. rte_mempool_get_bulk (ring_table v st) lcore mp tbl n s = ret (s1, mp1, tbl', r) \<and> mempool_ok mp1 s1 \<and>
    (r = 0 \<and> drop (unat n) tbl' = drop (unat n) tbl \<and> mempool_free_objs mp1 s1 + mset (take (unat n) tbl') = mempool_free_objs mp s \<and>
       (\<exists>s2 mp2. rte_mempool_put_bulk (ring_table v st) lcore' mp1 tbl' n s1 = ret (s2, mp2) \<and> mempool_ok mp2 s2 \<and>
          mempool_free_objs mp2 s2 = mempool_free_objs mp s) \<or>
     r = - ENOBUFS \<and> tbl' = tbl \<and> mempool_free_objs mp1 s1 = mempool_free_objs mp s \<and> (n = 0 \<or> length (ring_bag mp s) < unat n))"
proof -
  note a = assms [unfolded mempool_state]
  obtain s1 mp1 tbl' r where g: "rte_mempool_get_bulk (ring_table v st) lcore mp tbl n s = ret (s1, mp1, tbl', r)"
      "ring_pool.pool_ok mp1 s1" "ring_cap mp1 s1 = ring_cap mp s"
      "r = 0 \<and> length tbl' = length tbl \<and> drop (unat n) tbl' = drop (unat n) tbl \<and>
         ring_pool.pool_free mp1 s1 + mset (take (unat n) tbl') = ring_pool.pool_free mp s \<or>
       r = - ENOBUFS \<and> tbl' = tbl \<and> ring_pool.pool_free mp1 s1 = ring_pool.pool_free mp s \<and> (n = 0 \<or> length (ring_bag mp s) < unat n)"
    using ring_pool.get_bulk_ok [OF a(1,2), of v st lcore] by blast
  show ?thesis
  proof (cases "r = 0")
    case True
    then have t: "length tbl' = length tbl" "ring_pool.pool_free mp1 s1 + mset (take (unat n) tbl') = ring_pool.pool_free mp s"
      using g(4) by auto
    have "size (ring_pool.pool_free mp1 s1) + unat n \<le> ring_cap mp1 s1"
      using arg_cong [OF t(2), of size] a(2,3) t(1) g(3) by simp
    from ring_pool.put_bulk_ok [OF g(2) _ this, of tbl' v st lcore'] a(2) t obtain s2 mp2 where
      p: "rte_mempool_put_bulk (ring_table v st) lcore' mp1 tbl' n s1 = ret (s2, mp2)" "ring_pool.pool_ok mp2 s2"
        "ring_pool.pool_free mp2 s2 = ring_pool.pool_free mp s" by auto
    then show ?thesis unfolding mempool_state using g True t by auto
  next
    case False
    then show ?thesis unfolding mempool_state using g by auto
  qed
qed

text \<open>
  C23. The loop of \<^verbatim>\<open>rte_mempool_populate_phy\<close> ends and places as many objects as the pool
  still needs and the chunk has room for, one behind the other without gap or overlap, and gives
  them to the backend in that order; the pool counts them, and nothing but the pool's ring changes.
\<close>

theorem mempool_populate_layout:
  assumes "ring_pinv mp s"
    and "n = unat (mp_header_size mp) + unat (mp_elt_size mp) + unat (mp_trailer_size mp)" "0 < n" "n < 2 ^ 32"
      "total_sz = mp_header_size mp + mp_elt_size mp + mp_trailer_size mp"
    and "unat len + n < 2 ^ 64" "off \<le> unat len" "length (ring_bag mp s) + k \<le> ring_cap mp s"
    and "k = layout_count len off n (unat (mp_size mp) - unat (mp_populated_size mp))"
  shows "\<exists>s' mp'. populate_loop (ring_table v st) p vaddr len total_sz (of_nat off) 0 mp s = ret (s', mp', of_nat k) \<and>
    mp' = mp\<lparr>mp_elt_list := mp_elt_list mp', mp_populated_size := mp_populated_size mp + of_nat k\<rparr> \<and> ring_pinv mp' s' \<and>
    ring_bag mp' s' = ring_bag mp s @ map (\<lambda>j. of_nat (unat vaddr + off + unat (mp_header_size mp) + j * n)) [0..<k] \<and>
    rs_eal s' = rs_eal s \<and> (\<forall>q. q \<noteq> mp_pool_data mp \<longrightarrow> rs_ring s' q = rs_ring s q) \<and>
    (\<forall>j < k. off + (j + 1) * n \<le> unat len)"
proof -
  have "(j + 1) * n \<le> unat len - off" if "j < k" for j
  proof -
    have "j + 1 \<le> (unat len - off) div n" using that assms(9) by (simp add: layout_count_def)
    then have "(j + 1) * n \<le> (unat len - off) div n * n" by (rule mult_le_mono1)
    then show ?thesis by (meson div_times_less_eq_dividend le_trans)
  qed
  then have fit: "\<forall>j < k. off + (j + 1) * n \<le> unat len" using assms(7) by (metis Nat.le_diff_conv2 add.commute)
  have m: "obj_at vaddr off h n = (\<lambda>j. of_nat (unat vaddr + off + h + j * n))" for h by (rule ext) (rule obj_at_def)
  show ?thesis using populate_loop_ok [OF assms, of v st p vaddr 0] fit unfolding m by (elim exE conjE) simp
qed

text \<open>
  Registering a complete backend with a short name in a table with room stores
  it at the next index, at which it is found by its name when the name is new; incomplete backends, long
  names and a full table are refused and leave the table as it was.
\<close>

theorem mempool_register_ops_spec:
  assumes "sl_locked (ot_sl t) = 0" "length (ot_ops t) = 16"
  shows "\<exists>t' e r. rte_mempool_register_ops h t = ret (t', e, r) \<and>
    (if unat (ot_num_ops t) \<ge> 16 then t' = t \<and> r = - ENOSPC
     else if mo_alloc h = None \<or> mo_enqueue h = None \<or> mo_dequeue h = None \<or> mo_get_count h = None then t' = t \<and> r = - EINVAL
     else if length (mo_name h) \<ge> 31 then t' = t \<and> r = - EEXIST
     else r = int (unat (ot_num_ops t)) \<and> rte_mempool_get_ops r t' = ret h \<and>
       (mo_name h \<notin> mo_name ` set (take (unat (ot_num_ops t)) (ot_ops t)) \<longrightarrow>
         (\<forall>mp cfg. mp_flags mp AND MEMPOOL_F_POOL_CREATED = 0 \<longrightarrow>
            rte_mempool_set_ops_byname t' mp (mo_name h) cfg = (mp\<lparr>mp_ops_index := r, mp_pool_config := cfg\<rparr>, 0))))"
proof -
  have c: "RTE_MEMPOOL_MAX_OPS_IDX = 16" "RTE_MEMPOOL_OPS_NAMESIZE = 32" by (simp_all add: RTE_MEMPOOL_MAX_OPS_IDX_def RTE_MEMPOOL_OPS_NAMESIZE_def)
  have full: "ot_num_ops t \<ge> RTE_MEMPOOL_MAX_OPS_IDX \<longleftrightarrow> unat (ot_num_ops t) \<ge> 16" by (simp add: c word_le_nat_alt)
  have same: "(t\<lparr>ot_sl := rte_spinlock_unlock ((ot_sl t)\<lparr>sl_locked := 1\<rparr>)\<rparr>) = t" using assms(1) by (simp add: rte_spinlock_unlock_def x86_xchg_def)
  note eqs = rte_mempool_register_ops_def spinlock_free [OF assms(1)] full c(2)
  define incomplete where "incomplete = (mo_alloc h = None \<or> mo_enqueue h = None \<or> mo_dequeue h = None \<or> mo_get_count h = None)"
  show ?thesis
  proof (cases "unat (ot_num_ops t) \<ge> 16 \<or> incomplete \<or> length (mo_name h) \<ge> 31")
    case True
    let ?r = "if unat (ot_num_ops t) \<ge> 16 then - ENOSPC else if incomplete then - EINVAL else - EEXIST"
    have "\<exists>e. rte_mempool_register_ops h t = ret (t, e, ?r)"
      using True same by (cases incomplete) (auto simp: eqs incomplete_def [symmetric])
    then obtain e where "rte_mempool_register_ops h t = ret (t, e, ?r)" by blast
    then show ?thesis using True unfolding incomplete_def [symmetric]
      by (intro exI [of _ t] exI [of _ e] exI [of _ ?r]) auto
  next
    case False
    let ?n = "unat (ot_num_ops t)"
    let ?t = "t\<lparr>ot_num_ops := ot_num_ops t + 1, ot_ops := (ot_ops t)[?n := h]\<rparr>"
    have nm: "h\<lparr>mo_name := fst (snprintf_str 32 (mo_name h))\<rparr> = h" using False by (simp add: snprintf_str_def)
    have n1: "unat (ot_num_ops t + 1) = ?n + 1" using False by (subst unat_add_no_overflow) simp_all
    have reg: "rte_mempool_register_ops h t = ret (?t, None, int ?n)"
      using False assms nm unfolding incomplete_def by (auto simp: eqs Let_def rte_spinlock_unlock_def x86_xchg_def)
    have "int ?n < 16" using False by linarith
    then have get: "rte_mempool_get_ops (int ?n) ?t = ret h" using False assms by (simp add: rte_mempool_get_ops_def c)
    have tk: "take (Suc ?n) ((ot_ops t)[?n := h]) = take ?n (ot_ops t) @ [h]" using False assms by (simp add: take_Suc_conv_app_nth)
    have byname: "rte_mempool_set_ops_byname ?t mp (mo_name h) cfg = (mp\<lparr>mp_ops_index := int ?n, mp_pool_config := cfg\<rparr>, 0)"
      if "mo_name h \<notin> mo_name ` set (take ?n (ot_ops t))" "mp_flags mp AND MEMPOOL_F_POOL_CREATED = 0" for mp :: "'a rte_mempool" and cfg
    proof -
      have "first_index (\<lambda>ops. mo_name h = mo_name ops) (take (Suc ?n) ((ot_ops t)[?n := h])) = Some ?n"
        unfolding first_index_Some tk using that(1) False assms(2)
        by (auto simp: nth_append) (metis image_eqI length_take min.absorb4 not_le nth_mem nth_take)
      then show ?thesis using that(2) n1 by (simp add: rte_mempool_set_ops_byname_def)
    qed
    show ?thesis using reg get byname False unfolding incomplete_def [symmetric] by auto
  qed
qed

section \<open>Witnesses\<close>

theorem mempool_run_conserves_witness:
  "\<exists>mp' s' held'. pool_run (ring_table id demo_stats) [PoolGet 3 1, PoolGet 5 1, PoolPut 5 0 1] demo_pool demo_pool_state [] =
      ret (mp', s', held') \<and> mempool_free_objs mp' s' + mset held' = {#0x100, 0x200, 0x300#} \<and> distinct held'"
  using mempool_run_conserves [of demo_pool demo_pool_state "[]" id demo_stats "[PoolGet 3 1, PoolGet 5 1, PoolPut 5 0 1]"] demo_pool_ok
  by auto

theorem mempool_avail_count_spec_witness:
  "rte_mempool_avail_count (ring_table id demo_stats) demo_pool demo_pool_state = ret 3 \<and>
    rte_mempool_in_use_count (ring_table id demo_stats) demo_pool demo_pool_state = ret 4"
  using mempool_avail_count_spec [of demo_pool demo_pool_state id demo_stats] demo_pool_ok demo_pool_sizes
  by (auto simp: word_unat_eq_iff)

theorem mempool_get_spec_witness:
  "\<exists>s1 mp1 x. rte_mempool_get_bulk (ring_table id demo_stats) 3 demo_pool [0, 0] 1 demo_pool_state = ret (s1, mp1, [x, 0], 0) \<and>
    x \<in># {#0x100, 0x200, 0x300#} \<and> mempool_free_objs mp1 s1 = {#0x100, 0x200, 0x300#} - {#x#}"
proof -
  obtain s1 mp1 tbl r where g: "rte_mempool_get_bulk (ring_table id demo_stats) 3 demo_pool [0, 0] 1 demo_pool_state = ret (s1, mp1, tbl, r)"
    "r = 0 \<and> drop (unat (1 :: u32)) tbl = drop (unat (1 :: u32)) [0, 0] \<and>
       mempool_free_objs mp1 s1 + mset (take (unat (1 :: u32)) tbl) = mempool_free_objs demo_pool demo_pool_state \<or>
     r = - ENOBUFS \<and> (1 = (0 :: u32) \<or> length (ring_bag demo_pool demo_pool_state) < unat (1 :: u32))"
    using mempool_get_spec [of demo_pool demo_pool_state 1 "[0, 0]" id demo_stats 3 4] demo_pool_ok by auto
  then have t: "r = 0" "drop 1 tbl = [0]" "mempool_free_objs mp1 s1 + mset (take 1 tbl) = {#0x100, 0x200, 0x300#}"
    using demo_pool_ok by auto
  then obtain x where x: "tbl = [x, 0]" by (cases tbl) auto
  then have m: "add_mset x (mempool_free_objs mp1 s1) = {#0x100, 0x200, 0x300#}" using t(3) by simp
  then have "x \<in># {#0x100, 0x200, 0x300#}" by (metis union_single_eq_member)
  moreover have "mempool_free_objs mp1 s1 = {#0x100, 0x200, 0x300#} - {#x#}" unfolding m [symmetric] by simp
  ultimately show ?thesis using g(1) t(1) x by blast
qed

theorem mempool_populate_layout_witness:
  "\<exists>s' mp'. populate_loop (ring_table id demo_stats) 0x9000 0x20000 500 128 (of_nat 0) 0 demo_pool demo_pool_state = ret (s', mp', 3) \<and>
    ring_bag mp' s' = [0x100, 0x200, 0x300, 0x20040, 0x200C0, 0x20140] \<and> mp_populated_size mp' = 3"
proof -
  have k: "3 = layout_count 500 0 128 (unat (mp_size demo_pool) - unat (mp_populated_size demo_pool))"
    by (simp add: layout_count_def demo_pool_sizes)
  obtain s' mp' where p: "populate_loop (ring_table id demo_stats) 0x9000 0x20000 500 128 (of_nat 0) 0 demo_pool demo_pool_state = ret (s', mp', of_nat 3)"
    "mp' = demo_pool\<lparr>mp_elt_list := mp_elt_list mp', mp_populated_size := mp_populated_size demo_pool + of_nat 3\<rparr>"
    "ring_bag mp' s' = ring_bag demo_pool demo_pool_state @
      map (\<lambda>j. of_nat (unat (0x20000 :: u64) + 0 + unat (mp_header_size demo_pool) + j * 128)) [0..<3]"
    using mempool_populate_layout [OF demo_pool_ok(5) _ _ _ _ _ _ _ k, of 128 id demo_stats "0x9000" "0x20000"] demo_pool_ok(3,4)
    by (auto simp: demo_pool_sizes)
  have "mp_populated_size mp' = 3" using arg_cong [OF p(2), of mp_populated_size] by (simp add: demo_pool_sizes)
  then show ?thesis using p(1,3) by (simp add: demo_pool_ok(4) demo_pool_sizes upt_rec)
qed

theorem mempool_register_ops_spec_witness:
  "\<exists>t'. rte_mempool_register_ops (ops_mp_mc id demo_stats) init_ops_table = ret (t', None, 0) \<and>
    rte_mempool_get_ops 0 t' = ret (ops_mp_mc id demo_stats)"
  using mempool_register_ops_spec [of init_ops_table "ops_mp_mc id demo_stats"]
  by (auto simp: init_ops_table_def ops_mp_mc_def RTE_MEMPOOL_MAX_OPS_IDX_def rte_mempool_register_ops_def spinlock_free Let_def
      RTE_MEMPOOL_OPS_NAMESIZE_def)

end
