(* ===== verification/Memcpy.thy ===== *)
theory Memcpy
  imports Prelude
begin

text \<open>
  \<^verbatim>\<open>rte_memcpy\<close>, \<^verbatim>\<open>arch/x86/rte_memcpy.h\<close>, in its three versions (SSE, AVX2 and AVX-512), down to the vector
  loads and stores. Memory is a partial function on addresses; an access to a byte that is not mapped
  is a fault, \<open>None\<close>.
\<close>

section \<open>Loads and stores\<close>

type_synonym bytes = "u64 \<Rightarrow> u8 option"

definition load_bytes :: "nat \<Rightarrow> u64 \<Rightarrow> bytes \<Rightarrow> u8 list option" where
  "load_bytes k a m = those (map (\<lambda>i. m (a + of_nat i)) [0..<k])"

definition store_bytes :: "u64 \<Rightarrow> u8 list \<Rightarrow> bytes \<Rightarrow> bytes option" where
  "store_bytes a bs m =
     (if \<forall>i \<in> set [0..<length bs]. m (a + of_nat i) \<noteq> None
      then Some (\<lambda>x. if unat (x - a) < length bs then Some (bs ! unat (x - a)) else m x) else None)"

text \<open>One register is loaded and stored; chunks of width \<open>w\<close> are moved one after the other.\<close>

definition mov :: "nat \<Rightarrow> u64 \<Rightarrow> u64 \<Rightarrow> bytes \<Rightarrow> bytes option" where
  "mov k dst src m = do { r \<leftarrow> load_bytes k src m; store_bytes dst r m }"

fun mov_each :: "nat \<Rightarrow> nat list \<Rightarrow> u64 \<Rightarrow> u64 \<Rightarrow> bytes \<Rightarrow> bytes option" where
  "mov_each w [] dst src m = Some m"
| "mov_each w (t # ts) dst src m = do {
     m \<leftarrow> mov w (dst + of_nat (t * w)) (src + of_nat (t * w)) m;
     mov_each w ts dst src m
   }"

text \<open>Several registers are loaded before any is stored.\<close>

fun load_each :: "nat \<Rightarrow> nat list \<Rightarrow> u64 \<Rightarrow> bytes \<Rightarrow> u8 list list option" where
  "load_each w [] src m = Some []"
| "load_each w (t # ts) src m = do {
     r \<leftarrow> load_bytes w (src + of_nat (t * w)) m;
     rs \<leftarrow> load_each w ts src m;
     Some (r # rs)
   }"

fun store_each :: "nat \<Rightarrow> nat list \<Rightarrow> u64 \<Rightarrow> u8 list list \<Rightarrow> bytes \<Rightarrow> bytes option" where
  "store_each w (t # ts) dst (r # rs) m = do {
     m \<leftarrow> store_bytes (dst + of_nat (t * w)) r m;
     store_each w ts dst rs m
   }"
| "store_each w ts dst rs m = Some m"

definition block_copy :: "nat \<Rightarrow> nat \<Rightarrow> u64 \<Rightarrow> u64 \<Rightarrow> bytes \<Rightarrow> bytes option" where
  "block_copy w k dst src m = do { rs \<leftarrow> load_each w [0..<k] src m; store_each w [0..<k] dst rs m }"

text \<open>\<^verbatim>\<open>_mm_alignr_epi8\<close>: sixteen bytes of the two registers, from byte \<open>offset\<close> of the low one.\<close>

definition mm_alignr_epi8 :: "u8 list \<Rightarrow> u8 list \<Rightarrow> nat \<Rightarrow> u8 list" where
  "mm_alignr_epi8 hi lo offset = take 16 (drop offset (lo @ hi))"

section \<open>Moves of fixed size\<close>

definition rte_mov16 :: "u64 \<Rightarrow> u64 \<Rightarrow> bytes \<Rightarrow> bytes option" where "rte_mov16 = mov 16"

definition rte_mov32_sse :: "u64 \<Rightarrow> u64 \<Rightarrow> bytes \<Rightarrow> bytes option" where "rte_mov32_sse = mov_each 16 [0..<2]"
definition rte_mov64_sse :: "u64 \<Rightarrow> u64 \<Rightarrow> bytes \<Rightarrow> bytes option" where "rte_mov64_sse = mov_each 16 [0..<4]"
definition rte_mov128_sse :: "u64 \<Rightarrow> u64 \<Rightarrow> bytes \<Rightarrow> bytes option" where "rte_mov128_sse = mov_each 16 [0..<8]"
definition rte_mov256_sse :: "u64 \<Rightarrow> u64 \<Rightarrow> bytes \<Rightarrow> bytes option" where "rte_mov256_sse = mov_each 16 [0..<16]"

definition rte_mov32_avx :: "u64 \<Rightarrow> u64 \<Rightarrow> bytes \<Rightarrow> bytes option" where "rte_mov32_avx = mov 32"
definition rte_mov64_avx2 :: "u64 \<Rightarrow> u64 \<Rightarrow> bytes \<Rightarrow> bytes option" where "rte_mov64_avx2 = mov_each 32 [0..<2]"
definition rte_mov128_avx2 :: "u64 \<Rightarrow> u64 \<Rightarrow> bytes \<Rightarrow> bytes option" where "rte_mov128_avx2 = mov_each 32 [0..<4]"

definition rte_mov64_avx512 :: "u64 \<Rightarrow> u64 \<Rightarrow> bytes \<Rightarrow> bytes option" where "rte_mov64_avx512 = mov 64"
definition rte_mov128_avx512 :: "u64 \<Rightarrow> u64 \<Rightarrow> bytes \<Rightarrow> bytes option" where "rte_mov128_avx512 = mov_each 64 [0..<2]"
definition rte_mov256_avx512 :: "u64 \<Rightarrow> u64 \<Rightarrow> bytes \<Rightarrow> bytes option" where "rte_mov256_avx512 = mov_each 64 [0..<4]"

section \<open>Loops over blocks\<close>

text \<open>\<open>size\<close> is the size of a block, \<open>cp\<close> copies one.\<close>

partial_function (option) blocks_loop ::
    "u64 \<Rightarrow> (u64 \<Rightarrow> u64 \<Rightarrow> bytes \<Rightarrow> bytes option) \<Rightarrow> u64 \<Rightarrow> u64 \<Rightarrow> u64 \<Rightarrow> bytes \<Rightarrow> (u64 \<times> u64 \<times> u64 \<times> bytes) option" where
  "blocks_loop sz cp dst src n m =
     (if n \<ge> sz then do { m \<leftarrow> cp dst src m; blocks_loop sz cp (dst + sz) (src + sz) (n - sz) m }
      else Some (dst, src, n, m))"

declare blocks_loop.simps [code]

definition rte_mov128blocks_avx512 :: "u64 \<Rightarrow> u64 \<Rightarrow> u64 \<Rightarrow> bytes \<Rightarrow> bytes option" where
  "rte_mov128blocks_avx512 dst src n m = do { (_, _, _, m) \<leftarrow> blocks_loop 128 (block_copy 64 2) dst src n m; Some m }"

definition rte_mov512blocks_avx512 :: "u64 \<Rightarrow> u64 \<Rightarrow> u64 \<Rightarrow> bytes \<Rightarrow> bytes option" where
  "rte_mov512blocks_avx512 dst src n m = do { (_, _, _, m) \<leftarrow> blocks_loop 512 (block_copy 64 8) dst src n m; Some m }"

definition rte_mov128blocks_avx2 :: "u64 \<Rightarrow> u64 \<Rightarrow> u64 \<Rightarrow> bytes \<Rightarrow> bytes option" where
  "rte_mov128blocks_avx2 dst src n m = do { (_, _, _, m) \<leftarrow> blocks_loop 128 (block_copy 32 4) dst src n m; Some m }"

section \<open>Parts shared by the versions\<close>

text \<open>A conditional move of \<open>k\<close> bytes that advances the pointers; with it, fewer than 16 bytes are copied.\<close>

definition mov_adv :: "bool \<Rightarrow> nat \<Rightarrow> u64 \<times> u64 \<times> bytes \<Rightarrow> (u64 \<times> u64 \<times> bytes) option" where
  "mov_adv b k st = (case st of (dst, src, m) \<Rightarrow>
     if b then do { m \<leftarrow> mov k dst src m; Some (dst + of_nat k, src + of_nat k, m) } else Some (dst, src, m))"

definition copy_lt16 :: "u64 \<Rightarrow> u64 \<Rightarrow> u64 \<Rightarrow> bytes \<Rightarrow> bytes option" where
  "copy_lt16 dst src n m = do {
     st \<leftarrow> mov_adv (n AND 0x01 \<noteq> 0) 1 (dst, src, m);
     st \<leftarrow> mov_adv (n AND 0x02 \<noteq> 0) 2 st;
     (dst, src, m) \<leftarrow> mov_adv (n AND 0x04 \<noteq> 0) 4 st;
     if n AND 0x08 \<noteq> 0 then mov 8 dst src m else Some m
   }"

text \<open>Advance behind a block: \<open>if (n >= sz) { n -= sz; mov(dst, src); src += sz; dst += sz; }\<close>\<close>

definition block_adv :: "u64 \<Rightarrow> (u64 \<Rightarrow> u64 \<Rightarrow> bytes \<Rightarrow> bytes option) \<Rightarrow> u64 \<times> u64 \<times> u64 \<times> bytes \<Rightarrow> (u64 \<times> u64 \<times> u64 \<times> bytes) option" where
  "block_adv sz cp st = (case st of (dst, src, n, m) \<Rightarrow>
     if n \<ge> sz then do { m \<leftarrow> cp dst src m; Some (dst + sz, src + sz, n - sz, m) } else Some (dst, src, n, m))"

text \<open>
  The end of every version: a block at the pointers if more than one is left, and the last block, which may
  go back behind the pointers.
\<close>

definition copy_back :: "u64 \<Rightarrow> (u64 \<Rightarrow> u64 \<Rightarrow> bytes \<Rightarrow> bytes option) \<Rightarrow> u64 \<times> u64 \<times> u64 \<times> bytes \<Rightarrow> bytes option" where
  "copy_back sz cp st = (case st of (dst, src, n, m) \<Rightarrow>
     if n > sz then do { m \<leftarrow> cp dst src m; cp (dst - sz + n) (src - sz + n) m }
     else if n > 0 then cp (dst - sz + n) (src - sz + n) m else Some m)"

section \<open>SSE\<close>

definition copy_block_64_back15 :: "u64 \<times> u64 \<times> u64 \<times> bytes \<Rightarrow> bytes option" where
  "copy_block_64_back15 st = do { st \<leftarrow> block_adv 32 rte_mov32_sse st; copy_back 16 rte_mov16 st }"

definition copy_block_128_back15 :: "u64 \<times> u64 \<times> u64 \<times> bytes \<Rightarrow> bytes option" where
  "copy_block_128_back15 st = do { st \<leftarrow> block_adv 64 rte_mov64_sse st; copy_block_64_back15 st }"

definition copy_block_255_back15 :: "u64 \<times> u64 \<times> u64 \<times> bytes \<Rightarrow> bytes option" where
  "copy_block_255_back15 st = do { st \<leftarrow> block_adv 128 rte_mov128_sse st; copy_block_128_back15 st }"

text \<open>
  One round of the loops of \<^verbatim>\<open>MOVEUNALIGNED_LEFT47_IMM\<close>: \<open>k + 1\<close> registers are loaded from \<open>offset\<close> bytes before
  the source, then \<open>k\<close> are stored, each put together from two of them.
\<close>

definition unaligned_copy :: "nat \<Rightarrow> nat \<Rightarrow> u64 \<Rightarrow> u64 \<Rightarrow> bytes \<Rightarrow> bytes option" where
  "unaligned_copy offset k dst src m = do {
     rs \<leftarrow> load_each 16 [0..<k + 1] (src - of_nat offset) m;
     store_each 16 [0..<k] dst (map (\<lambda>t. mm_alignr_epi8 (rs ! (t + 1)) (rs ! t) offset) [0..<k]) m
   }"

partial_function (option) unaligned_loop ::
    "u64 \<Rightarrow> nat \<Rightarrow> nat \<Rightarrow> u64 \<Rightarrow> u64 \<Rightarrow> u64 \<Rightarrow> bytes \<Rightarrow> (u64 \<times> u64 \<times> u64 \<times> bytes) option" where
  "unaligned_loop sz offset k dst src len m =
     (if len \<ge> sz + 16 - of_nat offset then do {
        m \<leftarrow> unaligned_copy offset k dst src m;
        unaligned_loop sz offset k (dst + sz) (src + sz) (len - sz) m
      } else Some (dst, src, len, m))"

declare unaligned_loop.simps [code]

text \<open>The skip behind a loop with blocks of \<open>mask + 1\<close> bytes.\<close>

definition unaligned_skip :: "u64 \<Rightarrow> nat \<Rightarrow> u64 \<times> u64 \<times> u64 \<times> bytes \<Rightarrow> u64 \<times> u64 \<times> u64 \<times> bytes" where
  "unaligned_skip msk offset st = (case st of (dst, src, len, m) \<Rightarrow>
     let tmp = len; len = ((len - 16 + of_nat offset) AND msk) + 16 - of_nat offset; tmp = tmp - len
     in (dst + tmp, src + tmp, len, m))"

definition MOVEUNALIGNED_LEFT47_IMM :: "nat \<Rightarrow> u64 \<times> u64 \<times> u64 \<times> bytes \<Rightarrow> (u64 \<times> u64 \<times> u64 \<times> bytes) option" where
  "MOVEUNALIGNED_LEFT47_IMM offset st = (case st of (dst, src, len, m) \<Rightarrow> do {
     st \<leftarrow> unaligned_loop 128 offset 8 dst src len m;
     let (dst, src, len, m) = unaligned_skip 127 offset st;
     if len \<ge> 32 + 16 - of_nat offset then do {
       st \<leftarrow> unaligned_loop 32 offset 2 dst src len m;
       Some (unaligned_skip 31 offset st)
     } else Some (dst, src, len, m)
   })"

definition MOVEUNALIGNED_LEFT47 :: "u64 \<Rightarrow> u64 \<times> u64 \<times> u64 \<times> bytes \<Rightarrow> (u64 \<times> u64 \<times> u64 \<times> bytes) option" where
  "MOVEUNALIGNED_LEFT47 offset st =
     (if 0x01 \<le> offset \<and> offset \<le> 0x0F then MOVEUNALIGNED_LEFT47_IMM (unat offset) st else Some st)"

definition rte_memcpy_generic_sse :: "u64 \<Rightarrow> u64 \<Rightarrow> u64 \<Rightarrow> bytes \<Rightarrow> bytes option" where
  "rte_memcpy_generic_sse dst src n m =
     (if n < 16 then copy_lt16 dst src n m
      else if n \<le> 32 then do { m \<leftarrow> rte_mov16 dst src m; rte_mov16 (dst - 16 + n) (src - 16 + n) m }
      else if n \<le> 48 then do { m \<leftarrow> rte_mov32_sse dst src m; rte_mov16 (dst - 16 + n) (src - 16 + n) m }
      else if n \<le> 64 then do {
        m \<leftarrow> rte_mov32_sse dst src m;
        m \<leftarrow> rte_mov16 (dst + 32) (src + 32) m;
        rte_mov16 (dst - 16 + n) (src - 16 + n) m
      }
      else if n \<le> 128 then copy_block_128_back15 (dst, src, n, m)
      else if n \<le> 512 then do {
        st \<leftarrow> block_adv 256 (\<lambda>d s m. do { m \<leftarrow> rte_mov128_sse d s m; rte_mov128_sse (d + 128) (s + 128) m }) (dst, src, n, m);
        copy_block_255_back15 st
      }
      else do {
        (dst, src, n, m) \<leftarrow>
          (let dstofss = dst AND 0x0F
           in if dstofss > 0 then do {
             m \<leftarrow> rte_mov32_sse dst src m;
             let dstofss = 16 - dstofss + 16;
             Some (dst + dstofss, src + dstofss, n - dstofss, m)
           } else Some (dst, src, n, m));
        let srcofs = src AND 0x0F;
        if srcofs = 0 then do { st \<leftarrow> blocks_loop 256 rte_mov256_sse dst src n m; copy_block_255_back15 st }
        else do { st \<leftarrow> MOVEUNALIGNED_LEFT47 srcofs (dst, src, n, m); copy_block_64_back15 st }
      })"

section \<open>AVX2\<close>

definition copy_block_128_back31 :: "u64 \<times> u64 \<times> u64 \<times> bytes \<Rightarrow> bytes option" where
  "copy_block_128_back31 st = do { st \<leftarrow> block_adv 64 rte_mov64_avx2 st; copy_back 32 rte_mov32_avx st }"

text \<open>Skip what a loop over blocks of \<open>mask + 1\<close> bytes has copied.\<close>

definition blocks_skip :: "u64 \<Rightarrow> (u64 \<Rightarrow> u64 \<Rightarrow> u64 \<Rightarrow> bytes \<Rightarrow> bytes option) \<Rightarrow> u64 \<times> u64 \<times> u64 \<times> bytes \<Rightarrow> (u64 \<times> u64 \<times> u64 \<times> bytes) option" where
  "blocks_skip msk blocks st = (case st of (dst, src, n, m) \<Rightarrow> do {
     m \<leftarrow> blocks dst src n m;
     let bits = n;
     let n = n AND msk;
     let bits = bits - n;
     Some (dst + bits, src + bits, n, m)
   })"

text \<open>The first block, after which the destination is aligned to blocks of \<open>sz\<close> bytes.\<close>

definition align_dst :: "u64 \<Rightarrow> (u64 \<Rightarrow> u64 \<Rightarrow> bytes \<Rightarrow> bytes option) \<Rightarrow> u64 \<times> u64 \<times> u64 \<times> bytes \<Rightarrow> (u64 \<times> u64 \<times> u64 \<times> bytes) option" where
  "align_dst sz cp st = (case st of (dst, src, n, m) \<Rightarrow>
     let dstofss = dst AND (sz - 1)
     in if dstofss > 0 then do {
          m \<leftarrow> cp dst src m;
          let dstofss = sz - dstofss;
          Some (dst + dstofss, src + dstofss, n - dstofss, m)
        } else Some (dst, src, n, m))"

definition rte_memcpy_generic_avx2 :: "u64 \<Rightarrow> u64 \<Rightarrow> u64 \<Rightarrow> bytes \<Rightarrow> bytes option" where
  "rte_memcpy_generic_avx2 dst src n m =
     (if n < 16 then copy_lt16 dst src n m
      else if n \<le> 32 then do { m \<leftarrow> rte_mov16 dst src m; rte_mov16 (dst - 16 + n) (src - 16 + n) m }
      else if n \<le> 48 then do {
        m \<leftarrow> rte_mov16 dst src m;
        m \<leftarrow> rte_mov16 (dst + 16) (src + 16) m;
        rte_mov16 (dst - 16 + n) (src - 16 + n) m
      }
      else if n \<le> 64 then do { m \<leftarrow> rte_mov32_avx dst src m; rte_mov32_avx (dst - 32 + n) (src - 32 + n) m }
      else if n \<le> 256 then do { st \<leftarrow> block_adv 128 rte_mov128_avx2 (dst, src, n, m); copy_block_128_back31 st }
      else do {
        st \<leftarrow> align_dst 32 rte_mov32_avx (dst, src, n, m);
        st \<leftarrow> blocks_skip 127 rte_mov128blocks_avx2 st;
        copy_block_128_back31 st
      })"

section \<open>AVX-512\<close>

definition copy_block_128_back63 :: "u64 \<times> u64 \<times> u64 \<times> bytes \<Rightarrow> bytes option" where
  "copy_block_128_back63 st = copy_back 64 rte_mov64_avx512 st"

definition rte_memcpy_generic_avx512 :: "u64 \<Rightarrow> u64 \<Rightarrow> u64 \<Rightarrow> bytes \<Rightarrow> bytes option" where
  "rte_memcpy_generic_avx512 dst src n m =
     (if n < 16 then copy_lt16 dst src n m
      else if n \<le> 32 then do { m \<leftarrow> rte_mov16 dst src m; rte_mov16 (dst - 16 + n) (src - 16 + n) m }
      else if n \<le> 64 then do { m \<leftarrow> rte_mov32_avx dst src m; rte_mov32_avx (dst - 32 + n) (src - 32 + n) m }
      else if n \<le> 512 then do {
        st \<leftarrow> block_adv 256 rte_mov256_avx512 (dst, src, n, m);
        st \<leftarrow> block_adv 128 rte_mov128_avx512 st;
        copy_block_128_back63 st
      }
      else do {
        st \<leftarrow> align_dst 64 rte_mov64_avx512 (dst, src, n, m);
        (dst, src, n, m) \<leftarrow> blocks_skip 511 rte_mov512blocks_avx512 st;
        st \<leftarrow> (if n \<ge> 128 then blocks_skip 127 rte_mov128blocks_avx512 (dst, src, n, m) else Some (dst, src, n, m));
        copy_block_128_back63 st
      })"

section \<open>Entry points\<close>

text \<open>The version is fixed by the compiler flags; each defines its moves and its alignment mask.\<close>

datatype isa = SSE | AVX2 | AVX512F

definition ALIGNMENT_MASK :: "isa \<Rightarrow> u64" where
  "ALIGNMENT_MASK i = (case i of SSE \<Rightarrow> 0x0F | AVX2 \<Rightarrow> 0x1F | AVX512F \<Rightarrow> 0x3F)"

definition rte_mov32 :: "isa \<Rightarrow> u64 \<Rightarrow> u64 \<Rightarrow> bytes \<Rightarrow> bytes option" where
  "rte_mov32 i = (case i of SSE \<Rightarrow> rte_mov32_sse | _ \<Rightarrow> rte_mov32_avx)"

definition rte_mov64 :: "isa \<Rightarrow> u64 \<Rightarrow> u64 \<Rightarrow> bytes \<Rightarrow> bytes option" where
  "rte_mov64 i = (case i of SSE \<Rightarrow> rte_mov64_sse | AVX2 \<Rightarrow> rte_mov64_avx2 | AVX512F \<Rightarrow> rte_mov64_avx512)"

definition rte_memcpy_generic :: "isa \<Rightarrow> u64 \<Rightarrow> u64 \<Rightarrow> u64 \<Rightarrow> bytes \<Rightarrow> bytes option" where
  "rte_memcpy_generic i = (case i of SSE \<Rightarrow> rte_memcpy_generic_sse | AVX2 \<Rightarrow> rte_memcpy_generic_avx2
     | AVX512F \<Rightarrow> rte_memcpy_generic_avx512)"

definition rte_memcpy_aligned :: "isa \<Rightarrow> u64 \<Rightarrow> u64 \<Rightarrow> u64 \<Rightarrow> bytes \<Rightarrow> bytes option" where
  "rte_memcpy_aligned i dst src n m =
     (if n < 16 then copy_lt16 dst src n m
      else if n \<le> 32 then do { m \<leftarrow> rte_mov16 dst src m; rte_mov16 (dst - 16 + n) (src - 16 + n) m }
      else if n \<le> 64 then do { m \<leftarrow> rte_mov32 i dst src m; rte_mov32 i (dst - 32 + n) (src - 32 + n) m }
      else do {
        (dst, src, n, m) \<leftarrow> blocks_loop 64 (rte_mov64 i) dst src n m;
        rte_mov64 i (dst - 64 + n) (src - 64 + n) m
      })"

text \<open>All return the destination.\<close>

definition rte_memcpy :: "isa \<Rightarrow> u64 \<Rightarrow> u64 \<Rightarrow> u64 \<Rightarrow> bytes \<Rightarrow> (bytes \<times> u64) option" where
  "rte_memcpy i dst src n m = do {
     m \<leftarrow> (if (dst OR src) AND ALIGNMENT_MASK i = 0 then rte_memcpy_aligned i dst src n m else rte_memcpy_generic i dst src n m);
     Some (m, dst)
   }"

end
