(* ===== verification/Memcpy_Correct.thy ===== *)
theory Memcpy_Correct
  imports Memcpy
begin

text \<open>
  Every version of \<^verbatim>\<open>rte_memcpy\<close> copies exactly the bytes asked for, and accesses only bytes of the source
  and the destination.
\<close>

declare of_nat_add [simp del] of_nat_diff [simp del]

section \<open>Copying a prefix\<close>

text \<open>The source and the destination of \<open>N\<close> bytes are mapped and disjoint.\<close>

definition cp_ok :: "u64 \<Rightarrow> u64 \<Rightarrow> nat \<Rightarrow> bytes \<Rightarrow> bool" where
  "cp_ok d s N m \<longleftrightarrow> N < 2 ^ 64 \<and> (\<forall>i < N. m (s + of_nat i) \<noteq> None \<and> m (d + of_nat i) \<noteq> None) \<and>
     (\<forall>i < N. \<forall>j < N. s + of_nat i \<noteq> d + of_nat j)"

lemma cp_okD:
  assumes "cp_ok d s N m"
  shows "N < 2 ^ 64" "i < N \<Longrightarrow> m (s + of_nat i) \<noteq> None" "i < N \<Longrightarrow> m (d + of_nat i) \<noteq> None"
    "i < N \<Longrightarrow> j < N \<Longrightarrow> s + of_nat i \<noteq> d + of_nat j"
  using assms by (simp_all add: cp_ok_def)

text \<open>The memory with the first \<open>j\<close> bytes copied, and \<open>k\<close> bytes of the source from the \<open>i\<close>-th on.\<close>

definition cpm :: "u64 \<Rightarrow> u64 \<Rightarrow> bytes \<Rightarrow> nat \<Rightarrow> bytes" where
  "cpm d s m j = (\<lambda>x. if unat (x - d) < j then m (s + (x - d)) else m x)"

definition sbytes :: "u64 \<Rightarrow> bytes \<Rightarrow> nat \<Rightarrow> nat \<Rightarrow> u8 list" where
  "sbytes s m i k = map (\<lambda>t. the (m (s + of_nat (i + t)))) [0..<k]"

lemma cpm_0 [simp]: "cpm d s m 0 = m"
  by (simp add: cpm_def)

lemma length_sbytes [simp]: "length (sbytes s m i k) = k"
  by (simp add: sbytes_def)

lemma unat_of_nat_64: "i < 2 ^ 64 \<Longrightarrow> unat (of_nat i :: u64) = i"
  by (simp add: unsigned_of_nat take_bit_nat_eq_self)

lemma cpm_src:
  assumes "cp_ok d s N m" "j \<le> N" "i < N"
  shows "cpm d s m j (s + of_nat i) = m (s + of_nat i)"
proof -
  let ?q = "unat (s + of_nat i - d)"
  have "\<not> ?q < j"
  proof
    assume "?q < j"
    then have "?q < N" using assms(2) by simp
    then have "s + of_nat i \<noteq> d + of_nat ?q" by (rule cp_okD(4) [OF assms(1,3)])
    moreover have "d + of_nat ?q = s + of_nat i" by simp
    ultimately show False by simp
  qed
  then show ?thesis by (simp add: cpm_def)
qed

lemma those_map_Some: "(\<And>x. x \<in> set xs \<Longrightarrow> f x = Some (g x)) \<Longrightarrow> those (map f xs) = Some (map g xs)"
  by (induction xs) auto

lemma load_ok:
  assumes "cp_ok d s N m" "j \<le> N" "i + k \<le> N"
  shows "load_bytes k (s + of_nat i) (cpm d s m j) = Some (sbytes s m i k)"
  unfolding load_bytes_def sbytes_def
proof (rule those_map_Some)
  fix t assume "t \<in> set [0..<k]"
  then have t: "i + t < N" using assms(3) by simp
  have c: "s + of_nat i + of_nat t = s + of_nat (i + t)" by (simp only: of_nat_add add.assoc)
  show "cpm d s m j (s + of_nat i + of_nat t) = Some (the (m (s + of_nat (i + t))))"
    unfolding c using cpm_src [OF assms(1,2) t] cp_okD(2) [OF assms(1) t] by auto
qed

lemma cpm_mapped:
  assumes "cp_ok d s N m" "j \<le> N" "i < N"
  shows "cpm d s m j (d + of_nat i) \<noteq> None"
proof -
  have "unat (of_nat i :: u64) = i" using assms by (intro unat_of_nat_64) (simp add: cp_ok_def)
  then show ?thesis using cp_okD(2,3) [OF assms(1,3)] by (auto simp: cpm_def)
qed

lemma unat_minus_of_nat:
  assumes "i < 2 ^ 64"
  shows "unat (y - of_nat i :: u64) = (if i \<le> unat y then unat y - i else unat y + 2 ^ 64 - i)"
proof -
  have u: "unat (of_nat i :: u64) = i" using assms by (rule unat_of_nat_64)
  show ?thesis
  proof (cases "i \<le> unat y")
    case True
    then show ?thesis using u by (simp add: unat_sub word_le_nat_alt)
  next
    case False
    then show ?thesis using u by (simp add: unat_sub_if_size word_size)
  qed
qed

lemma store_ok:
  assumes ok: "cp_ok d s N m" and ij: "i \<le> j" "j \<le> N" "i + k \<le> N"
  shows "store_bytes (d + of_nat i) (sbytes s m i k) (cpm d s m j) = Some (cpm d s m (max j (i + k)))"
proof -
  have N: "N < 2 ^ 64" using ok by (simp add: cp_ok_def)
  have "\<forall>t \<in> set [0..<k]. cpm d s m j (d + of_nat i + of_nat t) \<noteq> None"
    using cpm_mapped [OF ok ij(2)] ij(3) by (auto simp: add.assoc simp flip: of_nat_add)
  moreover have "(\<lambda>x. if unat (x - (d + of_nat i)) < k then Some (sbytes s m i k ! unat (x - (d + of_nat i))) else cpm d s m j x) =
      cpm d s m (max j (i + k))"
  proof (rule ext)
    fix x
    let ?q = "unat (x - d)"
    have e: "x - (d + of_nat i) = (x - d) - of_nat i" by simp
    have "unat (x - (d + of_nat i)) = (if i \<le> ?q then ?q - i else ?q + 2 ^ 64 - i)"
      unfolding e by (rule unat_minus_of_nat) (use N ij in simp)
    then have r: "unat (x - (d + of_nat i)) < k \<longleftrightarrow> i \<le> ?q \<and> ?q < i + k" "i \<le> ?q \<Longrightarrow> unat (x - (d + of_nat i)) = ?q - i"
      using N ij by auto
    show "(if unat (x - (d + of_nat i)) < k then Some (sbytes s m i k ! unat (x - (d + of_nat i))) else cpm d s m j x) =
      cpm d s m (max j (i + k)) x"
    proof (cases "i \<le> ?q \<and> ?q < i + k")
      case True
      have "m (s + of_nat ?q) \<noteq> None" by (rule cp_okD(2) [OF ok]) (use True ij(3) in simp)
      then show ?thesis using True r by (auto simp: sbytes_def cpm_def)
    next
      case False
      then show ?thesis using r ij by (auto simp: cpm_def)
    qed
  qed
  ultimately show ?thesis by (simp add: store_bytes_def)
qed

lemma mov_ok:
  assumes "cp_ok d s N m" "i \<le> j" "j \<le> N" "i + k \<le> N"
  shows "mov k (d + of_nat i) (s + of_nat i) (cpm d s m j) = Some (cpm d s m (max j (i + k)))"
  using load_ok [OF assms(1,3,4)] store_ok [OF assms] by (simp add: mov_def)

lemma mov_each_ok:
  assumes "cp_ok d s N m" "i \<le> j" "j \<le> N" "a \<le> b" "i + a * w \<le> j" "i + b * w \<le> N"
  shows "mov_each w [a..<b] (d + of_nat i) (s + of_nat i) (cpm d s m j) = Some (cpm d s m (max j (i + b * w)))"
  using assms(2-)
proof (induction "b - a" arbitrary: a j)
  case 0
  then have "a = b" by simp
  then show ?case using 0 by (simp add: max_def)
next
  case (Suc x)
  then have ab: "a < b" by simp
  then have bw: "Suc a * w \<le> b * w" by (intro mult_le_mono1) simp
  have c: "d + of_nat i + of_nat (a * w) = d + of_nat (i + a * w)" "s + of_nat i + of_nat (a * w) = s + of_nat (i + a * w)"
    by (simp_all only: of_nat_add add.assoc)
  have mv: "mov w (d + of_nat i + of_nat (a * w)) (s + of_nat i + of_nat (a * w)) (cpm d s m j) = Some (cpm d s m (max j (i + a * w + w)))"
    unfolding c using Suc.prems bw by (intro mov_ok [OF assms(1)]) simp_all
  have "mov_each w [Suc a..<b] (d + of_nat i) (s + of_nat i) (cpm d s m (max j (i + a * w + w))) =
      Some (cpm d s m (max (max j (i + a * w + w)) (i + b * w)))"
    using Suc.prems Suc.hyps(2) bw by (intro Suc.hyps(1)) simp_all
  moreover have "max (max j (i + a * w + w)) (i + b * w) = max j (i + b * w)" using bw by simp
  ultimately show ?case using mv ab by (simp add: upt_conv_Cons)
qed

lemma load_each_ok:
  assumes "cp_ok d s N m" "j \<le> N" "a \<le> b" "i + b * w \<le> N"
  shows "load_each w [a..<b] (s + of_nat i) (cpm d s m j) = Some (map (\<lambda>t. sbytes s m (i + t * w) w) [a..<b])"
  using assms(3-)
proof (induction "b - a" arbitrary: a)
  case (Suc x)
  then have ab: "a < b" by simp
  then have bw: "Suc a * w \<le> b * w" by (intro mult_le_mono1) simp
  have c: "s + of_nat i + of_nat (a * w) = s + of_nat (i + a * w)" by (simp only: of_nat_add add.assoc)
  have "load_bytes w (s + of_nat i + of_nat (a * w)) (cpm d s m j) = Some (sbytes s m (i + a * w) w)"
    unfolding c using Suc.prems bw by (intro load_ok [OF assms(1,2)]) simp
  moreover have "load_each w [Suc a..<b] (s + of_nat i) (cpm d s m j) = Some (map (\<lambda>t. sbytes s m (i + t * w) w) [Suc a..<b])"
    using Suc.prems Suc.hyps(2) ab by (intro Suc.hyps(1)) simp_all
  ultimately show ?case using ab by (simp add: upt_conv_Cons)
qed simp

lemma store_each_ok:
  assumes "cp_ok d s N m" "i \<le> j" "j \<le> N" "a \<le> b" "i + a * w \<le> j" "i + b * w \<le> N"
  shows "store_each w [a..<b] (d + of_nat i) (map (\<lambda>t. sbytes s m (i + t * w) w) [a..<b]) (cpm d s m j) =
    Some (cpm d s m (max j (i + b * w)))"
  using assms(2-)
proof (induction "b - a" arbitrary: a j)
  case 0
  then have "a = b" by simp
  then show ?case using 0 by (simp add: max_def)
next
  case (Suc x)
  then have ab: "a < b" by simp
  then have bw: "Suc a * w \<le> b * w" by (intro mult_le_mono1) simp
  have c: "d + of_nat i + of_nat (a * w) = d + of_nat (i + a * w)" by (simp only: of_nat_add add.assoc)
  have st: "store_bytes (d + of_nat i + of_nat (a * w)) (sbytes s m (i + a * w) w) (cpm d s m j) = Some (cpm d s m (max j (i + a * w + w)))"
    unfolding c using Suc.prems bw by (intro store_ok [OF assms(1)]) simp_all
  have "store_each w [Suc a..<b] (d + of_nat i) (map (\<lambda>t. sbytes s m (i + t * w) w) [Suc a..<b]) (cpm d s m (max j (i + a * w + w))) =
      Some (cpm d s m (max (max j (i + a * w + w)) (i + b * w)))"
    using Suc.prems Suc.hyps(2) bw by (intro Suc.hyps(1)) simp_all
  moreover have "max (max j (i + a * w + w)) (i + b * w) = max j (i + b * w)" using bw by simp
  ultimately show ?case using st ab by (simp add: upt_conv_Cons)
qed

text \<open>A routine moves \<open>k\<close> bytes.\<close>

definition moves :: "u64 \<Rightarrow> u64 \<Rightarrow> nat \<Rightarrow> bytes \<Rightarrow> (u64 \<Rightarrow> u64 \<Rightarrow> bytes \<Rightarrow> bytes option) \<Rightarrow> nat \<Rightarrow> bool" where
  "moves d s N m cp k \<longleftrightarrow> (\<forall>i j. i \<le> j \<and> j \<le> N \<and> i + k \<le> N \<longrightarrow>
     cp (d + of_nat i) (s + of_nat i) (cpm d s m j) = Some (cpm d s m (max j (i + k))))"

lemma movesD: "\<lbrakk>moves d s N m cp k; i \<le> j; j \<le> N; i + k \<le> N\<rbrakk> \<Longrightarrow>
    cp (d + of_nat i) (s + of_nat i) (cpm d s m j) = Some (cpm d s m (max j (i + k)))"
  by (simp add: moves_def)

lemma moves_mov: "cp_ok d s N m \<Longrightarrow> moves d s N m (mov k) k"
  by (simp add: moves_def mov_ok)

lemma moves_each: "cp_ok d s N m \<Longrightarrow> n = b * w \<Longrightarrow> moves d s N m (mov_each w [0..<b]) n"
  by (simp add: moves_def mov_each_ok)

lemma moves_block: "cp_ok d s N m \<Longrightarrow> n = b * w \<Longrightarrow> moves d s N m (block_copy w b) n"
  by (simp add: moves_def block_copy_def load_each_ok store_each_ok)

section \<open>Pointers and lengths\<close>

text \<open>\<open>cpst i r j\<close>: \<open>i\<close> bytes behind the start, \<open>r\<close> bytes left, \<open>j\<close> bytes copied.\<close>

definition cpst :: "u64 \<Rightarrow> u64 \<Rightarrow> bytes \<Rightarrow> nat \<Rightarrow> nat \<Rightarrow> nat \<Rightarrow> u64 \<times> u64 \<times> u64 \<times> bytes" where
  "cpst d s m i r j = (d + of_nat i, s + of_nat i, of_nat r, cpm d s m j)"

lemma of_nat_le:
  assumes "a < 2 ^ 64" "b < 2 ^ 64"
  shows "(of_nat a :: u64) \<le> of_nat b \<longleftrightarrow> a \<le> b" "(of_nat a :: u64) < of_nat b \<longleftrightarrow> a < b" "(of_nat a :: u64) = of_nat b \<longleftrightarrow> a = b"
  using assms by (simp_all add: word_le_nat_alt word_less_nat_alt word_unat_eq_iff unat_of_nat_64)

lemma of_nat_minus: "b \<le> a \<Longrightarrow> (of_nat a :: u64) - of_nat b = of_nat (a - b)"
  by (simp add: of_nat_diff)

lemma ptr_adv: "x + of_nat i + of_nat k = (x + of_nat (i + k) :: u64)"
  by (simp only: of_nat_add add.assoc)

lemma ptr_back: "k \<le> i + r \<Longrightarrow> x + of_nat i - of_nat k + of_nat r = (x + of_nat (i + r - k) :: u64)"
  by (simp add: of_nat_diff of_nat_add)

text \<open>The words of the code are the images of numbers.\<close>

lemma block_adv_ok:
  assumes "moves d s N m cp k" "0 < k" "i + r = N" "i \<le> j" "j \<le> N" "N < 2 ^ 64" "k < 2 ^ 64"
  shows "block_adv (of_nat k) cp (cpst d s m i r j) =
    Some (if k \<le> r then cpst d s m (i + k) (r - k) (max j (i + k)) else cpst d s m i r j)"
proof -
  have c: "(of_nat k :: u64) \<le> of_nat r \<longleftrightarrow> k \<le> r" using assms by (intro of_nat_le) simp_all
  show ?thesis
  proof (cases "k \<le> r")
    case True
    then have "cp (d + of_nat i) (s + of_nat i) (cpm d s m j) = Some (cpm d s m (max j (i + k)))"
      using assms by (intro movesD [OF assms(1)]) simp_all
    then show ?thesis using True by (simp add: block_adv_def cpst_def c of_nat_minus ptr_adv)
  qed (simp add: block_adv_def cpst_def c)
qed

lemma copy_back_ok:
  assumes "moves d s N m cp k" "i + r = N" "i \<le> j" "j \<le> N" "N < 2 ^ 64" "k \<le> N" "r \<le> 2 * k" "r = 0 \<longrightarrow> j = N"
  shows "copy_back (of_nat k) cp (cpst d s m i r j) = Some (cpm d s m N)"
proof -
  have k: "k < 2 ^ 64" using assms by simp
  have b: "d + of_nat i - of_nat k + of_nat r = d + of_nat (N - k)" "s + of_nat i - of_nat k + of_nat r = s + of_nat (N - k)"
    using ptr_back [of k i r] assms by simp_all
  have bk: "cp (d + of_nat (N - k)) (s + of_nat (N - k)) (cpm d s m j') = Some (cpm d s m N)" if "N - k \<le> j'" "j' \<le> N" for j'
    using movesD [OF assms(1), of "N - k" j'] that assms(6) by (simp add: max_def)
  have r0: "(0 :: u64) < of_nat r \<longleftrightarrow> 0 < r" using of_nat_le(2) [of 0 r] assms by simp
  show ?thesis
  proof (cases "k < r")
    case True
    have "cp (d + of_nat i) (s + of_nat i) (cpm d s m j) = Some (cpm d s m (max j (i + k)))"
      using True assms by (intro movesD [OF assms(1)]) simp_all
    moreover have "(of_nat k :: u64) < of_nat r" using True assms k by (subst of_nat_le) simp_all
    ultimately show ?thesis using bk [of "max j (i + k)"] True assms(2,3,4,6,7)
      by (simp add: copy_back_def cpst_def b)
  next
    case False
    then have "\<not> (of_nat k :: u64) < of_nat r" using assms k by (subst of_nat_le) simp_all
    then show ?thesis using False bk [of j] assms(2,3,4,6,8) r0 by (cases "r = 0") (simp_all add: copy_back_def cpst_def b)
  qed
qed

lemma blocks_loop_ok:
  assumes mv: "moves d s N m cp k" and k: "0 < k" "k < 2 ^ 64" and N: "N < 2 ^ 64"
  shows "i + r = N \<Longrightarrow> i \<le> j \<Longrightarrow> j \<le> N \<Longrightarrow>
    blocks_loop (of_nat k) cp (d + of_nat i) (s + of_nat i) (of_nat r) (cpm d s m j) =
    Some (cpst d s m (i + (r - r mod k)) (r mod k) (max j (i + (r - r mod k))))"
proof (induction r arbitrary: i j rule: less_induct)
  case (less r)
  show ?case
  proof (cases "k \<le> r")
    case False
    then have "\<not> (of_nat k :: u64) \<le> of_nat r" using less.prems(1) N k by (subst of_nat_le) simp_all
    then show ?thesis using less.prems(2) False by (subst blocks_loop.simps) (simp add: cpst_def max_def)
  next
    case True
    then have "r mod k = (r - k) mod k" by (metis le_mod_geq)
    then have q: "(r - k) mod k = r mod k" "r mod k \<le> r - k" by (simp, metis mod_less_eq_dividend)
    have e: "i + k + (r - k - r mod k) = i + (r - r mod k)" "max (max j (i + k)) (i + (r - r mod k)) = max j (i + (r - r mod k))"
      using True q(2) by auto
    have "blocks_loop (of_nat k) cp (d + of_nat (i + k)) (s + of_nat (i + k)) (of_nat (r - k)) (cpm d s m (max j (i + k))) =
      Some (cpst d s m (i + k + (r - k - (r - k) mod k)) ((r - k) mod k) (max (max j (i + k)) (i + k + (r - k - (r - k) mod k))))"
      using less.prems True k by (intro less.IH) simp_all
    then have step: "blocks_loop (of_nat k) cp (d + of_nat (i + k)) (s + of_nat (i + k)) (of_nat (r - k)) (cpm d s m (max j (i + k))) =
      Some (cpst d s m (i + (r - r mod k)) (r mod k) (max j (i + (r - r mod k))))" unfolding q(1) e .
    have c: "(of_nat k :: u64) \<le> of_nat r" using True less.prems(1) N k by (subst of_nat_le) simp_all
    have "cp (d + of_nat i) (s + of_nat i) (cpm d s m j) = Some (cpm d s m (max j (i + k)))"
      using True less.prems by (intro movesD [OF mv]) simp_all
    then show ?thesis
      by (subst blocks_loop.simps) (simp add: c of_nat_minus [OF True] ptr_adv step)
  qed
qed

text \<open>Fewer than 16 bytes, by the bits of the length.\<close>

lemma mov_adv_ok:
  assumes "cp_ok d s N m" "i + (if b then k else 0) \<le> N"
  shows "mov_adv b k (d + of_nat i, s + of_nat i, cpm d s m i) =
    Some (d + of_nat (i + (if b then k else 0)), s + of_nat (i + (if b then k else 0)), cpm d s m (i + (if b then k else 0)))"
proof (cases b)
  case True
  then have "mov k (d + of_nat i) (s + of_nat i) (cpm d s m i) = Some (cpm d s m (max i (i + k)))"
    using assms by (intro mov_ok [OF assms(1)]) simp_all
  then show ?thesis using True by (simp add: mov_adv_def ptr_adv max_def)
qed (simp add: mov_adv_def)

lemma copy_lt16_ok:
  assumes "cp_ok d s (unat n) m" "n < 16"
  shows "copy_lt16 d s n m = Some (cpm d s m (unat n))"
proof -
  let ?a = "if n AND 1 \<noteq> 0 then 1 else 0 :: nat" and ?b = "if n AND 2 \<noteq> 0 then 2 else 0 :: nat"
    and ?c = "if n AND 4 \<noteq> 0 then 4 else 0 :: nat" and ?e = "if n AND 8 \<noteq> 0 then 8 else 0 :: nat"
  have "unat n \<in> set [0..<16]" using assms(2) by (simp add: word_less_nat_alt)
  moreover have "n = of_nat (unat n)" by simp
  ultimately have "n \<in> of_nat ` set [0..<16]" by blast
  then have sum: "unat n = ?a + ?b + ?c + ?e" by (auto simp: upt_rec)
  have *: "mov_adv (n AND 1 \<noteq> 0) 1 (d, s, m) = Some (d + of_nat ?a, s + of_nat ?a, cpm d s m ?a)"
    using mov_adv_ok [OF assms(1), of 0 "n AND 1 \<noteq> 0" 1] sum by simp
  show ?thesis
    using * mov_adv_ok [OF assms(1), of ?a "n AND 2 \<noteq> 0" 2] mov_adv_ok [OF assms(1), of "?a + ?b" "n AND 4 \<noteq> 0" 4]
      mov_ok [OF assms(1), of "?a + ?b + ?c" "?a + ?b + ?c" 8] sum
    by (simp only: copy_lt16_def) (simp add: max_def split del: if_split, simp)
qed

section \<open>The unaligned loops\<close>

lemma sbytes_append: "sbytes s m i k @ sbytes s m (i + k) l = sbytes s m i (k + l)"
proof -
  have "[k..<k + l] = map (\<lambda>t. t + k) [0..<l]" by (simp add: map_add_upt add.commute)
  then show ?thesis by (simp add: sbytes_def upt_add_eq_append [of 0 k l] comp_def ac_simps)
qed

lemma take_drop_sbytes: "a + b \<le> k \<Longrightarrow> take b (drop a (sbytes s m i k)) = sbytes s m (i + a) b"
  by (rule nth_equalityI) (auto simp: sbytes_def ac_simps)

lemma alignr_sbytes: "off \<le> 16 \<Longrightarrow> mm_alignr_epi8 (sbytes s m (i + 16) 16) (sbytes s m i 16) off = sbytes s m (i + off) 16"
  unfolding mm_alignr_epi8_def sbytes_append by (intro take_drop_sbytes) simp

text \<open>
  The first register of a round begins up to 15 bytes before the pointer; these bytes have to be mapped, and
  are shifted out. Behind a copied prefix they belong to the source.
\<close>

definition behind :: "u64 \<Rightarrow> bytes \<Rightarrow> nat \<Rightarrow> nat \<Rightarrow> bool" where
  "behind s m off i \<longleftrightarrow> (\<forall>t < off. m (s + of_nat i - of_nat off + of_nat t) \<noteq> None)"

lemma behind_prefix:
  assumes "cp_ok d s N m" "off \<le> i" "i \<le> N"
  shows "behind s m off i"
  unfolding behind_def
proof (intro allI impI)
  fix t assume "t < off"
  have p: "s + of_nat i - of_nat off + of_nat t = s + of_nat (i - off + t)" using assms(2) by (simp add: of_nat_diff of_nat_add)
  show "m (s + of_nat i - of_nat off + of_nat t) \<noteq> None"
    unfolding p by (rule cp_okD(2) [OF assms(1)]) (use assms \<open>t < off\<close> in simp)
qed

lemma cpm_keeps_mapped: "\<lbrakk>cp_ok d s N m; j \<le> N; m x \<noteq> None\<rbrakk> \<Longrightarrow> cpm d s m j x \<noteq> None"
  using cp_okD(2) [of d s N m "unat (x - d)"] by (auto simp: cpm_def)

lemma those_map_len: "(\<And>x. x \<in> set xs \<Longrightarrow> f x \<noteq> None) \<Longrightarrow> those (map f xs) = Some (map (\<lambda>x. the (f x)) xs)"
  by (rule those_map_Some) auto

lemma load_behind:
  assumes ok: "cp_ok d s N m" "j \<le> N" and off: "off \<le> 16" "i + (16 - off) \<le> N" "behind s m off i"
  shows "\<exists>lo. load_bytes 16 (s + of_nat i - of_nat off) (cpm d s m j) = Some lo \<and> length lo = 16 \<and> drop off lo = sbytes s m i (16 - off)"
proof -
  let ?a = "s + of_nat i - of_nat off"
  let ?f = "\<lambda>t. cpm d s m j (?a + of_nat t)"
  have r: "?f (off + t) = m (s + of_nat (i + t))" "m (s + of_nat (i + t)) \<noteq> None" if "t < 16 - off" for t
  proof -
    have p: "?a + of_nat (off + t) = s + of_nat (i + t)" by (simp add: of_nat_add)
    show "?f (off + t) = m (s + of_nat (i + t))" unfolding p using cpm_src [OF ok, of "i + t"] that off by simp
    show "m (s + of_nat (i + t)) \<noteq> None" using cp_okD(2) [OF ok(1), of "i + t"] that off by simp
  qed
  have "?f t \<noteq> None" if "t < 16" for t
  proof (cases "t < off")
    case True
    then show ?thesis using off(3) by (intro cpm_keeps_mapped [OF ok]) (simp add: behind_def)
  next
    case False
    then show ?thesis using r [of "t - off"] that off(1) by simp
  qed
  then have "load_bytes 16 ?a (cpm d s m j) = Some (map (\<lambda>t. the (?f t)) [0..<16])"
    unfolding load_bytes_def by (intro those_map_len) simp
  moreover have "drop off (map (\<lambda>t. the (?f t)) [0..<16]) = sbytes s m i (16 - off)"
  proof -
    have "drop off [0..<16] = map (\<lambda>t. off + t) [0..<16 - off]"
      using off(1) by (intro nth_equalityI) (simp_all add: drop_upt del: upt_rec_numeral)
    then show ?thesis using r(1) by (simp add: drop_map sbytes_def del: upt_rec_numeral)
  qed
  ultimately show ?thesis by (intro exI conjI) simp_all
qed

lemma alignr_behind:
  assumes "off \<le> 16" "length lo = 16" "drop off lo = sbytes s m i (16 - off)"
  shows "mm_alignr_epi8 (sbytes s m (i + (16 - off)) 16) lo off = sbytes s m i 16"
proof -
  have "drop off (lo @ sbytes s m (i + (16 - off)) 16) = sbytes s m i (16 - off + 16)"
    using assms sbytes_append [of s m i "16 - off" 16] by simp
  then show ?thesis using take_drop_sbytes [of 0 16 "16 - off + 16" s m i] by (simp add: mm_alignr_epi8_def)
qed

lemma load_each_Cons: "load_each w [0..<Suc k] src m = do {
    r \<leftarrow> load_bytes w src m; rs \<leftarrow> load_each w [0..<k] (src + of_nat w) m; Some (r # rs) }"
proof -
  have "load_each w (map Suc ts) src m = load_each w ts (src + of_nat w) m" for ts
    by (induction ts) (simp_all add: of_nat_add add.assoc)
  then show ?thesis by (simp only: upt_conv_Cons map_Suc_upt [symmetric] load_each.simps zero_less_Suc mult_0 of_nat_0) simp
qed

lemma unaligned_copy_ok:
  assumes ok: "cp_ok d s N m" and ij: "i \<le> j" "j \<le> N" and off: "behind s m off i" "off \<le> 16"
    and k: "0 < k" and fit: "i + (16 - off) + k * 16 \<le> N"
  shows "unaligned_copy off k (d + of_nat i) (s + of_nat i) (cpm d s m j) = Some (cpm d s m (max j (i + k * 16)))"
proof -
  let ?b = "i + (16 - off)"
  let ?rs = "map (\<lambda>t. sbytes s m (?b + t * 16) 16) [0..<k]"
  obtain lo where lo: "load_bytes 16 (s + of_nat i - of_nat off) (cpm d s m j) = Some lo" "length lo = 16"
    "drop off lo = sbytes s m i (16 - off)"
    using load_behind [OF ok ij(2) off(2) _ off(1)] fit by auto
  have "of_nat 16 - of_nat off = (of_nat (16 - off) :: u64)" by (rule of_nat_minus [OF off(2)])
  then have p: "s + of_nat i - of_nat off + of_nat 16 = s + of_nat ?b" by (simp add: of_nat_add algebra_simps)
  have "load_each 16 [0..<k] (s + of_nat ?b) (cpm d s m j) = Some ?rs"
    using fit ij by (intro load_each_ok [OF ok]) simp_all
  then have ld: "load_each 16 [0..<k + 1] (s + of_nat i - of_nat off) (cpm d s m j) = Some (lo # ?rs)"
    unfolding Suc_eq_plus1 [symmetric] load_each_Cons p by (simp add: lo(1))
  have "mm_alignr_epi8 ((lo # ?rs) ! (t + 1)) ((lo # ?rs) ! t) off = sbytes s m (i + t * 16) 16" if "t < k" for t
  proof (cases t)
    case 0
    then show ?thesis using alignr_behind [OF off(2) lo(2,3)] k by simp
  next
    case (Suc u)
    have e: "(lo # ?rs) ! t = sbytes s m (?b + u * 16) 16" "(lo # ?rs) ! (t + 1) = sbytes s m (?b + u * 16 + 16) 16"
      using that Suc by (simp_all add: ac_simps)
    have i: "?b + u * 16 + off = i + t * 16" using off(2) Suc by simp
    show ?thesis unfolding e i [symmetric] by (rule alignr_sbytes [OF off(2)])
  qed
  then have eq: "map (\<lambda>t. mm_alignr_epi8 ((lo # ?rs) ! (t + 1)) ((lo # ?rs) ! t) off) [0..<k] = map (\<lambda>t. sbytes s m (i + t * 16) 16) [0..<k]"
    by (intro map_cong) simp_all
  have st: "store_each 16 [0..<k] (d + of_nat i) (map (\<lambda>t. sbytes s m (i + t * 16) 16) [0..<k]) (cpm d s m j) =
      Some (cpm d s m (max j (i + k * 16)))"
    using ij fit by (intro store_each_ok [OF ok]) simp_all
  show ?thesis unfolding unaligned_copy_def ld by (simp only: Option.bind.bind_lunit eq st)
qed

text \<open>The loop stops with fewer than \<open>sz + 16 - off\<close> bytes left, and at least \<open>16 - off\<close>.\<close>

lemma unaligned_loop_ok:
  assumes ok: "cp_ok d s N m" and off: "1 \<le> off" "off \<le> 15" and sz: "sz = k * 16" "0 < k" "sz \<le> 128"
  shows "i + r = N \<Longrightarrow> i \<le> j \<Longrightarrow> j \<le> N \<Longrightarrow> behind s m off i \<Longrightarrow> 16 - off \<le> r \<Longrightarrow>
    \<exists>i' r' j'. unaligned_loop (of_nat sz) off k (d + of_nat i) (s + of_nat i) (of_nat r) (cpm d s m j) = Some (cpst d s m i' r' j') \<and>
      i' + r' = N \<and> i' \<le> j' \<and> j' \<le> N \<and> behind s m off i' \<and> 16 - off \<le> r' \<and> r' < sz + 16 - off"
proof (induction r arbitrary: i j rule: less_induct)
  case (less r)
  have N: "N < 2 ^ 64" using ok by (simp add: cp_ok_def)
  have "(of_nat sz + 16 - of_nat off :: u64) = of_nat (sz + 16 - off)" using off by (simp add: of_nat_diff of_nat_add)
  moreover have "(of_nat (sz + 16 - off) :: u64) \<le> of_nat r \<longleftrightarrow> sz + 16 - off \<le> r"
    using less.prems(1) N sz(3) by (intro of_nat_le) simp_all
  ultimately have c: "(of_nat sz + 16 - of_nat off :: u64) \<le> of_nat r \<longleftrightarrow> sz + 16 - off \<le> r" by simp
  show ?case
  proof (cases "sz + 16 - off \<le> r")
    case False
    then have "unaligned_loop (of_nat sz) off k (d + of_nat i) (s + of_nat i) (of_nat r) (cpm d s m j) = Some (cpst d s m i r j)"
      by (subst unaligned_loop.simps) (simp add: c cpst_def)
    then show ?thesis using less.prems False by (metis not_le)
  next
    case True
    have "unaligned_copy off k (d + of_nat i) (s + of_nat i) (cpm d s m j) = Some (cpm d s m (max j (i + k * 16)))"
      using less.prems True off sz by (intro unaligned_copy_ok [OF ok]) simp_all
    then have "unaligned_copy off k (d + of_nat i) (s + of_nat i) (cpm d s m j) = Some (cpm d s m (max j (i + sz)))"
      unfolding sz(1) .
    then have "unaligned_loop (of_nat sz) off k (d + of_nat i) (s + of_nat i) (of_nat r) (cpm d s m j) =
        unaligned_loop (of_nat sz) off k (d + of_nat (i + sz)) (s + of_nat (i + sz)) (of_nat (r - sz)) (cpm d s m (max j (i + sz)))"
      using True off by (subst unaligned_loop.simps) (simp add: c ptr_adv of_nat_minus)
    moreover have "behind s m off (i + sz)" using less.prems True off sz by (intro behind_prefix [OF ok]) simp_all
    ultimately show ?thesis
      using less.IH [of "r - sz" "i + sz" "max j (i + sz)"] less.prems True off sz by simp
  qed
qed

lemma unaligned_skip_ok:
  assumes "16 - off \<le> r" "r < 2 ^ b + 16 - off" "1 \<le> off" "off \<le> 15" "b < 10"
  shows "unaligned_skip (mask b) off (cpst d s m i r j) = cpst d s m i r j"
proof -
  have "(of_nat r - 16 + of_nat off :: u64) = of_nat (r + off - 16)" using assms(1,3,4) by (simp add: of_nat_diff of_nat_add)
  moreover have "(of_nat (r + off - 16) :: u64) AND mask b = of_nat (r + off - 16)"
  proof -
    have "(2 :: nat) ^ b \<le> 2 ^ 10" using assms(5) by (intro power_increasing) simp_all
    then have u: "unat (of_nat (r + off - 16) :: u64) = r + off - 16" using assms by (intro unat_of_nat_64) simp
    show ?thesis unfolding take_bit_eq_mask [symmetric]
      using u assms by (simp add: word_unat_eq_iff unsigned_take_bit_eq take_bit_nat_eq_self)
  qed
  ultimately have "((of_nat r - 16 + of_nat off :: u64) AND mask b) + 16 - of_nat off = of_nat (r + off - 16) + 16 - of_nat off" by simp
  also have "\<dots> = of_nat r" using assms(1,3,4) by (simp add: of_nat_diff of_nat_add)
  finally show ?thesis by (simp add: unaligned_skip_def cpst_def Let_def)
qed

lemma MOVEUNALIGNED_ok:
  assumes ok: "cp_ok d s N m" and off: "1 \<le> off" "off \<le> 15"
    and st: "i + r = N" "i \<le> j" "j \<le> N" "behind s m off i" "16 - off \<le> r"
  shows "\<exists>i' r' j'. MOVEUNALIGNED_LEFT47_IMM off (cpst d s m i r j) = Some (cpst d s m i' r' j') \<and>
    i' + r' = N \<and> i' \<le> j' \<and> j' \<le> N \<and> 0 < r' \<and> r' < 48"
proof -
  have N: "N < 2 ^ 64" using ok by (simp add: cp_ok_def)
  have mk: "(127 :: u64) = mask 7" "(31 :: u64) = mask 5" by (simp_all add: mask_eq_exp_minus_1)
  obtain i1 r1 j1 where l1: "unaligned_loop 128 off 8 (d + of_nat i) (s + of_nat i) (of_nat r) (cpm d s m j) = Some (cpst d s m i1 r1 j1)"
    "i1 + r1 = N" "i1 \<le> j1" "j1 \<le> N" "behind s m off i1" "16 - off \<le> r1" "r1 < 128 + 16 - off"
    using unaligned_loop_ok [OF ok off _ _ _ st, of 128 8] by auto
  have s1: "unaligned_skip 127 off (cpst d s m i1 r1 j1) = cpst d s m i1 r1 j1"
    unfolding mk by (rule unaligned_skip_ok) (use l1 off in simp_all)
  have "(32 + 16 - of_nat off :: u64) = of_nat (48 - off)" using off by (simp add: of_nat_diff)
  moreover have "(of_nat (48 - off) :: u64) \<le> of_nat r1 \<longleftrightarrow> 48 - off \<le> r1" using l1(2) N by (intro of_nat_le) simp_all
  ultimately have c: "(32 + 16 - of_nat off :: u64) \<le> of_nat r1 \<longleftrightarrow> 48 - off \<le> r1" by simp
  show ?thesis
  proof (cases "48 - off \<le> r1")
    case False
    then have "MOVEUNALIGNED_LEFT47_IMM off (cpst d s m i r j) = Some (cpst d s m i1 r1 j1)"
      using l1(1) s1 c by (simp add: MOVEUNALIGNED_LEFT47_IMM_def cpst_def)
    moreover have "0 < r1" "r1 < 48" using False l1(6) off by auto
    ultimately show ?thesis using l1(2-4) by blast
  next
    case True
    obtain i2 r2 j2 where l2: "unaligned_loop 32 off 2 (d + of_nat i1) (s + of_nat i1) (of_nat r1) (cpm d s m j1) = Some (cpst d s m i2 r2 j2)"
      "i2 + r2 = N" "i2 \<le> j2" "j2 \<le> N" "16 - off \<le> r2" "r2 < 32 + 16 - off"
      using unaligned_loop_ok [OF ok off _ _ _ l1(2-6), of 32 2] by auto
    have s2: "unaligned_skip 31 off (cpst d s m i2 r2 j2) = cpst d s m i2 r2 j2"
      unfolding mk by (rule unaligned_skip_ok) (use l2 off in simp_all)
    have "MOVEUNALIGNED_LEFT47_IMM off (cpst d s m i r j) = Some (cpst d s m i2 r2 j2)"
      using True l1(1) s1 c l2(1) s2 by (simp add: MOVEUNALIGNED_LEFT47_IMM_def cpst_def)
    moreover have "0 < r2" "r2 < 48" using l2(5,6) off by auto
    ultimately show ?thesis using l2(2-4) by blast
  qed
qed

section \<open>The versions\<close>

lemma sse_moves:
  assumes "cp_ok d s N m"
  shows "moves d s N m rte_mov16 16" "moves d s N m rte_mov32_sse 32" "moves d s N m rte_mov64_sse 64"
    "moves d s N m rte_mov128_sse 128" "moves d s N m rte_mov256_sse 256"
  unfolding rte_mov16_def rte_mov32_sse_def rte_mov64_sse_def rte_mov128_sse_def rte_mov256_sse_def
  using assms by (auto intro: moves_mov moves_each)

lemma avx_moves:
  assumes "cp_ok d s N m"
  shows "moves d s N m rte_mov32_avx 32" "moves d s N m rte_mov64_avx2 64" "moves d s N m rte_mov128_avx2 128"
    "moves d s N m rte_mov64_avx512 64" "moves d s N m rte_mov128_avx512 128" "moves d s N m rte_mov256_avx512 256"
  unfolding rte_mov32_avx_def rte_mov64_avx2_def rte_mov128_avx2_def rte_mov64_avx512_def rte_mov128_avx512_def rte_mov256_avx512_def
  using assms by (auto intro: moves_mov moves_each)

lemma moves_twice:
  assumes "moves d s N m cp k" "N < 2 ^ 64"
  shows "moves d s N m (\<lambda>dst src m. do { m \<leftarrow> cp dst src m; cp (dst + of_nat k) (src + of_nat k) m }) (k + k)"
  unfolding moves_def
proof (intro allI impI)
  fix i j assume a: "i \<le> j \<and> j \<le> N \<and> i + (k + k) \<le> N"
  have "cp (d + of_nat i) (s + of_nat i) (cpm d s m j) = Some (cpm d s m (max j (i + k)))"
    "cp (d + of_nat (i + k)) (s + of_nat (i + k)) (cpm d s m (max j (i + k))) = Some (cpm d s m (max (max j (i + k)) (i + k + k)))"
    using a by (intro movesD [OF assms(1)]; simp)+
  moreover have "max (max j (i + k)) (i + k + k) = max j (i + (k + k))" by simp
  ultimately show "do { m \<leftarrow> cp (d + of_nat i) (s + of_nat i) (cpm d s m j); cp (d + of_nat i + of_nat k) (s + of_nat i + of_nat k) m } =
      Some (cpm d s m (max j (i + (k + k))))"
    by (simp add: ptr_adv)
qed

text \<open>The ends of the versions; at least one block lies behind, or is left.\<close>

lemma back15_ok:
  assumes ok: "cp_ok d s N m" and st: "i + r = N" "i \<le> j" "j \<le> N" "16 \<le> N" "r = 0 \<longrightarrow> j = N"
  shows "r < 64 \<Longrightarrow> copy_block_64_back15 (cpst d s m i r j) = Some (cpm d s m N)"
    "r \<le> 128 \<Longrightarrow> copy_block_128_back15 (cpst d s m i r j) = Some (cpm d s m N)"
    "r \<le> 256 \<Longrightarrow> copy_block_255_back15 (cpst d s m i r j) = Some (cpm d s m N)"
proof -
  have N: "N < 2 ^ 64" using ok by (simp add: cp_ok_def)
  note mv = sse_moves [OF ok]
  have b64: "copy_block_64_back15 (cpst d s m i r j) = Some (cpm d s m N)"
    if "i + r = N" "i \<le> j" "j \<le> N" "r = 0 \<longrightarrow> j = N" "r \<le> 64" for i r j
    using block_adv_ok [OF mv(2) _ that(1-3) N] copy_back_ok [OF mv(1) _ _ _ N, of "i + 32" "r - 32" "max j (i + 32)"]
      copy_back_ok [OF mv(1) that(1-3) N] that st(4)
    by (cases "32 \<le> r") (auto simp: copy_block_64_back15_def max_def)
  have b128: "copy_block_128_back15 (cpst d s m i r j) = Some (cpm d s m N)"
    if "i + r = N" "i \<le> j" "j \<le> N" "r = 0 \<longrightarrow> j = N" "r \<le> 128" for i r j
    using block_adv_ok [OF mv(3) _ that(1-3) N] b64 [of "i + 64" "r - 64" "max j (i + 64)"] b64 [OF that(1-4)] that
    by (cases "64 \<le> r") (auto simp: copy_block_128_back15_def max_def)
  show "r < 64 \<Longrightarrow> copy_block_64_back15 (cpst d s m i r j) = Some (cpm d s m N)" using b64 [OF st(1-3,5)] by simp
  show "r \<le> 128 \<Longrightarrow> copy_block_128_back15 (cpst d s m i r j) = Some (cpm d s m N)" by (rule b128 [OF st(1-3,5)])
  show "r \<le> 256 \<Longrightarrow> copy_block_255_back15 (cpst d s m i r j) = Some (cpm d s m N)"
    using block_adv_ok [OF mv(4) _ st(1-3) N] b128 [of "i + 128" "r - 128" "max j (i + 128)"] b128 [OF st(1-3,5)] st
    by (cases "128 \<le> r") (auto simp: copy_block_255_back15_def max_def)
qed

text \<open>Two overlapping blocks from both ends.\<close>

lemma last_ok:
  assumes "moves d s N m cp k" "k \<le> N" "N - k \<le> j" "j \<le> N"
  shows "cp (d - of_nat k + of_nat N) (s - of_nat k + of_nat N) (cpm d s m j) = Some (cpm d s m N)"
proof -
  have p: "x - of_nat k + of_nat N = (x + of_nat (N - k) :: u64)" for x using assms(2) by (simp add: of_nat_diff)
  have "cp (d + of_nat (N - k)) (s + of_nat (N - k)) (cpm d s m j) = Some (cpm d s m (max j (N - k + k)))"
    using assms by (intro movesD [OF assms(1)]) simp_all
  then show ?thesis unfolding p using assms(2,4) by (simp add: max_def)
qed

lemma first_ok:
  assumes "moves d s N m cp k" "k \<le> N"
  shows "cp d s m = Some (cpm d s m k)"
  using movesD [OF assms(1), of 0 0] assms(2) by simp

lemma cpst_0: "N < 2 ^ 64 \<Longrightarrow> cpst d s m 0 N 0 = (d, s, of_nat N, m)"
  by (simp add: cpst_def)

text \<open>Alignment of the destination.\<close>

lemma and_mask_pos:
  fixes x :: u64
  assumes "b < 64"
  shows "unat (x AND mask b) < 2 ^ b"
  unfolding take_bit_eq_mask [symmetric] unsigned_take_bit_eq by simp

lemma align_dst_ok:
  assumes mv: "moves d s N m cp (2 ^ b)" and b: "b < 10" and N: "2 ^ b \<le> N" "N < 2 ^ 64"
  shows "\<exists>i j. align_dst (2 ^ b) cp (cpst d s m 0 N 0) = Some (cpst d s m i (N - i) j) \<and> i \<le> j \<and> j \<le> N \<and> i \<le> 2 ^ b"
proof (cases "d AND mask b > 0")
  case False
  then show ?thesis by (intro exI [of _ 0]) (simp add: align_dst_def cpst_def mask_eq_exp_minus_1 Let_def)
next
  case True
  let ?o = "unat (d AND mask b)"
  have o: "?o < 2 ^ b" using b by (intro and_mask_pos) simp
  have p2: "(2 :: nat) ^ b < 2 ^ 64" using b by (intro power_strict_increasing) simp_all
  have w: "(2 ^ b :: u64) - (d AND mask b) = of_nat (2 ^ b - ?o)" using o by (simp add: of_nat_diff)
  have "align_dst (2 ^ b) cp (cpst d s m 0 N 0) = Some (cpst d s m (2 ^ b - ?o) (N - (2 ^ b - ?o)) (2 ^ b))"
    using True first_ok [OF mv N(1)] N(1) of_nat_minus [of "2 ^ b - ?o" N]
    by (simp add: align_dst_def cpst_def mask_eq_exp_minus_1 [symmetric] Let_def w)
  then show ?thesis using o N(1) by (intro exI [of _ "2 ^ b - ?o"] exI [of _ "2 ^ b"]) simp
qed

lemma blocks_skip_ok:
  assumes mv: "moves d s N m cp (2 ^ b)" and b: "b < 10" and N: "N < 2 ^ 64" and st: "i + r = N" "i \<le> j" "j \<le> N"
    and blk: "\<And>dst src n m. blk dst src n m = do { (_, _, _, m) \<leftarrow> blocks_loop (of_nat (2 ^ b)) cp dst src n m; Some m }"
  shows "blocks_skip (mask b) blk (cpst d s m i r j) =
    Some (cpst d s m (i + (r - r mod 2 ^ b)) (r mod 2 ^ b) (max j (i + (r - r mod 2 ^ b))))"
proof -
  have p2: "(2 :: nat) ^ b < 2 ^ 64" using b by (intro power_strict_increasing) simp_all
  have "blk (d + of_nat i) (s + of_nat i) (of_nat r) (cpm d s m j) = Some (cpm d s m (max j (i + (r - r mod 2 ^ b))))"
    unfolding blk using blocks_loop_ok [OF mv _ p2 N st] by (simp add: cpst_def)
  moreover have "(of_nat r :: u64) AND mask b = of_nat (r mod 2 ^ b)"
  proof -
    have "r mod 2 ^ b < 2 ^ 64" using p2 by (meson mod_less_divisor order.strict_trans zero_less_numeral zero_less_power)
    then show ?thesis unfolding take_bit_eq_mask [symmetric]
      using st(1) N by (simp add: word_unat_eq_iff unsigned_take_bit_eq unat_of_nat_64 take_bit_eq_mod [where 'a = nat])
  qed
  ultimately show ?thesis using of_nat_minus [of "r mod 2 ^ b" r] by (simp add: blocks_skip_def cpst_def Let_def ptr_adv)
qed

text \<open>The same without the numbers: the state stays consistent and what is left is bounded.\<close>

definition cpst_ok :: "nat \<Rightarrow> nat \<Rightarrow> nat \<Rightarrow> nat \<Rightarrow> bool" where
  "cpst_ok N i r j \<longleftrightarrow> i + r = N \<and> i \<le> j \<and> j \<le> N \<and> (r = 0 \<longrightarrow> j = N)"

lemma block_adv_ex:
  assumes "moves d s N m cp k" "0 < k" "cpst_ok N i r j" "N < 2 ^ 64" "k < 2 ^ 64"
  shows "\<exists>i' r' j'. block_adv (of_nat k) cp (cpst d s m i r j) = Some (cpst d s m i' r' j') \<and> cpst_ok N i' r' j' \<and>
    (if k \<le> r then r' = r - k else r' = r)"
proof (cases "k \<le> r")
  case True
  then have "block_adv (of_nat k) cp (cpst d s m i r j) = Some (cpst d s m (i + k) (r - k) (max j (i + k)))"
    using assms block_adv_ok [OF assms(1,2), of i r j] by (simp add: cpst_ok_def)
  moreover have "cpst_ok N (i + k) (r - k) (max j (i + k))" using assms(3) True by (auto simp: cpst_ok_def)
  ultimately show ?thesis using True by auto
next
  case False
  then show ?thesis using assms block_adv_ok [OF assms(1,2), of i r j] by (auto simp: cpst_ok_def)
qed

lemma blocks_skip_ex:
  assumes mv: "moves d s N m cp (2 ^ b)" and b: "b < 10" and N: "N < 2 ^ 64" and st: "cpst_ok N i r j"
    and blk: "\<And>dst src n m. blk dst src n m = do { (_, _, _, m) \<leftarrow> blocks_loop (of_nat (2 ^ b)) cp dst src n m; Some m }"
  shows "\<exists>i' r' j'. blocks_skip (mask b) blk (cpst d s m i r j) = Some (cpst d s m i' r' j') \<and> cpst_ok N i' r' j' \<and> r' < 2 ^ b"
proof -
  have "blocks_skip (mask b) blk (cpst d s m i r j) =
    Some (cpst d s m (i + (r - r mod 2 ^ b)) (r mod 2 ^ b) (max j (i + (r - r mod 2 ^ b))))"
    using st by (intro blocks_skip_ok [OF mv b N _ _ _ blk]) (simp_all add: cpst_ok_def)
  moreover have "cpst_ok N (i + (r - q)) q (max j (i + (r - q)))" if "q \<le> r" for q using st that by (auto simp: cpst_ok_def)
  then have "cpst_ok N (i + (r - r mod 2 ^ b)) (r mod 2 ^ b) (max j (i + (r - r mod 2 ^ b)))" by simp
  moreover have "r mod 2 ^ b < 2 ^ b" by simp
  ultimately show ?thesis by blast
qed

lemma copy_back_st:
  assumes "moves d s N m cp k" "cpst_ok N i r j" "N < 2 ^ 64" "k \<le> N" "r \<le> 2 * k"
  shows "copy_back (of_nat k) cp (cpst d s m i r j) = Some (cpm d s m N)"
  using assms(2) by (intro copy_back_ok [OF assms(1) _ _ _ assms(3-5)]) (simp_all add: cpst_ok_def)

lemma cpst_ok_0: "0 < N \<Longrightarrow> cpst_ok N 0 N 0"
  by (simp add: cpst_ok_def)

lemma le_of_nat_numeral: "cpst_ok N i r j \<Longrightarrow> N < 2 ^ 64 \<Longrightarrow> k < 2 ^ 64 \<Longrightarrow> (of_nat k :: u64) \<le> of_nat r \<longleftrightarrow> k \<le> r"
  by (intro of_nat_le) (simp_all add: cpst_ok_def)

lemma avx512_tail:
  assumes ok: "cp_ok d s N m" and st: "cpst_ok N i r j" "r \<le> 128" "64 \<le> N"
  shows "copy_block_128_back63 (cpst d s m i r j) = Some (cpm d s m N)"
  using copy_back_st [OF avx_moves(4) [OF ok] st(1)] ok st by (simp add: copy_block_128_back63_def cp_ok_def)

lemma avx512_medium:
  assumes ok: "cp_ok d s N m" and N: "64 < N" "N \<le> 512"
  shows "do { st \<leftarrow> block_adv 256 rte_mov256_avx512 (cpst d s m 0 N 0); st \<leftarrow> block_adv 128 rte_mov128_avx512 st;
    copy_block_128_back63 st } = Some (cpm d s m N)"
proof -
  note mv = avx_moves [OF ok]
  have N64: "N < 2 ^ 64" using ok by (simp add: cp_ok_def)
  have "cpst_ok N 0 N 0" using N by (intro cpst_ok_0) simp
  from block_adv_ex [OF mv(6) _ this N64] obtain i1 r1 j1 where
    b1: "block_adv 256 rte_mov256_avx512 (cpst d s m 0 N 0) = Some (cpst d s m i1 r1 j1)" "cpst_ok N i1 r1 j1" "if 256 \<le> N then r1 = N - 256 else r1 = N"
    by auto
  from block_adv_ex [OF mv(5) _ b1(2) N64] obtain i2 r2 j2 where
    b2: "block_adv 128 rte_mov128_avx512 (cpst d s m i1 r1 j1) = Some (cpst d s m i2 r2 j2)" "cpst_ok N i2 r2 j2" "if 128 \<le> r1 then r2 = r1 - 128 else r2 = r1"
    by auto
  have "r2 \<le> 128" using b1(3) b2(3) N by (auto split: if_splits)
  then show ?thesis using b1(1) b2(1) avx512_tail [OF ok b2(2)] N by simp
qed

lemma avx512_large:
  assumes ok: "cp_ok d s N m" and N: "512 < N"
  shows "do { st \<leftarrow> align_dst 64 rte_mov64_avx512 (cpst d s m 0 N 0); (dst, src, n, m) \<leftarrow> blocks_skip 511 rte_mov512blocks_avx512 st;
    st \<leftarrow> (if n \<ge> 128 then blocks_skip 127 rte_mov128blocks_avx512 (dst, src, n, m) else Some (dst, src, n, m));
    copy_block_128_back63 st } = Some (cpm d s m N)"
proof -
  note mv = avx_moves [OF ok]
  have N64: "N < 2 ^ 64" using ok by (simp add: cp_ok_def)
  have mv6: "moves d s N m rte_mov64_avx512 (2 ^ 6)" using mv(4) by simp
  from align_dst_ok [OF mv6] N N64 obtain i j where
    a: "align_dst 64 rte_mov64_avx512 (cpst d s m 0 N 0) = Some (cpst d s m i (N - i) j)" "i \<le> j" "j \<le> N" "i \<le> 64" by auto
  then have st: "cpst_ok N i (N - i) j" using N by (simp add: cpst_ok_def)
  from blocks_skip_ex [of d s N m "block_copy 64 8" 9, OF _ _ N64 st, of rte_mov512blocks_avx512] obtain i1 r1 j1 where
    b1: "blocks_skip 511 rte_mov512blocks_avx512 (cpst d s m i (N - i) j) = Some (cpst d s m i1 r1 j1)" "cpst_ok N i1 r1 j1" "r1 < 512"
    using moves_block [OF ok, of 512 8 64] by (auto simp: rte_mov512blocks_avx512_def mask_eq_exp_minus_1)
  from blocks_skip_ex [of d s N m "block_copy 64 2" 7, OF _ _ N64 b1(2), of rte_mov128blocks_avx512] obtain i2 r2 j2 where
    b2: "blocks_skip 127 rte_mov128blocks_avx512 (cpst d s m i1 r1 j1) = Some (cpst d s m i2 r2 j2)" "cpst_ok N i2 r2 j2" "r2 < 128"
    using moves_block [OF ok, of 128 2 64] by (auto simp: rte_mov128blocks_avx512_def mask_eq_exp_minus_1)
  have le: "(128 :: u64) \<le> of_nat r1 \<longleftrightarrow> 128 \<le> r1" using le_of_nat_numeral [OF b1(2) N64, of 128] by simp
  have t2: "copy_block_128_back63 (cpst d s m i2 r2 j2) = Some (cpm d s m N)" using b2(2,3) N by (intro avx512_tail [OF ok]) simp_all
  show ?thesis
  proof (cases "128 \<le> r1")
    case True
    then show ?thesis using a(1) b1(1) b2(1) le t2 by (simp add: cpst_def)
  next
    case False
    then have "copy_block_128_back63 (cpst d s m i1 r1 j1) = Some (cpm d s m N)" using b1(2) N by (intro avx512_tail [OF ok]) simp_all
    then show ?thesis using False a(1) b1(1) le by (simp add: cpst_def)
  qed
qed

lemma generic_avx512_ok:
  assumes ok: "cp_ok d s (unat n) m"
  shows "rte_memcpy_generic_avx512 d s n m = Some (cpm d s m (unat n))"
proof -
  let ?N = "unat n"
  note mv = sse_moves(1) [OF ok] avx_moves [OF ok]
  have N: "?N < 2 ^ 64" using ok by (simp add: cp_ok_def)
  have c: "n < 16 \<longleftrightarrow> ?N < 16" "n \<le> 32 \<longleftrightarrow> ?N \<le> 32" "n \<le> 64 \<longleftrightarrow> ?N \<le> 64" "n \<le> 512 \<longleftrightarrow> ?N \<le> 512"
    by (simp_all add: word_less_nat_alt word_le_nat_alt)
  have st0: "cpst d s m 0 ?N 0 = (d, s, n, m)" using cpst_0 [OF N] by simp
  consider "?N < 16" | "16 \<le> ?N" "?N \<le> 32" | "32 < ?N" "?N \<le> 64" | "64 < ?N" "?N \<le> 512" | "512 < ?N" by linarith
  then show ?thesis
  proof cases
    case 1
    then show ?thesis using copy_lt16_ok [OF ok] by (simp add: rte_memcpy_generic_avx512_def c)
  next
    case 2
    then show ?thesis using first_ok [OF mv(1)] last_ok [OF mv(1), of 16] by (simp add: rte_memcpy_generic_avx512_def c)
  next
    case 3
    then show ?thesis using first_ok [OF mv(2)] last_ok [OF mv(2), of 32] by (simp add: rte_memcpy_generic_avx512_def c)
  next
    case 4
    then show ?thesis using avx512_medium [OF ok] by (simp add: rte_memcpy_generic_avx512_def c st0)
  next
    case 5
    then show ?thesis using avx512_large [OF ok] by (simp add: rte_memcpy_generic_avx512_def c st0)
  qed
qed

lemma avx2_tail:
  assumes ok: "cp_ok d s N m" and st: "cpst_ok N i r j" "r \<le> 128" "32 \<le> N"
  shows "copy_block_128_back31 (cpst d s m i r j) = Some (cpm d s m N)"
proof -
  note mv = avx_moves [OF ok]
  have N64: "N < 2 ^ 64" using ok by (simp add: cp_ok_def)
  from block_adv_ex [OF mv(2) _ st(1) N64] obtain i1 r1 j1 where
    b1: "block_adv 64 rte_mov64_avx2 (cpst d s m i r j) = Some (cpst d s m i1 r1 j1)" "cpst_ok N i1 r1 j1" "if 64 \<le> r then r1 = r - 64 else r1 = r"
    by auto
  have "r1 \<le> 64" using b1(3) st(2) by (auto split: if_splits)
  then show ?thesis using b1(1) copy_back_st [OF mv(1) b1(2) N64] st(3) by (simp add: copy_block_128_back31_def)
qed

lemma avx2_medium:
  assumes ok: "cp_ok d s N m" and N: "64 < N" "N \<le> 256"
  shows "do { st \<leftarrow> block_adv 128 rte_mov128_avx2 (cpst d s m 0 N 0); copy_block_128_back31 st } = Some (cpm d s m N)"
proof -
  have N64: "N < 2 ^ 64" using ok by (simp add: cp_ok_def)
  have "cpst_ok N 0 N 0" using N by (intro cpst_ok_0) simp
  from block_adv_ex [OF avx_moves(3) [OF ok] _ this N64] obtain i1 r1 j1 where
    b1: "block_adv 128 rte_mov128_avx2 (cpst d s m 0 N 0) = Some (cpst d s m i1 r1 j1)" "cpst_ok N i1 r1 j1" "if 128 \<le> N then r1 = N - 128 else r1 = N"
    by auto
  have "r1 \<le> 128" using b1(3) N by (auto split: if_splits)
  then show ?thesis using b1(1) avx2_tail [OF ok b1(2)] N by simp
qed

lemma avx2_large:
  assumes ok: "cp_ok d s N m" and N: "256 < N"
  shows "do { st \<leftarrow> align_dst 32 rte_mov32_avx (cpst d s m 0 N 0); st \<leftarrow> blocks_skip 127 rte_mov128blocks_avx2 st;
    copy_block_128_back31 st } = Some (cpm d s m N)"
proof -
  have N64: "N < 2 ^ 64" using ok by (simp add: cp_ok_def)
  have mv5: "moves d s N m rte_mov32_avx (2 ^ 5)" using avx_moves(1) [OF ok] by simp
  from align_dst_ok [OF mv5] N N64 obtain i j where
    a: "align_dst 32 rte_mov32_avx (cpst d s m 0 N 0) = Some (cpst d s m i (N - i) j)" "i \<le> j" "j \<le> N" "i \<le> 32" by auto
  then have st: "cpst_ok N i (N - i) j" using N by (simp add: cpst_ok_def)
  from blocks_skip_ex [of d s N m "block_copy 32 4" 7, OF _ _ N64 st, of rte_mov128blocks_avx2] obtain i1 r1 j1 where
    b1: "blocks_skip 127 rte_mov128blocks_avx2 (cpst d s m i (N - i) j) = Some (cpst d s m i1 r1 j1)" "cpst_ok N i1 r1 j1" "r1 < 128"
    using moves_block [OF ok, of 128 4 32] by (auto simp: rte_mov128blocks_avx2_def mask_eq_exp_minus_1)
  then show ?thesis using a(1) avx2_tail [OF ok b1(2)] N by simp
qed

lemma generic_avx2_ok:
  assumes ok: "cp_ok d s (unat n) m"
  shows "rte_memcpy_generic_avx2 d s n m = Some (cpm d s m (unat n))"
proof -
  let ?N = "unat n"
  note mv = sse_moves(1) [OF ok] avx_moves [OF ok]
  have N: "?N < 2 ^ 64" using ok by (simp add: cp_ok_def)
  have c: "n < 16 \<longleftrightarrow> ?N < 16" "n \<le> 32 \<longleftrightarrow> ?N \<le> 32" "n \<le> 48 \<longleftrightarrow> ?N \<le> 48" "n \<le> 64 \<longleftrightarrow> ?N \<le> 64" "n \<le> 256 \<longleftrightarrow> ?N \<le> 256"
    by (simp_all add: word_less_nat_alt word_le_nat_alt)
  have st0: "cpst d s m 0 ?N 0 = (d, s, n, m)" using cpst_0 [OF N] by simp
  consider "?N < 16" | "16 \<le> ?N" "?N \<le> 32" | "32 < ?N" "?N \<le> 48" | "48 < ?N" "?N \<le> 64" | "64 < ?N" "?N \<le> 256" | "256 < ?N" by linarith
  then show ?thesis
  proof cases
    case 1
    then show ?thesis using copy_lt16_ok [OF ok] by (simp add: rte_memcpy_generic_avx2_def c)
  next
    case 2
    then show ?thesis using first_ok [OF mv(1)] last_ok [OF mv(1), of 16] by (simp add: rte_memcpy_generic_avx2_def c)
  next
    case 3
    have "rte_mov16 (d + 16) (s + 16) (cpm d s m 16) = Some (cpm d s m 32)" using movesD [OF mv(1), of 16 16] 3 by simp
    then show ?thesis using 3 first_ok [OF mv(1)] last_ok [OF mv(1), of 32] by (simp add: rte_memcpy_generic_avx2_def c)
  next
    case 4
    then show ?thesis using first_ok [OF mv(2)] last_ok [OF mv(2), of 32] by (simp add: rte_memcpy_generic_avx2_def c)
  next
    case 5
    then show ?thesis using avx2_medium [OF ok] by (simp add: rte_memcpy_generic_avx2_def c st0)
  next
    case 6
    then show ?thesis using avx2_large [OF ok] by (simp add: rte_memcpy_generic_avx2_def c st0)
  qed
qed

lemma aligned_ok:
  assumes ok: "cp_ok d s (unat n) m"
  shows "rte_memcpy_aligned isa d s n m = Some (cpm d s m (unat n))"
proof -
  let ?N = "unat n"
  have mv: "moves d s ?N m rte_mov16 16" "moves d s ?N m (rte_mov32 isa) 32" "moves d s ?N m (rte_mov64 isa) 64"
    using sse_moves [OF ok] avx_moves [OF ok] by (simp_all add: rte_mov32_def rte_mov64_def split: isa.split)
  have N: "?N < 2 ^ 64" using ok by (simp add: cp_ok_def)
  have c: "n < 16 \<longleftrightarrow> ?N < 16" "n \<le> 32 \<longleftrightarrow> ?N \<le> 32" "n \<le> 64 \<longleftrightarrow> ?N \<le> 64"
    by (simp_all add: word_less_nat_alt word_le_nat_alt)
  consider "?N < 16" | "16 \<le> ?N" "?N \<le> 32" | "32 < ?N" "?N \<le> 64" | "64 < ?N" by linarith
  then show ?thesis
  proof cases
    case 1
    then show ?thesis using copy_lt16_ok [OF ok] by (simp add: rte_memcpy_aligned_def c)
  next
    case 2
    then show ?thesis using first_ok [OF mv(1)] last_ok [OF mv(1), of 16] by (simp add: rte_memcpy_aligned_def c)
  next
    case 3
    then show ?thesis using first_ok [OF mv(2)] last_ok [OF mv(2), of 32] by (simp add: rte_memcpy_aligned_def c)
  next
    case 4
    define q where "q = ?N mod 64"
    have q: "q < 64" "q \<le> ?N" by (simp_all add: q_def)
    have "blocks_loop 64 (rte_mov64 isa) d s n m = Some (cpst d s m (?N - q) q (?N - q))"
      using blocks_loop_ok [OF mv(3) _ _ N, of 0 ?N 0] by (simp add: q_def)
    moreover have "rte_mov64 isa (d + of_nat (?N - q) - of_nat 64 + of_nat q) (s + of_nat (?N - q) - of_nat 64 + of_nat q) (cpm d s m (?N - q)) =
        Some (cpm d s m ?N)"
    proof -
      have p: "x + of_nat (?N - q) - of_nat 64 + of_nat q = (x + of_nat (?N - 64) :: u64)" for x
        using ptr_back [of 64 "?N - q" q x] q 4 by simp
      show ?thesis unfolding p using movesD [OF mv(3), of "?N - 64" "?N - q"] q 4 by (simp add: max_def)
    qed
    ultimately show ?thesis using 4 by (simp add: rte_memcpy_aligned_def c cpst_def)
  qed
qed

text \<open>
  The unaligned loads of the SSE version begin at an address aligned to 16 bytes: memory is mapped, or not, in
  units of at least that size.
\<close>

definition granules_mapped :: "bytes \<Rightarrow> bool" where
  "granules_mapped m \<longleftrightarrow> (\<forall>x y. drop_bit 4 x = drop_bit 4 y \<longrightarrow> m x \<noteq> None \<longrightarrow> m y \<noteq> None)"

lemma behind_start:
  assumes "granules_mapped m" "m s \<noteq> None"
  shows "behind s m (unat (s AND 15)) 0"
  unfolding behind_def
proof (intro allI impI)
  fix t assume t: "t < unat (s AND 15)"
  let ?o = "unat (s AND 15)"
  have k: "(15 :: u64) = mask 4" by (simp add: mask_eq_exp_minus_1)
  have o: "?o = unat s mod 16" unfolding k take_bit_eq_mask [symmetric] unsigned_take_bit_eq by (simp add: take_bit_nat_def)
  have ol: "?o \<le> unat s" "?o < 16" unfolding o by simp_all
  have "unat (s - of_nat ?o + of_nat t) = unat s - ?o + t"
  proof -
    have e: "s - of_nat ?o + of_nat t = s - of_nat (?o - t)" using t by (simp add: of_nat_diff)
    have "unat (s - of_nat (?o - t)) = unat s - (?o - t)" using ol by (subst unat_minus_of_nat) simp_all
    then show ?thesis unfolding e using t ol by simp
  qed
  moreover have "(unat s - unat s mod 16 + t) div 16 = unat s div 16"
  proof -
    have "unat s - unat s mod 16 = 16 * (unat s div 16)" by (rule minus_mod_eq_mult_div)
    then show ?thesis using t ol by simp
  qed
  moreover have "unat (drop_bit 4 x) = unat x div 16" for x :: u64 by (simp add: drop_bit_eq_div unat_div)
  ultimately have d: "drop_bit 4 s = drop_bit 4 (s - of_nat ?o + of_nat t)"
    unfolding word_unat_eq_iff by (simp only: o)
  have "m (s - of_nat ?o + of_nat t) \<noteq> None"
    by (rule assms(1) [unfolded granules_mapped_def, rule_format, OF d assms(2)])
  then show "m (s + of_nat 0 - of_nat ?o + of_nat t) \<noteq> None" by simp
qed

text \<open>The state behind the alignment of the destination.\<close>

lemma sse_align:
  assumes ok: "cp_ok d s N m" and N: "512 < N" and g: "granules_mapped m"
  shows "\<exists>i j. (if 0 < d AND 15 then do { m \<leftarrow> rte_mov32_sse d s m;
      let dstofss = 16 - (d AND 15) + 16; Some (d + dstofss, s + dstofss, of_nat N - dstofss, m) } else Some (d, s, of_nat N, m)) =
    Some (cpst d s m i (N - i) j) \<and> i \<le> j \<and> j \<le> N \<and> i \<le> 32 \<and> behind s m (unat ((s + of_nat i) AND 15)) i"
proof (cases "0 < d AND 15")
  case False
  have "m s \<noteq> None" using cp_okD(2) [OF ok, of 0] N by simp
  then show ?thesis using False behind_start [OF g] by (intro exI [of _ 0]) (simp add: cpst_def)
next
  case True
  let ?i = "32 - unat (d AND 15)"
  have k: "(15 :: u64) = mask 4" by (simp add: mask_eq_exp_minus_1)
  have l: "unat (x AND 15) < 16" for x :: u64 using and_mask_pos [of 4 x] unfolding k by simp
  have w: "16 - (d AND 15) + 16 = (of_nat ?i :: u64)" using l [of d] by (simp add: of_nat_diff)
  have "rte_mov32_sse d s m = Some (cpm d s m 32)" using first_ok [OF sse_moves(2) [OF ok]] N by simp
  moreover have "(of_nat N :: u64) - of_nat ?i = of_nat (N - ?i)" using N by (intro of_nat_minus) simp
  moreover have "behind s m (unat ((s + of_nat ?i) AND 15)) ?i"
  proof (rule behind_prefix [OF ok])
    show "unat ((s + of_nat ?i) AND 15) \<le> ?i" using l [of "s + of_nat ?i"] l [of d] by linarith
  qed (use N in simp)
  ultimately show ?thesis using True N unfolding w
    by - (rule exI [of _ ?i], rule exI [of _ 32], simp add: cpst_def Let_def)
qed

lemma sse_large:
  assumes ok: "cp_ok d s N m" and N: "512 < N" and g: "granules_mapped m"
  shows "do { (dst, src, n, m) \<leftarrow> (let dstofss = d AND 0x0F in if dstofss > 0 then do { m \<leftarrow> rte_mov32_sse d s m;
      let dstofss = 16 - dstofss + 16; Some (d + dstofss, s + dstofss, of_nat N - dstofss, m) } else Some (d, s, of_nat N, m));
    let srcofs = src AND 0x0F;
    if srcofs = 0 then do { st \<leftarrow> blocks_loop 256 rte_mov256_sse dst src n m; copy_block_255_back15 st }
    else do { st \<leftarrow> MOVEUNALIGNED_LEFT47 srcofs (dst, src, n, m); copy_block_64_back15 st } } = Some (cpm d s m N)"
proof -
  have N64: "N < 2 ^ 64" using ok by (simp add: cp_ok_def)
  obtain i j where al: "(let dstofss = d AND 0x0F in if dstofss > 0 then do { m \<leftarrow> rte_mov32_sse d s m;
      let dstofss = 16 - dstofss + 16; Some (d + dstofss, s + dstofss, of_nat N - dstofss, m) } else Some (d, s, of_nat N, m)) =
    Some (cpst d s m i (N - i) j)" "i \<le> j" "j \<le> N" "i \<le> 32" "behind s m (unat ((s + of_nat i) AND 15)) i"
    using sse_align [OF assms] by (auto simp: Let_def)
  let ?o = "(s + of_nat i) AND 15"
  show ?thesis
  proof (cases "?o = 0")
    case True
    obtain i1 r1 j1 where b: "blocks_loop 256 rte_mov256_sse (d + of_nat i) (s + of_nat i) (of_nat (N - i)) (cpm d s m j) = Some (cpst d s m i1 r1 j1)"
      "cpst_ok N i1 r1 j1" "r1 < 256"
    proof
      let ?r = "N - i"
      show "blocks_loop 256 rte_mov256_sse (d + of_nat i) (s + of_nat i) (of_nat (N - i)) (cpm d s m j) =
        Some (cpst d s m (i + (?r - ?r mod 256)) (?r mod 256) (max j (i + (?r - ?r mod 256))))"
        using blocks_loop_ok [OF sse_moves(5) [OF ok] _ _ N64, of i ?r j] al N by simp
      have "cpst_ok N (i + (?r - q)) q (max j (i + (?r - q)))" if "q \<le> ?r" for q using al(2,3) that by (auto simp: cpst_ok_def)
      then show "cpst_ok N (i + (?r - ?r mod 256)) (?r mod 256) (max j (i + (?r - ?r mod 256)))" by simp
    qed simp
    then have "copy_block_255_back15 (cpst d s m i1 r1 j1) = Some (cpm d s m N)"
      using N by (intro back15_ok(3) [OF ok]) (simp_all add: cpst_ok_def)
    then show ?thesis unfolding al(1) using True b(1) by (simp add: cpst_def)
  next
    case False
    have k: "(15 :: u64) = mask 4" by (simp add: mask_eq_exp_minus_1)
    have o: "unat ?o < 16" "0 < unat ?o" using and_mask_pos [of 4 "s + of_nat i"] False unfolding k by (simp_all add: unat_gt_0)
    then have w: "0x01 \<le> ?o" "?o \<le> 0x0F" by (simp_all add: word_le_nat_alt)
    have r16: "16 - unat ?o \<le> N - i" using al(4) N by linarith
    obtain i1 r1 j1 where u: "MOVEUNALIGNED_LEFT47_IMM (unat ?o) (cpst d s m i (N - i) j) = Some (cpst d s m i1 r1 j1)"
      "i1 + r1 = N" "i1 \<le> j1" "j1 \<le> N" "0 < r1" "r1 < 48"
      using MOVEUNALIGNED_ok [OF ok _ _ _ al(2,3,5) r16] o al(2,3) by auto
    then have "copy_block_64_back15 (cpst d s m i1 r1 j1) = Some (cpm d s m N)"
      using N by (intro back15_ok(1) [OF ok]) simp_all
    then show ?thesis unfolding al(1) using False u(1) w by (simp add: cpst_def MOVEUNALIGNED_LEFT47_def)
  qed
qed

lemma generic_sse_ok:
  assumes ok: "cp_ok d s (unat n) m" and g: "granules_mapped m"
  shows "rte_memcpy_generic_sse d s n m = Some (cpm d s m (unat n))"
proof -
  let ?N = "unat n"
  note mv = sse_moves [OF ok]
  have N: "?N < 2 ^ 64" using ok by (simp add: cp_ok_def)
  have c: "n < 16 \<longleftrightarrow> ?N < 16" "n \<le> 32 \<longleftrightarrow> ?N \<le> 32" "n \<le> 48 \<longleftrightarrow> ?N \<le> 48" "n \<le> 64 \<longleftrightarrow> ?N \<le> 64" "n \<le> 128 \<longleftrightarrow> ?N \<le> 128"
    "n \<le> 512 \<longleftrightarrow> ?N \<le> 512"
    by (simp_all add: word_less_nat_alt word_le_nat_alt)
  have st0: "cpst d s m 0 ?N 0 = (d, s, n, m)" using cpst_0 [OF N] by simp
  consider "?N < 16" | "16 \<le> ?N" "?N \<le> 32" | "32 < ?N" "?N \<le> 48" | "48 < ?N" "?N \<le> 64" | "64 < ?N" "?N \<le> 128"
    | "128 < ?N" "?N \<le> 512" | "512 < ?N" by linarith
  then show ?thesis
  proof cases
    case 1
    then show ?thesis using copy_lt16_ok [OF ok] by (simp add: rte_memcpy_generic_sse_def c)
  next
    case 2
    then show ?thesis using first_ok [OF mv(1)] last_ok [OF mv(1), of 16] by (simp add: rte_memcpy_generic_sse_def c)
  next
    case 3
    then show ?thesis using first_ok [OF mv(2)] last_ok [OF mv(1), of 32] by (simp add: rte_memcpy_generic_sse_def c)
  next
    case 4
    have "rte_mov16 (d + 32) (s + 32) (cpm d s m 32) = Some (cpm d s m 48)" using movesD [OF mv(1), of 32 32] 4 by simp
    then show ?thesis using 4 first_ok [OF mv(2)] last_ok [OF mv(1), of 48] by (simp add: rte_memcpy_generic_sse_def c)
  next
    case 5
    then have "copy_block_128_back15 (d, s, n, m) = Some (cpm d s m ?N)"
      using back15_ok(2) [OF ok, of 0 ?N 0] st0 by simp
    then show ?thesis using 5 by (simp add: rte_memcpy_generic_sse_def c)
  next
    case 6
    have mv2: "moves d s ?N m (\<lambda>d s m. do { m \<leftarrow> rte_mov128_sse d s m; rte_mov128_sse (d + 128) (s + 128) m }) 256"
      using moves_twice [OF mv(4) N] by simp
    have "cpst_ok ?N 0 ?N 0" using 6 by (intro cpst_ok_0) simp
    from block_adv_ex [OF mv2 _ this N] obtain i1 r1 j1 where
      b1: "block_adv 256 (\<lambda>d s m. do { m \<leftarrow> rte_mov128_sse d s m; rte_mov128_sse (d + 128) (s + 128) m }) (d, s, n, m) = Some (cpst d s m i1 r1 j1)"
        "cpst_ok ?N i1 r1 j1" "if 256 \<le> ?N then r1 = ?N - 256 else r1 = ?N"
      by (auto simp: st0)
    have "copy_block_255_back15 (cpst d s m i1 r1 j1) = Some (cpm d s m ?N)"
      using b1(2,3) 6 by (intro back15_ok(3) [OF ok]) (auto simp: cpst_ok_def split: if_splits)
    then show ?thesis using 6 b1(1) by (simp add: rte_memcpy_generic_sse_def c)
  next
    case 7
    have n: "of_nat ?N = n" by simp
    show ?thesis using 7 sse_large [OF ok 7 g, unfolded n] by (simp add: rte_memcpy_generic_sse_def c)
  qed
qed

section \<open>Properties\<close>

text \<open>
  C19. In all three versions \<^verbatim>\<open>rte_memcpy\<close> on disjoint, mapped source and destination returns the destination
  without a fault; afterwards the destination holds the bytes of the source and every other byte is
  what it was: no byte is missed, shifted or written beyond the end, for any length and alignment. The
  AVX versions touch only these bytes; the unaligned loads of the SSE version need the rest of the
  16-byte unit in which the source begins.
\<close>

theorem memcpy_spec:
  assumes "cp_ok dst src (unat n) m" "isa = SSE \<longrightarrow> granules_mapped m"
  shows "rte_memcpy isa dst src n m = Some (\<lambda>x. if unat (x - dst) < unat n then m (src + (x - dst)) else m x, dst)"
proof -
  have "rte_memcpy_generic isa dst src n m = Some (cpm dst src m (unat n))"
    using generic_sse_ok [OF assms(1)] generic_avx2_ok [OF assms(1)] generic_avx512_ok [OF assms(1)] assms(2)
    by (cases isa) (simp_all add: rte_memcpy_generic_def)
  then show ?thesis using aligned_ok [OF assms(1)] by (simp add: rte_memcpy_def cpm_def)
qed

text \<open>
  Why the condition on the SSE version: with an aligned destination and an unaligned source nothing is copied
  before the unaligned loop begins, and its first load starts before the source.
\<close>

theorem memcpy_reads_before_source:
  assumes "dst AND 15 = 0" "src AND 15 \<noteq> 0" "512 < n" "m (src - 1) = None"
  shows "rte_memcpy SSE dst src n m = None"
proof -
  let ?o = "unat (src AND 15)"
  have k: "(15 :: u64) = mask 4" by (simp add: mask_eq_exp_minus_1)
  have o: "?o < 16" "0 < ?o" using and_mask_pos [of 4 src] assms(2) unfolding k by (simp_all add: unat_gt_0)
  have "m (src - of_nat ?o + of_nat (?o - 1)) = None" using o(2) assms(4) by (simp add: of_nat_diff)
  then have "None \<in> set (map (\<lambda>i. m (src - of_nat ?o + of_nat i)) [0..<16])" using o
    by (metis (no_types, lifting) atLeastLessThan_iff diff_less imageI le0 less_imp_diff_less list.set_map set_upt zero_less_one)
  moreover have "those xs = None" if "None \<in> set xs" for xs :: "u8 option list"
    using that by (induction xs) (auto split: option.split)
  ultimately have "load_bytes 16 (src - of_nat ?o) m = None" unfolding load_bytes_def by blast
  then have "unaligned_copy ?o 8 dst src m = None"
    unfolding unaligned_copy_def Suc_eq_plus1 [symmetric] load_each_Cons by simp
  moreover have "(128 + 16 - of_nat ?o :: u64) \<le> n"
    using assms(3) o(1) unat_sub [of "of_nat ?o" "144 :: u64"] by (simp add: word_le_nat_alt word_less_nat_alt)
  ultimately have "unaligned_loop 128 ?o 8 dst src n m = None" by (subst unaligned_loop.simps) simp
  then have "rte_memcpy_generic_sse dst src n m = None"
    using assms o by (simp add: rte_memcpy_generic_sse_def MOVEUNALIGNED_LEFT47_def MOVEUNALIGNED_LEFT47_IMM_def word_le_nat_alt word_less_nat_alt)
  moreover have "(dst OR src) AND 15 \<noteq> 0" using assms(1,2) by (simp add: bit.conj_disj_distrib2)
  ultimately show ?thesis by (simp add: rte_memcpy_def rte_memcpy_generic_def ALIGNMENT_MASK_def)
qed

section \<open>Witness\<close>

text \<open>Two mapped pages.\<close>

definition demo_bytes :: bytes where
  "demo_bytes x = (if 0x1000 \<le> x \<and> x < 0x3000 then Some (ucast x) else None)"

lemma demo_granules: "granules_mapped demo_bytes"
  unfolding granules_mapped_def
proof (intro allI impI)
  fix x y assume d: "drop_bit 4 x = drop_bit 4 y" and x: "demo_bytes x \<noteq> None"
  have q: "unat (drop_bit 4 z) = unat z div 16" for z :: u64 by (simp add: drop_bit_eq_div unat_div)
  have e: "unat x div 16 = unat y div 16" unfolding q [symmetric] d ..
  have x: "0x1000 \<le> unat x" "unat x < 0x3000"
    using x by (simp_all add: demo_bytes_def word_le_nat_alt word_less_nat_alt split: if_splits)
  have "256 \<le> unat y div 16" using div_le_mono [OF x(1), of 16] unfolding e by simp
  moreover have "unat y div 16 < 768" unfolding e [symmetric] using x(2) by (intro less_mult_imp_div_less) simp
  ultimately have "0x1000 \<le> unat y \<and> unat y < 0x3000"
    using div_times_less_eq_dividend [of "unat y" 16] dividend_less_div_times [of 16 "unat y"] by linarith
  then show "demo_bytes y \<noteq> None" by (simp add: demo_bytes_def word_le_nat_alt word_less_nat_alt)
qed

lemma demo_cp_ok: "cp_ok 0x1000 0x2003 1000 demo_bytes"
proof -
  have u: "unat (0x2003 + of_nat i :: u64) = 0x2003 + i" "unat (0x1000 + of_nat i :: u64) = 0x1000 + i" if "i < 1000" for i
    using that by (subst unat_add_no_overflow; simp add: unat_of_nat_64)+
  then have "demo_bytes (0x2003 + of_nat i) \<noteq> None" "demo_bytes (0x1000 + of_nat i) \<noteq> None" if "i < 1000" for i
    using that by (simp_all add: demo_bytes_def word_le_nat_alt word_less_nat_alt)
  moreover have "(0x2003 + of_nat i :: u64) \<noteq> 0x1000 + of_nat j" if "i < 1000" "j < 1000" for i j
  proof
    assume "0x2003 + of_nat i = (0x1000 + of_nat j :: u64)"
    then have "unat (0x2003 + of_nat i :: u64) = unat (0x1000 + of_nat j :: u64)" by (rule arg_cong)
    then show False unfolding u(1) [OF that(1)] u(2) [OF that(2)] using that by linarith
  qed
  ultimately show ?thesis by (simp add: cp_ok_def)
qed

theorem memcpy_spec_witness:
  "\<exists>m. rte_memcpy SSE 0x1000 0x2003 1000 demo_bytes = Some (m, 0x1000) \<and> m 0x13E7 = Some 0xEA \<and> m 0x13E8 = Some 0xE8"
  using memcpy_spec [of "0x1000" "0x2003" 1000 demo_bytes SSE] demo_cp_ok demo_granules by (simp add: demo_bytes_def)

end
