(* ===== verification/Cstring.thy ===== *)
theory Cstring
  imports Prelude
begin

text \<open>
  The string functions: \<^verbatim>\<open>rte_strsplit\<close> (\<^verbatim>\<open>eal_common_string_fns.c\<close>), \<^verbatim>\<open>rte_strlcpy\<close> (\<^verbatim>\<open>rte_string_fns.h\<close>) and
  \<^verbatim>\<open>rte_str_to_size\<close> (\<^verbatim>\<open>rte_common.h\<close>), over the functions of the C library they call. A C string is a
  character list without the terminating NUL.
\<close>

section \<open>Functions of the C library\<close>

definition BUFSIZ :: nat where "BUFSIZ = 8192"

abbreviation NUL :: char where "NUL \<equiv> CHR 0x00"

definition isspace :: "char \<Rightarrow> bool" where
  "isspace c \<longleftrightarrow> c = CHR '' '' \<or> 9 \<le> (of_char c :: nat) \<and> (of_char c :: nat) \<le> 13"

definition isdigit :: "char \<Rightarrow> bool" where
  "isdigit c \<longleftrightarrow> 48 \<le> (of_char c :: nat) \<and> (of_char c :: nat) \<le> 57"

text \<open>The value of a letter or digit.\<close>

definition digit_val :: "char \<Rightarrow> nat" where
  "digit_val c = (let k = of_char c in
     if 48 \<le> k \<and> k \<le> 57 then k - 48
     else if 97 \<le> k \<and> k \<le> 122 then k - 87
     else if 65 \<le> k \<and> k \<le> 90 then k - 55
     else 36)"

definition digits_val :: "nat \<Rightarrow> string \<Rightarrow> nat" where
  "digits_val b ds = foldl (\<lambda>v c. v * b + digit_val c) 0 ds"

text \<open>
  \<^verbatim>\<open>strtoull(s, &end, base)\<close>, also \<^verbatim>\<open>strtoul\<close> where \<^verbatim>\<open>long\<close> has 64 bits: the value, the rest of the string from
  \<^verbatim>\<open>end\<close> on, and whether \<^verbatim>\<open>errno\<close> is set to \<^verbatim>\<open>ERANGE\<close>. Without digits \<^verbatim>\<open>end\<close> is the start.
\<close>

definition strto_prefix :: "nat \<Rightarrow> string \<Rightarrow> nat \<times> string" where
  "strto_prefix base s =
     (if (base = 0 \<or> base = 16) \<and> (take 2 s = ''0x'' \<or> take 2 s = ''0X'') \<and> 2 < length s \<and> digit_val (s ! 2) < 16
      then (16, drop 2 s)
      else if base = 0 then (if take 1 s = ''0'' then 8 else 10, s)
      else (base, s))"

definition strtoull :: "string \<Rightarrow> nat \<Rightarrow> u64 \<times> string \<times> bool" where
  "strtoull str base =
     (let s = dropWhile isspace str;
          neg = (take 1 s = ''-'');
          s = (if take 1 s = ''-'' \<or> take 1 s = ''+'' then drop 1 s else s);
          (b, s) = strto_prefix base s;
          ds = takeWhile (\<lambda>c. digit_val c < b) s;
          v = digits_val b ds
      in if ds = [] then (0, str, False)
         else if v \<ge> 2 ^ 64 then (- 1, drop (length ds) s, True)
         else (if neg then - of_nat v else of_nat v, drop (length ds) s, False))"

text \<open>\<^verbatim>\<open>strstr(s, t)\<close>: what follows the first occurrence, including it.\<close>

fun strstr :: "string \<Rightarrow> string \<Rightarrow> string option" where
  "strstr s t = (if take (length t) s = t then Some s else case s of [] \<Rightarrow> None | _ # s \<Rightarrow> strstr s t)"

declare strstr.simps [simp del]

text \<open>\<^verbatim>\<open>qsort\<close> with a comparison function; where elements compare equal C leaves the order open.\<close>

fun qsort_insert :: "('a \<Rightarrow> 'a \<Rightarrow> int) \<Rightarrow> 'a \<Rightarrow> 'a list \<Rightarrow> 'a list" where
  "qsort_insert cmp x [] = [x]"
| "qsort_insert cmp x (y # ys) = (if cmp x y \<le> 0 then x # y # ys else y # qsort_insert cmp x ys)"

definition qsort :: "('a \<Rightarrow> 'a \<Rightarrow> int) \<Rightarrow> 'a list \<Rightarrow> 'a list" where
  "qsort cmp xs = foldr (qsort_insert cmp) xs []"

text \<open>The pieces in which \<^verbatim>\<open>fgets\<close> reads a line into a buffer of \<open>n\<close> characters.\<close>

function fgets_pieces :: "nat \<Rightarrow> string \<Rightarrow> string list" where
  "fgets_pieces n line = (if n \<le> 1 \<or> length line < n then [line] else take (n - 1) line # fgets_pieces n (drop (n - 1) line))"
  by auto
termination by (relation "measure (\<lambda>(n, line). length line)") auto

declare fgets_pieces.simps [simp del]

text \<open>\<^verbatim>\<open>snprintf\<close> with \<^verbatim>\<open>%u\<close>.\<close>

definition digit_char :: "nat \<Rightarrow> char" where "digit_char k = ''0123456789'' ! k"

fun decimal :: "nat \<Rightarrow> string" where
  "decimal n = (if n < 10 then [digit_char n] else decimal (n div 10) @ [digit_char (n mod 10)])"

declare decimal.simps [simp del]

section \<open>Splitting a string\<close>

text \<open>
  \<open>i\<close> runs over the buffer, \<open>toks\<close> holds the starts of the tokens found so far, \<open>left\<close> is what remains of
  \<^verbatim>\<open>stringlen\<close>; the buffer ends with a NUL.
\<close>

fun strsplit_loop :: "nat \<Rightarrow> nat \<Rightarrow> string \<Rightarrow> nat list \<Rightarrow> nat \<Rightarrow> char \<Rightarrow> bool \<Rightarrow> string \<times> nat list" where
  "strsplit_loop 0 i s toks maxtokens delim tokstart = (s, toks)"
| "strsplit_loop (Suc left) i s toks maxtokens delim tokstart =
     (if i \<ge> length s \<or> s ! i = NUL \<or> length toks \<ge> maxtokens then (s, toks)
      else let toks = (if tokstart then toks @ [i] else toks)
           in if s ! i = delim then strsplit_loop left (i + 1) (s[i := NUL]) toks maxtokens delim True
              else strsplit_loop left (i + 1) s toks maxtokens delim False)"

text \<open>
  The buffer with the starts of the tokens; a token ends at the next NUL. A null pointer to the string
  is \<open>None\<close>; the array of tokens is not null.
\<close>

definition rte_strsplit :: "string option \<Rightarrow> int \<Rightarrow> nat \<Rightarrow> char \<Rightarrow> string \<times> nat list \<times> int" where
  "rte_strsplit str stringlen maxtokens delim =
     (case str of None \<Rightarrow> ([], [], -1)
      | Some s \<Rightarrow> let (s, toks) = strsplit_loop (nat stringlen) 0 s [] maxtokens delim True
                  in (s, toks, int (length toks)))"

definition token_at :: "string \<Rightarrow> nat \<Rightarrow> string" where
  "token_at buf k = takeWhile (\<lambda>c. c \<noteq> NUL) (drop k buf)"

definition split_tokens :: "string \<Rightarrow> int \<Rightarrow> nat \<Rightarrow> char \<Rightarrow> string list" where
  "split_tokens s stringlen maxtokens delim =
     (let (buf, toks, n) = rte_strsplit (Some s) stringlen maxtokens delim in map (token_at buf) toks)"

definition rte_strlcpy :: "string \<Rightarrow> nat \<Rightarrow> string \<times> int" where
  "rte_strlcpy src sz = snprintf_str sz src"

section \<open>Sizes\<close>

definition rte_str_to_size :: "string \<Rightarrow> u64" where
  "rte_str_to_size str =
     (let s = dropWhile isspace str
      in if take 1 s = ''-'' then 0
         else let (sz, rest, erange) = strtoull s 0
              in if erange then 0
                 else let rest = (if take 1 rest = '' '' then drop 1 rest else rest);
                          c = (case rest of [] \<Rightarrow> NUL | c # _ \<Rightarrow> c)
                      in if c \<in> {CHR ''G'', CHR ''g''} then sz * 1024 * 1024 * 1024
                         else if c \<in> {CHR ''M'', CHR ''m''} then sz * 1024 * 1024
                         else if c \<in> {CHR ''K'', CHR ''k''} then sz * 1024
                         else sz)"

end
