(* ===== verification/Cstring_Correct.thy ===== *)
theory Cstring_Correct
  imports Cstring
begin

text \<open>Sorting, splitting and the sizes of \<open>Cstring\<close> against what they are meant to compute.\<close>

section \<open>Sorting\<close>

lemma set_qsort_insert [simp]: "set (qsort_insert cmp x ys) = insert x (set ys)"
  by (induction ys) auto

lemma perm_qsort_insert: "count_list (qsort_insert cmp x ys) z = count_list (x # ys) z"
  by (induction ys) auto

lemma set_qsort [simp]: "set (qsort cmp xs) = set xs"
  by (induction xs) (auto simp: qsort_def)

lemma length_qsort_insert [simp]: "length (qsort_insert cmp x ys) = Suc (length ys)"
  by (induction ys) auto

lemma length_qsort [simp]: "length (qsort cmp xs) = length xs"
  by (induction xs) (auto simp: qsort_def)

lemma count_qsort [simp]: "count_list (qsort cmp xs) z = count_list xs z"
proof (induction xs)
  case (Cons x xs)
  then show ?case by (simp add: qsort_def perm_qsort_insert)
qed (simp add: qsort_def)

text \<open>With a comparison that orders by a key, the result is sorted.\<close>

lemma sorted_qsort_insert:
  fixes key :: "'a \<Rightarrow> 'k::linorder"
  assumes "\<And>x y. cmp x y \<le> 0 \<longleftrightarrow> key x \<le> key y" "sorted_wrt (\<lambda>x y. key x \<le> key y) ys"
  shows "sorted_wrt (\<lambda>x y. key x \<le> key y) (qsort_insert cmp x ys)"
  using assms(2) by (induction ys) (auto simp: assms(1))

lemma sorted_qsort:
  fixes key :: "'a \<Rightarrow> 'k::linorder"
  assumes "\<And>x y. cmp x y \<le> 0 \<longleftrightarrow> key x \<le> key y"
  shows "sorted_wrt (\<lambda>x y. key x \<le> key y) (qsort cmp xs)"
  by (induction xs) (auto simp: qsort_def intro!: sorted_qsort_insert [OF assms])

lemma map_qsort_insert:
  "(\<And>x y. cmp' (f x) (f y) = cmp x y) \<Longrightarrow> qsort_insert cmp' (f x) (map f ys) = map f (qsort_insert cmp x ys)"
  by (induction ys) auto

section \<open>Splitting\<close>

fun join :: "char \<Rightarrow> string list \<Rightarrow> string" where
  "join d [] = []"
| "join d [w] = w"
| "join d (w # v # ws) = w @ d # join d (v # ws)"

fun starts :: "nat \<Rightarrow> string list \<Rightarrow> nat list" where
  "starts k [] = []"
| "starts k (w # ws) = k # starts (k + length w + 1) ws"

lemma length_starts [simp]: "length (starts k ws) = length ws"
  by (induction ws arbitrary: k) auto

definition plain :: "char \<Rightarrow> string \<Rightarrow> bool" where
  "plain d w \<longleftrightarrow> d \<notin> set w \<and> NUL \<notin> set w"

lemma plain_simps [simp]:
  "plain d []" "plain d (c # cs) \<longleftrightarrow> c \<noteq> d \<and> c \<noteq> NUL \<and> plain d cs"
  by (auto simp: plain_def)

lemma strsplit_char:
  assumes "c \<noteq> d" "c \<noteq> NUL" "length toks < mt"
  shows "strsplit_loop (Suc left) (length pre) (pre @ c # cs) toks mt d b =
    strsplit_loop left (length (pre @ [c])) ((pre @ [c]) @ cs) (if b then toks @ [length pre] else toks) mt d False"
  using assms by (simp add: nth_append)

lemma strsplit_delim:
  assumes "NUL \<noteq> d" "length toks < mt"
  shows "strsplit_loop (Suc left) (length pre) (pre @ d # cs) toks mt d b =
    strsplit_loop left (length (pre @ [NUL])) ((pre @ [NUL]) @ cs) (if b then toks @ [length pre] else toks) mt d True"
  using assms by (auto simp: nth_append)

text \<open>Inside a token nothing changes.\<close>

lemma strsplit_rest:
  assumes "plain d w"
  shows "strsplit_loop left (length pre) (pre @ w) toks mt d False = (pre @ w, toks)"
  using assms
proof (induction w arbitrary: left pre)
  case Nil
  then show ?case by (cases left) simp_all
next
  case (Cons c cs)
  have ih: "\<And>l. strsplit_loop l (length (pre @ [c])) ((pre @ [c]) @ cs) toks mt d False = ((pre @ [c]) @ cs, toks)"
    by (intro Cons.IH) (use Cons.prems in simp)
  show ?case
  proof (cases left)
    case (Suc l)
    then show ?thesis
    proof (cases "length toks < mt")
      case True
      then show ?thesis unfolding Suc using ih Cons.prems by (subst strsplit_char) simp_all
    qed simp
  qed simp
qed

lemma strsplit_word:
  assumes "plain d w" "length toks < mt"
  shows "strsplit_loop (length w + left) (length pre) (pre @ w @ rest) toks mt d False =
    strsplit_loop left (length (pre @ w)) ((pre @ w) @ rest) toks mt d False"
  using assms(1)
proof (induction w arbitrary: pre)
  case (Cons c cs)
  then have "strsplit_loop (length cs + left) (length (pre @ [c])) ((pre @ [c]) @ cs @ rest) toks mt d False =
    strsplit_loop left (length ((pre @ [c]) @ cs)) (((pre @ [c]) @ cs) @ rest) toks mt d False"
    by (intro Cons.IH) simp
  then show ?case using strsplit_char [of c d toks mt "length cs + left" pre "cs @ rest" False] Cons.prems assms(2)
    by (simp del: strsplit_loop.simps)
qed simp

lemma strsplit_first:
  assumes "plain d w" "NUL \<noteq> d" "Suc (length toks) < mt"
  shows "strsplit_loop (Suc (length w + left)) (length pre) (pre @ w @ d # rest) toks mt d True =
    strsplit_loop left (length (pre @ w @ [NUL])) ((pre @ w @ [NUL]) @ rest) (toks @ [length pre]) mt d True"
proof (cases w)
  case Nil
  then show ?thesis using strsplit_delim [of d toks mt left pre rest True] assms by (simp del: strsplit_loop.simps)
next
  case (Cons c cs)
  have "strsplit_loop (Suc (length w + left)) (length pre) (pre @ w @ d # rest) toks mt d True =
    strsplit_loop (length cs + Suc left) (length (pre @ [c])) ((pre @ [c]) @ cs @ d # rest) (toks @ [length pre]) mt d False"
    using strsplit_char [of c d toks mt "length w + left" pre "cs @ d # rest" True] assms Cons
    by (simp del: strsplit_loop.simps)
  also have "\<dots> =
    strsplit_loop (Suc left) (length ((pre @ [c]) @ cs)) (((pre @ [c]) @ cs) @ d # rest) (toks @ [length pre]) mt d False"
    using assms Cons by (intro strsplit_word) simp_all
  also have "\<dots> = strsplit_loop left (length (pre @ w @ [NUL])) ((pre @ w @ [NUL]) @ rest) (toks @ [length pre]) mt d True"
    using strsplit_delim [of d "toks @ [length pre]" mt left "(pre @ [c]) @ cs" rest False] assms Cons
    by (simp del: strsplit_loop.simps)
  finally show ?thesis .
qed

lemma strsplit_last:
  assumes "plain d w" "w \<noteq> []" "length toks < mt"
  shows "strsplit_loop (Suc left) (length pre) (pre @ w) toks mt d True = (pre @ w, toks @ [length pre])"
proof (cases w)
  case (Cons c cs)
  have "strsplit_loop left (length (pre @ [c])) ((pre @ [c]) @ cs) (toks @ [length pre]) mt d False =
    ((pre @ [c]) @ cs, toks @ [length pre])"
    using assms Cons by (intro strsplit_rest) simp
  then show ?thesis using strsplit_char [of c d toks mt left pre cs True] Cons assms by (simp del: strsplit_loop.simps)
qed (use assms in simp)

lemma strsplit_join:
  assumes "\<forall>w \<in> set ws. plain d w" "ws \<noteq> []" "last ws \<noteq> []" "length toks + length ws \<le> mt" "NUL \<noteq> d"
    "length (join d ws) \<le> left"
  shows "strsplit_loop left (length pre) (pre @ join d ws) toks mt d True = (pre @ join NUL ws, toks @ starts (length pre) ws)"
  using assms
proof (induction d ws arbitrary: left pre toks rule: join.induct)
  case (2 d w)
  then obtain l where "left = Suc l" by (cases left) auto
  then show ?case using 2 strsplit_last by simp
next
  case (3 d w v ws)
  have "length w + 1 \<le> left" using 3(7) by simp
  then obtain l where l: "left = Suc (length w + l)" by (metis Suc_eq_plus1 add_Suc le_Suc_ex)
  have "strsplit_loop left (length pre) (pre @ join d (w # v # ws)) toks mt d True =
    strsplit_loop l (length (pre @ w @ [NUL])) ((pre @ w @ [NUL]) @ join d (v # ws)) (toks @ [length pre]) mt d True"
    unfolding l join.simps using 3(2,5,6) by (intro strsplit_first) simp_all
  also have "\<dots> = ((pre @ w @ [NUL]) @ join NUL (v # ws), (toks @ [length pre]) @ starts (length (pre @ w @ [NUL])) (v # ws))"
    using 3 l by (intro 3(1)) simp_all
  finally show ?case by simp
qed simp

lemma tokens_join:
  assumes "\<forall>w \<in> set ws. NUL \<notin> set w"
  shows "map (token_at (pre @ join NUL ws)) (starts (length pre) ws) = ws"
  using assms
proof (induction "NUL" ws arbitrary: pre rule: join.induct)
  case 2
  then show ?case by (simp add: token_at_def takeWhile_eq_all_conv) metis
next
  case (3 w v ws)
  have "map (token_at ((pre @ w @ [NUL]) @ join NUL (v # ws))) (starts (length (pre @ w @ [NUL])) (v # ws)) = v # ws"
    using 3 by (intro 3(1)) simp
  moreover have "token_at (pre @ w @ NUL # join NUL (v # ws)) (length pre) = w"
    using 3(2) by (simp add: token_at_def takeWhile_append takeWhile_eq_all_conv)
  ultimately show ?case by simp
qed simp

lemma strsplit_words:
  assumes "\<forall>w \<in> set ws. plain d w" "ws \<noteq> []" "last ws \<noteq> []" "length ws \<le> maxtokens" "NUL \<noteq> d"
    "int (length (join d ws)) \<le> stringlen"
  shows "split_tokens (join d ws) stringlen maxtokens d = ws \<and>
    snd (snd (rte_strsplit (Some (join d ws)) stringlen maxtokens d)) = int (length ws)"
proof -
  have e: "strsplit_loop (nat stringlen) 0 (join d ws) [] maxtokens d True = (join NUL ws, starts 0 ws)"
    using strsplit_join [OF assms(1-3) _ assms(5), of "[]" maxtokens "nat stringlen" "[]"] assms(4,6) by simp
  have "\<forall>w \<in> set ws. NUL \<notin> set w" using assms(1) by (simp add: plain_def)
  from tokens_join [OF this, of "[]"] show ?thesis by (simp add: split_tokens_def rte_strsplit_def e)
qed

text \<open>
  C31. \<^verbatim>\<open>rte_strsplit\<close> undoes joining: it splits words joined by the delimiter into these words, whatever
  the words are (without the delimiter, the last not empty), if there are entries for all of them.
\<close>

theorem strsplit_spec:
  assumes "\<forall>w \<in> set ws. plain d w" "ws \<noteq> []" "last ws \<noteq> []" "length ws \<le> maxtokens" "NUL \<noteq> d"
    "int (length (join d ws)) \<le> stringlen"
  shows "split_tokens (join d ws) stringlen maxtokens d = ws \<and>
    snd (snd (rte_strsplit (Some (join d ws)) stringlen maxtokens d)) = int (length ws)"
  using assms by (rule strsplit_words)

theorem strsplit_spec_witness:
  "split_tokens ''1024,,2048'' 10 8 CHR '','' = [''1024'', '''', ''2048''] \<and>
   snd (snd (rte_strsplit (Some ''1024,,2048'') 10 8 CHR '','')) = 3"
proof -
  let ?ws = "[''1024'', '''', ''2048'']"
  have "join CHR '','' ?ws = ''1024,,2048''" by simp
  moreover have "\<forall>w \<in> set ?ws. plain CHR '','' w" by (simp add: plain_def)
  ultimately show ?thesis using strsplit_spec [of ?ws "CHR '',''" 8 10] by simp
qed

section \<open>Sizes\<close>

lemma digit_cases: "k < 10 \<longleftrightarrow> k \<in> {0, 1, 2, 3, 4, 5, 6, 7, 8, 9 :: nat}"
  by auto

lemma digit_char:
  assumes "k < 10"
  shows "digit_val (digit_char k) = k" "\<not> isspace (digit_char k)" "digit_char k \<noteq> CHR ''-''" "digit_char k \<noteq> CHR ''+''"
    "0 < k \<Longrightarrow> digit_char k \<noteq> CHR ''0''"
  using assms unfolding digit_cases by (auto simp: digit_char_def digit_val_def isspace_def)

lemma digits_val_snoc: "digits_val b (ds @ [c]) = digits_val b ds * b + digit_val c"
  by (simp add: digits_val_def)

lemma decimal_val: "digits_val 10 (decimal n) = n"
proof (induction n rule: decimal.induct)
  case (1 n)
  show ?case
  proof (cases "n < 10")
    case True
    then show ?thesis by (simp add: decimal.simps [of n] digits_val_def digit_char(1))
  next
    case False
    then show ?thesis using 1 by (simp add: decimal.simps [of n] digits_val_snoc digit_char(1))
  qed
qed

lemma decimal_digits: "\<forall>c \<in> set (decimal n). digit_val c < 10"
proof (induction n rule: decimal.induct)
  case (1 n)
  then show ?case by (cases "n < 10") (auto simp: decimal.simps [of n] digit_char(1))
qed

lemma decimal_hd: "0 < n \<Longrightarrow> \<exists>k cs. decimal n = digit_char k # cs \<and> 0 < k \<and> k < 10"
proof (induction n rule: decimal.induct)
  case (1 n)
  show ?case
  proof (cases "n < 10")
    case False
    then obtain k cs where "decimal (n div 10) = digit_char k # cs" "0 < k" "k < 10" using 1 by force
    moreover have "decimal n = decimal (n div 10) @ [digit_char (n mod 10)]" using False by (simp add: decimal.simps [of n])
    ultimately show ?thesis by auto
  qed (use 1 in \<open>auto simp: decimal.simps [of n]\<close>)
qed

text \<open>Reading a decimal number gives it back, up to the first character that is no digit.\<close>

lemma strtoull_decimal:
  assumes "0 < n" "n < 2 ^ 64" "rest = [] \<or> 10 \<le> digit_val (hd rest)" "base \<in> {0, 10}"
  shows "strtoull (decimal n @ rest) base = (of_nat n, rest, False)"
proof -
  obtain k cs where d: "decimal n = digit_char k # cs" "0 < k" "k < 10" using decimal_hd [OF assms(1)] by blast
  note c = digit_char [OF d(3)]
  have "takeWhile (\<lambda>c. digit_val c < 10) rest = []" using assms(3) by (cases rest) auto
  then have tw: "takeWhile (\<lambda>c. digit_val c < 10) (decimal n @ rest) = decimal n"
    using decimal_digits [of n] by (simp add: takeWhile_append2)
  have "dropWhile isspace (decimal n @ rest) = decimal n @ rest"
    "take 1 (decimal n @ rest) \<noteq> ''-''" "take 1 (decimal n @ rest) \<noteq> ''+''"
    "strto_prefix base (decimal n @ rest) = (10, decimal n @ rest)"
    using c d(2) assms(4) by (auto simp: d(1) strto_prefix_def numeral_2_eq_2)
  moreover have "decimal n \<noteq> []" by (simp add: d)
  ultimately show ?thesis using assms(2) by (simp add: strtoull_def tw decimal_val del: One_nat_def)
qed

definition size_unit :: "char \<Rightarrow> nat" where
  "size_unit c = (if c \<in> {CHR ''G'', CHR ''g''} then 1024 ^ 3 else if c \<in> {CHR ''M'', CHR ''m''} then 1024 ^ 2
     else if c \<in> {CHR ''K'', CHR ''k''} then 1024 else 1)"

lemma str_to_size_decimal:
  assumes "0 < n" "n * size_unit c < 2 ^ 64" "gap \<in> {'''', '' ''}" "10 \<le> digit_val c" "c \<noteq> CHR '' ''"
  shows "unat (rte_str_to_size (decimal n @ gap @ c # rest)) = n * size_unit c"
proof -
  obtain k cs where d: "decimal n = digit_char k # cs" "0 < k" "k < 10" using decimal_hd [OF assms(1)] by blast
  note ch = digit_char [OF d(3)]
  have "1 \<le> size_unit c" by (simp add: size_unit_def)
  then have "n * 1 \<le> n * size_unit c" by (rule mult_le_mono2)
  then have n: "n < 2 ^ 64" using assms(2) by linarith
  have "gap @ c # rest = [] \<or> 10 \<le> digit_val (hd (gap @ c # rest))"
    using assms(3,4) by (auto simp: digit_val_def)
  note st = strtoull_decimal [OF assms(1) n this, of 0, simplified]
  have rd: "dropWhile isspace (decimal n @ gap @ c # rest) = decimal n @ gap @ c # rest"
    "take 1 (decimal n @ gap @ c # rest) \<noteq> ''-''" using ch by (simp_all add: d)
  have gap: "(if take 1 (gap @ c # rest) = '' '' then drop 1 (gap @ c # rest) else gap @ c # rest) = c # rest"
    using assms(3,5) by auto
  have "rte_str_to_size (decimal n @ gap @ c # rest) = of_nat n * of_nat (size_unit c)"
    unfolding rte_str_to_size_def Let_def rd(1) st using rd(2)
    by (simp only: prod.case gap if_False list.case) (simp add: size_unit_def)
  then have "rte_str_to_size (decimal n @ gap @ c # rest) = of_nat (n * size_unit c)" by simp
  then show ?thesis using assms(2) by (simp only: unat_of_nat) (simp del: of_nat_mult)
qed

text \<open>
  C32. \<^verbatim>\<open>rte_str_to_size\<close> reads back a printed number with a unit, with or without a space between them; what
  follows the unit (as the \<^verbatim>\<open>B\<close> of \<^verbatim>\<open>2048kB\<close>) does not matter.
\<close>

theorem str_to_size_spec:
  assumes "0 < n" "n * size_unit c < 2 ^ 64" "gap \<in> {'''', '' ''}" "10 \<le> digit_val c" "c \<noteq> CHR '' ''"
  shows "unat (rte_str_to_size (decimal n @ gap @ c # rest)) = n * size_unit c"
  using assms by (rule str_to_size_decimal)

theorem str_to_size_spec_witness: "unat (rte_str_to_size ''2048kB'') = 2097152"
proof -
  have "decimal 2048 = ''2048''" by (simp add: decimal.simps digit_char_def)
  then show ?thesis using str_to_size_spec [of 2048 "CHR ''k''" "''''" "''B''"] by (simp add: size_unit_def digit_val_def)
qed

end
