(* ===== verification/System.thy ===== *)
theory System
  imports Cstring Common
begin

text \<open>
  The operating system as the sources call it. Its state is the type variable \<open>'os\<close>; a call is a function
  from the state to the result and the new state, a query of a file is a function of the state.
\<close>

datatype oflag = O_RDONLY | O_RDWR | O_RDWR_CREAT

datatype lock_op = LOCK_SH_NB | LOCK_EX | LOCK_EX_NB | LOCK_UN

datatype mmap_prot = PROT_READ | PROT_READ_WRITE

datatype mmap_flags = MAP_PRIVATE | MAP_PRIVATE_ANONYMOUS | MAP_SHARED | MAP_SHARED_POPULATE

text \<open>
  \<open>sys_lines\<close>: the lines of a text file as \<^verbatim>\<open>fgets\<close> returns them, \<open>None\<close> if it cannot be opened. \<open>sys_dir\<close>: the entries
  of a directory. \<open>sys_malloc\<close> tells whether \<^verbatim>\<open>malloc\<close> succeeds. \<open>sys_mmap\<close> gets the address hint, length, protection, flags and descriptor and yields \<open>None\<close> for
  \<^verbatim>\<open>MAP_FAILED\<close>. \<open>sys_touch\<close> writes to an address and tells whether the write raises \<^verbatim>\<open>SIGBUS\<close>.
\<close>

record 'os sys =
  sys_page_size :: u64
  sys_access :: "'os \<Rightarrow> string \<Rightarrow> bool"
  sys_lines :: "'os \<Rightarrow> string \<Rightarrow> string list option"
  sys_dir :: "'os \<Rightarrow> string \<Rightarrow> string list option"
  sys_uid :: nat
  sys_home :: "string option"
  sys_malloc :: "u64 \<Rightarrow> 'os \<Rightarrow> bool"
  sys_open :: "string \<Rightarrow> oflag \<Rightarrow> 'os \<Rightarrow> int \<times> 'os"
  sys_close :: "int \<Rightarrow> 'os \<Rightarrow> 'os"
  sys_lseek :: "int \<Rightarrow> u64 \<Rightarrow> 'os \<Rightarrow> int \<times> 'os"
  sys_read :: "int \<Rightarrow> nat \<Rightarrow> 'os \<Rightarrow> (int \<times> u8 list) \<times> 'os"
  sys_file_size :: "int \<Rightarrow> 'os \<Rightarrow> u64 option"
  sys_ftruncate :: "int \<Rightarrow> u64 \<Rightarrow> 'os \<Rightarrow> int \<times> 'os"
  sys_flock :: "int \<Rightarrow> lock_op \<Rightarrow> 'os \<Rightarrow> int \<times> 'os"
  sys_setlk :: "int \<Rightarrow> 'os \<Rightarrow> int \<times> 'os"
  sys_unlink :: "string \<Rightarrow> 'os \<Rightarrow> int \<times> 'os"
  sys_mmap :: "u64 \<Rightarrow> u64 \<Rightarrow> mmap_prot \<Rightarrow> mmap_flags \<Rightarrow> int \<Rightarrow> 'os \<Rightarrow> u64 option \<times> 'os"
  sys_munmap :: "u64 \<Rightarrow> u64 \<Rightarrow> 'os \<Rightarrow> 'os"
  sys_touch :: "u64 \<Rightarrow> 'os \<Rightarrow> bool \<times> 'os"
  sys_sigaction :: "'os \<Rightarrow> int \<times> 'os"
  sys_numa_available :: "'os \<Rightarrow> bool"
  sys_get_mempolicy :: "'os \<Rightarrow> int option"
  sys_numa_set_preferred :: "nat \<Rightarrow> 'os \<Rightarrow> 'os"
  sys_set_mempolicy :: "int \<Rightarrow> 'os \<Rightarrow> int \<times> 'os"
  sys_numa_set_localalloc :: "'os \<Rightarrow> 'os"

text \<open>Eight bytes read into a little-endian word.\<close>

definition le_u64 :: "u8 list \<Rightarrow> u64" where
  "le_u64 bs = foldr (\<lambda>b x. ucast b + push_bit 8 x) bs 0"

definition PATH_MAX :: nat where "PATH_MAX = 4096"

text \<open>A system whose calls all fail.\<close>

definition failing_sys :: "'os sys" where
  "failing_sys = \<lparr>sys_page_size = 4096, sys_access = (\<lambda>_ _. False), sys_lines = (\<lambda>_ _. None), sys_dir = (\<lambda>_ _. None),
     sys_uid = 0, sys_home = None, sys_malloc = (\<lambda>_ _. False), sys_open = (\<lambda>_ _ os. (-1, os)), sys_close = (\<lambda>_ os. os),
     sys_lseek = (\<lambda>_ _ os. (-1, os)), sys_read = (\<lambda>_ _ os. ((-1, []), os)), sys_file_size = (\<lambda>_ _. None), sys_ftruncate = (\<lambda>_ _ os. (-1, os)),
     sys_flock = (\<lambda>_ _ os. (-1, os)), sys_setlk = (\<lambda>_ os. (-1, os)), sys_unlink = (\<lambda>_ os. (-1, os)),
     sys_mmap = (\<lambda>_ _ _ _ _ os. (None, os)), sys_munmap = (\<lambda>_ _ os. os), sys_touch = (\<lambda>_ os. (False, os)),
     sys_sigaction = (\<lambda>os. (-1, os)), sys_numa_available = (\<lambda>_. False), sys_get_mempolicy = (\<lambda>_. None),
     sys_numa_set_preferred = (\<lambda>_ os. os), sys_set_mempolicy = (\<lambda>_ os. (-1, os)), sys_numa_set_localalloc = (\<lambda>os. os)\<rparr>"

section \<open>A file that holds one number\<close>

definition eal_parse_sysfs_value :: "'os sys \<Rightarrow> string \<Rightarrow> 'os \<Rightarrow> u64 option" where
  "eal_parse_sysfs_value sys filename os =
     (case sys_lines sys os filename of
        Some (buf # _) \<Rightarrow>
          (let (val, end', _) = strtoull buf 0
           in if buf = [] \<or> take 1 end' \<noteq> [CHR 0x0A] then None else Some val)
      | _ \<Rightarrow> None)"

end
