(* ===== verification/Lcore.thy ===== *)
theory Lcore
  imports System
begin

text \<open>
  Logical cores: \<^verbatim>\<open>rte_lcore.h\<close>, \<^verbatim>\<open>eal_common_lcore.c\<close>, \<^verbatim>\<open>eal_common_thread.c\<close>, \<^verbatim>\<open>linuxapp/eal/eal_lcore.c\<close> and the
  set-up of the master thread in \<^verbatim>\<open>eal_thread.c\<close>.
\<close>

section \<open>Data\<close>

datatype rte_lcore_role_t = ROLE_RTE | ROLE_OFF | ROLE_SERVICE

text \<open>A CPU set is the set of its members.\<close>

record lcore_config =
  lc_detected :: bool
  lc_socket_id :: u32
  lc_core_id :: u32
  lc_core_index :: int
  lc_cpuset :: "nat set"
  lc_core_role :: rte_lcore_role_t

text \<open>
  The table \<^verbatim>\<open>lcore_config\<close>, the fields of \<^verbatim>\<open>struct rte_config\<close> on cores, and the variables of the running thread.
\<close>

record lcores =
  ls_config :: "lcore_config list"
  ls_master_lcore :: u32
  ls_lcore_count :: u32
  ls_lcore_role :: "rte_lcore_role_t list"
  ls_lcore_id :: u32
  ls_socket_id :: u32
  ls_cpuset :: "nat set"

definition LCORE_ID_ANY :: u32 where "LCORE_ID_ANY = - 1"

section \<open>Queries\<close>

definition rte_lcore_id :: "lcores \<Rightarrow> u32" where "rte_lcore_id s = ls_lcore_id s"
definition rte_get_master_lcore :: "lcores \<Rightarrow> u32" where "rte_get_master_lcore s = ls_master_lcore s"
definition rte_lcore_count :: "lcores \<Rightarrow> u32" where "rte_lcore_count s = ls_lcore_count s"
definition rte_socket_id :: "lcores \<Rightarrow> u32" where "rte_socket_id s = ls_socket_id s"

text \<open>\<open>None\<close>: an access outside the table.\<close>

definition rte_lcore_index :: "int \<Rightarrow> lcores \<Rightarrow> int option" where
  "rte_lcore_index lcore_id s =
     (if lcore_id \<ge> uint RTE_MAX_LCORE then Some (-1)
      else let lcore_id = (if lcore_id < 0 then sint (rte_lcore_id s) else lcore_id)
           in if lcore_id < 0 \<or> int (length (ls_config s)) \<le> lcore_id then None
              else Some (lc_core_index (ls_config s ! nat lcore_id)))"

definition rte_lcore_to_socket_id :: "u32 \<Rightarrow> lcores \<Rightarrow> u32 option" where
  "rte_lcore_to_socket_id lcore_id s = map_option lc_socket_id (arr_get (ls_config s) lcore_id)"

definition rte_lcore_is_enabled :: "u32 \<Rightarrow> lcores \<Rightarrow> bool" where
  "rte_lcore_is_enabled lcore_id s =
     (if lcore_id \<ge> RTE_MAX_LCORE then False else ls_lcore_role s ! unat lcore_id = ROLE_RTE)"

definition rte_lcore_has_role :: "u32 \<Rightarrow> rte_lcore_role_t \<Rightarrow> lcores \<Rightarrow> int" where
  "rte_lcore_has_role lcore_id role s =
     (if lcore_id \<ge> RTE_MAX_LCORE then - EINVAL
      else if ls_lcore_role s ! unat lcore_id = role then 0 else - EINVAL)"

definition rte_eal_lcore_role :: "u32 \<Rightarrow> lcores \<Rightarrow> rte_lcore_role_t option" where
  "rte_eal_lcore_role lcore_id s = arr_get (ls_lcore_role s) lcore_id"

section \<open>Iteration\<close>

definition lcore_wrap :: "bool \<Rightarrow> u32 \<Rightarrow> u32" where
  "lcore_wrap wrap i = (if wrap then i mod RTE_MAX_LCORE else i)"

partial_function (option) next_lcore_loop :: "bool \<Rightarrow> bool \<Rightarrow> lcores \<Rightarrow> u32 \<Rightarrow> u32 option" where
  "next_lcore_loop skip_master wrap s i =
     (if i < RTE_MAX_LCORE then
        if \<not> rte_lcore_is_enabled i s \<or> skip_master \<and> i = rte_get_master_lcore s
        then next_lcore_loop skip_master wrap s (lcore_wrap wrap (i + 1))
        else Some i
      else Some i)"

declare next_lcore_loop.simps [code]

definition rte_get_next_lcore :: "u32 \<Rightarrow> bool \<Rightarrow> bool \<Rightarrow> lcores \<Rightarrow> u32 option" where
  "rte_get_next_lcore i skip_master wrap s = next_lcore_loop skip_master wrap s (lcore_wrap wrap (i + 1))"

text \<open>The cores that \<^verbatim>\<open>RTE_LCORE_FOREACH\<close> and \<^verbatim>\<open>RTE_LCORE_FOREACH_SLAVE\<close> visit.\<close>

partial_function (option) foreach_loop :: "bool \<Rightarrow> lcores \<Rightarrow> u32 \<Rightarrow> u32 list option" where
  "foreach_loop skip_master s i =
     (if i < RTE_MAX_LCORE then do {
        j \<leftarrow> rte_get_next_lcore i skip_master False s;
        is \<leftarrow> foreach_loop skip_master s j;
        Some (i # is)
      } else Some [])"

declare foreach_loop.simps [code]

definition RTE_LCORE_FOREACH :: "lcores \<Rightarrow> u32 list option" where
  "RTE_LCORE_FOREACH s = do { i \<leftarrow> rte_get_next_lcore (- 1) False False s; foreach_loop False s i }"

definition RTE_LCORE_FOREACH_SLAVE :: "lcores \<Rightarrow> u32 list option" where
  "RTE_LCORE_FOREACH_SLAVE s = do { i \<leftarrow> rte_get_next_lcore (- 1) True False s; foreach_loop True s i }"

section \<open>Detection of the cores\<close>

definition SYS_CPU_DIR :: "u32 \<Rightarrow> string" where
  "SYS_CPU_DIR lcore_id = ''/sys/devices/system/cpu/cpu'' @ decimal (unat lcore_id)"

definition CORE_ID_FILE :: string where "CORE_ID_FILE = ''topology/core_id''"
definition NUMA_NODE_PATH :: string where "NUMA_NODE_PATH = ''/sys/devices/system/node''"

definition eal_cpu_detected :: "'os sys \<Rightarrow> 'os \<Rightarrow> u32 \<Rightarrow> bool" where
  "eal_cpu_detected sys os lcore_id =
     (let (path, len) = snprintf_str PATH_MAX (SYS_CPU_DIR lcore_id @ ''/'' @ CORE_ID_FILE)
      in if len \<le> 0 \<or> int PATH_MAX \<le> len then False else sys_access sys os path)"

definition eal_cpu_socket_id :: "'os sys \<Rightarrow> 'os \<Rightarrow> u32 \<Rightarrow> u32" where
  "eal_cpu_socket_id sys os lcore_id =
     (case first_index (\<lambda>socket. sys_access sys os (fst (snprintf_str PATH_MAX
        (NUMA_NODE_PATH @ ''/node'' @ decimal socket @ ''/cpu'' @ decimal (unat lcore_id))))) [0..<RTE_MAX_NUMA_NODES]
      of Some socket \<Rightarrow> of_nat socket | None \<Rightarrow> 0)"

definition eal_cpu_core_id :: "'os sys \<Rightarrow> 'os \<Rightarrow> u32 \<Rightarrow> u32" where
  "eal_cpu_core_id sys os lcore_id =
     (let (path, len) = snprintf_str PATH_MAX (SYS_CPU_DIR lcore_id @ ''/'' @ CORE_ID_FILE)
      in if len \<le> 0 \<or> int PATH_MAX \<le> len then 0
         else case eal_parse_sysfs_value sys path os of None \<Rightarrow> 0 | Some core \<Rightarrow> ucast core)"

text \<open>
  The loop over the cores \<open>i, i + 1, \<dots>\<close>; \<open>left\<close> of them are left. The result is the state, the number of detected
  cores and whether the loop was left early.
\<close>

fun cpu_init_loop :: "'os sys \<Rightarrow> 'os \<Rightarrow> nat \<Rightarrow> nat \<Rightarrow> u32 \<Rightarrow> lcores \<Rightarrow> lcores \<times> u32 \<times> bool" where
  "cpu_init_loop sys os 0 i count s = (s, count, True)"
| "cpu_init_loop sys os (Suc left) i count s =
     (let lcore_id = of_nat i;
          c = (ls_config s ! i)\<lparr>lc_core_index := uint count, lc_cpuset := {}, lc_detected := eal_cpu_detected sys os lcore_id\<rparr>
      in if \<not> lc_detected c
         then cpu_init_loop sys os left (Suc i) count
           (s\<lparr>ls_config := (ls_config s)[i := c\<lparr>lc_core_index := -1\<rparr>], ls_lcore_role := (ls_lcore_role s)[i := ROLE_OFF]\<rparr>)
         else let c = c\<lparr>lc_cpuset := insert i (lc_cpuset c), lc_core_role := ROLE_RTE,
                        lc_core_id := eal_cpu_core_id sys os lcore_id, lc_socket_id := eal_cpu_socket_id sys os lcore_id\<rparr>;
                  s = s\<lparr>ls_config := (ls_config s)[i := c], ls_lcore_role := (ls_lcore_role s)[i := ROLE_RTE]\<rparr>
              in if RTE_MAX_NUMA_NODES \<le> unat (lc_socket_id c) then (s, count, False)
                 else cpu_init_loop sys os left (Suc i) (count + 1) s)"

definition rte_eal_cpu_init :: "'os sys \<Rightarrow> 'os \<Rightarrow> lcores \<Rightarrow> lcores \<times> int" where
  "rte_eal_cpu_init sys os s =
     (let (s, count, ok) = cpu_init_loop sys os (unat RTE_MAX_LCORE) 0 0 s
      in if ok then (s\<lparr>ls_lcore_count := count\<rparr>, 0) else (s, -1))"

section \<open>Affinity\<close>

text \<open>The loop over the CPUs; \<open>-1\<close> is \<^verbatim>\<open>SOCKET_ID_ANY\<close>.\<close>

fun cpuset_socket_loop :: "'os sys \<Rightarrow> 'os \<Rightarrow> nat set \<Rightarrow> nat list \<Rightarrow> int \<Rightarrow> int" where
  "cpuset_socket_loop sys os cs [] socket_id = socket_id"
| "cpuset_socket_loop sys os cs (cpu # cpus) socket_id =
     (if cpu \<notin> cs then cpuset_socket_loop sys os cs cpus socket_id
      else let socket_id = (if socket_id = SOCKET_ID_ANY then sint (eal_cpu_socket_id sys os (of_nat cpu)) else socket_id);
               sid = sint (eal_cpu_socket_id sys os (of_nat cpu))
           in if socket_id \<noteq> sid then SOCKET_ID_ANY else cpuset_socket_loop sys os cs cpus socket_id)"

definition eal_cpuset_socket_id :: "'os sys \<Rightarrow> 'os \<Rightarrow> nat set option \<Rightarrow> int" where
  "eal_cpuset_socket_id sys os cs =
     (case cs of None \<Rightarrow> SOCKET_ID_ANY
      | Some cs \<Rightarrow> cpuset_socket_loop sys os cs [0..<unat RTE_MAX_LCORE] SOCKET_ID_ANY)"

text \<open>\<open>setaff\<close>: the result of \<^verbatim>\<open>pthread_setaffinity_np\<close>.\<close>

definition rte_thread_set_affinity :: "'os sys \<Rightarrow> 'os \<Rightarrow> int \<Rightarrow> nat set \<Rightarrow> lcores \<Rightarrow> (lcores \<times> int) option" where
  "rte_thread_set_affinity sys os setaff cs s =
     (if setaff \<noteq> 0 then Some (s, -1)
      else let s = s\<lparr>ls_socket_id := of_int (eal_cpuset_socket_id sys os (Some cs)), ls_cpuset := cs\<rparr>;
               lcore_id = rte_lcore_id s
           in if lcore_id = LCORE_ID_ANY then Some (s, 0)
              else do {
                c \<leftarrow> arr_get (ls_config s) lcore_id;
                cfg \<leftarrow> arr_set (ls_config s) lcore_id (c\<lparr>lc_socket_id := ls_socket_id s, lc_cpuset := cs\<rparr>);
                Some (s\<lparr>ls_config := cfg\<rparr>, 0)
              })"

definition rte_thread_get_affinity :: "lcores \<Rightarrow> nat set" where
  "rte_thread_get_affinity s = ls_cpuset s"

definition eal_thread_set_affinity :: "'os sys \<Rightarrow> 'os \<Rightarrow> int \<Rightarrow> lcores \<Rightarrow> (lcores \<times> int) option" where
  "eal_thread_set_affinity sys os setaff s = do {
     c \<leftarrow> arr_get (ls_config s) (rte_lcore_id s);
     rte_thread_set_affinity sys os setaff (lc_cpuset c) s
   }"

definition eal_thread_init_master :: "'os sys \<Rightarrow> 'os \<Rightarrow> int \<Rightarrow> u32 \<Rightarrow> lcores \<Rightarrow> lcores res" where
  "eal_thread_init_master sys os setaff lcore_id s =
     res_bind (lift_opt (eal_thread_set_affinity sys os setaff (s\<lparr>ls_lcore_id := lcore_id\<rparr>)))
       (\<lambda>(s, r). if r < 0 then abort ''cannot set affinity'' else ret s)"

end
