(* ===== verification/Lcore_Correct.thy ===== *)
theory Lcore_Correct
  imports Lcore
begin

text \<open>Iteration over the cores, and what detection sets up.\<close>

section \<open>Iteration\<close>

definition eligible :: "bool \<Rightarrow> lcores \<Rightarrow> nat \<Rightarrow> bool" where
  "eligible skip_master s j \<longleftrightarrow> j < 128 \<and> ls_lcore_role s ! j = ROLE_RTE \<and> \<not> (skip_master \<and> unat (ls_master_lcore s) = j)"

lemma eligible_iff:
  assumes "j < 128"
  shows "\<not> (\<not> rte_lcore_is_enabled (of_nat j) s \<or> skip_master \<and> (of_nat j :: u32) = rte_get_master_lcore s) \<longleftrightarrow>
    eligible skip_master s j"
proof -
  have j: "unat (of_nat j :: u32) = j" using assms by (simp add: unat_of_nat)
  have "(of_nat j :: u32) = ls_master_lcore s \<longleftrightarrow> unat (ls_master_lcore s) = j"
    unfolding word_unat_eq_iff j by auto
  moreover have "(of_nat j :: u32) < 128" using assms j by (simp add: word_less_nat_alt)
  ultimately show ?thesis using j assms
    by (auto simp: eligible_def rte_lcore_is_enabled_def rte_get_master_lcore_def RTE_MAX_LCORE_def)
qed

lemma of_nat_lcore: "j < 128 \<Longrightarrow> (of_nat j :: u32) < RTE_MAX_LCORE"
  by (simp add: RTE_MAX_LCORE_def word_less_nat_alt unat_of_nat)

text \<open>The loop goes on to the first eligible core, or to the end.\<close>

lemma next_loop_skip:
  assumes "i < 128" "\<not> eligible sm s i"
  shows "next_lcore_loop sm wrap s (of_nat i) = next_lcore_loop sm wrap s (lcore_wrap wrap (of_nat (Suc i)))"
  using assms eligible_iff [OF assms(1), of s sm] of_nat_lcore [OF assms(1)]
  by (subst next_lcore_loop.simps) (auto simp: add.commute)

lemma next_loop_stop:
  assumes "eligible sm s i"
  shows "next_lcore_loop sm wrap s (of_nat i) = Some (of_nat i)"
proof -
  have i: "i < 128" using assms by (simp add: eligible_def)
  show ?thesis using assms eligible_iff [OF i, of s sm] of_nat_lcore [OF i] by (subst next_lcore_loop.simps) auto
qed

lemma next_loop_range:
  assumes "i \<le> j" "j \<le> 128" "\<And>k. i \<le> k \<Longrightarrow> k < j \<Longrightarrow> \<not> eligible sm s k" "wrap \<longrightarrow> j < 128"
  shows "next_lcore_loop sm wrap s (of_nat i) = next_lcore_loop sm wrap s (of_nat j)"
  using assms
proof (induction "j - i" arbitrary: i)
  case (Suc d)
  have w: "lcore_wrap wrap (of_nat (Suc i)) = of_nat (Suc i)"
    using Suc.hyps(2) Suc.prems(1,2,4) by (auto simp: lcore_wrap_def RTE_MAX_LCORE_def word_mod_less_divisor word_unat_eq_iff unat_mod unat_word_ariths unat_of_nat)
  have "next_lcore_loop sm wrap s (of_nat i) = next_lcore_loop sm wrap s (of_nat (Suc i))"
    using next_loop_skip [of i sm s wrap] w Suc.hyps(2) Suc.prems by simp
  also have "\<dots> = next_lcore_loop sm wrap s (of_nat j)" using Suc.hyps(2) Suc.prems by (intro Suc.hyps(1)) auto
  finally show ?case .
qed simp

lemma next_loop_end: "next_lcore_loop sm wrap s 128 = Some 128"
  by (subst next_lcore_loop.simps) (simp add: RTE_MAX_LCORE_def)

text \<open>The first eligible core from \<open>i\<close> on; 128 if there is none.\<close>

definition first_eligible :: "bool \<Rightarrow> lcores \<Rightarrow> nat \<Rightarrow> nat" where
  "first_eligible sm s i = (LEAST j. i \<le> j \<and> (eligible sm s j \<or> j = 128))"

lemma first_eligible:
  assumes "i \<le> 128"
  shows "i \<le> first_eligible sm s i" "first_eligible sm s i \<le> 128"
    "first_eligible sm s i < 128 \<Longrightarrow> eligible sm s (first_eligible sm s i)"
    "\<And>k. i \<le> k \<Longrightarrow> k < first_eligible sm s i \<Longrightarrow> \<not> eligible sm s k"
proof -
  let ?P = "\<lambda>j. i \<le> j \<and> (eligible sm s j \<or> j = 128)"
  have ex: "?P 128" using assms by simp
  then have p: "?P (first_eligible sm s i)" unfolding first_eligible_def by (rule LeastI)
  then show "i \<le> first_eligible sm s i" "first_eligible sm s i < 128 \<Longrightarrow> eligible sm s (first_eligible sm s i)" by auto
  show "first_eligible sm s i \<le> 128" unfolding first_eligible_def by (rule Least_le) (use assms in simp)
  show "\<not> eligible sm s k" if "i \<le> k" "k < first_eligible sm s i" for k
    using not_less_Least [of k ?P] that unfolding first_eligible_def by blast
qed

lemma next_loop_nowrap:
  assumes "i \<le> 128"
  shows "next_lcore_loop sm False s (of_nat i) = Some (of_nat (first_eligible sm s i))"
proof -
  note f = first_eligible [OF assms, where sm = sm and s = s]
  have "next_lcore_loop sm False s (of_nat i) = next_lcore_loop sm False s (of_nat (first_eligible sm s i))"
    by (rule next_loop_range) (use f in auto)
  also have "\<dots> = Some (of_nat (first_eligible sm s i))"
    using f(2,3) next_loop_stop next_loop_end [of sm False s] by (cases "first_eligible sm s i < 128") auto
  finally show ?thesis .
qed

lemma next_loop_wrap:
  assumes "i < 128" "eligible sm s e"
  shows "next_lcore_loop sm True s (of_nat i) =
    Some (of_nat (if first_eligible sm s i < 128 then first_eligible sm s i else first_eligible sm s 0))"
proof -
  note f = first_eligible [OF less_imp_le [OF assms(1)], where sm = sm and s = s]
  have hit: "next_lcore_loop sm True s (of_nat j) = Some (of_nat (first_eligible sm s j))"
    if j: "j \<le> 128" "first_eligible sm s j < 128" for j
  proof -
    note g = first_eligible [OF j(1), where sm = sm and s = s]
    have "next_lcore_loop sm True s (of_nat j) = next_lcore_loop sm True s (of_nat (first_eligible sm s j))"
      by (rule next_loop_range) (use g j in auto)
    then show ?thesis using next_loop_stop [OF g(3) [OF j(2)]] by simp
  qed
  show ?thesis
  proof (cases "first_eligible sm s i < 128")
    case False
    then have none: "\<not> eligible sm s k" if "i \<le> k" "k < 128" for k using f(2,4) that by auto
    have "next_lcore_loop sm True s (of_nat i) = next_lcore_loop sm True s (of_nat 127)"
      by (rule next_loop_range) (use assms(1) none in auto)
    also have "\<dots> = next_lcore_loop sm True s (of_nat 0)"
      using next_loop_skip [of 127 sm s True] none [of 127] assms(1)
      by (simp add: lcore_wrap_def RTE_MAX_LCORE_def)
    also have "\<dots> = Some (of_nat (first_eligible sm s 0))"
    proof (rule hit)
      have "e < 128" using assms(2) by (simp add: eligible_def)
      then show "first_eligible sm s 0 < 128" using first_eligible(4) [of 0 e, where sm = sm and s = s] assms(2) by (meson le_less_trans not_less zero_le)
    qed simp
    finally show ?thesis using False by simp
  qed (use hit assms(1) in auto)
qed

text \<open>Wrapping around without an eligible core never ends.\<close>

lemma next_loop_forever:
  assumes "\<And>j. \<not> eligible sm s j" "i < RTE_MAX_LCORE"
  shows "next_lcore_loop sm True s i = None"
proof (rule ccontr)
  assume "next_lcore_loop sm True s i \<noteq> None"
  then obtain y where "next_lcore_loop sm True s i = Some y" by blast
  then have "True \<longrightarrow> i < RTE_MAX_LCORE \<longrightarrow> (\<exists>j. eligible sm s j)"
  proof (rule next_lcore_loop.raw_induct [where P = "\<lambda>sm wrap s i y. wrap \<longrightarrow> i < RTE_MAX_LCORE \<longrightarrow> (\<exists>j. eligible sm s j)", rotated])
    fix loop sm wrap s i y
    assume 1: "\<And>sm wrap s i y. loop sm wrap s i = Some y \<Longrightarrow> wrap \<longrightarrow> i < RTE_MAX_LCORE \<longrightarrow> (\<exists>j. eligible sm s j)"
      "(if i < RTE_MAX_LCORE then if \<not> rte_lcore_is_enabled i s \<or> sm \<and> i = rte_get_master_lcore s
          then loop sm wrap s (lcore_wrap wrap (i + 1)) else Some i else Some i) = Some y"
    show "wrap \<longrightarrow> i < RTE_MAX_LCORE \<longrightarrow> (\<exists>j. eligible sm s j)"
    proof (intro impI)
      assume w: "wrap" "i < RTE_MAX_LCORE"
      have i: "unat i < 128" "(of_nat (unat i) :: u32) = i" using w by (simp_all add: RTE_MAX_LCORE_def word_less_nat_alt)
      have wl: "lcore_wrap wrap (i + 1) < RTE_MAX_LCORE"
        using w(1) by (simp add: lcore_wrap_def RTE_MAX_LCORE_def word_mod_less_divisor)
      show "\<exists>j. eligible sm s j"
      proof (cases "eligible sm s (unat i)")
        case False
        then have "loop sm wrap s (lcore_wrap wrap (i + 1)) = Some y"
          using 1(2) w(2) eligible_iff [OF i(1), of s sm] i(2) by (auto split: if_splits)
        then show ?thesis using 1(1) w(1) wl by blast
      qed blast
    qed
  qed
  then show False using assms by simp
qed

text \<open>
  C33. \<^verbatim>\<open>rte_get_next_lcore\<close> returns the first enabled core behind \<open>i\<close> (not the master, if that is asked for); without
  wrapping, \<^verbatim>\<open>RTE_MAX_LCORE\<close> when there is none; with wrapping it goes on from core 0, and it returns exactly
  if some core qualifies.
\<close>

theorem next_lcore_spec:
  "(unat (i + 1) \<le> 128 \<longrightarrow> rte_get_next_lcore i skip_master False s = Some (of_nat (first_eligible skip_master s (unat (i + 1))))) \<and>
   (rte_get_next_lcore i skip_master True s =
     (if \<exists>j. eligible skip_master s j
      then Some (of_nat (let j = first_eligible skip_master s (unat (i + 1) mod 128)
                         in if j < 128 then j else first_eligible skip_master s 0))
      else None))"
proof (intro conjI impI)
  assume "unat (i + 1) \<le> 128"
  then show "rte_get_next_lcore i skip_master False s = Some (of_nat (first_eligible skip_master s (unat (i + 1))))"
    using next_loop_nowrap [of "unat (i + 1)" skip_master s] by (simp add: rte_get_next_lcore_def lcore_wrap_def)
next
  let ?i = "unat (i + 1) mod 128"
  have w: "lcore_wrap True (i + 1) = of_nat ?i"
    by (simp add: lcore_wrap_def RTE_MAX_LCORE_def word_unat_eq_iff unat_mod unat_of_nat)
  have i: "?i < 128" by simp
  show "rte_get_next_lcore i skip_master True s =
     (if \<exists>j. eligible skip_master s j
      then Some (of_nat (let j = first_eligible skip_master s (unat (i + 1) mod 128)
                         in if j < 128 then j else first_eligible skip_master s 0))
      else None)"
    unfolding rte_get_next_lcore_def w
    using next_loop_wrap [OF i] next_loop_forever [of skip_master s "of_nat ?i"] of_nat_lcore [OF i] by (auto simp: Let_def)
qed

section \<open>Visiting the cores\<close>

lemma filter_first:
  assumes "i \<le> 128"
  shows "filter (eligible sm s) [i..<128] =
    (let j = first_eligible sm s i in if j < 128 then j # filter (eligible sm s) [Suc j..<128] else [])"
proof -
  note f = first_eligible [OF assms, where sm = sm and s = s]
  define j where "j = first_eligible sm s i"
  have "[i..<128] = [i..<j] @ [j..<128]" using f(1,2) upt_add_eq_append [of i j "128 - j"] by (simp add: j_def)
  moreover have "filter (eligible sm s) [i..<j] = []" using f(4) by (auto simp: filter_empty_conv j_def)
  moreover have "j < 128 \<Longrightarrow> filter (eligible sm s) [j..<128] = j # filter (eligible sm s) [Suc j..<128]"
    using f(3) by (simp add: upt_conv_Cons j_def)
  ultimately show ?thesis by (simp add: Let_def flip: j_def)
qed

lemma foreach_from:
  assumes "i \<le> 128"
  shows "foreach_loop sm s (of_nat (first_eligible sm s i)) = Some (map of_nat (filter (eligible sm s) [i..<128]))"
  using assms
proof (induction "128 - i" arbitrary: i rule: less_induct)
  case less
  note f = first_eligible [OF less(2), where sm = sm and s = s]
  define j where "j = first_eligible sm s i"
  show ?case
  proof (cases "j < 128")
    case True
    have n: "rte_get_next_lcore (of_nat j) sm False s = Some (of_nat (first_eligible sm s (Suc j)))"
      using next_loop_nowrap [of "Suc j" sm s] True by (simp add: rte_get_next_lcore_def lcore_wrap_def add.commute)
    have "foreach_loop sm s (of_nat (first_eligible sm s (Suc j))) = Some (map of_nat (filter (eligible sm s) [Suc j..<128]))"
      using less(2) True f(1) by (intro less(1)) (simp_all add: j_def)
    then show ?thesis using True of_nat_lcore [OF True]
      by (simp add: foreach_loop.simps [of sm s "of_nat j"] n filter_first [OF less(2)] Let_def flip: j_def)
  next
    case False
    then have j: "j = 128" using f(2) by (simp add: j_def)
    then show ?thesis
      by (simp add: foreach_loop.simps [of sm s 128] RTE_MAX_LCORE_def filter_first [OF less(2)] flip: j_def)
  qed
qed

lemma foreach_eq:
  "RTE_LCORE_FOREACH s = Some (map of_nat (filter (eligible False s) [0..<128]))"
  "RTE_LCORE_FOREACH_SLAVE s = Some (map of_nat (filter (eligible True s) [0..<128]))"
  using next_loop_nowrap [of 0 False s] next_loop_nowrap [of 0 True s] foreach_from [of 0]
  by (simp_all add: RTE_LCORE_FOREACH_def RTE_LCORE_FOREACH_SLAVE_def rte_get_next_lcore_def lcore_wrap_def)

section \<open>Detection\<close>

definition rank :: "(nat \<Rightarrow> bool) \<Rightarrow> nat \<Rightarrow> nat" where
  "rank d i = length (filter d [0..<i])"

lemma rank_Suc: "rank d (Suc i) = (if d i then Suc (rank d i) else rank d i)"
  by (simp add: rank_def)

lemma rank_le: "rank d i \<le> i"
  unfolding rank_def by (rule order_trans [OF length_filter_le]) simp

abbreviation cpu_found :: "'os sys \<Rightarrow> 'os \<Rightarrow> nat \<Rightarrow> bool" where
  "cpu_found sys os i \<equiv> eal_cpu_detected sys os (of_nat i)"

lemma cpu_socket_bound: "unat (eal_cpu_socket_id sys os i) < RTE_MAX_NUMA_NODES"
proof (cases "first_index (\<lambda>socket. sys_access sys os (fst (snprintf_str PATH_MAX
    (NUMA_NODE_PATH @ ''/node'' @ decimal socket @ ''/cpu'' @ decimal (unat i))))) [0..<RTE_MAX_NUMA_NODES]")
  case (Some k)
  then have "k < RTE_MAX_NUMA_NODES" by (auto dest: first_index_Some [THEN iffD1])
  then show ?thesis using Some by (simp add: eal_cpu_socket_id_def RTE_MAX_NUMA_NODES_def unat_of_nat)
qed (simp add: eal_cpu_socket_id_def RTE_MAX_NUMA_NODES_def)

definition found_config :: "'os sys \<Rightarrow> 'os \<Rightarrow> nat \<Rightarrow> lcore_config \<Rightarrow> lcore_config" where
  "found_config sys os i c =
     (if cpu_found sys os i
      then c\<lparr>lc_core_index := int (rank (cpu_found sys os) i), lc_detected := True, lc_cpuset := {i}, lc_core_role := ROLE_RTE,
             lc_core_id := eal_cpu_core_id sys os (of_nat i), lc_socket_id := eal_cpu_socket_id sys os (of_nat i)\<rparr>
      else c\<lparr>lc_cpuset := {}, lc_detected := False, lc_core_index := -1\<rparr>)"

definition found_role :: "'os sys \<Rightarrow> 'os \<Rightarrow> nat \<Rightarrow> rte_lcore_role_t" where
  "found_role sys os i = (if cpu_found sys os i then ROLE_RTE else ROLE_OFF)"

lemma cpu_init_step:
  assumes "i < 2 ^ 32"
  shows "cpu_init_loop sys os (Suc left) i (of_nat (rank (cpu_found sys os) i)) s =
    cpu_init_loop sys os left (Suc i) (of_nat (rank (cpu_found sys os) (Suc i)))
      (s\<lparr>ls_config := (ls_config s)[i := found_config sys os i (ls_config s ! i)],
         ls_lcore_role := (ls_lcore_role s)[i := found_role sys os i]\<rparr>)"
proof -
  have "rank (cpu_found sys os) i < 2 ^ 32" using rank_le [of "cpu_found sys os" i] assms by linarith
  then have "uint (of_nat (rank (cpu_found sys os) i) :: u32) = int (rank (cpu_found sys os) i)"
    by (simp add: uint_nat unat_of_nat)
  then show ?thesis using cpu_socket_bound [of sys os "of_nat i"]
    by (simp add: found_config_def found_role_def rank_Suc Let_def add.commute)
qed

lemma cpu_init_loop_eq:
  assumes "length (ls_config s) = i + left" "length (ls_lcore_role s) = i + left" "i + left < 2 ^ 32"
  shows "cpu_init_loop sys os left i (of_nat (rank (cpu_found sys os) i)) s =
    (s\<lparr>ls_config := take i (ls_config s) @ map (\<lambda>k. found_config sys os k (ls_config s ! k)) [i..<i + left],
       ls_lcore_role := take i (ls_lcore_role s) @ map (found_role sys os) [i..<i + left]\<rparr>,
     of_nat (rank (cpu_found sys os) (i + left)), True)"
  using assms
proof (induction left arbitrary: i s)
  case (Suc left)
  let ?s = "s\<lparr>ls_config := (ls_config s)[i := found_config sys os i (ls_config s ! i)],
    ls_lcore_role := (ls_lcore_role s)[i := found_role sys os i]\<rparr>"
  have "cpu_init_loop sys os (Suc left) i (of_nat (rank (cpu_found sys os) i)) s =
    cpu_init_loop sys os left (Suc i) (of_nat (rank (cpu_found sys os) (Suc i))) ?s"
    using Suc.prems by (intro cpu_init_step) simp
  also have "\<dots> = (?s\<lparr>ls_config := take (Suc i) (ls_config ?s) @ map (\<lambda>k. found_config sys os k (ls_config ?s ! k)) [Suc i..<Suc i + left],
       ls_lcore_role := take (Suc i) (ls_lcore_role ?s) @ map (found_role sys os) [Suc i..<Suc i + left]\<rparr>,
     of_nat (rank (cpu_found sys os) (Suc i + left)), True)"
    using Suc.prems by (intro Suc.IH) simp_all
  also have "take (Suc i) (ls_config ?s) @ map (\<lambda>k. found_config sys os k (ls_config ?s ! k)) [Suc i..<Suc i + left] =
    take i (ls_config s) @ map (\<lambda>k. found_config sys os k (ls_config s ! k)) [i..<i + Suc left]"
    using Suc.prems by (simp add: take_Suc_conv_app_nth upt_conv_Cons del: upt_Suc)
  also have "take (Suc i) (ls_lcore_role ?s) @ map (found_role sys os) [Suc i..<Suc i + left] =
    take i (ls_lcore_role s) @ map (found_role sys os) [i..<i + Suc left]"
    using Suc.prems by (simp add: take_Suc_conv_app_nth upt_conv_Cons del: upt_Suc)
  finally show ?case by simp
qed simp

text \<open>
  C34. \<^verbatim>\<open>rte_eal_cpu_init\<close> always succeeds: it enables exactly the detected cores, numbers them in order,
  counts them, and every core gets a socket below \<^verbatim>\<open>RTE_MAX_NUMA_NODES\<close>, so that its test for a larger socket is
  never met.
\<close>

theorem cpu_init_spec:
  fixes s :: lcores and sys :: "'os sys" and os :: 'os
  assumes "length (ls_config s) = 128" "length (ls_lcore_role s) = 128"
  defines "found \<equiv> cpu_found sys os" and "r \<equiv> rte_eal_cpu_init sys os s"
  shows "snd r = 0 \<and> RTE_LCORE_FOREACH (fst r) = Some (map of_nat (filter found [0..<128])) \<and>
    unat (rte_lcore_count (fst r)) = length (filter found [0..<128]) \<and>
    (\<forall>i < 128. rte_lcore_index (int i) (fst r) = Some (if found i then int (length (filter found [0..<i])) else -1) \<and>
       (found i \<longrightarrow> (\<exists>k. rte_lcore_to_socket_id (of_nat i) (fst r) = Some k \<and> unat k < RTE_MAX_NUMA_NODES)))"
proof -
  let ?cfg = "map (\<lambda>k. found_config sys os k (ls_config s ! k)) [0..<128]"
  let ?s = "s\<lparr>ls_config := ?cfg, ls_lcore_role := map (found_role sys os) [0..<128], ls_lcore_count := of_nat (rank found 128)\<rparr>"
  have "cpu_init_loop sys os 128 0 (of_nat (rank (cpu_found sys os) 0)) s =
    (s\<lparr>ls_config := take 0 (ls_config s) @ ?cfg, ls_lcore_role := take 0 (ls_lcore_role s) @ map (found_role sys os) [0..<128]\<rparr>,
     of_nat (rank (cpu_found sys os) 128), True)"
    using cpu_init_loop_eq [of s 0 128 sys os] assms(1,2) by simp
  then have r: "r = (?s, 0)"
    by (simp add: r_def rte_eal_cpu_init_def RTE_MAX_LCORE_def rank_def found_def)
  have e: "eligible False ?s j = found j" if "j < 128" for j
    using that by (simp add: eligible_def found_role_def found_def)
  have "filter (eligible False ?s) [0..<128] = filter found [0..<128]"
    by (rule filter_cong) (use e in auto)
  then have "RTE_LCORE_FOREACH ?s = Some (map of_nat (filter found [0..<128]))" by (simp only: foreach_eq)
  moreover have "rank found 128 < 2 ^ 32" using rank_le [of found 128] by simp
  then have "unat (rte_lcore_count ?s) = rank found 128" by (simp add: rte_lcore_count_def unat_of_nat)
  moreover have "rte_lcore_index (int i) ?s = Some (if found i then int (rank found i) else -1)" if "i < 128" for i
    using that by (simp add: rte_lcore_index_def RTE_MAX_LCORE_def found_config_def found_def)
  moreover have "\<exists>k. rte_lcore_to_socket_id (of_nat i) ?s = Some k \<and> unat k < RTE_MAX_NUMA_NODES" if "i < 128" "found i" for i
    using that cpu_socket_bound [of sys os "of_nat i"]
    by (simp add: rte_lcore_to_socket_id_def arr_get_def unat_of_nat found_config_def found_def)
  ultimately show ?thesis unfolding r by (simp add: rank_def)
qed


text \<open>A system with one core.\<close>

definition one_core_sys :: "unit sys" where
  "one_core_sys = failing_sys\<lparr>sys_access := (\<lambda>_ p. p = ''/sys/devices/system/cpu/cpu0/topology/core_id'')\<rparr>"

definition demo_lcores :: lcores where
  "demo_lcores = \<lparr>ls_config = replicate 128 \<lparr>lc_detected = False, lc_socket_id = 0, lc_core_id = 0, lc_core_index = 0,
       lc_cpuset = {}, lc_core_role = ROLE_RTE\<rparr>,
     ls_master_lcore = 0, ls_lcore_count = 0, ls_lcore_role = replicate 128 ROLE_RTE,
     ls_lcore_id = 0, ls_socket_id = 0, ls_cpuset = {}\<rparr>"

theorem cpu_init_spec_witness:
  "snd (rte_eal_cpu_init one_core_sys () demo_lcores) = 0 \<and>
   rte_lcore_index 0 (fst (rte_eal_cpu_init one_core_sys () demo_lcores)) = Some 0"
proof -
  have "cpu_found one_core_sys () 0"
    by (simp add: eal_cpu_detected_def SYS_CPU_DIR_def CORE_ID_FILE_def decimal.simps digit_char_def snprintf_str_def
        PATH_MAX_def one_core_sys_def)
  moreover have "length (ls_config demo_lcores) = 128" "length (ls_lcore_role demo_lcores) = 128"
    by (simp_all add: demo_lcores_def)
  note w = cpu_init_spec [OF this, of one_core_sys "()"]
  have "rte_lcore_index (int 0) (fst (rte_eal_cpu_init one_core_sys () demo_lcores)) =
    Some (if cpu_found one_core_sys () 0 then int (length (filter (cpu_found one_core_sys ()) [0..<0])) else -1)"
    using w [THEN conjunct2, THEN conjunct2, THEN conjunct2] by (elim allE [of _ 0]) simp
  with w [THEN conjunct1]
  have "snd (rte_eal_cpu_init one_core_sys () demo_lcores) = 0 \<and>
    rte_lcore_index (int 0) (fst (rte_eal_cpu_init one_core_sys () demo_lcores)) = Some (if cpu_found one_core_sys () 0 then 0 else -1)"
    by simp
  ultimately show ?thesis by simp
qed

text \<open>Cores 0 and 2 are enabled.\<close>

definition two_lcores :: lcores where
  "two_lcores = demo_lcores\<lparr>ls_lcore_role := ROLE_RTE # ROLE_OFF # ROLE_RTE # replicate 125 ROLE_OFF\<rparr>"

theorem next_lcore_spec_witness:
  "rte_get_next_lcore 0 True False two_lcores = Some 2 \<and> rte_get_next_lcore 2 False True two_lcores = Some 0"
proof -
  have e: "eligible sm two_lcores j \<longleftrightarrow> j = 2 \<or> j = 0 \<and> \<not> sm" for sm j
  proof (cases "j < 3")
    case True
    then have "j = 0 \<or> j = 1 \<or> j = 2" by auto
    then show ?thesis by (auto simp: eligible_def two_lcores_def demo_lcores_def)
  next
    case False
    then have "(ROLE_RTE # ROLE_OFF # ROLE_RTE # replicate 125 ROLE_OFF) ! j = ROLE_OFF" if "j < 128"
      using that by (simp add: nth_Cons' )
    then show ?thesis using False by (auto simp: eligible_def two_lcores_def)
  qed
  have "first_eligible True two_lcores 1 = 2" "first_eligible False two_lcores 3 = 128" "first_eligible False two_lcores 0 = 0"
    unfolding first_eligible_def e by (intro Least_equality; auto)+
  then show ?thesis
    using next_lcore_spec [where i = 0 and skip_master = True and s = two_lcores]
      next_lcore_spec [where i = 2 and skip_master = False and s = two_lcores] unfolding e by (auto simp: Let_def)
qed
end
