(* ===== verification/Hugepage.thy ===== *)
theory Hugepage
  imports Lcore Malloc
begin

text \<open>
  Huge pages, the calculations of \<^verbatim>\<open>linuxapp/eal/eal_memory.c\<close>: how many pages of each size every socket
  contributes, sorting by physical address, and the memory segments made of the pages. The tables are lists;
  the part of a table that a function works on is the list of its entries.
\<close>

section \<open>Data\<close>

record hugepage_file =
  hf_orig_va :: u64
  hf_final_va :: u64
  hf_physaddr :: u64
  hf_size :: u64
  hf_socket_id :: int
  hf_file_id :: int
  hf_memseg_id :: int
  hf_filepath :: string

definition zero_hf :: hugepage_file where
  "zero_hf = \<lparr>hf_orig_va = 0, hf_final_va = 0, hf_physaddr = 0, hf_size = 0, hf_socket_id = 0, hf_file_id = 0,
     hf_memseg_id = 0, hf_filepath = ''''\<rparr>"

definition SIZEOF_HUGEPAGE_FILE :: u64 where "SIZEOF_HUGEPAGE_FILE = 4136"

definition MAX_HUGEPAGE_SIZES :: nat where "MAX_HUGEPAGE_SIZES = 3"

record hugepage_info =
  hi_hugepage_sz :: u64
  hi_hugedir :: "string option"
  hi_num_pages :: "u32 list"
  hi_lock_descriptor :: int

record internal_config =
  ic_memory :: u64
  ic_force_nchannel :: u32
  ic_force_nrank :: u32
  ic_no_hugetlbfs :: bool
  ic_hugepage_unlink :: bool
  ic_process_type :: rte_proc_type_t
  ic_force_sockets :: bool
  ic_socket_mem :: "u64 list"
  ic_base_virtaddr :: u64
  ic_hugefile_prefix :: string
  ic_hugepage_dir :: "string option"
  ic_user_mbuf_pool_ops_name :: "string option"
  ic_num_hugepage_sizes :: nat
  ic_hugepage_info :: "hugepage_info list"

text \<open>The table of sizes has \<open>MAX_HUGEPAGE_SIZES\<close> entries, each counts pages for every socket.\<close>

definition config_shape :: "internal_config \<Rightarrow> bool" where
  "config_shape ic \<longleftrightarrow> length (ic_hugepage_info ic) = MAX_HUGEPAGE_SIZES \<and> ic_num_hugepage_sizes ic \<le> MAX_HUGEPAGE_SIZES \<and>
     length (ic_socket_mem ic) = RTE_MAX_NUMA_NODES \<and>
     (\<forall>h \<in> set (ic_hugepage_info ic). length (hi_num_pages h) = RTE_MAX_NUMA_NODES)"

section \<open>Order of the pages\<close>

definition cmp_physaddr :: "hugepage_file \<Rightarrow> hugepage_file \<Rightarrow> int" where
  "cmp_physaddr p1 p2 =
     (if hf_physaddr p1 < hf_physaddr p2 then -1 else if hf_physaddr p1 > hf_physaddr p2 then 1 else 0)"

text \<open>The number of pages at the start of the list whose physical addresses follow each other.\<close>

fun contiguous_pages :: "u64 \<Rightarrow> hugepage_file list \<Rightarrow> nat" where
  "contiguous_pages sz (p # q # ps) =
     (if hf_physaddr q \<noteq> hf_physaddr p + sz then 1 else Suc (contiguous_pages sz (q # ps)))"
| "contiguous_pages sz ps = 1"

section \<open>Tables of pages\<close>

text \<open>\<^verbatim>\<open>copy_hugepages_to_shared_mem\<close>, from position \<open>dst_pos\<close> on.\<close>

fun copy_active :: "hugepage_file list \<Rightarrow> nat \<Rightarrow> nat \<Rightarrow> hugepage_file list \<Rightarrow> hugepage_file list \<times> int" where
  "copy_active dst dest_size dst_pos [] = (dst, 0)"
| "copy_active dst dest_size dst_pos (p # src) =
     (if hf_final_va p \<noteq> 0 then
        if dst_pos = dest_size then (dst, -1) else copy_active (dst[dst_pos := p]) dest_size (dst_pos + 1) src
      else copy_active dst dest_size dst_pos src)"

definition copy_hugepages_to_shared_mem ::
    "hugepage_file list \<Rightarrow> nat \<Rightarrow> hugepage_file list \<Rightarrow> nat \<Rightarrow> hugepage_file list \<times> int" where
  "copy_hugepages_to_shared_mem dst dest_size src src_size = copy_active dst dest_size 0 (take src_size src)"

text \<open>The number of pages over all sizes and sockets, an \<^verbatim>\<open>int\<close>.\<close>

definition total_pages :: "nat \<Rightarrow> hugepage_info list \<Rightarrow> nat" where
  "total_pages num_hp_info info =
     nat (sint (sum_list (map (\<lambda>h. sum_list (take RTE_MAX_NUMA_NODES (hi_num_pages h))) (take num_hp_info info)) :: u32))"

section \<open>How many pages are needed\<close>

definition get_socket_mem_size :: "internal_config \<Rightarrow> nat \<Rightarrow> u64" where
  "get_socket_mem_size ic socket =
     sum_list (map (\<lambda>h. if hi_hugedir h \<noteq> None then hi_hugepage_sz h * ucast (hi_num_pages h ! socket) else 0)
       (take (ic_num_hugepage_sizes ic) (ic_hugepage_info ic)))"

definition eal_get_hugepage_mem_size :: "internal_config \<Rightarrow> u64" where
  "eal_get_hugepage_mem_size ic =
     (let sz = sum_list (map (\<lambda>h. if hi_hugedir h \<noteq> None
          then sum_list (map (\<lambda>j. hi_hugepage_sz h * ucast (hi_num_pages h ! j)) [0..<RTE_MAX_NUMA_NODES]) else 0)
          (take (ic_num_hugepage_sizes ic) (ic_hugepage_info ic)))
      in if sz < - 1 then sz else - 1)"

text \<open>The cores on each socket; \<open>None\<close> is an access outside the array.\<close>

fun cpus_per_socket :: "lcores \<Rightarrow> u32 list \<Rightarrow> u32 list \<Rightarrow> u32 list option" where
  "cpus_per_socket ls [] cpu = Some cpu"
| "cpus_per_socket ls (i # is) cpu = do {
     k \<leftarrow> rte_lcore_to_socket_id i ls;
     n \<leftarrow> arr_get cpu k;
     cpu \<leftarrow> arr_set cpu k (n + 1);
     cpus_per_socket ls is cpu
   }"

text \<open>The two loops that spread the memory over the sockets; \<open>\<^verbatim>\<open>total_size\<close>\<close> is what remains.\<close>

fun spread_by_cpus :: "internal_config \<Rightarrow> u32 list \<Rightarrow> u32 \<Rightarrow> nat list \<Rightarrow> u64 list \<Rightarrow> u64 \<Rightarrow> u64 list \<times> u64" where
  "spread_by_cpus ic cpu count [] memory total_size = (memory, total_size)"
| "spread_by_cpus ic cpu count (socket # sockets) memory total_size =
     (if total_size = 0 then (memory, total_size)
      else let default_size = ic_memory ic * scast (cpu ! socket) div ucast count;
               default_size = RTE_MIN default_size (get_socket_mem_size ic socket)
           in spread_by_cpus ic cpu count sockets (memory[socket := default_size]) (total_size - default_size))"

fun spread_rest :: "internal_config \<Rightarrow> nat list \<Rightarrow> u64 list \<Rightarrow> u64 \<Rightarrow> u64 list \<times> u64" where
  "spread_rest ic [] memory total_size = (memory, total_size)"
| "spread_rest ic (socket # sockets) memory total_size =
     (if total_size = 0 then (memory, total_size)
      else let default_size = RTE_MIN (get_socket_mem_size ic socket - memory ! socket) total_size
           in spread_rest ic sockets (memory[socket := memory ! socket + default_size]) (total_size - default_size))"

text \<open>\<open>None\<close> is also the division by a number of cores of 0.\<close>

definition spread_memory :: "internal_config \<Rightarrow> lcores \<Rightarrow> u64 list \<Rightarrow> u64 list option" where
  "spread_memory ic ls memory = do {
     is \<leftarrow> RTE_LCORE_FOREACH ls;
     cpu \<leftarrow> cpus_per_socket ls is (replicate RTE_MAX_NUMA_NODES 0);
     if rte_lcore_count ls = 0 \<and> ic_memory ic \<noteq> 0 then None
     else let (memory, total_size) = spread_by_cpus ic cpu (rte_lcore_count ls) [0..<RTE_MAX_NUMA_NODES] memory (ic_memory ic)
          in Some (fst (spread_rest ic [0..<RTE_MAX_NUMA_NODES] memory total_size))
   }"

text \<open>
  The size \<open>i\<close> for one socket; the state is the table \<^verbatim>\<open>hp_used\<close>, \<^verbatim>\<open>memory[socket]\<close>, \<^verbatim>\<open>total_mem\<close> and
  \<^verbatim>\<open>total_num_pages\<close>. The result also tells whether to go on with the next size. \<open>None\<close> is a division by a page
  size of 0.
\<close>

type_synonym pages_state = "hugepage_info list \<times> u64 \<times> u64 \<times> u32"

definition set_pages :: "nat \<Rightarrow> nat \<Rightarrow> u32 \<Rightarrow> hugepage_info list \<Rightarrow> hugepage_info list" where
  "set_pages i socket n used = used[i := (used ! i)\<lparr>hi_num_pages := (hi_num_pages (used ! i))[socket := n]\<rparr>]"

definition smaller_mem :: "hugepage_info list \<Rightarrow> nat \<Rightarrow> nat \<Rightarrow> nat \<Rightarrow> u64" where
  "smaller_mem info num socket i =
     sum_list (map (\<lambda>j. hi_hugepage_sz (info ! j) * ucast (hi_num_pages (info ! j) ! socket)) [Suc i..<num])"

definition size_pages :: "hugepage_info list \<Rightarrow> nat \<Rightarrow> nat \<Rightarrow> nat \<Rightarrow> pages_state \<Rightarrow> (pages_state \<times> bool) option" where
  "size_pages info num socket i st = (case st of (used, mem, total_mem, pages) \<Rightarrow>
     if hi_hugepage_sz (info ! i) = 0 then None
     else let avail = hi_num_pages (info ! i) ! socket;
              n = ucast (RTE_MIN (mem div hi_hugepage_sz (info ! i)) (ucast avail)) :: u32;
              used = set_pages i socket n (used[i := (used ! i)\<lparr>hi_hugedir := hi_hugedir (info ! i)\<rparr>]);
              cur_mem = ucast n * hi_hugepage_sz (used ! i);
              mem = mem - cur_mem; total_mem = total_mem - cur_mem; pages = pages + n
          in Some (if mem = 0 then ((used, mem, total_mem, pages), False)
             else if n = avail then ((used, mem, total_mem, pages), True)
             else if smaller_mem info num socket i < mem
             then let cur_mem = RTE_MIN mem (hi_hugepage_sz (info ! i))
                  in ((set_pages i socket (n + 1) used, mem - cur_mem, total_mem - cur_mem, pages + 1), False)
             else ((used, mem, total_mem, pages), True)))"

fun socket_pages :: "hugepage_info list \<Rightarrow> nat \<Rightarrow> nat \<Rightarrow> nat list \<Rightarrow> pages_state \<Rightarrow> pages_state option" where
  "socket_pages info num socket [] st = Some st"
| "socket_pages info num socket (i # is) st =
     (if fst (snd st) = 0 then Some st
      else do {
        (st, more) \<leftarrow> size_pages info num socket i st;
        if more then socket_pages info num socket is st else Some st
      })"

fun sockets_pages :: "hugepage_info list \<Rightarrow> nat \<Rightarrow> u64 list \<Rightarrow> nat list \<Rightarrow>
    hugepage_info list \<times> u64 \<times> u32 \<Rightarrow> (hugepage_info list \<times> u64 \<times> u32 \<times> bool) option" where
  "sockets_pages info num memory [] (used, total_mem, pages) = Some (used, total_mem, pages, True)"
| "sockets_pages info num memory (socket # sockets) (used, total_mem, pages) =
     (if total_mem = 0 then Some (used, total_mem, pages, True)
      else do {
        (used, mem, total_mem, pages) \<leftarrow> socket_pages info num socket [0..<num] (used, memory ! socket, total_mem, pages);
        if mem > 0 then Some (used, total_mem, pages, False)
        else sockets_pages info num memory sockets (used, total_mem, pages)
      })"

text \<open>The result is \<^verbatim>\<open>hp_used\<close> and the number of pages, or -1.\<close>

definition calc_num_pages_per_socket :: "internal_config \<Rightarrow> lcores \<Rightarrow> u64 list \<Rightarrow> hugepage_info list \<Rightarrow>
    hugepage_info list \<Rightarrow> nat \<Rightarrow> (hugepage_info list \<times> int) option" where
  "calc_num_pages_per_socket ic ls memory hp_info hp_used num =
     (if num = 0 then Some (hp_used, -1)
      else do {
        memory \<leftarrow> (if \<not> ic_force_sockets ic then spread_memory ic ls memory else Some memory);
        (used, total_mem, pages, ok) \<leftarrow> sockets_pages hp_info num memory [0..<RTE_MAX_NUMA_NODES] (hp_used, ic_memory ic, 0);
        Some (used, if ok \<and> total_mem = 0 then sint pages else -1)
      })"

section \<open>Memory segments\<close>

text \<open>\<open>q\<close> is the page before \<open>p\<close>.\<close>

definition new_memseg :: "hugepage_file option \<Rightarrow> hugepage_file \<Rightarrow> bool" where
  "new_memseg q p =
     (case q of None \<Rightarrow> True
      | Some q \<Rightarrow> hf_socket_id p \<noteq> hf_socket_id q \<or> hf_size p \<noteq> hf_size q \<or>
          hf_physaddr p - hf_physaddr q \<noteq> hf_size p \<or> hf_final_va p - hf_final_va q \<noteq> hf_size p)"

text \<open>
  The last loop of \<^verbatim>\<open>rte_eal_hugepage_init\<close>: \<open>j\<close> is the number of segments so far. It stops early when the table
  of segments is full.
\<close>

fun fill_memsegs :: "hugepage_file option \<Rightarrow> nat \<Rightarrow> (nat \<Rightarrow> rte_memseg) \<Rightarrow> hugepage_file list \<Rightarrow>
    hugepage_file list \<times> (nat \<Rightarrow> rte_memseg) \<times> bool" where
  "fill_memsegs q j segs [] = ([], segs, True)"
| "fill_memsegs q j segs (p # ps) =
     (if new_memseg q p \<and> j = RTE_MAX_MEMSEG then (p # ps, segs, False)
      else let (j, segs) =
             (if new_memseg q p
              then (Suc j, segs(j := (segs j)\<lparr>ms_phys_addr := hf_physaddr p, ms_addr := hf_final_va p, ms_len := hf_size p,
                ms_socket_id := hf_socket_id p, ms_hugepage_sz := hf_size p\<rparr>))
              else (j, segs(j - 1 := (segs (j - 1))\<lparr>ms_len := ms_len (segs (j - 1)) + ms_hugepage_sz (segs (j - 1))\<rparr>)));
             (ps, segs, ok) = fill_memsegs (Some p) j segs ps
           in (p\<lparr>hf_memseg_id := int j - 1\<rparr> # ps, segs, ok))"

end
