(* ===== verification/Hugepage_Map.thy ===== *)
theory Hugepage_Map
  imports Hugepage
begin

text \<open>
  Huge pages, the calls into the operating system: mapping the pages, their physical addresses and sockets
  (\<^verbatim>\<open>linuxapp/eal/eal_memory.c\<close>, \<^verbatim>\<open>eal_filesystem.h\<close>). A null pointer is 0; \<open>None\<close> is a loop that never ends or an
  access outside an array.
\<close>

section \<open>State\<close>

text \<open>
  The operating system, the configuration, the variables of the file (\<^verbatim>\<open>baseaddr_offset\<close>, \<^verbatim>\<open>phys_addrs_available\<close>,
  \<^verbatim>\<open>huge_need_recover\<close> and the static \<^verbatim>\<open>addr\<close> of \<^verbatim>\<open>set_physaddrs\<close>), and the memory segments in shared memory.
\<close>

record 'os hst =
  h_os :: 'os
  h_ic :: internal_config
  h_baseaddr_offset :: u64
  h_phys_addrs_available :: bool
  h_huge_need_recover :: bool
  h_set_addr :: u64
  h_memseg :: "nat \<Rightarrow> rte_memseg"

definition os_call :: "('os \<Rightarrow> 'a \<times> 'os) \<Rightarrow> 'os hst \<Rightarrow> 'a \<times> 'os hst" where
  "os_call f s = (case f (h_os s) of (r, os) \<Rightarrow> (r, s\<lparr>h_os := os\<rparr>))"

definition os_do :: "('os \<Rightarrow> 'os) \<Rightarrow> 'os hst \<Rightarrow> 'os hst" where
  "os_do f s = s\<lparr>h_os := f (h_os s)\<rparr>"

definition rte_eal_has_hugepages :: "'os hst \<Rightarrow> bool" where
  "rte_eal_has_hugepages s \<longleftrightarrow> \<not> ic_no_hugetlbfs (h_ic s)"

definition RTE_BAD_PHYS_ADDR :: u64 where "RTE_BAD_PHYS_ADDR = - 1"

section \<open>Paths\<close>

definition runtime_path :: "'os sys \<Rightarrow> internal_config \<Rightarrow> string \<Rightarrow> string" where
  "runtime_path sys ic suffix =
     (let directory = (case sys_home sys of Some home \<Rightarrow> if sys_uid sys \<noteq> 0 then home else ''/var/run'' | None \<Rightarrow> ''/var/run'')
      in fst (snprintf_str (PATH_MAX - 1) (directory @ ''/.'' @ ic_hugefile_prefix ic @ suffix)))"

definition eal_runtime_config_path :: "'os sys \<Rightarrow> internal_config \<Rightarrow> string" where
  "eal_runtime_config_path sys ic = runtime_path sys ic ''_config''"

definition eal_mp_socket_path :: "'os sys \<Rightarrow> internal_config \<Rightarrow> string" where
  "eal_mp_socket_path sys ic = runtime_path sys ic ''_unix''"

definition eal_hugepage_info_path :: "'os sys \<Rightarrow> internal_config \<Rightarrow> string" where
  "eal_hugepage_info_path sys ic = runtime_path sys ic ''_hugepage_info''"

definition eal_get_hugefile_path :: "internal_config \<Rightarrow> nat \<Rightarrow> string option \<Rightarrow> nat \<Rightarrow> string" where
  "eal_get_hugefile_path ic buflen hugedir f_id =
     fst (snprintf_str buflen ((case hugedir of None \<Rightarrow> ''(null)'' | Some d \<Rightarrow> d) @ ''/'' @ ic_hugefile_prefix ic @ ''map_'' @ decimal f_id))"

section \<open>Physical addresses\<close>

definition rte_mem_virt2phy :: "'os sys \<Rightarrow> u64 \<Rightarrow> 'os hst \<Rightarrow> u64 \<times> 'os hst" where
  "rte_mem_virt2phy sys virtaddr s =
     (if \<not> h_phys_addrs_available s then (RTE_BAD_PHYS_ADDR, s)
      else let page_size = sys_page_size sys; (fd, s) = os_call (sys_open sys ''/proc/self/pagemap'' O_RDONLY) s
           in if fd < 0 then (RTE_BAD_PHYS_ADDR, s)
              else let virt_pfn = virtaddr div page_size; (off, s) = os_call (sys_lseek sys fd (8 * virt_pfn)) s
                   in if off = -1 then (RTE_BAD_PHYS_ADDR, os_do (sys_close sys fd) s)
                      else let ((retval, bs), s) = os_call (sys_read sys fd 8) s; s = os_do (sys_close sys fd) s
                           in if retval \<noteq> 8 then (RTE_BAD_PHYS_ADDR, s)
                              else let pfn = le_u64 bs AND 0x7fffffffffffff
                                   in if pfn = 0 then (RTE_BAD_PHYS_ADDR, s)
                                      else (pfn * page_size + virtaddr mod page_size, s))"

text \<open>\<open>tmp\<close> is the address of a local variable.\<close>

definition test_phys_addrs_available :: "'os sys \<Rightarrow> u64 \<Rightarrow> 'os hst \<Rightarrow> 'os hst" where
  "test_phys_addrs_available sys tmp s =
     (if \<not> rte_eal_has_hugepages s then s\<lparr>h_phys_addrs_available := False\<rparr>
      else let (physaddr, s) = rte_mem_virt2phy sys tmp s
           in if physaddr = RTE_BAD_PHYS_ADDR then s\<lparr>h_phys_addrs_available := False\<rparr> else s)"

definition rte_eal_using_phys_addrs :: "'os hst \<Rightarrow> bool" where
  "rte_eal_using_phys_addrs s = h_phys_addrs_available s"

fun find_physaddrs :: "'os sys \<Rightarrow> hugepage_file list \<Rightarrow> 'os hst \<Rightarrow> hugepage_file list \<times> int \<times> 'os hst" where
  "find_physaddrs sys [] s = ([], 0, s)"
| "find_physaddrs sys (p # ps) s =
     (let (addr, s) = rte_mem_virt2phy sys (hf_orig_va p) s
      in if addr = RTE_BAD_PHYS_ADDR then (p # ps, -1, s)
         else let (ps, r, s) = find_physaddrs sys ps s in (p\<lparr>hf_physaddr := addr\<rparr> # ps, r, s))"

fun set_physaddrs :: "hugepage_file list \<Rightarrow> 'os hst \<Rightarrow> hugepage_file list \<times> int \<times> 'os hst" where
  "set_physaddrs [] s = ([], 0, s)"
| "set_physaddrs (p # ps) s =
     (let (ps, r, s') = set_physaddrs ps (s\<lparr>h_set_addr := h_set_addr s + hf_size p\<rparr>)
      in (p\<lparr>hf_physaddr := h_set_addr s\<rparr> # ps, r, s'))"

text \<open>The errors are reported as a negative number; \<open>eno\<close> is \<^verbatim>\<open>errno\<close>.\<close>

definition aslr_enabled :: "'os sys \<Rightarrow> int \<Rightarrow> 'os hst \<Rightarrow> int \<times> 'os hst" where
  "aslr_enabled sys eno s =
     (let (fd, s) = os_call (sys_open sys ''/proc/sys/kernel/randomize_va_space'' O_RDONLY) s
      in if fd < 0 then (- eno, s)
         else let ((retval, bs), s) = os_call (sys_read sys fd 1) s; s = os_do (sys_close sys fd) s
              in if retval < 0 then (- eno, s)
                 else if retval = 0 then (- 5, s)
                 else (if hd bs = 48 then 0 else if hd bs = 49 then 1 else if hd bs = 50 then 2 else - EINVAL, s))"

section \<open>A virtual area\<close>

text \<open>The address found, if any, and the size that could be mapped.\<close>

partial_function (option) virtual_area_loop ::
    "'os sys \<Rightarrow> u64 \<Rightarrow> u64 \<Rightarrow> int \<Rightarrow> u64 \<Rightarrow> 'os hst \<Rightarrow> (u64 option \<times> u64 \<times> 'os hst) option" where
  "virtual_area_loop sys addr_hint hugepage_sz fd sz s =
     (let (addr, s) = os_call (sys_mmap sys addr_hint (sz + hugepage_sz) PROT_READ MAP_PRIVATE fd) s
      in case addr of Some a \<Rightarrow> Some (Some a, sz, s)
         | None \<Rightarrow> if sz - hugepage_sz > 0 then virtual_area_loop sys addr_hint hugepage_sz fd (sz - hugepage_sz) s
                   else Some (None, sz - hugepage_sz, s))"

declare virtual_area_loop.simps [code]

definition get_virtual_area :: "'os sys \<Rightarrow> u64 \<Rightarrow> u64 \<Rightarrow> 'os hst \<Rightarrow> (u64 \<times> u64 \<times> 'os hst) option" where
  "get_virtual_area sys sz hugepage_sz s =
     (let addr_hint = (if ic_base_virtaddr (h_ic s) \<noteq> 0
            then RTE_PTR_ALIGN_FLOOR (ic_base_virtaddr (h_ic s) + h_baseaddr_offset s) (sys_page_size sys) else 0);
          (fd, s) = os_call (sys_open sys ''/dev/zero'' O_RDONLY) s
      in if fd < 0 then Some (0, sz, s)
         else do {
           (addr, sz, s) \<leftarrow> virtual_area_loop sys addr_hint hugepage_sz fd sz s;
           case addr of
             None \<Rightarrow> Some (0, sz, os_do (sys_close sys fd) s)
           | Some addr \<Rightarrow>
               let s = os_do (sys_munmap sys addr (sz + hugepage_sz)) s;
                   s = os_do (sys_close sys fd) s;
                   aligned_addr = (addr + (hugepage_sz - 1)) AND NOT (hugepage_sz - 1)
               in Some (aligned_addr, sz, s\<lparr>h_baseaddr_offset := h_baseaddr_offset s + sz\<rparr>)
         })"

section \<open>Mapping the pages of one size\<close>

text \<open>
  The local variables: the table, the array \<^verbatim>\<open>essential_memory\<close>, \<^verbatim>\<open>node_id\<close>, the \<^verbatim>\<open>int\<close> \<^verbatim>\<open>essential_prev\<close>, \<^verbatim>\<open>vma_addr\<close>
  and \<^verbatim>\<open>vma_len\<close>.
\<close>

record map_vars =
  ma_tbl :: "hugepage_file list"
  ma_essential :: "u64 list"
  ma_node_id :: int
  ma_essential_prev :: u32
  ma_vma_addr :: u64
  ma_vma_len :: u64

partial_function (option) next_node :: "u64 list \<Rightarrow> nat \<Rightarrow> nat \<Rightarrow> nat option" where
  "next_node socket_mem maxnode node_id =
     (if socket_mem ! node_id = 0 then next_node socket_mem maxnode ((node_id + 1) mod maxnode) else Some node_id)"

declare next_node.simps [code]

text \<open>The node of the next page: one that still lacks essential memory, or the next one in turn.\<close>

definition pick_node :: "u64 list \<Rightarrow> nat \<Rightarrow> u64 \<Rightarrow> map_vars \<Rightarrow> map_vars option" where
  "pick_node socket_mem maxnode hugepage_sz v =
     (case first_index (\<lambda>m. m \<noteq> 0) (take maxnode (ma_essential v)) of
        None \<Rightarrow> do {
          n \<leftarrow> next_node socket_mem maxnode (nat ((ma_node_id v + 1) mod int maxnode));
          Some (v\<lparr>ma_node_id := int n, ma_essential_prev := 0\<rparr>)
        }
      | Some j \<Rightarrow>
          let m = ma_essential v ! j
          in Some (v\<lparr>ma_node_id := int j, ma_essential_prev := ucast m,
               ma_essential := (ma_essential v)[j := if m < hugepage_sz then 0 else m - hugepage_sz]\<rparr>))"

definition upd_page :: "nat \<Rightarrow> (hugepage_file \<Rightarrow> hugepage_file) \<Rightarrow> map_vars \<Rightarrow> map_vars" where
  "upd_page i f v = v\<lparr>ma_tbl := (ma_tbl v)[i := f (ma_tbl v ! i)]\<rparr>"

text \<open>The file of page \<open>i\<close> is opened and mapped; the result also tells whether to go on.\<close>

definition map_file :: "'os sys \<Rightarrow> bool \<Rightarrow> u64 \<Rightarrow> nat \<Rightarrow> nat \<Rightarrow> map_vars \<Rightarrow> 'os hst \<Rightarrow> bool \<times> map_vars \<times> 'os hst" where
  "map_file sys orig hugepage_sz maxnode i v s =
     (let path = hf_filepath (ma_tbl v ! i); (fd, s) = os_call (sys_open sys path O_RDWR_CREAT) s
      in if fd < 0 then (False, v, s)
         else let (virtaddr, s) = os_call (sys_mmap sys (ma_vma_addr v) hugepage_sz PROT_READ_WRITE MAP_SHARED_POPULATE fd) s
              in case virtaddr of
                   None \<Rightarrow> (False, v, os_do (sys_close sys fd) s)
                 | Some virtaddr \<Rightarrow>
                     let v = upd_page i (\<lambda>p. if orig then p\<lparr>hf_orig_va := virtaddr\<rparr> else p\<lparr>hf_final_va := virtaddr\<rparr>) v;
                         (sigbus, s) = (if orig then os_call (sys_touch sys virtaddr) s else (False, s))
                     in if sigbus then
                          let s = os_do (sys_munmap sys virtaddr hugepage_sz) s; s = os_do (sys_close sys fd) s;
                              (_, s) = os_call (sys_unlink sys path) s
                          in (False, if maxnode \<noteq> 0
                                then v\<lparr>ma_essential := (ma_essential v)[nat (ma_node_id v) := scast (ma_essential_prev v)]\<rparr> else v, s)
                        else let (r, s) = os_call (sys_flock sys fd LOCK_SH_NB) s; s = os_do (sys_close sys fd) s
                             in if r = -1 then (False, v, s)
                                else (True, v\<lparr>ma_vma_addr := ma_vma_addr v + hugepage_sz, ma_vma_len := ma_vma_len v - hugepage_sz\<rparr>, s))"

text \<open>Before that: the NUMA policy, then the name of the file (first mapping) or a virtual area (second mapping).\<close>

definition map_page :: "'os sys \<Rightarrow> bool \<Rightarrow> hugepage_info \<Rightarrow> nat \<Rightarrow> nat \<Rightarrow> map_vars \<Rightarrow> 'os hst \<Rightarrow> (bool \<times> map_vars \<times> 'os hst) option" where
  "map_page sys orig hpi maxnode i v s = do {
     let hugepage_sz = hi_hugepage_sz hpi;
     (v, s) \<leftarrow> (if maxnode \<noteq> 0 then do {
         v \<leftarrow> pick_node (ic_socket_mem (h_ic s)) maxnode hugepage_sz v;
         Some (v, os_do (sys_numa_set_preferred sys (nat (ma_node_id v))) s)
       } else Some (v, s));
     (v, s) \<leftarrow> (if orig
       then Some (upd_page i (\<lambda>p. p\<lparr>hf_file_id := int i, hf_size := hugepage_sz,
         hf_filepath := eal_get_hugefile_path (h_ic s) PATH_MAX (hi_hugedir hpi) i\<rparr>) v, s)
       else if ma_vma_len v = 0 then do {
         let num_pages = contiguous_pages hugepage_sz (drop i (ma_tbl v));
         (addr, len, s) \<leftarrow> get_virtual_area sys (of_nat num_pages * hugepage_sz) hugepage_sz s;
         Some (v\<lparr>ma_vma_addr := addr, ma_vma_len := if addr = 0 then hugepage_sz else len\<rparr>, s)
       } else Some (v, s));
     Some (map_file sys orig hugepage_sz maxnode i v s)
   }"

fun map_loop :: "'os sys \<Rightarrow> bool \<Rightarrow> hugepage_info \<Rightarrow> nat \<Rightarrow> nat \<Rightarrow> nat \<Rightarrow> map_vars \<Rightarrow> 'os hst \<Rightarrow> (nat \<times> map_vars \<times> 'os hst) option" where
  "map_loop sys orig hpi maxnode 0 i v s = Some (i, v, s)"
| "map_loop sys orig hpi maxnode (Suc left) i v s = do {
     (more, v, s) \<leftarrow> map_page sys orig hpi maxnode i v s;
     if more then map_loop sys orig hpi maxnode left (Suc i) v s else Some (i, v, s)
   }"

text \<open>The highest node with requested memory, plus one.\<close>

definition max_node :: "u64 list \<Rightarrow> nat" where
  "max_node socket_mem = foldl (\<lambda>n i. if socket_mem ! i \<noteq> 0 then i + 1 else n) 0 [0..<RTE_MAX_NUMA_NODES]"

text \<open>The number of pages mapped, the table and \<^verbatim>\<open>essential_memory\<close>. \<open>MPOL_DEFAULT\<close> is 0.\<close>

definition map_all_hugepages :: "'os sys \<Rightarrow> hugepage_file list \<Rightarrow> hugepage_info \<Rightarrow> u64 list \<Rightarrow> bool \<Rightarrow> 'os hst \<Rightarrow>
    (nat \<times> hugepage_file list \<times> u64 list \<times> 'os hst) option" where
  "map_all_hugepages sys hugepg_tbl hpi essential_memory orig s = do {
     let have_numa = sys_numa_available sys (h_os s);
     let oldpolicy = (case sys_get_mempolicy sys (h_os s) of None \<Rightarrow> 0 | Some p \<Rightarrow> p);
     let maxnode = (if orig \<and> have_numa then max_node (ic_socket_mem (h_ic s)) else 0);
     (i, v, s) \<leftarrow> map_loop sys orig hpi maxnode (length hugepg_tbl) 0
       \<lparr>ma_tbl = hugepg_tbl, ma_essential = essential_memory, ma_node_id = -1, ma_essential_prev = 0,
        ma_vma_addr = 0, ma_vma_len = 0\<rparr> s;
     let s = (if maxnode = 0 then s
       else if oldpolicy = 0 then os_do (sys_numa_set_localalloc sys) s
       else let (r, s) = os_call (sys_set_mempolicy sys oldpolicy) s
            in if r < 0 then os_do (sys_numa_set_localalloc sys) s else s);
     Some (i, ma_tbl v, ma_essential v, s)
   }"

fun unmap_all_hugepages_orig :: "'os sys \<Rightarrow> u64 \<Rightarrow> hugepage_file list \<Rightarrow> 'os hst \<Rightarrow> hugepage_file list \<times> int \<times> 'os hst" where
  "unmap_all_hugepages_orig sys hugepage_sz [] s = ([], 0, s)"
| "unmap_all_hugepages_orig sys hugepage_sz (p # ps) s =
     (let (p, s) = (if hf_orig_va p \<noteq> 0 then (p\<lparr>hf_orig_va := 0\<rparr>, os_do (sys_munmap sys (hf_orig_va p) hugepage_sz) s) else (p, s));
          (ps, r, s) = unmap_all_hugepages_orig sys hugepage_sz ps s
      in (p # ps, r, s))"

section \<open>Sockets\<close>

text \<open>
  One line of \<^verbatim>\<open>/proc/self/numa_maps\<close>: \<open>None\<close> if it is not of a huge page, an error, or the address and the socket.
\<close>

definition parse_numa_line :: "string \<Rightarrow> string \<Rightarrow> (unit + u64 \<times> int) option" where
  "parse_numa_line hugedir_str buf =
     (if strstr buf '' huge '' = None \<and> strstr buf hugedir_str = None then None
      else let (virt_addr, end', _) = strtoull buf 16
           in if virt_addr = 0 \<or> end' = buf then Some (Inl ())
              else case strstr buf '' N'' of
                None \<Rightarrow> Some (Inl ())
              | Some nodestr \<Rightarrow>
                  let nodestr = drop 2 nodestr
                  in if strstr nodestr ''='' = None then Some (Inl ())
                     else let nodestr = takeWhile (\<lambda>c. c \<noteq> CHR ''='') nodestr; (v, end', _) = strtoull nodestr 0
                          in if nodestr = [] \<or> end' \<noteq> [] then Some (Inl ()) else Some (Inr (virt_addr, sint (ucast v :: u32))))"

text \<open>The loop over the lines; the count of pages found goes along.\<close>

fun numa_lines :: "string \<Rightarrow> string list \<Rightarrow> hugepage_file list \<Rightarrow> nat \<Rightarrow> hugepage_file list \<times> nat \<times> bool" where
  "numa_lines hugedir_str [] tbl hp_count = (tbl, hp_count, True)"
| "numa_lines hugedir_str (buf # bufs) tbl hp_count =
     (case parse_numa_line hugedir_str buf of
        None \<Rightarrow> numa_lines hugedir_str bufs tbl hp_count
      | Some (Inl _) \<Rightarrow> (tbl, hp_count, False)
      | Some (Inr (va, socket_id)) \<Rightarrow>
          numa_lines hugedir_str bufs (map (\<lambda>p. if hf_orig_va p = va then p\<lparr>hf_socket_id := socket_id\<rparr> else p) tbl)
            (hp_count + length (filter (\<lambda>p. hf_orig_va p = va) tbl)))"

definition find_numasocket :: "'os sys \<Rightarrow> hugepage_file list \<Rightarrow> hugepage_info \<Rightarrow> 'os hst \<Rightarrow> hugepage_file list \<times> int" where
  "find_numasocket sys tbl hpi s =
     (case sys_lines sys (h_os s) ''/proc/self/numa_maps'' of
        None \<Rightarrow> (tbl, 0)
      | Some bufs \<Rightarrow>
          let hugedir_str = fst (snprintf_str PATH_MAX ((case hi_hugedir hpi of None \<Rightarrow> ''(null)'' | Some d \<Rightarrow> d) @ ''/'' @
                ic_hugefile_prefix (h_ic s)));
              (tbl', hp_count, ok) = numa_lines hugedir_str bufs tbl 0
          in (tbl', if \<not> ok \<or> hp_count < length tbl then -1 else 0))"

section \<open>Giving pages back\<close>

fun unlink_pages :: "'os sys \<Rightarrow> hugepage_file list \<Rightarrow> 'os hst \<Rightarrow> 'os hst" where
  "unlink_pages sys [] s = s"
| "unlink_pages sys (p # ps) s =
     unlink_pages sys ps (if hf_final_va p \<noteq> 0 then snd (os_call (sys_unlink sys (hf_filepath p)) s) else s)"

definition unlink_hugepage_files :: "'os sys \<Rightarrow> hugepage_file list \<Rightarrow> nat \<Rightarrow> 'os hst \<Rightarrow> 'os hst" where
  "unlink_hugepage_files sys tbl num_hp_info s =
     unlink_pages sys (take (total_pages num_hp_info (ic_hugepage_info (h_ic s))) tbl) s"

text \<open>The pages of one size and socket: the first \<open>keep\<close> are kept, \<open>found\<close> of them so far.\<close>

fun unmap_pages :: "'os sys \<Rightarrow> u64 \<Rightarrow> int \<Rightarrow> u32 \<Rightarrow> u32 \<Rightarrow> hugepage_file list \<Rightarrow> 'os hst \<Rightarrow> hugepage_file list \<times> bool \<times> 'os hst" where
  "unmap_pages sys sz socket keep found [] s = ([], True, s)"
| "unmap_pages sys sz socket keep found (p # ps) s =
     (if hf_size p = sz \<and> hf_socket_id p = socket then
        if found = keep then
          let s = os_do (sys_munmap sys (hf_final_va p) (hf_size p)) s;
              (r, s) = os_call (sys_unlink sys (hf_filepath p)) s;
              p = p\<lparr>hf_final_va := 0\<rparr>
          in if r = -1 then (p # ps, False, s)
             else let (ps, ok, s) = unmap_pages sys sz socket keep found ps s in (p # ps, ok, s)
        else let (ps, ok, s) = unmap_pages sys sz socket keep (found + 1) ps s in (p # ps, ok, s)
      else let (ps, ok, s) = unmap_pages sys sz socket keep found ps s in (p # ps, ok, s))"

fun unmap_sizes :: "'os sys \<Rightarrow> hugepage_info list \<Rightarrow> (nat \<times> nat) list \<Rightarrow> hugepage_file list \<Rightarrow> 'os hst \<Rightarrow>
    hugepage_file list \<times> bool \<times> 'os hst" where
  "unmap_sizes sys hpi [] tbl s = (tbl, True, s)"
| "unmap_sizes sys hpi ((sz, socket) # ks) tbl s =
     (let (tbl, ok, s) = unmap_pages sys (hi_hugepage_sz (hpi ! sz)) (int socket) (hi_num_pages (hpi ! sz) ! socket) 0 tbl s
      in if ok then unmap_sizes sys hpi ks tbl s else (tbl, False, s))"

text \<open>An access outside the table is \<open>None\<close>.\<close>

definition unmap_unneeded_hugepages :: "'os sys \<Rightarrow> hugepage_file list \<Rightarrow> hugepage_info list \<Rightarrow> nat \<Rightarrow> 'os hst \<Rightarrow>
    (hugepage_file list \<times> int \<times> 'os hst) option" where
  "unmap_unneeded_hugepages sys tbl hpi num_hp_info s =
     (let nrpages = total_pages num_hp_info (ic_hugepage_info (h_ic s))
      in if nrpages > length tbl then None
         else let (tbl1, ok, s) = unmap_sizes sys hpi (List.product [0..<num_hp_info] [0..<RTE_MAX_NUMA_NODES]) (take nrpages tbl) s
              in Some (tbl1 @ drop nrpages tbl, if ok then 0 else -1, s))"

end
