(* ===== verification/Hugepage_Init.thy ===== *)
theory Hugepage_Init
  imports Hugepage_Map
begin

text \<open>
  Huge pages, initialisation in the primary process and attaching in a secondary one (\<^verbatim>\<open>rte_eal_hugepage_init\<close> and
  \<^verbatim>\<open>rte_eal_hugepage_attach\<close> of \<^verbatim>\<open>linuxapp/eal/eal_memory.c\<close>).
\<close>

section \<open>Preparation\<close>

definition huge_register_sigbus :: "'os sys \<Rightarrow> 'os hst \<Rightarrow> 'os hst" where
  "huge_register_sigbus sys s = (let (r, s) = os_call (sys_sigaction sys) s in s\<lparr>h_huge_need_recover := r = 0\<rparr>)"

definition huge_recover_sigbus :: "'os sys \<Rightarrow> 'os hst \<Rightarrow> 'os hst" where
  "huge_recover_sigbus sys s =
     (if h_huge_need_recover s then (snd (os_call (sys_sigaction sys) s))\<lparr>h_huge_need_recover := False\<rparr> else s)"

definition create_shared_memory :: "'os sys \<Rightarrow> string \<Rightarrow> u64 \<Rightarrow> 'os hst \<Rightarrow> u64 \<times> 'os hst" where
  "create_shared_memory sys filename mem_size s =
     (let (fd, s) = os_call (sys_open sys filename O_RDWR_CREAT) s
      in if fd < 0 then (0, s)
         else let (r, s) = os_call (sys_ftruncate sys fd mem_size) s
              in if r < 0 then (0, os_do (sys_close sys fd) s)
                 else let (a, s) = os_call (sys_mmap sys 0 mem_size PROT_READ_WRITE MAP_SHARED fd) s;
                          s = os_do (sys_close sys fd) s
                      in (case a of None \<Rightarrow> 0 | Some a \<Rightarrow> a, s))"

definition set_num_pages :: "nat \<Rightarrow> nat \<Rightarrow> u32 \<Rightarrow> 'os hst \<Rightarrow> 'os hst" where
  "set_num_pages i socket n s =
     s\<lparr>h_ic := (h_ic s)\<lparr>ic_hugepage_info := set_pages i socket n (ic_hugepage_info (h_ic s))\<rparr>\<rparr>"

section \<open>All pages of one size\<close>

text \<open>
  The pages \<open>tbl\<close> of one size: their physical addresses and sockets, the mapping in the order of the physical
  addresses, and the end of the first mapping; \<open>Inl\<close> when initialisation fails.
\<close>

definition order_pages :: "'os sys \<Rightarrow> hugepage_info \<Rightarrow> hugepage_file list \<Rightarrow> 'os hst \<Rightarrow> ((unit + hugepage_file list) \<times> 'os hst) option" where
  "order_pages sys hpi tbl s =
     (let (tbl, r, s) = (if h_phys_addrs_available s then find_physaddrs sys tbl s else set_physaddrs tbl s)
      in if r < 0 then Some (Inl (), s)
         else let (tbl, r) = find_numasocket sys tbl hpi s
              in if r < 0 then Some (Inl (), s)
                 else do {
                   (n, tbl, _, s) \<leftarrow> map_all_hugepages sys (qsort cmp_physaddr tbl) hpi [] False s;
                   if n \<noteq> length tbl then Some (Inl (), s)
                   else let (tbl, r, s) = unmap_all_hugepages_orig sys (hi_hugepage_sz hpi) tbl s
                        in Some (Inr tbl, s)
                 })"

text \<open>
  The body of the loop over the sizes: the pages of size \<open>i\<close>, mapped in the order of their physical addresses, or
  \<open>Inl\<close> when initialisation fails. The array \<^verbatim>\<open>memory\<close> is shared by the sizes.
\<close>

definition init_size :: "'os sys \<Rightarrow> nat \<Rightarrow> u64 list \<Rightarrow> 'os hst \<Rightarrow> ((unit + hugepage_file list \<times> u64 list) \<times> 'os hst) option" where
  "init_size sys i memory s =
     (let pages_old = unat (hi_num_pages (ic_hugepage_info (h_ic s) ! i) ! 0)
      in if pages_old = 0 then Some (Inr ([], memory), s)
         else do {
           (pages_new, tbl, memory, s) \<leftarrow>
             map_all_hugepages sys (replicate pages_old zero_hf) (ic_hugepage_info (h_ic s) ! i) memory True s;
           let s = (if pages_new < pages_old then set_num_pages i 0 (of_nat pages_new) s else s);
           if pages_new < pages_old \<and> pages_new = 0 then Some (Inr ([], memory), s)
           else do {
             (r, s) \<leftarrow> order_pages sys (ic_hugepage_info (h_ic s) ! i) (take pages_new tbl) s;
             Some (map_sum id (\<lambda>tbl. (tbl, memory)) r, s)
           }
         })"

fun init_sizes :: "'os sys \<Rightarrow> nat list \<Rightarrow> hugepage_file list \<Rightarrow> u64 list \<Rightarrow> 'os hst \<Rightarrow>
    ((unit + hugepage_file list) \<times> 'os hst) option" where
  "init_sizes sys [] tbl memory s = Some (Inr tbl, s)"
| "init_sizes sys (i # is) tbl memory s = do {
     (r, s) \<leftarrow> init_size sys i memory s;
     case r of Inl _ \<Rightarrow> Some (Inl (), s) | Inr (tbl', memory) \<Rightarrow> init_sizes sys is (tbl @ tbl') memory s
   }"

section \<open>Pages of every socket\<close>

text \<open>The counts of pages are cleared and built again, now for each socket.\<close>

definition clear_num_pages :: "internal_config \<Rightarrow> internal_config" where
  "clear_num_pages ic =
     ic\<lparr>ic_hugepage_info := map (\<lambda>h. h\<lparr>hi_num_pages := replicate RTE_MAX_NUMA_NODES 0\<rparr>)
          (take (ic_num_hugepage_sizes ic) (ic_hugepage_info ic)) @ drop (ic_num_hugepage_sizes ic) (ic_hugepage_info ic)\<rparr>"

text \<open>A socket outside the array of counts is \<open>None\<close>.\<close>

fun count_socket_pages :: "nat list \<Rightarrow> hugepage_file \<Rightarrow> hugepage_info list \<Rightarrow> hugepage_info list option" where
  "count_socket_pages [] p info = Some info"
| "count_socket_pages (j # js) p info =
     (if hf_size p = hi_hugepage_sz (info ! j) then
        if hf_socket_id p < 0 \<or> int (length (hi_num_pages (info ! j))) \<le> hf_socket_id p then None
        else count_socket_pages js p
          (set_pages j (nat (hf_socket_id p)) (hi_num_pages (info ! j) ! nat (hf_socket_id p) + 1) info)
      else count_socket_pages js p info)"

fun count_pages :: "nat list \<Rightarrow> hugepage_file list \<Rightarrow> hugepage_info list \<Rightarrow> hugepage_info list option" where
  "count_pages js [] info = Some info"
| "count_pages js (p # ps) info = do { info \<leftarrow> count_socket_pages js p info; count_pages js ps info }"

section \<open>The primary process\<close>

definition fill_no_hugetlbfs :: "'os sys \<Rightarrow> 'os hst \<Rightarrow> 'os hst \<times> int" where
  "fill_no_hugetlbfs sys s =
     (let (addr, s) = os_call (sys_mmap sys 0 (ic_memory (h_ic s)) PROT_READ_WRITE MAP_PRIVATE_ANONYMOUS 0) s
      in case addr of None \<Rightarrow> (s, -1)
         | Some addr \<Rightarrow> (s\<lparr>h_memseg := (h_memseg s)(0 := (h_memseg s 0)\<lparr>ms_addr := addr, ms_hugepage_sz := 4096,
             ms_len := ic_memory (h_ic s), ms_socket_id := 0\<rparr>)\<rparr>, 0))"

text \<open>What follows the mapping of the pages; \<open>tbl\<close> is \<^verbatim>\<open>tmp_hp\<close>, whose length is \<^verbatim>\<open>nr_hugefiles\<close>.\<close>

definition select_pages :: "'os sys \<Rightarrow> lcores \<Rightarrow> hugepage_info list \<Rightarrow> hugepage_file list \<Rightarrow> 'os hst \<Rightarrow>
    ((unit + hugepage_info list) \<times> 'os hst) option" where
  "select_pages sys ls used_hp tbl s = do {
     let ic = h_ic s;
     let ic = (if ic_memory ic = 0 \<and> \<not> ic_force_sockets ic then ic\<lparr>ic_memory := eal_get_hugepage_mem_size ic\<rparr> else ic);
     let ic = clear_num_pages ic;
     info \<leftarrow> count_pages [0..<min MAX_HUGEPAGE_SIZES (ic_num_hugepage_sizes ic)] tbl (ic_hugepage_info ic);
     let ic = ic\<lparr>ic_hugepage_info := info\<rparr>;
     let s = s\<lparr>h_ic := ic\<rparr>;
     (used_hp, n) \<leftarrow> calc_num_pages_per_socket ic ls (ic_socket_mem ic) info used_hp (ic_num_hugepage_sizes ic);
     Some (if n < 0 then Inl () else Inr used_hp, s)
   }"

definition publish_pages :: "'os sys \<Rightarrow> hugepage_info list \<Rightarrow> hugepage_file list \<Rightarrow> 'os hst \<Rightarrow>
    ('os hst \<times> hugepage_file list \<times> int) option" where
  "publish_pages sys used_hp tbl s = do {
     let nr_hugefiles = length tbl;
     let table_size = of_nat nr_hugefiles * SIZEOF_HUGEPAGE_FILE;
     let (hugepage, s) = create_shared_memory sys (eal_hugepage_info_path sys (h_ic s)) table_size s;
     if hugepage = 0 then Some (s, [], -1)
     else do {
       let unmap = os_do (sys_munmap sys hugepage table_size);
       (tbl, r, s) \<leftarrow> unmap_unneeded_hugepages sys tbl used_hp (ic_num_hugepage_sizes (h_ic s)) s;
       if r < 0 then Some (unmap s, [], -1)
       else do {
         let (table, r) = copy_hugepages_to_shared_mem (replicate nr_hugefiles zero_hf) nr_hugefiles tbl nr_hugefiles;
         if r < 0 then Some (unmap s, table, -1)
         else do {
           let s = (if ic_hugepage_unlink (h_ic s) then unlink_hugepage_files sys tbl (ic_num_hugepage_sizes (h_ic s)) s else s);
           let (table, segs, ok) = fill_memsegs None 0 (h_memseg s) table;
           Some (unmap (s\<lparr>h_memseg := segs\<rparr>), table, if ok then 0 else -1)
         }
       }
     }
   }"

text \<open>
  The state, the table of pages left in the file for secondary processes, and the result. \<open>tmp\<close> is the address
  of the local variable of \<^verbatim>\<open>test_phys_addrs_available\<close>.
\<close>

definition rte_eal_hugepage_init :: "'os sys \<Rightarrow> u64 \<Rightarrow> lcores \<Rightarrow> 'os hst \<Rightarrow> ('os hst \<times> hugepage_file list \<times> int) option" where
  "rte_eal_hugepage_init sys tmp ls s = do {
     let s = test_phys_addrs_available sys tmp s;
     if ic_no_hugetlbfs (h_ic s) then (case fill_no_hugetlbfs sys s of (s, r) \<Rightarrow> Some (s, [], r))
     else do {
       let num = ic_num_hugepage_sizes (h_ic s);
       let used_hp = map (\<lambda>h. \<lparr>hi_hugepage_sz = hi_hugepage_sz h, hi_hugedir = None,
             hi_num_pages = replicate RTE_MAX_NUMA_NODES 0, hi_lock_descriptor = 0\<rparr>) (take num (ic_hugepage_info (h_ic s)));
       let nr_hugepages = sum_list (map (\<lambda>h. hi_num_pages h ! 0) (take num (ic_hugepage_info (h_ic s))));
       if \<not> sys_malloc sys (ucast nr_hugepages * SIZEOF_HUGEPAGE_FILE) (h_os s)
       then Some (huge_recover_sigbus sys s, [], -1)
       else do {
         let s = huge_register_sigbus sys s;
         (r, s) \<leftarrow> init_sizes sys [0..<num] [] (ic_socket_mem (h_ic s)) s;
         let s = huge_recover_sigbus sys s;
         case r of
           Inl _ \<Rightarrow> Some (s, [], -1)
         | Inr tbl \<Rightarrow> do {
             (r, s) \<leftarrow> select_pages sys ls used_hp tbl s;
             case r of Inl _ \<Rightarrow> Some (s, [], -1) | Inr used_hp \<Rightarrow> publish_pages sys used_hp tbl s
           }
       }
     }
   }"

section \<open>A secondary process\<close>

text \<open>The segments from \<open>i\<close> on that are in use, of at most \<open>left\<close>, are unmapped.\<close>

fun unmap_segments :: "'os sys \<Rightarrow> nat \<Rightarrow> nat \<Rightarrow> 'os hst \<Rightarrow> 'os hst" where
  "unmap_segments sys 0 i s = s"
| "unmap_segments sys (Suc left) i s =
     (if ms_len (h_memseg s i) = 0 then s
      else unmap_segments sys left (Suc i) (os_do (sys_munmap sys (ms_addr (h_memseg s i)) (ms_len (h_memseg s i))) s))"

text \<open>Every segment is reserved at its address; otherwise \<^verbatim>\<open>max_seg\<close> is the segment that failed.\<close>

fun reserve_segments :: "'os sys \<Rightarrow> int \<Rightarrow> nat \<Rightarrow> nat \<Rightarrow> 'os hst \<Rightarrow> nat option \<times> 'os hst" where
  "reserve_segments sys fd_zero 0 i s = (None, s)"
| "reserve_segments sys fd_zero (Suc left) i s =
     (let ms = h_memseg s i
      in if ms_len ms = 0 then (None, s)
         else let (a, s) = os_call (sys_mmap sys (ms_addr ms) (ms_len ms) PROT_READ MAP_PRIVATE fd_zero) s
              in case a of
                   None \<Rightarrow> (Some i, s)
                 | Some a \<Rightarrow> if a \<noteq> ms_addr ms then (Some i, os_do (sys_munmap sys a (ms_len ms)) s)
                             else reserve_segments sys fd_zero left (Suc i) s)"

text \<open>The pages of segment \<open>seg\<close> are mapped one behind the other from \<open>base_addr + offset\<close> on.\<close>

fun map_segment :: "'os sys \<Rightarrow> nat \<Rightarrow> u64 \<Rightarrow> u64 \<Rightarrow> hugepage_file list \<Rightarrow> u64 \<Rightarrow> 'os hst \<Rightarrow> bool \<times> 'os hst" where
  "map_segment sys seg base_addr len [] offset s = (True, s)"
| "map_segment sys seg base_addr len (p # ps) offset s =
     (if \<not> offset < len then (True, s)
      else if hf_memseg_id p \<noteq> int seg then map_segment sys seg base_addr len ps offset s
      else let (fd, s) = os_call (sys_open sys (hf_filepath p) O_RDWR) s
           in if fd < 0 then (False, s)
              else let (a, s) = os_call (sys_mmap sys (RTE_PTR_ADD base_addr offset) (hf_size p) PROT_READ_WRITE MAP_SHARED fd) s;
                       s = os_do (sys_close sys fd) s
                   in if a \<noteq> Some (RTE_PTR_ADD base_addr offset) then (False, s)
                      else map_segment sys seg base_addr len ps (offset + hf_size p) s)"

fun map_segments :: "'os sys \<Rightarrow> hugepage_file list \<Rightarrow> nat \<Rightarrow> nat \<Rightarrow> 'os hst \<Rightarrow> bool \<times> 'os hst" where
  "map_segments sys hp 0 i s = (True, s)"
| "map_segments sys hp (Suc left) i s =
     (let ms = h_memseg s i
      in if ms_len ms = 0 then (True, s)
         else let s = os_do (sys_munmap sys (ms_addr ms) (ms_len ms)) s;
                  (ok, s) = map_segment sys i (ms_addr ms) (ms_len ms) hp 0 s
              in if ok then map_segments sys hp left (Suc i) s else (False, s))"

text \<open>\<open>table\<close> is the content of the file with the table of pages, \<open>eno\<close> is \<^verbatim>\<open>errno\<close>.\<close>

definition rte_eal_hugepage_attach :: "'os sys \<Rightarrow> u64 \<Rightarrow> int \<Rightarrow> hugepage_file list \<Rightarrow> 'os hst \<Rightarrow> 'os hst \<times> int" where
  "rte_eal_hugepage_attach sys tmp eno table s =
     (let (aslr, s) = aslr_enabled sys eno s;
          s = test_phys_addrs_available sys tmp s;
          (fd_zero, s) = os_call (sys_open sys ''/dev/zero'' O_RDONLY) s
      in if fd_zero < 0 then (unmap_segments sys RTE_MAX_MEMSEG 0 s, -1)
         else let (fd_hugepage, s) = os_call (sys_open sys (eal_hugepage_info_path sys (h_ic s)) O_RDONLY) s
              in if fd_hugepage < 0 then (os_do (sys_close sys fd_zero) (unmap_segments sys RTE_MAX_MEMSEG 0 s), -1)
                 else let close = os_do (sys_close sys fd_hugepage) \<circ> os_do (sys_close sys fd_zero);
                          (failed, s) = reserve_segments sys fd_zero RTE_MAX_MEMSEG 0 s
                      in case failed of
                           Some max_seg \<Rightarrow>
                             let (aslr, s) = aslr_enabled sys eno s in (close (unmap_segments sys max_seg 0 s), -1)
                         | None \<Rightarrow>
                             let sz = (case sys_file_size sys fd_hugepage (h_os s) of None \<Rightarrow> 0 | Some n \<Rightarrow> n);
                                 (hp, s) = os_call (sys_mmap sys 0 sz PROT_READ MAP_PRIVATE fd_hugepage) s
                             in case hp of
                                  None \<Rightarrow> (close (unmap_segments sys RTE_MAX_MEMSEG 0 s), -1)
                                | Some hp \<Rightarrow>
                                    let num_hp = unat (sz div SIZEOF_HUGEPAGE_FILE);
                                        (ok, s) = map_segments sys (take num_hp table) RTE_MAX_MEMSEG 0 s
                                    in if ok then (close (os_do (sys_munmap sys hp sz) s), 0)
                                       else (close (os_do (sys_munmap sys hp sz) (unmap_segments sys RTE_MAX_MEMSEG 0 s)), -1))"

end
