(* ===== verification/Hugepage_Held.thy ===== *)
theory Hugepage_Held
  imports Hugepage_Init Cstring_Correct "HOL-Library.Multiset"
begin

text \<open>
  What the mapping of huge pages relies on: the kernel places a new mapping where nothing else is mapped, and
  taking a mapping away leaves the others alone. From this, the regions that the tables refer to stay
  mapped and apart from each other through every step of \<open>Hugepage_Map\<close>.
\<close>

declare of_nat_add [simp del] of_nat_diff [simp del]

section \<open>Regions\<close>

text \<open>An address and a length.\<close>

type_synonym region = "nat \<times> nat"

definition apart :: "region \<Rightarrow> region \<Rightarrow> bool" where
  "apart r q \<longleftrightarrow> fst r + snd r \<le> fst q \<or> fst q + snd q \<le> fst r"

lemma apart_sym: "apart r q \<longleftrightarrow> apart q r"
  by (auto simp: apart_def)

text \<open>A list of regions that are mapped and apart from each other.\<close>

fun held :: "region set \<Rightarrow> region list \<Rightarrow> bool" where
  "held R [] \<longleftrightarrow> True"
| "held R (r # rs) \<longleftrightarrow> r \<in> R \<and> (\<forall>q \<in> set rs. apart r q) \<and> held R rs"

lemma held_append: "held R (xs @ ys) \<longleftrightarrow> held R xs \<and> held R ys \<and> (\<forall>x \<in> set xs. \<forall>y \<in> set ys. apart x y)"
  by (induction xs) auto

lemma held_mono: "held R rs \<Longrightarrow> R \<subseteq> R' \<Longrightarrow> held R' rs"
  by (induction rs) auto

lemma held_subset: "held R rs \<Longrightarrow> set rs \<subseteq> R"
  by (induction rs) auto

lemma held_apart_mono: "held R rs \<Longrightarrow> set rs \<subseteq> R' \<Longrightarrow> held R' rs"
  by (induction rs) auto

lemma held_perm: "mset xs = mset ys \<Longrightarrow> held R xs \<Longrightarrow> held R ys"
proof (induction ys arbitrary: xs)
  case (Cons y ys)
  then have "y \<in> set xs" by (metis list.set_intros(1) mset_eq_setD)
  then obtain as bs where xs: "xs = as @ y # bs" by (meson split_list)
  with Cons.prems have m: "mset (as @ bs) = mset ys" "held R (as @ bs)" by (auto simp: held_append)
  then have "held R ys" by (rule Cons.IH)
  moreover have "set ys = set (as @ bs)" using m(1) by (metis mset_eq_setD)
  then have "\<forall>q \<in> set ys. apart y q" "y \<in> R" using Cons.prems(2) unfolding xs by (auto simp: held_append apart_sym)
  ultimately show ?case by simp
qed simp

section \<open>The kernel\<close>

text \<open>
  \<open>regs\<close>: the mapped regions. A mapping from hugetlbfs is aligned to the page, and no mapping starts at
  address 0 or reaches the end of the address space. The other calls map and unmap nothing.
\<close>

definition mmap_law :: "'os sys \<Rightarrow> ('os \<Rightarrow> region set) \<Rightarrow> bool" where
  "mmap_law sys regs \<longleftrightarrow>
     (\<forall>hint len prot fl fd os. case sys_mmap sys hint len prot fl fd os of
        (None, os') \<Rightarrow> regs os \<subseteq> regs os'
      | (Some a, os') \<Rightarrow> a \<noteq> 0 \<and> unat a + unat len < 2 ^ 64 \<and> (fl = MAP_SHARED_POPULATE \<longrightarrow> unat len dvd unat a) \<and>
          (\<forall>r \<in> regs os. apart (unat a, unat len) r) \<and> insert (unat a, unat len) (regs os) \<subseteq> regs os')"

definition munmap_law :: "'os sys \<Rightarrow> ('os \<Rightarrow> region set) \<Rightarrow> bool" where
  "munmap_law sys regs \<longleftrightarrow>
     (\<forall>a len os. \<forall>r \<in> regs os. apart (unat a, unat len) r \<longrightarrow> r \<in> regs (sys_munmap sys a len os))"

definition quiet :: "('os \<Rightarrow> region set) \<Rightarrow> ('os \<Rightarrow> 'os) \<Rightarrow> bool" where
  "quiet regs f \<longleftrightarrow> (\<forall>os. regs os \<subseteq> regs (f os))"

definition quiet_calls :: "'os sys \<Rightarrow> ('os \<Rightarrow> region set) \<Rightarrow> bool" where
  "quiet_calls sys regs \<longleftrightarrow>
     (\<forall>p fl. quiet regs (snd \<circ> sys_open sys p fl)) \<and> (\<forall>fd. quiet regs (sys_close sys fd)) \<and>
     (\<forall>fd off. quiet regs (snd \<circ> sys_lseek sys fd off)) \<and> (\<forall>fd n. quiet regs (snd \<circ> sys_read sys fd n)) \<and>
     (\<forall>fd n. quiet regs (snd \<circ> sys_ftruncate sys fd n)) \<and> (\<forall>fd opn. quiet regs (snd \<circ> sys_flock sys fd opn)) \<and>
     (\<forall>p. quiet regs (snd \<circ> sys_unlink sys p)) \<and> (\<forall>a. quiet regs (snd \<circ> sys_touch sys a)) \<and>
     quiet regs (snd \<circ> sys_sigaction sys) \<and> (\<forall>n. quiet regs (sys_numa_set_preferred sys n)) \<and>
     (\<forall>p. quiet regs (snd \<circ> sys_set_mempolicy sys p)) \<and> quiet regs (sys_numa_set_localalloc sys)"

definition kernel_laws :: "'os sys \<Rightarrow> ('os \<Rightarrow> region set) \<Rightarrow> bool" where
  "kernel_laws sys regs \<longleftrightarrow> mmap_law sys regs \<and> munmap_law sys regs \<and> quiet_calls sys regs"

section \<open>Calls that keep what is mapped\<close>

text \<open>Nothing is unmapped, and the configuration and the segments are left alone.\<close>

definition keeps :: "('os \<Rightarrow> region set) \<Rightarrow> 'os hst \<Rightarrow> 'os hst \<Rightarrow> bool" where
  "keeps regs s s' \<longleftrightarrow> regs (h_os s) \<subseteq> regs (h_os s') \<and> h_ic s' = h_ic s \<and> h_memseg s' = h_memseg s"

lemma keeps_refl [simp]: "keeps regs s s"
  by (simp add: keeps_def)

lemma keeps_trans [trans]: "keeps regs s s' \<Longrightarrow> keeps regs s' s'' \<Longrightarrow> keeps regs s s''"
  by (auto simp: keeps_def)

lemma keeps_fields [simp]:
  "keeps regs s (s'\<lparr>h_baseaddr_offset := b\<rparr>) = keeps regs s s'"
  "keeps regs s (s'\<lparr>h_phys_addrs_available := pa\<rparr>) = keeps regs s s'"
  "keeps regs s (s'\<lparr>h_huge_need_recover := r\<rparr>) = keeps regs s s'"
  "keeps regs s (s'\<lparr>h_set_addr := a\<rparr>) = keeps regs s s'"
  by (simp_all add: keeps_def)

lemma keeps_held: "keeps regs s s' \<Longrightarrow> held (regs (h_os s)) rs \<Longrightarrow> held (regs (h_os s')) rs"
  by (auto simp: keeps_def intro: held_mono)

lemma os_do_fields [simp]: "h_ic (os_do f s) = h_ic s" "h_memseg (os_do f s) = h_memseg s" "h_os (os_do f s) = f (h_os s)"
  by (simp_all add: os_do_def)

lemma os_callD:
  assumes "os_call g s = (r, s')"
  shows "g (h_os s) = (r, h_os s')" "h_ic s' = h_ic s" "h_memseg s' = h_memseg s"
  using assms by (auto simp: os_call_def split: prod.splits)

lemma keeps_call: "quiet regs (snd \<circ> g) \<Longrightarrow> os_call g s = (r, s') \<Longrightarrow> keeps regs s s'"
  unfolding keeps_def quiet_def by (auto dest: os_callD) (metis comp_apply os_callD(1) snd_conv subsetD)

lemma keeps_do: "quiet regs f \<Longrightarrow> keeps regs s (os_do f s)"
  by (simp add: keeps_def quiet_def)

lemma kernel_quiet:
  assumes "kernel_laws sys regs"
  shows "quiet regs (snd \<circ> sys_open sys p fl)" "quiet regs (sys_close sys fd)"
    "quiet regs (snd \<circ> sys_lseek sys fd off)" "quiet regs (snd \<circ> sys_read sys fd n)"
    "quiet regs (snd \<circ> sys_ftruncate sys fd sz)" "quiet regs (snd \<circ> sys_flock sys fd opn)"
    "quiet regs (snd \<circ> sys_unlink sys p)" "quiet regs (snd \<circ> sys_touch sys a)"
    "quiet regs (snd \<circ> sys_sigaction sys)" "quiet regs (sys_numa_set_preferred sys k)"
    "quiet regs (snd \<circ> sys_set_mempolicy sys pol)" "quiet regs (sys_numa_set_localalloc sys)"
  using assms by (simp_all add: kernel_laws_def quiet_calls_def)

lemma mmap_new:
  assumes "kernel_laws sys regs" "os_call (sys_mmap sys hint len prot fl fd) s = (Some a, s')"
  shows "a \<noteq> 0" "unat a + unat len < 2 ^ 64" "fl = MAP_SHARED_POPULATE \<Longrightarrow> unat len dvd unat a"
    "\<forall>r \<in> regs (h_os s). apart (unat a, unat len) r" "(unat a, unat len) \<in> regs (h_os s')" "keeps regs s s'"
proof -
  have ml: "mmap_law sys regs" using assms(1) by (simp add: kernel_laws_def)
  note c = os_callD [OF assms(2)]
  show "a \<noteq> 0" "unat a + unat len < 2 ^ 64" "fl = MAP_SHARED_POPULATE \<Longrightarrow> unat len dvd unat a"
    "\<forall>r \<in> regs (h_os s). apart (unat a, unat len) r" "(unat a, unat len) \<in> regs (h_os s')" "keeps regs s s'"
    using ml [unfolded mmap_law_def, THEN spec, of hint, THEN spec, of len, THEN spec, of prot, THEN spec, of fl, THEN spec, of fd,
      THEN spec, of "h_os s"] c by (simp_all add: keeps_def)
qed

lemma mmap_fail:
  assumes "kernel_laws sys regs" "os_call (sys_mmap sys hint len prot fl fd) s = (None, s')"
  shows "keeps regs s s'"
proof -
  have ml: "mmap_law sys regs" using assms(1) by (simp add: kernel_laws_def)
  note c = os_callD [OF assms(2)]
  show ?thesis
    using ml [unfolded mmap_law_def, THEN spec, of hint, THEN spec, of len, THEN spec, of prot, THEN spec, of fl, THEN spec, of fd,
      THEN spec, of "h_os s"] c by (simp add: keeps_def)
qed

lemma munmap_keeps:
  assumes "kernel_laws sys regs" "\<forall>r \<in> regs (h_os s). apart (unat a, unat len) r" "keeps regs s s1"
  shows "keeps regs s (os_do (sys_munmap sys a len) s1)"
  using assms unfolding kernel_laws_def munmap_law_def keeps_def by fastforce

lemma munmap_held:
  assumes "kernel_laws sys regs" "held (regs (h_os s)) rs" "\<forall>r \<in> set rs. apart (unat a, unat len) r"
  shows "held (regs (h_os (os_do (sys_munmap sys a len) s))) rs"
proof (rule held_apart_mono [OF assms(2)])
  show "set rs \<subseteq> regs (h_os (os_do (sys_munmap sys a len) s))"
    using assms held_subset [OF assms(2)] unfolding kernel_laws_def munmap_law_def by fastforce
qed

section \<open>Physical addresses\<close>

lemma virt2phy_keeps:
  assumes "kernel_laws sys regs" "rte_mem_virt2phy sys va s = (r, s')"
  shows "keeps regs s s'"
proof -
  note q = kernel_quiet [OF assms(1)]
  show ?thesis
  proof (cases "h_phys_addrs_available s")
    case True
    obtain fd s1 where c1: "os_call (sys_open sys ''/proc/self/pagemap'' O_RDONLY) s = (fd, s1)" by fastforce
    obtain off s2 where c2: "os_call (sys_lseek sys fd (8 * (va div sys_page_size sys))) s1 = (off, s2)" by fastforce
    obtain n bs s3 where c3: "os_call (sys_read sys fd 8) s2 = ((n, bs), s3)" by (metis prod.collapse)
    note k = keeps_call [OF q(1) c1] keeps_call [OF q(3) c2] keeps_call [OF q(4) c3] keeps_do [OF q(2)]
    have "s' = s1 \<or> s' = os_do (sys_close sys fd) s2 \<or> s' = os_do (sys_close sys fd) s3"
      using assms(2) True by (auto simp: rte_mem_virt2phy_def c1 c2 c3 Let_def split: if_splits)
    then show ?thesis using k by (blast intro: keeps_trans)
  qed (use assms(2) in \<open>simp add: rte_mem_virt2phy_def\<close>)
qed

lemma find_physaddrs_keeps:
  assumes "kernel_laws sys regs" "find_physaddrs sys ps s = (ps', r, s')"
  shows "keeps regs s s'" "map (\<lambda>p. p\<lparr>hf_physaddr := 0\<rparr>) ps' = map (\<lambda>p. p\<lparr>hf_physaddr := 0\<rparr>) ps"
proof -
  have "keeps regs s s' \<and> map (\<lambda>p. p\<lparr>hf_physaddr := 0\<rparr>) ps' = map (\<lambda>p. p\<lparr>hf_physaddr := 0\<rparr>) ps"
    using assms(2)
  proof (induction ps arbitrary: s ps' r s')
    case (Cons p ps)
    obtain a s1 where c: "rte_mem_virt2phy sys (hf_orig_va p) s = (a, s1)" by fastforce
    obtain ps1 r1 s2 where f: "find_physaddrs sys ps s1 = (ps1, r1, s2)" by (metis prod_cases3)
    show ?case using Cons.prems Cons.IH [OF f] virt2phy_keeps [OF assms(1) c] c f
      by (auto split: if_splits dest: keeps_trans)
  qed simp
  then show "keeps regs s s'" "map (\<lambda>p. p\<lparr>hf_physaddr := 0\<rparr>) ps' = map (\<lambda>p. p\<lparr>hf_physaddr := 0\<rparr>) ps" by simp_all
qed

lemma set_physaddrs_keeps:
  assumes "set_physaddrs ps s = (ps', r, s')"
  shows "keeps regs s s' \<and> map (\<lambda>p. p\<lparr>hf_physaddr := 0\<rparr>) ps' = map (\<lambda>p. p\<lparr>hf_physaddr := 0\<rparr>) ps"
  using assms
proof (induction ps arbitrary: s ps' r s')
  case (Cons p ps)
  obtain ps1 r1 s2 where f: "set_physaddrs ps (s\<lparr>h_set_addr := h_set_addr s + hf_size p\<rparr>) = (ps1, r1, s2)" by (metis prod_cases3)
  show ?case using Cons.prems Cons.IH [OF f] f by (auto simp: keeps_def)
qed simp

section \<open>The virtual area\<close>

lemma virtual_area_keeps:
  assumes laws: "kernel_laws sys regs" and r: "virtual_area_loop sys hint hp fd sz s = Some (a, n, s')"
  shows "\<exists>s0. keeps regs s s0 \<and> keeps regs s0 s' \<and> (\<forall>b. a = Some b \<longrightarrow> (\<forall>r \<in> regs (h_os s0). apart (unat b, unat (n + hp)) r))"
proof -
  define P where "P = (\<lambda>(sys :: 'a sys) (hint :: u64) hp (fd :: int) (sz :: u64) s (r :: u64 option \<times> u64 \<times> 'a hst).
    kernel_laws sys regs \<longrightarrow> (case r of (a, n, s') \<Rightarrow>
      \<exists>s0. keeps regs s s0 \<and> keeps regs s0 s' \<and> (\<forall>b. a = Some b \<longrightarrow> (\<forall>r \<in> regs (h_os s0). apart (unat b, unat (n + hp)) r))))"
  from r have "P sys hint hp fd sz s (a, n, s')"
  proof (rule virtual_area_loop.raw_induct [where P = P, rotated])
    fix loop and sys :: "'a sys" and hint hp :: u64 and fd and sz :: u64 and s and r :: "u64 option \<times> u64 \<times> 'a hst"
    assume ih: "\<And>sys hint hp fd sz s r. loop sys hint hp fd sz s = Some r \<Longrightarrow> P sys hint hp fd sz s r"
      and eq: "(let (addr, s) = os_call (sys_mmap sys hint (sz + hp) PROT_READ MAP_PRIVATE fd) s
        in case addr of Some a \<Rightarrow> Some (Some a, sz, s)
           | None \<Rightarrow> if sz - hp > 0 then loop sys hint hp fd (sz - hp) s else Some (None, sz - hp, s)) = Some r"
    obtain addr s1 where m: "os_call (sys_mmap sys hint (sz + hp) PROT_READ MAP_PRIVATE fd) s = (addr, s1)" by fastforce
    show "P sys hint hp fd sz s r"
      unfolding P_def
    proof (rule impI)
      assume laws: "kernel_laws sys regs"
      show "case r of (a, n, s') \<Rightarrow> \<exists>s0. keeps regs s s0 \<and> keeps regs s0 s' \<and>
          (\<forall>b. a = Some b \<longrightarrow> (\<forall>r \<in> regs (h_os s0). apart (unat b, unat (n + hp)) r))"
      proof (cases addr)
        case (Some b)
        then have "r = (Some b, sz, s1)" using eq m by simp
        then show ?thesis using mmap_new(4,6) [OF laws m [unfolded Some]] by (auto intro!: exI [of _ s])
      next
        case None
        note k = mmap_fail [OF laws m [unfolded None]]
        show ?thesis
        proof (cases "sz - hp > 0")
          case True
          then have "loop sys hint hp fd (sz - hp) s1 = Some r" using eq m None by simp
          from ih [OF this] laws k show ?thesis unfolding P_def by (cases r) (auto intro: keeps_trans)
        next
          case False
          then have "r = (None, sz - hp, s1)" using eq m None by simp
          then show ?thesis using k by (auto intro!: exI [of _ s])
        qed
      qed
    qed
  qed
  then show ?thesis using laws by (simp add: P_def)
qed

lemma get_virtual_area_keeps:
  assumes laws: "kernel_laws sys regs" and r: "get_virtual_area sys sz hp s = Some (a, n, s')"
  shows "keeps regs s s'"
proof -
  note q = kernel_quiet [OF laws]
  define hint where "hint = (if ic_base_virtaddr (h_ic s) \<noteq> 0
    then RTE_PTR_ALIGN_FLOOR (ic_base_virtaddr (h_ic s) + h_baseaddr_offset s) (sys_page_size sys) else 0)"
  obtain fd s1 where c: "os_call (sys_open sys ''/dev/zero'' O_RDONLY) s = (fd, s1)" by fastforce
  note k1 = keeps_call [OF q(1) c]
  show ?thesis
  proof (cases "fd < 0")
    case True
    then show ?thesis using r c k1 by (simp add: get_virtual_area_def)
  next
    case False
    from r obtain b m s2 where v: "virtual_area_loop sys hint hp fd sz s1 = Some (b, m, s2)"
      and res: "(case b of None \<Rightarrow> Some (0, m, os_do (sys_close sys fd) s2)
        | Some addr \<Rightarrow> let s = os_do (sys_munmap sys addr (m + hp)) s2; s = os_do (sys_close sys fd) s;
              aligned_addr = (addr + (hp - 1)) AND NOT (hp - 1)
            in Some (aligned_addr, m, s\<lparr>h_baseaddr_offset := h_baseaddr_offset s + m\<rparr>)) = Some (a, n, s')"
      using False unfolding get_virtual_area_def c Let_def prod.case hint_def [symmetric] by (auto simp: bind_eq_Some_conv)
    from virtual_area_keeps [OF laws v] obtain s0 where s0: "keeps regs s1 s0" "keeps regs s0 s2"
      "\<forall>c. b = Some c \<longrightarrow> (\<forall>r \<in> regs (h_os s0). apart (unat c, unat (m + hp)) r)" by blast
    show ?thesis
    proof (cases b)
      case None
      then have "s' = os_do (sys_close sys fd) s2" using res by simp
      then show ?thesis using k1 s0(1,2) keeps_do [OF q(2), of s2 fd] by (blast intro: keeps_trans)
    next
      case (Some c)
      let ?s = "os_do (sys_close sys fd) (os_do (sys_munmap sys c (m + hp)) s2)"
      have "keeps regs s0 (os_do (sys_munmap sys c (m + hp)) s2)"
        using munmap_keeps [OF laws _ s0(2)] s0(3) Some by blast
      then have "keeps regs s ?s" using k1 s0(1) keeps_do [OF q(2)] by (blast intro: keeps_trans)
      moreover have "s' = ?s\<lparr>h_baseaddr_offset := h_baseaddr_offset ?s + m\<rparr>" using res Some by (auto simp: Let_def)
      ultimately show ?thesis by simp
    qed
  qed
qed

end
