(* ===== verification/Hugepage_Pages.thy ===== *)
theory Hugepage_Pages
  imports Hugepage_Held
begin

text \<open>
  The tables of pages while the pages are mapped, mapped again in order, and given back: the regions they
  refer to stay mapped and apart from each other.
\<close>

declare of_nat_add [simp del] of_nat_diff [simp del]

section \<open>One page\<close>

definition page_va :: "bool \<Rightarrow> hugepage_file \<Rightarrow> u64" where
  "page_va orig p = (if orig then hf_orig_va p else hf_final_va p)"

text \<open>A region that a page of size \<open>sz\<close> is mapped to.\<close>

definition good_va :: "u64 \<Rightarrow> u64 \<Rightarrow> bool" where
  "good_va sz a \<longleftrightarrow> a \<noteq> 0 \<and> unat a + unat sz < 2 ^ 64 \<and> unat sz dvd unat a"

text \<open>What mapping does to the entry of a page.\<close>

definition page_step :: "bool \<Rightarrow> u64 \<Rightarrow> hugepage_file \<Rightarrow> hugepage_file \<Rightarrow> bool" where
  "page_step orig sz p p' \<longleftrightarrow> good_va sz (page_va orig p') \<and>
     (if orig then hf_size p' = sz else p' = p\<lparr>hf_final_va := hf_final_va p'\<rparr>)"

definition fresh_va :: "('os \<Rightarrow> region set) \<Rightarrow> 'os hst \<Rightarrow> 'os hst \<Rightarrow> u64 \<Rightarrow> u64 \<Rightarrow> bool" where
  "fresh_va regs s s' sz a \<longleftrightarrow> (\<forall>r \<in> regs (h_os s). apart (unat a, unat sz) r) \<and> (unat a, unat sz) \<in> regs (h_os s')"

lemma fresh_va_keeps: "fresh_va regs s s' sz a \<Longrightarrow> keeps regs s0 s \<Longrightarrow> keeps regs s' s'' \<Longrightarrow> fresh_va regs s0 s'' sz a"
  by (auto simp: fresh_va_def keeps_def)

lemma map_file_keeps:
  assumes laws: "kernel_laws sys regs" and r: "map_file sys orig sz maxnode i v s = (ok, v', s')"
  shows "keeps regs s s'"
    "ok \<Longrightarrow> \<exists>a. good_va sz a \<and> fresh_va regs s s' sz a \<and>
       ma_tbl v' = (ma_tbl v)[i := if orig then (ma_tbl v ! i)\<lparr>hf_orig_va := a\<rparr> else (ma_tbl v ! i)\<lparr>hf_final_va := a\<rparr>]"
    "\<not> ok \<Longrightarrow> \<exists>p. ma_tbl v' = (ma_tbl v)[i := p]"
proof -
  note q = kernel_quiet [OF laws]
  let ?path = "hf_filepath (ma_tbl v ! i)"
  obtain fd s1 where c1: "os_call (sys_open sys ?path O_RDWR_CREAT) s = (fd, s1)" by fastforce
  note k1 = keeps_call [OF q(1) c1]
  have "keeps regs s s' \<and> (ok \<longrightarrow> (\<exists>a. good_va sz a \<and> fresh_va regs s s' sz a \<and>
       ma_tbl v' = (ma_tbl v)[i := if orig then (ma_tbl v ! i)\<lparr>hf_orig_va := a\<rparr> else (ma_tbl v ! i)\<lparr>hf_final_va := a\<rparr>])) \<and>
       (\<not> ok \<longrightarrow> (\<exists>p. ma_tbl v' = (ma_tbl v)[i := p]))"
  proof (cases "fd < 0")
    case True
    then have "ok = False" "v' = v" "s' = s1" using r c1 by (simp_all add: map_file_def)
    then show ?thesis using k1 by (auto intro: exI [of _ "ma_tbl v ! i"])
  next
    case fd: False
    obtain va s2 where c2: "os_call (sys_mmap sys (ma_vma_addr v) sz PROT_READ_WRITE MAP_SHARED_POPULATE fd) s1 = (va, s2)"
      by fastforce
    show ?thesis
    proof (cases va)
      case None
      then have "ok = False" "v' = v" "s' = os_do (sys_close sys fd) s2" using r c1 c2 fd by (simp_all add: map_file_def)
      then show ?thesis using k1 mmap_fail [OF laws c2 [unfolded None]] keeps_do [OF q(2)]
        by (auto intro: exI [of _ "ma_tbl v ! i"] keeps_trans)
    next
      case (Some a)
      note m = mmap_new [OF laws c2 [unfolded Some]]
      have a: "good_va sz a" using m(1-3) by (simp add: good_va_def)
      define p where "p = (if orig then (ma_tbl v ! i)\<lparr>hf_orig_va := a\<rparr> else (ma_tbl v ! i)\<lparr>hf_final_va := a\<rparr>)"
      define v1 where "v1 = upd_page i (\<lambda>p. if orig then p\<lparr>hf_orig_va := a\<rparr> else p\<lparr>hf_final_va := a\<rparr>) v"
      have v1: "ma_tbl v1 = (ma_tbl v)[i := p]" by (simp add: v1_def upd_page_def p_def)
      obtain bus s3 where c3: "(if orig then os_call (sys_touch sys a) s2 else (False, s2)) = (bus, s3)" by fastforce
      have k3: "keeps regs s2 s3" using c3 keeps_call [OF q(8), of a s2 bus s3] by (auto split: if_splits)
      show ?thesis
      proof (cases bus)
        case True
        obtain rr s5 where c5: "os_call (sys_unlink sys ?path) (os_do (sys_close sys fd) (os_do (sys_munmap sys a sz) s3)) = (rr, s5)"
          by fastforce
        have e: "ok = False" "s' = s5" "ma_tbl v' = ma_tbl v1"
          using r c1 c2 c3 c5 fd Some True by (auto simp: map_file_def Let_def v1_def split: if_splits)
        have "keeps regs s1 (os_do (sys_munmap sys a sz) s3)"
          using m(4,6) k3 by (intro munmap_keeps [OF laws]) (auto intro: keeps_trans)
        then have "keeps regs s1 s5" using keeps_do [OF q(2)] keeps_call [OF q(7) c5] by (blast intro: keeps_trans)
        then show ?thesis using e v1 k1 by (auto intro: keeps_trans)
      next
        case nb: False
        obtain fl s4 where c4: "os_call (sys_flock sys fd LOCK_SH_NB) s3 = (fl, s4)" by fastforce
        have s': "s' = os_do (sys_close sys fd) s4" and ok: "ok \<longleftrightarrow> fl \<noteq> -1" and v': "ma_tbl v' = ma_tbl v1"
          using r c1 c2 c3 c4 fd Some nb by (auto simp: map_file_def Let_def v1_def split: if_splits)
        have k: "keeps regs s2 s'" unfolding s' using k3 keeps_call [OF q(6) c4] keeps_do [OF q(2)] by (blast intro: keeps_trans)
        have "fresh_va regs s1 s2 sz a" using m(4,5) by (simp add: fresh_va_def)
        then have "fresh_va regs s s' sz a" using k1 k by (rule fresh_va_keeps)
        then show ?thesis using a k k1 m(6) v1 v' by (auto simp: p_def intro: keeps_trans)
      qed
    qed
  qed
  then show "keeps regs s s'"
    "ok \<Longrightarrow> \<exists>a. good_va sz a \<and> fresh_va regs s s' sz a \<and>
       ma_tbl v' = (ma_tbl v)[i := if orig then (ma_tbl v ! i)\<lparr>hf_orig_va := a\<rparr> else (ma_tbl v ! i)\<lparr>hf_final_va := a\<rparr>]"
    "\<not> ok \<Longrightarrow> \<exists>p. ma_tbl v' = (ma_tbl v)[i := p]" by blast+
qed

lemma pick_node_tbl: "pick_node sm maxnode sz v = Some v' \<Longrightarrow> ma_tbl v' = ma_tbl v"
  by (auto simp: pick_node_def Let_def bind_eq_Some_conv split: option.splits)

lemma map_page_keeps:
  assumes laws: "kernel_laws sys regs" and r: "map_page sys orig hpi maxnode i v s = Some (ok, v', s')"
    and i: "i < length (ma_tbl v)"
  defines "sz \<equiv> hi_hugepage_sz hpi"
  shows "keeps regs s s'"
    "ok \<Longrightarrow> \<exists>p. page_step orig sz (ma_tbl v ! i) p \<and> fresh_va regs s s' sz (page_va orig p) \<and> ma_tbl v' = (ma_tbl v)[i := p]"
    "\<not> ok \<Longrightarrow> \<exists>p. ma_tbl v' = (ma_tbl v)[i := p]"
proof -
  note q = kernel_quiet [OF laws]
  from r obtain v1 s1 v2 s2 where c1: "(if maxnode \<noteq> 0 then do {
         v \<leftarrow> pick_node (ic_socket_mem (h_ic s)) maxnode sz v;
         Some (v, os_do (sys_numa_set_preferred sys (nat (ma_node_id v))) s)
       } else Some (v, s)) = Some (v1, s1)"
    and c2: "(if orig
       then Some (upd_page i (\<lambda>p. p\<lparr>hf_file_id := int i, hf_size := sz,
         hf_filepath := eal_get_hugefile_path (h_ic s1) PATH_MAX (hi_hugedir hpi) i\<rparr>) v1, s1)
       else if ma_vma_len v1 = 0 then do {
         let num_pages = contiguous_pages sz (drop i (ma_tbl v1));
         (addr, len, s) \<leftarrow> get_virtual_area sys (of_nat num_pages * sz) sz s1;
         Some (v1\<lparr>ma_vma_addr := addr, ma_vma_len := if addr = 0 then sz else len\<rparr>, s)
       } else Some (v1, s1)) = Some (v2, s2)"
    and c3: "map_file sys orig sz maxnode i v2 s2 = (ok, v', s')"
    unfolding map_page_def Let_def sz_def by (auto simp: bind_eq_Some_conv split del: if_split)
  have k1: "keeps regs s s1" "ma_tbl v1 = ma_tbl v"
    using c1 pick_node_tbl keeps_do [OF q(10)] by (auto simp: bind_eq_Some_conv split: if_splits)
  have k2: "keeps regs s1 s2" "\<not> orig \<Longrightarrow> ma_tbl v2 = ma_tbl v1"
    "orig \<Longrightarrow> \<exists>p. ma_tbl v2 = (ma_tbl v1)[i := p] \<and> hf_size p = sz"
    using c2 get_virtual_area_keeps [OF laws]
    by (auto simp: bind_eq_Some_conv Let_def upd_page_def split: if_splits)
  note f = map_file_keeps [OF laws c3]
  show "keeps regs s s'" using k1 k2(1) f(1) by (blast intro: keeps_trans)
  obtain p where p: "ma_tbl v2 = (ma_tbl v)[i := p]" "orig \<Longrightarrow> hf_size p = sz" "\<not> orig \<Longrightarrow> p = ma_tbl v ! i"
    using k1(2) k2(2,3) by (cases orig) (auto intro: that [of "ma_tbl v ! i"])
  have pi: "ma_tbl v2 ! i = p" using p(1) i by simp
  show "\<exists>p. page_step orig sz (ma_tbl v ! i) p \<and> fresh_va regs s s' sz (page_va orig p) \<and> ma_tbl v' = (ma_tbl v)[i := p]" if ok
  proof -
    from f(2) [OF that, unfolded pi] obtain a where a: "good_va sz a" "fresh_va regs s2 s' sz a"
      "ma_tbl v' = (ma_tbl v2)[i := if orig then p\<lparr>hf_orig_va := a\<rparr> else p\<lparr>hf_final_va := a\<rparr>]" by blast
    have "fresh_va regs s s' sz a" using a(2) k1(1) k2(1) by (blast intro: fresh_va_keeps keeps_trans keeps_refl)
    then show ?thesis using a(1,3) p
      by (intro exI [of _ "if orig then p\<lparr>hf_orig_va := a\<rparr> else p\<lparr>hf_final_va := a\<rparr>"]) (simp add: page_step_def page_va_def)
  qed
  show "\<exists>p. ma_tbl v' = (ma_tbl v)[i := p]" if "\<not> ok" using f(3) [OF that] p(1) by auto
qed

section \<open>All pages of one size\<close>

definition page_regs :: "bool \<Rightarrow> u64 \<Rightarrow> hugepage_file list \<Rightarrow> region list" where
  "page_regs orig sz ps = map (\<lambda>p. (unat (page_va orig p), unat sz)) ps"

lemma page_regs_simps [simp]:
  "page_regs orig sz [] = []" "page_regs orig sz (p # ps) = (unat (page_va orig p), unat sz) # page_regs orig sz ps"
  by (simp_all add: page_regs_def)

lemma fresh_held:
  assumes "fresh_va regs s s' sz a" "keeps regs s s'" "held (regs (h_os s)) rs"
  shows "held (regs (h_os s')) ((unat a, unat sz) # rs)"
  using assms(1) keeps_held [OF assms(2,3)] held_subset [OF assms(3)] by (auto simp: fresh_va_def)

lemma map_loop_keeps:
  assumes laws: "kernel_laws sys regs"
    and "map_loop sys orig hpi maxnode left i v s = Some (j, v', s')" "i + left = length (ma_tbl v)"
    "held (regs (h_os s)) rs"
  defines "sz \<equiv> hi_hugepage_sz hpi"
  shows "\<exists>ps. keeps regs s s' \<and> i \<le> j \<and> j = i + length ps \<and> take j (ma_tbl v') = take i (ma_tbl v) @ ps \<and>
    length (ma_tbl v') = length (ma_tbl v) \<and> list_all2 (page_step orig sz) (take (length ps) (drop i (ma_tbl v))) ps \<and>
    held (regs (h_os s')) (page_regs orig sz ps @ rs)"
  using assms(2-4)
proof (induction left arbitrary: i v s rs)
  case 0
  then show ?case by (auto intro!: exI [of _ "[]"])
next
  case (Suc left)
  have i: "i < length (ma_tbl v)" using Suc.prems(2) by simp
  from Suc.prems(1) obtain ok v1 s1 where c: "map_page sys orig hpi maxnode i v s = Some (ok, v1, s1)"
    and rest: "(if ok then map_loop sys orig hpi maxnode left (Suc i) v1 s1 else Some (i, v1, s1)) = Some (j, v', s')"
    by (auto simp: bind_eq_Some_conv split del: if_split)
  note m = map_page_keeps [OF laws c i, folded sz_def]
  show ?case
  proof (cases ok)
    case False
    then have "j = i" "v' = v1" "s' = s1" using rest by simp_all
    then show ?thesis using m(1) m(3) [OF False] keeps_held [OF m(1) Suc.prems(3)] i
      by (auto intro!: exI [of _ "[]"])
  next
    case True
    from m(2) [OF True] obtain p where p: "page_step orig sz (ma_tbl v ! i) p" "fresh_va regs s s1 sz (page_va orig p)"
      "ma_tbl v1 = (ma_tbl v)[i := p]" by blast
    have "held (regs (h_os s1)) ((unat (page_va orig p), unat sz) # rs)" using fresh_held [OF p(2) m(1) Suc.prems(3)] .
    moreover have "map_loop sys orig hpi maxnode left (Suc i) v1 s1 = Some (j, v', s')" using rest True by simp
    moreover have "Suc i + left = length (ma_tbl v1)" using Suc.prems(2) p(3) by simp
    ultimately obtain ps where ps: "keeps regs s1 s'" "Suc i \<le> j" "j = Suc i + length ps"
      "take j (ma_tbl v') = take (Suc i) (ma_tbl v1) @ ps" "length (ma_tbl v') = length (ma_tbl v1)"
      "list_all2 (page_step orig sz) (take (length ps) (drop (Suc i) (ma_tbl v1))) ps"
      "held (regs (h_os s')) (page_regs orig sz ps @ (unat (page_va orig p), unat sz) # rs)"
      using Suc.IH by blast
    have "held (regs (h_os s')) (page_regs orig sz (p # ps) @ rs)"
      by (rule held_perm [OF _ ps(7)]) simp
    moreover have "take j (ma_tbl v') = take i (ma_tbl v) @ p # ps"
      using ps(4) p(3) i by (simp add: take_Suc_conv_app_nth)
    moreover have "list_all2 (page_step orig sz) (take (length (p # ps)) (drop i (ma_tbl v))) (p # ps)"
      using ps(6) p(1,3) i by (simp add: Cons_nth_drop_Suc [symmetric])
    ultimately show ?thesis using ps(1,2,3,5) m(1) p(3) by (intro exI [of _ "p # ps"]) (auto intro: keeps_trans)
  qed
qed

lemma map_all_keeps:
  assumes laws: "kernel_laws sys regs"
    and r: "map_all_hugepages sys tbl hpi ess orig s = Some (n, tbl', ess', s')"
    and h: "held (regs (h_os s)) rs"
  defines "sz \<equiv> hi_hugepage_sz hpi"
  shows "keeps regs s s'" "n \<le> length tbl" "length tbl' = length tbl"
    "list_all2 (page_step orig sz) (take n tbl) (take n tbl')"
    "held (regs (h_os s')) (page_regs orig sz (take n tbl') @ rs)"
proof -
  note q = kernel_quiet [OF laws]
  define maxnode where "maxnode = (if orig \<and> sys_numa_available sys (h_os s) then max_node (ic_socket_mem (h_ic s)) else 0)"
  define old where "old = (case sys_get_mempolicy sys (h_os s) of None \<Rightarrow> 0 | Some p \<Rightarrow> p)"
  define v where "v = \<lparr>ma_tbl = tbl, ma_essential = ess, ma_node_id = -1, ma_essential_prev = 0, ma_vma_addr = 0, ma_vma_len = 0\<rparr>"
  from r obtain v1 s1 where c: "map_loop sys orig hpi maxnode (length tbl) 0 v s = Some (n, v1, s1)"
    and e: "tbl' = ma_tbl v1" and s': "s' = (if maxnode = 0 then s1
       else if old = 0 then os_do (sys_numa_set_localalloc sys) s1
       else let (r, s) = os_call (sys_set_mempolicy sys old) s1
            in if r < 0 then os_do (sys_numa_set_localalloc sys) s else s)"
    unfolding map_all_hugepages_def Let_def maxnode_def [symmetric] old_def [symmetric] v_def [symmetric]
    by (auto simp: bind_eq_Some_conv split del: if_split)
  obtain rr s2 where c2: "os_call (sys_set_mempolicy sys old) s1 = (rr, s2)" by fastforce
  have k: "keeps regs s1 s'" unfolding s' c2 Let_def prod.case
    using keeps_do [OF q(12)] keeps_call [OF q(11) c2] by (auto intro: keeps_trans)
  have len: "0 + length tbl = length (ma_tbl v)" by (simp add: v_def)
  obtain ps where ps: "keeps regs s s1" "n = length ps" "take n tbl' = ps"
    "length tbl' = length tbl" "list_all2 (page_step orig sz) (take n tbl) ps" "held (regs (h_os s1)) (page_regs orig sz ps @ rs)"
    using map_loop_keeps [OF laws c len h] by (elim exE conjE) (rule that; simp add: v_def sz_def e)
  show "keeps regs s s'" using ps(1) k by (rule keeps_trans)
  show "n \<le> length tbl" using list_all2_lengthD [OF ps(5)] ps(2) by simp
  show "length tbl' = length tbl" by (rule ps(4))
  show "list_all2 (page_step orig sz) (take n tbl) (take n tbl')" unfolding ps(3) by (rule ps(5))
  show "held (regs (h_os s')) (page_regs orig sz (take n tbl') @ rs)" unfolding ps(3) using k ps(6) by (rule keeps_held)
qed

lemma unmap_orig_held:
  assumes laws: "kernel_laws sys regs"
    and "unmap_all_hugepages_orig sys sz ps s = (ps', r, s')" "held (regs (h_os s)) (page_regs True sz ps @ rs)"
    "\<forall>p \<in> set ps. hf_orig_va p \<noteq> 0"
  shows "held (regs (h_os s')) rs \<and> h_ic s' = h_ic s \<and> h_memseg s' = h_memseg s \<and> r = 0 \<and>
    ps' = map (\<lambda>p. p\<lparr>hf_orig_va := 0\<rparr>) ps"
  using assms(2-)
proof (induction ps arbitrary: s ps' r s')
  case (Cons p ps)
  let ?s = "os_do (sys_munmap sys (hf_orig_va p) sz) s"
  obtain ps1 r1 s1 where c: "unmap_all_hugepages_orig sys sz ps ?s = (ps1, r1, s1)" by (metis prod_cases3)
  have "held (regs (h_os ?s)) (page_regs True sz ps @ rs)"
    using Cons.prems(2) by (intro munmap_held [OF laws]) (simp_all add: page_va_def)
  from Cons.IH [OF c this] Cons.prems(1,3) c show ?case by (auto simp: Let_def)
qed simp

section \<open>From the first mapping to the second\<close>

text \<open>What searching for the physical addresses and the sockets leaves alone.\<close>

definition page_core :: "hugepage_file \<Rightarrow> u64 \<times> u64" where
  "page_core p = (hf_orig_va p, hf_size p)"

lemma core_phys: "map (\<lambda>p. p\<lparr>hf_physaddr := 0\<rparr>) ps' = map (\<lambda>p. p\<lparr>hf_physaddr := 0\<rparr>) ps \<Longrightarrow> map page_core ps' = map page_core ps"
  by (drule arg_cong [where f = "map page_core"]) (simp add: comp_def page_core_def [abs_def])

lemma core_numa_lines: "numa_lines h bufs tbl k = (tbl', k', ok) \<Longrightarrow> map page_core tbl' = map page_core tbl"
  by (induction bufs arbitrary: tbl k) (fastforce split: option.splits sum.splits prod.splits simp: page_core_def)+

lemma core_numasocket: "find_numasocket sys tbl hpi s = (tbl', r) \<Longrightarrow> map page_core tbl' = map page_core tbl"
  by (auto simp: find_numasocket_def Let_def core_numa_lines split: option.splits prod.splits)

lemma mset_qsort: "mset (qsort cmp xs) = mset xs"
proof (induction xs)
  case (Cons x xs)
  have "mset (qsort_insert cmp x ys) = add_mset x (mset ys)" for ys by (induction ys) auto
  then show ?case using Cons by (simp add: qsort_def)
qed (simp add: qsort_def)

lemma page_regs_core: "map page_core ps = map page_core qs \<Longrightarrow> page_regs True sz ps = page_regs True sz qs"
  by (auto dest!: arg_cong [where f = "map (\<lambda>(a, n). (unat a, unat sz))"] simp: comp_def page_core_def page_regs_def page_va_def)

lemma all_core: "map page_core ps = map page_core qs \<Longrightarrow> \<forall>p \<in> set qs. P (hf_orig_va p) (hf_size p) \<Longrightarrow> \<forall>p \<in> set ps. P (hf_orig_va p) (hf_size p)"
proof (intro ballI)
  fix p assume e: "map page_core ps = map page_core qs" and q: "\<forall>p \<in> set qs. P (hf_orig_va p) (hf_size p)" and p: "p \<in> set ps"
  from p have "page_core p \<in> page_core ` set qs" unfolding set_map [symmetric] e [symmetric] by simp
  then show "P (hf_orig_va p) (hf_size p)" using q by (auto simp: page_core_def)
qed

text \<open>A page in use, and the regions of the pages in use.\<close>

definition page_ok :: "u64 set \<Rightarrow> hugepage_file \<Rightarrow> bool" where
  "page_ok szs p \<longleftrightarrow> hf_size p \<in> szs \<and> good_va (hf_size p) (hf_final_va p)"

definition in_use :: "hugepage_file list \<Rightarrow> hugepage_file list" where
  "in_use ps = filter (\<lambda>p. hf_final_va p \<noteq> 0) ps"

definition fin_regs :: "hugepage_file list \<Rightarrow> region list" where
  "fin_regs ps = map (\<lambda>p. (unat (hf_final_va p), unat (hf_size p))) (in_use ps)"

lemma in_use_append [simp]: "in_use (xs @ ys) = in_use xs @ in_use ys"
  by (simp add: in_use_def)

lemma fin_regs_append [simp]: "fin_regs (xs @ ys) = fin_regs xs @ fin_regs ys"
  by (simp add: fin_regs_def)

lemma fin_regs_Nil [simp]: "fin_regs [] = []"
  by (simp add: fin_regs_def in_use_def)

text \<open>What the calls change of the configuration: the numbers of pages only.\<close>

definition hp_sizes :: "internal_config \<Rightarrow> u64 list" where
  "hp_sizes ic = map hi_hugepage_sz (take (ic_num_hugepage_sizes ic) (ic_hugepage_info ic))"

definition same_sizes :: "'os hst \<Rightarrow> 'os hst \<Rightarrow> bool" where
  "same_sizes s s' \<longleftrightarrow> map hi_hugepage_sz (ic_hugepage_info (h_ic s')) = map hi_hugepage_sz (ic_hugepage_info (h_ic s)) \<and>
     ic_num_hugepage_sizes (h_ic s') = ic_num_hugepage_sizes (h_ic s) \<and> h_memseg s' = h_memseg s"

lemma same_sizes_refl [simp]: "same_sizes s s"
  by (simp add: same_sizes_def)

lemma same_sizes_trans: "same_sizes s s' \<Longrightarrow> same_sizes s' s'' \<Longrightarrow> same_sizes s s''"
  by (simp add: same_sizes_def)

lemma keeps_sizes: "keeps regs s s' \<Longrightarrow> same_sizes s s'"
  by (simp add: keeps_def same_sizes_def)

lemma sizes_set_pages [simp]: "map hi_hugepage_sz (set_pages i j n info) = map hi_hugepage_sz info"
  by (cases "i < length info") (simp_all add: set_pages_def map_update list_update_same_conv list_update_beyond)

lemma same_sizes_hp: "same_sizes s s' \<Longrightarrow> hp_sizes (h_ic s') = hp_sizes (h_ic s)"
  by (simp add: same_sizes_def hp_sizes_def take_map [symmetric])

lemma same_sizes_nth:
  assumes "same_sizes s s'" "i < length (ic_hugepage_info (h_ic s))"
  shows "hi_hugepage_sz (ic_hugepage_info (h_ic s') ! i) = hi_hugepage_sz (ic_hugepage_info (h_ic s) ! i)"
  using assms unfolding same_sizes_def by (metis length_map nth_map)

lemma same_sizes_length: "same_sizes s s' \<Longrightarrow> length (ic_hugepage_info (h_ic s')) = length (ic_hugepage_info (h_ic s))"
  unfolding same_sizes_def by (metis length_map)

lemma page_step_final:
  assumes "page_step False sz p q"
  shows "hf_orig_va q = hf_orig_va p" "hf_size q = hf_size p" "good_va sz (hf_final_va q)"
proof -
  have e: "q = p\<lparr>hf_final_va := hf_final_va q\<rparr>" using assms by (simp add: page_step_def)
  show "hf_orig_va q = hf_orig_va p" "hf_size q = hf_size p" by (subst e, simp)+
  show "good_va sz (hf_final_va q)" using assms by (simp add: page_step_def page_va_def)
qed

text \<open>The second mapping of the sorted pages, and the end of the first one.\<close>

lemma remap_held:
  assumes laws: "kernel_laws sys regs"
    and h: "held (regs (h_os s)) (page_regs True sz tbl @ rs)" and tbl: "\<forall>p \<in> set tbl. hf_orig_va p \<noteq> 0 \<and> hf_size p = sz"
    and sz: "hi_hugepage_sz hpi = sz"
    and m: "map_all_hugepages sys (qsort cmp_physaddr tbl) hpi [] False s = Some (n, tbl1, ess, s1)"
    and n: "n = length tbl1"
    and u: "unmap_all_hugepages_orig sys sz tbl1 s1 = (tbl2, r, s2)"
  shows "held (regs (h_os s2)) (fin_regs tbl2 @ rs)" "same_sizes s s2" "\<forall>p \<in> set tbl2. page_ok {sz} p"
proof -
  let ?q = "qsort cmp_physaddr tbl"
  have "mset (page_regs True sz ?q) = mset (page_regs True sz tbl)" by (simp add: page_regs_def mset_qsort)
  then have hq: "held (regs (h_os s)) (page_regs True sz ?q @ rs)" by (intro held_perm [OF _ h]) simp
  note k = map_all_keeps [OF laws m hq, unfolded sz]
  have len: "length tbl1 = n" "n = length ?q" using k(3) n by simp_all
  have st: "list_all2 (page_step False sz) ?q tbl1" using k(4) len by simp
  have reg: "page_regs True sz tbl1 = page_regs True sz ?q" and fin: "\<forall>p \<in> set tbl1. hf_orig_va p \<noteq> 0 \<and> hf_size p = sz \<and> good_va sz (hf_final_va p)"
  proof -
    have pt: "\<forall>p \<in> set ?q. hf_orig_va p \<noteq> 0 \<and> hf_size p = sz" using tbl by simp
    from st pt show "page_regs True sz tbl1 = page_regs True sz ?q"
    proof (induction rule: list_all2_induct)
      case (Cons p ps q qs)
      then show ?case using page_step_final(1) [OF Cons.hyps(1)] by (simp add: page_va_def)
    qed simp
    from st pt show "\<forall>p \<in> set tbl1. hf_orig_va p \<noteq> 0 \<and> hf_size p = sz \<and> good_va sz (hf_final_va p)"
    proof (induction rule: list_all2_induct)
      case (Cons p ps q qs)
      then show ?case using page_step_final [OF Cons.hyps(1)] by simp
    qed simp
  qed
  have "held (regs (h_os s1)) (page_regs True sz tbl1 @ (page_regs False sz tbl1 @ rs))"
    using k(5) len unfolding reg by (intro held_perm [OF _ k(5)]) simp
  note d = unmap_orig_held [OF laws u this]
  have e: "tbl2 = map (\<lambda>p. p\<lparr>hf_orig_va := 0\<rparr>) tbl1" and ic: "h_ic s2 = h_ic s1" "h_memseg s2 = h_memseg s1"
    and h2: "held (regs (h_os s2)) (page_regs False sz tbl1 @ rs)" using d fin by simp_all
  have nz: "in_use tbl2 = tbl2" using fin unfolding e in_use_def by (auto simp: good_va_def filter_id_conv)
  have "fin_regs tbl2 = page_regs False sz tbl1"
    unfolding fin_regs_def nz using fin by (simp add: e page_regs_def page_va_def)
  then show "held (regs (h_os s2)) (fin_regs tbl2 @ rs)" using h2 by simp
  show "same_sizes s s2" using keeps_sizes [OF k(1)] ic by (simp add: same_sizes_def)
  show "\<forall>p \<in> set tbl2. page_ok {sz} p" using fin by (simp add: e page_ok_def)
qed

section \<open>All sizes\<close>

lemma order_pages_held:
  assumes laws: "kernel_laws sys regs" and r: "order_pages sys hpi tbl s = Some (Inr tbl', s')"
    and h: "held (regs (h_os s)) (page_regs True sz tbl @ rs)" and tbl: "\<forall>p \<in> set tbl. hf_orig_va p \<noteq> 0 \<and> hf_size p = sz"
    and sz: "hi_hugepage_sz hpi = sz"
  shows "held (regs (h_os s')) (fin_regs tbl' @ rs) \<and> same_sizes s s' \<and> (\<forall>p \<in> set tbl'. page_ok {sz} p)"
proof -
  obtain t3 r3 s3 where f: "(if h_phys_addrs_available s then find_physaddrs sys tbl s else set_physaddrs tbl s) = (t3, r3, s3)"
    by (metis prod_cases3)
  obtain t4 r4 where g: "find_numasocket sys t3 hpi s3 = (t4, r4)" by fastforce
  have k3: "keeps regs s s3" "map page_core t3 = map page_core tbl"
  proof -
    have "keeps regs s s3 \<and> map (\<lambda>p. p\<lparr>hf_physaddr := 0\<rparr>) t3 = map (\<lambda>p. p\<lparr>hf_physaddr := 0\<rparr>) tbl"
    proof (cases "h_phys_addrs_available s")
      case True
      then have "find_physaddrs sys tbl s = (t3, r3, s3)" using f by simp
      from find_physaddrs_keeps [OF laws this] show ?thesis by blast
    next
      case False
      then have "set_physaddrs tbl s = (t3, r3, s3)" using f by simp
      then show ?thesis by (rule set_physaddrs_keeps)
    qed
    then show "keeps regs s s3" "map page_core t3 = map page_core tbl" using core_phys by blast+
  qed
  have c4: "map page_core t4 = map page_core tbl" using core_numasocket [OF g] k3(2) by simp
  have body: "(if r3 < 0 then Some (Inl (), s3)
    else if r4 < 0 then Some (Inl (), s3)
    else do {
      (n, tbl, _, s) \<leftarrow> map_all_hugepages sys (qsort cmp_physaddr t4) hpi [] False s3;
      if n \<noteq> length tbl then Some (Inl (), s)
      else (case unmap_all_hugepages_orig sys sz tbl s of (tbl, r, s) \<Rightarrow> Some (Inr tbl, s))
    }) = Some (Inr tbl', s')"
    using r unfolding order_pages_def Let_def f g prod.case sz .
  then obtain k t5 e5 s5 where m2: "map_all_hugepages sys (qsort cmp_physaddr t4) hpi [] False s3 = Some (k, t5, e5, s5)"
    by (auto simp: bind_eq_Some_conv split: if_splits)
  obtain t6 r6 s6 where u: "unmap_all_hugepages_orig sys sz t5 s5 = (t6, r6, s6)" by (metis prod_cases3)
  have fin: "k = length t5" "tbl' = t6" "s' = s6"
    using body m2 u by (auto split: if_splits)
  have h3: "held (regs (h_os s3)) (page_regs True sz t4 @ rs)"
    using keeps_held [OF k3(1) h] by (simp add: page_regs_core [OF c4])
  have ok4: "\<forall>p \<in> set t4. hf_orig_va p \<noteq> 0 \<and> hf_size p = sz"
    using all_core [OF c4, of "\<lambda>a n. a \<noteq> 0 \<and> n = sz"] tbl by blast
  from remap_held [OF laws h3 ok4 sz m2 fin(1) u] show ?thesis
    unfolding fin(2,3) using keeps_sizes [OF k3(1)] by (blast intro: same_sizes_trans)
qed

lemma init_size_held:
  assumes laws: "kernel_laws sys regs" and i: "i < length (ic_hugepage_info (h_ic s))"
    and r: "init_size sys i memory s = Some (Inr (tbl, memory'), s')" and h: "held (regs (h_os s)) rs"
  defines "sz \<equiv> hi_hugepage_sz (ic_hugepage_info (h_ic s) ! i)"
  shows "held (regs (h_os s')) (fin_regs tbl @ rs) \<and> same_sizes s s' \<and> (\<forall>p \<in> set tbl. page_ok {sz} p)"
proof (cases "unat (hi_num_pages (ic_hugepage_info (h_ic s) ! i) ! 0) = 0")
  case True
  then show ?thesis using r h by (simp add: init_size_def)
next
  case nz: False
  define old where "old = unat (hi_num_pages (ic_hugepage_info (h_ic s) ! i) ! 0)"
  from r nz obtain n t1 mem1 s1 where m: "map_all_hugepages sys (replicate old zero_hf) (ic_hugepage_info (h_ic s) ! i) memory True s = Some (n, t1, mem1, s1)"
    and body: "(let s = (if n < old then set_num_pages i 0 (of_nat n) s1 else s1)
      in if n < old \<and> n = 0 then Some (Inr ([], mem1), s)
         else do {
           (r, s) \<leftarrow> order_pages sys (ic_hugepage_info (h_ic s) ! i) (take n t1) s;
           Some (map_sum id (\<lambda>tbl. (tbl, mem1)) r, s)
         }) = Some (Inr (tbl, memory'), s')"
    unfolding init_size_def Let_def old_def [symmetric] by (auto simp: bind_eq_Some_conv split del: if_split)
  define s2 where "s2 = (if n < old then set_num_pages i 0 (of_nat n) s1 else s1)"
  note k1 = map_all_keeps [OF laws m h, folded sz_def]
  have s12: "same_sizes s1 s2" "h_os s2 = h_os s1" by (simp_all add: s2_def same_sizes_def set_num_pages_def)
  have ss: "same_sizes s s2" using keeps_sizes [OF k1(1)] s12(1) by (rule same_sizes_trans)
  have hsz: "hi_hugepage_sz (ic_hugepage_info (h_ic s2) ! i) = sz" unfolding sz_def by (rule same_sizes_nth [OF ss i])
  have h2: "held (regs (h_os s2)) (page_regs True sz (take n t1) @ rs)" using k1(5) s12(2) by simp
  have ok2: "\<forall>p \<in> set (take n t1). hf_orig_va p \<noteq> 0 \<and> hf_size p = sz"
    using k1(4) by (induction rule: list_all2_induct) (auto simp: page_step_def page_va_def good_va_def)
  show ?thesis
  proof (cases "n < old \<and> n = 0")
    case True
    then show ?thesis using body h2 ss s2_def by auto
  next
    case False
    then obtain r3 s3 where o: "order_pages sys (ic_hugepage_info (h_ic s2) ! i) (take n t1) s2 = Some (r3, s3)"
      and e: "map_sum id (\<lambda>tbl. (tbl, mem1)) r3 = Inr (tbl, memory')" "s' = s3"
      using body by (auto simp: bind_eq_Some_conv Let_def simp flip: s2_def)
    have "r3 = Inr tbl" using e(1) by (cases r3) auto
    from order_pages_held [OF laws o [unfolded this] h2 ok2 hsz] show ?thesis
      unfolding e(2) using ss by (blast intro: same_sizes_trans)
  qed
qed

lemma init_sizes_held:
  assumes laws: "kernel_laws sys regs"
    and "init_sizes sys is tbl memory s = Some (Inr tbl', s')" "\<forall>i \<in> set is. i < length (ic_hugepage_info (h_ic s))"
    "held (regs (h_os s)) (fin_regs tbl)" "\<forall>p \<in> set tbl. page_ok szs p"
    "\<forall>i \<in> set is. hi_hugepage_sz (ic_hugepage_info (h_ic s) ! i) \<in> szs"
  shows "held (regs (h_os s')) (fin_regs tbl') \<and> same_sizes s s' \<and> (\<forall>p \<in> set tbl'. page_ok szs p)"
  using assms(2-)
proof (induction "is" arbitrary: tbl memory s)
  case (Cons i "is")
  from Cons.prems(1) obtain r1 s1 where c0: "init_size sys i memory s = Some (r1, s1)"
    and rest0: "(case r1 of Inl _ \<Rightarrow> Some (Inl (), s1) | Inr (tbl', memory) \<Rightarrow> init_sizes sys is (tbl @ tbl') memory s1) = Some (Inr tbl', s')"
    by (auto simp: bind_eq_Some_conv)
  then obtain t1 mem1 where r1: "r1 = Inr (t1, mem1)" by (cases r1) auto
  note c = c0 [unfolded r1] and rest = rest0 [unfolded r1, simplified]
  have i: "i < length (ic_hugepage_info (h_ic s))" using Cons.prems(2) by simp
  from init_size_held [OF laws i c Cons.prems(3)] have st: "held (regs (h_os s1)) (fin_regs t1 @ fin_regs tbl)" "same_sizes s s1"
    "\<forall>p \<in> set t1. page_ok {hi_hugepage_sz (ic_hugepage_info (h_ic s) ! i)} p" by blast+
  have "held (regs (h_os s1)) (fin_regs (tbl @ t1))" by (rule held_perm [OF _ st(1)]) simp
  moreover have "\<forall>p \<in> set (tbl @ t1). page_ok szs p" using Cons.prems(4,5) st(3) by (auto simp: page_ok_def)
  moreover have "\<forall>j \<in> set is. j < length (ic_hugepage_info (h_ic s1))"
    using Cons.prems(2) same_sizes_length [OF st(2)] by simp
  moreover have "\<forall>j \<in> set is. hi_hugepage_sz (ic_hugepage_info (h_ic s1) ! j) \<in> szs"
    using Cons.prems(2,5) same_sizes_nth [OF st(2)] by simp
  ultimately show ?case using Cons.IH [OF rest] st(2) by (blast intro: same_sizes_trans)
qed auto

end
