(* ===== verification/Hugepage_Correct.thy ===== *)
theory Hugepage_Correct
  imports Hugepage Lcore_Correct
begin

text \<open>
  The calculations of \<open>Hugepage\<close>: the memory segments are the maximal contiguous runs of the pages, and the
  pages chosen for a socket cover the memory asked for with at most one page in excess.
\<close>

declare of_nat_add [simp del] of_nat_diff [simp del]

section \<open>Runs of pages\<close>

text \<open>Two pages of a run follow each other in both address spaces, on one socket and of one size.\<close>

definition page_next :: "hugepage_file \<Rightarrow> hugepage_file \<Rightarrow> bool" where
  "page_next q p \<longleftrightarrow> hf_socket_id p = hf_socket_id q \<and> hf_size p = hf_size q \<and>
     hf_physaddr p = hf_physaddr q + hf_size q \<and> hf_final_va p = hf_final_va q + hf_size q"

text \<open>The pages cut into runs wherever a page does not follow the page \<open>q\<close> before it.\<close>

fun runs_from :: "hugepage_file \<Rightarrow> hugepage_file list \<Rightarrow> hugepage_file list \<times> hugepage_file list list" where
  "runs_from q [] = ([], [])"
| "runs_from q (p # ps) =
     (let (r, rs) = runs_from p ps in if page_next q p then (p # r, rs) else ([], (p # r) # rs))"

definition runs :: "hugepage_file list \<Rightarrow> hugepage_file list list" where
  "runs ps = (case ps of [] \<Rightarrow> [] | p # ps \<Rightarrow> let (r, rs) = runs_from p ps in (p # r) # rs)"

lemma new_memseg_iff: "\<not> new_memseg (Some q) p \<longleftrightarrow> page_next q p"
  by (auto simp: new_memseg_def page_next_def algebra_simps)

lemma runs_simps: "runs [] = []" "runs (p # ps) = (p # fst (runs_from p ps)) # snd (runs_from p ps)"
  by (simp_all add: runs_def split: prod.splits)

lemma runs_from_concat: "runs_from q ps = (r, rs) \<Longrightarrow> r @ concat rs = ps"
  by (induction ps arbitrary: q r rs) (auto split: prod.splits if_splits)

lemma runs_concat: "concat (runs ps) = ps"
  using runs_from_concat [OF prod.collapse [symmetric]] by (cases ps) (auto simp: runs_simps)

lemma runs_from_ne: "runs_from q ps = (r, rs) \<Longrightarrow> [] \<notin> set rs"
  by (induction ps arbitrary: q r rs) (auto split: prod.splits if_splits)

lemma runs_ne: "[] \<notin> set (runs ps)"
  using runs_from_ne [OF prod.collapse [symmetric]] by (cases ps) (auto simp: runs_simps)

lemma runs_from_next: "runs_from q ps = (r, rs) \<Longrightarrow> successively page_next (q # r) \<and> (\<forall>r' \<in> set rs. successively page_next r')"
proof (induction ps arbitrary: q r rs)
  case (Cons p ps)
  obtain r1 rs1 where r1: "runs_from p ps = (r1, rs1)" by fastforce
  note ih = Cons.IH [OF r1]
  show ?case using Cons.prems ih r1 by (auto split: if_splits)
qed simp

lemma runs_next: "r \<in> set (runs ps) \<Longrightarrow> successively page_next r"
  using runs_from_next [OF prod.collapse [symmetric]] by (cases ps) (auto simp: runs_simps)

text \<open>A run cannot be extended by the run behind it.\<close>

lemma runs_from_maximal:
  "runs_from q ps = (r, rs) \<Longrightarrow> successively (\<lambda>a b. \<not> page_next (last a) (hd b)) ((q # r) # rs)"
proof (induction ps arbitrary: q r rs)
  case (Cons p ps)
  obtain r1 rs1 where r1: "runs_from p ps = (r1, rs1)" by fastforce
  note ih = Cons.IH [OF r1]
  show ?case using Cons.prems ih r1 by (auto split: if_splits simp: successively_Cons)
qed simp

lemma runs_maximal: "successively (\<lambda>a b. \<not> page_next (last a) (hd b)) (runs ps)"
  using runs_from_maximal [OF prod.collapse [symmetric]] by (cases ps) (auto simp: runs_simps successively_Cons)

section \<open>The segments are the runs\<close>

definition seg_of :: "hugepage_file list \<Rightarrow> rte_memseg \<Rightarrow> rte_memseg" where
  "seg_of r ms = ms\<lparr>ms_phys_addr := hf_physaddr (hd r), ms_addr := hf_final_va (hd r),
     ms_socket_id := hf_socket_id (hd r), ms_hugepage_sz := hf_size (hd r), ms_len := of_nat (length r) * hf_size (hd r)\<rparr>"

text \<open>The pages with the numbers of their segments, from \<open>j\<close> on.\<close>

fun number_runs :: "nat \<Rightarrow> hugepage_file list list \<Rightarrow> hugepage_file list" where
  "number_runs j [] = []"
| "number_runs j (r # rs) = map (\<lambda>p. p\<lparr>hf_memseg_id := int j\<rparr>) r @ number_runs (Suc j) rs"

definition put_segs :: "nat \<Rightarrow> hugepage_file list list \<Rightarrow> (nat \<Rightarrow> rte_memseg) \<Rightarrow> nat \<Rightarrow> rte_memseg" where
  "put_segs j rs segs k = (if j \<le> k \<and> k < j + length rs then seg_of (rs ! (k - j)) (segs k) else segs k)"

lemma put_segs_Cons: "put_segs j (r # rs) segs = put_segs (Suc j) rs (segs(j := seg_of r (segs j)))"
  by (rule ext) (auto simp: put_segs_def nth_Cons' Suc_diff_Suc not_less)

lemma put_segs_Nil: "put_segs j [] segs = segs"
  by (rule ext) (auto simp: put_segs_def)

lemma fill_from:
  assumes "runs_from q ps = (r, rs)" "ms_hugepage_sz (segs j) = hf_size q" "j < RTE_MAX_MEMSEG"
  shows "case fill_memsegs (Some q) (Suc j) segs ps of (ps', segs', ok) \<Rightarrow>
    (ok \<longleftrightarrow> Suc j + length rs \<le> RTE_MAX_MEMSEG) \<and>
    (ok \<longrightarrow> ps' = map (\<lambda>p. p\<lparr>hf_memseg_id := int j\<rparr>) r @ number_runs (Suc j) rs \<and>
      segs' = put_segs (Suc j) rs (segs(j := (segs j)\<lparr>ms_len := ms_len (segs j) + of_nat (length r) * hf_size q\<rparr>)))"
  using assms
proof (induction ps arbitrary: q r rs segs j)
  case Nil
  then show ?case by (simp add: put_segs_Nil)
next
  case (Cons p ps)
  obtain r1 rs1 where r1: "runs_from p ps = (r1, rs1)" by fastforce
  show ?case
  proof (cases "new_memseg (Some q) p")
    case True
    then have r: "r = []" "rs = (p # r1) # rs1" using Cons.prems(1) r1 new_memseg_iff [of q p] by simp_all
    show ?thesis
    proof (cases "Suc j = RTE_MAX_MEMSEG")
      case False
      let ?segs = "segs(Suc j := (segs (Suc j))\<lparr>ms_phys_addr := hf_physaddr p, ms_addr := hf_final_va p, ms_len := hf_size p,
            ms_socket_id := hf_socket_id p, ms_hugepage_sz := hf_size p\<rparr>)"
      have "case fill_memsegs (Some p) (Suc (Suc j)) ?segs ps of (ps', segs', ok) \<Rightarrow>
        (ok \<longleftrightarrow> Suc (Suc j) + length rs1 \<le> RTE_MAX_MEMSEG) \<and>
        (ok \<longrightarrow> ps' = map (\<lambda>p. p\<lparr>hf_memseg_id := int (Suc j)\<rparr>) r1 @ number_runs (Suc (Suc j)) rs1 \<and>
          segs' = put_segs (Suc (Suc j)) rs1 (?segs(Suc j := (?segs (Suc j))\<lparr>ms_len := ms_len (?segs (Suc j)) + of_nat (length r1) * hf_size p\<rparr>)))"
        using r1 Cons.prems(3) False by (intro Cons.IH) simp_all
      moreover have "?segs(Suc j := (?segs (Suc j))\<lparr>ms_len := ms_len (?segs (Suc j)) + of_nat (length r1) * hf_size p\<rparr>) =
        segs(Suc j := seg_of (p # r1) (segs (Suc j)))"
        by (simp add: seg_of_def algebra_simps)
      moreover have "segs(j := (segs j)\<lparr>ms_len := ms_len (segs j) + of_nat (length r) * hf_size q\<rparr>) = segs"
        by (simp add: r)
      ultimately show ?thesis using True False
        by (simp add: r put_segs_Cons fun_upd_twist split: prod.splits del: fun_upd_apply)
    qed (use True r in \<open>simp\<close>)
  next
    case False
    then have r: "r = p # r1" "rs = rs1" using Cons.prems(1) r1 new_memseg_iff [of q p] by simp_all
    have sz: "hf_size p = hf_size q" using False new_memseg_iff [of q p] by (simp add: page_next_def)
    let ?segs = "segs(j := (segs j)\<lparr>ms_len := ms_len (segs j) + ms_hugepage_sz (segs j)\<rparr>)"
    have "case fill_memsegs (Some p) (Suc j) ?segs ps of (ps', segs', ok) \<Rightarrow>
      (ok \<longleftrightarrow> Suc j + length rs1 \<le> RTE_MAX_MEMSEG) \<and>
      (ok \<longrightarrow> ps' = map (\<lambda>p. p\<lparr>hf_memseg_id := int j\<rparr>) r1 @ number_runs (Suc j) rs1 \<and>
        segs' = put_segs (Suc j) rs1 (?segs(j := (?segs j)\<lparr>ms_len := ms_len (?segs j) + of_nat (length r1) * hf_size p\<rparr>)))"
      using r1 Cons.prems(2,3) sz by (intro Cons.IH) simp_all
    moreover have "?segs(j := (?segs j)\<lparr>ms_len := ms_len (?segs j) + of_nat (length r1) * hf_size p\<rparr>) =
      segs(j := (segs j)\<lparr>ms_len := ms_len (segs j) + of_nat (length r) * hf_size q\<rparr>)"
      using Cons.prems(2) by (simp add: r sz algebra_simps)
    ultimately show ?thesis using False by (simp add: r split: prod.splits del: fun_upd_apply)
  qed
qed

lemma fill_runs:
  "case fill_memsegs None 0 segs ps of (ps', segs', ok) \<Rightarrow>
     (ok \<longleftrightarrow> length (runs ps) \<le> RTE_MAX_MEMSEG) \<and>
     (ok \<longrightarrow> ps' = number_runs 0 (runs ps) \<and> segs' = put_segs 0 (runs ps) segs)"
proof (cases ps)
  case Nil
  then show ?thesis by (simp add: runs_def put_segs_Nil)
next
  case (Cons p ps1)
  obtain r rs where r: "runs_from p ps1 = (r, rs)" by fastforce
  let ?segs = "segs(0 := (segs 0)\<lparr>ms_phys_addr := hf_physaddr p, ms_addr := hf_final_va p, ms_len := hf_size p,
            ms_socket_id := hf_socket_id p, ms_hugepage_sz := hf_size p\<rparr>)"
  have "?segs(0 := (?segs 0)\<lparr>ms_len := ms_len (?segs 0) + of_nat (length r) * hf_size p\<rparr>) = segs(0 := seg_of (p # r) (segs 0))"
    by (simp add: seg_of_def algebra_simps)
  with fill_from [of p ps1 r rs ?segs 0] show ?thesis
    by (simp add: Cons r runs_def put_segs_Cons new_memseg_def RTE_MAX_MEMSEG_def split: prod.splits)
qed

text \<open>
  C35. The last loop of \<^verbatim>\<open>rte_eal_hugepage_init\<close> makes one memory segment of every maximal run of pages that
  follow each other in both address spaces on one socket, numbers the pages accordingly and leaves the other
  segments alone. It fails exactly if there are more than \<^verbatim>\<open>RTE_MAX_MEMSEG\<close> runs. The runs are the pages
  in order, none is empty, in each every page follows the page before, and none can be joined to the next.
\<close>

theorem memsegs_spec:
  "concat (runs ps) = ps \<and> [] \<notin> set (runs ps) \<and> (\<forall>r \<in> set (runs ps). successively page_next r) \<and>
   successively (\<lambda>a b. \<not> page_next (last a) (hd b)) (runs ps) \<and>
   (case fill_memsegs None 0 segs ps of (ps', segs', ok) \<Rightarrow>
     (ok \<longleftrightarrow> length (runs ps) \<le> RTE_MAX_MEMSEG) \<and>
     (ok \<longrightarrow> ps' = number_runs 0 (runs ps) \<and> segs' = put_segs 0 (runs ps) segs))"
  by (intro conjI ballI runs_concat runs_ne runs_maximal fill_runs) (rule runs_next)

text \<open>Two pages that follow each other and one on another socket make two segments.\<close>

definition demo_page :: "u64 \<Rightarrow> u64 \<Rightarrow> int \<Rightarrow> hugepage_file" where
  "demo_page va phys socket = zero_hf\<lparr>hf_final_va := va, hf_physaddr := phys, hf_size := 0x200000, hf_socket_id := socket\<rparr>"

definition demo_pages :: "hugepage_file list" where
  "demo_pages = [demo_page 0x40000000 0x200000 0, demo_page 0x40200000 0x400000 0, demo_page 0x40400000 0x600000 1]"

definition no_segs :: "nat \<Rightarrow> rte_memseg" where
  "no_segs = (\<lambda>_. \<lparr>ms_phys_addr = 0, ms_addr = 0, ms_len = 0, ms_hugepage_sz = 0, ms_socket_id = 0, ms_nchannel = 0, ms_nrank = 0\<rparr>)"

theorem memsegs_spec_witness:
  "case fill_memsegs None 0 no_segs demo_pages of (ps', segs', ok) \<Rightarrow>
     ok \<and> map hf_memseg_id ps' = [0, 0, 1] \<and> ms_len (segs' 0) = 0x400000 \<and> ms_len (segs' 1) = 0x200000 \<and> ms_len (segs' 2) = 0"
proof -
  have r: "runs demo_pages = [[demo_page 0x40000000 0x200000 0, demo_page 0x40200000 0x400000 0], [demo_page 0x40400000 0x600000 1]]"
    by (simp add: demo_pages_def demo_page_def zero_hf_def runs_def page_next_def)
  show ?thesis
    using memsegs_spec [where segs = no_segs and ps = demo_pages] unfolding r
    by (auto simp: RTE_MAX_MEMSEG_def put_segs_Cons put_segs_Nil seg_of_def demo_page_def zero_hf_def no_segs_def split: prod.splits)
qed

section \<open>How many pages\<close>

abbreviation cnt :: "hugepage_info list \<Rightarrow> nat \<Rightarrow> nat \<Rightarrow> nat" where
  "cnt info i socket \<equiv> unat (hi_num_pages (info ! i) ! socket)"

abbreviation psz :: "hugepage_info list \<Rightarrow> nat \<Rightarrow> nat" where
  "psz info i \<equiv> unat (hi_hugepage_sz (info ! i))"

text \<open>The bytes that the pages counted in \<open>used\<close>, of the sizes from \<open>i\<close> on, provide on a socket.\<close>

definition bytes_of :: "hugepage_info list \<Rightarrow> hugepage_info list \<Rightarrow> nat \<Rightarrow> nat \<Rightarrow> nat \<Rightarrow> nat" where
  "bytes_of info used num i socket = (\<Sum>k = i..<num. psz info k * cnt used k socket)"

definition info_ok :: "hugepage_info list \<Rightarrow> nat \<Rightarrow> bool" where
  "info_ok info num \<longleftrightarrow> num \<le> length info \<and>
     (\<forall>i < num. length (hi_num_pages (info ! i)) = RTE_MAX_NUMA_NODES \<and> hi_hugepage_sz (info ! i) \<noteq> 0)"

definition used_ok :: "hugepage_info list \<Rightarrow> nat \<Rightarrow> hugepage_info list \<Rightarrow> bool" where
  "used_ok info num used \<longleftrightarrow> num \<le> length used \<and>
     (\<forall>i < num. length (hi_num_pages (used ! i)) = RTE_MAX_NUMA_NODES \<and> hi_hugepage_sz (used ! i) = hi_hugepage_sz (info ! i))"

definition use_pages :: "hugepage_info list \<Rightarrow> nat \<Rightarrow> nat \<Rightarrow> nat \<Rightarrow> hugepage_info list \<Rightarrow> hugepage_info list" where
  "use_pages info i socket n used = set_pages i socket (of_nat n) (used[i := (used ! i)\<lparr>hi_hugedir := hi_hugedir (info ! i)\<rparr>])"

lemma use_pages_ok:
  assumes "used_ok info num used" "i < num" "socket < RTE_MAX_NUMA_NODES" "n < 2 ^ 32"
  shows "used_ok info num (use_pages info i socket n used)"
    "cnt (use_pages info i socket n used) k s = (if k = i \<and> s = socket then n else cnt used k s)"
  using assms by (auto simp: used_ok_def use_pages_def set_pages_def nth_list_update unat_of_nat)

lemma bytes_of_step:
  "i < num \<Longrightarrow> bytes_of info used num i s = psz info i * cnt used i s + bytes_of info used num (Suc i) s"
  by (simp add: bytes_of_def sum.atLeast_Suc_lessThan)

lemma bytes_of_cong:
  "(\<And>k. i \<le> k \<Longrightarrow> k < num \<Longrightarrow> cnt used k s = cnt used' k s) \<Longrightarrow> bytes_of info used num i s = bytes_of info used' num i s"
  by (simp add: bytes_of_def)

lemma smaller_mem_eq:
  assumes "bytes_of info info num (Suc i) socket < 2 ^ 64"
  shows "unat (smaller_mem info num socket i) = bytes_of info info num (Suc i) socket"
proof -
  have "smaller_mem info num socket i = of_nat (bytes_of info info num (Suc i) socket)"
    unfolding smaller_mem_def bytes_of_def interv_sum_list_conv_sum_set_nat of_nat_sum set_upt of_nat_mult
    by simp
  then show ?thesis using assms by (simp only: unat_of_nat) simp
qed

text \<open>One size: the pages taken, and what remains.\<close>

lemma size_pages_ok:
  fixes info used :: "hugepage_info list" and total :: u64 and pages :: u32
  assumes ok: "info_ok info num" "used_ok info num used" and i: "i < num" "socket < RTE_MAX_NUMA_NODES"
    and mem: "0 < mem" "mem < 2 ^ 64" and cap: "bytes_of info info num i socket < 2 ^ 64"
  obtains n mem' more where "size_pages info num socket i (used, of_nat mem, total, pages) =
      Some ((use_pages info i socket n used, of_nat mem', total - of_nat (mem - mem'), pages + of_nat n), more)"
    "n \<le> cnt info i socket" "more \<Longrightarrow> mem = mem' + n * psz info i \<and> (n = cnt info i socket \<or> mem' \<le> bytes_of info info num (Suc i) socket)"
    "\<not> more \<Longrightarrow> mem' = 0 \<and> mem \<le> n * psz info i \<and> 0 < n \<and> n * psz info i < mem + psz info i"
proof -
  define sz where "sz = psz info i"
  define av where "av = cnt info i socket"
  have sz: "0 < sz" "sz < 2 ^ 64" using ok(1) i(1) unat_lt_pow [of "hi_hugepage_sz (info ! i)"]
    by (auto simp: sz_def info_ok_def unat_gt_0)
  have av: "av < 2 ^ 32" using unat_lt_pow [of "hi_num_pages (info ! i) ! socket"] by (simp add: av_def)
  define n where "n = min (mem div sz) av"
  have n: "n \<le> av" "n * sz \<le> mem" by (auto simp: n_def min_def intro: order_trans [OF mult_le_mono1 div_times_less_eq_dividend])
  have n32: "n < 2 ^ 32" using n(1) av by simp
  have wm: "unat (of_nat mem :: u64) = mem" using mem(2) by (simp add: unat_of_nat)
  have nw: "ucast (RTE_MIN (of_nat mem div hi_hugepage_sz (info ! i)) (ucast (hi_num_pages (info ! i) ! socket)) :: u64) = (of_nat n :: u32)"
  proof -
    have "unat (RTE_MIN (of_nat mem div hi_hugepage_sz (info ! i)) (ucast (hi_num_pages (info ! i) ! socket)) :: u64) = n"
      by (auto simp: RTE_MIN_def word_less_nat_alt unat_div wm n_def unat_ucast64 sz_def av_def)
    then show ?thesis by (metis of_nat_unat)
  qed
  have "unat (of_nat n :: u32) = n" using n32 by (simp add: unat_of_nat)
  then have nu: "ucast (of_nat n :: u32) = (of_nat n :: u64)" by (metis of_nat_unat)
  have hsz: "hi_hugepage_sz (info ! i) = of_nat sz" by (simp add: sz_def)
  have usz: "hi_hugepage_sz (use_pages info i socket n used ! i) = of_nat sz"
    using use_pages_ok(1) [OF ok(2) i n32] i(1) by (simp add: used_ok_def hsz)
  have cur: "(of_nat mem :: u64) - of_nat n * of_nat sz = of_nat (mem - n * sz)"
    using n(2) by (simp add: of_nat_diff)
  have dif: "of_nat n * of_nat sz = (of_nat (mem - (mem - n * sz)) :: u64)" using n(2) by simp
  have z: "(of_nat (mem - n * sz) :: u64) = 0 \<longleftrightarrow> mem = n * sz"
  proof -
    have "unat (of_nat (mem - n * sz) :: u64) = mem - n * sz" using mem(2) by (intro unat_of_nat_small) simp
    then have "(of_nat (mem - n * sz) :: u64) = 0 \<longleftrightarrow> mem - n * sz = 0" by (metis unat_eq_zero)
    then show ?thesis using n(2) by auto
  qed
  have eqav: "(of_nat n :: u32) = hi_num_pages (info ! i) ! socket \<longleftrightarrow> n = av"
    using n32 by (simp add: word_unat_eq_iff unat_of_nat av_def)
  have rest: "bytes_of info info num (Suc i) socket < 2 ^ 64" using cap bytes_of_step [OF i(1), of info info socket] by simp
  have less: "smaller_mem info num socket i < of_nat (mem - n * sz) \<longleftrightarrow> bytes_of info info num (Suc i) socket < mem - n * sz"
    using smaller_mem_eq [OF rest] mem(2) by (simp add: word_less_nat_alt unat_of_nat)
  have step: "size_pages info num socket i (used, of_nat mem, total, pages) =
     Some (if mem = n * sz then ((use_pages info i socket n used, 0, total - of_nat mem, pages + of_nat n), False)
       else if n = av then ((use_pages info i socket n used, of_nat (mem - n * sz), total - of_nat (mem - (mem - n * sz)), pages + of_nat n), True)
       else if bytes_of info info num (Suc i) socket < mem - n * sz
       then let cur = RTE_MIN (of_nat (mem - n * sz)) (of_nat sz)
            in ((set_pages i socket (of_nat n + 1) (use_pages info i socket n used), of_nat (mem - n * sz) - cur,
                 total - of_nat (mem - (mem - n * sz)) - cur, pages + of_nat n + 1), False)
       else ((use_pages info i socket n used, of_nat (mem - n * sz), total - of_nat (mem - (mem - n * sz)), pages + of_nat n), True))"
  proof -
    have nz: "(hi_hugepage_sz (info ! i) = 0) = False" using sz(1) by (simp add: sz_def unat_gt_0)
    show ?thesis
      unfolding size_pages_def Let_def prod.case nw use_pages_def [symmetric] nu usz cur eqav nz if_False
      unfolding z less dif hsz
      by (intro arg_cong [where f = Some] if_cong refl) simp_all
  qed
  show thesis
  proof (cases "mem = n * sz")
    case True
    show ?thesis by (rule that [of n 0 False]) (use True step n mem sz in \<open>auto simp: av_def sz_def\<close>)
  next
    case ne: False
    show ?thesis
    proof (cases "n = av \<or> mem - n * sz \<le> bytes_of info info num (Suc i) socket")
      case True
      show ?thesis by (rule that [of n "mem - n * sz" True]) (use True ne step n in \<open>auto simp: av_def sz_def\<close>)
    next
      case False
      then have lt: "mem div sz < av" "n = mem div sz" using n(1) by (auto simp: n_def min_def split: if_splits)
      have small: "mem - n * sz < sz" using sz(1) lt(2) by (simp add: minus_div_mult_eq_mod)
      have "RTE_MIN (of_nat (mem - n * sz)) (of_nat sz) = (of_nat (mem - n * sz) :: u64)"
        using small mem(2) sz(2) by (simp add: RTE_MIN_def word_less_nat_alt unat_of_nat)
      moreover have "set_pages i socket (of_nat n + 1) (use_pages info i socket n used) = use_pages info i socket (Suc n) used"
        using ok(2) i(1) by (simp add: set_pages_def use_pages_def used_ok_def of_nat_add add.commute)
      moreover have "of_nat (mem - (mem - n * sz)) + of_nat (mem - n * sz) = (of_nat mem :: u64)"
        using n(2) unfolding of_nat_add [symmetric] by simp
      ultimately have "size_pages info num socket i (used, of_nat mem, total, pages) =
        Some ((use_pages info i socket (Suc n) used, 0, total - of_nat mem, pages + of_nat (Suc n)), False)"
        using step ne False by (simp add: diff_diff_eq add.commute add.left_commute)
      then show ?thesis
        by (intro that [of "Suc n" 0 False]) (use lt small n(2) sz(1) ne in \<open>auto simp: av_def sz_def le_less\<close>)
    qed
  qed
qed


text \<open>One socket: all sizes.\<close>

definition socket_covered :: "hugepage_info list \<Rightarrow> hugepage_info list \<Rightarrow> nat \<Rightarrow> nat \<Rightarrow> nat \<Rightarrow> nat \<Rightarrow> bool" where
  "socket_covered info used num i socket mem \<longleftrightarrow> mem \<le> bytes_of info used num i socket \<and>
     (bytes_of info used num i socket = mem \<or>
      (\<exists>k. i \<le> k \<and> k < num \<and> 0 < cnt used k socket \<and> bytes_of info used num i socket < mem + psz info k))"

definition pages_of :: "hugepage_info list \<Rightarrow> nat \<Rightarrow> nat \<Rightarrow> nat \<Rightarrow> nat" where
  "pages_of used num i socket = (\<Sum>k = i..<num. cnt used k socket)"

lemma pages_of_step: "i < num \<Longrightarrow> pages_of used num i s = cnt used i s + pages_of used num (Suc i) s"
  by (simp add: pages_of_def sum.atLeast_Suc_lessThan)

lemma bytes_of_zero: "(\<And>k. i \<le> k \<Longrightarrow> k < num \<Longrightarrow> cnt used k s = 0) \<Longrightarrow> bytes_of info used num i s = 0"
  by (simp add: bytes_of_def)

lemma socket_pages_ok:
  fixes total :: u64 and pages :: u32
  assumes "info_ok info num" "used_ok info num used" "i \<le> num" "socket < RTE_MAX_NUMA_NODES"
    "mem < 2 ^ 64" "bytes_of info info num i socket < 2 ^ 64" "\<And>k. i \<le> k \<Longrightarrow> k < num \<Longrightarrow> cnt used k socket = 0"
  shows "\<exists>used'. socket_pages info num socket [i..<num] (used, of_nat mem, total, pages) =
      Some (used', of_nat (mem - bytes_of info info num i socket), total - of_nat (min mem (bytes_of info info num i socket)),
        pages + of_nat (pages_of used' num i socket)) \<and>
    used_ok info num used' \<and>
    (\<forall>k s. k < i \<or> s \<noteq> socket \<longrightarrow> cnt used' k s = cnt used k s) \<and>
    (\<forall>k. i \<le> k \<and> k < num \<longrightarrow> cnt used' k socket \<le> cnt info k socket) \<and>
    (mem \<le> bytes_of info info num i socket \<longrightarrow> socket_covered info used' num i socket mem)"
  using assms(2,3,5-7)
proof (induction "num - i" arbitrary: i used mem total pages)
  case 0
  then show ?case by (intro exI [of _ used]) (simp add: bytes_of_def pages_of_def socket_covered_def)
next
  case (Suc d)
  have i: "i < num" and up: "[i..<num] = i # [Suc i..<num]" using Suc.hyps(2) by (simp_all add: upt_conv_Cons)
  show ?case
  proof (cases "mem = 0")
    case True
    have "bytes_of info used num i socket = 0" using Suc.prems(5) by (rule bytes_of_zero)
    then show ?thesis using True Suc.prems
      by (intro exI [of _ used]) (simp add: up socket_covered_def pages_of_def)
  next
    case False
    have wm: "(of_nat mem :: u64) \<noteq> 0" using False Suc.prems(3) by (simp add: word_unat_eq_iff unat_of_nat)
    from False Suc.prems(3) have "0 < mem" "mem < 2 ^ 64" by simp_all
    then obtain n mem' more where st: "size_pages info num socket i (used, of_nat mem, total, pages) =
        Some ((use_pages info i socket n used, of_nat mem', total - of_nat (mem - mem'), pages + of_nat n), more)"
      "n \<le> cnt info i socket" "more \<Longrightarrow> mem = mem' + n * psz info i \<and> (n = cnt info i socket \<or> mem' \<le> bytes_of info info num (Suc i) socket)"
      "\<not> more \<Longrightarrow> mem' = 0 \<and> mem \<le> n * psz info i \<and> 0 < n \<and> n * psz info i < mem + psz info i"
      by (rule size_pages_ok [OF assms(1) Suc.prems(1) i assms(4) _ _ Suc.prems(4)]) (assumption | blast)+
    have n: "n < 2 ^ 32" using st(2) unat_lt_pow [of "hi_num_pages (info ! i) ! socket"] by simp
    note u = use_pages_ok [OF Suc.prems(1) i assms(4) n]
    note step = bytes_of_step [OF i, of info _ socket]
    show ?thesis
    proof (cases more)
      case False
      have b0: "bytes_of info (use_pages info i socket n used) num (Suc i) socket = 0"
        "pages_of (use_pages info i socket n used) num (Suc i) socket = 0"
        unfolding bytes_of_def pages_of_def using u(2) Suc.prems(5) by simp_all
      have "n * psz info i \<le> cnt info i socket * psz info i" using st(2) by (rule mult_le_mono1)
      then have "mem \<le> cnt info i socket * psz info i" using st(4) [OF False] by linarith
      then have "mem \<le> bytes_of info info num i socket" using step [of info] by (simp add: mult.commute)
      then show ?thesis using st False wm u b0 i Suc.prems(5)
        by (intro exI [of _ "use_pages info i socket n used"])
          (auto simp: up step pages_of_step socket_covered_def mult.commute split: if_splits)
    next
      case True
      note m = st(3) [OF True]
      let ?u = "use_pages info i socket n used"
      have "\<exists>used'. socket_pages info num socket [Suc i..<num] (?u, of_nat mem', total - of_nat (mem - mem'), pages + of_nat n) =
          Some (used', of_nat (mem' - bytes_of info info num (Suc i) socket),
            total - of_nat (mem - mem') - of_nat (min mem' (bytes_of info info num (Suc i) socket)),
            pages + of_nat n + of_nat (pages_of used' num (Suc i) socket)) \<and>
        used_ok info num used' \<and>
        (\<forall>k s. k < Suc i \<or> s \<noteq> socket \<longrightarrow> cnt used' k s = cnt ?u k s) \<and>
        (\<forall>k. Suc i \<le> k \<and> k < num \<longrightarrow> cnt used' k socket \<le> cnt info k socket) \<and>
        (mem' \<le> bytes_of info info num (Suc i) socket \<longrightarrow> socket_covered info used' num (Suc i) socket mem')"
      proof (rule Suc.hyps(1))
        show "cnt ?u k socket = 0" if "Suc i \<le> k" "k < num" for k using that u(2) Suc.prems(5) by simp
      qed (use Suc.hyps(2) Suc.prems i u(1) m step [of info] in simp_all)
      then obtain used' where r: "socket_pages info num socket [Suc i..<num] (?u, of_nat mem', total - of_nat (mem - mem'), pages + of_nat n) =
          Some (used', of_nat (mem' - bytes_of info info num (Suc i) socket),
            total - of_nat (mem - mem') - of_nat (min mem' (bytes_of info info num (Suc i) socket)),
            pages + of_nat n + of_nat (pages_of used' num (Suc i) socket))"
        and uo: "used_ok info num used'" and fr: "\<forall>k s. k < Suc i \<or> s \<noteq> socket \<longrightarrow> cnt used' k s = cnt ?u k s"
        and le: "\<forall>k. Suc i \<le> k \<and> k < num \<longrightarrow> cnt used' k socket \<le> cnt info k socket"
        and cov: "mem' \<le> bytes_of info info num (Suc i) socket \<longrightarrow> socket_covered info used' num (Suc i) socket mem'" by blast
      have ci: "cnt used' i socket = n" using fr u(2) by simp
      have a1: "mem - bytes_of info info num i socket = mem' - bytes_of info info num (Suc i) socket"
        and a2: "min mem (bytes_of info info num i socket) = (mem - mem') + min mem' (bytes_of info info num (Suc i) socket)"
        and a3: "mem \<le> bytes_of info info num i socket \<longleftrightarrow> mem' \<le> bytes_of info info num (Suc i) socket"
      proof -
        define q c where "q = n * psz info i" and "c = psz info i * cnt info i socket"
        have "q \<le> c" unfolding q_def c_def mult.commute [of n] using st(2) by (rule mult_le_mono2)
        moreover have "mem = mem' + q" "q = c \<or> mem' \<le> bytes_of info info num (Suc i) socket"
          using m by (auto simp: q_def c_def mult.commute)
        moreover have "bytes_of info info num i socket = c + bytes_of info info num (Suc i) socket"
          using step [of info] by (simp add: c_def)
        ultimately show "mem - bytes_of info info num i socket = mem' - bytes_of info info num (Suc i) socket"
          "min mem (bytes_of info info num i socket) = (mem - mem') + min mem' (bytes_of info info num (Suc i) socket)"
          "mem \<le> bytes_of info info num i socket \<longleftrightarrow> mem' \<le> bytes_of info info num (Suc i) socket"
          by (auto simp: min_def)
      qed
      show ?thesis
      proof (rule exI [of _ used'], intro conjI allI impI)
        have "total - of_nat (mem - mem') - of_nat (min mem' (bytes_of info info num (Suc i) socket)) =
          total - of_nat (min mem (bytes_of info info num i socket))" unfolding a2 of_nat_add by simp
        moreover have "pages + of_nat n + of_nat (pages_of used' num (Suc i) socket) = pages + of_nat (pages_of used' num i socket)"
          unfolding pages_of_step [OF i] ci of_nat_add by simp
        ultimately show "socket_pages info num socket [i..<num] (used, of_nat mem, total, pages) =
          Some (used', of_nat (mem - bytes_of info info num i socket), total - of_nat (min mem (bytes_of info info num i socket)),
            pages + of_nat (pages_of used' num i socket))"
          using st(1) True wm r by (simp only: up a1) simp
        show "used_ok info num used'" by (rule uo)
        show "cnt used' k s = cnt used k s" if "k < i \<or> s \<noteq> socket" for k s using that fr u(2) by auto
        show "cnt used' k socket \<le> cnt info k socket" if "i \<le> k \<and> k < num" for k
          using that le ci st(2) by (cases "k = i") auto
        show "socket_covered info used' num i socket mem" if "mem \<le> bytes_of info info num i socket"
          using cov that a3 m step [of used'] ci unfolding socket_covered_def by (auto simp: mult.commute) (metis Suc_leD less_irrefl)
      qed
    qed
  qed
qed


text \<open>All sockets.\<close>

lemma all_from: "t < N \<Longrightarrow> (\<forall>s. t \<le> s \<and> s < N \<longrightarrow> P s) \<longleftrightarrow> P t \<and> (\<forall>s. Suc t \<le> s \<and> s < (N :: nat) \<longrightarrow> P s)"
  by (metis Suc_leI Suc_leD le_less order_refl)

lemma sockets_pages_ok:
  fixes total :: u64 and pages :: u32
  assumes info: "info_ok info num" and "used_ok info num used" "t \<le> N" "N \<le> RTE_MAX_NUMA_NODES"
    "\<And>k s. t \<le> s \<Longrightarrow> s < N \<Longrightarrow> k < num \<Longrightarrow> cnt used k s = 0"
    "unat total = (\<Sum>s = t..<N. unat (memory ! s))"
    "\<And>s. t \<le> s \<Longrightarrow> s < N \<Longrightarrow> bytes_of info info num 0 s < 2 ^ 64"
  shows "\<exists>used' total' pages' ok. sockets_pages info num memory [t..<N] (used, total, pages) = Some (used', total', pages', ok) \<and>
    (ok \<and> total' = 0 \<longleftrightarrow> (\<forall>s. t \<le> s \<and> s < N \<longrightarrow> unat (memory ! s) \<le> bytes_of info info num 0 s)) \<and>
    (ok \<and> total' = 0 \<longrightarrow> pages' = pages + of_nat (\<Sum>s = t..<N. pages_of used' num 0 s) \<and>
      (\<forall>k s. s < t \<longrightarrow> cnt used' k s = cnt used k s) \<and>
      (\<forall>s. t \<le> s \<and> s < N \<longrightarrow> (\<forall>k < num. cnt used' k s \<le> cnt info k s) \<and> socket_covered info used' num 0 s (unat (memory ! s))))"
  using assms(2-)
proof (induction "N - t" arbitrary: t used total pages)
  case 0
  then have "total = 0" by (simp add: unat_eq_zero)
  then show ?case using 0 by (intro exI [of _ used] exI [of _ total] exI [of _ pages] exI [of _ True]) auto
next
  case (Suc d)
  have t: "t < N" "[t..<N] = t # [Suc t..<N]" using Suc.hyps(2) by (simp_all add: upt_conv_Cons)
  have sum: "unat total = unat (memory ! t) + (\<Sum>s = Suc t..<N. unat (memory ! s))"
    using Suc.prems(5) t(1) by (simp add: sum.atLeast_Suc_lessThan)
  show ?case
  proof (cases "total = 0")
    case True
    then have m: "unat (memory ! s) = 0" if "t \<le> s" "s < N" for s using Suc.prems(5) that by simp
    have "pages_of used num 0 s = 0" "bytes_of info used num 0 s = 0" if "t \<le> s" "s < N" for s
      unfolding pages_of_def bytes_of_def using Suc.prems(4) [OF that] by simp_all
    then show ?thesis using True m Suc.prems(4) t(2)
      by (intro exI [of _ used] exI [of _ total] exI [of _ pages] exI [of _ True]) (simp add: socket_covered_def)
  next
    case nz: False
    let ?m = "unat (memory ! t)" and ?cap = "bytes_of info info num 0 t"
    have "\<exists>used'. socket_pages info num t [0..<num] (used, of_nat ?m, total, pages) =
      Some (used', of_nat (?m - ?cap), total - of_nat (min ?m ?cap), pages + of_nat (pages_of used' num 0 t)) \<and>
      used_ok info num used' \<and> (\<forall>k s. k < 0 \<or> s \<noteq> t \<longrightarrow> cnt used' k s = cnt used k s) \<and>
      (\<forall>k. 0 \<le> k \<and> k < num \<longrightarrow> cnt used' k t \<le> cnt info k t) \<and>
      (?m \<le> ?cap \<longrightarrow> socket_covered info used' num 0 t ?m)"
      using Suc.prems t(1) unat_lt_pow [of "memory ! t"] by (intro socket_pages_ok [OF info]) simp_all
    then obtain used1 where s1: "socket_pages info num t [0..<num] (used, memory ! t, total, pages) =
      Some (used1, of_nat (?m - ?cap), total - of_nat (min ?m ?cap), pages + of_nat (pages_of used1 num 0 t))"
      and u1: "used_ok info num used1" "\<forall>k s. s \<noteq> t \<longrightarrow> cnt used1 k s = cnt used k s" "\<forall>k < num. cnt used1 k t \<le> cnt info k t"
        "?m \<le> ?cap \<longrightarrow> socket_covered info used1 num 0 t ?m"
      by auto
    show ?thesis
    proof (cases "?m \<le> ?cap")
      case False
      have "(of_nat (?m - ?cap) :: u64) \<noteq> 0" using False unat_lt_pow [of "memory ! t"]
        by (simp add: word_unat_eq_iff unat_of_nat)
      then have "of_nat (?m - ?cap) > (0 :: u64)" by (simp add: word_neq_0_conv)
      then show ?thesis using False nz t s1 by (auto simp: sockets_pages.simps)
    next
      case True
      define tot where "tot = total - memory ! t"
      have "memory ! t \<le> total" using sum by (simp add: word_le_nat_alt)
      then have tot: "unat tot = (\<Sum>s = Suc t..<N. unat (memory ! s))"
        using sum by (simp add: tot_def unat_sub_no_underflow)
      let ?p = "pages + of_nat (pages_of used1 num 0 t)"
      have "\<exists>used' total' pages' ok. sockets_pages info num memory [Suc t..<N] (used1, tot, ?p) = Some (used', total', pages', ok) \<and>
        (ok \<and> total' = 0 \<longleftrightarrow> (\<forall>s. Suc t \<le> s \<and> s < N \<longrightarrow> unat (memory ! s) \<le> bytes_of info info num 0 s)) \<and>
        (ok \<and> total' = 0 \<longrightarrow> pages' = ?p + of_nat (\<Sum>s = Suc t..<N. pages_of used' num 0 s) \<and>
          (\<forall>k s. s < Suc t \<longrightarrow> cnt used' k s = cnt used1 k s) \<and>
          (\<forall>s. Suc t \<le> s \<and> s < N \<longrightarrow> (\<forall>k < num. cnt used' k s \<le> cnt info k s) \<and> socket_covered info used' num 0 s (unat (memory ! s))))"
        using Suc.hyps(2) Suc.prems u1 t(1) tot by (intro Suc.hyps(1)) auto
      then obtain used' total' pages' ok where r: "sockets_pages info num memory [Suc t..<N] (used1, tot, ?p) = Some (used', total', pages', ok)"
        and iff: "ok \<and> total' = 0 \<longleftrightarrow> (\<forall>s. Suc t \<le> s \<and> s < N \<longrightarrow> unat (memory ! s) \<le> bytes_of info info num 0 s)"
        and good: "ok \<and> total' = 0 \<Longrightarrow> pages' = ?p + of_nat (\<Sum>s = Suc t..<N. pages_of used' num 0 s) \<and>
          (\<forall>k s. s < Suc t \<longrightarrow> cnt used' k s = cnt used1 k s) \<and>
          (\<forall>s. Suc t \<le> s \<and> s < N \<longrightarrow> (\<forall>k < num. cnt used' k s \<le> cnt info k s) \<and> socket_covered info used' num 0 s (unat (memory ! s)))"
        by blast
      have eq: "sockets_pages info num memory [t..<N] (used, total, pages) = Some (used', total', pages', ok)"
        using nz t(2) s1 r True by (simp add: tot_def min_def)
      have same: "cnt used' k t = cnt used1 k t" if "ok \<and> total' = 0" for k using good [OF that] by simp
      show ?thesis
      proof (intro exI conjI)
        show "sockets_pages info num memory [t..<N] (used, total, pages) = Some (used', total', pages', ok)" by (rule eq)
        show "ok \<and> total' = 0 \<longleftrightarrow> (\<forall>s. t \<le> s \<and> s < N \<longrightarrow> unat (memory ! s) \<le> bytes_of info info num 0 s)"
          unfolding iff all_from [OF t(1)] using True by simp
        show "ok \<and> total' = 0 \<longrightarrow> pages' = pages + of_nat (\<Sum>s = t..<N. pages_of used' num 0 s) \<and>
          (\<forall>k s. s < t \<longrightarrow> cnt used' k s = cnt used k s) \<and>
          (\<forall>s. t \<le> s \<and> s < N \<longrightarrow> (\<forall>k < num. cnt used' k s \<le> cnt info k s) \<and> socket_covered info used' num 0 s (unat (memory ! s)))"
        proof
          assume g: "ok \<and> total' = 0"
          note gd = good [OF g]
          have p: "pages_of used' num 0 t = pages_of used1 num 0 t" "socket_covered info used' num 0 t ?m"
            using same [OF g] u1(4) True unfolding pages_of_def bytes_of_def socket_covered_def by simp_all
          have "pages' = pages + of_nat (\<Sum>s = t..<N. pages_of used' num 0 s)"
            using gd p(1) t(1) by (simp only: sum.atLeast_Suc_lessThan of_nat_add add.assoc)
          moreover have "\<forall>k s. s < t \<longrightarrow> cnt used' k s = cnt used k s" using gd u1(2) by simp
          moreover have "\<forall>k < num. cnt used' k t \<le> cnt info k t" using same [OF g] u1(3) by simp
          ultimately show "pages' = pages + of_nat (\<Sum>s = t..<N. pages_of used' num 0 s) \<and>
            (\<forall>k s. s < t \<longrightarrow> cnt used' k s = cnt used k s) \<and>
            (\<forall>s. t \<le> s \<and> s < N \<longrightarrow> (\<forall>k < num. cnt used' k s \<le> cnt info k s) \<and> socket_covered info used' num 0 s (unat (memory ! s)))"
            unfolding all_from [OF t(1)] using gd p(2) by blast
        qed
      qed
    qed
  qed
qed

lemma sint_of_nat_small:
  assumes "n < 2 ^ 31"
  shows "sint (of_nat n :: u32) = int n"
proof -
  have "sint (of_nat n :: u32) = signed_take_bit 31 (int n)" by (simp add: signed_of_nat)
  also have "\<dots> = int n" using assms by (intro signed_take_bit_int_eq_self) auto
  finally show ?thesis .
qed

definition fresh_used :: "hugepage_info \<Rightarrow> hugepage_info" where
  "fresh_used h = \<lparr>hi_hugepage_sz = hi_hugepage_sz h, hi_hugedir = None, hi_num_pages = replicate RTE_MAX_NUMA_NODES 0,
     hi_lock_descriptor = 0\<rparr>"

text \<open>
  C36. Asked for memory on each socket, \<^verbatim>\<open>calc_num_pages_per_socket\<close> succeeds exactly if every socket has
  the pages for it. It then takes no more pages than there are, returns their number, and what it takes on a
  socket covers the request, exactly or with less than one of the pages taken in excess.
\<close>

theorem num_pages_spec:
  assumes "info_ok info num" "0 < num" "ic_force_sockets ic"
    "unat (ic_memory ic) = (\<Sum>s = 0..<RTE_MAX_NUMA_NODES. unat (memory ! s))"
    "\<forall>s < RTE_MAX_NUMA_NODES. bytes_of info info num 0 s < 2 ^ 64"
    "(\<Sum>s = 0..<RTE_MAX_NUMA_NODES. pages_of info num 0 s) < 2 ^ 31"
  shows "\<exists>used n. calc_num_pages_per_socket ic ls memory info (map fresh_used (take num info)) num = Some (used, n) \<and>
    (n \<noteq> -1 \<longleftrightarrow> (\<forall>s < RTE_MAX_NUMA_NODES. unat (memory ! s) \<le> bytes_of info info num 0 s)) \<and>
    (n \<noteq> -1 \<longrightarrow> n = int (\<Sum>s = 0..<RTE_MAX_NUMA_NODES. pages_of used num 0 s) \<and>
      (\<forall>s < RTE_MAX_NUMA_NODES. (\<forall>k < num. cnt used k s \<le> cnt info k s) \<and> socket_covered info used num 0 s (unat (memory ! s))))"
proof -
  let ?u = "map fresh_used (take num info)"
  have u: "used_ok info num ?u" using assms(1) by (simp add: used_ok_def info_ok_def fresh_used_def)
  have z: "cnt ?u k s = 0" if "s < RTE_MAX_NUMA_NODES" "k < num" for k s
    using that assms(1) by (simp add: fresh_used_def info_ok_def)
  have "\<exists>used total' pages' ok. sockets_pages info num memory [0..<RTE_MAX_NUMA_NODES] (?u, ic_memory ic, 0) = Some (used, total', pages', ok) \<and>
    (ok \<and> total' = 0 \<longleftrightarrow> (\<forall>s < RTE_MAX_NUMA_NODES. unat (memory ! s) \<le> bytes_of info info num 0 s)) \<and>
    (ok \<and> total' = 0 \<longrightarrow> pages' = of_nat (\<Sum>s = 0..<RTE_MAX_NUMA_NODES. pages_of used num 0 s) \<and>
      (\<forall>s < RTE_MAX_NUMA_NODES. (\<forall>k < num. cnt used k s \<le> cnt info k s) \<and> socket_covered info used num 0 s (unat (memory ! s))))"
    using sockets_pages_ok [OF assms(1) u _ order_refl z assms(4), of 0] assms(5) by simp
  then obtain used total' pages' ok where
    r: "sockets_pages info num memory [0..<RTE_MAX_NUMA_NODES] (?u, ic_memory ic, 0) = Some (used, total', pages', ok)"
    and iff: "ok \<and> total' = 0 \<longleftrightarrow> (\<forall>s < RTE_MAX_NUMA_NODES. unat (memory ! s) \<le> bytes_of info info num 0 s)"
    and good: "ok \<and> total' = 0 \<longrightarrow> pages' = of_nat (\<Sum>s = 0..<RTE_MAX_NUMA_NODES. pages_of used num 0 s) \<and>
      (\<forall>s < RTE_MAX_NUMA_NODES. (\<forall>k < num. cnt used k s \<le> cnt info k s) \<and> socket_covered info used num 0 s (unat (memory ! s)))"
    by blast
  have n: "sint pages' = int (\<Sum>s = 0..<RTE_MAX_NUMA_NODES. pages_of used num 0 s)" if "ok \<and> total' = 0"
  proof -
    have "pages_of used num 0 s \<le> pages_of info num 0 s" if "s < RTE_MAX_NUMA_NODES" for s
      unfolding pages_of_def using good \<open>ok \<and> total' = 0\<close> that by (intro sum_mono) simp
    then have "(\<Sum>s = 0..<RTE_MAX_NUMA_NODES. pages_of used num 0 s) \<le> (\<Sum>s = 0..<RTE_MAX_NUMA_NODES. pages_of info num 0 s)"
      by (intro sum_mono) simp
    then have "(\<Sum>s = 0..<RTE_MAX_NUMA_NODES. pages_of used num 0 s) < 2 ^ 31" using assms(6) by (rule le_less_trans)
    then show ?thesis using good that by (simp only: sint_of_nat_small)
  qed
  have "sint pages' \<noteq> -1" if "ok \<and> total' = 0"
    unfolding n [OF that] by (metis of_nat_0_le_iff zero_le_imp_eq_int neg_0_le_iff_le not_one_le_zero)
  then show ?thesis using r iff good n assms(2,3)
    by (intro exI [of _ used] exI [of _ "if ok \<and> total' = 0 then sint pages' else -1"])
      (auto simp: calc_num_pages_per_socket_def)
qed


text \<open>Four pages of 2 MB on socket 0; 3 MB are asked for.\<close>

definition demo_info :: "hugepage_info list" where
  "demo_info = [\<lparr>hi_hugepage_sz = 0x200000, hi_hugedir = Some ''/mnt/huge'', hi_num_pages = [4, 0, 0, 0, 0, 0, 0, 0], hi_lock_descriptor = 3\<rparr>]"

definition demo_ic :: internal_config where
  "demo_ic = \<lparr>ic_memory = 0x300000, ic_force_nchannel = 0, ic_force_nrank = 0, ic_no_hugetlbfs = False, ic_hugepage_unlink = False,
     ic_process_type = RTE_PROC_PRIMARY, ic_force_sockets = True, ic_socket_mem = [0x300000, 0, 0, 0, 0, 0, 0, 0], ic_base_virtaddr = 0,
     ic_hugefile_prefix = ''rte'', ic_hugepage_dir = None, ic_user_mbuf_pool_ops_name = None, ic_num_hugepage_sizes = 1,
     ic_hugepage_info = demo_info\<rparr>"

lemma upto_sockets: "[0..<RTE_MAX_NUMA_NODES] = [0, 1, 2, 3, 4, 5, 6, 7]" "{0..<RTE_MAX_NUMA_NODES} = {0, 1, 2, 3, 4, 5, 6, 7}"
  by (auto simp: RTE_MAX_NUMA_NODES_def upt_rec)

lemma all_sockets: "(\<forall>s < RTE_MAX_NUMA_NODES. P s) \<longleftrightarrow> P 0 \<and> P 1 \<and> P 2 \<and> P 3 \<and> P 4 \<and> P 5 \<and> P 6 \<and> P 7"
  unfolding RTE_MAX_NUMA_NODES_def by (simp add: All_less_Suc numeral_eq_Suc conj_ac)

theorem num_pages_spec_witness:
  "\<exists>used n. calc_num_pages_per_socket demo_ic demo_lcores (ic_socket_mem demo_ic) demo_info (map fresh_used demo_info) 1 = Some (used, n) \<and>
     n = int (\<Sum>s = 0..<RTE_MAX_NUMA_NODES. pages_of used 1 0 s) \<and>
     unat (hi_num_pages (used ! 0) ! 0) \<le> 4 \<and> 0x300000 \<le> 0x200000 * unat (hi_num_pages (used ! 0) ! 0)"
proof -
  have p1: "info_ok demo_info 1" by (simp add: info_ok_def demo_info_def RTE_MAX_NUMA_NODES_def)
  have p2: "(0 :: nat) < 1" "ic_force_sockets demo_ic" by (simp_all add: demo_ic_def)
  have p4: "unat (ic_memory demo_ic) = (\<Sum>s = 0..<RTE_MAX_NUMA_NODES. unat (ic_socket_mem demo_ic ! s))"
    unfolding upto_sockets by (simp add: demo_ic_def)
  have p5: "\<forall>s < RTE_MAX_NUMA_NODES. bytes_of demo_info demo_info 1 0 s < 2 ^ 64"
    unfolding all_sockets by (simp add: bytes_of_def demo_info_def)
  have p6: "(\<Sum>s = 0..<RTE_MAX_NUMA_NODES. pages_of demo_info 1 0 s) < 2 ^ 31"
    unfolding upto_sockets by (simp add: pages_of_def demo_info_def)
  obtain used n where
    r: "calc_num_pages_per_socket demo_ic demo_lcores (ic_socket_mem demo_ic) demo_info (map fresh_used (take 1 demo_info)) 1 = Some (used, n)"
    and iff: "n \<noteq> -1 \<longleftrightarrow> (\<forall>s < RTE_MAX_NUMA_NODES. unat (ic_socket_mem demo_ic ! s) \<le> bytes_of demo_info demo_info 1 0 s)"
    and good: "n \<noteq> -1 \<longrightarrow> n = int (\<Sum>s = 0..<RTE_MAX_NUMA_NODES. pages_of used 1 0 s) \<and>
      (\<forall>s < RTE_MAX_NUMA_NODES. (\<forall>k < 1. cnt used k s \<le> cnt demo_info k s) \<and>
        socket_covered demo_info used 1 0 s (unat (ic_socket_mem demo_ic ! s)))"
    using num_pages_spec [OF p1 p2(1) p2(2) p4 p5 p6, of demo_lcores] by (elim exE conjE) (rule that)
  have "n \<noteq> -1" unfolding iff all_sockets by (simp add: bytes_of_def demo_info_def demo_ic_def)
  note g = good [THEN mp, OF this]
  have "n = int (\<Sum>s = 0..<RTE_MAX_NUMA_NODES. pages_of used 1 0 s)" using g by blast
  moreover have "cnt used 0 0 \<le> cnt demo_info 0 0" "socket_covered demo_info used 1 0 0 (unat (ic_socket_mem demo_ic ! 0))"
    using g unfolding all_sockets by auto
  then have "cnt used 0 0 \<le> 4" "0x300000 \<le> 0x200000 * cnt used 0 0"
    by (simp_all add: socket_covered_def bytes_of_def demo_info_def demo_ic_def)
  ultimately show ?thesis using r by (intro exI [of _ used] exI [of _ n]) (simp add: demo_info_def)
qed
end
