(* ===== verification/Hugepage_Props.thy ===== *)
theory Hugepage_Props
  imports Hugepage_Pages Hugepage_Correct
begin

text \<open>
  Giving back the pages that are not needed, publishing the others, and the memory segments made of them:
  what \<^verbatim>\<open>rte_eal_hugepage_init\<close> leaves to the heap.
\<close>

declare of_nat_add [simp del] of_nat_diff [simp del]

section \<open>Giving pages back\<close>

text \<open>A page is kept, or given back.\<close>

definition given_back :: "(hugepage_file \<Rightarrow> bool) \<Rightarrow> hugepage_file \<Rightarrow> hugepage_file \<Rightarrow> bool" where
  "given_back P p p' \<longleftrightarrow> p' = p \<or> P p \<and> p' = p\<lparr>hf_final_va := 0\<rparr>"

definition page_key :: "hugepage_file \<Rightarrow> u64 \<times> int" where
  "page_key p = (hf_size p, hf_socket_id p)"

lemma given_back_refl [simp]: "given_back P p p"
  by (simp add: given_back_def)

lemma list_all2_same: "(\<And>x. P x x) \<Longrightarrow> list_all2 P xs xs"
  by (induction xs) auto

lemma list_all2_in: "list_all2 P xs ys \<Longrightarrow> y \<in> set ys \<Longrightarrow> \<exists>x \<in> set xs. P x y"
  by (induction rule: list_all2_induct) auto

lemma fin_regs_Cons: "fin_regs (p # ps) = (if hf_final_va p \<noteq> 0 then [(unat (hf_final_va p), unat (hf_size p))] else []) @ fin_regs ps"
  by (simp add: fin_regs_def in_use_def)

lemma unmap_pages_held:
  assumes laws: "kernel_laws sys regs"
    and "unmap_pages sys sz socket keep found ps s = (ps', ok, s')" "held (regs (h_os s)) (fin_regs ps @ rs)"
    "\<forall>p \<in> set ps. page_key p = (sz, socket) \<longrightarrow> hf_final_va p \<noteq> 0"
  shows "held (regs (h_os s')) (fin_regs ps' @ rs) \<and> h_ic s' = h_ic s \<and> h_memseg s' = h_memseg s \<and>
    list_all2 (given_back (\<lambda>p. page_key p = (sz, socket))) ps ps'"
  using assms(2-)
proof (induction ps arbitrary: s ps' s' found rs ok)
  case (Cons p ps)
  note q = kernel_quiet [OF laws]
  have m: "hf_size p = sz \<and> hf_socket_id p = socket \<longleftrightarrow> page_key p = (sz, socket)" by (simp add: page_key_def)
  show ?case
  proof (cases "page_key p = (sz, socket) \<and> found = keep")
    case True
    obtain r s1 where c: "os_call (sys_unlink sys (hf_filepath p)) (os_do (sys_munmap sys (hf_final_va p) (hf_size p)) s) = (r, s1)" by fastforce
    have "held (regs (h_os (os_do (sys_munmap sys (hf_final_va p) (hf_size p)) s))) (fin_regs ps @ rs)"
      using Cons.prems(2,3) True by (intro munmap_held [OF laws]) (simp_all add: fin_regs_Cons)
    from keeps_held [OF keeps_call [OF q(7) c] this] have h1: "held (regs (h_os s1)) (fin_regs ps @ rs)" .
    have f1: "h_ic s1 = h_ic s" "h_memseg s1 = h_memseg s" using os_callD [OF c] by simp_all
    show ?thesis
    proof (cases "r = -1")
      case r: True
      then have "ps' = p\<lparr>hf_final_va := 0\<rparr> # ps" "s' = s1" using Cons.prems(1) True m c by (auto simp: Let_def)
      then show ?thesis using h1 f1 True by (simp add: fin_regs_Cons list_all2_same) (simp add: given_back_def)
    next
      case r: False
      obtain ps1 ok1 s2 where e: "unmap_pages sys sz socket keep found ps s1 = (ps1, ok1, s2)" by (metis prod_cases3)
      then have "ps' = p\<lparr>hf_final_va := 0\<rparr> # ps1" "s' = s2" using Cons.prems(1) True m c r by (auto simp: Let_def)
      then show ?thesis using Cons.IH [OF e h1] Cons.prems(3) f1 True by (simp add: fin_regs_Cons) (simp add: given_back_def)
    qed
  next
    case False
    obtain f1 ps1 ok1 s1 where e: "unmap_pages sys sz socket keep f1 ps s = (ps1, ok1, s1)" "ps' = p # ps1" "s' = s1"
      using Cons.prems(1) False m by (auto split: if_splits prod.splits)
    let ?r = "if hf_final_va p \<noteq> 0 then [(unat (hf_final_va p), unat (hf_size p))] else []"
    have "held (regs (h_os s)) (fin_regs ps @ ?r @ rs)"
      by (rule held_perm [OF _ Cons.prems(2)]) (simp add: fin_regs_Cons)
    from Cons.IH [OF e(1) this] Cons.prems(3) have h: "held (regs (h_os s1)) (fin_regs ps1 @ ?r @ rs)"
      and rest: "h_ic s1 = h_ic s" "h_memseg s1 = h_memseg s" "list_all2 (given_back (\<lambda>p. page_key p = (sz, socket))) ps ps1" by auto
    have "held (regs (h_os s1)) (fin_regs (p # ps1) @ rs)" by (rule held_perm [OF _ h]) (simp add: fin_regs_Cons)
    then show ?thesis using rest e by simp
  qed
qed simp

lemma given_back_trans: "given_back P p q \<Longrightarrow> given_back Q q r \<Longrightarrow> given_back (\<lambda>_. True) p r"
  by (auto simp: given_back_def)

lemma given_back_weaken: "given_back P p q \<Longrightarrow> given_back (\<lambda>_. True) p q"
  by (auto simp: given_back_def)

lemma given_back_key: "given_back P p q \<Longrightarrow> page_key q = page_key p"
  by (auto simp: given_back_def page_key_def)

lemma unmap_sizes_held:
  assumes laws: "kernel_laws sys regs"
    and "unmap_sizes sys hpi ks tbl s = (tbl', ok, s')" "held (regs (h_os s)) (fin_regs tbl @ rs)"
    "distinct (map (\<lambda>(sz, socket). (hi_hugepage_sz (hpi ! sz), int socket)) ks)"
    "\<forall>p \<in> set tbl. page_key p \<in> (\<lambda>(sz, socket). (hi_hugepage_sz (hpi ! sz), int socket)) ` set ks \<longrightarrow> hf_final_va p \<noteq> 0"
  shows "held (regs (h_os s')) (fin_regs tbl' @ rs) \<and> h_ic s' = h_ic s \<and> h_memseg s' = h_memseg s \<and>
    list_all2 (given_back (\<lambda>_. True)) tbl tbl'"
  using assms(2-)
proof (induction ks arbitrary: tbl s)
  case Nil
  then show ?case by (simp add: list_all2_same)
next
  case (Cons k ks)
  obtain sz socket where k: "k = (sz, socket)" by fastforce
  let ?K = "\<lambda>(sz, socket). (hi_hugepage_sz (hpi ! sz), int socket)"
  obtain t1 ok1 s1 where c: "unmap_pages sys (hi_hugepage_sz (hpi ! sz)) (int socket) (hi_num_pages (hpi ! sz) ! socket) 0 tbl s = (t1, ok1, s1)"
    by (metis prod_cases3)
  from unmap_pages_held [OF laws c Cons.prems(2)] Cons.prems(4)
  have h: "held (regs (h_os s1)) (fin_regs t1 @ rs)" "h_ic s1 = h_ic s" "h_memseg s1 = h_memseg s"
    "list_all2 (given_back (\<lambda>p. page_key p = ?K k)) tbl t1" by (auto simp: k)
  have g: "list_all2 (given_back (\<lambda>_. True)) tbl t1" using h(4) by (rule list_all2_mono) (rule given_back_weaken)
  show ?case
  proof (cases ok1)
    case False
    then show ?thesis using Cons.prems(1) c h g by (simp add: k)
  next
    case True
    have e: "unmap_sizes sys hpi ks t1 s1 = (tbl', ok, s')" using Cons.prems(1) c True by (simp add: k)
    have "\<forall>p \<in> set t1. page_key p \<in> ?K ` set ks \<longrightarrow> hf_final_va p \<noteq> 0"
    proof (intro ballI impI)
      fix p' assume p': "p' \<in> set t1" "page_key p' \<in> ?K ` set ks"
      then obtain p where p: "p \<in> set tbl" "given_back (\<lambda>p. page_key p = ?K k) p p'"
        using list_all2_in [OF h(4)] by blast
      have "page_key p \<noteq> ?K k" using p' given_back_key [OF p(2)] Cons.prems(3) by auto
      then have "p' = p" using p(2) by (simp add: given_back_def)
      then show "hf_final_va p' \<noteq> 0" using Cons.prems(4) p(1) p'(2) by auto
    qed
    from Cons.IH [OF e h(1) _ this] Cons.prems(3) have u: "held (regs (h_os s')) (fin_regs tbl' @ rs)" "h_ic s' = h_ic s1"
      "h_memseg s' = h_memseg s1" "list_all2 (given_back (\<lambda>_. True)) t1 tbl'" by simp_all
    have "list_all2 (given_back (\<lambda>_. True)) tbl tbl'" by (rule list_all2_trans [OF given_back_trans g u(4)])
    then show ?thesis using u h(2,3) by simp
  qed
qed

lemma distinct_keys:
  assumes "distinct (map hi_hugepage_sz (take num hpi))" "num \<le> length hpi"
  shows "distinct (map (\<lambda>(sz, socket). (hi_hugepage_sz (hpi ! sz), int socket)) (List.product [0..<num] [0..<n]))"
proof -
  have "inj_on (\<lambda>i. hi_hugepage_sz (hpi ! i)) {0..<num}"
  proof (rule inj_onI)
    fix i j assume ij: "i \<in> {0..<num}" "j \<in> {0..<num}" "hi_hugepage_sz (hpi ! i) = hi_hugepage_sz (hpi ! j)"
    then have "map hi_hugepage_sz (take num hpi) ! i = map hi_hugepage_sz (take num hpi) ! j" using assms(2) by simp
    then show "i = j" using nth_eq_iff_index_eq [OF assms(1)] ij assms(2) by simp
  qed
  then show ?thesis by (auto simp: distinct_map distinct_product inj_on_def)
qed

lemma unmap_unneeded_held:
  assumes laws: "kernel_laws sys regs" and r: "unmap_unneeded_hugepages sys tbl hpi num s = Some (tbl', r, s')"
    and h: "held (regs (h_os s)) (fin_regs tbl @ rs)" and tbl: "\<forall>p \<in> set tbl. hf_final_va p \<noteq> 0"
    and d: "distinct (map hi_hugepage_sz (take num hpi))" "num \<le> length hpi"
  shows "held (regs (h_os s')) (fin_regs tbl' @ rs) \<and> h_ic s' = h_ic s \<and> h_memseg s' = h_memseg s \<and> list_all2 (given_back (\<lambda>_. True)) tbl tbl'"
proof -
  define n where "n = total_pages num (ic_hugepage_info (h_ic s))"
  obtain t1 ok s1 where c: "unmap_sizes sys hpi (List.product [0..<num] [0..<RTE_MAX_NUMA_NODES]) (take n tbl) s = (t1, ok, s1)"
    by (metis prod_cases3)
  have e: "tbl' = t1 @ drop n tbl" "s' = s1"
    using r c by (auto simp: unmap_unneeded_hugepages_def n_def [symmetric] Let_def split: if_splits)
  have "fin_regs tbl = fin_regs (take n tbl) @ fin_regs (drop n tbl)" by (metis append_take_drop_id fin_regs_append)
  then have h1: "held (regs (h_os s)) (fin_regs (take n tbl) @ fin_regs (drop n tbl) @ rs)" using h by simp
  have "\<forall>p \<in> set (take n tbl). hf_final_va p \<noteq> 0" using tbl by (auto dest: in_set_takeD)
  with unmap_sizes_held [OF laws c h1 distinct_keys [OF d]]
  have u: "held (regs (h_os s1)) (fin_regs t1 @ fin_regs (drop n tbl) @ rs)" "h_ic s1 = h_ic s" "h_memseg s1 = h_memseg s"
    "list_all2 (given_back (\<lambda>_. True)) (take n tbl) t1" by blast+
  have "list_all2 (given_back (\<lambda>_. True)) (take n tbl @ drop n tbl) (t1 @ drop n tbl)"
    using u(4) by (intro list_all2_appendI list_all2_same) simp_all
  then show ?thesis using u unfolding e by simp
qed

section \<open>The table for the other processes\<close>

lemma copy_active_eq:
  "pos + length (in_use src) \<le> length dst \<Longrightarrow> copy_active dst (length dst) pos src =
     (take pos dst @ in_use src @ drop (pos + length (in_use src)) dst, 0)"
proof (induction src arbitrary: dst pos)
  case (Cons p src)
  show ?case
  proof (cases "hf_final_va p = 0")
    case True
    then show ?thesis using Cons by (simp add: in_use_def)
  next
    case False
    then have len: "pos < length dst" "Suc pos + length (in_use src) \<le> length (dst[pos := p])" using Cons.prems by (simp_all add: in_use_def)
    have "copy_active (dst[pos := p]) (length (dst[pos := p])) (Suc pos) src =
      (take (Suc pos) (dst[pos := p]) @ in_use src @ drop (Suc pos + length (in_use src)) (dst[pos := p]), 0)"
      using len(2) by (rule Cons.IH)
    then show ?thesis using False len by (simp add: in_use_def take_Suc_conv_app_nth)
  qed
qed (simp add: in_use_def)

lemma copy_table:
  "copy_hugepages_to_shared_mem (replicate (length tbl) zero_hf) (length tbl) tbl (length tbl) =
    (in_use tbl @ replicate (length tbl - length (in_use tbl)) zero_hf, 0)"
proof -
  have "length (in_use tbl) \<le> length tbl" by (simp add: in_use_def)
  then show ?thesis using copy_active_eq [of 0 tbl "replicate (length tbl) zero_hf"]
    by (simp add: copy_hugepages_to_shared_mem_def)
qed

section \<open>The segments\<close>

lemma runs_from_append:
  assumes "\<not> page_next (last (q # ps)) z" "runs_from q ps = (r, rs)" "runs_from z zs = (r', rs')"
  shows "runs_from q (ps @ z # zs) = (r, rs @ (z # r') # rs')"
  using assms(1,2)
proof (induction ps arbitrary: q r rs)
  case Nil
  then show ?case using assms(3) by simp
next
  case (Cons p ps)
  obtain r1 rs1 where r1: "runs_from p ps = (r1, rs1)" by fastforce
  show ?case using Cons.prems Cons.IH [OF _ r1] r1 by (auto split: if_splits)
qed

lemma runs_append:
  assumes "\<not> page_next (last us) z" "us \<noteq> []"
  shows "runs (us @ z # zs) = runs us @ runs (z # zs)"
proof -
  obtain q ps where us: "us = q # ps" using assms(2) by (cases us) auto
  obtain r rs r' rs' where "runs_from q ps = (r, rs)" "runs_from z zs = (r', rs')" by fastforce
  then show ?thesis using runs_from_append [of q ps z r rs zs r' rs'] assms(1) by (simp add: us runs_def)
qed

lemma runs_zero: "runs (replicate (Suc m) zero_hf) = [replicate (Suc m) zero_hf]"
proof -
  have "runs_from zero_hf (replicate k zero_hf) = (replicate k zero_hf, [])" for k
    by (induction k) (simp_all add: page_next_def zero_hf_def)
  then show ?thesis by (simp add: runs_def)
qed

lemma runs_table:
  assumes "\<forall>p \<in> set us. hf_size p \<noteq> 0"
  shows "runs (us @ replicate m zero_hf) = runs us @ (if m = 0 then [] else [replicate m zero_hf])"
proof (cases "m = 0 \<or> us = []")
  case True
  then show ?thesis using runs_zero by (cases m) (auto simp: runs_def)
next
  case False
  then obtain k where m: "m = Suc k" by (cases m) auto
  have "\<not> page_next (last us) zero_hf" using False assms by (simp add: page_next_def zero_hf_def)
  from runs_append [OF this, of "replicate k zero_hf"] False show ?thesis using runs_zero [of k] by (simp add: m)
qed

text \<open>A run of good pages is one region without a gap.\<close>

lemma run_va:
  assumes "successively page_next r" "\<forall>p \<in> set r. good_va (hf_size p) (hf_final_va p)" "k < length r"
  shows "hf_size (r ! k) = hf_size (hd r)" "unat (hf_final_va (r ! k)) = unat (hf_final_va (hd r)) + k * unat (hf_size (hd r))"
proof -
  have "hf_size (r ! k) = hf_size (hd r) \<and> unat (hf_final_va (r ! k)) = unat (hf_final_va (hd r)) + k * unat (hf_size (hd r))"
    using assms(3)
  proof (induction k)
    case 0
    then show ?case by (simp add: hd_conv_nth)
  next
    case (Suc k)
    have n: "page_next (r ! k) (r ! Suc k)" using assms(1) Suc.prems by (simp add: successively_conv_nth)
    have "r ! k \<in> set r" using Suc.prems by simp
    then have "unat (hf_final_va (r ! k)) + unat (hf_size (r ! k)) < 2 ^ 64" using assms(2) by (simp add: good_va_def)
    then show ?case using Suc n by (simp add: page_next_def unat_add_no_overflow)
  qed
  then show "hf_size (r ! k) = hf_size (hd r)" "unat (hf_final_va (r ! k)) = unat (hf_final_va (hd r)) + k * unat (hf_size (hd r))" by simp_all
qed

definition run_reg :: "hugepage_file list \<Rightarrow> region" where
  "run_reg r = (unat (hf_final_va (hd r)), length r * unat (hf_size (hd r)))"

lemma run_reg:
  assumes "successively page_next r" "\<forall>p \<in> set r. page_ok szs p" "\<forall>z \<in> szs. 64 dvd unat z \<and> 192 \<le> unat z" "r \<noteq> []"
  shows "64 dvd fst (run_reg r)" "0 < fst (run_reg r)" "192 \<le> snd (run_reg r)" "fst (run_reg r) + snd (run_reg r) < 2 ^ 64"
    "fst (run_reg r) \<le> y \<Longrightarrow> y < fst (run_reg r) + snd (run_reg r) \<Longrightarrow>
      \<exists>p \<in> set r. unat (hf_final_va p) \<le> y \<and> y < unat (hf_final_va p) + unat (hf_size p)"
proof -
  define sz where "sz = unat (hf_size (hd r))"
  define a where "a = unat (hf_final_va (hd r))"
  have good: "\<forall>p \<in> set r. good_va (hf_size p) (hf_final_va p)" using assms(2) by (simp add: page_ok_def)
  have hd: "hd r \<in> set r" using assms(4) by simp
  then have sz: "64 dvd sz" "192 \<le> sz" and a: "sz dvd a" "0 < a" using assms(2,3) by (auto simp: page_ok_def good_va_def sz_def a_def unat_gt_0)
  have e: "run_reg r = (a, length r * sz)" by (simp add: run_reg_def sz_def a_def)
  have len: "0 < length r" using assms(4) by simp
  show "64 dvd fst (run_reg r)" "0 < fst (run_reg r)" using sz(1) a by (auto simp: e intro: dvd_trans)
  have "sz \<le> length r * sz" using len by (cases "length r") simp_all
  with sz(2) have "192 \<le> length r * sz" by (rule le_trans)
  then show "192 \<le> snd (run_reg r)" by (simp add: e)
  define k where "k = length r - 1"
  have k: "k < length r" "Suc k = length r" using len by (simp_all add: k_def)
  note v = run_va [OF assms(1) good]
  have "unat (hf_final_va (r ! k)) + unat (hf_size (r ! k)) < 2 ^ 64" using good k(1) by (simp add: good_va_def)
  then have "a + k * sz + sz < 2 ^ 64" using v [OF k(1)] by (simp add: a_def sz_def)
  then show "fst (run_reg r) + snd (run_reg r) < 2 ^ 64" by (simp add: e k(2) [symmetric])
  show "\<exists>p \<in> set r. unat (hf_final_va p) \<le> y \<and> y < unat (hf_final_va p) + unat (hf_size p)"
    if y: "fst (run_reg r) \<le> y" "y < fst (run_reg r) + snd (run_reg r)"
  proof -
    define j where "j = (y - a) div sz"
    have y': "y - a < length r * sz" "a \<le> y" using y by (auto simp: e)
    then have j: "j < length r" using sz(2) by (simp add: j_def div_less_iff_less_mult)
    have "j * sz \<le> y - a" "y - a < Suc j * sz" using sz(2) dividend_less_div_times [of sz "y - a"] by (simp_all add: j_def)
    then have "a + j * sz \<le> y" "y < a + j * sz + sz" using y'(2) by auto
    then show ?thesis using v [OF j] j by (intro bexI [of _ "r ! j"]) (simp_all add: a_def sz_def)
  qed
qed

lemma held_concat:
  "held R (concat xss) \<Longrightarrow> i < length xss \<Longrightarrow> j < length xss \<Longrightarrow> i \<noteq> j \<Longrightarrow> x \<in> set (xss ! i) \<Longrightarrow> y \<in> set (xss ! j) \<Longrightarrow> apart x y"
proof (induction xss arbitrary: i j)
  case (Cons xs xss)
  have c: "\<forall>x \<in> set xs. \<forall>k < length xss. \<forall>y \<in> set (xss ! k). apart x y"
    using Cons.prems(1) nth_mem by (fastforce simp: held_append)
  show ?case
  proof (cases i)
    case 0
    then obtain k where "j = Suc k" using Cons.prems(4) by (cases j) auto
    then show ?thesis using c Cons.prems 0 by simp
  next
    case (Suc i')
    show ?thesis
    proof (cases j)
      case 0
      then show ?thesis using c Cons.prems Suc by (simp add: apart_sym [of x])
    next
      case (Suc j')
      then show ?thesis using Cons.IH [of i' j'] Cons.prems \<open>i = Suc i'\<close> by (simp add: held_append)
    qed
  qed
qed simp

text \<open>What the heap expects of the segments, and that every byte of them is mapped.\<close>

definition segs_ok :: "(nat \<Rightarrow> rte_memseg) \<Rightarrow> nat \<Rightarrow> bool" where
  "segs_ok segs N \<longleftrightarrow> N \<le> RTE_MAX_MEMSEG \<and> (N < RTE_MAX_MEMSEG \<longrightarrow> ms_len (segs N) = 0) \<and>
     (\<forall>g < N. 64 dvd unat (ms_addr (segs g)) \<and> 0 < unat (ms_addr (segs g)) \<and> 192 \<le> unat (ms_len (segs g)) \<and>
        unat (ms_addr (segs g)) + unat (ms_len (segs g)) < 2 ^ 64) \<and>
     (\<forall>g < N. \<forall>g' < N. g \<noteq> g' \<longrightarrow>
        apart (unat (ms_addr (segs g)), unat (ms_len (segs g))) (unat (ms_addr (segs g')), unat (ms_len (segs g'))))"

definition segs_mapped :: "region set \<Rightarrow> (nat \<Rightarrow> rte_memseg) \<Rightarrow> nat \<Rightarrow> bool" where
  "segs_mapped R segs N \<longleftrightarrow>
     (\<forall>g < N. \<forall>y. unat (ms_addr (segs g)) \<le> y \<and> y < unat (ms_addr (segs g)) + unat (ms_len (segs g)) \<longrightarrow>
        (\<exists>r \<in> R. fst r \<le> y \<and> y < fst r + snd r))"

lemma table_segs:
  assumes us: "\<forall>p \<in> set us. page_ok szs p" and szs: "\<forall>z \<in> szs. 64 dvd unat z \<and> 192 \<le> unat z"
    and h: "held R (fin_regs us)" and f: "fill_memsegs None 0 segs (us @ replicate m zero_hf) = (tbl, segs', True)"
    and empty: "\<forall>g. ms_len (segs g) = 0"
  shows "segs_ok segs' (length (runs us))" "segs_mapped R segs' (length (runs us))"
proof -
  define N where "N = length (runs us)"
  have "0 \<notin> szs" using szs by force
  then have nz: "\<forall>p \<in> set us. hf_size p \<noteq> 0" using us by (auto simp: page_ok_def)
  define rs where "rs = runs us @ (if m = 0 then [] else [replicate m zero_hf])"
  have rs: "runs (us @ replicate m zero_hf) = rs" unfolding rs_def by (rule runs_table [OF nz])
  have segs': "segs' = put_segs 0 rs segs" and le: "length rs \<le> RTE_MAX_MEMSEG"
    using fill_runs [where segs = segs and ps = "us @ replicate m zero_hf", unfolded f rs] by simp_all
  have run: "successively page_next (runs us ! g)" "\<forall>p \<in> set (runs us ! g). page_ok szs p" "runs us ! g \<noteq> []" if "g < N" for g
  proof -
    have mem: "runs us ! g \<in> set (runs us)" using that by (simp add: N_def)
    then show "successively page_next (runs us ! g)" by (rule runs_next)
    show "runs us ! g \<noteq> []" using mem runs_ne by metis
    have "set (runs us ! g) \<subseteq> set us" using mem by (subst (2) runs_concat [symmetric]) auto
    then show "\<forall>p \<in> set (runs us ! g). page_ok szs p" using us by blast
  qed
  note reg = run_reg [OF run(1,2) szs run(3)]
  have seg: "(unat (ms_addr (segs' g)), unat (ms_len (segs' g))) = run_reg (runs us ! g)" if g: "g < N" for g
  proof -
    have s: "segs' g = seg_of (runs us ! g) (segs g)" using g by (simp add: segs' put_segs_def rs_def nth_append N_def)
    have len: "length (runs us ! g) * unat (hf_size (hd (runs us ! g))) < 2 ^ 64" using reg(4) [OF g g g] by (simp add: run_reg_def)
    have "unat (of_nat (length (runs us ! g)) * hf_size (hd (runs us ! g))) = length (runs us ! g) * unat (hf_size (hd (runs us ! g)))"
    proof -
      have "of_nat (length (runs us ! g)) * hf_size (hd (runs us ! g)) = (of_nat (length (runs us ! g) * unat (hf_size (hd (runs us ! g)))) :: u64)"
        by simp
      then show ?thesis using len by (simp only:) (rule unat_of_nat_small, simp)
    qed
    then show ?thesis by (simp add: s seg_of_def run_reg_def)
  qed
  have fs: "unat (ms_addr (segs' g)) = fst (run_reg (runs us ! g))" "unat (ms_len (segs' g)) = snd (run_reg (runs us ! g))" if "g < N" for g
    using seg [OF that] by (metis fst_conv, metis snd_conv)
  have "in_use us = us" using us by (auto simp: in_use_def page_ok_def good_va_def filter_id_conv)
  then have regs: "fin_regs us = concat (map (map (\<lambda>p. (unat (hf_final_va p), unat (hf_size p)))) (runs us))"
    unfolding fin_regs_def by (metis map_concat runs_concat)
  show "segs_mapped R segs' (length (runs us))"
    unfolding segs_mapped_def N_def [symmetric]
  proof (intro allI impI)
    fix g y assume g: "g < N" and y: "unat (ms_addr (segs' g)) \<le> y \<and> y < unat (ms_addr (segs' g)) + unat (ms_len (segs' g))"
    from reg(5) [OF g g g, of y] y obtain p where p: "p \<in> set (runs us ! g)" "unat (hf_final_va p) \<le> y" "y < unat (hf_final_va p) + unat (hf_size p)"
      unfolding fs [OF g] by blast
    have "(unat (hf_final_va p), unat (hf_size p)) \<in> set (fin_regs us)" unfolding regs using p(1) g by (force simp: N_def)
    then show "\<exists>r \<in> R. fst r \<le> y \<and> y < fst r + snd r" using held_subset [OF h] p(2,3) by (metis fst_conv snd_conv subsetD)
  qed
  have ap: "apart (run_reg (runs us ! g)) (run_reg (runs us ! g'))" if g: "g < N" "g' < N" "g \<noteq> g'" for g g'
  proof (rule ccontr)
    assume n: "\<not> apart (run_reg (runs us ! g)) (run_reg (runs us ! g'))"
    define y where "y = max (fst (run_reg (runs us ! g))) (fst (run_reg (runs us ! g')))"
    have pos: "0 < snd (run_reg (runs us ! g))" "0 < snd (run_reg (runs us ! g'))"
      using reg(3) [OF g(1) g(1) g(1)] reg(3) [OF g(2) g(2) g(2)] by auto
    have y: "fst (run_reg (runs us ! g)) \<le> y" "y < fst (run_reg (runs us ! g)) + snd (run_reg (runs us ! g))"
      "fst (run_reg (runs us ! g')) \<le> y" "y < fst (run_reg (runs us ! g')) + snd (run_reg (runs us ! g'))"
      using n pos by (auto simp: apart_def y_def)
    from reg(5) [OF g(1) g(1) g(1) y(1,2)] obtain p where p: "p \<in> set (runs us ! g)" "unat (hf_final_va p) \<le> y" "y < unat (hf_final_va p) + unat (hf_size p)" by blast
    from reg(5) [OF g(2) g(2) g(2) y(3,4)] obtain q where q: "q \<in> set (runs us ! g')" "unat (hf_final_va q) \<le> y" "y < unat (hf_final_va q) + unat (hf_size q)" by blast
    have "apart (unat (hf_final_va p), unat (hf_size p)) (unat (hf_final_va q), unat (hf_size q))"
      using held_concat [OF h [unfolded regs], of g g'] p(1) q(1) g by (simp add: N_def)
    then show False using p q by (auto simp: apart_def)
  qed
  have z: "ms_len (segs' N) = 0" if "N < RTE_MAX_MEMSEG"
  proof (cases "m = 0")
    case True
    then show ?thesis using empty by (simp add: segs' put_segs_def rs_def N_def)
  next
    case False
    then have "segs' N = seg_of (replicate m zero_hf) (segs N)" by (simp add: segs' put_segs_def rs_def N_def nth_append)
    then show ?thesis using False by (simp add: seg_of_def zero_hf_def)
  qed
  show "segs_ok segs' (length (runs us))"
    unfolding segs_ok_def N_def [symmetric]
  proof (intro conjI allI impI)
    show "N \<le> RTE_MAX_MEMSEG" using le by (simp add: rs_def N_def)
    show "ms_len (segs' N) = 0" if "N < RTE_MAX_MEMSEG" using z [OF that] .
    fix g assume g: "g < N"
    show "64 dvd unat (ms_addr (segs' g))" "0 < unat (ms_addr (segs' g))" "192 \<le> unat (ms_len (segs' g))"
      "unat (ms_addr (segs' g)) + unat (ms_len (segs' g)) < 2 ^ 64"
      unfolding fs [OF g] using reg(1-4) [OF g g g] by simp_all
    fix g' assume g': "g' < N" "g \<noteq> g'"
    show "apart (unat (ms_addr (segs' g)), unat (ms_len (segs' g))) (unat (ms_addr (segs' g')), unat (ms_len (segs' g')))"
      unfolding seg [OF g] seg [OF g'(1)] using g g' by (rule ap)
  qed
qed

section \<open>The whole initialisation\<close>

lemma create_keeps:
  assumes laws: "kernel_laws sys regs" and c: "create_shared_memory sys f sz s = (a, s')"
  shows "keeps regs s s'" "a \<noteq> 0 \<Longrightarrow> fresh_va regs s s' sz a"
proof -
  note q = kernel_quiet [OF laws]
  obtain fd s1 where c1: "os_call (sys_open sys f O_RDWR_CREAT) s = (fd, s1)" by (rule prod.exhaust)
  obtain r s2 where c2: "os_call (sys_ftruncate sys fd sz) s1 = (r, s2)" by (rule prod.exhaust)
  obtain b s3 where c3: "os_call (sys_mmap sys 0 sz PROT_READ_WRITE MAP_SHARED fd) s2 = (b, s3)" by (rule prod.exhaust)
  note k = keeps_call [OF q(1) c1] keeps_call [OF q(5) c2] keeps_do [OF q(2)]
  have k3: "keeps regs s2 s3"
  proof (cases b)
    case None
    from mmap_fail [OF laws c3 [unfolded None]] show ?thesis .
  next
    case (Some b')
    from mmap_new(6) [OF laws c3 [unfolded Some]] show ?thesis .
  qed
  have cases: "a = 0 \<and> s' = s1 \<or> a = 0 \<and> s' = os_do (sys_close sys fd) s2 \<or>
    a = (case b of None \<Rightarrow> 0 | Some a \<Rightarrow> a) \<and> s' = os_do (sys_close sys fd) s3"
    using c unfolding create_shared_memory_def c1 prod.case c2 Let_def c3 by (cases "fd < 0"; cases "r < 0") simp_all
  then show "keeps regs s s'" using k(1) keeps_trans [OF k(1) keeps_trans [OF k(2) k(3)]] keeps_trans [OF k(1) keeps_trans [OF k(2) keeps_trans [OF k3 k(3)]]]
    by (elim disjE conjE) simp_all
  show "fresh_va regs s s' sz a" if "a \<noteq> 0"
  proof -
    have b: "b = Some a" "s' = os_do (sys_close sys fd) s3" using cases that by (auto split: option.splits)
    have "fresh_va regs s2 s3 sz a" using mmap_new(4,5) [OF laws c3 [unfolded b]] by (simp add: fresh_va_def)
    then show ?thesis unfolding b(2) by (rule fresh_va_keeps [OF _ keeps_trans [OF k(1) k(2)] k(3)])
  qed
qed

lemma unlink_pages_keeps:
  assumes laws: "kernel_laws sys regs"
  shows "keeps regs s (unlink_pages sys ps s)"
proof (induction ps arbitrary: s)
  case (Cons p ps)
  obtain r s1 where c: "os_call (sys_unlink sys (hf_filepath p)) s = (r, s1)" by fastforce
  have "keeps regs s (if hf_final_va p \<noteq> 0 then snd (os_call (sys_unlink sys (hf_filepath p)) s) else s)"
    using keeps_call [OF kernel_quiet(7) [OF laws] c] by (simp add: c)
  from keeps_trans [OF this Cons.IH] show ?case by simp
qed simp

lemma fin_regs_in_use: "fin_regs (in_use tbl) = fin_regs tbl"
  by (simp add: fin_regs_def in_use_def)

lemma publish_held:
  assumes laws: "kernel_laws sys regs" and r: "publish_pages sys used tbl s = Some (s', table, 0)"
    and h: "held (regs (h_os s)) (fin_regs tbl)" and tbl: "\<forall>p \<in> set tbl. page_ok szs p"
    and d: "distinct (map hi_hugepage_sz (take (ic_num_hugepage_sizes (h_ic s)) used))" "ic_num_hugepage_sizes (h_ic s) \<le> length used"
    and szs: "\<forall>z \<in> szs. 64 dvd unat z \<and> 192 \<le> unat z" and empty: "\<forall>g. ms_len (h_memseg s g) = 0"
  shows "\<exists>N. segs_ok (h_memseg s') N \<and> segs_mapped (regs (h_os s')) (h_memseg s') N"
proof -
  define sz where "sz = of_nat (length tbl) * SIZEOF_HUGEPAGE_FILE"
  obtain a s1 where c: "create_shared_memory sys (eal_hugepage_info_path sys (h_ic s)) sz s = (a, s1)" by fastforce
  note k1 = create_keeps [OF laws c]
  have a: "a \<noteq> 0" using r by (auto simp: publish_pages_def sz_def [symmetric] c)
  have f1: "h_ic s1 = h_ic s" "h_memseg s1 = h_memseg s" using k1(1) by (simp_all add: keeps_def)
  define num where "num = ic_num_hugepage_sizes (h_ic s)"
  have b: "(do {
      (tbl2, r2, s2) \<leftarrow> unmap_unneeded_hugepages sys tbl used num s1;
      if r2 < 0 then Some (os_do (sys_munmap sys a sz) s2, [], -1)
      else (case copy_hugepages_to_shared_mem (replicate (length tbl) zero_hf) (length tbl) tbl2 (length tbl) of (table, r) \<Rightarrow>
       if r < 0 then Some (os_do (sys_munmap sys a sz) s2, table, -1)
       else (case fill_memsegs None 0 (h_memseg (if ic_hugepage_unlink (h_ic s2) then unlink_hugepage_files sys tbl2 (ic_num_hugepage_sizes (h_ic s2)) s2 else s2)) table
         of (table, segs, ok) \<Rightarrow>
         Some (os_do (sys_munmap sys a sz) ((if ic_hugepage_unlink (h_ic s2) then unlink_hugepage_files sys tbl2 (ic_num_hugepage_sizes (h_ic s2)) s2 else s2)\<lparr>h_memseg := segs\<rparr>),
           table, if ok then 0 else -1)))
    }) = Some (s', table, 0 :: int)"
    using r a unfolding publish_pages_def Let_def sz_def [symmetric] c prod.case f1 num_def [symmetric] by (simp only: if_False)
  then obtain tbl2 r2 s2 where u: "unmap_unneeded_hugepages sys tbl used num s1 = Some (tbl2, r2, s2)"
    by (cases "unmap_unneeded_hugepages sys tbl used num s1") auto
  have r2: "\<not> r2 < 0" using b u by auto
  have h1: "held (regs (h_os s1)) (fin_regs tbl @ [(unat a, unat sz)])"
    by (rule held_perm [OF _ fresh_held [OF k1(2) [OF a] k1(1) h]]) simp
  have nz: "\<forall>p \<in> set tbl. hf_final_va p \<noteq> 0" using tbl by (auto simp: page_ok_def good_va_def)
  from unmap_unneeded_held [OF laws u h1 nz d [folded num_def]] have h2: "held (regs (h_os s2)) (fin_regs tbl2 @ [(unat a, unat sz)])"
    and f2: "h_ic s2 = h_ic s" "h_memseg s2 = h_memseg s" and g: "list_all2 (given_back (\<lambda>_. True)) tbl tbl2" using f1 by simp_all
  have len: "length tbl2 = length tbl" using g by (simp add: list_all2_lengthD)
  define m where "m = length tbl2 - length (in_use tbl2)"
  define s3 where "s3 = (if ic_hugepage_unlink (h_ic s) then unlink_hugepage_files sys tbl2 num s2 else s2)"
  have k3: "keeps regs s2 s3" using unlink_pages_keeps [OF laws] by (simp add: s3_def unlink_hugepage_files_def)
  obtain t4 segs ok where fm: "fill_memsegs None 0 (h_memseg s) (in_use tbl2 @ replicate m zero_hf) = (t4, segs, ok)" by (metis prod_cases3)
  have e: "s' = os_do (sys_munmap sys a sz) (s3\<lparr>h_memseg := segs\<rparr>)" "ok"
  proof -
    have cp: "copy_hugepages_to_shared_mem (replicate (length tbl) zero_hf) (length tbl) tbl2 (length tbl) = (in_use tbl2 @ replicate m zero_hf, 0)"
      using copy_table [of tbl2] by (simp add: len m_def)
    have m3: "h_memseg s3 = h_memseg s" using k3 f2 by (simp add: keeps_def)
    have "Some (os_do (sys_munmap sys a sz) (s3\<lparr>h_memseg := segs\<rparr>), t4, if ok then 0 else - 1) = Some (s', table, 0 :: int)"
      using b r2 unfolding u Option.bind.simps prod.case cp f2(1) num_def [symmetric] s3_def [symmetric] m3 fm by simp
    then show "s' = os_do (sys_munmap sys a sz) (s3\<lparr>h_memseg := segs\<rparr>)" "ok" by (auto split: if_splits)
  qed
  have ok: "\<forall>p \<in> set (in_use tbl2). page_ok szs p"
  proof
    fix p' assume p': "p' \<in> set (in_use tbl2)"
    then obtain p where p: "p \<in> set tbl" "given_back (\<lambda>_. True) p p'" using list_all2_in [OF g] by (auto simp: in_use_def)
    have "hf_final_va p' \<noteq> 0" using p' by (simp add: in_use_def)
    then have "p' = p" using p(2) by (auto simp: given_back_def)
    then show "page_ok szs p'" using tbl p(1) by simp
  qed
  have "held (regs (h_os s3)) (fin_regs tbl2 @ [(unat a, unat sz)])" using k3 h2 by (rule keeps_held)
  then have "held (regs (h_os s3)) (fin_regs tbl2)" "\<forall>r \<in> set (fin_regs tbl2). apart (unat a, unat sz) r"
    by (simp_all add: held_append apart_sym [of "(unat a, unat sz)"])
  then have "held (regs (h_os s')) (fin_regs tbl2)" using munmap_held [OF laws, of "s3\<lparr>h_memseg := segs\<rparr>"] by (simp add: e(1))
  then have "held (regs (h_os s')) (fin_regs (in_use tbl2))" by (simp add: fin_regs_in_use)
  from table_segs [OF ok szs this, of "h_memseg s" m t4 segs] fm e empty show ?thesis by auto
qed

lemma sizes_size_pages:
  assumes "size_pages info num socket i st = Some (st1, go)"
  shows "map hi_hugepage_sz (fst st1) = map hi_hugepage_sz (fst st)"
proof -
  have upd: "map hi_hugepage_sz (used[i := (used ! i)\<lparr>hi_hugedir := d\<rparr>]) = map hi_hugepage_sz used" for used d
    by (cases "i < length used") (simp_all add: map_update list_update_same_conv list_update_beyond)
  obtain used mem total pages where st: "st = (used, mem, total, pages)" by (metis prod_cases4)
  show ?thesis using assms unfolding size_pages_def Let_def st prod.case
    by (simp only: option.distinct option.inject split: if_split_asm) (auto simp only: prod.inject fst_conv sizes_set_pages upd)
qed

lemma sizes_socket_pages:
  "socket_pages info num socket is st = Some st' \<Longrightarrow> map hi_hugepage_sz (fst st') = map hi_hugepage_sz (fst st)"
proof (induction "is" arbitrary: st)
  case (Cons i "is")
  show ?case
  proof (cases "fst (snd st) = 0")
    case False
    with Cons.prems obtain st1 go where c: "size_pages info num socket i st = Some (st1, go)"
      and rest: "(if go then socket_pages info num socket is st1 else Some st1) = Some st'"
      by (auto simp: bind_eq_Some_conv)
    then show ?thesis using Cons.IH [of st1] sizes_size_pages [OF c] by (cases go) auto
  qed (use Cons.prems in simp)
qed simp

lemma sizes_sockets_pages:
  "sockets_pages info num memory js (used, t, p) = Some (used', t', p', ok) \<Longrightarrow> map hi_hugepage_sz used' = map hi_hugepage_sz used"
proof (induction js arbitrary: used t p)
  case (Cons j js)
  show ?case
  proof (cases "t = 0")
    case False
    with Cons.prems obtain used1 m1 t1 p1 where c: "socket_pages info num j [0..<num] (used, memory ! j, t, p) = Some (used1, m1, t1, p1)"
      and rest: "(if m1 > 0 then Some (used1, t1, p1, False) else sockets_pages info num memory js (used1, t1, p1)) = Some (used', t', p', ok)"
      by (auto simp: bind_eq_Some_conv)
    then show ?thesis using Cons.IH [of used1 t1 p1] sizes_socket_pages [OF c] by (cases "m1 > 0") auto
  qed (use Cons.prems in simp)
qed simp

lemma sizes_calc:
  "calc_num_pages_per_socket ic ls memory info used num = Some (used', n) \<Longrightarrow> map hi_hugepage_sz used' = map hi_hugepage_sz used"
  by (auto simp: calc_num_pages_per_socket_def bind_eq_Some_conv split: if_splits dest: sizes_sockets_pages)

lemma sizes_count_socket: "count_socket_pages js p info = Some info' \<Longrightarrow> map hi_hugepage_sz info' = map hi_hugepage_sz info"
  by (induction js arbitrary: info) (auto split: if_splits)

lemma sizes_count: "count_pages js ps info = Some info' \<Longrightarrow> map hi_hugepage_sz info' = map hi_hugepage_sz info"
  by (induction ps arbitrary: info) (auto simp: bind_eq_Some_conv dest: sizes_count_socket)

lemma sizes_clear: "map hi_hugepage_sz (ic_hugepage_info (clear_num_pages ic)) = map hi_hugepage_sz (ic_hugepage_info ic)"
  by (simp add: clear_num_pages_def comp_def) (metis append_take_drop_id map_append)

lemma select_sizes:
  assumes "select_pages sys ls used tbl s = Some (Inr used', s')"
  shows "same_sizes s s'" "h_os s' = h_os s" "map hi_hugepage_sz used' = map hi_hugepage_sz used"
proof -
  define ic where "ic = (let ic = h_ic s; ic = (if ic_memory ic = 0 \<and> \<not> ic_force_sockets ic
    then ic\<lparr>ic_memory := eal_get_hugepage_mem_size ic\<rparr> else ic) in clear_num_pages ic)"
  have ic: "map hi_hugepage_sz (ic_hugepage_info ic) = map hi_hugepage_sz (ic_hugepage_info (h_ic s))"
    "ic_num_hugepage_sizes ic = ic_num_hugepage_sizes (h_ic s)"
    by (simp_all add: ic_def Let_def sizes_clear) (simp add: clear_num_pages_def)
  from assms obtain info n where c: "count_pages [0..<min MAX_HUGEPAGE_SIZES (ic_num_hugepage_sizes ic)] tbl (ic_hugepage_info ic) = Some info"
    and s: "s' = s\<lparr>h_ic := ic\<lparr>ic_hugepage_info := info\<rparr>\<rparr>"
    and n: "calc_num_pages_per_socket (ic\<lparr>ic_hugepage_info := info\<rparr>) ls (ic_socket_mem ic) info used (ic_num_hugepage_sizes ic) = Some (used', n)"
    unfolding select_pages_def Let_def ic_def by (auto simp: bind_eq_Some_conv split: if_splits)
  show "same_sizes s s'" "h_os s' = h_os s" using ic sizes_count [OF c] by (simp_all add: s same_sizes_def)
  show "map hi_hugepage_sz used' = map hi_hugepage_sz used" using n by (rule sizes_calc)
qed

text \<open>The huge page sizes of a configuration: distinct multiples of the page size of the processor.\<close>

definition sizes_ok :: "internal_config \<Rightarrow> bool" where
  "sizes_ok ic \<longleftrightarrow> ic_num_hugepage_sizes ic \<le> length (ic_hugepage_info ic) \<and> distinct (hp_sizes ic) \<and>
     (\<forall>z \<in> set (hp_sizes ic). 0 < z \<and> 4096 dvd unat z)"

lemma init_segments:
  assumes laws: "kernel_laws sys regs" and cfg: "\<not> ic_no_hugetlbfs (h_ic s)" "sizes_ok (h_ic s)"
    and empty: "\<forall>g. ms_len (h_memseg s g) = 0"
    and r: "rte_eal_hugepage_init sys tmp ls s = Some (s', table, 0)"
  shows "\<exists>N. segs_ok (h_memseg s') N \<and> segs_mapped (regs (h_os s')) (h_memseg s') N"
proof -
  note q = kernel_quiet [OF laws]
  define s1 where "s1 = test_phys_addrs_available sys tmp s"
  have k1: "keeps regs s s1" using virt2phy_keeps [OF laws]
    by (auto simp: s1_def test_phys_addrs_available_def split: prod.splits)
  then have ic1: "h_ic s1 = h_ic s" "h_memseg s1 = h_memseg s" by (simp_all add: keeps_def)
  define num where "num = ic_num_hugepage_sizes (h_ic s)"
  define s2 where "s2 = huge_register_sigbus sys s1"
  obtain rr s1' where "os_call (sys_sigaction sys) s1 = (rr, s1')" by fastforce
  with keeps_call [OF q(9) this] have k2: "keeps regs s1 s2" by (simp add: s2_def huge_register_sigbus_def)
  then have ic2: "h_ic s2 = h_ic s" "h_memseg s2 = h_memseg s" using ic1 by (simp_all add: keeps_def)
  define used where "used = map (\<lambda>h. \<lparr>hi_hugepage_sz = hi_hugepage_sz h, hi_hugedir = None,
    hi_num_pages = replicate RTE_MAX_NUMA_NODES 0, hi_lock_descriptor = 0\<rparr>) (take num (ic_hugepage_info (h_ic s)))"
  have body: "(do {
         (r, s) \<leftarrow> init_sizes sys [0..<num] [] (ic_socket_mem (h_ic s2)) s2;
         let s = huge_recover_sigbus sys s;
         case r of
           Inl _ \<Rightarrow> Some (s, [], -1)
         | Inr tbl \<Rightarrow> do {
             (r, s) \<leftarrow> select_pages sys ls used tbl s;
             case r of Inl _ \<Rightarrow> Some (s, [], -1) | Inr used_hp \<Rightarrow> publish_pages sys used_hp tbl s
           }
       }) = Some (s', table, 0)"
    using r cfg unfolding rte_eal_hugepage_init_def Let_def s1_def [symmetric] ic1 num_def [symmetric] used_def [symmetric] s2_def [symmetric]
    by (auto split: if_splits)
  then obtain r3 s3 where c3: "init_sizes sys [0..<num] [] (ic_socket_mem (h_ic s2)) s2 = Some (r3, s3)"
    by (auto simp: bind_eq_Some_conv)
  with body obtain tbl where r3: "r3 = Inr tbl" by (cases r3) auto
  define s4 where "s4 = huge_recover_sigbus sys s3"
  from body c3 r3 obtain r5 s5 where c5: "select_pages sys ls used tbl s4 = Some (r5, s5)"
    by (auto simp: bind_eq_Some_conv s4_def)
  with body c3 r3 obtain used' where r5: "r5 = Inr used'" by (cases r5) (auto simp: s4_def)
  have p: "publish_pages sys used' tbl s5 = Some (s', table, 0)" using body c3 r3 c5 r5 by (simp add: s4_def)
  have len: "num \<le> length (ic_hugepage_info (h_ic s2))" using cfg(2) ic2 by (simp add: sizes_ok_def num_def)
  have in_szs: "\<forall>i \<in> set [0..<num]. hi_hugepage_sz (ic_hugepage_info (h_ic s2) ! i) \<in> set (hp_sizes (h_ic s))"
  proof
    fix i assume "i \<in> set [0..<num]"
    then have "hp_sizes (h_ic s) ! i = hi_hugepage_sz (ic_hugepage_info (h_ic s2) ! i)" "i < length (hp_sizes (h_ic s))"
      using len by (simp_all add: hp_sizes_def num_def ic2)
    then show "hi_hugepage_sz (ic_hugepage_info (h_ic s2) ! i) \<in> set (hp_sizes (h_ic s))" by (metis nth_mem)
  qed
  have "\<forall>i \<in> set [0..<num]. i < length (ic_hugepage_info (h_ic s2))" using len by auto
  from init_sizes_held [OF laws c3 [unfolded r3] this _ _ in_szs] have h3: "held (regs (h_os s3)) (fin_regs tbl)" "same_sizes s2 s3"
    "\<forall>p \<in> set tbl. page_ok (set (hp_sizes (h_ic s))) p" by auto
  obtain rr2 s3' where c4: "os_call (sys_sigaction sys) s3 = (rr2, s3')" by fastforce
  have k4: "keeps regs s3 s4" using keeps_call [OF q(9) c4] by (simp add: s4_def huge_recover_sigbus_def c4)
  note sel = select_sizes [OF c5 [unfolded r5]]
  have h5: "held (regs (h_os s5)) (fin_regs tbl)" using keeps_held [OF k4 h3(1)] sel(2) by simp
  have ss: "same_sizes s s5" using ic2 h3(2) keeps_sizes [OF k4] sel(1) by (simp add: same_sizes_def)
  have num5: "ic_num_hugepage_sizes (h_ic s5) = num" using ss by (simp add: same_sizes_def num_def)
  have used': "map hi_hugepage_sz used' = hp_sizes (h_ic s)" using sel(3) by (simp add: used_def hp_sizes_def num_def comp_def)
  have "length used' = num" using arg_cong [OF used', of length] cfg(2) by (simp add: hp_sizes_def num_def sizes_ok_def)
  then have d: "distinct (map hi_hugepage_sz (take num used'))" "num \<le> length used'" using used' cfg(2) by (simp_all add: sizes_ok_def)
  have szs: "\<forall>z \<in> set (hp_sizes (h_ic s)). 64 dvd unat z \<and> 192 \<le> unat z"
  proof
    fix z assume "z \<in> set (hp_sizes (h_ic s))"
    then have z: "4096 dvd unat z" "0 < unat z" using cfg(2) by (auto simp: sizes_ok_def unat_gt_0)
    have "(64 :: nat) dvd 4096" by simp
    then have "64 dvd unat z" using z(1) by (rule dvd_trans)
    moreover have "4096 \<le> unat z" using z by (rule dvd_imp_le)
    ultimately show "64 dvd unat z \<and> 192 \<le> unat z" by simp
  qed
  have "\<forall>g. ms_len (h_memseg s5 g) = 0" using empty ss by (simp add: same_sizes_def)
  from publish_held [OF laws p h5 h3(3) d [folded num5] szs this] show ?thesis .
qed

end
