(* ===== verification/Hugepage_Info.thy ===== *)
theory Hugepage_Info
  imports Hugepage_Map
begin

text \<open>
  Discovery of the huge pages (\<^verbatim>\<open>linuxapp/eal/eal_hugepage_info.c\<close>): the sizes the kernel offers, where each is mounted,
  and how many pages of it are free. A line of a file is read by \<^verbatim>\<open>fgets\<close> into a buffer of \<^verbatim>\<open>BUFSIZ\<close> characters
  unless said otherwise.
\<close>

definition sys_dir_path :: string where "sys_dir_path = ''/sys/kernel/mm/hugepages''"

definition get_num_hugepages :: "'os sys \<Rightarrow> string \<Rightarrow> 'os \<Rightarrow> u32" where
  "get_num_hugepages sys subdir os =
     (let path = (\<lambda>file. fst (snprintf_str PATH_MAX (sys_dir_path @ ''/'' @ subdir @ ''/'' @ file)))
      in case eal_parse_sysfs_value sys (path ''resv_hugepages'') os of
           None \<Rightarrow> 0
         | Some resv_pages \<Rightarrow>
             (case eal_parse_sysfs_value sys (path ''free_hugepages'') os of
                None \<Rightarrow> 0
              | Some num_pages \<Rightarrow>
                  let num_pages = (if num_pages \<ge> resv_pages then num_pages - resv_pages
                                   else if resv_pages \<noteq> 0 then 0 else num_pages);
                      num_pages = (if num_pages > 0xFFFFFFFF then 0xFFFFFFFF else num_pages)
                  in ucast num_pages))"

text \<open>The buffer has 256 characters.\<close>

definition get_default_hp_size :: "'os sys \<Rightarrow> 'os \<Rightarrow> u64 res" where
  "get_default_hp_size sys os =
     (case sys_lines sys os ''/proc/meminfo'' of
        None \<Rightarrow> abort ''Cannot open /proc/meminfo''
      | Some lines \<Rightarrow>
          let size = (case find (strneq 13 ''Hugepagesize:'') (concat (map (fgets_pieces 256) lines)) of
                        None \<Rightarrow> 0 | Some buffer \<Rightarrow> rte_str_to_size (drop 13 buffer))
          in if size = 0 then abort ''Cannot get default hugepage size'' else ret size)"

text \<open>
  The lines of \<^verbatim>\<open>/proc/mounts\<close>, each taken apart into the device, the mount point, the type and the rest; \<open>dup\<close> tells
  whether \<^verbatim>\<open>strdup\<close> succeeds.
\<close>

fun mounts_loop :: "(string \<Rightarrow> bool) \<Rightarrow> string option \<Rightarrow> u64 \<Rightarrow> u64 \<Rightarrow> string list \<Rightarrow> string option" where
  "mounts_loop dup huge_dir hugepage_sz default_size [] = None"
| "mounts_loop dup huge_dir hugepage_sz default_size (line # lines) =
     (let (buf, toks, n) = rte_strsplit (Some line) (int BUFSIZ) 4 CHR '' '';
          field = (\<lambda>k. token_at buf (toks ! k));
          next = mounts_loop dup huge_dir hugepage_sz default_size lines;
          found = (if dup (field 1) then Some (field 1) else None)
      in if n \<noteq> 4 then None
         else if huge_dir \<noteq> None \<and> huge_dir \<noteq> Some (field 1) then next
         else if \<not> strneq 9 (field 2) ''hugetlbfs'' then next
         else case strstr (field 3) ''pagesize='' of
                None \<Rightarrow> if hugepage_sz = default_size then found else next
              | Some pagesz_str \<Rightarrow> if rte_str_to_size (drop 9 pagesz_str) = hugepage_sz then found else next)"

text \<open>The result comes with the new value of the static variable \<^verbatim>\<open>default_size\<close>.\<close>

definition get_hugepage_dir :: "'os sys \<Rightarrow> u64 \<Rightarrow> u64 \<Rightarrow> 'os hst \<Rightarrow> (u64 \<times> string option) res" where
  "get_hugepage_dir sys hugepage_sz default_size s =
     (case sys_lines sys (h_os s) ''/proc/mounts'' of
        None \<Rightarrow> abort ''Cannot open /proc/mounts''
      | Some lines \<Rightarrow>
          res_bind (if default_size = 0 then get_default_hp_size sys (h_os s) else ret default_size) (\<lambda>default_size.
            ret (default_size, mounts_loop (\<lambda>str. sys_malloc sys (of_nat (length str + 1)) (h_os s)) (ic_hugepage_dir (h_ic s))
              hugepage_sz default_size lines)))"

text \<open>\<^verbatim>\<open>fnmatch("*map_*", name, 0)\<close>: the name contains \<^verbatim>\<open>map_\<close>.\<close>

definition hugepage_file_name :: "string \<Rightarrow> bool" where
  "hugepage_file_name name \<longleftrightarrow> strstr name ''map_'' \<noteq> None"

text \<open>A file is opened and removed relative to its directory, which is written here as its path.\<close>

fun clear_files :: "'os sys \<Rightarrow> string \<Rightarrow> string list \<Rightarrow> 'os hst \<Rightarrow> 'os hst" where
  "clear_files sys hugedir [] s = s"
| "clear_files sys hugedir (d_name # names) s =
     (if \<not> hugepage_file_name d_name then clear_files sys hugedir names s
      else let path = hugedir @ ''/'' @ d_name; (fd, s) = os_call (sys_open sys path O_RDONLY) s
           in if fd = -1 then clear_files sys hugedir names s
              else let (lck_result, s) = os_call (sys_flock sys fd LOCK_EX_NB) s;
                       s = (if lck_result \<noteq> -1
                            then let (_, s) = os_call (sys_flock sys fd LOCK_UN) s; (_, s) = os_call (sys_unlink sys path) s in s
                            else s)
                   in clear_files sys hugedir names (os_do (sys_close sys fd) s))"

definition clear_hugedir :: "'os sys \<Rightarrow> string \<Rightarrow> 'os hst \<Rightarrow> int \<times> 'os hst" where
  "clear_hugedir sys hugedir s =
     (case sys_dir sys (h_os s) hugedir of
        None \<Rightarrow> (-1, s)
      | Some names \<Rightarrow> if names = [] then (-1, s) else (0, clear_files sys hugedir names s))"

text \<open>The difference of the sizes, as an \<^verbatim>\<open>int\<close>.\<close>

definition compare_hpi :: "hugepage_info \<Rightarrow> hugepage_info \<Rightarrow> int" where
  "compare_hpi a b = sint (ucast (hi_hugepage_sz b - hi_hugepage_sz a) :: u32)"

definition upd_hpi :: "nat \<Rightarrow> (hugepage_info \<Rightarrow> hugepage_info) \<Rightarrow> 'os hst \<Rightarrow> 'os hst" where
  "upd_hpi i f s = s\<lparr>h_ic := (h_ic s)\<lparr>ic_hugepage_info := (ic_hugepage_info (h_ic s))[i := f (ic_hugepage_info (h_ic s) ! i)]\<rparr>\<rparr>"

text \<open>
  A size with a mount point: its directory is locked and cleared and its free pages are counted. The result is
  the new number of sizes, or no number when the loop is left.
\<close>

definition info_mounted :: "'os sys \<Rightarrow> string \<Rightarrow> string \<Rightarrow> nat \<Rightarrow> 'os hst \<Rightarrow> nat option \<times> 'os hst" where
  "info_mounted sys d_name dir num_sizes s =
     (let (fd, s) = os_call (sys_open sys dir O_RDONLY) s;
          s = upd_hpi num_sizes (hi_lock_descriptor_update (\<lambda>_. fd)) s;
          (lck, s) = os_call (sys_flock sys fd LOCK_EX) s
      in if lck = -1 then (None, s)
         else let (r, s) = clear_hugedir sys dir s
              in if r = -1 then (None, s)
                 else let s = upd_hpi num_sizes (hi_num_pages_update (\<lambda>ns. ns[0 := get_num_hugepages sys d_name (h_os s)])) s
                      in (Some (num_sizes + 1), s))"

text \<open>The body of the loop for a directory of a huge page size whose entry is \<open>num_sizes\<close>.\<close>

definition info_step :: "'os sys \<Rightarrow> string \<Rightarrow> nat \<Rightarrow> u64 \<Rightarrow> 'os hst \<Rightarrow> (nat option \<times> u64 \<times> 'os hst) res" where
  "info_step sys d_name num_sizes default_size s =
     (let sz = rte_str_to_size (drop 10 d_name); s = upd_hpi num_sizes (hi_hugepage_sz_update (\<lambda>_. sz)) s
      in res_bind (get_hugepage_dir sys sz default_size s) (\<lambda>(default_size, hugedir).
           let s = upd_hpi num_sizes (hi_hugedir_update (\<lambda>_. hugedir)) s;
               (n, s) = (case hugedir of None \<Rightarrow> (Some num_sizes, s) | Some dir \<Rightarrow> info_mounted sys d_name dir num_sizes s)
           in ret (n, default_size, s)))"

text \<open>The loop; the first result tells whether it ran to the end of the directory.\<close>

fun info_loop :: "'os sys \<Rightarrow> string list \<Rightarrow> nat \<Rightarrow> u64 \<Rightarrow> 'os hst \<Rightarrow> (bool \<times> nat \<times> u64 \<times> 'os hst) res" where
  "info_loop sys [] num_sizes default_size s = ret (True, num_sizes, default_size, s)"
| "info_loop sys (d_name # names) num_sizes default_size s =
     (if \<not> strneq 10 d_name ''hugepages-'' then info_loop sys names num_sizes default_size s
      else if num_sizes \<ge> MAX_HUGEPAGE_SIZES then ret (False, num_sizes, default_size, s)
      else res_bind (info_step sys d_name num_sizes default_size s) (\<lambda>(n, default_size, s).
             case n of None \<Rightarrow> ret (False, num_sizes, default_size, s)
             | Some n \<Rightarrow> info_loop sys names n default_size s))"

definition eal_hugepage_info_init :: "'os sys \<Rightarrow> u64 \<Rightarrow> 'os hst \<Rightarrow> ('os hst \<times> u64 \<times> int) res" where
  "eal_hugepage_info_init sys default_size s =
     (case sys_dir sys (h_os s) sys_dir_path of
        None \<Rightarrow> ret (s, default_size, -1)
      | Some names \<Rightarrow>
          res_bind (info_loop sys names 0 default_size s) (\<lambda>(finished, num_sizes, default_size, s).
            if \<not> finished then ret (s, default_size, -1)
            else let info = ic_hugepage_info (h_ic s);
                     info = qsort compare_hpi (take num_sizes info) @ drop num_sizes info;
                     s = s\<lparr>h_ic := (h_ic s)\<lparr>ic_num_hugepage_sizes := num_sizes, ic_hugepage_info := info\<rparr>\<rparr>
                 in ret (s, default_size,
                      if \<exists>h \<in> set (take num_sizes info). hi_hugedir h \<noteq> None \<and> hi_num_pages h ! 0 > 0 then 0 else -1)))"

end
