(* ===== verification/Demo_System.thy ===== *)
theory Demo_System
  imports Hugepage_Info Hugepage_Correct
begin

text \<open>
  The system on which the witnesses run: one huge page of 2 MB is free, its file system is mounted, and a file of
  an earlier process is left there. Addresses are handed out one slot of 2 MB after the other and never
  used again; the state is the number of slots handed out.
\<close>

definition slot_mmap :: "u64 \<Rightarrow> mmap_flags \<Rightarrow> nat \<Rightarrow> u64 option \<times> nat" where
  "slot_mmap len fl k =
     (if (fl = MAP_SHARED_POPULATE \<longrightarrow> len = 0x200000) \<and> len \<le> 0x200000 \<and> k < 1000
      then (Some (of_nat (Suc k * 0x200000)), Suc k) else (None, k))"

definition nl :: "string \<Rightarrow> string" where "nl str = str @ [CHR 0x0A]"

definition slot_lines :: "string \<Rightarrow> string list option" where
  "slot_lines path =
     (if path = ''/proc/mounts'' then Some [''none /mnt/huge hugetlbfs pagesize=2M'']
      else if path = ''/proc/meminfo'' then Some [''Hugepagesize:2048 kB'']
      else if path = ''/sys/kernel/mm/hugepages/hugepages-2048kB/resv_hugepages'' then Some [nl ''1'']
      else if path = ''/sys/kernel/mm/hugepages/hugepages-2048kB/free_hugepages'' then Some [nl ''2'']
      else None)"

definition slot_dir :: "string \<Rightarrow> string list option" where
  "slot_dir path =
     (if path = sys_dir_path then Some [''.'', ''hugepages-2048kB'']
      else if path = ''/mnt/huge'' then Some [''.'', ''rtemap_0''] else None)"

definition slot_sys :: "nat sys" where
  "slot_sys = failing_sys\<lparr>sys_malloc := (\<lambda>_ _. True), sys_lines := (\<lambda>_. slot_lines), sys_dir := (\<lambda>_. slot_dir),
     sys_open := (\<lambda>p fl k. (if fl = O_RDONLY \<and> (p = ''/proc/self/pagemap'' \<or> p = ''/dev/zero'') then -1 else 3, k)),
     sys_ftruncate := (\<lambda>_ _ k. (0, k)), sys_flock := (\<lambda>_ _ k. (0, k)), sys_setlk := (\<lambda>_ k. (0, k)), sys_unlink := (\<lambda>_ k. (0, k)),
     sys_mmap := (\<lambda>_ len _ fl _ k. slot_mmap len fl k), sys_sigaction := (\<lambda>k. (0, k))\<rparr>"

text \<open>The entry of a size that is not there, and of the one that is, before and after its directory is unlocked.\<close>

definition no_size :: hugepage_info where
  "no_size = \<lparr>hi_hugepage_sz = 0, hi_hugedir = None, hi_num_pages = [0, 0, 0, 0, 0, 0, 0, 0], hi_lock_descriptor = 0\<rparr>"

definition one_size :: hugepage_info where
  "one_size = \<lparr>hi_hugepage_sz = 0x200000, hi_hugedir = Some ''/mnt/huge'', hi_num_pages = [1, 0, 0, 0, 0, 0, 0, 0], hi_lock_descriptor = 3\<rparr>"

lemma one_size_fields [simp]:
  "hi_hugepage_sz one_size = 0x200000" "hi_hugedir one_size = Some ''/mnt/huge''" "hi_num_pages one_size = [1, 0, 0, 0, 0, 0, 0, 0]"
  "hi_lock_descriptor one_size = 3"
  by (simp_all add: one_size_def)

definition one_page_ic :: internal_config where
  "one_page_ic = demo_ic\<lparr>ic_memory := 0x200000, ic_socket_mem := [0x200000, 0, 0, 0, 0, 0, 0, 0],
     ic_hugepage_info := [one_size, no_size, no_size]\<rparr>"

definition one_page_start :: "nat hst" where
  "one_page_start = \<lparr>h_os = 0, h_ic = one_page_ic, h_baseaddr_offset = 0, h_phys_addrs_available = True,
     h_huge_need_recover = False, h_set_addr = 0, h_memseg = no_segs\<rparr>"

lemmas slot_fields = slot_sys_def failing_sys_def slot_mmap_def

lemma slot_calls:
  "os_call (sys_open slot_sys p fl) s = (if fl = O_RDONLY \<and> (p = ''/proc/self/pagemap'' \<or> p = ''/dev/zero'') then -1 else 3, s)"
  "os_do (sys_close slot_sys fd) s = s"
  "os_call (sys_ftruncate slot_sys fd n) s = (0, s)"
  "os_call (sys_flock slot_sys fd lk) s = (0, s)"
  "os_call (sys_unlink slot_sys p) s = (0, s)"
  "os_call (sys_touch slot_sys va) s = (False, s)"
  "os_call (sys_sigaction slot_sys) s = (0, s)"
  "os_do (sys_munmap slot_sys va len) s = s"
  "os_call (sys_mmap slot_sys hint len prot mfl fd) s = (let (r, k) = slot_mmap len mfl (h_os s) in (r, s\<lparr>h_os := k\<rparr>))"
  "sys_numa_available slot_sys os = False" "sys_get_mempolicy slot_sys os = None"
  "sys_lines slot_sys os = slot_lines" "sys_dir slot_sys os = slot_dir" "sys_malloc slot_sys n os"
  by (simp_all add: slot_fields os_call_def os_do_def split: prod.splits)

end
