(* ===== verification/Hugepage_Boot.thy ===== *)
theory Hugepage_Boot
  imports Hugepage_Props Malloc_Props Demo_System
begin

text \<open>
  From the huge pages to the heap: what \<^verbatim>\<open>rte_eal_hugepage_init\<close> leaves in the memory segments is what
  \<^verbatim>\<open>rte_eal_malloc_heap_init\<close> needs; and a system on which both succeed.
\<close>

section \<open>The system of the witnesses\<close>

definition slot_regs :: "nat \<Rightarrow> region set" where
  "slot_regs k = {(Suc i * 0x200000, n) | i n. i < k \<and> n \<le> 0x200000}"

lemma slot_laws: "kernel_laws slot_sys slot_regs"
proof -
  have fields: "sys_open slot_sys = (\<lambda>p fl k. (if fl = O_RDONLY \<and> (p = ''/proc/self/pagemap'' \<or> p = ''/dev/zero'') then -1 else 3, k))" "sys_close slot_sys = (\<lambda>_ k. k)"
    "sys_lseek slot_sys = (\<lambda>_ _ k. (-1, k))" "sys_read slot_sys = (\<lambda>_ _ k. ((-1, []), k))" "sys_ftruncate slot_sys = (\<lambda>_ _ k. (0, k))"
    "sys_flock slot_sys = (\<lambda>_ _ k. (0, k))" "sys_unlink slot_sys = (\<lambda>_ k. (0, k))" "sys_touch slot_sys = (\<lambda>_ k. (False, k))"
    "sys_sigaction slot_sys = (\<lambda>k. (0, k))" "sys_numa_set_preferred slot_sys = (\<lambda>_ k. k)" "sys_set_mempolicy slot_sys = (\<lambda>_ k. (-1, k))"
    "sys_numa_set_localalloc slot_sys = (\<lambda>k. k)" "sys_mmap slot_sys = (\<lambda>_ len _ fl _ k. slot_mmap len fl k)"
    "sys_munmap slot_sys = (\<lambda>_ _ k. k)"
    by (simp_all add: slot_sys_def failing_sys_def)
  have "mmap_law slot_sys slot_regs"
    unfolding mmap_law_def fields
  proof (intro allI)
    fix hint len :: u64 and prot fl fd k
    show "case slot_mmap len fl k of (None, k') \<Rightarrow> slot_regs k \<subseteq> slot_regs k'
      | (Some a, k') \<Rightarrow> a \<noteq> 0 \<and> unat a + unat len < 2 ^ 64 \<and> (fl = MAP_SHARED_POPULATE \<longrightarrow> unat len dvd unat a) \<and>
          (\<forall>r \<in> slot_regs k. apart (unat a, unat len) r) \<and> insert (unat a, unat len) (slot_regs k) \<subseteq> slot_regs k'"
    proof (cases "(fl = MAP_SHARED_POPULATE \<longrightarrow> len = 0x200000) \<and> len \<le> 0x200000 \<and> k < 1000")
      case True
      define a where "a = (of_nat (Suc k * 0x200000) :: u64)"
      have a: "unat a = Suc k * 0x200000" unfolding a_def using True by (intro unat_of_nat_small) simp
      have n: "unat len \<le> 0x200000" using True by (simp add: word_le_nat_alt)
      have m: "slot_mmap len fl k = (Some a, Suc k)" unfolding slot_mmap_def a_def using True by (rule if_P)
      have "a \<noteq> 0" using a by (metis mult_is_0 nat.distinct(1) unat_0 zero_neq_numeral)
      moreover have "unat len dvd Suc k * 0x200000" if "fl = MAP_SHARED_POPULATE" using True that by simp
      moreover have "Suc k * 0x200000 + unat len < 2 ^ 64" using True n by simp
      moreover have "\<forall>r \<in> slot_regs k. apart (Suc k * 0x200000, unat len) r"
        by (auto simp: slot_regs_def apart_def)
      moreover have "(Suc k * 0x200000, unat len) \<in> slot_regs (Suc k)" "slot_regs k \<subseteq> slot_regs (Suc k)"
        using n by (auto simp: slot_regs_def)
      ultimately show ?thesis unfolding m by (simp add: a)
    next
      case False
      then have "slot_mmap len fl k = (None, k)" unfolding slot_mmap_def by (rule if_not_P)
      then show ?thesis by simp
    qed
  qed
  moreover have "munmap_law slot_sys slot_regs" "quiet_calls slot_sys slot_regs"
    by (simp_all add: munmap_law_def quiet_calls_def quiet_def fields comp_def)
  ultimately show ?thesis by (simp add: kernel_laws_def)
qed

lemma slot_virtual: "get_virtual_area slot_sys n sz s = Some (0, n, s)"
  by (simp add: get_virtual_area_def slot_calls)

lemma slot_page:
  assumes "ma_tbl v = [p]" "h_os s < 1000" "ma_vma_len v = 0" "hi_hugepage_sz hpi = 0x200000"
  shows "\<exists>v'. map_loop slot_sys orig hpi 0 1 0 v s = Some (1, v', s\<lparr>h_os := Suc (h_os s)\<rparr>) \<and> ma_essential v' = ma_essential v \<and>
    (let a = of_nat (Suc (h_os s) * 0x200000) in
     ma_tbl v' = [if orig then p\<lparr>hf_file_id := 0, hf_size := 0x200000, hf_filepath := eal_get_hugefile_path (h_ic s) PATH_MAX (hi_hugedir hpi) 0, hf_orig_va := a\<rparr>
       else p\<lparr>hf_final_va := a\<rparr>])"
  using assms
  by (cases orig; simp add: map_page_def slot_virtual map_file_def slot_calls slot_mmap_def upd_page_def Let_def)

lemma slot_map_all:
  assumes "h_os s < 1000" "hi_hugepage_sz hpi = 0x200000"
  shows "map_all_hugepages slot_sys [p] hpi mem orig s =
    Some (1, let a = of_nat (Suc (h_os s) * 0x200000) in
       [if orig then p\<lparr>hf_file_id := 0, hf_size := 0x200000, hf_filepath := eal_get_hugefile_path (h_ic s) PATH_MAX (hi_hugedir hpi) 0, hf_orig_va := a\<rparr>
        else p\<lparr>hf_final_va := a\<rparr>], mem, s\<lparr>h_os := Suc (h_os s)\<rparr>)"
proof -
  let ?v = "\<lparr>ma_tbl = [p], ma_essential = mem, ma_node_id = -1, ma_essential_prev = 0, ma_vma_addr = 0, ma_vma_len = 0\<rparr>"
  have p: "ma_tbl ?v = [p]" "ma_vma_len ?v = 0" by simp_all
  from slot_page [OF p(1) assms(1) p(2) assms(2), of orig] obtain v'
    where e: "map_loop slot_sys orig hpi 0 (Suc 0) 0 ?v s = Some (1, v', s\<lparr>h_os := Suc (h_os s)\<rparr>)" "ma_essential v' = mem"
      "ma_tbl v' = (let a = of_nat (Suc (h_os s) * 0x200000) in
       [if orig then p\<lparr>hf_file_id := 0, hf_size := 0x200000, hf_filepath := eal_get_hugefile_path (h_ic s) PATH_MAX (hi_hugedir hpi) 0, hf_orig_va := a\<rparr>
        else p\<lparr>hf_final_va := a\<rparr>])"
    unfolding One_nat_def Let_def by auto
  then show ?thesis by (simp add: map_all_hugepages_def slot_calls del: map_loop.simps)
qed

lemma one_page_init:
  fixes s :: "nat hst"
  defines "f \<equiv> eal_get_hugefile_path one_page_ic PATH_MAX (Some ''/mnt/huge'') 0"
  assumes "h_ic s = one_page_ic" "h_os s = 0" "\<not> h_phys_addrs_available s"
  shows "init_sizes slot_sys [0] [] mem s =
    Some (Inr [zero_hf\<lparr>hf_final_va := 0x400000, hf_physaddr := h_set_addr s, hf_size := 0x200000, hf_filepath := f\<rparr>],
      s\<lparr>h_os := 2, h_set_addr := h_set_addr s + 0x200000\<rparr>)"
proof -
  let ?hpi = "one_size"
  have ic: "ic_hugepage_info one_page_ic ! 0 = ?hpi" by (simp add: one_page_ic_def)
  have m1: "map_all_hugepages slot_sys [zero_hf] ?hpi mem True s = Some (1, [zero_hf\<lparr>hf_file_id := 0, hf_size := 0x200000,
     hf_filepath := f, hf_orig_va := 0x200000\<rparr>], mem, s\<lparr>h_os := 1\<rparr>)"
    using slot_map_all [of s ?hpi zero_hf mem True] assms by simp
  let ?p = "zero_hf\<lparr>hf_file_id := 0, hf_size := 0x200000, hf_filepath := f, hf_orig_va := 0x200000, hf_physaddr := h_set_addr s\<rparr>"
  let ?s = "s\<lparr>h_os := 1, h_set_addr := h_set_addr s + 0x200000\<rparr>"
  have m2: "map_all_hugepages slot_sys [?p] ?hpi [] False ?s = Some (1, [?p\<lparr>hf_final_va := 0x400000\<rparr>], [], ?s\<lparr>h_os := 2\<rparr>)"
    using slot_map_all [of ?s ?hpi ?p "[]" False] by simp
  have o: "order_pages slot_sys ?hpi [zero_hf\<lparr>hf_file_id := 0, hf_size := 0x200000, hf_filepath := f, hf_orig_va := 0x200000\<rparr>] (s\<lparr>h_os := 1\<rparr>)
    = Some (Inr [?p\<lparr>hf_orig_va := 0, hf_final_va := 0x400000\<rparr>], ?s\<lparr>h_os := 2\<rparr>)"
    using assms m2 by (simp add: order_pages_def find_numasocket_def slot_calls slot_lines_def qsort_def)
  have "init_size slot_sys 0 mem s = Some (Inr ([?p\<lparr>hf_orig_va := 0, hf_final_va := 0x400000\<rparr>], mem), ?s\<lparr>h_os := 2\<rparr>)"
    using assms m1 o by (simp add: init_size_def ic)
  then show ?thesis by (simp add: zero_hf_def)
qed

lemma one_page_select:
  fixes s :: "nat hst"
  assumes "h_ic s = one_page_ic" "hf_size p = 0x200000" "hf_socket_id p = 0"
  defines "h \<equiv> one_size"
  shows "select_pages slot_sys ls [\<lparr>hi_hugepage_sz = 0x200000, hi_hugedir = None, hi_num_pages = replicate RTE_MAX_NUMA_NODES 0, hi_lock_descriptor = 0\<rparr>] [p] s =
    Some (Inr [h\<lparr>hi_lock_descriptor := 0\<rparr>], s)"
proof -
  have r: "replicate RTE_MAX_NUMA_NODES 0 = [0, 0, 0, 0, 0, 0, 0, 0 :: u32]" by (simp add: RTE_MAX_NUMA_NODES_def numeral_eq_Suc)
  have ic: "ic_num_hugepage_sizes one_page_ic = 1" "ic_memory one_page_ic = 0x200000" "ic_force_sockets one_page_ic"
    "ic_socket_mem one_page_ic = [0x200000, 0, 0, 0, 0, 0, 0, 0]" "ic_hugepage_info one_page_ic = [h, no_size, no_size]"
    by (simp_all add: one_page_ic_def demo_ic_def h_def one_size_def)
  have same: "one_page_ic\<lparr>ic_hugepage_info := [h, no_size, no_size]\<rparr> = one_page_ic" by (simp add: one_page_ic_def h_def)
  have c: "clear_num_pages one_page_ic = one_page_ic\<lparr>ic_hugepage_info := [h\<lparr>hi_num_pages := [0, 0, 0, 0, 0, 0, 0, 0]\<rparr>, no_size, no_size]\<rparr>"
    by (simp add: clear_num_pages_def ic r)
  have n: "count_pages [0] [p] [h\<lparr>hi_num_pages := [0, 0, 0, 0, 0, 0, 0, 0]\<rparr>, no_size, no_size] = Some [h, no_size, no_size]"
    using assms by (simp add: set_pages_def one_size_def)
  have sp: "socket_pages [h, no_size, no_size] 1 0 [0..<1] ([\<lparr>hi_hugepage_sz = 0x200000, hi_hugedir = None, hi_num_pages = [0, 0, 0, 0, 0, 0, 0, 0], hi_lock_descriptor = 0\<rparr>], 0x200000, 0x200000, 0) =
    Some ([h\<lparr>hi_lock_descriptor := 0\<rparr>], 0, 0, 1)"
    by (simp add: size_pages_def h_def one_size_def set_pages_def RTE_MIN_def)
  have "sockets_pages [h, no_size, no_size] 1 [0x200000, 0, 0, 0, 0, 0, 0, 0] [0..<RTE_MAX_NUMA_NODES]
    ([\<lparr>hi_hugepage_sz = 0x200000, hi_hugedir = None, hi_num_pages = [0, 0, 0, 0, 0, 0, 0, 0], hi_lock_descriptor = 0\<rparr>], 0x200000, 0)
    = Some ([h\<lparr>hi_lock_descriptor := 0\<rparr>], 0, 1, True)"
    unfolding upto_sockets by (subst sockets_pages.simps) (simp add: sp [simplified])
  then have "calc_num_pages_per_socket one_page_ic ls [0x200000, 0, 0, 0, 0, 0, 0, 0] [h, no_size, no_size]
      [\<lparr>hi_hugepage_sz = 0x200000, hi_hugedir = None, hi_num_pages = [0, 0, 0, 0, 0, 0, 0, 0], hi_lock_descriptor = 0\<rparr>] 1
    = Some ([h\<lparr>hi_lock_descriptor := 0\<rparr>], 1)"
    by (simp add: calc_num_pages_per_socket_def ic)
  moreover have "s\<lparr>h_ic := one_page_ic\<rparr> = s" by (simp flip: assms(1))
  ultimately show ?thesis using n
    by (simp add: select_pages_def assms(1) ic c same r MAX_HUGEPAGE_SIZES_def Let_def del: count_pages.simps)
qed

lemma one_page_publish:
  fixes s :: "nat hst"
  assumes "h_ic s = one_page_ic" "h_os s = 2" "h_memseg s = no_segs" "hf_size p = 0x200000" "hf_socket_id p = 0" "hf_final_va p = 0x400000"
  shows "\<exists>s' table. publish_pages slot_sys [(one_size\<lparr>hi_lock_descriptor := 0\<rparr>)] [p] s =
    Some (s', table, 0) \<and> ms_addr (h_memseg s' 0) = 0x400000 \<and> ms_len (h_memseg s' 0) = 0x200000"
proof -
  let ?u = "[(one_size\<lparr>hi_lock_descriptor := 0\<rparr>)]"
  have c: "create_shared_memory slot_sys f 0x1028 s = (0x600000, s\<lparr>h_os := 3\<rparr>)" for f
    using assms by (simp add: create_shared_memory_def slot_calls slot_mmap_def)
  have ic: "ic_num_hugepage_sizes one_page_ic = 1" "\<not> ic_hugepage_unlink one_page_ic" by (simp_all add: one_page_ic_def demo_ic_def)
  have t: "total_pages 1 (ic_hugepage_info one_page_ic) = 1"
    by (simp add: total_pages_def one_page_ic_def demo_ic_def RTE_MAX_NUMA_NODES_def)
  have u: "unmap_sizes slot_sys ?u (List.product [0..<1] [0..<RTE_MAX_NUMA_NODES]) [p] s1 = ([p], True, s1)" for s1
    unfolding upto_sockets using assms by simp
  have un: "unmap_unneeded_hugepages slot_sys [p] ?u 1 s1 = Some ([p], 0, s1)" if "h_ic s1 = one_page_ic" for s1
    unfolding unmap_unneeded_hugepages_def that t Let_def using u [of s1] by simp
  have "in_use [p] = [p]" using assms by (simp add: in_use_def)
  then have cp: "copy_hugepages_to_shared_mem [zero_hf] 1 [p] 1 = ([p], 0)" using copy_table [of "[p]"] by simp
  show ?thesis using assms ic un [of "s\<lparr>h_os := 3\<rparr>"] cp
    by (simp add: publish_pages_def c SIZEOF_HUGEPAGE_FILE_def slot_calls new_memseg_def RTE_MAX_MEMSEG_def)
qed

lemma one_page_boots:
  "\<exists>s' table. rte_eal_hugepage_init slot_sys 0 demo_lcores one_page_start = Some (s', table, 0) \<and>
     ms_addr (h_memseg s' 0) = 0x400000 \<and> ms_len (h_memseg s' 0) = 0x200000"
proof -
  let ?s1 = "one_page_start\<lparr>h_phys_addrs_available := False\<rparr>" and ?s2 = "one_page_start\<lparr>h_phys_addrs_available := False, h_huge_need_recover := True\<rparr>"
  let ?p = "zero_hf\<lparr>hf_final_va := 0x400000, hf_physaddr := h_set_addr ?s2, hf_size := 0x200000, hf_filepath := eal_get_hugefile_path one_page_ic PATH_MAX (Some ''/mnt/huge'') 0\<rparr>"
  have st: "h_ic one_page_start = one_page_ic" "h_os one_page_start = 0" "h_memseg one_page_start = no_segs" "h_phys_addrs_available one_page_start"
    by (simp_all add: one_page_start_def)
  have t: "test_phys_addrs_available slot_sys 0 one_page_start = ?s1"
    by (simp add: test_phys_addrs_available_def rte_mem_virt2phy_def slot_calls rte_eal_has_hugepages_def st)
  have ic: "\<not> ic_no_hugetlbfs one_page_ic" "ic_num_hugepage_sizes one_page_ic = 1"
    by (simp_all add: one_page_ic_def demo_ic_def)
  have used: "take 1 (ic_hugepage_info one_page_ic) = [one_size]"
    by (simp add: one_page_ic_def)
  let ?s3 = "?s2\<lparr>h_os := 2, h_set_addr := h_set_addr ?s2 + 0x200000\<rparr>"
  have i: "init_sizes slot_sys [0] [] (ic_socket_mem one_page_ic) ?s2 = Some (Inr [?p], ?s3)"
    using one_page_init [of ?s2] st by simp
  let ?s4 = "?s3\<lparr>h_huge_need_recover := False\<rparr>"
  have sel: "select_pages slot_sys demo_lcores [\<lparr>hi_hugepage_sz = 0x200000, hi_hugedir = None, hi_num_pages = replicate RTE_MAX_NUMA_NODES 0, hi_lock_descriptor = 0\<rparr>] [?p] ?s4 =
    Some (Inr [(one_size\<lparr>hi_lock_descriptor := 0\<rparr>)], ?s4)"
    using one_page_select [of ?s4 ?p] st by (simp add: zero_hf_def)
  from one_page_publish [of ?s4 ?p] st obtain s' table where p: "publish_pages slot_sys [(one_size\<lparr>hi_lock_descriptor := 0\<rparr>)] [?p] ?s4 =
    Some (s', table, 0)" "ms_addr (h_memseg s' 0) = 0x400000" "ms_len (h_memseg s' 0) = 0x200000" by (auto simp: zero_hf_def)
  have "rte_eal_hugepage_init slot_sys 0 demo_lcores one_page_start = Some (s', table, 0)"
    using i sel p(1) ic used
    by (simp add: rte_eal_hugepage_init_def one_size_def t [unfolded one_page_start_def, simplified] one_page_start_def slot_calls huge_register_sigbus_def
        huge_recover_sigbus_def del: init_sizes.simps)
  then show ?thesis using p by blast
qed
section \<open>The heap on the segments\<close>

text \<open>The memory at that moment: the pages are zeroed and nothing has been allocated.\<close>

definition fresh_mem :: "(nat \<Rightarrow> rte_memseg) \<Rightarrow> nat \<Rightarrow> mem \<Rightarrow> bool" where
  "fresh_mem segs N m \<longleftrightarrow> m_seg m = segs \<and>
     (\<forall>g < N. \<forall>y. unat (ms_addr (segs g)) \<le> y \<and> y < unat (ms_addr (segs g)) + unat (ms_len (segs g)) \<longrightarrow>
        m_byte m (of_nat y) = Some 0) \<and>
     (\<forall>h. mh_free_head (m_heap m h) = (\<lambda>_. []) \<and> mh_alloc_count (m_heap m h) = 0 \<and> mh_total_size (m_heap m h) = 0 \<and>
        sl_locked (mh_lock (m_heap m h)) = 0)"

lemma fresh_boot: "segs_ok segs N \<Longrightarrow> fresh_mem segs N m \<Longrightarrow> boot_ok 0 m N"
  by (simp add: boot_ok_def segs_ok_def fresh_mem_def apart_def)

text \<open>
  When \<^verbatim>\<open>rte_eal_hugepage_init\<close> succeeds in a primary process with huge pages, the memory segments are
  aligned, apart from each other and mapped to their last byte, an empty segment ends them, and the heap can be
  initialised on them.
\<close>

theorem hugepage_init_boots:
  assumes "kernel_laws sys regs" "\<not> ic_no_hugetlbfs (h_ic s)" "sizes_ok (h_ic s)" "\<forall>g. ms_len (h_memseg s g) = 0"
    "rte_eal_hugepage_init sys tmp ls s = Some (s', table, 0)"
  shows "\<exists>N. segs_ok (h_memseg s') N \<and> segs_mapped (regs (h_os s')) (h_memseg s') N \<and>
    (\<forall>m. fresh_mem (h_memseg s') N m \<longrightarrow> (\<exists>m'. rte_eal_malloc_heap_init m = (m', 0) \<and> malloc_rel 0 m' {}))"
proof -
  from init_segments [OF assms] obtain N where N: "segs_ok (h_memseg s') N" "segs_mapped (regs (h_os s')) (h_memseg s') N" by blast
  moreover have "\<exists>m'. rte_eal_malloc_heap_init m = (m', 0) \<and> malloc_rel 0 m' {}" if "fresh_mem (h_memseg s') N m" for m
    using heap_init_rel [OF fresh_boot [OF N(1) that]] by (metis prod.collapse)
  ultimately show ?thesis by blast
qed

theorem hugepage_init_boots_witness:
  "\<exists>s' table N. rte_eal_hugepage_init slot_sys 0 demo_lcores one_page_start = Some (s', table, 0) \<and> 0 < N \<and>
     segs_ok (h_memseg s') N \<and> segs_mapped (slot_regs (h_os s')) (h_memseg s') N"
proof -
  obtain s' table where r: "rte_eal_hugepage_init slot_sys 0 demo_lcores one_page_start = Some (s', table, 0)"
    and seg: "ms_len (h_memseg s' 0) = 0x200000" using one_page_boots by blast
  have ic: "\<not> ic_no_hugetlbfs (h_ic one_page_start)" "sizes_ok (h_ic one_page_start)" "\<forall>g. ms_len (h_memseg one_page_start g) = 0"
    by (simp_all add: one_page_start_def one_page_ic_def one_size_def demo_ic_def sizes_ok_def hp_sizes_def no_segs_def)
  obtain N where N: "segs_ok (h_memseg s') N" "segs_mapped (slot_regs (h_os s')) (h_memseg s') N"
    using hugepage_init_boots [OF slot_laws ic r] by blast
  have "N \<noteq> 0"
  proof
    assume "N = 0"
    then show False using N(1) seg by (simp add: segs_ok_def RTE_MAX_MEMSEG_def)
  qed
  then show ?thesis using r N by (intro exI [of _ s'] exI [of _ table] exI [of _ N]) simp
qed

end
