(* ===== verification/Launch.thy ===== *)
theory Launch
  imports Lcore Lock
begin

text \<open>
  Launching functions on other cores (\<^verbatim>\<open>linuxapp/eal/eal_thread.c\<close>): the master sends a byte through one pipe,
  the thread of the core answers through another and calls the function. One core is followed; its thread and
  the master take turns in any order, one access to shared memory or one system call at a time.
\<close>

section \<open>Data\<close>

datatype rte_lcore_state_t = WAIT | RUNNING | FINISHED

text \<open>The outcome of a \<^verbatim>\<open>read\<close> or \<^verbatim>\<open>write\<close>: one byte, interrupted, or failed. A read from an empty pipe blocks.\<close>

datatype io = IO_Done | IO_Again | IO_Failed

text \<open>
  Program counters: the line to be executed next. \<open>M_Ready\<close> is outside \<^verbatim>\<open>rte_eal_remote_launch\<close>, \<open>S_Body\<close> inside the
  launched function.
\<close>

datatype master_pc = M_Ready | M_SetF nat nat | M_SetArg nat nat | M_Write nat nat | M_Ack | M_Panic

datatype slave_pc = S_Read | S_Running | S_Ack | S_Check | S_Arg | S_Call nat | S_Body | S_Ret int | S_Finish | S_Panic

text \<open>
  The fields of \<^verbatim>\<open>lcore_config\<close>, the bytes in the two pipes, the two program counters and the last result of
  \<^verbatim>\<open>rte_eal_remote_launch\<close>; the history holds the functions and arguments sent and those called.
  Functions are addresses.
\<close>

record launch =
  la_state :: rte_lcore_state_t
  la_role :: rte_lcore_role_t
  la_f :: nat
  la_arg :: nat
  la_ret :: int
  la_m2s :: nat
  la_s2m :: nat
  la_master :: master_pc
  la_slave :: slave_pc
  la_result :: int
  la_sent :: "(nat \<times> nat) list"
  la_called :: "(nat \<times> nat) list"

definition EBUSY :: int where "EBUSY = 16"

definition panicked :: "launch \<Rightarrow> bool" where
  "panicked s \<longleftrightarrow> la_master s = M_Panic \<or> la_slave s = S_Panic"

section \<open>The master\<close>

text \<open>The call with its first test.\<close>

definition rte_eal_remote_launch :: "nat \<Rightarrow> nat \<Rightarrow> launch \<Rightarrow> launch" where
  "rte_eal_remote_launch f arg s =
     (if la_state s \<noteq> WAIT then s\<lparr>la_result := - EBUSY\<rparr> else s\<lparr>la_master := M_SetF f arg\<rparr>)"

text \<open>The steps after that; \<open>None\<close> when the step is not possible.\<close>

definition master_step :: "io \<Rightarrow> launch \<Rightarrow> launch option" where
  "master_step r s =
     (case la_master s of
        M_SetF f arg \<Rightarrow> Some (s\<lparr>la_f := f, la_master := M_SetArg f arg\<rparr>)
      | M_SetArg f arg \<Rightarrow> Some (s\<lparr>la_arg := arg, la_master := M_Write f arg\<rparr>)
      | M_Write f arg \<Rightarrow>
          (case r of
             IO_Done \<Rightarrow> Some (s\<lparr>la_m2s := la_m2s s + 1, la_sent := la_sent s @ [(f, arg)], la_master := M_Ack\<rparr>)
           | IO_Again \<Rightarrow> Some s
           | IO_Failed \<Rightarrow> Some (s\<lparr>la_master := M_Panic\<rparr>))
      | M_Ack \<Rightarrow>
          (case r of
             IO_Done \<Rightarrow> if la_s2m s = 0 then None
               else Some (s\<lparr>la_s2m := la_s2m s - 1, la_result := 0, la_master := M_Ready\<rparr>)
           | IO_Again \<Rightarrow> Some s
           | IO_Failed \<Rightarrow> Some (s\<lparr>la_master := M_Panic\<rparr>))
      | _ \<Rightarrow> None)"

section \<open>The thread of the core\<close>

text \<open>One step of the endless loop of \<^verbatim>\<open>eal_thread_loop\<close>; \<open>v\<close> is what the launched function returns.\<close>

definition slave_step :: "io \<Rightarrow> int \<Rightarrow> launch \<Rightarrow> launch option" where
  "slave_step r v s =
     (case la_slave s of
        S_Read \<Rightarrow>
          (case r of
             IO_Done \<Rightarrow> if la_m2s s = 0 then None else Some (s\<lparr>la_m2s := la_m2s s - 1, la_slave := S_Running\<rparr>)
           | IO_Again \<Rightarrow> Some s
           | IO_Failed \<Rightarrow> Some (s\<lparr>la_slave := S_Panic\<rparr>))
      | S_Running \<Rightarrow> Some (s\<lparr>la_state := RUNNING, la_slave := S_Ack\<rparr>)
      | S_Ack \<Rightarrow>
          (case r of
             IO_Done \<Rightarrow> Some (s\<lparr>la_s2m := la_s2m s + 1, la_slave := S_Check\<rparr>)
           | IO_Again \<Rightarrow> Some s
           | IO_Failed \<Rightarrow> Some (s\<lparr>la_slave := S_Panic\<rparr>))
      | S_Check \<Rightarrow> Some (s\<lparr>la_slave := if la_f s = 0 then S_Panic else S_Arg\<rparr>)
      | S_Arg \<Rightarrow> Some (s\<lparr>la_slave := S_Call (la_arg s)\<rparr>)
      | S_Call fct_arg \<Rightarrow> Some (s\<lparr>la_called := la_called s @ [(la_f s, fct_arg)], la_slave := S_Body\<rparr>)
      | S_Body \<Rightarrow> Some (s\<lparr>la_slave := S_Ret v\<rparr>)
      | S_Ret val \<Rightarrow> Some (s\<lparr>la_ret := val, la_slave := S_Finish\<rparr>)
      | S_Finish \<Rightarrow> Some (s\<lparr>la_state := if la_role s = ROLE_SERVICE then WAIT else FINISHED, la_slave := S_Read\<rparr>)
      | S_Panic \<Rightarrow> None)"

section \<open>Both together\<close>

text \<open>
  \<open>app st st'\<close>: what the code outside of this file may do to the state of the core; \<^verbatim>\<open>rte_eal_wait_lcore\<close>, which is
  not part of the repository, is documented to put a finished core back to waiting. A panic ends the process.
\<close>

inductive launch_step :: "(rte_lcore_state_t \<Rightarrow> rte_lcore_state_t \<Rightarrow> bool) \<Rightarrow> nat \<Rightarrow> launch \<Rightarrow> launch \<Rightarrow> bool" for app where
  call: "\<lbrakk>\<not> panicked s; la_master s = M_Ready\<rbrakk> \<Longrightarrow> launch_step app 0 s (rte_eal_remote_launch f arg s)"
| master: "\<lbrakk>\<not> panicked s; master_step r s = Some s'\<rbrakk> \<Longrightarrow> launch_step app 0 s s'"
| slave: "\<lbrakk>\<not> panicked s; slave_step r v s = Some s'\<rbrakk> \<Longrightarrow> launch_step app 1 s s'"
| wait: "\<lbrakk>\<not> panicked s; app (la_state s) st\<rbrakk> \<Longrightarrow> launch_step app 2 s (s\<lparr>la_state := st\<rparr>)"

inductive_cases launch_stepE: "launch_step app t s s'"

definition launch_init :: "launch \<Rightarrow> bool" where
  "launch_init s \<longleftrightarrow> la_state s = WAIT \<and> la_m2s s = 0 \<and> la_s2m s = 0 \<and> la_master s = M_Ready \<and> la_slave s = S_Read \<and>
     la_sent s = [] \<and> la_called s = []"

section \<open>The start of the thread\<close>

text \<open>
  Before its loop the thread finds its core by its identifier, \<open>tid_of\<close> being the field \<^verbatim>\<open>thread_id\<close> of the
  cores. \<open>setaff\<close> is the result of \<^verbatim>\<open>pthread_setaffinity_np\<close>.
\<close>

definition eal_thread_start :: "'os sys \<Rightarrow> 'os \<Rightarrow> int \<Rightarrow> (u32 \<Rightarrow> nat) \<Rightarrow> nat \<Rightarrow> lcores \<Rightarrow> lcores res" where
  "eal_thread_start sys os setaff tid_of thread_id s =
     res_bind (lift_opt (RTE_LCORE_FOREACH_SLAVE s)) (\<lambda>cores.
       case find (\<lambda>i. tid_of i = thread_id) cores of
         None \<Rightarrow> abort ''cannot retrieve lcore id''
       | Some lcore_id \<Rightarrow>
           res_bind (lift_opt (eal_thread_set_affinity sys os setaff (s\<lparr>ls_lcore_id := lcore_id\<rparr>)))
             (\<lambda>(s, r). if r < 0 then abort ''cannot set affinity'' else ret s))"

end
