(* ===== verification/Launch_Correct.thy ===== *)
theory Launch_Correct
  imports Launch Lcore_Correct
begin

text \<open>
  The launch protocol: every function sent is called exactly once, with its own argument, in the order of
  the launches, and the two sides never wait for each other forever.
\<close>

section \<open>The invariant\<close>

text \<open>What the code outside may do to the state of a core.\<close>

definition waits_only :: "(rte_lcore_state_t \<Rightarrow> rte_lcore_state_t \<Rightarrow> bool) \<Rightarrow> bool" where
  "waits_only app \<longleftrightarrow> (\<forall>st st'. app st st' \<longrightarrow> st = FINISHED \<and> st' = WAIT)"

text \<open>The thread has taken the byte, and not yet answered; it has not yet called the function; it is at work.\<close>

definition taken :: "slave_pc \<Rightarrow> bool" where
  "taken pc \<longleftrightarrow> pc \<in> {S_Running, S_Ack}"

definition to_call :: "slave_pc \<Rightarrow> bool" where
  "to_call pc \<longleftrightarrow> (case pc of S_Running \<Rightarrow> True | S_Ack \<Rightarrow> True | S_Check \<Rightarrow> True | S_Arg \<Rightarrow> True | S_Call _ \<Rightarrow> True | _ \<Rightarrow> False)"

definition at_work :: "slave_pc \<Rightarrow> bool" where
  "at_work pc \<longleftrightarrow> (case pc of S_Read \<Rightarrow> False | S_Running \<Rightarrow> False | S_Panic \<Rightarrow> False | _ \<Rightarrow> True)"

text \<open>
  Outside of a launch the pipes are empty; while one is prepared the core is also waiting; until the answer comes,
  the byte is in the first pipe, in the hands of the thread, or in the second pipe.
\<close>

definition idle :: "launch \<Rightarrow> bool" where
  "idle s \<longleftrightarrow> la_m2s s = 0 \<and> la_s2m s = 0 \<and> la_slave s = S_Read \<and> la_state s = WAIT \<and> la_sent s = la_called s"

definition in_order :: "launch \<Rightarrow> bool" where
  "in_order s \<longleftrightarrow> la_sent s = la_called s @ (if to_call (la_slave s) then [(la_f s, la_arg s)] else [])"

definition in_flight :: "launch \<Rightarrow> bool" where
  "in_flight s \<longleftrightarrow>
     la_m2s s = 1 \<and> la_s2m s = 0 \<and> la_slave s = S_Read \<and> la_state s = WAIT \<and> la_sent s = la_called s @ [(la_f s, la_arg s)] \<or>
     la_m2s s = 0 \<and> la_s2m s = 0 \<and> taken (la_slave s) \<and> in_order s \<or>
     la_m2s s = 0 \<and> la_s2m s = 1 \<and> \<not> taken (la_slave s) \<and> in_order s"

definition launch_inv :: "launch \<Rightarrow> bool" where
  "launch_inv s \<longleftrightarrow>
     \<not> panicked s \<and> (la_state s = RUNNING \<longleftrightarrow> at_work (la_slave s)) \<and> (la_slave s = S_Running \<longrightarrow> la_state s = WAIT) \<and>
     (\<forall>a. la_slave s = S_Call a \<longrightarrow> a = la_arg s) \<and>
     (case la_master s of
        M_Ready \<Rightarrow> la_m2s s = 0 \<and> la_s2m s = 0 \<and> \<not> taken (la_slave s) \<and> in_order s
      | M_SetF _ _ \<Rightarrow> idle s
      | M_SetArg f _ \<Rightarrow> idle s \<and> la_f s = f
      | M_Write f a \<Rightarrow> idle s \<and> la_f s = f \<and> la_arg s = a
      | M_Ack \<Rightarrow> in_flight s
      | M_Panic \<Rightarrow> False)"

lemmas pc_defs = taken_def to_call_def at_work_def panicked_def

lemmas launch_defs = launch_inv_def idle_def in_order_def in_flight_def pc_defs

lemma launch_init_inv: "launch_init s \<Longrightarrow> launch_inv s"
  by (simp add: launch_init_def launch_defs)

lemma call_inv: "launch_inv s \<Longrightarrow> la_master s = M_Ready \<Longrightarrow> launch_inv (rte_eal_remote_launch f arg s)"
  by (cases "la_slave s") (auto simp: launch_defs rte_eal_remote_launch_def)

lemma reading [simp]: "\<not> taken S_Read" "\<not> to_call S_Read" "\<not> at_work S_Read"
  by (simp_all add: pc_defs)

lemma to_call_at_work: "to_call pc \<Longrightarrow> taken pc \<or> at_work pc"
  by (cases pc) (simp_all add: pc_defs)

lemma master_inv:
  assumes "launch_inv s" "master_step r s = Some s'" "\<not> panicked s'"
  shows "launch_inv s'"
  using assms
  by (cases "la_master s"; cases r)
    (auto simp: launch_inv_def idle_def in_order_def in_flight_def panicked_def master_step_def split: if_splits)

text \<open>The parts of the invariant about the thread, by what the master is doing.\<close>

lemma slave_inv_cases:
  assumes "launch_inv s"
  obtains (quiet) "la_slave s = S_Read" "la_m2s s = 0"
    | (byte) "la_slave s = S_Read" "la_master s = M_Ack" "la_m2s s = 1" "la_s2m s = 0" "la_state s = WAIT"
        "la_sent s = la_called s @ [(la_f s, la_arg s)]"
    | (taken) "taken (la_slave s)" "la_master s = M_Ack" "la_m2s s = 0" "la_s2m s = 0" "in_order s"
    | (busy) "la_slave s \<noteq> S_Read" "\<not> taken (la_slave s)" "la_m2s s = 0" "in_order s"
        "la_master s = M_Ready \<and> la_s2m s = 0 \<or> la_master s = M_Ack \<and> la_s2m s = 1"
  using assms
  by (cases "la_master s"; cases "la_slave s = S_Read")
    (auto simp: launch_inv_def idle_def in_flight_def in_order_def)

lemma slave_inv:
  assumes "launch_inv s" "slave_step r v s = Some s'" "\<not> panicked s'"
  shows "launch_inv s'"
  using assms(1)
proof (cases rule: slave_inv_cases)
  case quiet
  then show ?thesis using assms by (cases r) (auto simp: slave_step_def panicked_def)
next
  case byte
  then show ?thesis using assms
    by (cases r) (auto simp: slave_step_def launch_inv_def in_flight_def in_order_def pc_defs)
next
  case taken
  then have "la_slave s = S_Running \<or> la_slave s = S_Ack" by (simp add: taken_def)
  then show ?thesis using assms taken
    by (elim disjE; cases r) (auto simp: slave_step_def launch_inv_def in_flight_def in_order_def pc_defs)
next
  case busy
  then show ?thesis using assms
    by (elim disjE; cases "la_slave s")
      (auto simp: slave_step_def launch_inv_def in_flight_def in_order_def pc_defs split: if_splits)
qed

lemma wait_inv:
  assumes "launch_inv s" "la_state s = FINISHED"
  shows "launch_inv (s\<lparr>la_state := WAIT\<rparr>)"
  using assms by (cases "la_master s") (auto simp: launch_inv_def idle_def in_order_def in_flight_def panicked_def)

lemma launch_reachable:
  assumes "reachable launch_init (launch_step app) s" "waits_only app"
  shows "panicked s \<or> launch_inv s"
  using assms(1)
proof (rule reachable_invariant)
  show "panicked s \<or> launch_inv s" if "launch_init s" for s using launch_init_inv [OF that] ..
  fix t s s'
  assume inv: "panicked s \<or> launch_inv s" and "launch_step app t s s'"
  then show "panicked s' \<or> launch_inv s'"
    using assms(2) by (elim launch_stepE) (auto intro: call_inv wait_inv dest: master_inv slave_inv simp: waits_only_def)
qed

section \<open>Properties\<close>

text \<open>
  C20. However the master, the thread of the core and the code that waits for it interleave, the
  functions called are those sent, each once with its own argument and in this order, but for at most the
  last one; as long as that one has not been called, the core does not accept another; and a core that
  is not running has called all.
\<close>

theorem launch_exact:
  assumes "reachable launch_init (launch_step app) s" "waits_only app" "\<not> panicked s"
  shows "\<exists>pending. la_sent s = la_called s @ pending \<and> length pending \<le> 1 \<and>
    (pending \<noteq> [] \<longrightarrow> pending = [(la_f s, la_arg s)] \<and> (la_master s = M_Ack \<or> la_state s = RUNNING)) \<and>
    (la_master s = M_Ready \<and> la_state s \<noteq> RUNNING \<longrightarrow> pending = [])"
proof -
  have "launch_inv s" using launch_reachable [OF assms(1,2)] assms(3) by simp
  then show ?thesis
    by (cases "la_master s"; cases "to_call (la_slave s)")
      (auto simp: launch_inv_def idle_def in_order_def in_flight_def dest: to_call_at_work)
qed

text \<open>
  C37. Nobody waits forever: in every reachable state without a panic either the master is outside
  \<^verbatim>\<open>rte_eal_remote_launch\<close> and the thread of the core is waiting for a command, or one of the two has a step that
  changes the state.
\<close>

theorem launch_progress:
  assumes "reachable launch_init (launch_step app) s" "waits_only app" "\<not> panicked s"
  shows "la_master s = M_Ready \<and> la_slave s = S_Read \<or> (\<exists>t \<in> {0, 1}. \<exists>s'. launch_step app t s s' \<and> s' \<noteq> s)"
proof -
  have inv: "launch_inv s" using launch_reachable [OF assms(1,2)] assms(3) by simp
  show ?thesis
  proof (cases "la_slave s = S_Read \<and> la_m2s s = 0")
    case False
    then have "\<exists>s'. slave_step IO_Done 0 s = Some s' \<and> la_slave s' \<noteq> la_slave s"
      using assms(3) by (cases "la_slave s") (auto simp: slave_step_def panicked_def)
    then show ?thesis using launch_step.slave [OF assms(3)] by fastforce
  next
    case True
    show ?thesis
    proof (cases "la_master s = M_Ready")
      case False
      then have "\<exists>s'. master_step IO_Done s = Some s' \<and> la_master s' \<noteq> la_master s"
        using True inv
        by (cases "la_master s") (auto simp: master_step_def launch_inv_def in_flight_def panicked_def)
      then show ?thesis using launch_step.master [OF assms(3)] by fastforce
    qed (use True in simp)
  qed
qed

text \<open>
  A run for the witnesses: the master sends function 7 with argument 9, the thread is interrupted once and then
  calls it.
\<close>

definition launch_demo_start :: launch where
  "launch_demo_start = \<lparr>la_state = WAIT, la_role = ROLE_RTE, la_f = 0, la_arg = 0, la_ret = 0, la_m2s = 0, la_s2m = 0,
     la_master = M_Ready, la_slave = S_Read, la_result = 0, la_sent = [], la_called = []\<rparr>"

definition wait_lcore :: "rte_lcore_state_t \<Rightarrow> rte_lcore_state_t \<Rightarrow> bool" where
  "wait_lcore st st' \<longleftrightarrow> st = FINISHED \<and> st' = WAIT"

fun play :: "(io + io) list \<Rightarrow> launch \<Rightarrow> launch option" where
  "play [] s = Some s"
| "play (Inl r # rs) s = (if panicked s then None else Option.bind (master_step r s) (play rs))"
| "play (Inr r # rs) s = (if panicked s then None else Option.bind (slave_step r 0 s) (play rs))"

lemma play_reachable:
  "reachable init (launch_step app) s \<Longrightarrow> play rs s = Some s' \<Longrightarrow> reachable init (launch_step app) s'"
  by (induction rs s rule: play.induct)
    (auto split: if_splits bind_splits intro: reachable.next_step launch_step.intros)

definition launch_demo :: "launch option" where
  "launch_demo =
     play [Inl IO_Done, Inl IO_Done, Inl IO_Done, Inr IO_Again, Inr IO_Done, Inr IO_Done, Inr IO_Done]
       (rte_eal_remote_launch 7 9 launch_demo_start)"

lemma waits_only_demo: "waits_only wait_lcore"
  by (simp add: waits_only_def wait_lcore_def)

lemma launch_demo_reachable:
  "\<exists>s. launch_demo = Some s \<and> reachable launch_init (launch_step wait_lcore) s \<and> \<not> panicked s \<and>
     la_slave s = S_Check \<and> la_master s = M_Ack \<and> la_state s = RUNNING \<and> la_sent s = [(7, 9)] \<and> la_called s = []"
proof -
  have "reachable launch_init (launch_step wait_lcore) (rte_eal_remote_launch 7 9 launch_demo_start)"
  proof (rule reachable.next_step)
    show "reachable launch_init (launch_step wait_lcore) launch_demo_start"
      by (rule reachable.initial) (simp add: launch_init_def launch_demo_start_def)
    show "launch_step wait_lcore 0 launch_demo_start (rte_eal_remote_launch 7 9 launch_demo_start)"
      by (rule launch_step.call) (simp_all add: launch_demo_start_def panicked_def)
  qed
  then have "launch_demo = Some s \<Longrightarrow> reachable launch_init (launch_step wait_lcore) s" for s
    unfolding launch_demo_def by (rule play_reachable)
  moreover have "\<exists>s. launch_demo = Some s \<and> \<not> panicked s \<and>
      la_slave s = S_Check \<and> la_master s = M_Ack \<and> la_state s = RUNNING \<and> la_sent s = [(7, 9)] \<and> la_called s = []"
    by (simp add: launch_demo_def launch_demo_start_def rte_eal_remote_launch_def panicked_def master_step_def
        slave_step_def)
  ultimately show ?thesis by blast
qed

theorem launch_exact_witness:
  "\<exists>s pending. launch_demo = Some s \<and> la_sent s = la_called s @ pending \<and> pending = [(7, 9)] \<and> length pending \<le> 1"
proof -
  obtain s where s: "launch_demo = Some s" "reachable launch_init (launch_step wait_lcore) s" "\<not> panicked s"
    "la_sent s = [(7, 9)]" "la_called s = []"
    using launch_demo_reachable by blast
  show ?thesis
    using launch_exact [OF s(2) waits_only_demo s(3)] s by auto
qed

theorem launch_progress_witness:
  "\<exists>s. launch_demo = Some s \<and> (\<exists>t \<in> {0, 1}. \<exists>s'. launch_step wait_lcore t s s' \<and> s' \<noteq> s)"
proof -
  obtain s where s: "launch_demo = Some s" "reachable launch_init (launch_step wait_lcore) s" "\<not> panicked s"
    "la_slave s = S_Check"
    using launch_demo_reachable by blast
  show ?thesis
    using launch_progress [OF s(2) waits_only_demo s(3)] s by auto
qed

end
