(* ===== verification/Log.thy ===== *)
theory Log
  imports Cstring
begin

text \<open>
  Logging (\<^verbatim>\<open>common/include/rte_log.h\<close>, \<^verbatim>\<open>common/eal_common_log.c\<close>, \<^verbatim>\<open>linuxapp/eal/eal_log.c\<close>): the table of log types, their
  levels, and the filter every message passes. The results of \<^verbatim>\<open>calloc\<close>, \<^verbatim>\<open>realloc\<close>, \<^verbatim>\<open>strdup\<close> and of printing are
  arguments; streams are addresses, 0 is \<^verbatim>\<open>NULL\<close>.
\<close>

section \<open>Data\<close>

record rte_log_dynamic_type =
  lt_name :: "string option"
  lt_loglevel :: u32

text \<open>\<open>rl_dynamic_types\<close> holds all entries of the allocated block, of which the first \<open>rl_len\<close> are in use.\<close>

record rte_logs =
  rl_type :: u32
  rl_level :: u32
  rl_file :: nat
  rl_len :: u64
  rl_dynamic_types :: "rte_log_dynamic_type list"

record log_cur_msg =
  cm_loglevel :: u32
  cm_logtype :: u32

text \<open>
  The global state, the message of each core, and the effects outside: what was printed to which stream, what was
  written to the standard output and to \<^verbatim>\<open>syslog\<close>, and the last call of \<^verbatim>\<open>openlog\<close>.
\<close>

record log_state =
  lg_logs :: rte_logs
  lg_default_stream :: nat
  lg_cur_msg :: "nat \<Rightarrow> log_cur_msg"
  lg_printed :: "(nat \<times> string) list"
  lg_stdout :: "string list"
  lg_syslog :: "(u32 \<times> string) list"
  lg_openlog :: "(string \<times> int) option"

abbreviation RTE_LOG_EMERG :: u32 where "RTE_LOG_EMERG \<equiv> 1"
abbreviation RTE_LOG_ERR :: u32 where "RTE_LOG_ERR \<equiv> 4"
abbreviation RTE_LOG_NOTICE :: u32 where "RTE_LOG_NOTICE \<equiv> 6"
abbreviation RTE_LOG_INFO :: u32 where "RTE_LOG_INFO \<equiv> 7"
abbreviation RTE_LOG_DEBUG :: u32 where "RTE_LOG_DEBUG \<equiv> 8"
definition RTE_LOGTYPE_FIRST_EXT_ID :: nat where "RTE_LOGTYPE_FIRST_EXT_ID = 32"
definition sizeof_log_dynamic_type :: u64 where "sizeof_log_dynamic_type = 16"

abbreviation set_logs :: "(rte_logs \<Rightarrow> rte_logs) \<Rightarrow> log_state \<Rightarrow> log_state" where
  "set_logs f s \<equiv> s\<lparr>lg_logs := f (lg_logs s)\<rparr>"

text \<open>An access to an entry outside of the block is a fault.\<close>

definition log_entry :: "nat \<Rightarrow> rte_logs \<Rightarrow> rte_log_dynamic_type res" where
  "log_entry i l = (if i < length (rl_dynamic_types l) then ret (rl_dynamic_types l ! i) else abort ''log type'')"

definition set_log_entry :: "nat \<Rightarrow> rte_log_dynamic_type \<Rightarrow> rte_logs \<Rightarrow> rte_logs res" where
  "set_log_entry i t l =
     (if i < length (rl_dynamic_types l) then ret (l\<lparr>rl_dynamic_types := (rl_dynamic_types l)[i := t]\<rparr>)
      else abort ''log type'')"

section \<open>Levels\<close>

definition rte_openlog_stream :: "nat \<Rightarrow> log_state \<Rightarrow> log_state \<times> int" where
  "rte_openlog_stream f s = (set_logs (rl_file_update (\<lambda>_. f)) s, 0)"

definition rte_log_set_global_level :: "u32 \<Rightarrow> log_state \<Rightarrow> log_state" where
  "rte_log_set_global_level level s = set_logs (rl_level_update (\<lambda>_. level)) s"

definition rte_log_get_global_level :: "log_state \<Rightarrow> u32" where
  "rte_log_get_global_level s = rl_level (lg_logs s)"

text \<open>The level is returned as a signed integer.\<close>

definition rte_log_get_level :: "u32 \<Rightarrow> log_state \<Rightarrow> int res" where
  "rte_log_get_level type s =
     (if ucast type \<ge> rl_len (lg_logs s) then ret (- 1)
      else res_bind (log_entry (unat type) (lg_logs s)) (\<lambda>t. ret (sint (lt_loglevel t))))"

definition rte_log_set_level :: "u32 \<Rightarrow> u32 \<Rightarrow> log_state \<Rightarrow> (log_state \<times> int) res" where
  "rte_log_set_level type level s =
     (if ucast type \<ge> rl_len (lg_logs s) then ret (s, - 1)
      else if level > RTE_LOG_DEBUG then ret (s, - 1)
      else res_bind (log_entry (unat type) (lg_logs s)) (\<lambda>t.
        res_bind (set_log_entry (unat type) (t\<lparr>lt_loglevel := level\<rparr>) (lg_logs s)) (\<lambda>l. ret (s\<lparr>lg_logs := l\<rparr>, 0))))"

text \<open>\<open>re pattern\<close> is the compiled regular expression, \<open>None\<close> when \<^verbatim>\<open>regcomp\<close> fails.\<close>

definition set_if_match :: "(string \<Rightarrow> bool) \<Rightarrow> u32 \<Rightarrow> rte_log_dynamic_type \<Rightarrow> rte_log_dynamic_type" where
  "set_if_match r level t =
     (case lt_name t of None \<Rightarrow> t | Some n \<Rightarrow> if r n then t\<lparr>lt_loglevel := level\<rparr> else t)"

definition rte_log_set_level_regexp ::
    "(string \<Rightarrow> (string \<Rightarrow> bool) option) \<Rightarrow> string \<Rightarrow> u32 \<Rightarrow> log_state \<Rightarrow> (log_state \<times> int) res" where
  "rte_log_set_level_regexp re pattern level s =
     (let l = lg_logs s; n = unat (rl_len l) in
      if level > RTE_LOG_DEBUG then ret (s, - 1)
      else case re pattern of
        None \<Rightarrow> ret (s, - 1)
      | Some r \<Rightarrow>
          if n > length (rl_dynamic_types l) then abort ''log type''
          else ret (set_logs (rl_dynamic_types_update (\<lambda>xs. map (set_if_match r level) (take n xs) @ drop n xs)) s, 0))"

definition rte_log_cur_msg_loglevel :: "nat \<Rightarrow> log_state \<Rightarrow> int" where
  "rte_log_cur_msg_loglevel lcore s = sint (cm_loglevel (lg_cur_msg s lcore))"

definition rte_log_cur_msg_logtype :: "nat \<Rightarrow> log_state \<Rightarrow> int" where
  "rte_log_cur_msg_logtype lcore s = sint (cm_logtype (lg_cur_msg s lcore))"

section \<open>Registration\<close>

text \<open>The loop, with the index and the number of entries left.\<close>

fun log_lookup_loop :: "string \<Rightarrow> rte_logs \<Rightarrow> nat \<Rightarrow> nat \<Rightarrow> int res" where
  "log_lookup_loop name l i 0 = ret (- 1)"
| "log_lookup_loop name l i (Suc k) =
     res_bind (log_entry i l) (\<lambda>t.
       if lt_name t = Some name then ret (sint (word_of_nat i :: u32)) else log_lookup_loop name l (i + 1) k)"

definition rte_log_lookup :: "string \<Rightarrow> rte_logs \<Rightarrow> int res" where
  "rte_log_lookup name l = log_lookup_loop name l 0 (unat (rl_len l))"

text \<open>\<^verbatim>\<open>__rte_log_register\<close>; \<open>dup\<close> says whether \<^verbatim>\<open>strdup\<close> succeeds.\<close>

definition do_rte_log_register :: "bool \<Rightarrow> string \<Rightarrow> int \<Rightarrow> rte_logs \<Rightarrow> (rte_logs \<times> int) res" where
  "do_rte_log_register dup name i l =
     (if \<not> dup then ret (l, - ENOMEM)
      else if i < 0 then abort ''log type''
      else res_bind (set_log_entry (nat i) \<lparr>lt_name = Some name, lt_loglevel = RTE_LOG_INFO\<rparr> l) (\<lambda>l. ret (l, i)))"

text \<open>
  The block of the types made as large as \<open>n\<close> bytes. \<open>mem\<close> is \<open>None\<close> when there is no memory, and else the contents of
  the new part.
\<close>

definition realloc_types ::
    "rte_log_dynamic_type option \<Rightarrow> u64 \<Rightarrow> rte_log_dynamic_type list \<Rightarrow> rte_log_dynamic_type list option" where
  "realloc_types mem n xs =
     (let k = unat (n div sizeof_log_dynamic_type)
      in map_option (\<lambda>junk. take k xs @ replicate (k - length xs) junk) mem)"

definition rte_log_register ::
    "rte_log_dynamic_type option \<Rightarrow> bool \<Rightarrow> string \<Rightarrow> log_state \<Rightarrow> (log_state \<times> int) res" where
  "rte_log_register mem dup name s =
     res_bind (rte_log_lookup name (lg_logs s)) (\<lambda>i.
       if i \<ge> 0 then ret (s, i)
       else case realloc_types mem (sizeof_log_dynamic_type * (rl_len (lg_logs s) + 1)) (rl_dynamic_types (lg_logs s)) of
         None \<Rightarrow> ret (s, - ENOMEM)
       | Some types \<Rightarrow>
           let l = (lg_logs s)\<lparr>rl_dynamic_types := types\<rparr> in
           res_bind (do_rte_log_register dup name (sint (ucast (rl_len l) :: u32)) l) (\<lambda>(l, r).
             if r < 0 then ret (s\<lparr>lg_logs := l\<rparr>, r)
             else ret (s\<lparr>lg_logs := l\<lparr>rl_len := rl_len l + 1\<rparr>\<rparr>, r)))"

section \<open>Initialisation\<close>

definition logtype_strings :: "(u32 \<times> string) list" where
  "logtype_strings =
     [(0, ''lib.eal''), (1, ''lib.malloc''), (2, ''lib.ring''), (3, ''lib.mempool''), (4, ''lib.timer''), (5, ''pmd''),
      (6, ''lib.hash''), (7, ''lib.lpm''), (8, ''lib.kni''), (9, ''lib.acl''), (10, ''lib.power''), (11, ''lib.meter''),
      (12, ''lib.sched''), (13, ''lib.port''), (14, ''lib.table''), (15, ''lib.pipeline''), (16, ''lib.mbuf''),
      (17, ''lib.cryptodev''), (18, ''lib.efd''), (19, ''lib.eventdev''), (20, ''lib.gso''), (24, ''user1''),
      (25, ''user2''), (26, ''user3''), (27, ''user4''), (28, ''user5''), (29, ''user6''), (30, ''user7''), (31, ''user8'')]"

text \<open>\<open>dups i\<close> says whether the \<^verbatim>\<open>strdup\<close> for the entry of type \<open>i\<close> succeeds; the results are not looked at.\<close>

fun register_legacy :: "(u32 \<Rightarrow> bool) \<Rightarrow> (u32 \<times> string) list \<Rightarrow> rte_logs \<Rightarrow> rte_logs res" where
  "register_legacy dups [] l = ret l"
| "register_legacy dups ((i, name) # ts) l =
     res_bind (do_rte_log_register (dups i) name (sint i) l) (\<lambda>(l, r). register_legacy dups ts l)"

text \<open>The static initialiser, and the constructor that runs before \<^verbatim>\<open>main\<close>.\<close>

definition rte_logs_start :: rte_logs where
  "rte_logs_start = \<lparr>rl_type = - 1, rl_level = RTE_LOG_DEBUG, rl_file = 0, rl_len = 0, rl_dynamic_types = []\<rparr>"

definition rte_log_init :: "bool \<Rightarrow> (u32 \<Rightarrow> bool) \<Rightarrow> log_state \<Rightarrow> log_state res" where
  "rte_log_init mem dups s =
     (let s = rte_log_set_global_level RTE_LOG_DEBUG s in
      if \<not> mem then ret (set_logs (rl_dynamic_types_update (\<lambda>_. [])) s)
      else res_bind (register_legacy dups logtype_strings ((lg_logs s)\<lparr>rl_dynamic_types :=
               replicate RTE_LOGTYPE_FIRST_EXT_ID \<lparr>lt_name = None, lt_loglevel = 0\<rparr>\<rparr>)) (\<lambda>l.
             ret (s\<lparr>lg_logs := l\<lparr>rl_len := word_of_nat RTE_LOGTYPE_FIRST_EXT_ID\<rparr>\<rparr>)))"

section \<open>Messages\<close>

definition loglevel_to_string :: "u32 \<Rightarrow> string" where
  "loglevel_to_string level =
     (if level = 0 then ''disabled'' else if level = 1 then ''emerg'' else if level = 2 then ''alert''
      else if level = 3 then ''critical'' else if level = 4 then ''error'' else if level = 5 then ''warning''
      else if level = 6 then ''notice'' else if level = 7 then ''info'' else if level = 8 then ''debug'' else ''unknown'')"

text \<open>The global level, and the identifier, name and level of each named type.\<close>

definition rte_log_dump :: "log_state \<Rightarrow> (string \<times> (nat \<times> string \<times> string) list) res" where
  "rte_log_dump s =
     (let l = lg_logs s; n = unat (rl_len l) in
      if n > length (rl_dynamic_types l) then abort ''log type''
      else ret (loglevel_to_string (rte_log_get_global_level s),
        List.map_filter (\<lambda>i. map_option (\<lambda>name. (i, name, loglevel_to_string (lt_loglevel (rl_dynamic_types l ! i))))
          (lt_name (rl_dynamic_types l ! i))) [0..<n]))"

text \<open>
  \<open>text\<close> is the formatted message, \<open>print f text\<close> what \<^verbatim>\<open>vfprintf\<close> returns and \<open>stderr\<close> the current value of that variable.
\<close>

definition rte_vlog ::
    "nat \<Rightarrow> (nat \<Rightarrow> string \<Rightarrow> int) \<Rightarrow> nat \<Rightarrow> u32 \<Rightarrow> u32 \<Rightarrow> string \<Rightarrow> log_state \<Rightarrow> (log_state \<times> int) res" where
  "rte_vlog stderr print lcore level logtype text s =
     (let l = lg_logs s;
          f = (if rl_file l = 0 then if lg_default_stream s = 0 then stderr else lg_default_stream s else rl_file l)
      in if level > rl_level l then ret (s, 0)
         else if ucast logtype \<ge> rl_len l then ret (s, - 1)
         else res_bind (log_entry (unat logtype) l) (\<lambda>t.
           if level > lt_loglevel t then ret (s, 0)
           else ret (s\<lparr>lg_cur_msg := (lg_cur_msg s)(lcore := \<lparr>cm_loglevel = level, cm_logtype = logtype\<rparr>),
                     lg_printed := lg_printed s @ [(f, text)]\<rparr>, print f text)))"

definition rte_log ::
    "nat \<Rightarrow> (nat \<Rightarrow> string \<Rightarrow> int) \<Rightarrow> nat \<Rightarrow> u32 \<Rightarrow> u32 \<Rightarrow> string \<Rightarrow> log_state \<Rightarrow> (log_state \<times> int) res" where
  "rte_log stderr print lcore level logtype text s = rte_vlog stderr print lcore level logtype text s"

text \<open>The macro puts the name of the type before the message.\<close>

definition RTE_LOG ::
    "nat \<Rightarrow> (nat \<Rightarrow> string \<Rightarrow> int) \<Rightarrow> nat \<Rightarrow> u32 \<Rightarrow> u32 \<Rightarrow> string \<Rightarrow> string \<Rightarrow> log_state \<Rightarrow> (log_state \<times> int) res" where
  "RTE_LOG stderr print lcore l t t_name text s = rte_log stderr print lcore l t (t_name @ '': '' @ text) s"

text \<open>The macro for the data path compares the level when it is compiled.\<close>

definition RTE_LOG_DP_LEVEL :: u32 where "RTE_LOG_DP_LEVEL = RTE_LOG_INFO"

definition RTE_LOG_DP ::
    "nat \<Rightarrow> (nat \<Rightarrow> string \<Rightarrow> int) \<Rightarrow> nat \<Rightarrow> u32 \<Rightarrow> u32 \<Rightarrow> string \<Rightarrow> string \<Rightarrow> log_state \<Rightarrow> (log_state \<times> int) res" where
  "RTE_LOG_DP stderr print lcore l t t_name text s =
     (if l \<le> RTE_LOG_DP_LEVEL then RTE_LOG stderr print lcore l t t_name text s else ret (s, 0))"

definition eal_log_set_default :: "nat \<Rightarrow> log_state \<Rightarrow> log_state" where
  "eal_log_set_default default_log s = s\<lparr>lg_default_stream := default_log\<rparr>"

text \<open>The stream of the Linux environment; \<open>r\<close> is what \<^verbatim>\<open>fwrite\<close> returns. \<^verbatim>\<open>%s\<close> ends at the first NUL character.\<close>

definition console_log_write :: "int \<Rightarrow> nat \<Rightarrow> string \<Rightarrow> log_state \<Rightarrow> log_state \<times> int" where
  "console_log_write r lcore buf s =
     (let size = (if length buf > BUFSIZ then BUFSIZ else length buf);
          loglevel = (word_of_int (rte_log_cur_msg_loglevel lcore s - 1) :: u32);
          copybuf = takeWhile (\<lambda>c. c \<noteq> CHR 0x00) (take size buf)
      in (s\<lparr>lg_stdout := lg_stdout s @ [buf], lg_syslog := lg_syslog s @ [(loglevel, copybuf)]\<rparr>, r))"

text \<open>\<open>stream\<close> is what \<^verbatim>\<open>fopencookie\<close> returns.\<close>

definition rte_eal_log_init :: "nat \<Rightarrow> string \<Rightarrow> int \<Rightarrow> log_state \<Rightarrow> log_state \<times> int" where
  "rte_eal_log_init stream name facility s =
     (if stream = 0 then (s, - 1) else (eal_log_set_default stream (s\<lparr>lg_openlog := Some (name, facility)\<rparr>), 0))"

end
