(* ===== verification/Log_Correct.thy ===== *)
theory Log_Correct
  imports Log
begin

text \<open>
  The table of log types: it stays well formed under every operation, and the identifiers it gives out
  correspond one to one to the names.
\<close>

section \<open>Well-formed tables\<close>

text \<open>The identifier of a name.\<close>

definition log_id :: "rte_logs \<Rightarrow> string \<Rightarrow> nat \<Rightarrow> bool" where
  "log_id l name i \<longleftrightarrow> i < unat (rl_len l) \<and> lt_name (rl_dynamic_types l ! i) = Some name"

text \<open>
  The entries in use lie in the block, no two have the same name, every level is valid. The length stays
  below \<open>k\<close>, so that identifiers fit their type.
\<close>

definition types_wf :: "rte_logs \<Rightarrow> bool" where
  "types_wf l \<longleftrightarrow> unat (rl_len l) \<le> length (rl_dynamic_types l) \<and>
     (\<forall>i < unat (rl_len l). lt_loglevel (rl_dynamic_types l ! i) \<le> RTE_LOG_DEBUG) \<and>
     (\<forall>name i j. log_id l name i \<and> log_id l name j \<longrightarrow> i = j)"

lemma log_id_unique: "types_wf l \<Longrightarrow> log_id l name i \<Longrightarrow> log_id l name j \<Longrightarrow> i = j"
  unfolding types_wf_def by blast

text \<open>One table extends another: it is no shorter and has the same names in the entries of the other.\<close>

definition extends :: "rte_logs \<Rightarrow> rte_logs \<Rightarrow> bool" where
  "extends l l' \<longleftrightarrow> (\<forall>name i. log_id l name i \<longrightarrow> log_id l' name i)"

lemma extends_refl [simp]: "extends l l"
  by (simp add: extends_def)

lemma extends_trans: "extends l l' \<Longrightarrow> extends l' l'' \<Longrightarrow> extends l l''"
  by (simp add: extends_def)

section \<open>Lookup\<close>

lemma int_of_id: "i < 2 ^ 31 \<Longrightarrow> sint (word_of_nat i :: u32) = int i"
  by (simp add: signed_of_nat signed_take_bit_int_eq_self_iff)

lemma log_lookup_loop_spec:
  assumes "i + k \<le> length (rl_dynamic_types l)" "i + k < 2 ^ 31"
  shows "(\<exists>j. i \<le> j \<and> j < i + k \<and> lt_name (rl_dynamic_types l ! j) = Some name \<and> log_lookup_loop name l i k = ret (int j)) \<or>
    (\<forall>j. i \<le> j \<and> j < i + k \<longrightarrow> lt_name (rl_dynamic_types l ! j) \<noteq> Some name) \<and> log_lookup_loop name l i k = ret (- 1)"
  using assms
proof (induction k arbitrary: i)
  case (Suc k)
  have step: "log_lookup_loop name l i (Suc k) =
      (if lt_name (rl_dynamic_types l ! i) = Some name then ret (int i) else log_lookup_loop name l (Suc i) k)"
    using Suc.prems int_of_id [of i] by (simp add: log_entry_def)
  show ?case
  proof (cases "lt_name (rl_dynamic_types l ! i) = Some name")
    case True
    then show ?thesis unfolding step by (intro disjI1 exI [of _ i]) simp
  next
    case False
    have "Suc i + k \<le> length (rl_dynamic_types l)" "Suc i + k < 2 ^ 31" using Suc.prems by simp_all
    from Suc.IH [OF this] show ?thesis
    proof (elim disjE exE conjE)
      fix j assume "Suc i \<le> j" "j < Suc i + k" "lt_name (rl_dynamic_types l ! j) = Some name"
        "log_lookup_loop name l (Suc i) k = ret (int j)"
      then show ?thesis using False step by (intro disjI1 exI [of _ j]) simp
    next
      assume none: "\<forall>j. Suc i \<le> j \<and> j < Suc i + k \<longrightarrow> lt_name (rl_dynamic_types l ! j) \<noteq> Some name"
        and "log_lookup_loop name l (Suc i) k = ret (- 1)"
      then have miss: "log_lookup_loop name l i (Suc k) = ret (- 1)" using False step by simp
      have "i \<le> j \<and> j < i + Suc k \<longrightarrow> lt_name (rl_dynamic_types l ! j) \<noteq> Some name" for j
        using none False by (cases "j = i") auto
      then have "\<forall>j. i \<le> j \<and> j < i + Suc k \<longrightarrow> lt_name (rl_dynamic_types l ! j) \<noteq> Some name" ..
      with miss show ?thesis by simp
    qed
  qed
qed auto

lemma lookup_cases:
  assumes "types_wf l" "unat (rl_len l) < 2 ^ 31"
  obtains (found) i where "rte_log_lookup name l = ret (int i)" "log_id l name i"
    | (missing) "rte_log_lookup name l = ret (- 1)" "\<forall>i. \<not> log_id l name i"
  using log_lookup_loop_spec [of 0 "unat (rl_len l)" l name] assms found missing
  unfolding rte_log_lookup_def log_id_def types_wf_def by fastforce

section \<open>Registration\<close>

text \<open>The table after a new type.\<close>

definition add_type :: "string \<Rightarrow> rte_log_dynamic_type list \<Rightarrow> rte_logs \<Rightarrow> rte_logs" where
  "add_type name types l = l\<lparr>rl_dynamic_types := types[unat (rl_len l) := \<lparr>lt_name = Some name, lt_loglevel = RTE_LOG_INFO\<rparr>],
     rl_len := rl_len l + 1\<rparr>"

lemma types_wf_same:
  assumes "types_wf l" "rl_len l' = rl_len l" "length (rl_dynamic_types l') \<ge> unat (rl_len l)"
    "\<And>i. i < unat (rl_len l) \<Longrightarrow> rl_dynamic_types l' ! i = rl_dynamic_types l ! i"
  shows "types_wf l' \<and> extends l l'"
  using assms by (auto simp: types_wf_def extends_def log_id_def)

lemma add_type_wf:
  assumes "types_wf l" "\<forall>i. \<not> log_id l name i" "unat (rl_len l) < 2 ^ 31" "length types \<ge> Suc (unat (rl_len l))"
    "\<And>i. i < unat (rl_len l) \<Longrightarrow> types ! i = rl_dynamic_types l ! i"
  shows "types_wf (add_type name types l)" "extends l (add_type name types l)"
    "log_id (add_type name types l) name (unat (rl_len l))" "unat (rl_len (add_type name types l)) = Suc (unat (rl_len l))"
proof -
  have len: "unat (rl_len l + 1) = Suc (unat (rl_len l))"
    using assms(3) by (subst unat_add_no_overflow) simp_all
  then show "unat (rl_len (add_type name types l)) = Suc (unat (rl_len l))" by (simp add: add_type_def)
  show "log_id (add_type name types l) name (unat (rl_len l))"
    using len assms(4) by (simp add: add_type_def log_id_def)
  show "extends l (add_type name types l)"
    using len assms(4,5) by (auto simp: add_type_def log_id_def extends_def)
  show "types_wf (add_type name types l)"
    unfolding types_wf_def
  proof (intro conjI allI impI)
    let ?n = "unat (rl_len l)"
    show "unat (rl_len (add_type name types l)) \<le> length (rl_dynamic_types (add_type name types l))"
      using len assms(4) by (simp add: add_type_def)
    show "lt_loglevel (rl_dynamic_types (add_type name types l) ! i) \<le> RTE_LOG_DEBUG"
      if "i < unat (rl_len (add_type name types l))" for i
      using that len assms(1,4,5) by (cases "i = ?n") (simp_all add: add_type_def types_wf_def less_Suc_eq)
    have id: "log_id (add_type name types l) nm i \<longleftrightarrow> (i = ?n \<and> nm = name \<or> log_id l nm i)" for nm i
      using len assms(4,5) by (cases "i = ?n") (auto simp: add_type_def log_id_def less_Suc_eq)
    show "i = j" if "log_id (add_type name types l) nm i \<and> log_id (add_type name types l) nm j" for nm i j
      using that assms(2) log_id_unique [OF assms(1)] unfolding id by blast
  qed
qed

lemma realloc_size: 
  assumes "unat (n :: u64) < 2 ^ 31"
  shows "unat ((sizeof_log_dynamic_type * (n + 1)) div sizeof_log_dynamic_type) = Suc (unat n)"
proof -
  have n: "unat (n + 1) = Suc (unat n)" using assms by (subst unat_add_no_overflow) simp_all
  have "unat ((16 :: u64) * (n + 1)) = 16 * Suc (unat n)"
    unfolding unat_word_ariths using assms n by simp
  then show ?thesis by (simp add: unat_div sizeof_log_dynamic_type_def)
qed

lemma register_cases:
  assumes "types_wf (lg_logs s)" "unat (rl_len (lg_logs s)) < 2 ^ 31"
  obtains (known) i where "rte_log_register mem dup name s = ret (s, int i)" "log_id (lg_logs s) name i"
    | (no_memory) l where "rte_log_register mem dup name s = ret (s\<lparr>lg_logs := l\<rparr>, - ENOMEM)"
        "types_wf l" "extends (lg_logs s) l" "rl_len l = rl_len (lg_logs s)"
    | (new) l where "rte_log_register mem dup name s = ret (s\<lparr>lg_logs := l\<rparr>, int (unat (rl_len (lg_logs s))))"
        "types_wf l" "extends (lg_logs s) l" "log_id l name (unat (rl_len (lg_logs s)))"
        "unat (rl_len l) = Suc (unat (rl_len (lg_logs s)))"
proof (rule lookup_cases [OF assms, of name])
  fix i assume "rte_log_lookup name (lg_logs s) = ret (int i)" "log_id (lg_logs s) name i"
  then show thesis using known [of i] by (simp add: rte_log_register_def)
next
  let ?l = "lg_logs s"
  assume miss: "rte_log_lookup name ?l = ret (- 1)" "\<forall>i. \<not> log_id ?l name i"
  show thesis
  proof (cases mem)
    case None
    then show thesis using miss no_memory [of ?l] assms
      by (simp add: rte_log_register_def realloc_types_def)
  next
    case (Some junk)
    define types where "types = take (Suc (unat (rl_len ?l))) (rl_dynamic_types ?l) @
      replicate (Suc (unat (rl_len ?l)) - length (rl_dynamic_types ?l)) junk"
    have t: "length types \<ge> Suc (unat (rl_len ?l))"
      "\<And>i. i < unat (rl_len ?l) \<Longrightarrow> types ! i = rl_dynamic_types ?l ! i"
      using assms(1) by (auto simp: types_def nth_append types_wf_def)
    have re: "realloc_types mem (sizeof_log_dynamic_type * (rl_len ?l + 1)) (rl_dynamic_types ?l) = Some types"
      using realloc_size [OF assms(2)] Some by (simp add: realloc_types_def types_def)
    have n: "sint (ucast (rl_len ?l) :: u32) = int (unat (rl_len ?l))"
      using int_of_id [OF assms(2)] by simp
    show thesis
    proof (cases dup)
      case True
      have "rte_log_register mem dup name s = ret (s\<lparr>lg_logs := add_type name types ?l\<rparr>, int (unat (rl_len ?l)))"
        using miss(1) re True n t(1) by (simp add: rte_log_register_def do_rte_log_register_def set_log_entry_def add_type_def)
      then show thesis using new add_type_wf [OF assms(1) miss(2) assms(2) t] by blast
    next
      case False
      have "rte_log_register mem dup name s = ret (s\<lparr>lg_logs := ?l\<lparr>rl_dynamic_types := types\<rparr>\<rparr>, - ENOMEM)"
        using miss(1) re False by (simp add: rte_log_register_def do_rte_log_register_def)
      moreover have "types_wf (?l\<lparr>rl_dynamic_types := types\<rparr>) \<and> extends ?l (?l\<lparr>rl_dynamic_types := types\<rparr>)"
        by (rule types_wf_same [OF assms(1)]) (use t in simp_all)
      ultimately show thesis using no_memory [of "?l\<lparr>rl_dynamic_types := types\<rparr>"] by simp
    qed
  qed
qed

section \<open>The other operations\<close>

lemma types_wf_map:
  assumes "types_wf l" "rl_len l' = rl_len l" "length (rl_dynamic_types l') = length (rl_dynamic_types l)"
    "\<And>i. i < unat (rl_len l) \<Longrightarrow> lt_name (rl_dynamic_types l' ! i) = lt_name (rl_dynamic_types l ! i) \<and>
       lt_loglevel (rl_dynamic_types l' ! i) \<le> RTE_LOG_DEBUG"
  shows "types_wf l'" "extends l l'"
proof -
  have id: "log_id l' name i = log_id l name i" for name i
    using assms(2,4) by (auto simp: log_id_def)
  show "types_wf l'" "extends l l'"
    using assms unfolding types_wf_def extends_def id by simp_all
qed

lemma set_level_wf:
  assumes "types_wf (lg_logs s)"
  shows "\<exists>l r. rte_log_set_level t level s = ret (s\<lparr>lg_logs := l\<rparr>, r) \<and> types_wf l \<and> extends (lg_logs s) l \<and>
    rl_len l = rl_len (lg_logs s)"
proof (cases "ucast t \<ge> rl_len (lg_logs s) \<or> level > RTE_LOG_DEBUG")
  case True
  then have "\<exists>r. rte_log_set_level t level s = ret (s, r)" by (auto simp: rte_log_set_level_def)
  then show ?thesis using assms by (metis (no_types, lifting) extends_refl log_state.surjective log_state.update_convs(1))
next
  case False
  let ?l = "lg_logs s"
  let ?t = "(rl_dynamic_types ?l ! unat t)\<lparr>lt_loglevel := level\<rparr>"
  let ?l' = "?l\<lparr>rl_dynamic_types := (rl_dynamic_types ?l)[unat t := ?t]\<rparr>"
  have t: "unat t < unat (rl_len ?l)" using False by (simp add: word_less_nat_alt not_le unat_ucast64)
  then have b: "unat t < length (rl_dynamic_types ?l)" using assms by (simp add: types_wf_def)
  have "rte_log_set_level t level s = ret (s\<lparr>lg_logs := ?l'\<rparr>, 0)"
    using False b by (simp add: rte_log_set_level_def log_entry_def set_log_entry_def not_le not_less)
  moreover have "types_wf ?l'" "extends ?l ?l'"
    by (rule types_wf_map [OF assms(1)]; use False b assms in \<open>simp add: nth_list_update types_wf_def not_less\<close>)+
  ultimately show ?thesis by (intro exI [of _ ?l']) simp
qed

lemma set_level_regexp_wf:
  assumes "types_wf (lg_logs s)"
  shows "\<exists>l r. rte_log_set_level_regexp re pat level s = ret (s\<lparr>lg_logs := l\<rparr>, r) \<and> types_wf l \<and> extends (lg_logs s) l \<and>
    rl_len l = rl_len (lg_logs s)"
proof (cases "level > RTE_LOG_DEBUG \<or> re pat = None")
  case True
  then have "\<exists>r. rte_log_set_level_regexp re pat level s = ret (s, r)"
    by (auto simp: rte_log_set_level_regexp_def Let_def)
  then show ?thesis using assms by (metis (no_types, lifting) extends_refl log_state.surjective log_state.update_convs(1))
next
  case False
  then obtain r where r: "re pat = Some r" by blast
  let ?l = "lg_logs s" and ?n = "unat (rl_len (lg_logs s))"
  let ?l' = "?l\<lparr>rl_dynamic_types := map (set_if_match r level) (take ?n (rl_dynamic_types ?l)) @ drop ?n (rl_dynamic_types ?l)\<rparr>"
  have "rte_log_set_level_regexp re pat level s = ret (s\<lparr>lg_logs := ?l'\<rparr>, 0)"
    using False r assms by (simp add: rte_log_set_level_regexp_def types_wf_def Let_def)
  moreover have m: "lt_name (set_if_match r level t) = lt_name t" for t
    by (simp add: set_if_match_def split: option.split)
  moreover have lv: "lt_loglevel t \<le> RTE_LOG_DEBUG \<Longrightarrow> lt_loglevel (set_if_match r level t) \<le> RTE_LOG_DEBUG" for t
    using False by (simp add: set_if_match_def not_less split: option.split)
  moreover have "types_wf ?l'" "extends ?l ?l'"
    by (rule types_wf_map [OF assms(1)]; use assms in \<open>simp add: nth_append types_wf_def m lv\<close>)+
  ultimately show ?thesis by (intro exI [of _ ?l']) simp
qed

section \<open>Initialisation\<close>

lemma register_legacy_spec:
  assumes "\<forall>(i, name) \<in> set ts. unat i < length (rl_dynamic_types l) \<and> unat i < 2 ^ 31"
  shows "\<exists>xs. register_legacy dups ts l = ret (l\<lparr>rl_dynamic_types := xs\<rparr>) \<and> length xs = length (rl_dynamic_types l) \<and>
    (\<forall>k < length xs. xs ! k = rl_dynamic_types l ! k \<or>
       (\<exists>i name. (i, name) \<in> set ts \<and> unat i = k \<and> xs ! k = \<lparr>lt_name = Some name, lt_loglevel = RTE_LOG_INFO\<rparr>))"
  using assms
proof (induction ts arbitrary: l)
  case (Cons t ts)
  obtain i name where t: "t = (i, name)" by (rule prod.exhaust)
  have i: "unat i < length (rl_dynamic_types l)" "sint i = int (unat i)"
    using Cons.prems t int_of_id [of "unat i"] by auto
  define l1 where "l1 = (if dups i then l\<lparr>rl_dynamic_types := (rl_dynamic_types l)[unat i := \<lparr>lt_name = Some name, lt_loglevel = RTE_LOG_INFO\<rparr>]\<rparr> else l)"
  have step: "register_legacy dups (t # ts) l = register_legacy dups ts l1"
    using i by (simp add: t do_rte_log_register_def set_log_entry_def l1_def)
  have len: "length (rl_dynamic_types l1) = length (rl_dynamic_types l)" by (simp add: l1_def)
  have "\<forall>(i, name) \<in> set ts. unat i < length (rl_dynamic_types l1) \<and> unat i < 2 ^ 31"
    using Cons.prems len by auto
  from Cons.IH [OF this] obtain xs where xs: "register_legacy dups ts l1 = ret (l1\<lparr>rl_dynamic_types := xs\<rparr>)"
    "length xs = length (rl_dynamic_types l1)"
    "\<forall>k < length xs. xs ! k = rl_dynamic_types l1 ! k \<or>
       (\<exists>i name. (i, name) \<in> set ts \<and> unat i = k \<and> xs ! k = \<lparr>lt_name = Some name, lt_loglevel = RTE_LOG_INFO\<rparr>)" by blast
  have "l1\<lparr>rl_dynamic_types := xs\<rparr> = l\<lparr>rl_dynamic_types := xs\<rparr>" by (simp add: l1_def)
  moreover have "rl_dynamic_types l1 ! k = rl_dynamic_types l ! k \<or>
      unat i = k \<and> rl_dynamic_types l1 ! k = \<lparr>lt_name = Some name, lt_loglevel = RTE_LOG_INFO\<rparr>" for k
    using i(1) by (cases "unat i = k") (simp_all add: l1_def)
  ultimately show ?case
    using step xs len t by (intro exI [of _ xs]) (simp, metis)
qed (simp, metis rte_logs.surjective rte_logs.update_convs(5))

lemma logtype_strings_ok:
  "\<forall>(i, name) \<in> set logtype_strings. unat i < RTE_LOGTYPE_FIRST_EXT_ID" "distinct (map snd logtype_strings)"
  by (simp_all add: logtype_strings_def RTE_LOGTYPE_FIRST_EXT_ID_def)

lemma log_init_wf:
  "\<exists>l. rte_log_init mem dups s = ret (s\<lparr>lg_logs := l\<rparr>) \<and> (rl_len (lg_logs s) = 0 \<longrightarrow> types_wf l \<and> unat (rl_len l) \<le> 32)"
proof (cases mem)
  case False
  then show ?thesis
    by (auto simp: rte_log_init_def rte_log_set_global_level_def types_wf_def log_id_def Let_def)
next
  case True
  let ?l = "(rl_level_update (\<lambda>_. RTE_LOG_DEBUG) (lg_logs s))\<lparr>rl_dynamic_types :=
               replicate RTE_LOGTYPE_FIRST_EXT_ID \<lparr>lt_name = None, lt_loglevel = 0\<rparr>\<rparr>"
  have "\<forall>(i, name) \<in> set logtype_strings. unat i < length (rl_dynamic_types ?l) \<and> unat i < 2 ^ 31"
    using logtype_strings_ok(1) by (fastforce simp: RTE_LOGTYPE_FIRST_EXT_ID_def)
  from register_legacy_spec [OF this, of dups] obtain xs where
    xs: "register_legacy dups logtype_strings ?l = ret (?l\<lparr>rl_dynamic_types := xs\<rparr>)" "length xs = 32"
      "\<forall>k < length xs. xs ! k = \<lparr>lt_name = None, lt_loglevel = 0\<rparr> \<or> (\<exists>i name. (i, name) \<in> set logtype_strings \<and> unat i = k \<and>
         xs ! k = \<lparr>lt_name = Some name, lt_loglevel = RTE_LOG_INFO\<rparr>)"
    by (auto simp: RTE_LOGTYPE_FIRST_EXT_ID_def)
  define l where "l = ?l\<lparr>rl_dynamic_types := xs, rl_len := 32\<rparr>"
  have id: "\<exists>i. (i, name) \<in> set logtype_strings \<and> unat i = k" if "log_id l name k" for name k
    using that xs by (fastforce simp: l_def log_id_def)
  have "types_wf l"
    unfolding types_wf_def
  proof (intro conjI allI impI)
    show "lt_loglevel (rl_dynamic_types l ! k) \<le> RTE_LOG_DEBUG" if "k < unat (rl_len l)" for k
      using that xs by (fastforce simp: l_def)
    show "i = j" if "log_id l name i \<and> log_id l name j" for name i j
      using that id [of name] logtype_strings_ok(2) by (metis distinct_map inj_on_eq_iff prod.inject snd_conv)
  qed (use xs(2) in \<open>simp add: l_def\<close>)
  moreover have "rte_log_init mem dups s = ret (s\<lparr>lg_logs := l\<rparr>)"
    using True xs(1) by (simp add: rte_log_init_def rte_log_set_global_level_def Let_def l_def RTE_LOGTYPE_FIRST_EXT_ID_def)
  ultimately show ?thesis by (intro exI [of _ l]) (simp add: l_def)
qed

section \<open>Messages\<close>

text \<open>A message is printed, and remembered for its core, exactly if its level passes the global level and the one of its type.\<close>

lemma vlog_cases:
  assumes "types_wf (lg_logs s)"
  shows "\<exists>s' r. rte_vlog stderr print lcore level t text s = ret (s', r) \<and> lg_logs s' = lg_logs s \<and>
    (if level \<le> rl_level (lg_logs s) \<and> unat t < unat (rl_len (lg_logs s)) \<and> level \<le> lt_loglevel (rl_dynamic_types (lg_logs s) ! unat t)
     then \<exists>f. lg_printed s' = lg_printed s @ [(f, text)] \<and> r = print f text \<and>
       lg_cur_msg s' lcore = \<lparr>cm_loglevel = level, cm_logtype = t\<rparr>
     else s' = s \<and> (r = 0 \<or> r = - 1))"
proof -
  have "unat t < length (rl_dynamic_types (lg_logs s))" if "unat t < unat (rl_len (lg_logs s))"
    using that assms by (simp add: types_wf_def)
  then show ?thesis
    by (auto simp: rte_vlog_def Let_def log_entry_def not_le not_less word_less_nat_alt word_le_nat_alt unat_ucast64)
qed

section \<open>Any sequence of operations\<close>

datatype log_op =
    Register "rte_log_dynamic_type option" bool string
  | Set_Level u32 u32
  | Set_Regexp string u32
  | Set_Global u32
  | Open_Stream nat
  | Message nat u32 u32 string

fun log_do :: "(string \<Rightarrow> (string \<Rightarrow> bool) option) \<Rightarrow> nat \<Rightarrow> (nat \<Rightarrow> string \<Rightarrow> int) \<Rightarrow> log_op \<Rightarrow> log_state \<Rightarrow> (log_state \<times> int) res" where
  "log_do re stderr print (Register mem dup name) s = rte_log_register mem dup name s"
| "log_do re stderr print (Set_Level t level) s = rte_log_set_level t level s"
| "log_do re stderr print (Set_Regexp pat level) s = rte_log_set_level_regexp re pat level s"
| "log_do re stderr print (Set_Global level) s = ret (rte_log_set_global_level level s, 0)"
| "log_do re stderr print (Open_Stream f) s = ret (rte_openlog_stream f s)"
| "log_do re stderr print (Message lcore level t text) s = rte_log stderr print lcore level t text s"

fun log_run :: "(string \<Rightarrow> (string \<Rightarrow> bool) option) \<Rightarrow> nat \<Rightarrow> (nat \<Rightarrow> string \<Rightarrow> int) \<Rightarrow> log_op list \<Rightarrow> log_state \<Rightarrow>
    (log_state \<times> int list) res" where
  "log_run re stderr print [] s = ret (s, [])"
| "log_run re stderr print (op # ops) s = res_bind (log_do re stderr print op s) (\<lambda>(s, r).
     res_bind (log_run re stderr print ops s) (\<lambda>(s, rs). ret (s, r # rs)))"

text \<open>What the answer to an operation promises about the table.\<close>

definition answer_ok :: "rte_logs \<Rightarrow> log_op \<Rightarrow> int \<Rightarrow> bool" where
  "answer_ok l op r \<longleftrightarrow> (\<forall>mem dup name. op = Register mem dup name \<longrightarrow> r = - ENOMEM \<or> (\<exists>k. r = int k \<and> log_id l name k))"

lemma answer_ok_extends: "answer_ok l op r \<Longrightarrow> extends l l' \<Longrightarrow> answer_ok l' op r"
  by (cases op) (auto simp: answer_ok_def extends_def)

lemma log_do_wf:
  assumes "types_wf (lg_logs s)" "unat (rl_len (lg_logs s)) < 2 ^ 31"
  shows "\<exists>s' r. log_do re stderr print op s = ret (s', r) \<and> types_wf (lg_logs s') \<and> extends (lg_logs s) (lg_logs s') \<and>
    unat (rl_len (lg_logs s')) \<le> Suc (unat (rl_len (lg_logs s))) \<and> answer_ok (lg_logs s') op r"
proof (cases op)
  case (Register mem dup name)
  show ?thesis
    by (rule register_cases [OF assms, of mem dup name]) (use Register assms in \<open>auto simp: answer_ok_def\<close>)
next
  case (Set_Level t level)
  then show ?thesis using set_level_wf [OF assms(1), of t level] by (fastforce simp: answer_ok_def)
next
  case (Set_Regexp pat level)
  then show ?thesis using set_level_regexp_wf [OF assms(1), of re pat level] by (fastforce simp: answer_ok_def)
next
  case (Set_Global level)
  then show ?thesis using types_wf_same [OF assms(1), of "(lg_logs s)\<lparr>rl_level := level\<rparr>"] assms(1)
    by (simp add: rte_log_set_global_level_def answer_ok_def types_wf_def)
next
  case (Open_Stream f)
  then show ?thesis using types_wf_same [OF assms(1), of "(lg_logs s)\<lparr>rl_file := f\<rparr>"] assms(1)
    by (simp add: rte_openlog_stream_def answer_ok_def types_wf_def)
next
  case (Message lcore level t msg)
  then show ?thesis using vlog_cases [OF assms(1), of stderr print lcore level t msg] assms
    by (fastforce simp: rte_log_def answer_ok_def)
qed

lemma log_run_wf:
  assumes "types_wf (lg_logs s)" "unat (rl_len (lg_logs s)) + length ops < 2 ^ 31"
  shows "\<exists>s' rs. log_run re stderr print ops s = ret (s', rs) \<and> types_wf (lg_logs s') \<and> extends (lg_logs s) (lg_logs s') \<and>
    list_all2 (answer_ok (lg_logs s')) ops rs"
  using assms
proof (induction ops arbitrary: s)
  case (Cons op ops)
  have "unat (rl_len (lg_logs s)) < 2 ^ 31" using Cons.prems(2) by simp
  from log_do_wf [OF Cons.prems(1) this] obtain s1 r where 1: "log_do re stderr print op s = ret (s1, r)"
    "types_wf (lg_logs s1)" "extends (lg_logs s) (lg_logs s1)"
    "unat (rl_len (lg_logs s1)) \<le> Suc (unat (rl_len (lg_logs s)))" "answer_ok (lg_logs s1) op r" by blast
  have "unat (rl_len (lg_logs s1)) + length ops < 2 ^ 31" using 1(4) Cons.prems(2) by simp
  from Cons.IH [OF 1(2) this] obtain s' rs where 2: "log_run re stderr print ops s1 = ret (s', rs)"
    "types_wf (lg_logs s')" "extends (lg_logs s1) (lg_logs s')" "list_all2 (answer_ok (lg_logs s')) ops rs" by blast
  show ?case using 1 2 extends_trans [OF 1(3) 2(3)] answer_ok_extends [OF 1(5) 2(3)] by simp
qed simp

text \<open>
  C22. After \<^verbatim>\<open>rte_log_init\<close>, whatever allocations fail, any sequence of calls returns without a fault and
  leaves a well-formed table. Every registration reports \<^verbatim>\<open>ENOMEM\<close> or an identifier which is the one of its
  name to the end, so that two registrations get the same identifier exactly if they are of the same name.
\<close>

theorem log_run_registry:
  assumes "lg_logs s0 = rte_logs_start" "length ops < 2 ^ 31 - 32"
  shows "\<exists>s s' rs. rte_log_init mem dups s0 = ret s \<and> log_run re stderr print ops s = ret (s', rs) \<and>
    types_wf (lg_logs s') \<and> list_all2 (answer_ok (lg_logs s')) ops rs \<and>
    (\<forall>i j m d name m' d' name'. i < length ops \<and> j < length ops \<and> ops ! i = Register m d name \<and> ops ! j = Register m' d' name' \<and>
       rs ! i \<noteq> - ENOMEM \<and> rs ! j \<noteq> - ENOMEM \<longrightarrow> (rs ! i = rs ! j \<longleftrightarrow> name = name'))"
proof -
  obtain l where l: "rte_log_init mem dups s0 = ret (s0\<lparr>lg_logs := l\<rparr>)" "types_wf l" "unat (rl_len l) \<le> 32"
    using log_init_wf [of mem dups s0] assms(1) by (auto simp: rte_logs_start_def)
  have "unat (rl_len l) + length ops < 2 ^ 31" using l(3) assms(2) by simp
  with log_run_wf [of "s0\<lparr>lg_logs := l\<rparr>" ops re stderr print] l(2) obtain s' rs where
    r: "log_run re stderr print ops (s0\<lparr>lg_logs := l\<rparr>) = ret (s', rs)" "types_wf (lg_logs s')"
      "list_all2 (answer_ok (lg_logs s')) ops rs" by auto
  have id: "\<exists>k. rs ! i = int k \<and> log_id (lg_logs s') name k"
    if ok: "i < length ops" "ops ! i = Register m d name" "rs ! i \<noteq> - ENOMEM" for i m d name
    using list_all2_nthD [OF r(3) ok(1)] ok(2,3) by (auto simp: answer_ok_def)
  have same: "rs ! i = rs ! j \<longleftrightarrow> name = name'"
    if ij: "i < length ops" "j < length ops" "ops ! i = Register m d name" "ops ! j = Register m' d' name'"
      "rs ! i \<noteq> - ENOMEM" "rs ! j \<noteq> - ENOMEM" for i j m d name m' d' name'
  proof -
    obtain k k' where k: "rs ! i = int k" "log_id (lg_logs s') name k" "rs ! j = int k'" "log_id (lg_logs s') name' k'"
      using id [OF ij(1,3,5)] id [OF ij(2,4,6)] by blast
    have "k = k' \<longleftrightarrow> name = name'"
      using k(2,4) log_id_unique [OF r(2)] unfolding log_id_def by auto
    then show ?thesis using k(1,3) by simp
  qed
  show ?thesis using l(1) r same by blast
qed

text \<open>The start, and two registrations: of a type the table has, and of a new one.\<close>

definition log_demo_start :: log_state where
  "log_demo_start = \<lparr>lg_logs = rte_logs_start, lg_default_stream = 0, lg_cur_msg = (\<lambda>_. \<lparr>cm_loglevel = 0, cm_logtype = 0\<rparr>),
     lg_printed = [], lg_stdout = [], lg_syslog = [], lg_openlog = None\<rparr>"

theorem log_run_registry_witness:
  "\<exists>s s' a b. rte_log_init True (\<lambda>_. True) log_demo_start = ret s \<and>
     log_run (\<lambda>_. None) 2 (\<lambda>_ _. 0) [Register None True ''pmd'', Register None True ''user.demo''] s = ret (s', [a, b]) \<and>
     types_wf (lg_logs s') \<and> (a = - ENOMEM \<or> (\<exists>k. a = int k \<and> log_id (lg_logs s') ''pmd'' k))"
  using log_run_registry [of log_demo_start "[Register None True ''pmd'', Register None True ''user.demo'']" True "\<lambda>_. True"
    "\<lambda>_. None" 2 "\<lambda>_ _. 0"]
  by (auto simp: log_demo_start_def answer_ok_def list_all2_Cons1)

end
