(* ===== verification/Hugepage_Info_Correct.thy ===== *)
theory Hugepage_Info_Correct
  imports Demo_System Hugepage_Props Cstring_Correct "HOL-Library.Sublist" "HOL-Library.Multiset"
begin

text \<open>
  What the discovery of huge pages finds: every entry belongs to a directory of the kernel and to a mount of that
  size, the entries are ordered by size, and the table is one that \<^verbatim>\<open>rte_eal_hugepage_init\<close> can work on.
\<close>

lemma res_bind_ret: "res_bind x f = ret y \<longleftrightarrow> (\<exists>a. x = ret a \<and> f a = ret y)"
  by (simp add: res_bind_def split: option.splits sum.splits)

section \<open>Mounts\<close>

definition mount_fits :: "string option \<Rightarrow> u64 \<Rightarrow> u64 \<Rightarrow> string \<Rightarrow> string \<Rightarrow> bool" where
  "mount_fits huge_dir sz default_size line dir \<longleftrightarrow>
     (let (buf, toks, n) = rte_strsplit (Some line) (int BUFSIZ) 4 CHR '' '' in
      n = 4 \<and> dir = token_at buf (toks ! 1) \<and> (huge_dir = None \<or> huge_dir = Some dir) \<and>
      strneq 9 (token_at buf (toks ! 2)) ''hugetlbfs'' \<and>
      (case strstr (token_at buf (toks ! 3)) ''pagesize='' of None \<Rightarrow> sz = default_size
       | Some t \<Rightarrow> rte_str_to_size (drop 9 t) = sz))"

lemma mounts_loop_fits:
  "mounts_loop dup huge_dir sz default_size lines = Some dir \<Longrightarrow> \<exists>line \<in> set lines. mount_fits huge_dir sz default_size line dir"
proof (induction lines)
  case (Cons line lines)
  obtain buf toks n where sp: "rte_strsplit (Some line) (int BUFSIZ) 4 CHR '' '' = (buf, toks, n)" by (metis prod.exhaust)
  show ?case
  proof (cases "mounts_loop dup huge_dir sz default_size lines = Some dir")
    case False
    then have "mount_fits huge_dir sz default_size line dir"
      using Cons.prems unfolding mount_fits_def sp
      by (auto simp: sp Let_def split: if_splits option.splits)
    then show ?thesis by simp
  qed (use Cons.IH in auto)
qed simp

text \<open>The page size of mounts without the option.\<close>

definition default_ok :: "'os sys \<Rightarrow> u64 \<Rightarrow> bool" where
  "default_ok sys ds \<longleftrightarrow> ds = 0 \<or> (\<exists>os. get_default_hp_size sys os = ret ds)"

text \<open>The free pages that the kernel reports without the reserved ones; none if it does not report them.\<close>

definition pages_reported :: "'os sys \<Rightarrow> string \<Rightarrow> 'os \<Rightarrow> nat" where
  "pages_reported sys name os =
     (let value = (\<lambda>file. eal_parse_sysfs_value sys (fst (snprintf_str PATH_MAX (sys_dir_path @ ''/'' @ name @ ''/'' @ file))) os)
      in case (value ''resv_hugepages'', value ''free_hugepages'') of
           (Some resv, Some free) \<Rightarrow> min (2 ^ 32 - 1) (unat free - unat resv) | _ \<Rightarrow> 0)"

lemma num_hugepages: "unat (get_num_hugepages sys name os) = pages_reported sys name os"
proof -
  have "unat (ucast (if n > 0xFFFFFFFF then 0xFFFFFFFF else n :: u64) :: u32) = min (2 ^ 32 - 1) (unat n)" for n
  proof (cases "n > 0xFFFFFFFF")
    case False
    then have "unat n \<le> 0xFFFFFFFF" by (simp add: not_less word_le_nat_alt)
    then show ?thesis using False by (simp add: unsigned_ucast_eq take_bit_nat_eq_self)
  qed (simp add: word_less_nat_alt)
  moreover have "unat (if n \<ge> m then n - m else if m \<noteq> 0 then 0 else n) = unat n - unat m" for n m :: u64
    by (auto simp: unat_sub word_le_nat_alt)
  ultimately show ?thesis
    by (simp add: get_num_hugepages_def pages_reported_def Let_def split: option.splits)
qed

text \<open>An entry of the table that belongs to the directory \<open>name\<close> of the kernel.\<close>

definition found_in :: "'os sys \<Rightarrow> string option \<Rightarrow> string \<Rightarrow> hugepage_info \<Rightarrow> bool" where
  "found_in sys huge_dir name h \<longleftrightarrow> strneq 10 name ''hugepages-'' \<and> hi_hugepage_sz h = rte_str_to_size (drop 10 name) \<and>
     (\<exists>dir os lines line ds. hi_hugedir h = Some dir \<and> sys_lines sys os ''/proc/mounts'' = Some lines \<and> line \<in> set lines \<and>
        default_ok sys ds \<and> mount_fits huge_dir (hi_hugepage_sz h) ds line dir) \<and>
     (\<exists>os. unat (hi_num_pages h ! 0) = pages_reported sys name os)"

lemma hugepage_dir_fits:
  assumes "get_hugepage_dir sys sz ds s = ret (ds', dir)" "default_ok sys ds"
  shows "default_ok sys ds'"
    "\<forall>d. dir = Some d \<longrightarrow> (\<exists>lines line. sys_lines sys (h_os s) ''/proc/mounts'' = Some lines \<and> line \<in> set lines \<and>
       mount_fits (ic_hugepage_dir (h_ic s)) sz ds' line d)"
  using assms mounts_loop_fits
  by (fastforce simp: get_hugepage_dir_def default_ok_def res_bind_def split: option.splits sum.splits if_splits)+

section \<open>What the loop leaves alone\<close>

text \<open>The calls that the discovery makes.\<close>

definition quiet_files :: "'os sys \<Rightarrow> ('os \<Rightarrow> region set) \<Rightarrow> bool" where
  "quiet_files sys regs \<longleftrightarrow> (\<forall>p fl. quiet regs (snd \<circ> sys_open sys p fl)) \<and> (\<forall>fd. quiet regs (sys_close sys fd)) \<and>
     (\<forall>fd opn. quiet regs (snd \<circ> sys_flock sys fd opn)) \<and> (\<forall>p. quiet regs (snd \<circ> sys_unlink sys p))"

lemma quiet_files_kernel: "kernel_laws sys regs \<Longrightarrow> quiet_files sys regs"
  by (simp add: quiet_files_def kernel_quiet)

lemma quiet_files_none: "quiet_files sys (\<lambda>_. {})"
  by (simp add: quiet_files_def quiet_def)

lemma clear_files_keeps:
  assumes "quiet_files sys regs"
  shows "keeps regs s (clear_files sys dir names s)"
proof (induction names arbitrary: s)
  case (Cons name names)
  obtain fd s1 where 1: "os_call (sys_open sys (dir @ ''/'' @ name) O_RDONLY) s = (fd, s1)" by (rule prod.exhaust)
  obtain lck s2 where 2: "os_call (sys_flock sys fd LOCK_EX_NB) s1 = (lck, s2)" by (rule prod.exhaust)
  obtain a s3 where 3: "os_call (sys_flock sys fd LOCK_UN) s2 = (a, s3)" by (rule prod.exhaust)
  obtain b s4 where 4: "os_call (sys_unlink sys (dir @ ''/'' @ name)) s3 = (b, s4)" by (rule prod.exhaust)
  note k = keeps_call [OF _ 1] keeps_call [OF _ 2] keeps_call [OF _ 3] keeps_call [OF _ 4]
  have k: "keeps regs s s1" "keeps regs s s2" "keeps regs s s4"
    using k assms unfolding quiet_files_def by (meson keeps_trans)+
  have c: "keeps regs t (os_do (sys_close sys fd) t)" for t
    using assms by (intro keeps_do) (simp add: quiet_files_def)
  define t where "t = os_do (sys_close sys fd) (if lck \<noteq> -1 then s4 else s2)"
  have "keeps regs s t" unfolding t_def using k c by (simp split: if_split) (meson keeps_trans)
  moreover have "clear_files sys dir (name # names) s =
      (if \<not> hugepage_file_name name then clear_files sys dir names s
       else if fd = -1 then clear_files sys dir names s1 else clear_files sys dir names t)"
    using 1 2 3 4 by (simp add: t_def)
  ultimately show ?case using Cons.IH k(1) keeps_trans by metis
qed simp

lemma clear_hugedir_keeps:
  "quiet_files sys regs \<Longrightarrow> clear_hugedir sys dir s = (r, s') \<Longrightarrow> keeps regs s s'"
  using clear_files_keeps [of sys regs s dir] by (auto simp: clear_hugedir_def split: option.splits if_splits)

text \<open>Mappings and segments stay, the configuration changes in its table of sizes only.\<close>

definition keeps_but_sizes :: "('os \<Rightarrow> region set) \<Rightarrow> 'os hst \<Rightarrow> 'os hst \<Rightarrow> bool" where
  "keeps_but_sizes regs s s' \<longleftrightarrow> regs (h_os s) \<subseteq> regs (h_os s') \<and> h_memseg s' = h_memseg s \<and>
     h_ic s' = (h_ic s)\<lparr>ic_hugepage_info := ic_hugepage_info (h_ic s')\<rparr>"

lemma keeps_but_sizes_refl: "keeps_but_sizes regs s s"
  by (simp add: keeps_but_sizes_def)

lemma keeps_but_sizes_trans:
  "keeps_but_sizes regs s s' \<Longrightarrow> keeps_but_sizes regs s' s'' \<Longrightarrow> keeps_but_sizes regs s s''"
  unfolding keeps_but_sizes_def
  by (metis (no_types, lifting) internal_config.update_convs(14) internal_config.surjective order_trans)

lemma keeps_but_sizesI: "keeps regs s s' \<Longrightarrow> keeps_but_sizes regs s s'"
  by (simp add: keeps_def keeps_but_sizes_def)

lemma upd_hpi_keeps: "keeps_but_sizes regs s (upd_hpi i f s)"
  by (simp add: keeps_but_sizes_def upd_hpi_def)

section \<open>The loop\<close>

text \<open>The table at a certain moment: the entries found so far belong to directories among those seen.\<close>

definition table_ok :: "'os sys \<Rightarrow> string list \<Rightarrow> nat \<Rightarrow> internal_config \<Rightarrow> bool" where
  "table_ok sys seen n ic \<longleftrightarrow> n \<le> MAX_HUGEPAGE_SIZES \<and> length (ic_hugepage_info ic) = MAX_HUGEPAGE_SIZES \<and>
     (\<forall>h \<in> set (ic_hugepage_info ic). length (hi_num_pages h) = RTE_MAX_NUMA_NODES) \<and>
     (\<exists>names. subseq names seen \<and> list_all2 (found_in sys (ic_hugepage_dir ic)) names (take n (ic_hugepage_info ic)))"

lemma table_ok_more: "table_ok sys seen n ic \<Longrightarrow> table_ok sys (seen @ names) n ic"
  unfolding table_ok_def using subseq_rev_drop_many by blast

lemma table_ok_add:
  assumes "table_ok sys seen n ic" "n < MAX_HUGEPAGE_SIZES" "found_in sys (ic_hugepage_dir ic) name h"
    "length (hi_num_pages h) = RTE_MAX_NUMA_NODES"
    "ic' = ic\<lparr>ic_hugepage_info := (ic_hugepage_info ic)[n := h]\<rparr>"
  shows "table_ok sys (seen @ [name]) (Suc n) ic'"
proof -
  let ?info = "ic_hugepage_info ic"
  obtain names where n: "subseq names seen" "list_all2 (found_in sys (ic_hugepage_dir ic)) names (take n ?info)"
    using assms(1) by (auto simp: table_ok_def)
  have len: "n < length ?info" using assms(1,2) by (simp add: table_ok_def)
  have "subseq (names @ [name]) (seen @ [name])" using n(1) by simp
  moreover have "take (Suc n) (?info[n := h]) = take n ?info @ [h]"
    using len by (simp add: take_Suc_conv_app_nth)
  then have "list_all2 (found_in sys (ic_hugepage_dir ic)) (names @ [name]) (take (Suc n) (?info[n := h]))"
    using n(2) assms(3) list_all2_lengthD [OF n(2)] by (simp add: list_all2_append)
  ultimately show ?thesis
    using assms(1,2,4) set_update_subset_insert [of ?info n h] unfolding assms(5) table_ok_def
    by (intro conjI exI [of _ "names @ [name]"]) auto
qed

text \<open>Changing an entry beyond those found.\<close>

lemma table_ok_upd:
  assumes "table_ok sys seen n ic" "ic' = ic\<lparr>ic_hugepage_info := (ic_hugepage_info ic)[n := h]\<rparr>"
    "length (hi_num_pages h) = RTE_MAX_NUMA_NODES"
  shows "table_ok sys seen n ic'"
  using assms set_update_subset_insert [of "ic_hugepage_info ic" n h] unfolding table_ok_def by auto

lemma upd_hpi_fields [simp]:
  "h_ic (upd_hpi i f s) = (h_ic s)\<lparr>ic_hugepage_info := (ic_hugepage_info (h_ic s))[i := f (ic_hugepage_info (h_ic s) ! i)]\<rparr>"
  "h_os (upd_hpi i f s) = h_os s" "h_memseg (upd_hpi i f s) = h_memseg s"
  by (simp_all add: upd_hpi_def)

lemma info_step_cases:
  assumes "info_step sys name n ds s = ret (r, ds', s')" "default_ok sys ds" "strneq 10 name ''hugepages-''"
    "table_ok sys seen n (h_ic s)" "n < MAX_HUGEPAGE_SIZES" "quiet_files sys regs"
  shows "default_ok sys ds'" "keeps_but_sizes regs s s'"
    "case r of None \<Rightarrow> True | Some k \<Rightarrow> table_ok sys (seen @ [name]) k (h_ic s')"
proof -
  define sz where "sz = rte_str_to_size (drop 10 name)"
  define s1 where "s1 = upd_hpi n (hi_hugepage_sz_update (\<lambda>_. sz)) s"
  define rest where "rest dir = (let s2 = upd_hpi n (hi_hugedir_update (\<lambda>_. dir)) s1 in
       case dir of None \<Rightarrow> (Some n, s2) | Some d \<Rightarrow> info_mounted sys name d n s2)" for dir
  have "info_step sys name n ds s = res_bind (get_hugepage_dir sys sz ds s1) (\<lambda>(a, dir). let (k, t) = rest dir in ret (k, a, t))"
    by (simp add: info_step_def sz_def s1_def rest_def Let_def)
  with assms(1) have "res_bind (get_hugepage_dir sys sz ds s1) (\<lambda>(a, dir). let (k, t) = rest dir in ret (k, a, t)) = ret (r, ds', s')"
    by simp
  then obtain a dir where 1: "get_hugepage_dir sys sz ds s1 = ret (a, dir)" "(let (k, t) = rest dir in ret (k, a, t)) = ret (r, ds', s')"
    unfolding res_bind_ret by fastforce
  then have gd: "get_hugepage_dir sys sz ds s1 = ret (ds', dir)" and st: "(r, s') = rest dir"
    by (cases "rest dir"; simp)+
  note st = st [unfolded rest_def]
  note fits = hugepage_dir_fits [OF gd assms(2)]
  show "default_ok sys ds'" by (rule fits(1))
  have len: "length (ic_hugepage_info (h_ic s)) = MAX_HUGEPAGE_SIZES"
    "length (hi_num_pages (ic_hugepage_info (h_ic s) ! n)) = RTE_MAX_NUMA_NODES"
    using assms(4,5) by (auto simp: table_ok_def)
  let ?h = "ic_hugepage_info (h_ic s) ! n"
  define s2 where "s2 = upd_hpi n (hi_hugedir_update (\<lambda>_. dir)) s1"
  have st: "(r, s') = (case dir of None \<Rightarrow> (Some n, s2) | Some d \<Rightarrow> info_mounted sys name d n s2)"
    unfolding st s2_def by (simp only: Let_def)
  have k2: "keeps_but_sizes regs s s2" unfolding s2_def s1_def by (blast intro: keeps_but_sizes_trans upd_hpi_keeps)
  have ic2: "h_ic s2 = (h_ic s)\<lparr>ic_hugepage_info := (ic_hugepage_info (h_ic s))[n := ?h\<lparr>hi_hugepage_sz := sz, hi_hugedir := dir\<rparr>]\<rparr>"
    using len(1) assms(5) by (simp add: s2_def s1_def)
  have "keeps_but_sizes regs s s' \<and> (case r of None \<Rightarrow> True | Some k \<Rightarrow> table_ok sys (seen @ [name]) k (h_ic s'))"
  proof (cases dir)
    case None
    then have "r = Some n" "s' = s2"
      using st by simp_all
    moreover have "table_ok sys (seen @ [name]) n (h_ic s2)"
      by (rule table_ok_more, rule table_ok_upd [OF assms(4) ic2]) (simp add: len(2))
    ultimately show ?thesis using k2 by simp
  next
    case (Some d)
    obtain fd s3 where 3: "os_call (sys_open sys d O_RDONLY) s2 = (fd, s3)" by (rule prod.exhaust)
    define s4 where "s4 = upd_hpi n (hi_lock_descriptor_update (\<lambda>_. fd)) s3"
    obtain lck s5 where 5: "os_call (sys_flock sys fd LOCK_EX) s4 = (lck, s5)" by (rule prod.exhaust)
    obtain c s6 where 6: "clear_hugedir sys d s5 = (c, s6)" by (rule prod.exhaust)
    define s7 where "s7 = upd_hpi n (hi_num_pages_update (\<lambda>ns. ns[0 := get_num_hugepages sys name (h_os s6)])) s6"
    have st': "(r, s') = (if lck = -1 then (None, s5) else if c = -1 then (None, s6) else (Some (n + 1), s7))"
      using 3 5 [unfolded s4_def] 6 unfolding st by (simp add: Some info_mounted_def s7_def)
    have k: "keeps_but_sizes regs s2 s3" "keeps_but_sizes regs s4 s5" "keeps_but_sizes regs s5 s6"
      using keeps_call [OF _ 3] keeps_call [OF _ 5] clear_hugedir_keeps [OF assms(6) 6] assms(6)
      by (auto simp: quiet_files_def intro!: keeps_but_sizesI)
    have k': "keeps_but_sizes regs s s5" "keeps_but_sizes regs s s6" "keeps_but_sizes regs s s7"
      unfolding s7_def using k2 k upd_hpi_keeps [of regs s3 n, folded s4_def]
      by (metis keeps_but_sizes_trans s4_def upd_hpi_keeps)+
    have ic: "h_ic s3 = h_ic s2" "h_ic s5 = h_ic s4" "h_ic s6 = h_ic s5"
      using os_callD [OF 3] os_callD [OF 5] clear_hugedir_keeps [OF quiet_files_none 6] by (simp_all add: keeps_def)
    let ?h7 = "?h\<lparr>hi_hugepage_sz := sz, hi_hugedir := dir, hi_lock_descriptor := fd,
      hi_num_pages := (hi_num_pages ?h)[0 := get_num_hugepages sys name (h_os s6)]\<rparr>"
    have ic7: "h_ic s7 = (h_ic s)\<lparr>ic_hugepage_info := (ic_hugepage_info (h_ic s))[n := ?h7]\<rparr>"
      using len(1) assms(5) by (cases ?h) (simp add: s7_def s4_def ic ic2)
    have pages: "\<exists>os. unat (hi_num_pages ?h7 ! 0) = pages_reported sys name os"
      using len(2) by (intro exI [of _ "h_os s6"]) (simp add: num_hugepages RTE_MAX_NUMA_NODES_def)
    have "found_in sys (ic_hugepage_dir (h_ic s)) name ?h7"
      unfolding found_in_def
      by (intro conjI, use assms(3) in simp, use fits Some in \<open>fastforce simp: sz_def s1_def\<close>,
          use fits Some in \<open>fastforce simp: sz_def s1_def\<close>, rule pages)
    then have "table_ok sys (seen @ [name]) (Suc n) (h_ic s7)"
      by (rule table_ok_add [OF assms(4,5) _ _ ic7]) (simp add: len(2))
    then show ?thesis using st' k' by (auto split: if_splits)
  qed
  then show "keeps_but_sizes regs s s'" "case r of None \<Rightarrow> True | Some k \<Rightarrow> table_ok sys (seen @ [name]) k (h_ic s')" by blast+
qed

lemma info_loop_ok:
  assumes "info_loop sys names n ds s = ret (fin, k, ds', s')" "default_ok sys ds"
    "table_ok sys seen n (h_ic s)" "quiet_files sys regs"
  shows "default_ok sys ds' \<and> keeps_but_sizes regs s s' \<and> (fin \<longrightarrow> table_ok sys (seen @ filter (\<lambda>d. strneq 10 d ''hugepages-'') names) k (h_ic s'))"
  using assms(1-3)
proof (induction names arbitrary: seen n ds s)
  case Nil
  then show ?case by (simp add: keeps_but_sizes_refl)
next
  case (Cons name names)
  show ?case
  proof (cases "strneq 10 name ''hugepages-''")
    case False
    then have "info_loop sys names n ds s = ret (fin, k, ds', s')" using Cons.prems(1) by simp
    from Cons.IH [OF this Cons.prems(2,3)] False show ?thesis by simp
  next
    case huge: True
    show ?thesis
    proof (cases "n \<ge> MAX_HUGEPAGE_SIZES")
      case True
      then show ?thesis using huge Cons.prems by (simp add: keeps_but_sizes_refl)
    next
      case False
      then have n: "n < MAX_HUGEPAGE_SIZES" by simp
      obtain r ds1 s1 where 1: "info_step sys name n ds s = ret (r, ds1, s1)"
        using huge False Cons.prems(1) by (auto simp: res_bind_ret)
      note step = info_step_cases [OF 1 Cons.prems(2) huge Cons.prems(3) n assms(4)]
      show ?thesis
      proof (cases r)
        case None
        then show ?thesis using huge False Cons.prems(1) 1 step by simp
      next
        case (Some m)
        then have "info_loop sys names m ds1 s1 = ret (fin, k, ds', s')" "table_ok sys (seen @ [name]) m (h_ic s1)"
          using huge False Cons.prems(1) 1 step(3) by simp_all
        from Cons.IH [OF this(1) step(1) this(2)] show ?thesis
          using step(2) huge keeps_but_sizes_trans by auto
      qed
    qed
  qed
qed

section \<open>The order\<close>

text \<open>Sizes that differ by less than 2 GB compare as they should.\<close>

definition near :: "hugepage_info \<Rightarrow> hugepage_info \<Rightarrow> bool" where
  "near a b \<longleftrightarrow> \<bar>uint (hi_hugepage_sz a) - uint (hi_hugepage_sz b)\<bar> < 2 ^ 31"

lemma compare_near:
  assumes "near a b"
  shows "compare_hpi a b = uint (hi_hugepage_sz b) - uint (hi_hugepage_sz a)"
proof -
  let ?d = "uint (hi_hugepage_sz b) - uint (hi_hugepage_sz a)"
  have "uint (hi_hugepage_sz b - hi_hugepage_sz a) = take_bit 64 ?d" by (simp add: uint_word_ariths take_bit_eq_mod)
  then have "uint (ucast (hi_hugepage_sz b - hi_hugepage_sz a) :: u32) = take_bit 32 ?d" by (simp add: unsigned_ucast_eq)
  then have "compare_hpi a b = signed_take_bit 31 ?d" by (simp add: compare_hpi_def sint_uint signed_take_bit_take_bit)
  then show ?thesis using assms unfolding near_def abs_less_iff by (simp add: signed_take_bit_int_eq_self_iff)
qed

lemma sorted_insert:
  assumes "sorted_wrt (\<lambda>a b. hi_hugepage_sz a \<ge> hi_hugepage_sz b) xs" "\<forall>y \<in> set xs. near x y"
  shows "sorted_wrt (\<lambda>a b. hi_hugepage_sz a \<ge> hi_hugepage_sz b) (qsort_insert compare_hpi x xs)"
  using assms
proof (induction xs)
  case (Cons y ys)
  have "set (qsort_insert cmp x ys) = insert x (set ys)" for cmp by (induction ys) auto
  then show ?case using Cons compare_near [of x y] by (auto simp: word_le_def)
qed simp

lemma sorted_sizes:
  assumes "\<forall>x \<in> set xs. \<forall>y \<in> set xs. near x y"
  shows "sorted_wrt (\<lambda>a b. hi_hugepage_sz a \<ge> hi_hugepage_sz b) (qsort compare_hpi xs)"
  using assms
proof (induction xs)
  case (Cons x xs)
  have "qsort compare_hpi (x # xs) = qsort_insert compare_hpi x (qsort compare_hpi xs)" by (simp add: qsort_def)
  then show ?case using Cons sorted_insert [of "qsort compare_hpi xs" x] by simp
qed (simp add: qsort_def)

text \<open>With sizes of 16 MB and 16 GB, as other processors have them, the smaller size comes first.\<close>

lemma sorted_wrongly:
  assumes "hi_hugepage_sz a = 0x1000000" "hi_hugepage_sz b = 0x400000000"
  shows "qsort compare_hpi [a, b] = [a, b]"
  using assms by (simp add: qsort_def compare_hpi_def)

section \<open>The result\<close>

definition huge_dirs :: "string list \<Rightarrow> string list" where
  "huge_dirs names = filter (\<lambda>d. strneq 10 d ''hugepages-'') names"

lemma info_init_ok:
  assumes "eal_hugepage_info_init sys ds s = ret (s', ds', 0)" "sys_dir sys (h_os s) sys_dir_path = Some names"
    "default_ok sys ds" "config_shape (h_ic s)" "quiet_files sys regs"
  shows "\<exists>xs. length xs = ic_num_hugepage_sizes (h_ic s') \<and>
      ic_hugepage_info (h_ic s') = qsort compare_hpi xs @ drop (length xs) (ic_hugepage_info (h_ic s')) \<and>
      (\<exists>ns. subseq ns (huge_dirs names) \<and> list_all2 (found_in sys (ic_hugepage_dir (h_ic s))) ns xs) \<and>
      (\<exists>h \<in> set xs. 0 < hi_num_pages h ! 0)"
    "config_shape (h_ic s')"
    "regs (h_os s) \<subseteq> regs (h_os s')" "h_memseg s' = h_memseg s"
    "h_ic s' = (h_ic s)\<lparr>ic_num_hugepage_sizes := ic_num_hugepage_sizes (h_ic s'), ic_hugepage_info := ic_hugepage_info (h_ic s')\<rparr>"
proof -
  obtain fin k s1 where l: "info_loop sys names 0 ds s = ret (fin, k, ds', s1)" "fin"
    and s': "s' = s1\<lparr>h_ic := (h_ic s1)\<lparr>ic_num_hugepage_sizes := k,
        ic_hugepage_info := qsort compare_hpi (take k (ic_hugepage_info (h_ic s1))) @ drop k (ic_hugepage_info (h_ic s1))\<rparr>\<rparr>"
    and ok: "\<exists>h \<in> set (take k (qsort compare_hpi (take k (ic_hugepage_info (h_ic s1))) @ drop k (ic_hugepage_info (h_ic s1)))).
        hi_hugedir h \<noteq> None \<and> 0 < hi_num_pages h ! 0"
    using assms(1,2) by (auto simp: eal_hugepage_info_init_def res_bind_ret Let_def split: if_splits)
  have "table_ok sys [] 0 (h_ic s)" using assms(4) by (auto simp: table_ok_def config_shape_def intro: exI [of _ "[]"])
  from info_loop_ok [OF l(1) assms(3) this assms(5)] l(2)
  have k: "keeps_but_sizes regs s s1" and t: "table_ok sys (huge_dirs names) k (h_ic s1)" by (simp_all add: huge_dirs_def)
  let ?xs = "take k (ic_hugepage_info (h_ic s1))"
  have len: "length ?xs = k" "length (qsort compare_hpi ?xs) = k"
    using t size_mset [of "qsort compare_hpi ?xs"] by (simp_all add: table_ok_def mset_qsort)
  have e: "h_ic s1 = (h_ic s)\<lparr>ic_hugepage_info := ic_hugepage_info (h_ic s1)\<rparr>" using k by (simp add: keeps_but_sizes_def)
  have dir: "ic_hugepage_dir (h_ic s1) = ic_hugepage_dir (h_ic s)" by (subst e) simp
  have sm: "ic_socket_mem (h_ic s1) = ic_socket_mem (h_ic s)" by (subst e) simp
  show "\<exists>xs. length xs = ic_num_hugepage_sizes (h_ic s') \<and>
      ic_hugepage_info (h_ic s') = qsort compare_hpi xs @ drop (length xs) (ic_hugepage_info (h_ic s')) \<and>
      (\<exists>ns. subseq ns (huge_dirs names) \<and> list_all2 (found_in sys (ic_hugepage_dir (h_ic s))) ns xs) \<and>
      (\<exists>h \<in> set xs. 0 < hi_num_pages h ! 0)"
    using t ok len dir by (intro exI [of _ ?xs]) (auto simp: s' table_ok_def)
  show "config_shape (h_ic s')"
    using t sm assms(4) len unfolding s' config_shape_def table_ok_def
    by (auto dest: in_set_takeD in_set_dropD)
  show "regs (h_os s) \<subseteq> regs (h_os s')" "h_memseg s' = h_memseg s" using k by (simp_all add: s' keeps_but_sizes_def)
  show "h_ic s' = (h_ic s)\<lparr>ic_num_hugepage_sizes := ic_num_hugepage_sizes (h_ic s'), ic_hugepage_info := ic_hugepage_info (h_ic s')\<rparr>"
    unfolding s' by (subst e) simp
qed

text \<open>The sizes that the names of the directories say.\<close>

definition dir_size :: "string \<Rightarrow> u64" where
  "dir_size name = rte_str_to_size (drop 10 name)"

lemma subseq_distinct: "subseq xs ys \<Longrightarrow> distinct ys \<Longrightarrow> distinct xs"
  by (induction rule: list_emb.induct) (auto dest: list_emb_set)

lemma found_sizes: "list_all2 (found_in sys dir) ns xs \<Longrightarrow> map hi_hugepage_sz xs = map dir_size ns"
  by (induction rule: list_all2_induct) (auto simp: found_in_def dir_size_def)

lemma qsort_prefix:
  assumes "length xs = n" "ys = qsort cmp xs @ drop (length xs) ys"
  shows "take n ys = qsort cmp xs"
proof -
  have "length (qsort cmp xs) = length xs" using size_mset [of "qsort cmp xs"] by (simp add: mset_qsort)
  then show ?thesis using assms by (metis append_eq_conv_conj)
qed

lemma info_init_sizes:
  assumes "eal_hugepage_info_init sys ds s = ret (s', ds', 0)" "sys_dir sys (h_os s) sys_dir_path = Some names"
    "default_ok sys ds" "config_shape (h_ic s)"
    "distinct (map dir_size (huge_dirs names))" "\<forall>n \<in> set (huge_dirs names). 0 < dir_size n \<and> 4096 dvd unat (dir_size n)"
  shows "sizes_ok (h_ic s')"
proof -
  note ok = info_init_ok [OF assms(1-4) quiet_files_none]
  obtain xs ns where xs: "length xs = ic_num_hugepage_sizes (h_ic s')"
    "ic_hugepage_info (h_ic s') = qsort compare_hpi xs @ drop (length xs) (ic_hugepage_info (h_ic s'))"
    "subseq ns (huge_dirs names)" "list_all2 (found_in sys (ic_hugepage_dir (h_ic s))) ns xs" using ok(1) by blast
  have t: "take (ic_num_hugepage_sizes (h_ic s')) (ic_hugepage_info (h_ic s')) = qsort compare_hpi xs"
    by (rule qsort_prefix [OF xs(1,2)])
  have sub: "set ns \<subseteq> set (huge_dirs names)" using xs(3) by (auto dest: list_emb_set)
  have m: "mset (hp_sizes (h_ic s')) = mset (map dir_size ns)"
    unfolding hp_sizes_def t found_sizes [OF xs(4), symmetric] by (simp add: mset_qsort)
  have "subseq (map dir_size ns) (map dir_size (huge_dirs names))" using xs(3) by (rule subseq_map)
  then have "distinct (map dir_size ns)" using assms(5) by (rule subseq_distinct)
  then have "distinct (hp_sizes (h_ic s'))" using m by (metis mset_eq_imp_distinct_iff)
  moreover have "set (hp_sizes (h_ic s')) = dir_size ` set ns" using arg_cong [OF m, of set_mset] by simp
  moreover have "ic_num_hugepage_sizes (h_ic s') \<le> length (ic_hugepage_info (h_ic s'))"
    using ok(2) by (simp add: config_shape_def)
  ultimately show ?thesis using assms(6) sub by (auto simp: sizes_ok_def)
qed

text \<open>
  C21. When the discovery succeeds, every entry of the table belongs to a directory of the kernel,
  has the size its name says, a mount of hugetlbfs of that size, and the number of pages which the kernel reports
  as free and not reserved; some entry has pages; the entries are ordered by size, the largest first, if the sizes
  differ by less than 2 GB. If the sizes are different multiples of 4 KB the table is one that the
  initialisation of the memory works on.
\<close>

theorem hugepage_discovery_spec:
  assumes "eal_hugepage_info_init sys 0 s = ret (s', ds', 0)" "sys_dir sys (h_os s) sys_dir_path = Some names"
    "config_shape (h_ic s)"
    "\<forall>n \<in> set (huge_dirs names). \<forall>m \<in> set (huge_dirs names). \<bar>uint (dir_size n) - uint (dir_size m)\<bar> < 2 ^ 31"
  shows "\<exists>xs. xs = take (ic_num_hugepage_sizes (h_ic s')) (ic_hugepage_info (h_ic s')) \<and> config_shape (h_ic s') \<and>
    (\<forall>h \<in> set xs. \<exists>name \<in> set (huge_dirs names). found_in sys (ic_hugepage_dir (h_ic s)) name h) \<and>
    (\<exists>h \<in> set xs. 0 < hi_num_pages h ! 0) \<and>
    sorted_wrt (\<lambda>a b. hi_hugepage_sz a \<ge> hi_hugepage_sz b) xs \<and>
    (distinct (map dir_size (huge_dirs names)) \<and> (\<forall>n \<in> set (huge_dirs names). 0 < dir_size n \<and> 4096 dvd unat (dir_size n)) \<longrightarrow>
       sizes_ok (h_ic s'))"
proof -
  note ok = info_init_ok [OF assms(1,2) _ assms(3) quiet_files_none]
  have d0: "default_ok sys 0" by (simp add: default_ok_def)
  obtain xs ns where xs: "length xs = ic_num_hugepage_sizes (h_ic s')"
    "ic_hugepage_info (h_ic s') = qsort compare_hpi xs @ drop (length xs) (ic_hugepage_info (h_ic s'))"
    "subseq ns (huge_dirs names)" "list_all2 (found_in sys (ic_hugepage_dir (h_ic s))) ns xs"
    "\<exists>h \<in> set xs. 0 < hi_num_pages h ! 0" using ok(1) [OF d0] by blast
  have t: "take (ic_num_hugepage_sizes (h_ic s')) (ic_hugepage_info (h_ic s')) = qsort compare_hpi xs"
    by (rule qsort_prefix [OF xs(1,2)])
  note sz = found_sizes [OF xs(4)]
  have sub: "set ns \<subseteq> set (huge_dirs names)" using xs(3) by (auto dest: list_emb_set)
  have found: "\<exists>name \<in> set (huge_dirs names). found_in sys (ic_hugepage_dir (h_ic s)) name h" if "h \<in> set xs" for h
    using that xs(4) sub by (metis in_set_conv_nth list_all2_conv_all_nth nth_mem subsetD)
  have "near a b" if "a \<in> set xs" "b \<in> set xs" for a b
  proof -
    have "hi_hugepage_sz a \<in> set (map dir_size ns)" "hi_hugepage_sz b \<in> set (map dir_size ns)"
      using that by (simp_all flip: sz)
    then obtain n m where "n \<in> set ns" "hi_hugepage_sz a = dir_size n" "m \<in> set ns" "hi_hugepage_sz b = dir_size m" by auto
    then show ?thesis using assms(4) sub by (simp add: near_def subset_iff)
  qed
  then have srt: "sorted_wrt (\<lambda>a b. hi_hugepage_sz a \<ge> hi_hugepage_sz b) (qsort compare_hpi xs)"
    by (intro sorted_sizes) blast
  note info_init_sizes [OF assms(1,2) d0 assms(3)]
  then show ?thesis unfolding t using ok(2) [OF d0] found xs(5) srt by auto
qed

section \<open>A system for the witness\<close>

text \<open>The discovery on the system of the witnesses.\<close>

definition info_start :: "nat hst" where
  "info_start = one_page_start\<lparr>h_ic := one_page_ic\<lparr>ic_hugepage_info := [no_size, no_size, no_size]\<rparr>\<rparr>"

lemma unat_numeralD: "unat (w :: u64) = numeral n \<Longrightarrow> w = numeral n"
  by (metis of_nat_numeral of_nat_unat ucast_id)

lemma demo_sizes: "rte_str_to_size ''2048 kB'' = 0x200000" "rte_str_to_size ''2048kB'' = 0x200000" "rte_str_to_size ''2M'' = 0x200000"
proof -
  have d: "decimal 2048 = ''2048''" "decimal 2 = ''2''" by (simp_all add: decimal.simps digit_char_def)
  have "unat (rte_str_to_size ''2048 kB'') = 0x200000"
    using str_to_size_decimal [of 2048 "CHR ''k''" "'' ''" "''B''"] d by (simp add: size_unit_def digit_val_def)
  then show "rte_str_to_size ''2048 kB'' = 0x200000" by (rule unat_numeralD)
  have "unat (rte_str_to_size ''2048kB'') = 0x200000"
    using str_to_size_decimal [of 2048 "CHR ''k''" "''''" "''B''"] d by (simp add: size_unit_def digit_val_def)
  then show "rte_str_to_size ''2048kB'' = 0x200000" by (rule unat_numeralD)
  have "unat (rte_str_to_size ''2M'') = 0x200000"
    using str_to_size_decimal [of 2 "CHR ''M''" "''''" "''''"] d by (simp add: size_unit_def digit_val_def)
  then show "rte_str_to_size ''2M'' = 0x200000" by (rule unat_numeralD)
qed

lemma info_default: "get_default_hp_size slot_sys os = ret 0x200000"
  by (simp add: get_default_hp_size_def slot_calls slot_lines_def fgets_pieces.simps strneq_def demo_sizes)

lemma info_mounts: "mounts_loop (\<lambda>_. True) None 0x200000 0x200000 [''none /mnt/huge hugetlbfs pagesize=2M''] = Some ''/mnt/huge''"
proof -
  let ?ws = "[''none'', ''/mnt/huge'', ''hugetlbfs'', ''pagesize=2M'']"
  have j: "join CHR '' '' ?ws = ''none /mnt/huge hugetlbfs pagesize=2M''" by simp
  obtain buf toks n where sp: "rte_strsplit (Some ''none /mnt/huge hugetlbfs pagesize=2M'') (int BUFSIZ) 4 CHR '' '' = (buf, toks, n)"
    by (metis prod.exhaust)
  have "\<forall>w \<in> set ?ws. plain CHR '' '' w" by (simp add: plain_def)
  from strsplit_words [OF this, of 4 "int BUFSIZ"] j sp have s: "map (token_at buf) toks = ?ws" "n = 4"
    by (simp_all add: split_tokens_def BUFSIZ_def)
  have len: "length toks = 4" using arg_cong [OF s(1), of length] by simp
  then have f: "token_at buf (toks ! k) = ?ws ! k" if "k < 4" for k
    using that arg_cong [OF s(1), of "\<lambda>xs. xs ! k"] by simp
  have "strstr ''pagesize=2M'' ''pagesize='' = Some ''pagesize=2M''" by (simp add: strstr.simps)
  then show ?thesis using f [of 1] f [of 2] f [of 3] s(2) by (simp add: sp strneq_def demo_sizes)
qed

lemma info_pages: "get_num_hugepages slot_sys ''hugepages-2048kB'' os = 1"
  by (simp add: get_num_hugepages_def eal_parse_sysfs_value_def slot_calls slot_lines_def nl_def snprintf_str_def
    PATH_MAX_def sys_dir_path_def strtoull_def strto_prefix_def digits_val_def digit_val_def isspace_def Let_def)

lemma info_hugedir: "get_hugepage_dir slot_sys 0x200000 0 s = ret (0x200000, Some ''/mnt/huge'')"
  if "ic_hugepage_dir (h_ic s) = None"
proof -
  have "slot_lines ''/proc/mounts'' = Some [''none /mnt/huge hugetlbfs pagesize=2M'']" by (simp add: slot_lines_def)
  then show ?thesis using that info_mounts info_default by (simp add: get_hugepage_dir_def slot_calls)
qed

lemma info_clear: "clear_hugedir slot_sys ''/mnt/huge'' s = (0, s)"
proof -
  have "slot_dir ''/mnt/huge'' = Some [''.'', ''rtemap_0'']" by (simp add: slot_dir_def sys_dir_path_def)
  moreover have "clear_files slot_sys ''/mnt/huge'' names s = s" for names
    by (induction names) (simp_all add: slot_calls Let_def)
  ultimately show ?thesis by (simp add: clear_hugedir_def slot_calls del: clear_files.simps)
qed

lemma info_result: "eal_hugepage_info_init slot_sys 0 info_start = ret (one_page_start, 0x200000, 0)"
proof -
  define s1 where "s1 = upd_hpi 0 (hi_hugepage_sz_update (\<lambda>_. 0x200000)) info_start"
  define s2 where "s2 = upd_hpi 0 (hi_hugedir_update (\<lambda>_. Some ''/mnt/huge'')) s1"
  define s3 where "s3 = upd_hpi 0 (hi_lock_descriptor_update (\<lambda>_. 3)) s2"
  have dir: "ic_hugepage_dir (h_ic s1) = None" by (simp add: s1_def info_start_def one_page_ic_def demo_ic_def)
  have "upd_hpi 0 (hi_num_pages_update (\<lambda>ns. ns[0 := 1])) s3 = one_page_start"
    by (simp add: s3_def s2_def s1_def info_start_def one_page_start_def one_page_ic_def one_size_def no_size_def upd_hpi_def)
  then have "info_mounted slot_sys ''hugepages-2048kB'' ''/mnt/huge'' 0 s2 = (Some 1, one_page_start)"
    by (simp add: info_mounted_def slot_calls info_clear info_pages s3_def [symmetric])
  then have "info_step slot_sys ''hugepages-2048kB'' 0 0 info_start = ret (Some 1, 0x200000, one_page_start)"
    by (simp add: info_step_def demo_sizes s1_def [symmetric] info_hugedir [OF dir] s2_def [symmetric])
  then have "info_loop slot_sys [''.'', ''hugepages-2048kB''] 0 0 info_start = ret (True, 1, 0x200000, one_page_start)"
    by (simp add: strneq_def MAX_HUGEPAGE_SIZES_def)
  moreover have "sys_dir slot_sys os sys_dir_path = Some [''.'', ''hugepages-2048kB'']" for os by (simp add: slot_calls slot_dir_def)
  moreover have "one_page_start\<lparr>h_ic := (h_ic one_page_start)\<lparr>ic_num_hugepage_sizes := 1, ic_hugepage_info := [one_size, no_size, no_size]\<rparr>\<rparr> = one_page_start"
    by (simp add: one_page_start_def one_page_ic_def demo_ic_def)
  ultimately show ?thesis
    by (simp add: eal_hugepage_info_init_def qsort_def) (simp add: one_page_start_def one_page_ic_def demo_ic_def one_size_def)
qed

lemma info_dirs: "sys_dir slot_sys os sys_dir_path = Some [''.'', ''hugepages-2048kB'']"
    "huge_dirs [''.'', ''hugepages-2048kB''] = [''hugepages-2048kB'']" "dir_size ''hugepages-2048kB'' = 0x200000"
  by (simp_all add: slot_calls slot_dir_def huge_dirs_def strneq_def dir_size_def demo_sizes)

theorem hugepage_discovery_spec_witness:
  "eal_hugepage_info_init slot_sys 0 info_start = ret (one_page_start, 0x200000, 0) \<and> sizes_ok (h_ic one_page_start) \<and>
     found_in slot_sys None ''hugepages-2048kB'' one_size"
proof -
  have shape: "config_shape (h_ic info_start)"
    by (simp add: config_shape_def info_start_def one_page_ic_def demo_ic_def MAX_HUGEPAGE_SIZES_def RTE_MAX_NUMA_NODES_def no_size_def)
  have near: "\<forall>n \<in> set (huge_dirs [''.'', ''hugepages-2048kB'']). \<forall>m \<in> set (huge_dirs [''.'', ''hugepages-2048kB'']).
      \<bar>uint (dir_size n) - uint (dir_size m)\<bar> < 2 ^ 31" by (simp add: info_dirs)
  have "take (ic_num_hugepage_sizes (h_ic one_page_start)) (ic_hugepage_info (h_ic one_page_start)) = [one_size]"
    "ic_hugepage_dir (h_ic info_start) = None"
    by (simp_all add: one_page_start_def one_page_ic_def demo_ic_def info_start_def)
  then show ?thesis
    using hugepage_discovery_spec [OF info_result info_dirs(1) shape near] info_result by (simp add: info_dirs)
qed

end
