(* ===== verification/Cpu.thy ===== *)
theory Cpu
  imports Prelude
begin

text \<open>
  Features of the processor (\<^verbatim>\<open>common/arch/x86/rte_cpuflags.c\<close>, \<^verbatim>\<open>eal_common_cpuflags.c\<close>) and the frequency of its time
  stamp counter (\<^verbatim>\<open>common/arch/x86/rte_cycles.c\<close>), and what is chosen by the features at start-up. The instruction \<^verbatim>\<open>cpuid\<close> is a parameter.
\<close>

section \<open>The processor\<close>

datatype cpu_register_t = EAX | EBX | ECX | EDX

text \<open>\<^verbatim>\<open>__get_cpuid_max\<close>, and the registers after \<^verbatim>\<open>cpuid\<close> with a leaf and a subleaf.\<close>

record cpu =
  cpuid_max :: "u32 \<Rightarrow> u32"
  cpuid :: "u32 \<Rightarrow> u32 \<Rightarrow> cpu_register_t \<Rightarrow> u32"

section \<open>Features\<close>

text \<open>The constants of \<^verbatim>\<open>enum rte_cpu_flag_t\<close> in their order; a feature is the position of its name.\<close>

definition rte_cpu_flag_t :: "string list" where
  "rte_cpu_flag_t =
    [''SSE3'', ''PCLMULQDQ'', ''DTES64'', ''MONITOR'', ''DS_CPL'', ''VMX'', ''SMX'', ''EIST'', ''TM2'',
     ''SSSE3'', ''CNXT_ID'', ''FMA'', ''CMPXCHG16B'', ''XTPR'', ''PDCM'', ''PCID'', ''DCA'', ''SSE4_1'',
     ''SSE4_2'', ''X2APIC'', ''MOVBE'', ''POPCNT'', ''TSC_DEADLINE'', ''AES'', ''XSAVE'', ''OSXSAVE'',
     ''AVX'', ''F16C'', ''RDRAND'', ''HYPERVISOR'', ''FPU'', ''VME'', ''DE'', ''PSE'', ''TSC'', ''MSR'',
     ''PAE'', ''MCE'', ''CX8'', ''APIC'', ''SEP'', ''MTRR'', ''PGE'', ''MCA'', ''CMOV'', ''PAT'', ''PSE36'',
     ''PSN'', ''CLFSH'', ''DS'', ''ACPI'', ''MMX'', ''FXSR'', ''SSE'', ''SSE2'', ''SS'', ''HTT'', ''TM'',
     ''PBE'', ''DIGTEMP'', ''TRBOBST'', ''ARAT'', ''PLN'', ''ECMD'', ''PTM'', ''MPERF_APERF_MSR'', ''ACNT2'',
     ''ENERGY_EFF'', ''FSGSBASE'', ''BMI1'', ''HLE'', ''AVX2'', ''SMEP'', ''BMI2'', ''ERMS'', ''INVPCID'',
     ''RTM'', ''AVX512F'', ''LAHF_SAHF'', ''LZCNT'', ''SYSCALL'', ''XD'', ''1GB_PG'', ''RDTSCP'', ''EM64T'',
     ''INVTSC'']"

definition RTE_CPUFLAG_NUMFLAGS :: nat where "RTE_CPUFLAG_NUMFLAGS = length rte_cpu_flag_t"

record feature_entry =
  fe_leaf :: u32
  fe_subleaf :: u32
  fe_reg :: cpu_register_t
  fe_bit :: nat
  fe_name :: string

definition FEAT_DEF :: "string \<Rightarrow> u32 \<Rightarrow> u32 \<Rightarrow> cpu_register_t \<Rightarrow> nat \<Rightarrow> feature_entry" where
  "FEAT_DEF name leaf subleaf reg b = \<lparr>fe_leaf = leaf, fe_subleaf = subleaf, fe_reg = reg, fe_bit = b, fe_name = name\<rparr>"

definition feature_defs :: "feature_entry list" where
  "feature_defs =
    [FEAT_DEF ''SSE3'' 0x00000001 0 ECX 0, FEAT_DEF ''PCLMULQDQ'' 0x00000001 0 ECX 1,
     FEAT_DEF ''DTES64'' 0x00000001 0 ECX 2, FEAT_DEF ''MONITOR'' 0x00000001 0 ECX 3,
     FEAT_DEF ''DS_CPL'' 0x00000001 0 ECX 4, FEAT_DEF ''VMX'' 0x00000001 0 ECX 5,
     FEAT_DEF ''SMX'' 0x00000001 0 ECX 6, FEAT_DEF ''EIST'' 0x00000001 0 ECX 7,
     FEAT_DEF ''TM2'' 0x00000001 0 ECX 8, FEAT_DEF ''SSSE3'' 0x00000001 0 ECX 9,
     FEAT_DEF ''CNXT_ID'' 0x00000001 0 ECX 10, FEAT_DEF ''FMA'' 0x00000001 0 ECX 12,
     FEAT_DEF ''CMPXCHG16B'' 0x00000001 0 ECX 13, FEAT_DEF ''XTPR'' 0x00000001 0 ECX 14,
     FEAT_DEF ''PDCM'' 0x00000001 0 ECX 15, FEAT_DEF ''PCID'' 0x00000001 0 ECX 17,
     FEAT_DEF ''DCA'' 0x00000001 0 ECX 18, FEAT_DEF ''SSE4_1'' 0x00000001 0 ECX 19,
     FEAT_DEF ''SSE4_2'' 0x00000001 0 ECX 20, FEAT_DEF ''X2APIC'' 0x00000001 0 ECX 21,
     FEAT_DEF ''MOVBE'' 0x00000001 0 ECX 22, FEAT_DEF ''POPCNT'' 0x00000001 0 ECX 23,
     FEAT_DEF ''TSC_DEADLINE'' 0x00000001 0 ECX 24, FEAT_DEF ''AES'' 0x00000001 0 ECX 25,
     FEAT_DEF ''XSAVE'' 0x00000001 0 ECX 26, FEAT_DEF ''OSXSAVE'' 0x00000001 0 ECX 27,
     FEAT_DEF ''AVX'' 0x00000001 0 ECX 28, FEAT_DEF ''F16C'' 0x00000001 0 ECX 29,
     FEAT_DEF ''RDRAND'' 0x00000001 0 ECX 30, FEAT_DEF ''HYPERVISOR'' 0x00000001 0 ECX 31,
     FEAT_DEF ''FPU'' 0x00000001 0 EDX 0, FEAT_DEF ''VME'' 0x00000001 0 EDX 1,
     FEAT_DEF ''DE'' 0x00000001 0 EDX 2, FEAT_DEF ''PSE'' 0x00000001 0 EDX 3,
     FEAT_DEF ''TSC'' 0x00000001 0 EDX 4, FEAT_DEF ''MSR'' 0x00000001 0 EDX 5,
     FEAT_DEF ''PAE'' 0x00000001 0 EDX 6, FEAT_DEF ''MCE'' 0x00000001 0 EDX 7,
     FEAT_DEF ''CX8'' 0x00000001 0 EDX 8, FEAT_DEF ''APIC'' 0x00000001 0 EDX 9,
     FEAT_DEF ''SEP'' 0x00000001 0 EDX 11, FEAT_DEF ''MTRR'' 0x00000001 0 EDX 12,
     FEAT_DEF ''PGE'' 0x00000001 0 EDX 13, FEAT_DEF ''MCA'' 0x00000001 0 EDX 14,
     FEAT_DEF ''CMOV'' 0x00000001 0 EDX 15, FEAT_DEF ''PAT'' 0x00000001 0 EDX 16,
     FEAT_DEF ''PSE36'' 0x00000001 0 EDX 17, FEAT_DEF ''PSN'' 0x00000001 0 EDX 18,
     FEAT_DEF ''CLFSH'' 0x00000001 0 EDX 19, FEAT_DEF ''DS'' 0x00000001 0 EDX 21,
     FEAT_DEF ''ACPI'' 0x00000001 0 EDX 22, FEAT_DEF ''MMX'' 0x00000001 0 EDX 23,
     FEAT_DEF ''FXSR'' 0x00000001 0 EDX 24, FEAT_DEF ''SSE'' 0x00000001 0 EDX 25,
     FEAT_DEF ''SSE2'' 0x00000001 0 EDX 26, FEAT_DEF ''SS'' 0x00000001 0 EDX 27,
     FEAT_DEF ''HTT'' 0x00000001 0 EDX 28, FEAT_DEF ''TM'' 0x00000001 0 EDX 29,
     FEAT_DEF ''PBE'' 0x00000001 0 EDX 31, FEAT_DEF ''DIGTEMP'' 0x00000006 0 EAX 0,
     FEAT_DEF ''TRBOBST'' 0x00000006 0 EAX 1, FEAT_DEF ''ARAT'' 0x00000006 0 EAX 2,
     FEAT_DEF ''PLN'' 0x00000006 0 EAX 4, FEAT_DEF ''ECMD'' 0x00000006 0 EAX 5,
     FEAT_DEF ''PTM'' 0x00000006 0 EAX 6, FEAT_DEF ''MPERF_APERF_MSR'' 0x00000006 0 ECX 0,
     FEAT_DEF ''ACNT2'' 0x00000006 0 ECX 1, FEAT_DEF ''ENERGY_EFF'' 0x00000006 0 ECX 3,
     FEAT_DEF ''FSGSBASE'' 0x00000007 0 EBX 0, FEAT_DEF ''BMI1'' 0x00000007 0 EBX 2,
     FEAT_DEF ''HLE'' 0x00000007 0 EBX 4, FEAT_DEF ''AVX2'' 0x00000007 0 EBX 5,
     FEAT_DEF ''SMEP'' 0x00000007 0 EBX 6, FEAT_DEF ''BMI2'' 0x00000007 0 EBX 7,
     FEAT_DEF ''ERMS'' 0x00000007 0 EBX 8, FEAT_DEF ''INVPCID'' 0x00000007 0 EBX 10,
     FEAT_DEF ''RTM'' 0x00000007 0 EBX 11, FEAT_DEF ''AVX512F'' 0x00000007 0 EBX 16,
     FEAT_DEF ''LAHF_SAHF'' 0x80000001 0 ECX 0, FEAT_DEF ''LZCNT'' 0x80000001 0 ECX 4,
     FEAT_DEF ''SYSCALL'' 0x80000001 0 EDX 11, FEAT_DEF ''XD'' 0x80000001 0 EDX 20,
     FEAT_DEF ''1GB_PG'' 0x80000001 0 EDX 26, FEAT_DEF ''RDTSCP'' 0x80000001 0 EDX 27,
     FEAT_DEF ''EM64T'' 0x80000001 0 EDX 29, FEAT_DEF ''INVTSC'' 0x80000007 0 EDX 8]"

text \<open>Each definition initialises the entry of the constant of its name; the others are zero.\<close>

definition rte_cpu_feature_table :: "feature_entry list" where
  "rte_cpu_feature_table =
     map (\<lambda>name. case find (\<lambda>e. fe_name e = name) feature_defs of Some e \<Rightarrow> e | None \<Rightarrow> FEAT_DEF [] 0 0 EAX 0) rte_cpu_flag_t"

abbreviation EFAULT :: int where "EFAULT \<equiv> 14"

definition rte_cpu_get_flag_enabled :: "cpu \<Rightarrow> nat \<Rightarrow> int" where
  "rte_cpu_get_flag_enabled c feature =
     (if feature \<ge> RTE_CPUFLAG_NUMFLAGS then - ENOENT
      else let feat = rte_cpu_feature_table ! feature in
        if fe_leaf feat = 0 then - EFAULT
        else let maxleaf = cpuid_max c (fe_leaf feat AND 0x80000000) in
          if maxleaf < fe_leaf feat then 0
          else sint (drop_bit (fe_bit feat) (cpuid c (fe_leaf feat) (fe_subleaf feat) (fe_reg feat)) AND 1))"

definition rte_cpu_get_flag_name :: "nat \<Rightarrow> string option" where
  "rte_cpu_get_flag_name feature =
     (if feature \<ge> RTE_CPUFLAG_NUMFLAGS then None else Some (fe_name (rte_cpu_feature_table ! feature)))"

text \<open>The list to be filled in by the build is empty.\<close>

definition compile_time_flags :: "nat list" where "compile_time_flags = []"

fun flags_supported :: "cpu \<Rightarrow> nat list \<Rightarrow> bool" where
  "flags_supported c [] = True"
| "flags_supported c (flag # flags) =
     (let ret' = rte_cpu_get_flag_enabled c flag
      in if ret' < 0 then False else if ret' = 0 then False else flags_supported c flags)"

definition rte_cpu_is_supported :: "cpu \<Rightarrow> bool" where
  "rte_cpu_is_supported c = flags_supported c compile_time_flags"

text \<open>\<open>False\<close> when the program exits.\<close>

definition rte_cpu_check_supported :: "cpu \<Rightarrow> bool" where
  "rte_cpu_check_supported c = rte_cpu_is_supported c"

section \<open>What is chosen by feature\<close>

text \<open>The constant of a name, and the constructors of \<^verbatim>\<open>common/arch/x86/rte_spinlock.c\<close> and \<^verbatim>\<open>rte_memcpy.c\<close>.\<close>

definition RTE_CPUFLAG :: "string \<Rightarrow> nat" where
  "RTE_CPUFLAG name = (case first_index (\<lambda>n. n = name) rte_cpu_flag_t of Some i \<Rightarrow> i | None \<Rightarrow> RTE_CPUFLAG_NUMFLAGS)"

definition rte_rtm_init :: "cpu \<Rightarrow> u8" where
  "rte_rtm_init c = word_of_int (rte_cpu_get_flag_enabled c (RTE_CPUFLAG ''RTM''))"

datatype memcpy_version = rte_memcpy_sse | rte_memcpy_avx2 | rte_memcpy_avx512f

text \<open>
  \<open>avx512f\<close> and \<open>avx2\<close>: the compiler supports the instructions. The result is \<^verbatim>\<open>rte_memcpy_ptr\<close> and the message that
  is logged.
\<close>

definition rte_memcpy_init :: "bool \<Rightarrow> bool \<Rightarrow> cpu \<Rightarrow> memcpy_version \<times> string" where
  "rte_memcpy_init avx512f avx2 c =
     (if avx512f \<and> rte_cpu_get_flag_enabled c (RTE_CPUFLAG ''AVX512F'') \<noteq> 0 then (rte_memcpy_avx512f, ''AVX512 memcpy is using!'')
      else if avx2 \<and> rte_cpu_get_flag_enabled c (RTE_CPUFLAG ''AVX2'') \<noteq> 0 then (rte_memcpy_avx2, ''AVX2 memcpy is using!'')
      else (rte_memcpy_sse, ''Default SSE/AVX memcpy is using!''))"

section \<open>The frequency of the time stamp counter\<close>

definition rte_cpu_get_model :: "u32 \<Rightarrow> u32" where
  "rte_cpu_get_model fam_mod_step =
     (let family = drop_bit 8 fam_mod_step AND 0xf; model = drop_bit 4 fam_mod_step AND 0xf
      in if family = 6 \<or> family = 15
         then let ext_model = drop_bit 16 fam_mod_step AND 0xf in model + push_bit 4 ext_model
         else model)"

definition check_model_wsm_nhm :: "u8 \<Rightarrow> bool" where
  "check_model_wsm_nhm model = (model \<in> {0x25, 0x2C, 0x2F} \<or> model \<in> {0x1E, 0x1F, 0x1A, 0x2E})"

definition check_model_gdm_dnv :: "u8 \<Rightarrow> bool" where
  "check_model_gdm_dnv model = (model = 0x5C \<or> model = 0x5F)"

definition bit_AVX :: u32 where "bit_AVX = 0x10000000"

text \<open>
  \<open>rdmsr\<close> is the value of a model specific register read from \<^verbatim>\<open>/dev/cpu/0/msr\<close>. The first product and quotient are on 32 bits,
  and \<open>None\<close> stands for a division by zero. The last product is a \<^verbatim>\<open>double\<close>: exact, and small enough for 64 bits.
\<close>

definition get_tsc_freq_arch :: "cpu \<Rightarrow> (int \<Rightarrow> u64 option) \<Rightarrow> u64 option" where
  "get_tsc_freq_arch cp rdmsr =
     (let maxleaf = cpuid_max cp 0; r = cpuid cp 0x15 0 in
      if maxleaf \<ge> 0x15 \<and> r EBX \<noteq> 0 \<and> r ECX \<noteq> 0
      then if r EAX = 0 then None else Some (ucast (r ECX * (r EBX div r EAX)))
      else
        let r = cpuid cp 0x1 0; model = ucast (rte_cpu_get_model (r EAX)) in
        if \<not> check_model_wsm_nhm model \<and> \<not> (r ECX AND bit_AVX \<noteq> 0 \<or> check_model_gdm_dnv model) then Some 0
        else let mult = (if check_model_wsm_nhm model then 133 else 100)
             in case rdmsr 0xCE of None \<Rightarrow> Some 0
                | Some tsc_hz \<Rightarrow> Some ((drop_bit 8 tsc_hz AND 0xff) * mult * 1000000))"

section \<open>Correctness\<close>

text \<open>The definitions follow the order of the constants, so that the table is the list of the definitions.\<close>

lemma find_by_name:
  assumes "distinct (map f xs)"
  shows "map (\<lambda>n. case find (\<lambda>e. f e = n) xs of Some e \<Rightarrow> e | None \<Rightarrow> z) (map f xs) = xs"
proof -
  have "find (\<lambda>e. f e = f x) xs = Some x" if "x \<in> set xs" for x
    using that assms by (induction xs) (auto simp: image_iff)
  then show ?thesis by (simp add: map_idI)
qed

lemma flag_names: "map fe_name feature_defs = rte_cpu_flag_t"
  by (simp add: feature_defs_def FEAT_DEF_def rte_cpu_flag_t_def)

lemma flags_distinct: "distinct rte_cpu_flag_t"
  by (simp add: rte_cpu_flag_t_def)

lemma feature_table: "rte_cpu_feature_table = feature_defs"
  using find_by_name [of fe_name feature_defs] flags_distinct by (simp only: rte_cpu_feature_table_def flag_names)

lemma num_flags: "RTE_CPUFLAG_NUMFLAGS = 86"
  by (simp add: RTE_CPUFLAG_NUMFLAGS_def rte_cpu_flag_t_def)

text \<open>No two features are the same bit.\<close>

lemma bits_distinct: "distinct (map (\<lambda>e. (fe_leaf e, fe_reg e, fe_bit e)) rte_cpu_feature_table)"
  unfolding feature_table by (simp add: feature_defs_def FEAT_DEF_def)

lemma leaves: "list_all (\<lambda>e. fe_leaf e \<noteq> 0 \<and> fe_bit e < 32) rte_cpu_feature_table"
  unfolding feature_table by (simp add: feature_defs_def FEAT_DEF_def)

lemma flag_enabled_spec:
  assumes "feature < RTE_CPUFLAG_NUMFLAGS"
  shows "\<exists>e. rte_cpu_feature_table ! feature = e \<and> rte_cpu_get_flag_name feature = Some (rte_cpu_flag_t ! feature) \<and>
    rte_cpu_get_flag_enabled c feature =
      of_bool (fe_leaf e \<le> cpuid_max c (fe_leaf e AND 0x80000000) \<and> bit (cpuid c (fe_leaf e) (fe_subleaf e) (fe_reg e)) (fe_bit e))"
proof -
  let ?e = "rte_cpu_feature_table ! feature"
  have len: "length rte_cpu_feature_table = RTE_CPUFLAG_NUMFLAGS" by (simp add: rte_cpu_feature_table_def RTE_CPUFLAG_NUMFLAGS_def)
  have e: "fe_name ?e = rte_cpu_flag_t ! feature" "fe_leaf ?e \<noteq> 0"
    using assms leaves len flag_names [folded feature_table] by (metis nth_map, simp add: list_all_length)
  moreover have "sint (drop_bit n (w :: u32) AND 1) = of_bool (bit w n)" for n w
    by (simp add: and_one_eq mod_2_eq_odd bit_iff_odd_drop_bit)
  ultimately show ?thesis
    using assms by (auto simp: rte_cpu_get_flag_enabled_def rte_cpu_get_flag_name_def Let_def not_le not_less)
qed

text \<open>The bits of leaf 7 that decide, and that no version is chosen which the processor does not have.\<close>

lemma flag_numbers: "RTE_CPUFLAG ''RTM'' = 76" "RTE_CPUFLAG ''AVX2'' = 71" "RTE_CPUFLAG ''AVX512F'' = 77"
  by (simp_all add: RTE_CPUFLAG_def rte_cpu_flag_t_def)

lemma flag_entries:
  "rte_cpu_feature_table ! 76 = FEAT_DEF ''RTM'' 7 0 EBX 11" "rte_cpu_feature_table ! 71 = FEAT_DEF ''AVX2'' 7 0 EBX 5"
  "rte_cpu_feature_table ! 77 = FEAT_DEF ''AVX512F'' 7 0 EBX 16"
  unfolding feature_table by (simp_all add: feature_defs_def)

lemma leaf7:
  "rte_cpu_get_flag_enabled c (RTE_CPUFLAG ''RTM'') = of_bool (7 \<le> cpuid_max c 0 \<and> bit (cpuid c 7 0 EBX) 11)"
  "rte_cpu_get_flag_enabled c (RTE_CPUFLAG ''AVX2'') = of_bool (7 \<le> cpuid_max c 0 \<and> bit (cpuid c 7 0 EBX) 5)"
  "rte_cpu_get_flag_enabled c (RTE_CPUFLAG ''AVX512F'') = of_bool (7 \<le> cpuid_max c 0 \<and> bit (cpuid c 7 0 EBX) 16)"
  using flag_enabled_spec [of 76 c] flag_enabled_spec [of 71 c] flag_enabled_spec [of 77 c]
  by (simp_all add: flag_numbers flag_entries num_flags FEAT_DEF_def)

lemma rtm_init: "rte_rtm_init c = of_bool (7 \<le> cpuid_max c 0 \<and> bit (cpuid c 7 0 EBX) 11)"
  by (simp add: rte_rtm_init_def leaf7)

lemma memcpy_init:
  "fst (rte_memcpy_init a b c) = rte_memcpy_avx512f \<Longrightarrow> 7 \<le> cpuid_max c 0 \<and> bit (cpuid c 7 0 EBX) 16"
  "fst (rte_memcpy_init a b c) = rte_memcpy_avx2 \<Longrightarrow> 7 \<le> cpuid_max c 0 \<and> bit (cpuid c 7 0 EBX) 5"
  by (simp_all add: rte_memcpy_init_def leaf7 split: if_splits)

lemma always_supported: "rte_cpu_is_supported c"
  by (simp add: rte_cpu_is_supported_def compile_time_flags_def)

text \<open>
  With a crystal of 24 MHz and the ratio 211 : 2 the counter runs at 2532 MHz; the division comes first, and the
  result is 12 MHz too low. With the ratio 200 : 1 the product does not fit 32 bits.
\<close>

definition crystal_cpu :: "u32 \<Rightarrow> u32 \<Rightarrow> cpu" where
  "crystal_cpu a b = \<lparr>cpuid_max = (\<lambda>_. 0x16), cpuid = (\<lambda>_ _ r. case r of EAX \<Rightarrow> a | EBX \<Rightarrow> b | ECX \<Rightarrow> 24000000 | EDX \<Rightarrow> 0)\<rparr>"

lemma tsc_freq_truncated:
  "get_tsc_freq_arch (crystal_cpu 2 211) r = Some 2520000000" "get_tsc_freq_arch (crystal_cpu 1 200) r = Some 505032704"
  by (simp_all add: get_tsc_freq_arch_def crystal_cpu_def)

end
