(* ===== verification/Eal_Init.thy ===== *)
theory Eal_Init
  imports Hugepage_Init Hugepage_Info Memzone Log Launch Cpu
begin

text \<open>
  Start-up of the environment (\<^verbatim>\<open>linuxapp/eal/eal.c\<close>, \<^verbatim>\<open>common/eal_common_memory.c\<close>): the shared configuration, the
  arguments about memory, and \<^verbatim>\<open>rte_eal_init\<close>, which brings up all parts in order.
\<close>

abbreviation EACCES :: int where "EACCES \<equiv> 13"
abbreviation ENODEV :: int where "ENODEV \<equiv> 19"
abbreviation ENOTSUP :: int where "ENOTSUP \<equiv> 95"
abbreviation EALREADY :: int where "EALREADY \<equiv> 114"
definition RTE_MAGIC :: u32 where "RTE_MAGIC = 19820526"
definition RTE_PGSIZE_16M :: u64 where "RTE_PGSIZE_16M = 0x1000000"
definition MEMSIZE_IF_NO_HUGE_PAGE :: u64 where "MEMSIZE_IF_NO_HUGE_PAGE = 64 * 1024 * 1024"
definition SOCKET_MEM_STRLEN :: nat where "SOCKET_MEM_STRLEN = RTE_MAX_NUMA_NODES * 10"

section \<open>State\<close>

text \<open>
  The process: the part of the huge pages with the operating system and \<^verbatim>\<open>internal_config\<close>, the part of the zones and
  the heap, logging, cores, the static variables \<^verbatim>\<open>default_size\<close>, \<^verbatim>\<open>run_once\<close>, \<^verbatim>\<open>mem_cfg_fd\<close>, the pointer
  \<^verbatim>\<open>rte_config.mem_config\<close>, and the fields \<^verbatim>\<open>magic\<close>, \<^verbatim>\<open>nchannel\<close>, \<^verbatim>\<open>nrank\<close> and \<^verbatim>\<open>mem_cfg_addr\<close> it points to.
\<close>

record 'os proc =
  pr_h :: "'os hst"
  pr_eal :: eal
  pr_log :: log_state
  pr_lcores :: lcores
  pr_default_size :: u64
  pr_run_once :: rte_atomic32_t
  pr_mem_cfg_fd :: int
  pr_mem_config :: u64
  pr_magic :: u32
  pr_nchannel :: u32
  pr_nrank :: u32
  pr_mem_cfg_addr :: u64

text \<open>
  What the start takes from outside: the processor; the options \<^verbatim>\<open>no_shconf\<close> and
  \<^verbatim>\<open>syslog_facility\<close>; the stream of \<^verbatim>\<open>fopencookie\<close>, \<^verbatim>\<open>stderr\<close> and the results of printing; \<^verbatim>\<open>logid\<close> and \<^verbatim>\<open>fctret\<close>, which
  are not initialised; the result of \<^verbatim>\<open>rte_eal_timer_init\<close>, which is not in the repository; the address of a local
  variable and \<^verbatim>\<open>errno\<close>; the size of \<^verbatim>\<open>struct rte_mem_config\<close>; the pages another process has published and the
  values its configuration has each time it is read; the result of setting the affinity; and what the memory holds
  once the segments are mapped.
\<close>

record eal_env =
  ep_cpu :: cpu
  ep_no_shconf :: bool
  ep_facility :: int
  ep_log_stream :: nat
  ep_stderr :: nat
  ep_print :: "nat \<Rightarrow> string \<Rightarrow> int"
  ep_logid :: string
  ep_fctret :: int
  ep_timer_init :: int
  ep_tmp :: u64
  ep_errno :: int
  ep_sizeof_config :: u64
  ep_table :: "hugepage_file list"
  ep_shared_magic :: "nat \<Rightarrow> u32"
  ep_shared_cfg_addr :: u64
  ep_shared_memseg :: "nat \<Rightarrow> rte_memseg"
  ep_setaff :: int
  ep_memory :: "(nat \<Rightarrow> rte_memseg) \<Rightarrow> mem \<Rightarrow> mem"

definition proc_call :: "('os hst \<Rightarrow> 'a \<times> 'os hst) \<Rightarrow> 'os proc \<Rightarrow> 'a \<times> 'os proc" where
  "proc_call f p = (case f (pr_h p) of (r, h) \<Rightarrow> (r, p\<lparr>pr_h := h\<rparr>))"

definition proc_do :: "('os hst \<Rightarrow> 'os hst) \<Rightarrow> 'os proc \<Rightarrow> 'os proc" where
  "proc_do f p = p\<lparr>pr_h := f (pr_h p)\<rparr>"

abbreviation proc_ic :: "'os proc \<Rightarrow> internal_config" where "proc_ic p \<equiv> h_ic (pr_h p)"

definition rte_eal_process_type :: "'os proc \<Rightarrow> rte_proc_type_t" where
  "rte_eal_process_type p = e_process_type (pr_eal p)"

definition rte_eal_mbuf_user_pool_ops :: "internal_config \<Rightarrow> string option" where
  "rte_eal_mbuf_user_pool_ops ic = ic_user_mbuf_pool_ops_name ic"

definition rte_eal_mbuf_default_mempool_ops :: "internal_config \<Rightarrow> string" where
  "rte_eal_mbuf_default_mempool_ops ic =
     (case ic_user_mbuf_pool_ops_name ic of None \<Rightarrow> ''ring_mp_mc'' | Some name \<Rightarrow> name)"

definition rte_eal_cleanup :: int where "rte_eal_cleanup = 0"

text \<open>The message printed by the application before its own usage, an address.\<close>

definition rte_set_application_usage_hook :: "nat \<Rightarrow> nat \<Rightarrow> nat \<times> nat" where
  "rte_set_application_usage_hook usage_func hook = (usage_func, hook)"

section \<open>The shared configuration\<close>

definition rte_eal_config_create :: "'os sys \<Rightarrow> eal_env \<Rightarrow> 'os proc \<Rightarrow> 'os proc res" where
  "rte_eal_config_create sys ep p =
     (let pathname = eal_runtime_config_path sys (proc_ic p) in
      if ep_no_shconf ep then ret p
      else
        let hint = (if ic_base_virtaddr (proc_ic p) \<noteq> 0
                    then RTE_ALIGN_FLOOR (ic_base_virtaddr (proc_ic p) - ep_sizeof_config ep) (sys_page_size sys) else 0);
            p = (if pr_mem_cfg_fd p < 0
                 then let (fd, p) = proc_call (os_call (sys_open sys pathname O_RDWR_CREAT)) p in p\<lparr>pr_mem_cfg_fd := fd\<rparr> else p)
        in if pr_mem_cfg_fd p < 0 then abort ''Cannot open the configuration''
           else let (r, p) = proc_call (os_call (sys_ftruncate sys (pr_mem_cfg_fd p) (ep_sizeof_config ep))) p
                in if r < 0 then abort ''Cannot resize the configuration''
                   else let (r, p) = proc_call (os_call (sys_setlk sys (pr_mem_cfg_fd p))) p
                        in if r < 0 then abort ''Cannot create lock. Is another primary process running?''
                           else let (a, p) = proc_call (os_call (sys_mmap sys hint (ep_sizeof_config ep) PROT_READ_WRITE MAP_SHARED (pr_mem_cfg_fd p))) p
                                in case a of None \<Rightarrow> abort ''Cannot mmap memory for rte_config''
                                   | Some a \<Rightarrow> ret (p\<lparr>pr_mem_config := a, pr_mem_cfg_addr := a\<rparr>))"

text \<open>Attaching, the process sees the configuration of the other one.\<close>

definition rte_eal_config_attach :: "'os sys \<Rightarrow> eal_env \<Rightarrow> 'os proc \<Rightarrow> 'os proc res" where
  "rte_eal_config_attach sys ep p =
     (let pathname = eal_runtime_config_path sys (proc_ic p) in
      if ep_no_shconf ep then ret p
      else
        let p = (if pr_mem_cfg_fd p < 0
                 then let (fd, p) = proc_call (os_call (sys_open sys pathname O_RDWR)) p in p\<lparr>pr_mem_cfg_fd := fd\<rparr> else p)
        in if pr_mem_cfg_fd p < 0 then abort ''Cannot open the configuration''
           else let (a, p) = proc_call (os_call (sys_mmap sys 0 (ep_sizeof_config ep) PROT_READ MAP_SHARED (pr_mem_cfg_fd p))) p
                in case a of None \<Rightarrow> abort ''Cannot mmap memory for rte_config''
                   | Some a \<Rightarrow> ret (p\<lparr>pr_mem_config := a, pr_mem_cfg_addr := ep_shared_cfg_addr ep,
                       pr_h := (pr_h p)\<lparr>h_memseg := ep_shared_memseg ep\<rparr>\<rparr>))"

definition rte_eal_config_reattach :: "'os sys \<Rightarrow> eal_env \<Rightarrow> 'os proc \<Rightarrow> 'os proc res" where
  "rte_eal_config_reattach sys ep p =
     (if ep_no_shconf ep then ret p
      else
        let addr = pr_mem_cfg_addr p;
            p = proc_do (os_do (sys_munmap sys (pr_mem_config p) (ep_sizeof_config ep))) p;
            (a, p) = proc_call (os_call (sys_mmap sys addr (ep_sizeof_config ep) PROT_READ_WRITE MAP_SHARED (pr_mem_cfg_fd p))) p
        in if a = None \<or> a \<noteq> Some addr then abort ''Cannot mmap memory for rte_config''
           else ret (proc_do (os_do (sys_close sys (pr_mem_cfg_fd p))) (p\<lparr>pr_mem_config := addr\<rparr>)))"

text \<open>The number of times the magic number is read before it is there; \<open>None\<close> when it never is.\<close>

partial_function (option) rte_eal_mcfg_wait_complete :: "(nat \<Rightarrow> u32) \<Rightarrow> nat \<Rightarrow> nat option" where
  "rte_eal_mcfg_wait_complete magic n = (if magic n \<noteq> RTE_MAGIC then rte_eal_mcfg_wait_complete magic (n + 1) else Some n)"

declare rte_eal_mcfg_wait_complete.simps [code]

definition rte_eal_mcfg_complete :: "'os proc \<Rightarrow> 'os proc" where
  "rte_eal_mcfg_complete p = (if rte_eal_process_type p = RTE_PROC_PRIMARY then p\<lparr>pr_magic := RTE_MAGIC\<rparr> else p)"

definition eal_proc_type_detect :: "'os sys \<Rightarrow> 'os proc \<Rightarrow> rte_proc_type_t \<times> 'os proc" where
  "eal_proc_type_detect sys p =
     (let (fd, p) = proc_call (os_call (sys_open sys (eal_runtime_config_path sys (proc_ic p)) O_RDWR)) p;
          p = p\<lparr>pr_mem_cfg_fd := fd\<rparr>
      in if fd < 0 then (RTE_PROC_PRIMARY, p)
         else let (r, p) = proc_call (os_call (sys_setlk sys fd)) p
              in (if r < 0 then RTE_PROC_SECONDARY else RTE_PROC_PRIMARY, p))"

text \<open>A process that shares nothing waits for its own magic number.\<close>

definition rte_config_init :: "'os sys \<Rightarrow> eal_env \<Rightarrow> 'os proc \<Rightarrow> 'os proc res" where
  "rte_config_init sys ep p =
     (let p = p\<lparr>pr_eal := (pr_eal p)\<lparr>e_process_type := ic_process_type (proc_ic p)\<rparr>\<rparr>
      in case rte_eal_process_type p of
           RTE_PROC_PRIMARY \<Rightarrow> rte_eal_config_create sys ep p
         | RTE_PROC_SECONDARY \<Rightarrow>
             res_bind (rte_eal_config_attach sys ep p) (\<lambda>p.
             res_bind (lift_opt (rte_eal_mcfg_wait_complete (if ep_no_shconf ep then (\<lambda>_. pr_magic p) else ep_shared_magic ep) 0)) (\<lambda>_.
             rte_eal_config_reattach sys ep p))
         | _ \<Rightarrow> abort ''Invalid process type'')"

section \<open>Memory\<close>

text \<open>The directories locked by the discovery.\<close>

fun unlock_dirs :: "'os sys \<Rightarrow> nat \<Rightarrow> nat \<Rightarrow> 'os hst \<Rightarrow> 'os hst" where
  "unlock_dirs sys i 0 s = s"
| "unlock_dirs sys i (Suc k) s =
     (let fd = hi_lock_descriptor (ic_hugepage_info (h_ic s) ! i)
      in if fd < 0 then unlock_dirs sys (i + 1) k s
         else let (_, s) = os_call (sys_flock sys fd LOCK_UN) s; s = os_do (sys_close sys fd) s
              in unlock_dirs sys (i + 1) k (upd_hpi i (hi_lock_descriptor_update (\<lambda>_. -1)) s))"

definition eal_hugedirs_unlock :: "'os sys \<Rightarrow> 'os hst \<Rightarrow> 'os hst" where
  "eal_hugedirs_unlock sys s = unlock_dirs sys 0 MAX_HUGEPAGE_SIZES s"

definition rte_eal_get_physmem_layout :: "'os hst \<Rightarrow> nat \<Rightarrow> rte_memseg" where
  "rte_eal_get_physmem_layout s = h_memseg s"

text \<open>The segments before the first one without an address.\<close>

definition used_segs :: "'os hst \<Rightarrow> rte_memseg list" where
  "used_segs s = takeWhile (\<lambda>ms. ms_addr ms \<noteq> 0) (map (h_memseg s) [0..<RTE_MAX_MEMSEG])"

definition rte_eal_get_physmem_size :: "'os hst \<Rightarrow> u64" where
  "rte_eal_get_physmem_size s = sum_list (map ms_len (used_segs s))"

definition rte_dump_physmem_layout :: "'os hst \<Rightarrow> (nat \<times> rte_memseg) list" where
  "rte_dump_physmem_layout s = enumerate 0 (used_segs s)"

definition rte_memory_get_nchannel :: "'os proc \<Rightarrow> u32" where "rte_memory_get_nchannel p = pr_nchannel p"
definition rte_memory_get_nrank :: "'os proc \<Rightarrow> u32" where "rte_memory_get_nrank p = pr_nrank p"

definition rte_eal_memdevice_init :: "'os proc \<Rightarrow> 'os proc \<times> int" where
  "rte_eal_memdevice_init p =
     (if rte_eal_process_type p = RTE_PROC_SECONDARY then (p, 0)
      else (p\<lparr>pr_nchannel := ic_force_nchannel (proc_ic p), pr_nrank := ic_force_nrank (proc_ic p)\<rparr>, 0))"

text \<open>The page that \<^verbatim>\<open>mlock\<close> is called for; the page size is an \<^verbatim>\<open>int\<close>.\<close>

definition rte_mem_lock_page :: "(u64 \<Rightarrow> u32 \<Rightarrow> int) \<Rightarrow> u32 \<Rightarrow> u64 \<Rightarrow> int" where
  "rte_mem_lock_page mlock page_size virt = mlock (virt AND scast (NOT (page_size - 1))) page_size"

definition rte_eal_memory_init :: "'os sys \<Rightarrow> eal_env \<Rightarrow> 'os proc \<Rightarrow> ('os proc \<times> int) res" where
  "rte_eal_memory_init sys ep p =
     res_bind (if rte_eal_process_type p = RTE_PROC_PRIMARY
               then lift_opt (map_option (\<lambda>(s, _, r). (s, r)) (rte_eal_hugepage_init sys (ep_tmp ep) (pr_lcores p) (pr_h p)))
               else ret (rte_eal_hugepage_attach sys (ep_tmp ep) (ep_errno ep) (ep_table ep) (pr_h p))) (\<lambda>(s, retval).
       let p = p\<lparr>pr_h := s, pr_eal := (pr_eal p)\<lparr>e_mem := ep_memory ep (h_memseg s) (e_mem (pr_eal p))\<rparr>\<rparr>
       in if retval < 0 then ret (p, -1)
          else if \<not> ep_no_shconf ep
          then let (p, r) = rte_eal_memdevice_init p in ret (p, if r < 0 then -1 else 0)
          else ret (p, 0))"

text \<open>Whether the warning about memory on the local socket is printed.\<close>

definition eal_check_mem_on_local_socket :: "lcores \<Rightarrow> 'os hst \<Rightarrow> bool option" where
  "eal_check_mem_on_local_socket ls s =
     map_option (\<lambda>socket. \<not> (\<exists>i \<in> {0..<RTE_MAX_MEMSEG}. ms_socket_id (rte_eal_get_physmem_layout s i) = sint socket \<and>
         ms_len (rte_eal_get_physmem_layout s i) > 0))
       (rte_lcore_to_socket_id (ls_master_lcore ls) ls)"

section \<open>Arguments\<close>

text \<open>
  The loop over the amounts of memory: \<open>sz\<close> is \<^verbatim>\<open>internal_config.socket_mem\<close>, \<open>total_mem\<close> their sum. The value is stored before
  it is checked.
\<close>

fun socket_mem_loop :: "string list \<Rightarrow> nat \<Rightarrow> u64 list \<Rightarrow> u64 \<Rightarrow> u64 list \<times> u64 option" where
  "socket_mem_loop [] i sz total_mem = (sz, Some total_mem)"
| "socket_mem_loop (arg # args) i sz total_mem =
     (let (v, end', erange) = strtoull arg 10; sz = sz[i := v]
      in if erange \<or> arg = [] \<or> end' \<noteq> [] then (sz, None)
         else let v = v * 1024 * 1024 in socket_mem_loop args (i + 1) (sz[i := v]) (total_mem + v))"

definition eal_parse_socket_mem :: "string \<Rightarrow> internal_config \<Rightarrow> (internal_config \<times> int) res" where
  "eal_parse_socket_mem socket_mem ic =
     (if length socket_mem \<ge> SOCKET_MEM_STRLEN then ret (ic, -1)
      else if socket_mem = [] then abort ''socket_mem[-1]''
      else if \<not> isdigit (last socket_mem) then ret (ic, -1)
      else
        let (buf, arg, arg_num) = rte_strsplit (Some socket_mem) (int (length socket_mem)) RTE_MAX_NUMA_NODES CHR '','' in
        if arg_num \<le> 0 then ret (ic, -1)
        else let (sz, total_mem) = socket_mem_loop (map (token_at buf) arg) 0 (ic_socket_mem ic) 0
             in ret (ic\<lparr>ic_force_sockets := True, ic_socket_mem := sz\<rparr>, if total_mem = None \<or> total_mem = Some 0 then -1 else 0))"

definition eal_parse_base_virtaddr :: "string \<Rightarrow> internal_config \<Rightarrow> internal_config \<times> int" where
  "eal_parse_base_virtaddr arg ic =
     (let (addr, end', erange) = strtoull arg 16
      in if erange \<or> arg = [] \<or> end' \<noteq> [] then (ic, -1)
         else (ic\<lparr>ic_base_virtaddr := RTE_PTR_ALIGN_CEIL addr RTE_PGSIZE_16M\<rparr>, 0))"

section \<open>Initialisation\<close>

definition rte_eal_init_alert :: "eal_env \<Rightarrow> string \<Rightarrow> 'os proc \<Rightarrow> 'os proc res" where
  "rte_eal_init_alert ep msg p =
     res_bind (RTE_LOG (ep_stderr ep) (ep_print ep) (unat (rte_lcore_id (pr_lcores p))) RTE_LOG_ERR 0 ''EAL'' (msg @ [CHR 0x0A])
       ((pr_log p)\<lparr>lg_printed := lg_printed (pr_log p) @ [(ep_stderr ep, ''EAL: FATAL: '' @ msg @ [CHR 0x0A])]\<rparr>)) (\<lambda>(l, _). ret (p\<lparr>pr_log := l\<rparr>))"

text \<open>The error exits: with or without \<^verbatim>\<open>rte_atomic32_clear(&run_once)\<close>.\<close>

definition init_fail :: "eal_env \<Rightarrow> string \<Rightarrow> int \<Rightarrow> bool \<Rightarrow> 'os proc \<Rightarrow> ('os proc \<times> int) res" where
  "init_fail ep msg e clear p =
     res_bind (rte_eal_init_alert ep msg p) (\<lambda>p.
       let p = p\<lparr>pr_eal := set_errno e (pr_eal p)\<rparr>
       in ret (if clear then p\<lparr>pr_run_once := rte_atomic32_clear (pr_run_once p)\<rparr> else p, -1))"

text \<open>The second half, from the memory on.\<close>

definition init_master :: "'os sys \<Rightarrow> eal_env \<Rightarrow> 'os proc \<Rightarrow> ('os proc \<times> int) res" where
  "init_master sys ep p =
     res_bind (lift_opt (eal_check_mem_on_local_socket (pr_lcores p) (pr_h p))) (\<lambda>_.
     res_bind (eal_thread_init_master sys (h_os (pr_h p)) (ep_setaff ep) (ls_master_lcore (pr_lcores p)) (pr_lcores p)) (\<lambda>ls.
       ret (p\<lparr>pr_lcores := ls\<rparr>, ep_fctret ep)))"

definition init_objects :: "'os sys \<Rightarrow> eal_env \<Rightarrow> 'os proc \<Rightarrow> ('os proc \<times> int) res" where
  "init_objects sys ep p =
     res_bind (rte_eal_memory_init sys ep p) (\<lambda>(p, r).
     if r < 0 then init_fail ep (''Cannot init memory'' @ [CHR 0x0A]) ENOMEM False p
     else let p = proc_do (eal_hugedirs_unlock sys) p in
       res_bind (rte_eal_memzone_init (pr_eal p)) (\<lambda>(e, r).
       let p = p\<lparr>pr_eal := e\<rparr> in
       if r < 0 then init_fail ep (''Cannot init memzone'' @ [CHR 0x0A]) ENODEV False p
       else res_bind (lift_opt (rte_eal_tailqs_init (e_tailqs (pr_eal p)))) (\<lambda>(t, r).
         let p = p\<lparr>pr_eal := (pr_eal p)\<lparr>e_tailqs := t\<rparr>\<rparr> in
         if r < 0 then init_fail ep (''Cannot init tail queues for objects'' @ [CHR 0x0A]) EFAULT False p
         else if ep_timer_init ep < 0 then init_fail ep (''Cannot init HPET or TSC timers'' @ [CHR 0x0A]) ENOTSUP False p
         else init_master sys ep p)))"

definition init_hugepage_info :: "'os sys \<Rightarrow> 'os proc \<Rightarrow> ('os proc \<times> int) res" where
  "init_hugepage_info sys p =
     (if \<not> ic_no_hugetlbfs (proc_ic p) \<and> ic_process_type (proc_ic p) \<noteq> RTE_PROC_SECONDARY
      then res_bind (eal_hugepage_info_init sys (pr_default_size p) (pr_h p)) (\<lambda>(s, ds, r).
        ret (p\<lparr>pr_h := s, pr_default_size := ds\<rparr>, r))
      else ret (p, 0))"

definition default_memory :: "internal_config \<Rightarrow> internal_config" where
  "default_memory ic =
     (if ic_memory ic = 0 \<and> \<not> ic_force_sockets ic
      then if ic_no_hugetlbfs ic then ic\<lparr>ic_memory := MEMSIZE_IF_NO_HUGE_PAGE\<rparr> else ic
      else ic)"

definition rte_eal_init :: "'os sys \<Rightarrow> eal_env \<Rightarrow> 'os proc \<Rightarrow> ('os proc \<times> int) res" where
  "rte_eal_init sys ep p =
     (if \<not> rte_cpu_is_supported (ep_cpu ep) then init_fail ep ''unsupported cpu type.'' ENOTSUP False p
      else let (v, first) = rte_atomic32_test_and_set (pr_run_once p); p = p\<lparr>pr_run_once := v\<rparr>
      in if \<not> first then init_fail ep ''already called initialization.'' EALREADY False p
         else res_bind (rte_config_init sys ep p) (\<lambda>p.
         res_bind (init_hugepage_info sys p) (\<lambda>(p, r).
         if r < 0 then init_fail ep ''Cannot get hugepage information.'' EACCES True p
         else let p = proc_do (\<lambda>s. s\<lparr>h_ic := default_memory (h_ic s)\<rparr>) p;
                  (l, r) = rte_eal_log_init (ep_log_stream ep) (ep_logid ep) (ep_facility ep) (pr_log p);
                  p = p\<lparr>pr_log := l\<rparr>
              in if r < 0 then init_fail ep ''Cannot init logging.'' ENOMEM True p
                 else init_objects sys ep p)))"

end
