(* ===== verification/Eal_Init_Correct.thy ===== *)
theory Eal_Init_Correct
  imports Eal_Init Hugepage_Boot Hugepage_Info_Correct Memzone_Props Log_Correct
begin

text \<open>
  What a successful \<^verbatim>\<open>rte_eal_init\<close> leaves behind, and what it does when it is called again or fails.
\<close>

section \<open>The steps on the operating system\<close>

lemma proc_callD:
  assumes "proc_call f p = (r, p')"
  shows "f (pr_h p) = (r, pr_h p')" "p' = p\<lparr>pr_h := pr_h p'\<rparr>"
  using assms by (auto simp: proc_call_def split: prod.splits)

text \<open>Everything but the state of the operating system, the descriptor and the address of the configuration stays.\<close>

definition config_step :: "('os \<Rightarrow> region set) \<Rightarrow> 'os proc \<Rightarrow> 'os proc \<Rightarrow> bool" where
  "config_step regs p p' \<longleftrightarrow> keeps regs (pr_h p) (pr_h p') \<and>
     p' = p\<lparr>pr_h := pr_h p', pr_mem_cfg_fd := pr_mem_cfg_fd p', pr_mem_config := pr_mem_config p', pr_mem_cfg_addr := pr_mem_cfg_addr p'\<rparr>"

lemma config_step_trans: "config_step regs p p' \<Longrightarrow> config_step regs p' p'' \<Longrightarrow> config_step regs p p''"
  unfolding config_step_def by (cases p; cases p'; cases p'') (auto intro: keeps_trans)

lemma config_step_refl: "config_step regs p p"
  by (simp add: config_step_def)

lemma config_step_call: "proc_call (os_call g) p = (r, p') \<Longrightarrow> quiet regs (snd \<circ> g) \<Longrightarrow> config_step regs p p'"
  using keeps_call by (fastforce simp: config_step_def proc_call_def split: prod.splits)

text \<open>Locking a file maps and unmaps nothing either.\<close>

definition start_laws :: "'os sys \<Rightarrow> ('os \<Rightarrow> region set) \<Rightarrow> bool" where
  "start_laws sys regs \<longleftrightarrow> kernel_laws sys regs \<and> (\<forall>fd. quiet regs (snd \<circ> sys_setlk sys fd))"

lemma config_create_step:
  assumes "rte_eal_config_create sys ep p = ret p'" "start_laws sys regs"
  shows "config_step regs p p'"
proof (cases "ep_no_shconf ep")
  case True
  then show ?thesis using assms(1) by (simp add: rte_eal_config_create_def config_step_refl)
next
  case False
  have laws: "kernel_laws sys regs" "\<And>fd. quiet regs (snd \<circ> sys_setlk sys fd)" using assms(2) by (simp_all add: start_laws_def)
  note q = kernel_quiet [OF laws(1)]
  define hint where "hint = (if ic_base_virtaddr (proc_ic p) \<noteq> 0
      then RTE_ALIGN_FLOOR (ic_base_virtaddr (proc_ic p) - ep_sizeof_config ep) (sys_page_size sys) else 0)"
  define path where "path = eal_runtime_config_path sys (proc_ic p)"
  define p1 where "p1 = (if pr_mem_cfg_fd p < 0
      then let (fd, p) = proc_call (os_call (sys_open sys path O_RDWR_CREAT)) p in p\<lparr>pr_mem_cfg_fd := fd\<rparr> else p)"
  have 1: "config_step regs p p1"
  proof (cases "pr_mem_cfg_fd p < 0")
    case True
    obtain fd p0 where o: "proc_call (os_call (sys_open sys path O_RDWR_CREAT)) p = (fd, p0)" by (rule prod.exhaust)
    have "config_step regs p0 (p0\<lparr>pr_mem_cfg_fd := fd\<rparr>)" by (simp add: config_step_def)
    then show ?thesis using config_step_trans [OF config_step_call [OF o q(1)]] True o by (simp add: p1_def)
  qed (simp add: p1_def config_step_refl)
  obtain r2 p2 where 2: "proc_call (os_call (sys_ftruncate sys (pr_mem_cfg_fd p1) (ep_sizeof_config ep))) p1 = (r2, p2)"
    by (rule prod.exhaust)
  obtain r3 p3 where 3: "proc_call (os_call (sys_setlk sys (pr_mem_cfg_fd p2))) p2 = (r3, p3)" by (rule prod.exhaust)
  obtain a p4 where 4: "proc_call (os_call (sys_mmap sys hint (ep_sizeof_config ep) PROT_READ_WRITE MAP_SHARED (pr_mem_cfg_fd p3))) p3 = (a, p4)"
    by (rule prod.exhaust)
  have c: "config_step regs p1 p2" "config_step regs p2 p3"
    using config_step_call [OF 2 q(5)] config_step_call [OF 3 laws(2)] by simp_all
  obtain a' where a': "a = Some a'" and p': "p' = p4\<lparr>pr_mem_config := a', pr_mem_cfg_addr := a'\<rparr>"
    using assms(1) False 2 3 4 unfolding rte_eal_config_create_def Let_def [of "eal_runtime_config_path _ _"] path_def [symmetric]
      hint_def [symmetric] p1_def [symmetric]
    by (auto simp: Let_def p1_def [symmetric] split: if_splits option.splits)
  obtain h where "os_call (sys_mmap sys hint (ep_sizeof_config ep) PROT_READ_WRITE MAP_SHARED (pr_mem_cfg_fd p3)) (pr_h p3) = (Some a', h)"
    and p4: "p4 = p3\<lparr>pr_h := h\<rparr>"
    using 4 a' by (auto simp: proc_call_def split: prod.splits)
  from mmap_new(6) [OF laws(1) this(1)] have "config_step regs p3 p'" unfolding p' p4 by (simp add: config_step_def)
  then show ?thesis using 1 c by (blast intro: config_step_trans)
qed

lemma config_init_primary:
  assumes "rte_config_init sys ep p = ret p'" "start_laws sys regs" "ic_process_type (proc_ic p) = RTE_PROC_PRIMARY"
  shows "config_step regs (p\<lparr>pr_eal := (pr_eal p)\<lparr>e_process_type := RTE_PROC_PRIMARY\<rparr>\<rparr>) p'"
  using assms config_create_step [OF _ assms(2)] by (simp add: rte_config_init_def rte_eal_process_type_def Let_def)

section \<open>The directories are unlocked\<close>

lemma unlock_dirs_steps:
  assumes "quiet_files sys regs"
  shows "keeps_but_sizes regs s (unlock_dirs sys i k s) \<and>
    length (ic_hugepage_info (h_ic (unlock_dirs sys i k s))) = length (ic_hugepage_info (h_ic s)) \<and>
    (\<forall>j < length (ic_hugepage_info (h_ic s)). hi_lock_descriptor (ic_hugepage_info (h_ic (unlock_dirs sys i k s)) ! j) =
       (let fd = hi_lock_descriptor (ic_hugepage_info (h_ic s) ! j) in if i \<le> j \<and> j < i + k \<and> \<not> fd < 0 then -1 else fd))"
proof (induction k arbitrary: i s)
  case (Suc k)
  let ?fd = "hi_lock_descriptor (ic_hugepage_info (h_ic s) ! i)"
  show ?case
  proof (cases "?fd < 0")
    case True
    then have "unlock_dirs sys i (Suc k) s = unlock_dirs sys (i + 1) k s" by (simp add: Let_def)
    then show ?thesis using Suc [of s "i + 1"] True by (auto simp: Let_def less_Suc_eq_le le_Suc_eq dest: antisym)
  next
    case False
    obtain r s1 where 1: "os_call (sys_flock sys ?fd LOCK_UN) s = (r, s1)" by (rule prod.exhaust)
    define s2 where "s2 = upd_hpi i (hi_lock_descriptor_update (\<lambda>_. -1)) (os_do (sys_close sys ?fd) s1)"
    have u: "unlock_dirs sys i (Suc k) s = unlock_dirs sys (i + 1) k s2" using False 1 by (simp add: s2_def Let_def)
    have k2: "keeps_but_sizes regs s s2"
    proof -
      have "keeps regs s s1" "keeps regs s1 (os_do (sys_close sys ?fd) s1)"
        using assms by (auto simp: quiet_files_def intro!: keeps_call [OF _ 1] keeps_do)
      then show ?thesis unfolding s2_def by (meson keeps_but_sizesI keeps_trans keeps_but_sizes_trans upd_hpi_keeps)
    qed
    have ic: "ic_hugepage_info (h_ic s2) = (ic_hugepage_info (h_ic s))[i := (ic_hugepage_info (h_ic s) ! i)\<lparr>hi_lock_descriptor := -1\<rparr>]"
      using os_callD [OF 1] by (simp add: s2_def)
    show ?thesis
      unfolding u using Suc [of s2 "i + 1"] keeps_but_sizes_trans [OF k2] False
      by (auto simp: ic Let_def nth_list_update)
  qed
qed (simp add: keeps_but_sizes_refl Let_def)

lemma hugedirs_unlock:
  assumes "quiet_files sys regs"
  shows "regs (h_os s) \<subseteq> regs (h_os (eal_hugedirs_unlock sys s))" "h_memseg (eal_hugedirs_unlock sys s) = h_memseg s"
    "\<forall>j < MAX_HUGEPAGE_SIZES. j < length (ic_hugepage_info (h_ic s)) \<longrightarrow>
       hi_lock_descriptor (ic_hugepage_info (h_ic (eal_hugedirs_unlock sys s)) ! j) < 0"
    "length (ic_hugepage_info (h_ic (eal_hugedirs_unlock sys s))) = length (ic_hugepage_info (h_ic s))"
  using unlock_dirs_steps [OF assms, of s 0 MAX_HUGEPAGE_SIZES]
  by (auto simp: eal_hugedirs_unlock_def keeps_but_sizes_def Let_def)

section \<open>Tail queues\<close>

lemma tailq_update_head:
  "rte_eal_tailq_update t s = Some s' \<Longrightarrow> u \<noteq> t \<Longrightarrow> tl_head (tq_elem s' u) = tl_head (tq_elem s u)"
  by (auto simp: rte_eal_tailq_update_def rte_eal_tailq_create_def set_tailq_head_def Let_def bind_eq_Some_conv
    split: if_splits)

lemma tailqs_init_heads:
  assumes "tailqs_init_loop ts s = Some (s', 0)" "distinct ts"
  shows "(\<forall>t \<in> set ts. tl_head (tq_elem s' t) \<noteq> None) \<and> (\<forall>u. u \<notin> set ts \<longrightarrow> tl_head (tq_elem s' u) = tl_head (tq_elem s u))"
  using assms
proof (induction ts arbitrary: s)
  case (Cons t ts)
  obtain s1 where 1: "rte_eal_tailq_update t s = Some s1" "tl_head (tq_elem s1 t) \<noteq> None" "tailqs_init_loop ts s1 = Some (s', 0)"
    using Cons.prems(1) by (auto simp: bind_eq_Some_conv split: if_splits)
  have "distinct ts" "t \<notin> set ts" using Cons.prems(2) by simp_all
  then show ?case using Cons.IH [OF 1(3)] 1(2) tailq_update_head [OF 1(1)] by auto
qed simp

lemma tailqs_init_result: "tailqs_init_loop ts s = Some (s', r) \<Longrightarrow> r = 0 \<or> r = -1"
  by (induction ts arbitrary: s) (auto simp: bind_eq_Some_conv split: if_splits)

section \<open>Results of the memory\<close>

lemma publish_result: "publish_pages sys used tbl s = Some (s', table, r) \<Longrightarrow> r = 0 \<or> r = -1"
  unfolding publish_pages_def Let_def
  by (auto simp: bind_eq_Some_conv split: if_split_asm prod.split_asm)

lemma bind_res_result:
  assumes "Option.bind x (\<lambda>(r, s). case r of Inl u \<Rightarrow> f u s | Inr v \<Rightarrow> g v s) = Some y"
    "\<And>u s. f u s = Some y \<Longrightarrow> P" "\<And>v s. g v s = Some y \<Longrightarrow> P"
  shows P
proof -
  obtain r s where "x = Some (r, s)" using assms(1) by (auto simp: bind_eq_Some_conv)
  then show P using assms by (cases r) auto
qed

lemma init_result:
  assumes "rte_eal_hugepage_init sys tmp ls s = Some (s', table, r)"
  shows "r = 0 \<or> r = -1"
proof (cases "ic_no_hugetlbfs (h_ic (test_phys_addrs_available sys tmp s))")
  case True
  then show ?thesis using assms
    by (auto simp: rte_eal_hugepage_init_def fill_no_hugetlbfs_def Let_def split: prod.split_asm option.split_asm)
next
  case False
  then show ?thesis using assms
    unfolding rte_eal_hugepage_init_def Let_def if_False
    by (auto split: if_split_asm elim!: bind_res_result dest: publish_result)
qed

lemma info_result_cases: "eal_hugepage_info_init sys ds s = ret (s', ds', r) \<Longrightarrow> r = 0 \<or> r = -1"
  by (auto simp: eal_hugepage_info_init_def res_bind_ret Let_def split: if_splits option.splits)

section \<open>A successful start\<close>

text \<open>
  What is assumed of the system: the directories of the huge page sizes are named after different multiples of
  4 KB, and the memory of new mappings is zero.
\<close>

definition huge_dirs_law :: "'os sys \<Rightarrow> bool" where
  "huge_dirs_law sys \<longleftrightarrow> (\<forall>os names. sys_dir sys os sys_dir_path = Some names \<longrightarrow> distinct (map dir_size (huge_dirs names)) \<and>
     (\<forall>n \<in> set (huge_dirs names). 0 < dir_size n \<and> 4096 dvd unat (dir_size n)))"

definition memory_law :: "eal_env \<Rightarrow> bool" where
  "memory_law ep \<longleftrightarrow> (\<forall>segs N m. segs_ok segs N \<longrightarrow> fresh_mem segs N (ep_memory ep segs m))"

text \<open>A primary process with huge pages that has not been initialised.\<close>

definition start_ok :: "'os sys \<Rightarrow> 'os proc \<Rightarrow> bool" where
  "start_ok sys p \<longleftrightarrow> ic_process_type (proc_ic p) = RTE_PROC_PRIMARY \<and> \<not> ic_no_hugetlbfs (proc_ic p) \<and> config_shape (proc_ic p) \<and>
     default_ok sys (pr_default_size p) \<and> (\<forall>g. ms_len (h_memseg (pr_h p) g) = 0) \<and> rw_cnt (e_mlock (pr_eal p)) = 0 \<and>
     distinct (tq_local (e_tailqs (pr_eal p)))"

lemma init_fail_result: "init_fail ep msg e clear p = ret (p', r) \<Longrightarrow> r = -1"
  by (auto simp: init_fail_def res_bind_ret Let_def)

lemma memory_init_primary:
  assumes "rte_eal_memory_init sys ep p = ret (p', r)" "0 \<le> r" "rte_eal_process_type p = RTE_PROC_PRIMARY"
  shows "\<exists>s table. rte_eal_hugepage_init sys (ep_tmp ep) (pr_lcores p) (pr_h p) = Some (s, table, 0) \<and>
    pr_h p' = s \<and> pr_eal p' = (pr_eal p)\<lparr>e_mem := ep_memory ep (h_memseg s) (e_mem (pr_eal p))\<rparr> \<and> pr_run_once p' = pr_run_once p"
proof -
  obtain s table retval where h: "rte_eal_hugepage_init sys (ep_tmp ep) (pr_lcores p) (pr_h p) = Some (s, table, retval)"
    using assms(1,3) by (cases "rte_eal_hugepage_init sys (ep_tmp ep) (pr_lcores p) (pr_h p)") (auto simp: rte_eal_memory_init_def)
  then have "retval = 0"
    using assms init_result [OF h] by (auto simp: rte_eal_memory_init_def Let_def)
  then show ?thesis using assms h
    by (auto simp: rte_eal_memory_init_def rte_eal_memdevice_init_def rte_eal_process_type_def Let_def split: if_splits)
qed

lemma init_master_result:
  "init_master sys ep p = ret (p', r) \<Longrightarrow> pr_h p' = pr_h p \<and> pr_eal p' = pr_eal p \<and> pr_run_once p' = pr_run_once p"
  by (auto simp: init_master_def res_bind_ret)

lemma memzone_init_tailqs:
  assumes "rte_eal_memzone_init s = ret (e, r)"
  shows "e_tailqs e = e_tailqs s"
proof (cases "e_process_type s = RTE_PROC_SECONDARY")
  case False
  then obtain l where "mlock_write s = ret (s\<lparr>e_mlock := l\<rparr>)"
    using assms by (cases "rte_rwlock_write_lock (e_mlock s)") (auto simp: rte_eal_memzone_init_def mlock_write_def lift_opt_def)
  then show ?thesis
    using assms False by (auto simp: rte_eal_memzone_init_def mlock_write_release_def Let_def split: prod.split_asm)
qed (use assms in \<open>simp add: rte_eal_memzone_init_def\<close>)

lemma tailqs_frame [simp]:
  "mz_ok lim (e\<lparr>e_tailqs := t\<rparr>) A = mz_ok lim e A" "zone_names (e\<lparr>e_tailqs := t\<rparr>) = zone_names e"
  by (simp_all add: mz_ok_def zones_ok_def zone_used_def zone_names_def memzone_lookup_thread_unsafe_def fun_eq_iff)

lemma objects_ok:
  assumes r: "init_objects sys ep p = ret (p', r)" "0 \<le> r" and laws: "kernel_laws sys regs" "memory_law ep"
    and p: "rte_eal_process_type p = RTE_PROC_PRIMARY" "\<not> ic_no_hugetlbfs (proc_ic p)" "sizes_ok (proc_ic p)"
      "\<forall>g. ms_len (h_memseg (pr_h p) g) = 0" "rw_cnt (e_mlock (pr_eal p)) = 0" "distinct (tq_local (e_tailqs (pr_eal p)))"
  shows "\<exists>N. segs_ok (h_memseg (pr_h p')) N \<and> segs_mapped (regs (h_os (pr_h p'))) (h_memseg (pr_h p')) N"
    "mz_ok 0 (pr_eal p') {}" "zone_names (pr_eal p') = (\<lambda>_. None)"
    "\<forall>t \<in> set (tq_local (e_tailqs (pr_eal p))). tl_head (tq_elem (e_tailqs (pr_eal p')) t) \<noteq> None"
    "\<forall>h \<in> set (take MAX_HUGEPAGE_SIZES (ic_hugepage_info (proc_ic p'))). hi_lock_descriptor h < 0"
    "pr_run_once p' = pr_run_once p"
proof -
  obtain p1 r1 where m: "rte_eal_memory_init sys ep p = ret (p1, r1)" using r(1) by (auto simp: init_objects_def res_bind_ret)
  then have r1: "0 \<le> r1" using r init_fail_result by (fastforce simp: init_objects_def split: if_splits)
  from memory_init_primary [OF m r1 p(1)] obtain s table where
    h: "rte_eal_hugepage_init sys (ep_tmp ep) (pr_lcores p) (pr_h p) = Some (s, table, 0)" "pr_h p1 = s"
      "pr_eal p1 = (pr_eal p)\<lparr>e_mem := ep_memory ep (h_memseg s) (e_mem (pr_eal p))\<rparr>" "pr_run_once p1 = pr_run_once p" by blast
  from init_segments [OF laws(1) p(2,3,4) h(1)] obtain N where
    N: "segs_ok (h_memseg s) N" "segs_mapped (regs (h_os s)) (h_memseg s) N" by blast
  define p2 where "p2 = proc_do (eal_hugedirs_unlock sys) p1"
  note u = hugedirs_unlock [OF quiet_files_kernel [OF laws(1)], of s]
  have "fresh_mem (h_memseg s) N (e_mem (pr_eal p1))" using laws(2) N(1) h(3) by (simp add: memory_law_def)
  then have boot: "eal_boot_ok 0 (pr_eal p1) N"
    using fresh_boot [OF N(1)] p(1,5) h(3) by (simp add: eal_boot_ok_def rte_eal_process_type_def)
  from memzone_init_ok [OF boot] obtain e where
    e: "rte_eal_memzone_init (pr_eal p1) = ret (e, 0)" "mz_ok 0 e {}" "zone_names e = (\<lambda>_. None)" by blast
  have tq: "e_tailqs e = e_tailqs (pr_eal p)" using memzone_init_tailqs [OF e(1)] h(3) by simp
  have p2: "pr_eal p2 = pr_eal p1" "pr_run_once p2 = pr_run_once p" "pr_h p2 = eal_hugedirs_unlock sys s"
    by (simp_all add: p2_def proc_do_def h)
  obtain t r2 where t: "rte_eal_tailqs_init (e_tailqs e) = Some (t, r2)" "0 \<le> r2"
    and rest: "init_master sys ep (p2\<lparr>pr_eal := e\<lparr>e_tailqs := t\<rparr>\<rparr>) = ret (p', r)"
    using r m r1 e(1) init_fail_result
    by (fastforce simp: init_objects_def p2_def [symmetric] p2 res_bind_ret Let_def lift_opt_def split: if_splits option.splits)
  from tailqs_init_result t have "rte_eal_tailqs_init (e_tailqs e) = Some (t, 0)"
    by (fastforce simp: rte_eal_tailqs_init_def)
  then have heads: "\<forall>u \<in> set (tq_local (e_tailqs (pr_eal p))). tl_head (tq_elem t u) \<noteq> None"
    using tailqs_init_heads [of "tq_local (e_tailqs e)"] p(6) tq by (simp add: rte_eal_tailqs_init_def)
  note fin = init_master_result [OF rest]
  show "\<exists>N. segs_ok (h_memseg (pr_h p')) N \<and> segs_mapped (regs (h_os (pr_h p'))) (h_memseg (pr_h p')) N"
    using N u(1,2) fin p2(3) by (intro exI [of _ N]) (auto simp: segs_mapped_def, blast)
  show "mz_ok 0 (pr_eal p') {}" "zone_names (pr_eal p') = (\<lambda>_. None)"
    using e(2,3) fin by simp_all
  show "\<forall>t \<in> set (tq_local (e_tailqs (pr_eal p))). tl_head (tq_elem (e_tailqs (pr_eal p')) t) \<noteq> None"
    using heads fin by simp
  show "\<forall>h \<in> set (take MAX_HUGEPAGE_SIZES (ic_hugepage_info (proc_ic p'))). hi_lock_descriptor h < 0"
    using u(3,4) fin p2(3) by (auto simp: in_set_conv_nth)
  show "pr_run_once p' = pr_run_once p" using fin p2(2) by simp
qed

lemma default_memory_ok:
  "sizes_ok (default_memory ic) = sizes_ok ic" "ic_no_hugetlbfs (default_memory ic) = ic_no_hugetlbfs ic"
  by (simp_all add: default_memory_def sizes_ok_def hp_sizes_def)

lemma log_init_cases: "rte_eal_log_init stream name facility l = (l', r) \<Longrightarrow> r < 0 \<or> r = 0"
  by (auto simp: rte_eal_log_init_def split: if_splits)

text \<open>The first half, up to the memory.\<close>

lemma start_cases:
  assumes r: "rte_eal_init sys ep p = ret (p', r)" "0 \<le> r" and laws: "start_laws sys regs" "huge_dirs_law sys"
    and p: "start_ok sys p"
  shows "\<exists>q. init_objects sys ep q = ret (p', r) \<and> rte_eal_process_type q = RTE_PROC_PRIMARY \<and> \<not> ic_no_hugetlbfs (proc_ic q) \<and>
    sizes_ok (proc_ic q) \<and> (\<forall>g. ms_len (h_memseg (pr_h q) g) = 0) \<and> rw_cnt (e_mlock (pr_eal q)) = 0 \<and>
    e_tailqs (pr_eal q) = e_tailqs (pr_eal p) \<and> pr_run_once q = 1"
proof -
  note neg = init_fail_result
  have run: "rte_atomic32_test_and_set (pr_run_once p) = (1, True)" and cpu: "rte_cpu_is_supported (ep_cpu ep)"
    using r neg always_supported by (auto simp: rte_eal_init_def rte_atomic32_test_and_set_def rte_atomic32_cmpset_def x86_cmpxchg_def
      split: if_splits dest!: neg)
  define p0 where "p0 = p\<lparr>pr_run_once := 1\<rparr>"
  obtain p1 where 1: "rte_config_init sys ep p0 = ret p1"
    using r(1) run cpu by (auto simp: rte_eal_init_def p0_def res_bind_ret)
  have st: "ic_process_type (proc_ic p0) = RTE_PROC_PRIMARY" using p by (simp add: p0_def start_ok_def)
  note c = config_init_primary [OF 1 laws(1) st]
  then have p1: "h_ic (pr_h p1) = h_ic (pr_h p)" "h_memseg (pr_h p1) = h_memseg (pr_h p)"
    "pr_eal p1 = (pr_eal p)\<lparr>e_process_type := RTE_PROC_PRIMARY\<rparr>" "pr_run_once p1 = 1"
    "pr_default_size p1 = pr_default_size p"
    unfolding config_step_def keeps_def p0_def by (auto simp: p0_def dest: arg_cong [of p1 _ pr_eal] arg_cong [of p1 _ pr_run_once]
      arg_cong [of p1 _ pr_default_size])
  obtain s ds r2 where 2: "eal_hugepage_info_init sys (pr_default_size p1) (pr_h p1) = ret (s, ds, r2)"
    using r(1) run cpu 1 p p1 by (auto simp: rte_eal_init_def p0_def res_bind_ret init_hugepage_info_def start_ok_def)
  define p2 where "p2 = p1\<lparr>pr_h := s, pr_default_size := ds\<rparr>"
  have i2: "init_hugepage_info sys p1 = ret (p2, r2)" using 2 p p1 by (simp add: init_hugepage_info_def start_ok_def p2_def)
  have r2: "r2 = 0"
    using info_result_cases [OF 2] r run cpu 1 i2 by (auto simp: rte_eal_init_def p0_def [symmetric] dest!: neg)
  note 2 = 2 [unfolded r2]
  obtain names where names: "sys_dir sys (h_os (pr_h p1)) sys_dir_path = Some names"
    using 2 by (auto simp: eal_hugepage_info_init_def split: option.splits)
  have ds: "default_ok sys (pr_default_size p1)" "config_shape (h_ic (pr_h p1))" using p p1 by (simp_all add: start_ok_def)
  note ok = info_init_ok [OF 2 names ds quiet_files_none]
  have sz: "sizes_ok (h_ic s)" using info_init_sizes [OF 2 names ds] laws(2) names unfolding huge_dirs_law_def by blast
  have nh: "\<not> ic_no_hugetlbfs (h_ic s)" using p p1 by (subst ok(5)) (simp add: start_ok_def)
  obtain l r3 where 3: "rte_eal_log_init (ep_log_stream ep) (ep_logid ep) (ep_facility ep) (pr_log p2) = (l, r3)" by (rule prod.exhaust)
  define q where "q = (proc_do (\<lambda>s. s\<lparr>h_ic := default_memory (h_ic s)\<rparr>) p2)\<lparr>pr_log := l\<rparr>"
  have pl: "pr_log (proc_do f p2) = pr_log p2" for f by (simp add: proc_do_def)
  have "init_objects sys ep q = ret (p', r)"
    using log_init_cases [OF 3] r run cpu 1 i2 r2 3
    by (auto simp: rte_eal_init_def p0_def [symmetric] pl q_def dest!: neg split: if_splits)
  then show ?thesis
    using p p1 sz nh ok(4) default_memory_ok
    by (intro exI [of _ q]) (simp add: q_def p2_def proc_do_def rte_eal_process_type_def start_ok_def)
qed

text \<open>
  C6. When \<^verbatim>\<open>rte_eal_init\<close> succeeds in a primary process with huge pages, everything is in place: the
  segments of memory are disjoint and mapped to the last byte, the heap on them is well formed and without blocks,
  the directory of the zones is empty and its lock free, every tail queue that was registered has its head, no
  huge page directory stays locked, and the flag that forbids a second start is set.
\<close>

theorem eal_init_boots:
  assumes "start_laws sys regs" "huge_dirs_law sys" "memory_law ep" "start_ok sys p"
    "rte_eal_init sys ep p = ret (p', r)" "0 \<le> r"
  shows "(\<exists>N. segs_ok (h_memseg (pr_h p')) N \<and> segs_mapped (regs (h_os (pr_h p'))) (h_memseg (pr_h p')) N) \<and>
    mz_ok 0 (pr_eal p') {} \<and> zone_names (pr_eal p') = (\<lambda>_. None) \<and>
    (\<forall>t \<in> set (tq_local (e_tailqs (pr_eal p))). tl_head (tq_elem (e_tailqs (pr_eal p')) t) \<noteq> None) \<and>
    (\<forall>h \<in> set (take MAX_HUGEPAGE_SIZES (ic_hugepage_info (proc_ic p'))). hi_lock_descriptor h < 0) \<and>
    pr_run_once p' = 1"
proof -
  from start_cases [OF assms(5,6,1,2,4)] obtain q where q: "init_objects sys ep q = ret (p', r)"
    "rte_eal_process_type q = RTE_PROC_PRIMARY" "\<not> ic_no_hugetlbfs (proc_ic q)" "sizes_ok (proc_ic q)"
    "\<forall>g. ms_len (h_memseg (pr_h q) g) = 0" "rw_cnt (e_mlock (pr_eal q)) = 0"
    "e_tailqs (pr_eal q) = e_tailqs (pr_eal p)" "pr_run_once q = 1" by blast
  have "distinct (tq_local (e_tailqs (pr_eal q)))" using q(7) assms(4) by (simp add: start_ok_def)
  note objects_ok [OF q(1) assms(6) _ assms(3) q(2-6) this]
  note ok = this [OF assms(1) [unfolded start_laws_def, THEN conjunct1]]
  show ?thesis using ok q(7,8) by simp
qed

section \<open>Failures\<close>

lemma alert_ok:
  assumes "types_wf (lg_logs (pr_log p))"
  shows "\<exists>l. rte_eal_init_alert ep msg p = ret (p\<lparr>pr_log := l\<rparr>) \<and> lg_logs l = lg_logs (pr_log p)"
proof -
  let ?l = "(pr_log p)\<lparr>lg_printed := lg_printed (pr_log p) @ [(ep_stderr ep, ''EAL: FATAL: '' @ msg @ [CHR 0x0A])]\<rparr>"
  have "types_wf (lg_logs ?l)" using assms by simp
  from vlog_cases [OF this, of "ep_stderr ep" "ep_print ep" "unat (rte_lcore_id (pr_lcores p))" RTE_LOG_ERR 0 "''EAL'' @ '': '' @ msg @ [CHR 0x0A]"]
  show ?thesis by (auto simp: rte_eal_init_alert_def RTE_LOG_def rte_log_def)
qed

lemma fail_ok:
  assumes "types_wf (lg_logs (pr_log p))"
  shows "\<exists>l. init_fail ep msg e False p = ret (p\<lparr>pr_log := l, pr_eal := set_errno e (pr_eal p)\<rparr>, -1) \<and> lg_logs l = lg_logs (pr_log p)"
  using alert_ok [OF assms, of ep msg] by (auto simp: init_fail_def)

lemma already_run:
  assumes "types_wf (lg_logs (pr_log p))" "pr_run_once p \<noteq> 0"
  shows "\<exists>l. rte_eal_init sys ep p = ret (p\<lparr>pr_log := l, pr_eal := set_errno EALREADY (pr_eal p)\<rparr>, -1)"
proof -
  have "rte_atomic32_test_and_set (pr_run_once p) = (pr_run_once p, False)"
    using assms(2) by (simp add: rte_atomic32_test_and_set_def rte_atomic32_cmpset_def x86_cmpxchg_def)
  then show ?thesis using fail_ok [OF assms(1), of ep "''already called initialization.''" EALREADY]
    by (auto simp: rte_eal_init_def always_supported)
qed

section \<open>What no step changes\<close>

text \<open>The magic number, the table of log types, and the flag of the start.\<close>

definition kept :: "'os proc \<Rightarrow> 'os proc \<Rightarrow> bool" where
  "kept p p' \<longleftrightarrow> pr_magic p' = pr_magic p \<and> lg_logs (pr_log p') = lg_logs (pr_log p) \<and> pr_run_once p' = pr_run_once p"

lemma proc_kept [simp]: "kept p (snd (proc_call f p))" "kept p (proc_do g p)"
  by (simp_all add: kept_def proc_call_def proc_do_def split: prod.splits)

lemma vlog_kept: "rte_vlog stderr print lcore level t msg s = ret (s', r) \<Longrightarrow> lg_logs s' = lg_logs s"
  by (auto simp: rte_vlog_def Let_def res_bind_ret split: if_splits)

lemma alert_kept: "rte_eal_init_alert ep msg p = ret q \<Longrightarrow> \<exists>l. q = p\<lparr>pr_log := l\<rparr> \<and> lg_logs l = lg_logs (pr_log p)"
  by (auto simp: rte_eal_init_alert_def RTE_LOG_def rte_log_def res_bind_ret dest!: vlog_kept)

lemma fail_kept:
  assumes "init_fail ep msg e clear p = ret (p', r)"
  shows "r = -1" "pr_magic p' = pr_magic p" "lg_logs (pr_log p') = lg_logs (pr_log p)" "e_errno (pr_eal p') = e"
    "pr_run_once p' = (if clear then 0 else pr_run_once p)"
proof -
  obtain q where "rte_eal_init_alert ep msg p = ret q" using assms by (auto simp: init_fail_def res_bind_ret)
  moreover from alert_kept [OF this] obtain l where "q = p\<lparr>pr_log := l\<rparr>" "lg_logs l = lg_logs (pr_log p)" by blast
  ultimately have "p' = (let p = p\<lparr>pr_log := l, pr_eal := set_errno e (pr_eal p)\<rparr> in if clear then p\<lparr>pr_run_once := 0\<rparr> else p)" "r = -1"
    using assms by (auto simp: init_fail_def rte_atomic32_clear_def Let_def)
  then show "r = -1" "pr_magic p' = pr_magic p" "lg_logs (pr_log p') = lg_logs (pr_log p)" "e_errno (pr_eal p') = e"
    "pr_run_once p' = (if clear then 0 else pr_run_once p)"
    using \<open>lg_logs l = lg_logs (pr_log p)\<close> by (simp_all add: Let_def set_errno_def)
qed

lemma create_kept: "rte_eal_config_create sys ep p = ret p' \<Longrightarrow> kept p p'"
  unfolding rte_eal_config_create_def Let_def
  by (auto simp: proc_call_def kept_def split: if_split_asm prod.split_asm option.split_asm)

lemma attach_kept: "rte_eal_config_attach sys ep p = ret p' \<Longrightarrow> kept p p'"
  unfolding rte_eal_config_attach_def Let_def
  by (auto simp: proc_call_def kept_def split: if_split_asm prod.split_asm option.split_asm)

lemma reattach_kept: "rte_eal_config_reattach sys ep p = ret p' \<Longrightarrow> kept p p'"
  unfolding rte_eal_config_reattach_def Let_def
  by (auto simp: proc_call_def proc_do_def kept_def split: if_split_asm prod.split_asm option.split_asm)

lemma config_init_kept: "rte_config_init sys ep p = ret p' \<Longrightarrow> kept p p'"
  by (auto simp: rte_config_init_def res_bind_ret Let_def kept_def split: rte_proc_type_t.split_asm
    dest!: create_kept attach_kept reattach_kept)

lemma hugepage_info_kept: "init_hugepage_info sys p = ret (p', r) \<Longrightarrow> kept p p'"
  by (auto simp: init_hugepage_info_def res_bind_ret kept_def split: if_split_asm)

lemma kept_trans: "kept p q \<Longrightarrow> kept q p' \<Longrightarrow> kept p p'"
  by (simp add: kept_def)

lemma memory_kept:
  assumes "rte_eal_memory_init sys ep p = ret (p', r)"
  shows "kept p p'"
proof -
  obtain s retval where h: "(if rte_eal_process_type p = RTE_PROC_PRIMARY
      then lift_opt (map_option (\<lambda>(s, _, r). (s, r)) (rte_eal_hugepage_init sys (ep_tmp ep) (pr_lcores p) (pr_h p)))
      else ret (rte_eal_hugepage_attach sys (ep_tmp ep) (ep_errno ep) (ep_table ep) (pr_h p))) = ret (s, retval)"
    using assms by (auto simp: rte_eal_memory_init_def res_bind_ret)
  define q where "q = p\<lparr>pr_h := s, pr_eal := (pr_eal p)\<lparr>e_mem := ep_memory ep (h_memseg s) (e_mem (pr_eal p))\<rparr>\<rparr>"
  have "(if retval < 0 then ret (q, -1) else if \<not> ep_no_shconf ep
      then let (p, r) = rte_eal_memdevice_init q in ret (p, if r < 0 then -1 else 0) else ret (q, 0)) = ret (p', r)"
    using assms unfolding rte_eal_memory_init_def h q_def by (simp add: Let_def split del: if_split)
  then show ?thesis
    by (cases "retval < 0"; cases "ep_no_shconf ep"; cases "rte_eal_process_type q = RTE_PROC_SECONDARY")
      (auto simp: rte_eal_memdevice_init_def kept_def q_def)
qed

lemma fail_late:
  assumes "init_fail ep msg e False q = ret (p', r)" "kept p q"
  shows "kept p p' \<and> e_errno (pr_eal p') = e"
  using fail_kept [OF assms(1)] assms(2) by (simp add: kept_def)

text \<open>
  The error codes from the memory on: \<open>rm\<close> is the result of the memory initialisation, behind it come the
  zones, the tail queues and the timers.
\<close>

definition late_error :: "eal_env \<Rightarrow> int \<Rightarrow> int \<Rightarrow> bool" where
  "late_error ep rm e \<longleftrightarrow>
     (if rm < 0 then e = ENOMEM else e = ENODEV \<or> e = EFAULT \<or> e = ENOTSUP \<and> ep_timer_init ep < 0)"

lemma objects_kept:
  assumes "init_objects sys ep p = ret (p', r)"
  shows "kept p p' \<and> (\<exists>q rm. rte_eal_memory_init sys ep p = ret (q, rm) \<and>
    (r < 0 \<longrightarrow> 0 \<le> ep_fctret ep \<longrightarrow> late_error ep rm (e_errno (pr_eal p'))))"
proof -
  obtain p1 r1 where 1: "rte_eal_memory_init sys ep p = ret (p1, r1)" using assms by (auto simp: init_objects_def res_bind_ret)
  note k1 = memory_kept [OF 1]
  have "kept p p' \<and> (r < 0 \<longrightarrow> 0 \<le> ep_fctret ep \<longrightarrow> late_error ep r1 (e_errno (pr_eal p')))"
  proof (cases "r1 < 0")
    case True
    then show ?thesis using assms 1 fail_late [OF _ k1] by (simp add: init_objects_def late_error_def)
  next
    case r1: False
    define p2 where "p2 = proc_do (eal_hugedirs_unlock sys) p1"
    obtain e r2 where 2: "rte_eal_memzone_init (pr_eal p2) = ret (e, r2)"
      using assms 1 r1 by (auto simp: init_objects_def res_bind_ret p2_def Let_def)
    define p3 where "p3 = p2\<lparr>pr_eal := e\<rparr>"
    have k3: "kept p p3" using k1 by (simp add: p3_def p2_def kept_def proc_do_def)
    show ?thesis
    proof (cases "r2 < 0")
      case True
      then show ?thesis using assms 1 r1 2 fail_late [OF _ k3] by (simp add: init_objects_def p2_def [symmetric] p3_def [symmetric] late_error_def)
    next
      case r2: False
      obtain t r3 where 3: "rte_eal_tailqs_init (e_tailqs (pr_eal p3)) = Some (t, r3)"
        using assms 1 r1 2 r2
        by (cases "rte_eal_tailqs_init (e_tailqs (pr_eal p3))") (auto simp: init_objects_def p2_def [symmetric] p3_def [symmetric])
      define p4 where "p4 = p3\<lparr>pr_eal := (pr_eal p3)\<lparr>e_tailqs := t\<rparr>\<rparr>"
      have k4: "kept p p4" using k3 by (simp add: p4_def kept_def)
      have run: "(if r3 < 0 then init_fail ep (''Cannot init tail queues for objects'' @ [CHR 0x0A]) EFAULT False p4
          else if ep_timer_init ep < 0 then init_fail ep (''Cannot init HPET or TSC timers'' @ [CHR 0x0A]) ENOTSUP False p4
          else init_master sys ep p4) = ret (p', r)"
        using assms 1 r1 2 r2 3 unfolding p4_def
        by (simp add: init_objects_def p2_def [symmetric] p3_def [symmetric] Let_def split del: if_split)
      show ?thesis
      proof (cases "r3 < 0 \<or> ep_timer_init ep < 0")
        case True
        then show ?thesis using run fail_late [OF _ k4] r1 by (cases "r3 < 0") (simp_all add: late_error_def)
      next
        case False
        then have "init_master sys ep p4 = ret (p', r)" using run by simp
        then show ?thesis using k4 by (auto simp: init_master_def res_bind_ret kept_def)
      qed
    qed
  qed
then show ?thesis using 1 by blast
qed

lemma log_init_logs: "rte_eal_log_init stream name facility l = (l', r) \<Longrightarrow> lg_logs l' = lg_logs l"
  by (auto simp: rte_eal_log_init_def eal_log_set_default_def split: if_splits)

text \<open>The process as the memory initialisation finds it: default amount of memory, logging set up.\<close>

definition before_memory :: "eal_env \<Rightarrow> 'os proc \<Rightarrow> 'os proc" where
  "before_memory ep p = (proc_do (\<lambda>s. s\<lparr>h_ic := default_memory (h_ic s)\<rparr>) p)
     \<lparr>pr_log := fst (rte_eal_log_init (ep_log_stream ep) (ep_logid ep) (ep_facility ep) (pr_log p))\<rparr>"

text \<open>The stages of a first start, and what each leaves if it fails.\<close>

definition first_outcome :: "'os sys \<Rightarrow> eal_env \<Rightarrow> 'os proc \<Rightarrow> u32 \<Rightarrow> int \<Rightarrow> bool" where
  "first_outcome sys ep p once e \<longleftrightarrow>
     (\<exists>p1 p2 r2. rte_config_init sys ep (p\<lparr>pr_run_once := 1\<rparr>) = ret p1 \<and> init_hugepage_info sys p1 = ret (p2, r2) \<and>
        (if r2 < 0 then once = 0 \<and> e = EACCES
         else if ep_log_stream ep = 0 then once = 0 \<and> e = ENOMEM
         else once = 1 \<and> (\<exists>q rm. rte_eal_memory_init sys ep (before_memory ep p2) = ret (q, rm) \<and> late_error ep rm e)))"

lemma first_start:
  assumes "pr_run_once p = 0" "rte_eal_init sys ep p = ret (p', r)"
  shows "pr_magic p' = pr_magic p \<and> lg_logs (pr_log p') = lg_logs (pr_log p) \<and>
    (r < 0 \<longrightarrow> 0 \<le> ep_fctret ep \<longrightarrow> first_outcome sys ep p (pr_run_once p') (e_errno (pr_eal p')))"
proof -
  have once: "rte_atomic32_test_and_set 0 = (1, True)"
    by (simp add: rte_atomic32_test_and_set_def rte_atomic32_cmpset_def x86_cmpxchg_def)
  obtain p1 where 1: "rte_config_init sys ep (p\<lparr>pr_run_once := 1\<rparr>) = ret p1"
    using assms once by (auto simp: rte_eal_init_def always_supported res_bind_ret)
  obtain p2 r2 where 2: "init_hugepage_info sys p1 = ret (p2, r2)"
    using assms once 1 by (auto simp: rte_eal_init_def always_supported res_bind_ret)
  have k: "pr_magic p2 = pr_magic p" "lg_logs (pr_log p2) = lg_logs (pr_log p)" "pr_run_once p2 = 1"
    using config_init_kept [OF 1] hugepage_info_kept [OF 2] by (simp_all add: kept_def)
  show ?thesis
  proof (cases "r2 < 0")
    case True
    then have "init_fail ep ''Cannot get hugepage information.'' EACCES True p2 = ret (p', r)"
      using assms once 1 2 by (simp add: rte_eal_init_def always_supported)
    from fail_kept [OF this] show ?thesis using k 1 2 True by (simp add: first_outcome_def)
  next
    case r2: False
    define p3 where "p3 = proc_do (\<lambda>s. s\<lparr>h_ic := default_memory (h_ic s)\<rparr>) p2"
    obtain l r3 where l: "rte_eal_log_init (ep_log_stream ep) (ep_logid ep) (ep_facility ep) (pr_log p3) = (l, r3)" by (rule prod.exhaust)
    have k3: "pr_magic p3 = pr_magic p" "lg_logs l = lg_logs (pr_log p)" "pr_run_once p3 = 1"
      using k log_init_logs [OF l] by (simp_all add: p3_def proc_do_def)
    have before: "p3\<lparr>pr_log := l\<rparr> = before_memory ep p2"
    proof -
      have "pr_log p3 = pr_log p2" by (simp add: p3_def proc_do_def)
      then show ?thesis using l by (simp add: before_memory_def p3_def)
    qed
    have run: "(if r3 < 0 then init_fail ep ''Cannot init logging.'' ENOMEM True (p3\<lparr>pr_log := l\<rparr>)
        else init_objects sys ep (p3\<lparr>pr_log := l\<rparr>)) = ret (p', r)"
      using assms once 1 2 r2 l by (simp add: rte_eal_init_def always_supported p3_def [symmetric] Let_def split del: if_split)
    have r3: "r3 < 0 \<longleftrightarrow> ep_log_stream ep = 0" using l by (auto simp: rte_eal_log_init_def split: if_splits)
    show ?thesis
    proof (cases "r3 < 0")
      case True
      then show ?thesis using fail_kept [of ep "''Cannot init logging.''" ENOMEM True "p3\<lparr>pr_log := l\<rparr>" p' r] run k3 1 2 r2 r3
        by (simp add: first_outcome_def)
    next
      case False
      then have o: "init_objects sys ep (p3\<lparr>pr_log := l\<rparr>) = ret (p', r)" using run by simp
      from objects_kept [OF this] obtain q rm where kp: "kept (p3\<lparr>pr_log := l\<rparr>) p'"
        "rte_eal_memory_init sys ep (before_memory ep p2) = ret (q, rm)"
        "r < 0 \<longrightarrow> 0 \<le> ep_fctret ep \<longrightarrow> late_error ep rm (e_errno (pr_eal p'))"
        unfolding before by blast
      have "first_outcome sys ep p (pr_run_once p') (e_errno (pr_eal p'))" if "r < 0" "0 \<le> ep_fctret ep"
      proof -
        have "pr_run_once p' = 1" using kp(1) k3 by (simp add: kept_def)
        moreover have "ep_log_stream ep \<noteq> 0" using False r3 by simp
        ultimately show ?thesis unfolding first_outcome_def using 1 2 r2 kp(2,3) that
          by (intro exI [of _ p1] exI [of _ p2] exI [of _ r2]) auto
      qed
      then show ?thesis using kp(1) k3 by (simp add: kept_def)
    qed
  qed
qed

text \<open>
  C38. What is left of a failed start. If it was not the first one only \<^verbatim>\<open>rte_errno\<close> and what has been
  printed change. A first start that fails while the huge pages are looked up (\<^verbatim>\<open>EACCES\<close>) or logging is set up (\<^verbatim>\<open>ENOMEM\<close>)
  clears the flag, so that it can be tried again. A failure of a later stage is final: \<^verbatim>\<open>ENOMEM\<close> for the memory, and
  \<^verbatim>\<open>ENODEV\<close>, \<^verbatim>\<open>EFAULT\<close> or, if the timers failed, \<^verbatim>\<open>ENOTSUP\<close> behind it; the flag stays set, and every other call is refused
  with \<^verbatim>\<open>EALREADY\<close> whatever its arguments are.
\<close>

theorem eal_init_failures:
  assumes "types_wf (lg_logs (pr_log p))" "0 \<le> ep_fctret ep" "rte_eal_init sys ep p = ret (p', r)" "r < 0"
  shows "if pr_run_once p \<noteq> 0 then \<exists>l. p' = p\<lparr>pr_log := l, pr_eal := set_errno EALREADY (pr_eal p)\<rparr>
    else first_outcome sys ep p (pr_run_once p') (e_errno (pr_eal p')) \<and>
      (pr_run_once p' \<noteq> 0 \<longrightarrow>
        (\<forall>sys ep. \<exists>l. rte_eal_init sys ep p' = ret (p'\<lparr>pr_log := l, pr_eal := set_errno EALREADY (pr_eal p')\<rparr>, -1)))"
proof (cases "pr_run_once p = 0")
  case True
  from first_start [OF this assms(3)] have f: "lg_logs (pr_log p') = lg_logs (pr_log p)"
    "first_outcome sys ep p (pr_run_once p') (e_errno (pr_eal p'))"
    using assms(2,4) by simp_all
  have "types_wf (lg_logs (pr_log p'))" using f(1) assms(1) by simp
  note again = already_run [OF this]
  show ?thesis using f(2) again True by simp
next
  case False
  then show ?thesis using already_run [OF assms(1), of sys ep] assms(3) by auto
qed

section \<open>The magic number\<close>

lemma wait_complete_magic: "rte_eal_mcfg_wait_complete magic n = Some k \<Longrightarrow> magic k = RTE_MAGIC"
  by (erule rte_eal_mcfg_wait_complete.raw_induct [rotated]) (auto split: if_splits)

text \<open>
  C39. The initialisation never writes the magic number, as \<^verbatim>\<open>rte_eal_mcfg_complete\<close> is not called: a secondary process
  that reads the number a primary process left there waits for it forever.
\<close>

theorem eal_init_magic:
  assumes "pr_run_once p = 0" "pr_magic p \<noteq> RTE_MAGIC" "rte_eal_init sys ep p = ret (p', r)"
  shows "pr_magic p' = pr_magic p \<and> rte_eal_mcfg_wait_complete (\<lambda>_. pr_magic p') 0 = None"
proof -
  have "pr_magic p' = pr_magic p" using first_start [OF assms(1,3)] by simp
  moreover have "rte_eal_mcfg_wait_complete (\<lambda>_. pr_magic p) 0 = None"
    using wait_complete_magic [of "\<lambda>_. pr_magic p" 0] assms(2) by (cases "rte_eal_mcfg_wait_complete (\<lambda>_. pr_magic p) 0") auto
  ultimately show ?thesis by simp
qed

section \<open>A concrete start\<close>

text \<open>
  The system with one free huge page, nothing shared with other processes, and one
  tail queue registered by the program; printed messages are all accepted.
\<close>

definition demo_ep :: eal_env where
  "demo_ep = \<lparr>ep_cpu = crystal_cpu 2 200, ep_no_shconf = True, ep_facility = 24, ep_log_stream = 1, ep_stderr = 2,
     ep_print = (\<lambda>_ _. 0), ep_logid = ''rte'', ep_fctret = 0, ep_timer_init = 0, ep_tmp = 0, ep_errno = 0,
     ep_sizeof_config = 0x10000, ep_table = [], ep_shared_magic = (\<lambda>_. 0), ep_shared_cfg_addr = 0, ep_shared_memseg = no_segs,
     ep_setaff = 0, ep_memory = (\<lambda>segs _. demo_boot\<lparr>m_seg := segs\<rparr>)\<rparr>"

definition demo_proc :: "nat proc" where
  "demo_proc = \<lparr>pr_h = info_start, pr_eal = demo_config\<lparr>e_tailqs := demo_tailqs\<lparr>tq_local := [0]\<rparr>\<rparr>, pr_log = log_demo_start,
     pr_lcores = demo_lcores, pr_default_size = 0, pr_run_once = 0, pr_mem_cfg_fd = -1, pr_mem_config = 0, pr_magic = 0,
     pr_nchannel = 0, pr_nrank = 0, pr_mem_cfg_addr = 0\<rparr>"

lemma demo_proc_fields [simp]:
  "pr_h demo_proc = info_start" "pr_eal demo_proc = demo_config\<lparr>e_tailqs := demo_tailqs\<lparr>tq_local := [0]\<rparr>\<rparr>" "pr_run_once demo_proc = 0"
  "pr_log demo_proc = log_demo_start" "pr_lcores demo_proc = demo_lcores" "pr_default_size demo_proc = 0" "pr_magic demo_proc = 0"
  by (simp_all add: demo_proc_def)

lemma demo_laws: "start_laws slot_sys slot_regs" "huge_dirs_law slot_sys" "memory_law demo_ep"
proof -
  show "start_laws slot_sys slot_regs" using slot_laws by (simp add: start_laws_def quiet_def slot_sys_def)
  show "huge_dirs_law slot_sys" by (simp add: huge_dirs_law_def info_dirs)
  show "memory_law demo_ep" by (simp add: memory_law_def demo_ep_def fresh_mem_def demo_boot_def)
qed

lemma demo_start: "start_ok slot_sys demo_proc"
  by (simp add: start_ok_def default_ok_def config_shape_def info_start_def one_page_start_def one_page_ic_def demo_ic_def
    MAX_HUGEPAGE_SIZES_def RTE_MAX_NUMA_NODES_def no_size_def no_segs_def demo_config_def demo_tailqs_def)

lemma demo_tailqs_init: "\<exists>t. rte_eal_tailqs_init (demo_tailqs\<lparr>tq_local := [0]\<rparr>) = Some (t, 0)"
proof -
  have "(case rte_eal_tailqs_init (demo_tailqs\<lparr>tq_local := [0]\<rparr>) of Some (t, r) \<Rightarrow> r = 0 | None \<Rightarrow> False)" by code_simp
  then show ?thesis by (auto split: option.splits)
qed

lemma demo_master: "\<exists>ls. eal_thread_init_master slot_sys os 0 0 demo_lcores = ret ls"
  by (simp add: eal_thread_init_master_def eal_thread_set_affinity_def rte_thread_set_affinity_def demo_lcores_def arr_get_def arr_set_def
    lift_opt_def Let_def rte_lcore_id_def)

lemma demo_runs: "\<exists>p'. rte_eal_init slot_sys demo_ep demo_proc = ret (p', 0)"
proof -
  have ep: "ep_no_shconf demo_ep" "ep_log_stream demo_ep = 1" "ep_tmp demo_ep = 0" "ep_timer_init demo_ep = 0"
    "ep_fctret demo_ep = 0" "ep_setaff demo_ep = 0"
    by (simp_all add: demo_ep_def)
  define q where "q = demo_proc\<lparr>pr_run_once := 1\<rparr>"
  have once: "rte_atomic32_test_and_set 0 = (1, True)" 
    by (simp add: rte_atomic32_test_and_set_def rte_atomic32_cmpset_def x86_cmpxchg_def)
  have type: "ic_process_type (h_ic info_start) = RTE_PROC_PRIMARY" "\<not> ic_no_hugetlbfs (h_ic info_start)"
    by (simp_all add: info_start_def one_page_ic_def demo_ic_def)
  define q1 where "q1 = q\<lparr>pr_eal := (pr_eal q)\<lparr>e_process_type := RTE_PROC_PRIMARY\<rparr>\<rparr>"
  have 1: "rte_config_init slot_sys demo_ep q = ret q1"
    by (simp add: rte_config_init_def rte_eal_process_type_def rte_eal_config_create_def ep type q_def q1_def)
  define q2 where "q2 = q1\<lparr>pr_h := one_page_start, pr_default_size := 0x200000\<rparr>"
  have 2: "init_hugepage_info slot_sys q1 = ret (q2, 0)"
    by (simp add: init_hugepage_info_def q1_def q2_def q_def type info_result)
  have "default_memory (h_ic one_page_start) = h_ic one_page_start"
    by (simp add: default_memory_def one_page_start_def one_page_ic_def demo_ic_def)
  then have dm: "proc_do (\<lambda>s. s\<lparr>h_ic := default_memory (h_ic s)\<rparr>) q2 = q2"
    by (cases q1) (simp add: proc_do_def q2_def)
  obtain l where 3: "rte_eal_log_init 1 (ep_logid demo_ep) (ep_facility demo_ep) log_demo_start = (l, 0)"
    by (simp add: rte_eal_log_init_def)
  have log: "pr_log q2 = log_demo_start" by (simp add: q2_def q1_def q_def)
  define q3 where "q3 = q2\<lparr>pr_log := l\<rparr>"
  obtain s table where h: "rte_eal_hugepage_init slot_sys 0 demo_lcores one_page_start = Some (s, table, 0)"
    using one_page_boots by blast
  obtain N where N: "segs_ok (h_memseg s) N" 
    using init_segments [OF slot_laws _ _ _ h] 
    by (auto simp: one_page_start_def one_page_ic_def one_size_def demo_ic_def sizes_ok_def hp_sizes_def no_segs_def)
  define q4 where "q4 = q3\<lparr>pr_h := s, pr_eal := (pr_eal q3)\<lparr>e_mem := ep_memory demo_ep (h_memseg s) (e_mem (pr_eal q3))\<rparr>\<rparr>"
  have 4: "rte_eal_memory_init slot_sys demo_ep q3 = ret (q4, 0)"
    by (simp add: rte_eal_memory_init_def rte_eal_process_type_def q4_def q3_def q2_def q1_def q_def ep h Let_def)
  define q5 where "q5 = proc_do (eal_hugedirs_unlock slot_sys) q4"
  have e5: "pr_eal q5 = pr_eal q4" by (simp add: q5_def proc_do_def)
  have "eal_boot_ok 0 (pr_eal q4) N"
    using fresh_boot [OF N] demo_laws(3) N
    by (simp add: eal_boot_ok_def q4_def q3_def q2_def q1_def q_def memory_law_def demo_config_def)
  from memzone_init_ok [OF this] obtain e where e: "rte_eal_memzone_init (pr_eal q5) = ret (e, 0)" unfolding e5 by blast
  have tq: "e_tailqs e = demo_tailqs\<lparr>tq_local := [0]\<rparr>"
    using memzone_init_tailqs [OF e] by (simp add: e5 q4_def q3_def q2_def q1_def q_def)
  from demo_tailqs_init obtain t where t: "rte_eal_tailqs_init (e_tailqs e) = Some (t, 0)" unfolding tq by blast
  have ls: "pr_lcores q5 = demo_lcores" by (simp add: q5_def proc_do_def q4_def q3_def q2_def q1_def q_def)
  have master: "ls_master_lcore demo_lcores = 0" "\<exists>b. eal_check_mem_on_local_socket demo_lcores h = Some b" for h
    by (simp_all add: demo_lcores_def eal_check_mem_on_local_socket_def rte_lcore_to_socket_id_def arr_get_def)
  obtain b where b: "eal_check_mem_on_local_socket demo_lcores (pr_h q5) = Some b" using master(2) by blast
  obtain ls' where ls': "eal_thread_init_master slot_sys (h_os (pr_h q5)) 0 0 demo_lcores = ret ls'" using demo_master by blast
  have m: "\<exists>p'. init_master slot_sys demo_ep (q5\<lparr>pr_eal := e\<lparr>e_tailqs := t\<rparr>\<rparr>) = ret (p', 0)"
    using b ls' by (simp add: init_master_def ls master ep)
  have "\<exists>p'. init_objects slot_sys demo_ep q3 = ret (p', 0)"
    using m by (simp add: init_objects_def 4 q5_def [symmetric] e t ep)
  moreover have "rte_eal_init slot_sys demo_ep demo_proc = init_objects slot_sys demo_ep q3"
    using 1 2 3 dm log by (simp add: rte_eal_init_def always_supported ep once q_def [symmetric] q3_def)
  ultimately show ?thesis by simp
qed


theorem eal_init_boots_witness:
  "\<exists>p' N. rte_eal_init slot_sys demo_ep demo_proc = ret (p', 0) \<and>
     segs_ok (h_memseg (pr_h p')) N \<and> segs_mapped (slot_regs (h_os (pr_h p'))) (h_memseg (pr_h p')) N \<and>
     mz_ok 0 (pr_eal p') {} \<and> tl_head (tq_elem (e_tailqs (pr_eal p')) 0) \<noteq> None"
proof -
  obtain p' where p': "rte_eal_init slot_sys demo_ep demo_proc = ret (p', 0)" using demo_runs by blast
  from eal_init_boots [OF demo_laws demo_start p'] have "\<exists>N. segs_ok (h_memseg (pr_h p')) N \<and>
      segs_mapped (slot_regs (h_os (pr_h p'))) (h_memseg (pr_h p')) N" "mz_ok 0 (pr_eal p') {}"
    "tl_head (tq_elem (e_tailqs (pr_eal p')) 0) \<noteq> None" by simp_all
  then show ?thesis using p' by blast
qed

text \<open>A first start without a stream for the log.\<close>

lemma demo_start_stages:
  assumes "ep_no_shconf ep"
  shows "\<exists>p1 p2. rte_config_init slot_sys ep (demo_proc\<lparr>pr_run_once := 1\<rparr>) = ret p1 \<and>
    init_hugepage_info slot_sys p1 = ret (p2, 0) \<and> lg_logs (pr_log p2) = lg_logs log_demo_start"
proof -
  define q where "q = demo_proc\<lparr>pr_run_once := 1\<rparr>"
  have type: "ic_process_type (h_ic info_start) = RTE_PROC_PRIMARY" "\<not> ic_no_hugetlbfs (h_ic info_start)"
    by (simp_all add: info_start_def one_page_ic_def demo_ic_def)
  define q1 where "q1 = q\<lparr>pr_eal := (pr_eal q)\<lparr>e_process_type := RTE_PROC_PRIMARY\<rparr>\<rparr>"
  have "rte_config_init slot_sys ep q = ret q1"
    by (simp add: rte_config_init_def rte_eal_process_type_def rte_eal_config_create_def assms type q_def q1_def)
  moreover have "init_hugepage_info slot_sys q1 = ret (q1\<lparr>pr_h := one_page_start, pr_default_size := 0x200000\<rparr>, 0)"
    by (simp add: init_hugepage_info_def q1_def q_def type info_result)
  ultimately show ?thesis by (auto simp: q_def [symmetric]) (simp add: q1_def q_def)
qed

lemma demo_log_fails: "\<exists>p'. rte_eal_init slot_sys (demo_ep\<lparr>ep_log_stream := 0\<rparr>) demo_proc = ret (p', -1)"
proof -
  let ?ep = "demo_ep\<lparr>ep_log_stream := 0\<rparr>"
  have once: "rte_atomic32_test_and_set 0 = (1, True)"
    by (simp add: rte_atomic32_test_and_set_def rte_atomic32_cmpset_def x86_cmpxchg_def)
  have "ep_no_shconf ?ep" by (simp add: demo_ep_def)
  from demo_start_stages [OF this] obtain p1 p2 where p: "rte_config_init slot_sys ?ep (demo_proc\<lparr>pr_run_once := 1\<rparr>) = ret p1"
    "init_hugepage_info slot_sys p1 = ret (p2, 0)" "lg_logs (pr_log p2) = lg_logs log_demo_start" by blast
  define p3 where "p3 = proc_do (\<lambda>s. s\<lparr>h_ic := default_memory (h_ic s)\<rparr>) p2"
  have l3: "lg_logs (pr_log p3) = lg_logs log_demo_start" using p(3) by (simp add: p3_def proc_do_def)
  have "types_wf (lg_logs (pr_log (p3\<lparr>pr_log := pr_log p3\<rparr>)))"
    using l3 by (simp add: types_wf_def log_demo_start_def rte_logs_start_def log_id_def)
  from alert_ok [OF this, of ?ep "''Cannot init logging.''"]
  have "\<exists>p'. init_fail ?ep ''Cannot init logging.'' ENOMEM True (p3\<lparr>pr_log := pr_log p3\<rparr>) = ret (p', -1)"
    by (auto simp: init_fail_def Let_def)
  then show ?thesis
    using p(1,2) by (simp add: rte_eal_init_def always_supported once p3_def [symmetric] rte_eal_log_init_def)
qed

theorem eal_init_failures_witness:
  "\<exists>p'. rte_eal_init slot_sys (demo_ep\<lparr>ep_log_stream := 0\<rparr>) demo_proc = ret (p', -1) \<and>
     pr_run_once p' = 0 \<and> e_errno (pr_eal p') = ENOMEM"
proof -
  let ?ep = "demo_ep\<lparr>ep_log_stream := 0\<rparr>"
  have wf: "types_wf (lg_logs (pr_log demo_proc))"
    by (simp add: types_wf_def log_demo_start_def rte_logs_start_def log_id_def)
  obtain p' where p': "rte_eal_init slot_sys ?ep demo_proc = ret (p', -1)" using demo_log_fails by blast
  have "ep_no_shconf ?ep" by (simp add: demo_ep_def)
  from demo_start_stages [OF this] obtain p1 p2 where p: "rte_config_init slot_sys ?ep (demo_proc\<lparr>pr_run_once := 1\<rparr>) = ret p1"
    "init_hugepage_info slot_sys p1 = ret (p2, 0)" by blast
  have "first_outcome slot_sys ?ep demo_proc (pr_run_once p') (e_errno (pr_eal p'))"
    using eal_init_failures [OF wf _ p'] by (simp add: demo_ep_def)
  then show ?thesis using p p' by (simp add: first_outcome_def)
qed

theorem eal_init_magic_witness:
  "\<exists>p'. rte_eal_init slot_sys demo_ep demo_proc = ret (p', 0) \<and> pr_magic p' = 0 \<and> rte_eal_mcfg_wait_complete (\<lambda>_. 0) 0 = None"
proof -
  obtain p' where p': "rte_eal_init slot_sys demo_ep demo_proc = ret (p', 0)" using demo_runs by blast
  then show ?thesis using eal_init_magic [OF _ _ p'] p' by (auto simp: RTE_MAGIC_def)
qed

end
