(* ===== verification/Eal_Args_Correct.thy ===== *)
theory Eal_Args_Correct
  imports Eal_Init Cstring_Correct Demo_System
begin

text \<open>The argument \<^verbatim>\<open>--socket-mem\<close>: amounts in MB, one for each socket, are read back as they are written.\<close>

lemma digit_char_cases: "k < 10 \<Longrightarrow> isdigit (digit_char k) \<and> digit_char k \<noteq> CHR '','' \<and> digit_char k \<noteq> NUL"
  unfolding digit_cases by (auto simp: digit_char_def isdigit_def)

lemma decimal_chars: "decimal n \<noteq> [] \<and> (\<forall>c \<in> set (decimal n). isdigit c \<and> c \<noteq> CHR '','' \<and> c \<noteq> NUL)"
proof (induction n rule: decimal.induct)
  case (1 n)
  then show ?case by (cases "n < 10") (auto simp: decimal.simps [of n] digit_char_cases)
qed

lemma strtoull_amount:
  assumes "n < 2 ^ 64"
  shows "strtoull (decimal n) 10 = (of_nat n, [], False)"
proof (cases "n = 0")
  case True
  have "decimal 0 = ''0''" by (simp add: decimal.simps digit_char_def)
  moreover have "strtoull ''0'' 10 = (0, [], False)"
    by (simp add: strtoull_def strto_prefix_def isspace_def digit_val_def digits_val_def)
  ultimately show ?thesis using True by simp
next
  case False
  then show ?thesis using strtoull_decimal [of n "[]" 10] assms by simp
qed

definition megabytes :: "nat \<Rightarrow> u64" where "megabytes n = of_nat n * 1024 * 1024"

lemma socket_mem_loop_reads:
  assumes "\<forall>n \<in> set ns. n < 2 ^ 64" "i + length ns \<le> length sz"
  shows "socket_mem_loop (map decimal ns) i sz tot =
    (take i sz @ map megabytes ns @ drop (i + length ns) sz, Some (tot + sum_list (map megabytes ns)))"
  using assms
proof (induction ns arbitrary: i sz tot)
  case (Cons n ns)
  let ?sz = "sz[i := megabytes n]"
  have len: "i < length sz" "Suc i + length ns \<le> length ?sz" using Cons.prems(2) by simp_all
  have "socket_mem_loop (map decimal (n # ns)) i sz tot = socket_mem_loop (map decimal ns) (Suc i) ?sz (tot + megabytes n)"
    using Cons.prems(1) strtoull_amount [of n] decimal_chars [of n] by (simp add: megabytes_def Let_def)
  moreover have "take (Suc i) ?sz = take i sz @ [megabytes n]" using len(1) by (simp add: take_Suc_conv_app_nth)
  ultimately show ?case using Cons.IH [of "Suc i" ?sz "tot + megabytes n"] Cons.prems(1) len(2) by (simp add: add.assoc)
qed simp

lemma sum_megabytes: "sum_list (map megabytes ns) = megabytes (sum_list ns)"
  by (induction ns) (simp_all add: megabytes_def algebra_simps)

lemma megabytes_pos:
  assumes "0 < n" "n < 2 ^ 44"
  shows "megabytes n \<noteq> 0"
proof -
  have "megabytes n = of_nat (n * 2 ^ 20)" by (simp add: megabytes_def)
  moreover have "unat (of_nat (n * 2 ^ 20) :: u64) = n * 2 ^ 20" using assms(2) by (intro unat_of_nat_small) simp
  ultimately show ?thesis using assms(1) by auto
qed

lemma last_join: "ws \<noteq> [] \<Longrightarrow> last ws \<noteq> [] \<Longrightarrow> join d ws \<noteq> [] \<and> last (join d ws) = last (last ws)"
proof (induction ws)
  case (Cons w ws)
  then show ?case by (cases ws) auto
qed simp

text \<open>
  C28. A list of amounts, printed in decimal and separated by commas, is read back: the amounts of the first
  sockets are these amounts in bytes, those of the other sockets are left, and the call succeeds if there is any memory.
\<close>

theorem socket_mem_round_trip:
  assumes "ns \<noteq> []" "length ns \<le> RTE_MAX_NUMA_NODES" "0 < sum_list ns" "sum_list ns < 2 ^ 44"
    "length (join CHR '','' (map decimal ns)) < SOCKET_MEM_STRLEN" "length (ic_socket_mem ic) = RTE_MAX_NUMA_NODES"
  shows "eal_parse_socket_mem (join CHR '','' (map decimal ns)) ic =
    ret (ic\<lparr>ic_force_sockets := True, ic_socket_mem := map megabytes ns @ drop (length ns) (ic_socket_mem ic)\<rparr>, 0)"
proof -
  let ?s = "join CHR '','' (map decimal ns)"
  have small: "n < 2 ^ 44" if "n \<in> set ns" for n using member_le_sum_list [OF that] assms(4) by simp
  have plain: "\<forall>w \<in> set (map decimal ns). plain CHR '','' w" using decimal_chars by (auto simp: plain_def)
  have ne: "map decimal ns \<noteq> []" "last (map decimal ns) \<noteq> []" using assms(1) decimal_chars by (simp_all add: last_map)
  note join = last_join [OF ne, of "CHR '',''"]
  have dig: "isdigit (last ?s)" using join decimal_chars [of "last ns"] assms(1) by (simp add: last_map)
  have len: "length (map decimal ns) \<le> RTE_MAX_NUMA_NODES" using assms(2) by simp
  note split = strsplit_words [OF plain ne len, of "int (length ?s)"]
  obtain buf arg arg_num where sp: "rte_strsplit (Some ?s) (int (length ?s)) RTE_MAX_NUMA_NODES CHR '','' = (buf, arg, arg_num)"
    by (rule prod_cases3)
  have args: "map (token_at buf) arg = map decimal ns" "arg_num = int (length ns)"
    using split by (simp_all add: split_tokens_def sp)
  have "socket_mem_loop (map decimal ns) 0 (ic_socket_mem ic) 0 =
      (map megabytes ns @ drop (length ns) (ic_socket_mem ic), Some (megabytes (sum_list ns)))"
    using socket_mem_loop_reads [of ns 0 "ic_socket_mem ic" 0] small assms(2,6) by (force simp: sum_megabytes)
  then show ?thesis
    using assms(1,5) join dig megabytes_pos [OF assms(3,4)] by (simp add: eal_parse_socket_mem_def sp args not_le)
qed

theorem socket_mem_round_trip_witness:
  "eal_parse_socket_mem ''1024,0,2048'' one_page_ic =
     ret (one_page_ic\<lparr>ic_force_sockets := True, ic_socket_mem := [0x40000000, 0, 0x80000000, 0, 0, 0, 0, 0]\<rparr>, 0)"
proof -
  have d: "decimal 1024 = ''1024''" "decimal 0 = ''0''" "decimal 2048 = ''2048''" by (simp_all add: decimal.simps digit_char_def)
  have "ic_socket_mem one_page_ic = [0x200000, 0, 0, 0, 0, 0, 0, 0]" by (simp add: one_page_ic_def)
  then show ?thesis
    using socket_mem_round_trip [of "[1024, 0, 2048]" one_page_ic]
    by (simp add: d RTE_MAX_NUMA_NODES_def SOCKET_MEM_STRLEN_def megabytes_def)
qed

end
