(* ===== verification/Time.thy ===== *)
theory Time
  imports Prelude
begin

text \<open>
  Conversion of a counter of cycles to nanoseconds (\<^verbatim>\<open>common/include/rte_time.h\<close>). The counter may be narrower than 64
  bits and wrap around; a nanosecond is a power of two of its cycles.
\<close>

definition NSEC_PER_SEC :: u64 where "NSEC_PER_SEC = 1000000000"

record rte_timecounter =
  tc_cycle_last :: u64
  tc_nsec :: u64
  tc_nsec_mask :: u64
  tc_nsec_frac :: u64
  tc_cc_mask :: u64
  tc_cc_shift :: u32

definition rte_cyclecounter_cycles_to_ns :: "rte_timecounter \<Rightarrow> u64 \<Rightarrow> rte_timecounter \<times> u64" where
  "rte_cyclecounter_cycles_to_ns tc cycles =
     (let ns = cycles + tc_nsec_frac tc
      in (tc\<lparr>tc_nsec_frac := ns AND tc_nsec_mask tc\<rparr>, drop_bit (unat (tc_cc_shift tc)) ns))"

definition cycle_delta :: "rte_timecounter \<Rightarrow> u64 \<Rightarrow> u64" where
  "cycle_delta tc cycle_now =
     (if tc_cycle_last tc \<le> cycle_now then (cycle_now - tc_cycle_last tc) AND tc_cc_mask tc
      else (NOT (tc_cycle_last tc - cycle_now) AND tc_cc_mask tc) + 1)"

definition rte_timecounter_update :: "rte_timecounter \<Rightarrow> u64 \<Rightarrow> rte_timecounter \<times> u64" where
  "rte_timecounter_update tc cycle_now =
     (let (tc, ns_offset) = rte_cyclecounter_cycles_to_ns tc (cycle_delta tc cycle_now);
          tc = tc\<lparr>tc_cycle_last := cycle_now, tc_nsec := tc_nsec tc + ns_offset\<rparr>
      in (tc, tc_nsec tc))"

text \<open>Both fields are signed 64-bit integers.\<close>

record timespec =
  tv_sec :: u64
  tv_nsec :: u64

definition rte_timespec_to_ns :: "timespec \<Rightarrow> u64" where
  "rte_timespec_to_ns ts = tv_sec ts * NSEC_PER_SEC + tv_nsec ts"

definition rte_ns_to_timespec :: "u64 \<Rightarrow> timespec" where
  "rte_ns_to_timespec nsec =
     (if nsec = 0 then \<lparr>tv_sec = 0, tv_nsec = 0\<rparr>
      else \<lparr>tv_sec = nsec div NSEC_PER_SEC, tv_nsec = nsec mod NSEC_PER_SEC\<rparr>)"

section \<open>Correctness\<close>

text \<open>
  The fields fit a counter of \<open>b\<close> bits, which showed the time \<open>T\<close> (in cycles since its start) when it was last read.
\<close>

definition clock_ok :: "nat \<Rightarrow> nat \<Rightarrow> rte_timecounter \<Rightarrow> bool" where
  "clock_ok b T tc \<longleftrightarrow> b \<le> 64 \<and> tc_cc_mask tc = mask b \<and> unat (tc_cc_shift tc) < 64 \<and>
     tc_nsec_mask tc = mask (unat (tc_cc_shift tc)) \<and>
     unat (tc_nsec_frac tc) < 2 ^ unat (tc_cc_shift tc) \<and> unat (tc_cycle_last tc) = T mod 2 ^ b"

text \<open>The times at which it is read, close enough for the counter not to wrap around twice.\<close>

fun reads_ok :: "nat \<Rightarrow> nat \<Rightarrow> nat \<Rightarrow> nat list \<Rightarrow> bool" where
  "reads_ok b sh T [] = True"
| "reads_ok b sh T (t # ts) = (T \<le> t \<and> t - T < 2 ^ b \<and> t - T + 2 ^ sh \<le> 2 ^ 64 \<and> reads_ok b sh t ts)"

definition read_all :: "nat \<Rightarrow> nat list \<Rightarrow> rte_timecounter \<Rightarrow> rte_timecounter" where
  "read_all b ts tc = fold (\<lambda>t tc. fst (rte_timecounter_update tc (of_nat (t mod 2 ^ b)))) ts tc"

lemma unat_inj: "unat (x :: u64) = unat y \<Longrightarrow> x = y"
  by (rule unsigned_word_eqI)

lemma unat_not64: "unat (NOT (x :: u64)) = 2 ^ 64 - 1 - unat x"
proof -
  have "NOT x = - 1 - x" by (simp add: not_eq_complement minus_diff_commute)
  then show ?thesis by (simp only:) (subst unat_sub, simp_all add: unsigned_minus_1_eq_mask mask_eq_exp_minus_1)
qed

lemma pow_le_64: "b \<le> 64 \<Longrightarrow> (2::nat) ^ b \<le> 2 ^ 64"
  by (rule power_increasing) simp_all

lemma unat_mod64: "b \<le> 64 \<Longrightarrow> unat (of_nat (t mod 2 ^ b) :: u64) = t mod 2 ^ b"
  using pow_le_64 [of b] mod_less_divisor [of "2 ^ b" t] by (intro unat_of_nat_small) (simp del: mod_less_divisor)

lemma mod_gap:
  fixes T t m :: nat
  assumes "T \<le> t" "t - T < m"
  shows "t - T = (if T mod m \<le> t mod m then t mod m - T mod m else m + t mod m - T mod m)"
proof -
  obtain d where d: "t = T + d" "d < m" using assms by (metis le_add_diff_inverse)
  obtain r where r: "T mod m = r" "r < m" using d(2) by simp
  have "t mod m = (T mod m + d) mod m" unfolding d(1) by (simp only: mod_add_left_eq)
  then have t: "t mod m = (r + d) mod m" unfolding r(1) .
  show ?thesis
  proof (cases "r + d < m")
    case False
    then have "(r + d) mod m = r + d - m" using r d(2) by (simp add: le_mod_geq)
    then show ?thesis unfolding t r(1) using d r False by auto
  next
    case True
    then have "(r + d) mod m = r + d" by simp
    then show ?thesis unfolding t r(1) using d(1) by simp
  qed
qed

lemma div_carry:
  fixes B n S :: nat
  assumes "0 < S"
  shows "(B + n) div S = n div S + (B + n mod S) div S"
proof -
  have "B + n = (B + n mod S) + (n div S) * S" by simp
  then show ?thesis using assms div_mult_self1 [of S "B + n mod S" "n div S"] by (simp add: add.commute)
qed

lemma not_mask:
  assumes "b \<le> 64" "0 < unat (x :: u64)" "unat x < 2 ^ b"
  shows "unat ((NOT x AND mask b) + 1) = 2 ^ b - unat x"
proof -
  have "2 ^ 64 - 1 - unat x = (2 ^ 64 - 2 ^ b) + (2 ^ b - 1 - unat x)" using pow_le_64 [OF assms(1)] assms(3) by linarith
  moreover have "(2 ^ 64 - 2 ^ b) mod 2 ^ b = (0 :: nat)"
    using assms(1) by (metis dvd_diff_nat dvd_refl le_imp_power_dvd dvd_imp_mod_0)
  ultimately have "unat (NOT x AND mask b) = (2 ^ b - 1 - unat x) mod 2 ^ b"
    by (simp only: unat_and_mask unat_not64) (metis mod_add_left_eq add_0)
  then have "unat (NOT x AND mask b) = 2 ^ b - 1 - unat x" using assms(3) by (simp add: less_imp_diff_less)
  then show ?thesis using assms pow_le_64 [OF assms(1)] by (subst unat_add_no_overflow) simp_all
qed

lemma delta_ok:
  assumes "clock_ok b T tc" "T \<le> t" "t - T < 2 ^ b"
  shows "unat (cycle_delta tc (of_nat (t mod 2 ^ b))) = t - T"
proof -
  let ?n = "of_nat (t mod 2 ^ b) :: u64" and ?l = "tc_cycle_last tc"
  have b: "b \<le> 64" "tc_cc_mask tc = mask b" "unat ?l = T mod 2 ^ b" using assms(1) by (simp_all add: clock_ok_def)
  have n: "unat ?n = t mod 2 ^ b" using b by (simp only: unat_mod64)
  note p = pow_le_64 [OF b(1)]
  have lt: "t mod 2 ^ b < 2 ^ b" "T mod 2 ^ b < 2 ^ b" by simp_all
  show ?thesis
  proof (cases "?l \<le> ?n")
    case True
    then have le: "T mod 2 ^ b \<le> t mod 2 ^ b" by (simp only: word_le_nat_alt b n)
    have "unat (?n - ?l) = t mod 2 ^ b - T mod 2 ^ b" using True by (simp only: unat_sub b n)
    then show ?thesis using True le lt mod_gap [OF assms(2,3)] by (simp only: cycle_delta_def if_True unat_and_mask b) (simp add: less_imp_diff_less)
  next
    case False
    then have gt: "t mod 2 ^ b < T mod 2 ^ b" by (simp only: word_le_nat_alt b n)
    have d: "unat (?l - ?n) = T mod 2 ^ b - t mod 2 ^ b" using False gt by (subst unat_sub) (simp_all only: word_le_nat_alt b n less_imp_le)
    have "0 < unat (?l - ?n)" "unat (?l - ?n) < 2 ^ b" using gt lt(2) unfolding d by linarith+
    from not_mask [OF b(1) this] have "unat ((NOT (?l - ?n) AND mask b) + 1) = 2 ^ b - (T mod 2 ^ b - t mod 2 ^ b)"
      by (simp only: d)
    then show ?thesis using False gt mod_gap [OF assms(2,3)] by (simp only: cycle_delta_def if_False b) simp
  qed
qed

lemma update_ok:
  assumes "clock_ok b T tc" "T \<le> t" "t - T < 2 ^ b" "t - T + 2 ^ unat (tc_cc_shift tc) \<le> 2 ^ 64"
  shows "\<exists>tc'. rte_timecounter_update tc (of_nat (t mod 2 ^ b)) = (tc', tc_nsec tc') \<and> clock_ok b t tc' \<and>
    tc_cc_shift tc' = tc_cc_shift tc \<and>
    tc_nsec tc' = tc_nsec tc + of_nat ((t - T + unat (tc_nsec_frac tc)) div 2 ^ unat (tc_cc_shift tc)) \<and>
    unat (tc_nsec_frac tc') = (t - T + unat (tc_nsec_frac tc)) mod 2 ^ unat (tc_cc_shift tc)"
proof -
  let ?d = "cycle_delta tc (of_nat (t mod 2 ^ b))" and ?s = "unat (tc_cc_shift tc)"
  note d = delta_ok [OF assms(1-3)]
  have tc: "b \<le> 64" "tc_nsec_mask tc = mask ?s" "unat (tc_nsec_frac tc) < 2 ^ ?s" using assms(1) by (simp_all add: clock_ok_def)
  have ns: "unat (?d + tc_nsec_frac tc) = t - T + unat (tc_nsec_frac tc)"
    using d tc(3) assms(4) by (subst unat_add_lem [THEN iffD1]) simp_all
  then have "unat (drop_bit ?s (?d + tc_nsec_frac tc)) = (t - T + unat (tc_nsec_frac tc)) div 2 ^ ?s"
    by (subst unat_drop_bit_eq) (simp only: drop_bit_eq_div)
  then have "drop_bit ?s (?d + tc_nsec_frac tc) = of_nat ((t - T + unat (tc_nsec_frac tc)) div 2 ^ ?s)"
    by (metis of_nat_unat ucast_id)
  moreover have "unat ((?d + tc_nsec_frac tc) AND tc_nsec_mask tc) = (t - T + unat (tc_nsec_frac tc)) mod 2 ^ ?s"
    using ns tc by (simp only: unat_and_mask)
  ultimately show ?thesis
    using assms(1) unat_mod64 [OF tc(1)]
    by (simp add: rte_timecounter_update_def rte_cyclecounter_cycles_to_ns_def Let_def clock_ok_def)
qed

lemma reads_last: "reads_ok b sh T ts \<Longrightarrow> T \<le> last (T # ts)"
proof (induction ts arbitrary: T)
  case (Cons t ts)
  then have "T \<le> t" "t \<le> last (t # ts)" by simp_all
  then show ?case by simp
qed simp

text \<open>
  C40. However often the counter is read, the nanoseconds counted are those of all the cycles since the start:
  the cycles of a fraction of a nanosecond are carried over from one reading to the next, also when the counter
  wraps around in between.
\<close>

theorem timecounter_no_drift:
  assumes "clock_ok b T tc" "reads_ok b (unat (tc_cc_shift tc)) T ts"
  shows "tc_nsec (read_all b ts tc) =
    tc_nsec tc + of_nat ((last (T # ts) - T + unat (tc_nsec_frac tc)) div 2 ^ unat (tc_cc_shift tc))"
  using assms
proof (induction ts arbitrary: T tc)
  case Nil
  then show ?case by (simp add: read_all_def clock_ok_def)
next
  case (Cons t ts)
  let ?s = "2 ^ unat (tc_cc_shift tc) :: nat"
  have t: "T \<le> t" "t - T < 2 ^ b" "t - T + ?s \<le> 2 ^ 64" "reads_ok b (unat (tc_cc_shift tc)) t ts" using Cons.prems(2) by (simp_all only: reads_ok.simps)
  from update_ok [OF Cons.prems(1) t(1-3)] obtain tc' where
    u: "rte_timecounter_update tc (of_nat (t mod 2 ^ b)) = (tc', tc_nsec tc')" "clock_ok b t tc'" "tc_cc_shift tc' = tc_cc_shift tc"
      "tc_nsec tc' = tc_nsec tc + of_nat ((t - T + unat (tc_nsec_frac tc)) div ?s)"
      "unat (tc_nsec_frac tc') = (t - T + unat (tc_nsec_frac tc)) mod ?s" by blast
  have "last (t # ts) - T + unat (tc_nsec_frac tc) = (last (t # ts) - t) + (t - T + unat (tc_nsec_frac tc))"
    using t(1) reads_last [OF t(4)] by simp
  then have "(last (t # ts) - T + unat (tc_nsec_frac tc)) div ?s =
      (t - T + unat (tc_nsec_frac tc)) div ?s + (last (t # ts) - t + unat (tc_nsec_frac tc')) div ?s"
    unfolding u(5) by (simp only:) (rule div_carry, simp)
  moreover have "tc_nsec (read_all b ts tc') = tc_nsec tc' + of_nat ((last (t # ts) - t + unat (tc_nsec_frac tc')) div ?s)"
    using Cons.IH [OF u(2)] t(4) u(3) by simp
  ultimately show ?case using u(1,4) by (simp add: read_all_def)
qed

text \<open>A counter of 8 bits that has four cycles in a nanosecond is read at 250, 300 and 511 cycles.\<close>

definition demo_clock :: rte_timecounter where
  "demo_clock = \<lparr>tc_cycle_last = 201, tc_nsec = 50, tc_nsec_mask = 3, tc_nsec_frac = 1, tc_cc_mask = 255, tc_cc_shift = 2\<rparr>"

theorem timecounter_no_drift_witness: "tc_nsec (read_all 8 [250, 300, 511] demo_clock) = 127"
proof -
  have "clock_ok 8 201 demo_clock" by (simp add: clock_ok_def demo_clock_def mask_numeral)
  moreover have "reads_ok 8 (unat (tc_cc_shift demo_clock)) 201 [250, 300, 511]" by (simp add: demo_clock_def)
  ultimately show ?thesis using timecounter_no_drift [of 8 201 demo_clock "[250, 300, 511]"] by (simp add: demo_clock_def)
qed

lemma timespec_round_trip: "rte_timespec_to_ns (rte_ns_to_timespec n) = n"
  by (simp add: rte_timespec_to_ns_def rte_ns_to_timespec_def div_mult_mod_eq)

lemma timespec_parts:
  assumes "unat (tv_sec ts) < 18446744073" "unat (tv_nsec ts) < 1000000000"
  shows "rte_ns_to_timespec (rte_timespec_to_ns ts) = ts"
proof -
  have u: "unat (rte_timespec_to_ns ts) = unat (tv_sec ts) * 1000000000 + unat (tv_nsec ts)"
    unfolding rte_timespec_to_ns_def NSEC_PER_SEC_def using assms
    by (subst unat_add_lem [THEN iffD1]; subst unat_mult_lem [THEN iffD1]) (simp_all add: unat_mult_lem [THEN iffD1])
  have "unat (rte_timespec_to_ns ts div NSEC_PER_SEC) = unat (tv_sec ts)" "unat (rte_timespec_to_ns ts mod NSEC_PER_SEC) = unat (tv_nsec ts)"
    using assms by (simp_all add: unat_div_distrib unat_mod_distrib u NSEC_PER_SEC_def)
  then have "rte_timespec_to_ns ts div NSEC_PER_SEC = tv_sec ts" "rte_timespec_to_ns ts mod NSEC_PER_SEC = tv_nsec ts"
    by (auto intro: unat_inj)
  then show ?thesis by (cases ts) (auto simp: rte_ns_to_timespec_def)
qed

end
