(* ===== verification/Debug.thy ===== *)
theory Debug
  imports Eal_Init Log_Correct
begin

text \<open>
  Ends of the program (\<^verbatim>\<open>linuxapp/eal/eal_debug.c\<close>), texts of error codes (\<^verbatim>\<open>common/eal_common_errno.c\<close>) and the version
  (\<^verbatim>\<open>common/include/rte_version.h\<close>).
\<close>

section \<open>Ends of the program\<close>

abbreviation RTE_LOG_CRIT :: u32 where "RTE_LOG_CRIT \<equiv> 3"
definition BACKTRACE_SIZE :: nat where "BACKTRACE_SIZE = 256"

text \<open>The symbols from the last one back to the first.\<close>

fun log_symbols :: "(nat \<Rightarrow> string \<Rightarrow> log_state \<Rightarrow> (log_state \<times> int) res) \<Rightarrow> string list \<Rightarrow> nat \<Rightarrow> log_state \<Rightarrow> log_state res" where
  "log_symbols out symb 0 s = ret s"
| "log_symbols out symb (Suc n) s = res_bind (out (Suc n) (symb ! n) s) (\<lambda>(s, _). log_symbols out symb n s)"

text \<open>\<open>symb\<close>: the symbols of the stack, or \<open>None\<close> when there is no memory for them.\<close>

definition rte_dump_stack ::
    "nat \<Rightarrow> (nat \<Rightarrow> string \<Rightarrow> int) \<Rightarrow> nat \<Rightarrow> string list option \<Rightarrow> log_state \<Rightarrow> log_state res" where
  "rte_dump_stack stderr print lcore symb s =
     (case symb of None \<Rightarrow> ret s
      | Some symb \<Rightarrow> log_symbols (\<lambda>size sym. rte_log stderr print lcore RTE_LOG_ERR 0 (decimal size @ '': ['' @ sym @ '']'' @ [CHR 0x0A]))
          (take BACKTRACE_SIZE symb) (length (take BACKTRACE_SIZE symb)) s)"

definition rte_dump_registers :: "log_state \<Rightarrow> log_state" where
  "rte_dump_registers s = s"

text \<open>The state at the call of \<^verbatim>\<open>abort()\<close>; \<open>msg\<close> is the formatted message.\<close>

definition rte_panic ::
    "nat \<Rightarrow> (nat \<Rightarrow> string \<Rightarrow> int) \<Rightarrow> nat \<Rightarrow> string list option \<Rightarrow> string \<Rightarrow> string \<Rightarrow> log_state \<Rightarrow> log_state res" where
  "rte_panic stderr print lcore symb funcname msg s =
     res_bind (rte_log stderr print lcore RTE_LOG_CRIT 0 (''PANIC in '' @ funcname @ ''():'' @ [CHR 0x0A]) s) (\<lambda>(s, _).
     res_bind (rte_vlog stderr print lcore RTE_LOG_CRIT 0 msg s) (\<lambda>(s, _).
     res_bind (rte_dump_stack stderr print lcore symb s) (\<lambda>s.
     ret (rte_dump_registers s))))"

definition RTE_VERIFY ::
    "nat \<Rightarrow> (nat \<Rightarrow> string \<Rightarrow> int) \<Rightarrow> nat \<Rightarrow> string list option \<Rightarrow> string \<Rightarrow> nat \<Rightarrow> string \<Rightarrow> bool \<Rightarrow> log_state \<Rightarrow> (log_state \<times> bool) res" where
  "RTE_VERIFY stderr print lcore symb funcname line exp_text exp' s =
     (if \<not> exp'
      then res_bind (rte_panic stderr print lcore symb funcname
             (''line '' @ decimal line @ [CHR 0x09] @ ''assert '' @ [CHR 0x22] @ exp_text @ [CHR 0x22] @ '' failed'' @ [CHR 0x0A]) s)
             (\<lambda>s. ret (s, False))
      else ret (s, True))"

definition decimal_int :: "int \<Rightarrow> string" where
  "decimal_int i = (if i < 0 then ''-'' @ decimal (nat (- i)) else decimal (nat i))"

text \<open>The state at the call of \<^verbatim>\<open>exit\<close> and its argument.\<close>

definition rte_exit ::
    "nat \<Rightarrow> (nat \<Rightarrow> string \<Rightarrow> int) \<Rightarrow> nat \<Rightarrow> int \<Rightarrow> string \<Rightarrow> log_state \<Rightarrow> (log_state \<times> int) res" where
  "rte_exit stderr print lcore exit_code msg s =
     res_bind (if exit_code \<noteq> 0
               then RTE_LOG stderr print lcore RTE_LOG_CRIT 0 ''EAL''
                      (''Error - exiting with code: '' @ decimal_int exit_code @ [CHR 0x0A] @ ''  Cause: '') s
               else ret (s, 0)) (\<lambda>(s, _).
     res_bind (rte_vlog stderr print lcore RTE_LOG_CRIT 0 msg s) (\<lambda>(s, _).
     res_bind (if rte_eal_cleanup \<noteq> 0
               then RTE_LOG stderr print lcore RTE_LOG_CRIT 0 ''EAL'' (''EAL could not release all resources'' @ [CHR 0x0A]) s
               else ret (s, 0)) (\<lambda>(s, _).
     ret (s, exit_code))))"

section \<open>Error codes\<close>

definition RETVAL_SZ :: nat where "RETVAL_SZ = 256"
definition RTE_MIN_ERRNO :: int where "RTE_MIN_ERRNO = 1000"
definition E_RTE_SECONDARY :: int where "E_RTE_SECONDARY = RTE_MIN_ERRNO + 1"
definition E_RTE_NO_CONFIG :: int where "E_RTE_NO_CONFIG = E_RTE_SECONDARY + 1"
definition RTE_MAX_ERRNO :: int where "RTE_MAX_ERRNO = E_RTE_NO_CONFIG + 1"

text \<open>\<open>strerror_r\<close>: what it writes to a buffer of the given size, or \<open>None\<close> when it fails.\<close>

definition rte_strerror :: "(int \<Rightarrow> nat \<Rightarrow> string option) \<Rightarrow> int \<Rightarrow> string" where
  "rte_strerror strerror_r errnum =
     (let unknown = fst (snprintf_str RETVAL_SZ (''Unknown error'' @ '' '' @ decimal_int errnum))
      in if errnum \<ge> RTE_MAX_ERRNO then unknown
         else if errnum = E_RTE_SECONDARY then ''Invalid call in secondary process''
         else if errnum = E_RTE_NO_CONFIG then ''Missing rte_config structure''
         else case strerror_r errnum RETVAL_SZ of None \<Rightarrow> unknown | Some text' \<Rightarrow> text')"

section \<open>The version\<close>

definition RTE_VER_PREFIX :: string where "RTE_VER_PREFIX = ''DPDK''"
definition RTE_VER_YEAR :: nat where "RTE_VER_YEAR = 18"
definition RTE_VER_MONTH :: nat where "RTE_VER_MONTH = 2"
definition RTE_VER_MINOR :: nat where "RTE_VER_MINOR = 2"
definition RTE_VER_SUFFIX :: string where "RTE_VER_SUFFIX = []"
definition RTE_VER_RELEASE :: nat where "RTE_VER_RELEASE = 16"

definition RTE_VERSION_NUM :: "u32 \<Rightarrow> u32 \<Rightarrow> u32 \<Rightarrow> u32 \<Rightarrow> u32" where
  "RTE_VERSION_NUM a b c d = push_bit 24 a OR push_bit 16 b OR push_bit 8 c OR d"

definition RTE_VERSION :: u32 where
  "RTE_VERSION = RTE_VERSION_NUM (of_nat RTE_VER_YEAR) (of_nat RTE_VER_MONTH) (of_nat RTE_VER_MINOR) (of_nat RTE_VER_RELEASE)"

text \<open>\<^verbatim>\<open>%02d\<close>; and the function with its static buffer, which is also the result.\<close>

definition decimal2 :: "nat \<Rightarrow> string" where
  "decimal2 n = (if n < 10 then ''0'' @ decimal n else decimal n)"

definition rte_version :: "string \<Rightarrow> string" where
  "rte_version version =
     (if version \<noteq> [] then version
      else let v = RTE_VER_PREFIX @ '' '' @ decimal RTE_VER_YEAR @ ''.'' @ decimal2 RTE_VER_MONTH @ ''.'' @ decimal RTE_VER_MINOR
        in if RTE_VER_SUFFIX = [] then fst (snprintf_str 32 v)
           else fst (snprintf_str 32 (v @ RTE_VER_SUFFIX @
             decimal (if RTE_VER_RELEASE < 16 then RTE_VER_RELEASE else RTE_VER_RELEASE - 16))))"

section \<open>Correctness\<close>

text \<open>Ending the program never fails itself, and keeps what was printed before.\<close>

lemma log_ok:
  assumes "types_wf (lg_logs s)"
  shows "\<exists>s' r. rte_vlog stderr print lcore level t msg s = ret (s', r) \<and> lg_logs s' = lg_logs s \<and>
    (\<exists>new. lg_printed s' = lg_printed s @ new)"
  using vlog_cases [OF assms, of stderr print lcore level t msg] by (auto split: if_splits)

lemma symbols_ok:
  assumes "types_wf (lg_logs s)"
  shows "\<exists>s'. log_symbols (\<lambda>size sym. rte_log stderr print lcore RTE_LOG_ERR 0 (f size sym)) symb n s = ret s' \<and>
    lg_logs s' = lg_logs s \<and> (\<exists>new. lg_printed s' = lg_printed s @ new)"
  using assms
proof (induction n arbitrary: s)
  case (Suc n)
  obtain s1 r new where 1: "rte_vlog stderr print lcore RTE_LOG_ERR 0 (f (Suc n) (symb ! n)) s = ret (s1, r)" "lg_logs s1 = lg_logs s"
    "lg_printed s1 = lg_printed s @ new"
    using log_ok [OF Suc.prems] by blast
  from Suc.IH [of s1] 1 Suc.prems show ?case by (auto simp: rte_log_def)
qed simp

lemma panic_ends:
  assumes "types_wf (lg_logs s)"
  shows "\<exists>s'. rte_panic stderr print lcore symb funcname msg s = ret s' \<and> (\<exists>new. lg_printed s' = lg_printed s @ new)"
proof -
  obtain s1 r1 new1 where 1: "rte_vlog stderr print lcore RTE_LOG_CRIT 0 (''PANIC in '' @ funcname @ ''():'' @ [CHR 0x0A]) s = ret (s1, r1)"
    "lg_logs s1 = lg_logs s" "lg_printed s1 = lg_printed s @ new1" using log_ok [OF assms] by blast
  have "types_wf (lg_logs s1)" using 1 assms by simp
  from log_ok [OF this] obtain s2 r2 new2 where 2: "rte_vlog stderr print lcore RTE_LOG_CRIT 0 msg s1 = ret (s2, r2)"
    "lg_logs s2 = lg_logs s1" "lg_printed s2 = lg_printed s1 @ new2" by blast
  have wf: "types_wf (lg_logs s2)" using 1 2 assms by simp
  have "\<exists>s'. rte_dump_stack stderr print lcore symb s2 = ret s' \<and> (\<exists>new. lg_printed s' = lg_printed s2 @ new)"
    using symbols_ok [OF wf, of stderr print lcore "\<lambda>size sym. decimal size @ '': ['' @ sym @ '']'' @ [CHR 0x0A]"
      "take BACKTRACE_SIZE (the symb)" "length (take BACKTRACE_SIZE (the symb))"]
    by (cases symb) (auto simp: rte_dump_stack_def)
  then show ?thesis using 1 2 by (auto simp: rte_panic_def rte_log_def rte_dump_registers_def)
qed

lemma exit_code_kept:
  assumes "types_wf (lg_logs s)"
  shows "\<exists>s'. rte_exit stderr print lcore exit_code msg s = ret (s', exit_code)"
proof -
  obtain s1 r1 where 1: "(if exit_code \<noteq> 0
      then RTE_LOG stderr print lcore RTE_LOG_CRIT 0 ''EAL'' (''Error - exiting with code: '' @ decimal_int exit_code @ [CHR 0x0A] @ ''  Cause: '') s
      else ret (s, 0)) = ret (s1, r1)" "lg_logs s1 = lg_logs s"
    using log_ok [OF assms] by (cases "exit_code = 0") (auto simp: RTE_LOG_def rte_log_def, blast)
  then have "types_wf (lg_logs s1)" using assms by simp
  from log_ok [OF this] obtain s2 r2 where "rte_vlog stderr print lcore RTE_LOG_CRIT 0 msg s1 = ret (s2, r2)" by blast
  then show ?thesis using 1 by (simp add: rte_exit_def rte_eal_cleanup_def del: if_split)
qed

lemma strerror_own: "rte_strerror f 1001 = ''Invalid call in secondary process''" "rte_strerror f 1002 = ''Missing rte_config structure''"
  by (simp_all add: rte_strerror_def RTE_MAX_ERRNO_def E_RTE_NO_CONFIG_def E_RTE_SECONDARY_def RTE_MIN_ERRNO_def)

lemma version_text: "rte_version [] = ''DPDK 18.02.2''" "rte_version (rte_version []) = rte_version []"
proof -
  show 1: "rte_version [] = ''DPDK 18.02.2''"
    by (simp add: rte_version_def RTE_VER_PREFIX_def RTE_VER_YEAR_def RTE_VER_MONTH_def RTE_VER_MINOR_def RTE_VER_SUFFIX_def
      decimal2_def decimal.simps digit_char_def snprintf_str_def)
  show "rte_version (rte_version []) = rte_version []" unfolding 1 by (simp add: rte_version_def)
qed

end
