(* ===== verification/Spec2Isabelle.thy ===== *)
theory Spec2Isabelle
  imports Ring_Concurrent_Inv Rwlock Malloc_Props Ring_Registry_Correct Mempool_Props
    Memcpy_Correct Cstring_Correct Lcore_Correct Hugepage_Boot Launch_Correct
    Log_Correct Hugepage_Info_Correct Eal_Init_Correct Eal_Args_Correct Cpu Time Debug
begin

text \<open>
  A verification of the run-time environment under \<^verbatim>\<open>src/lib\<close>: locks and atomics, the lockless ring, the
  heap, the memory zones, the tail queues, the registry of rings, the memory pools, copying and strings, the
  logical cores and the launch of functions on them, the discovery and mapping of huge pages, logging,
  processor features, and the start-up that brings them together. The model is of
  the x86-64 build with the options of \<^verbatim>\<open>rte_config.h\<close> (128 cores, 8 NUMA nodes, 2560 memory zones, 32 tail
  queues, caches of at most 512 objects; the debug options are off).

  How the parts interact. \<^verbatim>\<open>rte_eal_init\<close> (\<^verbatim>\<open>eal.c\<close>) creates the shared configuration, asks the kernel for its huge
  page sizes (\<^verbatim>\<open>eal_hugepage_info.c\<close>), starts logging (\<^verbatim>\<open>eal_log.c\<close>), maps the huge pages into memory segments
  (\<^verbatim>\<open>eal_memory.c\<close>), puts the heap on them, and initialises the zones and the tail queues. A pool
  (\<^verbatim>\<open>librte_mempool\<close>) keeps its free objects in caches, one for each core,
  and in a backend; the ring backend (\<^verbatim>\<open>driver/ring\<close>) is a ring (\<^verbatim>\<open>librte_ring\<close>). Rings and pools live in
  memory zones (\<^verbatim>\<open>eal_common_memzone.c\<close>) and are listed in tail queues (\<^verbatim>\<open>eal_common_tailqs.c\<close>); zones and list
  entries are taken from the heap (\<^verbatim>\<open>malloc_heap.c\<close>, \<^verbatim>\<open>malloc_elem.c\<close>, \<^verbatim>\<open>rte_malloc.c\<close>). Every shared table is
  under a reader-writer lock, every heap under a spinlock.

  Conventions. Machine integers are words of their width, so that additions wrap around as in C. A C
  function on shared state is a HOL function that takes the state and returns the new one. A result
  in \<open>option\<close> is \<open>None\<close> where the code would loop forever (a lock that is never released) or leave an array;
  a result in \<open>res\<close> adds \<open>abort\<close> with the message of \<^verbatim>\<open>rte_panic\<close> or the kind of fault, so that a theorem
  that states \<open>ret \<dots>\<close> says that the call returns, without deadlock, panic or fault. Loops that may spin are
  \<open>partial_function (option)\<close>; no fuel is used. Error codes are the values of \<^verbatim>\<open>errno.h\<close>.

  Theories, in the order of the layers:
  \<^item> \<open>Prelude\<close>: the result types, words, lists with bounds, C strings. \<open>Common\<close>: \<^verbatim>\<open>rte_common.h\<close>.
  \<^item> \<open>Atomic\<close>: \<^verbatim>\<open>rte_atomic.h\<close> in its x86, i686 and intrinsic versions, and that they agree. \<open>Lock\<close>, \<open>Spinlock\<close>,
    \<open>Rwlock\<close>: the lock interface, the spinlocks (plain, recursive, elided) and the reader-writer locks, with step
    relations for any interleaving of threads, and mutual exclusion by rule induction; lock elision against any hardware
    and any other users of the lock, given by the values its loads return.
  \<^item> \<open>Queue\<close>: the abstract bounded FIFO queue as a locale. \<open>Ring\<close>: \<^verbatim>\<open>rte_ring.h\<close> with the generic and the C11 head
    updates, equal when one thread runs them; \<open>Ring_Copy\<close>: the unrolled copy loops equal the plain ones; \<open>Ring_Queue\<close>: rings implement the queue.
    \<open>Ring_Concurrent\<close>, \<open>Ring_Concurrent_Inv\<close>: the same code as steps of many threads, one access to shared memory
    each, and its invariant: FIFO order, no loss, progress, a well-formed ring at rest, and indices, masked once as in the
    macros, that stay in the object table because no thread is granted more than there is.
  \<^item> \<open>Malloc\<close>: elements and heaps as the code has them. \<open>Malloc_Chain\<close>, \<open>Malloc_Fit\<close>, \<open>Malloc_Lists\<close>, \<open>Malloc_Steps\<close>,
    \<open>Malloc_Inv\<close>: the chain of elements, the fit of a request, the free lists and the heap invariant;
    \<open>Malloc_Alloc\<close>, \<open>Malloc_Free\<close>, \<open>Malloc_Correct\<close>: allocation and release keep it; \<open>Allocator\<close>: the contract as a locale;
    \<open>Malloc_Api\<close>, \<open>Malloc_Init\<close>, \<open>Malloc_Props\<close>: the interface of \<^verbatim>\<open>rte_malloc.h\<close>, initialisation, the properties.
  \<^item> \<open>Tailq\<close>: tail queues. \<open>Directory\<close>: a registry of named objects as a locale. \<open>Eal\<close>: the shared configuration
    \<^verbatim>\<open>struct rte_mem_config\<close>. \<open>Memzone\<close>, \<open>Memzone_Correct\<close>, \<open>Memzone_Props\<close>: memory zones, which are such a registry;
    a zone of length 0 is the biggest that the free elements allow.
  \<^item> \<open>Ring_Registry\<close>, \<open>Ring_Registry_Correct\<close>: \<^verbatim>\<open>rte_ring.c\<close>, also such a registry.
  \<^item> \<open>Mempool\<close>: \<^verbatim>\<open>rte_mempool.h\<close> and \<^verbatim>\<open>rte_mempool_ops.c\<close>; \<open>Mempool_Ring\<close>: the ring backend; \<open>Mempool_Cache\<close>: the contract
    of a backend as a locale, get and put over it; \<open>Mempool_Create\<close>: \<^verbatim>\<open>rte_mempool.c\<close>; \<open>Mempool_Props\<close>: the properties.
  \<^item> \<open>Memcpy\<close>, \<open>Memcpy_Correct\<close>: \<^verbatim>\<open>rte_memcpy\<close> in its SSE, AVX2 and AVX-512 versions, down to single vector loads and
    stores, and that they copy. \<open>Cstring\<close>, \<open>Cstring_Correct\<close>: \<^verbatim>\<open>rte_strsplit\<close>, \<^verbatim>\<open>rte_strlcpy\<close>, \<^verbatim>\<open>rte_str_to_size\<close> with the
    functions of the C library they call, and that they read back what is printed.
  \<^item> \<open>System\<close>: the operating system as a record of calls on an abstract state. \<open>Lcore\<close>, \<open>Lcore_Correct\<close>: detection,
    roles, iteration and affinity of the cores. \<open>Launch\<close>, \<open>Launch_Correct\<close>: \<^verbatim>\<open>eal_thread.c\<close> as steps of the master and
    of the thread of a core in any order; every function sent is called once, and the two never wait for each other forever.
  \<^item> \<open>Hugepage\<close>, \<open>Hugepage_Map\<close>, \<open>Hugepage_Init\<close>: \<^verbatim>\<open>eal_memory.c\<close>: the table of pages, mapping, and the whole initialisation.
    \<open>Hugepage_Correct\<close>: the segments are the maximal runs of pages, and enough pages are taken. \<open>Hugepage_Held\<close>, \<open>Hugepage_Pages\<close>,
    \<open>Hugepage_Props\<close>, \<open>Hugepage_Boot\<close>: what is mapped at each step, up to segments on which the heap starts.
    \<open>Hugepage_Info\<close>, \<open>Hugepage_Info_Correct\<close>: \<^verbatim>\<open>eal_hugepage_info.c\<close>, the discovery. \<open>Demo_System\<close>: the system of the witnesses.
  \<^item> \<open>Log\<close>, \<open>Log_Correct\<close>: \<^verbatim>\<open>eal_common_log.c\<close>, \<^verbatim>\<open>eal_log.c\<close>, \<^verbatim>\<open>rte_log.h\<close>. \<open>Cpu\<close>: the table of processor features, what is
    chosen by them, the frequency of the time stamp counter. \<open>Time\<close>: \<^verbatim>\<open>rte_time.h\<close>.
  \<^item> \<open>Eal_Init\<close>, \<open>Eal_Init_Correct\<close>: \<^verbatim>\<open>eal.c\<close> and \<^verbatim>\<open>eal_common_memory.c\<close>: the shared configuration and \<^verbatim>\<open>rte_eal_init\<close>
    with every error exit, and what holds after it; its state \<open>proc\<close> contains the states of all the parts.
    \<open>Eal_Args_Correct\<close>: the amounts of memory for each socket are read back as written.
    \<open>Debug\<close>: \<^verbatim>\<open>rte_panic\<close>, \<^verbatim>\<open>rte_exit\<close>, \<^verbatim>\<open>rte_strerror\<close>, \<^verbatim>\<open>rte_version\<close>.

  Abstract states. A heap is abstracted to the set of its live regions (address and length), a ring to the
  list of its objects, zones and the ring registry to a map from names to handles, a pool to the multiset
  of its free objects, the memory of the process to the set of its mapped regions.

  Parameters. The operating system is the record \<open>sys\<close> of \<open>System\<close>: opening, locking and mapping files, the lines of a
  file, the names in a directory, the policy of the NUMA nodes. \<open>kernel_laws\<close> and \<open>start_laws\<close> say of it only that
  \<^verbatim>\<open>mmap\<close> returns regions that are new, and that no call but \<^verbatim>\<open>munmap\<close> and \<^verbatim>\<open>mmap\<close> changes the regions; \<open>huge_dirs_law\<close> that the kernel lists
  different sizes; \<open>memory_law\<close> that new pages are zeroed. The record \<open>eal_env\<close> collects what the start takes from
  outside, as the instruction \<^verbatim>\<open>cpuid\<close>, the stream of \<^verbatim>\<open>fopencookie\<close>, the result of \<^verbatim>\<open>rte_eal_timer_init\<close> (not in the repository),
  and two variables that the code does not initialise. For the zones and the pools the physical address of a virtual
  one, the memory channels and ranks, the page size, whether there are huge pages and the socket of the calling
  thread are arguments. The local structure of \<^verbatim>\<open>find_heap_max_free_elem\<close> is an argument as well; \<^verbatim>\<open>malloc_heap_get_stats\<close> fills it in
  before it is read, and no result depends on it.
  Fields that the code uses and the headers do not declare, as \<^verbatim>\<open>no_shconf\<close>, are arguments or fields of the model.

  Not modelled. Memory is sequentially consistent, so that barriers have no effect; hardware transactions
  are an oracle that may abort at any time. The debug cookies and statistics are compiled out. Messages
  that are only printed are dropped outside of \<open>Log\<close>, \<open>Debug\<close> and the error exits of \<^verbatim>\<open>rte_eal_init\<close>; dumps are lists of labels and values.
  \<^verbatim>\<open>eal_log_level_parse\<close> only calls \<^verbatim>\<open>getopt_long\<close> and a parser that is not in the repository. Reading the cycle counter is
  one instruction; prefetches, pauses and branch hints have no effect on the state. The files under \<^verbatim>\<open>build\<close> are generated by CMake.
\<close>

end
